(* ===== verification/Prelude.thy ===== *)
theory Prelude
  imports Main "HOL-Library.Word" "HOL-Library.Signed_Division"
begin

unbundle bit_operations_syntax

text \<open>
  Shared vocabulary of the development.

  \<^item> Type synonyms for Rust's fixed-width integers.
  \<^item> \<open>('s, 'e, 'a) sx\<close>: a computation over a mutable state \<open>'s\<close> that either
    fails with \<open>'e\<close> or returns \<open>'a\<close>. Unlike a plain sum, the state survives a
    failure, as it does for a Rust method with \<open>&mut self\<close> that returns \<open>Err\<close>
    half-way. \<open>sx_triple\<close> is its Hoare triple, with a structural rule per
    combinator (collected in \<open>sx_rules\<close>).
  \<^item> \<open>to_le\<close> / \<open>from_le\<close>: Rust's \<open>to_le_bytes\<close> and \<open>from_le_bytes\<close>.
\<close>

named_theorems sx_apply \<open>what a basic computation does to a state\<close>
named_theorems sx_rules \<open>structural Hoare rules of the state-and-failure computations\<close>

section \<open>Machine integers\<close>

type_synonym u8 = "8 word"
type_synonym u16 = "16 word"
type_synonym u32 = "32 word"
type_synonym u64 = "64 word"
type_synonym i64 = "64 word"
type_synonym u128 = "128 word"
type_synonym i128 = "128 word"

definition usize_max :: nat where
  "usize_max = 2 ^ 64 - 1"

definition u32_max :: u32 where
  "u32_max = 0xFFFFFFFF"

definition i64_of_bool :: "bool \<Rightarrow> i64" where
  "i64_of_bool b = (if b then 1 else 0)"

text \<open>Rust's \<open>i64::MIN\<close>, and the two checked operations: \<open>None\<close> exactly on a zero
  divisor and on \<open>MIN / -1\<close>, whose quotient does not fit.\<close>

definition i64_min :: i64 where
  "i64_min = 0x8000000000000000"

definition checked_sdiv :: "'a::len word \<Rightarrow> 'a word \<Rightarrow> 'a word option" where
  "checked_sdiv a b =
     (if b = 0 \<or> (sint a = - (2 ^ (LENGTH('a) - 1)) \<and> b = - 1) then None
      else Some (word_of_int (sint a sdiv sint b)))"

definition checked_srem :: "'a::len word \<Rightarrow> 'a word \<Rightarrow> 'a word option" where
  "checked_srem a b =
     (if b = 0 \<or> (sint a = - (2 ^ (LENGTH('a) - 1)) \<and> b = - 1) then None
      else Some (word_of_int (sint a smod sint b)))"

lemma checked_sdiv_0 [simp]: "checked_sdiv a 0 = None"
  by (simp add: checked_sdiv_def)

lemma checked_srem_0 [simp]: "checked_srem a 0 = None"
  by (simp add: checked_srem_def)

lemma i64_of_bool_simps [simp]: "i64_of_bool True = 1" "i64_of_bool False = 0"
  by (simp_all add: i64_of_bool_def)

lemma i64_of_bool_eq_0 [simp]: "i64_of_bool b = 0 \<longleftrightarrow> \<not> b"
  by (simp add: i64_of_bool_def)

text \<open>The outcome of a Rust \<open>assert!\<close>, slice index or \<open>unreachable!\<close> that fires: the thread
  panics. A function that can only panic returns \<open>panicked + 'a\<close>.\<close>

datatype panicked = Panicked

section \<open>Little-endian bytes\<close>

primrec to_le :: "nat \<Rightarrow> 'a::len word \<Rightarrow> u8 list" where
  "to_le 0 w = []"
| "to_le (Suc n) w = ucast w # to_le n (drop_bit 8 w)"

primrec from_le :: "u8 list \<Rightarrow> 'a::len word" where
  "from_le [] = 0"
| "from_le (b # bs) = ucast b OR push_bit 8 (from_le bs)"

definition u32_le :: "u32 \<Rightarrow> u8 list" where
  "u32_le w = to_le 4 w"

definition i64_le :: "i64 \<Rightarrow> u8 list" where
  "i64_le w = to_le 8 w"

lemma length_to_le [simp]: "length (to_le n w) = n"
  by (induction n arbitrary: w) auto

lemma length_u32_le [simp]: "length (u32_le w) = 4"
  by (simp add: u32_le_def)

lemma length_i64_le [simp]: "length (i64_le w) = 8"
  by (simp add: i64_le_def)

lemma from_le_to_le_take_bit: "from_le (to_le n w) = take_bit (8 * n) (w :: 'a::len word)"
proof (induction n arbitrary: w)
  case 0
  then show ?case by simp
next
  case (Suc n)
  show ?case
  proof (rule bit_word_eqI)
    fix k assume "k < LENGTH('a)"
    then show "bit (from_le (to_le (Suc n) w) :: 'a word) k \<longleftrightarrow> bit (take_bit (8 * Suc n) w) k"
      by (auto simp: Suc bit_or_iff bit_push_bit_iff bit_take_bit_iff bit_drop_bit_eq
          bit_ucast_iff dest: bit_imp_le_length)
  qed
qed

lemma from_le_to_le: "LENGTH('a) \<le> 8 * n \<Longrightarrow> from_le (to_le n w) = (w :: 'a::len word)"
  by (simp add: from_le_to_le_take_bit take_bit_word_eq_self)

lemma from_le_u32_le [simp]: "from_le (u32_le w) = w"
  by (simp add: u32_le_def from_le_to_le)

lemma from_le_i64_le [simp]: "from_le (i64_le w) = w"
  by (simp add: i64_le_def from_le_to_le)

lemma nth_to_le: "i < n \<Longrightarrow> to_le n w ! i = ucast (drop_bit (8 * i) w)"
  by (induction n arbitrary: w i) (auto simp: nth_Cons ac_simps split: nat.split)

lemma bit_from_le:
  "bit (from_le bs :: 'a::len word) n \<longleftrightarrow>
     n < LENGTH('a) \<and> n div 8 < length bs \<and> bit (bs ! (n div 8)) (n mod 8)"
proof (induction bs arbitrary: n)
  case Nil
  then show ?case by simp
next
  case (Cons b bs)
  show ?case
  proof (cases "n < 8")
    case True
    then show ?thesis
      by (auto simp: bit_or_iff bit_push_bit_iff bit_ucast_iff)
  next
    case False
    then obtain m where n: "n = 8 + m" using le_Suc_ex linorder_not_less by blast
    then have b: "\<not> bit b n" by (auto dest: bit_imp_le_length)
    have d: "n div 8 = Suc (m div 8)" "n mod 8 = m mod 8" by (simp_all add: n)
    show ?thesis
      unfolding from_le.simps bit_or_iff bit_push_bit_iff bit_ucast_iff d
      using b by (auto simp: Cons n)
  qed
qed

lemma to_le_from_le:
  assumes "8 * length bs \<le> LENGTH('a)"
  shows "to_le (length bs) (from_le bs :: 'a::len word) = bs"
proof (rule nth_equalityI)
  show "length (to_le (length bs) (from_le bs :: 'a word)) = length bs" by simp
next
  fix i assume "i < length (to_le (length bs) (from_le bs :: 'a word))"
  then have i: "i < length bs" by simp
  show "to_le (length bs) (from_le bs :: 'a word) ! i = bs ! i"
  proof (rule bit_word_eqI)
    fix k assume k: "k < LENGTH(8)"
    then have "8 * i + k < LENGTH('a)" using i assms by simp
    moreover have "(8 * i + k) div 8 = i" "(8 * i + k) mod 8 = k" using k by simp_all
    ultimately show "bit (to_le (length bs) (from_le bs :: 'a word) ! i) k \<longleftrightarrow> bit (bs ! i) k"
      using i k by (simp add: nth_to_le bit_ucast_iff bit_drop_bit_eq bit_from_le)
  qed
qed

section \<open>State with failure\<close>

type_synonym ('s, 'e, 'a) sx = "'s \<Rightarrow> ('e + 'a) \<times> 's"

definition sx_return :: "'a \<Rightarrow> ('s, 'e, 'a) sx" where
  "sx_return x = (\<lambda>s. (Inr x, s))"

definition sx_fail :: "'e \<Rightarrow> ('s, 'e, 'a) sx" where
  "sx_fail e = (\<lambda>s. (Inl e, s))"

definition sx_get :: "('s \<Rightarrow> 'a) \<Rightarrow> ('s, 'e, 'a) sx" where
  "sx_get f = (\<lambda>s. (Inr (f s), s))"

definition sx_modify :: "('s \<Rightarrow> 's) \<Rightarrow> ('s, 'e, unit) sx" where
  "sx_modify f = (\<lambda>s. (Inr (), f s))"

definition sx_lift :: "'e + 'a \<Rightarrow> ('s, 'e, 'a) sx" where
  "sx_lift r = (\<lambda>s. (r, s))"

definition sx_bind :: "('s, 'e, 'a) sx \<Rightarrow> ('a \<Rightarrow> ('s, 'e, 'b) sx) \<Rightarrow> ('s, 'e, 'b) sx" where
  "sx_bind m f = (\<lambda>s. case m s of (Inl e, s') \<Rightarrow> (Inl e, s') | (Inr x, s') \<Rightarrow> f x s')"

lemma sx_return_apply [sx_apply]: "sx_return x s = (Inr x, s)"
  by (simp add: sx_return_def)

lemma sx_fail_apply [sx_apply]: "sx_fail e s = (Inl e, s)"
  by (simp add: sx_fail_def)

lemma sx_get_apply [sx_apply]: "sx_get f s = (Inr (f s), s)"
  by (simp add: sx_get_def)

lemma sx_modify_apply [sx_apply]: "sx_modify f s = (Inr (), f s)"
  by (simp add: sx_modify_def)

lemma sx_lift_apply [sx_apply]: "sx_lift r s = (r, s)"
  by (simp add: sx_lift_def)

lemma sx_bind_apply:
  "sx_bind m f s = (case m s of (Inl e, s') \<Rightarrow> (Inl e, s') | (Inr x, s') \<Rightarrow> f x s')"
  by (simp add: sx_bind_def)

lemma sx_bind_Inr [simp]: "m s = (Inr x, s') \<Longrightarrow> sx_bind m f s = f x s'"
  by (simp add: sx_bind_def)

lemma sx_bind_Inl [simp]: "m s = (Inl e, s') \<Longrightarrow> sx_bind m f s = (Inl e, s')"
  by (simp add: sx_bind_def)

lemma sx_bind_assoc: "sx_bind (sx_bind m f) g = sx_bind m (\<lambda>x. sx_bind (f x) g)"
  by (rule ext) (simp add: sx_bind_def split: prod.split sum.split)

subsection \<open>Hoare triples\<close>

text \<open>\<open>sx_triple P m Q E\<close>: started in a state of \<open>P\<close>, the computation returns a value and a
  state related by \<open>Q\<close>, or fails with an error and a state related by \<open>E\<close>.\<close>

definition sx_triple ::
  "('s \<Rightarrow> bool) \<Rightarrow> ('s, 'e, 'a) sx \<Rightarrow> ('a \<Rightarrow> 's \<Rightarrow> bool) \<Rightarrow> ('e \<Rightarrow> 's \<Rightarrow> bool) \<Rightarrow> bool" where
  "sx_triple P m Q E \<longleftrightarrow>
     (\<forall>s. P s \<longrightarrow> (case m s of (Inr x, s') \<Rightarrow> Q x s' | (Inl e, s') \<Rightarrow> E e s'))"

lemma sx_tripleI:
  assumes "\<And>s x s'. P s \<Longrightarrow> m s = (Inr x, s') \<Longrightarrow> Q x s'"
    and "\<And>s e s'. P s \<Longrightarrow> m s = (Inl e, s') \<Longrightarrow> E e s'"
  shows "sx_triple P m Q E"
  using assms by (fastforce simp: sx_triple_def split: prod.split sum.split)

lemma sx_tripleD_Inr: "sx_triple P m Q E \<Longrightarrow> P s \<Longrightarrow> m s = (Inr x, s') \<Longrightarrow> Q x s'"
  by (fastforce simp: sx_triple_def)

lemma sx_tripleD_Inl: "sx_triple P m Q E \<Longrightarrow> P s \<Longrightarrow> m s = (Inl e, s') \<Longrightarrow> E e s'"
  by (fastforce simp: sx_triple_def)

lemma sx_triple_bind [sx_rules]:
  assumes "sx_triple P m R E" and "\<And>x. sx_triple (R x) (f x) Q E"
  shows "sx_triple P (sx_bind m f) Q E"
proof (rule sx_tripleI)
  fix s x s' assume P: "P s" and r: "sx_bind m f s = (Inr x, s')"
  then obtain y t where m: "m s = (Inr y, t)" and f: "f y t = (Inr x, s')"
    by (auto simp: sx_bind_def split: prod.splits sum.splits)
  from assms(1) P m have "R y t" by (rule sx_tripleD_Inr)
  with assms(2) f show "Q x s'" by (blast intro: sx_tripleD_Inr)
next
  fix s e s' assume P: "P s" and r: "sx_bind m f s = (Inl e, s')"
  show "E e s'"
  proof (cases "m s")
    case (Pair r t)
    show ?thesis
    proof (cases r)
      case (Inl e')
      with Pair r have "m s = (Inl e, s')" by (simp add: sx_bind_def)
      with assms(1) P show ?thesis by (rule sx_tripleD_Inl)
    next
      case (Inr y)
      with Pair r have m: "m s = (Inr y, t)" and f: "f y t = (Inl e, s')"
        by (simp_all add: sx_bind_def)
      from assms(1) P m have "R y t" by (rule sx_tripleD_Inr)
      with assms(2) f show ?thesis by (blast intro: sx_tripleD_Inl)
    qed
  qed
qed

lemma sx_triple_return [sx_rules]: "(\<And>s. P s \<Longrightarrow> Q x s) \<Longrightarrow> sx_triple P (sx_return x) Q E"
  by (simp add: sx_triple_def sx_apply)

lemma sx_triple_fail [sx_rules]: "(\<And>s. P s \<Longrightarrow> E e s) \<Longrightarrow> sx_triple P (sx_fail e) Q E"
  by (simp add: sx_triple_def sx_apply)

lemma sx_triple_get [sx_rules]: "(\<And>s. P s \<Longrightarrow> Q (f s) s) \<Longrightarrow> sx_triple P (sx_get f) Q E"
  by (simp add: sx_triple_def sx_apply)

lemma sx_triple_modify [sx_rules]: "(\<And>s. P s \<Longrightarrow> Q () (f s)) \<Longrightarrow> sx_triple P (sx_modify f) Q E"
  by (simp add: sx_triple_def sx_apply)

lemma sx_triple_lift [sx_rules]:
  "(\<And>s x. P s \<Longrightarrow> r = Inr x \<Longrightarrow> Q x s) \<Longrightarrow> (\<And>s e. P s \<Longrightarrow> r = Inl e \<Longrightarrow> E e s) \<Longrightarrow>
   sx_triple P (sx_lift r) Q E"
  by (cases r) (simp_all add: sx_triple_def sx_apply)

lemma sx_triple_weaken:
  "sx_triple P' m Q' E' \<Longrightarrow> (\<And>s. P s \<Longrightarrow> P' s) \<Longrightarrow> (\<And>x s. Q' x s \<Longrightarrow> Q x s) \<Longrightarrow>
   (\<And>e s. E' e s \<Longrightarrow> E e s) \<Longrightarrow> sx_triple P m Q E"
  by (rule sx_tripleI) (blast dest: sx_tripleD_Inr sx_tripleD_Inl)+

section \<open>Lists\<close>

lemma take_drop_append_exact [simp]:
  "length xs = n \<Longrightarrow> take n (xs @ ys) = xs" "length xs = n \<Longrightarrow> drop n (xs @ ys) = ys"
  by simp_all

text \<open>The code found at an offset of a longer byte string.\<close>

definition code_at :: "'a list \<Rightarrow> nat \<Rightarrow> 'a list \<Rightarrow> bool" where
  "code_at code i xs \<longleftrightarrow> i + length xs \<le> length code \<and> take (length xs) (drop i code) = xs"

lemma code_at_append:
  "code_at code i (xs @ ys) \<longleftrightarrow> code_at code i xs \<and> code_at code (i + length xs) ys"
  by (auto simp: code_at_def take_add add.assoc drop_drop add.commute)

lemma code_at_Cons:
  "code_at code i (x # xs) \<longleftrightarrow> i < length code \<and> code ! i = x \<and> code_at code (Suc i) xs"
  by (auto simp: code_at_def Cons_nth_drop_Suc [symmetric] Suc_le_eq
      simp flip: Cons_nth_drop_Suc)

lemma code_at_Nil [simp]: "code_at code i [] \<longleftrightarrow> i \<le> length code"
  by (simp add: code_at_def)

lemma code_at_self: "code_at code 0 code"
  by (simp add: code_at_def)

lemma code_at_take: "code_at code i xs \<Longrightarrow> length xs = n \<Longrightarrow> take n (drop i code) = xs"
  by (auto simp: code_at_def)

lemma code_at_length: "code_at code i xs \<Longrightarrow> i + length xs \<le> length code"
  by (simp add: code_at_def)

end
