(* ===== verification/Core_Primitives.thy ===== *)
theory Core_Primitives
  imports Prelude
begin

text \<open>
  \<open>crates/glyim-core\<close>: the primitive vocabulary every later phase shares
  (\<open>src/primitives.rs\<close>), lint names and levels (\<open>src/lint.rs\<close>), alignment
  validation (\<open>src/abi.rs\<close>) and paths (\<open>src/path.rs\<close>).  Rust's \<open>String\<close> is
  \<open>string\<close>; every string these functions inspect is ASCII.  An interned \<open>Name\<close> is
  its symbol number.
\<close>

section \<open>Strings\<close>

text \<open>\<open>str::split\<close> on a character, and \<open>str::contains\<close> on a literal.\<close>

fun split_char :: "char \<Rightarrow> string \<Rightarrow> string list" where
  "split_char c [] = [[]]"
| "split_char c (x # xs) =
     (if x = c then [] # split_char c xs
      else (case split_char c xs of p # ps \<Rightarrow> (x # p) # ps | [] \<Rightarrow> [[x]]))"

fun str_starts_with :: "string \<Rightarrow> string \<Rightarrow> bool" where
  "str_starts_with p s = (take (length p) s = p)"

fun str_contains :: "string \<Rightarrow> string \<Rightarrow> bool" where
  "str_contains p [] = (p = [])"
| "str_contains p (x # xs) = (str_starts_with p (x # xs) \<or> str_contains p xs)"

fun join_char :: "char \<Rightarrow> string list \<Rightarrow> string" where
  "join_char c [] = []"
| "join_char c [p] = p"
| "join_char c (p # ps) = p @ c # join_char c ps"

lemma split_char_not_Nil [simp]: "split_char c s \<noteq> []"
  by (induction s) (auto split: list.split)

lemma join_split_char: "join_char c (split_char c s) = s"
proof (induction s)
  case Nil
  then show ?case by simp
next
  case (Cons x xs)
  obtain p ps where s: "split_char c xs = p # ps"
    using split_char_not_Nil by (meson list.exhaust)
  then show ?case using Cons by (cases ps) auto
qed

section \<open>Targets\<close>

datatype TargetAbi = X86_64SystemV | X86_64Windows | AArch64AAPCS | AArch64Windows | Wasm32

record TargetInfo =
  ti_pointer_width :: u32
  ti_triple :: string
  ti_abi :: TargetAbi

definition triple_pointer_width :: "string \<Rightarrow> u32" where
  "triple_pointer_width arch =
     (if arch \<in> {''x86_64'', ''aarch64'', ''arm64'', ''riscv64'', ''powerpc64'', ''mips64''} then 64
      else if arch \<in> {''i386'', ''i686'', ''arm'', ''armv7'', ''wasm32'', ''riscv32'',
                      ''powerpc'', ''mips''} then 32
      else if str_contains ''64'' arch then 64 else 32)"

definition triple_abi :: "string \<Rightarrow> string \<Rightarrow> TargetAbi" where
  "triple_abi arch os =
     (if arch = ''x86_64'' \<and> (os = ''windows'' \<or> os = ''win32'') then X86_64Windows
      else if (arch = ''aarch64'' \<or> arch = ''arm64'') \<and> os = ''windows'' then AArch64Windows
      else if arch = ''aarch64'' \<or> arch = ''arm64'' then AArch64AAPCS
      else if arch = ''wasm32'' then Wasm32
      else X86_64SystemV)"

definition from_triple :: "string \<Rightarrow> TargetInfo" where
  "from_triple triple =
     (let parts = split_char (CHR ''-'') triple;
          arch = (case parts of [] \<Rightarrow> [] | a # _ \<Rightarrow> a);
          os = (if 2 < length parts then parts ! 2 else [])
      in \<lparr>ti_pointer_width = triple_pointer_width arch, ti_triple = triple,
          ti_abi = triple_abi arch os\<rparr>)"

definition target_aarch64 :: TargetInfo where
  "target_aarch64 = from_triple ''aarch64-unknown-linux-gnu''"

definition target_x86_64 :: TargetInfo where
  "target_x86_64 = from_triple ''x86_64-unknown-linux-gnu''"

definition target_default :: TargetInfo where
  "target_default = \<lparr>ti_pointer_width = 64, ti_triple = ''x86_64-unknown-linux-gnu'',
     ti_abi = X86_64SystemV\<rparr>"

definition pointer_size :: "TargetInfo \<Rightarrow> u64" where
  "pointer_size t = ucast (ti_pointer_width t) div 8"

definition pointer_align :: "TargetInfo \<Rightarrow> u64" where
  "pointer_align t = pointer_size t"

lemma from_triple_width: "ti_pointer_width (from_triple s) \<in> {32, 64}"
  by (auto simp: from_triple_def Let_def triple_pointer_width_def)

lemma from_triple_pointer_size: "pointer_size (from_triple s) \<in> {4, 8}"
  using from_triple_width [of s] by (auto simp: pointer_size_def)

lemma target_default_x86_64: "target_default = target_x86_64"
  by (simp add: target_default_def target_x86_64_def from_triple_def
      triple_pointer_width_def triple_abi_def)

section \<open>Primitive types\<close>

datatype IntTy = I8 | I16 | I32 | I64 | Isize
datatype UintTy = U8 | U16 | U32 | U64 | Usize
datatype FloatTy = F32 | F64

fun int_bit_width :: "IntTy \<Rightarrow> TargetInfo \<Rightarrow> u32" where
  "int_bit_width I8 t = 8"
| "int_bit_width I16 t = 16"
| "int_bit_width I32 t = 32"
| "int_bit_width I64 t = 64"
| "int_bit_width Isize t = ti_pointer_width t"

fun int_name :: "IntTy \<Rightarrow> string" where
  "int_name I8 = ''i8''"
| "int_name I16 = ''i16''"
| "int_name I32 = ''i32''"
| "int_name I64 = ''i64''"
| "int_name Isize = ''isize''"

fun uint_bit_width :: "UintTy \<Rightarrow> TargetInfo \<Rightarrow> u32" where
  "uint_bit_width U8 t = 8"
| "uint_bit_width U16 t = 16"
| "uint_bit_width U32 t = 32"
| "uint_bit_width U64 t = 64"
| "uint_bit_width Usize t = ti_pointer_width t"

fun uint_name :: "UintTy \<Rightarrow> string" where
  "uint_name U8 = ''u8''"
| "uint_name U16 = ''u16''"
| "uint_name U32 = ''u32''"
| "uint_name U64 = ''u64''"
| "uint_name Usize = ''usize''"

fun float_bit_width :: "FloatTy \<Rightarrow> u32" where
  "float_bit_width F32 = 32"
| "float_bit_width F64 = 64"

fun float_name :: "FloatTy \<Rightarrow> string" where
  "float_name F32 = ''f32''"
| "float_name F64 = ''f64''"

datatype Mutability = Not | Mut

fun is_mut :: "Mutability \<Rightarrow> bool" where
  "is_mut m = (m = Mutability.Mut)"

definition prefix_str :: "Mutability \<Rightarrow> string" where
  "prefix_str m = (if is_mut m then ''mut '' else '''')"

datatype Safety = Safe | Unsafe

datatype Abi = C | Glyim | System

fun abi_name :: "Abi \<Rightarrow> string" where
  "abi_name Abi.C = ''C''"
| "abi_name Abi.Glyim = ''glyim''"
| "abi_name Abi.System = ''system''"

datatype BinOp = Add | Sub | Mul | Div | Rem | Eq | Ne | Lt | Gt | LtEq | GtEq
  | And | Or | BitAnd | BitOr | BitXor | Shl | Shr

definition is_comparison :: "BinOp \<Rightarrow> bool" where
  "is_comparison op \<longleftrightarrow> op \<in> {BinOp.Eq, BinOp.Ne, BinOp.Lt, BinOp.Gt, BinOp.LtEq, BinOp.GtEq}"

datatype UnOp = Not | Neg | Deref

type_synonym Name = u32

datatype Visibility = Public | PubCrate | PubSuper | PubIn "Name list" | Inherited

datatype StructKind = Unit | Tuple | Record

lemma int_name_inj: "int_name a = int_name b \<Longrightarrow> a = b"
  by (cases a; cases b) auto

lemma uint_name_inj: "uint_name a = uint_name b \<Longrightarrow> a = b"
  by (cases a; cases b) auto

lemma int_uint_name_disjoint: "int_name a \<noteq> uint_name b"
  by (cases a; cases b) auto

section \<open>Lints\<close>

datatype LintId = UnsafeFnCall | UnusedGenericParams

datatype LintLevel = Allow | Warn | Deny

type_synonym LintMap = "LintId \<rightharpoonup> LintLevel"

definition LintId_ALL :: "LintId list" where
  "LintId_ALL = [UnsafeFnCall, UnusedGenericParams]"

fun lint_as_str :: "LintId \<Rightarrow> string" where
  "lint_as_str UnsafeFnCall = ''unsafe_fn_call''"
| "lint_as_str UnusedGenericParams = ''unused_generic_params''"

definition lint_from_str :: "string \<Rightarrow> LintId option" where
  "lint_from_str s =
     (if s = ''unsafe_fn_call'' \<or> s = ''unsafe'' then Some UnsafeFnCall
      else if s = ''unused_generic_params'' \<or> s = ''unused_generics'' then Some UnusedGenericParams
      else None)"

fun apply_named :: "LintMap \<Rightarrow> string list \<Rightarrow> LintLevel \<Rightarrow> LintMap" where
  "apply_named m [] level = m"
| "apply_named m (name # names) level =
     apply_named (case lint_from_str name of Some i \<Rightarrow> m(i \<mapsto> level) | None \<Rightarrow> m) names level"

lemma lint_from_as_str [simp]: "lint_from_str (lint_as_str i) = Some i"
  by (cases i) (simp_all add: lint_from_str_def)

lemma apply_named_lookup:
  "apply_named m names level i =
     (if Some i \<in> lint_from_str ` set names then Some level else m i)"
  by (induction names arbitrary: m) (auto split: option.split)

lemma LintId_ALL_complete: "i \<in> set LintId_ALL"
  by (cases i) (simp_all add: LintId_ALL_def)

section \<open>Alignment\<close>

definition ALIGN_MAX :: u64 where
  "ALIGN_MAX = 64"

definition ALIGN_MIN :: u64 where
  "ALIGN_MIN = 1"

text \<open>Rust's \<open>is_power_of_two\<close>: exactly one bit is set.\<close>

definition is_power_of_two :: "'a::len word \<Rightarrow> bool" where
  "is_power_of_two w \<longleftrightarrow> w \<noteq> 0 \<and> w AND (w - 1) = 0"

datatype align_error = AlignZero | AlignNotPowerOfTwo u64 | AlignTooLarge u64

definition validate_alignment :: "u64 \<Rightarrow> align_error + unit" where
  "validate_alignment align =
     (if align = 0 then Inl AlignZero
      else if \<not> is_power_of_two align then Inl (AlignNotPowerOfTwo align)
      else if ALIGN_MAX < align then Inl (AlignTooLarge align)
      else Inr ())"

section \<open>Paths\<close>

datatype PathKind = Plain | SelfPath | Super u32 | Crate

record PathSegment =
  seg_name :: Name
  seg_generic_args :: "Name list option"

record Path =
  path_segments :: "PathSegment list"
  path_kind :: PathKind

definition path_from_single :: "Name \<Rightarrow> Path" where
  "path_from_single n =
     \<lparr>path_segments = [\<lparr>seg_name = n, seg_generic_args = None\<rparr>], path_kind = Plain\<rparr>"

definition path_from_segments :: "PathSegment list \<Rightarrow> Path" where
  "path_from_segments segs = \<lparr>path_segments = segs, path_kind = Plain\<rparr>"

definition path_from_single_with_args :: "Name \<Rightarrow> Name list \<Rightarrow> Path" where
  "path_from_single_with_args n args =
     \<lparr>path_segments = [\<lparr>seg_name = n, seg_generic_args = Some args\<rparr>], path_kind = Plain\<rparr>"

definition path_as_name :: "Path \<Rightarrow> Name option" where
  "path_as_name p =
     (if length (path_segments p) = 1 \<and> path_kind p = Plain
      then Some (seg_name (path_segments p ! 0)) else None)"

definition segment_from_name :: "Name \<Rightarrow> PathSegment" where
  "segment_from_name n = \<lparr>seg_name = n, seg_generic_args = None\<rparr>"

lemma path_as_name_from_single [simp]: "path_as_name (path_from_single n) = Some n"
  by (simp add: path_as_name_def path_from_single_def)

lemma path_as_name_Some:
  "path_as_name p = Some n \<longleftrightarrow> path_kind p = Plain \<and> map seg_name (path_segments p) = [n]"
  by (auto simp: path_as_name_def length_Suc_conv split: if_splits)

end
