(* ===== verification/Core_Arena.thy ===== *)
theory Core_Arena
  imports Core_Primitives
begin

text \<open>
  \<open>crates/glyim-core/src/arena.rs\<close> and \<open>def_id.rs\<close>: typed indices and \<open>IndexVec\<close>.

  A typed index (\<open>Idx<T>\<close>, \<open>define_idx!\<close>, \<open>define_def_id!\<close>) is its raw \<open>u32\<close>;
  \<open>index\<close> widens it.  An \<open>IndexVec\<close> is the list of its elements.  The locale
  \<open>id_table\<close> is the contract that every append-only table of the compiler keeps
  (a new identifier is fresh, finds its own entry, and no older entry moves); it is
  interpreted here on \<open>IndexVec\<close> and in \<open>Span_Hygiene\<close> on both tables of
  \<open>HygieneCtx\<close>.
\<close>

section \<open>Typed indices\<close>

type_synonym idx = u32

definition idx_index :: "idx \<Rightarrow> nat" where
  "idx_index i = unat i"

definition idx_from_usize :: "nat \<Rightarrow> idx" where
  "idx_from_usize n = of_nat n"

lemma idx_index_from_usize: "n < 2 ^ 32 \<Longrightarrow> idx_index (idx_from_usize n) = n"
  by (simp add: idx_index_def idx_from_usize_def unat_of_nat)

lemma idx_from_usize_index [simp]: "idx_from_usize (idx_index i) = i"
  by (simp add: idx_index_def idx_from_usize_def)

lemma idx_index_inj: "idx_index i = idx_index j \<longleftrightarrow> i = j"
  by (simp add: idx_index_def word_unat_eq_iff)

lemma idx_index_less: "idx_index i < 2 ^ 32"
  unfolding idx_index_def using unsigned_less [of i, where 'a = nat] by simp

record DefId =
  def_krate :: idx
  def_local_id :: idx

definition DefId_new :: "idx \<Rightarrow> idx \<Rightarrow> DefId" where
  "DefId_new k l = \<lparr>def_krate = k, def_local_id = l\<rparr>"

section \<open>IndexVec\<close>

type_synonym 'a IndexVec = "'a list"

definition iv_new :: "'a IndexVec" where
  "iv_new = []"

definition iv_push :: "'a \<Rightarrow> 'a IndexVec \<Rightarrow> idx \<times> 'a IndexVec" where
  "iv_push x v = (idx_from_usize (length v), v @ [x])"

definition iv_len :: "'a IndexVec \<Rightarrow> nat" where
  "iv_len v = length v"

definition iv_is_empty :: "'a IndexVec \<Rightarrow> bool" where
  "iv_is_empty v = (v = [])"

text \<open>\<open>get\<close> as a release build runs it (a debug build asserts the bound first).\<close>

definition iv_get :: "'a IndexVec \<Rightarrow> idx \<Rightarrow> 'a option" where
  "iv_get v i = (if idx_index i < length v then Some (v ! idx_index i) else None)"

definition iv_index :: "'a IndexVec \<Rightarrow> idx \<Rightarrow> panicked + 'a" where
  "iv_index v i = (if idx_index i < length v then Inr (v ! idx_index i) else Inl Panicked)"

definition iv_set :: "'a IndexVec \<Rightarrow> idx \<Rightarrow> 'a \<Rightarrow> panicked + 'a IndexVec" where
  "iv_set v i x = (if idx_index i < length v then Inr (v[idx_index i := x]) else Inl Panicked)"

definition iv_iter_enumerated :: "'a IndexVec \<Rightarrow> (idx \<times> 'a) list" where
  "iv_iter_enumerated v = map (\<lambda>(i, x). (idx_from_usize i, x)) (enumerate 0 v)"

definition iv_last :: "'a IndexVec \<Rightarrow> 'a option" where
  "iv_last v = (if v = [] then None else Some (last v))"

lemma iv_index_get: "iv_index v i = (case iv_get v i of None \<Rightarrow> Inl Panicked | Some x \<Rightarrow> Inr x)"
  by (simp add: iv_index_def iv_get_def)

lemma iv_get_set:
  "iv_set v i x = Inr v' \<Longrightarrow> iv_get v' j = (if j = i then Some x else iv_get v j)"
  by (auto simp: iv_set_def iv_get_def idx_index_inj nth_list_update split: if_splits)

lemma iv_iter_enumerated_get:
  assumes "length v \<le> 2 ^ 32"
  shows "(i, x) \<in> set (iv_iter_enumerated v) \<longleftrightarrow> iv_get v i = Some x"
proof
  assume "(i, x) \<in> set (iv_iter_enumerated v)"
  then obtain k where k: "k < length v" "i = idx_from_usize k" "x = v ! k"
    by (auto simp: iv_iter_enumerated_def in_set_enumerate_eq)
  with assms have "idx_index i = k" by (simp add: idx_index_from_usize)
  with k show "iv_get v i = Some x" by (simp add: iv_get_def)
next
  assume g: "iv_get v i = Some x"
  then have "(idx_index i, x) \<in> set (enumerate 0 v)"
    by (auto simp: iv_get_def in_set_enumerate_eq split: if_splits)
  then show "(i, x) \<in> set (iv_iter_enumerated v)"
    unfolding iv_iter_enumerated_def
    by (force intro: rev_image_eqI)
qed

section \<open>Append-only tables\<close>

text \<open>Allocating a list of entries one after the other.\<close>

fun alloc_seq :: "('a \<Rightarrow> 't \<Rightarrow> 'e + 'i \<times> 't) \<Rightarrow> 'a list \<Rightarrow> 't \<Rightarrow> 'e + 'i list \<times> 't" where
  "alloc_seq alloc [] t = Inr ([], t)"
| "alloc_seq alloc (x # xs) t =
     (case alloc x t of
        Inl e \<Rightarrow> Inl e
      | Inr (i, t') \<Rightarrow> (case alloc_seq alloc xs t' of Inl e \<Rightarrow> Inl e | Inr (is, t'') \<Rightarrow> Inr (i # is, t'')))"

text \<open>
  \<open>room n t\<close>: \<open>t\<close> can take \<open>n\<close> more entries (its \<open>u32\<close> counter does not overflow, which would panic).
  \<open>stored i x\<close>: the entry kept for \<open>x\<close> under identifier \<open>i\<close>.
\<close>

locale id_table =
  fixes room :: "nat \<Rightarrow> 't \<Rightarrow> bool"
    and alloc :: "'a \<Rightarrow> 't \<Rightarrow> 'e + 'i \<times> 't"
    and lookup :: "'t \<Rightarrow> 'i \<Rightarrow> 'b option"
    and stored :: "'i \<Rightarrow> 'a \<Rightarrow> 'b"
  assumes alloc_ok: "room (Suc n) t \<Longrightarrow> \<exists>i t'. alloc x t = Inr (i, t')"
    and room_alloc: "room (Suc n) t \<Longrightarrow> alloc x t = Inr (i, t') \<Longrightarrow> room n t'"
    and lookup_new: "room (Suc n) t \<Longrightarrow> alloc x t = Inr (i, t') \<Longrightarrow> lookup t' i = Some (stored i x)"
    and lookup_old: "room (Suc n) t \<Longrightarrow> alloc x t = Inr (i, t') \<Longrightarrow> lookup t j = Some y \<Longrightarrow>
      lookup t' j = Some y"
    and fresh: "room (Suc n) t \<Longrightarrow> alloc x t = Inr (i, t') \<Longrightarrow> lookup t i = None"
begin

lemma alloc_seq_ok:
  assumes "room (length xs) t"
  shows "\<exists>is t'. alloc_seq alloc xs t = Inr (is, t')"
  using assms
proof (induction xs arbitrary: t)
  case Nil
  then show ?case by simp
next
  case (Cons x xs)
  then have r: "room (Suc (length xs)) t" by simp
  then obtain i t1 where a: "alloc x t = Inr (i, t1)" using alloc_ok by blast
  with Cons.IH [OF room_alloc [OF r a]] show ?case by auto
qed

lemma alloc_seq_old:
  assumes "room (length xs) t" and "alloc_seq alloc xs t = Inr (is, t')" and "lookup t j = Some y"
  shows "lookup t' j = Some y"
  using assms
proof (induction xs arbitrary: t "is")
  case Nil
  then show ?case by simp
next
  case (Cons x xs)
  from Cons.prems(2) obtain i t1 is1 where
    a: "alloc x t = Inr (i, t1)" and s: "alloc_seq alloc xs t1 = Inr (is1, t')"
    by (auto split: prod.splits sum.splits)
  have r: "room (Suc (length xs)) t" using Cons.prems(1) by simp
  show ?case
    using Cons.IH [OF room_alloc [OF r a] s] lookup_old [OF r a Cons.prems(3)] by blast
qed

lemma alloc_seq_fresh:
  assumes "room (length xs) t" and "alloc_seq alloc xs t = Inr (is, t')" and "i \<in> set is"
  shows "lookup t i = None"
  using assms
proof (induction xs arbitrary: t "is")
  case Nil
  then show ?case by simp
next
  case (Cons x xs)
  from Cons.prems(2) obtain k t1 is1 where
    a: "alloc x t = Inr (k, t1)" and s: "alloc_seq alloc xs t1 = Inr (is1, t')" and e: "is = k # is1"
    by (auto split: prod.splits sum.splits)
  have r: "room (Suc (length xs)) t" using Cons.prems(1) by simp
  show ?case
  proof (cases "i = k")
    case True
    with fresh [OF r a] show ?thesis by simp
  next
    case False
    with e Cons.prems(3) have "lookup t1 i = None"
      using Cons.IH [OF room_alloc [OF r a] s] by simp
    then show ?thesis using lookup_old [OF r a] by (cases "lookup t i") auto
  qed
qed

lemma alloc_seq_lookup:
  assumes "room (length xs) t" and "alloc_seq alloc xs t = Inr (is, t')"
  shows "length is = length xs \<and> distinct is \<and> map (lookup t') is = map2 (\<lambda>i x. Some (stored i x)) is xs"
  using assms
proof (induction xs arbitrary: t "is")
  case Nil
  then show ?case by simp
next
  case (Cons x xs)
  from Cons.prems(2) obtain i t1 is1 where
    a: "alloc x t = Inr (i, t1)" and s: "alloc_seq alloc xs t1 = Inr (is1, t')" and e: "is = i # is1"
    by (auto split: prod.splits sum.splits)
  have r: "room (Suc (length xs)) t" using Cons.prems(1) by simp
  note r1 = room_alloc [OF r a]
  have new: "lookup t1 i = Some (stored i x)" using r a by (rule lookup_new)
  have "i \<notin> set is1" using alloc_seq_fresh [OF r1 s, of i] new by auto
  moreover have "lookup t' i = Some (stored i x)" using alloc_seq_old [OF r1 s new] .
  ultimately show ?case using Cons.IH [OF r1 s] e by simp
qed

end

interpretation iv: id_table "\<lambda>n v. length v + n \<le> 2 ^ 32" "\<lambda>x v. Inr (iv_push x v)" iv_get "\<lambda>i x. x"
  by unfold_locales
    (auto simp: iv_push_def iv_get_def nth_append idx_index_from_usize)

lemma iv_push_all:
  "\<exists>is. (alloc_seq (\<lambda>x v. Inr (iv_push x v)) xs v :: 'e + idx list \<times> 'a IndexVec) = Inr (is, v @ xs)"
proof (induction xs arbitrary: v)
  case Nil
  then show ?case by simp
next
  case (Cons x xs)
  from Cons [of "v @ [x]"] show ?case by (auto simp: iv_push_def)
qed

end
