(* ===== verification/Span_Hygiene.thy ===== *)
theory Span_Hygiene
  imports Core_Arena
begin

text \<open>
  \<open>crates/glyim-span\<close>: source spans (\<open>src/lib.rs\<close>) and macro hygiene
  (\<open>src/hygiene.rs\<close>).  \<open>FileId\<close>, \<open>ByteIdx\<close>, \<open>SyntaxContext\<close> and
  \<open>ExpnId\<close> are their raw \<open>u32\<close>.  The two unconditional \<open>assert!\<close>s are branches
  to \<open>Inl Panicked\<close>.  \<open>adjust\<close>'s loop has no bound in the source, so it is a
  partial function whose \<open>None\<close> is "does not return".  The conversion to
  \<open>miette::SourceSpan\<close> is not modelled (a third-party type).
\<close>

section \<open>Spans\<close>

type_synonym FileId = u32
type_synonym ByteIdx = u32
type_synonym SyntaxContext = u32
type_synonym ExpnId = u32

definition FileId_BOGUS :: FileId where
  "FileId_BOGUS = u32_max"

definition SyntaxContext_ROOT :: SyntaxContext where
  "SyntaxContext_ROOT = 0"

definition ExpnId_ROOT :: ExpnId where
  "ExpnId_ROOT = 0"

record Span =
  sp_file :: FileId
  sp_lo :: ByteIdx
  sp_hi :: ByteIdx
  sp_ctx :: SyntaxContext

definition Span_DUMMY :: Span where
  "Span_DUMMY = \<lparr>sp_file = u32_max, sp_lo = 0, sp_hi = 0, sp_ctx = SyntaxContext_ROOT\<rparr>"

definition span_new :: "FileId \<Rightarrow> ByteIdx \<Rightarrow> ByteIdx \<Rightarrow> SyntaxContext \<Rightarrow> panicked + Span" where
  "span_new file lo hi ctx =
     (if lo \<le> hi then Inr \<lparr>sp_file = file, sp_lo = lo, sp_hi = hi, sp_ctx = ctx\<rparr> else Inl Panicked)"

definition span_is_dummy :: "Span \<Rightarrow> bool" where
  "span_is_dummy s \<longleftrightarrow> s = Span_DUMMY"

definition span_range :: "Span \<Rightarrow> nat \<times> nat" where
  "span_range s = (unat (sp_lo s), unat (sp_hi s))"

definition sans_ctx :: "Span \<Rightarrow> Span" where
  "sans_ctx s = s\<lparr>sp_ctx := SyntaxContext_ROOT\<rparr>"

definition span_len :: "Span \<Rightarrow> u32" where
  "span_len s = (if sp_hi s < sp_lo s then 0 else sp_hi s - sp_lo s)"

definition span_is_empty :: "Span \<Rightarrow> bool" where
  "span_is_empty s \<longleftrightarrow> span_len s = 0"

definition span_to :: "Span \<Rightarrow> Span \<Rightarrow> panicked + Span" where
  "span_to a b =
     (if sp_file a = sp_file b
      then Inr \<lparr>sp_file = sp_file a, sp_lo = min (sp_lo a) (sp_lo b), sp_hi = max (sp_hi a) (sp_hi b),
                sp_ctx = sp_ctx a\<rparr>
      else Inl Panicked)"

definition ctx_is_root :: "SyntaxContext \<Rightarrow> bool" where
  "ctx_is_root c \<longleftrightarrow> c = 0"

definition expn_is_root :: "ExpnId \<Rightarrow> bool" where
  "expn_is_root c \<longleftrightarrow> c = 0"

definition ctx_expn_id :: "SyntaxContext \<Rightarrow> ExpnId" where
  "ctx_expn_id c = ExpnId_ROOT"

record MultiSpan =
  ms_primary :: Span
  ms_secondary :: "(Span \<times> string) list"

definition multi_from_span :: "Span \<Rightarrow> MultiSpan" where
  "multi_from_span s = \<lparr>ms_primary = s, ms_secondary = []\<rparr>"

definition multi_with_secondary :: "MultiSpan \<Rightarrow> Span \<Rightarrow> string \<Rightarrow> MultiSpan" where
  "multi_with_secondary m s label = m\<lparr>ms_secondary := ms_secondary m @ [(s, label)]\<rparr>"

definition span_ok :: "Span \<Rightarrow> bool" where
  "span_ok s \<longleftrightarrow> sp_lo s \<le> sp_hi s"

lemma span_new_ok: "span_new f lo hi c = Inr s \<Longrightarrow> span_ok s"
  by (auto simp: span_new_def span_ok_def split: if_splits)

lemma span_new_refresh: "span_ok s \<Longrightarrow> span_new (sp_file s) (sp_lo s) (sp_hi s) c = Inr (s\<lparr>sp_ctx := c\<rparr>)"
  by (simp add: span_new_def span_ok_def)

lemma span_to_hull:
  assumes "span_ok a" "span_ok b" "span_to a b = Inr s"
  shows "span_ok s \<and> sp_lo s \<le> sp_lo a \<and> sp_lo s \<le> sp_lo b \<and> sp_hi a \<le> sp_hi s \<and> sp_hi b \<le> sp_hi s"
  using assms by (auto simp: span_to_def span_ok_def min_def max_def split: if_splits)

lemma unat_span_len: "span_ok s \<Longrightarrow> unat (span_len s) = unat (sp_hi s) - unat (sp_lo s)"
  by (auto simp: span_ok_def span_len_def unat_sub not_less)

section \<open>The hygiene context\<close>

datatype Transparency = Transparent | SemiTransparent | Opaque

record Mark =
  mark_expn_id :: ExpnId
  mark_transparency :: Transparency

datatype ExpnKind = MacroRules Name | ProcMacro Name | Builtin Name | Root

record ExpnData =
  ed_expn_id :: ExpnId
  ed_parent :: ExpnId
  ed_kind :: ExpnKind
  ed_call_site :: Span
  ed_def_site :: Span
  ed_transparency :: Transparency

record SyntaxContextData =
  sc_outer_expn :: ExpnId
  sc_outer_transparency :: Transparency
  sc_parent :: SyntaxContext

record HygieneCtx =
  hy_expansions :: "ExpnData list"
  hy_next_expn_id :: u32
  hy_contexts :: "SyntaxContextData list"
  hy_next_context :: u32

definition hygiene_new :: HygieneCtx where
  "hygiene_new =
     \<lparr>hy_expansions =
        [\<lparr>ed_expn_id = ExpnId_ROOT, ed_parent = ExpnId_ROOT, ed_kind = Root,
          ed_call_site = Span_DUMMY, ed_def_site = Span_DUMMY, ed_transparency = Opaque\<rparr>],
      hy_next_expn_id = 1, hy_contexts = [], hy_next_context = 1\<rparr>"

text \<open>Both counters are bumped with \<open>+= 1\<close> before anything is stored; every profile of the
  workspace keeps overflow checks on, so the bump panics at \<open>u32::MAX\<close>.\<close>

definition checked_inc :: "u32 \<Rightarrow> panicked + u32" where
  "checked_inc n = (if n = u32_max then Inl Panicked else Inr (n + 1))"

definition push_expansion :: "ExpnData \<Rightarrow> HygieneCtx \<Rightarrow> panicked + ExpnId \<times> HygieneCtx" where
  "push_expansion d h =
     (let i = hy_next_expn_id h
      in case checked_inc i of
           Inl p \<Rightarrow> Inl p
         | Inr n \<Rightarrow> Inr (i, h\<lparr>hy_next_expn_id := n,
                             hy_expansions := hy_expansions h @ [d\<lparr>ed_expn_id := i\<rparr>]\<rparr>))"

definition fresh_context :: "SyntaxContextData \<Rightarrow> HygieneCtx \<Rightarrow> panicked + SyntaxContext \<times> HygieneCtx" where
  "fresh_context d h =
     (case checked_inc (hy_next_context h) of
        Inl p \<Rightarrow> Inl p
      | Inr n \<Rightarrow> Inr (hy_next_context h, h\<lparr>hy_next_context := n, hy_contexts := hy_contexts h @ [d]\<rparr>))"

definition apply_mark :: "HygieneCtx \<Rightarrow> Span \<Rightarrow> Mark \<Rightarrow> (panicked + Span) \<times> HygieneCtx" where
  "apply_mark h span mark =
     (case fresh_context
            \<lparr>sc_outer_expn = mark_expn_id mark, sc_outer_transparency = mark_transparency mark,
             sc_parent = sp_ctx span\<rparr> h of
        Inl p \<Rightarrow> (Inl p, h)
      | Inr (new_ctx, h') \<Rightarrow> (span_new (sp_file span) (sp_lo span) (sp_hi span) new_ctx, h'))"

definition context_data :: "HygieneCtx \<Rightarrow> SyntaxContext \<Rightarrow> SyntaxContextData option" where
  "context_data h c =
     (if ctx_is_root c then None
      else if unat c - 1 < length (hy_contexts h) then Some (hy_contexts h ! (unat c - 1)) else None)"

definition remove_mark :: "HygieneCtx \<Rightarrow> Span \<Rightarrow> panicked + (Span \<times> Mark option)" where
  "remove_mark h span =
     (if ctx_is_root (sp_ctx span) then Inr (span, None)
      else (case context_data h (sp_ctx span) of
              Some d \<Rightarrow>
                (case span_new (sp_file span) (sp_lo span) (sp_hi span) (sc_parent d) of
                   Inl p \<Rightarrow> Inl p
                 | Inr s \<Rightarrow> Inr (s, Some \<lparr>mark_expn_id = sc_outer_expn d,
                                       mark_transparency = sc_outer_transparency d\<rparr>))
            | None \<Rightarrow> Inr (span, None)))"

definition expn_data :: "HygieneCtx \<Rightarrow> ExpnId \<Rightarrow> ExpnData option" where
  "expn_data h i =
     (if unat i < length (hy_expansions h) then Some (hy_expansions h ! unat i) else None)"

definition syntax_context :: "Span \<Rightarrow> SyntaxContext" where
  "syntax_context s = sp_ctx s"

definition expn_id_of :: "HygieneCtx \<Rightarrow> SyntaxContext \<Rightarrow> ExpnId" where
  "expn_id_of h c =
     (if ctx_is_root c then ExpnId_ROOT
      else (case context_data h c of Some d \<Rightarrow> sc_outer_expn d | None \<Rightarrow> ExpnId_ROOT))"

partial_function (option) adjust ::
    "HygieneCtx \<Rightarrow> Span \<Rightarrow> SyntaxContext \<Rightarrow> (panicked + Span) option" where
  "adjust h current scope_ctx =
     (if sp_ctx current \<noteq> scope_ctx \<and> \<not> ctx_is_root (sp_ctx current)
      then (case remove_mark h current of
              Inl p \<Rightarrow> Some (Inl p)
            | Inr (nxt, _) \<Rightarrow> adjust h nxt scope_ctx)
      else Some (Inr current))"

subsection \<open>Both tables are append-only tables\<close>

definition expansions_room :: "nat \<Rightarrow> HygieneCtx \<Rightarrow> bool" where
  "expansions_room n h \<longleftrightarrow>
     length (hy_expansions h) + n < 2 ^ 32 \<and> unat (hy_next_expn_id h) = length (hy_expansions h)"

definition contexts_room :: "nat \<Rightarrow> HygieneCtx \<Rightarrow> bool" where
  "contexts_room n h \<longleftrightarrow>
     Suc (length (hy_contexts h)) + n < 2 ^ 32 \<and>
     unat (hy_next_context h) = Suc (length (hy_contexts h))"

lemma unat_inc_u32: "Suc (unat x) < 2 ^ 32 \<Longrightarrow> unat (x + 1 :: u32) = Suc (unat x)"
  by (simp add: unat_word_ariths)

lemma checked_inc_ok: "Suc (unat n) < 2 ^ 32 \<Longrightarrow> checked_inc n = Inr (n + 1)"
  by (auto simp: checked_inc_def u32_max_def)

interpretation expn: id_table expansions_room push_expansion expn_data
    "\<lambda>i d. d\<lparr>ed_expn_id := i\<rparr>"
  by unfold_locales
    (auto simp: expansions_room_def push_expansion_def expn_data_def Let_def nth_append unat_inc_u32
      checked_inc_ok)

lemma fresh_context_data:
  assumes "contexts_room (Suc n) h" and "fresh_context d h = Inr (c, h')"
  shows "context_data h' c = Some d" and "context_data h c = None" and "c \<noteq> 0"
    and "context_data h k = Some y \<Longrightarrow> context_data h' k = Some y"
proof -
  have u: "unat c = Suc (length (hy_contexts h))" and h: "hy_contexts h' = hy_contexts h @ [d]"
    using assms by (auto simp: contexts_room_def fresh_context_def checked_inc_ok)
  from u show "c \<noteq> 0" by auto
  with u h show "context_data h' c = Some d" and "context_data h c = None"
    by (simp_all add: context_data_def ctx_is_root_def)
  from h show "context_data h k = Some y \<Longrightarrow> context_data h' k = Some y"
    by (auto simp: context_data_def nth_append split: if_splits)
qed

interpretation ctx: id_table contexts_room fresh_context context_data "\<lambda>i d. d"
proof
  show "contexts_room n t'" if "contexts_room (Suc n) t" "fresh_context x t = Inr (i, t')" for n t x i t'
    using that by (auto simp: contexts_room_def fresh_context_def unat_inc_u32 checked_inc_ok)
  show "\<exists>i t'. fresh_context x t = Inr (i, t')" if "contexts_room (Suc n) t" for n x t
    using that by (auto simp: contexts_room_def fresh_context_def checked_inc_ok)
qed (rule fresh_context_data; assumption)+

lemma expansions_room_new: "Suc n < 2 ^ 32 \<Longrightarrow> expansions_room n hygiene_new"
  by (simp add: expansions_room_def hygiene_new_def)

lemma contexts_room_new: "Suc n < 2 ^ 32 \<Longrightarrow> contexts_room n hygiene_new"
  by (simp add: contexts_room_def hygiene_new_def)

subsection \<open>Well-formed hygiene contexts and the \<open>adjust\<close> loop\<close>

text \<open>Every context's parent is the root or an earlier context, so the chain of parents
  ends: the number of a context is its distance bound.\<close>

definition hygiene_wf :: "HygieneCtx \<Rightarrow> bool" where
  "hygiene_wf h \<longleftrightarrow>
     contexts_room 0 h \<and> (\<forall>i < length (hy_contexts h). unat (sc_parent (hy_contexts h ! i)) \<le> i)"

definition ctx_known :: "HygieneCtx \<Rightarrow> SyntaxContext \<Rightarrow> bool" where
  "ctx_known h c \<longleftrightarrow> unat c \<le> length (hy_contexts h)"

lemma hygiene_wf_new: "hygiene_wf hygiene_new"
  by (simp add: hygiene_wf_def contexts_room_def hygiene_new_def)

lemma ctx_known_data:
  assumes "hygiene_wf h" "ctx_known h c" "c \<noteq> 0"
  obtains d where "context_data h c = Some d" "unat (sc_parent d) < unat c" "ctx_known h (sc_parent d)"
proof -
  have pos: "0 < unat c" using assms(3) by (simp add: unat_gt_0)
  then have lt: "unat c - 1 < length (hy_contexts h)"
    using assms(2) by (auto simp: ctx_known_def)
  let ?d = "hy_contexts h ! (unat c - 1)"
  have "context_data h c = Some ?d"
    using assms(3) lt by (simp add: context_data_def ctx_is_root_def)
  moreover have "unat (sc_parent ?d) \<le> unat c - 1"
    using assms(1) lt by (simp add: hygiene_wf_def)
  moreover have "ctx_known h (sc_parent ?d)"
    using calculation(2) lt by (simp add: ctx_known_def)
  ultimately show thesis using pos by (intro that) auto
qed

lemma apply_mark_wf:
  assumes "hygiene_wf h" "ctx_known h (sp_ctx s)" "contexts_room 1 h" "apply_mark h s m = (r, h')"
  shows "hygiene_wf h' \<and> hy_expansions h' = hy_expansions h \<and>
    (\<forall>c. ctx_known h c \<longrightarrow> ctx_known h' c)"
  using assms
  by (auto simp: hygiene_wf_def ctx_known_def contexts_room_def apply_mark_def fresh_context_def
      nth_append less_Suc_eq unat_inc_u32 checked_inc_ok)

lemma apply_mark_ctx:
  assumes "contexts_room 1 h" "span_ok s" "apply_mark h s m = (r, h')"
  shows "r = Inr (s\<lparr>sp_ctx := hy_next_context h\<rparr>) \<and> ctx_known h' (hy_next_context h)"
  using assms
  by (auto simp: apply_mark_def fresh_context_def span_new_refresh ctx_known_def contexts_room_def
      checked_inc_ok unat_inc_u32)

lemma adjust_step:
  "sp_ctx s \<noteq> c \<Longrightarrow> \<not> ctx_is_root (sp_ctx s) \<Longrightarrow> remove_mark h s = Inr (s', m) \<Longrightarrow>
   adjust h s c = adjust h s' c"
  by (simp add: adjust.simps)

lemma adjust_terminates:
  assumes "hygiene_wf h" "ctx_known h (sp_ctx s)" "span_ok s"
  shows "\<exists>c. adjust h s scope = Some (Inr (s\<lparr>sp_ctx := c\<rparr>)) \<and> (c = scope \<or> c = 0)"
  using assms
proof (induction "unat (sp_ctx s)" arbitrary: s rule: less_induct)
  case less
  show ?case
  proof (cases "sp_ctx s \<noteq> scope \<and> sp_ctx s \<noteq> 0")
    case False
    then show ?thesis
      by (intro exI [of _ "sp_ctx s"]) (auto simp: adjust.simps ctx_is_root_def)
  next
    case True
    obtain d where d: "context_data h (sp_ctx s) = Some d" "unat (sc_parent d) < unat (sp_ctx s)"
      "ctx_known h (sc_parent d)"
      using less.prems True by (blast elim: ctx_known_data)
    let ?s = "s\<lparr>sp_ctx := sc_parent d\<rparr>"
    have "remove_mark h s = Inr (?s, Some \<lparr>mark_expn_id = sc_outer_expn d,
        mark_transparency = sc_outer_transparency d\<rparr>)"
      using d(1) True less.prems(3) by (simp add: remove_mark_def ctx_is_root_def span_new_refresh)
    then have "adjust h s scope = adjust h ?s scope"
      using True by (intro adjust_step) (auto simp: ctx_is_root_def)
    moreover have "span_ok ?s" using less.prems(3) by (simp add: span_ok_def)
    ultimately show ?thesis
      using less.hyps [of ?s] d less.prems(1) by auto
  qed
qed

text \<open>A context number the table does not hold sends the loop nowhere: \<open>remove_mark\<close> gives the
  span back unchanged.\<close>

lemma adjust_diverges:
  assumes "context_data h (sp_ctx s) = None" "sp_ctx s \<noteq> 0" "sp_ctx s \<noteq> scope"
  shows "adjust h s scope = None"
proof (rule ccontr)
  assume "adjust h s scope \<noteq> None"
  then obtain r where ret: "adjust h s scope = Some r" by auto
  have "\<not> (h = h \<and> s = s \<and> scope = scope)"
  proof (rule adjust.raw_induct [where P = "\<lambda>h' s' c r. \<not> (h' = h \<and> s' = s \<and> c = scope)", OF _ ret])
    fix adj h' s' c r
    assume IH: "\<And>h' s' c r. adj h' s' c = Some r \<Longrightarrow> \<not> (h' = h \<and> s' = s \<and> c = scope)"
      and eq: "(if sp_ctx s' \<noteq> c \<and> \<not> ctx_is_root (sp_ctx s')
        then (case remove_mark h' s' of Inl p \<Rightarrow> Some (Inl p) | Inr (nxt, _) \<Rightarrow> adj h' nxt c)
        else Some (Inr s')) = Some r"
    show "\<not> (h' = h \<and> s' = s \<and> c = scope)"
    proof
      assume a: "h' = h \<and> s' = s \<and> c = scope"
      have "remove_mark h s = Inr (s, None)"
        using assms by (simp add: remove_mark_def)
      with a eq assms have "adj h s scope = Some r" by (simp add: ctx_is_root_def)
      then show False using IH by blast
    qed
  qed
  then show False by simp
qed

end
