(* ===== verification/Span_Props.thy ===== *)
theory Span_Props
  imports Span_Hygiene
begin

text \<open>
  The contracts of the hygiene context: marks are undone by \<open>remove_mark\<close>, identifiers are fresh
  and find their entries (facts of the interpretations of \<open>id_table\<close>), and \<open>adjust\<close> returns
  exactly when the chain of parents it follows is known.
\<close>

lemma apply_mark_lookup:
  assumes "contexts_room 1 h" "span_ok s" "apply_mark h s m = (r, h')"
  shows "context_data h' (hy_next_context h) =
    Some \<lparr>sc_outer_expn = mark_expn_id m, sc_outer_transparency = mark_transparency m, sc_parent = sp_ctx s\<rparr>"
proof -
  let ?d = "\<lparr>sc_outer_expn = mark_expn_id m, sc_outer_transparency = mark_transparency m, sc_parent = sp_ctx s\<rparr>"
  obtain c where c: "fresh_context ?d h = Inr (c, h')" "c = hy_next_context h"
    using assms by (auto simp: apply_mark_def fresh_context_def contexts_room_def checked_inc_ok)
  have "contexts_room (Suc 0) h" using assms(1) by simp
  with fresh_context_data(1) [OF this c(1)] c(2) show ?thesis by simp
qed

text \<open>
  Marking a span and removing the mark again gives the span and the mark back, and the marked
  span carries a context no earlier span has.
\<close>

theorem remove_mark_apply_mark:
  assumes "contexts_room 1 h" and "span_ok s"
  shows "\<exists>t h'. apply_mark h s m = (Inr t, h') \<and> remove_mark h' t = Inr (s, Some m) \<and>
    context_data h (sp_ctx t) = None \<and> sp_ctx t \<noteq> 0"
proof -
  obtain r h' where a: "apply_mark h s m = (r, h')" by fastforce
  let ?c = "hy_next_context h"
  have r: "r = Inr (s\<lparr>sp_ctx := ?c\<rparr>)" using apply_mark_ctx [OF assms a] by simp
  have c: "?c \<noteq> 0" "context_data h ?c = None"
    using assms(1) by (auto simp: contexts_room_def context_data_def)
  have "span_new (sp_file s) (sp_lo s) (sp_hi s) (sp_ctx s) = Inr s"
    using span_new_refresh [OF assms(2), of "sp_ctx s"] by simp
  then have "remove_mark h' (s\<lparr>sp_ctx := ?c\<rparr>) = Inr (s, Some m)"
    using apply_mark_lookup [OF assms a] c(1) by (simp add: remove_mark_def ctx_is_root_def)
  with a r c show ?thesis by simp
qed

lemma remove_mark_apply_mark_witness:
  "\<exists>t h'. apply_mark hygiene_new Span_DUMMY \<lparr>mark_expn_id = 1, mark_transparency = Opaque\<rparr> = (Inr t, h') \<and>
     remove_mark h' t = Inr (Span_DUMMY, Some \<lparr>mark_expn_id = 1, mark_transparency = Opaque\<rparr>)"
proof -
  have "contexts_room 1 hygiene_new" "span_ok Span_DUMMY"
    by (simp_all add: contexts_room_def hygiene_new_def span_ok_def Span_DUMMY_def)
  from remove_mark_apply_mark [OF this] show ?thesis by blast
qed

text \<open>
  Registering a list of macro expansions, when the counter has room for them, does not panic,
  gives pairwise distinct identifiers, and each finds its own data under its own identifier.
\<close>

theorem push_expansions_fresh:
  assumes "expansions_room (length ds) h"
  shows "\<exists>is h'. alloc_seq push_expansion ds h = Inr (is, h') \<and> length is = length ds \<and> distinct is \<and>
    map (expn_data h') is = map2 (\<lambda>i d. Some (d\<lparr>ed_expn_id := i\<rparr>)) is ds"
proof -
  obtain "is" h' where r: "alloc_seq push_expansion ds h = Inr (is, h')"
    using expn.alloc_seq_ok [OF assms] by blast
  from expn.alloc_seq_lookup [OF assms r] r show ?thesis by blast
qed

lemma push_expansions_fresh_witness:
  "\<exists>is h'. alloc_seq push_expansion (hy_expansions hygiene_new @ hy_expansions hygiene_new) hygiene_new = Inr (is, h') \<and>
     length is = 2 \<and> distinct is"
proof -
  have "expansions_room (length (hy_expansions hygiene_new @ hy_expansions hygiene_new)) hygiene_new"
    by (rule expansions_room_new) (simp add: hygiene_new_def)
  from push_expansions_fresh [OF this] show ?thesis by (fastforce simp: hygiene_new_def)
qed

text \<open>
  In a well-formed hygiene context \<open>adjust\<close> returns on every span whose context is known:
  it changes nothing but the context, which becomes the scope's or the root.
\<close>

theorem adjust_returns:
  assumes "hygiene_wf h" and "ctx_known h (sp_ctx s)" and "span_ok s"
  shows "\<exists>c. adjust h s scope = Some (Inr (s\<lparr>sp_ctx := c\<rparr>)) \<and> (c = scope \<or> c = 0)"
  by (rule adjust_terminates [OF assms])

lemma adjust_returns_witness:
  "\<exists>c. adjust hygiene_new Span_DUMMY 5 = Some (Inr (Span_DUMMY\<lparr>sp_ctx := c\<rparr>)) \<and> (c = 5 \<or> c = 0)"
  by (rule adjust_returns [OF hygiene_wf_new])
    (simp_all add: ctx_known_def hygiene_new_def span_ok_def Span_DUMMY_def SyntaxContext_ROOT_def)

text \<open>
  On a span whose context the table does not hold, and which is neither the root nor the
  scope's, \<open>adjust\<close> never returns.
\<close>

theorem adjust_loops_on_unknown:
  assumes "context_data h (sp_ctx s) = None" and "sp_ctx s \<noteq> 0" and "sp_ctx s \<noteq> scope"
  shows "adjust h s scope = None"
  by (rule adjust_diverges [OF assms])

lemma adjust_loops_on_unknown_witness:
  "adjust hygiene_new (Span_DUMMY\<lparr>sp_ctx := 7\<rparr>) 0 = None"
  by (rule adjust_loops_on_unknown) (simp_all add: context_data_def hygiene_new_def ctx_is_root_def)

end
