(* ===== verification/Lexer.thy ===== *)
theory Lexer
  imports Span_Hygiene
begin

text \<open>
  The lexer: \<open>crates/glyim-frontend/src/lexer.rs\<close>, and the token kinds of
  \<open>crates/glyim-syntax/src/lib.rs\<close>.

  A source text is the list of its Unicode scalar values; positions are byte positions of its
  UTF-8 encoding, as in the code, and a slice that does not fall on a character boundary panics.
  \<open>char::is_alphabetic\<close> and \<open>char::is_alphanumeric\<close> are written out for ASCII and read the tables
  of \<open>unicode\<close> (the standard library's) above it.

  The methods of \<open>Lexer\<close> are computations over its state. A loop of the code that waits for
  \<open>self.pos\<close> to pass a bound spins if it meets the end of the text first; that is the fault
  \<open>Spins\<close>, beside \<open>Panics\<close>. \<open>pos\<close> is at most the length of a Rust allocation, so \<open>pos += n\<close> does not
  overflow and \<open>pos\<close> is a \<open>nat\<close>; the truncating \<open>pos as u32\<close> of a span is written out.
\<close>

section \<open>Token kinds\<close>

text \<open>\<open>SyntaxKind\<close> is one enumeration, commented into sections; here a datatype per section. The
  node kinds, which only the parser makes, are left out.\<close>

datatype KeywordKind =
    KwFn | KwLet | KwStruct | KwEnum | KwIf | KwElse | KwReturn | KwMatch | KwMod | KwComptime
    | KwSelf | KwSuper | KwCrate | KwTrue | KwFalse | KwMut | KwRef | KwAs | KwWhile | KwFor
    | KwLoop | KwIn | KwBreak | KwContinue | KwTrait | KwImpl | KwWhere | KwDyn | KwType | KwPub
    | KwPriv | KwExtern | KwUnsafe | KwUse | KwConst | KwStatic | KwMove | KwMacro | KwMacroRules
    | KwAsync | KwAwait | Lifetime

datatype LiteralKind =
    IntLit | FloatLit | StringLit | CharLit | ByteLit | BoolLit | Ident

datatype OperatorKind =
    Plus | Minus | Star | Slash | Percent | Eq | EqEq | Bang | BangEq | Lt | Gt | LtEq | GtEq
    | And | Or | AndAnd | OrOr | Caret | Shl | Shr | PlusEq | MinusEq | StarEq | SlashEq
    | PercentEq | OrEq | AndEq | CaretEq | ShlEq | ShrEq

datatype PunctKind =
    Arrow | FatArrow | Dot | DotDot | DotDotEq | Comma | Semicolon | Colon | ColonColon | At
    | Hash | Dollar | Tilde | Underscore | Question

datatype DelimKind =
    LParen | RParen | LBrace | RBrace | LBracket | RBracket

datatype TriviaKind =
    Whitespace | LineComment | BlockComment | DocComment

datatype SyntaxKind =
    Keyword KeywordKind | Literal LiteralKind | Operator OperatorKind
  | Punct PunctKind | Delim DelimKind | Trivia TriviaKind | Error

fun is_trivia :: "SyntaxKind \<Rightarrow> bool" where
  "is_trivia (Trivia _) = True"
| "is_trivia _ = False"

fun is_literal :: "SyntaxKind \<Rightarrow> bool" where
  "is_literal (Literal Ident) = False"
| "is_literal (Literal _) = True"
| "is_literal (Keyword KwTrue) = True"
| "is_literal (Keyword KwFalse) = True"
| "is_literal _ = False"

fun is_keyword :: "SyntaxKind \<Rightarrow> bool" where
  "is_keyword (Keyword _) = True"
| "is_keyword _ = False"

section \<open>Texts\<close>

type_synonym rchar = nat
type_synonym rstr = "rchar list"

abbreviation ch :: "char \<Rightarrow> rchar" where
  "ch \<equiv> of_char"

definition rs :: "string \<Rightarrow> rstr" where
  "rs s = List.map ch s"

definition len_utf8 :: "rchar \<Rightarrow> nat" where
  "len_utf8 c = (if c < 0x80 then 1 else if c < 0x800 then 2 else if c < 0x10000 then 3 else 4)"

definition byte_len :: "rstr \<Rightarrow> nat" where
  "byte_len s = sum_list (List.map len_utf8 s)"

text \<open>\<open>&s[n..]\<close>, \<open>&s[..n]\<close> and \<open>&s[a..b]\<close>; \<open>None\<close> is the panic of a position that is out of range
  or inside a character.\<close>

fun slice_from :: "nat \<Rightarrow> rstr \<Rightarrow> rstr option" where
  "slice_from n [] = (if n = 0 then Some [] else None)"
| "slice_from n (c # cs) =
     (if n = 0 then Some (c # cs)
      else if len_utf8 c \<le> n then slice_from (n - len_utf8 c) cs else None)"

fun slice_to :: "nat \<Rightarrow> rstr \<Rightarrow> rstr option" where
  "slice_to n [] = (if n = 0 then Some [] else None)"
| "slice_to n (c # cs) =
     (if n = 0 then Some []
      else if len_utf8 c \<le> n then map_option ((#) c) (slice_to (n - len_utf8 c) cs) else None)"

definition slice :: "nat \<Rightarrow> nat \<Rightarrow> rstr \<Rightarrow> rstr option" where
  "slice a b s =
     (if a \<le> b then (case slice_from a s of None \<Rightarrow> None | Some t \<Rightarrow> slice_to (b - a) t) else None)"

record unicode =
  uni_alphabetic :: "rchar \<Rightarrow> bool"
  uni_numeric :: "rchar \<Rightarrow> bool"

definition is_ascii_digit :: "rchar \<Rightarrow> bool" where
  "is_ascii_digit c \<longleftrightarrow> ch CHR ''0'' \<le> c \<and> c \<le> ch CHR ''9''"

definition is_ascii_alphabetic :: "rchar \<Rightarrow> bool" where
  "is_ascii_alphabetic c \<longleftrightarrow>
     ch CHR ''a'' \<le> c \<and> c \<le> ch CHR ''z'' \<or> ch CHR ''A'' \<le> c \<and> c \<le> ch CHR ''Z''"

definition is_ascii_hexdigit :: "rchar \<Rightarrow> bool" where
  "is_ascii_hexdigit c \<longleftrightarrow>
     is_ascii_digit c \<or> ch CHR ''a'' \<le> c \<and> c \<le> ch CHR ''f'' \<or> ch CHR ''A'' \<le> c \<and> c \<le> ch CHR ''F''"

definition is_alphabetic :: "unicode \<Rightarrow> rchar \<Rightarrow> bool" where
  "is_alphabetic U c \<longleftrightarrow> (if c < 0x80 then is_ascii_alphabetic c else uni_alphabetic U c)"

definition is_alphanumeric :: "unicode \<Rightarrow> rchar \<Rightarrow> bool" where
  "is_alphanumeric U c \<longleftrightarrow>
     (if c < 0x80 then is_ascii_alphabetic c \<or> is_ascii_digit c
      else uni_alphabetic U c \<or> uni_numeric U c)"

section \<open>The keyword and suffix tables\<close>

definition keyword_table :: "(rstr \<times> SyntaxKind) list" where
  "keyword_table =
    [(rs ''fn'', Keyword KwFn), (rs ''let'', Keyword KwLet),
     (rs ''struct'', Keyword KwStruct), (rs ''enum'', Keyword KwEnum),
     (rs ''if'', Keyword KwIf), (rs ''else'', Keyword KwElse),
     (rs ''return'', Keyword KwReturn), (rs ''match'', Keyword KwMatch),
     (rs ''mod'', Keyword KwMod), (rs ''comptime'', Keyword KwComptime),
     (rs ''self'', Keyword KwSelf), (rs ''super'', Keyword KwSuper),
     (rs ''crate'', Keyword KwCrate), (rs ''true'', Keyword KwTrue),
     (rs ''false'', Keyword KwFalse), (rs ''mut'', Keyword KwMut),
     (rs ''move'', Keyword KwMove), (rs ''ref'', Keyword KwRef), (rs ''as'', Keyword KwAs),
     (rs ''while'', Keyword KwWhile), (rs ''for'', Keyword KwFor), (rs ''in'', Keyword KwIn),
     (rs ''break'', Keyword KwBreak), (rs ''continue'', Keyword KwContinue),
     (rs ''loop'', Keyword KwLoop), (rs ''trait'', Keyword KwTrait),
     (rs ''impl'', Keyword KwImpl), (rs ''where'', Keyword KwWhere),
     (rs ''dyn'', Keyword KwDyn), (rs ''type'', Keyword KwType), (rs ''use'', Keyword KwUse),
     (rs ''pub'', Keyword KwPub), (rs ''priv'', Keyword KwPriv),
     (rs ''extern'', Keyword KwExtern), (rs ''unsafe'', Keyword KwUnsafe),
     (rs ''const'', Keyword KwConst), (rs ''static'', Keyword KwStatic),
     (rs ''async'', Keyword KwAsync), (rs ''await'', Keyword KwAwait),
     (rs ''macro'', Keyword KwMacro), (rs ''macro_rules'', Keyword KwMacroRules),
     (rs ''_'', Punct Underscore)]"

definition lookup_keyword :: "rstr \<Rightarrow> SyntaxKind" where
  "lookup_keyword ident =
     (case map_of keyword_table ident of Some k \<Rightarrow> k | None \<Rightarrow> Literal Ident)"

definition is_valid_number_suffix :: "rstr \<Rightarrow> bool" where
  "is_valid_number_suffix suffix \<longleftrightarrow>
     suffix \<in> set (List.map rs
       [''i8'', ''i16'', ''i32'', ''i64'', ''isize'', ''u8'', ''u16'',
        ''u32'', ''u64'', ''usize'', ''f32'', ''f64''])"

section \<open>The lexer's state\<close>

record LexDiag =
  dg_span :: Span
  dg_message :: rstr

record Lexer =
  lx_source :: rstr
  lx_file :: FileId
  lx_pos :: nat
  lx_diags :: "LexDiag list"

record Token =
  tk_kind :: SyntaxKind
  tk_span :: Span
  tk_text :: rstr

record LexResult =
  lr_tokens :: "Token list"
  lr_diags :: "LexDiag list"

datatype lex_fault = Panics | Spins

type_synonym 'a lexing = "(Lexer, lex_fault, 'a) sx"

definition lexer_new :: "rstr \<Rightarrow> FileId \<Rightarrow> Lexer" where
  "lexer_new src file = \<lparr>lx_source = src, lx_file = file, lx_pos = 0, lx_diags = []\<rparr>"

definition or_panic :: "'a option \<Rightarrow> lex_fault + 'a" where
  "or_panic r = (case r of None \<Rightarrow> Inl Panics | Some x \<Rightarrow> Inr x)"

definition lex_look :: "(Lexer \<Rightarrow> lex_fault + 'a) \<Rightarrow> 'a lexing" where
  "lex_look f = (\<lambda>lx. (f lx, lx))"

definition span_from :: "FileId \<Rightarrow> nat \<Rightarrow> nat \<Rightarrow> lex_fault + Span" where
  "span_from file a b =
     (case span_new file (of_nat a) (of_nat b) SyntaxContext_ROOT of
        Inl Panicked \<Rightarrow> Inl Panics | Inr sp \<Rightarrow> Inr sp)"

definition lex_span :: "nat \<Rightarrow> nat \<Rightarrow> Lexer \<Rightarrow> lex_fault + Span" where
  "lex_span a b lx = span_from (lx_file lx) a b"

definition nth_char :: "nat \<Rightarrow> rstr \<Rightarrow> rchar option" where
  "nth_char i s = (if i < length s then Some (s ! i) else None)"

definition lex_rest :: "Lexer \<Rightarrow> lex_fault + rstr" where
  "lex_rest lx = or_panic (slice_from (lx_pos lx) (lx_source lx))"

definition peek :: "Lexer \<Rightarrow> lex_fault + rchar option" where
  "peek lx = map_sum id (nth_char 0) (lex_rest lx)"

definition peek_next :: "Lexer \<Rightarrow> lex_fault + rchar option" where
  "peek_next lx = map_sum id (nth_char 1) (lex_rest lx)"

definition advance :: "rchar option lexing" where
  "advance lx =
     (case peek lx of
        Inl e \<Rightarrow> (Inl e, lx)
      | Inr None \<Rightarrow> (Inr None, lx)
      | Inr (Some c) \<Rightarrow> (Inr (Some c), lx\<lparr>lx_pos := lx_pos lx + len_utf8 c\<rparr>))"

definition report :: "nat \<Rightarrow> nat \<Rightarrow> rstr \<Rightarrow> unit lexing" where
  "report a b msg =
     sx_bind (lex_look (lex_span a b))
       (\<lambda>sp. sx_modify (\<lambda>lx. lx\<lparr>lx_diags := lx_diags lx @ [\<lparr>dg_span = sp, dg_message = msg\<rparr>]\<rparr>))"

definition text_between :: "nat \<Rightarrow> nat \<Rightarrow> Lexer \<Rightarrow> lex_fault + rstr" where
  "text_between a b lx = or_panic (slice a b (lx_source lx))"

text \<open>The two shapes the scanning methods are written in: advance and go on, and test the next
  character.\<close>

definition bump :: "'a lexing \<Rightarrow> 'a lexing" where
  "bump m = sx_bind advance (\<lambda>_. m)"

definition if_peek :: "char \<Rightarrow> 'a lexing \<Rightarrow> 'a lexing \<Rightarrow> 'a lexing" where
  "if_peek c m n = sx_bind (lex_look peek) (\<lambda>p. if p = Some (ch c) then m else n)"

subsection \<open>Progress\<close>

lemma len_utf8_pos [simp]: "0 < len_utf8 c" "len_utf8 c \<noteq> 0"
  by (simp_all add: len_utf8_def)

lemma byte_len_simps [simp]:
  "byte_len [] = 0" "byte_len (c # s) = len_utf8 c + byte_len s"
  "byte_len (s @ t) = byte_len s + byte_len t"
  by (simp_all add: byte_len_def)

lemma byte_len_eq_0 [simp]: "byte_len s = 0 \<longleftrightarrow> s = []" "0 < byte_len s \<longleftrightarrow> s \<noteq> []"
  by (cases s; simp)+

lemma slice_from_eq_Some: "slice_from n s = Some t \<longleftrightarrow> (\<exists>p. s = p @ t \<and> n = byte_len p)"
proof (induction n s rule: slice_from.induct)
  case (2 n c cs)
  show ?case
  proof (cases "n = 0")
    case True
    then show ?thesis by auto
  next
    case False
    have "(\<exists>p. c # cs = p @ t \<and> n = byte_len p) \<longleftrightarrow>
        (\<exists>p. cs = p @ t \<and> n = len_utf8 c + byte_len p)"
      using False by (auto simp: Cons_eq_append_conv)
    with False 2 show ?thesis by auto
  qed
qed auto

lemma peek_SomeD:
  assumes "peek lx = Inr (Some c)"
  shows "lx_pos lx + len_utf8 c \<le> byte_len (lx_source lx)"
proof -
  obtain t where "slice_from (lx_pos lx) (lx_source lx) = Some t" "t \<noteq> []" "t ! 0 = c"
    using assms by (auto simp: peek_def lex_rest_def or_panic_def nth_char_def
        split: option.splits if_splits)
  then obtain p t' where "lx_source lx = p @ c # t'" "lx_pos lx = byte_len p"
    by (cases t) (auto simp: slice_from_eq_Some)
  then show ?thesis by simp
qed

text \<open>A computation that goes \<open>forward\<close> leaves the text alone and never moves back.\<close>

definition forward :: "'a lexing \<Rightarrow> bool" where
  "forward m \<longleftrightarrow> (\<forall>lx x lx'. m lx = (Inr x, lx') \<longrightarrow>
     lx_source lx' = lx_source lx \<and> lx_pos lx \<le> lx_pos lx')"

definition bytes_left :: "Lexer \<Rightarrow> nat" where
  "bytes_left lx = byte_len (lx_source lx) - lx_pos lx"

lemma advance_bytes_left:
  "peek lx = Inr (Some c) \<Longrightarrow> advance lx = (Inr x, lx') \<Longrightarrow> bytes_left lx' < bytes_left lx"
  using peek_SomeD [of lx c] len_utf8_pos [of c] by (auto simp: advance_def bytes_left_def simp del: len_utf8_pos)

lemma forwardD: "forward m \<Longrightarrow> m lx = (Inr x, lx') \<Longrightarrow> bytes_left lx' \<le> bytes_left lx"
  unfolding forward_def bytes_left_def by (metis diff_le_mono2)

lemma forwardI:
  "(\<And>lx x lx'. m lx = (Inr x, lx') \<Longrightarrow> lx_source lx' = lx_source lx \<and> lx_pos lx \<le> lx_pos lx') \<Longrightarrow> forward m"
  by (simp add: forward_def)

lemma forward_advance [simp]: "forward advance"
  by (auto simp: forward_def advance_def split: sum.splits option.splits)

lemma forward_bind [intro]: "forward m \<Longrightarrow> (\<And>x. forward (f x)) \<Longrightarrow> forward (sx_bind m f)"
  by (fastforce simp: forward_def sx_bind_def split: prod.splits sum.splits)

lemma forward_report [simp]: "forward (report a b msg)"
  by (auto simp: forward_def report_def lex_look_def sx_bind_def sx_modify_def
      split: prod.splits sum.splits)

lemma forward_basic [simp]: "forward (sx_return x)" "forward (lex_look f)" "forward (sx_get g)"
  "forward (sx_lift r)"
  by (auto simp: forward_def sx_apply lex_look_def)

lemma sx_bind_cong [fundef_cong]:
  "m s = m' s' \<Longrightarrow> (\<And>x t. m' s' = (Inr x, t) \<Longrightarrow> f x t = f' x t) \<Longrightarrow> sx_bind m f s = sx_bind m' f' s'"
  by (auto simp: sx_bind_def split: prod.split sum.split)

lemma sx_bind_InrE:
  assumes "sx_bind m f s = (Inr x, s')"
  obtains y t where "m s = (Inr y, t)" "f y t = (Inr x, s')"
  using assms by (auto simp: sx_bind_def split: prod.splits sum.splits)

section \<open>Loops over characters\<close>

text \<open>The loops \<open>while let Some(ch) = self.peek() { ... }\<close> that consume a character per round, with
  a value carried along: \<open>step\<close> gives the next value, or \<open>None\<close> for the \<open>break\<close>.\<close>

function char_loop :: "('a \<Rightarrow> rchar \<Rightarrow> 'a option) \<Rightarrow> 'a \<Rightarrow> 'a lexing" where
  "char_loop step v lx =
     (case peek lx of
        Inl e \<Rightarrow> (Inl e, lx)
      | Inr None \<Rightarrow> (Inr v, lx)
      | Inr (Some c) \<Rightarrow>
          (case step v c of
             None \<Rightarrow> (Inr v, lx)
           | Some w \<Rightarrow> sx_bind advance (\<lambda>_. char_loop step w) lx))"
  by pat_completeness auto
termination
  by (relation "measure (\<lambda>(step, v, lx). bytes_left lx)") (auto dest: advance_bytes_left)

declare char_loop.simps [simp del]

lemma forward_char_loop [simp]: "forward (char_loop step v)"
proof (rule forwardI)
  show "lx_source lx' = lx_source lx \<and> lx_pos lx \<le> lx_pos lx'"
    if "char_loop step v lx = (Inr x, lx')" for lx x lx'
    using that
  proof (induction step v lx arbitrary: x lx' rule: char_loop.induct)
    case (1 step v lx)
    note IH = "1.IH" and r = "1.prems" [unfolded char_loop.simps [of step v lx]]
    show ?case
    proof (cases "\<exists>c w. peek lx = Inr (Some c) \<and> step v c = Some w")
      case True
      then obtain c w where c: "peek lx = Inr (Some c)" "step v c = Some w" by blast
      with r obtain y lx1 where a: "advance lx = (Inr y, lx1)" and m: "char_loop step w lx1 = (Inr x, lx')"
        by (auto elim: sx_bind_InrE)
      from IH [OF c(1) refl c(2) a m] a show ?thesis
        by (auto simp: advance_def split: sum.splits option.splits)
    next
      case False
      with r show ?thesis by (auto split: sum.splits option.splits)
    qed
  qed
qed

definition advance_while :: "(rchar \<Rightarrow> bool) \<Rightarrow> unit lexing" where
  "advance_while P = char_loop (\<lambda>_ c. if P c then Some () else None) ()"

lemma forward_advance_while [simp]: "forward (advance_while P)"
  by (simp add: advance_while_def)

text \<open>The body of a block comment, with its nesting depth: returns the depth at which it stops.\<close>

definition checked_step :: "panicked + 'a \<Rightarrow> 'a lexing" where
  "checked_step r = sx_lift (case r of Inl Panicked \<Rightarrow> Inl Panics | Inr x \<Rightarrow> Inr x)"

definition block_step :: "u32 \<Rightarrow> rchar \<Rightarrow> u32 lexing" where
  "block_step depth c =
     sx_bind (lex_look peek_next) (\<lambda>n.
       if c = ch CHR ''/'' \<and> n = Some (ch CHR ''*'')
       then bump (bump (checked_step (checked_inc depth)))
       else if c = ch CHR ''*'' \<and> n = Some (ch CHR ''/'')
       then bump (bump (sx_return (depth - 1)))
       else bump (sx_return depth))"

lemma forward_bump [intro]: "forward m \<Longrightarrow> forward (bump m)"
  by (simp add: bump_def forward_bind)

lemma bump_progress:
  assumes "peek lx = Inr (Some c)" "forward m" "bump m lx = (Inr x, lx')"
  shows "bytes_left lx' < bytes_left lx"
proof -
  obtain y lx1 where a: "advance lx = (Inr y, lx1)" and m: "m lx1 = (Inr x, lx')"
    using assms(3) by (auto simp: bump_def sx_bind_def split: prod.splits sum.splits)
  show ?thesis using advance_bytes_left [OF assms(1) a] forwardD [OF assms(2) m] by simp
qed

lemma forward_block_step [simp]: "forward (block_step d c)"
  by (auto simp: block_step_def checked_step_def intro!: forward_bind forward_bump)

lemma block_step_progress:
  assumes p: "peek lx = Inr (Some c)" and s: "block_step d c' lx = (Inr x, lx')"
  shows "bytes_left lx' < bytes_left lx"
proof -
  have f: "forward (bump (checked_step r :: 'a lexing))" "forward (bump (sx_return (y::'a) :: 'a lexing))"
    "forward (checked_step r :: 'a lexing)" for r and y :: 'a
    by (auto simp: checked_step_def intro!: forward_bump)
  obtain q where "peek_next lx = Inr q"
    using p by (auto simp: peek_def peek_next_def map_sum_def split: sum.splits)
  with s show ?thesis
    by (auto simp: block_step_def sx_bind_def lex_look_def split: if_splits
        elim!: bump_progress [OF p, rotated] intro: f)
qed

function block_loop :: "u32 \<Rightarrow> u32 lexing" where
  "block_loop depth lx =
     (if depth = 0 then (Inr depth, lx)
      else case peek lx of
        Inl e \<Rightarrow> (Inl e, lx)
      | Inr None \<Rightarrow> (Inr depth, lx)
      | Inr (Some c) \<Rightarrow> sx_bind (block_step depth c) block_loop lx)"
  by pat_completeness auto
termination
  by (relation "measure (\<lambda>(d, lx). bytes_left lx)") (auto dest: block_step_progress)

declare block_loop.simps [simp del]

lemma forward_block_loop [simp]: "forward (block_loop d)"
proof (rule forwardI)
  show "lx_source lx' = lx_source lx \<and> lx_pos lx \<le> lx_pos lx'"
    if "block_loop d lx = (Inr x, lx')" for lx x lx'
    using that
  proof (induction d lx arbitrary: x lx' rule: block_loop.induct)
    case (1 d lx)
    note IH = "1.IH" and r = "1.prems" [unfolded block_loop.simps [of d lx]]
    show ?case
    proof (cases "d \<noteq> 0 \<and> (\<exists>c. peek lx = Inr (Some c))")
      case True
      then obtain c where d: "d \<noteq> 0" and c: "peek lx = Inr (Some c)" by blast
      with r obtain e lx1 where a: "block_step d c lx = (Inr e, lx1)" and m: "block_loop e lx1 = (Inr x, lx')"
        by (auto elim: sx_bind_InrE)
      from IH [OF d c refl a m] a show ?thesis
        using forward_block_step [of d c] by (fastforce simp: forward_def)
    next
      case False
      with r show ?thesis by (auto split: sum.splits option.splits if_splits)
    qed
  qed
qed

text \<open>A literal's body up to its closing quote; a backslash takes the next character with it.
  Returns whether the quote was found.\<close>

function quoted_loop :: "rchar \<Rightarrow> bool lexing" where
  "quoted_loop q lx =
     (case peek lx of
        Inl e \<Rightarrow> (Inl e, lx)
      | Inr None \<Rightarrow> (Inr False, lx)
      | Inr (Some c) \<Rightarrow>
          if c = q then bump (sx_return True) lx
          else if c = ch CHR 0x5C then sx_bind (bump advance) (\<lambda>_. quoted_loop q) lx
          else sx_bind advance (\<lambda>_. quoted_loop q) lx)"
  by pat_completeness auto
termination
  by (relation "measure (\<lambda>(q, lx). bytes_left lx)")
    (auto dest: advance_bytes_left bump_progress [OF _ forward_advance])

declare quoted_loop.simps [simp del]

text \<open>\<open>while self.pos < n { self.advance(); }\<close>\<close>

function advance_to :: "nat \<Rightarrow> unit lexing" where
  "advance_to n lx =
     (if lx_pos lx < n
      then case peek lx of
             Inl e \<Rightarrow> (Inl e, lx)
           | Inr None \<Rightarrow> (Inl Spins, lx)
           | Inr (Some c) \<Rightarrow> sx_bind advance (\<lambda>_. advance_to n) lx
      else (Inr (), lx))"
  by pat_completeness auto
termination
  by (relation "measure (\<lambda>(n, lx). bytes_left lx)") (auto dest: advance_bytes_left)

declare advance_to.simps [simp del]

section \<open>Whitespace and comments\<close>

definition line_comment :: "unit lexing" where
  "line_comment = bump (bump (advance_while (\<lambda>c. c \<noteq> ch CHR 0x0A)))"

definition block_comment :: "unit lexing" where
  "block_comment =
     sx_bind (sx_get lx_pos) (\<lambda>comment_start.
     sx_bind (bump (bump (block_loop 1))) (\<lambda>depth.
       if depth > 0
       then sx_bind (sx_get lx_pos) (\<lambda>p. report comment_start p (rs ''unterminated block comment''))
       else sx_return ()))"

lemma forward_comments [simp]: "forward line_comment" "forward block_comment"
  by (auto simp: line_comment_def block_comment_def intro!: forward_bind forward_bump)

text \<open>Both start with an \<open>advance\<close>, so they progress.\<close>

lemma sx_bind_get: "sx_bind (sx_get g) f lx = f (g lx) lx"
  by (simp add: sx_apply)

lemma comment_progress:
  assumes p: "peek lx = Inr (Some c)"
  shows "line_comment lx = (Inr x, lx') \<Longrightarrow> bytes_left lx' < bytes_left lx"
    and "block_comment lx = (Inr x, lx') \<Longrightarrow> bytes_left lx' < bytes_left lx"
proof -
  show "bytes_left lx' < bytes_left lx" if "line_comment lx = (Inr x, lx')"
    using that unfolding line_comment_def by (rule bump_progress [OF p, rotated]) (auto intro!: forward_bump)
  assume "block_comment lx = (Inr x, lx')"
  then obtain d lx1 where m: "bump (bump (block_loop 1)) lx = (Inr d, lx1)"
    and r: "(if d > 0 then sx_bind (sx_get lx_pos) (\<lambda>p. report (lx_pos lx) p (rs ''unterminated block comment''))
             else sx_return ()) lx1 = (Inr x, lx')"
    by (auto simp: block_comment_def sx_bind_get elim: sx_bind_InrE)
  have "bytes_left lx1 < bytes_left lx"
    using m by (rule bump_progress [OF p, rotated]) (auto intro!: forward_bump)
  moreover have "bytes_left lx' \<le> bytes_left lx1"
    using r by (rule forwardD [rotated]) (auto intro!: forward_bind)
  ultimately show "bytes_left lx' < bytes_left lx" by simp
qed

definition is_space :: "rchar \<Rightarrow> bool" where
  "is_space c \<longleftrightarrow> c \<in> {ch CHR '' '', ch CHR 0x09, ch CHR 0x0A, ch CHR 0x0D}"

function trivia_loop :: "unit lexing" where
  "trivia_loop lx =
     (case peek lx of
        Inl e \<Rightarrow> (Inl e, lx)
      | Inr None \<Rightarrow> (Inr (), lx)
      | Inr (Some c) \<Rightarrow>
          if is_space c then sx_bind advance (\<lambda>_. trivia_loop) lx
          else if c = ch CHR ''/'' \<and> peek_next lx = Inr (Some (ch CHR ''/''))
          then sx_bind line_comment (\<lambda>_. trivia_loop) lx
          else if c = ch CHR ''/'' \<and> peek_next lx = Inr (Some (ch CHR ''*''))
          then sx_bind block_comment (\<lambda>_. trivia_loop) lx
          else (Inr (), lx))"
  by pat_completeness auto
termination
  by (relation "measure bytes_left") (auto dest: advance_bytes_left comment_progress)

declare trivia_loop.simps [simp del]

definition lex_trivia :: "bool lexing" where
  "lex_trivia =
     sx_bind (sx_get lx_pos) (\<lambda>start.
     sx_bind trivia_loop (\<lambda>_. sx_get (\<lambda>lx. lx_pos lx > start)))"

section \<open>Identifiers and numbers\<close>

definition is_word :: "unicode \<Rightarrow> rchar \<Rightarrow> bool" where
  "is_word U c \<longleftrightarrow> is_alphanumeric U c \<or> c = ch CHR ''_''"

definition lex_ident_or_keyword :: "unicode \<Rightarrow> unit lexing" where
  "lex_ident_or_keyword U = advance_while (is_word U)"

definition lex_number_suffix :: "unicode \<Rightarrow> unit lexing" where
  "lex_number_suffix U =
     sx_bind (sx_get lx_pos) (\<lambda>suffix_start.
     sx_bind (advance_while (is_word U)) (\<lambda>_.
     sx_bind (sx_get lx_pos) (\<lambda>p.
       if p > suffix_start
       then sx_bind (lex_look (text_between suffix_start p)) (\<lambda>suffix.
              if is_valid_number_suffix suffix then sx_return ()
              else report suffix_start p (rs ''invalid number suffix: '' @ [39] @ suffix @ [39]))
       else sx_return ())))"

definition is_digit_or_underscore :: "rchar \<Rightarrow> bool" where
  "is_digit_or_underscore c \<longleftrightarrow> is_ascii_digit c \<or> c = ch CHR ''_''"

definition hex_digits_step :: "nat \<Rightarrow> rchar \<Rightarrow> nat option" where
  "hex_digits_step digits c =
     (if is_ascii_hexdigit c then Some (digits + 1)
      else if c = ch CHR ''_'' then Some digits else None)"

definition lex_hex :: "unicode \<Rightarrow> SyntaxKind lexing" where
  "lex_hex U =
     sx_bind (sx_get lx_pos) (\<lambda>prefix_start.
     sx_bind (bump (bump (char_loop hex_digits_step 0))) (\<lambda>digits.
     sx_bind
       (if digits = 0
        then sx_bind (sx_get lx_pos) (\<lambda>p.
               report prefix_start p (rs ''expected digits after `0x` prefix''))
        else sx_return ()) (\<lambda>_.
     sx_bind (lex_number_suffix U) (\<lambda>_. sx_return (Literal IntLit)))))"

definition lex_bin :: "unicode \<Rightarrow> SyntaxKind lexing" where
  "lex_bin U =
     sx_bind (bump (bump (advance_while (\<lambda>c. c \<in> {ch CHR ''0'', ch CHR ''1'', ch CHR ''_''})))) (\<lambda>_.
     sx_bind (lex_number_suffix U) (\<lambda>_. sx_return (Literal IntLit)))"

definition lex_oct :: "unicode \<Rightarrow> SyntaxKind lexing" where
  "lex_oct U =
     sx_bind (bump (bump (advance_while
       (\<lambda>c. ch CHR ''0'' \<le> c \<and> c \<le> ch CHR ''7'' \<or> c = ch CHR ''_'')))) (\<lambda>_.
     sx_bind (lex_number_suffix U) (\<lambda>_. sx_return (Literal IntLit)))"

definition lex_fraction :: "bool lexing" where
  "lex_fraction =
     sx_bind (lex_look peek) (\<lambda>p.
     sx_bind (lex_look peek_next) (\<lambda>n.
       if p = Some (ch CHR ''.'') \<and> (\<exists>d. n = Some d \<and> is_ascii_digit d)
       then sx_bind (bump (advance_while is_digit_or_underscore)) (\<lambda>_. sx_return True)
       else sx_return False))"

definition exponent_step :: "bool \<Rightarrow> rchar \<Rightarrow> bool option" where
  "exponent_step has_exponent_digits c =
     (if is_ascii_digit c then Some True
      else if c = ch CHR ''_'' \<and> has_exponent_digits then Some has_exponent_digits else None)"

text \<open>From the \<open>e\<close> on. \<open>Some b\<close>: go on to the suffix, with a float when \<open>b\<close>. \<open>None\<close>: the exponent
  was incomplete, the position is back at its start and the literal ends there.\<close>

definition exponent_body :: "bool option lexing" where
  "exponent_body =
     sx_bind (sx_get lx_pos) (\<lambda>exp_start.
     sx_bind advance (\<lambda>_.
     sx_bind (lex_look peek) (\<lambda>sign.
     sx_bind (if sign = Some (ch CHR ''+'') \<or> sign = Some (ch CHR ''-'') then bump (sx_return ())
              else sx_return ()) (\<lambda>_.
     sx_bind (char_loop exponent_step False) (\<lambda>has_exponent_digits.
       if has_exponent_digits then sx_return (Some True)
       else
         sx_bind (sx_get lx_pos) (\<lambda>exp_end.
         sx_bind (lex_look (text_between exp_start exp_end)) (\<lambda>exp_text.
         sx_bind (report exp_start exp_end
                    (rs ''incomplete float exponent: '' @ [39] @ exp_text @ [39])) (\<lambda>_.
         sx_bind (sx_modify (\<lambda>lx. lx\<lparr>lx_pos := exp_start\<rparr>)) (\<lambda>_. sx_return None)))))))))"

definition lex_exponent :: "bool \<Rightarrow> bool option lexing" where
  "lex_exponent is_float =
     sx_bind (lex_look peek) (\<lambda>p.
       if p = Some (ch CHR ''e'') \<or> p = Some (ch CHR ''E'') then exponent_body
       else sx_return (Some is_float))"

definition number_kind :: "bool \<Rightarrow> SyntaxKind" where
  "number_kind is_float = (if is_float then Literal FloatLit else Literal IntLit)"

definition lex_decimal :: "unicode \<Rightarrow> SyntaxKind lexing" where
  "lex_decimal U =
     sx_bind (advance_while is_digit_or_underscore) (\<lambda>_.
     sx_bind lex_fraction (\<lambda>is_float.
     sx_bind (lex_exponent is_float) (\<lambda>r.
       case r of
         None \<Rightarrow> sx_return (number_kind is_float)
       | Some is_float' \<Rightarrow>
           sx_bind (lex_number_suffix U) (\<lambda>_. sx_return (number_kind is_float')))))"

definition lex_number :: "unicode \<Rightarrow> SyntaxKind lexing" where
  "lex_number U =
     sx_bind (lex_look peek) (\<lambda>p.
     sx_bind (lex_look peek_next) (\<lambda>next.
       if p = Some (ch CHR ''0'')
       then if next = Some (ch CHR ''x'') \<or> next = Some (ch CHR ''X'') then lex_hex U
            else if next = Some (ch CHR ''b'') \<or> next = Some (ch CHR ''B'') then lex_bin U
            else if next = Some (ch CHR ''o'') \<or> next = Some (ch CHR ''O'') then lex_oct U
            else lex_decimal U
       else lex_decimal U))"

section \<open>Quoted literals\<close>

definition lex_quoted :: "rchar \<Rightarrow> rstr \<Rightarrow> unit lexing" where
  "lex_quoted q msg =
     sx_bind (sx_get lx_pos) (\<lambda>start.
     sx_bind (bump (quoted_loop q)) (\<lambda>terminated.
       if terminated then sx_return ()
       else sx_bind (sx_get lx_pos) (\<lambda>p. report start p msg)))"

definition lex_string :: "unit lexing" where
  "lex_string = lex_quoted (ch CHR 0x22) (rs ''unterminated string literal'')"

definition lex_char :: "unit lexing" where
  "lex_char = lex_quoted (ch CHR 0x27) (rs ''unterminated char literal'')"

definition lex_byte_lit :: "unit lexing" where
  "lex_byte_lit =
     sx_bind (sx_get lx_pos) (\<lambda>start.
     sx_bind (bump (lex_look peek)) (\<lambda>p.
       case p of
         None \<Rightarrow> sx_return ()
       | Some q \<Rightarrow>
           if q = ch CHR 0x27 \<or> q = ch CHR 0x22
           then
             sx_bind (bump (quoted_loop q)) (\<lambda>terminated.
               if terminated then sx_return ()
               else sx_bind (sx_get lx_pos) (\<lambda>p. report start p (rs ''unterminated byte literal'')))
           else sx_return ()))"

section \<open>Operators\<close>

definition lex_dot :: "SyntaxKind lexing" where
  "lex_dot =
     bump (if_peek CHR ''.''
       (bump (if_peek CHR ''='' (bump (sx_return (Punct DotDotEq))) (sx_return (Punct DotDot))))
       (sx_return (Punct Dot)))"

definition lex_colon :: "SyntaxKind lexing" where
  "lex_colon =
     bump (if_peek CHR '':'' (bump (sx_return (Punct ColonColon))) (sx_return (Punct Colon)))"

definition lex_plus :: "SyntaxKind lexing" where
  "lex_plus =
     bump (if_peek CHR ''='' (bump (sx_return (Operator PlusEq))) (sx_return (Operator Plus)))"

definition lex_minus :: "SyntaxKind lexing" where
  "lex_minus =
     bump (if_peek CHR ''>'' (bump (sx_return (Punct Arrow)))
       (if_peek CHR ''='' (bump (sx_return (Operator MinusEq))) (sx_return (Operator Minus))))"

definition lex_star :: "SyntaxKind lexing" where
  "lex_star =
     bump (if_peek CHR ''='' (bump (sx_return (Operator StarEq))) (sx_return (Operator Star)))"

definition lex_slash :: "SyntaxKind lexing" where
  "lex_slash =
     bump (if_peek CHR ''='' (bump (sx_return (Operator SlashEq))) (sx_return (Operator Slash)))"

definition lex_eq :: "SyntaxKind lexing" where
  "lex_eq =
     bump (if_peek CHR ''='' (bump (sx_return (Operator EqEq)))
       (if_peek CHR ''>'' (bump (sx_return (Punct FatArrow))) (sx_return (Operator Eq))))"

definition lex_bang :: "SyntaxKind lexing" where
  "lex_bang =
     bump (if_peek CHR ''='' (bump (sx_return (Operator BangEq))) (sx_return (Operator Bang)))"

definition lex_lt :: "SyntaxKind lexing" where
  "lex_lt =
     bump (if_peek CHR ''='' (bump (sx_return (Operator LtEq)))
       (if_peek CHR ''<''
         (bump (if_peek CHR ''='' (bump (sx_return (Operator ShlEq))) (sx_return (Operator Shl))))
         (sx_return (Operator Lt))))"

definition lex_gt :: "SyntaxKind lexing" where
  "lex_gt =
     bump (if_peek CHR ''='' (bump (sx_return (Operator GtEq)))
       (if_peek CHR ''>''
         (bump (if_peek CHR ''='' (bump (sx_return (Operator ShrEq))) (sx_return (Operator Shr))))
         (sx_return (Operator Gt))))"

definition lex_and :: "SyntaxKind lexing" where
  "lex_and =
     bump (if_peek CHR ''&'' (bump (sx_return (Operator AndAnd)))
       (if_peek CHR ''='' (bump (sx_return (Operator AndEq))) (sx_return (Operator And))))"

definition lex_or :: "SyntaxKind lexing" where
  "lex_or =
     bump (if_peek CHR ''|'' (bump (sx_return (Operator OrOr)))
       (if_peek CHR ''='' (bump (sx_return (Operator OrEq))) (sx_return (Operator Or))))"

section \<open>One round of the main loop\<close>

definition emit_text :: "nat \<Rightarrow> SyntaxKind \<Rightarrow> rstr \<Rightarrow> Token option lexing" where
  "emit_text start kind text =
     sx_bind (sx_get lx_pos) (\<lambda>p.
     sx_bind (lex_look (lex_span start p)) (\<lambda>sp.
       sx_return (Some \<lparr>tk_kind = kind, tk_span = sp, tk_text = text\<rparr>)))"

definition lex_emit :: "nat \<Rightarrow> SyntaxKind \<Rightarrow> Token option lexing" where
  "lex_emit start kind =
     sx_bind (sx_get lx_pos) (\<lambda>p.
     sx_bind (lex_look (text_between start p)) (emit_text start kind))"

definition trivia_kind :: "rstr \<Rightarrow> SyntaxKind" where
  "trivia_kind text =
     (if take 2 text = rs ''/*'' then Trivia BlockComment
      else if take 2 text = rs ''//'' then Trivia LineComment
      else Trivia Whitespace)"

definition word_arm :: "unicode \<Rightarrow> nat \<Rightarrow> Token option lexing" where
  "word_arm U start =
     sx_bind (lex_look peek_next) (\<lambda>nb.
     sx_bind (lex_look (\<lambda>lx. text_between start (lx_pos lx + 1) lx)) (\<lambda>first.
     sx_bind (lex_look (\<lambda>lx. or_panic (slice_from start (lx_source lx)))) (\<lambda>rest.
       if length first = 1
          \<and> (take 1 rest = rs ''b'' \<or> take 1 rest = rs ''B'')
          \<and> (nb = Some (ch CHR 0x27) \<or> nb = Some (ch CHR 0x22))
       then sx_bind lex_byte_lit (\<lambda>_. lex_emit start (Literal ByteLit))
       else
         sx_bind (lex_ident_or_keyword U) (\<lambda>_.
         sx_bind (sx_get lx_pos) (\<lambda>p.
         sx_bind (lex_look (text_between start p)) (\<lambda>text.
           emit_text start (lookup_keyword text) text))))))"

fun ident_end :: "unicode \<Rightarrow> rstr \<Rightarrow> nat \<Rightarrow> nat" where
  "ident_end U [] n = n"
| "ident_end U (c # cs) n = (if is_word U c then ident_end U cs (n + len_utf8 c) else n)"

definition lifetime_end :: "unicode \<Rightarrow> nat \<Rightarrow> rstr \<Rightarrow> (bool \<times> nat) option" where
  "lifetime_end U after_quote src =
     (case slice_from after_quote src of
        None \<Rightarrow> None
      | Some [] \<Rightarrow> Some (False, after_quote)
      | Some (first # chars) \<Rightarrow>
          if is_alphabetic U first \<or> first = ch CHR ''_''
          then (let e = ident_end U chars (after_quote + len_utf8 first)
                in map_option (\<lambda>rest. (nth_char 0 rest \<noteq> Some (ch CHR 0x27), e)) (slice_from e src))
          else Some (False, after_quote))"

definition quote_arm :: "unicode \<Rightarrow> nat \<Rightarrow> Token option lexing" where
  "quote_arm U start =
     sx_bind (lex_look (\<lambda>lx. or_panic (lifetime_end U (lx_pos lx + 1) (lx_source lx)))) (\<lambda>(is_lifetime, e).
       if is_lifetime
       then bump (sx_bind (advance_to e) (\<lambda>_. lex_emit start (Keyword Lifetime)))
       else sx_bind lex_char (\<lambda>_. lex_emit start (Literal CharLit)))"

definition single_arm :: "nat \<Rightarrow> char \<Rightarrow> SyntaxKind \<Rightarrow> Token option lexing" where
  "single_arm start c kind = bump (emit_text start kind (rs [c]))"

definition percent_arm :: "nat \<Rightarrow> Token option lexing" where
  "percent_arm start =
     bump (if_peek CHR ''='' (bump (emit_text start (Operator PercentEq) (rs ''%='')))
       (emit_text start (Operator Percent) (rs ''%'')))"

definition caret_arm :: "nat \<Rightarrow> Token option lexing" where
  "caret_arm start =
     bump (if_peek CHR ''='' (bump (emit_text start (Operator CaretEq) (rs ''^='')))
       (emit_text start (Operator Caret) (rs ''^'')))"

definition unknown_arm :: "nat \<Rightarrow> rchar \<Rightarrow> Token option lexing" where
  "unknown_arm start c =
     bump
       (sx_bind (sx_get lx_pos) (\<lambda>p.
        sx_bind (report start p (rs ''unexpected character: '' @ [39, c, 39])) (\<lambda>_.
          lex_emit start Error)))"

definition lex_dispatch :: "unicode \<Rightarrow> nat \<Rightarrow> rchar \<Rightarrow> Token option lexing" where
  "lex_dispatch U start c =
     (if is_ascii_alphabetic c \<or> c = ch CHR ''_'' then word_arm U start
      else if is_ascii_digit c then sx_bind (lex_number U) (lex_emit start)
      else if c = ch CHR 0x22 then sx_bind lex_string (\<lambda>_. lex_emit start (Literal StringLit))
      else if c = ch CHR 0x27 then quote_arm U start
      else if c = ch CHR ''('' then single_arm start CHR ''('' (Delim LParen)
      else if c = ch CHR '')'' then single_arm start CHR '')'' (Delim RParen)
      else if c = ch CHR ''{'' then single_arm start CHR ''{'' (Delim LBrace)
      else if c = ch CHR ''}'' then single_arm start CHR ''}'' (Delim RBrace)
      else if c = ch CHR ''['' then single_arm start CHR ''['' (Delim LBracket)
      else if c = ch CHR '']'' then single_arm start CHR '']'' (Delim RBracket)
      else if c = ch CHR '','' then single_arm start CHR '','' (Punct Comma)
      else if c = ch CHR '';'' then single_arm start CHR '';'' (Punct Semicolon)
      else if c = ch CHR ''.'' then sx_bind lex_dot (lex_emit start)
      else if c = ch CHR '':'' then sx_bind lex_colon (lex_emit start)
      else if c = ch CHR ''+'' then sx_bind lex_plus (lex_emit start)
      else if c = ch CHR ''-'' then sx_bind lex_minus (lex_emit start)
      else if c = ch CHR ''*'' then sx_bind lex_star (lex_emit start)
      else if c = ch CHR ''/'' then sx_bind lex_slash (lex_emit start)
      else if c = ch CHR ''%'' then percent_arm start
      else if c = ch CHR ''='' then sx_bind lex_eq (lex_emit start)
      else if c = ch CHR ''!'' then sx_bind lex_bang (lex_emit start)
      else if c = ch CHR ''<'' then sx_bind lex_lt (lex_emit start)
      else if c = ch CHR ''>'' then sx_bind lex_gt (lex_emit start)
      else if c = ch CHR ''&'' then sx_bind lex_and (lex_emit start)
      else if c = ch CHR ''|'' then sx_bind lex_or (lex_emit start)
      else if c = ch CHR ''^'' then caret_arm start
      else if c = ch CHR ''@'' then single_arm start CHR ''@'' (Punct At)
      else if c = ch CHR ''#'' then single_arm start CHR ''#'' (Punct Hash)
      else if c = ch CHR ''$'' then single_arm start CHR ''$'' (Punct Dollar)
      else if c = ch CHR ''~'' then single_arm start CHR ''~'' (Punct Tilde)
      else if c = ch CHR ''?'' then single_arm start CHR ''?'' (Punct Question)
      else unknown_arm start c)"

text \<open>A round of \<open>while self.pos < self.source.len()\<close>: the token it pushes, or \<open>None\<close> for a
  \<open>break\<close>.\<close>

definition lex_token :: "unicode \<Rightarrow> Token option lexing" where
  "lex_token U =
     sx_bind (sx_get lx_pos) (\<lambda>start.
     sx_bind lex_trivia (\<lambda>found.
       if found
       then
         sx_bind (sx_get lx_pos) (\<lambda>p.
         sx_bind (lex_look (text_between start p)) (\<lambda>text.
           emit_text start (trivia_kind text) text))
       else
         sx_bind (sx_get (\<lambda>lx. lx_pos lx \<ge> byte_len (lx_source lx))) (\<lambda>at_end.
           if at_end then sx_return None
           else
             sx_bind (lex_look peek) (\<lambda>p.
               case p of None \<Rightarrow> sx_return None | Some c \<Rightarrow> lex_dispatch U start c))))"

section \<open>Whole texts\<close>

partial_function (option) lex_all_loop ::
  "unicode \<Rightarrow> Token list \<Rightarrow> Lexer \<Rightarrow> ((lex_fault + Token list) \<times> Lexer) option" where
  "lex_all_loop U tokens lx =
     (if lx_pos lx < byte_len (lx_source lx)
      then case lex_token U lx of
             (Inl e, lx') \<Rightarrow> Some (Inl e, lx')
           | (Inr None, lx') \<Rightarrow> Some (Inr tokens, lx')
           | (Inr (Some t), lx') \<Rightarrow> lex_all_loop U (tokens @ [t]) lx'
      else Some (Inr tokens, lx))"

definition lex_all :: "unicode \<Rightarrow> Lexer \<Rightarrow> (lex_fault + LexResult) option" where
  "lex_all U lx =
     map_option (\<lambda>(r, lx'). map_sum id (\<lambda>ts. \<lparr>lr_tokens = ts, lr_diags = lx_diags lx'\<rparr>) r)
       (lex_all_loop U [] lx)"

definition lexer_lex :: "unicode \<Rightarrow> Lexer \<Rightarrow> (lex_fault + LexResult) option" where
  "lexer_lex U lx =
     map_option (map_sum id (\<lambda>r. r\<lparr>lr_tokens := filter (\<lambda>t. \<not> is_trivia (tk_kind t)) (lr_tokens r)\<rparr>))
       (lex_all U lx)"

definition lex :: "unicode \<Rightarrow> rstr \<Rightarrow> FileId \<Rightarrow> (lex_fault + LexResult) option" where
  "lex U source file = lexer_lex U (lexer_new source file)"

definition lex_with_trivia :: "unicode \<Rightarrow> rstr \<Rightarrow> FileId \<Rightarrow> (lex_fault + LexResult) option" where
  "lex_with_trivia U source file = lex_all U (lexer_new source file)"

end
