(* ===== verification/Lexer_Scan.thy ===== *)
theory Lexer_Scan
  imports Lexer "HOL-Library.Sublist"
begin

text \<open>
  What each scanning method of the lexer consumes.

  A \<open>cursor\<close> is a lexer between two characters of its text. \<open>scans t0 M txt X ms r\<close> says that
  \<open>M\<close>, started after \<open>t0\<close> has been read and in front of \<open>txt @ r\<close>, stops in front of \<open>r\<close> without a
  fault, returns \<open>X\<close> and reports errors with the messages \<open>ms\<close>, all of them inside the text.
  The computation and its result may depend on the file and on the text before \<open>t0\<close>, so that
  positions taken at the start of a token can be used at its end. The rules of \<open>scan_rules\<close> follow
  the structure of the computations.
\<close>

named_theorems scan_rules \<open>structural rules for what a scanning method consumes\<close>

section \<open>Cursors\<close>

definition cursor :: "FileId \<Rightarrow> rstr \<Rightarrow> rstr \<Rightarrow> LexDiag list \<Rightarrow> Lexer" where
  "cursor f pre rest ds =
     \<lparr>lx_source = pre @ rest, lx_file = f, lx_pos = byte_len pre, lx_diags = ds\<rparr>"

lemma cursor_sel [simp]:
  "lx_source (cursor f pre rest ds) = pre @ rest" "lx_file (cursor f pre rest ds) = f"
  "lx_pos (cursor f pre rest ds) = byte_len pre" "lx_diags (cursor f pre rest ds) = ds"
  by (simp_all add: cursor_def)

lemma cursor_upd [simp]:
  "(cursor f pre (c # rest) ds)\<lparr>lx_pos := byte_len pre + len_utf8 c\<rparr> = cursor f (pre @ [c]) rest ds"
  "(cursor f pre rest ds)\<lparr>lx_diags := ds'\<rparr> = cursor f pre rest ds'"
  by (simp_all add: cursor_def)

lemma slice_from_byte_len [simp]: "slice_from (byte_len p) (p @ t) = Some t"
  by (auto simp: slice_from_eq_Some)

lemma slice_to_byte_len [simp]: "slice_to (byte_len p) (p @ t) = Some p"
proof (induction p)
  case Nil
  then show ?case by (cases t) auto
qed simp

lemma slice_byte_len [simp]: "slice (byte_len p) (byte_len p + byte_len t) (p @ t @ r) = Some t"
  by (simp add: slice_def)

lemma lex_rest_cursor [simp]: "lex_rest (cursor f pre rest ds) = Inr rest"
  by (simp add: lex_rest_def or_panic_def)

lemma peek_cursor [simp]: "peek (cursor f pre rest ds) = Inr (nth_char 0 rest)"
  by (simp add: peek_def)

lemma peek_next_cursor [simp]: "peek_next (cursor f pre rest ds) = Inr (nth_char 1 rest)"
  by (simp add: peek_next_def)

lemma nth_char_simps [simp]:
  "nth_char i [] = None" "nth_char 0 (c # s) = Some c" "nth_char (Suc i) (c # s) = nth_char i s"
  by (simp_all add: nth_char_def)

lemma advance_cursor [simp]:
  "advance (cursor f pre (c # rest) ds) = (Inr (Some c), cursor f (pre @ [c]) rest ds)"
  "advance (cursor f pre [] ds) = (Inr None, cursor f pre [] ds)"
  by (simp_all add: advance_def)

section \<open>What a computation consumes\<close>

definition span_within :: "FileId \<Rightarrow> nat \<Rightarrow> nat \<Rightarrow> Span \<Rightarrow> bool" where
  "span_within f a b sp \<longleftrightarrow>
     sp_file sp = f \<and> a \<le> unat (sp_lo sp) \<and> sp_lo sp \<le> sp_hi sp \<and> unat (sp_hi sp) \<le> b"

definition fits :: "rstr \<Rightarrow> bool" where
  "fits s \<longleftrightarrow> byte_len s < 2 ^ 32"

definition scans ::
  "rstr \<Rightarrow> (FileId \<Rightarrow> rstr \<Rightarrow> 'a lexing) \<Rightarrow> rstr \<Rightarrow> (FileId \<Rightarrow> rstr \<Rightarrow> 'a) \<Rightarrow> rstr list \<Rightarrow> rstr \<Rightarrow> bool" where
  "scans t0 M txt X ms r \<longleftrightarrow>
     (\<forall>f pre ds. fits (pre @ t0 @ txt @ r) \<longrightarrow>
        (\<exists>es. M f pre (cursor f (pre @ t0) (txt @ r) ds)
                = (Inr (X f pre), cursor f (pre @ t0 @ txt) r (ds @ es))
              \<and> List.map dg_message es = ms
              \<and> (\<forall>d\<in>set es. span_within f (byte_len pre) (byte_len (pre @ t0 @ txt @ r)) (dg_span d))))"

lemma scansI:
  assumes "\<And>f pre ds. fits (pre @ t0 @ txt @ r) \<Longrightarrow>
    \<exists>es. M f pre (cursor f (pre @ t0) (txt @ r) ds)
           = (Inr (X f pre), cursor f (pre @ t0 @ txt) r (ds @ es))
         \<and> List.map dg_message es = ms
         \<and> (\<forall>d\<in>set es. span_within f (byte_len pre) (byte_len (pre @ t0 @ txt @ r)) (dg_span d))"
  shows "scans t0 M txt X ms r"
  using assms by (simp add: scans_def)

lemma scans_silentI:
  assumes "\<And>f pre ds. M f pre (cursor f (pre @ t0) (txt @ r) ds)
             = (Inr (X f pre), cursor f (pre @ t0 @ txt) r ds)"
  shows "scans t0 M txt X [] r"
  using assms by (simp add: scans_def)

lemma scansE:
  assumes "scans t0 M txt X ms r" and "fits (pre @ t0 @ txt @ r)"
  obtains es where
    "M f pre (cursor f (pre @ t0) (txt @ r) ds) = (Inr (X f pre), cursor f (pre @ t0 @ txt) r (ds @ es))"
    "List.map dg_message es = ms"
    "\<forall>d\<in>set es. span_within f (byte_len pre) (byte_len (pre @ t0 @ txt @ r)) (dg_span d)"
  using assms unfolding scans_def by blast

lemma scans_bind [scan_rules]:
  assumes m: "scans t0 M t1 Y ms1 (t2 @ r)"
    and k: "scans (t0 @ t1) (\<lambda>f pre. K f pre (Y f pre)) t2 X ms2 r"
  shows "scans t0 (\<lambda>f pre. sx_bind (M f pre) (K f pre)) (t1 @ t2) X (ms1 @ ms2) r"
proof (rule scansI)
  fix f pre ds assume fit: "fits (pre @ t0 @ (t1 @ t2) @ r)"
  then have "fits (pre @ t0 @ t1 @ t2 @ r)" by simp
  with m obtain es1 where
    1: "M f pre (cursor f (pre @ t0) (t1 @ t2 @ r) ds) = (Inr (Y f pre), cursor f (pre @ t0 @ t1) (t2 @ r) (ds @ es1))"
      "List.map dg_message es1 = ms1"
      "\<forall>d\<in>set es1. span_within f (byte_len pre) (byte_len (pre @ t0 @ t1 @ t2 @ r)) (dg_span d)"
    by (rule scansE)
  have "fits (pre @ (t0 @ t1) @ t2 @ r)" using fit by simp
  with k obtain es2 where
    2: "K f pre (Y f pre) (cursor f (pre @ t0 @ t1) (t2 @ r) (ds @ es1))
         = (Inr (X f pre), cursor f (pre @ t0 @ t1 @ t2) r (ds @ es1 @ es2))"
      "List.map dg_message es2 = ms2"
      "\<forall>d\<in>set es2. span_within f (byte_len pre) (byte_len (pre @ t0 @ t1 @ t2 @ r)) (dg_span d)"
    by (rule scansE [where f = f and ds = "ds @ es1"]) simp
  from 1 2 show "\<exists>es. sx_bind (M f pre) (K f pre) (cursor f (pre @ t0) ((t1 @ t2) @ r) ds)
           = (Inr (X f pre), cursor f (pre @ t0 @ t1 @ t2) r (ds @ es))
         \<and> List.map dg_message es = ms1 @ ms2
         \<and> (\<forall>d\<in>set es. span_within f (byte_len pre) (byte_len (pre @ t0 @ (t1 @ t2) @ r)) (dg_span d))"
    by (intro exI [of _ "es1 @ es2"]) auto
qed

lemma scans_bind0 [scan_rules]:
  assumes "scans t0 M [] Y [] (t @ r)"
    and "scans t0 (\<lambda>f pre. K f pre (Y f pre)) t X ms r"
  shows "scans t0 (\<lambda>f pre. sx_bind (M f pre) (K f pre)) t X ms r"
  using scans_bind [of t0 M "[]" Y "[]" t r K X ms] assms by simp

lemma scans_return [scan_rules]: "scans t0 (\<lambda>f pre. sx_return (X f pre)) [] X [] r"
  by (rule scans_silentI) (simp add: sx_apply)

lemma scans_pos [scan_rules]:
  "scans t0 (\<lambda>f pre. sx_get lx_pos) [] (\<lambda>f pre. byte_len pre + byte_len t0) [] r"
  by (rule scans_silentI) (simp add: sx_apply)

lemma scans_peek [scan_rules]: "scans t0 (\<lambda>f pre. lex_look peek) [] (\<lambda>f pre. nth_char 0 r) [] r"
  by (rule scans_silentI) (simp add: lex_look_def)

lemma scans_peek_next [scan_rules]:
  "scans t0 (\<lambda>f pre. lex_look peek_next) [] (\<lambda>f pre. nth_char 1 r) [] r"
  by (rule scans_silentI) (simp add: lex_look_def)

lemma scans_advance [scan_rules]: "scans t0 (\<lambda>f pre. advance) [c] (\<lambda>f pre. Some c) [] r"
  by (rule scans_silentI) simp

lemma scans_bump [scan_rules]:
  "scans (t0 @ [c]) M t X ms r \<Longrightarrow> scans t0 (\<lambda>f pre. bump (M f pre)) (c # t) X ms r"
  unfolding bump_def using scans_bind [OF scans_advance [of t0 c "t @ r"], where K = "\<lambda>f pre _. M f pre"] by simp

lemma scans_if_peek [scan_rules]:
  assumes "nth_char 0 (t @ r) = Some (ch c) \<Longrightarrow> scans t0 M t X ms r"
    and "nth_char 0 (t @ r) \<noteq> Some (ch c) \<Longrightarrow> scans t0 N t X ms r"
  shows "scans t0 (\<lambda>f pre. if_peek c (M f pre) (N f pre)) t X ms r"
  unfolding if_peek_def
  by (rule scans_bind0 [OF scans_peek]) (use assms in \<open>cases "nth_char 0 (t @ r) = Some (ch c)"; simp\<close>)

lemma unat_of_nat_fits: "fits s \<Longrightarrow> n \<le> byte_len s \<Longrightarrow> unat (of_nat n :: u32) = n"
  by (simp add: fits_def unsigned_of_nat take_bit_nat_eq_self)

lemma span_from_fits:
  assumes "fits s" "a \<le> b" "b \<le> byte_len s"
  shows "span_from f a b =
    Inr \<lparr>sp_file = f, sp_lo = of_nat a, sp_hi = of_nat b, sp_ctx = SyntaxContext_ROOT\<rparr>"
proof -
  have "(of_nat a :: u32) \<le> of_nat b"
    using assms unat_of_nat_fits [of s a] unat_of_nat_fits [of s b] by (simp add: word_le_nat_alt)
  then show ?thesis by (simp add: span_from_def span_new_def)
qed

lemma scans_report [scan_rules]:
  assumes "i \<le> j" "j \<le> byte_len (t0 @ r)"
  shows "scans t0 (\<lambda>f pre. report (byte_len pre + i) (byte_len pre + j) msg) [] (\<lambda>f pre. ()) [msg] r"
proof (rule scansI)
  fix f pre ds assume fit: "fits (pre @ t0 @ [] @ r)"
  have s: "span_from f (byte_len pre + i) (byte_len pre + j) =
      Inr \<lparr>sp_file = f, sp_lo = of_nat (byte_len pre + i), sp_hi = of_nat (byte_len pre + j),
           sp_ctx = SyntaxContext_ROOT\<rparr>" (is "_ = Inr ?sp")
    using assms by (intro span_from_fits [OF fit]) auto
  have u: "unat (of_nat (byte_len pre + k) :: u32) = byte_len pre + k" if "k \<le> j" for k
    by (rule unat_of_nat_fits [OF fit]) (use assms that in auto)
  have w: "span_within f (byte_len pre) (byte_len (pre @ t0 @ [] @ r)) ?sp"
    using assms u [of i] u [of j] by (simp add: span_within_def word_le_nat_alt del: of_nat_add)
  have "report (byte_len pre + i) (byte_len pre + j) msg (cursor f (pre @ t0) ([] @ r) ds)
      = (Inr (), cursor f (pre @ t0 @ []) r (ds @ [\<lparr>dg_span = ?sp, dg_message = msg\<rparr>]))"
    by (simp add: report_def lex_look_def lex_span_def s sx_apply sx_bind_apply del: of_nat_add)
  with w show "\<exists>es. report (byte_len pre + i) (byte_len pre + j) msg (cursor f (pre @ t0) ([] @ r) ds)
      = (Inr (), cursor f (pre @ t0 @ []) r (ds @ es)) \<and> List.map dg_message es = [msg]
      \<and> (\<forall>d\<in>set es. span_within f (byte_len pre) (byte_len (pre @ t0 @ [] @ r)) (dg_span d))"
    by fastforce
qed

lemma scans_report0 [scan_rules]:
  "j \<le> byte_len (t0 @ r) \<Longrightarrow>
   scans t0 (\<lambda>f pre. report (byte_len pre) (byte_len pre + j) msg) [] (\<lambda>f pre. ()) [msg] r"
  using scans_report [of 0 j t0 r msg] by simp

lemma scans_text [scan_rules]:
  "scans (a @ b) (\<lambda>f pre. lex_look (text_between (byte_len pre + byte_len a) (byte_len pre + byte_len (a @ b))))
     [] (\<lambda>f pre. b) [] r"
proof (rule scans_silentI)
  fix f pre ds
  have "slice (byte_len (pre @ a)) (byte_len (pre @ a) + byte_len b) ((pre @ a) @ b @ r) = Some b"
    by (rule slice_byte_len)
  then show "lex_look (text_between (byte_len pre + byte_len a) (byte_len pre + byte_len (a @ b)))
      (cursor f (pre @ a @ b) ([] @ r) ds) = (Inr b, cursor f (pre @ (a @ b) @ []) r ds)"
    by (simp add: lex_look_def text_between_def or_panic_def add.assoc)
qed

lemma scans_text0 [scan_rules]:
  "scans t0 (\<lambda>f pre. lex_look (text_between (byte_len pre) (byte_len pre + byte_len t0)))
     [] (\<lambda>f pre. t0) [] r"
  using scans_text [of "[]" t0 r] by simp

text \<open>\<open>consumes t0 M t X r\<close>: in front of \<open>t @ r\<close>, and in front of \<open>t\<close> followed by any prefix of \<open>r\<close>,
  \<open>M\<close> reads \<open>t\<close> and returns \<open>X\<close>. Nothing it looks at beyond \<open>t\<close> matters.\<close>

definition consumes ::
  "rstr \<Rightarrow> (FileId \<Rightarrow> rstr \<Rightarrow> 'a lexing) \<Rightarrow> rstr \<Rightarrow> (FileId \<Rightarrow> rstr \<Rightarrow> 'a) \<Rightarrow> rstr \<Rightarrow> bool" where
  "consumes t0 M t X r \<longleftrightarrow> (\<forall>r'. prefix r' r \<longrightarrow> (\<exists>ms. scans t0 M t X ms r'))"

lemma consumesI: "(\<And>r'. prefix r' r \<Longrightarrow> scans t0 M t X ms r') \<Longrightarrow> consumes t0 M t X r"
  by (auto simp: consumes_def)

lemma consumes_scans: "consumes t0 M t X r \<Longrightarrow> prefix r' r \<Longrightarrow> \<exists>ms. scans t0 M t X ms r'"
  by (auto simp: consumes_def)

lemma consumes_bind [scan_rules]:
  assumes "consumes t0 M t1 Y (t2 @ r)"
    and "consumes (t0 @ t1) (\<lambda>f pre. K f pre (Y f pre)) t2 X r"
  shows "consumes t0 (\<lambda>f pre. sx_bind (M f pre) (K f pre)) (t1 @ t2) X r"
  unfolding consumes_def
proof (intro allI impI)
  fix r' assume "prefix r' r"
  then obtain ms1 ms2 where "scans t0 M t1 Y ms1 (t2 @ r')"
    and "scans (t0 @ t1) (\<lambda>f pre. K f pre (Y f pre)) t2 X ms2 r'"
    using assms by (meson consumes_scans same_prefix_prefix)
  then show "\<exists>ms. scans t0 (\<lambda>f pre. sx_bind (M f pre) (K f pre)) (t1 @ t2) X ms r'"
    using scans_bind by blast
qed

lemma consumes_bind0 [scan_rules]:
  assumes "\<And>r'. prefix r' r \<Longrightarrow> scans t0 M [] Y [] (t @ r')"
    and "consumes t0 (\<lambda>f pre. K f pre (Y f pre)) t X r"
  shows "consumes t0 (\<lambda>f pre. sx_bind (M f pre) (K f pre)) t X r"
  using assms scans_bind0 unfolding consumes_def by blast

lemma consumes_bind1 [scan_rules]:
  assumes "consumes t0 M t Y r"
    and "consumes (t0 @ t) (\<lambda>f pre. K f pre (Y f pre)) [] X r"
  shows "consumes t0 (\<lambda>f pre. sx_bind (M f pre) (K f pre)) t X r"
  using consumes_bind [of t0 M t Y "[]" r K X] assms by simp

lemma consumes_return [scan_rules]: "consumes t0 (\<lambda>f pre. sx_return (X f pre)) [] X r"
  by (rule consumesI) (rule scans_return)

lemma consumes_pos_bind [scan_rules]:
  "consumes t0 (\<lambda>f pre. K f pre (byte_len pre + byte_len t0)) t X r \<Longrightarrow>
   consumes t0 (\<lambda>f pre. sx_bind (sx_get lx_pos) (K f pre)) t X r"
  by (rule consumes_bind0 [OF scans_pos])

lemma consumes_bump [scan_rules]:
  "consumes (t0 @ [c]) M t X r \<Longrightarrow> consumes t0 (\<lambda>f pre. bump (M f pre)) (c # t) X r"
  unfolding consumes_def by (blast intro: scans_bump)

lemma prefix_nth_char:
  "prefix r' r \<Longrightarrow> nth_char i (t @ r) \<noteq> Some c \<Longrightarrow> nth_char i (t @ r') \<noteq> Some c"
  by (auto simp: prefix_def nth_char_def nth_append split: if_splits)

lemma consumes_if_peek_no:
  assumes "nth_char 0 (t @ r) \<noteq> Some (ch c)" and "consumes t0 N t X r"
  shows "consumes t0 (\<lambda>f pre. if_peek c (M f pre) (N f pre)) t X r"
  unfolding consumes_def
proof (intro allI impI)
  fix r' assume p: "prefix r' r"
  then obtain ms where "scans t0 N t X ms r'" using assms(2) by (blast dest: consumes_scans)
  with prefix_nth_char [OF p assms(1)]
  show "\<exists>ms. scans t0 (\<lambda>f pre. if_peek c (M f pre) (N f pre)) t X ms r'"
    by (blast intro: scans_if_peek)
qed

lemma consumes_if_peek_yes:
  assumes "consumes t0 M (ch c # t) X r"
  shows "consumes t0 (\<lambda>f pre. if_peek c (M f pre) (N f pre)) (ch c # t) X r"
  using assms unfolding consumes_def by (fastforce intro: scans_if_peek)

section \<open>Tokens\<close>

definition token_at :: "FileId \<Rightarrow> rstr \<Rightarrow> rstr \<Rightarrow> SyntaxKind \<Rightarrow> Token" where
  "token_at f pre txt k =
     \<lparr>tk_kind = k,
      tk_span = \<lparr>sp_file = f, sp_lo = of_nat (byte_len pre), sp_hi = of_nat (byte_len pre + byte_len txt),
                 sp_ctx = SyntaxContext_ROOT\<rparr>,
      tk_text = txt\<rparr>"

lemma scans_emit_text:
  "scans txt (\<lambda>f pre. emit_text (byte_len pre) k txt) [] (\<lambda>f pre. Some (token_at f pre txt k)) [] r"
proof (rule scansI)
  fix f pre ds assume "fits (pre @ txt @ [] @ r)"
  then have "span_from f (byte_len pre) (byte_len pre + byte_len txt) =
      Inr \<lparr>sp_file = f, sp_lo = of_nat (byte_len pre), sp_hi = of_nat (byte_len pre + byte_len txt),
           sp_ctx = SyntaxContext_ROOT\<rparr>"
    by (rule span_from_fits) auto
  then show "\<exists>es. emit_text (byte_len pre) k txt (cursor f (pre @ txt) ([] @ r) ds)
      = (Inr (Some (token_at f pre txt k)), cursor f (pre @ txt @ []) r (ds @ es))
      \<and> List.map dg_message es = [] \<and> (\<forall>d\<in>set es. span_within f (byte_len pre) (byte_len (pre @ txt @ [] @ r)) (dg_span d))"
    by (intro exI [of _ "[]"])
      (simp add: emit_text_def sx_bind_get lex_look_def lex_span_def sx_bind_apply sx_apply token_at_def)
qed

lemma consumes_emit_text [scan_rules]:
  "consumes txt (\<lambda>f pre. emit_text (byte_len pre) k txt) [] (\<lambda>f pre. Some (token_at f pre txt k)) r"
  by (rule consumesI) (rule scans_emit_text)

lemma scans_emit:
  "scans txt (\<lambda>f pre. lex_emit (byte_len pre) k) [] (\<lambda>f pre. Some (token_at f pre txt k)) [] r"
  unfolding lex_emit_def
  by (rule scans_bind0 [OF scans_pos], rule scans_bind0 [OF scans_text0], rule scans_emit_text)

lemma consumes_emit [scan_rules]:
  "consumes txt (\<lambda>f pre. lex_emit (byte_len pre) k) [] (\<lambda>f pre. Some (token_at f pre txt k)) r"
  by (rule consumesI) (rule scans_emit)

section \<open>The loops\<close>

primrec steps_to :: "('a \<Rightarrow> rchar \<Rightarrow> 'a option) \<Rightarrow> 'a \<Rightarrow> rstr \<Rightarrow> 'a option" where
  "steps_to step v [] = Some v"
| "steps_to step v (c # t) = (case step v c of None \<Rightarrow> None | Some w \<Rightarrow> steps_to step w t)"

definition stuck :: "('a \<Rightarrow> rchar \<Rightarrow> 'a option) \<Rightarrow> 'a \<Rightarrow> rstr \<Rightarrow> bool" where
  "stuck step v r \<longleftrightarrow> r = [] \<or> step v (hd r) = None"

lemma stuck_prefix: "stuck step v r \<Longrightarrow> prefix r' r \<Longrightarrow> stuck step v r'"
  by (cases r') (auto simp: stuck_def prefix_def)

lemma char_loop_cursor:
  "steps_to step v t = Some w \<Longrightarrow> stuck step w r \<Longrightarrow>
   char_loop step v (cursor f pre (t @ r) ds) = (Inr w, cursor f (pre @ t) r ds)"
proof (induction t arbitrary: v pre)
  case Nil
  then show ?case by (cases r) (auto simp: char_loop.simps stuck_def)
next
  case (Cons c t)
  then show ?case by (auto simp: char_loop.simps [of step v] split: option.splits)
qed

lemma consumes_char_loop:
  "steps_to step v t = Some w \<Longrightarrow> stuck step w r \<Longrightarrow>
   consumes t0 (\<lambda>f pre. char_loop step v) t (\<lambda>f pre. w) r"
  by (rule consumesI, rule scans_silentI) (auto simp: char_loop_cursor dest: stuck_prefix)

lemma steps_split: "\<exists>t r w. rest = t @ r \<and> steps_to step v t = Some w \<and> stuck step w r"
proof (induction rest arbitrary: v)
  case Nil
  then show ?case by (intro exI [of _ "[]"]) (simp add: stuck_def)
next
  case (Cons c rest)
  show ?case
  proof (cases "step v c")
    case None
    then show ?thesis by (intro exI [of _ "[]"] exI [of _ "c # rest"]) (simp add: stuck_def)
  next
    case (Some w)
    with Cons [of w] show ?thesis by (metis append_Cons option.simps(5) steps_to.simps(2))
  qed
qed

definition ends :: "(rchar \<Rightarrow> bool) \<Rightarrow> rstr \<Rightarrow> bool" where
  "ends P r \<longleftrightarrow> r = [] \<or> \<not> P (hd r)"

lemma consumes_advance_while:
  assumes "\<forall>c\<in>set t. P c" "ends P r"
  shows "consumes t0 (\<lambda>f pre. advance_while P) t (\<lambda>f pre. ()) r"
proof -
  have "steps_to (\<lambda>_ c. if P c then Some () else None) () t = Some ()"
    using assms(1) by (induction t) auto
  then show ?thesis
    unfolding advance_while_def using assms(2)
    by (intro consumes_char_loop) (auto simp: stuck_def ends_def)
qed

lemma while_split: "\<exists>t r. rest = t @ r \<and> (\<forall>c\<in>set t. P c) \<and> ends P r"
  by (rule exI [of _ "takeWhile P rest"], rule exI [of _ "dropWhile P rest"])
    (auto simp: ends_def simp del: dropWhile_eq_Nil_conv dest: set_takeWhileD hd_dropWhile)

text \<open>A quoted body is read up to its closing quote, or to the end of the text.\<close>

lemma quoted_loop_split:
  "\<exists>t r b. rest = t @ r \<and> (b \<longleftrightarrow> t \<noteq> [] \<and> last t = q \<and> b) \<and> (\<not> b \<longrightarrow> r = []) \<and>
     (\<forall>f pre ds r'. prefix r' r \<longrightarrow>
        quoted_loop q (cursor f pre (t @ r') ds) = (Inr b, cursor f (pre @ t) r' ds))"
proof (induction rest rule: length_induct)
  case (1 rest)
  show ?case
  proof (cases rest)
    case Nil
    then show ?thesis
      by (intro exI [of _ "[]"] exI [of _ False]) (simp add: quoted_loop.simps)
  next
    case (Cons c cs)
    consider (close) "c = q" | (escape_end) "c \<noteq> q" "c = ch CHR 0x5C" "cs = []"
      | (escape) d ds where "c \<noteq> q" "c = ch CHR 0x5C" "cs = d # ds" | (plain) "c \<noteq> q" "c \<noteq> ch CHR 0x5C"
      by (cases cs) auto
    then show ?thesis
    proof cases
      case close
      with Cons show ?thesis
        by (intro exI [of _ "[q]"] exI [of _ cs] exI [of _ True])
          (simp add: quoted_loop.simps bump_def sx_bind_apply sx_apply)
    next
      case escape_end
      with Cons show ?thesis
        by (intro exI [of _ "[c]"] exI [of _ "[]"] exI [of _ False])
          (simp add: quoted_loop.simps [of q "cursor _ _ _ _"] bump_def sx_bind_apply sx_apply)
    next
      case escape
      with 1 Cons obtain t r b where "ds = t @ r" "b \<longleftrightarrow> t \<noteq> [] \<and> last t = q \<and> b" "\<not> b \<longrightarrow> r = []"
        and "\<And>f pre ds r'. prefix r' r \<Longrightarrow>
          quoted_loop q (cursor f pre (t @ r') ds) = (Inr b, cursor f (pre @ t) r' ds)"
        by (metis length_Cons less_Suc_eq)
      with escape Cons show ?thesis
        by (intro exI [of _ "c # d # t"] exI [of _ r] exI [of _ b])
          (auto simp: quoted_loop.simps [of q "cursor _ _ (_ # _) _"] bump_def sx_bind_apply)
    next
      case plain
      with 1 Cons obtain t r b where "cs = t @ r" "b \<longleftrightarrow> t \<noteq> [] \<and> last t = q \<and> b" "\<not> b \<longrightarrow> r = []"
        and "\<And>f pre ds r'. prefix r' r \<Longrightarrow>
          quoted_loop q (cursor f pre (t @ r') ds) = (Inr b, cursor f (pre @ t) r' ds)"
        by (metis length_Cons lessI)
      with plain Cons show ?thesis
        by (intro exI [of _ "c # t"] exI [of _ r] exI [of _ b])
          (auto simp: quoted_loop.simps [of q "cursor _ _ (_ # _) _"] sx_bind_apply)
    qed
  qed
qed

text \<open>The body of a block comment is read up to the delimiter that closes it, or to the end of the
  text. The depth stays below the number of bytes read, so it cannot overflow.\<close>

lemma scans_not_fits: "\<not> fits (t0 @ t @ r) \<Longrightarrow> scans t0 M t X ms r"
  by (simp add: scans_def fits_def)

lemma scans_deeper:
  assumes "unat d \<le> byte_len t0"
  shows "scans (t0 @ [a, b]) (\<lambda>f pre. checked_step (checked_inc d)) [] (\<lambda>f pre. d + 1) [] r"
    and "fits (t0 @ [a, b]) \<Longrightarrow> unat (d + 1) = unat d + 1"
proof -
  have u: "d \<noteq> u32_max" if "fits (t0 @ [a, b])"
    using that assms len_utf8_pos [of a] len_utf8_pos [of b]
    by (auto simp: fits_def u32_max_def simp del: len_utf8_pos)
  show "scans (t0 @ [a, b]) (\<lambda>f pre. checked_step (checked_inc d)) [] (\<lambda>f pre. d + 1) [] r"
  proof (cases "fits ((t0 @ [a, b]) @ [] @ r)")
    case True
    then have "d \<noteq> u32_max" by (intro u) (simp add: fits_def)
    then show ?thesis
      by (intro scans_silentI) (simp add: checked_inc_def checked_step_def sx_apply)
  qed (rule scans_not_fits)
  assume "fits (t0 @ [a, b])"
  with u have "d \<noteq> u32_max" by blast
  moreover have "(- 1 :: u32) = u32_max" by (simp add: u32_max_def)
  ultimately have "1 + d \<noteq> 0" by (metis add.commute eq_neg_iff_add_eq_0)
  then show "unat (d + 1) = unat d + 1" using unatSuc [of d] by (simp add: add.commute)
qed

lemma block_step_at:
  assumes "unat d \<le> byte_len t0"
  shows "scans t0 (\<lambda>f pre. block_step d (ch CHR ''/'')) [ch CHR ''/'', ch CHR ''*''] (\<lambda>f pre. d + 1) [] r"
    and "scans t0 (\<lambda>f pre. block_step d (ch CHR ''*'')) [ch CHR ''*'', ch CHR ''/''] (\<lambda>f pre. d - 1) [] r"
    and "\<not> (c = ch CHR ''/'' \<and> nth_char 0 r = Some (ch CHR ''*'')) \<Longrightarrow>
      \<not> (c = ch CHR ''*'' \<and> nth_char 0 r = Some (ch CHR ''/'')) \<Longrightarrow>
      scans t0 (\<lambda>f pre. block_step d c) [c] (\<lambda>f pre. d) [] r"
proof -
  have "scans t0 (\<lambda>f pre. bump (bump (checked_step (checked_inc d)))) [ch CHR ''/'', ch CHR ''*''] (\<lambda>f pre. d + 1) [] r"
    using scans_deeper(1) [OF assms, of "ch CHR ''/''" "ch CHR ''*''" r] by (intro scans_bump) simp
  then show "scans t0 (\<lambda>f pre. block_step d (ch CHR ''/'')) [ch CHR ''/'', ch CHR ''*''] (\<lambda>f pre. d + 1) [] r"
    unfolding block_step_def by (intro scans_bind0 [OF scans_peek_next]) simp
  show "scans t0 (\<lambda>f pre. block_step d (ch CHR ''*'')) [ch CHR ''*'', ch CHR ''/''] (\<lambda>f pre. d - 1) [] r"
    unfolding block_step_def
    by (intro scans_bind0 [OF scans_peek_next]) (simp add: scans_bump scans_return)
  assume "\<not> (c = ch CHR ''/'' \<and> nth_char 0 r = Some (ch CHR ''*''))"
    "\<not> (c = ch CHR ''*'' \<and> nth_char 0 r = Some (ch CHR ''/''))"
  then show "scans t0 (\<lambda>f pre. block_step d c) [c] (\<lambda>f pre. d) [] r"
    unfolding block_step_def
    by (intro scans_bind0 [OF scans_peek_next]) (auto simp: nth_char_def scans_bump scans_return)
qed

lemma scans_block_loop_step:
  assumes "d \<noteq> 0" "scans t0 (\<lambda>f pre. block_step d c) (c # t1) (\<lambda>f pre. e) [] (t2 @ r)"
    and "scans (t0 @ c # t1) (\<lambda>f pre. block_loop e) t2 (\<lambda>f pre. x) [] r"
  shows "scans t0 (\<lambda>f pre. block_loop d) (c # t1 @ t2) (\<lambda>f pre. x) [] r"
proof -
  have "scans t0 (\<lambda>f pre. sx_bind (block_step d c) block_loop) ((c # t1) @ t2) (\<lambda>f pre. x) ([] @ []) r"
    by (rule scans_bind [OF assms(2)]) (rule assms(3))
  then show ?thesis
    using assms(1) by (simp add: scans_def block_loop.simps [of d "cursor _ _ (_ # _) _"])
qed

lemma block_loop_split:
  assumes "d \<noteq> 0" "unat d \<le> byte_len t0"
  shows "\<exists>t r e. rest = t @ r \<and> (rest \<noteq> [] \<longrightarrow> t \<noteq> []) \<and> (e \<noteq> 0 \<longrightarrow> r = []) \<and>
     (\<forall>r'. prefix r' r \<longrightarrow> scans t0 (\<lambda>f pre. block_loop d) t (\<lambda>f pre. e) [] r')"
  using assms
proof (induction rest arbitrary: d t0 rule: length_induct)
  case (1 rest)
  have stop: "scans t (\<lambda>f pre. block_loop 0) [] (\<lambda>f pre. 0) [] r'"
    "scans t (\<lambda>f pre. block_loop d) [] (\<lambda>f pre. d) [] []" for t r' d
    by (rule scans_silentI, simp add: block_loop.simps)+
  consider (nil) "rest = []" | (deeper) s where "rest = ch CHR ''/'' # ch CHR ''*'' # s"
    | (close) s where "rest = ch CHR ''*'' # ch CHR ''/'' # s"
    | (plain) c s where "rest = c # s" "\<not> (c = ch CHR ''/'' \<and> nth_char 0 s = Some (ch CHR ''*''))"
        "\<not> (c = ch CHR ''*'' \<and> nth_char 0 s = Some (ch CHR ''/''))"
    by (cases rest; cases "tl rest") auto
  then show ?case
  proof cases
    case nil
    with stop(2) show ?thesis by (intro exI [of _ "[]"] exI [of _ d]) auto
  next
    case deeper
    show ?thesis
    proof (cases "fits (t0 @ [ch CHR ''/'', ch CHR ''*''])")
      case True
      have u: "unat (d + 1) = unat d + 1"
        using scans_deeper(2) [OF "1.prems"(2) True] .
      then have d: "d + 1 \<noteq> 0" by auto
      have l: "unat (d + 1) \<le> byte_len (t0 @ [ch CHR ''/'', ch CHR ''*''])"
        using u "1.prems"(2) by (simp add: len_utf8_def)
      from "1.IH" deeper d l obtain t r e where "s = t @ r" "e \<noteq> 0 \<longrightarrow> r = []"
        and t: "\<And>r'. prefix r' r \<Longrightarrow>
          scans (t0 @ [ch CHR ''/'', ch CHR ''*'']) (\<lambda>f pre. block_loop (d + 1)) t (\<lambda>f pre. e) [] r'"
        by (metis length_Cons less_Suc_eq)
      moreover have "scans t0 (\<lambda>f pre. block_loop d) (ch CHR ''/'' # [ch CHR ''*''] @ t) (\<lambda>f pre. e) [] r'"
        if "prefix r' r" for r'
        using "1.prems" block_step_at(1) t [OF that] by (intro scans_block_loop_step) auto
      ultimately show ?thesis
        using deeper by (intro exI [of _ "ch CHR ''/'' # ch CHR ''*'' # t"] exI [of _ r] exI [of _ e]) auto
    next
      case False
      then have "scans t0 (\<lambda>f pre. block_loop d) rest (\<lambda>f pre. 0) [] []"
        using deeper by (intro scans_not_fits) (auto simp: fits_def)
      then show ?thesis by (intro exI [of _ rest] exI [of _ "[]"] exI [of _ 0]) auto
    qed
  next
    case close
    show ?thesis
    proof (cases "d = 1")
      case True
      have "scans t0 (\<lambda>f pre. block_loop d) (ch CHR ''*'' # [ch CHR ''/''] @ []) (\<lambda>f pre. 0) [] r'" for r'
        using "1.prems" True block_step_at(2) [of d t0 r'] stop(1)
        by (intro scans_block_loop_step [where e = 0]) auto
      with close show ?thesis
        by (intro exI [of _ "[ch CHR ''*'', ch CHR ''/'']"] exI [of _ s] exI [of _ 0]) auto
    next
      case False
      then have d: "d - 1 \<noteq> 0" by simp
      have l: "unat (d - 1) \<le> byte_len (t0 @ [ch CHR ''*'', ch CHR ''/''])"
        using unat_minus_one [OF "1.prems"(1)] "1.prems"(2) by simp
      from "1.IH" close d l obtain t r e where "s = t @ r" "e \<noteq> 0 \<longrightarrow> r = []"
        and t: "\<And>r'. prefix r' r \<Longrightarrow>
          scans (t0 @ [ch CHR ''*'', ch CHR ''/'']) (\<lambda>f pre. block_loop (d - 1)) t (\<lambda>f pre. e) [] r'"
        by (metis length_Cons less_Suc_eq)
      moreover have "scans t0 (\<lambda>f pre. block_loop d) (ch CHR ''*'' # [ch CHR ''/''] @ t) (\<lambda>f pre. e) [] r'"
        if "prefix r' r" for r'
        using "1.prems" block_step_at(2) t [OF that] by (intro scans_block_loop_step) auto
      ultimately show ?thesis
        using close by (intro exI [of _ "ch CHR ''*'' # ch CHR ''/'' # t"] exI [of _ r] exI [of _ e]) auto
    qed
  next
    case plain
    have l: "unat d \<le> byte_len (t0 @ [c])" using "1.prems"(2) by simp
    with "1.IH" plain "1.prems" obtain t r e where s: "s = t @ r" "s \<noteq> [] \<longrightarrow> t \<noteq> []" "e \<noteq> 0 \<longrightarrow> r = []"
      and t: "\<And>r'. prefix r' r \<Longrightarrow> scans (t0 @ [c]) (\<lambda>f pre. block_loop d) t (\<lambda>f pre. e) [] r'"
      by (metis length_Cons lessI)
    moreover have "scans t0 (\<lambda>f pre. block_loop d) (c # [] @ t) (\<lambda>f pre. e) [] r'"
      if r': "prefix r' r" for r'
    proof -
      have "nth_char 0 (t @ r') = nth_char 0 s" using s r' by (cases t) auto
      with plain have "scans t0 (\<lambda>f pre. block_step d c) [c] (\<lambda>f pre. d) [] (t @ r')"
        using "1.prems" by (intro block_step_at(3)) auto
      with "1.prems" t [OF r'] show ?thesis by (intro scans_block_loop_step) auto
    qed
    ultimately show ?thesis
      using plain by (intro exI [of _ "c # t"] exI [of _ r] exI [of _ e]) auto
  qed
qed

section \<open>Comments and whitespace\<close>

lemma consumes_cong:
  assumes "consumes t0 N t X r"
    and "\<And>f pre ds r'. prefix r' r \<Longrightarrow>
      M f pre (cursor f (pre @ t0) (t @ r') ds) = N f pre (cursor f (pre @ t0) (t @ r') ds)"
  shows "consumes t0 M t X r"
  using assms by (auto simp: consumes_def scans_def)

lemma consumes_line_comment:
  assumes "ch CHR 0x0A \<notin> set t" "r = [] \<or> hd r = ch CHR 0x0A"
  shows "consumes t0 (\<lambda>f pre. line_comment) (ch CHR ''/'' # ch CHR ''/'' # t) (\<lambda>f pre. ()) r"
  unfolding line_comment_def
  by (intro consumes_bump consumes_advance_while) (use assms in \<open>auto simp: ends_def\<close>)

lemma block_comment_split:
  "\<exists>t r. rest = t @ r \<and>
     consumes t0 (\<lambda>f pre. block_comment) (ch CHR ''/'' # ch CHR ''*'' # t) (\<lambda>f pre. ()) r"
proof -
  let ?open = "[ch CHR ''/'', ch CHR ''*'']"
  have "unat (1 :: u32) \<le> byte_len (t0 @ ?open)" by (simp add: len_utf8_def)
  then obtain t r e where s: "rest = t @ r" "e \<noteq> 0 \<longrightarrow> r = []"
    and t: "\<And>r'. prefix r' r \<Longrightarrow> scans (t0 @ ?open) (\<lambda>f pre. block_loop 1) t (\<lambda>f pre. e) [] r'"
    using block_loop_split [of 1 "t0 @ ?open" rest] by auto
  have b: "consumes t0 (\<lambda>f pre. bump (bump (block_loop 1))) (ch CHR ''/'' # ch CHR ''*'' # t) (\<lambda>f pre. e) r"
    by (intro consumes_bump consumesI) (use t in simp)
  let ?all = "t0 @ ch CHR ''/'' # ch CHR ''*'' # t"
  have "consumes ?all
      (\<lambda>f pre. if e > 0
        then sx_bind (sx_get lx_pos) (\<lambda>p. report (byte_len pre + byte_len t0) p (rs ''unterminated block comment''))
        else sx_return ()) [] (\<lambda>f pre. ()) r"
  proof (cases "e > 0")
    case True
    have "consumes ?all (\<lambda>f pre. report (byte_len pre + byte_len t0) (byte_len pre + byte_len ?all)
        (rs ''unterminated block comment'')) [] (\<lambda>f pre. ()) r"
      by (rule consumesI, rule scans_report) auto
    with True show ?thesis by (simp add: consumes_pos_bind)
  qed (auto intro: consumes_return)
  then have "consumes t0 (\<lambda>f pre. block_comment) (ch CHR ''/'' # ch CHR ''*'' # t) (\<lambda>f pre. ()) r"
    unfolding block_comment_def by (intro consumes_pos_bind consumes_bind1 [OF b])
  with s(1) show ?thesis by blast
qed

definition trivia_start :: "rstr \<Rightarrow> bool" where
  "trivia_start s \<longleftrightarrow>
     (case s of
        c # n # _ \<Rightarrow> is_space c \<or> c = ch CHR ''/'' \<and> (n = ch CHR ''/'' \<or> n = ch CHR ''*'')
      | [c] \<Rightarrow> is_space c | [] \<Rightarrow> False)"

lemma not_space_slash [simp]: "\<not> is_space 47"
  by (simp add: is_space_def)

lemma consumes_trivia_stop:
  assumes "\<not> trivia_start r"
  shows "consumes t0 (\<lambda>f pre. trivia_loop) [] (\<lambda>f pre. ()) r"
proof (rule consumesI, rule scans_silentI)
  fix f pre ds r' assume "prefix r' r"
  with assms have "\<not> trivia_start r'"
    by (auto simp: trivia_start_def prefix_def split: list.splits)
  then show "trivia_loop (cursor f (pre @ t0) ([] @ r') ds) = (Inr (), cursor f (pre @ t0 @ []) r' ds)"
    by (cases r'; cases "tl r'") (auto simp: trivia_loop.simps trivia_start_def nth_char_def)
qed

lemma consumes_trivia_step:
  "is_space c \<Longrightarrow> consumes (t0 @ [c]) (\<lambda>f pre. trivia_loop) t (\<lambda>f pre. ()) r \<Longrightarrow>
   consumes t0 (\<lambda>f pre. trivia_loop) (c # t) (\<lambda>f pre. ()) r"
  "consumes t0 (\<lambda>f pre. line_comment) (ch CHR ''/'' # ch CHR ''/'' # t1) (\<lambda>f pre. ()) (t2 @ r) \<Longrightarrow>
   consumes (t0 @ ch CHR ''/'' # ch CHR ''/'' # t1) (\<lambda>f pre. trivia_loop) t2 (\<lambda>f pre. ()) r \<Longrightarrow>
   consumes t0 (\<lambda>f pre. trivia_loop) (ch CHR ''/'' # ch CHR ''/'' # t1 @ t2) (\<lambda>f pre. ()) r"
  "consumes t0 (\<lambda>f pre. block_comment) (ch CHR ''/'' # ch CHR ''*'' # t1) (\<lambda>f pre. ()) (t2 @ r) \<Longrightarrow>
   consumes (t0 @ ch CHR ''/'' # ch CHR ''*'' # t1) (\<lambda>f pre. trivia_loop) t2 (\<lambda>f pre. ()) r \<Longrightarrow>
   consumes t0 (\<lambda>f pre. trivia_loop) (ch CHR ''/'' # ch CHR ''*'' # t1 @ t2) (\<lambda>f pre. ()) r"
proof -
  assume "is_space c" and "consumes (t0 @ [c]) (\<lambda>f pre. trivia_loop) t (\<lambda>f pre. ()) r"
  then show "consumes t0 (\<lambda>f pre. trivia_loop) (c # t) (\<lambda>f pre. ()) r"
    by (intro consumes_cong [OF consumes_bump])
      (auto simp: bump_def trivia_loop.simps [of "cursor _ _ (_ # _) _"])
next
  assume "consumes t0 (\<lambda>f pre. line_comment) (ch CHR ''/'' # ch CHR ''/'' # t1) (\<lambda>f pre. ()) (t2 @ r)"
    "consumes (t0 @ ch CHR ''/'' # ch CHR ''/'' # t1) (\<lambda>f pre. trivia_loop) t2 (\<lambda>f pre. ()) r"
  from consumes_bind [where K = "\<lambda>f pre _. trivia_loop", OF this]
  have "consumes t0 (\<lambda>f pre. sx_bind line_comment (\<lambda>_. trivia_loop))
      (ch CHR ''/'' # ch CHR ''/'' # t1 @ t2) (\<lambda>f pre. ()) r"
    by simp
  then show "consumes t0 (\<lambda>f pre. trivia_loop) (ch CHR ''/'' # ch CHR ''/'' # t1 @ t2) (\<lambda>f pre. ()) r"
    by (rule consumes_cong)
      (auto simp: trivia_loop.simps [of "cursor _ _ (_ # _) _"] nth_char_def)
next
  assume "consumes t0 (\<lambda>f pre. block_comment) (ch CHR ''/'' # ch CHR ''*'' # t1) (\<lambda>f pre. ()) (t2 @ r)"
    "consumes (t0 @ ch CHR ''/'' # ch CHR ''*'' # t1) (\<lambda>f pre. trivia_loop) t2 (\<lambda>f pre. ()) r"
  from consumes_bind [where K = "\<lambda>f pre _. trivia_loop", OF this]
  have "consumes t0 (\<lambda>f pre. sx_bind block_comment (\<lambda>_. trivia_loop))
      (ch CHR ''/'' # ch CHR ''*'' # t1 @ t2) (\<lambda>f pre. ()) r"
    by simp
  then show "consumes t0 (\<lambda>f pre. trivia_loop) (ch CHR ''/'' # ch CHR ''*'' # t1 @ t2) (\<lambda>f pre. ()) r"
    by (rule consumes_cong)
      (auto simp: trivia_loop.simps [of "cursor _ _ (_ # _) _"] nth_char_def)
qed

lemma trivia_loop_split:
  "\<exists>t r. rest = t @ r \<and> (t \<noteq> [] \<longleftrightarrow> trivia_start rest) \<and>
     consumes t0 (\<lambda>f pre. trivia_loop) t (\<lambda>f pre. ()) r"
proof (induction rest arbitrary: t0 rule: length_induct)
  case (1 rest)
  consider (stop) "\<not> trivia_start rest" | (space) c s where "rest = c # s" "is_space c"
    | (line) s where "rest = ch CHR ''/'' # ch CHR ''/'' # s"
    | (block) s where "rest = ch CHR ''/'' # ch CHR ''*'' # s"
    by (cases rest; cases "tl rest") (auto simp: trivia_start_def)
  then show ?case
  proof cases
    case stop
    then show ?thesis using consumes_trivia_stop by (intro exI [of _ "[]"] exI [of _ rest]) auto
  next
    case space
    then obtain t r where "s = t @ r" "consumes (t0 @ [c]) (\<lambda>f pre. trivia_loop) t (\<lambda>f pre. ()) r"
      using 1 by (metis length_Cons lessI)
    with space show ?thesis
      by (intro exI [of _ "c # t"] exI [of _ r]) (auto simp: trivia_start_def consumes_trivia_step split: list.splits)
  next
    case line
    obtain t1 r1 where r1: "s = t1 @ r1" "\<forall>c\<in>set t1. c \<noteq> ch CHR 0x0A" "ends (\<lambda>c. c \<noteq> ch CHR 0x0A) r1"
      using while_split [of s "\<lambda>c. c \<noteq> ch CHR 0x0A"] by blast
    have "length r1 < length rest" using line r1 by simp
    then obtain t r where t: "r1 = t @ r"
      "consumes (t0 @ ch CHR ''/'' # ch CHR ''/'' # t1) (\<lambda>f pre. trivia_loop) t (\<lambda>f pre. ()) r"
      using 1 by blast
    have "consumes t0 (\<lambda>f pre. line_comment) (ch CHR ''/'' # ch CHR ''/'' # t1) (\<lambda>f pre. ()) (t @ r)"
      using r1 t(1) by (intro consumes_line_comment) (auto simp: ends_def)
    from consumes_trivia_step(2) [OF this t(2)] show ?thesis
      using line r1(1) t(1)
      by (intro exI [of _ "ch CHR ''/'' # ch CHR ''/'' # t1 @ t"] exI [of _ r]) (auto simp: trivia_start_def)
  next
    case block
    obtain t1 r1 where r1: "s = t1 @ r1"
      "consumes t0 (\<lambda>f pre. block_comment) (ch CHR ''/'' # ch CHR ''*'' # t1) (\<lambda>f pre. ()) r1"
      using block_comment_split [of s t0] by blast
    have "length r1 < length rest" using block r1 by simp
    then obtain t r where t: "r1 = t @ r"
      "consumes (t0 @ ch CHR ''/'' # ch CHR ''*'' # t1) (\<lambda>f pre. trivia_loop) t (\<lambda>f pre. ()) r"
      using 1 by blast
    from consumes_trivia_step(3) [OF r1(2) [unfolded t(1)] t(2)] show ?thesis
      using block r1(1) t(1)
      by (intro exI [of _ "ch CHR ''/'' # ch CHR ''*'' # t1 @ t"] exI [of _ r]) (auto simp: trivia_start_def)
  qed
qed

end
