(* ===== verification/Lexer_Rules.thy ===== *)
theory Lexer_Rules
  imports Lexer_Scan
begin

text \<open>
  What every scanning method of the lexer consumes, and that a round of the main loop makes a
  token of a nonempty front part of the text, which depends on nothing but that part and any
  prefix of what follows.

  The locale \<open>scanner\<close> is what the main loop relies on: a method called on a text with an
  acceptable first character consumes a nonempty part of it, and would do the same were that part
  the whole text.
\<close>

section \<open>Numbers\<close>

lemma consumes_look_bind:
  assumes "\<And>r'. prefix r' r \<Longrightarrow> consumes t0 (\<lambda>f pre. K f pre (nth_char i (t @ r'))) t X r"
    and "g = peek \<and> i = 0 \<or> g = peek_next \<and> i = 1"
  shows "consumes t0 (\<lambda>f pre. sx_bind (lex_look g) (K f pre)) t X r"
  unfolding consumes_def
proof (intro allI impI)
  fix r' assume r': "prefix r' r"
  have l: "scans t0 (\<lambda>f pre. lex_look g) [] (\<lambda>f pre. nth_char i (t @ r')) [] (t @ r')"
    using assms(2) scans_peek scans_peek_next by blast
  from assms(1) [OF r'] r' obtain ms where "scans t0 (\<lambda>f pre. K f pre (nth_char i (t @ r'))) t X ms r'"
    by (blast dest: consumes_scans)
  then have "scans t0 (\<lambda>f pre. sx_bind (lex_look g) (K f pre)) t X ms r'"
    by (rule scans_bind0 [where K = K, OF l])
  then show "\<exists>ms. scans t0 (\<lambda>f pre. sx_bind (lex_look g) (K f pre)) t X ms r'" by blast
qed

lemma consumes_peek_bind:
  "consumes t0 (\<lambda>f pre. K f pre (Some c)) (c # t) X r \<Longrightarrow>
   consumes t0 (\<lambda>f pre. sx_bind (lex_look peek) (K f pre)) (c # t) X r"
  by (rule consumes_look_bind [where i = 0]) simp_all

lemma consumes_peek_next_bind:
  "consumes t0 (\<lambda>f pre. K f pre (Some d)) (c # d # t) X r \<Longrightarrow>
   consumes t0 (\<lambda>f pre. sx_bind (lex_look peek_next) (K f pre)) (c # d # t) X r"
  by (rule consumes_look_bind [where i = 1]) (simp_all add: nth_char_def)

lemma number_suffix_split:
  "\<exists>t r. rest = t @ r \<and> (\<forall>t0. consumes t0 (\<lambda>f pre. lex_number_suffix U) t (\<lambda>f pre. ()) r)"
proof -
  obtain t r where t: "rest = t @ r" "\<forall>c\<in>set t. is_word U c" "ends (is_word U) r"
    using while_split by blast
  have "consumes (t0 @ t)
      (\<lambda>f pre. if byte_len pre + byte_len (t0 @ t) > byte_len pre + byte_len t0
        then sx_bind (lex_look (text_between (byte_len pre + byte_len t0) (byte_len pre + byte_len (t0 @ t))))
               (\<lambda>suffix. if is_valid_number_suffix suffix then sx_return ()
                 else report (byte_len pre + byte_len t0) (byte_len pre + byte_len (t0 @ t))
                        (rs ''invalid number suffix: '' @ [39] @ suffix @ [39]))
        else sx_return ()) [] (\<lambda>f pre. ()) r" for t0
  proof (cases "t = []")
    case False
    have "consumes (t0 @ t)
      (\<lambda>f pre. if is_valid_number_suffix t then sx_return ()
         else report (byte_len pre + byte_len t0) (byte_len pre + byte_len (t0 @ t))
                (rs ''invalid number suffix: '' @ [39] @ t @ [39])) [] (\<lambda>f pre. ()) r"
    proof (cases "is_valid_number_suffix t")
      case False
      have "consumes (t0 @ t) (\<lambda>f pre. report (byte_len pre + byte_len t0) (byte_len pre + byte_len (t0 @ t))
                (rs ''invalid number suffix: '' @ [39] @ t @ [39])) [] (\<lambda>f pre. ()) r"
        by (rule consumesI, rule scans_report) auto
      with False show ?thesis by (simp only: if_False)
    qed (simp add: consumes_return)
    then have "consumes (t0 @ t)
      (\<lambda>f pre. sx_bind (lex_look (text_between (byte_len pre + byte_len t0) (byte_len pre + byte_len (t0 @ t))))
         (\<lambda>suffix. if is_valid_number_suffix suffix then sx_return ()
            else report (byte_len pre + byte_len t0) (byte_len pre + byte_len (t0 @ t))
                        (rs ''invalid number suffix: '' @ [39] @ suffix @ [39]))) [] (\<lambda>f pre. ()) r"
      using scans_text [of t0 t] by (intro consumes_bind0) auto
    moreover have "byte_len pre + byte_len (t0 @ t) > byte_len pre + byte_len t0" for pre
      using False by simp
    ultimately show ?thesis by (simp only: if_True)
  qed (simp add: consumes_return)
  with t show ?thesis
    unfolding lex_number_suffix_def
    by (intro exI [of _ t] exI [of _ r])
      (auto intro!: consumes_pos_bind consumes_bind1 [OF consumes_advance_while])
qed

text \<open>The same for a computation that uses no position, after any \<open>t0\<close>; and \<open>reads n M s\<close>: \<open>M\<close>
  consumes some front part of \<open>s\<close>, of at least \<open>n\<close> characters.\<close>

definition eats :: "'a lexing \<Rightarrow> rstr \<Rightarrow> 'a \<Rightarrow> rstr \<Rightarrow> bool" where
  "eats M t x r \<longleftrightarrow> (\<forall>t0. consumes t0 (\<lambda>f pre. M) t (\<lambda>f pre. x) r)"

definition reads :: "nat \<Rightarrow> 'a lexing \<Rightarrow> rstr \<Rightarrow> bool" where
  "reads n M s \<longleftrightarrow> (\<exists>t r x. s = t @ r \<and> n \<le> length t \<and> eats M t x r)"

lemma eatsI: "(\<And>t0. consumes t0 (\<lambda>f pre. M) t (\<lambda>f pre. x) r) \<Longrightarrow> eats M t x r"
  by (simp add: eats_def)

lemma eatsD: "eats M t x r \<Longrightarrow> consumes t0 (\<lambda>f pre. M) t (\<lambda>f pre. x) r"
  by (simp add: eats_def)

lemma readsI: "s = t @ r \<Longrightarrow> n \<le> length t \<Longrightarrow> eats M t x r \<Longrightarrow> reads n M s"
  unfolding reads_def by blast

lemma readsE:
  assumes "reads n M s"
  obtains t r x where "s = t @ r" "n \<le> length t" "eats M t x r"
  using assms unfolding reads_def by blast

lemma eats_bind: "eats M t1 x (t2 @ r) \<Longrightarrow> eats (K x) t2 y r \<Longrightarrow> eats (sx_bind M K) (t1 @ t2) y r"
  unfolding eats_def by (auto intro: consumes_bind)

lemma eats_bind1: "eats M t x r \<Longrightarrow> eats (K x) [] y r \<Longrightarrow> eats (sx_bind M K) t y r"
  using eats_bind [of M t x "[]" r K y] by simp

lemma eats_bump: "eats M t x r \<Longrightarrow> eats (bump M) (c # t) x r"
  unfolding eats_def by (auto intro: consumes_bump)

lemma eats_return: "eats (sx_return x) [] x r"
  unfolding eats_def by (auto intro: consumes_return)

lemma eats_if_peek_no:
  assumes "nth_char 0 (t @ r) \<noteq> Some (ch c)" and "eats N t x r"
  shows "eats (if_peek c M N) t x r"
  by (rule eatsI, rule consumes_if_peek_no [OF assms(1) eatsD [OF assms(2)]])

lemma eats_if_peek_yes:
  assumes "eats M (ch c # t) x r"
  shows "eats (if_peek c M N) (ch c # t) x r"
  by (rule eatsI, rule consumes_if_peek_yes [OF eatsD [OF assms]])

lemma eats_advance_while: "\<forall>c\<in>set t. P c \<Longrightarrow> ends P r \<Longrightarrow> eats (advance_while P) t () r"
  unfolding eats_def by (blast intro: consumes_advance_while)

lemma eats_char_loop: "steps_to step v t = Some w \<Longrightarrow> stuck step w r \<Longrightarrow> eats (char_loop step v) t w r"
  unfolding eats_def by (blast intro: consumes_char_loop)

lemma eats_suffix: "\<exists>t r. s = t @ r \<and> eats (lex_number_suffix U) t () r"
  unfolding eats_def using number_suffix_split by blast

definition tail_of_number :: "unicode \<Rightarrow> bool \<Rightarrow> SyntaxKind lexing" where
  "tail_of_number U is_float =
     sx_bind (lex_exponent is_float) (\<lambda>r.
       case r of
         None \<Rightarrow> sx_return (number_kind is_float)
       | Some is_float' \<Rightarrow> sx_bind (lex_number_suffix U) (\<lambda>_. sx_return (number_kind is_float')))"

lemma consumes_suffix_kind:
  "consumes t0 (\<lambda>f pre. lex_number_suffix U) t (\<lambda>f pre. ()) r \<Longrightarrow>
   consumes t0 (\<lambda>f pre. sx_bind (lex_number_suffix U) (\<lambda>_. sx_return k)) t (\<lambda>f pre. k) r"
  by (rule consumes_bind1) (auto intro: consumes_return)

lemma consumes_plain_tail:
  assumes "eats (lex_number_suffix U) t () r"
    and "nth_char 0 (t @ r) \<noteq> Some (ch CHR ''e'')" "nth_char 0 (t @ r) \<noteq> Some (ch CHR ''E'')"
  shows "eats (tail_of_number U b) t (number_kind b) r"
proof (rule eatsI)
  fix t0
  have "consumes t0 (\<lambda>f pre. lex_exponent b) [] (\<lambda>f pre. Some b) (t @ r)"
    unfolding lex_exponent_def
  proof (rule consumes_look_bind [where i = 0])
    fix r' assume "prefix r' (t @ r)"
    then have "nth_char 0 r' \<noteq> Some (ch CHR ''e'')" "nth_char 0 r' \<noteq> Some (ch CHR ''E'')"
      using prefix_nth_char [of r' "t @ r" 0 "[]"] assms(2,3) by auto
    then show "consumes t0 (\<lambda>f pre. if nth_char 0 ([] @ r') = Some (ch CHR ''e'') \<or> nth_char 0 ([] @ r') = Some (ch CHR ''E'')
        then exponent_body else sx_return (Some b)) [] (\<lambda>f pre. Some b) (t @ r)"
      by (simp add: consumes_return)
  qed simp
  then have "consumes t0 (\<lambda>f pre. tail_of_number U b) ([] @ t) (\<lambda>f pre. number_kind b) r"
    unfolding tail_of_number_def
    by (rule consumes_bind) (use eatsD [OF assms(1)] in \<open>simp add: consumes_suffix_kind\<close>)
  then show "consumes t0 (\<lambda>f pre. tail_of_number U b) t (\<lambda>f pre. number_kind b) r" by simp
qed

text \<open>The sign of an exponent.\<close>

definition sign_before :: "rstr \<Rightarrow> rstr \<Rightarrow> bool" where
  "sign_before sg u \<longleftrightarrow> sg = [ch CHR ''+''] \<or> sg = [ch CHR ''-''] \<or>
     sg = [] \<and> nth_char 0 u \<noteq> Some (ch CHR ''+'') \<and> nth_char 0 u \<noteq> Some (ch CHR ''-'')"

lemma sign_split: "\<exists>sg u. s = sg @ u \<and> sign_before sg u"
proof (cases "nth_char 0 s = Some (ch CHR ''+'') \<or> nth_char 0 s = Some (ch CHR ''-'')")
  case True
  then show ?thesis
    by (intro exI [of _ "[hd s]"] exI [of _ "tl s"]) (cases s; auto simp: sign_before_def)
next
  case False
  then have "s = [] @ s \<and> sign_before [] s" by (simp add: sign_before_def)
  then show ?thesis by blast
qed

lemma sign_cursor:
  "sign_before sg u \<Longrightarrow>
   sx_bind (lex_look peek) (\<lambda>sign.
     sx_bind (if sign = Some (ch CHR ''+'') \<or> sign = Some (ch CHR ''-'') then bump (sx_return ())
              else sx_return ()) K) (cursor f a (sg @ u) ds)
   = K () (cursor f (a @ sg) u ds)"
  by (auto simp: sign_before_def sx_bind_apply lex_look_def bump_def sx_apply)

lemma exponent_digits:
  assumes "steps_to exponent_step False t = Some w"
  shows "w \<longleftrightarrow> t \<noteq> []"
proof -
  have "steps_to exponent_step True t = Some w \<Longrightarrow> w" for t
    by (induction t) (auto simp: exponent_step_def split: if_splits)
  with assms show ?thesis
    by (cases t) (auto simp: exponent_step_def split: if_splits option.splits)
qed

lemma exponent_body_complete:
  assumes "steps_to exponent_step False t = Some True" "stuck exponent_step True r" "sign_before sg (t @ r)"
  shows "exponent_body (cursor f a (e # sg @ t @ r) ds) = (Inr (Some True), cursor f (a @ e # sg @ t) r ds)"
proof -
  have "sx_bind (char_loop exponent_step False) F (cursor f (a @ e # sg) (t @ r) ds)
      = F True (cursor f (a @ e # sg @ t) r ds)" for F :: "bool \<Rightarrow> bool option lexing"
    by (simp add: sx_bind_apply char_loop_cursor [OF assms(1,2)])
  then show ?thesis
    unfolding exponent_body_def
    by (simp only: sx_bind_get sx_bind_apply [of advance] advance_cursor prod.case sum.case cursor_sel
        sign_cursor [OF assms(3)] append_Cons append_Nil append_assoc if_True sx_return_apply)
qed

lemma report_cursor:
  assumes "fits (a @ b @ r)"
  obtains d where
    "report (byte_len a) (byte_len a + byte_len b) msg (cursor f (a @ b) r ds) = (Inr (), cursor f (a @ b) r (ds @ [d]))"
    "dg_message d = msg" "span_within f (byte_len a) (byte_len (a @ b @ r)) (dg_span d)"
proof -
  have "scans b (\<lambda>f pre. report (byte_len pre) (byte_len pre + byte_len b) msg) [] (\<lambda>f pre. ()) [msg] r"
    by (rule scans_report0) simp
  then obtain es where "report (byte_len a) (byte_len a + byte_len b) msg (cursor f (a @ b) ([] @ r) ds)
      = (Inr (), cursor f (a @ b @ []) r (ds @ es))" "List.map dg_message es = [msg]"
      "\<forall>d\<in>set es. span_within f (byte_len a) (byte_len (a @ b @ [] @ r)) (dg_span d)"
    by (rule scansE) (use assms in simp)
  then show thesis by (auto intro: that)
qed

lemma exponent_body_incomplete:
  assumes "fits (a @ e # sg @ r)" "stuck exponent_step False r" "sign_before sg r"
  obtains d where
    "exponent_body (cursor f a (e # sg @ r) ds) = (Inr None, cursor f a (e # sg @ r) (ds @ [d]))"
    "dg_message d = rs ''incomplete float exponent: '' @ [39] @ e # sg @ [39]"
    "span_within f (byte_len a) (byte_len (a @ e # sg @ r)) (dg_span d)"
proof -
  let ?msg = "rs ''incomplete float exponent: '' @ [39] @ (e # sg) @ [39]"
  have "fits (a @ (e # sg) @ r)" using assms(1) by simp
  then obtain d where d:
    "report (byte_len a) (byte_len a + byte_len (e # sg)) ?msg (cursor f (a @ e # sg) r ds)
       = (Inr (), cursor f (a @ e # sg) r (ds @ [d]))"
    "dg_message d = ?msg" "span_within f (byte_len a) (byte_len (a @ (e # sg) @ r)) (dg_span d)"
    by (rule report_cursor)
  have loop: "sx_bind (char_loop exponent_step False) F (cursor f (a @ e # sg) r ds)
      = F False (cursor f (a @ e # sg) r ds)" for F :: "bool \<Rightarrow> bool option lexing"
    using char_loop_cursor [of exponent_step False "[]" False r] assms(2) by (simp add: sx_bind_apply)
  have sliced: "text_between (byte_len a) (byte_len a + byte_len (e # sg)) (cursor f (a @ e # sg) r ds) = Inr (e # sg)"
    using slice_byte_len [of a "e # sg" r] by (simp add: text_between_def or_panic_def)
  have reset: "(cursor f (a @ e # sg) r ds')\<lparr>lx_pos := byte_len a\<rparr> = cursor f a (e # sg @ r) ds'" for ds'
    by (simp add: cursor_def)
  have "exponent_body (cursor f a (e # sg @ r) ds) = (Inr None, cursor f a (e # sg @ r) (ds @ [d]))"
    unfolding exponent_body_def
    by (simp only: sx_bind_get sx_bind_apply [of advance] advance_cursor prod.case sum.case cursor_sel
        sign_cursor [OF assms(3)] append_Cons append_Nil append_assoc loop if_False)
      (use d(1) sliced in \<open>simp add: sx_bind_get sx_bind_apply [of "lex_look _"] lex_look_def
        sx_bind_apply [of "report _ _ _"] sx_bind_apply [of "sx_modify _"] sx_apply reset\<close>)
  with d(2,3) show thesis by (intro that) simp_all
qed

lemma consumes_complete_exponent:
  assumes t: "steps_to exponent_step False t = Some True" "stuck exponent_step True (t2 @ r2)"
    and e: "e = ch CHR ''e'' \<or> e = ch CHR ''E''" and sg: "sign_before sg (t @ t2 @ r2)"
    and s: "eats (lex_number_suffix U) t2 () r2"
  shows "eats (tail_of_number U b) ((e # sg @ t) @ t2) (number_kind True) r2"
proof (rule eatsI)
  fix t0
  have "t \<noteq> []" using exponent_digits [OF t(1)] by simp
  then have sg': "sign_before sg (t @ r')" for r'
    using sg by (cases t) (auto simp: sign_before_def)
  have "consumes t0 (\<lambda>f pre. exponent_body) (e # sg @ t) (\<lambda>f pre. Some True) (t2 @ r2)"
  proof (rule consumesI, rule scans_silentI)
    fix f pre ds r' assume "prefix r' (t2 @ r2)"
    then have "stuck exponent_step True r'" by (rule stuck_prefix [OF t(2)])
    from exponent_body_complete [OF t(1) this sg', of f "pre @ t0" e ds]
    show "exponent_body (cursor f (pre @ t0) ((e # sg @ t) @ r') ds)
        = (Inr (Some True), cursor f (pre @ t0 @ e # sg @ t) r' ds)" by simp
  qed
  then have "consumes t0 (\<lambda>f pre. lex_exponent b) (e # sg @ t) (\<lambda>f pre. Some True) (t2 @ r2)"
    unfolding lex_exponent_def by (intro consumes_peek_bind) (use e in simp)
  then show "consumes t0 (\<lambda>f pre. tail_of_number U b) ((e # sg @ t) @ t2) (\<lambda>f pre. number_kind True) r2"
    unfolding tail_of_number_def
    by (rule consumes_bind) (use eatsD [OF s] in \<open>simp add: consumes_suffix_kind\<close>)
qed

lemma scans_incomplete_exponent:
  assumes "e = ch CHR ''e'' \<or> e = ch CHR ''E''" "sign_before sg u" "stuck exponent_step False u"
  shows "\<exists>ms. scans t0 (\<lambda>f pre. tail_of_number U b) [] (\<lambda>f pre. number_kind b) ms (e # sg @ u)"
proof (rule exI, rule scansI)
  fix f pre ds assume "fits (pre @ t0 @ [] @ e # sg @ u)"
  then have "fits ((pre @ t0) @ e # sg @ u)" by simp
  then obtain d where d:
    "exponent_body (cursor f (pre @ t0) (e # sg @ u) ds) = (Inr None, cursor f (pre @ t0) (e # sg @ u) (ds @ [d]))"
    "dg_message d = rs ''incomplete float exponent: '' @ [39] @ e # sg @ [39]"
    "span_within f (byte_len (pre @ t0)) (byte_len ((pre @ t0) @ e # sg @ u)) (dg_span d)"
    using assms(2,3) by (blast elim: exponent_body_incomplete)
  then have "lex_exponent b (cursor f (pre @ t0) (e # sg @ u) ds)
      = (Inr None, cursor f (pre @ t0) (e # sg @ u) (ds @ [d]))"
    using assms(1) by (auto simp: lex_exponent_def lex_look_def sx_bind_apply)
  then have "tail_of_number U b (cursor f (pre @ t0) ([] @ e # sg @ u) ds)
      = (Inr (number_kind b), cursor f (pre @ t0 @ []) (e # sg @ u) (ds @ [d]))"
    by (simp add: tail_of_number_def sx_bind_apply sx_apply)
  with d show "\<exists>es. tail_of_number U b (cursor f (pre @ t0) ([] @ e # sg @ u) ds)
        = (Inr (number_kind b), cursor f (pre @ t0 @ []) (e # sg @ u) (ds @ es))
      \<and> List.map dg_message es = [rs ''incomplete float exponent: '' @ [39] @ e # sg @ [39]]
      \<and> (\<forall>d\<in>set es. span_within f (byte_len pre) (byte_len (pre @ t0 @ [] @ e # sg @ u)) (dg_span d))"
    by (intro exI [of _ "[d]"]) (auto simp: span_within_def add.assoc)
qed

lemma scans_tail_nil: "\<exists>ms. scans t0 (\<lambda>f pre. tail_of_number U b) [] (\<lambda>f pre. number_kind b) ms []"
  using eats_suffix [of "[]" U] by (auto intro!: consumes_scans [OF eatsD [OF consumes_plain_tail]])

lemma consumes_incomplete_exponent:
  assumes e: "e = ch CHR ''e'' \<or> e = ch CHR ''E''" and u: "sign_before sg u" "stuck exponent_step False u"
  shows "consumes t0 (\<lambda>f pre. tail_of_number U b) [] (\<lambda>f pre. number_kind b) (e # sg @ u)"
  unfolding consumes_def
proof (intro allI impI)
  fix r' assume r': "prefix r' (e # sg @ u)"
  show "\<exists>ms. scans t0 (\<lambda>f pre. tail_of_number U b) [] (\<lambda>f pre. number_kind b) ms r'"
  proof (cases r')
    case Nil
    then show ?thesis by (simp add: scans_tail_nil)
  next
    case (Cons c s)
    with r' have c: "c = e" and s: "prefix s (sg @ u)" by auto
    have "\<exists>sg' u'. s = sg' @ u' \<and> sign_before sg' u' \<and> stuck exponent_step False u'"
    proof (cases "sg = []")
      case True
      with u s have "sign_before [] s" "stuck exponent_step False s"
        using stuck_prefix prefix_nth_char [of s u 0 "[]"] by (auto simp: sign_before_def)
      then show ?thesis by (intro exI [of _ "[]"] exI [of _ s]) simp
    next
      case False
      with u(1) obtain x where x: "sg = [x]" "sign_before [x] v" for v
        by (auto simp: sign_before_def)
      show ?thesis
      proof (cases s)
        case Nil
        then show ?thesis by (auto simp: sign_before_def stuck_def)
      next
        case (Cons y v)
        with s x have "y = x" "prefix v u" by auto
        with u(2) x(2) have "sign_before [x] v" "stuck exponent_step False v" by (auto dest: stuck_prefix)
        with Cons \<open>y = x\<close> show ?thesis by (intro exI [of _ "[x]"] exI [of _ v]) simp
      qed
    qed
    with Cons c show ?thesis using scans_incomplete_exponent [OF e] by blast
  qed
qed

lemma reads_tail: "reads 0 (tail_of_number U b) s"
proof (cases "nth_char 0 s = Some (ch CHR ''e'') \<or> nth_char 0 s = Some (ch CHR ''E'')")
  case False
  obtain t r where t: "s = t @ r" "eats (lex_number_suffix U) t () r" using eats_suffix by blast
  with False have "eats (tail_of_number U b) t (number_kind b) r" by (intro consumes_plain_tail) auto
  with t show ?thesis by (intro readsI [OF t(1)]) simp_all
next
  case True
  then obtain e s' where e: "s = e # s'" "e = ch CHR ''e'' \<or> e = ch CHR ''E''" by (cases s) auto
  obtain sg u where u: "s' = sg @ u" "sign_before sg u" using sign_split by blast
  obtain t r w where t: "u = t @ r" "steps_to exponent_step False t = Some w" "stuck exponent_step w r"
    using steps_split [of u exponent_step False] by blast
  show ?thesis
  proof (cases w)
    case True
    obtain t2 r2 where t2: "r = t2 @ r2" "eats (lex_number_suffix U) t2 () r2" using eats_suffix by blast
    have "eats (tail_of_number U b) ((e # sg @ t) @ t2) (number_kind True) r2"
      by (rule consumes_complete_exponent) (use t u t2 e True in auto)
    moreover have "s = ((e # sg @ t) @ t2) @ r2" using e u t t2 by simp
    ultimately show ?thesis by (intro readsI [of s "(e # sg @ t) @ t2" r2]) simp_all
  next
    case False
    then have "t = []" using exponent_digits [OF t(2)] by simp
    with False t u have "stuck exponent_step False u" by simp
    then have "eats (tail_of_number U b) [] (number_kind b) (e # sg @ u)"
      by (intro eatsI consumes_incomplete_exponent e u)
    then show ?thesis using e(1) u(1) by (intro readsI [of s "[]" s]) simp_all
  qed
qed

section \<open>Reading by structure\<close>

lemma reads_bind:
  assumes "reads n M s" and "\<And>x r. reads 0 (K x) r"
  shows "reads n (sx_bind M K) s"
proof -
  obtain t1 r1 x where 1: "s = t1 @ r1" "n \<le> length t1" "eats M t1 x r1"
    using assms(1) by (rule readsE)
  obtain t2 r2 y where 2: "r1 = t2 @ r2" "eats (K x) t2 y r2"
    using assms(2) [of x r1] by (auto elim: readsE)
  with 1 have "eats (sx_bind M K) (t1 @ t2) y r2" by (auto intro: eats_bind)
  with 1 2 show ?thesis by (intro readsI [of s "t1 @ t2" r2]) auto
qed

lemma reads_return [intro]: "reads 0 (sx_return x) s"
  by (rule readsI [of _ "[]" s]) (auto intro: eats_return)

lemma reads_bump:
  assumes "reads n M s"
  shows "reads (Suc n) (bump M) (c # s)"
proof -
  obtain t r x where "s = t @ r" "n \<le> length t" "eats M t x r" using assms by (rule readsE)
  then show ?thesis by (intro readsI [of _ "c # t" r]) (auto intro: eats_bump)
qed

lemma reads_bump1 [intro]: "reads 0 M s \<Longrightarrow> reads 1 (bump M) (c # s)"
  using reads_bump [of 0 M s c] by simp

lemma reads_weaken: "reads n M s \<Longrightarrow> m \<le> n \<Longrightarrow> reads m M s"
  by (elim readsE) (rule readsI, auto)

lemma reads_if_peek:
  assumes "\<And>s'. s = ch c # s' \<Longrightarrow> reads 0 M s'" and "reads 0 N s"
  shows "reads 0 (if_peek c (bump M) N) s"
proof (cases "nth_char 0 s = Some (ch c)")
  case True
  then obtain s' where s: "s = ch c # s'" by (cases s) auto
  obtain t r x where t: "s' = t @ r" "eats M t x r" using assms(1) [OF s] by (auto elim: readsE)
  then have "eats (if_peek c (bump M) N) (ch c # t) x r" by (intro eats_if_peek_yes eats_bump)
  with s t show ?thesis by (intro readsI [of s "ch c # t" r]) auto
next
  case False
  obtain t r x where "s = t @ r" "eats N t x r" using assms(2) by (auto elim: readsE)
  with False show ?thesis by (intro readsI [of _ t r]) (auto intro!: eats_if_peek_no)
qed

lemma reads_advance_while [intro]: "reads 0 (advance_while P) s"
proof -
  obtain t r where "s = t @ r" "\<forall>c\<in>set t. P c" "ends P r" using while_split by blast
  then show ?thesis by (intro readsI [of _ t r]) (auto intro: eats_advance_while)
qed

lemma reads_advance_while1:
  assumes "P c"
  shows "reads 1 (advance_while P) (c # s)"
proof -
  obtain t r where "s = t @ r" "\<forall>c\<in>set t. P c" "ends P r" using while_split by blast
  with assms have "eats (advance_while P) (c # t) () r" by (intro eats_advance_while) auto
  with \<open>s = t @ r\<close> show ?thesis by (intro readsI [of _ "c # t" r]) auto
qed

lemma reads_char_loop [intro]: "reads 0 (char_loop step v) s"
proof -
  obtain t r w where "s = t @ r" "steps_to step v t = Some w" "stuck step w r"
    using steps_split [of s step v] by blast
  then show ?thesis by (intro readsI [of _ t r]) (auto intro: eats_char_loop)
qed

lemma reads_suffix [intro]: "reads 0 (lex_number_suffix U) s"
proof -
  obtain t r where "s = t @ r" "eats (lex_number_suffix U) t () r" using eats_suffix by blast
  then show ?thesis by (intro readsI [of _ t r]) auto
qed

lemma eats_look:
  assumes "\<And>r'. prefix r' r \<Longrightarrow> eats (K (nth_char i (t @ r'))) t x r"
    and "g = peek \<and> i = 0 \<or> g = peek_next \<and> i = 1"
  shows "eats (sx_bind (lex_look g) K) t x r"
proof (rule eatsI, rule consumes_look_bind [where i = i])
  show "consumes t0 (\<lambda>f pre. K (nth_char i (t @ r'))) t (\<lambda>f pre. x) r" if "prefix r' r" for t0 r'
    by (rule eatsD [OF assms(1) [OF that]])
qed (rule assms(2))

lemma eats_peek_yes: "eats (K (Some c)) (c # t) x r \<Longrightarrow> eats (sx_bind (lex_look peek) K) (c # t) x r"
  by (rule eats_look [where i = 0]) simp_all

lemma eats_peek_next_yes:
  "eats (K (Some d)) (c # d # t) x r \<Longrightarrow> eats (sx_bind (lex_look peek_next) K) (c # d # t) x r"
  by (rule eats_look [where i = 1]) (simp_all add: nth_char_def)

lemma reads_fraction: "reads 0 lex_fraction s"
proof (cases "\<exists>d u. s = ch CHR ''.'' # d # u \<and> is_ascii_digit d")
  case True
  then obtain d u where s: "s = ch CHR ''.'' # d # u" "is_ascii_digit d" by blast
  obtain t r where t: "u = t @ r" "\<forall>c\<in>set t. is_digit_or_underscore c" "ends is_digit_or_underscore r"
    using while_split by blast
  have "eats (bump (advance_while is_digit_or_underscore)) (ch CHR ''.'' # d # t) () r"
    using s t by (intro eats_bump eats_advance_while) (auto simp: is_digit_or_underscore_def)
  then have "eats lex_fraction (ch CHR ''.'' # d # t) True r"
    unfolding lex_fraction_def
    by (intro eats_peek_yes eats_peek_next_yes) (use s in \<open>simp add: eats_bind1 eats_return\<close>)
  with s t show ?thesis by (intro readsI [of s "ch CHR ''.'' # d # t" r]) simp_all
next
  case False
  have "eats lex_fraction [] False s"
    unfolding lex_fraction_def
  proof (rule eats_look [where i = 0], rule eats_look [where i = 1])
    fix r1 r2 assume p: "prefix r1 s" "prefix r2 s"
    have "\<not> (nth_char 0 s = Some (ch CHR ''.'') \<and> (\<exists>d. nth_char 1 s = Some d \<and> is_ascii_digit d))"
      using False by (cases s; cases "tl s") (auto simp: nth_char_def)
    then have "\<not> (nth_char 0 r1 = Some (ch CHR ''.'') \<and> (\<exists>d. nth_char 1 r2 = Some d \<and> is_ascii_digit d))"
      using prefix_nth_char [OF p(1), of 0 "[]"] prefix_nth_char [OF p(2), of 1 "[]"] by auto
    then show "eats (if nth_char 0 ([] @ r1) = Some (ch CHR ''.'')
          \<and> (\<exists>d. nth_char 1 ([] @ r2) = Some d \<and> is_ascii_digit d)
        then sx_bind (bump (advance_while is_digit_or_underscore)) (\<lambda>_. sx_return True)
        else sx_return False) [] False s"
      by (auto intro: eats_return)
  qed simp_all
  then show ?thesis by (intro readsI [of s "[]" s]) simp_all
qed

lemma reads_decimal:
  assumes "is_ascii_digit c"
  shows "reads 1 (lex_decimal U) (c # s)"
proof -
  have "lex_decimal U = sx_bind (advance_while is_digit_or_underscore) (\<lambda>_. sx_bind lex_fraction (tail_of_number U))"
    by (simp add: lex_decimal_def tail_of_number_def [abs_def])
  moreover have "reads 1 (advance_while is_digit_or_underscore) (c # s)"
    using assms by (intro reads_advance_while1) (simp add: is_digit_or_underscore_def)
  ultimately show ?thesis by (auto intro!: reads_bind reads_fraction reads_tail)
qed

lemma reads_hex: "reads 2 (lex_hex U) (a # b # s)"
proof -
  obtain t r w where t: "s = t @ r" "steps_to hex_digits_step 0 t = Some w" "stuck hex_digits_step w r"
    using steps_split [of s hex_digits_step 0] by blast
  obtain t2 r2 where t2: "r = t2 @ r2" "eats (lex_number_suffix U) t2 () r2" using eats_suffix by blast
  have "eats (lex_hex U) ((a # b # t) @ t2) (Literal IntLit) r2"
  proof (rule eatsI)
    fix t0
    have h: "consumes t0 (\<lambda>f pre. bump (bump (char_loop hex_digits_step 0))) (a # b # t) (\<lambda>f pre. w) (t2 @ r2)"
      using t t2(1) by (intro consumes_bump consumes_char_loop) simp_all
    have "consumes (t0 @ a # b # t) (\<lambda>f pre. report (byte_len pre + byte_len t0)
        (byte_len pre + byte_len (t0 @ a # b # t)) (rs ''expected digits after `0x` prefix'')) [] (\<lambda>f pre. ()) (t2 @ r2)"
      by (rule consumesI, rule scans_report) auto
    then have c: "consumes (t0 @ a # b # t)
       (\<lambda>f pre. if w = 0
          then sx_bind (sx_get lx_pos) (\<lambda>p. report (byte_len pre + byte_len t0) p (rs ''expected digits after `0x` prefix''))
          else sx_return ()) [] (\<lambda>f pre. ()) (t2 @ r2)"
      by (cases "w = 0") (auto intro: consumes_pos_bind consumes_return)
    from eatsD [OF t2(2)]
    have k: "consumes ((t0 @ a # b # t) @ [])
        (\<lambda>f pre. sx_bind (lex_number_suffix U) (\<lambda>_. sx_return (Literal IntLit))) t2 (\<lambda>f pre. Literal IntLit) r2"
      by (rule consumes_suffix_kind)
    show "consumes t0 (\<lambda>f pre. lex_hex U) ((a # b # t) @ t2) (\<lambda>f pre. Literal IntLit) r2"
      unfolding lex_hex_def
      by (rule consumes_pos_bind, rule consumes_bind [OF h]) (use consumes_bind [OF c k] in simp)
  qed
  with t t2 show ?thesis by (intro readsI [of _ "(a # b # t) @ t2" r2]) simp_all
qed

lemma reads_bin: "reads 2 (lex_bin U) (a # b # s)"
  unfolding lex_bin_def numeral_2_eq_2 by (intro reads_bind reads_bump) auto

lemma reads_oct: "reads 2 (lex_oct U) (a # b # s)"
  unfolding lex_oct_def numeral_2_eq_2 by (intro reads_bind reads_bump) auto

lemma reads_number:
  assumes "is_ascii_digit c"
  shows "reads 1 (lex_number U) (c # s)"
proof -
  let ?radix = "\<lambda>n. n = Some (ch CHR ''x'') \<or> n = Some (ch CHR ''X'') \<or> n = Some (ch CHR ''b'')
    \<or> n = Some (ch CHR ''B'') \<or> n = Some (ch CHR ''o'') \<or> n = Some (ch CHR ''O'')"
  show ?thesis
  proof (cases "c = ch CHR ''0'' \<and> ?radix (nth_char 0 s)")
    case True
    then obtain n u where s: "s = n # u" "?radix (Some n)" by (cases s) auto
    define M where "M = (if n = ch CHR ''x'' \<or> n = ch CHR ''X'' then lex_hex U
      else if n = ch CHR ''b'' \<or> n = ch CHR ''B'' then lex_bin U else lex_oct U)"
    have "reads 2 M (c # n # u)" by (simp add: M_def reads_hex reads_bin reads_oct)
    then obtain t r x where t: "c # n # u = t @ r" "2 \<le> length t" "eats M t x r" by (rule readsE)
    then obtain v where v: "t = c # n # v" by (cases t; cases "tl t") auto
    have "eats (lex_number U) (c # n # v) x r"
      unfolding lex_number_def
      by (intro eats_peek_yes eats_peek_next_yes) (use t(3) True s(2) in \<open>auto simp: M_def v\<close>)
    with t v s show ?thesis by (intro readsI [of _ t r]) simp_all
  next
    case False
    obtain t r x where t: "c # s = t @ r" "1 \<le> length t" "eats (lex_decimal U) t x r"
      using reads_decimal [OF assms] by (rule readsE)
    then obtain v where v: "t = c # v" "s = v @ r" by (cases t) auto
    have "eats (lex_number U) (c # v) x r"
      unfolding lex_number_def
    proof (rule eats_peek_yes, rule eats_look [where i = 1])
      fix r' assume p: "prefix r' r"
      have "\<not> (c = ch CHR ''0'' \<and> ?radix (nth_char 0 (v @ r')))"
        using False v(2) prefix_nth_char [OF p, of 0 v] by auto
      then show "eats (if Some c = Some (ch CHR ''0'')
          then if nth_char 1 ((c # v) @ r') = Some (ch CHR ''x'') \<or> nth_char 1 ((c # v) @ r') = Some (ch CHR ''X'') then lex_hex U
            else if nth_char 1 ((c # v) @ r') = Some (ch CHR ''b'') \<or> nth_char 1 ((c # v) @ r') = Some (ch CHR ''B'') then lex_bin U
            else if nth_char 1 ((c # v) @ r') = Some (ch CHR ''o'') \<or> nth_char 1 ((c # v) @ r') = Some (ch CHR ''O'') then lex_oct U
            else lex_decimal U
          else lex_decimal U) (c # v) x r"
        using t(3) v(1) by (auto simp: nth_char_def nth_append)
    qed simp
    with t v show ?thesis by (intro readsI [of _ t r]) simp_all
  qed
qed

section \<open>Quoted literals\<close>

lemma eats_quoted_loop:
  obtains t r b where "s = t @ r" "b \<longrightarrow> t \<noteq> [] \<and> last t = q" "\<not> b \<longrightarrow> r = []" "eats (quoted_loop q) t b r"
proof -
  obtain t r b where t: "s = t @ r" "b \<longleftrightarrow> t \<noteq> [] \<and> last t = q \<and> b" "\<not> b \<longrightarrow> r = []"
    and l: "\<And>f pre ds r'. prefix r' r \<Longrightarrow>
      quoted_loop q (cursor f pre (t @ r') ds) = (Inr b, cursor f (pre @ t) r' ds)"
    using quoted_loop_split [of s q] by blast
  have "eats (quoted_loop q) t b r"
    by (rule eatsI, rule consumesI, rule scans_silentI) (simp add: l)
  then show thesis by (rule that [OF t(1) _ t(3), rotated]) (use t(2) in blast)
qed

text \<open>The end of a literal that began at the start of \<open>txt\<close>: an error unless it was closed.\<close>

lemma consumes_unterminated:
  "consumes (t0 @ txt)
     (\<lambda>f pre. if b then sx_return ()
       else sx_bind (sx_get lx_pos) (\<lambda>p. report (byte_len pre + byte_len t0) p msg)) [] (\<lambda>f pre. ()) r"
proof (cases b)
  case False
  have "consumes (t0 @ txt) (\<lambda>f pre. report (byte_len pre + byte_len t0) (byte_len pre + byte_len (t0 @ txt)) msg)
      [] (\<lambda>f pre. ()) r"
    by (rule consumesI, rule scans_report) auto
  with False show ?thesis by (simp add: consumes_pos_bind)
qed (simp add: consumes_return)

lemma eats_quoted:
  assumes "eats (quoted_loop q) t b r"
  shows "eats (lex_quoted q msg) (c # t) () r"
proof (rule eatsI)
  show "consumes t0 (\<lambda>f pre. lex_quoted q msg) (c # t) (\<lambda>f pre. ()) r" for t0
    unfolding lex_quoted_def
    by (rule consumes_pos_bind, rule consumes_bind1 [OF eatsD [OF eats_bump [OF assms]]])
      (rule consumes_unterminated)
qed

lemma reads_quoted: "reads 1 (lex_quoted q msg) (c # s)"
proof -
  obtain t r b where "s = t @ r" "eats (quoted_loop q) t b r" by (rule eats_quoted_loop)
  then show ?thesis by (intro readsI [of _ "c # t" r]) (auto intro: eats_quoted)
qed

lemma reads_byte_lit:
  assumes "q = ch CHR 0x27 \<or> q = ch CHR 0x22"
  shows "reads 2 lex_byte_lit (c # q # s)"
proof -
  obtain t r b where t: "s = t @ r" "eats (quoted_loop q) t b r" by (rule eats_quoted_loop)
  have "eats lex_byte_lit (c # q # t) () r"
  proof (rule eatsI)
    fix t0
    have "consumes (t0 @ [c])
        (\<lambda>f pre. sx_bind (bump (quoted_loop q)) (\<lambda>terminated.
           if terminated then sx_return ()
           else sx_bind (sx_get lx_pos) (\<lambda>p. report (byte_len pre + byte_len t0) p (rs ''unterminated byte literal''))))
        (q # t) (\<lambda>f pre. ()) r"
      by (rule consumes_bind1 [OF eatsD [OF eats_bump [OF t(2)]]])
        (use consumes_unterminated [of t0 "[c] @ q # t"] in simp)
    then have "consumes t0
        (\<lambda>f pre. bump (sx_bind (lex_look peek) (\<lambda>p. case p of
           None \<Rightarrow> sx_return ()
         | Some q \<Rightarrow>
           if q = ch CHR 0x27 \<or> q = ch CHR 0x22
           then
             sx_bind (bump (quoted_loop q)) (\<lambda>terminated.
               if terminated then sx_return ()
               else sx_bind (sx_get lx_pos) (\<lambda>p.
                 report (byte_len pre + byte_len t0) p (rs ''unterminated byte literal'')))
           else sx_return ()))) (c # q # t) (\<lambda>f pre. ()) r"
      by (intro consumes_bump consumes_peek_bind) (use assms in auto)
    then show "consumes t0 (\<lambda>f pre. lex_byte_lit) (c # q # t) (\<lambda>f pre. ()) r"
      unfolding lex_byte_lit_def bump_def sx_bind_assoc by (rule consumes_pos_bind)
  qed
  with t show ?thesis by (intro readsI [of _ "c # q # t" r]) simp_all
qed

section \<open>The arms of the main loop\<close>

text \<open>\<open>tokenizes A t k r\<close>: the arm \<open>A\<close>, given the start of the token, reads \<open>t\<close> and makes it a
  token of kind \<open>k\<close>.\<close>

definition tokenizes :: "(nat \<Rightarrow> Token option lexing) \<Rightarrow> rstr \<Rightarrow> SyntaxKind \<Rightarrow> rstr \<Rightarrow> bool" where
  "tokenizes A t k r \<longleftrightarrow>
     consumes [] (\<lambda>f pre. A (byte_len pre)) t (\<lambda>f pre. Some (token_at f pre t k)) r"

lemma tokenizes_emit: "eats M t x r \<Longrightarrow> tokenizes (\<lambda>start. sx_bind M (\<lambda>_. lex_emit start k)) t k r"
  unfolding tokenizes_def
  by (rule consumes_bind1 [OF eatsD]) (auto intro: consumes_emit)

lemma tokenizes_kind: "eats M t k r \<Longrightarrow> tokenizes (\<lambda>start. sx_bind M (lex_emit start)) t k r"
  unfolding tokenizes_def
  by (rule consumes_bind1 [OF eatsD]) (auto intro: consumes_emit)

text \<open>What the main loop relies on: on a text whose first character it accepts, an arm makes a
  token of a nonempty front part.\<close>

locale scanner =
  fixes accepts :: "rchar \<Rightarrow> bool" and arm :: "nat \<Rightarrow> Token option lexing"
  assumes arm: "accepts c \<Longrightarrow> \<exists>t k r. c # s = t @ r \<and> t \<noteq> [] \<and> tokenizes arm t k r"

text \<open>Most arms run a method that returns the kind, or run a method and then make a token of a
  fixed kind.\<close>

locale kind_rule =
  fixes accepts :: "rchar \<Rightarrow> bool" and rule :: "SyntaxKind lexing"
  assumes reads: "accepts c \<Longrightarrow> reads 1 rule (c # s)"

sublocale kind_rule \<subseteq> scanner accepts "\<lambda>start. sx_bind rule (lex_emit start)"
proof
  fix c s assume "accepts c"
  then obtain t r k where "c # s = t @ r" "1 \<le> length t" "eats rule t k r"
    using reads by (blast elim: readsE)
  then show "\<exists>t k r. c # s = t @ r \<and> t \<noteq> [] \<and> tokenizes (\<lambda>start. sx_bind rule (lex_emit start)) t k r"
    using tokenizes_kind by (intro exI [of _ t] exI [of _ k] exI [of _ r]) auto
qed

locale text_rule =
  fixes accepts :: "rchar \<Rightarrow> bool" and rule :: "unit lexing" and kind :: SyntaxKind
  assumes reads: "accepts c \<Longrightarrow> reads 1 rule (c # s)"

sublocale text_rule \<subseteq> scanner accepts "\<lambda>start. sx_bind rule (\<lambda>_. lex_emit start kind)"
proof
  fix c s assume "accepts c"
  then obtain t r x where "c # s = t @ r" "1 \<le> length t" "eats rule t x r"
    using reads by (blast elim: readsE)
  then show "\<exists>t k r. c # s = t @ r \<and> t \<noteq> [] \<and> tokenizes (\<lambda>start. sx_bind rule (\<lambda>_. lex_emit start kind)) t k r"
    using tokenizes_emit by (intro exI [of _ t] exI [of _ kind] exI [of _ r]) auto
qed

interpretation number: kind_rule is_ascii_digit "lex_number U" for U
  by unfold_locales (rule reads_number)

interpretation string_lit: text_rule "\<lambda>c. c = ch CHR 0x22" lex_string "Literal StringLit"
  by unfold_locales (simp only: lex_string_def reads_quoted)

interpretation char_lit: text_rule "\<lambda>c. c = ch CHR 0x27" lex_char "Literal CharLit"
  by unfold_locales (simp only: lex_char_def reads_quoted)

lemmas operator_defs =
  lex_dot_def lex_colon_def lex_plus_def lex_minus_def lex_star_def lex_slash_def lex_eq_def lex_bang_def
  lex_lt_def lex_gt_def lex_and_def lex_or_def

lemma operator_reads:
  "reads 1 lex_dot (c # s)" "reads 1 lex_colon (c # s)" "reads 1 lex_plus (c # s)"
  "reads 1 lex_minus (c # s)" "reads 1 lex_star (c # s)" "reads 1 lex_slash (c # s)"
  "reads 1 lex_eq (c # s)" "reads 1 lex_bang (c # s)" "reads 1 lex_lt (c # s)"
  "reads 1 lex_gt (c # s)" "reads 1 lex_and (c # s)" "reads 1 lex_or (c # s)"
  unfolding operator_defs by (intro reads_bump1 reads_if_peek reads_return)+

interpretation op_dot: kind_rule "\<lambda>c. True" lex_dot by unfold_locales (rule operator_reads)
interpretation op_colon: kind_rule "\<lambda>c. True" lex_colon by unfold_locales (rule operator_reads)
interpretation op_plus: kind_rule "\<lambda>c. True" lex_plus by unfold_locales (rule operator_reads)
interpretation op_minus: kind_rule "\<lambda>c. True" lex_minus by unfold_locales (rule operator_reads)
interpretation op_star: kind_rule "\<lambda>c. True" lex_star by unfold_locales (rule operator_reads)
interpretation op_slash: kind_rule "\<lambda>c. True" lex_slash by unfold_locales (rule operator_reads)
interpretation op_eq: kind_rule "\<lambda>c. True" lex_eq by unfold_locales (rule operator_reads)
interpretation op_bang: kind_rule "\<lambda>c. True" lex_bang by unfold_locales (rule operator_reads)
interpretation op_lt: kind_rule "\<lambda>c. True" lex_lt by unfold_locales (rule operator_reads)
interpretation op_gt: kind_rule "\<lambda>c. True" lex_gt by unfold_locales (rule operator_reads)
interpretation op_and: kind_rule "\<lambda>c. True" lex_and by unfold_locales (rule operator_reads)
interpretation op_or: kind_rule "\<lambda>c. True" lex_or by unfold_locales (rule operator_reads)

lemma single_tokenizes: "tokenizes (\<lambda>start. single_arm start c kind) [ch c] kind s"
  unfolding tokenizes_def single_arm_def
  by (rule consumes_bump) (use consumes_emit_text [of "rs [c]" kind s] in \<open>simp add: rs_def\<close>)

interpretation single: scanner "\<lambda>c'. c' = ch c" "\<lambda>start. single_arm start c kind" for c kind
proof
  fix c' s assume "c' = ch c"
  then show "\<exists>t k r. c' # s = t @ r \<and> t \<noteq> [] \<and> tokenizes (\<lambda>start. single_arm start c kind) t k r"
    using single_tokenizes [of c kind s] by (intro exI [of _ "[c']"]) auto
qed

text \<open>The two operators whose tokens are built from literal texts.\<close>

definition with_equals :: "char \<Rightarrow> SyntaxKind \<Rightarrow> SyntaxKind \<Rightarrow> nat \<Rightarrow> Token option lexing" where
  "with_equals c k1 k2 start =
     bump (if_peek CHR ''='' (bump (emit_text start k1 (rs [c, CHR ''='']))) (emit_text start k2 (rs [c])))"

lemma with_equals_arms:
  "percent_arm = with_equals CHR ''%'' (Operator PercentEq) (Operator Percent)"
  "caret_arm = with_equals CHR ''^'' (Operator CaretEq) (Operator Caret)"
  by (simp_all add: fun_eq_iff percent_arm_def caret_arm_def with_equals_def)

lemma with_equals_yes: "tokenizes (with_equals c k1 k2) [ch c, ch CHR ''=''] k1 u"
proof -
  have "consumes [ch c] (\<lambda>f pre. if_peek CHR ''='' (bump (emit_text (byte_len pre) k1 (rs [c, CHR ''=''])))
      (emit_text (byte_len pre) k2 (rs [c]))) [ch CHR ''='']
      (\<lambda>f pre. Some (token_at f pre [ch c, ch CHR ''=''] k1)) u"
    by (intro consumes_if_peek_yes consumes_bump)
      (use consumes_emit_text [of "rs [c, CHR ''='']" k1 u] in \<open>simp add: rs_def\<close>)
  then show ?thesis unfolding tokenizes_def with_equals_def by (intro consumes_bump) simp
qed

lemma with_equals_no:
  assumes "nth_char 0 s \<noteq> Some (ch CHR ''='')"
  shows "tokenizes (with_equals c k1 k2) [ch c] k2 s"
proof -
  have "consumes [ch c] (\<lambda>f pre. if_peek CHR ''='' (bump (emit_text (byte_len pre) k1 (rs [c, CHR ''=''])))
      (emit_text (byte_len pre) k2 (rs [c]))) [] (\<lambda>f pre. Some (token_at f pre [ch c] k2)) s"
    by (intro consumes_if_peek_no) (use assms consumes_emit_text [of "rs [c]" k2 s] in \<open>simp_all add: rs_def\<close>)
  then show ?thesis unfolding tokenizes_def with_equals_def by (intro consumes_bump) simp
qed

lemma with_equals_cases:
  obtains u where "s = ch CHR ''='' # u" "tokenizes (with_equals c k1 k2) [ch c, ch CHR ''=''] k1 u"
  | "nth_char 0 s \<noteq> Some (ch CHR ''='')" "tokenizes (with_equals c k1 k2) [ch c] k2 s"
proof (cases "nth_char 0 s = Some (ch CHR ''='')")
  case True
  then obtain u where "s = ch CHR ''='' # u" by (cases s) auto
  then show thesis using that(1) with_equals_yes by blast
qed (use that(2) with_equals_no in blast)

interpretation equals: scanner "\<lambda>c'. c' = ch c" "with_equals c k1 k2" for c k1 k2
proof
  fix c' s assume c: "c' = ch c"
  show "\<exists>t k r. c' # s = t @ r \<and> t \<noteq> [] \<and> tokenizes (with_equals c k1 k2) t k r"
  proof (cases rule: with_equals_cases [of s c k1 k2])
    case (1 u)
    then show ?thesis by (intro exI [of _ "[c', ch CHR ''='']"] exI [of _ k1] exI [of _ u]) (simp add: c)
  next
    case 2
    then show ?thesis by (intro exI [of _ "[c']"] exI [of _ k2] exI [of _ s]) (simp add: c)
  qed
qed

interpretation unknown: scanner "\<lambda>c'. c' = c" "\<lambda>start. unknown_arm start c" for c
proof
  fix c' s assume c: "c' = c"
  let ?msg = "rs ''unexpected character: '' @ [39, c, 39]"
  have r: "consumes [c] (\<lambda>f pre. report (byte_len pre) (byte_len pre + byte_len [c]) ?msg) [] (\<lambda>f pre. ()) s"
    by (rule consumesI, rule scans_report0) simp
  have "consumes [c] (\<lambda>f pre. sx_bind (sx_get lx_pos) (\<lambda>p.
        sx_bind (report (byte_len pre) p ?msg) (\<lambda>_. lex_emit (byte_len pre) Error)))
      [] (\<lambda>f pre. Some (token_at f pre [c] Error)) s"
    by (rule consumes_pos_bind, rule consumes_bind1 [OF r]) (simp add: consumes_emit)
  then have "tokenizes (\<lambda>start. unknown_arm start c) [c'] Error s"
    unfolding tokenizes_def unknown_arm_def c by (intro consumes_bump) simp
  then show "\<exists>t k r. c' # s = t @ r \<and> t \<noteq> [] \<and> tokenizes (\<lambda>start. unknown_arm start c) t k r"
    by (intro exI [of _ "[c']"]) auto
qed

text \<open>An identifier, a keyword or a byte literal.\<close>

lemma not_word_quote [simp]: "\<not> is_word U 39" "\<not> is_word U 34" "\<not> is_word U 92"
  by (simp_all add: is_word_def is_alphanumeric_def is_ascii_alphabetic_def is_ascii_digit_def)

definition letter :: "rchar \<Rightarrow> bool" where
  "letter c \<longleftrightarrow> is_ascii_alphabetic c \<or> c = ch CHR ''_''"

lemma letter_ascii: "letter c \<Longrightarrow> len_utf8 c = 1" "letter c \<Longrightarrow> is_word U c"
  by (auto simp: letter_def is_ascii_alphabetic_def len_utf8_def is_word_def is_alphanumeric_def)

definition byte_prefix :: "rchar \<Rightarrow> rchar option \<Rightarrow> bool" where
  "byte_prefix c nb \<longleftrightarrow> (c = ch CHR ''b'' \<or> c = ch CHR ''B'') \<and> (nb = Some (ch CHR 0x27) \<or> nb = Some (ch CHR 0x22))"

lemma word_arm_cursor:
  assumes "letter c"
  shows "word_arm U (byte_len pre) (cursor f pre (c # s) ds) =
    (if byte_prefix c (nth_char 0 s)
     then sx_bind lex_byte_lit (\<lambda>_. lex_emit (byte_len pre) (Literal ByteLit))
     else sx_bind (lex_ident_or_keyword U) (\<lambda>_. sx_bind (sx_get lx_pos) (\<lambda>p.
            sx_bind (lex_look (text_between (byte_len pre) p)) (\<lambda>text.
              emit_text (byte_len pre) (lookup_keyword text) text))))
    (cursor f pre (c # s) ds)"
proof -
  have "slice (byte_len pre) (byte_len pre + 1) (pre @ c # s) = Some [c]"
    using slice_byte_len [of pre "[c]" s] letter_ascii(1) [OF assms] by simp
  then show ?thesis
    unfolding word_arm_def byte_prefix_def
    by (simp add: sx_bind_apply [of "lex_look _"] lex_look_def text_between_def or_panic_def rs_def
        nth_char_def [of 1] nth_char_def [of 0] cong: if_cong)
qed

lemma tokenizes_cong:
  assumes "tokenizes B t k r"
    and "\<And>f pre ds r'. prefix r' r \<Longrightarrow>
      A (byte_len pre) (cursor f pre (t @ r') ds) = B (byte_len pre) (cursor f pre (t @ r') ds)"
  shows "tokenizes A t k r"
  using assms(1) unfolding tokenizes_def by (rule consumes_cong) (simp add: assms(2))

interpretation word: scanner letter "word_arm U" for U
proof
  fix c s assume c: "letter c"
  show "\<exists>t k r. c # s = t @ r \<and> t \<noteq> [] \<and> tokenizes (word_arm U) t k r"
  proof (cases "byte_prefix c (nth_char 0 s)")
    case True
    then obtain q u where s: "s = q # u" "q = ch CHR 0x27 \<or> q = ch CHR 0x22"
      by (cases s) (auto simp: byte_prefix_def)
    then obtain t r x where t: "c # q # u = t @ r" "2 \<le> length t" "eats lex_byte_lit t x r"
      using reads_byte_lit by (blast elim: readsE)
    then obtain v where v: "t = c # q # v" by (cases t; cases "tl t") auto
    have "tokenizes (word_arm U) t (Literal ByteLit) r"
      by (rule tokenizes_cong [OF tokenizes_emit [OF t(3)]])
        (use True s(1) in \<open>simp add: v word_arm_cursor [OF c]\<close>)
    with t s v show ?thesis by (intro exI [of _ t] exI [of _ "Literal ByteLit"] exI [of _ r]) simp
  next
    case False
    obtain t r where t: "s = t @ r" "\<forall>c\<in>set t. is_word U c" "ends (is_word U) r"
      using while_split by blast
    have i: "consumes [] (\<lambda>f pre. lex_ident_or_keyword U) (c # t) (\<lambda>f pre. ()) r"
      unfolding lex_ident_or_keyword_def
      by (rule consumes_advance_while) (use t letter_ascii(2) [OF c] in auto)
    have x: "consumes (c # t) (\<lambda>f pre. sx_bind (lex_look (text_between (byte_len pre) (byte_len pre + byte_len (c # t))))
        (\<lambda>text. emit_text (byte_len pre) (lookup_keyword text) text)) []
        (\<lambda>f pre. Some (token_at f pre (c # t) (lookup_keyword (c # t)))) r"
      by (rule consumes_bind0 [OF scans_text0]) (rule consumes_emit_text)
    have "tokenizes (\<lambda>start. sx_bind (lex_ident_or_keyword U) (\<lambda>_. sx_bind (sx_get lx_pos) (\<lambda>p.
            sx_bind (lex_look (text_between start p)) (\<lambda>text.
              emit_text start (lookup_keyword text) text)))) (c # t) (lookup_keyword (c # t)) r"
      unfolding tokenizes_def
      by (rule consumes_bind1 [OF i], unfold append_Nil, rule consumes_pos_bind) (rule x)
    then have "tokenizes (word_arm U) (c # t) (lookup_keyword (c # t)) r"
    proof (rule tokenizes_cong)
      fix f pre ds r' assume p: "prefix r' r"
      have "\<not> byte_prefix c (nth_char 0 (t @ r'))"
        using False t(1) prefix_nth_char [OF p, of 0 t] by (auto simp: byte_prefix_def)
      then show "word_arm U (byte_len pre) (cursor f pre ((c # t) @ r') ds) =
          sx_bind (lex_ident_or_keyword U) (\<lambda>_. sx_bind (sx_get lx_pos) (\<lambda>p.
            sx_bind (lex_look (text_between (byte_len pre) p)) (\<lambda>text.
              emit_text (byte_len pre) (lookup_keyword text) text))) (cursor f pre ((c # t) @ r') ds)"
        by (simp add: word_arm_cursor [OF c])
    qed
    with t(1) show ?thesis by (intro exI [of _ "c # t"]) auto
  qed
qed

text \<open>A lifetime or a character literal, told apart by what follows the identifier.\<close>

lemma ident_end_eq: "ident_end U cs n = n + byte_len (takeWhile (is_word U) cs)"
  by (induction cs arbitrary: n) auto

definition is_lifetime :: "unicode \<Rightarrow> rstr \<Rightarrow> bool" where
  "is_lifetime U s \<longleftrightarrow>
     (\<exists>x xs. s = x # xs \<and> (is_alphabetic U x \<or> x = ch CHR ''_'')
        \<and> nth_char 0 (dropWhile (is_word U) xs) \<noteq> Some (ch CHR 0x27))"

lemma lifetime_end_cursor:
  "lifetime_end U (byte_len pre + 1) (pre @ ch CHR 0x27 # s) =
     Some (is_lifetime U s,
       byte_len pre + 1 +
         (case s of x # xs \<Rightarrow> if is_alphabetic U x \<or> x = ch CHR ''_''
            then byte_len (x # takeWhile (is_word U) xs) else 0 | [] \<Rightarrow> 0))"
proof -
  have 1: "slice_from (byte_len pre + 1) (pre @ ch CHR 0x27 # s) = Some s"
    using slice_from_byte_len [of "pre @ [ch CHR 0x27]" s] by (simp add: len_utf8_def)
  show ?thesis
  proof (cases s)
    case Nil
    with 1 show ?thesis by (simp add: lifetime_end_def is_lifetime_def)
  next
    case (Cons x xs)
    have "slice_from (byte_len (pre @ ch CHR 0x27 # x # takeWhile (is_word U) xs))
        ((pre @ ch CHR 0x27 # x # takeWhile (is_word U) xs) @ dropWhile (is_word U) xs)
        = Some (dropWhile (is_word U) xs)"
      by (rule slice_from_byte_len)
    then have "slice_from (byte_len pre + 1 + len_utf8 x + byte_len (takeWhile (is_word U) xs))
        (pre @ ch CHR 0x27 # x # xs) = Some (dropWhile (is_word U) xs)"
      by (simp add: len_utf8_def [of 39] add.assoc)
    with 1 Cons show ?thesis
      by (auto simp: lifetime_end_def is_lifetime_def ident_end_eq Let_def add.assoc)
  qed
qed

lemma advance_to_cursor:
  "advance_to (byte_len (a @ t)) (cursor f a (t @ r) ds) = (Inr (), cursor f (a @ t) r ds)"
proof (induction t arbitrary: a)
  case Nil
  then show ?case by (simp add: advance_to.simps)
next
  case (Cons c t)
  from Cons [of "a @ [c]"] show ?case
    by (simp add: advance_to.simps [of _ "cursor f a _ ds"] sx_bind_apply add.assoc)
qed

lemma quote_arm_lifetime:
  assumes "is_lifetime U (x # t @ r)" "\<forall>c\<in>set t. is_word U c" "ends (is_word U) r"
  shows "quote_arm U (byte_len pre) (cursor f pre (ch CHR 0x27 # x # t @ r) ds) =
    lex_emit (byte_len pre) (Keyword Lifetime) (cursor f (pre @ ch CHR 0x27 # x # t) r ds)"
proof -
  have d: "takeWhile (is_word U) (t @ r) = t" "dropWhile (is_word U) (t @ r) = r"
    using assms(2,3) by (cases r; auto simp: ends_def takeWhile_append2 dropWhile_append2)+
  have "advance_to (byte_len ((pre @ [ch CHR 0x27]) @ x # t))
      (cursor f (pre @ [ch CHR 0x27]) ((x # t) @ r) ds)
      = (Inr (), cursor f ((pre @ [ch CHR 0x27]) @ x # t) r ds)"
    by (rule advance_to_cursor)
  moreover have "lifetime_end U (byte_len pre + 1) (pre @ ch CHR 0x27 # x # t @ r)
      = Some (True, byte_len pre + 1 + byte_len (x # t))"
    using lifetime_end_cursor [of U pre "x # t @ r"] assms(1) d by (auto simp: is_lifetime_def)
  ultimately show ?thesis
    unfolding quote_arm_def
    by (simp add: sx_bind_apply lex_look_def or_panic_def bump_def len_utf8_def [of 39] add.assoc)
qed

lemma quote_arm_char:
  assumes "\<not> is_lifetime U s"
  shows "quote_arm U (byte_len pre) (cursor f pre (ch CHR 0x27 # s) ds) =
    sx_bind lex_char (\<lambda>_. lex_emit (byte_len pre) (Literal CharLit)) (cursor f pre (ch CHR 0x27 # s) ds)"
  unfolding quote_arm_def
  using assms lifetime_end_cursor [of U pre s] by (simp add: sx_bind_apply lex_look_def or_panic_def)

lemma not_alphabetic_quote [simp]: "\<not> is_alphabetic U 39"
  by (simp add: is_alphabetic_def is_ascii_alphabetic_def)

lemma is_lifetime_prefix:
  assumes "\<not> is_lifetime U (t @ r)" "t \<noteq> []" "last t = ch CHR 0x27"
  shows "\<not> is_lifetime U (t @ r')"
proof
  assume "is_lifetime U (t @ r')"
  then obtain x xs where x: "t @ r' = x # xs" "is_alphabetic U x \<or> x = ch CHR ''_''"
    and n: "nth_char 0 (dropWhile (is_word U) xs) \<noteq> Some (ch CHR 0x27)"
    by (auto simp: is_lifetime_def)
  obtain u where u: "t = x # u" "xs = u @ r'" using x(1) assms(2) by (cases t) auto
  have l: "u \<noteq> []" "last u = ch CHR 0x27" using assms(3) x(2) u by (auto split: if_splits)
  then have "ch CHR 0x27 \<in> set u" using last_in_set [OF l(1)] by simp
  then have "dropWhile (is_word U) (u @ v) = dropWhile (is_word U) u @ v"
    "dropWhile (is_word U) u \<noteq> []" for v
    using dropWhile_append1 [of "ch CHR 0x27" u "is_word U"] not_word_quote(1) [of U] by (auto simp: Bex_def)
  with n u assms(1) x(2) show False
    by (auto simp: is_lifetime_def nth_char_def nth_append split: if_splits)
qed

interpretation quote: scanner "\<lambda>c. c = ch CHR 0x27" "quote_arm U" for U
proof
  fix c s assume c: "c = ch CHR 0x27"
  show "\<exists>t k r. c # s = t @ r \<and> t \<noteq> [] \<and> tokenizes (quote_arm U) t k r"
  proof (cases "is_lifetime U s")
    case True
    then obtain x xs where s: "s = x # xs" by (auto simp: is_lifetime_def)
    obtain t r where t: "xs = t @ r" "\<forall>c\<in>set t. is_word U c" "ends (is_word U) r"
      using while_split by blast
    have "dropWhile (is_word U) (t @ r') = r'" if "ends (is_word U) r'" for r'
      using t(2) that by (cases r') (auto simp: ends_def dropWhile_append2)
    moreover have e: "ends (is_word U) r'" if "prefix r' r" for r'
      using t(3) that by (cases r') (auto simp: ends_def prefix_def)
    ultimately have l: "is_lifetime U (x # t @ r')" if "prefix r' r" for r'
      using True s t that prefix_nth_char [OF that, of 0 "[]"] by (auto simp: is_lifetime_def)
    have "tokenizes (quote_arm U) (c # x # t) (Keyword Lifetime) r"
      unfolding tokenizes_def consumes_def
    proof (intro allI impI)
      fix r' assume p: "prefix r' r"
      have "scans (c # x # t) (\<lambda>f pre. lex_emit (byte_len pre) (Keyword Lifetime)) []
          (\<lambda>f pre. Some (token_at f pre (c # x # t) (Keyword Lifetime))) [] r'"
        by (rule scans_emit)
      then have "scans [] (\<lambda>f pre. quote_arm U (byte_len pre)) (c # x # t)
          (\<lambda>f pre. Some (token_at f pre (c # x # t) (Keyword Lifetime))) [] r'"
        unfolding scans_def using quote_arm_lifetime [OF l [OF p] t(2) e [OF p]] c by simp
      then show "\<exists>ms. scans [] (\<lambda>f pre. quote_arm U (byte_len pre)) (c # x # t)
          (\<lambda>f pre. Some (token_at f pre (c # x # t) (Keyword Lifetime))) ms r'" by blast
    qed
    with s t show ?thesis
      by (intro exI [of _ "c # x # t"] exI [of _ "Keyword Lifetime"] exI [of _ r]) simp
  next
    case False
    obtain t r b where t: "s = t @ r" "b \<longrightarrow> t \<noteq> [] \<and> last t = ch CHR 0x27" "\<not> b \<longrightarrow> r = []"
      "eats (quoted_loop (ch CHR 0x27)) t b r" by (rule eats_quoted_loop)
    have "\<not> is_lifetime U (t @ r')" if "prefix r' r" for r'
      using is_lifetime_prefix [of U t r r'] False t that by (cases b) auto
    then have "tokenizes (quote_arm U) (c # t) (Literal CharLit) r"
      by (intro tokenizes_cong [OF tokenizes_emit [OF eats_quoted [OF t(4)]]])
        (use quote_arm_char c in \<open>auto simp: lex_char_def\<close>)
    with t(1) show ?thesis by (intro exI [of _ "c # t"]) auto
  qed
qed

section \<open>A round of the main loop\<close>

lemma arm_if:
  "(b \<Longrightarrow> \<exists>t k r. s = t @ r \<and> t \<noteq> [] \<and> tokenizes A t k r) \<Longrightarrow>
   (\<not> b \<Longrightarrow> \<exists>t k r. s = t @ r \<and> t \<noteq> [] \<and> tokenizes B t k r) \<Longrightarrow>
   \<exists>t k r. s = t @ r \<and> t \<noteq> [] \<and> tokenizes (\<lambda>start. if b then A start else B start) t k r"
  by (cases b) simp_all

theorem dispatch_tokenizes:
  "\<exists>t k r. c # s = t @ r \<and> t \<noteq> [] \<and> tokenizes (\<lambda>start. lex_dispatch U start c) t k r"
proof -
  consider (word) "letter c" | (digit) "\<not> letter c" "is_ascii_digit c"
    | (string) "c = ch CHR 0x22" | (quote) "c = ch CHR 0x27"
    | (other) "\<not> letter c" "\<not> is_ascii_digit c" "c \<noteq> ch CHR 0x22" "c \<noteq> ch CHR 0x27"
    by blast
  then show ?thesis
  proof cases
    case word
    from word.arm [OF word] show ?thesis using word by (simp add: lex_dispatch_def letter_def)
  next
    case digit
    from number.arm [OF digit(2)] show ?thesis using digit by (simp add: lex_dispatch_def letter_def)
  next
    case string
    from string_lit.arm [OF string] show ?thesis
      using string by (simp add: lex_dispatch_def is_ascii_alphabetic_def is_ascii_digit_def)
  next
    case quote
    from quote.arm [OF quote] show ?thesis
      using quote by (simp add: lex_dispatch_def is_ascii_alphabetic_def is_ascii_digit_def)
  next
    case other
    show ?thesis
      unfolding lex_dispatch_def with_equals_arms if_not_P [OF other(1) [unfolded letter_def]]
        if_not_P [OF other(2)] if_not_P [OF other(3)] if_not_P [OF other(4)]
      by (intro arm_if; (rule single.arm equals.arm, assumption
            | rule op_dot.arm op_colon.arm op_plus.arm op_minus.arm op_star.arm op_slash.arm op_eq.arm
                op_bang.arm op_lt.arm op_gt.arm op_and.arm op_or.arm, rule TrueI
            | rule unknown.arm, rule refl))
  qed
qed

lemma consumes_lex_trivia:
  assumes "consumes [] (\<lambda>f pre. trivia_loop) t (\<lambda>f pre. ()) r"
  shows "consumes [] (\<lambda>f pre. lex_trivia) t (\<lambda>f pre. t \<noteq> []) r"
proof -
  have "consumes t (\<lambda>f pre. sx_get (\<lambda>lx. byte_len pre < lx_pos lx)) [] (\<lambda>f pre. t \<noteq> []) r"
    by (rule consumesI, rule scans_silentI) (auto simp: sx_apply)
  then show ?thesis
    unfolding lex_trivia_def
    by (intro consumes_pos_bind consumes_bind1 [OF assms]) simp
qed

lemma lex_token_dispatch:
  assumes "\<not> trivia_start (c # v @ r)" "tokenizes (\<lambda>start. lex_dispatch U start c) (c # v) k r"
  shows "tokenizes (\<lambda>_. lex_token U) (c # v) k r"
proof -
  have l: "consumes [] (\<lambda>f pre. lex_trivia) [] (\<lambda>f pre. False) ((c # v) @ r)"
    using consumes_lex_trivia [OF consumes_trivia_stop] assms(1) by simp
  have e: "scans [] (\<lambda>f pre. sx_get (\<lambda>lx. byte_len (lx_source lx) \<le> lx_pos lx)) [] (\<lambda>f pre. False) []
      ((c # v) @ r')" for r'
    by (rule scans_silentI) (simp add: sx_apply)
  have p: "consumes [] (\<lambda>f pre. sx_bind (lex_look peek)
      (\<lambda>p. case p of None \<Rightarrow> sx_return None | Some c \<Rightarrow> lex_dispatch U (byte_len pre) c)) (c # v)
      (\<lambda>f pre. Some (token_at f pre (c # v) k)) r"
    by (rule consumes_peek_bind) (use assms(2) in \<open>simp add: tokenizes_def\<close>)
  have "consumes [] (\<lambda>f pre. sx_bind (sx_get (\<lambda>lx. byte_len (lx_source lx) \<le> lx_pos lx)) (\<lambda>at_end.
        if at_end then sx_return None
        else sx_bind (lex_look peek)
          (\<lambda>p. case p of None \<Rightarrow> sx_return None | Some c \<Rightarrow> lex_dispatch U (byte_len pre) c))) (c # v)
      (\<lambda>f pre. Some (token_at f pre (c # v) k)) r"
    by (rule consumes_bind0 [OF e]) (use p in simp)
  then have "consumes [] (\<lambda>f pre. lex_token U) ([] @ c # v) (\<lambda>f pre. Some (token_at f pre (c # v) k)) r"
    unfolding lex_token_def
    by (intro consumes_pos_bind consumes_bind [OF l]) (simp cong: if_cong)
  then show ?thesis by (simp add: tokenizes_def)
qed

lemma lex_token_trivia:
  assumes "t \<noteq> []" "consumes [] (\<lambda>f pre. trivia_loop) t (\<lambda>f pre. ()) r"
  shows "tokenizes (\<lambda>_. lex_token U) t (trivia_kind t) r"
proof -
  have x: "consumes t (\<lambda>f pre. sx_bind (lex_look (text_between (byte_len pre) (byte_len pre + byte_len t)))
      (\<lambda>text. emit_text (byte_len pre) (trivia_kind text) text)) []
      (\<lambda>f pre. Some (token_at f pre t (trivia_kind t))) r"
    by (rule consumes_bind0 [OF scans_text0]) (rule consumes_emit_text)
  show ?thesis
    unfolding tokenizes_def lex_token_def
    by (rule consumes_pos_bind, rule consumes_bind1 [OF consumes_lex_trivia [OF assms(2)]])
      (use assms(1) x in \<open>simp add: consumes_pos_bind\<close>)
qed

text \<open>Every round makes a token of a nonempty front part of the rest.\<close>

theorem lex_token_tokenizes:
  assumes "s \<noteq> []"
  obtains t k r where "s = t @ r" "t \<noteq> []" "tokenizes (\<lambda>_. lex_token U) t k r"
proof (cases "trivia_start s")
  case True
  obtain t r where "s = t @ r" "t \<noteq> []" "consumes [] (\<lambda>f pre. trivia_loop) t (\<lambda>f pre. ()) r"
    using trivia_loop_split [of s "[]"] True by blast
  with that show thesis using lex_token_trivia by blast
next
  case False
  obtain c s' where s: "s = c # s'" using assms by (cases s) auto
  obtain t k r where t: "c # s' = t @ r" "t \<noteq> []" "tokenizes (\<lambda>start. lex_dispatch U start c) t k r"
    using dispatch_tokenizes by blast
  then obtain v where "t = c # v" by (cases t) auto
  with t s False have "tokenizes (\<lambda>_. lex_token U) t k r" by (auto intro: lex_token_dispatch)
  with t s that show thesis by blast
qed

end
