(* ===== verification/Lexer_Theorems.thy ===== *)
theory Lexer_Theorems
  imports Lexer_Rules
begin

text \<open>
  What the lexer computes on a whole text: its tokens put together are the text and their spans
  tile it, the tokens of an initial part are an initial part of the tokens, the trivia-free tokens
  still point into the text, and every operator is the longest one that fits.
\<close>

section \<open>The tokens of a text\<close>

text \<open>\<open>lexes U f pre s ts\<close>: after \<open>pre\<close>, the text \<open>s\<close> has the tokens \<open>ts\<close>.\<close>

inductive lexes :: "unicode \<Rightarrow> FileId \<Rightarrow> rstr \<Rightarrow> rstr \<Rightarrow> Token list \<Rightarrow> bool" for U f where
  at_end: "lexes U f pre [] []"
| round: "t \<noteq> [] \<Longrightarrow> tokenizes (\<lambda>_. lex_token U) t k r \<Longrightarrow> lexes U f (pre @ t) r ts \<Longrightarrow>
    lexes U f pre (t @ r) (token_at f pre t k # ts)"

inductive_cases lexes_NilE: "lexes U f pre [] ts"
inductive_cases lexes_ConsE: "lexes U f pre s (t # ts)"

lemma lexes_total: "\<exists>ts. lexes U f pre s ts"
proof (induction s arbitrary: pre rule: length_induct)
  case (1 s)
  show ?case
  proof (cases "s = []")
    case True
    then show ?thesis using lexes.at_end by blast
  next
    case False
    then obtain t k r where t: "s = t @ r" "t \<noteq> []" "tokenizes (\<lambda>_. lex_token U) t k r"
      by (rule lex_token_tokenizes)
    then have "length r < length s" by simp
    with 1 obtain ts where "lexes U f (pre @ t) r ts" by blast
    with t show ?thesis using lexes.round by blast
  qed
qed

lemma tk_text_token_at [simp]: "tk_text (token_at f pre t k) = t" "tk_kind (token_at f pre t k) = k"
  by (simp_all add: token_at_def)

lemma lexes_concat: "lexes U f pre s ts \<Longrightarrow> concat (List.map tk_text ts) = s"
  by (induction rule: lexes.induct) simp_all

lemma tokenizes_prefix: "tokenizes A t k r \<Longrightarrow> prefix r' r \<Longrightarrow> tokenizes A t k r'"
  unfolding tokenizes_def consumes_def by (blast intro: prefix_order.trans)

lemma lexes_take:
  "lexes U f pre s ts \<Longrightarrow> lexes U f pre (concat (List.map tk_text (take n ts))) (take n ts)"
proof (induction arbitrary: n rule: lexes.induct)
  case (at_end pre)
  then show ?case by (simp add: lexes.at_end)
next
  case (round t k r pre ts)
  show ?case
  proof (cases n)
    case 0
    then show ?thesis by (simp add: lexes.at_end)
  next
    case (Suc m)
    have "prefix (concat (List.map tk_text (take m ts))) (concat (List.map tk_text ts))"
      by (metis append_take_drop_id concat_append map_append prefixI)
    then have "prefix (concat (List.map tk_text (take m ts))) r"
      using lexes_concat [OF round.hyps(3)] by simp
    from lexes.round [OF round.hyps(1) tokenizes_prefix [OF round.hyps(2) this] round.IH]
    show ?thesis using Suc by simp
  qed
qed

lemma lex_all_loop_lexes:
  assumes "lexes U f pre s ts" "fits (pre @ s)"
  shows "\<exists>es. lex_all_loop U acc (cursor f pre s ds) = Some (Inr (acc @ ts), cursor f (pre @ s) [] (ds @ es))
    \<and> (\<forall>d\<in>set es. span_within f (byte_len pre) (byte_len (pre @ s)) (dg_span d))"
  using assms
proof (induction arbitrary: acc ds rule: lexes.induct)
  case (at_end pre)
  show ?case by (intro exI [of _ "[]"]) (simp add: lex_all_loop.simps)
next
  case (round t k r pre ts)
  from round.hyps(2) obtain ms where "scans [] (\<lambda>f pre. lex_token U) t (\<lambda>f pre. Some (token_at f pre t k)) ms r"
    unfolding tokenizes_def using consumes_scans by blast
  moreover have "fits (pre @ [] @ t @ r)" using round.prems by simp
  ultimately obtain es1 where 1: "lex_token U (cursor f pre (t @ r) ds)
      = (Inr (Some (token_at f pre t k)), cursor f (pre @ t) r (ds @ es1))"
    "\<forall>d\<in>set es1. span_within f (byte_len pre) (byte_len (pre @ t @ r)) (dg_span d)"
    by (rule scansE [where f = f and ds = ds]) simp
  have "fits ((pre @ t) @ r)" using round.prems by simp
  with round.IH [of "acc @ [token_at f pre t k]" "ds @ es1"] obtain es2 where
    2: "lex_all_loop U (acc @ [token_at f pre t k]) (cursor f (pre @ t) r (ds @ es1))
        = Some (Inr (acc @ token_at f pre t k # ts), cursor f (pre @ t @ r) [] (ds @ es1 @ es2))"
      "\<forall>d\<in>set es2. span_within f (byte_len (pre @ t)) (byte_len (pre @ t @ r)) (dg_span d)"
    by auto
  have "lex_all_loop U acc (cursor f pre (t @ r) ds)
      = Some (Inr (acc @ token_at f pre t k # ts), cursor f (pre @ t @ r) [] (ds @ es1 @ es2))"
    using 1(1) 2(1) round.hyps(1) by (simp add: lex_all_loop.simps [of U acc])
  with 1(2) 2(2) show ?case by (intro exI [of _ "es1 @ es2"]) (auto simp: span_within_def)
qed

lemma lexer_new_cursor: "lexer_new src f = cursor f [] src []"
  by (simp add: lexer_new_def cursor_def)

text \<open>So lexing returns, without a fault, and with exactly the tokens of the text.\<close>

lemma lex_with_trivia_lexes:
  assumes "fits src"
  obtains ts es where "lexes U f [] src ts"
    "lex_with_trivia U src f = Some (Inr \<lparr>lr_tokens = ts, lr_diags = es\<rparr>)"
    "\<forall>d\<in>set es. span_within f 0 (byte_len src) (dg_span d)"
proof -
  obtain ts where ts: "lexes U f [] src ts" using lexes_total by blast
  from lex_all_loop_lexes [OF this, of "[]" "[]"] assms obtain es where
    "lex_all_loop U [] (cursor f [] src []) = Some (Inr ts, cursor f src [] es)"
    "\<forall>d\<in>set es. span_within f 0 (byte_len src) (dg_span d)" by auto
  with ts show thesis
    by (intro that [of ts es]) (simp_all add: lex_with_trivia_def lex_all_def lexer_new_cursor)
qed

section \<open>Nothing is lost\<close>

fun tiles :: "FileId \<Rightarrow> nat \<Rightarrow> Token list \<Rightarrow> bool" where
  "tiles f n [] \<longleftrightarrow> True"
| "tiles f n (t # ts) \<longleftrightarrow>
     tk_text t \<noteq> [] \<and> sp_file (tk_span t) = f
     \<and> span_range (tk_span t) = (n, n + byte_len (tk_text t))
     \<and> tiles f (n + byte_len (tk_text t)) ts"

lemma lexes_tiles: "lexes U f pre s ts \<Longrightarrow> fits (pre @ s) \<Longrightarrow> tiles f (byte_len pre) ts"
proof (induction rule: lexes.induct)
  case (round t k r pre ts)
  have "unat (of_nat (byte_len pre) :: u32) = byte_len pre"
    "unat (of_nat (byte_len pre + byte_len t) :: u32) = byte_len pre + byte_len t"
    by (rule unat_of_nat_fits [OF round.prems], simp)+
  with round show ?case by (simp add: token_at_def span_range_def del: of_nat_add)
qed simp

text \<open>
  C38. Lexing with trivia loses nothing. For every text of less than 4 GiB it returns, never
  panics and never spins; the texts of the tokens put together are the source, no token is empty,
  and the token spans tile the source from its first byte to its last.
\<close>

theorem lex_lossless:
  assumes "byte_len src < 2 ^ 32"
  shows "\<exists>r. lex_with_trivia U src f = Some (Inr r)
    \<and> concat (List.map tk_text (lr_tokens r)) = src
    \<and> tiles f 0 (lr_tokens r)"
proof -
  have fit: "fits src" using assms by (simp add: fits_def)
  then obtain ts es where "lexes U f [] src ts"
    and "lex_with_trivia U src f = Some (Inr \<lparr>lr_tokens = ts, lr_diags = es\<rparr>)"
    by (rule lex_with_trivia_lexes)
  then show ?thesis using lexes_concat lexes_tiles [of U f "[]" src ts] fit by fastforce
qed

definition ascii_only :: unicode where
  "ascii_only = \<lparr>uni_alphabetic = (\<lambda>_. False), uni_numeric = (\<lambda>_. False)\<rparr>"

theorem lex_lossless_witness:
  "byte_len (rs ''fn f'') < 2 ^ 32 \<and>
   (\<exists>r. lex_with_trivia ascii_only (rs ''fn f'') 0 = Some (Inr r)
    \<and> concat (List.map tk_text (lr_tokens r)) = rs ''fn f'' \<and> tiles 0 0 (lr_tokens r))"
proof -
  have "byte_len (rs ''fn f'') < 2 ^ 32" by (simp add: rs_def len_utf8_def)
  then show ?thesis using lex_lossless [of "rs ''fn f''" ascii_only 0] by blast
qed

text \<open>
  C39. Lexing is stable under cutting the text at a token boundary: the texts of the first n
  tokens, lexed on their own, give exactly those n tokens, with the same kinds and spans. What
  follows a token never reaches back into it.
\<close>

theorem lex_prefix_stable:
  assumes "byte_len src < 2 ^ 32"
  shows "\<exists>r. lex_with_trivia U src f = Some (Inr r) \<and>
    (\<forall>n. map_option (map_sum id lr_tokens)
          (lex_with_trivia U (concat (List.map tk_text (take n (lr_tokens r)))) f)
        = Some (Inr (take n (lr_tokens r))))"
proof -
  have fit: "fits src" using assms by (simp add: fits_def)
  then obtain ts es where ts: "lexes U f [] src ts"
    and r: "lex_with_trivia U src f = Some (Inr \<lparr>lr_tokens = ts, lr_diags = es\<rparr>)"
    by (rule lex_with_trivia_lexes)
  have "map_option (map_sum id lr_tokens) (lex_with_trivia U (concat (List.map tk_text (take n ts))) f)
      = Some (Inr (take n ts))" for n
  proof -
    let ?s = "concat (List.map tk_text (take n ts))"
    have "src = ?s @ concat (List.map tk_text (drop n ts))"
      using lexes_concat [OF ts] by (metis append_take_drop_id concat_append map_append)
    then have "byte_len ?s \<le> byte_len src" by (metis byte_len_simps(3) le_add1)
    with fit have "fits ([] @ ?s)" by (simp add: fits_def)
    from lex_all_loop_lexes [OF lexes_take [OF ts] this, of "[]" "[]"]
    show ?thesis by (auto simp: lex_with_trivia_def lex_all_def lexer_new_cursor)
  qed
  with r show ?thesis by (intro exI [of _ "\<lparr>lr_tokens = ts, lr_diags = es\<rparr>"]) simp
qed

theorem lex_prefix_stable_witness:
  "byte_len (rs ''fn f'') < 2 ^ 32 \<and>
   (\<exists>r. lex_with_trivia ascii_only (rs ''fn f'') 0 = Some (Inr r) \<and>
    (\<forall>n. map_option (map_sum id lr_tokens)
          (lex_with_trivia ascii_only (concat (List.map tk_text (take n (lr_tokens r)))) 0)
        = Some (Inr (take n (lr_tokens r)))))"
proof -
  have "byte_len (rs ''fn f'') < 2 ^ 32" by (simp add: rs_def len_utf8_def)
  then show ?thesis using lex_prefix_stable [of "rs ''fn f''" ascii_only 0] by blast
qed

lemma tiles_lo: "tiles f n ts \<Longrightarrow> t \<in> set ts \<Longrightarrow> n \<le> unat (sp_lo (tk_span t))"
  by (induction ts arbitrary: n) (fastforce simp: span_range_def)+

lemma tiles_sorted:
  "tiles f n ts \<Longrightarrow> sorted_wrt (\<lambda>t u. sp_hi (tk_span t) \<le> sp_lo (tk_span u)) ts"
  by (induction ts arbitrary: n) (auto simp: span_range_def word_le_nat_alt dest: tiles_lo)

lemma tiles_slice:
  "tiles f (byte_len pre) ts \<Longrightarrow> t \<in> set ts \<Longrightarrow>
   slice (unat (sp_lo (tk_span t))) (unat (sp_hi (tk_span t))) (pre @ concat (List.map tk_text ts)) = Some (tk_text t)"
proof (induction ts arbitrary: pre)
  case (Cons u ts)
  show ?case
  proof (cases "t = u")
    case True
    with Cons.prems(1) show ?thesis by (simp add: span_range_def)
  next
    case False
    with Cons.prems Cons.IH [of "pre @ tk_text u"] show ?thesis by simp
  qed
qed simp

text \<open>
  The trivia-free stream still points into the source: every token it keeps has the text
  found in the source at its span, no token is trivia, and each starts at or after the end of the
  one before. Every diagnostic lies inside the source.
\<close>

theorem lex_points_into_source:
  assumes "byte_len src < 2 ^ 32"
  shows "\<exists>r. lex U src f = Some (Inr r)
    \<and> (\<forall>t\<in>set (lr_tokens r). \<not> is_trivia (tk_kind t)
          \<and> slice (unat (sp_lo (tk_span t))) (unat (sp_hi (tk_span t))) src = Some (tk_text t))
    \<and> sorted_wrt (\<lambda>t u. sp_hi (tk_span t) \<le> sp_lo (tk_span u)) (lr_tokens r)
    \<and> (\<forall>d\<in>set (lr_diags r). span_within f 0 (byte_len src) (dg_span d))"
proof -
  have fit: "fits src" using assms by (simp add: fits_def)
  then obtain ts es where ts: "lexes U f [] src ts"
    and r: "lex_with_trivia U src f = Some (Inr \<lparr>lr_tokens = ts, lr_diags = es\<rparr>)"
    and d: "\<forall>d\<in>set es. span_within f 0 (byte_len src) (dg_span d)"
    by (rule lex_with_trivia_lexes)
  have t: "tiles f 0 ts" using lexes_tiles [OF ts] fit by simp
  let ?kept = "filter (\<lambda>t. \<not> is_trivia (tk_kind t)) ts"
  have "lex U src f = Some (Inr \<lparr>lr_tokens = ?kept, lr_diags = es\<rparr>)"
    using r by (simp add: lex_def lexer_lex_def lex_with_trivia_def)
  moreover have "slice (unat (sp_lo (tk_span t))) (unat (sp_hi (tk_span t))) src = Some (tk_text t)"
    if "t \<in> set ts" for t
    using tiles_slice [of f "[]" ts t] t that lexes_concat [OF ts] by simp
  ultimately show ?thesis
    using sorted_wrt_filter [OF tiles_sorted [OF t]] d by auto
qed

theorem lex_points_into_source_witness:
  "byte_len (rs ''fn f'') < 2 ^ 32 \<and>
   (\<exists>r. lex ascii_only (rs ''fn f'') 0 = Some (Inr r)
    \<and> (\<forall>t\<in>set (lr_tokens r). \<not> is_trivia (tk_kind t)
          \<and> slice (unat (sp_lo (tk_span t))) (unat (sp_hi (tk_span t))) (rs ''fn f'') = Some (tk_text t))
    \<and> sorted_wrt (\<lambda>t u. sp_hi (tk_span t) \<le> sp_lo (tk_span u)) (lr_tokens r)
    \<and> (\<forall>d\<in>set (lr_diags r). span_within 0 0 (byte_len (rs ''fn f'')) (dg_span d)))"
proof -
  have "byte_len (rs ''fn f'') < 2 ^ 32" by (simp add: rs_def len_utf8_def)
  then show ?thesis using lex_points_into_source [of "rs ''fn f''" ascii_only 0] by blast
qed

section \<open>Past 4 GiB\<close>

lemma trivia_loop_spaces:
  "trivia_loop (cursor f a (replicate n 32) ds) = (Inr (), cursor f (a @ replicate n 32) [] ds)"
proof (induction n arbitrary: a)
  case 0
  then show ?case by (simp add: trivia_loop.simps)
next
  case (Suc n)
  from Suc [of "a @ [32]"] show ?case
    by (simp add: trivia_loop.simps [of "cursor f a _ ds"] is_space_def sx_bind_apply replicate_append_same)
qed

lemma byte_len_replicate [simp]: "byte_len (replicate n c) = n * len_utf8 c"
  by (induction n) simp_all

lemma lex_token_paren:
  "lex_token U (cursor f [] (40 # s) ds) = (Inr (Some (token_at f [] [40] (Delim LParen))), cursor f [40] s ds)"
proof -
  have "trivia_loop (cursor f [] (40 # s) ds) = (Inr (), cursor f [] (40 # s) ds)"
    by (simp add: trivia_loop.simps is_space_def)
  then show ?thesis
    by (simp add: lex_token_def lex_trivia_def sx_bind_get sx_bind_apply sx_apply lex_look_def
        lex_dispatch_def is_ascii_alphabetic_def is_ascii_digit_def single_arm_def bump_def emit_text_def
        lex_span_def span_from_def span_new_def token_at_def rs_def len_utf8_def)
qed

text \<open>
  The bound of 4 GiB is needed: positions are truncated to 32 bits in spans, and a token that
  crosses the 4 GiB mark panics. A parenthesis followed by 2^32 - 1 spaces does.
\<close>

theorem lex_panics_past_4gib:
  "lex_with_trivia U (rs ''('' @ replicate (2 ^ 32 - 1) (ch CHR '' '')) f = Some (Inl Panics)"
proof -
  define n :: nat where "n = 2 ^ 32 - 1"
  have n: "n \<noteq> 0" "Suc n = 2 ^ 32" by (simp_all add: n_def)
  have w: "(of_nat (Suc n) :: u32) = 0" unfolding n(2) by simp
  let ?c = "cursor f [40] (replicate n 32) []"
  have "lex_trivia ?c = (Inr True, cursor f (40 # replicate n 32) [] [])"
    using n by (simp add: lex_trivia_def sx_bind_get sx_bind_apply trivia_loop_spaces sx_apply len_utf8_def)
  moreover have "text_between 1 (Suc n) (cursor f (40 # replicate n 32) [] []) = Inr (replicate n 32)"
    using slice_byte_len [of "[40]" "replicate n 32" "[]"]
    by (simp add: text_between_def or_panic_def len_utf8_def)
  ultimately have "\<exists>lx. lex_token U ?c = (Inl Panics, lx)"
    using w by (simp add: lex_token_def sx_bind_get sx_bind_apply [of lex_trivia] sx_bind_apply [of "lex_look _"]
        lex_look_def emit_text_def lex_span_def span_from_def span_new_def len_utf8_def sx_bind_apply [of "\<lambda>lx. (_ lx, lx)"])
  then have "\<exists>lx. lex_all_loop U [token_at f [] [40] (Delim LParen)] ?c = Some (Inl Panics, lx)"
    using n(1) by (auto simp: lex_all_loop.simps [of U _ ?c])
  then have "\<exists>lx. lex_all_loop U [] (cursor f [] (40 # replicate n 32) []) = Some (Inl Panics, lx)"
    by (simp add: lex_all_loop.simps [of U "[]"] lex_token_paren)
  then show ?thesis
    by (auto simp: lex_with_trivia_def lex_all_def lexer_new_cursor rs_def n_def)
qed

end
