(* ===== verification/Lexer_Operators.thy ===== *)
theory Lexer_Operators
  imports Lexer_Theorems
begin

text \<open>
  Which operator a position has (longest match over a table) and which kinds the lexer makes.
\<close>

section \<open>Operators\<close>

definition operator_table :: "(rstr \<times> SyntaxKind) list" where
  "operator_table =
    [(rs ''('', Delim LParen), (rs '')'', Delim RParen), (rs ''{'', Delim LBrace), (rs ''}'', Delim RBrace),
     (rs ''['', Delim LBracket), (rs '']'', Delim RBracket), (rs '','', Punct Comma),
     (rs '';'', Punct Semicolon), (rs ''.'', Punct Dot), (rs ''..'', Punct DotDot),
     (rs ''..='', Punct DotDotEq), (rs '':'', Punct Colon), (rs ''::'', Punct ColonColon),
     (rs ''+'', Operator Plus), (rs ''+='', Operator PlusEq), (rs ''-'', Operator Minus),
     (rs ''-='', Operator MinusEq), (rs ''->'', Punct Arrow), (rs ''*'', Operator Star),
     (rs ''*='', Operator StarEq), (rs ''/'', Operator Slash), (rs ''/='', Operator SlashEq),
     (rs ''%'', Operator Percent), (rs ''%='', Operator PercentEq), (rs ''='', Operator OperatorKind.Eq),
     (rs ''=='', Operator EqEq), (rs ''=>'', Punct FatArrow), (rs ''!'', Operator Bang),
     (rs ''!='', Operator BangEq), (rs ''<'', Operator OperatorKind.Lt), (rs ''<='', Operator OperatorKind.LtEq),
     (rs ''<<'', Operator Shl), (rs ''<<='', Operator ShlEq), (rs ''>'', Operator OperatorKind.Gt),
     (rs ''>='', Operator OperatorKind.GtEq), (rs ''>>'', Operator Shr), (rs ''>>='', Operator ShrEq),
     (rs ''&'', Operator And), (rs ''&&'', Operator AndAnd), (rs ''&='', Operator AndEq),
     (rs ''|'', Operator Or), (rs ''||'', Operator OrOr), (rs ''|='', Operator OrEq),
     (rs ''^'', Operator Caret), (rs ''^='', Operator CaretEq), (rs ''@'', Punct At),
     (rs ''#'', Punct Hash), (rs ''$'', Punct Dollar), (rs ''~'', Punct Tilde), (rs ''?'', Punct Question)]"

text \<open>\<open>t\<close> is the longest entry of the table that \<open>s\<close> starts with.\<close>

definition longest_operator :: "rstr \<Rightarrow> SyntaxKind \<Rightarrow> rstr \<Rightarrow> bool" where
  "longest_operator t k s \<longleftrightarrow>
     (t, k) \<in> set operator_table \<and> prefix t s
     \<and> (\<forall>(x, k')\<in>set operator_table. prefix x s \<longrightarrow> length x \<le> length t)"

definition operator_char :: "rchar \<Rightarrow> bool" where
  "operator_char c \<longleftrightarrow> c \<in> hd ` fst ` set operator_table"

lemma operator_table_codes:
  "operator_table =
    [([40], Delim LParen),
     ([41], Delim RParen),
     ([123], Delim LBrace),
     ([125], Delim RBrace),
     ([91], Delim LBracket),
     ([93], Delim RBracket),
     ([44], Punct Comma),
     ([59], Punct Semicolon),
     ([46], Punct Dot),
     ([46, 46], Punct DotDot),
     ([46, 46, 61], Punct DotDotEq),
     ([58], Punct Colon),
     ([58, 58], Punct ColonColon),
     ([43], Operator Plus),
     ([43, 61], Operator PlusEq),
     ([45], Operator Minus),
     ([45, 61], Operator MinusEq),
     ([45, 62], Punct Arrow),
     ([42], Operator Star),
     ([42, 61], Operator StarEq),
     ([47], Operator Slash),
     ([47, 61], Operator SlashEq),
     ([37], Operator Percent),
     ([37, 61], Operator PercentEq),
     ([61], Operator OperatorKind.Eq),
     ([61, 61], Operator EqEq),
     ([61, 62], Punct FatArrow),
     ([33], Operator Bang),
     ([33, 61], Operator BangEq),
     ([60], Operator OperatorKind.Lt),
     ([60, 61], Operator OperatorKind.LtEq),
     ([60, 60], Operator Shl),
     ([60, 60, 61], Operator ShlEq),
     ([62], Operator OperatorKind.Gt),
     ([62, 61], Operator OperatorKind.GtEq),
     ([62, 62], Operator Shr),
     ([62, 62, 61], Operator ShrEq),
     ([38], Operator And),
     ([38, 38], Operator AndAnd),
     ([38, 61], Operator AndEq),
     ([124], Operator Or),
     ([124, 124], Operator OrOr),
     ([124, 61], Operator OrEq),
     ([94], Operator Caret),
     ([94, 61], Operator CaretEq),
     ([64], Punct At),
     ([35], Punct Hash),
     ([36], Punct Dollar),
     ([126], Punct Tilde),
     ([63], Punct Question)]"
  by (simp add: operator_table_def rs_def)

lemmas longest_simps = longest_operator_def operator_table_codes

text \<open>Reading with a property of what has been read, the kind and the rest.\<close>

definition reads_to ::
  "(rstr \<Rightarrow> SyntaxKind \<Rightarrow> rstr \<Rightarrow> bool) \<Rightarrow> SyntaxKind lexing \<Rightarrow> rstr \<Rightarrow> rstr \<Rightarrow> bool" where
  "reads_to Q M t0 s \<longleftrightarrow> (\<exists>t k r. s = t @ r \<and> eats M t k r \<and> Q (t0 @ t) k r)"

lemma reads_to_return: "Q t0 k s \<Longrightarrow> reads_to Q (sx_return k) t0 s"
  unfolding reads_to_def by (intro exI [of _ "[]"] exI [of _ k] exI [of _ s]) (simp add: eats_return)

lemma reads_to_bump:
  assumes "reads_to Q M (t0 @ [c]) s"
  shows "reads_to Q (bump M) t0 (c # s)"
proof -
  obtain t k r where "s = t @ r" "eats M t k r" "Q ((t0 @ [c]) @ t) k r"
    using assms unfolding reads_to_def by blast
  then show ?thesis
    unfolding reads_to_def by (intro exI [of _ "c # t"] exI [of _ k] exI [of _ r]) (simp add: eats_bump)
qed

lemma reads_to_if_peek:
  assumes "\<And>s'. s = ch c # s' \<Longrightarrow> reads_to Q M (t0 @ [ch c]) s'"
    and "nth_char 0 s \<noteq> Some (ch c) \<Longrightarrow> reads_to Q N t0 s"
  shows "reads_to Q (if_peek c (bump M) N) t0 s"
proof (cases "nth_char 0 s = Some (ch c)")
  case True
  then obtain s' where s: "s = ch c # s'" by (cases s) auto
  then obtain t k r where t: "s' = t @ r" "eats M t k r" "Q ((t0 @ [ch c]) @ t) k r"
    using assms(1) unfolding reads_to_def by blast
  have "eats (if_peek c (bump M) N) (ch c # t) k r" by (intro eats_if_peek_yes eats_bump t(2))
  with s t show ?thesis
    unfolding reads_to_def by (intro exI [of _ "ch c # t"] exI [of _ k] exI [of _ r]) simp
next
  case False
  then obtain t k r where t: "s = t @ r" "eats N t k r" "Q (t0 @ t) k r"
    using assms(2) unfolding reads_to_def by blast
  have "eats (if_peek c (bump M) N) t k r" by (rule eats_if_peek_no [OF _ t(2)]) (use False t in simp)
  with t show ?thesis unfolding reads_to_def by blast
qed

abbreviation longest :: "rstr \<Rightarrow> SyntaxKind \<Rightarrow> rstr \<Rightarrow> bool" where
  "longest t k r \<equiv> longest_operator t k (t @ r)"

lemma longestI:
  assumes "(t, k) \<in> set operator_table"
    and "\<forall>(x, k')\<in>set operator_table. length t < length x \<longrightarrow> take (length t) x = t \<longrightarrow>
      nth_char 0 r \<noteq> Some (x ! length t)"
  shows "longest t k r"
  unfolding longest_operator_def
proof (intro conjI ballI assms(1))
  fix e assume e: "e \<in> set operator_table"
  obtain x k' where x: "e = (x, k')" by (cases e)
  have "length x \<le> length t" if p: "prefix x (t @ r)"
  proof (rule ccontr)
    assume l: "\<not> length x \<le> length t"
    then obtain u where u: "x = t @ u" using p prefix_length_prefix [of t "t @ r" x] by (auto simp: prefix_def)
    with l obtain d v where d: "u = d # v" by (cases u) auto
    with p u have "nth_char 0 r = Some d" by (auto simp: prefix_def)
    with assms(2) e x u d show False by fastforce
  qed
  then show "case e of (x, k') \<Rightarrow> prefix x (t @ r) \<longrightarrow> length x \<le> length t" using x by simp
qed simp

lemma operator_reads_longest:
  "reads_to longest lex_dot [] (ch CHR ''.'' # s)" "reads_to longest lex_colon [] (ch CHR '':'' # s)"
  "reads_to longest lex_plus [] (ch CHR ''+'' # s)" "reads_to longest lex_minus [] (ch CHR ''-'' # s)"
  "reads_to longest lex_star [] (ch CHR ''*'' # s)" "reads_to longest lex_slash [] (ch CHR ''/'' # s)"
  "reads_to longest lex_eq [] (ch CHR ''='' # s)" "reads_to longest lex_bang [] (ch CHR ''!'' # s)"
  "reads_to longest lex_lt [] (ch CHR ''<'' # s)" "reads_to longest lex_gt [] (ch CHR ''>'' # s)"
  "reads_to longest lex_and [] (ch CHR ''&'' # s)" "reads_to longest lex_or [] (ch CHR ''|'' # s)"
  unfolding operator_defs
  by (intro reads_to_bump reads_to_if_peek reads_to_return longestI; simp add: operator_table_codes)+

lemma tokenizes_unique:
  assumes "tokenizes A t k r" "tokenizes A t' k' r'" "t @ r = t' @ r'" "fits (t @ r)"
  shows "t = t'" "k = k'"
proof -
  have s: "\<exists>lx. A 0 (cursor 0 [] (t @ r) []) = (Inr (Some (token_at 0 [] t k)), lx)"
    if tok: "tokenizes A t k r" and fit: "fits (t @ r)" for t k r
  proof -
    obtain ms where "scans [] (\<lambda>f pre. A (byte_len pre)) t (\<lambda>f pre. Some (token_at f pre t k)) ms r"
      using consumes_scans [OF tok [unfolded tokenizes_def] prefix_order.refl] by blast
    then show ?thesis
      by (rule scansE [where f = 0 and pre = "[]" and ds = "[]"]) (use fit in auto)
  qed
  from s [OF assms(1,4)] s [OF assms(2)] assms(3,4) have "token_at 0 [] t k = token_at 0 [] t' k'" by auto
  then show "t = t'" "k = k'" by (simp_all add: token_at_def)
qed

lemma tokenizes_reads_to:
  assumes "reads_to longest rule [] s"
  shows "\<exists>t k r. s = t @ r \<and> longest t k r \<and> tokenizes (\<lambda>start. sx_bind rule (lex_emit start)) t k r"
  using assms tokenizes_kind unfolding reads_to_def by fastforce

lemma longest_single:
  "(rs [c], k) \<in> set operator_table \<Longrightarrow> \<forall>(x, k')\<in>set operator_table. length x \<noteq> 1 \<longrightarrow> take 1 x \<noteq> rs [c] \<Longrightarrow>
   longest (rs [c]) k s"
  by (rule longestI) (auto simp: rs_def)

lemma op_char_cases:
  "operator_char c \<Longrightarrow> c \<in> {ch CHR ''('', ch CHR '')'', ch CHR ''{'', ch CHR ''}'', ch CHR ''['', ch CHR '']'',
     ch CHR '','', ch CHR '';'', ch CHR ''@'', ch CHR ''#'', ch CHR ''$'', ch CHR ''~'', ch CHR ''?''} \<or>
   c \<in> {ch CHR ''%'', ch CHR ''^''} \<or>
   c \<in> {ch CHR ''.'', ch CHR '':'', ch CHR ''+'', ch CHR ''-'', ch CHR ''*'', ch CHR ''/'', ch CHR ''='',
     ch CHR ''!'', ch CHR ''<'', ch CHR ''>'', ch CHR ''&'', ch CHR ''|''}"
  by (auto simp: operator_char_def operator_table_codes)

lemma dispatch_operator:
  assumes "operator_char c"
  shows "\<exists>t k r. c # s = t @ r \<and> longest t k r \<and> tokenizes (\<lambda>start. lex_dispatch U start c) t k r"
  using op_char_cases [OF assms]
proof (elim disjE)
  let ?goal = "\<lambda>c. \<exists>t k r. c # s = t @ r \<and> longest t k r \<and> tokenizes (\<lambda>start. lex_dispatch U start c) t k r"
  have single: "?goal (ch x)"
    if d: "\<And>start. lex_dispatch U start (ch x) = single_arm start x k" and l: "longest (rs [x]) k s" for x k
    using single_tokenizes [of x k s] l d
    by (intro exI [of _ "rs [x]"] exI [of _ k] exI [of _ s]) (simp add: rs_def)
  assume "c \<in> {ch CHR ''('', ch CHR '')'', ch CHR ''{'', ch CHR ''}'', ch CHR ''['', ch CHR '']'',
     ch CHR '','', ch CHR '';'', ch CHR ''@'', ch CHR ''#'', ch CHR ''$'', ch CHR ''~'', ch CHR ''?''}"
  then show "?goal c"
    by (elim insertE emptyE; simp only:; intro single longestI)
      (simp_all add: lex_dispatch_def is_ascii_alphabetic_def is_ascii_digit_def operator_table_codes rs_def)
next
  let ?goal = "\<lambda>c. \<exists>t k r. c # s = t @ r \<and> longest t k r \<and> tokenizes (\<lambda>start. lex_dispatch U start c) t k r"
  have equals: "?goal (ch x)"
    if d: "\<And>start. lex_dispatch U start (ch x) = with_equals x k1 k2 start"
      and l1: "\<And>r. longest (rs [x, CHR ''='']) k1 r"
      and l2: "nth_char 0 s \<noteq> Some (ch CHR ''='') \<Longrightarrow> longest (rs [x]) k2 s" for x k1 k2
  proof (cases rule: with_equals_cases [of s x k1 k2])
    case (1 u)
    then show ?thesis
      using l1 [of u] d by (intro exI [of _ "rs [x, CHR ''='']"] exI [of _ k1] exI [of _ u]) (simp add: rs_def)
  next
    case 2
    then show ?thesis
      using l2 d by (intro exI [of _ "rs [x]"] exI [of _ k2] exI [of _ s]) (simp add: rs_def)
  qed
  assume "c \<in> {ch CHR ''%'', ch CHR ''^''}"
  then show "?goal c"
    by (elim insertE emptyE; simp only:; intro equals longestI)
      (simp_all add: lex_dispatch_def is_ascii_alphabetic_def is_ascii_digit_def operator_table_codes rs_def
        with_equals_arms)
next
  let ?goal = "\<lambda>c. \<exists>t k r. c # s = t @ r \<and> longest t k r \<and> tokenizes (\<lambda>start. lex_dispatch U start c) t k r"
  have op: "?goal x" if d: "\<And>start. lex_dispatch U start x = sx_bind rule (lex_emit start)"
      and l: "reads_to longest rule [] (x # s)" for x rule
    using tokenizes_reads_to [OF l] d by simp
  assume "c \<in> {ch CHR ''.'', ch CHR '':'', ch CHR ''+'', ch CHR ''-'', ch CHR ''*'', ch CHR ''/'', ch CHR ''='',
     ch CHR ''!'', ch CHR ''<'', ch CHR ''>'', ch CHR ''&'', ch CHR ''|''}"
  then show "?goal c"
    by (elim insertE emptyE; simp only:; intro op)
      (simp_all add: lex_dispatch_def is_ascii_alphabetic_def is_ascii_digit_def
        operator_reads_longest [simplified])+
qed

lemma lexes_suffix: "lexes U f pre s (us @ t # vs) \<Longrightarrow> \<exists>pre'. lexes U f pre' (concat (List.map tk_text (t # vs))) (t # vs)"
proof (induction us arbitrary: pre s)
  case Nil
  then show ?case using lexes_concat by fastforce
next
  case (Cons u us)
  then obtain pre' s' where "lexes U f pre' s' (us @ t # vs)" by (auto elim: lexes_ConsE)
  then show ?case by (rule Cons.IH)
qed

text \<open>
  C40. Operators and punctuation are read by longest match: a token that starts with an operator
  character and is not trivia is the longest entry of the operator table that the rest of the
  source starts with, and has the kind the table gives it.
\<close>

theorem lex_operators_longest:
  assumes "byte_len src < 2 ^ 32"
  shows "\<exists>r. lex_with_trivia U src f = Some (Inr r) \<and>
    (\<forall>us t vs. lr_tokens r = us @ t # vs \<longrightarrow> operator_char (hd (tk_text t)) \<longrightarrow> \<not> is_trivia (tk_kind t) \<longrightarrow>
       longest_operator (tk_text t) (tk_kind t) (concat (List.map tk_text (t # vs))))"
proof -
  have fit: "fits src" using assms by (simp add: fits_def)
  then obtain ts es where ts: "lexes U f [] src ts"
    and r: "lex_with_trivia U src f = Some (Inr \<lparr>lr_tokens = ts, lr_diags = es\<rparr>)"
    by (rule lex_with_trivia_lexes)
  have "longest_operator (tk_text t) (tk_kind t) (concat (List.map tk_text (t # vs)))"
    if s: "ts = us @ t # vs" and c: "operator_char (hd (tk_text t))" and k: "\<not> is_trivia (tk_kind t)" for us t vs
  proof -
    let ?s = "concat (List.map tk_text (t # vs))"
    obtain pre' where "lexes U f pre' ?s (t # vs)" using lexes_suffix ts s by blast
    then obtain x k' r' where x: "?s = x @ r'" "x \<noteq> []" "tokenizes (\<lambda>_. lex_token U) x k' r'"
        "t = token_at f pre' x k'"
      by (auto elim: lexes_ConsE)
    have "byte_len ?s \<le> byte_len src" using lexes_concat [OF ts] s by auto
    with fit have f: "fits ?s" by (simp add: fits_def)
    obtain c v where v: "x = c # v" using x(2) by (cases x) auto
    show ?thesis
    proof (cases "trivia_start ?s")
      case True
      then obtain y q where y: "?s = y @ q" "y \<noteq> []" "consumes [] (\<lambda>f pre. trivia_loop) y (\<lambda>f pre. ()) q"
        using trivia_loop_split [of ?s "[]"] by blast
      have "k' = trivia_kind y"
        using tokenizes_unique(2) [OF x(3) lex_token_trivia [OF y(2,3)]] x(1) y(1) f by simp
      with k x(4) show ?thesis by (auto simp: trivia_kind_def split: if_splits)
    next
      case False
      obtain y k2 q where y: "c # v @ r' = y @ q" "longest y k2 q" "tokenizes (\<lambda>start. lex_dispatch U start c) y k2 q"
        using dispatch_operator [of c "v @ r'" U] c x(4) v by auto
      then obtain w where w: "y = c # w" by (cases y) (auto simp: longest_operator_def operator_table_codes)
      have "tokenizes (\<lambda>_. lex_token U) y k2 q"
        using lex_token_dispatch [of c w q U k2] False x(1) v y w by simp
      from tokenizes_unique [OF x(3) this] have "x = y" "k' = k2" using x(1) v y(1) f by simp_all
      with y(2) x(1,4) v y(1) show ?thesis by simp
    qed
  qed
  with r show ?thesis by (intro exI [of _ "\<lparr>lr_tokens = ts, lr_diags = es\<rparr>"]) simp
qed

theorem lex_operators_longest_witness:
  "byte_len (rs ''a<<=b'') < 2 ^ 32 \<and>
   (\<exists>r. lex_with_trivia ascii_only (rs ''a<<=b'') 0 = Some (Inr r) \<and>
    (\<forall>us t vs. lr_tokens r = us @ t # vs \<longrightarrow> operator_char (hd (tk_text t)) \<longrightarrow> \<not> is_trivia (tk_kind t) \<longrightarrow>
       longest_operator (tk_text t) (tk_kind t) (concat (List.map tk_text (t # vs)))))"
proof -
  have "byte_len (rs ''a<<=b'') < 2 ^ 32" by (simp add: rs_def len_utf8_def)
  then show ?thesis using lex_operators_longest [of "rs ''a<<=b''" ascii_only 0] by blast
qed

section \<open>Kinds\<close>

text \<open>What a computation can return.\<close>

definition yields :: "('a \<Rightarrow> bool) \<Rightarrow> 'a lexing \<Rightarrow> bool" where
  "yields P m \<longleftrightarrow> (\<forall>lx x lx'. m lx = (Inr x, lx') \<longrightarrow> P x)"

lemma yieldsD: "yields P m \<Longrightarrow> m lx = (Inr x, lx') \<Longrightarrow> P x"
  by (auto simp: yields_def)

lemma yields_bind: "yields Q m \<Longrightarrow> (\<And>x. Q x \<Longrightarrow> yields P (f x)) \<Longrightarrow> yields P (sx_bind m f)"
  by (fastforce simp: yields_def elim: sx_bind_InrE)

lemma yields_bind_any: "(\<And>x. yields P (f x)) \<Longrightarrow> yields P (sx_bind m f)"
  by (rule yields_bind [where Q = "\<lambda>_. True"]) (simp_all add: yields_def)

lemma yields_return: "P x \<Longrightarrow> yields P (sx_return x)"
  by (simp add: yields_def sx_apply)

lemma yields_bump: "yields P m \<Longrightarrow> yields P (bump m)"
  unfolding bump_def by (rule yields_bind_any)

lemma yields_if_peek: "yields P m \<Longrightarrow> yields P n \<Longrightarrow> yields P (if_peek c m n)"
  unfolding if_peek_def by (rule yields_bind_any) simp

definition plain_kind :: "SyntaxKind \<Rightarrow> bool" where
  "plain_kind k \<longleftrightarrow> \<not> is_trivia k \<and> k \<noteq> Literal BoolLit"

definition fair_token :: "Token option \<Rightarrow> bool" where
  "fair_token res \<longleftrightarrow> (\<forall>t. res = Some t \<longrightarrow>
     plain_kind (tk_kind t)
     \<or> tk_kind t = trivia_kind (tk_text t))"

lemma yields_emit_text: "plain_kind k \<or> k = trivia_kind text \<Longrightarrow> yields fair_token (emit_text start k text)"
  unfolding emit_text_def by (intro yields_bind_any yields_return) (simp add: fair_token_def)

lemma yields_emit: "plain_kind k \<Longrightarrow> yields fair_token (lex_emit start k)"
  unfolding lex_emit_def by (intro yields_bind_any yields_emit_text) simp

lemma plain_number: "yields plain_kind (lex_number U)"
  unfolding lex_number_def lex_hex_def lex_bin_def lex_oct_def lex_decimal_def
  by (intro yields_bind_any)
    (auto intro!: yields_bind_any yields_return split: option.split simp: plain_kind_def number_kind_def)

lemma plain_operators:
  "yields plain_kind lex_dot" "yields plain_kind lex_colon" "yields plain_kind lex_plus"
  "yields plain_kind lex_minus" "yields plain_kind lex_star" "yields plain_kind lex_slash"
  "yields plain_kind lex_eq" "yields plain_kind lex_bang" "yields plain_kind lex_lt"
  "yields plain_kind lex_gt" "yields plain_kind lex_and" "yields plain_kind lex_or"
  unfolding operator_defs
  by (intro yields_bump yields_if_peek yields_return; simp add: plain_kind_def)+

lemma plain_keyword: "plain_kind (lookup_keyword w)"
proof -
  have "plain_kind k" if "(x, k) \<in> set keyword_table" for x k
    using that by (auto simp: keyword_table_def plain_kind_def)
  then show ?thesis
    by (auto simp: lookup_keyword_def plain_kind_def split: option.split dest: map_of_SomeD)
qed

lemma yields_if: "yields P m \<Longrightarrow> yields P n \<Longrightarrow> yields P (if b then m else n)"
  by simp

lemma fair_dispatch: "yields fair_token (lex_dispatch U start c)"
proof -
  have plain: "plain_kind (Delim d)" "plain_kind (Punct p)" "plain_kind (Operator q)" "plain_kind Error"
    "plain_kind (Keyword w)" "l \<noteq> BoolLit \<Longrightarrow> plain_kind (Literal l)" for d p q w l
    by (auto simp: plain_kind_def)
  have "yields fair_token (word_arm U start)" "yields fair_token (quote_arm U start)"
    "yields fair_token (unknown_arm start c)" "yields fair_token (percent_arm start)"
    "yields fair_token (caret_arm start)"
    "plain_kind k \<Longrightarrow> yields fair_token (single_arm start x k)" for x k
    unfolding word_arm_def quote_arm_def unknown_arm_def percent_arm_def caret_arm_def single_arm_def
    by (auto intro!: yields_bind_any yields_emit yields_emit_text yields_bump yields_if_peek yields_if
        simp: plain plain_keyword split: prod.split)
  moreover have "yields fair_token (sx_bind m (lex_emit start))" if "yields plain_kind m" for m
    using that by (rule yields_bind) (rule yields_emit)
  ultimately show ?thesis
    unfolding lex_dispatch_def
    by (intro yields_if) (simp_all add: plain_number plain_operators plain yields_bind_any yields_emit)
qed

lemma fair_lex_token: "yields fair_token (lex_token U)"
  unfolding lex_token_def
  by (auto intro!: yields_bind_any yields_emit_text yields_return fair_dispatch simp: fair_token_def
      split: option.split)

lemma lexes_fair: "lexes U f pre s ts \<Longrightarrow> fits (pre @ s) \<Longrightarrow> t \<in> set ts \<Longrightarrow> fair_token (Some t)"
proof (induction rule: lexes.induct)
  case (round x k r pre ts)
  obtain ms where "scans [] (\<lambda>f pre. lex_token U) x (\<lambda>f pre. Some (token_at f pre x k)) ms r"
    using consumes_scans [OF round.hyps(2) [unfolded tokenizes_def] prefix_order.refl] by blast
  then have "fair_token (Some (token_at f pre x k))"
    by (rule scansE [where f = f and pre = pre and ds = "[]"])
      (use round.prems in \<open>auto intro: yieldsD [OF fair_lex_token]\<close>)
  with round show ?case by auto
qed simp

text \<open>
  Which kinds come out: no token is a doc comment or a Boolean literal, and a trivia token
  is classified by its first two characters alone.
\<close>

theorem lex_kinds:
  assumes "byte_len src < 2 ^ 32"
  shows "\<exists>r. lex_with_trivia U src f = Some (Inr r) \<and>
    (\<forall>t\<in>set (lr_tokens r). tk_kind t \<noteq> Trivia DocComment \<and> tk_kind t \<noteq> Literal BoolLit
       \<and> (is_trivia (tk_kind t) \<longrightarrow> tk_kind t = trivia_kind (tk_text t)))"
proof -
  have fit: "fits src" using assms by (simp add: fits_def)
  then obtain ts es where "lexes U f [] src ts"
    and r: "lex_with_trivia U src f = Some (Inr \<lparr>lr_tokens = ts, lr_diags = es\<rparr>)"
    by (rule lex_with_trivia_lexes)
  then have fair: "fair_token (Some t)" if "t \<in> set ts" for t
    using lexes_fair [of U f "[]" src ts t] fit that by simp
  have "tk_kind t \<noteq> Trivia DocComment \<and> tk_kind t \<noteq> Literal BoolLit
      \<and> (is_trivia (tk_kind t) \<longrightarrow> tk_kind t = trivia_kind (tk_text t))" if "t \<in> set ts" for t
  proof -
    have "trivia_kind (tk_text t) \<noteq> Trivia DocComment" "trivia_kind (tk_text t) \<noteq> Literal BoolLit"
      by (simp_all add: trivia_kind_def)
    moreover have "(\<not> is_trivia (tk_kind t) \<and> tk_kind t \<noteq> Literal BoolLit) \<or> tk_kind t = trivia_kind (tk_text t)"
      using fair [OF that] by (simp add: fair_token_def plain_kind_def)
    ultimately show ?thesis by (metis is_trivia.simps(1))
  qed
  with r show ?thesis by (intro exI [of _ "\<lparr>lr_tokens = ts, lr_diags = es\<rparr>"]) simp
qed

theorem lex_kinds_witness:
  "byte_len (rs ''/// d'') < 2 ^ 32 \<and>
   (\<exists>r. lex_with_trivia ascii_only (rs ''/// d'') 0 = Some (Inr r) \<and>
    (\<forall>t\<in>set (lr_tokens r). tk_kind t \<noteq> Trivia DocComment \<and> tk_kind t \<noteq> Literal BoolLit
       \<and> (is_trivia (tk_kind t) \<longrightarrow> tk_kind t = trivia_kind (tk_text t))))"
proof -
  have "byte_len (rs ''/// d'') < 2 ^ 32" by (simp add: rs_def len_utf8_def)
  then show ?thesis using lex_kinds [of "rs ''/// d''" ascii_only 0] by blast
qed

lemma all_trivia:
  assumes "t \<noteq> []" "consumes [] (\<lambda>f pre. trivia_loop) t (\<lambda>f pre. ()) []" "fits t"
  shows "map_option (map_sum id lr_tokens) (lex_with_trivia U t f) = Some (Inr [token_at f [] t (trivia_kind t)])"
proof -
  obtain ts es where ts: "lexes U f [] t ts"
    and r: "lex_with_trivia U t f = Some (Inr \<lparr>lr_tokens = ts, lr_diags = es\<rparr>)"
    using assms(3) by (rule lex_with_trivia_lexes)
  obtain x k q us where x: "t = x @ q" "tokenizes (\<lambda>_. lex_token U) x k q"
      "ts = token_at f [] x k # us" "lexes U f x q us"
    using ts assms(1) by cases auto
  have "x = t" "k = trivia_kind t"
    using tokenizes_unique [OF x(2) lex_token_trivia [OF assms(1,2)]] x(1) assms(3) by simp_all
  with x r show ?thesis by (auto elim: lexes_NilE)
qed

text \<open>
  A comment that follows white space is not a comment token: the run is read as one, and
  since it starts with a space it is one white-space token.
\<close>

theorem comment_after_space_is_whitespace:
  "map_option (map_sum id (\<lambda>r. List.map (\<lambda>t. (tk_kind t, tk_text t)) (lr_tokens r)))
     (lex_with_trivia U (rs '' // c'') f)
   = Some (Inr [(Trivia Whitespace, rs '' // c'')])"
proof -
  have "consumes [32] (\<lambda>f pre. line_comment) [47, 47, 32, 99] (\<lambda>f pre. ()) ([] @ [])"
    using consumes_line_comment [of "[32, 99]" "[]" "[32]"] by simp
  moreover have "consumes [32, 47, 47, 32, 99] (\<lambda>f pre. trivia_loop) [] (\<lambda>f pre. ()) []"
    by (rule consumes_trivia_stop) (simp add: trivia_start_def)
  ultimately have "consumes [32] (\<lambda>f pre. trivia_loop) [47, 47, 32, 99] (\<lambda>f pre. ()) []"
    using consumes_trivia_step(2) [of "[32]" "[32, 99]" "[]" "[]"] by simp
  then have "consumes [] (\<lambda>f pre. trivia_loop) [32, 47, 47, 32, 99] (\<lambda>f pre. ()) []"
    using consumes_trivia_step(1) [of 32 "[]" "[47, 47, 32, 99]" "[]"] by (simp add: is_space_def)
  from all_trivia [OF _ this, of U f] show ?thesis
    by (auto simp: rs_def fits_def len_utf8_def trivia_kind_def map_option_case map_sum_def
        split: option.splits sum.splits)
qed

end
