(* ===== verification/Mir_Types.thy ===== *)
theory Mir_Types
  imports Span_Hygiene
begin

text \<open>
  The data the compiler's middle end works on: type handles and kinds
  (\<open>crates/glyim-type/src\<close>: \<open>ty.rs\<close>, \<open>region.rs\<close>, \<open>substitution.rs\<close>,
  \<open>const_val.rs\<close>, \<open>predicate.rs\<close>, \<open>binder.rs\<close>, \<open>fn_sig.rs\<close>, \<open>adt_def.rs\<close>) and
  the MIR control-flow graph (\<open>crates/glyim-mir/src/lib.rs\<close>).

  A \<open>Ty\<close> is its interned \<open>u32\<close> handle.  The type context is read through the
  trait \<open>TypeLookup\<close> (\<open>display.rs\<close>), here a record of its methods.  A \<open>char\<close> is its
  scalar value.
\<close>

section \<open>Types\<close>

type_synonym Ty = u32
type_synonym AdtId = u32
type_synonym FnDefId = u32
type_synonym ClosureId = u32
type_synonym TraitDefId = u32
type_synonym OpaqueTyId = u32
type_synonym ConstDefId = u32
type_synonym StaticDefId = u32
type_synonym FieldIdx = u32
type_synonym rchar = u32

definition Ty_ERROR :: Ty where "Ty_ERROR = 0"
definition Ty_NEVER :: Ty where "Ty_NEVER = 1"
definition Ty_UNIT :: Ty where "Ty_UNIT = 2"
definition Ty_BOOL :: Ty where "Ty_BOOL = 3"
definition Ty_U8 :: Ty where "Ty_U8 = 4"
definition Ty_U64 :: Ty where "Ty_U64 = 7"
definition Ty_USIZE :: Ty where "Ty_USIZE = 8"
definition Ty_I32 :: Ty where "Ty_I32 = 11"
definition Ty_I64 :: Ty where "Ty_I64 = 12"

record Substitution =
  sub_index :: u32
  sub_len :: u16

definition Substitution_empty :: Substitution where
  "Substitution_empty = \<lparr>sub_index = 0, sub_len = 0\<rparr>"

definition sub_is_empty :: "Substitution \<Rightarrow> bool" where
  "sub_is_empty s \<longleftrightarrow> sub_len s = 0"

datatype BoundRegionKind = BrAnon u32 | BrNamed Name | BrEnv

record PlaceholderRegion =
  pr_universe :: u32
  pr_bound :: BoundRegionKind
  pr_index :: u32

record EarlyBoundRegion =
  ebr_index :: u32
  ebr_name :: Name

type_synonym DebruijnIndex = u32

datatype Region = Static | EarlyBound EarlyBoundRegion | LateBound DebruijnIndex u32 BoundRegionKind
  | Var u32 | Placeholder PlaceholderRegion | Erased | RegionError

definition shifted_in :: "DebruijnIndex \<Rightarrow> panicked + DebruijnIndex" where
  "shifted_in d = checked_inc d"

definition shifted_out :: "DebruijnIndex \<Rightarrow> DebruijnIndex option" where
  "shifted_out d = (if 0 < d then Some (d - 1) else None)"

record ParamConst =
  pc_index :: u32
  pc_name :: Name

datatype ConstKind = Int i128 | Uint u128 | FloatBits u64 | Bool bool | Char rchar | String Name
  | Unit | Infer u32 | Param ParamConst | Error

record Const =
  const_kind :: ConstKind
  const_ty :: Ty

datatype GenericArg = Ty Ty | Lifetime Region | Const Const

record TraitRef =
  tr_def_id :: TraitDefId
  tr_substs :: Substitution

datatype ImplPolarity = Positive | Negative

datatype Predicate = TraitPred TraitRef ImplPolarity | RegionOutlives Region Region
  | TypeOutlives Ty Region | WellFormed Ty | Coerce Ty Ty

datatype BoundTyKind = Anon | ParamBound Name

record BoundTy =
  bt_var :: u32
  bt_kind :: BoundTyKind

datatype BoundVariableKind = BvTy BoundTyKind | BvRegion BoundRegionKind | BvConst

record 'a Binder =
  binder_value :: 'a
  binder_bound_vars :: "BoundVariableKind list"

record FnSig =
  fs_inputs :: Substitution
  fs_output :: Ty
  fs_c_variadic :: bool
  fs_unsafety :: Safety
  fs_abi :: Abi

record ParamTy =
  pt_index :: u32
  pt_name :: Name

datatype InferVar = InferTy u32 | InferInt u32 | InferFloat u32

record ProjectionTy =
  pj_trait_ref :: TraitRef
  pj_item_name :: Name

datatype TyKind = Never | Unit | Bool | Int IntTy | Uint UintTy | Float FloatTy | Char | String
  | Infer InferVar | Adt AdtId Substitution | FnDef FnDefId Substitution
  | Closure ClosureId Substitution | FnPtr FnSig | Ref Region Ty Mutability
  | RawPtr Ty Mutability | Slice Ty | Array Ty Const | Tuple Substitution
  | Dynamic "Predicate list Binder" Region | Opaque OpaqueTyId Substitution
  | Projection ProjectionTy | Param ParamTy | Bound u32 BoundTy | Error

subsection \<open>Algebraic data type definitions\<close>

datatype VariantStyle = VsUnit | VsTuple | VsStruct

datatype AdtKind = Struct | Enum | Union

record FieldDef =
  fd_name :: Name
  fd_ty :: Ty

record VariantDef =
  vd_name :: Name
  vd_fields :: "FieldDef IndexVec"
  vd_style :: VariantStyle

record AdtDef =
  ad_kind :: AdtKind
  ad_fields :: "FieldDef IndexVec"
  ad_variants :: "VariantDef list"
  ad_generic_params :: "Name list"

subsection \<open>The type-lookup interface\<close>

record TypeLookup =
  tl_ty_kind :: "Ty \<Rightarrow> TyKind"
  tl_substitution_args :: "Substitution \<Rightarrow> GenericArg list"
  tl_error_ty :: Ty
  tl_adt_def :: "AdtId \<Rightarrow> AdtDef option"
  tl_intern_ty :: "TyKind \<Rightarrow> Ty"
  tl_subst_ty_in :: "Ty \<Rightarrow> Substitution \<Rightarrow> Ty"

definition slice_get :: "'a list \<Rightarrow> nat \<Rightarrow> 'a option" where
  "slice_get xs i = (if i < length xs then Some (xs ! i) else None)"

definition field_ty :: "TypeLookup \<Rightarrow> AdtId \<Rightarrow> nat \<Rightarrow> Ty" where
  "field_ty ctx adt i =
     (case tl_adt_def ctx adt of
        None \<Rightarrow> tl_error_ty ctx
      | Some def \<Rightarrow> (case slice_get (ad_fields def) i of
                      None \<Rightarrow> tl_error_ty ctx | Some f \<Rightarrow> fd_ty f))"

text \<open>The trait's default bodies of \<open>intern_ty\<close> and \<open>subst_ty_in\<close>.\<close>

definition default_intern_ty :: "TypeLookup \<Rightarrow> TyKind \<Rightarrow> Ty" where
  "default_intern_ty ctx k = tl_error_ty ctx"

definition default_subst_ty_in :: "TypeLookup \<Rightarrow> Ty \<Rightarrow> Substitution \<Rightarrow> Ty" where
  "default_subst_ty_in ctx ty subst =
     (case tl_ty_kind ctx ty of
        TyKind.Param p \<Rightarrow>
          (case slice_get (tl_substitution_args ctx subst) (unat (pt_index p)) of
             Some (GenericArg.Ty t) \<Rightarrow> t
           | _ \<Rightarrow> ty)
      | _ \<Rightarrow> ty)"

section \<open>MIR\<close>

type_synonym BasicBlockIdx = u32
type_synonym LocalIdx = u32
type_synonym VariantIdx = u32

datatype ProjectionElem = Deref | Field FieldIdx | Index LocalIdx | Downcast VariantIdx
  | ConstantIndex (ci_offset: u64) (ci_min_length: u64) (ci_from_end: bool)
  | Subslice (ss_from: u64) (ss_to: u64) (ss_from_end: bool)

record Place =
  pl_local :: LocalIdx
  pl_projection :: "ProjectionElem list"

definition Place_new :: "LocalIdx \<Rightarrow> Place" where
  "Place_new l = \<lparr>pl_local = l, pl_projection = []\<rparr>"

datatype BorrowKind = Shared | Unique | MutBorrow (allow_two_phase_borrow: bool)

datatype CastKind = IntToInt | FloatToInt | IntToFloat | FloatToFloat | PtrToPtr | FnPtrToPtr
  | PtrToInt | IntToPtr

datatype MirConst = MirConst (mc_kind: MirConstKind) (mc_ty: Ty) (mc_span: Span)
  and MirConstKind = Int i128 | Uint u128 | FloatBits u64 | Bool bool | Char rchar | String Name
  | Unit | Fn FnDefId Substitution | ConstRef ConstDefId Substitution
  | StaticRef (sr_def_id: StaticDefId) (sr_init: MirConst) (sr_is_mut: bool)
  | VirtualMethod (vm_trait: TraitDefId) (vm_name: Name) (vm_self_ty: "Ty option")
  | Aggregate "MirConst list"
  | Variant (vc_adt_id: AdtId) (vc_variant_idx: VariantIdx) (vc_fields: "MirConst list")
  | SizeOf Ty | Error

datatype Operand = Copy Place | Move Place | Constant MirConst

datatype AggregateKind = Array Ty | Tuple | Adt AdtId VariantIdx Substitution
  | Closure ClosureId Substitution

datatype Rvalue = Use Operand | Ref Place BorrowKind | BinaryOp BinOp Operand Operand
  | UnaryOp UnOp Operand | Aggregate AggregateKind "Operand list" | Discriminant Place
  | Len Place | Cast CastKind Operand Ty | Repeat Operand MirConst

record SourceInfo =
  si_span :: Span

datatype StatementKind = Assign Place Rvalue | StorageLive LocalIdx | StorageDead LocalIdx | Nop

record Statement =
  st_kind :: StatementKind
  st_source_info :: SourceInfo

record SwitchTargets =
  sw_branches :: "(u128 \<times> BasicBlockIdx) list"
  sw_otherwise :: BasicBlockIdx

definition SwitchTargets_new :: "(u128 \<times> BasicBlockIdx) list \<Rightarrow> BasicBlockIdx \<Rightarrow> SwitchTargets" where
  "SwitchTargets_new bs o' = \<lparr>sw_branches = bs, sw_otherwise = o'\<rparr>"

definition if_switch :: "BasicBlockIdx \<Rightarrow> BasicBlockIdx \<Rightarrow> SwitchTargets" where
  "if_switch then_bb else_bb = \<lparr>sw_branches = [(1, then_bb)], sw_otherwise = else_bb\<rparr>"

datatype AssertMessage = Overflow BinOp | DivisionByZero | RemainderByZero | BoundsCheck

datatype TerminatorKind =
    Goto (t_target: BasicBlockIdx)
  | SwitchInt (t_discr: Operand) (t_switch_ty: Ty) (t_targets: SwitchTargets)
  | Return
  | Unreachable
  | Call (t_func: Operand) (t_args: "Operand list") (t_destination: Place)
      (t_call_target: "BasicBlockIdx option") (t_call_cleanup: "BasicBlockIdx option")
  | Assert (t_cond: Operand) (t_expected: bool) (t_assert_target: BasicBlockIdx)
      (t_assert_cleanup: "BasicBlockIdx option") (t_msg: AssertMessage)
  | Drop (t_place: Place) (t_drop_target: BasicBlockIdx) (t_drop_cleanup: "BasicBlockIdx option")

record Terminator =
  te_kind :: TerminatorKind
  te_source_info :: SourceInfo

record BasicBlockData =
  bb_statements :: "Statement list"
  bb_terminator :: Terminator
  bb_is_cleanup :: bool

definition BasicBlockData_new :: "Terminator \<Rightarrow> BasicBlockData" where
  "BasicBlockData_new t = \<lparr>bb_statements = [], bb_terminator = t, bb_is_cleanup = False\<rparr>"

record LocalDecl =
  ld_ty :: Ty
  ld_mutability :: Mutability
  ld_source_info :: SourceInfo

datatype VarDebugInfoValue = DebugPlace Place | DebugConst MirConst

record VarDebugInfo =
  vdi_name :: Name
  vdi_value :: VarDebugInfoValue

record Body =
  b_owner :: DefId
  b_blocks :: "BasicBlockData IndexVec"
  b_locals :: "LocalDecl IndexVec"
  b_arg_count :: nat
  b_return_ty :: Ty
  b_span :: Span
  b_var_debug_info :: "VarDebugInfo list"

definition SourceInfo_new :: "Span \<Rightarrow> SourceInfo" where
  "SourceInfo_new s = \<lparr>si_span = s\<rparr>"

definition Body_dummy :: "DefId \<Rightarrow> Body" where
  "Body_dummy owner =
     \<lparr>b_owner = owner,
      b_blocks = snd (iv_push (BasicBlockData_new
        \<lparr>te_kind = TerminatorKind.Unreachable, te_source_info = SourceInfo_new Span_DUMMY\<rparr>) iv_new),
      b_locals = snd (iv_push
        \<lparr>ld_ty = Ty_UNIT, ld_mutability = Mutability.Not, ld_source_info = SourceInfo_new Span_DUMMY\<rparr>
        iv_new),
      b_arg_count = 0, b_return_ty = Ty_UNIT, b_span = Span_DUMMY, b_var_debug_info = []\<rparr>"

definition body_args :: "Body \<Rightarrow> panicked + LocalDecl list" where
  "body_args b =
     (if 1 + b_arg_count b \<le> length (b_locals b)
      then Inr (take (b_arg_count b) (drop 1 (b_locals b))) else Inl Panicked)"

definition return_place :: Place where
  "return_place = Place_new 0"

section \<open>The type of a place\<close>

text \<open>\<open>Place::ty\<close> walks the projection, carrying the current type and the variant the last
  \<open>Downcast\<close> selected.\<close>

definition first_ty_arg :: "TypeLookup \<Rightarrow> Substitution \<Rightarrow> Ty option" where
  "first_ty_arg ctx substs =
     (case slice_get (tl_substitution_args ctx substs) 0 of Some (GenericArg.Ty t) \<Rightarrow> Some t | _ \<Rightarrow> None)"

definition deref_ty :: "TypeLookup \<Rightarrow> Ty \<Rightarrow> Ty" where
  "deref_ty ctx ty =
     (case tl_ty_kind ctx ty of
        TyKind.Ref _ inner _ \<Rightarrow> inner
      | TyKind.RawPtr inner _ \<Rightarrow> inner
      | TyKind.Adt adt substs \<Rightarrow>
          if adt = 1020 then
            (case first_ty_arg ctx substs of
               Some t \<Rightarrow> tl_intern_ty ctx (TyKind.Slice t) | None \<Rightarrow> tl_error_ty ctx)
          else tl_error_ty ctx
      | _ \<Rightarrow> tl_error_ty ctx)"

definition find_variant :: "AdtDef \<Rightarrow> VariantIdx option \<Rightarrow> nat \<Rightarrow> VariantDef option" where
  "find_variant def downcast i =
     (case (case downcast of Some vi \<Rightarrow> slice_get (ad_variants def) (unat vi) | None \<Rightarrow> None) of
        Some v \<Rightarrow> Some v
      | None \<Rightarrow> (case List.find (\<lambda>v. i < length (vd_fields v)) (ad_variants def) of
                  Some v \<Rightarrow> Some v
                | None \<Rightarrow> slice_get (ad_variants def) 0))"

definition adt_field_ty :: "TypeLookup \<Rightarrow> AdtId \<Rightarrow> VariantIdx option \<Rightarrow> nat \<Rightarrow> Ty" where
  "adt_field_ty ctx adt downcast i =
     (case tl_adt_def ctx adt of
        None \<Rightarrow> field_ty ctx adt i
      | Some def \<Rightarrow>
          (case slice_get (ad_fields def) i of
             Some f \<Rightarrow> fd_ty f
           | None \<Rightarrow>
               (case find_variant def downcast i of
                  None \<Rightarrow> field_ty ctx adt i
                | Some v \<Rightarrow> (case slice_get (vd_fields v) i of
                              Some f \<Rightarrow> fd_ty f | None \<Rightarrow> field_ty ctx adt i))))"

definition project_field_ty :: "TypeLookup \<Rightarrow> VariantIdx option \<Rightarrow> FieldIdx \<Rightarrow> Ty \<Rightarrow> Ty" where
  "project_field_ty ctx downcast idx ty =
     (case tl_ty_kind ctx ty of
        TyKind.Slice _ \<Rightarrow> Ty_USIZE
      | TyKind.String \<Rightarrow> Ty_USIZE
      | TyKind.Closure _ substs \<Rightarrow>
          if idx = 0 then Ty_USIZE
          else (case slice_get (tl_substitution_args ctx substs) (unat (idx - 1)) of
                  Some (GenericArg.Ty t) \<Rightarrow> t | _ \<Rightarrow> tl_error_ty ctx)
      | TyKind.Tuple substs \<Rightarrow>
          (case slice_get (tl_substitution_args ctx substs) (unat idx) of
             Some (GenericArg.Ty t) \<Rightarrow> t | _ \<Rightarrow> tl_error_ty ctx)
      | TyKind.Adt adt substs \<Rightarrow>
          tl_subst_ty_in ctx (adt_field_ty ctx adt downcast (unat idx)) substs
      | _ \<Rightarrow> tl_error_ty ctx)"

definition project_index_ty :: "TypeLookup \<Rightarrow> Ty \<Rightarrow> Ty" where
  "project_index_ty ctx ty =
     (case tl_ty_kind ctx ty of
        TyKind.Array inner _ \<Rightarrow> inner
      | TyKind.Slice inner \<Rightarrow> inner
      | TyKind.String \<Rightarrow> Ty_U8
      | TyKind.Adt adt substs \<Rightarrow>
          if adt = 1020 then (case first_ty_arg ctx substs of Some t \<Rightarrow> t | None \<Rightarrow> Ty_ERROR)
          else tl_error_ty ctx
      | _ \<Rightarrow> tl_error_ty ctx)"

definition project_const_index_ty :: "TypeLookup \<Rightarrow> Ty \<Rightarrow> Ty" where
  "project_const_index_ty ctx ty =
     (case tl_ty_kind ctx ty of
        TyKind.Array inner _ \<Rightarrow> inner
      | TyKind.Slice inner \<Rightarrow> inner
      | TyKind.String \<Rightarrow> Ty_U8
      | _ \<Rightarrow> tl_error_ty ctx)"

definition project_subslice_ty :: "TypeLookup \<Rightarrow> Ty \<Rightarrow> Ty" where
  "project_subslice_ty ctx ty =
     (case tl_ty_kind ctx ty of
        TyKind.Slice _ \<Rightarrow> ty
      | TyKind.Array inner _ \<Rightarrow> inner
      | _ \<Rightarrow> tl_error_ty ctx)"

fun place_ty_step ::
    "TypeLookup \<Rightarrow> Ty \<times> VariantIdx option \<Rightarrow> ProjectionElem \<Rightarrow> Ty \<times> VariantIdx option" where
  "place_ty_step ctx (ty, d) ProjectionElem.Deref = (deref_ty ctx ty, d)"
| "place_ty_step ctx (ty, d) (Field i) = (project_field_ty ctx d i ty, d)"
| "place_ty_step ctx (ty, d) (Index _) = (project_index_ty ctx ty, d)"
| "place_ty_step ctx (ty, d) (Downcast v) = (ty, Some v)"
| "place_ty_step ctx (ty, d) (ConstantIndex _ _ _) = (project_const_index_ty ctx ty, d)"
| "place_ty_step ctx (ty, d) (Subslice _ _ _) = (project_subslice_ty ctx ty, d)"

definition place_ty :: "TypeLookup \<Rightarrow> Place \<Rightarrow> LocalDecl IndexVec \<Rightarrow> panicked + Ty" where
  "place_ty ctx p locals =
     (case iv_index locals (pl_local p) of
        Inl e \<Rightarrow> Inl e
      | Inr ld \<Rightarrow> Inr (fst (foldl (place_ty_step ctx) (ld_ty ld, None) (pl_projection p))))"

lemma place_ty_new:
  "idx_index l < length locals \<Longrightarrow> place_ty ctx (Place_new l) locals = Inr (ld_ty (locals ! idx_index l))"
  by (simp add: place_ty_def Place_new_def iv_index_def)

lemma place_ty_panics_iff:
  "place_ty ctx p locals = Inl Panicked \<longleftrightarrow> \<not> idx_index (pl_local p) < length locals"
  by (simp add: place_ty_def iv_index_def)

lemma place_ty_extend:
  assumes "place_ty ctx \<lparr>pl_local = l, pl_projection = ps\<rparr> locals = Inr t"
    and "\<forall>v. ProjectionElem.Downcast v \<notin> set ps"
  shows "place_ty ctx \<lparr>pl_local = l, pl_projection = ps @ [e]\<rparr> locals
    = Inr (fst (place_ty_step ctx (t, None) e))"
proof -
  have d: "snd (foldl (place_ty_step ctx) (t0, None) ps) = None"
    if "\<forall>v. ProjectionElem.Downcast v \<notin> set ps" for t0
    using that
  proof (induction ps rule: rev_induct)
    case Nil
    then show ?case by simp
  next
    case (snoc q qs)
    obtain a b where r: "foldl (place_ty_step ctx) (t0, None) qs = (a, b)" by fastforce
    with snoc have "b = None" by auto
    with snoc.prems r show ?case by (cases q) auto
  qed
  show ?thesis
  proof (cases "iv_index locals l")
    case (Inl e')
    with assms show ?thesis by (simp add: place_ty_def)
  next
    case (Inr ld)
    obtain a b where r: "foldl (place_ty_step ctx) (ld_ty ld, None) ps = (a, b)" by fastforce
    with d [OF assms(2), of "ld_ty ld"] have "b = None" by simp
    with r assms(1) Inr show ?thesis by (simp add: place_ty_def)
  qed
qed

end
