(* ===== verification/Type_Arena.thy ===== *)
theory Type_Arena
  imports Mir_Types
begin

text \<open>
  The canonical type interner (\<open>crates/glyim-type/src/type_arena.rs\<close>), the type flags
  (\<open>flags.rs\<close>) and the frozen type context's interning operations (\<open>ty_ctx.rs\<close>).

  A \<open>Ty\<close> is an index into the arena's table of kinds; a \<open>Substitution\<close> is an index into its
  table of argument lists together with the list's length, kept as a \<open>u16\<close>.  Reads index the
  tables and panic on a foreign handle.  The locks and raw pointers of the Rust code serialise
  the same sequential operations (its documented single-threaded use), so the arena is one value.
\<close>

section \<open>The arena\<close>

record TypeArena =
  ta_types :: "TyKind list"
  ta_type_flags :: "u32 list"
  ta_substitution_data :: "GenericArg list list"
  ta_type_index :: "TyKind \<rightharpoonup> Ty"
  ta_subst_index :: "GenericArg list \<rightharpoonup> Substitution"

definition ta_new :: TypeArena where
  "ta_new = \<lparr>ta_types = [], ta_type_flags = [], ta_substitution_data = [],
     ta_type_index = Map.empty, ta_subst_index = Map.empty\<rparr>"

definition alloc_ty :: "TyKind \<Rightarrow> u32 \<Rightarrow> TypeArena \<Rightarrow> Ty \<times> TypeArena" where
  "alloc_ty kind flags a =
     (case ta_type_index a kind of
        Some t \<Rightarrow> (t, a)
      | None \<Rightarrow>
          (let raw = of_nat (length (ta_types a))
           in (raw, a\<lparr>ta_types := ta_types a @ [kind],
                      ta_type_flags := ta_type_flags a @ [flags],
                      ta_type_index := (ta_type_index a)(kind \<mapsto> raw)\<rparr>)))"

definition ty_kind :: "TypeArena \<Rightarrow> Ty \<Rightarrow> panicked + TyKind" where
  "ty_kind a ty =
     (if unat ty < length (ta_types a) then Inr (ta_types a ! unat ty) else Inl Panicked)"

definition ty_flags :: "TypeArena \<Rightarrow> Ty \<Rightarrow> panicked + u32" where
  "ty_flags a ty =
     (if unat ty < length (ta_type_flags a) then Inr (ta_type_flags a ! unat ty)
      else Inl Panicked)"

definition intern_substitution :: "GenericArg list \<Rightarrow> TypeArena \<Rightarrow> Substitution \<times> TypeArena" where
  "intern_substitution args a =
     (case ta_subst_index a args of
        Some s \<Rightarrow> (s, a)
      | None \<Rightarrow>
          (let s = \<lparr>sub_index = of_nat (length (ta_substitution_data a)),
                    sub_len = of_nat (length args)\<rparr>
           in (s, a\<lparr>ta_substitution_data := ta_substitution_data a @ [args],
                    ta_subst_index := (ta_subst_index a)(args \<mapsto> s)\<rparr>)))"

definition substitution_args :: "TypeArena \<Rightarrow> Substitution \<Rightarrow> panicked + GenericArg list" where
  "substitution_args a sub =
     (if sub_is_empty sub then Inr []
      else if unat (sub_index sub) < length (ta_substitution_data a)
      then Inr (ta_substitution_data a ! unat (sub_index sub))
      else Inl Panicked)"

section \<open>Type flags\<close>

definition HAS_TY_INFER :: u32 where "HAS_TY_INFER = push_bit 0 1"
definition HAS_TY_PARAM :: u32 where "HAS_TY_PARAM = push_bit 1 1"
definition HAS_RE_INFER :: u32 where "HAS_RE_INFER = push_bit 2 1"
definition HAS_RE_PARAM :: u32 where "HAS_RE_PARAM = push_bit 3 1"
definition HAS_CT_INFER :: u32 where "HAS_CT_INFER = push_bit 4 1"
definition HAS_CT_PARAM :: u32 where "HAS_CT_PARAM = push_bit 5 1"
definition HAS_ERROR :: u32 where "HAS_ERROR = push_bit 7 1"
definition HAS_DEPTH_OVERFLOW :: u32 where "HAS_DEPTH_OVERFLOW = push_bit 8 1"
definition HAS_RE_PLACEHOLDER :: u32 where "HAS_RE_PLACEHOLDER = push_bit 9 1"
definition HAS_TY_PLACEHOLDER :: u32 where "HAS_TY_PLACEHOLDER = push_bit 10 1"
definition HAS_INTERIOR_MUTABILITY :: u32 where "HAS_INTERIOR_MUTABILITY = push_bit 11 1"

text \<open>\<open>for arg in args { if let GenericArg::Ty(t) = arg { flags |= ctx.ty_flags(t) } }\<close>\<close>

fun or_args_flags :: "TypeArena \<Rightarrow> GenericArg list \<Rightarrow> u32 \<Rightarrow> panicked + u32" where
  "or_args_flags a [] flags = Inr flags"
| "or_args_flags a (GenericArg.Ty t # args) flags =
     (case ty_flags a t of Inl e \<Rightarrow> Inl e | Inr f \<Rightarrow> or_args_flags a args (flags OR f))"
| "or_args_flags a (_ # args) flags = or_args_flags a args flags"

definition or_subst_flags :: "TypeArena \<Rightarrow> Substitution \<Rightarrow> u32 \<Rightarrow> panicked + u32" where
  "or_subst_flags a substs flags =
     (case substitution_args a substs of Inl e \<Rightarrow> Inl e | Inr args \<Rightarrow> or_args_flags a args flags)"

definition or_ty_flags :: "TypeArena \<Rightarrow> Ty \<Rightarrow> u32 \<Rightarrow> panicked + u32" where
  "or_ty_flags a t flags = (case ty_flags a t of Inl e \<Rightarrow> Inl e | Inr f \<Rightarrow> Inr (flags OR f))"

fun region_flags :: "Region \<Rightarrow> u32" where
  "region_flags (Region.Var _) = HAS_RE_INFER"
| "region_flags (Region.EarlyBound _) = HAS_RE_PARAM"
| "region_flags (Region.Placeholder _) = HAS_RE_PLACEHOLDER"
| "region_flags _ = 0"

fun dyn_region_flags :: "Region \<Rightarrow> u32" where
  "dyn_region_flags (Region.Placeholder _) = HAS_RE_PLACEHOLDER"
| "dyn_region_flags _ = 0"

fun or_preds_flags :: "TypeArena \<Rightarrow> Predicate list \<Rightarrow> u32 \<Rightarrow> panicked + u32" where
  "or_preds_flags a [] flags = Inr flags"
| "or_preds_flags a (TraitPred tr _ # ps) flags =
     (case or_subst_flags a (tr_substs tr) flags of
        Inl e \<Rightarrow> Inl e | Inr flags' \<Rightarrow> or_preds_flags a ps flags')"
| "or_preds_flags a (_ # ps) flags = or_preds_flags a ps flags"

text \<open>The type arguments of a list, as \<open>if let GenericArg::Ty(t) = arg\<close> selects them.\<close>

fun arg_tys :: "GenericArg list \<Rightarrow> Ty list" where
  "arg_tys [] = []"
| "arg_tys (GenericArg.Ty t # xs) = t # arg_tys xs"
| "arg_tys (_ # xs) = arg_tys xs"

text \<open>The immutable tables of \<open>TyCtx\<close> that layout and flags read; the arena is shared state.\<close>

record MethodDef =
  md_name :: Name
  md_sig :: FnSig
  md_fn_def_id :: "FnDefId option"

record TraitDef =
  td_name :: Name
  td_methods :: "MethodDef list"
  td_associated_types :: "Name list"

record TyCtx =
  tc_adt_defs :: "AdtId \<rightharpoonup> AdtDef"
  tc_adt_reprs :: "AdtId \<rightharpoonup> Ty list"
  tc_trait_defs :: "TraitDefId \<rightharpoonup> TraitDef"
  tc_interior_mutable :: "AdtId set"

definition compute_flags :: "TyCtx \<Rightarrow> TypeArena \<Rightarrow> TyKind \<Rightarrow> u32 \<Rightarrow> panicked + u32" where
  "compute_flags ctx a kind depth =
     (if depth > 64 then Inr HAS_DEPTH_OVERFLOW else
      case kind of
        TyKind.Infer _ \<Rightarrow> Inr HAS_TY_INFER
      | TyKind.Param _ \<Rightarrow> Inr HAS_TY_PARAM
      | TyKind.Error \<Rightarrow> Inr HAS_ERROR
      | TyKind.Bound _ _ \<Rightarrow> Inr HAS_TY_PLACEHOLDER
      | TyKind.Ref region ty _ \<Rightarrow>
          (case or_ty_flags a ty 0 of Inl e \<Rightarrow> Inl e | Inr f \<Rightarrow> Inr (f OR region_flags region))
      | TyKind.RawPtr ty _ \<Rightarrow> or_ty_flags a ty 0
      | TyKind.Slice ty \<Rightarrow> or_ty_flags a ty 0
      | TyKind.Array ty _ \<Rightarrow> or_ty_flags a ty 0
      | TyKind.Adt adt substs \<Rightarrow>
          (case or_subst_flags a substs 0 of
             Inl e \<Rightarrow> Inl e
           | Inr f \<Rightarrow> Inr (if adt \<in> tc_interior_mutable ctx then f OR HAS_INTERIOR_MUTABILITY else f))
      | TyKind.FnDef _ substs \<Rightarrow> or_subst_flags a substs 0
      | TyKind.Closure _ substs \<Rightarrow> or_subst_flags a substs 0
      | TyKind.Tuple substs \<Rightarrow> or_subst_flags a substs 0
      | TyKind.Opaque _ substs \<Rightarrow> or_subst_flags a substs 0
      | TyKind.Projection proj \<Rightarrow> or_subst_flags a (tr_substs (pj_trait_ref proj)) 0
      | TyKind.FnPtr sig \<Rightarrow>
          (case or_subst_flags a (fs_inputs sig) 0 of
             Inl e \<Rightarrow> Inl e | Inr f \<Rightarrow> or_ty_flags a (fs_output sig) f)
      | TyKind.Dynamic preds region \<Rightarrow>
          (case or_preds_flags a (binder_value preds) 0 of
             Inl e \<Rightarrow> Inl e | Inr f \<Rightarrow> Inr (f OR dyn_region_flags region))
      | _ \<Rightarrow> Inr 0)"

text \<open>\<open>TyCtx::mk_ty\<close>: the flags are computed before the kind is looked up.\<close>

definition mk_ty :: "TyCtx \<Rightarrow> TyKind \<Rightarrow> TypeArena \<Rightarrow> panicked + Ty \<times> TypeArena" where
  "mk_ty ctx kind a =
     (case compute_flags ctx a kind 0 of Inl e \<Rightarrow> Inl e | Inr f \<Rightarrow> Inr (alloc_ty kind f a))"

section \<open>The arena invariant\<close>

text \<open>
  The two tables of types have the same length, fit the \<open>u32\<close> handles, and each index map is
  exactly the inverse of its table.
\<close>

definition arena_ok :: "TypeArena \<Rightarrow> bool" where
  "arena_ok a \<longleftrightarrow>
     length (ta_type_flags a) = length (ta_types a) \<and>
     length (ta_types a) \<le> 2 ^ 32 \<and>
     length (ta_substitution_data a) \<le> 2 ^ 32 \<and>
     (\<forall>k t. ta_type_index a k = Some t \<longleftrightarrow>
        unat t < length (ta_types a) \<and> ta_types a ! unat t = k) \<and>
     (\<forall>xs s. ta_subst_index a xs = Some s \<longleftrightarrow>
        unat (sub_index s) < length (ta_substitution_data a) \<and>
        ta_substitution_data a ! unat (sub_index s) = xs \<and> sub_len s = of_nat (length xs))"

text \<open>An arena that another one extends: every handle keeps its meaning.\<close>

definition arena_le :: "TypeArena \<Rightarrow> TypeArena \<Rightarrow> bool" where
  "arena_le a b \<longleftrightarrow>
     (\<exists>ks. ta_types b = ta_types a @ ks) \<and> (\<exists>fs. ta_type_flags b = ta_type_flags a @ fs) \<and>
     (\<exists>ss. ta_substitution_data b = ta_substitution_data a @ ss)"

lemma arena_le_refl [simp]: "arena_le a a"
  by (simp add: arena_le_def)

lemma arena_le_trans: "arena_le a b \<Longrightarrow> arena_le b c \<Longrightarrow> arena_le a c"
  by (auto simp: arena_le_def)

lemma arena_le_ty_kind: "arena_le a b \<Longrightarrow> ty_kind a t = Inr k \<Longrightarrow> ty_kind b t = Inr k"
  by (auto simp: arena_le_def ty_kind_def nth_append split: if_splits)

lemma arena_le_ty_flags: "arena_le a b \<Longrightarrow> ty_flags a t = Inr f \<Longrightarrow> ty_flags b t = Inr f"
  by (auto simp: arena_le_def ty_flags_def nth_append split: if_splits)

lemma arena_le_substitution_args:
  "arena_le a b \<Longrightarrow> substitution_args a s = Inr xs \<Longrightarrow> substitution_args b s = Inr xs"
  by (auto simp: arena_le_def substitution_args_def nth_append split: if_splits)

lemma unat_of_nat_u32: "n < 2 ^ 32 \<Longrightarrow> unat (of_nat n :: u32) = n"
  by (simp add: unsigned_of_nat take_bit_nat_eq_self_iff)

lemma of_nat_u32_eq_iff: "n < 2 ^ 32 \<Longrightarrow> of_nat n = (t :: u32) \<longleftrightarrow> unat t = n"
  using unat_of_nat_u32 [of n] by auto

lemma arena_ok_new: "arena_ok ta_new"
  by (simp add: arena_ok_def ta_new_def)

lemma alloc_ty_le: "alloc_ty k f a = (t, a') \<Longrightarrow> arena_le a a'"
  by (auto simp: alloc_ty_def arena_le_def Let_def split: option.splits)

lemma intern_substitution_le: "intern_substitution xs a = (s, a') \<Longrightarrow> arena_le a a'"
  by (auto simp: intern_substitution_def arena_le_def Let_def split: option.splits)

lemma alloc_ty_ok:
  assumes "arena_ok a" and "alloc_ty k f a = (t, a')" and "length (ta_types a) < 2 ^ 32"
  shows "arena_ok a'"
proof (cases "ta_type_index a k")
  case (Some s)
  with assms show ?thesis by (simp add: alloc_ty_def)
next
  case None
  let ?n = "length (ta_types a)"
  have u: "unat (of_nat ?n :: u32) = ?n" using assms(3) by (rule unat_of_nat_u32)
  have a': "a' = a\<lparr>ta_types := ta_types a @ [k], ta_type_flags := ta_type_flags a @ [f],
      ta_type_index := (ta_type_index a)(k \<mapsto> of_nat ?n)\<rparr>"
    using assms(2) None by (auto simp: alloc_ty_def Let_def)
  have idx: "ta_type_index a' j = Some s \<longleftrightarrow>
      unat s < length (ta_types a') \<and> ta_types a' ! unat s = j" for j s
  proof -
    have e: "of_nat ?n = s \<longleftrightarrow> unat s = ?n" using assms(3) by (rule of_nat_u32_eq_iff)
    have n: "\<not> (unat s < ?n \<and> ta_types a ! unat s = k)"
      using assms(1) None by (metis arena_ok_def option.distinct(1))
    show ?thesis
      using assms(1) n by (auto simp: a' arena_ok_def e nth_append less_Suc_eq)
  qed
  show ?thesis
    using assms(1,3) idx by (simp add: arena_ok_def a')
qed

lemma intern_substitution_ok:
  assumes "arena_ok a" and "intern_substitution xs a = (s, a')"
    and "length (ta_substitution_data a) < 2 ^ 32"
  shows "arena_ok a'"
proof (cases "ta_subst_index a xs")
  case (Some s)
  with assms show ?thesis by (simp add: intern_substitution_def)
next
  case None
  let ?n = "length (ta_substitution_data a)"
  let ?new = "\<lparr>sub_index = of_nat ?n, sub_len = of_nat (length xs)\<rparr>"
  have u: "unat (of_nat ?n :: u32) = ?n" using assms(3) by (rule unat_of_nat_u32)
  have a': "a' = a\<lparr>ta_substitution_data := ta_substitution_data a @ [xs],
      ta_subst_index := (ta_subst_index a)(xs \<mapsto> ?new)\<rparr>"
    using assms(2) None by (auto simp: intern_substitution_def Let_def)
  have idx: "ta_subst_index a' ys = Some r \<longleftrightarrow>
      unat (sub_index r) < length (ta_substitution_data a') \<and>
      ta_substitution_data a' ! unat (sub_index r) = ys \<and> sub_len r = of_nat (length ys)" for ys r
  proof -
    have e: "?new = r \<longleftrightarrow> unat (sub_index r) = ?n \<and> sub_len r = of_nat (length xs)"
      using of_nat_u32_eq_iff [OF assms(3)] by (cases r) auto
    have n: "\<not> (unat (sub_index r) < ?n \<and> ta_substitution_data a ! unat (sub_index r) = xs \<and>
        sub_len r = of_nat (length xs))"
      using assms(1) None by (metis arena_ok_def option.distinct(1))
    show ?thesis
      using assms(1) n by (auto simp: a' arena_ok_def e nth_append less_Suc_eq)
  qed
  show ?thesis
    using assms(1,3) idx by (simp add: arena_ok_def a')
qed

lemma alloc_ty_kind:
  assumes "arena_ok a" and "alloc_ty k f a = (t, a')" and "length (ta_types a) < 2 ^ 32"
  shows "ty_kind a' t = Inr k"
  using assms
  by (auto simp: alloc_ty_def arena_ok_def ty_kind_def Let_def unat_of_nat_u32 split: option.splits)

lemma arena_ok_index: "arena_ok a \<Longrightarrow> ta_type_index a k = Some t \<longleftrightarrow> ty_kind a t = Inr k"
  by (auto simp: arena_ok_def ty_kind_def)

end
