(* ===== verification/Type_Arena_Props.thy ===== *)
theory Type_Arena_Props
  imports Type_Arena
begin

text \<open>
  What the type interner guarantees.  Handles are canonical and stable; argument lists survive
  interning as long as their length fits the handle's \<open>u16\<close>; and the flags cached with a handle
  are exactly the union of the marks found in the types it is built from, so a flag test
  replaces a walk of the type.  The arenas considered are the ones the context can build:
  \<open>built\<close> is the closure of the empty arena under \<open>mk_ty\<close> and \<open>intern_substitution\<close>.
\<close>

section \<open>Components of a type\<close>

definition subst_tys :: "TypeArena \<Rightarrow> Substitution \<Rightarrow> Ty list" where
  "subst_tys a s = (case substitution_args a s of Inl _ \<Rightarrow> [] | Inr xs \<Rightarrow> arg_tys xs)"

fun pred_tys :: "TypeArena \<Rightarrow> Predicate list \<Rightarrow> Ty list" where
  "pred_tys a [] = []"
| "pred_tys a (TraitPred tr _ # ps) = subst_tys a (tr_substs tr) @ pred_tys a ps"
| "pred_tys a (_ # ps) = pred_tys a ps"

fun components :: "TypeArena \<Rightarrow> TyKind \<Rightarrow> Ty list" where
  "components a (TyKind.Ref _ t _) = [t]"
| "components a (TyKind.RawPtr t _) = [t]"
| "components a (TyKind.Slice t) = [t]"
| "components a (TyKind.Array t _) = [t]"
| "components a (TyKind.Adt _ s) = subst_tys a s"
| "components a (TyKind.FnDef _ s) = subst_tys a s"
| "components a (TyKind.Closure _ s) = subst_tys a s"
| "components a (TyKind.Tuple s) = subst_tys a s"
| "components a (TyKind.Opaque _ s) = subst_tys a s"
| "components a (TyKind.Projection p) = subst_tys a (tr_substs (pj_trait_ref p))"
| "components a (TyKind.FnPtr sig) = subst_tys a (fs_inputs sig) @ [fs_output sig]"
| "components a (TyKind.Dynamic ps _) = pred_tys a (binder_value ps)"
| "components a _ = []"

text \<open>The mark a kind carries by itself.\<close>

fun own_flags :: "TyCtx \<Rightarrow> TyKind \<Rightarrow> u32" where
  "own_flags ctx (TyKind.Infer _) = HAS_TY_INFER"
| "own_flags ctx (TyKind.Param _) = HAS_TY_PARAM"
| "own_flags ctx TyKind.Error = HAS_ERROR"
| "own_flags ctx (TyKind.Bound _ _) = HAS_TY_PLACEHOLDER"
| "own_flags ctx (TyKind.Ref r _ _) = region_flags r"
| "own_flags ctx (TyKind.Adt adt _) =
     (if adt \<in> tc_interior_mutable ctx then HAS_INTERIOR_MUTABILITY else 0)"
| "own_flags ctx (TyKind.Dynamic _ r) = dyn_region_flags r"
| "own_flags ctx _ = 0"

inductive part_of :: "TypeArena \<Rightarrow> Ty \<Rightarrow> Ty \<Rightarrow> bool" for a where
  part_refl: "part_of a t t"
| part_step: "ty_kind a t = Inr k \<Longrightarrow> u \<in> set (components a k) \<Longrightarrow> part_of a u v \<Longrightarrow> part_of a t v"

section \<open>One step of the flag computation\<close>

text \<open>\<open>flag_union a ts f g\<close>: every handle of \<open>ts\<close> is valid, and \<open>g\<close> is \<open>f\<close> with their flags.\<close>

definition flag_union :: "TypeArena \<Rightarrow> Ty list \<Rightarrow> u32 \<Rightarrow> u32 \<Rightarrow> bool" where
  "flag_union a ts f g \<longleftrightarrow>
     (\<forall>t\<in>set ts. unat t < length (ta_type_flags a)) \<and>
     (\<forall>n. bit g n \<longleftrightarrow> bit f n \<or> (\<exists>t\<in>set ts. bit (ta_type_flags a ! unat t) n))"

lemma flag_union_Nil: "flag_union a [] f f"
  by (simp add: flag_union_def)

lemma flag_union_append: "flag_union a ts f g \<Longrightarrow> flag_union a us g h \<Longrightarrow> flag_union a (ts @ us) f h"
  by (auto simp: flag_union_def)

lemma flag_union_or: "flag_union a ts 0 g \<Longrightarrow> flag_union a ts f (g OR f)"
  by (auto simp: flag_union_def bit_or_iff)

lemma or_ty_flags_union: "or_ty_flags a t f = Inr g \<Longrightarrow> flag_union a [t] f g"
  by (auto simp: or_ty_flags_def ty_flags_def flag_union_def bit_or_iff split: if_splits)

lemma or_args_flags_union: "or_args_flags a xs f = Inr g \<Longrightarrow> flag_union a (arg_tys xs) f g"
proof (induction a xs f rule: or_args_flags.induct)
  case (2 a t args f)
  then obtain h where h: "ty_flags a t = Inr h" and r: "or_args_flags a args (f OR h) = Inr g"
    by (auto split: sum.splits)
  have "flag_union a [t] f (f OR h)" using h by (intro or_ty_flags_union) (simp add: or_ty_flags_def)
  from flag_union_append [OF this] 2 h r show ?case by fastforce
qed (simp_all add: flag_union_Nil)

lemma or_subst_flags_union: "or_subst_flags a s f = Inr g \<Longrightarrow> flag_union a (subst_tys a s) f g"
  by (auto simp: or_subst_flags_def subst_tys_def split: sum.splits intro: or_args_flags_union)

lemma or_preds_flags_union: "or_preds_flags a ps f = Inr g \<Longrightarrow> flag_union a (pred_tys a ps) f g"
proof (induction a ps f rule: or_preds_flags.induct)
  case (2 a tr pol ps f)
  then obtain h where h: "or_subst_flags a (tr_substs tr) f = Inr h"
    and r: "or_preds_flags a ps h = Inr g"
    by (auto split: sum.splits)
  from flag_union_append [OF or_subst_flags_union [OF h]] 2 h r show ?case by fastforce
qed (simp_all add: flag_union_Nil)

lemmas flag_union_rules = or_ty_flags_union or_args_flags_union or_subst_flags_union
  or_preds_flags_union

lemma compute_flags_union:
  assumes "compute_flags ctx a k 0 = Inr f"
  shows "flag_union a (components a k) (own_flags ctx k) f"
proof (cases k)
  case (FnPtr sig)
  with assms show ?thesis
    by (auto simp: compute_flags_def split: sum.splits
        intro: flag_union_append flag_union_rules)
next
  case (Adt adt s)
  with assms show ?thesis
    by (auto simp: compute_flags_def split: sum.splits if_splits
        intro: flag_union_or flag_union_rules)
qed (use assms in \<open>auto simp: compute_flags_def flag_union_Nil split: sum.splits
        intro: flag_union_or flag_union_rules\<close>)

text \<open>A successful computation reads only what an extension of the arena keeps.\<close>

lemma or_ty_flags_le: "arena_le a b \<Longrightarrow> or_ty_flags a t f = Inr g \<Longrightarrow> or_ty_flags b t f = Inr g"
  by (auto simp: or_ty_flags_def arena_le_ty_flags split: sum.splits)

lemma or_args_flags_le:
  "arena_le a b \<Longrightarrow> or_args_flags a xs f = Inr g \<Longrightarrow> or_args_flags b xs f = Inr g"
  by (induction a xs f rule: or_args_flags.induct) (auto simp: arena_le_ty_flags split: sum.splits)

lemma or_subst_flags_le:
  "arena_le a b \<Longrightarrow> or_subst_flags a s f = Inr g \<Longrightarrow> or_subst_flags b s f = Inr g"
proof -
  assume le: "arena_le a b" and "or_subst_flags a s f = Inr g"
  then obtain xs where "substitution_args a s = Inr xs" "or_args_flags a xs f = Inr g"
    by (auto simp: or_subst_flags_def split: sum.splits)
  with arena_le_substitution_args [OF le] or_args_flags_le [OF le] show ?thesis
    by (simp add: or_subst_flags_def)
qed

lemma or_preds_flags_le:
  "arena_le a b \<Longrightarrow> or_preds_flags a ps f = Inr g \<Longrightarrow> or_preds_flags b ps f = Inr g"
  by (induction a ps f rule: or_preds_flags.induct) (auto dest: or_subst_flags_le split: sum.splits)

lemmas flags_le = or_ty_flags_le or_subst_flags_le or_preds_flags_le

lemma compute_flags_le:
  "arena_le a b \<Longrightarrow> compute_flags ctx a k 0 = Inr f \<Longrightarrow> compute_flags ctx b k 0 = Inr f"
proof (cases k)
  case (FnPtr sig)
  assume le: "arena_le a b" and c: "compute_flags ctx a k 0 = Inr f"
  from c FnPtr obtain g where "or_subst_flags a (fs_inputs sig) 0 = Inr g"
    "or_ty_flags a (fs_output sig) g = Inr f"
    by (auto simp: compute_flags_def split: sum.splits)
  with flags_le [OF le] FnPtr show ?thesis by (simp add: compute_flags_def)
qed (auto simp: compute_flags_def dest: flags_le split: sum.splits)

lemma subst_tys_le:
  "arena_le a b \<Longrightarrow> or_subst_flags a s f = Inr g \<Longrightarrow> subst_tys b s = subst_tys a s"
  by (auto simp: or_subst_flags_def subst_tys_def dest: arena_le_substitution_args
      split: sum.splits)

lemma pred_tys_le:
  "arena_le a b \<Longrightarrow> or_preds_flags a ps f = Inr g \<Longrightarrow> pred_tys b ps = pred_tys a ps"
  by (induction a ps f rule: or_preds_flags.induct) (auto dest: subst_tys_le split: sum.splits)

lemma components_le:
  "arena_le a b \<Longrightarrow> compute_flags ctx a k 0 = Inr f \<Longrightarrow> components b k = components a k"
  by (cases k) (auto simp: compute_flags_def dest: subst_tys_le pred_tys_le split: sum.splits)

section \<open>Arenas the context builds\<close>

text \<open>Every cached flag set is the one its kind computes, from strictly older components.\<close>

definition flags_ok :: "TyCtx \<Rightarrow> TypeArena \<Rightarrow> bool" where
  "flags_ok ctx a \<longleftrightarrow>
     (\<forall>i < length (ta_types a).
        compute_flags ctx a (ta_types a ! i) 0 = Inr (ta_type_flags a ! i) \<and>
        (\<forall>c\<in>set (components a (ta_types a ! i)). unat c < i))"

inductive built :: "TyCtx \<Rightarrow> TypeArena \<Rightarrow> bool" for ctx where
  built_new: "built ctx ta_new"
| built_mk_ty: "built ctx a \<Longrightarrow> length (ta_types a) < 2 ^ 32 \<Longrightarrow> mk_ty ctx k a = Inr (t, b) \<Longrightarrow>
    built ctx b"
| built_intern: "built ctx a \<Longrightarrow> length (ta_substitution_data a) < 2 ^ 32 \<Longrightarrow>
    intern_substitution xs a = (s, b) \<Longrightarrow> built ctx b"

lemma flags_ok_intern:
  assumes "flags_ok ctx a" and "intern_substitution xs a = (s, b)"
  shows "flags_ok ctx b"
proof -
  have le: "arena_le a b" using assms(2) by (rule intern_substitution_le)
  have same: "ta_types b = ta_types a" "ta_type_flags b = ta_type_flags a"
    using assms(2) by (auto simp: intern_substitution_def Let_def split: option.splits)
  show ?thesis
    using assms(1) compute_flags_le [OF le] components_le [OF le]
    unfolding flags_ok_def same by (metis (no_types, lifting))
qed

lemma flags_ok_mk_ty:
  assumes "arena_ok a" and "flags_ok ctx a" and "mk_ty ctx k a = Inr (t, b)"
  shows "flags_ok ctx b"
proof -
  from assms(3) obtain f where f: "compute_flags ctx a k 0 = Inr f" and b: "alloc_ty k f a = (t, b)"
    by (auto simp: mk_ty_def split: sum.splits)
  have le: "arena_le a b" using b by (rule alloc_ty_le)
  show ?thesis
  proof (cases "ta_type_index a k")
    case (Some s)
    with b assms(2) show ?thesis by (simp add: alloc_ty_def)
  next
    case None
    let ?n = "length (ta_types a)"
    have n: "length (ta_type_flags a) = ?n" using assms(1) by (simp add: arena_ok_def)
    have tb: "ta_types b = ta_types a @ [k]" "ta_type_flags b = ta_type_flags a @ [f]"
      using b None by (auto simp: alloc_ty_def Let_def)
    have new: "unat c < ?n" if "c \<in> set (components a k)" for c
      using compute_flags_union [OF f] that n by (auto simp: flag_union_def)
    show ?thesis
      unfolding flags_ok_def
    proof (intro allI impI)
      fix i assume "i < length (ta_types b)"
      then consider "i < ?n" | "i = ?n" by (fastforce simp: tb)
      then show "compute_flags ctx b (ta_types b ! i) 0 = Inr (ta_type_flags b ! i) \<and>
          (\<forall>c\<in>set (components b (ta_types b ! i)). unat c < i)"
      proof cases
        case 1
        with assms(2) n have c: "compute_flags ctx a (ta_types a ! i) 0 = Inr (ta_type_flags a ! i)"
          and s: "\<forall>c\<in>set (components a (ta_types a ! i)). unat c < i"
          by (auto simp: flags_ok_def)
        from 1 n c s components_le [OF le c] compute_flags_le [OF le c] show ?thesis
          by (simp add: tb nth_append)
      next
        case 2
        with n new components_le [OF le f] compute_flags_le [OF le f] show ?thesis
          by (simp add: tb nth_append)
      qed
    qed
  qed
qed

lemma built_ok: "built ctx a \<Longrightarrow> arena_ok a \<and> flags_ok ctx a"
proof (induction rule: built.induct)
  case built_new
  have "flags_ok ctx ta_new" by (simp add: flags_ok_def ta_new_def)
  with arena_ok_new show ?case by blast
next
  case (built_mk_ty a k t b)
  then obtain f where "alloc_ty k f a = (t, b)" by (auto simp: mk_ty_def split: sum.splits)
  with built_mk_ty show ?case by (blast intro: alloc_ty_ok flags_ok_mk_ty)
next
  case (built_intern a xs s b)
  then show ?case by (blast intro: intern_substitution_ok flags_ok_intern)
qed

lemma part_of_flags:
  assumes "flags_ok ctx a" and "arena_ok a" and "ty_flags a t = Inr f"
  shows "bit f n \<longleftrightarrow> (\<exists>u k. part_of a t u \<and> ty_kind a u = Inr k \<and> bit (own_flags ctx k) n)"
  using assms(3)
proof (induction "unat t" arbitrary: t f rule: less_induct)
  case less
  let ?k = "ta_types a ! unat t"
  have len: "length (ta_type_flags a) = length (ta_types a)"
    using assms(2) by (simp add: arena_ok_def)
  have t: "unat t < length (ta_types a)" and f: "f = ta_type_flags a ! unat t"
    using less.prems len by (auto simp: ty_flags_def split: if_splits)
  have k: "ty_kind a t = Inr ?k" using t by (simp add: ty_kind_def)
  have u: "flag_union a (components a ?k) (own_flags ctx ?k) f"
    using assms(1) t f by (auto simp: flags_ok_def intro: compute_flags_union)
  have IH: "bit (ta_type_flags a ! unat c) n \<longleftrightarrow>
      (\<exists>u k. part_of a c u \<and> ty_kind a u = Inr k \<and> bit (own_flags ctx k) n)"
    if c: "c \<in> set (components a ?k)" for c
  proof -
    have "unat c < unat t" using assms(1) t c by (auto simp: flags_ok_def)
    moreover have "unat c < length (ta_type_flags a)" using u c by (auto simp: flag_union_def)
    ultimately show ?thesis by (intro less.hyps) (simp_all add: ty_flags_def)
  qed
  have "bit f n \<longleftrightarrow> bit (own_flags ctx ?k) n \<or>
      (\<exists>c\<in>set (components a ?k). bit (ta_type_flags a ! unat c) n)"
    using u by (simp add: flag_union_def)
  also have "\<dots> \<longleftrightarrow> (\<exists>u k. part_of a t u \<and> ty_kind a u = Inr k \<and> bit (own_flags ctx k) n)"
  proof
    assume "bit (own_flags ctx ?k) n \<or>
      (\<exists>c\<in>set (components a ?k). bit (ta_type_flags a ! unat c) n)"
    then show "\<exists>u k. part_of a t u \<and> ty_kind a u = Inr k \<and> bit (own_flags ctx k) n"
      using IH k by (blast intro: part_of.intros)
  next
    assume "\<exists>u k. part_of a t u \<and> ty_kind a u = Inr k \<and> bit (own_flags ctx k) n"
    then obtain u j where p: "part_of a t u" and j: "ty_kind a u = Inr j"
      and b: "bit (own_flags ctx j) n" by blast
    from p show "bit (own_flags ctx ?k) n \<or>
      (\<exists>c\<in>set (components a ?k). bit (ta_type_flags a ! unat c) n)"
    proof cases
      case part_refl
      with j k b show ?thesis by simp
    next
      case (part_step k' c)
      with k have c: "c \<in> set (components a ?k)" and "part_of a c u" by simp_all
      then show ?thesis using IH [OF c] j b by blast
    qed
  qed
  finally show ?case .
qed


section \<open>Properties\<close>

text \<open>
  The contract of a canonical interner: what it returns reads back, old entries stay, and an
  entry already present is returned instead of stored again.  \<open>'x\<close> is data stored beside the entry.
\<close>

locale intern_table =
  fixes ok :: "'t \<Rightarrow> bool" and room :: "'t \<Rightarrow> bool"
    and intern :: "'x \<Rightarrow> 'k \<Rightarrow> 't \<Rightarrow> 'i \<times> 't" and lookup :: "'t \<Rightarrow> 'i \<Rightarrow> 'k option"
  assumes intern_ok: "ok t \<Longrightarrow> room t \<Longrightarrow> intern x k t = (i, t') \<Longrightarrow> ok t'"
    and intern_new: "ok t \<Longrightarrow> room t \<Longrightarrow> intern x k t = (i, t') \<Longrightarrow> lookup t' i = Some k"
    and intern_old: "intern x k t = (i, t') \<Longrightarrow> lookup t j = Some l \<Longrightarrow> lookup t' j = Some l"
    and intern_hit: "ok t \<Longrightarrow> lookup t i = Some k \<Longrightarrow> intern x k t = (i, t)"
begin

lemma lookup_inj:
  assumes "ok t" and "lookup t i = Some k" and "lookup t j = Some k"
  shows "i = j"
  using intern_hit [OF assms(1,2), of undefined] intern_hit [OF assms(1,3), of undefined] by simp

lemma intern_canonical:
  assumes "ok t" and "room t" and "intern x k t = (i, t1)" and "room t1"
    and "intern y l t1 = (j, t2)"
  shows "(i = j \<longleftrightarrow> k = l) \<and> lookup t2 i = Some k \<and> lookup t2 j = Some l"
proof -
  have ok1: "ok t1" using intern_ok [OF assms(1-3)] .
  have ok2: "ok t2" using intern_ok [OF ok1 assms(4,5)] .
  have i: "lookup t2 i = Some k" using intern_old [OF assms(5) intern_new [OF assms(1-3)]] .
  have j: "lookup t2 j = Some l" using intern_new [OF ok1 assms(4,5)] .
  from i j lookup_inj [OF ok2] show ?thesis by auto
qed

end

definition kind_of :: "TypeArena \<Rightarrow> Ty \<Rightarrow> TyKind option" where
  "kind_of a t = (case ty_kind a t of Inl _ \<Rightarrow> None | Inr k \<Rightarrow> Some k)"

definition args_of :: "TypeArena \<Rightarrow> Substitution \<Rightarrow> GenericArg list option" where
  "args_of a s =
     (case slice_get (ta_substitution_data a) (unat (sub_index s)) of
        None \<Rightarrow> None
      | Some xs \<Rightarrow> if sub_len s = of_nat (length xs) then Some xs else None)"

lemma kind_of_eq: "kind_of a t = Some k \<longleftrightarrow> ty_kind a t = Inr k"
  by (auto simp: kind_of_def split: sum.splits)

lemma args_of_eq: "arena_ok a \<Longrightarrow> args_of a s = Some xs \<longleftrightarrow> ta_subst_index a xs = Some s"
  by (auto simp: args_of_def arena_ok_def slice_get_def)

lemma args_of_le: "arena_le a b \<Longrightarrow> args_of a s = Some xs \<Longrightarrow> args_of b s = Some xs"
  by (auto simp: args_of_def arena_le_def slice_get_def nth_append split: if_splits)

lemma intern_substitution_index:
  "intern_substitution xs a = (s, b) \<Longrightarrow> ta_subst_index b xs = Some s"
  by (auto simp: intern_substitution_def Let_def split: option.splits)

interpretation types: intern_table arena_ok "\<lambda>a. length (ta_types a) < 2 ^ 32"
    "\<lambda>f k. alloc_ty k f" kind_of
proof
  fix t t' :: TypeArena and f k i j l
  show "arena_ok t'" if "arena_ok t" "length (ta_types t) < 2 ^ 32" "alloc_ty k f t = (i, t')"
    using that by (blast intro: alloc_ty_ok)
  show "kind_of t' i = Some k" if "arena_ok t" "length (ta_types t) < 2 ^ 32" "alloc_ty k f t = (i, t')"
    using that by (simp add: kind_of_eq alloc_ty_kind)
  show "kind_of t' j = Some l" if "alloc_ty k f t = (i, t')" "kind_of t j = Some l"
    using that by (auto simp: kind_of_eq intro: arena_le_ty_kind alloc_ty_le)
  show "alloc_ty k f t = (i, t)" if "arena_ok t" "kind_of t i = Some k"
    using that by (auto simp: kind_of_eq arena_ok_index [symmetric] alloc_ty_def)
qed

interpretation substs: intern_table arena_ok "\<lambda>a. length (ta_substitution_data a) < 2 ^ 32"
    "\<lambda>(_ :: unit). intern_substitution" args_of
proof
  fix t t' :: TypeArena and k i j l
  show ok: "arena_ok t'" if "arena_ok t" "length (ta_substitution_data t) < 2 ^ 32"
    "intern_substitution k t = (i, t')"
    using that by (blast intro: intern_substitution_ok)
  show "args_of t' i = Some k" if "arena_ok t" "length (ta_substitution_data t) < 2 ^ 32"
    "intern_substitution k t = (i, t')"
    using that ok [OF that] by (simp add: args_of_eq intern_substitution_index)
  show "args_of t' j = Some l" if "intern_substitution k t = (i, t')" "args_of t j = Some l"
    using that by (auto intro: args_of_le intern_substitution_le)
  show "intern_substitution k t = (i, t)" if "arena_ok t" "args_of t i = Some k"
    using that by (simp add: args_of_eq intern_substitution_def)
qed

text \<open>
  Interning types is canonical. In any arena the context can build, two \<open>mk_ty\<close> calls
  (the second on the arena the first returns, or any later one) give the same handle exactly when
  the two kinds are equal, the handle reads back the kind it was made for, and every older
  handle keeps its kind.
\<close>

theorem mk_ty_canonical:
  assumes "built ctx a" and "length (ta_types b) < 2 ^ 32" and "length (ta_types a) < 2 ^ 32"
    and "mk_ty ctx k a = Inr (t, b)" and "mk_ty ctx j b = Inr (u, c)"
  shows "(t = u \<longleftrightarrow> k = j) \<and> ty_kind c t = Inr k \<and> ty_kind c u = Inr j \<and>
    (\<forall>v l. ty_kind a v = Inr l \<longrightarrow> ty_kind c v = Inr l)"
proof -
  from assms(4,5) obtain f g where f: "alloc_ty k f a = (t, b)" and g: "alloc_ty j g b = (u, c)"
    by (auto simp: mk_ty_def split: sum.splits)
  have "arena_le a c" using f g by (blast intro: arena_le_trans alloc_ty_le)
  with types.intern_canonical [OF conjunct1 [OF built_ok [OF assms(1)]] assms(3) f assms(2) g]
  show ?thesis by (auto simp: kind_of_eq intro: arena_le_ty_kind)
qed

theorem mk_ty_canonical_witness:
  "\<exists>b c. mk_ty \<lparr>tc_adt_defs = Map.empty, tc_adt_reprs = Map.empty, tc_trait_defs = Map.empty,
      tc_interior_mutable = {}\<rparr> TyKind.Bool ta_new = Inr (0, b) \<and>
    ty_kind c 0 = Inr TyKind.Bool \<and> ty_kind c 1 = Inr TyKind.Char"
proof -
  let ?ctx = "\<lparr>tc_adt_defs = Map.empty, tc_adt_reprs = Map.empty, tc_trait_defs = Map.empty,
    tc_interior_mutable = {}\<rparr>"
  let ?b = "\<lparr>ta_types = [TyKind.Bool], ta_type_flags = [0], ta_substitution_data = [],
     ta_type_index = [TyKind.Bool \<mapsto> 0], ta_subst_index = Map.empty\<rparr>"
  let ?c = "\<lparr>ta_types = [TyKind.Bool, TyKind.Char], ta_type_flags = [0, 0],
     ta_substitution_data = [], ta_type_index = [TyKind.Bool \<mapsto> 0, TyKind.Char \<mapsto> 1],
     ta_subst_index = Map.empty\<rparr>"
  have b: "mk_ty ?ctx TyKind.Bool ta_new = Inr (0, ?b)"
    by (simp add: mk_ty_def compute_flags_def alloc_ty_def ta_new_def)
  have c: "mk_ty ?ctx TyKind.Char ?b = Inr (1, ?c)"
    by (simp add: mk_ty_def compute_flags_def alloc_ty_def)
  from mk_ty_canonical [OF built_new _ _ b c] b show ?thesis
    by (auto simp: ta_new_def)
qed

text \<open>
  Argument lists survive interning. Reading back an interned list gives the list whenever its
  length fits the handle's sixteen bits; a list of exactly \<open>2 ^ 16\<close> arguments reads back empty,
  because its length truncates to zero and an empty handle is never looked up.
\<close>

theorem intern_substitution_roundtrip:
  assumes "built ctx a" and "length (ta_substitution_data a) < 2 ^ 32"
    and "intern_substitution xs a = (s, b)"
  shows "(length xs < 2 ^ 16 \<longrightarrow> substitution_args b s = Inr xs) \<and>
    (length xs = 2 ^ 16 \<longrightarrow> substitution_args b s = Inr [])"
proof -
  have ok: "arena_ok a" using built_ok [OF assms(1)] by blast
  have "arena_ok b" using intern_substitution_ok [OF ok assms(3,2)] .
  moreover have "ta_subst_index b xs = Some s" using assms(3) by (rule intern_substitution_index)
  ultimately have s: "unat (sub_index s) < length (ta_substitution_data b)"
    "ta_substitution_data b ! unat (sub_index s) = xs" "sub_len s = of_nat (length xs)"
    by (auto simp: arena_ok_def)
  have z: "sub_is_empty s \<longleftrightarrow> length xs mod 2 ^ 16 = 0"
    unfolding sub_is_empty_def s(3) by (simp add: word_of_nat_eq_0_iff dvd_eq_mod_eq_0)
  show ?thesis using s z by (auto simp: substitution_args_def)
qed

theorem intern_substitution_roundtrip_witness:
  "\<exists>b. substitution_args b \<lparr>sub_index = 0, sub_len = 2\<rparr>
     = Inr [GenericArg.Ty 3, GenericArg.Lifetime Region.Static]"
proof -
  let ?xs = "[GenericArg.Ty 3, GenericArg.Lifetime Region.Static]"
  let ?b = "\<lparr>ta_types = [], ta_type_flags = [], ta_substitution_data = [?xs],
     ta_type_index = Map.empty, ta_subst_index = [?xs \<mapsto> \<lparr>sub_index = 0, sub_len = 2\<rparr>]\<rparr>"
  have i: "intern_substitution ?xs ta_new = (\<lparr>sub_index = 0, sub_len = 2\<rparr>, ?b)"
    by (simp add: intern_substitution_def ta_new_def Let_def)
  show ?thesis
    using intern_substitution_roundtrip [OF built_new _ i] by (auto simp: ta_new_def)
qed



text \<open>
  The flags for constants and for depth overflow are never set. No type an arena holds, whatever
  constant parameters or inference variables its array lengths and arguments contain, has
  \<open>HAS_CT_INFER\<close>, \<open>HAS_CT_PARAM\<close> or \<open>HAS_DEPTH_OVERFLOW\<close>.
\<close>

theorem const_flags_never_set:
  assumes "built ctx a" and "ty_flags a t = Inr f"
  shows "f AND (HAS_CT_INFER OR HAS_CT_PARAM OR HAS_DEPTH_OVERFLOW) = 0"
proof (rule bit_word_eqI)
  fix n assume "n < LENGTH(32)"
  have own: "\<not> bit (own_flags ctx k) n" if "n = 4 \<or> n = 5 \<or> n = 8" for k
  proof -
    have "\<not> bit (region_flags r) n" for r
      using that by (cases r) (auto simp: HAS_RE_INFER_def HAS_RE_PARAM_def HAS_RE_PLACEHOLDER_def
          bit_push_bit_iff bit_simps)
    moreover have "\<not> bit (dyn_region_flags r) n" for r
      using that by (cases r) (auto simp: HAS_RE_PLACEHOLDER_def bit_simps)
    ultimately show ?thesis
      using that
      by (cases k) (auto simp: HAS_TY_INFER_def HAS_TY_PARAM_def HAS_ERROR_def
          HAS_TY_PLACEHOLDER_def HAS_INTERIOR_MUTABILITY_def bit_simps)
  qed
  have "bit (HAS_CT_INFER OR HAS_CT_PARAM OR HAS_DEPTH_OVERFLOW) n \<longleftrightarrow> n = 4 \<or> n = 5 \<or> n = 8"
    unfolding HAS_CT_INFER_def HAS_CT_PARAM_def HAS_DEPTH_OVERFLOW_def bit_or_iff bit_push_bit_iff
    by (auto simp: bit_1_iff)
  with own part_of_flags [OF conjunct2 [OF built_ok [OF assms(1)]] _ assms(2), of n]
    conjunct1 [OF built_ok [OF assms(1)]]
  show "bit (f AND (HAS_CT_INFER OR HAS_CT_PARAM OR HAS_DEPTH_OVERFLOW)) n \<longleftrightarrow> bit (0 :: u32) n"
    by (auto simp: bit_and_iff)
qed

theorem const_flags_never_set_witness:
  "\<exists>b c f. ty_kind b 1 = Inr (TyKind.Array 0 c) \<and> const_kind c = ConstKind.Param \<lparr>pc_index = 0, pc_name = 7\<rparr> \<and>
    ty_flags b 1 = Inr f \<and> f AND (HAS_CT_INFER OR HAS_CT_PARAM OR HAS_DEPTH_OVERFLOW) = 0"
proof -
  let ?ctx = "\<lparr>tc_adt_defs = Map.empty, tc_adt_reprs = Map.empty, tc_trait_defs = Map.empty,
    tc_interior_mutable = {}\<rparr>"
  let ?c = "\<lparr>const_kind = ConstKind.Param \<lparr>pc_index = 0, pc_name = 7\<rparr>, const_ty = 0\<rparr>"
  let ?a = "\<lparr>ta_types = [TyKind.Bool], ta_type_flags = [0], ta_substitution_data = [],
     ta_type_index = [TyKind.Bool \<mapsto> 0], ta_subst_index = Map.empty\<rparr>"
  let ?b = "\<lparr>ta_types = [TyKind.Bool, TyKind.Array 0 ?c], ta_type_flags = [0, 0],
     ta_substitution_data = [], ta_type_index = [TyKind.Bool \<mapsto> 0, TyKind.Array 0 ?c \<mapsto> 1],
     ta_subst_index = Map.empty\<rparr>"
  have a: "mk_ty ?ctx TyKind.Bool ta_new = Inr (0, ?a)"
    by (simp add: mk_ty_def compute_flags_def alloc_ty_def ta_new_def)
  have b: "mk_ty ?ctx (TyKind.Array 0 ?c) ?a = Inr (1, ?b)"
    by (simp add: mk_ty_def compute_flags_def alloc_ty_def or_ty_flags_def ty_flags_def)
  have "built ?ctx ?b"
    by (rule built_mk_ty [OF built_mk_ty [OF built_new _ a] _ b]) (simp_all add: ta_new_def)
  from const_flags_never_set [OF this, of 1 0]
  have "ty_kind ?b 1 = Inr (TyKind.Array 0 ?c) \<and> const_kind ?c = ConstKind.Param \<lparr>pc_index = 0, pc_name = 7\<rparr> \<and>
    ty_flags ?b 1 = Inr 0 \<and> (0 :: u32) AND (HAS_CT_INFER OR HAS_CT_PARAM OR HAS_DEPTH_OVERFLOW) = 0"
    by (simp add: ty_flags_def ty_kind_def)
  then show ?thesis by blast
qed

end
