(* ===== verification/Layout.thy ===== *)
theory Layout
  imports Type_Arena
begin

text \<open>
  Type layout (\<open>crates/glyim-layout/src/lib.rs\<close> and \<open>vtable.rs\<close>): sizes, alignments, field
  offsets, enum tags and niches, calling conventions and vtables.

  \<open>Size\<close> and \<open>Align\<close> are \<open>u64\<close>.  Unchecked arithmetic panics on overflow in every profile
  (the workspace sets \<open>overflow-checks\<close>); \<open>Size + Size\<close> saturates, as written.  Debug assertions
  are those of a release build: absent.

  A \<open>SimpleLayoutComputer\<close> works by \<open>&self\<close> over two pieces of shared state: the type arena,
  which \<open>subst_params\<close> interns into, and the set of types in progress.  Its methods are
  computations over that state that return a value or fail with a \<open>LayoutError\<close>, a panic, or
  \<open>TooDeep\<close>.  \<open>layout_of\<close> and \<open>subst_params\<close> call themselves; the first argument bounds the depth
  of nested calls, and exceeding it is \<open>TooDeep\<close> (the host's stack overflow).  Every other method
  takes the recursive call as its argument \<open>rec\<close>.
\<close>

section \<open>Sizes and alignments\<close>

type_synonym Size = u64
type_synonym Align = u64

definition saturating_add64 :: "u64 \<Rightarrow> u64 \<Rightarrow> u64" where
  "saturating_add64 a b = (if unat a + unat b < 2 ^ 64 then a + b else - 1)"

definition saturating_mul64 :: "u64 \<Rightarrow> u64 \<Rightarrow> u64" where
  "saturating_mul64 a b = (if unat a * unat b < 2 ^ 64 then a * b else - 1)"

definition checked_mul64 :: "u64 \<Rightarrow> u64 \<Rightarrow> u64 option" where
  "checked_mul64 a b = (if unat a * unat b < 2 ^ 64 then Some (a * b) else None)"

definition size_bits :: "Size \<Rightarrow> u64" where
  "size_bits s = saturating_mul64 s 8"

definition size_add :: "Size \<Rightarrow> Size \<Rightarrow> Size" where
  "size_add a b = saturating_add64 a b"

definition align_to :: "Size \<Rightarrow> Align \<Rightarrow> panicked + Size" where
  "align_to s align =
     (if align = 0 then Inl Panicked
      else (let mask = align - 1
            in if unat s + unat mask < 2 ^ 64 then Inr ((s + mask) AND NOT mask)
               else Inl Panicked))"

section \<open>Layouts\<close>

datatype FieldsShape = Primitive | Array Size u64 | Arbitrary "Size list"

datatype TagEncoding = Direct | Niche (untagged_variant: u32) (niche_variants: "u32 \<times> u32")
  (niche_start: u128)

datatype Layout = Layout (l_size: Size) (l_align: Align) (l_fields: FieldsShape)
    (l_variants: VariantsShape) (l_is_unsized: bool)
and VariantsShape = Single u32
  | Multiple (vs_tag: Ty) (vs_tag_field: u32) (vs_tag_encoding: TagEncoding)
      (vs_variants: "Layout list") (vs_tag_size: Size) (vs_tag_align: Align)

definition layout_scalar :: "Size \<Rightarrow> Align \<Rightarrow> Layout" where
  "layout_scalar sz align = Layout sz align Primitive (Single 0) False"

definition layout_unit :: Layout where
  "layout_unit = Layout 0 1 (Arbitrary []) (Single 0) False"

datatype LayoutError = UnknownType Ty | SizeOverflow Ty | Unsized Ty | Cycle Ty
  | AlignmentExceedsRuntime Ty u64 u64 | UnknownTrait TraitDefId

datatype PassMode = Direct | Indirect bool | Ignore | Cast Ty bool | HomogeneousAggregate Ty u32
  | Split "PassMode list"

datatype CallConvention = Glyim | C | System

fun conv_from_abi :: "Abi \<Rightarrow> CallConvention" where
  "conv_from_abi Abi.C = CallConvention.C"
| "conv_from_abi Abi.Glyim = CallConvention.Glyim"
| "conv_from_abi Abi.System = CallConvention.System"

record ArgAbi =
  aa_ty :: Ty
  aa_layout :: Layout
  aa_mode :: PassMode

record FnAbi =
  fa_args :: "ArgAbi list"
  fa_ret :: ArgAbi
  fa_conv :: CallConvention
  fa_c_variadic :: bool

section \<open>The computer's state\<close>

record LayoutState =
  ls_arena :: TypeArena
  ls_in_progress :: "Ty set"

datatype layout_exn = Failed LayoutError | Crashed | TooDeep

type_synonym 'a lay = "(LayoutState, layout_exn, 'a) sx"

definition lay_try :: "panicked + 'a \<Rightarrow> 'a lay" where
  "lay_try r = sx_lift (case r of Inl _ \<Rightarrow> Inl Crashed | Inr x \<Rightarrow> Inr x)"

definition lay_err :: "LayoutError \<Rightarrow> 'a lay" where
  "lay_err e = sx_fail (Failed e)"

text \<open>\<open>.ok()\<close>: an error becomes \<open>None\<close>; a panic goes on.\<close>

definition lay_ok :: "'a lay \<Rightarrow> 'a option lay" where
  "lay_ok m = (\<lambda>s. case m s of
     (Inl (Failed _), s') \<Rightarrow> (Inr None, s')
   | (Inl Crashed, s') \<Rightarrow> (Inl Crashed, s')
   | (Inl TooDeep, s') \<Rightarrow> (Inl TooDeep, s')
   | (Inr x, s') \<Rightarrow> (Inr (Some x), s'))"

fun lay_map :: "('a \<Rightarrow> 'b lay) \<Rightarrow> 'a list \<Rightarrow> 'b list lay" where
  "lay_map f [] = sx_return []"
| "lay_map f (x # xs) =
     sx_bind (f x) (\<lambda>y. sx_bind (lay_map f xs) (\<lambda>ys. sx_return (y # ys)))"

definition get_kind :: "Ty \<Rightarrow> TyKind lay" where
  "get_kind ty = (\<lambda>s. lay_try (ty_kind (ls_arena s) ty) s)"

definition get_args :: "Substitution \<Rightarrow> GenericArg list lay" where
  "get_args sub = (\<lambda>s. lay_try (substitution_args (ls_arena s) sub) s)"

definition do_mk_ty :: "TyCtx \<Rightarrow> TyKind \<Rightarrow> Ty lay" where
  "do_mk_ty ctx k = (\<lambda>s.
     case mk_ty ctx k (ls_arena s) of
       Inl _ \<Rightarrow> (Inl Crashed, s)
     | Inr (t, a) \<Rightarrow> (Inr t, s\<lparr>ls_arena := a\<rparr>))"

definition do_intern_substitution :: "GenericArg list \<Rightarrow> Substitution lay" where
  "do_intern_substitution args = (\<lambda>s.
     case intern_substitution args (ls_arena s) of (t, a) \<Rightarrow> (Inr t, s\<lparr>ls_arena := a\<rparr>))"

section \<open>Substitution of generic parameters\<close>

definition subst_arg :: "(Ty \<Rightarrow> Ty lay) \<Rightarrow> GenericArg \<Rightarrow> GenericArg lay" where
  "subst_arg rec a =
     (case a of GenericArg.Ty t \<Rightarrow> sx_bind (rec t) (\<lambda>t'. sx_return (GenericArg.Ty t'))
      | _ \<Rightarrow> sx_return a)"

definition subst_args :: "(Ty \<Rightarrow> Ty lay) \<Rightarrow> Substitution \<Rightarrow> Substitution lay" where
  "subst_args rec s =
     sx_bind (get_args s) (\<lambda>args.
     sx_bind (lay_map (subst_arg rec) args) do_intern_substitution)"

definition subst_kind :: "TyCtx \<Rightarrow> GenericArg list \<Rightarrow> (Ty \<Rightarrow> Ty lay) \<Rightarrow> Ty \<Rightarrow> TyKind \<Rightarrow> Ty lay" where
  "subst_kind ctx substs rec ty k =
     (case k of
        TyKind.Param p \<Rightarrow>
          (case slice_get substs (unat (pt_index p)) of
             Some (GenericArg.Ty t) \<Rightarrow> sx_return t
           | _ \<Rightarrow> sx_return ty)
      | TyKind.Ref region inner mutbl \<Rightarrow>
          sx_bind (rec inner) (\<lambda>t. do_mk_ty ctx (TyKind.Ref region t mutbl))
      | TyKind.RawPtr inner mutbl \<Rightarrow>
          sx_bind (rec inner) (\<lambda>t. do_mk_ty ctx (TyKind.RawPtr t mutbl))
      | TyKind.Adt adt s \<Rightarrow> sx_bind (subst_args rec s) (\<lambda>s'. do_mk_ty ctx (TyKind.Adt adt s'))
      | TyKind.Tuple s \<Rightarrow> sx_bind (subst_args rec s) (\<lambda>s'. do_mk_ty ctx (TyKind.Tuple s'))
      | _ \<Rightarrow> sx_return ty)"

primrec subst_params :: "nat \<Rightarrow> TyCtx \<Rightarrow> GenericArg list \<Rightarrow> Ty \<Rightarrow> Ty lay" where
  "subst_params 0 ctx substs ty = sx_fail TooDeep"
| "subst_params (Suc n) ctx substs ty =
     (if substs = [] then sx_return ty
      else sx_bind (get_kind ty) (subst_kind ctx substs (subst_params n ctx substs) ty))"

section \<open>Products\<close>

text \<open>
  The loop shared by tuples, structs, variants and closures: the offsets so far, the alignment so
  far and the running offset.
\<close>

type_synonym place_acc = "Size list \<times> Align \<times> Size"

fun place_field :: "Layout \<Rightarrow> place_acc \<Rightarrow> panicked + place_acc" where
  "place_field fl (offsets, align, current) =
     (case align_to current (l_align fl) of
        Inl e \<Rightarrow> Inl e
      | Inr off \<Rightarrow> Inr (offsets @ [off], max align (l_align fl), size_add off (l_size fl)))"

fun place_fields :: "(Ty \<Rightarrow> Layout lay) \<Rightarrow> Ty list \<Rightarrow> place_acc \<Rightarrow> place_acc lay" where
  "place_fields rec [] acc = sx_return acc"
| "place_fields rec (ty # tys) acc =
     sx_bind (rec ty) (\<lambda>fl. sx_bind (lay_try (place_field fl acc)) (place_fields rec tys))"

fun finish_product :: "place_acc \<Rightarrow> panicked + Layout" where
  "finish_product (offsets, align, current) =
     (case align_to current align of
        Inl e \<Rightarrow> Inl e
      | Inr sz \<Rightarrow> Inr (Layout sz align (Arbitrary offsets) (Single 0) False))"

definition layout_product :: "(Ty \<Rightarrow> Layout lay) \<Rightarrow> Ty list \<Rightarrow> Layout lay" where
  "layout_product rec tys =
     sx_bind (place_fields rec tys ([], 1, 0)) (\<lambda>acc. lay_try (finish_product acc))"

definition layout_tuple :: "(Ty \<Rightarrow> Layout lay) \<Rightarrow> Substitution \<Rightarrow> Layout lay" where
  "layout_tuple rec substs =
     sx_bind (get_args substs) (\<lambda>args.
       if args = [] then sx_return layout_unit else layout_product rec (arg_tys args))"

definition array_count :: "Ty \<Rightarrow> ConstKind \<Rightarrow> u64 lay" where
  "array_count outer_ty k =
     (case k of
        ConstKind.Uint n \<Rightarrow>
          if unat n < 2 ^ 64 then sx_return (ucast n) else lay_err (SizeOverflow outer_ty)
      | ConstKind.Int n \<Rightarrow>
          if sint n < 0 then lay_err (SizeOverflow outer_ty)
          else if unat n < 2 ^ 64 then sx_return (ucast n) else lay_err (SizeOverflow outer_ty)
      | _ \<Rightarrow> lay_err (UnknownType outer_ty))"

definition layout_array :: "(Ty \<Rightarrow> Layout lay) \<Rightarrow> Ty \<Rightarrow> Const \<Rightarrow> Ty \<Rightarrow> Layout lay" where
  "layout_array rec inner count outer_ty =
     sx_bind (rec inner) (\<lambda>il.
     sx_bind (array_count outer_ty (const_kind count)) (\<lambda>n.
     sx_bind (lay_try (align_to (l_size il) (l_align il))) (\<lambda>stride.
       case checked_mul64 stride n of
         None \<Rightarrow> lay_err (SizeOverflow outer_ty)
       | Some sz \<Rightarrow>
           sx_return (Layout sz (l_align il) (FieldsShape.Array stride n) (Single 0) False))))"

text \<open>\<open>recs\<close> lays out a field type after substituting the ADT's arguments for its parameters.\<close>

definition field_tys :: "FieldDef list \<Rightarrow> Ty list" where
  "field_tys fs = map fd_ty fs"

definition layout_struct :: "(Ty \<Rightarrow> Layout lay) \<Rightarrow> AdtDef \<Rightarrow> Layout lay" where
  "layout_struct recs def = layout_product recs (field_tys (ad_fields def))"

fun union_fields :: "(Ty \<Rightarrow> Layout lay) \<Rightarrow> Ty list \<Rightarrow> place_acc \<Rightarrow> place_acc lay" where
  "union_fields recs [] acc = sx_return acc"
| "union_fields recs (ty # tys) (offsets, align, sz) =
     sx_bind (recs ty) (\<lambda>fl.
       union_fields recs tys (offsets @ [0], max align (l_align fl), max sz (l_size fl)))"

definition layout_union :: "(Ty \<Rightarrow> Layout lay) \<Rightarrow> AdtDef \<Rightarrow> Layout lay" where
  "layout_union recs def =
     sx_bind (union_fields recs (field_tys (ad_fields def)) ([], 1, 0)) (\<lambda>acc.
       lay_try (finish_product acc))"

section \<open>Enums\<close>

definition layout_variant_data :: "(Ty \<Rightarrow> Layout lay) \<Rightarrow> VariantDef \<Rightarrow> Layout lay" where
  "layout_variant_data recs v = layout_product recs (field_tys (vd_fields v))"

definition layout_single_variant_enum :: "(Ty \<Rightarrow> Layout lay) \<Rightarrow> AdtDef \<Rightarrow> Layout lay" where
  "layout_single_variant_enum recs def =
     (case ad_variants def of
        [] \<Rightarrow> sx_fail Crashed
      | v # _ \<Rightarrow> layout_product recs (field_tys (vd_fields v)))"

definition u32_try_or :: "nat \<Rightarrow> u32 \<Rightarrow> u32" where
  "u32_try_or n d = (if n < 2 ^ 32 then of_nat n else d)"

definition max_by :: "('a \<Rightarrow> u64) \<Rightarrow> u64 \<Rightarrow> 'a list \<Rightarrow> u64" where
  "max_by f d xs = foldl (\<lambda>m x. max m (f x)) d xs"

fun stride_offsets :: "nat \<Rightarrow> Size \<Rightarrow> Size \<Rightarrow> Size list" where
  "stride_offsets 0 stride off = []"
| "stride_offsets (Suc n) stride off = off # stride_offsets n stride (size_add off stride)"

fun shape_offsets :: "FieldsShape \<Rightarrow> Size list" where
  "shape_offsets (Arbitrary offsets) = offsets"
| "shape_offsets Primitive = [0]"
| "shape_offsets (FieldsShape.Array stride count) = stride_offsets (unat count) stride 0"

definition build_niche_layout ::
    "(Ty \<Rightarrow> Layout lay) \<Rightarrow> Layout list \<Rightarrow> nat \<Rightarrow> nat \<Rightarrow> Ty \<Rightarrow> u128 \<Rightarrow> nat \<Rightarrow> Layout lay" where
  "build_niche_layout rec vls vi fi fty start variant_count =
     (let range = (if vi = 0 then (1, u32_try_or (variant_count - 1) u32_max)
                   else (0, u32_try_or (vi - 1) 0));
          max_align = max_by l_align 1 vls
      in sx_bind (lay_try (align_to (max_by l_size 0 vls) max_align)) (\<lambda>sz.
         sx_bind (rec fty) (\<lambda>nl.
           sx_return (Layout sz max_align (Arbitrary (shape_offsets (l_fields (vls ! vi))))
             (Multiple fty (u32_try_or fi 0) (Niche (u32_try_or vi 0) range start) vls
                (l_size nl) (l_align nl)) False))))"

text \<open>Number of distinct values of the tag type.\<close>

definition checked_shl128 :: "u32 \<Rightarrow> u128 option" where
  "checked_shl128 bw = (if unat bw < 128 then Some (push_bit (unat bw) 1) else None)"

definition tag_value_count :: "TargetInfo \<Rightarrow> Ty \<Rightarrow> u128 option lay" where
  "tag_value_count tgt ty =
     sx_bind (get_kind ty) (\<lambda>k. sx_return
       (case k of
          TyKind.Bool \<Rightarrow> Some 256
        | TyKind.Int i \<Rightarrow> checked_shl128 (int_bit_width i tgt)
        | TyKind.Uint u \<Rightarrow> checked_shl128 (uint_bit_width u tgt)
        | _ \<Rightarrow> None))"

definition enum_free_niche :: "u128 \<Rightarrow> nat \<Rightarrow> TagEncoding \<Rightarrow> (u128 \<times> u128) option" where
  "enum_free_niche full variant_count enc =
     (case enc of
        TagEncoding.Direct \<Rightarrow>
          (let used = of_nat variant_count
           in if full > used then Some (used, full - used) else None)
      | Niche _ (sv_start, sv_end) _ \<Rightarrow>
          (let (start, count) =
             (if sv_start > 0 then (0, ucast sv_start)
              else (let start = ucast sv_end + 1
                    in (start, if full < start then 0 else full - start)))
           in if count > 0 then Some (start, count) else None))"

definition niche_info_inner ::
    "(Ty \<Rightarrow> Layout lay) \<Rightarrow> TyCtx \<Rightarrow> TargetInfo \<Rightarrow> Ty \<Rightarrow> nat \<Rightarrow> (u128 \<times> u128) option lay" where
  "niche_info_inner rec ctx tgt ty depth =
     (if depth \<ge> 8 then sx_return None else
      sx_bind (get_kind ty) (\<lambda>k.
        case k of
          TyKind.Bool \<Rightarrow> sx_return (Some (2, 254))
        | TyKind.Ref _ _ _ \<Rightarrow> sx_return (Some (0, 1))
        | TyKind.RawPtr _ _ \<Rightarrow> sx_return (Some (0, 1))
        | TyKind.Char \<Rightarrow> sx_return (Some (0x110000, - 1 - 0x110000 + 1))
        | TyKind.Adt adt _ \<Rightarrow>
            (case tc_adt_defs ctx adt of
               None \<Rightarrow> sx_return None
             | Some def \<Rightarrow>
                 if ad_kind def \<noteq> Enum then sx_return None
                 else sx_bind (lay_ok (rec ty)) (\<lambda>l.
                   case l of
                     None \<Rightarrow> sx_return None
                   | Some layout \<Rightarrow>
                       (case l_variants layout of
                          Single _ \<Rightarrow> sx_return None
                        | Multiple tag _ enc _ _ _ \<Rightarrow>
                            sx_bind (tag_value_count tgt tag) (\<lambda>full. sx_return
                              (case full of
                                 None \<Rightarrow> None
                               | Some n \<Rightarrow>
                                   enum_free_niche n (length (ad_variants def)) enc)))))
        | _ \<Rightarrow> sx_return None))"

definition niche_info ::
    "(Ty \<Rightarrow> Layout lay) \<Rightarrow> TyCtx \<Rightarrow> TargetInfo \<Rightarrow> Ty \<Rightarrow> (u128 \<times> u128) option lay" where
  "niche_info rec ctx tgt ty = niche_info_inner rec ctx tgt ty 0"

text \<open>The candidate fields, variant by variant: variant index, field index, declared type.\<close>

definition niche_candidates :: "VariantDef list \<Rightarrow> (nat \<times> nat \<times> Ty) list" where
  "niche_candidates vs =
     concat (map (\<lambda>(vi, v). map (\<lambda>(fi, f). (vi, fi, fd_ty f)) (enumerate 0 (vd_fields v)))
       (enumerate 0 vs))"

fun try_niche ::
    "(Ty \<Rightarrow> Layout lay) \<Rightarrow> TyCtx \<Rightarrow> TargetInfo \<Rightarrow> Layout list \<Rightarrow> nat \<Rightarrow> (nat \<times> nat \<times> Ty) list \<Rightarrow>
     Layout option lay" where
  "try_niche rec ctx tgt vls n [] = sx_return None"
| "try_niche rec ctx tgt vls n ((vi, fi, fty) # cs) =
     sx_bind (niche_info rec ctx tgt fty) (\<lambda>info.
       case info of
         None \<Rightarrow> try_niche rec ctx tgt vls n cs
       | Some (start, count) \<Rightarrow>
           if count \<ge> of_nat (n - 1) then
             (if vi \<noteq> 0 \<and> vi + 1 \<noteq> n then try_niche rec ctx tgt vls n cs
              else sx_bind (build_niche_layout rec vls vi fi fty start n) (\<lambda>l. sx_return (Some l)))
           else try_niche rec ctx tgt vls n cs)"

definition try_niche_encoding ::
    "(Ty \<Rightarrow> Layout lay) \<Rightarrow> TyCtx \<Rightarrow> TargetInfo \<Rightarrow> AdtDef \<Rightarrow> Layout list \<Rightarrow> Layout option lay" where
  "try_niche_encoding rec ctx tgt def vls =
     try_niche rec ctx tgt vls (length (ad_variants def)) (niche_candidates (ad_variants def))"

definition discriminant_info :: "nat \<Rightarrow> Size \<times> Align \<times> Ty" where
  "discriminant_info variant_count =
     (if variant_count \<le> 256 then (1, 1, 4)
      else if variant_count \<le> 65536 then (2, 2, 5)
      else if variant_count \<le> 4294967296 then (4, 4, 6)
      else (8, 8, 7))"

text \<open>The loop over the variants: the largest end of a variant's data, and the alignment.\<close>

fun tag_variants :: "Size \<Rightarrow> Layout list \<Rightarrow> Size \<times> Align \<Rightarrow> panicked + Size \<times> Align" where
  "tag_variants tag_size [] acc = Inr acc"
| "tag_variants tag_size (v # vs) (max_size, align) =
     (case align_to tag_size (l_align v) of
        Inl e \<Rightarrow> Inl e
      | Inr start \<Rightarrow>
          tag_variants tag_size vs
            (max max_size (size_add start (l_size v)), max align (l_align v)))"

definition direct_tag_encoding :: "AdtDef \<Rightarrow> Layout list \<Rightarrow> panicked + Layout" where
  "direct_tag_encoding def vls =
     (case discriminant_info (length (ad_variants def)) of
        (tag_size, tag_align, tag_ty) \<Rightarrow>
          (case tag_variants tag_size vls (0, tag_align) of
             Inl e \<Rightarrow> Inl e
           | Inr (max_size, align) \<Rightarrow>
               (case align_to max_size align of
                  Inl e \<Rightarrow> Inl e
                | Inr sz \<Rightarrow>
                    (case align_to tag_size (case vls of [] \<Rightarrow> 1 | v # vs \<Rightarrow> max_by l_align (l_align v) vs) of
                       Inl e \<Rightarrow> Inl e
                     | Inr data_start \<Rightarrow>
                         Inr (Layout sz align (Arbitrary [0, data_start])
                           (Multiple tag_ty 0 TagEncoding.Direct vls tag_size tag_align) False)))))"

definition layout_enum ::
    "(Ty \<Rightarrow> Layout lay) \<Rightarrow> (Ty \<Rightarrow> Layout lay) \<Rightarrow> TyCtx \<Rightarrow> TargetInfo \<Rightarrow> AdtDef \<Rightarrow> Ty \<Rightarrow> Layout lay" where
  "layout_enum rec recs ctx tgt def outer_ty =
     (let n = length (ad_variants def)
      in if n = 0 then lay_err (UnknownType outer_ty)
         else if n = 1 then layout_single_variant_enum recs def
         else sx_bind (lay_map (layout_variant_data recs) (ad_variants def)) (\<lambda>vls.
              sx_bind (try_niche_encoding rec ctx tgt def vls) (\<lambda>r.
                case r of
                  Some l \<Rightarrow> sx_return l
                | None \<Rightarrow> lay_try (direct_tag_encoding def vls))))"

section \<open>Types\<close>

definition layout_adt ::
    "(Ty \<Rightarrow> Layout lay) \<Rightarrow> (GenericArg list \<Rightarrow> Ty \<Rightarrow> Ty lay) \<Rightarrow> TyCtx \<Rightarrow> TargetInfo \<Rightarrow> AdtId \<Rightarrow>
     Substitution \<Rightarrow> Ty \<Rightarrow> Layout lay" where
  "layout_adt rec sub ctx tgt adt substs outer_ty =
     (case tc_adt_defs ctx adt of
        None \<Rightarrow>
          (case tc_adt_reprs ctx adt of
             Some tys \<Rightarrow> layout_product rec tys
           | None \<Rightarrow> lay_err (UnknownType outer_ty))
      | Some def \<Rightarrow>
          sx_bind (get_args substs) (\<lambda>args.
            let recs = (\<lambda>ty. sx_bind (sub args ty) rec)
            in case ad_kind def of
                 Struct \<Rightarrow> layout_struct recs def
               | Enum \<Rightarrow> layout_enum rec recs ctx tgt def outer_ty
               | Union \<Rightarrow> layout_union recs def))"

definition fat_pointer :: "TargetInfo \<Rightarrow> Layout" where
  "fat_pointer tgt =
     Layout (saturating_mul64 (pointer_size tgt) 2) (pointer_align tgt)
       (Arbitrary [0, pointer_size tgt]) (Single 0) False"

definition thin_pointer :: "TargetInfo \<Rightarrow> Layout" where
  "thin_pointer tgt = layout_scalar (pointer_size tgt) (pointer_align tgt)"

definition bits_scalar :: "u32 \<Rightarrow> Layout" where
  "bits_scalar bw = layout_scalar (ucast bw div 8) (ucast bw div 8)"

definition layout_pointer :: "TargetInfo \<Rightarrow> Ty \<Rightarrow> Layout lay" where
  "layout_pointer tgt inner =
     sx_bind (get_kind inner) (\<lambda>k. sx_return
       (case k of
          TyKind.Slice _ \<Rightarrow> fat_pointer tgt
        | TyKind.String \<Rightarrow> fat_pointer tgt
        | _ \<Rightarrow> thin_pointer tgt))"

text \<open>A closure is its code pointer followed by its captures.\<close>

definition layout_closure :: "(Ty \<Rightarrow> Layout lay) \<Rightarrow> TargetInfo \<Rightarrow> Substitution \<Rightarrow> Layout lay" where
  "layout_closure rec tgt substs =
     sx_bind (get_args substs) (\<lambda>args.
     sx_bind (lay_try (place_field (thin_pointer tgt) ([], 1, 0))) (\<lambda>acc.
     sx_bind (place_fields rec (arg_tys args) acc) (\<lambda>acc'. lay_try (finish_product acc'))))"

definition check_align_max :: "Ty \<Rightarrow> Layout \<Rightarrow> Layout lay" where
  "check_align_max ty l =
     (if l_align l > ALIGN_MAX then lay_err (AlignmentExceedsRuntime ty (l_align l) ALIGN_MAX)
      else sx_return l)"

definition layout_of_inner ::
    "(Ty \<Rightarrow> Layout lay) \<Rightarrow> (GenericArg list \<Rightarrow> Ty \<Rightarrow> Ty lay) \<Rightarrow> TyCtx \<Rightarrow> TargetInfo \<Rightarrow> Ty \<Rightarrow> Layout lay" where
  "layout_of_inner rec sub ctx tgt ty =
     sx_bind (get_kind ty) (\<lambda>k.
       case k of
         TyKind.Bool \<Rightarrow> check_align_max ty (layout_scalar 1 1)
       | TyKind.Int i \<Rightarrow> check_align_max ty (bits_scalar (int_bit_width i tgt))
       | TyKind.Uint u \<Rightarrow> check_align_max ty (bits_scalar (uint_bit_width u tgt))
       | TyKind.Float f \<Rightarrow> check_align_max ty (bits_scalar (float_bit_width f))
       | TyKind.Char \<Rightarrow> check_align_max ty (layout_scalar 4 4)
       | TyKind.Never \<Rightarrow> check_align_max ty (layout_scalar 0 1)
       | TyKind.Unit \<Rightarrow> check_align_max ty layout_unit
       | TyKind.Ref _ inner _ \<Rightarrow> sx_bind (layout_pointer tgt inner) (check_align_max ty)
       | TyKind.RawPtr inner _ \<Rightarrow> sx_bind (layout_pointer tgt inner) (check_align_max ty)
       | TyKind.FnPtr _ \<Rightarrow> check_align_max ty (thin_pointer tgt)
       | TyKind.Dynamic _ _ \<Rightarrow> check_align_max ty (fat_pointer tgt)
       | TyKind.Slice _ \<Rightarrow> lay_err (Unsized ty)
       | TyKind.String \<Rightarrow> check_align_max ty (fat_pointer tgt)
       | TyKind.Tuple substs \<Rightarrow> layout_tuple rec substs
       | TyKind.Array inner count \<Rightarrow> layout_array rec inner count ty
       | TyKind.Adt adt substs \<Rightarrow> layout_adt rec sub ctx tgt adt substs ty
       | TyKind.Closure _ substs \<Rightarrow> sx_bind (layout_closure rec tgt substs) (check_align_max ty)
       | _ \<Rightarrow> lay_err (UnknownType ty))"

text \<open>
  The cycle guard: the type is inserted on entry and removed on every exit; a panic unwinds past
  the removal.
\<close>

definition layout_guard :: "Ty \<Rightarrow> Layout lay \<Rightarrow> Layout lay" where
  "layout_guard ty inner = (\<lambda>s.
     if ty \<in> ls_in_progress s then (Inl (Failed (Cycle ty)), s)
     else (case inner (s\<lparr>ls_in_progress := insert ty (ls_in_progress s)\<rparr>) of
             (Inl Crashed, s') \<Rightarrow> (Inl Crashed, s')
           | (Inl TooDeep, s') \<Rightarrow> (Inl TooDeep, s')
           | (r, s') \<Rightarrow> (r, s'\<lparr>ls_in_progress := ls_in_progress s' - {ty}\<rparr>)))"

primrec layout_of :: "nat \<Rightarrow> TyCtx \<Rightarrow> TargetInfo \<Rightarrow> Ty \<Rightarrow> Layout lay" where
  "layout_of 0 ctx tgt ty = sx_fail TooDeep"
| "layout_of (Suc n) ctx tgt ty =
     layout_guard ty (layout_of_inner (layout_of n ctx tgt) (subst_params n ctx) ctx tgt ty)"

section \<open>Calling conventions\<close>

definition pass_mode_for :: "Ty \<Rightarrow> Layout \<Rightarrow> CallConvention \<Rightarrow> PassMode lay" where
  "pass_mode_for ty l conv =
     sx_bind (get_kind ty) (\<lambda>k. sx_return
       (if k = TyKind.Never \<or> k = TyKind.Unit \<or> (l_size l = 0 \<and> \<not> l_is_unsized l) then Ignore
        else case conv of
          CallConvention.Glyim \<Rightarrow>
            (case k of
               TyKind.Tuple _ \<Rightarrow> Indirect False
             | TyKind.Adt _ _ \<Rightarrow> Indirect False
             | TyKind.Array _ _ \<Rightarrow> Indirect False
             | _ \<Rightarrow> PassMode.Direct)
        | _ \<Rightarrow> (if l_size l > 16 then Indirect False else PassMode.Direct)))"

definition arg_abi :: "(Ty \<Rightarrow> Layout lay) \<Rightarrow> CallConvention \<Rightarrow> Ty \<Rightarrow> ArgAbi lay" where
  "arg_abi rec conv ty =
     sx_bind (rec ty) (\<lambda>l.
     sx_bind (pass_mode_for ty l conv) (\<lambda>m.
       sx_return \<lparr>aa_ty = ty, aa_layout = l, aa_mode = m\<rparr>))"

definition fn_abi_of :: "(Ty \<Rightarrow> Layout lay) \<Rightarrow> FnSig \<Rightarrow> FnAbi lay" where
  "fn_abi_of rec sig =
     (let conv = conv_from_abi (fs_abi sig)
      in sx_bind (get_args (fs_inputs sig)) (\<lambda>args.
         sx_bind (lay_map (arg_abi rec conv) (arg_tys args)) (\<lambda>as.
         sx_bind (arg_abi rec conv (fs_output sig)) (\<lambda>ret.
           sx_return \<lparr>fa_args = as, fa_ret = ret, fa_conv = conv,
             fa_c_variadic = fs_c_variadic sig\<rparr>))))"

section \<open>Vtables\<close>

record VTableEntry =
  ve_name :: Name
  ve_sig :: FnSig
  ve_fn_def_id :: FnDefId

record VTableLayout =
  vt_trait_def_id :: TraitDefId
  vt_concrete_ty :: Ty
  vt_size :: Size
  vt_align :: Align
  vt_drop_fn :: "FnDefId option"
  vt_methods :: "VTableEntry list"

definition checked_mul_panic :: "u64 \<Rightarrow> u64 \<Rightarrow> panicked + u64" where
  "checked_mul_panic a b = (case checked_mul64 a b of None \<Rightarrow> Inl Panicked | Some c \<Rightarrow> Inr c)"

text \<open>\<open>usize\<close> values are naturals; \<open>3 + index\<close> panics past \<open>usize::MAX\<close>.\<close>

definition vtable_slot :: "nat \<Rightarrow> u64 \<Rightarrow> panicked + u64" where
  "vtable_slot n ptr_size =
     (if 3 + n > usize_max then Inl Panicked else checked_mul_panic (of_nat (3 + n)) ptr_size)"

definition memory_size :: "VTableLayout \<Rightarrow> u64 \<Rightarrow> panicked + u64 \<times> u64" where
  "memory_size vt ptr_size =
     (case vtable_slot (length (vt_methods vt)) ptr_size of
        Inl e \<Rightarrow> Inl e | Inr sz \<Rightarrow> Inr (sz, ptr_size))"

definition method_offset :: "nat \<Rightarrow> u64 \<Rightarrow> panicked + u64" where
  "method_offset index ptr_size = vtable_slot index ptr_size"

definition vtable_of :: "(Ty \<Rightarrow> Layout lay) \<Rightarrow> TyCtx \<Rightarrow> TraitDefId \<Rightarrow> Ty \<Rightarrow> VTableLayout lay" where
  "vtable_of rec ctx trait ty =
     sx_bind (rec ty) (\<lambda>l.
       case tc_trait_defs ctx trait of
         None \<Rightarrow> lay_err (UnknownTrait trait)
       | Some td \<Rightarrow>
           sx_return \<lparr>vt_trait_def_id = trait, vt_concrete_ty = ty, vt_size = l_size l,
             vt_align = l_align l, vt_drop_fn = None,
             vt_methods = map (\<lambda>m. \<lparr>ve_name = md_name m, ve_sig = md_sig m,
               ve_fn_def_id = (case md_fn_def_id m of Some f \<Rightarrow> f | None \<Rightarrow> u32_max)\<rparr>)
               (td_methods td)\<rparr>)"

end
