(* ===== verification/Layout_Inv.thy ===== *)
theory Layout_Inv
  imports Layout
begin

text \<open>
  The invariant of computed layouts.  \<open>lay_post I Q m\<close> is a Hoare triple for the layout
  computations: from a state of \<open>I\<close>, a value satisfies \<open>Q\<close>, and \<open>I\<close> holds again after a value and
  after a \<open>LayoutError\<close>.  Every method has its rule in \<open>lay_rules\<close>; the recursive call is
  discharged by induction on the depth bound.
\<close>

named_theorems lay_rules \<open>Hoare rules of the layout computations\<close>

section \<open>Alignment arithmetic\<close>

definition pow2 :: "u64 \<Rightarrow> bool" where
  "pow2 a \<longleftrightarrow> (\<exists>k<64. a = 2 ^ k)"

definition round_up :: "nat \<Rightarrow> nat \<Rightarrow> nat" where
  "round_up n a = (n + (a - 1)) div a * a"

lemma unat_pow2: "k < 64 \<Longrightarrow> unat (2 ^ k :: u64) = 2 ^ k"
proof -
  assume k: "k < 64"
  then have "(2 :: nat) ^ k < 2 ^ LENGTH(64)" by (intro power_strict_increasing) simp_all
  then have "unat (of_nat (2 ^ k) :: u64) = 2 ^ k"
    by (simp only: unsigned_of_nat take_bit_nat_eq_self of_nat_id)
  then show ?thesis by simp
qed

lemma unat_add_fits: "unat a + unat b < 2 ^ 64 \<Longrightarrow> unat (a + b :: u64) = unat a + unat b"
  using unat_add_lem [of a b] by simp

lemma pow2_unat: "pow2 a \<Longrightarrow> \<exists>k<64. unat a = 2 ^ k"
  by (auto simp: pow2_def unat_pow2)

lemma pow2_pos: "pow2 a \<Longrightarrow> 0 < unat a"
  using pow2_unat by fastforce

lemma pow2_1 [simp]: "pow2 1"
  unfolding pow2_def by (rule exI [of _ 0]) simp

lemma pow2_max: "pow2 a \<Longrightarrow> pow2 b \<Longrightarrow> pow2 (max a b)"
  by (simp add: max_def)

lemma pow2_dvd: "pow2 a \<Longrightarrow> pow2 b \<Longrightarrow> a \<le> b \<Longrightarrow> unat a dvd unat b"
  using pow2_unat [of a] pow2_unat [of b] by (auto simp: word_le_nat_alt le_imp_power_dvd)

lemma round_up_dvd: "a dvd round_up n a"
  by (simp add: round_up_def)

lemma round_up_ge:
  assumes "0 < a"
  shows "n \<le> round_up n a"
proof -
  have "(n + (a - 1)) mod a < a" using assms by simp
  moreover have "round_up n a + (n + (a - 1)) mod a = n + (a - 1)"
    by (simp add: round_up_def)
  ultimately show ?thesis using assms by linarith
qed

lemma round_up_less:
  assumes "0 < a"
  shows "round_up n a < n + a"
proof -
  have "round_up n a + (n + (a - 1)) mod a = n + (a - 1)"
    by (simp add: round_up_def)
  then show ?thesis using assms by linarith
qed

lemma and_not_mask_word: "x AND NOT (mask k) = push_bit k (drop_bit k (x :: 'a::len word))"
  by (rule bit_word_eqI) (auto simp: bit_simps)

lemma align_to_pow2:
  assumes "pow2 a"
  shows "align_to s a =
    (if unat s + (unat a - 1) < 2 ^ 64 then Inr (of_nat (round_up (unat s) (unat a))) else Inl Panicked)"
proof -
  obtain k where k: "k < 64" "a = 2 ^ k" using assms by (auto simp: pow2_def)
  have ua: "unat a = 2 ^ k" using k by (simp add: unat_pow2)
  then have a0: "a \<noteq> 0" by auto
  have m: "a - 1 = mask k" using k by (simp add: mask_eq_exp_minus_1)
  have um: "unat (a - 1) = unat a - 1" using a0 by (simp add: unat_minus_one)
  have "(s + (a - 1)) AND NOT (a - 1) = of_nat (round_up (unat s) (unat a))"
    if fit: "unat s + (unat a - 1) < 2 ^ 64"
  proof -
    have us: "unat (s + (a - 1)) = unat s + (unat a - 1)"
      using fit um by (simp add: unat_add_fits)
    let ?x = "s + (a - 1)"
    have d: "unat (drop_bit k ?x) = (unat s + (unat a - 1)) div 2 ^ k"
      unfolding unat_drop_bit_eq us by (simp add: drop_bit_eq_div)
    have le: "(unat s + (unat a - 1)) div 2 ^ k * 2 ^ k < 2 ^ 64"
      using fit by (rule order_le_less_trans [OF div_times_less_eq_dividend])
    have "unat (push_bit k (drop_bit k ?x)) = take_bit LENGTH(64) (push_bit k (unat (drop_bit k ?x)))"
      by (rule unsigned_push_bit_eq)
    also have "\<dots> = (unat s + (unat a - 1)) div 2 ^ k * 2 ^ k"
      unfolding d push_bit_eq_mult by (rule take_bit_nat_eq_self) (use le in simp)
    finally have "unat (push_bit k (drop_bit k ?x)) = (unat s + (unat a - 1)) div 2 ^ k * 2 ^ k" .
    then have "unat ((s + (a - 1)) AND NOT (a - 1)) = round_up (unat s) (unat a)"
      by (simp add: m and_not_mask_word round_up_def ua)
    then have "(of_nat (unat ((s + (a - 1)) AND NOT (a - 1))) :: u64) =
        of_nat (round_up (unat s) (unat a))" by (rule arg_cong)
    then show ?thesis by simp
  qed
  then show ?thesis using a0 um by (simp add: align_to_def Let_def)
qed

lemma align_to_Inr:
  assumes "pow2 a" and "align_to s a = Inr r"
  shows "unat r = round_up (unat s) (unat a) \<and> unat a dvd unat r \<and> s \<le> r \<and>
    unat r < unat s + unat a"
proof -
  have a: "0 < unat a" using assms(1) by (rule pow2_pos)
  have fit: "unat s + (unat a - 1) < 2 ^ 64" and r: "r = of_nat (round_up (unat s) (unat a))"
    using assms by (auto simp: align_to_pow2 split: if_splits)
  have "round_up (unat s) (unat a) < 2 ^ 64" using round_up_less [OF a, of "unat s"] fit a by linarith
  then have u: "unat r = round_up (unat s) (unat a)"
    unfolding r by (simp add: unsigned_of_nat take_bit_nat_eq_self)
  then show ?thesis
    using round_up_dvd round_up_ge [OF a] round_up_less [OF a] by (simp add: word_le_nat_alt)
qed

lemma u64_le_max: "unat (a :: u64) \<le> unat (- 1 :: u64)"
  by (simp flip: word_le_nat_alt)

lemma size_add_ge: "a \<le> size_add a b"
  using u64_le_max [of a] by (simp add: size_add_def saturating_add64_def word_le_nat_alt unat_add_fits)

lemma size_add_exact: "size_add a b \<noteq> - 1 \<Longrightarrow> unat (size_add a b) = unat a + unat b"
  by (auto simp: size_add_def saturating_add64_def unat_add_fits
      split: if_splits)

section \<open>The layout invariant\<close>

text \<open>
  A layout is well formed when its alignment is a power of two, its size a multiple of the
  alignment and its shape agrees with its size; an enum's variants are well formed, no more
  aligned than the enum, and each fits the enum behind the tag (\<open>Direct\<close>) or on top of it (\<open>Niche\<close>).
  The one exception is a size that saturated at \<open>u64::MAX\<close>.
\<close>

fun shape_ok :: "Size \<Rightarrow> FieldsShape \<Rightarrow> bool" where
  "shape_ok sz Primitive \<longleftrightarrow> True"
| "shape_ok sz (FieldsShape.Array stride n) \<longleftrightarrow> unat stride * unat n = unat sz"
| "shape_ok sz (Arbitrary offs) \<longleftrightarrow> (\<forall>off\<in>set offs. off \<le> sz)"

fun variant_fits :: "Size \<Rightarrow> TagEncoding \<Rightarrow> Size \<Rightarrow> Layout \<Rightarrow> bool" where
  "variant_fits sz TagEncoding.Direct tag_size v \<longleftrightarrow>
     sz = - 1 \<or> round_up (unat tag_size) (unat (l_align v)) + unat (l_size v) \<le> unat sz"
| "variant_fits sz (Niche _ _ _) tag_size v \<longleftrightarrow> l_size v \<le> sz"

fun tag_covers :: "TagEncoding \<Rightarrow> Size \<Rightarrow> nat \<Rightarrow> bool" where
  "tag_covers TagEncoding.Direct tag_size n \<longleftrightarrow> n \<le> 2 ^ (8 * unat tag_size) \<or> tag_size = 8"
| "tag_covers (Niche _ _ _) tag_size n \<longleftrightarrow> True"

fun layout_ok :: "Layout \<Rightarrow> bool" and variants_ok :: "Size \<Rightarrow> Align \<Rightarrow> VariantsShape \<Rightarrow> bool" where
  "layout_ok (Layout sz al fs vs uns) \<longleftrightarrow>
     pow2 al \<and> unat al dvd unat sz \<and> shape_ok sz fs \<and> variants_ok sz al vs"
| "variants_ok sz al (Single i) \<longleftrightarrow> True"
| "variants_ok sz al (Multiple tag tf enc vls tsz tal) \<longleftrightarrow>
     tag_covers enc tsz (length vls) \<and>
     (\<forall>v\<in>set vls. layout_ok v \<and> l_align v \<le> al \<and> variant_fits sz enc tsz v)"

lemma layout_okD: "layout_ok l \<Longrightarrow> pow2 (l_align l) \<and> unat (l_align l) dvd unat (l_size l)"
  by (cases l) simp

section \<open>Hoare rules\<close>

definition lay_post :: "(LayoutState \<Rightarrow> bool) \<Rightarrow> ('a \<Rightarrow> bool) \<Rightarrow> 'a lay \<Rightarrow> bool" where
  "lay_post I Q m \<longleftrightarrow>
     sx_triple I m (\<lambda>x s. Q x \<and> I s) (\<lambda>e s. \<forall>l. e = Failed l \<longrightarrow> I s)"

lemma lay_postD:
  "lay_post I Q m \<Longrightarrow> I s \<Longrightarrow> m s = (Inr x, s') \<Longrightarrow> Q x \<and> I s'"
  "lay_post I Q m \<Longrightarrow> I s \<Longrightarrow> m s = (Inl (Failed e), s') \<Longrightarrow> I s'"
  unfolding lay_post_def by (blast dest: sx_tripleD_Inr sx_tripleD_Inl)+

lemma lay_postI:
  assumes "\<And>s x s'. I s \<Longrightarrow> m s = (Inr x, s') \<Longrightarrow> Q x \<and> I s'"
    and "\<And>s e s'. I s \<Longrightarrow> m s = (Inl (Failed e), s') \<Longrightarrow> I s'"
  shows "lay_post I Q m"
  unfolding lay_post_def using assms by (intro sx_tripleI) blast+

lemma lay_post_weaken: "lay_post I R m \<Longrightarrow> (\<And>x. R x \<Longrightarrow> Q x) \<Longrightarrow> lay_post I Q m"
  by (rule lay_postI) (blast dest: lay_postD)+

lemma lay_post_True: "lay_post I Q m \<Longrightarrow> lay_post I (\<lambda>_. True) m"
  by (rule lay_post_weaken) auto

lemma lay_post_bind [lay_rules]:
  assumes "lay_post I R m" and "\<And>x. R x \<Longrightarrow> lay_post I Q (f x)"
  shows "lay_post I Q (sx_bind m f)"
proof (rule lay_postI)
  fix s x s' assume I: "I s" and r: "sx_bind m f s = (Inr x, s')"
  then obtain y t where "m s = (Inr y, t)" "f y t = (Inr x, s')"
    by (auto simp: sx_bind_def split: prod.splits sum.splits)
  with assms I show "Q x \<and> I s'" by (meson lay_postD)
next
  fix s e s' assume I: "I s" and r: "sx_bind m f s = (Inl (Failed e), s')"
  then consider "m s = (Inl (Failed e), s')" | y t where "m s = (Inr y, t)" "f y t = (Inl (Failed e), s')"
    by (auto simp: sx_bind_def split: prod.splits sum.splits)
  then show "I s'" using assms I by cases (meson lay_postD)+
qed

lemma lay_post_return [lay_rules]: "Q x \<Longrightarrow> lay_post I Q (sx_return x)"
  by (rule lay_postI) (auto simp: sx_apply)

lemma lay_post_err [lay_rules]: "lay_post I Q (lay_err e)"
  by (rule lay_postI) (auto simp: sx_apply lay_err_def)

lemma lay_post_crash [lay_rules]: "lay_post I Q (sx_fail Crashed)" "lay_post I Q (sx_fail TooDeep)"
  by (rule lay_postI; auto simp: sx_apply)+

lemma lay_post_try [lay_rules]: "(\<And>x. r = Inr x \<Longrightarrow> Q x) \<Longrightarrow> lay_post I Q (lay_try r)"
  by (rule lay_postI) (auto simp: sx_apply lay_try_def split: sum.splits)

lemma lay_post_get_kind [lay_rules]: "lay_post I (\<lambda>_. True) (get_kind ty)"
  by (rule lay_postI) (auto simp: sx_apply get_kind_def lay_try_def split: sum.splits)

lemma lay_post_get_args [lay_rules]: "lay_post I (\<lambda>_. True) (get_args sub)"
  by (rule lay_postI) (auto simp: sx_apply get_args_def lay_try_def split: sum.splits)

lemma lay_post_ok [lay_rules]: "lay_post I Q m \<Longrightarrow> lay_post I (\<lambda>_. True) (lay_ok m)"
  by (rule lay_postI)
    (auto simp: lay_ok_def split: prod.splits sum.splits layout_exn.splits dest: lay_postD)

lemma lay_post_map [lay_rules]:
  "(\<And>x. x \<in> set xs \<Longrightarrow> lay_post I Q (f x)) \<Longrightarrow>
   lay_post I (\<lambda>ys. length ys = length xs \<and> (\<forall>y\<in>set ys. Q y)) (lay_map f xs)"
proof (induction xs)
  case Nil
  show ?case by (auto intro: lay_rules)
next
  case (Cons x xs)
  have "lay_post I Q (f x)" using Cons.prems by simp
  moreover have "lay_post I (\<lambda>ys. length ys = length xs \<and> (\<forall>y\<in>set ys. Q y)) (lay_map f xs)"
    using Cons by simp
  ultimately show ?case by (auto intro!: lay_rules)
qed

text \<open>The state invariant: the set of types in progress is as given, and the arena extends one.\<close>

definition ext :: "Ty set \<Rightarrow> TypeArena \<Rightarrow> LayoutState \<Rightarrow> bool" where
  "ext P a s \<longleftrightarrow> ls_in_progress s = P \<and> arena_le a (ls_arena s)"

lemma lay_post_mk_ty [lay_rules]: "lay_post (ext P a) (\<lambda>_. True) (do_mk_ty ctx k)"
  by (rule lay_postI)
    (auto simp: do_mk_ty_def ext_def mk_ty_def split: sum.splits
      intro: arena_le_trans [OF _ alloc_ty_le])

lemma lay_post_intern [lay_rules]: "lay_post (ext P a) (\<lambda>_. True) (do_intern_substitution xs)"
  by (rule lay_postI)
    (auto simp: do_intern_substitution_def ext_def split: prod.splits
      intro: arena_le_trans [OF _ intern_substitution_le])

lemma lay_post_subst_params [lay_rules]:
  "lay_post (ext P a) (\<lambda>_. True) (subst_params n ctx substs ty)"
proof (induction n arbitrary: ty)
  case 0
  show ?case by (simp add: lay_rules)
next
  case (Suc n)
  have arg: "lay_post (ext P a) (\<lambda>_. True) (subst_arg (subst_params n ctx substs) g)" for g
    by (cases g) (auto simp: subst_arg_def intro!: lay_rules Suc)
  have args: "lay_post (ext P a) (\<lambda>_. True) (subst_args (subst_params n ctx substs) s)" for s
    unfolding subst_args_def
    by (rule lay_rules)+ (auto intro: lay_rules arg lay_post_True [OF lay_post_map])
  have "lay_post (ext P a) (\<lambda>_. True) (subst_kind ctx substs (subst_params n ctx substs) ty k)" for k
    by (cases k)
      (auto simp: subst_kind_def intro!: lay_rules Suc args split: option.split GenericArg.split)
  then show ?case by (auto intro!: lay_rules)
qed

subsection \<open>Products\<close>

fun acc_ok :: "place_acc \<Rightarrow> bool" where
  "acc_ok (offs, al, cur) \<longleftrightarrow> pow2 al \<and> (\<forall>off\<in>set offs. off \<le> cur)"

definition product_ok :: "Layout \<Rightarrow> bool" where
  "product_ok l \<longleftrightarrow> layout_ok l \<and> (\<exists>offs. l_fields l = Arbitrary offs)"

lemma product_okD: "product_ok l \<Longrightarrow> layout_ok l"
  by (simp add: product_ok_def)

lemma place_field_ok:
  assumes "layout_ok fl" and "acc_ok acc" and "place_field fl acc = Inr acc'"
  shows "acc_ok acc'"
proof -
  obtain offs al cur where acc: "acc = (offs, al, cur)" by (cases acc)
  have fl: "pow2 (l_align fl)" using assms(1) layout_okD by blast
  obtain off where off: "align_to cur (l_align fl) = Inr off"
    and acc': "acc' = (offs @ [off], max al (l_align fl), size_add off (l_size fl))"
    using assms(3) acc by (auto split: sum.splits)
  have "cur \<le> off" using align_to_Inr [OF fl off] by simp
  with assms(2) acc acc' fl size_add_ge [of off "l_size fl"] show ?thesis
    by (auto intro: pow2_max order_trans)
qed

lemma finish_product_ok:
  assumes "acc_ok acc" and "finish_product acc = Inr l"
  shows "product_ok l"
proof -
  obtain offs al cur where acc: "acc = (offs, al, cur)" by (cases acc)
  obtain sz where sz: "align_to cur al = Inr sz"
    and l: "l = Layout sz al (Arbitrary offs) (Single 0) False"
    using assms(2) acc by (auto split: sum.splits)
  have "pow2 al" using assms(1) acc by simp
  from align_to_Inr [OF this sz] assms(1) acc l show ?thesis
    by (auto simp: product_ok_def intro: order_trans)
qed

lemma lay_post_place_fields [lay_rules]:
  assumes rec: "\<And>t. lay_post I layout_ok (rec t)"
  shows "acc_ok acc \<Longrightarrow> lay_post I acc_ok (place_fields rec tys acc)"
proof (induction tys arbitrary: acc)
  case Nil
  then show ?case by (auto intro: lay_rules)
next
  case (Cons t tys)
  have "lay_post I acc_ok (lay_try (place_field fl acc))" if "layout_ok fl" for fl
    using place_field_ok [OF that Cons.prems] by (rule lay_post_try)
  then show ?case
    unfolding place_fields.simps by (intro lay_post_bind [OF rec]) (rule lay_post_bind, blast, rule Cons.IH)
qed

lemma lay_post_finish [lay_rules]: "acc_ok acc \<Longrightarrow> lay_post I product_ok (lay_try (finish_product acc))"
  by (rule lay_rules) (rule finish_product_ok)

lemma lay_post_product [lay_rules]:
  "(\<And>t. lay_post I layout_ok (rec t)) \<Longrightarrow> lay_post I product_ok (layout_product rec tys)"
  unfolding layout_product_def
  by (rule lay_post_bind [OF lay_post_place_fields lay_post_finish]) auto

lemma lay_post_union_fields [lay_rules]:
  assumes rec: "\<And>t. lay_post I layout_ok (rec t)"
  shows "acc_ok acc \<Longrightarrow> lay_post I acc_ok (union_fields rec tys acc)"
proof (induction tys arbitrary: acc)
  case Nil
  then show ?case by (auto intro: lay_rules)
next
  case (Cons t tys)
  obtain offs al cur where acc: "acc = (offs, al, cur)" by (cases acc)
  have "acc_ok (offs @ [0], max al (l_align fl), max cur (l_size fl))" if "layout_ok fl" for fl
    using Cons.prems acc layout_okD [OF that] by (auto simp: pow2_max le_max_iff_disj)
  then show ?case
    unfolding acc union_fields.simps by (intro lay_post_bind [OF rec] Cons.IH)
qed

subsection \<open>Enums\<close>

lemma max_by_ge: "d \<le> max_by f d xs" "x \<in> set xs \<Longrightarrow> f x \<le> max_by f d xs"
proof -
  have foldl_ge: "d \<le> foldl (\<lambda>m x. max m (f x)) d xs" for d and xs :: "'a list"
    by (induction xs arbitrary: d) (auto intro: order_trans [OF max.cobounded1])
  show "d \<le> max_by f d xs" using foldl_ge by (simp add: max_by_def)
  have "x \<in> set xs \<Longrightarrow> f x \<le> foldl (\<lambda>m x. max m (f x)) d xs" for d
  proof (induction xs arbitrary: d)
    case (Cons y ys)
    have "f y \<le> foldl (\<lambda>m x. max m (f x)) (max d (f y)) ys"
      using foldl_ge [of "max d (f y)" ys] by (rule order_trans [OF max.cobounded2])
    with Cons show ?case by auto
  qed simp
  then show "x \<in> set xs \<Longrightarrow> f x \<le> max_by f d xs" by (simp add: max_by_def)
qed

lemma max_by_in: "max_by f d xs = d \<or> (\<exists>x\<in>set xs. max_by f d xs = f x)"
proof -
  have "foldl (\<lambda>m x. max m (f x)) d xs = d \<or> (\<exists>x\<in>set xs. foldl (\<lambda>m x. max m (f x)) d xs = f x)"
  proof (induction xs arbitrary: d)
    case (Cons y ys)
    from Cons [of "max d (f y)"] show ?case by (auto simp: max_def split: if_splits)
  qed simp
  then show ?thesis by (simp add: max_by_def)
qed

lemma max_by_pow2: "pow2 d \<Longrightarrow> \<forall>x\<in>set xs. pow2 (f x) \<Longrightarrow> pow2 (max_by f d xs)"
  using max_by_in [of f d xs] by auto

lemma lay_post_variants [lay_rules]:
  assumes "\<And>t. lay_post I layout_ok (recs t)"
  shows "lay_post I (\<lambda>vls. length vls = length vs \<and> (\<forall>v\<in>set vls. product_ok v))
    (lay_map (layout_variant_data recs) vs)"
  using assms by (intro lay_rules) (simp add: layout_variant_data_def lay_post_product)

lemma build_niche_ok:
  assumes rec: "lay_post I layout_ok (rec fty)"
    and vls: "\<forall>v\<in>set vls. product_ok v" and vi: "vi < length vls"
  shows "lay_post I layout_ok (build_niche_layout rec vls vi fi fty start n)"
proof -
  let ?al = "max_by l_align 1 vls"
  have ok: "layout_ok v" if "v \<in> set vls" for v using vls that by (simp add: product_okD)
  have al: "pow2 ?al" using ok by (intro max_by_pow2) (auto dest: layout_okD)
  obtain offs where offs: "l_fields (vls ! vi) = Arbitrary offs"
    using bspec [OF vls nth_mem [OF vi]] by (auto simp: product_ok_def)
  have "layout_ok (Layout sz ?al (Arbitrary (shape_offsets (l_fields (vls ! vi))))
        (Multiple fty tf (Niche a b c) vls ts ta) False)"
    if sz: "align_to (max_by l_size 0 vls) ?al = Inr sz" for sz tf a b c ts ta
  proof -
    have m: "max_by l_size 0 vls \<le> sz" "unat ?al dvd unat sz" using align_to_Inr [OF al sz] by auto
    have le: "l_size v \<le> sz" if "v \<in> set vls" for v
      using max_by_ge(2) [OF that, of l_size 0] m by simp
    have "\<forall>off\<in>set offs. off \<le> l_size (vls ! vi)"
      using ok [OF nth_mem [OF vi]] offs by (cases "vls ! vi") auto
    then have "\<forall>off\<in>set offs. off \<le> sz" using le [of "vls ! vi"] vi by auto
    with al m le ok show ?thesis by (simp add: offs max_by_ge)
  qed
  then show ?thesis
    unfolding build_niche_layout_def Let_def
    by (intro lay_post_bind [OF lay_post_try lay_post_bind [OF rec]] lay_post_return)
qed

lemma lay_post_tag_count [lay_rules]: "lay_post I (\<lambda>_. True) (tag_value_count tgt ty)"
  unfolding tag_value_count_def by (rule lay_rules | simp)+

lemma lay_post_niche_info [lay_rules]:
  assumes rec: "\<And>t. lay_post I layout_ok (rec t)"
  shows "lay_post I (\<lambda>_. True) (niche_info rec ctx tgt ty)"
proof -
  have ret: "lay_post I (\<lambda>_. True) (sx_return x)" for x :: "(u128 \<times> u128) option"
    by (rule lay_post_return) simp
  have tag: "lay_post I (\<lambda>_. True) (sx_bind (tag_value_count tgt t) (\<lambda>x. sx_return (g x)))"
    for t and g :: "u128 option \<Rightarrow> (u128 \<times> u128) option"
    by (rule lay_post_bind [OF lay_post_tag_count ret])
  have ok: "lay_post I (\<lambda>_. True) (sx_bind (lay_ok (rec ty)) f)"
    if "\<And>x. lay_post I (\<lambda>_. True) (f x)" for f :: "Layout option \<Rightarrow> (u128 \<times> u128) option lay"
    using lay_post_bind [OF lay_post_ok [OF rec]] that by blast
  then show ?thesis
    unfolding niche_info_def niche_info_inner_def
    by (auto intro!: lay_post_bind [OF lay_post_get_kind] ret tag ok
        split: TyKind.split option.split VariantsShape.split)
qed

lemma try_niche_ok:
  assumes rec: "\<And>t. lay_post I layout_ok (rec t)" and vls: "\<forall>v\<in>set vls. product_ok v"
  shows "\<forall>(vi, _)\<in>set cs. vi < length vls \<Longrightarrow>
    lay_post I (\<lambda>r. \<forall>l. r = Some l \<longrightarrow> layout_ok l) (try_niche rec ctx tgt vls n cs)"
proof (induction cs)
  case Nil
  show ?case by (auto intro: lay_rules)
next
  case (Cons c cs)
  obtain vi fi fty where c: "c = (vi, fi, fty)" by (cases c)
  have IH: "lay_post I (\<lambda>r. \<forall>l. r = Some l \<longrightarrow> layout_ok l) (try_niche rec ctx tgt vls n cs)"
    using Cons by simp
  have vi: "vi < length vls" using Cons.prems c by simp
  have b: "lay_post I (\<lambda>r. \<forall>l. r = Some l \<longrightarrow> layout_ok l)
      (sx_bind (build_niche_layout rec vls vi fi fty start n) (\<lambda>l. sx_return (Some l)))" for start
    by (rule lay_post_bind [OF build_niche_ok [OF rec vls vi] lay_post_return]) simp
  show ?case
    unfolding c try_niche.simps
  proof (rule lay_post_bind [OF lay_post_niche_info [OF rec]])
    fix info :: "(u128 \<times> u128) option"
    show "lay_post I (\<lambda>r. \<forall>l. r = Some l \<longrightarrow> layout_ok l)
      (case info of None \<Rightarrow> try_niche rec ctx tgt vls n cs
       | Some (start, count) \<Rightarrow>
           if count \<ge> of_nat (n - 1) then
             (if vi \<noteq> 0 \<and> vi + 1 \<noteq> n then try_niche rec ctx tgt vls n cs
              else sx_bind (build_niche_layout rec vls vi fi fty start n) (\<lambda>l. sx_return (Some l)))
           else try_niche rec ctx tgt vls n cs)"
    proof (cases info)
      case None
      with IH show ?thesis by simp
    next
      case (Some p)
      obtain start count where "p = (start, count)" by (cases p)
      with Some IH b show ?thesis by simp
    qed
  qed
qed

lemma niche_candidates_index: "(vi, fi, t) \<in> set (niche_candidates vs) \<Longrightarrow> vi < length vs"
  by (auto simp: niche_candidates_def in_set_enumerate_eq)

lemma tag_variants_ok:
  assumes "tag_variants tsz vls (m0, al0) = Inr (m, al)"
    and "\<forall>v\<in>set vls. layout_ok v" and "pow2 al0"
  shows "pow2 al \<and> m0 \<le> m \<and> al0 \<le> al \<and> (\<forall>v\<in>set vls. l_align v \<le> al \<and>
    (\<exists>start. align_to tsz (l_align v) = Inr start \<and> size_add start (l_size v) \<le> m))"
  using assms
proof (induction vls arbitrary: m0 al0)
  case Nil
  then show ?case by simp
next
  case (Cons v vls)
  from Cons.prems(1) obtain start where s: "align_to tsz (l_align v) = Inr start"
    and r: "tag_variants tsz vls (max m0 (size_add start (l_size v)), max al0 (l_align v)) = Inr (m, al)"
    by (auto split: sum.splits)
  have "pow2 (max al0 (l_align v))" using Cons.prems layout_okD by (intro pow2_max) auto
  from Cons.IH [OF r _ this] Cons.prems s show ?case by auto
qed

lemma discriminant_covers:
  "discriminant_info n = (tsz, tal, tty) \<Longrightarrow> tag_covers TagEncoding.Direct tsz n \<and> pow2 tal \<and> tal = tsz"
  by (auto simp: discriminant_info_def pow2_def split: if_splits
      intro: exI [of _ "1 :: nat"] exI [of _ "2 :: nat"] exI [of _ "3 :: nat"] exI [of _ "0 :: nat"])

lemma direct_tag_ok:
  assumes d: "direct_tag_encoding def vls = Inr l" and vls: "\<forall>v\<in>set vls. layout_ok v"
    and len: "length vls = length (ad_variants def)" and ne: "vls \<noteq> []"
  shows "layout_ok l"
proof -
  obtain tsz tal tty where t: "discriminant_info (length (ad_variants def)) = (tsz, tal, tty)"
    by (cases "discriminant_info (length (ad_variants def))")
  obtain v0 vs where vs: "vls = v0 # vs" using ne by (cases vls) auto
  let ?mal = "max_by l_align (l_align v0) vs"
  obtain m al sz start where r: "tag_variants tsz vls (0, tal) = Inr (m, al)"
    and sz: "align_to m al = Inr sz" and st: "align_to tsz ?mal = Inr start"
    and l: "l = Layout sz al (Arbitrary [0, start]) (Multiple tty 0 TagEncoding.Direct vls tsz tal) False"
    using d t vs by (auto simp: direct_tag_encoding_def split: sum.splits)
  note cov = discriminant_covers [OF t]
  note tv = tag_variants_ok [OF r vls conjunct1 [OF conjunct2 [OF cov]]]
  have al: "pow2 al" using tv by blast
  note szs = align_to_Inr [OF al sz]
  obtain w where w: "w \<in> set vls" "?mal = l_align w"
    using max_by_in [of l_align "l_align v0" vs] vs by auto
  then obtain "start'" where "align_to tsz (l_align w) = Inr start'" "size_add start' (l_size w) \<le> m"
    using tv by blast
  with st w have "size_add start (l_size w) \<le> m" by simp
  with size_add_ge [of start "l_size w"] szs have start: "start \<le> sz" by (meson order_trans)
  have fit: "variant_fits sz TagEncoding.Direct tsz v" if v: "v \<in> set vls" for v
  proof -
    obtain st where st: "align_to tsz (l_align v) = Inr st" and le: "size_add st (l_size v) \<le> m"
      using tv v by blast
    have p: "pow2 (l_align v)" using vls v layout_okD by blast
    have "size_add st (l_size v) \<le> sz" using le szs by (meson order_trans)
    then show ?thesis
    proof (cases "size_add st (l_size v) = - 1")
      case True
      with \<open>size_add st (l_size v) \<le> sz\<close> have "sz = - 1" by (simp add: word_order.extremum_unique)
      then show ?thesis by simp
    next
      case False
      with \<open>size_add st (l_size v) \<le> sz\<close> size_add_exact align_to_Inr [OF p st] show ?thesis
        by (simp add: word_le_nat_alt)
    qed
  qed
  show ?thesis
    using al conjunct1 [OF conjunct2 [OF szs]] start fit tv vls cov len by (simp add: l)
qed

lemma lay_post_enum [lay_rules]:
  assumes rec: "\<And>t. lay_post I layout_ok (rec t)" and recs: "\<And>t. lay_post I layout_ok (recs t)"
  shows "lay_post I layout_ok (layout_enum rec recs ctx tgt def ty)"
proof -
  have single: "lay_post I layout_ok (layout_single_variant_enum recs def)"
    using lay_post_weaken [OF lay_post_product [OF recs] product_okD]
    by (auto simp: layout_single_variant_enum_def lay_rules split: list.split)
  have many: "lay_post I layout_ok (sx_bind (try_niche_encoding rec ctx tgt def vls)
      (\<lambda>r. case r of Some l \<Rightarrow> sx_return l | None \<Rightarrow> lay_try (direct_tag_encoding def vls)))"
    if vls: "length vls = length (ad_variants def) \<and> (\<forall>v\<in>set vls. product_ok v)"
      and ne: "ad_variants def \<noteq> []" for vls
  proof -
    have c: "\<forall>(vi, _)\<in>set (niche_candidates (ad_variants def)). vi < length vls"
      using niche_candidates_index vls by fastforce
    have ne': "vls \<noteq> []" using vls ne by auto
    have ok: "\<forall>v\<in>set vls. layout_ok v" using vls by (simp add: product_okD)
    have direct: "lay_post I layout_ok (lay_try (direct_tag_encoding def vls))"
      by (rule lay_post_try) (rule direct_tag_ok [OF _ ok conjunct1 [OF vls] ne'])
    show ?thesis
      unfolding try_niche_encoding_def
    proof (rule lay_post_bind [OF try_niche_ok [OF rec conjunct2 [OF vls] c]])
      fix r :: "Layout option" assume "\<forall>l. r = Some l \<longrightarrow> layout_ok l"
      with direct show "lay_post I layout_ok
          (case r of Some l \<Rightarrow> sx_return l | None \<Rightarrow> lay_try (direct_tag_encoding def vls))"
        by (cases r) (simp_all add: lay_post_return)
    qed
  qed
  consider "length (ad_variants def) = 0" | "length (ad_variants def) = 1"
    | "ad_variants def \<noteq> []" "length (ad_variants def) \<noteq> 1" by fastforce
  then show ?thesis
  proof cases
    case 3
    have "lay_post I layout_ok (sx_bind (lay_map (layout_variant_data recs) (ad_variants def)) (\<lambda>vls.
        sx_bind (try_niche_encoding rec ctx tgt def vls)
          (\<lambda>r. case r of Some l \<Rightarrow> sx_return l | None \<Rightarrow> lay_try (direct_tag_encoding def vls))))"
      by (rule lay_post_bind [OF lay_post_variants [OF recs] many [OF _ 3(1)]])
    with 3 show ?thesis by (simp add: layout_enum_def)
  qed (simp_all add: layout_enum_def single lay_post_err)
qed

subsection \<open>Types\<close>

definition target_ok :: "TargetInfo \<Rightarrow> bool" where
  "target_ok tgt \<longleftrightarrow> ti_pointer_width tgt = 32 \<or> ti_pointer_width tgt = 64"

lemma pow2_small [simp]: "pow2 2" "pow2 4" "pow2 8"
  unfolding pow2_def
  by (rule exI [of _ 1], simp, rule exI [of _ 2], simp, rule exI [of _ 3], simp)

lemma scalar_ok [simp]: "layout_ok (layout_scalar sz al) \<longleftrightarrow> pow2 al \<and> unat al dvd unat sz"
  by (simp add: layout_scalar_def)

lemma unit_ok [simp]: "layout_ok layout_unit" "product_ok layout_unit"
  by (simp_all add: layout_unit_def product_ok_def)

lemma pointers_ok:
  "target_ok tgt \<Longrightarrow> layout_ok (thin_pointer tgt)" "target_ok tgt \<Longrightarrow> layout_ok (fat_pointer tgt)"
  by (auto simp: target_ok_def thin_pointer_def fat_pointer_def pointer_size_def pointer_align_def
      saturating_mul64_def)

lemma bits_ok:
  "target_ok tgt \<Longrightarrow> layout_ok (bits_scalar (int_bit_width i tgt))"
  "target_ok tgt \<Longrightarrow> layout_ok (bits_scalar (uint_bit_width u tgt))"
  "layout_ok (bits_scalar (float_bit_width f))"
  by (cases i; auto simp: bits_scalar_def target_ok_def)
    (cases u; auto simp: bits_scalar_def target_ok_def; cases f; auto simp: bits_scalar_def)+

lemma lay_post_check [lay_rules]: "layout_ok l \<Longrightarrow> lay_post I layout_ok (check_align_max ty l)"
  by (auto simp: check_align_max_def intro: lay_rules)

lemma lay_post_pointer [lay_rules]: "target_ok tgt \<Longrightarrow> lay_post I layout_ok (layout_pointer tgt ty)"
  unfolding layout_pointer_def
  by (rule lay_post_bind [OF lay_post_get_kind lay_post_return])
    (auto simp: pointers_ok split: TyKind.split)

lemma lay_post_tuple [lay_rules]:
  assumes "\<And>t. lay_post I layout_ok (rec t)"
  shows "lay_post I layout_ok (layout_tuple rec substs)"
  unfolding layout_tuple_def
  by (rule lay_post_bind [OF lay_post_get_args])
    (auto intro: lay_post_return lay_post_weaken [OF lay_post_product [OF assms] product_okD])

lemma lay_post_array [lay_rules]:
  assumes "lay_post I layout_ok (rec inner)"
  shows "lay_post I layout_ok (layout_array rec inner count ty)"
proof -
  have n: "lay_post I (\<lambda>_. True) (array_count ty k)" for k
    by (cases k) (auto simp: array_count_def intro: lay_rules)
  have "layout_ok (Layout sz (l_align il) (FieldsShape.Array stride n) (Single 0) False)"
    if il: "layout_ok il" and st: "align_to (l_size il) (l_align il) = Inr stride"
      and sz: "checked_mul64 stride n = Some sz" for il stride n sz
  proof -
    have "unat sz = unat stride * unat n"
      using sz unat_mult_lem [of stride n] by (auto simp: checked_mul64_def split: if_splits)
    moreover have "unat (l_align il) dvd unat stride"
      using align_to_Inr [OF conjunct1 [OF layout_okD [OF il]] st] by blast
    ultimately show ?thesis using layout_okD [OF il] by simp
  qed
  then show ?thesis
    unfolding layout_array_def
    by (intro lay_post_bind [OF assms lay_post_bind [OF n lay_post_bind [OF lay_post_try]]])
      (auto intro: lay_rules split: option.split)
qed

lemma lay_post_union [lay_rules]:
  assumes "\<And>t. lay_post I layout_ok (recs t)"
  shows "lay_post I layout_ok (layout_union recs def)"
  unfolding layout_union_def
  by (rule lay_post_bind [OF lay_post_union_fields [OF assms]
        lay_post_weaken [OF lay_post_finish product_okD]]) auto

lemma lay_post_adt [lay_rules]:
  assumes rec: "\<And>t. lay_post I layout_ok (rec t)"
    and sub: "\<And>args t. lay_post I (\<lambda>_. True) (sub args t)"
  shows "lay_post I layout_ok (layout_adt rec sub ctx tgt adt substs ty)"
proof (cases "tc_adt_defs ctx adt")
  case None
  then show ?thesis
    using lay_post_weaken [OF lay_post_product [OF rec] product_okD]
    by (auto simp: layout_adt_def intro: lay_rules split: option.split)
next
  case (Some def)
  have recs: "lay_post I layout_ok (sx_bind (sub args t) rec)" for args t
    by (rule lay_post_bind [OF sub rec])
  have "lay_post I layout_ok (case ad_kind def of
      Struct \<Rightarrow> layout_struct (\<lambda>t. sx_bind (sub args t) rec) def
    | Enum \<Rightarrow> layout_enum rec (\<lambda>t. sx_bind (sub args t) rec) ctx tgt def ty
    | Union \<Rightarrow> layout_union (\<lambda>t. sx_bind (sub args t) rec) def)" for args
    using lay_post_enum [OF rec recs] lay_post_union [OF recs]
      lay_post_weaken [OF lay_post_product [OF recs] product_okD]
    by (cases "ad_kind def") (simp_all add: layout_struct_def)
  then show ?thesis
    unfolding layout_adt_def Some Let_def option.case
    by (intro lay_post_bind [OF lay_post_get_args])
qed

lemma lay_post_closure [lay_rules]:
  assumes rec: "\<And>t. lay_post I layout_ok (rec t)" and "target_ok tgt"
  shows "lay_post I layout_ok (layout_closure rec tgt substs)"
proof -
  have "lay_post I acc_ok (lay_try (place_field (thin_pointer tgt) ([], 1, 0)))"
    using place_field_ok [OF pointers_ok(1) [OF assms(2)], of "([], 1, 0)"]
    by (intro lay_post_try) simp
  then show ?thesis
    unfolding layout_closure_def
    by (intro lay_post_bind [OF lay_post_get_args lay_post_bind]
        lay_post_bind [OF lay_post_place_fields [OF rec] lay_post_weaken [OF lay_post_finish product_okD]])
qed

lemma lay_post_inner:
  assumes "\<And>t. lay_post I layout_ok (rec t)" and "\<And>args t. lay_post I (\<lambda>_. True) (sub args t)"
    and "target_ok tgt"
  shows "lay_post I layout_ok (layout_of_inner rec sub ctx tgt ty)"
  unfolding layout_of_inner_def
  by (rule lay_post_bind [OF lay_post_get_kind])
    (auto intro!: lay_rules assms bits_ok pointers_ok split: TyKind.split)

lemma lay_post_guard:
  assumes "lay_post (ext (insert ty P) a) layout_ok inner"
  shows "lay_post (ext P a) layout_ok (layout_guard ty inner)"
proof (rule lay_postI)
  fix s x s' assume s: "ext P a s" and r: "layout_guard ty inner s = (Inr x, s')"
  from s have e: "ext (insert ty P) a (s\<lparr>ls_in_progress := insert ty (ls_in_progress s)\<rparr>)"
    by (simp add: ext_def)
  from r obtain t where t: "ty \<notin> ls_in_progress s" "s' = t\<lparr>ls_in_progress := ls_in_progress t - {ty}\<rparr>"
    "inner (s\<lparr>ls_in_progress := insert ty (ls_in_progress s)\<rparr>) = (Inr x, t)"
    by (auto simp: layout_guard_def split: if_splits prod.splits sum.splits layout_exn.splits)
  with lay_postD(1) [OF assms e] s show "layout_ok x \<and> ext P a s'" by (auto simp: ext_def)
next
  fix s f s' assume s: "ext P a s" and r: "layout_guard ty inner s = (Inl (Failed f), s')"
  from s have e: "ext (insert ty P) a (s\<lparr>ls_in_progress := insert ty (ls_in_progress s)\<rparr>)"
    by (simp add: ext_def)
  from r consider "s' = s" | t where "ty \<notin> ls_in_progress s"
    "s' = t\<lparr>ls_in_progress := ls_in_progress t - {ty}\<rparr>"
    "inner (s\<lparr>ls_in_progress := insert ty (ls_in_progress s)\<rparr>) = (Inl (Failed f), t)"
    by (auto simp: layout_guard_def split: if_splits prod.splits sum.splits layout_exn.splits)
  then show "ext P a s'" using lay_postD(2) [OF assms e] s by cases (auto simp: ext_def)
qed

lemma lay_post_layout_of [lay_rules]:
  assumes "target_ok tgt"
  shows "lay_post (ext P a) layout_ok (layout_of n ctx tgt ty)"
proof (induction n arbitrary: P ty)
  case 0
  show ?case by (simp add: lay_rules)
next
  case (Suc n)
  show ?case
    unfolding layout_of.simps
    by (rule lay_post_guard, rule lay_post_inner [OF Suc lay_post_subst_params assms])
qed

end
