(* ===== verification/Layout_Theorems.thy ===== *)
theory Layout_Theorems
  imports Layout_Inv Type_Arena_Props
begin

text \<open>
  Properties of type layout: alignment arithmetic, the soundness of every computed layout, the
  placement of fields, the rejection of recursive types, and what goes wrong: sums of sizes that
  saturate, niches that overlap another variant's data and nested niches that collide with a
  value.
\<close>

section \<open>Placement of fields\<close>

text \<open>Placing a list of layouts without computing them.\<close>

fun place_all :: "Layout list \<Rightarrow> place_acc \<Rightarrow> panicked + place_acc" where
  "place_all [] acc = Inr acc"
| "place_all (fl # fls) acc =
     (case place_field fl acc of Inl e \<Rightarrow> Inl e | Inr acc' \<Rightarrow> place_all fls acc')"

lemma place_all_snoc:
  "place_all (fls @ [fl]) acc =
     (case place_all fls acc of Inl e \<Rightarrow> Inl e | Inr acc' \<Rightarrow> place_field fl acc')"
  by (induction fls arbitrary: acc) (auto split: sum.splits)

lemma place_fields_split:
  "place_fields rec tys acc s = (Inr acc', s') \<Longrightarrow>
   \<exists>fls. lay_map rec tys s = (Inr fls, s') \<and> place_all fls acc = Inr acc'"
proof (induction tys arbitrary: acc s)
  case Nil
  then show ?case by (simp add: sx_apply)
next
  case (Cons t tys)
  from Cons.prems obtain fl s1 acc1 where r: "rec t s = (Inr fl, s1)"
    and p: "place_field fl acc = Inr acc1" and ps: "place_fields rec tys acc1 s1 = (Inr acc', s')"
    by (auto simp: sx_bind_def sx_apply lay_try_def split: prod.splits sum.splits)
  from Cons.IH [OF ps] obtain fls where "lay_map rec tys s1 = (Inr fls, s')"
    "place_all fls acc1 = Inr acc'" by blast
  with r p show ?case by (intro exI [of _ "fl # fls"]) (simp add: sx_apply)
qed

text \<open>
  \<open>field_end\<close>: where field \<open>i - 1\<close> ends.  \<open>packed\<close>: every field is aligned, starts at the first
  aligned offset after its predecessor, and no two fields overlap.
\<close>

definition field_end :: "Layout list \<Rightarrow> Size list \<Rightarrow> nat \<Rightarrow> nat" where
  "field_end fls offs i =
     (if i = 0 then 0 else unat (offs ! (i - 1)) + unat (l_size (fls ! (i - 1))))"

definition packed :: "Layout list \<Rightarrow> Size list \<Rightarrow> bool" where
  "packed fls offs \<longleftrightarrow>
     length offs = length fls \<and>
     (\<forall>i < length fls. unat (l_align (fls ! i)) dvd unat (offs ! i) \<and>
        field_end fls offs i \<le> unat (offs ! i) \<and>
        unat (offs ! i) < field_end fls offs i + unat (l_align (fls ! i))) \<and>
     (\<forall>i j. i < j \<and> j < length fls \<longrightarrow> unat (offs ! i) + unat (l_size (fls ! i)) \<le> unat (offs ! j))"

lemma place_all_packed:
  assumes "place_all fls ([], 1, 0) = Inr (offs, al, cur)" and "\<forall>fl\<in>set fls. pow2 (l_align fl)"
  shows "length offs = length fls \<and> al = max_by l_align 1 fls \<and>
    (cur \<noteq> - 1 \<longrightarrow> packed fls offs \<and> unat cur = field_end fls offs (length fls))"
  using assms
proof (induction fls arbitrary: offs al cur rule: rev_induct)
  case Nil
  then show ?case by (auto simp: packed_def field_end_def max_by_def)
next
  case (snoc fl fls)
  from snoc.prems(1) obtain offs' al' cur' off where
    p: "place_all fls ([], 1, 0) = Inr (offs', al', cur')"
    and off: "align_to cur' (l_align fl) = Inr off"
    and eq: "offs = offs' @ [off]" "al = max al' (l_align fl)" "cur = size_add off (l_size fl)"
    by (auto simp: place_all_snoc split: sum.splits)
  have al: "pow2 (l_align fl)" using snoc.prems(2) by simp
  note o = align_to_Inr [OF al off]
  have IH: "length offs' = length fls" "al' = max_by l_align 1 fls"
    and IHp: "cur' \<noteq> - 1 \<Longrightarrow> packed fls offs' \<and> unat cur' = field_end fls offs' (length fls)"
    using snoc.IH [OF p] snoc.prems(2) by auto
  have fe: "field_end (fls @ [fl]) offs i = field_end fls offs' i" if "i \<le> length fls" for i
    using that IH(1) by (auto simp: field_end_def eq nth_append)
  have "packed (fls @ [fl]) offs \<and> unat cur = field_end (fls @ [fl]) offs (length (fls @ [fl]))"
    if n: "cur \<noteq> - 1"
  proof -
    have "cur' \<le> cur" using o eq size_add_ge [of off "l_size fl"] by (auto intro: order_trans)
    with n have "cur' \<noteq> - 1" by (auto simp: word_order.extremum_unique)
    with IHp have pk: "packed fls offs'" and c: "unat cur' = field_end fls offs' (length fls)" by auto
    have lo: "field_end fls offs' (length fls) \<le> unat off" using o c by (simp add: word_le_nat_alt)
    have before: "unat (offs' ! i) + unat (l_size (fls ! i)) \<le> unat off" if i: "i < length fls" for i
    proof (cases "i = length fls - 1")
      case True
      with i lo show ?thesis by (simp add: field_end_def split: if_splits)
    next
      case False
      then have "i < length fls - 1" using i by simp
      then have "unat (offs' ! i) + unat (l_size (fls ! i)) \<le> unat (offs' ! (length fls - 1))"
        using pk by (auto simp: packed_def)
      also have "\<dots> \<le> unat off" using lo i by (simp add: field_end_def split: if_splits)
      finally show ?thesis .
    qed
    have "packed (fls @ [fl]) offs"
      unfolding packed_def
    proof (intro conjI allI impI)
      show "length offs = length (fls @ [fl])" using IH eq by simp
    next
      fix i assume "i < length (fls @ [fl])"
      then consider "i < length fls" | "i = length fls" by fastforce
      then have "unat (l_align ((fls @ [fl]) ! i)) dvd unat (offs ! i) \<and>
        field_end (fls @ [fl]) offs i \<le> unat (offs ! i) \<and>
        unat (offs ! i) < field_end (fls @ [fl]) offs i + unat (l_align ((fls @ [fl]) ! i))"
      proof cases
        case 1
        with pk fe [of i] IH(1) show ?thesis by (simp add: packed_def eq nth_append)
      next
        case 2
        with o c lo fe [of i] IH(1) show ?thesis by (simp add: eq nth_append round_up_dvd)
      qed
      then show "unat (l_align ((fls @ [fl]) ! i)) dvd unat (offs ! i)"
        "field_end (fls @ [fl]) offs i \<le> unat (offs ! i)"
        "unat (offs ! i) < field_end (fls @ [fl]) offs i + unat (l_align ((fls @ [fl]) ! i))" by auto
    next
      fix i j assume "i < j \<and> j < length (fls @ [fl])"
      then show "unat (offs ! i) + unat (l_size ((fls @ [fl]) ! i)) \<le> unat (offs ! j)"
        using pk before IH(1) by (auto simp: packed_def eq nth_append less_Suc_eq)
    qed
    then show ?thesis using n eq IH(1) by (simp add: size_add_exact field_end_def nth_append)
  qed
  with IH show ?case by (auto simp: eq max_by_def)
qed

lemma product_packed:
  assumes rec: "\<And>t. lay_post I layout_ok (rec t)" and I: "I s"
    and l: "layout_product rec tys s = (Inr l, s')"
  shows "\<exists>fls offs. lay_map rec tys s = (Inr fls, s') \<and> l_fields l = Arbitrary offs \<and>
    length offs = length tys \<and> l_align l = max_by l_align 1 fls \<and>
    (l_size l \<noteq> - 1 \<longrightarrow> packed fls offs \<and> field_end fls offs (length fls) \<le> unat (l_size l) \<and>
       unat (l_size l) < field_end fls offs (length fls) + unat (l_align l))"
proof -
  obtain offs al cur s1 where p: "place_fields rec tys ([], 1, 0) s = (Inr (offs, al, cur), s1)"
    and f: "finish_product (offs, al, cur) = Inr l" and s1: "s1 = s'"
    using l by (auto simp: layout_product_def sx_bind_def lay_try_def sx_apply
        split: prod.splits sum.splits)
  from f obtain sz where sz: "align_to cur al = Inr sz"
    and ld: "l = Layout sz al (Arbitrary offs) (Single 0) False"
    by (auto split: sum.splits)
  from place_fields_split [OF p] obtain fls where m: "lay_map rec tys s = (Inr fls, s1)"
    and a: "place_all fls ([], 1, 0) = Inr (offs, al, cur)" by blast
  have len: "length fls = length tys" and pw: "\<forall>fl\<in>set fls. pow2 (l_align fl)"
    using lay_postD(1) [OF lay_post_map [OF rec] I m] layout_okD by blast+
  note pk = place_all_packed [OF a pw]
  have "pow2 al" using pk pw by (auto intro: max_by_pow2)
  note szs = align_to_Inr [OF this sz]
  have "cur \<noteq> - 1" if "sz \<noteq> - 1" using szs that by (auto simp: word_order.extremum_unique)
  then show ?thesis
    using m s1 pk szs len by (auto simp: ld word_le_nat_alt)
qed

section \<open>Depth bounds\<close>

text \<open>\<open>deeper m m'\<close>: \<open>m'\<close> agrees with \<open>m\<close> wherever \<open>m\<close> does not run out of depth.\<close>

named_theorems deeper_rules \<open>monotonicity in the depth bound\<close>

definition deeper :: "'a lay \<Rightarrow> 'a lay \<Rightarrow> bool" where
  "deeper m m' \<longleftrightarrow> (\<forall>s. fst (m s) \<noteq> Inl TooDeep \<longrightarrow> m' s = m s)"

lemma deeper_refl [deeper_rules]: "deeper m m"
  by (simp add: deeper_def)

lemma deeper_fail [deeper_rules]: "deeper (sx_fail TooDeep) m"
  by (simp add: deeper_def sx_apply)

lemma deeper_bind [deeper_rules]:
  assumes "deeper m m'" and "\<And>x. deeper (f x) (f' x)"
  shows "deeper (sx_bind m f) (sx_bind m' f')"
  unfolding deeper_def
proof (intro allI impI)
  fix s assume ne: "fst (sx_bind m f s) \<noteq> Inl TooDeep"
  obtain r t where m: "m s = (r, t)" by (cases "m s")
  with ne have "r \<noteq> Inl TooDeep" by (auto simp: sx_bind_def)
  with assms(1) m have m': "m' s = (r, t)" by (simp add: deeper_def)
  show "sx_bind m' f' s = sx_bind m f s"
    using assms(2) ne m m' by (cases r) (auto simp: deeper_def)
qed

lemma deeper_map [deeper_rules]: "(\<And>x. deeper (f x) (f' x)) \<Longrightarrow> deeper (lay_map f xs) (lay_map f' xs)"
  by (induction xs) (auto intro!: deeper_rules)

lemma deeper_ok [deeper_rules]: "deeper m m' \<Longrightarrow> deeper (lay_ok m) (lay_ok m')"
  unfolding deeper_def lay_ok_def
  by (force split: prod.splits sum.splits layout_exn.splits)

lemma deeper_subst: "deeper (subst_params n ctx xs t) (subst_params (Suc n) ctx xs t)"
proof (induction n arbitrary: t)
  case 0
  show ?case by (simp add: deeper_rules)
next
  case (Suc n)
  have "deeper (subst_arg (subst_params n ctx xs) g) (subst_arg (subst_params (Suc n) ctx xs) g)" for g
    unfolding subst_arg_def by (cases g) (auto intro!: deeper_rules Suc simp del: subst_params.simps)
  then have "deeper (subst_args (subst_params n ctx xs) s) (subst_args (subst_params (Suc n) ctx xs) s)" for s
    unfolding subst_args_def by (intro deeper_rules)
  then have "deeper (subst_kind ctx xs (subst_params n ctx xs) t k)
      (subst_kind ctx xs (subst_params (Suc n) ctx xs) t k)" for k
    unfolding subst_kind_def by (cases k) (auto intro!: deeper_rules Suc simp del: subst_params.simps)
  then show ?case
    unfolding subst_params.simps(2) [of "Suc n"] subst_params.simps(2) [of n ctx xs t]
    by (auto intro!: deeper_rules simp del: subst_params.simps)
qed

lemma deeper_place [deeper_rules]:
  "(\<And>t. deeper (rec t) (rec' t)) \<Longrightarrow> deeper (place_fields rec tys acc) (place_fields rec' tys acc)"
  by (induction tys arbitrary: acc) (auto intro!: deeper_rules)

lemma deeper_union [deeper_rules]:
  "(\<And>t. deeper (rec t) (rec' t)) \<Longrightarrow> deeper (union_fields rec tys acc) (union_fields rec' tys acc)"
proof (induction tys arbitrary: acc)
  case (Cons t tys)
  then show ?case by (cases acc) (auto intro!: deeper_rules)
qed (simp add: deeper_rules)

lemma deeper_product [deeper_rules]:
  "(\<And>t. deeper (rec t) (rec' t)) \<Longrightarrow> deeper (layout_product rec tys) (layout_product rec' tys)"
  unfolding layout_product_def by (intro deeper_rules)

lemma deeper_niche_info [deeper_rules]:
  assumes "\<And>t. deeper (rec t) (rec' t)"
  shows "deeper (niche_info rec ctx tgt t) (niche_info rec' ctx tgt t)"
  unfolding niche_info_def niche_info_inner_def
  by (auto intro!: deeper_rules assms split: TyKind.split option.split)

lemma deeper_niche [deeper_rules]:
  assumes "\<And>t. deeper (rec t) (rec' t)"
  shows "deeper (try_niche rec ctx tgt vls n cs) (try_niche rec' ctx tgt vls n cs)"
proof (induction cs)
  case (Cons c cs)
  obtain vi fi fty where c: "c = (vi, fi, fty)" by (cases c)
  have b: "deeper (build_niche_layout rec vls vi fi fty start n)
      (build_niche_layout rec' vls vi fi fty start n)" for start vi
    unfolding build_niche_layout_def Let_def by (intro deeper_rules assms)
  have "deeper (sx_bind (build_niche_layout rec vls vi fi fty start n) (\<lambda>l. sx_return (Some l)))
      (sx_bind (build_niche_layout rec' vls vi fi fty start n) (\<lambda>l. sx_return (Some l)))" for start vi
    by (intro deeper_bind b deeper_refl)
  with Cons.IH show ?case
    unfolding c try_niche.simps
    by (intro deeper_bind [OF deeper_niche_info [OF assms]]) (simp add: deeper_refl split: option.split)
qed (simp add: deeper_rules)

lemma deeper_enum [deeper_rules]:
  assumes "\<And>t. deeper (rec t) (rec' t)" and "\<And>t. deeper (recs t) (recs' t)"
  shows "deeper (layout_enum rec recs ctx tgt def ty) (layout_enum rec' recs' ctx tgt def ty)"
  unfolding layout_enum_def layout_single_variant_enum_def Let_def try_niche_encoding_def
    layout_variant_data_def
  by (auto intro!: deeper_rules assms split: list.split)

lemma deeper_inner [deeper_rules]:
  assumes rec: "\<And>t. deeper (rec t) (rec' t)" and sub: "\<And>xs t. deeper (sub xs t) (sub' xs t)"
  shows "deeper (layout_of_inner rec sub ctx tgt ty) (layout_of_inner rec' sub' ctx tgt ty)"
proof -
  have adt: "deeper (layout_adt rec sub ctx tgt adt substs ty) (layout_adt rec' sub' ctx tgt adt substs ty)"
    for adt substs
    unfolding layout_adt_def layout_struct_def layout_union_def Let_def
    by (auto intro!: deeper_rules rec sub split: option.split AdtKind.split)
  have tup: "deeper (layout_tuple rec substs) (layout_tuple rec' substs)" for substs
    unfolding layout_tuple_def by (auto intro!: deeper_rules rec)
  have arr: "deeper (layout_array rec t c ty) (layout_array rec' t c ty)" for t c
    unfolding layout_array_def by (intro deeper_rules rec)
  have clo: "deeper (layout_closure rec tgt substs) (layout_closure rec' tgt substs)" for substs
    unfolding layout_closure_def by (intro deeper_rules rec)
  show ?thesis
    unfolding layout_of_inner_def
    by (auto intro!: deeper_bind [OF deeper_refl] deeper_bind [OF clo deeper_refl] adt tup arr
        deeper_refl split: TyKind.split)
qed

lemma deeper_guard [deeper_rules]:
  assumes "deeper m m'"
  shows "deeper (layout_guard ty m) (layout_guard ty m')"
  unfolding deeper_def
proof (intro allI impI)
  fix s assume ne: "fst (layout_guard ty m s) \<noteq> Inl TooDeep"
  let ?s = "s\<lparr>ls_in_progress := insert ty (ls_in_progress s)\<rparr>"
  obtain r t where r: "m ?s = (r, t)" by (cases "m ?s")
  show "layout_guard ty m' s = layout_guard ty m s"
  proof (cases "ty \<in> ls_in_progress s")
    case False
    with ne r have "r \<noteq> Inl TooDeep" by (auto simp: layout_guard_def)
    with assms r have "m' ?s = (r, t)" by (simp add: deeper_def)
    with r show ?thesis by (simp add: layout_guard_def)
  qed (simp add: layout_guard_def)
qed

lemma deeper_layout_of: "deeper (layout_of n ctx tgt ty) (layout_of (Suc n) ctx tgt ty)"
proof (induction n arbitrary: ty)
  case 0
  show ?case by (simp add: deeper_rules)
next
  case (Suc n)
  show ?case
    unfolding layout_of.simps(2) [of "Suc n"] layout_of.simps(2) [of n ctx tgt ty]
    by (intro deeper_rules Suc deeper_subst)
qed

section \<open>Unfolding one call\<close>

definition enter :: "Ty \<Rightarrow> LayoutState \<Rightarrow> LayoutState" where
  "enter ty s = s\<lparr>ls_in_progress := insert ty (ls_in_progress s)\<rparr>"

lemma enter_arena [simp]: "ls_arena (enter ty s) = ls_arena s"
  by (simp add: enter_def)

lemma ext_enter: "ext (ls_in_progress (enter ty s)) (ls_arena s) (enter ty s)"
  by (simp add: ext_def)

lemma guard_Inr:
  assumes "layout_guard ty inner s = (Inr l, s')"
  obtains t where "inner (enter ty s) = (Inr l, t)" and "ty \<notin> ls_in_progress s"
  using assms
  by (auto simp: layout_guard_def enter_def split: if_splits prod.splits sum.splits layout_exn.splits)

lemma bind_Inr:
  assumes "sx_bind m f s = (Inr x, s')"
  obtains y t where "m s = (Inr y, t)" and "f y t = (Inr x, s')"
  using assms by (auto simp: sx_bind_def split: prod.splits sum.splits)

lemma get_kind_apply: "ty_kind (ls_arena s) ty = Inr k \<Longrightarrow> get_kind ty s = (Inr k, s)"
  by (simp add: get_kind_def lay_try_def sx_apply)

lemma get_args_Inr:
  "get_args sub s = (Inr xs, t) \<longleftrightarrow> substitution_args (ls_arena s) sub = Inr xs \<and> t = s"
  by (auto simp: get_args_def lay_try_def sx_apply split: sum.splits)

lemma struct_layout_Inr:
  assumes "ty_kind (ls_arena s) ty = Inr (TyKind.Adt adt substs)"
    and "tc_adt_defs ctx adt = Some def" and "ad_kind def = Struct"
    and "layout_of (Suc n) ctx tgt ty s = (Inr l, s')"
  obtains args t where "substitution_args (ls_arena s) substs = Inr args"
    and "layout_product (\<lambda>t. sx_bind (subst_params n ctx args t) (layout_of n ctx tgt))
      (field_tys (ad_fields def)) (enter ty s) = (Inr l, t)"
proof -
  from assms(4) obtain t where
    "layout_of_inner (layout_of n ctx tgt) (subst_params n ctx) ctx tgt ty (enter ty s) = (Inr l, t)"
    by (auto elim: guard_Inr)
  then have "layout_adt (layout_of n ctx tgt) (subst_params n ctx) ctx tgt adt substs ty (enter ty s)
      = (Inr l, t)"
    using assms(1) by (simp add: layout_of_inner_def get_kind_apply)
  then obtain args u where "get_args substs (enter ty s) = (Inr args, u)"
    and "layout_struct (\<lambda>t. sx_bind (subst_params n ctx args t) (layout_of n ctx tgt)) def u = (Inr l, t)"
    using assms(2,3) by (auto simp: layout_adt_def Let_def elim: bind_Inr)
  with that show thesis by (auto simp: get_args_Inr layout_struct_def)
qed

lemma ext_self: "ext (ls_in_progress s) (ls_arena s) s"
  by (simp add: ext_def)

lemma layout_of_inv:
  assumes "target_ok tgt" and "layout_of n ctx tgt ty s = (Inr l, s')"
  shows "layout_ok l \<and> ls_in_progress s' = ls_in_progress s \<and> arena_le (ls_arena s) (ls_arena s')"
  using lay_postD(1) [OF lay_post_layout_of [OF assms(1)] ext_self assms(2)] by (simp add: ext_def)

lemma layout_of_err:
  assumes "target_ok tgt" and "layout_of n ctx tgt ty s = (Inl (Failed e), s')"
  shows "ls_in_progress s' = ls_in_progress s \<and> arena_le (ls_arena s) (ls_arena s')"
  using lay_postD(2) [OF lay_post_layout_of [OF assms(1)] ext_self assms(2)] by (simp add: ext_def)

section \<open>Properties\<close>

text \<open>
  Aligning a size rounds it up exactly. For an alignment that is a power of two, \<open>align_to\<close>
  returns the least multiple of the alignment that is at least the size, and it panics exactly when
  the size plus the alignment's mask does not fit sixty-four bits.
\<close>

theorem align_to_least:
  assumes "pow2 a"
  shows "(align_to s a = Inl Panicked \<longleftrightarrow> 2 ^ 64 \<le> unat s + (unat a - 1)) \<and>
    (\<forall>r. align_to s a = Inr r \<longleftrightarrow> unat s + (unat a - 1) < 2 ^ 64 \<and> unat a dvd unat r \<and> s \<le> r \<and>
       (\<forall>m. unat a dvd m \<and> unat s \<le> m \<longrightarrow> unat r \<le> m))"
proof -
  have pos: "0 < unat a" using assms by (rule pow2_pos)
  have least: "round_up (unat s) (unat a) \<le> m" if d: "unat a dvd m" and le: "unat s \<le> m" for m
  proof (rule ccontr)
    assume "\<not> round_up (unat s) (unat a) \<le> m"
    then have lt: "m < round_up (unat s) (unat a)" by simp
    obtain q where q: "m = unat a * q" using d unfolding dvd_def by blast
    obtain p where p: "round_up (unat s) (unat a) = unat a * p"
      using round_up_dvd [of "unat a" "unat s"] unfolding dvd_def by blast
    from lt q p have "q < p" by simp
    then have "unat a * (q + 1) \<le> unat a * p" by (intro mult_le_mono) auto
    then have "m + unat a \<le> round_up (unat s) (unat a)" using p q by (simp add: algebra_simps)
    with round_up_less [OF pos, of "unat s"] le show False by linarith
  qed
  show ?thesis
  proof (intro conjI allI)
    show "align_to s a = Inl Panicked \<longleftrightarrow> 2 ^ 64 \<le> unat s + (unat a - 1)"
      using align_to_pow2 [OF assms, of s] by auto
  next
    fix r
    show "align_to s a = Inr r \<longleftrightarrow> unat s + (unat a - 1) < 2 ^ 64 \<and> unat a dvd unat r \<and> s \<le> r \<and>
       (\<forall>m. unat a dvd m \<and> unat s \<le> m \<longrightarrow> unat r \<le> m)" (is "?l \<longleftrightarrow> ?r")
    proof
      assume l: ?l
      then show ?r
        using align_to_pow2 [OF assms, of s] align_to_Inr [OF assms l] least by (auto split: if_splits)
    next
      assume r: ?r
      then obtain q where q: "align_to s a = Inr q" using align_to_pow2 [OF assms, of s] by auto
      note qs = align_to_Inr [OF assms q]
      have "unat a dvd unat q \<and> unat s \<le> unat q" using qs unfolding word_le_nat_alt by blast
      with r have "unat r \<le> unat q" by blast
      moreover have "unat q \<le> unat r" using least [of "unat r"] r qs by (simp add: word_le_nat_alt)
      ultimately show ?l using q by (simp add: word_unat_eq_iff)
    qed
  qed
qed

theorem align_to_least_witness: "align_to 13 8 = Inr 16"
  using align_to_least [of 8 13] by (simp add: align_to_pow2 round_up_def)

text \<open>
  C34. Every computed layout is well formed, and computing it leaves no trace. On a 32- or 64-bit
  target, whatever the type, its depth and the types in progress: a returned layout has a
  power-of-two alignment that divides its size, offsets within it, and, for an enum, well-formed
  variants no more aligned than the enum, each fitting behind the tag or on top of the niche (a
  size that saturated at \<open>u64::MAX\<close> excepted). After success or a layout error the set of types in
  progress is unchanged and every type handle keeps its meaning.
\<close>

theorem layout_of_invariant:
  assumes "target_ok tgt" and "layout_of n ctx tgt ty s = (r, s')"
  shows "(\<forall>l. r = Inr l \<longrightarrow> layout_ok l) \<and>
    (r \<noteq> Inl Crashed \<and> r \<noteq> Inl TooDeep \<longrightarrow>
       ls_in_progress s' = ls_in_progress s \<and> arena_le (ls_arena s) (ls_arena s'))"
proof -
  show ?thesis
    using layout_of_inv [OF assms(1)] layout_of_err [OF assms(1)] assms(2)
    by (cases r; cases "projl r") auto
qed

definition arena0 :: TypeArena where
  "arena0 = \<lparr>ta_types = [TyKind.Bool, TyKind.Uint UintTy.U64], ta_type_flags = [0, 0],
     ta_substitution_data = [[GenericArg.Ty 0, GenericArg.Ty 1]],
     ta_type_index = [TyKind.Bool \<mapsto> 0, TyKind.Uint UintTy.U64 \<mapsto> 1],
     ta_subst_index = [[GenericArg.Ty 0, GenericArg.Ty 1] \<mapsto> \<lparr>sub_index = 0, sub_len = 2\<rparr>]\<rparr>"

definition empty_ctx :: TyCtx where
  "empty_ctx = \<lparr>tc_adt_defs = Map.empty, tc_adt_reprs = Map.empty, tc_trait_defs = Map.empty,
     tc_interior_mutable = {}\<rparr>"

lemma target_default_ok: "target_ok target_x86_64"
  by (simp add: target_ok_def target_x86_64_def from_triple_def triple_pointer_width_def)

theorem layout_of_invariant_witness:
  "\<exists>l s'. layout_of 1 empty_ctx target_x86_64 1 \<lparr>ls_arena = arena0, ls_in_progress = {}\<rparr> = (Inr l, s') \<and>
    layout_ok l \<and> ls_in_progress s' = {}"
proof -
  let ?s = "\<lparr>ls_arena = arena0, ls_in_progress = {}\<rparr>"
  let ?l = "layout_scalar 8 8"
  have r: "layout_of 1 empty_ctx target_x86_64 1 ?s = (Inr ?l, ?s)"
    unfolding One_nat_def layout_of.simps layout_guard_def layout_of_inner_def
    by (simp add: get_kind_def lay_try_def sx_apply ty_kind_def arena0_def bits_scalar_def
        check_align_max_def layout_scalar_def ALIGN_MAX_def)
  show ?thesis using layout_of_invariant [OF target_default_ok r] r by auto
qed

text \<open>
  The fields of a struct are packed in declaration order. A returned layout of a struct type is
  built from the layouts of its fields after substitution: the alignment is the largest of the
  fields' alignments, and unless the size saturated, every field is aligned, starts at the first
  aligned offset after its predecessor, overlaps no other, and the last one ends within the size,
  less than one alignment unit before it.
\<close>

theorem struct_fields_packed:
  assumes "target_ok tgt" and "ty_kind (ls_arena s) ty = Inr (TyKind.Adt adt substs)"
    and "tc_adt_defs ctx adt = Some def" and "ad_kind def = Struct"
    and "layout_of (Suc n) ctx tgt ty s = (Inr l, s')"
  shows "\<exists>args fls offs t. substitution_args (ls_arena s) substs = Inr args \<and>
    lay_map (\<lambda>t. sx_bind (subst_params n ctx args t) (layout_of n ctx tgt)) (field_tys (ad_fields def))
      (enter ty s) = (Inr fls, t) \<and>
    l_fields l = Arbitrary offs \<and> length offs = length (ad_fields def) \<and>
    l_align l = max_by l_align 1 fls \<and>
    (l_size l \<noteq> - 1 \<longrightarrow> packed fls offs \<and> field_end fls offs (length fls) \<le> unat (l_size l) \<and>
       unat (l_size l) < field_end fls offs (length fls) + unat (l_align l))"
proof -
  obtain args t where a: "substitution_args (ls_arena s) substs = Inr args"
    and p: "layout_product (\<lambda>t. sx_bind (subst_params n ctx args t) (layout_of n ctx tgt))
      (field_tys (ad_fields def)) (enter ty s) = (Inr l, t)"
    by (rule struct_layout_Inr [OF assms(2-5)])
  have rec: "lay_post (ext P b) layout_ok (sx_bind (subst_params n ctx args t) (layout_of n ctx tgt))"
    for P b t
    by (rule lay_post_bind [OF lay_post_subst_params lay_post_layout_of [OF assms(1)]])
  show ?thesis
    using product_packed [OF rec ext_enter p] a by (auto simp: field_tys_def)
qed

definition pair_ctx :: TyCtx where
  "pair_ctx = empty_ctx\<lparr>tc_adt_defs := [7 \<mapsto> \<lparr>ad_kind = Struct,
     ad_fields = [\<lparr>fd_name = 1, fd_ty = 0\<rparr>, \<lparr>fd_name = 2, fd_ty = 1\<rparr>], ad_variants = [],
     ad_generic_params = []\<rparr>]\<rparr>"

definition arena1 :: TypeArena where
  "arena1 = \<lparr>ta_types = [TyKind.Bool, TyKind.Uint UintTy.U64, TyKind.Adt 7 Substitution_empty,
       TyKind.Adt 8 Substitution_empty],
     ta_type_flags = [0, 0, 0, 0], ta_substitution_data = [],
     ta_type_index = [TyKind.Bool \<mapsto> 0, TyKind.Uint UintTy.U64 \<mapsto> 1,
       TyKind.Adt 7 Substitution_empty \<mapsto> 2, TyKind.Adt 8 Substitution_empty \<mapsto> 3],
     ta_subst_index = Map.empty\<rparr>"

definition state1 :: LayoutState where
  "state1 = \<lparr>ls_arena = arena1, ls_in_progress = {}\<rparr>"

lemma subst_nil: "subst_params (Suc n) ctx [] ty = sx_return ty"
  by simp

lemma kinds1:
  "ty_kind arena1 0 = Inr TyKind.Bool" "ty_kind arena1 1 = Inr (TyKind.Uint UintTy.U64)"
  "ty_kind arena1 2 = Inr (TyKind.Adt 7 Substitution_empty)"
  "ty_kind arena1 3 = Inr (TyKind.Adt 8 Substitution_empty)"
  by (simp_all add: ty_kind_def arena1_def)

lemma no_args: "substitution_args a Substitution_empty = Inr []"
  by (simp add: substitution_args_def Substitution_empty_def sub_is_empty_def)

lemma get_no_args: "get_args Substitution_empty s = (Inr [], s)"
  by (simp add: get_args_Inr no_args)

lemma guard_out:
  assumes "ty \<notin> ls_in_progress s" and "inner (enter ty s) = (Inr l, enter ty s)"
  shows "layout_guard ty inner s = (Inr l, s)"
  using assms by (simp add: layout_guard_def enter_def)

lemma layout_bool:
  assumes "ty_kind (ls_arena s) ty = Inr TyKind.Bool" and "ty \<notin> ls_in_progress s"
  shows "layout_of (Suc n) ctx tgt ty s = (Inr (layout_scalar 1 1), s)"
  unfolding layout_of.simps
  by (rule guard_out [OF assms(2)])
    (use assms(1) in \<open>simp add: layout_of_inner_def get_kind_apply check_align_max_def layout_scalar_def
      sx_apply ALIGN_MAX_def\<close>)

lemma layout_u64:
  assumes "ty_kind (ls_arena s) ty = Inr (TyKind.Uint UintTy.U64)" and "ty \<notin> ls_in_progress s"
  shows "layout_of (Suc n) ctx tgt ty s = (Inr (layout_scalar 8 8), s)"
  unfolding layout_of.simps
  by (rule guard_out [OF assms(2)])
    (use assms(1) in \<open>simp add: layout_of_inner_def get_kind_apply check_align_max_def layout_scalar_def
      bits_scalar_def sx_apply ALIGN_MAX_def\<close>)

lemma align_to_simps: "align_to 0 1 = Inr 0" "align_to 1 8 = Inr 8" "align_to 16 8 = Inr 16"
  "align_to 0 8 = Inr 0" "align_to 1 1 = Inr 1" "align_to 8 8 = Inr 8"
  by (simp_all add: align_to_pow2 round_up_def)

lemma size_add_simps: "size_add 1 0 = 1" "size_add 0 1 = 1" "size_add 8 8 = 16" "size_add 0 8 = 8"
  by (simp_all add: size_add_def saturating_add64_def)

theorem struct_fields_packed_witness:
  "\<exists>l s'. layout_of 2 pair_ctx target_x86_64 2 state1 = (Inr l, s') \<and>
    l_size l = 16 \<and> l_align l = 8 \<and> l_fields l = Arbitrary [0, 8]"
proof -
  let ?l = "Layout 16 8 (Arbitrary [0, 8]) (Single 0) False"
  let ?def = "\<lparr>ad_kind = Struct, ad_fields = [\<lparr>fd_name = 1, fd_ty = 0\<rparr>, \<lparr>fd_name = 2, fd_ty = 1\<rparr>],
     ad_variants = [], ad_generic_params = []\<rparr>"
  have d: "tc_adt_defs pair_ctx 7 = Some ?def" by (simp add: pair_ctx_def empty_ctx_def)
  have k: "ty_kind (ls_arena state1) 2 = Inr (TyKind.Adt 7 Substitution_empty)"
    by (simp add: state1_def kinds1)
  let ?e = "enter 2 state1"
  have f: "layout_of (Suc 0) pair_ctx target_x86_64 0 ?e = (Inr (layout_scalar 1 1), ?e)"
    "layout_of (Suc 0) pair_ctx target_x86_64 1 ?e = (Inr (layout_scalar 8 8), ?e)"
    by (rule layout_bool layout_u64; simp add: state1_def kinds1 enter_def)+
  have "layout_product (\<lambda>t. sx_bind (subst_params (Suc 0) pair_ctx [] t)
      (layout_of (Suc 0) pair_ctx target_x86_64)) [0, 1] ?e = (Inr ?l, ?e)"
    using f by (simp add: layout_product_def sx_bind_def sx_apply lay_try_def layout_scalar_def
        align_to_simps size_add_simps del: layout_of.simps)
  then have r: "layout_of (Suc (Suc 0)) pair_ctx target_x86_64 2 state1 = (Inr ?l, state1)"
    unfolding layout_of.simps(2) [of "Suc 0"] using k d
    by (intro guard_out) (simp_all add: layout_of_inner_def get_kind_apply layout_adt_def get_no_args
        layout_struct_def field_tys_def state1_def del: subst_params.simps layout_of.simps)
  from struct_fields_packed [OF target_default_ok k d _ r] have "l_fields ?l = Arbitrary [0, 8]" by auto
  moreover have "layout_of 2 pair_ctx target_x86_64 2 state1 = (Inr ?l, state1)"
    using r by (simp only: numeral_2_eq_2)
  ultimately show ?thesis by (intro exI [of _ ?l] exI [of _ state1]) simp
qed


definition enum_ctx :: "VariantDef list \<Rightarrow> VariantDef list \<Rightarrow> TyCtx" where
  "enum_ctx vs7 vs8 = empty_ctx\<lparr>tc_adt_defs := [
     7 \<mapsto> \<lparr>ad_kind = Enum, ad_fields = [], ad_variants = vs7, ad_generic_params = []\<rparr>,
     8 \<mapsto> \<lparr>ad_kind = Enum, ad_fields = [], ad_variants = vs8, ad_generic_params = []\<rparr>]\<rparr>"

definition variant1 :: "Ty \<Rightarrow> VariantDef" where
  "variant1 t = \<lparr>vd_name = 1, vd_fields = [\<lparr>fd_name = 0, fd_ty = t\<rparr>], vd_style = VsTuple\<rparr>"

definition variant0 :: VariantDef where
  "variant0 = \<lparr>vd_name = 2, vd_fields = [], vd_style = VsUnit\<rparr>"

definition unit_product :: Layout where
  "unit_product = Layout 0 1 (Arbitrary []) (Single 0) False"

definition bool_product :: Layout where
  "bool_product = Layout 1 1 (Arbitrary [0]) (Single 0) False"

definition u64_product :: Layout where
  "u64_product = Layout 8 8 (Arbitrary [0]) (Single 0) False"

lemma enum_ctx_defs:
  "tc_adt_defs (enum_ctx vs7 vs8) 7 =
     Some \<lparr>ad_kind = Enum, ad_fields = [], ad_variants = vs7, ad_generic_params = []\<rparr>"
  "tc_adt_defs (enum_ctx vs7 vs8) 8 =
     Some \<lparr>ad_kind = Enum, ad_fields = [], ad_variants = vs8, ad_generic_params = []\<rparr>"
  by (simp_all add: enum_ctx_def empty_ctx_def)

text \<open>One call on an enum without type arguments.\<close>

lemma layout_of_enum:
  assumes k: "ty_kind (ls_arena s) ty = Inr (TyKind.Adt adt Substitution_empty)"
    and "ty \<notin> ls_in_progress s"
    and d: "tc_adt_defs ctx adt =
      Some \<lparr>ad_kind = Enum, ad_fields = [], ad_variants = vs, ad_generic_params = []\<rparr>"
    and r: "layout_enum (layout_of (Suc n) ctx tgt) (layout_of (Suc n) ctx tgt) ctx tgt
      \<lparr>ad_kind = Enum, ad_fields = [], ad_variants = vs, ad_generic_params = []\<rparr> ty (enter ty s)
      = (Inr l, enter ty s)"
  shows "layout_of (Suc (Suc n)) ctx tgt ty s = (Inr l, s)"
proof -
  have rec: "(\<lambda>t. sx_bind (subst_params (Suc n) ctx [] t) (layout_of (Suc n) ctx tgt))
      = layout_of (Suc n) ctx tgt"
    by (rule ext) (simp add: sx_bind_def sx_apply del: layout_of.simps)
  show ?thesis
    unfolding layout_of.simps(2) [of "Suc n"]
    by (rule guard_out [OF assms(2)])
      (simp add: layout_of_inner_def get_kind_apply k layout_adt_def d get_no_args Let_def rec r
        del: subst_params.simps layout_of.simps)
qed

lemma products:
  assumes "rec t s = (Inr fl, s)" and "a = 1 \<or> a = 8" and "l_size fl = a" and "l_align fl = a"
  shows "layout_product rec [t] s = (Inr (Layout a a (Arbitrary [0]) (Single 0) False), s)"
  using assms
  by (auto simp: layout_product_def sx_bind_def sx_apply lay_try_def layout_scalar_def
      align_to_simps size_add_simps)

lemma product_nil: "layout_product rec [] s = (Inr unit_product, s)"
  by (simp add: layout_product_def sx_bind_def sx_apply lay_try_def unit_product_def align_to_simps)


text \<open>Laying out a type that is in progress never succeeds, at any depth.\<close>

lemma in_progress_cycle: "ty \<in> ls_in_progress s \<Longrightarrow> fst (layout_of n ctx tgt ty s) \<in> {Inl (Failed (Cycle ty)), Inl TooDeep}"
  by (cases n) (simp_all add: layout_guard_def sx_apply)

lemma lay_map_each:
  assumes "lay_map f xs s = (Inr ys, s')" and "x \<in> set xs" and "\<And>x. lay_post I Q (f x)" and "I s"
  shows "\<exists>t y t'. I t \<and> f x t = (Inr y, t')"
  using assms(1,2,4)
proof (induction xs arbitrary: s ys)
  case Nil
  then show ?case by simp
next
  case (Cons z zs)
  from Cons.prems(1) obtain y s1 ys' where f: "f z s = (Inr y, s1)" and m: "lay_map f zs s1 = (Inr ys', s')"
    by (auto simp: sx_apply elim!: bind_Inr)
  have "I s1" using lay_postD(1) [OF assms(3) Cons.prems(3) f] by blast
  with Cons f m show ?case by auto
qed

text \<open>
  A struct that contains itself is never laid out. If a field of a struct without type arguments
  has the struct's own type, no depth makes \<open>layout_of\<close> return a layout: the recursive call meets
  its own type in progress and the \<open>Cycle\<close> error propagates.
\<close>

theorem recursive_struct_rejected:
  assumes "target_ok tgt" and "ty_kind (ls_arena s) ty = Inr (TyKind.Adt adt substs)"
    and "sub_is_empty substs" and "tc_adt_defs ctx adt = Some def" and "ad_kind def = Struct"
    and "ty \<in> set (field_tys (ad_fields def))"
  shows "layout_of n ctx tgt ty s \<noteq> (Inr l, s')"
proof
  assume l: "layout_of n ctx tgt ty s = (Inr l, s')"
  show False
  proof (cases n)
    case 0
    with l show False by (simp add: sx_apply)
  next
    case (Suc m)
    with l have "layout_of (Suc m) ctx tgt ty s = (Inr l, s')" by simp
    then obtain args t where a: "substitution_args (ls_arena s) substs = Inr args"
      and p: "layout_product (\<lambda>t. sx_bind (subst_params m ctx args t) (layout_of m ctx tgt))
        (field_tys (ad_fields def)) (enter ty s) = (Inr l, t)"
      by (rule struct_layout_Inr [OF assms(2,4,5)])
    have args: "args = []" using a assms(3) by (simp add: substitution_args_def)
    let ?f = "\<lambda>t. sx_bind (subst_params m ctx [] t) (layout_of m ctx tgt)"
    have rec: "lay_post (ext P b) layout_ok (?f t)" for P b t
      by (rule lay_post_bind [OF lay_post_subst_params lay_post_layout_of [OF assms(1)]])
    obtain fls u where "lay_map ?f (field_tys (ad_fields def)) (enter ty s) = (Inr fls, u)"
      using p unfolding args layout_product_def by (auto elim!: bind_Inr dest!: place_fields_split)
    from lay_map_each [OF this assms(6) rec ext_enter] obtain v y v' where
      v: "ext (ls_in_progress (enter ty s)) (ls_arena s) v" and y: "?f ty v = (Inr y, v')" by blast
    from y obtain k where "layout_of (Suc k) ctx tgt ty v = (Inr y, v')"
      by (cases m) (auto simp: sx_apply elim!: bind_Inr)
    moreover have "ty \<in> ls_in_progress v" using v by (simp add: ext_def enter_def)
    ultimately show False using in_progress_cycle [of ty v "Suc k" ctx tgt] by auto
  qed
qed

definition node_ctx :: TyCtx where
  "node_ctx = empty_ctx\<lparr>tc_adt_defs := [7 \<mapsto> \<lparr>ad_kind = Struct,
     ad_fields = [\<lparr>fd_name = 1, fd_ty = 1\<rparr>, \<lparr>fd_name = 2, fd_ty = 2\<rparr>], ad_variants = [],
     ad_generic_params = []\<rparr>]\<rparr>"

theorem recursive_struct_rejected_witness:
  "\<forall>n l s'. layout_of n node_ctx target_x86_64 2 state1 \<noteq> (Inr l, s')"
  by (intro allI recursive_struct_rejected [OF target_default_ok])
    (auto simp: state1_def kinds1 Substitution_empty_def sub_is_empty_def node_ctx_def empty_ctx_def
      field_tys_def)

text \<open>
  The depth bound only matters when it runs out. Whenever \<open>layout_of\<close> within some depth returns
  a layout, an error or a panic rather than exhausting the depth, every larger depth gives the same
  result and the same state.
\<close>

theorem layout_of_depth:
  assumes "layout_of n ctx tgt ty s = (r, s')" and "r \<noteq> Inl TooDeep" and "n \<le> m"
  shows "layout_of m ctx tgt ty s = (r, s')"
  using assms(3,1)
proof (induction rule: dec_induct)
  case (step k)
  with deeper_layout_of [of k ctx tgt ty] assms(2) show ?case by (simp add: deeper_def)
qed

theorem layout_of_depth_witness:
  "\<exists>l. \<forall>m \<ge> 1. layout_of m empty_ctx target_x86_64 0 state1 = (Inr l, state1)"
proof -
  have "layout_of 1 empty_ctx target_x86_64 0 state1 = (Inr (layout_scalar 1 1), state1)"
    unfolding One_nat_def by (rule layout_bool) (simp_all add: state1_def kinds1)
  from layout_of_depth [OF this] show ?thesis by blast
qed

subsection \<open>Termination of the substitution\<close>

lemma flags_ok_args:
  assumes "flags_ok ctx a" and "ty_kind a t = Inr (TyKind.Adt adt s) \<or> ty_kind a t = Inr (TyKind.Tuple s)"
    and "arena_le a b"
  shows "\<exists>xs. substitution_args b s = Inr xs \<and> (\<forall>u\<in>set (arg_tys xs). unat u < unat t)"
proof -
  from assms(2) obtain k where k: "ty_kind a t = Inr k" "k = TyKind.Adt adt s \<or> k = TyKind.Tuple s" by blast
  then have t: "unat t < length (ta_types a)" "ta_types a ! unat t = k"
    by (auto simp: ty_kind_def split: if_splits)
  with assms(1) have f: "compute_flags ctx a k 0 = Inr (ta_type_flags a ! unat t)"
    and c: "\<forall>u\<in>set (components a k). unat u < unat t" by (auto simp: flags_ok_def)
  obtain xs where xs: "substitution_args a s = Inr xs"
    using f k(2) by (auto simp: compute_flags_def or_subst_flags_def split: sum.splits)
  with c k(2) have "\<forall>u\<in>set (arg_tys xs). unat u < unat t" by (auto simp: subst_tys_def)
  with arena_le_substitution_args [OF assms(3) xs] show ?thesis by blast
qed

lemma flags_ok_part:
  assumes "flags_ok ctx a" and "ty_kind a t = Inr k" and "u \<in> set (components a k)"
  shows "unat u < unat t"
  using assms by (auto simp: ty_kind_def flags_ok_def split: if_splits)

text \<open>\<open>finite_depth I m\<close>: from a state of \<open>I\<close>, \<open>m\<close> does not run out of depth and keeps \<open>I\<close>.\<close>

definition finite_depth :: "(LayoutState \<Rightarrow> bool) \<Rightarrow> 'a lay \<Rightarrow> bool" where
  "finite_depth I m \<longleftrightarrow> (\<forall>s. I s \<longrightarrow> fst (m s) \<noteq> Inl TooDeep \<and> (fst (m s) \<noteq> Inl Crashed \<longrightarrow> I (snd (m s))))"

lemma finite_depth_bind:
  assumes "finite_depth I m" and "\<And>x. finite_depth I (f x)"
  shows "finite_depth I (sx_bind m f)"
  using assms unfolding finite_depth_def sx_bind_def
  by (fastforce split: prod.splits sum.splits)

lemma finite_depth_simple:
  "finite_depth I (sx_return x)" "finite_depth I (get_kind t)" "finite_depth I (get_args sub)"
  by (auto simp: finite_depth_def sx_apply get_kind_def get_args_def lay_try_def split: sum.splits)

lemma finite_depth_intern:
  "finite_depth (\<lambda>s. arena_le a (ls_arena s)) (do_mk_ty ctx k)"
  "finite_depth (\<lambda>s. arena_le a (ls_arena s)) (do_intern_substitution xs)"
  by (auto simp: finite_depth_def do_mk_ty_def do_intern_substitution_def mk_ty_def
      split: sum.splits prod.splits
      intro: arena_le_trans [OF _ alloc_ty_le] arena_le_trans [OF _ intern_substitution_le])

lemma finite_depth_map:
  "(\<And>x. x \<in> set xs \<Longrightarrow> finite_depth I (f x)) \<Longrightarrow> finite_depth I (lay_map f xs)"
  by (induction xs) (auto intro!: finite_depth_bind finite_depth_simple)

lemma finite_depth_get_kind:
  "(\<And>s. I s \<Longrightarrow> ty_kind (ls_arena s) t = Inr k) \<Longrightarrow> finite_depth I (f k) \<Longrightarrow>
   finite_depth I (sx_bind (get_kind t) f)"
  by (auto simp: finite_depth_def get_kind_apply)

lemma finite_depth_get_args:
  "(\<And>s. I s \<Longrightarrow> substitution_args (ls_arena s) sub = Inr xs) \<Longrightarrow> finite_depth I (f xs) \<Longrightarrow>
   finite_depth I (sx_bind (get_args sub) f)"
  using get_args_Inr by (fastforce simp: finite_depth_def)

lemma arg_tys_mem: "GenericArg.Ty t \<in> set xs \<Longrightarrow> t \<in> set (arg_tys xs)"
  by (induction xs rule: arg_tys.induct) auto

lemma subst_params_finite:
  assumes "flags_ok ctx a"
  shows "ty_kind a ty = Inr k \<Longrightarrow> unat ty < n \<Longrightarrow>
    finite_depth (\<lambda>s. arena_le a (ls_arena s)) (subst_params n ctx xs ty)"
proof (induction n arbitrary: ty k)
  case 0
  then show ?case by simp
next
  case (Suc n)
  let ?I = "\<lambda>s. arena_le a (ls_arena s)"
  have rec: "finite_depth ?I (subst_params n ctx xs u)" if "unat u < unat ty" for u
  proof -
    have "\<exists>j. ty_kind a u = Inr j" using that Suc.prems(1) by (auto simp: ty_kind_def split: if_splits)
    with that Suc show ?thesis by auto
  qed
  have args: "finite_depth ?I (subst_args (subst_params n ctx xs) s)"
    if s: "k = TyKind.Adt adt s \<or> k = TyKind.Tuple s" for adt s
  proof -
    obtain ys where ys: "substitution_args a s = Inr ys" "\<forall>u\<in>set (arg_tys ys). unat u < unat ty"
      using flags_ok_args [OF assms, of ty adt s a] Suc.prems(1) s by auto
    have "finite_depth ?I (subst_arg (subst_params n ctx xs) g)" if "g \<in> set ys" for g
    proof (cases g)
      case (Ty u)
      with that ys(2) have "unat u < unat ty" by (auto dest: arg_tys_mem)
      with Ty rec show ?thesis
        by (auto simp: subst_arg_def intro!: finite_depth_bind finite_depth_simple)
    qed (simp_all add: subst_arg_def finite_depth_simple)
    then show ?thesis
      unfolding subst_args_def
      by (intro finite_depth_get_args [OF arena_le_substitution_args [OF _ ys(1)]]
          finite_depth_bind [OF finite_depth_map finite_depth_intern(2)])
  qed
  have "finite_depth ?I (subst_kind ctx xs (subst_params n ctx xs) ty k)"
    using args rec flags_ok_part [OF assms Suc.prems(1)]
    by (cases k)
      (auto simp: subst_kind_def intro!: finite_depth_simple finite_depth_bind finite_depth_intern
        split: option.split GenericArg.split)
  then show ?case
    by (auto intro!: finite_depth_simple finite_depth_get_kind [OF arena_le_ty_kind [OF _ Suc.prems(1)]])
qed

text \<open>
  Substitution of type parameters terminates. In an arena the context can build, the depth needed
  to substitute in a type is at most its handle: types only refer to older types. In any later
  arena, with any arguments, \<open>subst_params\<close> with that depth does not run out.
\<close>

theorem subst_params_terminates:
  assumes "built ctx a" and "ty_kind a ty = Inr k" and "unat ty < n" and "arena_le a (ls_arena s)"
  shows "fst (subst_params n ctx args ty s) \<noteq> Inl TooDeep"
  using subst_params_finite [OF conjunct2 [OF built_ok [OF assms(1)]] assms(2,3)] assms(4)
  by (simp add: finite_depth_def)

theorem subst_params_terminates_witness:
  "\<exists>a. fst (subst_params 2 empty_ctx [GenericArg.Ty 0] 1 \<lparr>ls_arena = a, ls_in_progress = {}\<rparr>) \<noteq> Inl TooDeep"
proof -
  let ?p = "TyKind.Param \<lparr>pt_index = 0, pt_name = 5\<rparr>"
  let ?b = "\<lparr>ta_types = [?p], ta_type_flags = [HAS_TY_PARAM], ta_substitution_data = [],
     ta_type_index = [?p \<mapsto> 0], ta_subst_index = Map.empty\<rparr>"
  let ?r = "TyKind.RawPtr 0 Mutability.Mut"
  let ?c = "\<lparr>ta_types = [?p, ?r], ta_type_flags = [HAS_TY_PARAM, HAS_TY_PARAM],
     ta_substitution_data = [], ta_type_index = [?p \<mapsto> 0, ?r \<mapsto> 1], ta_subst_index = Map.empty\<rparr>"
  have b: "mk_ty empty_ctx ?p ta_new = Inr (0, ?b)"
    by (simp add: mk_ty_def compute_flags_def alloc_ty_def ta_new_def)
  have c: "mk_ty empty_ctx ?r ?b = Inr (1, ?c)"
    by (simp add: mk_ty_def compute_flags_def alloc_ty_def or_ty_flags_def ty_flags_def)
  have bc: "built empty_ctx ?c"
    by (rule built_mk_ty [OF built_mk_ty [OF built_new _ b] _ c]) (simp_all add: ta_new_def)
  have k: "ty_kind ?c 1 = Inr ?r" by (simp add: ty_kind_def)
  show ?thesis
    by (rule exI [of _ ?c]) (rule subst_params_terminates [OF bc k]; simp)
qed

section \<open>Where layout goes wrong\<close>

text \<open>The value codegen stores in the tag slot for a variant other than the untagged one.\<close>

definition niche_value :: "TagEncoding \<Rightarrow> u128 \<Rightarrow> panicked + u128" where
  "niche_value enc vidx =
     (case enc of
        TagEncoding.Direct \<Rightarrow> Inr vidx
      | Niche _ (first, _) start \<Rightarrow>
          (if vidx < ucast first then Inl Panicked else Inr (start + (vidx - ucast first))))"

lemma layout_enum_niche:
  assumes vls: "lay_map (layout_variant_data rec) vs s = (Inr vls, s)" and n: "length vs = 2"
    and t: "try_niche_encoding rec ctx tgt
      \<lparr>ad_kind = Enum, ad_fields = [], ad_variants = vs, ad_generic_params = []\<rparr> vls s = (Inr (Some l), s)"
  shows "layout_enum rec rec ctx tgt
    \<lparr>ad_kind = Enum, ad_fields = [], ad_variants = vs, ad_generic_params = []\<rparr> ty s = (Inr l, s)"
  using assms by (simp add: layout_enum_def sx_bind_def sx_apply)

text \<open>An enum of two variants whose first one holds a single \<open>bool\<close>.\<close>

lemma bool_niche:
  assumes b: "rec t s = (Inr (layout_scalar 1 1), s)" and k: "ty_kind (ls_arena s) t = Inr TyKind.Bool"
    and v1: "layout_variant_data rec v s = (Inr lv, s)"
    and a: "align_to (max 1 (l_size lv)) (max 1 (l_align lv)) = Inr sz"
  shows "layout_enum rec rec ctx tgt
    \<lparr>ad_kind = Enum, ad_fields = [], ad_variants = [variant1 t, v], ad_generic_params = []\<rparr> ty s
    = (Inr (Layout sz (max 1 (l_align lv)) (Arbitrary [0])
         (Multiple t 0 (Niche 0 (1, 1) 2) [bool_product, lv] 1 1) False), s)"
proof (rule layout_enum_niche)
  have "layout_variant_data rec (variant1 t) s = (Inr bool_product, s)"
    using products [of rec t s _ 1, OF b] by (simp add: layout_variant_data_def variant1_def field_tys_def
        bool_product_def layout_scalar_def)
  with v1 show "lay_map (layout_variant_data rec) [variant1 t, v] s = (Inr [bool_product, lv], s)"
    by (simp add: sx_bind_def sx_apply)
  show "try_niche_encoding rec ctx tgt
      \<lparr>ad_kind = Enum, ad_fields = [], ad_variants = [variant1 t, v], ad_generic_params = []\<rparr>
      [bool_product, lv] s = (Inr (Some (Layout sz (max 1 (l_align lv)) (Arbitrary [0])
         (Multiple t 0 (Niche 0 (1, 1) 2) [bool_product, lv] 1 1) False)), s)"
    using b k a
    by (simp add: try_niche_encoding_def niche_candidates_def variant1_def niche_info_def
        niche_info_inner_def get_kind_apply build_niche_layout_def lay_try_def sx_apply max_by_def
        bool_product_def layout_scalar_def u32_try_or_def)
qed simp

text \<open>
  A niche can lie in another variant's data. \<open>enum { A(bool), B(u64) }\<close> is given the niche of
  \<open>A\<close>'s \<open>bool\<close>: variant \<open>B\<close> is recognised by the byte at offset zero holding 2, which is the first
  byte of \<open>B\<close>'s own eight-byte field, so storing the field destroys the tag.
\<close>

theorem niche_overlaps_payload:
  "\<exists>l. layout_of (Suc (Suc n)) (enum_ctx [variant1 0, variant1 1] []) tgt 2 state1 = (Inr l, state1) \<and>
    l_size l = 8 \<and> l_fields l = Arbitrary [0] \<and>
    l_variants l = Multiple 0 0 (Niche 0 (1, 1) 2) [bool_product, u64_product] 1 1 \<and>
    niche_value (vs_tag_encoding (l_variants l)) 1 = Inr 2 \<and>
    l_fields u64_product = Arbitrary [0] \<and> l_size u64_product = 8"
proof -
  let ?ctx = "enum_ctx [variant1 0, variant1 1] []"
  let ?e = "enter 2 state1"
  have k: "ty_kind (ls_arena ?e) 0 = Inr TyKind.Bool" "ty_kind (ls_arena ?e) 1 = Inr (TyKind.Uint UintTy.U64)"
    and np: "0 \<notin> ls_in_progress ?e" "1 \<notin> ls_in_progress ?e"
    by (simp_all add: state1_def kinds1 enter_def)
  note b = layout_bool [OF k(1) np(1), of n ?ctx tgt]
  note u = layout_u64 [OF k(2) np(2), of n ?ctx tgt]
  have v: "layout_variant_data (layout_of (Suc n) ?ctx tgt) (variant1 1) ?e = (Inr u64_product, ?e)"
    using products [of "layout_of (Suc n) ?ctx tgt" 1 ?e _ 8, OF u]
    by (simp add: layout_variant_data_def variant1_def field_tys_def u64_product_def layout_scalar_def
        del: layout_of.simps)
  have a: "align_to (max 1 (l_size u64_product)) (max 1 (l_align u64_product)) = Inr 8"
    by (simp add: u64_product_def max_def align_to_simps)
  have "layout_of (Suc (Suc n)) ?ctx tgt 2 state1 = (Inr (Layout 8 8 (Arbitrary [0])
      (Multiple 0 0 (Niche 0 (1, 1) 2) [bool_product, u64_product] 1 1) False), state1)"
    using bool_niche [OF b k(1) v a, of ?ctx tgt 2]
    by (intro layout_of_enum [OF _ _ enum_ctx_defs(1)])
      (simp_all add: kinds1 state1_def u64_product_def max_def del: layout_of.simps)
  then show ?thesis by (simp add: niche_value_def u64_product_def)
qed

lemma unit_variant: "layout_variant_data rec variant0 s = (Inr unit_product, s)"
  using product_nil [of rec s] by (simp add: layout_variant_data_def variant0_def field_tys_def)

definition option_bool :: Layout where
  "option_bool = Layout 1 1 (Arbitrary [0])
     (Multiple 0 0 (Niche 0 (1, 1) 2) [bool_product, unit_product] 1 1) False"

lemma layout_option_bool:
  assumes "ty_kind (ls_arena s) 0 = Inr TyKind.Bool" and "0 \<notin> ls_in_progress s" and "2 \<notin> ls_in_progress s"
    and "ty_kind (ls_arena s) 2 = Inr (TyKind.Adt 7 Substitution_empty)"
  shows "layout_of (Suc (Suc n)) (enum_ctx [variant1 0, variant0] vs) tgt 2 s = (Inr option_bool, s)"
proof -
  let ?ctx = "enum_ctx [variant1 0, variant0] vs"
  let ?e = "enter 2 s"
  have k: "ty_kind (ls_arena ?e) 0 = Inr TyKind.Bool" and np: "0 \<notin> ls_in_progress ?e"
    using assms by (simp_all add: enter_def)
  have a: "align_to (max 1 (l_size unit_product)) (max 1 (l_align unit_product)) = Inr 1"
    by (simp add: unit_product_def max_def align_to_simps)
  note b = bool_niche [where rec = "layout_of (Suc n) ?ctx tgt" and s = ?e,
      OF layout_bool [OF k np] k unit_variant a, of ?ctx tgt 2]
  show ?thesis
    by (rule layout_of_enum [OF assms(4,3) enum_ctx_defs(1)])
      (use b in \<open>simp add: option_bool_def unit_product_def del: layout_of.simps\<close>)
qed

text \<open>
  C36. Nested niches collide with values. For \<open>Option<Option<bool>>\<close> the inner enum keeps its \<open>None\<close>
  as byte 2, and the outer one is given the "free" value 0, the index of the inner enum's first
  variant: the outer \<open>None\<close> is stored as byte 0 in the slot where \<open>Some(Some(false))\<close> stores
  \<open>false\<close>, which needs no tag, so the two values have the same representation.
\<close>

theorem nested_niche_collides:
  "\<exists>l. layout_of (Suc (Suc (Suc n))) (enum_ctx [variant1 0, variant0] [variant1 2, variant0]) tgt 3 state1
      = (Inr l, state1) \<and>
    layout_of (Suc (Suc (Suc n))) (enum_ctx [variant1 0, variant0] [variant1 2, variant0]) tgt 2 state1
      = (Inr option_bool, state1) \<and>
    l_size l = 1 \<and> l_fields l = Arbitrary [0] \<and> untagged_variant (vs_tag_encoding (l_variants l)) = 0 \<and>
    untagged_variant (vs_tag_encoding (l_variants option_bool)) = 0 \<and>
    niche_value (vs_tag_encoding (l_variants l)) 1 = Inr 0"
proof -
  let ?ctx = "enum_ctx [variant1 0, variant0] [variant1 2, variant0]"
  let ?rec = "layout_of (Suc (Suc n)) ?ctx tgt"
  let ?e = "enter 3 state1"
  let ?def = "\<lparr>ad_kind = Enum, ad_fields = [], ad_variants = [variant1 2, variant0], ad_generic_params = []\<rparr>"
  let ?l = "Layout 1 1 (Arbitrary [0]) (Multiple 2 0 (Niche 0 (1, 1) 0) [bool_product, unit_product] 1 1) False"
  have o: "?rec 2 ?e = (Inr option_bool, ?e)"
    by (rule layout_option_bool) (simp_all add: state1_def kinds1 enter_def)
  have "layout_variant_data ?rec (variant1 2) ?e = (Inr bool_product, ?e)"
    using products [of ?rec 2 ?e _ 1, OF o]
    by (simp add: layout_variant_data_def variant1_def field_tys_def option_bool_def bool_product_def
        del: layout_of.simps)
  then have vls: "lay_map (layout_variant_data ?rec) [variant1 2, variant0] ?e
      = (Inr [bool_product, unit_product], ?e)"
    by (simp add: sx_bind_def sx_apply unit_variant del: layout_of.simps)
  have i: "niche_info ?rec ?ctx tgt 2 ?e = (Inr (Some (0, 1)), ?e)"
    using o by (simp add: niche_info_def niche_info_inner_def get_kind_apply state1_def kinds1
        enum_ctx_defs lay_ok_def option_bool_def tag_value_count_def sx_apply enum_free_niche_def
        del: layout_of.simps)
  have t: "try_niche_encoding ?rec ?ctx tgt ?def [bool_product, unit_product] ?e = (Inr (Some ?l), ?e)"
    using i o
    by (simp add: try_niche_encoding_def niche_candidates_def variant1_def variant0_def
        build_niche_layout_def lay_try_def sx_apply max_by_def bool_product_def unit_product_def
        option_bool_def u32_try_or_def max_def align_to_simps del: layout_of.simps)
  have "layout_of (Suc (Suc (Suc n))) ?ctx tgt 3 state1 = (Inr ?l, state1)"
    by (rule layout_of_enum [OF _ _ enum_ctx_defs(2)], simp add: state1_def kinds1,
        simp add: state1_def, rule layout_enum_niche [OF vls _ t], simp)
  moreover have "layout_of (Suc (Suc (Suc n))) ?ctx tgt 2 state1 = (Inr option_bool, state1)"
    by (rule layout_option_bool) (simp_all add: state1_def kinds1)
  ultimately show ?thesis by (simp add: option_bool_def niche_value_def del: layout_of.simps)
qed

subsection \<open>Saturating sizes\<close>

definition half_len :: Const where
  "half_len = \<lparr>const_kind = ConstKind.Uint 0x8000000000000000, const_ty = 0\<rparr>"

definition state2 :: LayoutState where
  "state2 = \<lparr>ls_arena = \<lparr>ta_types = [TyKind.Bool, TyKind.Array 0 half_len,
       TyKind.Tuple \<lparr>sub_index = 0, sub_len = 2\<rparr>], ta_type_flags = [0, 0, 0],
     ta_substitution_data = [[GenericArg.Ty 1, GenericArg.Ty 1]],
     ta_type_index = [TyKind.Bool \<mapsto> 0, TyKind.Array 0 half_len \<mapsto> 1,
       TyKind.Tuple \<lparr>sub_index = 0, sub_len = 2\<rparr> \<mapsto> 2],
     ta_subst_index = [[GenericArg.Ty 1, GenericArg.Ty 1] \<mapsto> \<lparr>sub_index = 0, sub_len = 2\<rparr>]\<rparr>,
     ls_in_progress = {}\<rparr>"

lemma kinds2:
  "ty_kind (ls_arena state2) 0 = Inr TyKind.Bool"
  "ty_kind (ls_arena state2) 1 = Inr (TyKind.Array 0 half_len)"
  "ty_kind (ls_arena state2) 2 = Inr (TyKind.Tuple \<lparr>sub_index = 0, sub_len = 2\<rparr>)"
  "substitution_args (ls_arena state2) \<lparr>sub_index = 0, sub_len = 2\<rparr> = Inr [GenericArg.Ty 1, GenericArg.Ty 1]"
  by (simp_all add: ty_kind_def state2_def substitution_args_def sub_is_empty_def)

lemma layout_half:
  "layout_of (Suc (Suc n)) ctx tgt 1 (enter 2 state2) =
     (Inr (Layout 0x8000000000000000 1 (FieldsShape.Array 1 0x8000000000000000) (Single 0) False), enter 2 state2)"
proof -
  let ?e = "enter 1 (enter 2 state2)"
  have b: "layout_of (Suc n) ctx tgt 0 ?e = (Inr (layout_scalar 1 1), ?e)"
    by (rule layout_bool) (simp_all add: kinds2, simp add: enter_def state2_def)
  have "layout_of_inner (layout_of (Suc n) ctx tgt) (subst_params (Suc n) ctx) ctx tgt 1 ?e =
      (Inr (Layout 0x8000000000000000 1 (FieldsShape.Array 1 0x8000000000000000) (Single 0) False), ?e)"
    using b by (simp add: layout_of_inner_def get_kind_apply kinds2 layout_array_def sx_bind_def
        array_count_def half_len_def sx_apply lay_try_def layout_scalar_def align_to_simps checked_mul64_def
        del: layout_of.simps subst_params.simps)
  then show ?thesis
    unfolding layout_of.simps(2) [of "Suc n"]
    by (intro guard_out) (simp_all add: enter_def state2_def)
qed

text \<open>
  Sizes saturate instead of failing. A tuple of two arrays of \<open>2 ^ 63\<close> one-byte elements is
  accepted with size \<open>2 ^ 64 - 1\<close> and no \<open>SizeOverflow\<close>, although its second field, placed at
  \<open>2 ^ 63\<close>, ends at \<open>2 ^ 64\<close>, past the end of the tuple.
\<close>

theorem tuple_size_saturates:
  "\<exists>l. layout_of (Suc (Suc (Suc n))) ctx tgt 2 state2 = (Inr l, state2) \<and>
    unat (l_size l) = 2 ^ 64 - 1 \<and> l_fields l = Arbitrary [0, 0x8000000000000000] \<and>
    unat (0x8000000000000000 :: Size) + 2 ^ 63 > unat (l_size l)"
proof -
  let ?l = "Layout (- 1) 1 (Arbitrary [0, 0x8000000000000000]) (Single 0) False"
  let ?e = "enter 2 state2"
  have a: "align_to 0x8000000000000000 1 = Inr 0x8000000000000000" "align_to (- 1) 1 = Inr (- 1)"
    using unsigned_less [of "- 1 :: u64"] by (simp_all add: align_to_def)
  have s: "size_add 0 0x8000000000000000 = 0x8000000000000000"
    "size_add 0x8000000000000000 0x8000000000000000 = - 1"
    by (simp_all add: size_add_def saturating_add64_def)
  have "layout_of_inner (layout_of (Suc (Suc n)) ctx tgt) (subst_params (Suc (Suc n)) ctx) ctx tgt 2 ?e
      = (Inr ?l, ?e)"
    using layout_half [of n ctx tgt]
    by (simp add: layout_of_inner_def get_kind_apply kinds2 layout_tuple_def get_args_Inr sx_bind_def
        layout_product_def lay_try_def sx_apply a s align_to_simps get_args_def
        del: layout_of.simps subst_params.simps)
  then have "layout_of (Suc (Suc (Suc n))) ctx tgt 2 state2 = (Inr ?l, state2)"
    unfolding layout_of.simps(2) [of "Suc (Suc n)"]
    by (intro guard_out) (simp_all add: state2_def)
  then show ?thesis by (intro exI [of _ ?l]) (simp add: unsigned_minus_1_eq_mask mask_eq_exp_minus_1 del: layout_of.simps)
qed

section \<open>Calls and vtables\<close>

text \<open>
  No argument of a signature is dropped. When \<open>fn_abi_of\<close> succeeds, it describes every type
  argument of the inputs in order and the output, each with a well-formed layout; lifetime and
  constant arguments have no entry.
\<close>

theorem fn_abi_complete:
  assumes "target_ok tgt" and "substitution_args (ls_arena s) (fs_inputs sig) = Inr args"
    and "fn_abi_of (layout_of n ctx tgt) sig s = (Inr abi, s')"
  shows "map aa_ty (fa_args abi) = arg_tys args \<and> aa_ty (fa_ret abi) = fs_output sig \<and>
    (\<forall>a\<in>set (fa_ret abi # fa_args abi). layout_ok (aa_layout a)) \<and>
    fa_conv abi = conv_from_abi (fs_abi sig) \<and> fa_c_variadic abi = fs_c_variadic sig"
proof -
  let ?conv = "conv_from_abi (fs_abi sig)"
  obtain as t ret where m: "lay_map (arg_abi (layout_of n ctx tgt) ?conv) (arg_tys args) s = (Inr as, t)"
    and r: "arg_abi (layout_of n ctx tgt) ?conv (fs_output sig) t = (Inr ret, s')"
    and abi: "abi = \<lparr>fa_args = as, fa_ret = ret, fa_conv = ?conv, fa_c_variadic = fs_c_variadic sig\<rparr>"
    using assms(2,3) by (auto simp: fn_abi_of_def Let_def get_args_Inr sx_apply elim!: bind_Inr)
  have one: "aa_ty a = ty \<and> layout_ok (aa_layout a)"
    if "arg_abi (layout_of n ctx tgt) c ty u = (Inr a, u')" for c ty u a u'
    using that layout_of_inv [OF assms(1)]
    by (auto simp: arg_abi_def sx_apply elim!: bind_Inr)
  have "map aa_ty ys = tys \<and> (\<forall>a\<in>set ys. layout_ok (aa_layout a))"
    if "lay_map (arg_abi (layout_of n ctx tgt) c) tys u = (Inr ys, u')" for c tys u ys u'
    using that
  proof (induction tys arbitrary: u ys)
    case (Cons ty tys)
    then obtain y v ys' where y: "arg_abi (layout_of n ctx tgt) c ty u = (Inr y, v)"
      and m: "lay_map (arg_abi (layout_of n ctx tgt) c) tys v = (Inr ys', u')" and ys: "ys = y # ys'"
      by (auto simp: sx_apply elim!: bind_Inr)
    from Cons.IH [OF m] one [OF y] show ?case by (simp add: ys)
  qed (simp add: sx_apply)
  from this [OF m] one [OF r] show ?thesis by (simp add: abi)
qed

theorem fn_abi_complete_witness:
  "\<exists>abi. fn_abi_of (layout_of 1 empty_ctx target_x86_64)
      \<lparr>fs_inputs = Substitution_empty, fs_output = 0, fs_c_variadic = False, fs_unsafety = Safe, fs_abi = Abi.C\<rparr>
      state1 = (Inr abi, state1) \<and> fa_args abi = [] \<and> layout_ok (aa_layout (fa_ret abi))"
proof -
  let ?sig = "\<lparr>fs_inputs = Substitution_empty, fs_output = 0, fs_c_variadic = False, fs_unsafety = Safe,
    fs_abi = Abi.C\<rparr>"
  let ?abi = "\<lparr>fa_args = [], fa_ret = \<lparr>aa_ty = 0, aa_layout = layout_scalar 1 1, aa_mode = PassMode.Direct\<rparr>,
    fa_conv = CallConvention.C, fa_c_variadic = False\<rparr>"
  have b: "layout_of (Suc 0) empty_ctx target_x86_64 0 state1 = (Inr (layout_scalar 1 1), state1)"
    by (rule layout_bool) (simp_all add: state1_def kinds1)
  have r: "fn_abi_of (layout_of 1 empty_ctx target_x86_64) ?sig state1 = (Inr ?abi, state1)"
    unfolding One_nat_def using b
    by (simp add: fn_abi_of_def Let_def get_no_args arg_abi_def pass_mode_for_def get_kind_apply kinds1
        state1_def sx_apply layout_scalar_def del: layout_of.simps)
  have a: "substitution_args (ls_arena state1) (fs_inputs ?sig) = Inr []" by (simp add: no_args)
  from fn_abi_complete [OF target_default_ok a r] r show ?thesis by (intro exI [of _ ?abi]) simp
qed

text \<open>
  The slots of a vtable lie inside it. If the size of a vtable fits sixty-four bits, every
  method's offset is defined, lies behind the three words of the drop function, the size and the
  alignment, ends within the vtable, and is one pointer after the previous one.
\<close>

theorem vtable_slots_fit:
  assumes "memory_size vt p = Inr (sz, al)" and "i < length (vt_methods vt)"
  shows "\<exists>off. method_offset i p = Inr off \<and> unat off = (3 + i) * unat p \<and> unat off + unat p \<le> unat sz"
proof -
  let ?n = "3 + length (vt_methods vt)"
  have n: "?n \<le> usize_max" and s: "checked_mul_panic (of_nat ?n) p = Inr sz"
    using assms(1) by (auto simp: memory_size_def vtable_slot_def split: if_splits sum.splits)
  have un: "unat (of_nat m :: u64) = m" if "m \<le> ?n" for m
    using that n by (simp add: unsigned_of_nat take_bit_nat_eq_self usize_max_def)
  have mul: "checked_mul_panic a p = (if unat a * unat p < 2 ^ 64 then Inr (a * p) else Inl Panicked)" for a
    by (simp add: checked_mul_panic_def checked_mul64_def)
  have fit: "?n * unat p < 2 ^ 64" using s un [of ?n] by (auto simp: mul split: if_splits)
  have usz: "unat sz = ?n * unat p"
    using s fit un [of ?n] unat_mult_lem [of "of_nat ?n :: u64" p] by (auto simp: mul split: if_splits)
  have le: "(3 + i) * unat p + unat p \<le> ?n * unat p"
    using assms(2) mult_le_mono1 [of "4 + i" ?n "unat p"] by (simp add: algebra_simps)
  have u: "unat (of_nat (3 + i) * p) = (3 + i) * unat p"
    using le fit un [of "3 + i"] assms(2) unat_mult_lem [of "of_nat (3 + i) :: u64" p] by auto
  show ?thesis
    using le fit un [of "3 + i"] assms(2) n u usz
    by (intro exI [of _ "of_nat (3 + i) * p"]) (auto simp: method_offset_def vtable_slot_def mul)
qed

theorem vtable_slots_fit_witness:
  "\<exists>off. method_offset 1 8 = Inr off \<and> unat off + 8 \<le> 40"
proof -
  let ?m = "\<lparr>ve_name = 1, ve_sig = \<lparr>fs_inputs = Substitution_empty, fs_output = 0, fs_c_variadic = False,
    fs_unsafety = Safe, fs_abi = Abi.C\<rparr>, ve_fn_def_id = 0\<rparr>"
  let ?vt = "\<lparr>vt_trait_def_id = 0, vt_concrete_ty = 0, vt_size = 0, vt_align = 1, vt_drop_fn = None,
    vt_methods = [?m, ?m]\<rparr>"
  have "memory_size ?vt 8 = Inr (40, 8)"
    by (simp add: memory_size_def vtable_slot_def checked_mul_panic_def checked_mul64_def usize_max_def)
  from vtable_slots_fit [OF this, of 1] show ?thesis by auto
qed

end
