(* ===== verification/Bytecode_VM.thy ===== *)
theory Bytecode_VM
  imports Core_Arena
begin

text \<open>
  \<open>crates/glyim-bytecode-vm/src/lib.rs\<close>: the switch-dispatch virtual machine that runs
  what the bytecode backend emits.

  \<^item> \<open>Vm\<close> is the record \<open>Vm\<close>: the operand stack and the call stack, each with its top
    at the \<^emph>\<open>head\<close> of the list (Rust's \<open>Vec\<close> has it at the end).
  \<^item> A method with \<open>&mut self\<close> that returns \<open>ExecResult\<close> is a state-and-failure
    computation \<open>sx\<close>: the machine keeps the changes made before an \<open>Err\<close>.
  \<^item> \<open>Fault e\<close> is \<open>Err(e)\<close>; \<open>Panic\<close> is a Rust panic of the host (a slice index out
    of range, an \<open>unreachable!\<close>).
  \<^item> The body of the \<open>loop\<close> of \<open>drive\<close> is \<open>vm_step\<close>; the loop itself is the partial
    function \<open>drive\<close>, whose \<open>None\<close> is "does not return".

  Sizes (\<open>n_locals\<close>, offsets, the program counter) are \<open>nat\<close>: a list longer than
  \<open>2 ^ 63\<close> cannot be allocated.  An \<open>i64\<close> is a 64-bit word; \<open>as usize\<close> reads it
  unsigned.
\<close>

section \<open>Values, opcodes, functions, modules\<close>

datatype Value = Int i64 | Tuple "Value list"

fun as_int :: "Value \<Rightarrow> i64" where
  "as_int (Value.Int v) = v"
| "as_int (Value.Tuple _) = 0"

datatype Opcode = LoadConst | Add | Sub | Mul | Div | Rem | Eq | Ne | Lt | Gt | Le | Ge | And | Or
  | Not | Neg | BitAnd | BitOr | BitXor | Shl | Shr | LoadLocal | StoreLocal | Return | JumpIf
  | Jump | Call | Cast | Aggregate | Discriminant | Len | SwitchInt | Assert | CallIndirect
  | LoadLocalAddr | StoreField | Deref | Drop | Repeat | Trap

fun opcode_byte :: "Opcode \<Rightarrow> u8" where
  "opcode_byte Opcode.LoadConst = 0x01"
| "opcode_byte Opcode.Add = 0x02"
| "opcode_byte Opcode.Sub = 0x03"
| "opcode_byte Opcode.Mul = 0x04"
| "opcode_byte Opcode.Div = 0x05"
| "opcode_byte Opcode.Rem = 0x06"
| "opcode_byte Opcode.Eq = 0x07"
| "opcode_byte Opcode.Ne = 0x08"
| "opcode_byte Opcode.Lt = 0x09"
| "opcode_byte Opcode.Gt = 0x0A"
| "opcode_byte Opcode.Le = 0x0B"
| "opcode_byte Opcode.Ge = 0x0C"
| "opcode_byte Opcode.And = 0x0D"
| "opcode_byte Opcode.Or = 0x0E"
| "opcode_byte Opcode.Not = 0x0F"
| "opcode_byte Opcode.Neg = 0x10"
| "opcode_byte Opcode.BitAnd = 0x11"
| "opcode_byte Opcode.BitOr = 0x12"
| "opcode_byte Opcode.BitXor = 0x13"
| "opcode_byte Opcode.Shl = 0x14"
| "opcode_byte Opcode.Shr = 0x15"
| "opcode_byte Opcode.LoadLocal = 0x16"
| "opcode_byte Opcode.StoreLocal = 0x17"
| "opcode_byte Opcode.Return = 0x18"
| "opcode_byte Opcode.JumpIf = 0x19"
| "opcode_byte Opcode.Jump = 0x1A"
| "opcode_byte Opcode.Call = 0x1B"
| "opcode_byte Opcode.Cast = 0x1C"
| "opcode_byte Opcode.Aggregate = 0x1D"
| "opcode_byte Opcode.Discriminant = 0x1E"
| "opcode_byte Opcode.Len = 0x1F"
| "opcode_byte Opcode.SwitchInt = 0x20"
| "opcode_byte Opcode.Assert = 0x21"
| "opcode_byte Opcode.CallIndirect = 0x22"
| "opcode_byte Opcode.LoadLocalAddr = 0x29"
| "opcode_byte Opcode.StoreField = 0x2A"
| "opcode_byte Opcode.Deref = 0x2B"
| "opcode_byte Opcode.Drop = 0x2C"
| "opcode_byte Opcode.Repeat = 0x2D"
| "opcode_byte Opcode.Trap = 0xFF"

definition opcode_from_u8 :: "u8 \<Rightarrow> Opcode option" where
  "opcode_from_u8 b =
     (if b = 0x01 then Some Opcode.LoadConst
      else if b = 0x02 then Some Opcode.Add
      else if b = 0x03 then Some Opcode.Sub
      else if b = 0x04 then Some Opcode.Mul
      else if b = 0x05 then Some Opcode.Div
      else if b = 0x06 then Some Opcode.Rem
      else if b = 0x07 then Some Opcode.Eq
      else if b = 0x08 then Some Opcode.Ne
      else if b = 0x09 then Some Opcode.Lt
      else if b = 0x0A then Some Opcode.Gt
      else if b = 0x0B then Some Opcode.Le
      else if b = 0x0C then Some Opcode.Ge
      else if b = 0x0D then Some Opcode.And
      else if b = 0x0E then Some Opcode.Or
      else if b = 0x0F then Some Opcode.Not
      else if b = 0x10 then Some Opcode.Neg
      else if b = 0x11 then Some Opcode.BitAnd
      else if b = 0x12 then Some Opcode.BitOr
      else if b = 0x13 then Some Opcode.BitXor
      else if b = 0x14 then Some Opcode.Shl
      else if b = 0x15 then Some Opcode.Shr
      else if b = 0x16 then Some Opcode.LoadLocal
      else if b = 0x17 then Some Opcode.StoreLocal
      else if b = 0x18 then Some Opcode.Return
      else if b = 0x19 then Some Opcode.JumpIf
      else if b = 0x1A then Some Opcode.Jump
      else if b = 0x1B then Some Opcode.Call
      else if b = 0x1C then Some Opcode.Cast
      else if b = 0x1D then Some Opcode.Aggregate
      else if b = 0x1E then Some Opcode.Discriminant
      else if b = 0x1F then Some Opcode.Len
      else if b = 0x20 then Some Opcode.SwitchInt
      else if b = 0x21 then Some Opcode.Assert
      else if b = 0x22 then Some Opcode.CallIndirect
      else if b = 0x29 then Some Opcode.LoadLocalAddr
      else if b = 0x2A then Some Opcode.StoreField
      else if b = 0x2B then Some Opcode.Deref
      else if b = 0x2C then Some Opcode.Drop
      else if b = 0x2D then Some Opcode.Repeat
      else if b = 0xFF then Some Opcode.Trap
      else None)"

record Function =
  fn_code :: "u8 list"
  fn_n_locals :: nat
  fn_arg_count :: nat
  fn_block_offsets :: "nat list"

definition Function_new :: "u8 list \<Rightarrow> nat \<Rightarrow> nat \<Rightarrow> Function" where
  "Function_new code n_locals arg_count =
     \<lparr>fn_code = code, fn_n_locals = n_locals, fn_arg_count = arg_count, fn_block_offsets = []\<rparr>"

definition Function_with_blocks :: "u8 list \<Rightarrow> nat \<Rightarrow> nat \<Rightarrow> nat list \<Rightarrow> Function" where
  "Function_with_blocks code n_locals arg_count block_offsets =
     \<lparr>fn_code = code, fn_n_locals = n_locals, fn_arg_count = arg_count,
      fn_block_offsets = block_offsets\<rparr>"

definition resolve_target :: "Function \<Rightarrow> u32 \<Rightarrow> nat" where
  "resolve_target f target =
     (if fn_block_offsets f \<noteq> [] then
        (if unat target < length (fn_block_offsets f) then fn_block_offsets f ! unat target
         else usize_max)
      else unat target)"

record Module =
  m_functions :: "Function list"
  m_entry :: nat

datatype VmError = UnexpectedEndOfCode | UnknownOpcode u8 | StackUnderflow | LocalOutOfBounds nat
  | EmptyReturn | AbnormalTermination | AssertionFailed | CallFrameOverflow
  | FunctionOutOfBounds nat | SwitchNoTarget

datatype vm_fail = Fault VmError | Panic

definition MAX_CALL_DEPTH :: nat where
  "MAX_CALL_DEPTH = 1024"

record Frame =
  fr_locals :: "Value list"
  fr_mem :: "Value list"
  fr_func :: nat
  fr_pc :: nat
  fr_resume_target :: u32
  fr_dest_local :: nat

record Vm =
  vm_stack :: "Value list"
  vm_frames :: "Frame list"

type_synonym 'a exec = "(Vm, vm_fail, 'a) sx"

definition Vm_new :: Vm where
  "Vm_new = \<lparr>vm_stack = [], vm_frames = []\<rparr>"

section \<open>The operand stack, locals and memory\<close>

definition vm_pop :: "Value exec" where
  "vm_pop s = (case vm_stack s of
       [] \<Rightarrow> (Inl (Fault StackUnderflow), s)
     | v # st \<Rightarrow> (Inr v, s\<lparr>vm_stack := st\<rparr>))"

definition vm_push :: "Value \<Rightarrow> unit exec" where
  "vm_push v = sx_modify (\<lambda>s. s\<lparr>vm_stack := v # vm_stack s\<rparr>)"

definition local_ref :: "nat \<Rightarrow> Value exec" where
  "local_ref i s = (case vm_frames s of
       [] \<Rightarrow> (Inl (Fault StackUnderflow), s)
     | fr # _ \<Rightarrow> (if i < length (fr_locals fr) then (Inr (fr_locals fr ! i), s)
                  else (Inl (Fault (LocalOutOfBounds i)), s)))"

text \<open>The test helper \<open>Vm::local\<close>.\<close>

definition vm_local :: "Vm \<Rightarrow> nat \<Rightarrow> Value option" where
  "vm_local s i = (case vm_frames s of
       [] \<Rightarrow> None
     | fr # _ \<Rightarrow> (if i < length (fr_locals fr) then Some (fr_locals fr ! i) else None))"

text \<open>Unpacking a tuple into the slots from \<open>a\<close> on; slots past the end are skipped.\<close>

fun unpack_into :: "nat \<Rightarrow> Value list \<Rightarrow> Value list \<Rightarrow> Value list" where
  "unpack_into a [] mem = mem"
| "unpack_into a (e # es) mem =
     unpack_into (Suc a) es (if a < length mem then mem[a := e] else mem)"

definition mirror_local :: "nat \<Rightarrow> Value \<Rightarrow> Value list \<Rightarrow> Value list" where
  "mirror_local i v mem =
     (if i < length mem then
        (case v of
           Value.Tuple elems \<Rightarrow> unpack_into (i + 1) elems (mem[i := v])
         | Value.Int _ \<Rightarrow> mem[i := v])
      else mem)"

definition set_local :: "nat \<Rightarrow> Value \<Rightarrow> unit exec" where
  "set_local i v s = (case vm_frames s of
       [] \<Rightarrow> (Inl (Fault StackUnderflow), s)
     | fr # frs \<Rightarrow>
         (if length (fr_locals fr) \<le> i then (Inl (Fault (LocalOutOfBounds i)), s)
          else (Inr (), s\<lparr>vm_frames := fr\<lparr>fr_locals := (fr_locals fr)[i := v],
                                         fr_mem := mirror_local i v (fr_mem fr)\<rparr> # frs\<rparr>)))"

definition vm_mem :: "nat \<Rightarrow> Value exec" where
  "vm_mem a s = (case vm_frames s of
       [] \<Rightarrow> (Inl (Fault StackUnderflow), s)
     | fr # _ \<Rightarrow> (if a < length (fr_mem fr) then (Inr (fr_mem fr ! a), s)
                  else (Inl (Fault (LocalOutOfBounds a)), s)))"

definition set_mem :: "nat \<Rightarrow> Value \<Rightarrow> unit exec" where
  "set_mem a v s = (case vm_frames s of
       [] \<Rightarrow> (Inl (Fault StackUnderflow), s)
     | fr # frs \<Rightarrow>
         (if length (fr_mem fr) \<le> a then (Inl (Fault (LocalOutOfBounds a)), s)
          else (Inr (), s\<lparr>vm_frames := fr\<lparr>fr_mem := (fr_mem fr)[a := v]\<rparr> # frs\<rparr>)))"

section \<open>Reading operands\<close>

definition read_u32 :: "u8 list \<Rightarrow> nat \<Rightarrow> vm_fail + (u32 \<times> nat)" where
  "read_u32 code pc =
     (if pc + 4 > length code then Inl (Fault UnexpectedEndOfCode)
      else Inr (from_le (take 4 (drop pc code)), pc + 4))"

definition read_i64 :: "u8 list \<Rightarrow> nat \<Rightarrow> vm_fail + (i64 \<times> nat)" where
  "read_i64 code pc =
     (if pc + 8 > length code then Inl (Fault UnexpectedEndOfCode)
      else Inr (from_le (take 8 (drop pc code)), pc + 8))"

text \<open>The driver passes \<open>&mut self.frames[frame_idx].pc\<close>: the reads below advance the top
  frame's program counter.  \<open>fetch_u8\<close> is the raw index \<open>code[pc]\<close>, which panics past
  the end.\<close>

definition top_pc :: "Vm \<Rightarrow> nat" where
  "top_pc s = (case vm_frames s of [] \<Rightarrow> 0 | fr # _ \<Rightarrow> fr_pc fr)"

definition set_top_pc :: "nat \<Rightarrow> Vm \<Rightarrow> Vm" where
  "set_top_pc pc s = (case vm_frames s of
     [] \<Rightarrow> s | fr # frs \<Rightarrow> s\<lparr>vm_frames := fr\<lparr>fr_pc := pc\<rparr> # frs\<rparr>)"

definition fetch_u32 :: "u8 list \<Rightarrow> u32 exec" where
  "fetch_u32 code s = (case read_u32 code (top_pc s) of
     Inl e \<Rightarrow> (Inl e, s) | Inr (v, pc) \<Rightarrow> (Inr v, set_top_pc pc s))"

definition fetch_i64 :: "u8 list \<Rightarrow> i64 exec" where
  "fetch_i64 code s = (case read_i64 code (top_pc s) of
     Inl e \<Rightarrow> (Inl e, s) | Inr (v, pc) \<Rightarrow> (Inr v, set_top_pc pc s))"

definition fetch_u8 :: "u8 list \<Rightarrow> u8 exec" where
  "fetch_u8 code s =
     (if top_pc s < length code then (Inr (code ! top_pc s), set_top_pc (top_pc s + 1) s)
      else (Inl Panic, s))"

definition jump_to :: "nat \<Rightarrow> unit exec" where
  "jump_to pc = sx_modify (set_top_pc pc)"

section \<open>Arithmetic\<close>

definition trap_none :: "'a option \<Rightarrow> vm_fail + 'a" where
  "trap_none r = (case r of None \<Rightarrow> Inl (Fault AbnormalTermination) | Some v \<Rightarrow> Inr v)"

definition shift_amount :: "i64 \<Rightarrow> nat" where
  "shift_amount b = unat (ucast b :: u32) mod 64"

fun vm_binop :: "Opcode \<Rightarrow> i64 \<Rightarrow> i64 \<Rightarrow> vm_fail + i64" where
  "vm_binop Opcode.Add a b = Inr (a + b)"
| "vm_binop Opcode.Sub a b = Inr (a - b)"
| "vm_binop Opcode.Mul a b = Inr (a * b)"
| "vm_binop Opcode.Div a b = trap_none (checked_sdiv a b)"
| "vm_binop Opcode.Rem a b = trap_none (checked_srem a b)"
| "vm_binop Opcode.Eq a b = Inr (i64_of_bool (a = b))"
| "vm_binop Opcode.Ne a b = Inr (i64_of_bool (a \<noteq> b))"
| "vm_binop Opcode.Lt a b = Inr (i64_of_bool (sint a < sint b))"
| "vm_binop Opcode.Gt a b = Inr (i64_of_bool (sint a > sint b))"
| "vm_binop Opcode.Le a b = Inr (i64_of_bool (sint a \<le> sint b))"
| "vm_binop Opcode.Ge a b = Inr (i64_of_bool (sint a \<ge> sint b))"
| "vm_binop Opcode.And a b = Inr (i64_of_bool (a \<noteq> 0 \<and> b \<noteq> 0))"
| "vm_binop Opcode.Or a b = Inr (i64_of_bool (a \<noteq> 0 \<or> b \<noteq> 0))"
| "vm_binop Opcode.BitAnd a b = Inr (a AND b)"
| "vm_binop Opcode.BitOr a b = Inr (a OR b)"
| "vm_binop Opcode.BitXor a b = Inr (a XOR b)"
| "vm_binop Opcode.Shl a b = Inr (push_bit (shift_amount b) a)"
| "vm_binop Opcode.Shr a b = Inr (signed_drop_bit (shift_amount b) a)"
| "vm_binop _ a b = Inl Panic"

fun vm_unop :: "Opcode \<Rightarrow> i64 \<Rightarrow> vm_fail + i64" where
  "vm_unop Opcode.Not a = Inr (i64_of_bool (a = 0))"
| "vm_unop Opcode.Neg a = Inr (- a)"
| "vm_unop _ a = Inl Panic"

section \<open>Calls\<close>

definition push_frame :: "Module \<Rightarrow> nat \<Rightarrow> Value list \<Rightarrow> u32 \<Rightarrow> nat \<Rightarrow> unit exec" where
  "push_frame m func args resume_target dest_local s =
     (if MAX_CALL_DEPTH \<le> length (vm_frames s) then (Inl (Fault CallFrameOverflow), s)
      else if length (m_functions m) \<le> func then (Inl (Fault (FunctionOutOfBounds func)), s)
      else
        (let f = m_functions m ! func;
             n_locals = max (fn_n_locals f) (length args);
             locals = args @ replicate (n_locals - length args) (Value.Int 0);
             mem_size = max (n_locals * 8) 8
         in (Inr (),
             s\<lparr>vm_frames :=
                 \<lparr>fr_locals = locals, fr_mem = replicate mem_size (Value.Int 0), fr_func = func,
                  fr_pc = 0, fr_resume_target = resume_target, fr_dest_local = dest_local\<rparr>
                 # vm_frames s\<rparr>)))"

text \<open>\<open>&module.functions[i]\<close>.\<close>

definition function_at :: "Module \<Rightarrow> nat \<Rightarrow> vm_fail + Function" where
  "function_at m i =
     (if i < length (m_functions m) then Inr (m_functions m ! i) else Inl Panic)"

fun pop_n :: "nat \<Rightarrow> Value list exec" where
  "pop_n 0 = sx_return []"
| "pop_n (Suc n) = sx_bind vm_pop (\<lambda>v. sx_bind (pop_n n) (\<lambda>vs. sx_return (v # vs)))"

definition exec_return :: "Module \<Rightarrow> Value option exec" where
  "exec_return m s =
     (let (retval, s1) = (case vm_pop s of (Inl _, s') \<Rightarrow> (Value.Int 0, s') | (Inr v, s') \<Rightarrow> (v, s'))
      in case vm_frames s1 of
           [] \<Rightarrow> (Inl Panic, s1)
         | [finished] \<Rightarrow> (Inr (Some retval), s1\<lparr>vm_frames := []\<rparr>)
         | finished # caller # frs \<Rightarrow>
             (case function_at m (fr_func caller) of
                Inl e \<Rightarrow> (Inl e, s1\<lparr>vm_frames := caller # frs\<rparr>)
              | Inr cf \<Rightarrow>
                  (let dest = fr_dest_local finished;
                       caller' = (if dest < length (fr_locals caller)
                                  then caller\<lparr>fr_locals := (fr_locals caller)[dest := retval]\<rparr>
                                  else caller)
                   in (Inr None,
                       s1\<lparr>vm_frames := caller'\<lparr>fr_pc := resolve_target cf (fr_resume_target finished)\<rparr>
                                        # frs\<rparr>))))"

section \<open>One iteration of the driver\<close>

fun switch_arms :: "u8 list \<Rightarrow> nat \<Rightarrow> i64 \<Rightarrow> u32 option \<Rightarrow> u32 option exec" where
  "switch_arms code 0 discr taken = sx_return taken"
| "switch_arms code (Suc n) discr taken =
     sx_bind (fetch_i64 code) (\<lambda>v. sx_bind (fetch_u32 code) (\<lambda>t.
       switch_arms code n discr (if v = discr then Some t else taken)))"

definition value_len :: "Value \<Rightarrow> i64" where
  "value_len v = (case v of Value.Tuple elems \<Rightarrow> of_nat (length elems) | Value.Int _ \<Rightarrow> 0)"

definition exec_binop :: "Opcode \<Rightarrow> unit exec" where
  "exec_binop op = sx_bind vm_pop (\<lambda>b. sx_bind vm_pop (\<lambda>a.
     sx_bind (sx_lift (vm_binop op (as_int a) (as_int b))) (\<lambda>r. vm_push (Value.Int r))))"

definition exec_unop :: "Opcode \<Rightarrow> unit exec" where
  "exec_unop op = sx_bind vm_pop (\<lambda>a.
     sx_bind (sx_lift (vm_unop op (as_int a))) (\<lambda>r. vm_push (Value.Int r)))"

definition exec_call :: "Module \<Rightarrow> Function \<Rightarrow> unit exec" where
  "exec_call m f =
     sx_bind (fetch_u32 (fn_code f)) (\<lambda>argc.
     sx_bind (fetch_u32 (fn_code f)) (\<lambda>dest_local.
     sx_bind (fetch_u32 (fn_code f)) (\<lambda>target.
     sx_bind (pop_n (unat argc)) (\<lambda>args.
     sx_bind vm_pop (\<lambda>fn_idx.
       push_frame m (unat (as_int fn_idx)) (rev args) target (unat dest_local))))))"

fun exec_op :: "Module \<Rightarrow> Function \<Rightarrow> Opcode \<Rightarrow> unit exec" where
  "exec_op m f Opcode.LoadConst = sx_bind (fetch_i64 (fn_code f)) (\<lambda>v. vm_push (Value.Int v))"
| "exec_op m f Opcode.LoadLocal =
     sx_bind (fetch_u32 (fn_code f)) (\<lambda>i. sx_bind (local_ref (unat i)) vm_push)"
| "exec_op m f Opcode.StoreLocal =
     sx_bind (fetch_u32 (fn_code f)) (\<lambda>i. sx_bind vm_pop (set_local (unat i)))"
| "exec_op m f Opcode.LoadLocalAddr =
     sx_bind (fetch_u32 (fn_code f)) (\<lambda>i. vm_push (Value.Int (ucast i)))"
| "exec_op m f Opcode.StoreField =
     sx_bind vm_pop (\<lambda>addr. sx_bind vm_pop (set_mem (unat (as_int addr))))"
| "exec_op m f Opcode.Deref =
     sx_bind vm_pop (\<lambda>addr. sx_bind (vm_mem (unat (as_int addr))) vm_push)"
| "exec_op m f Opcode.Not = exec_unop Opcode.Not"
| "exec_op m f Opcode.Neg = exec_unop Opcode.Neg"
| "exec_op m f Opcode.Cast = sx_bind (fetch_u8 (fn_code f)) (\<lambda>_. sx_return ())"
| "exec_op m f Opcode.Jump =
     sx_bind (fetch_u32 (fn_code f)) (\<lambda>t. jump_to (resolve_target f t))"
| "exec_op m f Opcode.JumpIf =
     sx_bind (fetch_u32 (fn_code f)) (\<lambda>t. sx_bind vm_pop (\<lambda>cond.
       if as_int cond \<noteq> 0 then jump_to (resolve_target f t) else sx_return ()))"
| "exec_op m f Opcode.SwitchInt =
     sx_bind vm_pop (\<lambda>discr.
     sx_bind (fetch_u32 (fn_code f)) (\<lambda>count.
     sx_bind (switch_arms (fn_code f) (unat count) (as_int discr) None) (\<lambda>taken.
     sx_bind (fetch_u32 (fn_code f)) (\<lambda>otherwise'.
       jump_to (resolve_target f (case taken of Some t \<Rightarrow> t | None \<Rightarrow> otherwise'))))))"
| "exec_op m f Opcode.Assert =
     sx_bind (fetch_u8 (fn_code f)) (\<lambda>expected.
     sx_bind (fetch_u32 (fn_code f)) (\<lambda>target.
     sx_bind vm_pop (\<lambda>cond.
       if (as_int cond \<noteq> 0) \<noteq> (expected \<noteq> 0) then sx_fail (Fault AssertionFailed)
       else jump_to (resolve_target f target))))"
| "exec_op m f Opcode.Len =
     sx_bind (fetch_u32 (fn_code f)) (\<lambda>i. sx_bind (local_ref (unat i)) (\<lambda>v.
       vm_push (Value.Int (value_len v))))"
| "exec_op m f Opcode.Discriminant = sx_bind vm_pop (\<lambda>v. vm_push (Value.Int (value_len v)))"
| "exec_op m f Opcode.Aggregate =
     sx_bind (fetch_u32 (fn_code f)) (\<lambda>n. sx_bind (pop_n (unat n)) (\<lambda>elems.
       vm_push (Value.Tuple (rev elems))))"
| "exec_op m f Opcode.Drop = sx_bind vm_pop (\<lambda>_. sx_return ())"
| "exec_op m f Opcode.Repeat =
     sx_bind vm_pop (\<lambda>count. sx_bind vm_pop (\<lambda>v.
       vm_push (Value.Tuple (replicate (nat (max 0 (sint (as_int count)))) v))))"
| "exec_op m f Opcode.Call = exec_call m f"
| "exec_op m f Opcode.CallIndirect = exec_call m f"
| "exec_op m f Opcode.Trap = sx_fail (Fault AbnormalTermination)"
| "exec_op m f Opcode.Return = sx_fail Panic \<comment> \<open>handled by \<open>vm_step\<close>\<close>"
| "exec_op m f op = exec_binop op"

text \<open>\<open>Inr (Some v)\<close>: the program returned \<open>v\<close>; \<open>Inr None\<close>: the loop goes on.\<close>

definition vm_step :: "Module \<Rightarrow> Value option exec" where
  "vm_step m s =
     (case vm_frames s of
        [] \<Rightarrow> (case vm_pop s of (Inl _, s') \<Rightarrow> (Inl (Fault EmptyReturn), s')
                               | (Inr v, s') \<Rightarrow> (Inr (Some v), s'))
      | fr # _ \<Rightarrow>
          (case function_at m (fr_func fr) of
             Inl e \<Rightarrow> (Inl e, s)
           | Inr f \<Rightarrow>
               if length (fn_code f) \<le> fr_pc fr then (Inl (Fault UnexpectedEndOfCode), s)
               else
                 (let raw = fn_code f ! fr_pc fr in
                  case opcode_from_u8 raw of
                    None \<Rightarrow> (Inl (Fault (UnknownOpcode raw)), s)
                  | Some op \<Rightarrow>
                      (let s' = set_top_pc (fr_pc fr + 1) s in
                       if op = Opcode.Return then exec_return m s'
                       else sx_bind (exec_op m f op) (\<lambda>_. sx_return None) s'))))"

section \<open>The driver\<close>

partial_function (option) drive :: "Module \<Rightarrow> Vm \<Rightarrow> ((vm_fail + Value) \<times> Vm) option" where
  "drive m s =
     (case vm_step m s of
        (Inl e, s') \<Rightarrow> Some (Inl e, s')
      | (Inr r, s') \<Rightarrow> (case r of Some v \<Rightarrow> Some (Inr v, s') | None \<Rightarrow> drive m s'))"

definition run_module :: "Module \<Rightarrow> Vm \<Rightarrow> ((vm_fail + Value) \<times> Vm) option" where
  "run_module m s =
     (if m_functions m = [] then Some (Inl (Fault (FunctionOutOfBounds 0)), s)
      else (case push_frame m (m_entry m) [] u32_max usize_max s of
              (Inl e, s') \<Rightarrow> Some (Inl e, s')
            | (Inr _, s') \<Rightarrow> drive m s'))"

definition Module_run :: "Module \<Rightarrow> (vm_fail + Value) option" where
  "Module_run m = map_option fst (run_module m Vm_new)"

record Chunk =
  ch_code :: "u8 list"
  ch_n_locals :: nat
  ch_entry :: nat

definition Chunk_new :: "u8 list \<Rightarrow> Chunk" where
  "Chunk_new code = \<lparr>ch_code = code, ch_n_locals = 0, ch_entry = 0\<rparr>"

definition Chunk_with_locals :: "u8 list \<Rightarrow> nat \<Rightarrow> Chunk" where
  "Chunk_with_locals code n = \<lparr>ch_code = code, ch_n_locals = n, ch_entry = 0\<rparr>"

definition vm_run :: "Chunk \<Rightarrow> Vm \<Rightarrow> ((vm_fail + Value) \<times> Vm) option" where
  "vm_run c = run_module
     \<lparr>m_functions = [Function_new (ch_code c) (ch_n_locals c) 0], m_entry = 0\<rparr>"

end
