(* ===== verification/Bytecode_VM_Props.thy ===== *)
theory Bytecode_VM_Props
  imports Bytecode_VM
begin

text \<open>
  What the virtual machine keeps and promises: the opcode table is a bijection on the
  bytes it accepts; every step keeps the well-formedness of the call stack and its depth
  bound; the only host panics are the two unchecked operand reads (\<open>Cast\<close>, \<open>Assert\<close>);
  arithmetic traps exactly on the undefined divisions; memory and locals behave as
  arrays; a call and its return meet.
\<close>

named_theorems vm_safe_rules \<open>operations that keep a well-formed machine and do not panic\<close>

section \<open>Opcodes\<close>

lemma opcode_from_byte [simp]: "opcode_from_u8 (opcode_byte op) = Some op"
  by (cases op) (simp_all add: opcode_from_u8_def)

lemma opcode_byte_from: "opcode_from_u8 b = Some op \<Longrightarrow> opcode_byte op = b"
  by (simp add: opcode_from_u8_def split: if_splits; elim subst; simp)

declare opcode_byte.simps [simp del]

lemma opcode_byte_inj: "opcode_byte a = opcode_byte b \<longleftrightarrow> a = b"
  by (metis opcode_from_byte option.inject)

section \<open>Well-formed machines\<close>

definition frame_wf :: "Module \<Rightarrow> Frame \<Rightarrow> bool" where
  "frame_wf m fr \<longleftrightarrow>
     fr_func fr < length (m_functions m) \<and>
     fn_n_locals (m_functions m ! fr_func fr) \<le> length (fr_locals fr) \<and>
     length (fr_mem fr) = max (length (fr_locals fr) * 8) 8"

definition vm_wf :: "Module \<Rightarrow> Vm \<Rightarrow> bool" where
  "vm_wf m s \<longleftrightarrow>
     length (vm_frames s) \<le> MAX_CALL_DEPTH \<and> (\<forall>fr \<in> set (vm_frames s). frame_wf m fr)"

definition vm_safe :: "Module \<Rightarrow> 'a exec \<Rightarrow> bool" where
  "vm_safe m c \<longleftrightarrow> sx_triple (vm_wf m) c (\<lambda>_. vm_wf m) (\<lambda>e s. vm_wf m s \<and> e \<noteq> Panic)"

lemma vm_wf_new [simp]: "vm_wf m Vm_new"
  by (simp add: vm_wf_def Vm_new_def)

lemma vm_wf_stack [simp]: "vm_wf m (s\<lparr>vm_stack := st\<rparr>) = vm_wf m s"
  by (simp add: vm_wf_def)

lemma vm_safeI:
  "(\<And>s. vm_wf m s \<Longrightarrow> (case c s of (Inr x, s') \<Rightarrow> vm_wf m s' | (Inl e, s') \<Rightarrow> vm_wf m s' \<and> e \<noteq> Panic))
   \<Longrightarrow> vm_safe m c"
  by (simp add: vm_safe_def sx_triple_def)

lemma vm_safe_bind [vm_safe_rules]:
  "vm_safe m c \<Longrightarrow> (\<And>x. vm_safe m (f x)) \<Longrightarrow> vm_safe m (sx_bind c f)"
  unfolding vm_safe_def by (rule sx_triple_bind)

lemma vm_safe_return [vm_safe_rules]: "vm_safe m (sx_return x)"
  unfolding vm_safe_def by (rule sx_triple_return)

lemma vm_safe_fault [vm_safe_rules]: "vm_safe m (sx_fail (Fault e))"
  unfolding vm_safe_def by (rule sx_triple_fail) simp

lemma vm_safe_lift [vm_safe_rules]: "r \<noteq> Inl Panic \<Longrightarrow> vm_safe m (sx_lift r)"
  unfolding vm_safe_def by (rule sx_triple_lift) auto

lemma vm_safe_if [vm_safe_rules]: "vm_safe m c \<Longrightarrow> vm_safe m d \<Longrightarrow> vm_safe m (if b then c else d)"
  by simp

lemma vm_safe_pop [vm_safe_rules]: "vm_safe m vm_pop"
  by (rule vm_safeI) (auto simp: vm_pop_def split: list.split)

lemma vm_safe_push [vm_safe_rules]: "vm_safe m (vm_push v)"
  by (rule vm_safeI) (simp add: vm_push_def sx_apply)

lemma vm_safe_local_ref [vm_safe_rules]: "vm_safe m (local_ref i)"
  by (rule vm_safeI) (auto simp: local_ref_def split: list.split)

lemma vm_safe_mem [vm_safe_rules]: "vm_safe m (vm_mem i)"
  by (rule vm_safeI) (auto simp: vm_mem_def split: list.split)

lemma length_unpack_into [simp]: "length (unpack_into a es mem) = length mem"
  by (induction es arbitrary: a mem) auto

lemma length_mirror_local [simp]: "length (mirror_local i v mem) = length mem"
  by (auto simp: mirror_local_def split: Value.split)

lemma vm_safe_set_local [vm_safe_rules]: "vm_safe m (set_local i v)"
  by (rule vm_safeI) (auto simp: set_local_def vm_wf_def frame_wf_def split: list.split)

lemma vm_safe_set_mem [vm_safe_rules]: "vm_safe m (set_mem i v)"
  by (rule vm_safeI) (auto simp: set_mem_def vm_wf_def frame_wf_def split: list.split)

lemma vm_wf_set_top_pc [simp]: "vm_wf m (set_top_pc pc s) = vm_wf m s"
  by (auto simp: set_top_pc_def vm_wf_def frame_wf_def split: list.split)

lemma vm_safe_jump_to [vm_safe_rules]: "vm_safe m (jump_to pc)"
  by (rule vm_safeI) (simp add: jump_to_def sx_apply)

lemma vm_safe_fetch_u32 [vm_safe_rules]: "vm_safe m (fetch_u32 code)"
  by (rule vm_safeI) (auto simp: fetch_u32_def read_u32_def)

lemma vm_safe_fetch_i64 [vm_safe_rules]: "vm_safe m (fetch_i64 code)"
  by (rule vm_safeI) (auto simp: fetch_i64_def read_i64_def)

lemma vm_safe_pop_n [vm_safe_rules]: "vm_safe m (pop_n n)"
  by (induction n) (auto intro!: vm_safe_rules)

lemma vm_safe_switch_arms [vm_safe_rules]: "vm_safe m (switch_arms code n d t)"
  by (induction n arbitrary: t) (auto intro!: vm_safe_rules)

lemma vm_safe_push_frame [vm_safe_rules]: "vm_safe m (push_frame m f args r d)"
  by (rule vm_safeI) (auto simp: push_frame_def vm_wf_def frame_wf_def Let_def)

lemma vm_safe_call [vm_safe_rules]: "vm_safe m (exec_call m f)"
  unfolding exec_call_def by (intro vm_safe_rules)

definition is_binop :: "Opcode \<Rightarrow> bool" where
  "is_binop op \<longleftrightarrow> (\<forall>a b. vm_binop op a b \<noteq> Inl Panic)"

lemma trap_none_not_Panic [simp]: "trap_none r \<noteq> Inl Panic"
  by (simp add: trap_none_def split: option.split)

lemma vm_safe_binop [vm_safe_rules]: "is_binop op \<Longrightarrow> vm_safe m (exec_binop op)"
  unfolding exec_binop_def is_binop_def by (intro vm_safe_rules) auto

lemma vm_safe_exec_op:
  assumes "op \<noteq> Opcode.Return" "op \<noteq> Opcode.Cast" "op \<noteq> Opcode.Assert"
  shows "vm_safe m (exec_op m f op)"
  using assms
  by (cases op) (auto simp: exec_unop_def is_binop_def intro!: vm_safe_rules)

lemma vm_safe_exec_return:
  assumes "vm_wf m s" "vm_frames s \<noteq> []"
  shows "case exec_return m s of (Inr x, s') \<Rightarrow> vm_wf m s' | (Inl e, s') \<Rightarrow> vm_wf m s' \<and> e \<noteq> Panic"
  using assms
  by (auto simp: exec_return_def vm_pop_def function_at_def vm_wf_def frame_wf_def Let_def
      split: list.split)

text \<open>The two opcodes with an unchecked operand byte keep the machine well-formed too; they
  panic exactly when that byte is missing.\<close>

lemma exec_unchecked_wf:
  assumes "op = Opcode.Cast \<or> op = Opcode.Assert"
  shows "sx_triple (vm_wf m) (exec_op m f op) (\<lambda>_. vm_wf m) (\<lambda>e. vm_wf m)"
proof -
  have safe: "vm_safe m c \<Longrightarrow> sx_triple (vm_wf m) c (\<lambda>_. vm_wf m) (\<lambda>e. vm_wf m)" for c :: "'a exec"
    unfolding vm_safe_def by (erule sx_triple_weaken) auto
  have f8: "sx_triple (vm_wf m) (fetch_u8 c) (\<lambda>_. vm_wf m) (\<lambda>e. vm_wf m)" for c
    by (rule sx_tripleI) (auto simp: fetch_u8_def split: if_splits)
  from assms show ?thesis
  proof
    assume "op = Opcode.Cast"
    then show ?thesis
      by (simp, intro sx_triple_bind [OF f8] safe vm_safe_rules)
  next
    assume "op = Opcode.Assert"
    then show ?thesis
      by (simp, intro sx_triple_bind [OF f8] safe vm_safe_rules)
  qed
qed

lemma exec_unchecked_panic:
  assumes "op = Opcode.Cast \<or> op = Opcode.Assert" and "exec_op m f op s = (Inl Panic, s')"
  shows "length (fn_code f) \<le> top_pc s"
proof (rule ccontr)
  assume "\<not> length (fn_code f) \<le> top_pc s"
  then have f8: "fetch_u8 (fn_code f) s = (Inr (fn_code f ! top_pc s), set_top_pc (top_pc s + 1) s)"
    by (simp add: fetch_u8_def)
  show False
    using assms f8
    by (auto simp: sx_bind_apply fetch_u32_def read_u32_def vm_pop_def jump_to_def sx_apply
        split: if_splits list.splits)
qed

text \<open>One step, case by case.\<close>

lemma vm_step_cases [consumes 1, case_names idle no_fun no_code unknown ret op]:
  assumes "vm_step m s = r"
  obtains (idle) "vm_frames s = []"
  | (no_fun) fr frs where "vm_frames s = fr # frs" "length (m_functions m) \<le> fr_func fr"
      "r = (Inl Panic, s)"
  | (no_code) fr frs f where "vm_frames s = fr # frs" "function_at m (fr_func fr) = Inr f"
      "length (fn_code f) \<le> fr_pc fr" "r = (Inl (Fault UnexpectedEndOfCode), s)"
  | (unknown) fr frs f where "vm_frames s = fr # frs" "function_at m (fr_func fr) = Inr f"
      "fr_pc fr < length (fn_code f)" "opcode_from_u8 (fn_code f ! fr_pc fr) = None"
      "r = (Inl (Fault (UnknownOpcode (fn_code f ! fr_pc fr))), s)"
  | (ret) fr frs f where "vm_frames s = fr # frs" "function_at m (fr_func fr) = Inr f"
      "fr_pc fr < length (fn_code f)" "fn_code f ! fr_pc fr = opcode_byte Opcode.Return"
      "r = exec_return m (set_top_pc (fr_pc fr + 1) s)"
  | (op) fr frs f op where "vm_frames s = fr # frs" "function_at m (fr_func fr) = Inr f"
      "fr_pc fr < length (fn_code f)" "fn_code f ! fr_pc fr = opcode_byte op" "op \<noteq> Opcode.Return"
      "r = sx_bind (exec_op m f op) (\<lambda>_. sx_return None) (set_top_pc (fr_pc fr + 1) s)"
proof (cases "vm_frames s")
  case Nil
  then show thesis by (rule idle)
next
  case (Cons fr frs)
  show thesis
  proof (cases "function_at m (fr_func fr)")
    case (Inl e)
    with Cons assms show thesis
      by (intro no_fun) (auto simp: vm_step_def function_at_def split: if_splits)
  next
    case (Inr f)
    show thesis
    proof (cases "fr_pc fr < length (fn_code f)")
      case False
      with Cons Inr assms show thesis by (intro no_code) (auto simp: vm_step_def)
    next
      case True
      show thesis
      proof (cases "opcode_from_u8 (fn_code f ! fr_pc fr)")
        case None
        with Cons Inr True assms show thesis by (intro unknown) (auto simp: vm_step_def)
      next
        case (Some op)
        note b = opcode_byte_from [OF Some, symmetric]
        show thesis
        proof (cases "op = Opcode.Return")
          case True
          with Cons Inr Some b \<open>fr_pc fr < _\<close> assms show thesis
            by (intro ret) (auto simp: vm_step_def)
        next
          case False
          with Cons Inr Some b \<open>fr_pc fr < _\<close> assms show thesis
            by (intro op [of fr frs f op]) (auto simp: vm_step_def)
        qed
      qed
    qed
  qed
qed

lemma vm_step_op_triple:
  assumes "op \<noteq> Opcode.Return"
  shows "sx_triple (vm_wf m) (sx_bind (exec_op m f op) (\<lambda>_. sx_return r)) (\<lambda>_. vm_wf m) (\<lambda>_. vm_wf m)"
proof (rule sx_triple_bind)
  show "sx_triple (vm_wf m) (exec_op m f op) (\<lambda>_. vm_wf m) (\<lambda>_. vm_wf m)"
  proof (cases "op = Opcode.Cast \<or> op = Opcode.Assert")
    case True
    then show ?thesis by (rule exec_unchecked_wf)
  next
    case False
    with assms have "vm_safe m (exec_op m f op)" by (intro vm_safe_exec_op) auto
    then show ?thesis unfolding vm_safe_def by (rule sx_triple_weaken) auto
  qed
  show "sx_triple (vm_wf m) (sx_return r) (\<lambda>_. vm_wf m) (\<lambda>_. vm_wf m)" for x
    by (rule sx_triple_return)
qed

lemma vm_step_op_wf:
  assumes "op \<noteq> Opcode.Return" "vm_wf m s" "sx_bind (exec_op m f op) (\<lambda>_. sx_return q) s = (r, t)"
  shows "vm_wf m t"
  using vm_step_op_triple [OF assms(1), of m f q] assms(2,3)
  by (cases r) (blast dest: sx_tripleD_Inr sx_tripleD_Inl)+

lemma vm_step_wf:
  assumes "vm_wf m s" "vm_step m s = (r, t)"
  shows "vm_wf m t"
  using assms(2)
proof (cases rule: vm_step_cases)
  case idle
  with assms show ?thesis by (auto simp: vm_step_def vm_pop_def split: list.splits)
next
  case (ret fr frs f)
  let ?s = "set_top_pc (fr_pc fr + 1) s"
  have w: "vm_wf m ?s" using assms by simp
  have "vm_frames ?s \<noteq> []" using ret by (simp add: set_top_pc_def)
  from vm_safe_exec_return [OF w this] ret(5) show ?thesis
    by (cases r) (auto split: sum.splits prod.splits)
next
  case (op fr frs f op)
  have w: "vm_wf m (set_top_pc (fr_pc fr + 1) s)" using assms by simp
  from vm_step_op_wf [OF op(5) w op(6) [symmetric]] show ?thesis .
qed (use assms in auto)

section \<open>Runs\<close>

text \<open>\<open>vm_next m s t\<close>: the loop goes round once from \<open>s\<close> to \<open>t\<close>.\<close>

inductive vm_next :: "Module \<Rightarrow> Vm \<Rightarrow> Vm \<Rightarrow> bool" for m where
  vm_nextI: "vm_step m s = (Inr None, t) \<Longrightarrow> vm_next m s t"

inductive_cases vm_nextE: "vm_next m s t"

abbreviation vm_reaches :: "Module \<Rightarrow> Vm \<Rightarrow> Vm \<Rightarrow> bool" where
  "vm_reaches m \<equiv> (vm_next m)\<^sup>*\<^sup>*"

lemma drive_next: "vm_next m s t \<Longrightarrow> drive m s = drive m t"
  by (auto elim!: vm_nextE simp: drive.simps [of m s])

lemma drive_reaches: "vm_reaches m s t \<Longrightarrow> drive m s = drive m t"
  by (induction rule: rtranclp_induct) (auto dest: drive_next)

lemma drive_fail: "vm_step m s = (Inl e, t) \<Longrightarrow> drive m s = Some (Inl e, t)"
  by (simp add: drive.simps)

lemma drive_done: "vm_step m s = (Inr (Some v), t) \<Longrightarrow> drive m s = Some (Inr v, t)"
  by (simp add: drive.simps)

lemma vm_reaches_wf: "vm_reaches m s t \<Longrightarrow> vm_wf m s \<Longrightarrow> vm_wf m t"
  by (induction rule: rtranclp_induct) (auto elim!: vm_nextE intro: vm_step_wf)

lemma push_frame_wf: "vm_wf m s \<Longrightarrow> push_frame m f args r d s = (x, t) \<Longrightarrow> vm_wf m t"
  using vm_safe_push_frame [of m f args r d] unfolding vm_safe_def
  by (cases x) (auto dest: sx_tripleD_Inr sx_tripleD_Inl)

lemma drive_wf: "drive m s = Some (r, t) \<Longrightarrow> vm_wf m s \<Longrightarrow> vm_wf m t"
proof -
  assume d: "drive m s = Some (r, t)"
  have "vm_wf m s \<longrightarrow> vm_wf m (snd (r, t))"
  proof (rule drive.raw_induct [where P = "\<lambda>m s rt. vm_wf m s \<longrightarrow> vm_wf m (snd rt)", OF _ d])
    fix dr m s rt
    assume IH: "\<And>m s rt. dr m s = Some rt \<Longrightarrow> vm_wf m s \<longrightarrow> vm_wf m (snd rt)"
      and eq: "(case vm_step m s of
          (Inl e, s') \<Rightarrow> Some (Inl e, s')
        | (Inr r, s') \<Rightarrow> (case r of Some v \<Rightarrow> Some (Inr v, s') | None \<Rightarrow> dr m s')) = Some rt"
    show "vm_wf m s \<longrightarrow> vm_wf m (snd rt)"
    proof
      assume w: "vm_wf m s"
      obtain r t where st: "vm_step m s = (r, t)" by fastforce
      from vm_step_wf [OF w st] have "vm_wf m t" .
      with eq IH [of m t] show "vm_wf m (snd rt)"
        unfolding st by (auto split: sum.splits option.splits)
    qed
  qed
  then show "vm_wf m s \<Longrightarrow> vm_wf m t" by simp
qed

text \<open>A state whose only step is to itself is never left.\<close>

lemma drive_self_loop:
  assumes "vm_step m s = (Inr None, s)"
  shows "drive m s = None"
proof (rule ccontr)
  assume "drive m s \<noteq> None"
  then obtain rt where d: "drive m s = Some rt" by auto
  have "\<not> (m = m \<and> s = s)"
  proof (rule drive.raw_induct [where P = "\<lambda>m' s' rt. \<not> (m' = m \<and> s' = s)", OF _ d])
    fix dr m' s' rt
    assume IH: "\<And>m' s' rt. dr m' s' = Some rt \<Longrightarrow> \<not> (m' = m \<and> s' = s)"
      and eq: "(case vm_step m' s' of
          (Inl e, s'') \<Rightarrow> Some (Inl e, s'')
        | (Inr r, s'') \<Rightarrow> (case r of Some v \<Rightarrow> Some (Inr v, s'') | None \<Rightarrow> dr m' s'')) = Some rt"
    show "\<not> (m' = m \<and> s' = s)"
    proof
      assume "m' = m \<and> s' = s"
      with eq assms have "dr m s = Some rt" by simp
      then show False using IH by blast
    qed
  qed
  then show False by simp
qed

section \<open>Stepping an instruction found in the code\<close>

text \<open>\<open>at m s f pc\<close>: the top frame of \<open>s\<close> runs \<open>f\<close> and stands at \<open>pc\<close>.\<close>

definition vm_at :: "Module \<Rightarrow> Vm \<Rightarrow> Function \<Rightarrow> nat \<Rightarrow> bool" where
  "vm_at m s f pc \<longleftrightarrow>
     (\<exists>fr frs. vm_frames s = fr # frs \<and> function_at m (fr_func fr) = Inr f \<and> fr_pc fr = pc)"

lemma vm_at_top_pc: "vm_at m s f pc \<Longrightarrow> top_pc s = pc"
  by (auto simp: vm_at_def top_pc_def)

lemma top_pc_set [simp]: "vm_frames s \<noteq> [] \<Longrightarrow> top_pc (set_top_pc pc s) = pc"
  by (auto simp: top_pc_def set_top_pc_def split: list.split)

lemma set_top_pc_set [simp]: "set_top_pc a (set_top_pc b s) = set_top_pc a s"
  by (auto simp: set_top_pc_def split: list.split)

lemma set_top_pc_stack [simp]: "vm_stack (set_top_pc pc s) = vm_stack s"
  by (auto simp: set_top_pc_def split: list.split)

lemma set_top_pc_eq_Nil [simp]: "vm_frames (set_top_pc pc s) = [] \<longleftrightarrow> vm_frames s = []"
  by (auto simp: set_top_pc_def split: list.split)

lemma top_pc_stack [simp]: "top_pc (s\<lparr>vm_stack := st\<rparr>) = top_pc s"
  by (simp add: top_pc_def)

lemma set_top_pc_stack_upd [simp]:
  "set_top_pc pc (s\<lparr>vm_stack := st\<rparr>) = (set_top_pc pc s)\<lparr>vm_stack := st\<rparr>"
  by (auto simp: set_top_pc_def split: list.split)

lemma vm_at_set [simp]: "vm_at m (set_top_pc pc s) f pc' \<longleftrightarrow> vm_at m s f (top_pc s) \<and> pc' = pc"
  by (auto simp: vm_at_def set_top_pc_def top_pc_def split: list.split)

lemma vm_at_stack [simp]: "vm_at m (s\<lparr>vm_stack := st\<rparr>) f pc = vm_at m s f pc"
  by (simp add: vm_at_def)

lemma vm_at_frames: "vm_at m s f pc \<Longrightarrow> vm_frames s \<noteq> []"
  by (auto simp: vm_at_def)

lemma vm_step_at:
  assumes "vm_at m s f pc" "code_at (fn_code f) pc (opcode_byte op # rest)" "op \<noteq> Opcode.Return"
  shows "vm_step m s = sx_bind (exec_op m f op) (\<lambda>_. sx_return None) (set_top_pc (Suc pc) s)"
  using assms by (auto simp: vm_at_def vm_step_def code_at_Cons)

lemma fetch_u32_at:
  assumes "vm_frames s \<noteq> []" "top_pc s = p" "code_at code p (u32_le w @ rest)" "q = p + 4"
  shows "fetch_u32 code s = (Inr w, set_top_pc q s)"
  using assms code_at_length [of code p "u32_le w"]
  by (auto simp: fetch_u32_def read_u32_def code_at_append code_at_take)

lemma fetch_i64_at:
  assumes "vm_frames s \<noteq> []" "top_pc s = p" "code_at code p (i64_le w @ rest)" "q = p + 8"
  shows "fetch_i64 code s = (Inr w, set_top_pc q s)"
  using assms code_at_length [of code p "i64_le w"]
  by (auto simp: fetch_i64_def read_i64_def code_at_append code_at_take)

section \<open>Locals and memory behave as arrays\<close>

lemma set_local_ref:
  assumes "set_local i v s = (Inr (), t)"
  shows "local_ref j t = (if j = i then (Inr v, t) else (fst (local_ref j s), t))"
  using assms by (auto simp: set_local_def local_ref_def nth_list_update split: list.splits if_splits)

lemma set_mem_mem:
  assumes "set_mem a v s = (Inr (), t)"
  shows "vm_mem b t = (if b = a then (Inr v, t) else (fst (vm_mem b s), t))"
  using assms by (auto simp: set_mem_def vm_mem_def nth_list_update split: list.splits if_splits)

lemma set_mem_bounds:
  "vm_wf m s \<Longrightarrow> vm_frames s = fr # frs \<Longrightarrow>
   (\<exists>t. set_mem a v s = (Inr (), t)) \<longleftrightarrow> a < max (length (fr_locals fr) * 8) 8"
  by (auto simp: set_mem_def vm_wf_def frame_wf_def)

lemma unpack_into_nth:
  assumes "k < length mem"
  shows "unpack_into a es mem ! k = (if a \<le> k \<and> k < a + length es then es ! (k - a) else mem ! k)"
  using assms
proof (induction es arbitrary: a mem)
  case Nil
  then show ?case by auto
next
  case (Cons e es)
  then show ?case by (auto simp: nth_Cons' nth_list_update)
qed

text \<open>After storing a tuple into local \<open>i\<close>, the memory slot after it holds its fields: the
  layout the emitter's \<open>Field(k)\<close> address \<open>base + (k + 1)\<close> reads.\<close>

lemma set_local_field:
  assumes "set_local i (Value.Tuple es) s = (Inr (), t)" "vm_frames t = fr # frs"
    and "k < length es" "i + 1 + k < length (fr_mem fr)"
  shows "vm_mem (i + 1 + k) t = (Inr (es ! k), t)" and "vm_mem i t = (Inr (Value.Tuple es), t)"
  using assms
  by (auto simp: set_local_def vm_mem_def mirror_local_def unpack_into_nth split: list.splits if_splits)

section \<open>Arithmetic\<close>

lemma trap_none_trap [simp]: "trap_none r = Inl e \<longleftrightarrow> r = None \<and> e = Fault AbnormalTermination"
  by (auto simp: trap_none_def split: option.split)

lemma trap_none_Some [simp]: "trap_none r = Inr v \<longleftrightarrow> r = Some v"
  by (auto simp: trap_none_def split: option.split)

lemma sint_i64_min [simp]: "sint i64_min = - 9223372036854775808"
  by (simp add: i64_min_def)

lemma sint_eq_i64_min: "sint a = - 9223372036854775808 \<longleftrightarrow> a = i64_min"
proof
  assume "sint a = - 9223372036854775808"
  then have "sint a = sint i64_min" by simp
  then show "a = i64_min" by (rule signed_word_eqI)
qed simp

lemma checked_sdiv_None: "checked_sdiv a b = None \<longleftrightarrow> b = 0 \<or> (a = i64_min \<and> b = - 1)" for a b :: i64
  using sint_eq_i64_min [of a] by (simp add: checked_sdiv_def)

lemma checked_srem_None: "checked_srem a b = None \<longleftrightarrow> b = 0 \<or> (a = i64_min \<and> b = - 1)" for a b :: i64
  using sint_eq_i64_min [of a] by (simp add: checked_srem_def)

lemma vm_binop_cases:
  assumes "is_binop op"
  shows "vm_binop op a b = Inl e \<longleftrightarrow>
    e = Fault AbnormalTermination \<and> (op = Opcode.Div \<or> op = Opcode.Rem) \<and>
    (b = 0 \<or> (a = i64_min \<and> b = - 1))"
  using assms by (cases op) (auto simp: is_binop_def checked_sdiv_None checked_srem_None)

text \<open>Where the division does not trap, its result is the truncated quotient.\<close>

lemma sint_bounds: "- (2 ^ 63) \<le> sint (a :: i64)" "sint (a :: i64) < 2 ^ 63"
  using sint_ge [of a] sint_lt [of a] by simp_all

lemma sint_of_int_small: "- (2 ^ 63) \<le> k \<Longrightarrow> k < 2 ^ 63 \<Longrightarrow> sint (word_of_int k :: i64) = k"
  by (simp add: signed_of_int signed_take_bit_int_eq_self)

lemma checked_sdiv_sint:
  assumes "checked_sdiv a b = Some (q :: i64)"
  shows "sint q = sint a sdiv sint b"
proof -
  from assms have nz: "\<not> (b = 0 \<or> (a = i64_min \<and> b = - 1))"
    using checked_sdiv_None [of a b] by auto
  with assms have q: "q = word_of_int (sint a sdiv sint b)"
    using sint_eq_i64_min [of a] by (auto simp: checked_sdiv_def split: if_splits)
  have "sint a sdiv sint b \<noteq> 2 ^ 63"
  proof
    assume e: "sint a sdiv sint b = 2 ^ 63"
    with sdiv_int_range [of "sint a" "sint b"] sint_bounds [of a] have m: "sint a = - (2 ^ 63)" by auto
    with e int_sdiv_negated_is_minus1 [of "sint a" "sint b"] have "sint b = - 1" by simp
    then have "b = - 1" by (intro signed_word_eqI) simp
    with m nz show False by (simp add: sint_eq_i64_min)
  qed
  with sdiv_int_range [of "sint a" "sint b"] sint_bounds [of a]
  have "- (2 ^ 63) \<le> sint a sdiv sint b" "sint a sdiv sint b < 2 ^ 63" by auto
  then show ?thesis unfolding q by (rule sint_of_int_small)
qed

lemma checked_srem_sint:
  assumes "checked_srem a b = Some (r :: i64)"
  shows "sint r = sint a smod sint b"
proof -
  from assms have nz: "b \<noteq> 0" and r: "r = word_of_int (sint a smod sint b)"
    by (auto simp: checked_srem_def split: if_splits)
  then have "sint b \<noteq> 0" by (metis signed_0 signed_word_eqI)
  from smod_int_range [OF this, of "sint a"] sint_bounds [of b]
  show ?thesis unfolding r by (intro sint_of_int_small) auto
qed

lemma vm_div_rem_sint:
  assumes "vm_binop Opcode.Div a b = Inr q" "vm_binop Opcode.Rem a b = Inr r"
  shows "sint q * sint b + sint r = sint a \<and> \<bar>sint r\<bar> < \<bar>sint b\<bar> \<and> sint r * sint a \<ge> 0"
proof -
  have q: "sint q = sint a sdiv sint b" and r: "sint r = sint a smod sint b"
    using assms by (simp_all add: checked_sdiv_sint checked_srem_sint)
  have "b \<noteq> 0" using assms by auto
  then have nz: "sint b \<noteq> 0" by (metis signed_0 signed_word_eqI)
  have "sint a smod sint b * sint a \<ge> 0"
    using nz by (simp add: signed_modulo_int_def sgn_if zero_le_mult_iff mult_le_0_iff)
  then show ?thesis
    using smod_int_range [OF nz, of "sint a"] sdiv_mult_smod_eq [of "sint a" "sint b"]
    unfolding q r by (auto simp: abs_if)
qed

section \<open>Calls return where they were made\<close>

text \<open>Popping \<open>n\<close> arguments that were pushed left to right gives them back reversed.\<close>

lemma pop_n_stack:
  "vm_stack s = rev args @ st \<Longrightarrow> n = length args \<Longrightarrow>
   pop_n n s = (Inr (rev args), s\<lparr>vm_stack := st\<rparr>)"
proof (induction n arbitrary: args s)
  case 0
  then show ?case by (simp add: sx_apply)
next
  case (Suc n)
  then obtain as a where args: "args = as @ [a]" by (metis length_Suc_conv_rev)
  with Suc.prems have p: "vm_pop s = (Inr a, s\<lparr>vm_stack := rev as @ st\<rparr>)"
    by (simp add: vm_pop_def)
  have "pop_n n (s\<lparr>vm_stack := rev as @ st\<rparr>) = (Inr (rev as), s\<lparr>vm_stack := st\<rparr>)"
    using Suc.IH [of "s\<lparr>vm_stack := rev as @ st\<rparr>" as] Suc.prems args by simp
  with p show ?case by (simp add: sx_apply args)
qed

text \<open>The frame a call pushes.\<close>

definition call_frame :: "Module \<Rightarrow> nat \<Rightarrow> Value list \<Rightarrow> u32 \<Rightarrow> nat \<Rightarrow> Frame" where
  "call_frame m g args target dest =
     (let n = max (fn_n_locals (m_functions m ! g)) (length args)
      in \<lparr>fr_locals = args @ replicate (n - length args) (Value.Int 0),
          fr_mem = replicate (max (n * 8) 8) (Value.Int 0), fr_func = g, fr_pc = 0,
          fr_resume_target = target, fr_dest_local = dest\<rparr>)"

lemma push_frame_ok:
  assumes "length (vm_frames s) < MAX_CALL_DEPTH" "g < length (m_functions m)"
  shows "push_frame m g args target dest s
    = (Inr (), s\<lparr>vm_frames := call_frame m g args target dest # vm_frames s\<rparr>)"
  using assms by (simp add: push_frame_def call_frame_def Let_def)

lemma push_frame_overflow:
  "MAX_CALL_DEPTH \<le> length (vm_frames s) \<Longrightarrow>
   push_frame m g args target dest s = (Inl (Fault CallFrameOverflow), s)"
  by (simp add: push_frame_def)

lemma vm_step_call:
  assumes at: "vm_at m s f pc"
    and code: "code_at (fn_code f) pc (opcode_byte Opcode.Call # u32_le argc @ u32_le dest @ u32_le target)"
    and stk: "vm_stack s = rev args @ Value.Int g # st" "unat argc = length args"
  shows "vm_step m s = sx_bind (push_frame m (unat g) args target (unat dest)) (\<lambda>_. sx_return None)
    ((set_top_pc (pc + 13) s)\<lparr>vm_stack := st\<rparr>)"
proof -
  let ?s = "set_top_pc (Suc pc) s"
  note ne = vm_at_frames [OF at]
  have c: "code_at (fn_code f) (pc + 1) (u32_le argc @ u32_le dest @ u32_le target @ [])"
    "code_at (fn_code f) (pc + 5) (u32_le dest @ u32_le target @ [])"
    "code_at (fn_code f) (pc + 9) (u32_le target @ [])"
    using code by (simp_all add: code_at_Cons code_at_append add.commute)
  have f1: "fetch_u32 (fn_code f) ?s = (Inr argc, set_top_pc (pc + 5) s)"
    using fetch_u32_at [of ?s _ "fn_code f" argc _ "pc + 5"] ne c(1) by simp
  have f2: "fetch_u32 (fn_code f) (set_top_pc (pc + 5) s) = (Inr dest, set_top_pc (pc + 9) s)"
    using fetch_u32_at [of "set_top_pc (pc + 5) s" _ "fn_code f" dest _ "pc + 9"] ne c(2) by simp
  have f3: "fetch_u32 (fn_code f) (set_top_pc (pc + 9) s) = (Inr target, set_top_pc (pc + 13) s)"
    using fetch_u32_at [of "set_top_pc (pc + 9) s" _ "fn_code f" target "[]" "pc + 13"] ne c(3) by simp
  have p: "pop_n (unat argc) (set_top_pc (pc + 13) s)
      = (Inr (rev args), (set_top_pc (pc + 13) s)\<lparr>vm_stack := Value.Int g # st\<rparr>)"
    using stk by (intro pop_n_stack) simp_all
  show ?thesis
    by (simp add: vm_step_at [OF at code] exec_call_def sx_bind_assoc f1 f2 f3 p vm_pop_def)
qed

lemma vm_step_return:
  assumes "vm_frames s = callee # caller # frs" "vm_stack s = v # st"
    and "function_at m (fr_func callee) = Inr g" "function_at m (fr_func caller) = Inr f"
    and "fr_pc callee < length (fn_code g)" "fn_code g ! fr_pc callee = opcode_byte Opcode.Return"
    and "fr_dest_local callee < length (fr_locals caller)"
  shows "vm_step m s = (Inr None, s\<lparr>vm_stack := st, vm_frames :=
    caller\<lparr>fr_locals := (fr_locals caller)[fr_dest_local callee := v],
           fr_pc := resolve_target f (fr_resume_target callee)\<rparr> # frs\<rparr>)"
  using assms by (simp add: vm_step_def exec_return_def vm_pop_def set_top_pc_def Let_def)

end
