(* ===== verification/Bytecode_VM_Theorems.thy ===== *)
theory Bytecode_VM_Theorems
  imports Bytecode_VM_Props
begin

text \<open>The properties of the virtual machine, over the lemmas of \<open>Bytecode_VM_Props\<close>.\<close>

text \<open>\<open>s\<close> is the state in which \<open>run_module\<close> enters the driver on a fresh machine.\<close>

definition vm_started :: "Module \<Rightarrow> Vm \<Rightarrow> bool" where
  "vm_started m s \<longleftrightarrow> push_frame m (m_entry m) [] u32_max usize_max Vm_new = (Inr (), s)"

lemma vm_started_run: "vm_started m s \<Longrightarrow> run_module m Vm_new = drive m s"
  by (auto simp: vm_started_def run_module_def push_frame_def split: if_splits)

lemma vm_started_wf: "vm_started m s \<Longrightarrow> vm_reaches m s t \<Longrightarrow> vm_wf m t"
  using push_frame_wf [OF vm_wf_new] by (auto simp: vm_started_def intro: vm_reaches_wf)

text \<open>A module whose only function pushes a constant and returns it.\<close>

definition const_module :: "i64 \<Rightarrow> Module" where
  "const_module v =
     \<lparr>m_functions = [Function_new (opcode_byte Opcode.LoadConst # i64_le v @ [opcode_byte Opcode.Return]) 0 0],
      m_entry = 0\<rparr>"

definition trap_module :: Module where
  "trap_module = \<lparr>m_functions = [Function_new [opcode_byte Opcode.Trap] 0 0], m_entry = 0\<rparr>"

lemma vm_started_const: "\<exists>s. vm_started (const_module v) s"
  by (simp add: vm_started_def push_frame_def const_module_def MAX_CALL_DEPTH_def Vm_new_def Let_def)

lemma const_step1:
  assumes "vm_frames s = fr # frs" "fr_func fr = 0" "fr_pc fr = 0"
  shows "vm_step (const_module v) s
    = (Inr None, s\<lparr>vm_stack := Value.Int v # vm_stack s, vm_frames := fr\<lparr>fr_pc := 9\<rparr> # frs\<rparr>)"
  using assms
  by (simp add: vm_step_def function_at_def const_module_def Function_new_def fetch_i64_def
      read_i64_def top_pc_def set_top_pc_def vm_push_def sx_apply)

lemma const_step2:
  assumes "vm_frames s = [fr]" "fr_func fr = 0" "fr_pc fr = 9" "vm_stack s = x # st"
  shows "vm_step (const_module v) s = (Inr (Some x), s\<lparr>vm_stack := st, vm_frames := []\<rparr>)"
  using assms
  by (simp add: vm_step_def function_at_def const_module_def Function_new_def
      exec_return_def vm_pop_def set_top_pc_def nth_append)

lemma const_step2_stale:
  assumes "vm_frames s = [fr, stale]" "fr_func fr = 0" "fr_pc fr = 9" "vm_stack s = x # st"
    and "fr_func stale = 0" "fr_resume_target fr = u32_max" "fr_dest_local fr = usize_max"
    and "length (fr_locals stale) \<le> usize_max"
  shows "vm_step (const_module v) s
    = (Inr None, s\<lparr>vm_stack := st, vm_frames := [stale\<lparr>fr_pc := unat u32_max\<rparr>]\<rparr>)"
  using assms
  by (simp add: vm_step_def function_at_def const_module_def Function_new_def resolve_target_def
      exec_return_def vm_pop_def set_top_pc_def nth_append Let_def)

lemma const_end:
  assumes "vm_frames s = fr # frs" "fr_func fr = 0" "10 \<le> fr_pc fr"
  shows "vm_step (const_module v) s = (Inl (Fault UnexpectedEndOfCode), s)"
  using assms by (simp add: vm_step_def function_at_def const_module_def Function_new_def)

text \<open>
  C18. Every state a run of any module can reach keeps its call stack well-formed and within
  the depth limit: at most 1024 frames, each naming an existing function, with at least the
  locals the function declares and eight memory slots per local (at least eight).
\<close>

theorem vm_run_invariant:
  assumes "vm_started m s" and "vm_reaches m s t"
  shows "length (vm_frames t) \<le> 1024 \<and>
    (\<forall>fr \<in> set (vm_frames t). fr_func fr < length (m_functions m) \<and>
       fn_n_locals (m_functions m ! fr_func fr) \<le> length (fr_locals fr) \<and>
       length (fr_mem fr) = max (length (fr_locals fr) * 8) 8)"
  using vm_started_wf [OF assms] by (simp add: vm_wf_def frame_wf_def MAX_CALL_DEPTH_def)

lemma vm_run_invariant_witness:
  "\<exists>s. vm_started (const_module 7) s \<and> length (vm_frames s) \<le> 1024"
  using vm_started_const [of 7] vm_run_invariant [OF _ rtranclp.rtrancl_refl] by blast

text \<open>
  The only ways the host can panic inside the interpreter loop, from a reachable state,
  are the two operand bytes read without a bounds check: the byte at the program counter is
  \<open>Cast\<close> or \<open>Assert\<close> and it is the last byte of the function.
\<close>

theorem vm_panics_only_on_truncated_operand:
  assumes start: "vm_started m s0" and reach: "vm_reaches m s0 s"
    and step: "vm_step m s = (Inl Panic, t)"
  shows "\<exists>fr frs f. vm_frames s = fr # frs \<and> function_at m (fr_func fr) = Inr f \<and>
    Suc (fr_pc fr) = length (fn_code f) \<and>
    last (fn_code f) \<in> {opcode_byte Opcode.Cast, opcode_byte Opcode.Assert}"
  using step
proof (cases rule: vm_step_cases)
  case idle
  with step show ?thesis by (auto simp: vm_step_def vm_pop_def split: list.splits)
next
  case (no_fun fr frs)
  with vm_started_wf [OF start reach] show ?thesis by (auto simp: vm_wf_def frame_wf_def)
next
  case (ret fr frs f)
  let ?s = "set_top_pc (fr_pc fr + 1) s"
  have "vm_wf m ?s" "vm_frames ?s \<noteq> []" using vm_started_wf [OF start reach] ret by simp_all
  from vm_safe_exec_return [OF this] ret(5) show ?thesis by (auto split: prod.splits)
next
  case (op fr frs f op)
  let ?s = "set_top_pc (fr_pc fr + 1) s"
  have w: "vm_wf m ?s" using vm_started_wf [OF start reach] by simp
  from op(6) have e: "exec_op m f op ?s = (Inl Panic, t)"
    by (auto simp: sx_bind_apply sx_apply split: prod.splits sum.splits)
  have c: "op = Opcode.Cast \<or> op = Opcode.Assert"
    using vm_safe_exec_op [of op m f] op(5) w e unfolding vm_safe_def
    by (blast dest: sx_tripleD_Inl)
  from exec_unchecked_panic [OF c e] op have len: "Suc (fr_pc fr) = length (fn_code f)"
    by (simp add: set_top_pc_def top_pc_def)
  then have "last (fn_code f) = fn_code f ! fr_pc fr"
    by (metis diff_Suc_1 last_conv_nth length_0_conv nat.distinct(1))
  with c op len show ?thesis by auto
qed auto

text \<open>The truncated program \<open>[Cast]\<close>: the operand byte of its only instruction is missing.\<close>

definition cast_module :: Module where
  "cast_module = \<lparr>m_functions = [Function_new [opcode_byte Opcode.Cast] 0 0], m_entry = 0\<rparr>"

lemma vm_panics_only_on_truncated_operand_witness:
  "\<exists>s t. vm_started cast_module s \<and> vm_step cast_module s = (Inl Panic, t) \<and>
    (\<exists>fr frs f. vm_frames s = fr # frs \<and> function_at cast_module (fr_func fr) = Inr f \<and>
      Suc (fr_pc fr) = length (fn_code f) \<and>
      last (fn_code f) \<in> {opcode_byte Opcode.Cast, opcode_byte Opcode.Assert})"
proof -
  obtain s where s: "vm_started cast_module s"
    by (simp add: vm_started_def push_frame_def cast_module_def MAX_CALL_DEPTH_def Vm_new_def Let_def)
  then have "vm_step cast_module s = (Inl Panic, set_top_pc 1 s)"
    by (auto simp: vm_started_def push_frame_def cast_module_def MAX_CALL_DEPTH_def Vm_new_def Let_def
        Function_new_def vm_step_def function_at_def set_top_pc_def fetch_u8_def top_pc_def sx_bind_apply)
  with s vm_panics_only_on_truncated_operand [OF s rtranclp.rtrancl_refl this] show ?thesis by blast
qed

text \<open>
  Integer division never yields a wrong value silently: the binary operators stop the
  program with \<open>AbnormalTermination\<close> exactly for \<open>Div\<close> and \<open>Rem\<close> on a zero divisor or
  on \<open>i64::MIN / -1\<close>, and no other operand pair makes any of the eighteen operators fail.
\<close>

theorem vm_binop_traps_iff:
  assumes "op \<in> {Opcode.Add, Opcode.Sub, Opcode.Mul, Opcode.Div, Opcode.Rem, Opcode.Eq, Opcode.Ne,
    Opcode.Lt, Opcode.Gt, Opcode.Le, Opcode.Ge, Opcode.And, Opcode.Or, Opcode.BitAnd, Opcode.BitOr,
    Opcode.BitXor, Opcode.Shl, Opcode.Shr}"
  shows "vm_binop op a b = Inl e \<longleftrightarrow>
    e = Fault AbnormalTermination \<and> op \<in> {Opcode.Div, Opcode.Rem} \<and>
    (b = 0 \<or> (a = i64_min \<and> b = - 1))"
proof -
  have "is_binop op" using assms by (auto simp: is_binop_def)
  from vm_binop_cases [OF this, of a b e] show ?thesis by simp
qed

text \<open>
  Where \<open>Div\<close> and \<open>Rem\<close> both succeed they are the truncated quotient and remainder of
  the signed values: quotient times divisor plus remainder is the dividend, the remainder is
  smaller than the divisor and has the dividend's sign.
\<close>

theorem vm_division_algorithm:
  assumes "vm_binop Opcode.Div a b = Inr q" and "vm_binop Opcode.Rem a b = Inr r"
  shows "sint q * sint b + sint r = sint a \<and> \<bar>sint r\<bar> < \<bar>sint b\<bar> \<and> sint r * sint a \<ge> 0"
  using assms by (rule vm_div_rem_sint)

lemma vm_binop_traps_iff_witness:
  "vm_binop Opcode.Rem 10 0 = Inl (Fault AbnormalTermination)"
  using vm_binop_traps_iff [of Opcode.Rem 10 0 "Fault AbnormalTermination"] by simp

lemma vm_division_algorithm_witness:
  "sint (- 3 :: i64) * sint (2 :: i64) + sint (- 1 :: i64) = sint (- 7 :: i64)"
  using vm_division_algorithm [of "- 7" 2 "- 3" "- 1"]
  by (simp add: checked_sdiv_def checked_srem_def)

text \<open>The state in which the callee starts: its frame on top of the caller's, whose program
  counter is past the call.\<close>

definition call_entered :: "Module \<Rightarrow> nat \<Rightarrow> Value list \<Rightarrow> u32 \<Rightarrow> nat \<Rightarrow> Value list \<Rightarrow> Vm \<Rightarrow> Vm" where
  "call_entered m g args target dest st s =
     (let s' = set_top_pc (top_pc s + 13) s
      in s'\<lparr>vm_stack := st, vm_frames := call_frame m g args target dest # vm_frames s'\<rparr>)"

lemma vm_next_call:
  assumes "vm_at m s f pc"
    and "code_at (fn_code f) pc (opcode_byte Opcode.Call # u32_le argc @ u32_le dest @ u32_le target)"
    and "vm_stack s = rev args @ Value.Int g # st" "unat argc = length args"
    and "length (vm_frames s) < 1024" "unat g < length (m_functions m)"
  shows "vm_next m s (call_entered m (unat g) args target (unat dest) st s)"
  using assms
  by (intro vm_nextI, subst vm_step_call [OF assms(1,2,3,4)])
    (auto simp: push_frame_ok MAX_CALL_DEPTH_def set_top_pc_def sx_apply call_entered_def
      Let_def vm_at_top_pc [OF assms(1)] split: list.split)

text \<open>
  A call meets its return.  When \<open>Call argc dest target\<close> runs with the function index
  and the arguments on the stack, the callee starts with the arguments in its leading locals;
  and when that frame, still above the caller, executes \<open>Return\<close> with a value on the stack,
  the caller goes on at \<open>target\<close> with the value in local \<open>dest\<close>, its other locals, its
  memory and the frames below it as they were at the call.
\<close>

theorem vm_call_returns_to_caller:
  assumes call: "vm_frames s = caller # frs" "function_at m (fr_func caller) = Inr f"
      "code_at (fn_code f) (fr_pc caller)
        (opcode_byte Opcode.Call # u32_le argc @ u32_le dest @ u32_le target)"
      "vm_stack s = rev args @ Value.Int g # st" "unat argc = length args"
      "Suc (length frs) < 1024" "unat g < length (m_functions m)" "unat dest < length (fr_locals caller)"
    and callee: "vm_reaches m (call_entered m (unat g) args target (unat dest) st s) t"
      "vm_frames t = fr # caller\<lparr>fr_pc := fr_pc caller + 13\<rparr> # frs"
      "fr_dest_local fr = unat dest" "fr_resume_target fr = target"
    and ret: "vm_stack t = v # st'" "function_at m (fr_func fr) = Inr h"
      "fr_pc fr < length (fn_code h)" "fn_code h ! fr_pc fr = opcode_byte Opcode.Return"
  shows "take (length args) (fr_locals (hd (vm_frames
        (call_entered m (unat g) args target (unat dest) st s)))) = args \<and>
    vm_reaches m s (t\<lparr>vm_stack := st', vm_frames :=
      caller\<lparr>fr_locals := (fr_locals caller)[unat dest := v], fr_pc := resolve_target f target\<rparr> # frs\<rparr>)"
proof
  show "take (length args) (fr_locals (hd (vm_frames
      (call_entered m (unat g) args target (unat dest) st s)))) = args"
    by (simp add: call_entered_def call_frame_def Let_def)
  have "vm_at m s f (fr_pc caller)" using call by (simp add: vm_at_def)
  from vm_next_call [OF this call(3,4,5)] call(1,6,7)
  have s1: "vm_next m s (call_entered m (unat g) args target (unat dest) st s)" by simp
  have "vm_step m t = (Inr None, t\<lparr>vm_stack := st', vm_frames :=
      caller\<lparr>fr_locals := (fr_locals caller)[unat dest := v], fr_pc := resolve_target f target\<rparr> # frs\<rparr>)"
    using vm_step_return [OF callee(2) ret(1,2) _ ret(3,4)] call callee(3,4) by simp
  then have s2: "vm_next m t (t\<lparr>vm_stack := st', vm_frames :=
      caller\<lparr>fr_locals := (fr_locals caller)[unat dest := v], fr_pc := resolve_target f target\<rparr> # frs\<rparr>)"
    by (rule vm_nextI)
  from s1 callee(1) s2 show "vm_reaches m s (t\<lparr>vm_stack := st', vm_frames :=
      caller\<lparr>fr_locals := (fr_locals caller)[unat dest := v], fr_pc := resolve_target f target\<rparr> # frs\<rparr>)"
    by (meson converse_rtranclp_into_rtranclp rtranclp.rtrancl_into_rtrancl)
qed

text \<open>A caller that passes 5 to the identity function and takes the result into local 0.\<close>

definition call_main :: Function where
  "call_main = Function_new
     (opcode_byte Opcode.Call # u32_le 1 @ u32_le 0 @ u32_le 13 @ [opcode_byte Opcode.Return]) 1 0"

definition call_id :: Function where
  "call_id = Function_new (opcode_byte Opcode.LoadLocal # u32_le 0 @ [opcode_byte Opcode.Return]) 1 1"

definition call_module :: Module where
  "call_module = \<lparr>m_functions = [call_main, call_id], m_entry = 0\<rparr>"

definition call_caller :: Frame where
  "call_caller = \<lparr>fr_locals = [Value.Int 0], fr_mem = replicate 8 (Value.Int 0), fr_func = 0, fr_pc = 0,
     fr_resume_target = 0, fr_dest_local = 0\<rparr>"

lemma vm_call_returns_to_caller_witness:
  "\<exists>t. vm_reaches call_module \<lparr>vm_stack = [Value.Int 5, Value.Int 1], vm_frames = [call_caller]\<rparr> t \<and>
     vm_stack t = [] \<and> vm_frames t = [call_caller\<lparr>fr_locals := [Value.Int 5], fr_pc := 13\<rparr>]"
proof -
  let ?s = "\<lparr>vm_stack = [Value.Int 5, Value.Int 1], vm_frames = [call_caller]\<rparr>"
  define fr where "fr pc = \<lparr>fr_locals = [Value.Int 5], fr_mem = replicate 8 (Value.Int 0),
    fr_func = 1, fr_pc = pc, fr_resume_target = 13, fr_dest_local = 0\<rparr>" for pc
  let ?t = "\<lparr>vm_stack = [Value.Int 5], vm_frames = [fr 5, call_caller\<lparr>fr_pc := 13\<rparr>]\<rparr>"
  have e: "call_entered call_module 1 [Value.Int 5] 13 0 [] ?s
      = \<lparr>vm_stack = [], vm_frames = [fr 0, call_caller\<lparr>fr_pc := 13\<rparr>]\<rparr>"
    by (simp add: call_entered_def call_frame_def call_module_def call_caller_def fr_def Let_def
        top_pc_def set_top_pc_def call_main_def call_id_def Function_new_def)
  have n: "vm_next call_module (call_entered call_module 1 [Value.Int 5] 13 0 [] ?s) ?t"
    unfolding e
    by (rule vm_nextI)
      (simp add: vm_step_def function_at_def call_module_def call_id_def Function_new_def fr_def fetch_u32_def
        read_u32_def top_pc_def set_top_pc_def local_ref_def vm_push_def sx_apply)
  have r: "resolve_target call_main 13 = 13"
    by (simp add: resolve_target_def call_main_def Function_new_def)
  have "code_at (fn_code call_main) 0
      ((opcode_byte Opcode.Call # u32_le 1 @ u32_le 0 @ u32_le 13) @ [opcode_byte Opcode.Return])"
    by (simp add: call_main_def Function_new_def code_at_self)
  then have c: "code_at (fn_code call_main) 0 (opcode_byte Opcode.Call # u32_le 1 @ u32_le 0 @ u32_le 13)"
    by (simp only: code_at_append)
  let ?u = "?t\<lparr>vm_stack := [], vm_frames := call_caller
      \<lparr>fr_locals := (fr_locals call_caller)[unat (0 :: u32) := Value.Int 5],
       fr_pc := resolve_target call_main 13\<rparr> # []\<rparr>"
  have "vm_reaches call_module ?s ?u"
  proof (rule conjunct2 [OF vm_call_returns_to_caller [of ?s call_caller "[]" call_module call_main
        1 0 13 "[Value.Int 5]" 1 "[]" ?t "fr 5" "Value.Int 5" "[]" call_id]])
    show "vm_reaches call_module (call_entered call_module (unat (1 :: i64)) [Value.Int 5] 13 (unat (0 :: u32)) [] ?s) ?t"
      using n by simp
  qed (use c in \<open>simp_all add: call_caller_def call_module_def function_at_def fr_def call_id_def Function_new_def nth_append\<close>)
  moreover have "vm_stack ?u = []" by simp
  moreover have "vm_frames ?u = [call_caller\<lparr>fr_locals := [Value.Int 5], fr_pc := 13\<rparr>]"
    by (simp add: r call_caller_def)
  ultimately show ?thesis by blast
qed

text \<open>
  \<open>Jump\<close> to itself never returns: a function whose code jumps to the offset the machine
  stands at keeps the driver in its loop for ever.
\<close>

theorem vm_self_jump_diverges:
  assumes "vm_at m s f pc" and "code_at (fn_code f) pc (opcode_byte Opcode.Jump # u32_le target)"
    and "resolve_target f target = pc"
  shows "drive m s = None"
proof (rule drive_self_loop)
  have c: "code_at (fn_code f) (Suc pc) (u32_le target @ [])"
    using assms(2) by (simp add: code_at_Cons)
  note ne = vm_at_frames [OF assms(1)]
  have "fetch_u32 (fn_code f) (set_top_pc (Suc pc) s) = (Inr target, set_top_pc (pc + 5) s)"
    using fetch_u32_at [of "set_top_pc (Suc pc) s" "Suc pc" "fn_code f" target "[]" "pc + 5"] ne c by simp
  moreover have "set_top_pc pc s = s"
    using assms(1) by (auto simp: vm_at_def set_top_pc_def)
  ultimately show "vm_step m s = (Inr None, s)"
    using assms by (simp add: vm_step_at jump_to_def sx_apply)
qed

text \<open>\<open>loop {}\<close> as the emitter writes it: one block that jumps to itself.\<close>

definition jump_function :: "u32 \<Rightarrow> Function" where
  "jump_function target = Function_with_blocks (opcode_byte Opcode.Jump # u32_le target) 0 0 [0]"

lemma vm_self_jump_diverges_witness:
  "\<exists>s. vm_started \<lparr>m_functions = [jump_function 0], m_entry = 0\<rparr> s \<and>
       drive \<lparr>m_functions = [jump_function 0], m_entry = 0\<rparr> s = None"
proof -
  let ?m = "\<lparr>m_functions = [jump_function 0], m_entry = 0\<rparr>"
  obtain s where s: "vm_started ?m s" "vm_at ?m s (jump_function 0) 0"
    by (auto simp: vm_started_def vm_at_def push_frame_def MAX_CALL_DEPTH_def Vm_new_def Let_def function_at_def)
  moreover have "drive ?m s = None"
    by (rule vm_self_jump_diverges [OF s(2), where target = 0])
      (simp_all add: jump_function_def Function_with_blocks_def resolve_target_def code_at_self)
  ultimately show ?thesis by blast
qed

text \<open>
  A jump to a block the function does not have, which the emitter writes as the sentinel
  \<open>u32::MAX\<close>, ends the run with \<open>UnexpectedEndOfCode\<close> (a comment in \<open>resolve_target\<close>
  promises \<open>AbnormalTermination\<close>).
\<close>

theorem vm_sentinel_jump_ends_code:
  assumes "vm_at m s f pc" and "code_at (fn_code f) pc (opcode_byte Opcode.Jump # u32_le target)"
    and "fn_block_offsets f \<noteq> []" "length (fn_block_offsets f) \<le> unat target"
    and "length (fn_code f) \<le> usize_max"
  shows "\<exists>t. drive m s = Some (Inl (Fault UnexpectedEndOfCode), t)"
proof -
  have c: "code_at (fn_code f) (Suc pc) (u32_le target @ [])"
    using assms(2) by (simp add: code_at_Cons)
  note ne = vm_at_frames [OF assms(1)]
  let ?t = "set_top_pc usize_max s"
  have "fetch_u32 (fn_code f) (set_top_pc (Suc pc) s) = (Inr target, set_top_pc (pc + 5) s)"
    using fetch_u32_at [of "set_top_pc (Suc pc) s" "Suc pc" "fn_code f" target "[]" "pc + 5"] ne c by simp
  then have "vm_step m s = (Inr None, ?t)"
    using assms by (simp add: vm_step_at jump_to_def sx_apply resolve_target_def)
  then have "drive m s = drive m ?t" by (blast intro: drive_next vm_nextI)
  moreover have "vm_step m ?t = (Inl (Fault UnexpectedEndOfCode), ?t)"
    using assms(1,5) by (auto simp: vm_at_def vm_step_def set_top_pc_def)
  ultimately show ?thesis by (metis drive_fail)
qed

lemma vm_sentinel_jump_ends_code_witness:
  "\<exists>s t. vm_started \<lparr>m_functions = [jump_function u32_max], m_entry = 0\<rparr> s \<and>
     drive \<lparr>m_functions = [jump_function u32_max], m_entry = 0\<rparr> s = Some (Inl (Fault UnexpectedEndOfCode), t)"
proof -
  let ?m = "\<lparr>m_functions = [jump_function u32_max], m_entry = 0\<rparr>"
  obtain s where s: "vm_started ?m s" "vm_at ?m s (jump_function u32_max) 0"
    by (auto simp: vm_started_def vm_at_def push_frame_def MAX_CALL_DEPTH_def Vm_new_def Let_def function_at_def)
  moreover have "\<exists>t. drive ?m s = Some (Inl (Fault UnexpectedEndOfCode), t)"
    by (rule vm_sentinel_jump_ends_code [OF s(2), where target = u32_max])
      (simp_all add: jump_function_def Function_with_blocks_def code_at_self u32_max_def usize_max_def)
  ultimately show ?thesis by blast
qed

text \<open>
  A machine that has failed is not fit for another run: \<open>run_module\<close> leaves the frames
  of a failed program on the call stack, and the next program then returns into them.  A
  program that returns \<open>v\<close> on a fresh machine fails with \<open>UnexpectedEndOfCode\<close> on a
  machine whose previous program trapped.
\<close>

theorem vm_failed_run_corrupts_next:
  "\<exists>t. run_module trap_module Vm_new = Some (Inl (Fault AbnormalTermination), t) \<and>
     (\<exists>u. run_module (const_module v) t = Some (Inl (Fault UnexpectedEndOfCode), u)) \<and>
     (\<exists>u. run_module (const_module v) Vm_new = Some (Inr (Value.Int v), u))"
proof -
  define fr where "fr pc = \<lparr>fr_locals = [], fr_mem = replicate 8 (Value.Int 0), fr_func = 0,
    fr_pc = pc, fr_resume_target = u32_max, fr_dest_local = usize_max\<rparr>" for pc
  define vm where "vm st frs = \<lparr>vm_stack = st, vm_frames = frs\<rparr>" for st frs
  have fr_upd: "(fr a)\<lparr>fr_pc := b\<rparr> = fr b" for a b by (simp add: fr_def)
  have vm_upd: "(vm st frs)\<lparr>vm_stack := st', vm_frames := frs'\<rparr> = vm st' frs'" for st frs st' frs'
    by (simp add: vm_def)
  have push: "push_frame m 0 [] u32_max usize_max (vm st frs) = (Inr (), vm st (fr 0 # frs))"
    if "m_functions m \<noteq> []" "fn_n_locals (hd (m_functions m)) = 0" "length frs < 1024" for m st frs
    using that by (simp add: push_frame_def fr_def vm_def Let_def MAX_CALL_DEPTH_def hd_conv_nth)
  have trap: "vm_step trap_module (vm [] [fr 0]) = (Inl (Fault AbnormalTermination), vm [] [fr 1])"
    by (simp add: vm_step_def trap_module_def function_at_def fr_def vm_def Function_new_def
        set_top_pc_def sx_apply sx_bind_apply)
  have first: "run_module trap_module Vm_new = Some (Inl (Fault AbnormalTermination), vm [] [fr 1])"
    using push [of trap_module "[]" "[]"] drive_fail [OF trap]
    by (simp add: run_module_def trap_module_def Function_new_def Vm_new_def vm_def)
  have step1: "vm_next (const_module v) (vm [] (fr 0 # frs)) (vm [Value.Int v] (fr 9 # frs))" for frs
    by (rule vm_nextI) (simp add: const_step1 [where frs = frs and fr = "fr 0"] vm_def fr_def)
  have alone: "drive (const_module v) (vm [Value.Int v] [fr 9]) = Some (Inr (Value.Int v), vm [] [])"
    by (rule drive_done) (simp add: const_step2 [where fr = "fr 9" and x = "Value.Int v" and st = "[]"] vm_def fr_def)
  have stale: "vm_next (const_module v) (vm [Value.Int v] [fr 9, fr 1]) (vm [] [fr (unat u32_max)])"
  proof (rule vm_nextI)
    show "vm_step (const_module v) (vm [Value.Int v] [fr 9, fr 1]) = (Inr None, vm [] [fr (unat u32_max)])"
      using const_step2_stale [of "vm [Value.Int v] [fr 9, fr 1]" "fr 9" "fr 1" "Value.Int v" "[]" v]
      by (simp add: fr_upd vm_upd) (simp add: vm_def fr_def usize_max_def)
  qed
  have dead: "drive (const_module v) (vm [] [fr (unat u32_max)])
      = Some (Inl (Fault UnexpectedEndOfCode), vm [] [fr (unat u32_max)])"
    by (rule drive_fail, rule const_end [where frs = "[]" and fr = "fr (unat u32_max)"]) (simp_all add: vm_def fr_def u32_max_def)
  have ent: "run_module (const_module v) (vm [] frs) = drive (const_module v) (vm [] (fr 0 # frs))"
    if "length frs < 1024" for frs
    using push [of "const_module v" frs "[]"] that
    by (simp add: run_module_def const_module_def Function_new_def)
  show ?thesis
  proof (intro exI conjI)
    show "run_module trap_module Vm_new = Some (Inl (Fault AbnormalTermination), vm [] [fr 1])" by (fact first)
    show "run_module (const_module v) (vm [] [fr 1])
        = Some (Inl (Fault UnexpectedEndOfCode), vm [] [fr (unat u32_max)])"
      using ent [of "[fr 1]"] drive_next [OF step1, of "[fr 1]"] drive_next [OF stale] dead by simp
    show "run_module (const_module v) Vm_new = Some (Inr (Value.Int v), vm [] [])"
      using ent [of "[]"] by (simp add: drive_next [OF step1] alone) (simp add: Vm_new_def vm_def)
  qed
qed

text \<open>
  The opcode table decodes exactly what the enum's discriminants say: a byte decodes to an
  opcode if and only if it is that opcode's byte, so no two opcodes share one and every other
  byte is rejected.
\<close>

theorem opcode_decoding_exact: "opcode_from_u8 b = Some op \<longleftrightarrow> b = opcode_byte op"
  using opcode_byte_from by auto

end
