(* ===== verification/Bytecode_Codec.thy ===== *)
theory Bytecode_Codec
  imports Bytecode_VM_Props
begin

text \<open>
  The byte level of the bytecode backend, \<open>crates/glyim-codegen/src/lib.rs\<close>: the emitter's
  own opcode constants, the integer constant folder, the instruction decoder and encoder,
  and the peephole pass that runs at \<open>O1\<close> and above.

  The decoder's \<open>decode_operand(bc, i, op)\<close> reads \<open>bc\<close> only from \<open>i\<close> on, so it takes
  that suffix here.  A slice index out of range is \<open>Inl Panicked\<close>.
\<close>

section \<open>The emitter's opcode constants\<close>

definition OP_LOAD_CONST :: u8 where "OP_LOAD_CONST = 0x01"
definition OP_ADD :: u8 where "OP_ADD = 0x02"
definition OP_SUB :: u8 where "OP_SUB = 0x03"
definition OP_MUL :: u8 where "OP_MUL = 0x04"
definition OP_DIV :: u8 where "OP_DIV = 0x05"
definition OP_REM :: u8 where "OP_REM = 0x06"
definition OP_EQ :: u8 where "OP_EQ = 0x07"
definition OP_NE :: u8 where "OP_NE = 0x08"
definition OP_LT :: u8 where "OP_LT = 0x09"
definition OP_GT :: u8 where "OP_GT = 0x0A"
definition OP_LE :: u8 where "OP_LE = 0x0B"
definition OP_GE :: u8 where "OP_GE = 0x0C"
definition OP_AND :: u8 where "OP_AND = 0x0D"
definition OP_OR :: u8 where "OP_OR = 0x0E"
definition OP_NOT :: u8 where "OP_NOT = 0x0F"
definition OP_NEG :: u8 where "OP_NEG = 0x10"
definition OP_BITAND :: u8 where "OP_BITAND = 0x11"
definition OP_BITOR :: u8 where "OP_BITOR = 0x12"
definition OP_BITXOR :: u8 where "OP_BITXOR = 0x13"
definition OP_SHL :: u8 where "OP_SHL = 0x14"
definition OP_SHR :: u8 where "OP_SHR = 0x15"
definition OP_LOAD_LOCAL :: u8 where "OP_LOAD_LOCAL = 0x16"
definition OP_STORE_LOCAL :: u8 where "OP_STORE_LOCAL = 0x17"
definition OP_RETURN :: u8 where "OP_RETURN = 0x18"
definition OP_JUMP_IF :: u8 where "OP_JUMP_IF = 0x19"
definition OP_JUMP :: u8 where "OP_JUMP = 0x1A"
definition OP_CALL :: u8 where "OP_CALL = 0x1B"
definition OP_CAST :: u8 where "OP_CAST = 0x1C"
definition OP_AGGREGATE :: u8 where "OP_AGGREGATE = 0x1D"
definition OP_DISCRIMINANT :: u8 where "OP_DISCRIMINANT = 0x1E"
definition OP_LEN :: u8 where "OP_LEN = 0x1F"
definition OP_SWITCH_INT :: u8 where "OP_SWITCH_INT = 0x20"
definition OP_ASSERT :: u8 where "OP_ASSERT = 0x21"
definition OP_CALL_INDIRECT :: u8 where "OP_CALL_INDIRECT = 0x22"
definition OP_LOAD_LOCAL_ADDR :: u8 where "OP_LOAD_LOCAL_ADDR = 0x29"
definition OP_STORE_FIELD :: u8 where "OP_STORE_FIELD = 0x2A"
definition OP_DEREF :: u8 where "OP_DEREF = 0x2B"
definition OP_DROP :: u8 where "OP_DROP = 0x2C"
definition OP_REPEAT :: u8 where "OP_REPEAT = 0x2D"
definition OP_TRAP :: u8 where "OP_TRAP = 0xFF"

text \<open>Both tables, the emitter's constants and the machine's enum, assign the same bytes.\<close>

lemma emitter_opcodes:
  "OP_LOAD_CONST = opcode_byte Opcode.LoadConst"
  "OP_ADD = opcode_byte Opcode.Add"
  "OP_SUB = opcode_byte Opcode.Sub"
  "OP_MUL = opcode_byte Opcode.Mul"
  "OP_DIV = opcode_byte Opcode.Div"
  "OP_REM = opcode_byte Opcode.Rem"
  "OP_EQ = opcode_byte Opcode.Eq"
  "OP_NE = opcode_byte Opcode.Ne"
  "OP_LT = opcode_byte Opcode.Lt"
  "OP_GT = opcode_byte Opcode.Gt"
  "OP_LE = opcode_byte Opcode.Le"
  "OP_GE = opcode_byte Opcode.Ge"
  "OP_AND = opcode_byte Opcode.And"
  "OP_OR = opcode_byte Opcode.Or"
  "OP_NOT = opcode_byte Opcode.Not"
  "OP_NEG = opcode_byte Opcode.Neg"
  "OP_BITAND = opcode_byte Opcode.BitAnd"
  "OP_BITOR = opcode_byte Opcode.BitOr"
  "OP_BITXOR = opcode_byte Opcode.BitXor"
  "OP_SHL = opcode_byte Opcode.Shl"
  "OP_SHR = opcode_byte Opcode.Shr"
  "OP_LOAD_LOCAL = opcode_byte Opcode.LoadLocal"
  "OP_STORE_LOCAL = opcode_byte Opcode.StoreLocal"
  "OP_RETURN = opcode_byte Opcode.Return"
  "OP_JUMP_IF = opcode_byte Opcode.JumpIf"
  "OP_JUMP = opcode_byte Opcode.Jump"
  "OP_CALL = opcode_byte Opcode.Call"
  "OP_CAST = opcode_byte Opcode.Cast"
  "OP_AGGREGATE = opcode_byte Opcode.Aggregate"
  "OP_DISCRIMINANT = opcode_byte Opcode.Discriminant"
  "OP_LEN = opcode_byte Opcode.Len"
  "OP_SWITCH_INT = opcode_byte Opcode.SwitchInt"
  "OP_ASSERT = opcode_byte Opcode.Assert"
  "OP_CALL_INDIRECT = opcode_byte Opcode.CallIndirect"
  "OP_LOAD_LOCAL_ADDR = opcode_byte Opcode.LoadLocalAddr"
  "OP_STORE_FIELD = opcode_byte Opcode.StoreField"
  "OP_DEREF = opcode_byte Opcode.Deref"
  "OP_DROP = opcode_byte Opcode.Drop"
  "OP_REPEAT = opcode_byte Opcode.Repeat"
  "OP_TRAP = opcode_byte Opcode.Trap"
  by (simp_all add: opcode_byte.simps OP_LOAD_CONST_def OP_ADD_def OP_SUB_def OP_MUL_def OP_DIV_def OP_REM_def OP_EQ_def OP_NE_def OP_LT_def OP_GT_def OP_LE_def OP_GE_def OP_AND_def OP_OR_def OP_NOT_def OP_NEG_def OP_BITAND_def OP_BITOR_def OP_BITXOR_def OP_SHL_def OP_SHR_def OP_LOAD_LOCAL_def OP_STORE_LOCAL_def OP_RETURN_def OP_JUMP_IF_def OP_JUMP_def OP_CALL_def OP_CAST_def OP_AGGREGATE_def OP_DISCRIMINANT_def OP_LEN_def OP_SWITCH_INT_def OP_ASSERT_def OP_CALL_INDIRECT_def OP_LOAD_LOCAL_ADDR_def OP_STORE_FIELD_def OP_DEREF_def OP_DROP_def OP_REPEAT_def OP_TRAP_def)

section \<open>Constant folding\<close>

text \<open>\<open>a.rem(b)\<close> is Rust's \<open>%\<close>: it panics on a zero divisor and on \<open>MIN % -1\<close>.\<close>

definition fold_int_binop :: "u8 \<Rightarrow> i64 \<Rightarrow> i64 \<Rightarrow> panicked + i64 option" where
  "fold_int_binop op a b =
     (if op = OP_ADD then Inr (Some (a + b))
      else if op = OP_SUB then Inr (Some (a - b))
      else if op = OP_MUL then Inr (Some (a * b))
      else if op = OP_DIV then Inr (checked_sdiv a b)
      else if op = OP_REM then
        (case checked_srem a b of None \<Rightarrow> Inl Panicked | Some r \<Rightarrow> Inr (Some r))
      else if op = OP_EQ then Inr (Some (i64_of_bool (a = b)))
      else if op = OP_NE then Inr (Some (i64_of_bool (a \<noteq> b)))
      else if op = OP_LT then Inr (Some (i64_of_bool (sint a < sint b)))
      else if op = OP_GT then Inr (Some (i64_of_bool (sint a > sint b)))
      else if op = OP_LE then Inr (Some (i64_of_bool (sint a \<le> sint b)))
      else if op = OP_GE then Inr (Some (i64_of_bool (sint a \<ge> sint b)))
      else if op = OP_AND then Inr (Some (i64_of_bool (a \<noteq> 0 \<and> b \<noteq> 0)))
      else if op = OP_OR then Inr (Some (i64_of_bool (a \<noteq> 0 \<or> b \<noteq> 0)))
      else if op = OP_BITAND then Inr (Some (a AND b))
      else if op = OP_BITOR then Inr (Some (a OR b))
      else if op = OP_BITXOR then Inr (Some (a XOR b))
      else if op = OP_SHL then Inr (Some (push_bit (shift_amount b) a))
      else if op = OP_SHR then Inr (Some (signed_drop_bit (shift_amount b) a))
      else Inr None)"

definition is_foldable_binop :: "u8 \<Rightarrow> bool" where
  "is_foldable_binop op \<longleftrightarrow>
     op \<in> {OP_ADD, OP_SUB, OP_MUL, OP_DIV, OP_REM, OP_EQ, OP_NE, OP_LT, OP_GT, OP_LE, OP_GE,
           OP_AND, OP_OR, OP_BITAND, OP_BITOR, OP_BITXOR, OP_SHL, OP_SHR}"

section \<open>Decoding and encoding\<close>

record Instr =
  in_op :: u8
  in_operand :: "u8 list"

definition inner_encoded_len :: "Instr \<Rightarrow> nat" where
  "inner_encoded_len i = 1 + length (in_operand i)"

fun encode_bytecode :: "Instr list \<Rightarrow> u8 list" where
  "encode_bytecode [] = []"
| "encode_bytecode (i # is) = in_op i # in_operand i @ encode_bytecode is"

text \<open>
  \<open>decode_inner rest n v consumed\<close> is the loop over the \<open>n\<close> inner instructions of
  \<open>AGGREGATE\<close> and \<open>CALL\<close>.  Every other \<open>take\<close> reads from the start of the operand, also
  the second and later ones: the closure does not advance.
\<close>

definition fixed_width :: "u8 \<Rightarrow> nat" where
  "fixed_width op =
     (if op = OP_LOAD_CONST then 8
      else if op \<in> {OP_LOAD_LOCAL, OP_STORE_LOCAL, OP_JUMP, OP_JUMP_IF, OP_LEN} then 4
      else if op = OP_DISCRIMINANT then 0
      else if op = OP_CAST then 1
      else 0)"

function (sequential)
  decode_bytecode :: "u8 list \<Rightarrow> panicked + Instr list" and
  decode_operand :: "u8 list \<Rightarrow> u8 \<Rightarrow> panicked + (u8 list \<times> nat)" and
  decode_inner :: "u8 list \<Rightarrow> nat \<Rightarrow> u8 list \<Rightarrow> nat \<Rightarrow> panicked + (u8 list \<times> nat)"
where
  "decode_bytecode [] = Inr []"
| "decode_bytecode (op # rest) =
     (case decode_operand rest op of
        Inl e \<Rightarrow> Inl e
      | Inr (operand, consumed) \<Rightarrow>
          (case decode_bytecode (drop consumed rest) of
             Inl e \<Rightarrow> Inl e
           | Inr is \<Rightarrow> Inr (\<lparr>in_op = op, in_operand = operand\<rparr> # is)))"
| "decode_operand rest op =
     (if op = OP_ASSERT then
        Inr (take 1 rest @ take 4 rest, length (take 1 rest) + length (take 4 rest))
      else if op = OP_AGGREGATE then
        (if length (take 4 rest) = 4 then
           decode_inner rest (unat (from_le (take 4 rest) :: u32)) (take 4 rest) 4
         else Inr (take 4 rest, 4))
      else if op = OP_CALL \<or> op = OP_CALL_INDIRECT then
        (if length (take 4 rest) = 4 then
           (case decode_inner rest (unat (from_le (take 4 rest) :: u32)) (take 4 rest) 4 of
              Inl e \<Rightarrow> Inl e
            | Inr (v, consumed) \<Rightarrow> Inr (v @ take 8 rest, consumed + length (take 8 rest)))
         else Inr (take 4 rest, 4))
      else if op = OP_SWITCH_INT then
        (if length (take 4 rest) = 4 then
           (let count = unat (from_le (take 4 rest) :: u32)
            in Inr (take 4 rest @ concat (replicate count (take 12 rest)) @ take 4 rest,
                    4 + count * length (take 12 rest) + length (take 4 rest)))
         else Inr (take 4 rest, 4))
      else Inr (take (fixed_width op) rest, length (take (fixed_width op) rest)))"
| "decode_inner rest 0 v consumed = Inr (v, consumed)"
| "decode_inner rest (Suc n) v consumed =
     (if length rest \<le> consumed then Inr (v, consumed)
      else
        (case decode_bytecode (drop consumed rest) of
           Inl e \<Rightarrow> Inl e
         | Inr [] \<Rightarrow> Inr (v, consumed)
         | Inr (i # _) \<Rightarrow>
             (let used = inner_encoded_len i
              in if length rest < consumed + used then Inl Panicked
                 else decode_inner rest n (v @ take used (drop consumed rest)) (consumed + used))))"
  by pat_completeness auto
termination
  by (relation "inv_image (less_than <*lex*> less_than <*lex*> less_than)
      (\<lambda>x. case x of Inl bc \<Rightarrow> (length bc, 0, 0)
          | Inr (Inl (rest, op)) \<Rightarrow> (length rest, 2, 0)
          | Inr (Inr (rest, n, v, c)) \<Rightarrow> (length rest, 1, n))")
    auto

section \<open>The peephole pass\<close>

text \<open>The integer a \<open>LOAD_CONST\<close> carries: \<open>operand[..8]\<close> panics on a truncated operand.\<close>

definition const_operand :: "Instr \<Rightarrow> panicked + i64" where
  "const_operand i =
     (if length (in_operand i) < 8 then Inl Panicked else Inr (from_le (take 8 (in_operand i))))"

definition keep_instr :: "Instr \<Rightarrow> panicked + Instr list \<Rightarrow> panicked + Instr list" where
  "keep_instr i r = (case r of Inl e \<Rightarrow> Inl e | Inr is \<Rightarrow> Inr (i # is))"

definition load_const :: "i64 \<Rightarrow> Instr" where
  "load_const v = \<lparr>in_op = OP_LOAD_CONST, in_operand = i64_le v\<rparr>"

text \<open>\<open>fold_at i rest ints\<close>: the value the constant \<open>i\<close>, its successor and the binary operator
  after it fold to, where the pass may fold them.\<close>

definition fold_at :: "i64 \<Rightarrow> Instr list \<Rightarrow> bool list \<Rightarrow> panicked + i64 option" where
  "fold_at v rest ints =
     (case (rest, ints) of
        (j # b # _, True # True # _) \<Rightarrow>
          (if in_op j = OP_LOAD_CONST \<and> is_foldable_binop (in_op b) then
             (case const_operand j of
                Inl e \<Rightarrow> Inl e
              | Inr v2 \<Rightarrow> fold_int_binop (in_op b) v v2)
           else Inr None)
      | _ \<Rightarrow> Inr None)"

function peep :: "Instr list \<Rightarrow> bool list \<Rightarrow> panicked + Instr list" where
  "peep [] ints = Inr []"
| "peep (i # rest) ints =
     (if in_op i = OP_LOAD_CONST then
        (case const_operand i of
           Inl e \<Rightarrow> Inl e
         | Inr v \<Rightarrow>
             (case fold_at v rest ints of
                Inl e \<Rightarrow> Inl e
              | Inr (Some folded) \<Rightarrow> keep_instr (load_const folded) (peep (drop 2 rest) (drop 2 ints))
              | Inr None \<Rightarrow> keep_instr i (peep rest (drop 1 ints))))
      else if in_op i = OP_NEG \<and> rest \<noteq> [] \<and> in_op (hd rest) = OP_NEG then
        peep (tl rest) ints
      else keep_instr i (peep rest ints))"
  by pat_completeness auto
termination
  by (relation "measure (\<lambda>(is, ints). length is)") auto

definition peephole :: "u8 list \<Rightarrow> bool list \<Rightarrow> panicked + u8 list" where
  "peephole bc const_is_int =
     (case decode_bytecode bc of
        Inl e \<Rightarrow> Inl e
      | Inr is \<Rightarrow> map_sum id encode_bytecode (peep is const_is_int))"

end
