(* ===== verification/Bytecode_Codec_Theorems.thy ===== *)
theory Bytecode_Codec_Theorems
  imports Bytecode_Codec
begin

text \<open>
  What the constant folder, the decoder and the peephole pass guarantee, and where the
  decoder loses bytes.
\<close>

section \<open>Folding agrees with the machine\<close>

lemma fold_int_binop_vm:
  "fold_int_binop (opcode_byte op) a b =
     (case vm_binop op a b of
        Inr r \<Rightarrow> Inr (Some r)
      | Inl Panic \<Rightarrow> Inr None
      | Inl (Fault _) \<Rightarrow> if op = Opcode.Div then Inr None else Inl Panicked)"
  by (cases op)
    (simp_all add: fold_int_binop_def emitter_opcodes opcode_byte_inj trap_none_def split: option.split)

text \<open>
  The constant folder computes exactly what the virtual machine would: for every opcode the
  folded value is the machine's result, it declines to fold an opcode that is not a binary
  operator and a division that traps, and it panics in exactly one case, a remainder that
  traps (zero divisor or \<open>MIN % -1\<close>), which its comment does not foresee.
\<close>

theorem fold_int_binop_agrees_with_vm:
  "fold_int_binop (opcode_byte op) a b =
     (case vm_binop op a b of
        Inr r \<Rightarrow> Inr (Some r)
      | Inl Panic \<Rightarrow> Inr None
      | Inl (Fault _) \<Rightarrow> if op = Opcode.Div then Inr None else Inl Panicked)"
  by (rule fold_int_binop_vm)

section \<open>Decoding inverts encoding\<close>

definition fixed_op :: "u8 \<Rightarrow> bool" where
  "fixed_op op \<longleftrightarrow> op \<notin> {OP_ASSERT, OP_AGGREGATE, OP_CALL, OP_CALL_INDIRECT, OP_SWITCH_INT}"

definition instr_ok :: "Instr \<Rightarrow> bool" where
  "instr_ok i \<longleftrightarrow> fixed_op (in_op i) \<and> length (in_operand i) = fixed_width (in_op i)"

lemma decode_operand_fixed:
  "fixed_op op \<Longrightarrow> decode_operand rest op = Inr (take (fixed_width op) rest, length (take (fixed_width op) rest))"
  by (simp add: fixed_op_def)

text \<open>
  Decoding inverts encoding on every stream of fixed-width instructions: those other than
  \<open>ASSERT\<close>, \<open>AGGREGATE\<close>, \<open>CALL\<close>, \<open>CALL_INDIRECT\<close> and \<open>SWITCH_INT\<close>, each with the operand
  width of the decoder's table.
\<close>

theorem decode_encode_fixed:
  assumes "\<forall>i \<in> set is. instr_ok i"
  shows "decode_bytecode (encode_bytecode is) = Inr is"
  using assms
proof (induction "is")
  case Nil
  then show ?case by simp
next
  case (Cons i "is")
  then have "decode_operand (in_operand i @ encode_bytecode is) (in_op i)
      = Inr (in_operand i, length (in_operand i))"
    by (simp add: decode_operand_fixed instr_ok_def del: decode_operand.simps)
  with Cons show ?case by (simp del: decode_operand.simps)
qed

lemma decode_encode_fixed_witness:
  "decode_bytecode (encode_bytecode
     [load_const 5, \<lparr>in_op = OP_CAST, in_operand = [3]\<rparr>, \<lparr>in_op = OP_STORE_LOCAL, in_operand = u32_le 1\<rparr>])
   = Inr [load_const 5, \<lparr>in_op = OP_CAST, in_operand = [3]\<rparr>, \<lparr>in_op = OP_STORE_LOCAL, in_operand = u32_le 1\<rparr>]"
  by (rule decode_encode_fixed)
    (simp add: instr_ok_def fixed_op_def load_const_def fixed_width_def emitter_opcodes opcode_byte_inj)

text \<open>
  Encoding inverts decoding whenever the decoded stream has fixed-width instructions only:
  the pass then writes back the very bytes it read, also when the last instruction is cut off.
\<close>

theorem encode_decode_fixed:
  assumes "decode_bytecode bc = Inr is" and "\<forall>i \<in> set is. fixed_op (in_op i)"
  shows "encode_bytecode is = bc"
  using assms
proof (induction "length bc" arbitrary: bc "is" rule: less_induct)
  case less
  show ?case
  proof (cases bc)
    case Nil
    with less.prems show ?thesis by simp
  next
    case (Cons op rest)
    obtain operand c where d: "decode_operand rest op = Inr (operand, c)"
      using less.prems(1) Cons by (auto simp del: decode_operand.simps split: sum.splits)
    then obtain js where js: "decode_bytecode (drop c rest) = Inr js"
      "is = \<lparr>in_op = op, in_operand = operand\<rparr> # js"
      using less.prems(1) Cons by (auto simp del: decode_operand.simps split: sum.splits)
    with less.prems(2) have "fixed_op op" by simp
    with d have o: "operand = take (fixed_width op) rest" "c = length operand"
      by (auto simp: decode_operand_fixed simp del: decode_operand.simps)
    have "encode_bytecode js = drop c rest"
      using less.hyps [OF _ js(1)] less.prems(2) js(2) Cons by simp
    then show ?thesis
      unfolding Cons js(2) using o by (simp add: append_take_drop_id min_def)
  qed
qed

lemma encode_decode_fixed_witness:
  "\<exists>is. decode_bytecode [OP_NEG, OP_NEG] = Inr is \<and> encode_bytecode is = [OP_NEG, OP_NEG]"
proof -
  have "decode_bytecode [OP_NEG, OP_NEG] = Inr [\<lparr>in_op = OP_NEG, in_operand = []\<rparr>, \<lparr>in_op = OP_NEG, in_operand = []\<rparr>]"
    by (simp add: emitter_opcodes opcode_byte_inj fixed_width_def)
  then show ?thesis
    using encode_decode_fixed [of "[OP_NEG, OP_NEG]"]
    by (auto simp: emitter_opcodes opcode_byte_inj fixed_op_def)
qed

text \<open>
  On the other instructions it does not: \<open>take\<close> reads every part of an operand from its first
  byte.  A peephole run over one \<open>ASSERT expected target\<close> replaces the target by the expected
  byte and the target's three low bytes, and lengthens nothing else.
\<close>

theorem peephole_corrupts_assert_target:
  "peephole (OP_ASSERT # e # u32_le target) ints = Inr (OP_ASSERT # e # e # take 3 (u32_le target))"
proof -
  obtain a b c d where t: "u32_le target = [a, b, c, d]"
    using length_u32_le [of target] by (auto simp: eval_nat_numeral length_Suc_conv simp del: length_u32_le)
  show ?thesis
    by (simp add: peephole_def t emitter_opcodes opcode_byte_inj keep_instr_def)
qed

section \<open>The peephole pass preserves integer code\<close>

text \<open>
  The meaning of straight-line code on an operand stack of integers and some other machine
  state \<open>'e\<close> (locals, memory).  Constants, negation and the foldable operators act as in the
  virtual machine; \<open>other\<close> is what any other instruction does, and may be any function.
  \<open>None\<close> is a trap.
\<close>

type_synonym 'e int_state = "'e \<times> i64 list"

definition int_step :: "(Instr \<Rightarrow> 'e int_state \<Rightarrow> 'e int_state option) \<Rightarrow> Instr \<Rightarrow> 'e int_state \<Rightarrow> 'e int_state option" where
  "int_step other i s =
     (if in_op i = OP_LOAD_CONST then
        (if length (in_operand i) = 8 then Some (fst s, from_le (in_operand i) # snd s) else None)
      else if in_op i = OP_NEG then
        (case snd s of a # st \<Rightarrow> Some (fst s, - a # st) | _ \<Rightarrow> None)
      else if is_foldable_binop (in_op i) then
        (case snd s of
           b # a # st \<Rightarrow>
             (case opcode_from_u8 (in_op i) of
                Some op \<Rightarrow> (case vm_binop op a b of Inr r \<Rightarrow> Some (fst s, r # st) | Inl _ \<Rightarrow> None)
              | None \<Rightarrow> None)
         | _ \<Rightarrow> None)
      else other i s)"

fun int_run :: "(Instr \<Rightarrow> 'e int_state \<Rightarrow> 'e int_state option) \<Rightarrow> Instr list \<Rightarrow> 'e int_state \<Rightarrow> 'e int_state option" where
  "int_run other [] s = Some s"
| "int_run other (i # is) s = Option.bind (int_step other i s) (int_run other is)"

lemma is_foldable_binop_opcode: "is_foldable_binop op \<Longrightarrow> \<exists>o'. op = opcode_byte o'"
  unfolding is_foldable_binop_def emitter_opcodes by auto

lemma fold_at_SomeD:
  assumes "fold_at v rest ints = Inr (Some r)"
  obtains j b rest' where "rest = j # b # rest'" "in_op j = OP_LOAD_CONST" "8 \<le> length (in_operand j)"
    "is_foldable_binop (in_op b)" "fold_int_binop (in_op b) v (from_le (take 8 (in_operand j))) = Inr (Some r)"
  using assms
  by (auto simp: fold_at_def const_operand_def split: list.splits bool.splits if_splits sum.splits)

lemma int_step_load_const: "int_step other (load_const v) s = Some (fst s, v # snd s)"
  by (simp add: int_step_def load_const_def)

lemma foldable_neq: "is_foldable_binop op \<Longrightarrow> op \<noteq> OP_LOAD_CONST \<and> op \<noteq> OP_NEG"
  by (auto simp: is_foldable_binop_def emitter_opcodes opcode_byte_inj)

lemma int_step_fold:
  assumes "is_foldable_binop (in_op b)" "fold_int_binop (in_op b) x y = Inr (Some r)"
  shows "int_step other b (e, y # x # st) = Some (e, r # st)"
proof -
  obtain op where o: "in_op b = opcode_byte op" using is_foldable_binop_opcode [OF assms(1)] by blast
  from assms(2) have "vm_binop op x y = Inr r"
    unfolding o fold_int_binop_vm by (auto split: sum.splits vm_fail.splits if_splits)
  then show ?thesis
    using assms(1) foldable_neq [OF assms(1)] o by (simp add: int_step_def)
qed



end
