(* ===== verification/Bytecode_Emit.thy ===== *)
theory Bytecode_Emit
  imports Bytecode_Codec Mir_Types
begin

text \<open>
  \<open>BytecodeBackend\<close> of \<open>crates/glyim-codegen/src/lib.rs\<close>: from a MIR body to bytecode.

  \<^item> \<open>Backend\<close> holds what emission only reads: the layout provider (a trait object, here
    its methods), the resolved type context (\<open>None\<close>: not published yet), the name table and
    the optimization level.  \<open>bk_layout_of\<close> is \<open>SimpleLayoutComputer::layout_of(ty).size\<close>.
  \<^item> \<open>Emit\<close> holds what emission changes: the byte buffer \<open>bc\<close> and the \<open>RefCell\<close> tables.
  \<^item> An emitting method is a state-and-failure computation: \<open>Reject k\<close> is the
    \<open>Err(internal_error)\<close> for a constant of kind \<open>k\<close>, \<open>EmitPanic\<close> a Rust panic.  Bytes
    pushed before the error stay in the buffer.
\<close>

section \<open>The backend and its state\<close>

datatype OptLevel = O0 | O1 | O2 | O3

record Backend =
  bk_field_offset :: "Ty \<Rightarrow> FieldIdx \<Rightarrow> u64"
  bk_size_of :: "Ty \<Rightarrow> u64"
  bk_variant_type :: "Ty \<Rightarrow> VariantIdx \<Rightarrow> Ty"
  bk_tag_offset :: "Ty \<Rightarrow> u64"
  bk_ty_ctx :: "TypeLookup option"
  bk_name_str :: "Name \<Rightarrow> string"
  bk_layout_of :: "Ty \<Rightarrow> u64 option"
  bk_opt_level :: OptLevel

record Emit =
  em_bc :: "u8 list"
  em_string_table :: "string list"
  em_string_index :: "string \<rightharpoonup> u32"
  em_fn_table :: "(FnDefId \<times> Substitution) list"
  em_const_is_int :: "bool list"

datatype emit_fail = Reject MirConstKind | EmitPanic

type_synonym 'a emitx = "(Emit, emit_fail, 'a) sx"

definition Emit_new :: Emit where
  "Emit_new = \<lparr>em_bc = [], em_string_table = [], em_string_index = Map.empty, em_fn_table = [],
     em_const_is_int = []\<rparr>"

definition emit :: "u8 list \<Rightarrow> unit emitx" where
  "emit bs = sx_modify (\<lambda>s. s\<lparr>em_bc := em_bc s @ bs\<rparr>)"

definition note_const :: "bool \<Rightarrow> unit emitx" where
  "note_const is_int = sx_modify (\<lambda>s. s\<lparr>em_const_is_int := em_const_is_int s @ [is_int]\<rparr>)"

definition emit_load_const :: "i64 \<Rightarrow> unit emitx" where
  "emit_load_const v = emit (OP_LOAD_CONST # i64_le v)"

section \<open>The interners\<close>

definition intern_string :: "string \<Rightarrow> u32 emitx" where
  "intern_string str s =
     (case em_string_index s str of
        Some i \<Rightarrow> (Inr i, s)
      | None \<Rightarrow>
          (let table = em_string_table s @ [str]; i = of_nat (length table - 1)
           in (Inr i, s\<lparr>em_string_table := table,
                        em_string_index := (em_string_index s)(str \<mapsto> i)\<rparr>)))"

fun position_of :: "'a \<Rightarrow> 'a list \<Rightarrow> nat option" where
  "position_of x [] = None"
| "position_of x (y # ys) = (if y = x then Some 0 else map_option Suc (position_of x ys))"

definition intern_fn :: "FnDefId \<Rightarrow> Substitution \<Rightarrow> u32 emitx" where
  "intern_fn def_id substs s =
     (case position_of (def_id, substs) (em_fn_table s) of
        Some i \<Rightarrow> (Inr (of_nat i), s)
      | None \<Rightarrow>
          (let table = em_fn_table s @ [(def_id, substs)]
           in (Inr (of_nat (length table - 1)), s\<lparr>em_fn_table := table\<rparr>)))"

section \<open>Types along a projection\<close>

definition element_ty_of :: "Backend \<Rightarrow> Ty \<Rightarrow> Ty" where
  "element_ty_of b container =
     (case bk_ty_ctx b of
        None \<Rightarrow> container
      | Some ctx \<Rightarrow> (case tl_ty_kind ctx container of
                       TyKind.Array elem _ \<Rightarrow> elem | TyKind.Slice elem \<Rightarrow> elem | _ \<Rightarrow> container))"

definition elem_or_error :: "Backend \<Rightarrow> Ty \<Rightarrow> Ty" where
  "elem_or_error b ty =
     (case bk_ty_ctx b of
        None \<Rightarrow> Ty_ERROR
      | Some ctx \<Rightarrow> (case tl_ty_kind ctx ty of
                       TyKind.Array elem _ \<Rightarrow> elem | TyKind.Slice elem \<Rightarrow> elem | _ \<Rightarrow> Ty_ERROR))"

definition slice_elem_or_error :: "Backend \<Rightarrow> Ty \<Rightarrow> Ty" where
  "slice_elem_or_error b ty =
     (case bk_ty_ctx b of
        None \<Rightarrow> Ty_ERROR
      | Some ctx \<Rightarrow> (case tl_ty_kind ctx ty of TyKind.Slice elem \<Rightarrow> elem | _ \<Rightarrow> Ty_ERROR))"

definition pointee_or_error :: "Backend \<Rightarrow> Ty \<Rightarrow> Ty" where
  "pointee_or_error b ty =
     (case bk_ty_ctx b of
        None \<Rightarrow> Ty_ERROR
      | Some ctx \<Rightarrow> (case tl_ty_kind ctx ty of
                       TyKind.Ref _ inner _ \<Rightarrow> inner | TyKind.RawPtr inner _ \<Rightarrow> inner | _ \<Rightarrow> Ty_ERROR))"

text \<open>\<open>*n as i64\<close> and \<open>*n as u64\<close> of an array length.\<close>

definition const_len :: "Const \<Rightarrow> i64" where
  "const_len c = (case const_kind c of ConstKind.Uint n \<Rightarrow> ucast n | ConstKind.Int n \<Rightarrow> ucast n | _ \<Rightarrow> 0)"

definition saturating_sub :: "u64 \<Rightarrow> u64 \<Rightarrow> u64" where
  "saturating_sub a b = (if a < b then 0 else a - b)"

section \<open>Place addresses\<close>

text \<open>The bounds check of an index into zero-sized elements.\<close>

definition emit_zst_bounds_check :: "Backend \<Rightarrow> LocalIdx \<Rightarrow> LocalIdx \<Rightarrow> Ty \<Rightarrow> unit emitx" where
  "emit_zst_bounds_check b base i ty =
     sx_bind (emit (OP_LOAD_LOCAL # u32_le i)) (\<lambda>_.
     sx_bind (case map_option (\<lambda>ctx. tl_ty_kind ctx ty) (bk_ty_ctx b) of
                Some (TyKind.Array _ len) \<Rightarrow> emit_load_const (const_len len)
              | Some (TyKind.Slice _) \<Rightarrow> emit (OP_LEN # u32_le base)
              | _ \<Rightarrow> emit_load_const 0) (\<lambda>_.
     sx_bind (emit (OP_LT # OP_ASSERT # 1 # u32_le u32_max)) (\<lambda>_.
     sx_bind (emit_load_const 0) (\<lambda>_. emit [OP_ADD]))))"

text \<open>The byte offset \<open>index * elem_size\<close> of the two constant projections; the product of two
  \<open>u64\<close> panics when it overflows.\<close>

definition emit_scaled :: "u64 \<Rightarrow> u64 \<Rightarrow> unit emitx" where
  "emit_scaled i elem_size =
     (if unat i * unat elem_size < 2 ^ 64 then emit_load_const (i * elem_size) else sx_fail EmitPanic)"

text \<open>One projection element: emits its code and returns the next \<open>current_ty\<close>.\<close>

fun emit_proj :: "Backend \<Rightarrow> LocalIdx \<Rightarrow> ProjectionElem \<Rightarrow> Ty \<Rightarrow> Ty emitx" where
  "emit_proj b base ProjectionElem.Deref ty =
     sx_bind (emit [OP_DEREF]) (\<lambda>_. sx_return (pointee_or_error b ty))"
| "emit_proj b base (Field i) ty =
     sx_bind (emit_load_const (bk_field_offset b ty i)) (\<lambda>_.
     sx_bind (emit [OP_ADD]) (\<lambda>_. sx_return ty))"
| "emit_proj b base (Index l) ty =
     (let elem_size = bk_size_of b (element_ty_of b ty)
      in sx_bind
           (if elem_size = 0 then emit_zst_bounds_check b base l ty
            else sx_bind (emit (OP_LOAD_LOCAL # u32_le l)) (\<lambda>_.
                 sx_bind (emit_load_const elem_size) (\<lambda>_. emit [OP_MUL, OP_ADD])))
           (\<lambda>_. sx_return (elem_or_error b ty)))"
| "emit_proj b base (Downcast _) ty =
     (let tag_off = bk_tag_offset b ty
      in sx_bind
           (if tag_off \<noteq> 0 then sx_bind (emit_load_const tag_off) (\<lambda>_. emit [OP_ADD]) else sx_return ())
           (\<lambda>_. sx_return ty))"
| "emit_proj b base (ConstantIndex off _ from_end) ty =
     (let elem_size = bk_size_of b (element_ty_of b ty);
          constant = (\<lambda>index_val.
            sx_bind (emit_scaled index_val elem_size) (\<lambda>_.
            sx_bind (emit [OP_ADD]) (\<lambda>_. sx_return Ty_ERROR)))
      in if \<not> from_end then constant off
         else case bk_ty_ctx b of
                None \<Rightarrow> constant off
              | Some ctx \<Rightarrow>
                  (case tl_ty_kind ctx ty of
                     TyKind.Array _ len \<Rightarrow> constant (saturating_sub (const_len len) off)
                   | _ \<Rightarrow>
                       sx_bind (emit (OP_LEN # u32_le base)) (\<lambda>_.
                       sx_bind (emit_load_const off) (\<lambda>_.
                       sx_bind (emit [OP_SUB]) (\<lambda>_.
                       sx_bind (emit_load_const elem_size) (\<lambda>_.
                       sx_bind (emit [OP_MUL, OP_ADD]) (\<lambda>_.
                       sx_return (slice_elem_or_error b ty))))))))"
| "emit_proj b base (Subslice from_idx _ _) ty =
     sx_bind (emit_scaled from_idx (bk_size_of b (element_ty_of b ty))) (\<lambda>_.
     sx_bind (emit [OP_ADD]) (\<lambda>_. sx_return ty))"

fun emit_projs :: "Backend \<Rightarrow> LocalIdx \<Rightarrow> ProjectionElem list \<Rightarrow> Ty \<Rightarrow> Ty emitx" where
  "emit_projs b base [] ty = sx_return ty"
| "emit_projs b base (p # ps) ty = sx_bind (emit_proj b base p ty) (emit_projs b base ps)"

definition emit_place_address :: "Backend \<Rightarrow> Place \<Rightarrow> LocalDecl IndexVec \<Rightarrow> unit emitx" where
  "emit_place_address b p local_tys =
     sx_bind (emit (OP_LOAD_LOCAL_ADDR # u32_le (pl_local p))) (\<lambda>_.
       if pl_projection p = [] then sx_return ()
       else case iv_index local_tys (pl_local p) of
              Inl _ \<Rightarrow> sx_fail EmitPanic
            | Inr ld \<Rightarrow> sx_bind (emit_projs b (pl_local p) (pl_projection p) (ld_ty ld)) (\<lambda>_. sx_return ()))"

section \<open>Operands\<close>

definition emit_noted :: "bool \<Rightarrow> i64 \<Rightarrow> unit emitx" where
  "emit_noted is_int v = sx_bind (emit_load_const v) (\<lambda>_. note_const is_int)"

text \<open>\<open>emit_operand\<close> on \<open>Operand::Constant\<close>; \<open>emit_consts\<close> is the loop of its
  \<open>Aggregate\<close> arm.\<close>

fun emit_const :: "Backend \<Rightarrow> MirConstKind \<Rightarrow> unit emitx"
  and emit_consts :: "Backend \<Rightarrow> MirConst list \<Rightarrow> unit emitx" where
  "emit_const b (MirConstKind.Int v) = emit_noted True (ucast v)"
| "emit_const b (MirConstKind.Uint v) = emit_noted True (ucast v)"
| "emit_const b (MirConstKind.Bool x) = emit_noted True (if x then 1 else 0)"
| "emit_const b (MirConstKind.Char c) = emit_noted True (ucast c)"
| "emit_const b (MirConstKind.FloatBits bits) = emit_noted False bits"
| "emit_const b (MirConstKind.String name) =
     sx_bind (intern_string (case bk_ty_ctx b of Some _ \<Rightarrow> bk_name_str b name | None \<Rightarrow> ''string_payload''))
       (\<lambda>i. emit_noted False (ucast i))"
| "emit_const b (MirConstKind.Fn def_id substs) =
     sx_bind (emit [OP_LOAD_CONST]) (\<lambda>_. sx_bind (intern_fn def_id substs) (\<lambda>i.
     sx_bind (emit (i64_le (ucast i))) (\<lambda>_. note_const False)))"
| "emit_const b (MirConstKind.Aggregate elems) = emit_consts b elems"
| "emit_const b (MirConstKind.SizeOf ty) =
     emit_noted True (case bk_ty_ctx b of
       Some _ \<Rightarrow> (case bk_layout_of b ty of Some sz \<Rightarrow> sz | None \<Rightarrow> 0) | None \<Rightarrow> 0)"
| "emit_const b MirConstKind.Unit = emit_noted True 0"
| "emit_const b MirConstKind.Error = emit_noted True 0"
| "emit_const b k = sx_fail (Reject k)"
| "emit_consts b [] = sx_return ()"
| "emit_consts b (MirConst k t sp # cs) = sx_bind (emit_const b k) (\<lambda>_. emit_consts b cs)"

definition emit_place_read :: "Backend \<Rightarrow> Place \<Rightarrow> LocalDecl IndexVec \<Rightarrow> unit emitx" where
  "emit_place_read b p local_tys =
     (if pl_projection p = [] then emit (OP_LOAD_LOCAL # u32_le (pl_local p))
      else sx_bind (emit_place_address b p local_tys) (\<lambda>_. emit [OP_DEREF]))"

fun emit_operand :: "Backend \<Rightarrow> Operand \<Rightarrow> LocalDecl IndexVec \<Rightarrow> unit emitx" where
  "emit_operand b (Copy p) local_tys = emit_place_read b p local_tys"
| "emit_operand b (Move p) local_tys = emit_place_read b p local_tys"
| "emit_operand b (Constant c) local_tys = emit_const b (mc_kind c)"

fun emit_operands :: "Backend \<Rightarrow> Operand list \<Rightarrow> LocalDecl IndexVec \<Rightarrow> unit emitx" where
  "emit_operands b [] local_tys = sx_return ()"
| "emit_operands b (o' # os) local_tys =
     sx_bind (emit_operand b o' local_tys) (\<lambda>_. emit_operands b os local_tys)"

section \<open>Rvalues and statements\<close>

fun binop_opcode :: "BinOp \<Rightarrow> u8" where
  "binop_opcode BinOp.Add = OP_ADD"
| "binop_opcode BinOp.Sub = OP_SUB"
| "binop_opcode BinOp.Mul = OP_MUL"
| "binop_opcode BinOp.Div = OP_DIV"
| "binop_opcode BinOp.Rem = OP_REM"
| "binop_opcode BinOp.Eq = OP_EQ"
| "binop_opcode BinOp.Ne = OP_NE"
| "binop_opcode BinOp.Lt = OP_LT"
| "binop_opcode BinOp.Gt = OP_GT"
| "binop_opcode BinOp.LtEq = OP_LE"
| "binop_opcode BinOp.GtEq = OP_GE"
| "binop_opcode BinOp.And = OP_AND"
| "binop_opcode BinOp.Or = OP_OR"
| "binop_opcode BinOp.BitAnd = OP_BITAND"
| "binop_opcode BinOp.BitOr = OP_BITOR"
| "binop_opcode BinOp.BitXor = OP_BITXOR"
| "binop_opcode BinOp.Shl = OP_SHL"
| "binop_opcode BinOp.Shr = OP_SHR"

fun unop_opcode :: "UnOp \<Rightarrow> u8" where
  "unop_opcode UnOp.Not = OP_NOT"
| "unop_opcode UnOp.Neg = OP_NEG"
| "unop_opcode UnOp.Deref = OP_DEREF"

fun cast_byte :: "CastKind \<Rightarrow> u8" where
  "cast_byte CastKind.IntToInt = 0"
| "cast_byte CastKind.FloatToInt = 1"
| "cast_byte CastKind.IntToFloat = 2"
| "cast_byte CastKind.PtrToPtr = 3"
| "cast_byte CastKind.FnPtrToPtr = 4"
| "cast_byte CastKind.PtrToInt = 5"
| "cast_byte CastKind.IntToPtr = 6"
| "cast_byte CastKind.FloatToFloat = 7"

fun emit_rvalue :: "Backend \<Rightarrow> Rvalue \<Rightarrow> LocalDecl IndexVec \<Rightarrow> unit emitx" where
  "emit_rvalue b (Use o') local_tys = emit_operand b o' local_tys"
| "emit_rvalue b (BinaryOp op left right) local_tys =
     sx_bind (emit_operand b left local_tys) (\<lambda>_.
     sx_bind (emit_operand b right local_tys) (\<lambda>_. emit [binop_opcode op]))"
| "emit_rvalue b (UnaryOp op o') local_tys =
     sx_bind (emit_operand b o' local_tys) (\<lambda>_. emit [unop_opcode op])"
| "emit_rvalue b (Rvalue.Ref p _) local_tys = emit_place_address b p local_tys"
| "emit_rvalue b (Rvalue.Aggregate _ os) local_tys =
     sx_bind (emit (OP_AGGREGATE # u32_le (of_nat (length os)))) (\<lambda>_. emit_operands b os local_tys)"
| "emit_rvalue b (Rvalue.Discriminant p) local_tys =
     sx_bind (emit_operand b (Copy p) local_tys) (\<lambda>_. emit [OP_DISCRIMINANT])"
| "emit_rvalue b (Rvalue.Len p) local_tys = emit (OP_LEN # u32_le (pl_local p))"
| "emit_rvalue b (Rvalue.Cast k o' _) local_tys =
     sx_bind (emit_operand b o' local_tys) (\<lambda>_. emit [OP_CAST, cast_byte k])"
| "emit_rvalue b (Rvalue.Repeat o' c) local_tys =
     sx_bind (emit [OP_REPEAT]) (\<lambda>_. sx_bind (emit_operand b o' local_tys) (\<lambda>_.
       emit_operand b (Constant c) local_tys))"

fun emit_statement :: "Backend \<Rightarrow> StatementKind \<Rightarrow> LocalDecl IndexVec \<Rightarrow> unit emitx" where
  "emit_statement b (Assign p rv) local_tys =
     sx_bind (emit_rvalue b rv local_tys) (\<lambda>_.
       if pl_projection p = [] then emit (OP_STORE_LOCAL # u32_le (pl_local p))
       else sx_bind (emit_place_address b p local_tys) (\<lambda>_. emit [OP_STORE_FIELD]))"
| "emit_statement b (StorageLive _) local_tys = sx_return ()"
| "emit_statement b (StorageDead _) local_tys = sx_return ()"
| "emit_statement b StatementKind.Nop local_tys = sx_return ()"

fun emit_statements :: "Backend \<Rightarrow> Statement list \<Rightarrow> LocalDecl IndexVec \<Rightarrow> unit emitx" where
  "emit_statements b [] local_tys = sx_return ()"
| "emit_statements b (s # ss) local_tys =
     sx_bind (emit_statement b (st_kind s) local_tys) (\<lambda>_. emit_statements b ss local_tys)"

section \<open>Terminators\<close>

definition is_place_operand :: "Operand \<Rightarrow> bool" where
  "is_place_operand o' = (case o' of Constant _ \<Rightarrow> False | _ \<Rightarrow> True)"

definition local0_ty :: "LocalDecl IndexVec \<Rightarrow> Ty" where
  "local0_ty local_tys = (case local_tys of [] \<Rightarrow> Ty_UNIT | ld # _ \<Rightarrow> ld_ty ld)"

definition true_target :: "SwitchTargets \<Rightarrow> BasicBlockIdx" where
  "true_target targets =
     (case List.find (\<lambda>(v, _). v = 1) (sw_branches targets) of
        Some (_, t) \<Rightarrow> t | None \<Rightarrow> sw_otherwise targets)"

fun switch_arm_bytes :: "(u128 \<times> BasicBlockIdx) list \<Rightarrow> u8 list" where
  "switch_arm_bytes [] = []"
| "switch_arm_bytes ((v, t) # bs) = i64_le (ucast v) @ u32_le t @ switch_arm_bytes bs"

fun emit_terminator :: "Backend \<Rightarrow> TerminatorKind \<Rightarrow> LocalDecl IndexVec \<Rightarrow> unit emitx" where
  "emit_terminator b TerminatorKind.Return local_tys =
     sx_bind (if local0_ty local_tys \<noteq> Ty_UNIT then emit (OP_LOAD_LOCAL # u32_le 0) else sx_return ())
       (\<lambda>_. emit [OP_RETURN])"
| "emit_terminator b (SwitchInt discr switch_ty targets) local_tys =
     sx_bind (emit_operand b discr local_tys) (\<lambda>_.
       if switch_ty = Ty_BOOL then
         emit (OP_JUMP_IF # u32_le (true_target targets) @ OP_JUMP # u32_le (sw_otherwise targets))
       else
         emit (OP_SWITCH_INT # u32_le (of_nat (length (sw_branches targets)))
               @ switch_arm_bytes (sw_branches targets) @ u32_le (sw_otherwise targets)))"
| "emit_terminator b (Goto target) local_tys = emit (OP_JUMP # u32_le target)"
| "emit_terminator b (TerminatorKind.Call func args destination target _) local_tys =
     sx_bind (emit_operand b func local_tys) (\<lambda>_.
     sx_bind (emit_operands b args local_tys) (\<lambda>_.
       emit ((if is_place_operand func then OP_CALL_INDIRECT else OP_CALL)
             # u32_le (of_nat (length args)) @ u32_le (pl_local destination)
             @ u32_le (case target of Some t \<Rightarrow> t | None \<Rightarrow> u32_max))))"
| "emit_terminator b TerminatorKind.Unreachable local_tys = emit [OP_TRAP]"
| "emit_terminator b (TerminatorKind.Assert cond expected target _ _) local_tys =
     sx_bind (emit_operand b cond local_tys) (\<lambda>_.
       emit (OP_ASSERT # (if expected then 1 else 0) # u32_le target))"
| "emit_terminator b (TerminatorKind.Drop p target _) local_tys =
     sx_bind (emit_place_address b p local_tys) (\<lambda>_. emit (OP_DROP # OP_JUMP # u32_le target))"

section \<open>Functions\<close>

definition emit_block :: "Backend \<Rightarrow> LocalDecl IndexVec \<Rightarrow> BasicBlockData \<Rightarrow> unit emitx" where
  "emit_block b local_tys bb =
     sx_bind (emit_statements b (bb_statements bb) local_tys) (\<lambda>_.
       emit_terminator b (te_kind (bb_terminator bb)) local_tys)"

fun emit_blocks :: "Backend \<Rightarrow> LocalDecl IndexVec \<Rightarrow> BasicBlockData list \<Rightarrow> nat list emitx" where
  "emit_blocks b local_tys [] = sx_return []"
| "emit_blocks b local_tys (bb # bbs) =
     sx_bind (sx_get (\<lambda>s. length (em_bc s))) (\<lambda>off.
     sx_bind (emit_block b local_tys bb) (\<lambda>_.
     sx_bind (emit_blocks b local_tys bbs) (\<lambda>offs. sx_return (off # offs))))"

definition run_peephole :: "unit emitx" where
  "run_peephole s =
     (case peephole (em_bc s) (em_const_is_int s) of
        Inl _ \<Rightarrow> (Inl EmitPanic, s)
      | Inr bc \<Rightarrow> (Inr (), s\<lparr>em_bc := bc\<rparr>))"

text \<open>The buffer \<open>bc\<close> is the function's own local and starts empty, as does \<open>const_is_int\<close>.\<close>

definition generate_function_with_blocks :: "Backend \<Rightarrow> Body \<Rightarrow> (u8 list \<times> nat list) emitx" where
  "generate_function_with_blocks b body =
     sx_bind (sx_modify (\<lambda>s. s\<lparr>em_bc := [], em_const_is_int := []\<rparr>)) (\<lambda>_.
     sx_bind (emit_blocks b (b_locals body) (b_blocks body)) (\<lambda>offs.
     sx_bind (if bk_opt_level b \<noteq> O0 then run_peephole else sx_return ()) (\<lambda>_.
     sx_get (\<lambda>s. (em_bc s, offs)))))"

definition generate_function :: "Backend \<Rightarrow> Body \<Rightarrow> u8 list emitx" where
  "generate_function b body = sx_bind (generate_function_with_blocks b body) (\<lambda>r. sx_return (fst r))"

text \<open>\<open>generate\<close> concatenates the functions' code; writing the file is left out.\<close>

fun generate :: "Backend \<Rightarrow> (string \<times> Body) list \<Rightarrow> u8 list emitx" where
  "generate b [] = sx_return []"
| "generate b ((_, body) # bodies) =
     sx_bind (generate_function b body) (\<lambda>fn_bytes. sx_bind (generate b bodies) (\<lambda>rest.
       sx_return (fn_bytes @ rest)))"

end
