(* ===== verification/Mir_Semantics.thy ===== *)
theory Mir_Semantics
  imports Bytecode_Emit
begin

text \<open>
  A reference interpreter of MIR on 64-bit values, the specification the backend
  (\<open>Emit_Correct\<close>) and the optimizer (\<open>Opt_Cfg\<close>, \<open>Opt_Dce\<close>, \<open>Opt_ConstProp\<close>) are proved
  against.  It gives a meaning to assignments of constants, copies, unary and binary operations
  between unprojected locals and to every terminator but \<open>Call\<close> and \<open>Drop\<close>, which stop it.
  \<open>Not\<close> is the negation of a \<open>bool\<close>.  \<open>mir_run\<close> takes one unit of fuel per block; no fuel
  bound is part of a property, which speaks of some or of every fuel.
\<close>

section \<open>The reference semantics\<close>

fun const_value :: "MirConstKind \<Rightarrow> i64 option" where
  "const_value (MirConstKind.Int v) = Some (ucast v)"
| "const_value (MirConstKind.Uint v) = Some (ucast v)"
| "const_value (MirConstKind.Bool x) = Some (i64_of_bool x)"
| "const_value (MirConstKind.Char c) = Some (ucast c)"
| "const_value (MirConstKind.FloatBits bits) = Some bits"
| "const_value MirConstKind.Unit = Some 0"
| "const_value _ = None"

fun operand_value :: "Value list \<Rightarrow> Operand \<Rightarrow> Value" where
  "operand_value ls (Copy p) = ls ! unat (pl_local p)"
| "operand_value ls (Move p) = ls ! unat (pl_local p)"
| "operand_value ls (Constant c) = Value.Int (case const_value (mc_kind c) of Some v \<Rightarrow> v | None \<Rightarrow> 0)"

text \<open>The meaning of the operators on 64-bit values; \<open>None\<close> is a trap.\<close>

fun mir_binop :: "BinOp \<Rightarrow> i64 \<Rightarrow> i64 \<Rightarrow> i64 option" where
  "mir_binop BinOp.Add a b = Some (a + b)"
| "mir_binop BinOp.Sub a b = Some (a - b)"
| "mir_binop BinOp.Mul a b = Some (a * b)"
| "mir_binop BinOp.Div a b = checked_sdiv a b"
| "mir_binop BinOp.Rem a b = checked_srem a b"
| "mir_binop BinOp.Eq a b = Some (i64_of_bool (a = b))"
| "mir_binop BinOp.Ne a b = Some (i64_of_bool (a \<noteq> b))"
| "mir_binop BinOp.Lt a b = Some (i64_of_bool (sint a < sint b))"
| "mir_binop BinOp.Gt a b = Some (i64_of_bool (sint a > sint b))"
| "mir_binop BinOp.LtEq a b = Some (i64_of_bool (sint a \<le> sint b))"
| "mir_binop BinOp.GtEq a b = Some (i64_of_bool (sint a \<ge> sint b))"
| "mir_binop BinOp.And a b = Some (i64_of_bool (a \<noteq> 0 \<and> b \<noteq> 0))"
| "mir_binop BinOp.Or a b = Some (i64_of_bool (a \<noteq> 0 \<or> b \<noteq> 0))"
| "mir_binop BinOp.BitAnd a b = Some (a AND b)"
| "mir_binop BinOp.BitOr a b = Some (a OR b)"
| "mir_binop BinOp.BitXor a b = Some (a XOR b)"
| "mir_binop BinOp.Shl a b = Some (push_bit (unat b mod 64) a)"
| "mir_binop BinOp.Shr a b = Some (signed_drop_bit (unat b mod 64) a)"

fun mir_rvalue :: "Value list \<Rightarrow> Rvalue \<Rightarrow> Value option" where
  "mir_rvalue ls (Use o') = Some (operand_value ls o')"
| "mir_rvalue ls (BinaryOp op l r) =
     map_option Value.Int (mir_binop op (as_int (operand_value ls l)) (as_int (operand_value ls r)))"
| "mir_rvalue ls (UnaryOp UnOp.Not o') = Some (Value.Int (i64_of_bool (as_int (operand_value ls o') = 0)))"
| "mir_rvalue ls (UnaryOp UnOp.Neg o') = Some (Value.Int (- as_int (operand_value ls o')))"
| "mir_rvalue ls _ = None"

fun mir_stmt :: "StatementKind \<Rightarrow> Value list \<Rightarrow> Value list option" where
  "mir_stmt (Assign p rv) ls = map_option (\<lambda>v. ls[unat (pl_local p) := v]) (mir_rvalue ls rv)"
| "mir_stmt _ ls = Some ls"

fun mir_stmts :: "Statement list \<Rightarrow> Value list \<Rightarrow> Value list option" where
  "mir_stmts [] ls = Some ls"
| "mir_stmts (s # ss) ls = Option.bind (mir_stmt (st_kind s) ls) (mir_stmts ss)"

datatype mir_exit = ToBlock BasicBlockIdx | Returned Value | Trapped VmError

definition switch_target :: "SwitchTargets \<Rightarrow> i64 \<Rightarrow> BasicBlockIdx" where
  "switch_target targets d =
     (case List.find (\<lambda>(v, _). ucast v = d) (sw_branches targets) of
        Some (_, t) \<Rightarrow> t | None \<Rightarrow> sw_otherwise targets)"

text \<open>A discriminant of type \<open>bool\<close> counts as true when it is not 0.\<close>

fun mir_terminator :: "LocalDecl IndexVec \<Rightarrow> TerminatorKind \<Rightarrow> Value list \<Rightarrow> mir_exit" where
  "mir_terminator lts (Goto t) ls = ToBlock t"
| "mir_terminator lts (SwitchInt d ty targets) ls =
     (let v = as_int (operand_value ls d)
      in ToBlock (switch_target targets (if ty = Ty_BOOL then i64_of_bool (v \<noteq> 0) else v)))"
| "mir_terminator lts TerminatorKind.Return ls =
     Returned (if local0_ty lts = Ty_UNIT then Value.Int 0 else ls ! 0)"
| "mir_terminator lts (TerminatorKind.Assert c expected t _ _) ls =
     (if (as_int (operand_value ls c) \<noteq> 0) = expected then ToBlock t else Trapped AssertionFailed)"
| "mir_terminator lts _ ls = Trapped AbnormalTermination"

fun mir_run :: "Body \<Rightarrow> nat \<Rightarrow> BasicBlockIdx \<Rightarrow> Value list \<Rightarrow> (VmError + Value) option" where
  "mir_run body 0 bb ls = None"
| "mir_run body (Suc n) bb ls =
     (let block = b_blocks body ! unat bb
      in case mir_stmts (bb_statements block) ls of
           None \<Rightarrow> Some (Inl AbnormalTermination)
         | Some ls' \<Rightarrow>
             (case mir_terminator (b_locals body) (te_kind (bb_terminator block)) ls' of
                ToBlock t \<Rightarrow> mir_run body n t ls'
              | Returned v \<Rightarrow> Some (Inr v)
              | Trapped e \<Rightarrow> Some (Inl e)))"

end
