(* ===== verification/Emit_Correct.thy ===== *)
theory Emit_Correct
  imports Mir_Semantics
begin

text \<open>
  Compiler correctness of the bytecode backend on scalar bodies: blocks of assignments of
  constants, copies, unary and binary operations between unprojected locals, ended by any
  terminator but \<open>Call\<close> and \<open>Drop\<close>.  The emitted code, run by the virtual machine, returns
  what the reference interpreter \<open>mir_run\<close> returns and traps where it traps.

  \<open>emits c code\<close>: the emitter \<open>c\<close> appends exactly \<open>code\<close>.
  \<open>leads m P Q\<close>: from every machine of \<open>P\<close> the driver reaches one of \<open>Q\<close>.
\<close>

section \<open>Scalar bodies\<close>

fun scalar_operand :: "nat \<Rightarrow> Operand \<Rightarrow> bool" where
  "scalar_operand n (Copy p) \<longleftrightarrow> pl_projection p = [] \<and> unat (pl_local p) < n"
| "scalar_operand n (Move p) \<longleftrightarrow> pl_projection p = [] \<and> unat (pl_local p) < n"
| "scalar_operand n (Constant c) \<longleftrightarrow> const_value (mc_kind c) \<noteq> None"

fun scalar_rvalue :: "nat \<Rightarrow> Rvalue \<Rightarrow> bool" where
  "scalar_rvalue n (Use o') \<longleftrightarrow> scalar_operand n o'"
| "scalar_rvalue n (BinaryOp op l r) \<longleftrightarrow> scalar_operand n l \<and> scalar_operand n r"
| "scalar_rvalue n (UnaryOp op o') \<longleftrightarrow> op \<noteq> UnOp.Deref \<and> scalar_operand n o'"
| "scalar_rvalue n _ \<longleftrightarrow> False"

fun scalar_stmt :: "nat \<Rightarrow> StatementKind \<Rightarrow> bool" where
  "scalar_stmt n (Assign p rv) \<longleftrightarrow> pl_projection p = [] \<and> unat (pl_local p) < n \<and> scalar_rvalue n rv"
| "scalar_stmt n _ \<longleftrightarrow> True"

text \<open>Switch values are distinct as the machine sees them, truncated to 64 bits; a switch on
  \<open>bool\<close> has no branch for \<open>false\<close>, which the emitter would ignore.\<close>

definition scalar_switch :: "nat \<Rightarrow> Ty \<Rightarrow> SwitchTargets \<Rightarrow> bool" where
  "scalar_switch k ty targets \<longleftrightarrow>
     distinct (map (\<lambda>(v, _). ucast v :: i64) (sw_branches targets)) \<and>
     length (sw_branches targets) < 2 ^ 32 \<and>
     (\<forall>(v, t) \<in> set (sw_branches targets). unat t < k \<and> v < 2 ^ 64 \<and> (ty = Ty_BOOL \<longrightarrow> v \<noteq> 0)) \<and>
     unat (sw_otherwise targets) < k"

fun scalar_term :: "nat \<Rightarrow> nat \<Rightarrow> LocalDecl IndexVec \<Rightarrow> TerminatorKind \<Rightarrow> bool" where
  "scalar_term n k lts (Goto t) \<longleftrightarrow> unat t < k"
| "scalar_term n k lts (SwitchInt d ty targets) \<longleftrightarrow> scalar_operand n d \<and> scalar_switch k ty targets"
| "scalar_term n k lts TerminatorKind.Return \<longleftrightarrow> True"
| "scalar_term n k lts TerminatorKind.Unreachable \<longleftrightarrow> True"
| "scalar_term n k lts (TerminatorKind.Assert c _ t _ _) \<longleftrightarrow> scalar_operand n c \<and> unat t < k"
| "scalar_term n k lts _ \<longleftrightarrow> False"

definition scalar_block :: "nat \<Rightarrow> nat \<Rightarrow> LocalDecl IndexVec \<Rightarrow> BasicBlockData \<Rightarrow> bool" where
  "scalar_block n k lts bb \<longleftrightarrow>
     (\<forall>s \<in> set (bb_statements bb). scalar_stmt n (st_kind s)) \<and>
     scalar_term n k lts (te_kind (bb_terminator bb))"

definition scalar_body :: "Body \<Rightarrow> bool" where
  "scalar_body body \<longleftrightarrow>
     b_blocks body \<noteq> [] \<and>
     (\<forall>bb \<in> set (b_blocks body).
        scalar_block (length (b_locals body)) (length (b_blocks body)) (b_locals body) bb)"

section \<open>The code of scalar bodies\<close>

fun operand_code :: "Operand \<Rightarrow> u8 list" where
  "operand_code (Copy p) = OP_LOAD_LOCAL # u32_le (pl_local p)"
| "operand_code (Move p) = OP_LOAD_LOCAL # u32_le (pl_local p)"
| "operand_code (Constant c) = OP_LOAD_CONST # i64_le (case const_value (mc_kind c) of Some v \<Rightarrow> v | None \<Rightarrow> 0)"

fun rvalue_code :: "Rvalue \<Rightarrow> u8 list" where
  "rvalue_code (Use o') = operand_code o'"
| "rvalue_code (BinaryOp op l r) = operand_code l @ operand_code r @ [binop_opcode op]"
| "rvalue_code (UnaryOp op o') = operand_code o' @ [unop_opcode op]"
| "rvalue_code _ = []"

fun stmt_code :: "StatementKind \<Rightarrow> u8 list" where
  "stmt_code (Assign p rv) = rvalue_code rv @ OP_STORE_LOCAL # u32_le (pl_local p)"
| "stmt_code _ = []"

fun term_code :: "LocalDecl IndexVec \<Rightarrow> TerminatorKind \<Rightarrow> u8 list" where
  "term_code lts (Goto t) = OP_JUMP # u32_le t"
| "term_code lts (SwitchInt d ty targets) = operand_code d @
     (if ty = Ty_BOOL then OP_JUMP_IF # u32_le (true_target targets) @ OP_JUMP # u32_le (sw_otherwise targets)
      else OP_SWITCH_INT # u32_le (of_nat (length (sw_branches targets)))
           @ switch_arm_bytes (sw_branches targets) @ u32_le (sw_otherwise targets))"
| "term_code lts TerminatorKind.Return =
     (if local0_ty lts \<noteq> Ty_UNIT then OP_LOAD_LOCAL # u32_le 0 else []) @ [OP_RETURN]"
| "term_code lts TerminatorKind.Unreachable = [OP_TRAP]"
| "term_code lts (TerminatorKind.Assert c expected t _ _) =
     operand_code c @ OP_ASSERT # (if expected then 1 else 0) # u32_le t"
| "term_code lts _ = []"

definition stmts_code :: "Statement list \<Rightarrow> u8 list" where
  "stmts_code ss = concat (map (\<lambda>s. stmt_code (st_kind s)) ss)"

definition block_code :: "LocalDecl IndexVec \<Rightarrow> BasicBlockData \<Rightarrow> u8 list" where
  "block_code lts bb = stmts_code (bb_statements bb) @ term_code lts (te_kind (bb_terminator bb))"

section \<open>Emission\<close>

named_theorems emits_rules \<open>which bytes an emitter appends\<close>

definition emits :: "unit emitx \<Rightarrow> u8 list \<Rightarrow> bool" where
  "emits c code \<longleftrightarrow>
     (\<forall>s. \<exists>ints. c s = (Inr (), s\<lparr>em_bc := em_bc s @ code, em_const_is_int := em_const_is_int s @ ints\<rparr>))"

lemma emits_emit [emits_rules]: "emits (emit bs) bs"
  unfolding emits_def by (intro allI exI [of _ "[]"]) (simp add: emit_def sx_apply)

lemma emits_return [emits_rules]: "emits (sx_return ()) []"
  unfolding emits_def by (intro allI exI [of _ "[]"]) (simp add: sx_apply)

lemma emits_note: "emits (note_const x) []"
  unfolding emits_def by (intro allI exI [of _ "[x]"]) (simp add: note_const_def sx_apply)

lemma emits_bind:
  assumes "emits c xs" "emits d ys"
  shows "emits (sx_bind c (\<lambda>_. d)) (xs @ ys)"
  unfolding emits_def
proof
  fix s
  obtain i where c: "c s = (Inr (), s\<lparr>em_bc := em_bc s @ xs, em_const_is_int := em_const_is_int s @ i\<rparr>)"
    using assms(1) unfolding emits_def by blast
  let ?t = "s\<lparr>em_bc := em_bc s @ xs, em_const_is_int := em_const_is_int s @ i\<rparr>"
  obtain j where d: "d ?t = (Inr (), ?t\<lparr>em_bc := em_bc ?t @ ys, em_const_is_int := em_const_is_int ?t @ j\<rparr>)"
    using assms(2) unfolding emits_def by blast
  show "\<exists>ints. sx_bind c (\<lambda>_. d) s
      = (Inr (), s\<lparr>em_bc := em_bc s @ xs @ ys, em_const_is_int := em_const_is_int s @ ints\<rparr>)"
    using c d by (intro exI [of _ "i @ j"]) simp
qed

lemma emits_bind_eq: "emits c xs \<Longrightarrow> emits d ys \<Longrightarrow> zs = xs @ ys \<Longrightarrow> emits (sx_bind c (\<lambda>_. d)) zs"
  by (simp add: emits_bind)

lemma emits_noted: "emits (emit_noted x v) (OP_LOAD_CONST # i64_le v)"
  unfolding emit_noted_def emit_load_const_def
  by (rule emits_bind_eq [OF emits_emit emits_note]) simp

lemma emits_const: "const_value k = Some v \<Longrightarrow> emits (emit_const b k) (OP_LOAD_CONST # i64_le v)"
  by (cases k) (auto simp: i64_of_bool_def intro: emits_noted)

lemma emits_operand: "scalar_operand n o' \<Longrightarrow> emits (emit_operand b o' lts) (operand_code o')"
  by (cases o') (auto simp: emit_place_read_def intro: emits_emit emits_const)

lemma emits_rvalue: "scalar_rvalue n rv \<Longrightarrow> emits (emit_rvalue b rv lts) (rvalue_code rv)"
  by (cases rv) (auto intro!: emits_bind emits_operand emits_emit)

lemma emits_stmt: "scalar_stmt n k \<Longrightarrow> emits (emit_statement b k lts) (stmt_code k)"
  by (cases k) (auto intro!: emits_bind emits_rvalue emits_emit emits_return)

lemma emits_stmts:
  "\<forall>s \<in> set ss. scalar_stmt n (st_kind s) \<Longrightarrow> emits (emit_statements b ss lts) (stmts_code ss)"
  by (induction ss) (auto simp: stmts_code_def intro!: emits_bind emits_stmt emits_return)

lemma emits_term: "scalar_term n k lts t \<Longrightarrow> emits (emit_terminator b t lts) (term_code lts t)"
  by (cases t)
    (auto intro!: emits_bind emits_operand emits_emit emits_return
      intro: emits_bind_eq [OF emits_emit emits_emit] emits_bind_eq [OF emits_return emits_emit])

lemma emits_block: "scalar_block n k lts bb \<Longrightarrow> emits (emit_block b lts bb) (block_code lts bb)"
  unfolding emit_block_def block_code_def scalar_block_def
  by (intro emits_bind emits_stmts emits_term) auto


lemma emits_blocks:
  assumes "\<forall>bb \<in> set bbs. scalar_block n k lts bb"
  shows "\<exists>offs t. emit_blocks b lts bbs s = (Inr offs, t) \<and> length offs = length bbs \<and>
    (\<exists>tl. em_bc t = em_bc s @ tl) \<and>
    (\<forall>i < length bbs. code_at (em_bc t) (offs ! i) (block_code lts (bbs ! i))) \<and>
    (bbs \<noteq> [] \<longrightarrow> hd offs = length (em_bc s))"
  using assms
proof (induction bbs arbitrary: s)
  case Nil
  then show ?case by (simp add: sx_apply)
next
  case (Cons bb bbs)
  then have "emits (emit_block b lts bb) (block_code lts bb)" by (auto intro: emits_block)
  then obtain u where u: "emit_block b lts bb s = (Inr (), u)" "em_bc u = em_bc s @ block_code lts bb"
    unfolding emits_def by (metis Emit.select_convs(1) Emit.surjective Emit.update_convs(1,5))
  obtain offs t tl where t: "emit_blocks b lts bbs u = (Inr offs, t)" "length offs = length bbs"
    "em_bc t = em_bc u @ tl"
    "\<forall>i < length bbs. code_at (em_bc t) (offs ! i) (block_code lts (bbs ! i))"
  proof -
    from Cons.prems have "\<forall>bb \<in> set bbs. scalar_block n k lts bb" by simp
    from Cons.IH [OF this, of u] show thesis using that by blast
  qed
  have "code_at (em_bc t) (length (em_bc s)) (block_code lts bb)"
    unfolding t(3) u(2) by (simp add: code_at_def)
  with t u show ?case
    by (intro exI [of _ "length (em_bc s) # offs"] exI [of _ t])
      (auto simp: sx_bind_apply sx_apply nth_Cons split: nat.split)
qed

section \<open>Machine code runs\<close>

definition runs_at :: "Module \<Rightarrow> Function \<Rightarrow> Frame list \<Rightarrow> nat \<Rightarrow> Value list \<Rightarrow> Value list \<Rightarrow> Vm \<Rightarrow> bool" where
  "runs_at m f frs pc st ls s \<longleftrightarrow>
     vm_stack s = st \<and>
     (\<exists>fr. vm_frames s = fr # frs \<and> function_at m (fr_func fr) = Inr f \<and> fr_pc fr = pc \<and> fr_locals fr = ls)"

definition leads :: "Module \<Rightarrow> (Vm \<Rightarrow> bool) \<Rightarrow> (Vm \<Rightarrow> bool) \<Rightarrow> bool" where
  "leads m P Q \<longleftrightarrow> (\<forall>s. P s \<longrightarrow> (\<exists>t. vm_reaches m s t \<and> Q t))"

text \<open>\<open>leads1\<close>: the same in at least one step.\<close>

definition leads1 :: "Module \<Rightarrow> (Vm \<Rightarrow> bool) \<Rightarrow> (Vm \<Rightarrow> bool) \<Rightarrow> bool" where
  "leads1 m P Q \<longleftrightarrow> (\<forall>s. P s \<longrightarrow> (\<exists>t. (vm_next m)\<^sup>+\<^sup>+ s t \<and> Q t))"

definition stops :: "Module \<Rightarrow> (Vm \<Rightarrow> bool) \<Rightarrow> vm_fail + Value \<Rightarrow> bool" where
  "stops m P r \<longleftrightarrow> (\<forall>s. P s \<longrightarrow> (\<exists>t. drive m s = Some (r, t)))"

lemma leads_refl: "leads m P P"
  unfolding leads_def by blast

lemma leads_trans: "leads m P Q \<Longrightarrow> leads m Q R \<Longrightarrow> leads m P R"
  unfolding leads_def by (meson rtranclp_trans)

lemma leads1_leads: "leads1 m P Q \<Longrightarrow> leads m P Q"
  unfolding leads_def leads1_def by (meson tranclp_into_rtranclp)

lemma leads_leads1_trans: "leads m P Q \<Longrightarrow> leads1 m Q R \<Longrightarrow> leads1 m P R"
  unfolding leads_def leads1_def by (meson rtranclp_tranclp_tranclp)

lemma leads1_leads_trans: "leads1 m P Q \<Longrightarrow> leads m Q R \<Longrightarrow> leads1 m P R"
  unfolding leads_def leads1_def by (meson tranclp_rtranclp_tranclp)

lemma leads_stops: "leads m P Q \<Longrightarrow> stops m Q r \<Longrightarrow> stops m P r"
  unfolding leads_def stops_def by (metis drive_reaches)

lemma runs_at_vm_at: "runs_at m f frs pc st ls s \<Longrightarrow> vm_at m s f pc"
  by (auto simp: runs_at_def vm_at_def)

lemma runs_at_stack: "runs_at m f frs pc st ls s \<Longrightarrow> vm_stack s = st"
  by (simp add: runs_at_def)

lemma runs_at_set_pc: "runs_at m f frs pc st ls s \<Longrightarrow> runs_at m f frs pc' st ls (set_top_pc pc' s)"
  by (auto simp: runs_at_def set_top_pc_def)

lemma runs_at_upd: "runs_at m f frs pc st ls s \<Longrightarrow> runs_at m f frs pc st' ls (s\<lparr>vm_stack := st'\<rparr>)"
  by (auto simp: runs_at_def)

text \<open>One instruction: what it does to the machine past its opcode byte.\<close>

lemma leads1_op:
  assumes "code_at (fn_code f) pc (opcode_byte op # rest)" "op \<noteq> Opcode.Return"
    and "\<And>s. runs_at m f frs (Suc pc) st ls s \<Longrightarrow> \<exists>t. exec_op m f op s = (Inr (), t) \<and> Q t"
  shows "leads1 m (runs_at m f frs pc st ls) Q"
  unfolding leads1_def
proof (intro allI impI)
  fix s assume s: "runs_at m f frs pc st ls s"
  from assms(3) [OF runs_at_set_pc [OF s]]
  obtain t where t: "exec_op m f op (set_top_pc (Suc pc) s) = (Inr (), t)" "Q t" by blast
  then have "vm_step m s = (Inr None, t)"
    using vm_step_at [OF runs_at_vm_at [OF s] assms(1,2)] by (simp add: sx_apply)
  with t show "\<exists>t. (vm_next m)\<^sup>+\<^sup>+ s t \<and> Q t" by (blast intro: vm_nextI)
qed

lemmas leads_op = leads1_leads [OF leads1_op]

lemma stops_op:
  assumes "code_at (fn_code f) pc (opcode_byte op # rest)" "op \<noteq> Opcode.Return"
    and "\<And>s. runs_at m f frs (Suc pc) st ls s \<Longrightarrow> \<exists>t. exec_op m f op s = (Inl e, t)"
  shows "stops m (runs_at m f frs pc st ls) (Inl e)"
  unfolding stops_def
proof (intro allI impI)
  fix s assume s: "runs_at m f frs pc st ls s"
  from assms(3) [OF runs_at_set_pc [OF s]]
  obtain t where "exec_op m f op (set_top_pc (Suc pc) s) = (Inl e, t)" by blast
  then have "vm_step m s = (Inl e, t)"
    using vm_step_at [OF runs_at_vm_at [OF s] assms(1,2)] by (simp add: sx_apply)
  then show "\<exists>t. drive m s = Some (Inl e, t)" by (blast intro: drive_fail)
qed

lemma runs_fetch_u32:
  assumes "runs_at m f frs pc st ls s" "code_at (fn_code f) pc (u32_le w)"
  shows "fetch_u32 (fn_code f) s = (Inr w, set_top_pc (pc + 4) s)"
  using fetch_u32_at [of s pc "fn_code f" w "[]"] assms(2) runs_at_vm_at [OF assms(1)]
  by (simp add: vm_at_frames vm_at_top_pc)

lemma runs_fetch_i64:
  assumes "runs_at m f frs pc st ls s" "code_at (fn_code f) pc (i64_le w)"
  shows "fetch_i64 (fn_code f) s = (Inr w, set_top_pc (pc + 8) s)"
  using fetch_i64_at [of s pc "fn_code f" w "[]"] assms(2) runs_at_vm_at [OF assms(1)]
  by (simp add: vm_at_frames vm_at_top_pc)

lemma runs_pop: "runs_at m f frs pc (v # st) ls s \<Longrightarrow> vm_pop s = (Inr v, s\<lparr>vm_stack := st\<rparr>)"
  by (simp add: runs_at_def vm_pop_def)

lemma runs_push: "runs_at m f frs pc st ls s \<Longrightarrow> vm_push v s = (Inr (), s\<lparr>vm_stack := v # st\<rparr>)"
  by (simp add: runs_at_def vm_push_def sx_apply)

lemma runs_jump: "jump_to pc s = (Inr (), set_top_pc pc s)"
  by (simp add: jump_to_def sx_apply)


lemma leads_load_const:
  assumes c: "code_at (fn_code f) pc (OP_LOAD_CONST # i64_le v)"
  shows "leads m (runs_at m f frs pc st ls) (runs_at m f frs (pc + 9) (Value.Int v # st) ls)"
proof (rule leads_op [OF c [unfolded emitter_opcodes]])
  fix s assume s: "runs_at m f frs (Suc pc) st ls s"
  have "code_at (fn_code f) (Suc pc) (i64_le v)" using c by (simp add: code_at_Cons)
  note runs_fetch_i64 [OF s this] runs_push [OF runs_at_set_pc [OF s]]
    runs_at_upd [OF runs_at_set_pc [OF s, of "pc + 9"]]
  then show "\<exists>t. exec_op m f Opcode.LoadConst s = (Inr (), t) \<and>
      runs_at m f frs (pc + 9) (Value.Int v # st) ls t"
    by (simp add: add.commute)
qed simp

lemma leads_load_local:
  assumes c: "code_at (fn_code f) pc (OP_LOAD_LOCAL # u32_le i)" and i: "unat i < length ls"
  shows "leads m (runs_at m f frs pc st ls) (runs_at m f frs (pc + 5) (ls ! unat i # st) ls)"
proof (rule leads_op [OF c [unfolded emitter_opcodes]])
  fix s assume s: "runs_at m f frs (Suc pc) st ls s"
  have "code_at (fn_code f) (Suc pc) (u32_le i)" using c by (simp add: code_at_Cons)
  note f = runs_fetch_u32 [OF s this]
  let ?t = "set_top_pc (Suc pc + 4) s"
  have t: "runs_at m f frs (pc + 5) st ls ?t" using runs_at_set_pc [OF s] by (simp add: add.commute)
  then have "local_ref (unat i) ?t = (Inr (ls ! unat i), ?t)"
    using i by (auto simp: runs_at_def local_ref_def)
  with f runs_push [OF t] runs_at_upd [OF t]
  show "\<exists>t. exec_op m f Opcode.LoadLocal s = (Inr (), t) \<and> runs_at m f frs (pc + 5) (ls ! unat i # st) ls t"
    by simp
qed simp

lemma leads_store_local:
  assumes c: "code_at (fn_code f) pc (OP_STORE_LOCAL # u32_le i)" and i: "unat i < length ls"
  shows "leads m (runs_at m f frs pc (v # st) ls) (runs_at m f frs (pc + 5) st (ls[unat i := v]))"
proof (rule leads_op [OF c [unfolded emitter_opcodes]])
  fix s assume s: "runs_at m f frs (Suc pc) (v # st) ls s"
  have "code_at (fn_code f) (Suc pc) (u32_le i)" using c by (simp add: code_at_Cons)
  note f = runs_fetch_u32 [OF s this]
  let ?t = "set_top_pc (Suc pc + 4) s"
  have t: "runs_at m f frs (pc + 5) (v # st) ls ?t" using runs_at_set_pc [OF s] by (simp add: add.commute)
  have "\<exists>u. set_local (unat i) v (?t\<lparr>vm_stack := st\<rparr>) = (Inr (), u) \<and>
      runs_at m f frs (pc + 5) st (ls[unat i := v]) u"
    using t i by (auto simp: runs_at_def set_local_def)
  with f runs_pop [OF t]
  show "\<exists>t. exec_op m f Opcode.StoreLocal s = (Inr (), t) \<and> runs_at m f frs (pc + 5) st (ls[unat i := v]) t"
    by auto
qed simp

lemma exec_op_binop: "is_binop op \<Longrightarrow> exec_op m f op = exec_binop op"
  by (cases op) (auto simp: is_binop_def)

lemma leads_binop:
  assumes c: "code_at (fn_code f) pc [opcode_byte op]" and op: "is_binop op"
    and r: "vm_binop op (as_int a) (as_int b) = Inr r"
  shows "leads m (runs_at m f frs pc (b # a # st) ls) (runs_at m f frs (pc + 1) (Value.Int r # st) ls)"
proof (rule leads_op [OF c])
  fix s assume s: "runs_at m f frs (Suc pc) (b # a # st) ls s"
  note p = runs_pop [OF s] runs_pop [OF runs_at_upd [OF s]] runs_push [OF runs_at_upd [OF s]]
  show "\<exists>t. exec_op m f op s = (Inr (), t) \<and> runs_at m f frs (pc + 1) (Value.Int r # st) ls t"
    using p r runs_at_upd [OF s] by (simp add: exec_op_binop [OF op] exec_binop_def sx_apply)
qed (use op in \<open>auto simp: is_binop_def\<close>)

lemma stops_binop:
  assumes c: "code_at (fn_code f) pc [opcode_byte op]" and op: "is_binop op"
    and r: "vm_binop op (as_int a) (as_int b) = Inl e"
  shows "stops m (runs_at m f frs pc (b # a # st) ls) (Inl e)"
proof (rule stops_op [OF c])
  fix s assume s: "runs_at m f frs (Suc pc) (b # a # st) ls s"
  note p = runs_pop [OF s] runs_pop [OF runs_at_upd [OF s]]
  show "\<exists>t. exec_op m f op s = (Inl e, t)"
    using p r by (simp add: exec_op_binop [OF op] exec_binop_def sx_apply)
qed (use op in \<open>auto simp: is_binop_def\<close>)

lemma leads_unop:
  assumes c: "code_at (fn_code f) pc [opcode_byte op]" and op: "op = Opcode.Not \<or> op = Opcode.Neg"
    and r: "vm_unop op (as_int a) = Inr r"
  shows "leads m (runs_at m f frs pc (a # st) ls) (runs_at m f frs (pc + 1) (Value.Int r # st) ls)"
proof (rule leads_op [OF c])
  fix s assume s: "runs_at m f frs (Suc pc) (a # st) ls s"
  show "\<exists>t. exec_op m f op s = (Inr (), t) \<and> runs_at m f frs (pc + 1) (Value.Int r # st) ls t"
    using runs_pop [OF s] runs_push [OF runs_at_upd [OF s]] r runs_at_upd [OF s] op
    by (auto simp: exec_unop_def sx_apply)
qed (use op in auto)

lemma leads1_jump:
  assumes c: "code_at (fn_code f) pc (OP_JUMP # u32_le t)"
  shows "leads1 m (runs_at m f frs pc st ls) (runs_at m f frs (resolve_target f t) st ls)"
proof (rule leads1_op [OF c [unfolded emitter_opcodes]])
  fix s assume s: "runs_at m f frs (Suc pc) st ls s"
  have "code_at (fn_code f) (Suc pc) (u32_le t)" using c by (simp add: code_at_Cons)
  from runs_fetch_u32 [OF s this] runs_at_set_pc [OF s]
  show "\<exists>u. exec_op m f Opcode.Jump s = (Inr (), u) \<and> runs_at m f frs (resolve_target f t) st ls u"
    by (simp add: runs_jump)
qed simp

lemma leads1_jump_if:
  assumes c: "code_at (fn_code f) pc (OP_JUMP_IF # u32_le t)"
  shows "leads1 m (runs_at m f frs pc (v # st) ls)
    (runs_at m f frs (if as_int v \<noteq> 0 then resolve_target f t else pc + 5) st ls)"
proof (rule leads1_op [OF c [unfolded emitter_opcodes]])
  fix s assume s: "runs_at m f frs (Suc pc) (v # st) ls s"
  have "code_at (fn_code f) (Suc pc) (u32_le t)" using c by (simp add: code_at_Cons)
  note f = runs_fetch_u32 [OF s this]
  note s' = runs_at_set_pc [OF s, of "Suc pc + 4"]
  from f runs_pop [OF s'] runs_at_upd [OF s'] runs_at_upd [OF runs_at_set_pc [OF s]]
  show "\<exists>u. exec_op m f Opcode.JumpIf s = (Inr (), u) \<and>
      runs_at m f frs (if as_int v \<noteq> 0 then resolve_target f t else pc + 5) st ls u"
    by (auto simp: runs_jump sx_apply add.commute)
qed simp


lemma runs_fetch_u8:
  assumes "runs_at m f frs pc st ls s" "code_at (fn_code f) pc (x # rest)"
  shows "fetch_u8 (fn_code f) s = (Inr x, set_top_pc (pc + 1) s)"
  using assms(2) vm_at_top_pc [OF runs_at_vm_at [OF assms(1)]] by (simp add: fetch_u8_def code_at_Cons)

lemma assert_op:
  assumes s: "runs_at m f frs (Suc pc) (v # st) ls s"
    and c: "code_at (fn_code f) pc (OP_ASSERT # x # u32_le t)"
  shows "exec_op m f Opcode.Assert s =
    (if (as_int v \<noteq> 0) = (x \<noteq> 0) then (Inr (), (set_top_pc (resolve_target f t) s)\<lparr>vm_stack := st\<rparr>)
     else (Inl (Fault AssertionFailed), (set_top_pc (pc + 6) s)\<lparr>vm_stack := st\<rparr>))"
proof -
  have "code_at (fn_code f) (Suc pc) (x # u32_le t)" "code_at (fn_code f) (Suc pc + 1) (u32_le t)"
    using c by (simp_all add: code_at_Cons)
  note f8 = runs_fetch_u8 [OF s this(1)] and f32 = runs_fetch_u32 [OF runs_at_set_pc [OF s] this(2)]
  note p = runs_pop [OF runs_at_set_pc [OF s, of "Suc pc + 1 + 4"]]
  show ?thesis using f8 f32 p by (simp add: runs_jump sx_apply add.commute)
qed

lemma leads1_assert:
  assumes c: "code_at (fn_code f) pc (OP_ASSERT # x # u32_le t)" and v: "(as_int v \<noteq> 0) = (x \<noteq> 0)"
  shows "leads1 m (runs_at m f frs pc (v # st) ls) (runs_at m f frs (resolve_target f t) st ls)"
proof (rule leads1_op [OF c [unfolded emitter_opcodes]])
  fix s assume s: "runs_at m f frs (Suc pc) (v # st) ls s"
  show "\<exists>u. exec_op m f Opcode.Assert s = (Inr (), u) \<and> runs_at m f frs (resolve_target f t) st ls u"
    using assert_op [OF s c] v runs_at_upd [OF runs_at_set_pc [OF s]] by simp
qed simp

lemma stops_assert:
  assumes c: "code_at (fn_code f) pc (OP_ASSERT # x # u32_le t)" and v: "(as_int v \<noteq> 0) \<noteq> (x \<noteq> 0)"
  shows "stops m (runs_at m f frs pc (v # st) ls) (Inl (Fault AssertionFailed))"
proof (rule stops_op [OF c [unfolded emitter_opcodes]])
  fix s assume s: "runs_at m f frs (Suc pc) (v # st) ls s"
  show "\<exists>u. exec_op m f Opcode.Assert s = (Inl (Fault AssertionFailed), u)"
    using assert_op [OF s c] v by auto
qed simp

lemma stops_trap:
  assumes c: "code_at (fn_code f) pc [OP_TRAP]"
  shows "stops m (runs_at m f frs pc st ls) (Inl (Fault AbnormalTermination))"
  by (rule stops_op [OF c [unfolded emitter_opcodes]]) (simp_all add: sx_apply)

lemma stops_return:
  assumes c: "code_at (fn_code f) pc [OP_RETURN]"
  shows "stops m (runs_at m f [] pc st ls) (Inr (case st of [] \<Rightarrow> Value.Int 0 | v # _ \<Rightarrow> v))"
  unfolding stops_def
proof (intro allI impI)
  fix s assume s: "runs_at m f [] pc st ls s"
  with c have "\<exists>t. vm_step m s = (Inr (Some (case st of [] \<Rightarrow> Value.Int 0 | v # _ \<Rightarrow> v)), t)"
    by (auto simp: runs_at_def vm_step_def code_at_Cons emitter_opcodes exec_return_def vm_pop_def
        set_top_pc_def split: list.splits)
  then show "\<exists>t. drive m s = Some (Inr (case st of [] \<Rightarrow> Value.Int 0 | v # _ \<Rightarrow> v), t)"
    by (blast intro: drive_done)
qed

text \<open>The arms of \<open>SWITCH_INT\<close>: the last arm equal to the discriminant wins.\<close>

lemma runs_switch_arms:
  assumes "runs_at m f frs pc st ls s" "code_at (fn_code f) pc (switch_arm_bytes bs)"
  shows "switch_arms (fn_code f) (length bs) d taken s =
    (Inr (foldl (\<lambda>r (v, t). if ucast v = d then Some t else r) taken bs),
     if bs = [] then s else set_top_pc (pc + 12 * length bs) s)"
  using assms
proof (induction bs arbitrary: pc s taken)
  case Nil
  then show ?case by (simp add: sx_apply)
next
  case (Cons b bs)
  obtain v t where b: "b = (v, t)" by fastforce
  have c: "code_at (fn_code f) pc (i64_le (ucast v))" "code_at (fn_code f) (pc + 8) (u32_le t)"
    "code_at (fn_code f) (pc + 8 + 4) (switch_arm_bytes bs)"
    using Cons.prems(2) by (simp_all add: b code_at_append add.assoc)
  note f1 = runs_fetch_i64 [OF Cons.prems(1) c(1)]
  note f2 = runs_fetch_u32 [OF runs_at_set_pc [OF Cons.prems(1)] c(2)]
  from Cons.IH [OF runs_at_set_pc [OF Cons.prems(1)] c(3)] f1 f2
  show ?case by (simp add: b sx_bind_apply ac_simps)
qed

lemma switch_last_is_first:
  fixes d :: i64
  assumes "distinct (map (\<lambda>(v, _). ucast v :: i64) bs)"
  shows "foldl (\<lambda>r (v, t). if ucast v = d then Some t else r) taken bs
    = (case List.find (\<lambda>(v, _). ucast v = d) bs of Some (_, t) \<Rightarrow> Some t | None \<Rightarrow> taken)"
  using assms
proof (induction bs arbitrary: taken)
  case Nil
  then show ?case by simp
next
  case (Cons b bs)
  obtain v t where b: "b = (v, t)" by fastforce
  show ?case
  proof (cases "ucast v = d")
    case True
    with Cons.prems b have "List.find (\<lambda>(v, _). ucast v = d) bs = None"
      by (force simp: find_None_iff)
    with Cons b True show ?thesis by simp
  next
    case False
    with Cons b show ?thesis by simp
  qed
qed

lemma leads1_switch:
  assumes c: "code_at (fn_code f) pc (OP_SWITCH_INT # u32_le (of_nat (length (sw_branches ts)))
      @ switch_arm_bytes (sw_branches ts) @ u32_le (sw_otherwise ts))"
    and k: "scalar_switch k ty ts"
  shows "leads1 m (runs_at m f frs pc (v # st) ls)
    (runs_at m f frs (resolve_target f (switch_target ts (as_int v))) st ls)"
proof (rule leads1_op [OF c [unfolded emitter_opcodes]])
  fix s assume s: "runs_at m f frs (Suc pc) (v # st) ls s"
  let ?bs = "sw_branches ts"
  have len: "unat (of_nat (length ?bs) :: u32) = length ?bs"
    using k by (simp add: scalar_switch_def unat_of_nat)
  have lb: "length (switch_arm_bytes bs) = 12 * length bs" for bs
    by (induction bs rule: switch_arm_bytes.induct) auto
  have cs: "code_at (fn_code f) (Suc pc) (u32_le (of_nat (length ?bs)))"
    "code_at (fn_code f) (Suc pc + 4) (switch_arm_bytes ?bs)"
    "code_at (fn_code f) (Suc pc + 4 + 12 * length ?bs) (u32_le (sw_otherwise ts))"
    using c by (simp_all add: code_at_Cons code_at_append lb)
  let ?s = "s\<lparr>vm_stack := st\<rparr>"
  let ?p = "Suc pc + 4 + 12 * length ?bs"
  have s0: "runs_at m f frs (Suc pc) st ls ?s" using s by (rule runs_at_upd)
  note p = runs_pop [OF s] and f1 = runs_fetch_u32 [OF s0 cs(1)]
  have s1: "runs_at m f frs (Suc pc + 4) st ls (set_top_pc (Suc pc + 4) ?s)" using s0 by (rule runs_at_set_pc)
  have e: "(if ?bs = [] then set_top_pc (Suc pc + 4) ?s
      else set_top_pc ?p (set_top_pc (Suc pc + 4) ?s)) = set_top_pc ?p ?s" by simp
  note f2 = runs_switch_arms [OF s1 cs(2), of "as_int v" None, unfolded e]
  have s2: "runs_at m f frs ?p st ls (set_top_pc ?p ?s)" using s0 by (rule runs_at_set_pc)
  note f3 = runs_fetch_u32 [OF s2 cs(3)]
  have t: "(case foldl (\<lambda>r (v, t). if ucast v = d then Some t else r) None ?bs of
      Some t \<Rightarrow> t | None \<Rightarrow> sw_otherwise ts) = switch_target ts d" for d
    using switch_last_is_first [of ?bs d None] k
    by (simp add: scalar_switch_def switch_target_def split: option.split prod.split)
  show "\<exists>u. exec_op m f Opcode.SwitchInt s = (Inr (), u) \<and>
      runs_at m f frs (resolve_target f (switch_target ts (as_int v))) st ls u"
    using p f1 f2 f3 t [of "as_int v"] runs_at_set_pc [OF s0] len by (simp add: runs_jump sx_apply)
qed simp


section \<open>Operands, rvalues, statements\<close>

lemma leads_operand:
  assumes "scalar_operand (length ls) o'" "code_at (fn_code f) pc (operand_code o')"
  shows "leads m (runs_at m f frs pc st ls)
    (runs_at m f frs (pc + length (operand_code o')) (operand_value ls o' # st) ls)"
  using assms by (cases o') (auto dest: leads_load_local leads_load_const)

fun binop_op :: "BinOp \<Rightarrow> Opcode" where
  "binop_op BinOp.Add = Opcode.Add"
| "binop_op BinOp.Sub = Opcode.Sub"
| "binop_op BinOp.Mul = Opcode.Mul"
| "binop_op BinOp.Div = Opcode.Div"
| "binop_op BinOp.Rem = Opcode.Rem"
| "binop_op BinOp.Eq = Opcode.Eq"
| "binop_op BinOp.Ne = Opcode.Ne"
| "binop_op BinOp.Lt = Opcode.Lt"
| "binop_op BinOp.Gt = Opcode.Gt"
| "binop_op BinOp.LtEq = Opcode.Le"
| "binop_op BinOp.GtEq = Opcode.Ge"
| "binop_op BinOp.And = Opcode.And"
| "binop_op BinOp.Or = Opcode.Or"
| "binop_op BinOp.BitAnd = Opcode.BitAnd"
| "binop_op BinOp.BitOr = Opcode.BitOr"
| "binop_op BinOp.BitXor = Opcode.BitXor"
| "binop_op BinOp.Shl = Opcode.Shl"
| "binop_op BinOp.Shr = Opcode.Shr"

lemma shift_amount_mod: "shift_amount b = unat b mod 64"
proof -
  have "unat (ucast b :: u32) = unat b mod 2 ^ 32" by (simp add: unsigned_ucast_eq take_bit_eq_mod)
  then show ?thesis by (simp add: shift_amount_def mod_mod_cancel)
qed

lemma binop_opcode_byte: "binop_opcode op = opcode_byte (binop_op op)"
  by (cases op) (simp_all add: emitter_opcodes)

lemma is_binop_op: "is_binop (binop_op op)"
  by (cases op) (simp_all add: is_binop_def)

lemma vm_binop_op: "vm_binop (binop_op op) a b = trap_none (mir_binop op a b)"
  by (cases op) (simp_all add: trap_none_def shift_amount_mod)

lemma leads_rvalue:
  assumes "scalar_rvalue (length ls) rv" "code_at (fn_code f) pc (rvalue_code rv)"
  shows "case mir_rvalue ls rv of
      Some v \<Rightarrow> leads m (runs_at m f frs pc st ls) (runs_at m f frs (pc + length (rvalue_code rv)) (v # st) ls)
    | None \<Rightarrow> stops m (runs_at m f frs pc st ls) (Inl (Fault AbnormalTermination))"
  using assms
proof (cases rv)
  case (Use o')
  with assms leads_operand show ?thesis by simp
next
  case (BinaryOp op l r)
  let ?p1 = "pc + length (operand_code l)"
  let ?p2 = "?p1 + length (operand_code r)"
  have c: "code_at (fn_code f) pc (operand_code l)" "code_at (fn_code f) ?p1 (operand_code r)"
    "code_at (fn_code f) ?p2 [opcode_byte (binop_op op)]"
    using assms(2) BinaryOp by (simp_all add: code_at_append binop_opcode_byte add.assoc)
  have o: "scalar_operand (length ls) l" "scalar_operand (length ls) r" using assms(1) BinaryOp by simp_all
  note l = leads_trans [OF leads_operand [OF o(1) c(1)] leads_operand [OF o(2) c(2)], of m frs st]
  show ?thesis
  proof (cases "mir_binop op (as_int (operand_value ls l)) (as_int (operand_value ls r))")
    case None
    then have "vm_binop (binop_op op) (as_int (operand_value ls l)) (as_int (operand_value ls r))
        = Inl (Fault AbnormalTermination)" by (simp add: vm_binop_op)
    from leads_stops [OF l stops_binop [OF c(3) is_binop_op this]] None BinaryOp show ?thesis by simp
  next
    case (Some v)
    then have "vm_binop (binop_op op) (as_int (operand_value ls l)) (as_int (operand_value ls r)) = Inr v"
      by (simp add: vm_binop_op)
    from leads_trans [OF l leads_binop [OF c(3) is_binop_op this]] Some BinaryOp
    show ?thesis by (simp add: add.assoc)
  qed
next
  case (UnaryOp op o')
  let ?p = "pc + length (operand_code o')"
  from UnaryOp assms obtain vop where vop: "unop_opcode op = opcode_byte vop" "vop = Opcode.Not \<or> vop = Opcode.Neg"
    and v: "map_option Value.Int (case vm_unop vop (as_int (operand_value ls o')) of Inr x \<Rightarrow> Some x | Inl _ \<Rightarrow> None)
      = mir_rvalue ls rv" "\<exists>r. vm_unop vop (as_int (operand_value ls o')) = Inr r"
    by (cases op) (auto simp: emitter_opcodes)
  have c: "code_at (fn_code f) pc (operand_code o')" "code_at (fn_code f) ?p [opcode_byte vop]"
    and o: "scalar_operand (length ls) o'"
    using assms UnaryOp by (simp_all add: code_at_append vop)
  from v(2) obtain r where r: "vm_unop vop (as_int (operand_value ls o')) = Inr r" by blast
  from leads_trans [OF leads_operand [OF o c(1)] leads_unop [OF c(2) vop(2) r], of m frs st] v(1) r UnaryOp
  show ?thesis by (auto simp: add.assoc split: option.split)
qed auto

lemma leads_stmt:
  assumes "scalar_stmt (length ls) k" "code_at (fn_code f) pc (stmt_code k)"
  shows "case mir_stmt k ls of
      Some ls' \<Rightarrow> length ls' = length ls \<and>
        leads m (runs_at m f frs pc st ls) (runs_at m f frs (pc + length (stmt_code k)) st ls')
    | None \<Rightarrow> stops m (runs_at m f frs pc st ls) (Inl (Fault AbnormalTermination))"
proof (cases k)
  case (Assign p rv)
  let ?p = "pc + length (rvalue_code rv)"
  have c: "code_at (fn_code f) pc (rvalue_code rv)" "code_at (fn_code f) ?p (OP_STORE_LOCAL # u32_le (pl_local p))"
    and o: "scalar_rvalue (length ls) rv" "unat (pl_local p) < length ls"
    using assms Assign by (simp_all add: code_at_append)
  note rv = leads_rvalue [OF o(1) c(1), of m frs st]
  show ?thesis
  proof (cases "mir_rvalue ls rv")
    case None
    with rv Assign show ?thesis by simp
  next
    case (Some v)
    from leads_trans [OF _ leads_store_local [OF c(2) o(2)]] rv Some Assign
    show ?thesis by (simp add: add.assoc)
  qed
qed (simp_all add: leads_refl)

lemma leads_stmts:
  assumes "\<forall>s \<in> set ss. scalar_stmt (length ls) (st_kind s)" "code_at (fn_code f) pc (stmts_code ss)"
  shows "case mir_stmts ss ls of
      Some ls' \<Rightarrow> length ls' = length ls \<and>
        leads m (runs_at m f frs pc st ls) (runs_at m f frs (pc + length (stmts_code ss)) st ls')
    | None \<Rightarrow> stops m (runs_at m f frs pc st ls) (Inl (Fault AbnormalTermination))"
  using assms
proof (induction ss arbitrary: pc ls)
  case Nil
  then show ?case by (simp add: stmts_code_def leads_refl)
next
  case (Cons s ss)
  let ?p = "pc + length (stmt_code (st_kind s))"
  have c: "code_at (fn_code f) pc (stmt_code (st_kind s))" "code_at (fn_code f) ?p (stmts_code ss)"
    using Cons.prems(2) by (simp_all add: stmts_code_def code_at_append)
  have "scalar_stmt (length ls) (st_kind s)" using Cons.prems(1) by simp
  note h = leads_stmt [OF this c(1), of m frs st]
  show ?case
  proof (cases "mir_stmt (st_kind s) ls")
    case None
    with h show ?thesis by simp
  next
    case (Some ls1)
    with h Cons.prems(1) have "\<forall>s \<in> set ss. scalar_stmt (length ls1) (st_kind s)" by simp
    from Cons.IH [OF this c(2)] h Some show ?thesis
      by (auto simp: stmts_code_def add.assoc split: option.splits intro: leads_trans leads_stops)
  qed
qed

section \<open>Terminators\<close>

lemma switch_target_in:
  "scalar_switch k ty ts \<Longrightarrow> unat (switch_target ts d) < k"
  by (auto simp: switch_target_def scalar_switch_def find_Some_iff split: option.split dest!: nth_mem)

lemma switch_target_bool:
  assumes "scalar_switch k Ty_BOOL ts"
  shows "switch_target ts (i64_of_bool b) = (if b then true_target ts else sw_otherwise ts)"
proof -
  have small: "ucast v = d \<longleftrightarrow> v = ucast d" if "v < 2 ^ 64" for v :: u128 and d :: i64
  proof
    assume "ucast v = d"
    then have "ucast d = (ucast (ucast v :: i64) :: u128)" by simp
    moreover have "unat v < 2 ^ 64" using that by (simp add: word_less_nat_alt)
    ultimately show "v = ucast d"
      by (simp add: word_unat_eq_iff unsigned_ucast_eq unsigned_take_bit_eq take_bit_nat_eq_self)
  next
    assume "v = ucast d"
    moreover have "unat d < 2 ^ 64" using unsigned_less [of d, where 'a = nat] by simp
    ultimately show "ucast v = d"
      by (simp add: word_unat_eq_iff unsigned_ucast_eq take_bit_nat_eq_self)
  qed
  have "List.find (\<lambda>(v, _). ucast v = (1 :: i64)) (sw_branches ts) = List.find (\<lambda>(v, _). v = 1) (sw_branches ts)"
    using assms small [of _ 1] by (intro find_cong) (auto simp: scalar_switch_def)
  moreover have "List.find (\<lambda>(v, _). ucast v = (0 :: i64)) (sw_branches ts) = None"
    using assms small [of _ 0] by (auto simp: find_None_iff scalar_switch_def)
  ultimately show ?thesis by (simp add: switch_target_def true_target_def)
qed

lemma leads_terminator:
  assumes t: "scalar_term (length ls) k lts t" and c: "code_at (fn_code f) pc (term_code lts t)"
    and n: "length ls = length lts"
  shows "case mir_terminator lts t ls of
      ToBlock b \<Rightarrow> unat b < k \<and> leads1 m (runs_at m f [] pc [] ls) (runs_at m f [] (resolve_target f b) [] ls)
    | Returned v \<Rightarrow> stops m (runs_at m f [] pc [] ls) (Inr v)
    | Trapped e \<Rightarrow> stops m (runs_at m f [] pc [] ls) (Inl (Fault e))"
proof (cases t)
  case (Goto b)
  with t c leads1_jump show ?thesis by simp
next
  case (SwitchInt d ty ts)
  let ?p = "pc + length (operand_code d)"
  let ?v = "operand_value ls d"
  have o: "scalar_operand (length ls) d" and k: "scalar_switch k ty ts"
    and cd: "code_at (fn_code f) pc (operand_code d)"
    using t c SwitchInt by (simp_all add: code_at_append)
  note d = leads_operand [OF o cd, of m "[]" "[]"]
  show ?thesis
  proof (cases "ty = Ty_BOOL")
    case True
    have cj: "code_at (fn_code f) ?p (OP_JUMP_IF # u32_le (true_target ts))"
      "code_at (fn_code f) (?p + 5) (OP_JUMP # u32_le (sw_otherwise ts))"
      using c SwitchInt True by (simp_all add: code_at_append code_at_Cons ac_simps)
    note j = leads_leads1_trans [OF d leads1_jump_if [OF cj(1)]]
    have "leads1 m (runs_at m f [] pc [] ls) (runs_at m f []
        (resolve_target f (if as_int ?v \<noteq> 0 then true_target ts else sw_otherwise ts)) [] ls)"
      using j leads1_leads_trans [OF j leads1_leads] leads1_jump [OF cj(2), of m "[]" "[]"] by (cases "as_int ?v = 0") auto
    moreover have "switch_target ts (i64_of_bool x) = (if x then true_target ts else sw_otherwise ts)" for x
      using k True switch_target_bool by simp
    moreover have "unat (if x then true_target ts else sw_otherwise ts) < k" for x
      using calculation(2) switch_target_in [OF k, of "i64_of_bool x"] by simp
    ultimately show ?thesis using True SwitchInt by (simp add: Let_def)
  next
    case False
    then have "code_at (fn_code f) ?p (OP_SWITCH_INT # u32_le (of_nat (length (sw_branches ts)))
        @ switch_arm_bytes (sw_branches ts) @ u32_le (sw_otherwise ts))"
      using c SwitchInt by (simp add: code_at_append)
    from leads_leads1_trans [OF d leads1_switch [OF this k]] False SwitchInt switch_target_in [OF k]
    show ?thesis by (simp add: Let_def)
  qed
next
  case Return
  show ?thesis
  proof (cases "local0_ty lts = Ty_UNIT")
    case True
    with Return c stops_return [of f pc m "[]" ls] show ?thesis by simp
  next
    case False
    then have "0 < length ls" using n by (auto simp: local0_ty_def split: list.splits)
    have cr: "code_at (fn_code f) pc (OP_LOAD_LOCAL # u32_le 0)" "code_at (fn_code f) (pc + 5) [OP_RETURN]"
      using Return c False by (simp_all add: code_at_append code_at_Cons ac_simps)
    have z: "unat (0 :: u32) < length ls" using \<open>0 < length ls\<close> by simp
    from leads_stops [OF leads_load_local [OF cr(1) z] stops_return [OF cr(2)]] Return False
    show ?thesis by simp
  qed
next
  case Unreachable
  with c stops_trap show ?thesis by simp
next
  case (Assert d expected b cl msg)
  let ?p = "pc + length (operand_code d)"
  have o: "scalar_operand (length ls) d" and cd: "code_at (fn_code f) pc (operand_code d)"
    and ca: "code_at (fn_code f) ?p (OP_ASSERT # (if expected then 1 else 0) # u32_le b)"
    using t c Assert by (simp_all add: code_at_append)
  note d = leads_operand [OF o cd, of m "[]" "[]"]
  have x: "((if expected then 1 else 0 :: u8) \<noteq> 0) = expected" by simp
  show ?thesis
    using leads_leads1_trans [OF d leads1_assert [OF ca]] leads_stops [OF d stops_assert [OF ca]] t Assert
    unfolding x by simp
qed (use t in auto)


section \<open>Whole bodies\<close>

lemma stops_block:
  assumes blocks: "\<forall>i < length (b_blocks body).
      code_at (fn_code f) (offs ! i) (block_code (b_locals body) (b_blocks body ! i))"
    and f: "fn_block_offsets f = offs" "length offs = length (b_blocks body)"
    and sc: "scalar_body body"
    and bb: "unat bb < length (b_blocks body)" and ls: "length ls = length (b_locals body)"
    and run: "mir_run body fuel bb ls = Some r"
  shows "stops m (runs_at m f [] (offs ! unat bb) [] ls) (map_sum Fault id r)"
  using bb ls run
proof (induction fuel arbitrary: bb ls)
  case 0
  then show ?case by simp
next
  case (Suc fuel)
  let ?block = "b_blocks body ! unat bb"
  let ?t = "te_kind (bb_terminator ?block)"
  let ?pc = "offs ! unat bb"
  let ?q = "?pc + length (stmts_code (bb_statements ?block))"
  have sb: "scalar_block (length ls) (length (b_blocks body)) (b_locals body) ?block"
    using sc Suc.prems by (simp add: scalar_body_def)
  have c: "code_at (fn_code f) ?pc (stmts_code (bb_statements ?block))"
    "code_at (fn_code f) ?q (term_code (b_locals body) ?t)"
    using blocks Suc.prems(1) by (simp_all add: block_code_def code_at_append)
  have ss: "\<forall>s \<in> set (bb_statements ?block). scalar_stmt (length ls) (st_kind s)"
    and st: "scalar_term (length ls) (length (b_blocks body)) (b_locals body) ?t"
    using sb by (simp_all add: scalar_block_def)
  note h = leads_stmts [OF ss c(1), of m "[]" "[]"]
  show ?case
  proof (cases "mir_stmts (bb_statements ?block) ls")
    case None
    with Suc.prems(3) h show ?thesis by auto
  next
    case (Some ls')
    with h have ls': "length ls' = length ls"
      and h': "leads m (runs_at m f [] ?pc [] ls) (runs_at m f [] ?q [] ls')" by simp_all
    have st': "scalar_term (length ls') (length (b_blocks body)) (b_locals body) ?t" using st ls' by simp
    have "length ls' = length (b_locals body)" using ls' Suc.prems(2) by simp
    note t = leads_terminator [OF st' c(2) this, of m]
    show ?thesis
    proof (cases "mir_terminator (b_locals body) ?t ls'")
      case (ToBlock b)
      with t have b: "unat b < length (b_blocks body)"
        and l: "leads1 m (runs_at m f [] ?q [] ls') (runs_at m f [] (resolve_target f b) [] ls')"
        by simp_all
      have "resolve_target f b = offs ! unat b" using b f by (auto simp: resolve_target_def)
      moreover have "mir_run body fuel b ls' = Some r" using Suc.prems(3) Some ToBlock by (simp add: Let_def)
      ultimately have "stops m (runs_at m f [] (resolve_target f b) [] ls') (map_sum Fault id r)"
        using Suc.IH [OF b, of ls'] ls' Suc.prems(2) by metis
      then show ?thesis by (rule leads_stops [OF leads_trans [OF h' leads1_leads [OF l]]])
    next
      case (Returned v)
      with t have "stops m (runs_at m f [] ?q [] ls') (Inr v)" by simp
      with leads_stops [OF h'] Suc.prems(3) Some Returned show ?thesis by (auto simp: Let_def)
    next
      case (Trapped e)
      with t have "stops m (runs_at m f [] ?q [] ls') (Inl (Fault e))" by simp
      with leads_stops [OF h'] Suc.prems(3) Some Trapped show ?thesis by (auto simp: Let_def)
    qed
  qed
qed

text \<open>What the emitter returns on a scalar body at \<open>O0\<close>.\<close>

lemma generate_scalar:
  assumes "scalar_body body" "bk_opt_level b = O0"
  shows "\<exists>code offs t. generate_function_with_blocks b body s = (Inr (code, offs), t) \<and>
    length offs = length (b_blocks body) \<and> hd offs = 0 \<and>
    (\<forall>i < length (b_blocks body).
       code_at code (offs ! i) (block_code (b_locals body) (b_blocks body ! i)))"
proof -
  let ?s = "s\<lparr>em_bc := [], em_const_is_int := []\<rparr>"
  obtain offs t where "emit_blocks b (b_locals body) (b_blocks body) ?s = (Inr offs, t)"
    "length offs = length (b_blocks body)" "hd offs = 0"
    "\<forall>i < length (b_blocks body). code_at (em_bc t) (offs ! i) (block_code (b_locals body) (b_blocks body ! i))"
    using emits_blocks [of "b_blocks body" "length (b_locals body)" "length (b_blocks body)" "b_locals body" b ?s]
      assms(1)
    by (auto simp: scalar_body_def)
  then show ?thesis using assms(2)
    by (simp add: generate_function_with_blocks_def sx_bind_apply sx_apply)
qed

lemma module_run_scalar:
  assumes "scalar_body body" "bk_opt_level b = O0"
  obtains code offs t u where "generate_function_with_blocks b body s = (Inr (code, offs), t)"
    and "length offs = length (b_blocks body)" and "offs ! 0 = 0"
    and "\<forall>i < length (b_blocks body). code_at code (offs ! i) (block_code (b_locals body) (b_blocks body ! i))"
    and "\<And>f m. f = Function_with_blocks code (length (b_locals body)) 0 offs \<Longrightarrow>
      m = \<lparr>m_functions = [f], m_entry = 0\<rparr> \<Longrightarrow>
      Module_run m = map_option fst (drive m u) \<and>
      runs_at m f [] 0 [] (replicate (length (b_locals body)) (Value.Int 0)) u"
proof -
  obtain code offs t where g: "generate_function_with_blocks b body s = (Inr (code, offs), t)"
    "length offs = length (b_blocks body)" "hd offs = 0"
    "\<forall>i < length (b_blocks body). code_at code (offs ! i) (block_code (b_locals body) (b_blocks body ! i))"
    using generate_scalar [OF assms(1,2)] by blast
  have "offs ! 0 = 0"
    using g(2,3) assms(1) by (metis hd_conv_nth length_0_conv scalar_body_def)
  moreover have "Module_run m = map_option fst (drive m u) \<and>
      runs_at m f [] 0 [] (replicate (length (b_locals body)) (Value.Int 0)) u"
    if "f = Function_with_blocks code (length (b_locals body)) 0 offs" "m = \<lparr>m_functions = [f], m_entry = 0\<rparr>"
      and "u = snd (push_frame m 0 [] u32_max usize_max Vm_new)" for f m u
    using that
    by (simp add: Module_run_def run_module_def push_frame_def runs_at_def Vm_new_def MAX_CALL_DEPTH_def
        Let_def function_at_def Function_with_blocks_def)
  ultimately show thesis
    using g(1,2,4) by (intro that) auto
qed

lemma emitted_code_runs:
  assumes "scalar_body body" and "bk_opt_level b = O0"
    and "mir_run body fuel 0 (replicate (length (b_locals body)) (Value.Int 0)) = Some r"
  shows "\<exists>code offs t. generate_function_with_blocks b body s = (Inr (code, offs), t) \<and>
    Module_run \<lparr>m_functions = [Function_with_blocks code (length (b_locals body)) 0 offs], m_entry = 0\<rparr>
      = Some (map_sum Fault id r)"
proof -
  let ?n = "length (b_locals body)"
  obtain code offs t u where g: "generate_function_with_blocks b body s = (Inr (code, offs), t)"
    "length offs = length (b_blocks body)" "offs ! 0 = 0"
    "\<forall>i < length (b_blocks body). code_at code (offs ! i) (block_code (b_locals body) (b_blocks body ! i))"
    and u: "\<And>f m. f = Function_with_blocks code ?n 0 offs \<Longrightarrow> m = \<lparr>m_functions = [f], m_entry = 0\<rparr> \<Longrightarrow>
      Module_run m = map_option fst (drive m u) \<and> runs_at m f [] 0 [] (replicate ?n (Value.Int 0)) u"
    by (rule module_run_scalar [OF assms(1,2), of s]) (rule that)
  let ?f = "Function_with_blocks code ?n 0 offs"
  let ?m = "\<lparr>m_functions = [?f], m_entry = 0\<rparr>"
  have "0 < length (b_blocks body)" using assms(1) by (simp add: scalar_body_def)
  then have "stops ?m (runs_at ?m ?f [] (offs ! unat (0 :: u32)) [] (replicate ?n (Value.Int 0))) (map_sum Fault id r)"
    by (intro stops_block [OF _ _ g(2) assms(1) _ _ assms(3)]) (use g(4) in \<open>simp_all add: Function_with_blocks_def\<close>)
  with u [OF refl refl] g(3) have "Module_run ?m = Some (map_sum Fault id r)"
    by (auto simp: stops_def)
  with g(1) show ?thesis by blast
qed


text \<open>A body that computes \<open>_1 = 6; _0 = _1 * 7\<close>, asserts \<open>_0 == 42\<close> in a second block and
  returns from a third.\<close>

definition demo_const :: "i128 \<Rightarrow> Operand" where
  "demo_const v = Constant (MirConst (MirConstKind.Int v) Ty_I64 Span_DUMMY)"

definition demo_stmt :: "LocalIdx \<Rightarrow> Rvalue \<Rightarrow> Statement" where
  "demo_stmt l rv = \<lparr>st_kind = Assign (Place_new l) rv, st_source_info = SourceInfo_new Span_DUMMY\<rparr>"

definition demo_block :: "Statement list \<Rightarrow> TerminatorKind \<Rightarrow> BasicBlockData" where
  "demo_block ss t = \<lparr>bb_statements = ss,
     bb_terminator = \<lparr>te_kind = t, te_source_info = SourceInfo_new Span_DUMMY\<rparr>, bb_is_cleanup = False\<rparr>"

definition demo_local :: "Ty \<Rightarrow> LocalDecl" where
  "demo_local t = \<lparr>ld_ty = t, ld_mutability = Mutability.Not, ld_source_info = SourceInfo_new Span_DUMMY\<rparr>"

definition demo_body :: "BasicBlockData list \<Rightarrow> Ty list \<Rightarrow> Body" where
  "demo_body bbs tys = \<lparr>b_owner = DefId_new 0 0, b_blocks = bbs, b_locals = map demo_local tys,
     b_arg_count = 0, b_return_ty = Ty_I64, b_span = Span_DUMMY, b_var_debug_info = []\<rparr>"

definition demo_backend :: Backend where
  "demo_backend = \<lparr>bk_field_offset = (\<lambda>_ _. 0), bk_size_of = (\<lambda>_. 0), bk_variant_type = (\<lambda>_ _. Ty_ERROR),
     bk_tag_offset = (\<lambda>_. 0), bk_ty_ctx = None, bk_name_str = (\<lambda>_. []), bk_layout_of = (\<lambda>_. None),
     bk_opt_level = O0\<rparr>"

definition product_body :: Body where
  "product_body = demo_body
     [demo_block [demo_stmt 1 (Use (demo_const 6)),
                  demo_stmt 0 (BinaryOp BinOp.Mul (Copy (Place_new 1)) (demo_const 7))] (Goto 1),
      demo_block [demo_stmt 2 (BinaryOp BinOp.Eq (Copy (Place_new 0)) (demo_const 42))]
        (TerminatorKind.Assert (Copy (Place_new 2)) True 2 None AssertMessage.BoundsCheck),
      demo_block [] TerminatorKind.Return]
     [Ty_I64, Ty_I64, Ty_BOOL]"

lemmas demo_simps = demo_const_def demo_stmt_def demo_block_def demo_local_def demo_body_def
  demo_backend_def Place_new_def


section \<open>Bodies that do not return\<close>

lemma drive_accp:
  assumes "drive m s = Some r"
  shows "Wellfounded.accp (\<lambda>t s. vm_next m s t) s"
proof (rule drive.raw_induct [where P = "\<lambda>m s rt. Wellfounded.accp (\<lambda>t s. vm_next m s t) s", OF _ assms])
  fix dr m s rt
  assume IH: "\<And>m s rt. dr m s = Some rt \<Longrightarrow> Wellfounded.accp (\<lambda>t s. vm_next m s t) s"
    and eq: "(case vm_step m s of
        (Inl e, s') \<Rightarrow> Some (Inl e, s')
      | (Inr r, s') \<Rightarrow> (case r of Some v \<Rightarrow> Some (Inr v, s') | None \<Rightarrow> dr m s')) = Some rt"
  show "Wellfounded.accp (\<lambda>t s. vm_next m s t) s"
  proof (rule accp.intros)
    fix t assume "vm_next m s t"
    then have "vm_step m s = (Inr None, t)" by (rule vm_nextE)
    with eq have "dr m t = Some rt" by simp
    then show "Wellfounded.accp (\<lambda>t s. vm_next m s t) t" by (rule IH)
  qed
qed

lemma leads1_loop_diverges:
  assumes "leads1 m P P" "P s"
  shows "drive m s = None"
proof (rule ccontr)
  assume "drive m s \<noteq> None"
  then have "Wellfounded.accp (\<lambda>t s. vm_next m s t) s" by (auto intro: drive_accp)
  then have "\<forall>t. vm_reaches m s t \<longrightarrow> \<not> P t"
  proof (induction rule: accp.induct)
    case (accI s)
    have "\<not> P s"
    proof
      assume "P s"
      with assms(1) obtain w where "(vm_next m)\<^sup>+\<^sup>+ s w" "P w" by (auto simp: leads1_def)
      then show False using accI.IH by (blast dest: tranclpD)
    qed
    with accI.IH show ?case by (metis converse_rtranclpE)
  qed
  with assms(2) show False by simp
qed

lemma diverging_block:
  assumes blocks: "\<forall>i < length (b_blocks body).
      code_at (fn_code f) (offs ! i) (block_code (b_locals body) (b_blocks body ! i))"
    and f: "fn_block_offsets f = offs" "length offs = length (b_blocks body)"
    and sc: "scalar_body body"
  shows "leads1 m
    (\<lambda>v. \<exists>bb ls. runs_at m f [] (offs ! unat bb) [] ls v \<and> unat bb < length (b_blocks body) \<and>
       length ls = length (b_locals body) \<and> (\<forall>fuel. mir_run body fuel bb ls = None))
    (\<lambda>v. \<exists>bb ls. runs_at m f [] (offs ! unat bb) [] ls v \<and> unat bb < length (b_blocks body) \<and>
       length ls = length (b_locals body) \<and> (\<forall>fuel. mir_run body fuel bb ls = None))"
  unfolding leads1_def
proof (intro allI impI, elim exE conjE)
  fix v bb ls
  assume v: "runs_at m f [] (offs ! unat bb) [] ls v" and bb: "unat bb < length (b_blocks body)"
    and ls: "length ls = length (b_locals body)" and div: "\<forall>fuel. mir_run body fuel bb ls = None"
  let ?block = "b_blocks body ! unat bb"
  let ?t = "te_kind (bb_terminator ?block)"
  let ?q = "offs ! unat bb + length (stmts_code (bb_statements ?block))"
  have sb: "scalar_block (length ls) (length (b_blocks body)) (b_locals body) ?block"
    using sc bb ls by (simp add: scalar_body_def)
  have c: "code_at (fn_code f) (offs ! unat bb) (stmts_code (bb_statements ?block))"
    "code_at (fn_code f) ?q (term_code (b_locals body) ?t)"
    using blocks bb by (simp_all add: block_code_def code_at_append)
  have once: "mir_run body (Suc n) bb ls = None" for n using div by blast
  then obtain ls' where ls': "mir_stmts (bb_statements ?block) ls = Some ls'"
    by (cases "mir_stmts (bb_statements ?block) ls") (auto simp: Let_def)
  obtain b where b: "mir_terminator (b_locals body) ?t ls' = ToBlock b" and d: "\<forall>fuel. mir_run body fuel b ls' = None"
    using once ls' by (cases "mir_terminator (b_locals body) ?t ls'") (auto simp: Let_def)
  from leads_stmts [of "bb_statements ?block" ls f "offs ! unat bb" m "[]" "[]"] sb c(1) ls'
  have l': "length ls' = length ls" and h: "leads m (runs_at m f [] (offs ! unat bb) [] ls) (runs_at m f [] ?q [] ls')"
    by (simp_all add: scalar_block_def)
  from leads_terminator [of ls' "length (b_blocks body)" "b_locals body" ?t f ?q m] sb c(2) l' ls b
  have k: "unat b < length (b_blocks body)"
    and t: "leads1 m (runs_at m f [] ?q [] ls') (runs_at m f [] (resolve_target f b) [] ls')"
    by (simp_all add: scalar_block_def)
  have "resolve_target f b = offs ! unat b" using k f by (auto simp: resolve_target_def)
  with leads_leads1_trans [OF h t] v obtain w where
    w: "(vm_next m)\<^sup>+\<^sup>+ v w" "runs_at m f [] (offs ! unat b) [] ls' w"
    by (auto simp: leads1_def)
  then show "\<exists>w. (vm_next m)\<^sup>+\<^sup>+ v w \<and> (\<exists>bb ls. runs_at m f [] (offs ! unat bb) [] ls w \<and>
      unat bb < length (b_blocks body) \<and> length ls = length (b_locals body) \<and>
      (\<forall>fuel. mir_run body fuel bb ls = None))"
    using k l' ls d by metis
qed


text \<open>The witness: the body whose only block jumps to itself.\<close>

lemma mir_loop_None: "mir_run (demo_body [demo_block [] (Goto 0)] []) fuel 0 [] = None"
  by (induction fuel) (simp_all add: demo_simps)


end
