(* ===== verification/Emit_Props.thy ===== *)
theory Emit_Props
  imports Emit_Correct
begin

text \<open>
  What the emitter keeps on every body, scalar or not: the byte buffer only grows, so recorded
  block offsets stay valid; the two interners hand out one stable index per entry (locale
  \<open>interner\<close>).  And where the emitted code and the machine disagree: aggregates, nested
  fields, the bounds check of zero-sized elements.
\<close>

section \<open>Interners\<close>

text \<open>
  \<open>good\<close>: the invariant of the table; \<open>room\<close>: its \<open>u32\<close> counter will not wrap; \<open>lookup\<close>:
  the entry of an index.
\<close>

locale interner =
  fixes good :: "Emit \<Rightarrow> bool"
    and room :: "Emit \<Rightarrow> bool"
    and intern :: "'a \<Rightarrow> u32 emitx"
    and lookup :: "Emit \<Rightarrow> u32 \<Rightarrow> 'a option"
  assumes total: "\<exists>i t. intern x s = (Inr i, t)"
    and good_intern: "good s \<Longrightarrow> room s \<Longrightarrow> intern x s = (Inr i, t) \<Longrightarrow> good t"
    and lookup_new: "good s \<Longrightarrow> room s \<Longrightarrow> intern x s = (Inr i, t) \<Longrightarrow> lookup t i = Some x"
    and lookup_old: "good s \<Longrightarrow> room s \<Longrightarrow> intern x s = (Inr i, t) \<Longrightarrow> lookup s j = Some y \<Longrightarrow>
      lookup t j = Some y"
    and inj: "good s \<Longrightarrow> lookup s i = Some x \<Longrightarrow> lookup s j = Some x \<Longrightarrow> i = j"
begin

lemma intern_same_iff:
  assumes "good s" "room s" "intern x s = (Inr i, t)" "room t" "intern y t = (Inr j, u)"
  shows "i = j \<longleftrightarrow> x = y"
proof -
  have g: "good t" using assms good_intern by blast
  have i: "lookup u i = Some x" using g assms lookup_new lookup_old by blast
  have j: "lookup u j = Some y" using g assms lookup_new by blast
  have "good u" using g assms good_intern by blast
  with i j inj show ?thesis by fastforce
qed

end

definition strings_good :: "Emit \<Rightarrow> bool" where
  "strings_good s \<longleftrightarrow>
     (\<forall>str i. em_string_index s str = Some i \<longleftrightarrow>
        unat i < length (em_string_table s) \<and> em_string_table s ! unat i = str)"

definition string_at :: "Emit \<Rightarrow> u32 \<Rightarrow> string option" where
  "string_at s i = slice_get (em_string_table s) (unat i)"

lemma u32_new_index:
  "n < 2 ^ 32 \<Longrightarrow> unat (of_nat n :: u32) = n"
  by (simp add: unat_of_nat)

lemma u32_less_Suc: "n < 2 ^ 32 \<Longrightarrow> unat (i :: u32) < Suc n \<longleftrightarrow> unat i < n \<or> i = of_nat n"
  using u32_new_index [of n] by (auto simp: less_Suc_eq)

lemma strings_good_intern:
  assumes good: "strings_good s" and room: "length (em_string_table s) < 2 ^ 32"
    and intern: "intern_string x s = (Inr i, t)"
  shows "strings_good t"
proof (cases "em_string_index s x")
  case (Some k)
  with intern good show ?thesis by (simp add: intern_string_def)
next
  case None
  let ?n = "length (em_string_table s)"
  have t: "em_string_table t = em_string_table s @ [x]"
    "em_string_index t = (em_string_index s)(x \<mapsto> of_nat ?n)"
    using intern None by (auto simp: intern_string_def Let_def)
  have new: "em_string_table s ! unat j \<noteq> x" if "unat j < ?n" for j :: u32
  proof -
    have "em_string_index s (em_string_table s ! unat j) = Some j"
      using good that by (simp add: strings_good_def)
    with None show ?thesis by auto
  qed
  show ?thesis
    unfolding strings_good_def t
  proof (intro allI)
    fix str and j :: u32
    show "((em_string_index s)(x \<mapsto> of_nat ?n)) str = Some j \<longleftrightarrow>
        unat j < length (em_string_table s @ [x]) \<and> (em_string_table s @ [x]) ! unat j = str"
    proof (cases "unat j < ?n")
      case True
      with u32_new_index [OF room] have "j \<noteq> of_nat ?n" by auto
      with True new [OF True] good show ?thesis
        by (auto simp: nth_append strings_good_def)
    next
      case False
      have "em_string_index s str \<noteq> Some j" using good False by (auto simp: strings_good_def)
      with False u32_less_Suc [OF room, of j] u32_new_index [OF room] show ?thesis
        by (auto simp: nth_append)
    qed
  qed
qed

interpretation strings: interner strings_good "\<lambda>s. length (em_string_table s) < 2 ^ 32" intern_string string_at
proof
  fix x s show "\<exists>i t. intern_string x s = (Inr i, t)"
    by (auto simp: intern_string_def Let_def split: option.split)
next
  fix s x i t
  assume "strings_good s" "length (em_string_table s) < 2 ^ 32" "intern_string x s = (Inr i, t)"
  then show "strings_good t" by (rule strings_good_intern)
next
  fix s x i t
  assume "strings_good s" "length (em_string_table s) < 2 ^ 32" "intern_string x s = (Inr i, t)"
  then show "string_at t i = Some x"
    by (auto simp: intern_string_def strings_good_def string_at_def slice_get_def Let_def u32_new_index
        split: option.splits)
next
  fix s x i t j y
  assume "intern_string x s = (Inr i, t)" "string_at s j = Some y"
  then show "string_at t j = Some y"
    by (auto simp: intern_string_def string_at_def slice_get_def Let_def nth_append
        split: option.splits if_splits)
next
  fix s i x j
  assume "strings_good s" "string_at s i = Some x" "string_at s j = Some x"
  then show "i = j"
    by (auto simp: strings_good_def string_at_def slice_get_def split: if_splits) (metis option.inject)
qed

definition fns_good :: "Emit \<Rightarrow> bool" where
  "fns_good s \<longleftrightarrow> distinct (em_fn_table s) \<and> length (em_fn_table s) \<le> 2 ^ 32"

definition fn_at :: "Emit \<Rightarrow> u32 \<Rightarrow> (FnDefId \<times> Substitution) option" where
  "fn_at s i = slice_get (em_fn_table s) (unat i)"

lemma position_of_Some: "position_of x xs = Some i \<Longrightarrow> i < length xs \<and> xs ! i = x"
  by (induction xs arbitrary: i) (auto split: if_splits)

lemma position_of_None: "position_of x xs = None \<longleftrightarrow> x \<notin> set xs"
  by (induction xs) auto

interpretation fns: interner fns_good "\<lambda>s. length (em_fn_table s) < 2 ^ 32" "\<lambda>(d, ss). intern_fn d ss" fn_at
proof
  fix x s show "\<exists>i t. (case x of (d, ss) \<Rightarrow> intern_fn d ss) s = (Inr i, t)"
    by (auto simp: intern_fn_def Let_def split: option.split prod.split)
next
  fix s x i t
  assume "fns_good s" "length (em_fn_table s) < 2 ^ 32" "(case x of (d, ss) \<Rightarrow> intern_fn d ss) s = (Inr i, t)"
  then show "fns_good t"
    by (auto simp: intern_fn_def fns_good_def Let_def position_of_None split: option.splits prod.splits)
next
  fix s x i t
  assume "fns_good s" "length (em_fn_table s) < 2 ^ 32" "(case x of (d, ss) \<Rightarrow> intern_fn d ss) s = (Inr i, t)"
  then show "fn_at t i = Some x"
    by (auto simp: intern_fn_def fns_good_def fn_at_def slice_get_def Let_def u32_new_index
        split: option.splits prod.splits dest!: position_of_Some)
next
  fix s x i t j y
  assume "(case x of (d, ss) \<Rightarrow> intern_fn d ss) s = (Inr i, t)" "fn_at s j = Some y"
  then show "fn_at t j = Some y"
    by (auto simp: intern_fn_def fn_at_def slice_get_def Let_def nth_append
        split: option.splits if_splits prod.splits)
next
  fix s i x j
  assume "fns_good s" "fn_at s i = Some x" "fn_at s j = Some x"
  then show "i = j"
    by (auto simp: fns_good_def fn_at_def slice_get_def nth_eq_iff_index_eq word_unat_eq_iff split: if_splits)
qed

text \<open>
  String constants are interned injectively: two strings interned one after the other get the
  same index exactly when they are the same string, and the first string is still found under
  its index afterwards.
\<close>

theorem intern_string_injective:
  assumes "strings_good s" and "length (em_string_table s) < 2 ^ 32 - 1"
    and "intern_string x s = (Inr i, t)" and "intern_string y t = (Inr j, u)"
  shows "(i = j \<longleftrightarrow> x = y) \<and> string_at u i = Some x \<and> string_at u j = Some y"
proof -
  have r: "length (em_string_table s) < 2 ^ 32" "length (em_string_table t) < 2 ^ 32"
    using assms(2,3) by (auto simp: intern_string_def Let_def split: option.splits)
  note g = strings.good_intern [OF assms(1) r(1) assms(3)]
  from strings.intern_same_iff [OF assms(1) r(1) assms(3) r(2) assms(4)]
    strings.lookup_old [OF g r(2) assms(4) strings.lookup_new [OF assms(1) r(1) assms(3)]]
    strings.lookup_new [OF g r(2) assms(4)]
  show ?thesis by blast
qed

lemma intern_string_injective_witness:
  "\<exists>i t j u. intern_string ''a'' Emit_new = (Inr i, t) \<and> intern_string ''b'' t = (Inr j, u) \<and>
     i \<noteq> j \<and> string_at u i = Some ''a''"
proof -
  obtain i t where t: "intern_string ''a'' Emit_new = (Inr i, t)" using strings.total by blast
  obtain j u where u: "intern_string ''b'' t = (Inr j, u)" using strings.total by blast
  have "strings_good Emit_new" by (simp add: strings_good_def Emit_new_def)
  from intern_string_injective [OF this _ t u] have "i \<noteq> j \<and> string_at u i = Some ''a''"
    by (simp add: Emit_new_def)
  with t u show ?thesis by blast
qed

text \<open>
  Functions are interned injectively on the pair of definition and substitution: monomorphic
  instances never share an index, and asking again for an instance gives the index back.
\<close>

theorem intern_fn_injective:
  assumes "fns_good s" and "length (em_fn_table s) < 2 ^ 32 - 1"
    and "intern_fn d ss s = (Inr i, t)" and "intern_fn d' ss' t = (Inr j, u)"
  shows "(i = j \<longleftrightarrow> d = d' \<and> ss = ss') \<and> fn_at u i = Some (d, ss) \<and> fn_at u j = Some (d', ss')"
proof -
  have r: "length (em_fn_table s) < 2 ^ 32" "length (em_fn_table t) < 2 ^ 32"
    using assms(2,3) by (auto simp: intern_fn_def Let_def split: option.splits)
  have a: "(case (d, ss) of (d, ss) \<Rightarrow> intern_fn d ss) s = (Inr i, t)"
    "(case (d', ss') of (d, ss) \<Rightarrow> intern_fn d ss) t = (Inr j, u)" using assms(3,4) by simp_all
  note g = fns.good_intern [OF assms(1) r(1) a(1)]
  from fns.intern_same_iff [OF assms(1) r(1) a(1) r(2) a(2)]
    fns.lookup_old [OF g r(2) a(2) fns.lookup_new [OF assms(1) r(1) a(1)]]
    fns.lookup_new [OF g r(2) a(2)]
  show ?thesis by simp
qed

lemma intern_fn_injective_witness:
  "\<exists>i t j u. intern_fn 7 Substitution_empty Emit_new = (Inr i, t) \<and>
     intern_fn 7 Substitution_empty t = (Inr j, u) \<and> i = j"
proof -
  obtain i t where t: "intern_fn 7 Substitution_empty Emit_new = (Inr i, t)"
    using fns.total [of "(7, Substitution_empty)" Emit_new] by auto
  obtain j u where u: "intern_fn 7 Substitution_empty t = (Inr j, u)"
    using fns.total [of "(7, Substitution_empty)" t] by auto
  have "fns_good Emit_new" by (simp add: fns_good_def Emit_new_def)
  from intern_fn_injective [OF this _ t u] t u show ?thesis by (auto simp: Emit_new_def)
qed

section \<open>The buffer only grows\<close>

named_theorems grows_rules \<open>emitters that only append to the buffer\<close>

definition grows :: "'a emitx \<Rightarrow> bool" where
  "grows c \<longleftrightarrow> (\<forall>s. \<exists>xs. em_bc (snd (c s)) = em_bc s @ xs)"

text \<open>\<open>grows1\<close>: where it succeeds, it has appended something.\<close>

definition grows1 :: "'a emitx \<Rightarrow> bool" where
  "grows1 c \<longleftrightarrow> (\<forall>s x t. c s = (Inr x, t) \<longrightarrow> length (em_bc s) < length (em_bc t))"

lemma grows_bind [grows_rules]:
  assumes "grows c" "\<And>x. grows (d x)"
  shows "grows (sx_bind c d)"
  unfolding grows_def
proof
  fix s
  obtain r t where c: "c s = (r, t)" by fastforce
  with assms(1) obtain xs where xs: "em_bc t = em_bc s @ xs" unfolding grows_def by (metis snd_conv)
  show "\<exists>xs. em_bc (snd (sx_bind c d s)) = em_bc s @ xs"
  proof (cases r)
    case (Inl e)
    with c xs show ?thesis by simp
  next
    case (Inr x)
    obtain ys where "em_bc (snd (d x t)) = em_bc t @ ys" using assms(2) unfolding grows_def by blast
    with c xs Inr show ?thesis by simp
  qed
qed

lemma grows_emit [grows_rules]: "grows (emit bs)"
  by (simp add: grows_def emit_def sx_apply)

lemma grows_return [grows_rules]: "grows (sx_return x)"
  by (simp add: grows_def sx_apply)

lemma grows_fail [grows_rules]: "grows (sx_fail e)"
  by (simp add: grows_def sx_apply)

lemma grows_get [grows_rules]: "grows (sx_get f)"
  by (simp add: grows_def sx_apply)

lemma grows_note [grows_rules]: "grows (note_const x)"
  by (simp add: grows_def note_const_def sx_apply)

lemma grows_intern_string [grows_rules]: "grows (intern_string x)"
  by (auto simp: grows_def intern_string_def Let_def split: option.split)

lemma grows_intern_fn [grows_rules]: "grows (intern_fn d ss)"
  by (auto simp: grows_def intern_fn_def Let_def split: option.split)

lemma grows_load_const [grows_rules]: "grows (emit_load_const v)" "grows (emit_noted x v)"
  unfolding emit_noted_def emit_load_const_def by (intro grows_rules)+

lemma grows_zst_check [grows_rules]: "grows (emit_zst_bounds_check b base i ty)"
  unfolding emit_zst_bounds_check_def
  by (intro grows_rules) (auto split: option.split TyKind.split intro!: grows_rules)

lemma grows_scaled [grows_rules]: "grows (emit_scaled i n)"
  by (auto simp: emit_scaled_def intro: grows_rules)

lemma grows_proj [grows_rules]: "grows (emit_proj b base p ty)"
  by (cases p) (auto simp: Let_def split: option.split TyKind.split intro!: grows_rules)

lemma grows_projs [grows_rules]: "grows (emit_projs b base ps ty)"
  by (induction ps arbitrary: ty) (auto intro!: grows_rules)

lemma grows_place_address [grows_rules]: "grows (emit_place_address b p lts)"
  unfolding emit_place_address_def
  by (intro grows_rules) (auto split: sum.split intro!: grows_rules)

lemma grows_const [grows_rules]: "grows (emit_const b k)"
  and grows_consts [grows_rules]: "grows (emit_consts b cs)"
  by (induction b k and b cs rule: emit_const_emit_consts.induct) (auto intro!: grows_rules)

lemma grows_place_read [grows_rules]: "grows (emit_place_read b p lts)"
  unfolding emit_place_read_def by (auto intro!: grows_rules)

lemma grows_operand [grows_rules]: "grows (emit_operand b o' lts)"
  by (cases o') (auto intro!: grows_rules)

lemma grows_operands [grows_rules]: "grows (emit_operands b os lts)"
  by (induction os) (auto intro!: grows_rules)

lemma grows_rvalue [grows_rules]: "grows (emit_rvalue b rv lts)"
  by (cases rv) (auto intro!: grows_rules)

lemma grows_statement [grows_rules]: "grows (emit_statement b k lts)"
  by (cases k) (auto intro!: grows_rules)

lemma grows_statements [grows_rules]: "grows (emit_statements b ss lts)"
  by (induction ss) (auto intro!: grows_rules)

lemma grows1_emit: "bs \<noteq> [] \<Longrightarrow> grows1 (emit bs)"
  by (auto simp: grows1_def emit_def sx_apply)

lemma grows1_bind:
  assumes "grows c" "\<And>x. grows1 (d x)"
  shows "grows1 (sx_bind c d)"
  unfolding grows1_def
proof (intro allI impI)
  fix s x t assume "sx_bind c d s = (Inr x, t)"
  then obtain y u where c: "c s = (Inr y, u)" and d: "d y u = (Inr x, t)"
    by (auto simp: sx_bind_apply split: prod.splits sum.splits)
  from assms(1) c have "length (em_bc s) \<le> length (em_bc u)" unfolding grows_def
    by (metis length_append le_add1 snd_conv)
  also have "\<dots> < length (em_bc t)" using assms(2) d by (auto simp: grows1_def)
  finally show "length (em_bc s) < length (em_bc t)" .
qed

lemma grows1_terminator: "grows1 (emit_terminator b t lts)"
  by (cases t) (auto intro!: grows1_bind grows1_emit grows_rules)

lemma grows1_block: "grows1 (emit_block b lts bb)"
  unfolding emit_block_def by (intro grows1_bind grows1_terminator grows_rules)

lemma emit_blocks_offsets:
  assumes "emit_blocks b lts bbs s = (Inr offs, t)"
  shows "length offs = length bbs \<and> sorted_wrt (<) offs \<and> length (em_bc s) \<le> length (em_bc t) \<and>
    (\<forall>i \<in> set offs. length (em_bc s) \<le> i \<and> i < length (em_bc t)) \<and>
    (bbs \<noteq> [] \<longrightarrow> hd offs = length (em_bc s))"
  using assms
proof (induction bbs arbitrary: s offs)
  case Nil
  then show ?case by (simp add: sx_apply)
next
  case (Cons bb bbs)
  then obtain u offs' where u: "emit_block b lts bb s = (Inr (), u)"
    and t: "emit_blocks b lts bbs u = (Inr offs', t)" and offs: "offs = length (em_bc s) # offs'"
    by (auto simp: sx_bind_apply sx_apply split: prod.splits sum.splits)
  from grows1_block u have "length (em_bc s) < length (em_bc u)" unfolding grows1_def by blast
  with Cons.IH [OF t] offs show ?case by fastforce
qed

text \<open>
  The block offset table of every successful \<open>O0\<close> emission has one entry per block, starts at
  0, is strictly increasing and stays inside the emitted code, so every jump the machine
  resolves through it lands inside the function.
\<close>

theorem block_offsets_valid:
  assumes "generate_function_with_blocks b body s = (Inr (code, offs), t)" and "bk_opt_level b = O0"
    and "b_blocks body \<noteq> []"
  shows "length offs = length (b_blocks body) \<and> hd offs = 0 \<and> sorted_wrt (<) offs \<and>
    (\<forall>i \<in> set offs. i < length code)"
proof -
  let ?s = "s\<lparr>em_bc := [], em_const_is_int := []\<rparr>"
  obtain t' where e: "emit_blocks b (b_locals body) (b_blocks body) ?s = (Inr offs, t')" and "em_bc t' = code"
    using assms(1,2)
    by (auto simp: generate_function_with_blocks_def sx_bind_apply sx_apply split: prod.splits sum.splits)
  with emit_blocks_offsets [OF e] assms(3) show ?thesis by auto
qed

lemma block_offsets_valid_witness:
  "\<exists>code offs t. generate_function_with_blocks demo_backend product_body Emit_new = (Inr (code, offs), t) \<and>
     length offs = 3 \<and> hd offs = 0 \<and> sorted_wrt (<) offs \<and> (\<forall>i \<in> set offs. i < length code)"
proof -
  have "scalar_body product_body" "bk_opt_level demo_backend = O0" "length (b_blocks product_body) = 3"
    by (simp_all add: product_body_def demo_simps scalar_body_def scalar_block_def)
  with generate_scalar [of product_body demo_backend Emit_new] obtain code offs t where
    g: "generate_function_with_blocks demo_backend product_body Emit_new = (Inr (code, offs), t)" by blast
  have "b_blocks product_body \<noteq> []" by (simp add: product_body_def demo_simps)
  from block_offsets_valid [OF g \<open>bk_opt_level demo_backend = O0\<close> this] \<open>length (b_blocks product_body) = 3\<close> g
  show ?thesis by auto
qed

section \<open>Where the emitter and the machine disagree\<close>

lemma stops_underflow_aggregate:
  assumes c: "code_at (fn_code f) pc (OP_AGGREGATE # u32_le n)" and n: "0 < unat n"
  shows "stops m (runs_at m f frs pc [] ls) (Inl (Fault StackUnderflow))"
proof (rule stops_op [OF c [unfolded emitter_opcodes]])
  fix s assume s: "runs_at m f frs (Suc pc) [] ls s"
  have "code_at (fn_code f) (Suc pc) (u32_le n)" using c by (simp add: code_at_Cons)
  note f = runs_fetch_u32 [OF s this]
  obtain k where k: "unat n = Suc k" using n by (cases "unat n") auto
  have "vm_pop (set_top_pc (Suc pc + 4) s) = (Inl (Fault StackUnderflow), set_top_pc (Suc pc + 4) s)"
    using runs_at_stack [OF runs_at_set_pc [OF s]] by (simp add: vm_pop_def)
  with f k show "\<exists>t. exec_op m f Opcode.Aggregate s = (Inl (Fault StackUnderflow), t)" by simp
qed simp

text \<open>
  Aggregates do not run: the emitter writes \<open>AGGREGATE n\<close> before the code of its operands while
  the machine pops \<open>n\<close> operands when it meets the opcode.  The code emitted for any non-empty
  aggregate, entered with an empty operand stack as every statement is, stops the program with
  \<open>StackUnderflow\<close>.
\<close>

theorem emitted_aggregate_underflows:
  assumes "emit_rvalue b (Rvalue.Aggregate k os) lts s = (Inr (), t)"
    and "os \<noteq> []" and "length os < 2 ^ 32"
    and "code_at (fn_code f) pc (drop (length (em_bc s)) (em_bc t))"
  shows "stops m (runs_at m f frs pc [] ls) (Inl (Fault StackUnderflow))"
proof -
  let ?n = "of_nat (length os) :: u32"
  let ?s = "s\<lparr>em_bc := em_bc s @ OP_AGGREGATE # u32_le ?n\<rparr>"
  have e: "emit_operands b os lts ?s = (Inr (), t)" using assms(1) by (simp add: emit_def sx_apply)
  obtain xs where "em_bc (snd (emit_operands b os lts ?s)) = em_bc ?s @ xs"
    using grows_operands unfolding grows_def by blast
  with e have "drop (length (em_bc s)) (em_bc t) = (OP_AGGREGATE # u32_le ?n) @ xs" by simp
  with assms(4) have "code_at (fn_code f) pc (OP_AGGREGATE # u32_le ?n)"
    by (simp only: code_at_append)
  then show ?thesis
    by (rule stops_underflow_aggregate) (use assms(2,3) in \<open>simp add: unat_of_nat\<close>)
qed

text \<open>The witness: the code of the tuple \<open>(1, 2)\<close>, run as a program.\<close>

definition pair_rvalue :: Rvalue where
  "pair_rvalue = Rvalue.Aggregate AggregateKind.Tuple [demo_const 1, demo_const 2]"

lemma emitted_aggregate_underflows_witness:
  "\<exists>t. emit_rvalue demo_backend pair_rvalue [] Emit_new = (Inr (), t) \<and>
     Module_run \<lparr>m_functions = [Function_new (em_bc t) 0 0], m_entry = 0\<rparr> = Some (Inl (Fault StackUnderflow))"
proof -
  have "emits (emit_rvalue demo_backend pair_rvalue []) (OP_AGGREGATE # u32_le 2 @ operand_code (demo_const 1)
      @ operand_code (demo_const 2) @ [])"
    unfolding pair_rvalue_def emit_rvalue.simps emit_operands.simps
    by (rule emits_bind_eq [OF emits_emit emits_bind [OF emits_operand emits_bind [OF emits_operand emits_return]]])
      (simp_all add: demo_const_def)
  then obtain t where t: "emit_rvalue demo_backend pair_rvalue [] Emit_new = (Inr (), t)"
    unfolding emits_def by blast
  let ?f = "Function_new (em_bc t) 0 0"
  let ?m = "\<lparr>m_functions = [?f], m_entry = 0\<rparr>"
  have "stops ?m (runs_at ?m ?f [] 0 [] []) (Inl (Fault StackUnderflow))"
    by (rule emitted_aggregate_underflows [OF t [unfolded pair_rvalue_def]])
      (simp_all add: Emit_new_def Function_new_def code_at_self)
  moreover obtain u where u: "push_frame ?m 0 [] u32_max usize_max Vm_new = (Inr (), u)" "runs_at ?m ?f [] 0 [] [] u"
    by (simp add: push_frame_def runs_at_def Vm_new_def MAX_CALL_DEPTH_def Let_def function_at_def Function_new_def)
  ultimately have "Module_run ?m = Some (Inl (Fault StackUnderflow))"
    by (auto simp: stops_def Module_run_def run_module_def)
  with t show ?thesis by blast
qed

lemma emits_code:
  assumes "emits c code" "c s = (r, t)"
  shows "drop (length (em_bc s)) (em_bc t) = code"
proof -
  obtain ints where "c s = (Inr (), s\<lparr>em_bc := em_bc s @ code, em_const_is_int := em_const_is_int s @ ints\<rparr>)"
    using assms(1) unfolding emits_def by blast
  with assms(2) show ?thesis by auto
qed

lemma stops_end:
  assumes "length (fn_code f) \<le> pc"
  shows "stops m (runs_at m f frs pc st ls) (Inl (Fault UnexpectedEndOfCode))"
  unfolding stops_def
proof (intro allI impI)
  fix s assume "runs_at m f frs pc st ls s"
  with assms have "vm_step m s = (Inl (Fault UnexpectedEndOfCode), s)"
    by (auto simp: runs_at_def vm_step_def)
  then show "\<exists>t. drive m s = Some (Inl (Fault UnexpectedEndOfCode), t)" by (blast intro: drive_fail)
qed

text \<open>
  The bounds check emitted for an index into an array of zero-sized elements stops the program
  on a valid index: \<open>ASSERT\<close> jumps to its target when the assertion holds, and the emitter gives
  the sentinel \<open>u32::MAX\<close> as that target, so an index below the length ends in
  \<open>UnexpectedEndOfCode\<close> instead of going on.
\<close>

theorem zst_index_in_bounds_fails:
  assumes "bk_ty_ctx b = Some ctx" and "tl_ty_kind ctx ty = TyKind.Array elem len"
    and "emit_zst_bounds_check b base i ty s = (Inr (), t)"
    and "code_at (fn_code f) pc (drop (length (em_bc s)) (em_bc t))"
    and "unat i < length ls" and "sint (as_int (ls ! unat i)) < sint (const_len len)"
    and "fn_block_offsets f \<noteq> []" and "length (fn_block_offsets f) \<le> unat u32_max"
    and "length (fn_code f) \<le> usize_max"
  shows "stops m (runs_at m f frs pc st ls) (Inl (Fault UnexpectedEndOfCode))"
proof -
  let ?code = "(OP_LOAD_LOCAL # u32_le i) @ (OP_LOAD_CONST # i64_le (const_len len)) @
    (OP_LT # OP_ASSERT # 1 # u32_le u32_max) @ (OP_LOAD_CONST # i64_le 0) @ [OP_ADD]"
  have "emits (emit_zst_bounds_check b base i ty) ?code"
    unfolding emit_zst_bounds_check_def emit_load_const_def
    by (intro emits_bind emits_emit) (simp_all add: assms(1,2) emits_emit)
  then have "drop (length (em_bc s)) (em_bc t) = ?code" using assms(3) by (rule emits_code)
  with assms(4) have "code_at (fn_code f) pc ?code" by simp
  then have c: "code_at (fn_code f) pc (OP_LOAD_LOCAL # u32_le i)"
    "code_at (fn_code f) (pc + 5) (OP_LOAD_CONST # i64_le (const_len len))"
    "code_at (fn_code f) (pc + 14) [opcode_byte Opcode.Lt]"
    "code_at (fn_code f) (pc + 15) (OP_ASSERT # 1 # u32_le u32_max)"
    by (simp_all add: code_at_append code_at_Cons ac_simps emitter_opcodes)
  have lt: "vm_binop Opcode.Lt (as_int (ls ! unat i)) (as_int (Value.Int (const_len len))) = Inr 1"
    using assms(6) by simp
  have lt': "is_binop Opcode.Lt" by (simp add: is_binop_def)
  have "leads m (runs_at m f frs pc st ls) (runs_at m f frs (pc + 5) (ls ! unat i # st) ls)"
    by (rule leads_load_local [OF c(1) assms(5)])
  moreover have "leads m (runs_at m f frs (pc + 5) (ls ! unat i # st) ls)
      (runs_at m f frs (pc + 14) (Value.Int (const_len len) # ls ! unat i # st) ls)"
    using leads_load_const [OF c(2), of m frs "ls ! unat i # st" ls] by (simp add: add.commute)
  moreover have "leads m (runs_at m f frs (pc + 14) (Value.Int (const_len len) # ls ! unat i # st) ls)
      (runs_at m f frs (pc + 15) (Value.Int 1 # st) ls)"
    using leads_binop [OF c(3) lt' lt, of m frs st ls] by (simp add: add.commute)
  ultimately have "leads m (runs_at m f frs pc st ls) (runs_at m f frs (pc + 15) (Value.Int 1 # st) ls)"
    by (meson leads_trans)
  then have "leads m (runs_at m f frs pc st ls) (runs_at m f frs (resolve_target f u32_max) st ls)"
    by (rule leads_trans [OF _ leads1_leads [OF leads1_assert [OF c(4)]]]) simp
  moreover have "resolve_target f u32_max = usize_max"
    using assms(7,8) by (simp add: resolve_target_def)
  ultimately show ?thesis using leads_stops stops_end [OF assms(9)] by metis
qed

text \<open>The witness: index 0 of a \<open>[(); 3]\<close>.\<close>

definition zst_backend :: Backend where
  "zst_backend = demo_backend\<lparr>bk_ty_ctx := Some
     \<lparr>tl_ty_kind = (\<lambda>ty. TyKind.Array Ty_UNIT \<lparr>const_kind = ConstKind.Uint 3, const_ty = Ty_USIZE\<rparr>),
      tl_substitution_args = (\<lambda>_. []), tl_error_ty = Ty_ERROR, tl_adt_def = (\<lambda>_. None),
      tl_intern_ty = (\<lambda>_. Ty_ERROR), tl_subst_ty_in = (\<lambda>t _. t)\<rparr>\<rparr>"

lemma zst_index_in_bounds_fails_witness:
  "\<exists>t. emit_zst_bounds_check zst_backend 1 0 50 Emit_new = (Inr (), t) \<and>
     Module_run \<lparr>m_functions = [Function_with_blocks (em_bc t) 1 0 [0]], m_entry = 0\<rparr>
       = Some (Inl (Fault UnexpectedEndOfCode))"
proof -
  have "emit_zst_bounds_check zst_backend 1 0 50 Emit_new = (Inr (), snd (emit_zst_bounds_check zst_backend 1 0 50 Emit_new))"
    and len: "length (em_bc (snd (emit_zst_bounds_check zst_backend 1 0 50 Emit_new))) = 31"
    by (simp_all add: emit_zst_bounds_check_def zst_backend_def emit_def emit_load_const_def sx_apply Emit_new_def)
  then obtain t where t: "emit_zst_bounds_check zst_backend 1 0 50 Emit_new = (Inr (), t)" "length (em_bc t) = 31"
    by blast
  let ?f = "Function_with_blocks (em_bc t) 1 0 [0]"
  let ?m = "\<lparr>m_functions = [?f], m_entry = 0\<rparr>"
  let ?ls = "[Value.Int 0]"
  have "stops ?m (runs_at ?m ?f [] 0 [] ?ls) (Inl (Fault UnexpectedEndOfCode))"
    by (rule zst_index_in_bounds_fails [OF _ _ t(1), where ctx = "the (bk_ty_ctx zst_backend)"
        and elem = Ty_UNIT and len = "\<lparr>const_kind = ConstKind.Uint 3, const_ty = Ty_USIZE\<rparr>"])
      (simp_all add: zst_backend_def Emit_new_def Function_with_blocks_def code_at_self const_len_def
        u32_max_def usize_max_def t(2))
  moreover obtain u where u: "push_frame ?m 0 [] u32_max usize_max Vm_new = (Inr (), u)" "runs_at ?m ?f [] 0 [] ?ls u"
    by (simp add: push_frame_def runs_at_def Vm_new_def MAX_CALL_DEPTH_def Let_def function_at_def Function_with_blocks_def)
  ultimately have "Module_run ?m = Some (Inl (Fault UnexpectedEndOfCode))"
    by (auto simp: stops_def Module_run_def run_module_def)
  with t show ?thesis by blast
qed

end
