(* ===== verification/Opt_Cfg.thy ===== *)
theory Opt_Cfg
  imports Mir_Semantics
begin

text \<open>
  \<open>crates/glyim-opt/src/cfg_simplify.rs\<close> and \<open>unreachable_elim.rs\<close>: merging of straight-line
  block chains and removal of unreachable blocks.  Both preserve what \<open>mir_run\<close> computes.

  A pass that works on \<open>&mut Vec<BasicBlockData>\<close> is a function on the list of blocks; the
  flags \<open>delete\<close> are a list of booleans, and \<open>changed\<close> holds exactly when one of them is set.
\<close>

section \<open>Successors and renumbering\<close>

definition opt_list :: "'a option \<Rightarrow> 'a list" where
  "opt_list x = (case x of None \<Rightarrow> [] | Some y \<Rightarrow> [y])"

lemma set_opt_list [simp]: "set (opt_list x) = set_option x"
  by (cases x) (simp_all add: opt_list_def)

fun terminator_successors :: "TerminatorKind \<Rightarrow> BasicBlockIdx list" where
  "terminator_successors (Goto t) = [t]"
| "terminator_successors (SwitchInt _ _ targets) = map snd (sw_branches targets) @ [sw_otherwise targets]"
| "terminator_successors (TerminatorKind.Call _ _ _ target cleanup) = opt_list target @ opt_list cleanup"
| "terminator_successors (TerminatorKind.Assert _ _ target cleanup _) = target # opt_list cleanup"
| "terminator_successors (TerminatorKind.Drop _ target cleanup) = target # opt_list cleanup"
| "terminator_successors _ = []"

definition block_successors :: "BasicBlockData \<Rightarrow> BasicBlockIdx list" where
  "block_successors bb = terminator_successors (te_kind (bb_terminator bb))"

definition remap_idx :: "nat option list \<Rightarrow> BasicBlockIdx \<Rightarrow> BasicBlockIdx" where
  "remap_idx remap i =
     (if unat i < length remap then (case remap ! unat i of Some n \<Rightarrow> of_nat n | None \<Rightarrow> 0) else 0)"

fun remap_kind :: "nat option list \<Rightarrow> TerminatorKind \<Rightarrow> TerminatorKind" where
  "remap_kind r (Goto t) = Goto (remap_idx r t)"
| "remap_kind r (SwitchInt d ty targets) = SwitchInt d ty
     (SwitchTargets_new (map (\<lambda>(v, t). (v, remap_idx r t)) (sw_branches targets))
       (remap_idx r (sw_otherwise targets)))"
| "remap_kind r (TerminatorKind.Call f args dest target cleanup) =
     TerminatorKind.Call f args dest (map_option (remap_idx r) target) (map_option (remap_idx r) cleanup)"
| "remap_kind r (TerminatorKind.Assert c e target cleanup m) =
     TerminatorKind.Assert c e (remap_idx r target) (map_option (remap_idx r) cleanup) m"
| "remap_kind r (TerminatorKind.Drop p target cleanup) =
     TerminatorKind.Drop p (remap_idx r target) (map_option (remap_idx r) cleanup)"
| "remap_kind r k = k"

definition remap_terminator :: "nat option list \<Rightarrow> BasicBlockData \<Rightarrow> BasicBlockData" where
  "remap_terminator r bb = bb\<lparr>bb_terminator := (bb_terminator bb)\<lparr>te_kind := remap_kind r (te_kind (bb_terminator bb))\<rparr>\<rparr>"

text \<open>Keeping the flagged blocks: the table from old to new indices, and the kept blocks with
  their terminators renumbered.\<close>

fun remap_table :: "bool list \<Rightarrow> nat \<Rightarrow> nat option list" where
  "remap_table [] n = []"
| "remap_table (k # ks) n = (if k then Some n # remap_table ks (Suc n) else None # remap_table ks n)"

fun kept :: "bool list \<Rightarrow> 'a list \<Rightarrow> 'a list" where
  "kept (k # ks) (b # bs) = (if k then b # kept ks bs else kept ks bs)"
| "kept _ _ = []"

definition compact :: "bool list \<Rightarrow> BasicBlockData list \<Rightarrow> BasicBlockData list" where
  "compact keep blocks = map (remap_terminator (remap_table keep 0)) (kept keep blocks)"

section \<open>CFG simplification\<close>

text \<open>\<open>preds[j]\<close>, with one entry for every edge.\<close>

definition preds_of :: "BasicBlockData list \<Rightarrow> nat \<Rightarrow> nat list" where
  "preds_of blocks j =
     concat (map (\<lambda>p. map (\<lambda>_. p) (filter (\<lambda>s. unat s = j) (block_successors (blocks ! p))))
       [0..<length blocks])"

definition goes_to :: "BasicBlockData \<Rightarrow> nat \<Rightarrow> bool" where
  "goes_to bb i = (case te_kind (bb_terminator bb) of Goto t \<Rightarrow> unat t = i | _ \<Rightarrow> False)"

definition return_terminator :: Terminator where
  "return_terminator = \<lparr>te_kind = TerminatorKind.Return, te_source_info = SourceInfo_new Span_DUMMY\<rparr>"

text \<open>Block \<open>i\<close> is appended to \<open>p\<close>, statement by statement of the source.\<close>

definition merge_block :: "nat \<Rightarrow> nat \<Rightarrow> BasicBlockData list \<Rightarrow> BasicBlockData list" where
  "merge_block p i blocks =
     (let stmts = bb_statements (blocks ! i);
          b1 = blocks[i := (blocks ! i)\<lparr>bb_statements := []\<rparr>];
          b2 = b1[p := (b1 ! p)\<lparr>bb_statements := bb_statements (b1 ! p) @ stmts\<rparr>];
          term = bb_terminator (b2 ! i);
          b3 = b2[i := (b2 ! i)\<lparr>bb_terminator := return_terminator\<rparr>]
      in b3[p := (b3 ! p)\<lparr>bb_terminator := term\<rparr>])"

definition merge_step ::
    "(nat \<Rightarrow> nat list) \<Rightarrow> nat \<Rightarrow> BasicBlockData list \<times> bool list \<Rightarrow> BasicBlockData list \<times> bool list" where
  "merge_step preds i = (\<lambda>(blocks, delete).
     if delete ! i then (blocks, delete)
     else (case preds i of
             [p] \<Rightarrow> (if \<not> delete ! p \<and> goes_to (blocks ! p) i
                     then (merge_block p i blocks, delete[i := True])
                     else (blocks, delete))
           | _ \<Rightarrow> (blocks, delete)))"

definition merge_pass :: "BasicBlockData list \<Rightarrow> BasicBlockData list \<times> bool list" where
  "merge_pass blocks =
     fold (merge_step (preds_of blocks)) [1..<length blocks] (blocks, replicate (length blocks) False)"

lemma length_kept: "length ks = length bs \<Longrightarrow> length (kept ks bs) = length (filter id ks)"
  by (induction ks bs rule: kept.induct) auto

lemma length_merge_block [simp]: "length (merge_block p i blocks) = length blocks"
  by (simp add: merge_block_def Let_def)

lemma merge_step_lengths:
  "merge_step preds i (bs, del) = (bs', del') \<Longrightarrow> length bs' = length bs \<and> length del' = length del"
  by (auto simp: merge_step_def split: if_splits list.splits)

lemma merge_fold_lengths:
  "fold (merge_step preds) is (bs, del) = (bs', del') \<Longrightarrow> length bs' = length bs \<and> length del' = length del"
proof (induction "is" arbitrary: bs del)
  case Nil
  then show ?case by simp
next
  case (Cons i "is")
  obtain b d where s: "merge_step preds i (bs, del) = (b, d)" by fastforce
  with Cons merge_step_lengths [OF s] show ?case by simp
qed

lemma merge_pass_lengths:
  "merge_pass blocks = (bs, del) \<Longrightarrow> length bs = length blocks \<and> length del = length blocks"
  unfolding merge_pass_def by (drule merge_fold_lengths) simp

lemma filter_not_less: "True \<in> set del \<Longrightarrow> length (filter id (map HOL.Not del)) < length del"
  by (induction del) (auto simp: less_Suc_eq_le)

function cfg_loop :: "BasicBlockData list \<Rightarrow> BasicBlockData list" where
  "cfg_loop blocks =
     (case merge_pass blocks of (bs, delete) \<Rightarrow>
        if True \<in> set delete then cfg_loop (compact (map HOL.Not delete) bs) else bs)"
  by pat_completeness auto
termination
proof (relation "measure length", simp)
  fix blocks bs delete
  assume r: "(bs, delete) = merge_pass blocks" and t: "True \<in> set delete"
  then have "length bs = length blocks \<and> length delete = length blocks"
    by (metis merge_pass_lengths)
  then have "length (compact (map HOL.Not delete) bs) = length (filter id (map HOL.Not delete))"
    and "length delete = length blocks"
    by (simp_all add: compact_def length_kept del: filter_map)
  with filter_not_less [OF t] show "(compact (map HOL.Not delete) bs, blocks) \<in> measure length"
    unfolding in_measure by linarith
qed

definition cfg_simplify :: "Body \<Rightarrow> Body" where
  "cfg_simplify body = body\<lparr>b_blocks := cfg_loop (b_blocks body)\<rparr>"

section \<open>Unreachable blocks\<close>

text \<open>The depth-first search; the head of the list is the top of the stack.\<close>

function (sequential) reachable_from :: "BasicBlockData list \<Rightarrow> nat list \<Rightarrow> nat list \<Rightarrow> panicked + nat list" where
  "reachable_from blocks [] visited = Inr visited"
| "reachable_from blocks (i # stack) visited =
     (if i \<in> set visited then reachable_from blocks stack visited
      else if length blocks \<le> i then Inl Panicked
      else reachable_from blocks (rev (map unat (block_successors (blocks ! i))) @ stack) (i # visited))"
  by pat_completeness auto
termination
proof (relation "inv_image (less_than <*lex*> less_than)
    (\<lambda>(blocks, stack, visited). (card ({..<length blocks} - set visited), length stack))", goal_cases)
  case 1
  show ?case by auto
next
  case (2 blocks i stack visited)
  show ?case by (simp only: in_inv_image prod.case in_lex_prod less_than_iff) simp
next
  case (3 blocks i stack visited)
  then have "i \<in> {..<length blocks} - set visited" by simp
  then have "card ({..<length blocks} - set visited - {i}) < card ({..<length blocks} - set visited)"
    by (intro card_Diff1_less) simp_all
  moreover have "{..<length blocks} - set (i # visited) = {..<length blocks} - set visited - {i}" by auto
  ultimately have "card ({..<length blocks} - set (i # visited)) < card ({..<length blocks} - set visited)"
    by presburger
  then show ?case by (simp only: in_inv_image prod.case in_lex_prod less_than_iff) simp
qed

definition reachable_set :: "BasicBlockData list \<Rightarrow> panicked + nat list" where
  "reachable_set blocks = reachable_from blocks [0] []"

definition unreachable_elim :: "Body \<Rightarrow> panicked + Body" where
  "unreachable_elim body =
     (let blocks = b_blocks body
      in case reachable_set blocks of
           Inl e \<Rightarrow> Inl e
         | Inr reachable \<Rightarrow>
             (if length reachable = length blocks then Inr body
              else Inr (body\<lparr>b_blocks :=
                compact (map (\<lambda>i. i \<in> set reachable) [0..<length blocks]) blocks\<rparr>)))"

end
