(* ===== verification/Opt_Cfg_Props.thy ===== *)
theory Opt_Cfg_Props
  imports Opt_Cfg Emit_Correct
begin

text \<open>
  The CFG passes preserve the meaning of a body.  The common step is \<open>compact_run\<close>: keeping a
  set of blocks that contains the entry and is closed under successors, and renumbering, runs
  block for block like the original.
\<close>

section \<open>Bodies with other blocks\<close>

abbreviation with_blocks :: "Body \<Rightarrow> BasicBlockData list \<Rightarrow> Body" where
  "with_blocks body bs \<equiv> body\<lparr>b_blocks := bs\<rparr>"

definition targets_ok :: "BasicBlockData list \<Rightarrow> bool" where
  "targets_ok bs \<longleftrightarrow> (\<forall>bb \<in> set bs. \<forall>s \<in> set (block_successors bb). unat s < length bs)"

text \<open>One block of \<open>mir_run\<close>: \<open>Inr (t, ls)\<close> goes on at \<open>t\<close>.\<close>

definition run_block ::
    "LocalDecl IndexVec \<Rightarrow> BasicBlockData \<Rightarrow> Value list \<Rightarrow> (VmError + Value) + (BasicBlockIdx \<times> Value list)" where
  "run_block lts bb ls =
     (case mir_stmts (bb_statements bb) ls of
        None \<Rightarrow> Inl (Inl AbnormalTermination)
      | Some ls' \<Rightarrow>
          (case mir_terminator lts (te_kind (bb_terminator bb)) ls' of
             ToBlock t \<Rightarrow> Inr (t, ls')
           | Returned v \<Rightarrow> Inl (Inr v)
           | Trapped e \<Rightarrow> Inl (Inl e)))"

lemma mir_run_Suc:
  "mir_run body (Suc n) bb ls =
     (case run_block (b_locals body) (b_blocks body ! unat bb) ls of
        Inl r \<Rightarrow> Some r | Inr (t, ls') \<Rightarrow> mir_run body n t ls')"
  by (auto simp: run_block_def Let_def split: option.split mir_exit.split)

declare mir_run.simps(2) [simp del]

lemma switch_target_successor: "switch_target ts d \<in> set (map snd (sw_branches ts) @ [sw_otherwise ts])"
  by (auto simp: switch_target_def find_Some_iff split: option.split) (metis nth_mem snd_conv image_eqI)

lemma run_block_successor:
  "run_block lts bb ls = Inr (t, ls') \<Longrightarrow> t \<in> set (block_successors bb)"
  using switch_target_successor
  by (cases "te_kind (bb_terminator bb)")
    (auto simp: run_block_def block_successors_def Let_def split: option.splits if_splits simp del: set_append set_map)

section \<open>Renumbering\<close>

lemma length_remap_table [simp]: "length (remap_table ks n) = length ks"
  by (induction ks arbitrary: n) auto

lemma remap_table_nth:
  "i < length ks \<Longrightarrow> remap_table ks n ! i = (if ks ! i then Some (n + length (filter id (take i ks))) else None)"
  by (induction ks arbitrary: n i) (auto simp: nth_Cons split: nat.split)

lemma kept_nth:
  "length ks = length bs \<Longrightarrow> i < length ks \<Longrightarrow> ks ! i \<Longrightarrow>
   length (filter id (take i ks)) < length (kept ks bs) \<and> kept ks bs ! length (filter id (take i ks)) = bs ! i"
proof (induction ks bs arbitrary: i rule: kept.induct)
  case (1 k ks b bs)
  then show ?case by (cases i) (auto simp: nth_Cons split: nat.split)
qed auto

lemma in_kept: "length ks = length bs \<Longrightarrow> x \<in> set (kept ks bs) \<longleftrightarrow> (\<exists>i < length bs. ks ! i \<and> x = bs ! i)"
  by (induction ks bs rule: kept.induct) (auto simp: Ex_less_Suc2)

lemma filter_take_le: "length (filter id (take i ks)) \<le> length (filter id ks)"
  by (metis append_take_drop_id filter_append le_add1 length_append)

definition kept_closed :: "bool list \<Rightarrow> BasicBlockData list \<Rightarrow> bool" where
  "kept_closed keep bs \<longleftrightarrow> length keep = length bs \<and>
     (\<forall>i < length bs. keep ! i \<longrightarrow> (\<forall>s \<in> set (block_successors (bs ! i)). unat s < length bs \<and> keep ! unat s))"

text \<open>A kept block is found at its new index.\<close>

lemma compact_nth:
  assumes "length keep = length bs" "length bs \<le> 2 ^ 32" "unat i < length bs" "keep ! unat i"
  shows "unat (remap_idx (remap_table keep 0) i) < length (compact keep bs)"
    and "compact keep bs ! unat (remap_idx (remap_table keep 0) i)
      = remap_terminator (remap_table keep 0) (bs ! unat i)"
proof -
  let ?k = "length (filter id (take (unat i) keep))"
  have k: "?k < length (kept keep bs)" "kept keep bs ! ?k = bs ! unat i"
    using kept_nth [of keep bs "unat i"] assms by auto
  have "length (kept keep bs) \<le> length bs"
    using assms(1) by (metis length_filter_le length_kept)
  with k(1) assms(2) have "?k < 2 ^ 32" by linarith
  then have "unat (remap_idx (remap_table keep 0) i) = ?k"
    using assms by (simp add: remap_idx_def remap_table_nth unat_of_nat)
  with k show "unat (remap_idx (remap_table keep 0) i) < length (compact keep bs)"
    and "compact keep bs ! unat (remap_idx (remap_table keep 0) i)
      = remap_terminator (remap_table keep 0) (bs ! unat i)"
    by (simp_all add: compact_def)
qed

lemma switch_target_remap:
  "switch_target (SwitchTargets_new (map (\<lambda>(v, t). (v, g t)) (sw_branches ts)) (g (sw_otherwise ts))) d
     = g (switch_target ts d)"
proof -
  have "List.find (\<lambda>(v, _). ucast v = d) (map (\<lambda>(v, t). (v, g t)) bs)
      = map_option (\<lambda>(v, t). (v, g t)) (List.find (\<lambda>(v, _). ucast v = d) bs)" for bs :: "(u128 \<times> BasicBlockIdx) list"
    by (induction bs) auto
  then show ?thesis
    by (simp add: switch_target_def SwitchTargets_new_def split: option.split prod.split)
qed

lemma run_block_remap:
  "run_block lts (remap_terminator r bb) ls =
     map_sum id (\<lambda>(t, ls'). (remap_idx r t, ls')) (run_block lts bb ls)"
  by (cases "te_kind (bb_terminator bb)")
    (auto simp: run_block_def remap_terminator_def Let_def switch_target_remap split: option.split)

lemma compact_run:
  assumes "kept_closed keep bs" "length bs \<le> 2 ^ 32" "unat bb < length bs" "keep ! unat bb"
  shows "mir_run (with_blocks body (compact keep bs)) n (remap_idx (remap_table keep 0) bb) ls
    = mir_run (with_blocks body bs) n bb ls"
  using assms(3,4)
proof (induction n arbitrary: bb ls)
  case 0
  then show ?case by simp
next
  case (Suc n)
  have l: "length keep = length bs" using assms(1) by (simp add: kept_closed_def)
  note c = compact_nth(2) [OF l assms(2) Suc.prems]
  show ?case
  proof (cases "run_block (b_locals body) (bs ! unat bb) ls")
    case (Inl r)
    then show ?thesis by (simp add: mir_run_Suc c run_block_remap)
  next
    case (Inr p)
    obtain t ls' where p: "p = (t, ls')" by fastforce
    with Inr have "t \<in> set (block_successors (bs ! unat bb))" by (auto dest: run_block_successor)
    with assms(1) Suc.prems have "unat t < length bs" "keep ! unat t" by (auto simp: kept_closed_def)
    from Suc.IH [OF this] Inr p show ?thesis by (simp add: mir_run_Suc c run_block_remap)
  qed
qed

lemma remap_zero:
  assumes "0 < length keep" "keep ! 0"
  shows "remap_idx (remap_table keep 0) 0 = 0"
  using assms by (simp add: remap_idx_def remap_table_nth)

section \<open>Reachability\<close>

definition cfg_edge :: "BasicBlockData list \<Rightarrow> nat \<Rightarrow> nat \<Rightarrow> bool" where
  "cfg_edge bs i j \<longleftrightarrow> i < length bs \<and> (\<exists>s \<in> set (block_successors (bs ! i)). unat s = j)"

lemma cfg_edge_bound: "targets_ok bs \<Longrightarrow> cfg_edge bs i j \<Longrightarrow> j < length bs"
  by (auto simp: cfg_edge_def targets_ok_def)

lemma reachable_from_correct:
  assumes "targets_ok bs" "set stack \<union> set visited \<subseteq> {..<length bs}" "distinct visited"
    and "\<And>i j. i \<in> set visited \<Longrightarrow> cfg_edge bs i j \<Longrightarrow> j \<in> set visited \<union> set stack"
  shows "\<exists>V. reachable_from bs stack visited = Inr V \<and> distinct V \<and> set V \<subseteq> {..<length bs} \<and>
    set visited \<union> set stack \<subseteq> set V \<and>
    (\<forall>i \<in> set V. \<forall>j. cfg_edge bs i j \<longrightarrow> j \<in> set V) \<and>
    (\<forall>j \<in> set V. j \<in> set visited \<or> (\<exists>i \<in> set stack. (cfg_edge bs)\<^sup>*\<^sup>* i j))"
  using assms
proof (induction bs stack visited rule: reachable_from.induct)
  case (1 blocks visited)
  then show ?case by auto
next
  case (2 blocks i stack visited)
  show ?case
  proof (cases "i \<in> set visited")
    case True
    have "set stack \<union> set visited \<subseteq> {..<length blocks}" using "2.prems"(2) by auto
    moreover have "j \<in> set visited \<union> set stack" if "k \<in> set visited" "cfg_edge blocks k j" for k j
      using that "2.prems"(4) True by fastforce
    ultimately obtain V where "reachable_from blocks stack visited = Inr V" "distinct V"
      "set V \<subseteq> {..<length blocks}" "set visited \<union> set stack \<subseteq> set V"
      "\<forall>i \<in> set V. \<forall>j. cfg_edge blocks i j \<longrightarrow> j \<in> set V"
      "\<forall>j \<in> set V. j \<in> set visited \<or> (\<exists>k \<in> set stack. (cfg_edge blocks)\<^sup>*\<^sup>* k j)"
      using "2.IH"(1) [OF True "2.prems"(1) _ "2.prems"(3)] by metis
    with True show ?thesis by (intro exI [of _ V]) auto
  next
    case False
    let ?succ = "rev (map unat (block_successors (blocks ! i)))"
    have i: "\<not> length blocks \<le> i" using "2.prems"(2) by auto
    have succ: "j \<in> set ?succ \<longleftrightarrow> cfg_edge blocks i j" for j
      using i by (auto simp: cfg_edge_def)
    have "set (?succ @ stack) \<union> set (i # visited) \<subseteq> {..<length blocks}"
      using succ cfg_edge_bound [OF "2.prems"(1)] "2.prems"(2) by (auto simp del: set_rev set_map)
    moreover have "distinct (i # visited)" using False "2.prems"(3) by simp
    moreover have "j \<in> set (i # visited) \<union> set (?succ @ stack)" if "k \<in> set (i # visited)" "cfg_edge blocks k j" for k j
      using that "2.prems"(4) succ by fastforce
    ultimately obtain V where V: "reachable_from blocks (?succ @ stack) (i # visited) = Inr V" "distinct V"
      "set V \<subseteq> {..<length blocks}" "set (i # visited) \<union> set (?succ @ stack) \<subseteq> set V"
      "\<forall>i \<in> set V. \<forall>j. cfg_edge blocks i j \<longrightarrow> j \<in> set V"
      "\<forall>j \<in> set V. j \<in> set (i # visited) \<or> (\<exists>k \<in> set (?succ @ stack). (cfg_edge blocks)\<^sup>*\<^sup>* k j)"
      using "2.IH"(2) [OF False i "2.prems"(1)] by metis
    have "j \<in> set visited \<or> (\<exists>k \<in> set (i # stack). (cfg_edge blocks)\<^sup>*\<^sup>* k j)" if "j \<in> set V" for j
      using V(6) that succ by (fastforce intro: converse_rtranclp_into_rtranclp)
    with V False i show ?thesis by (intro exI [of _ V]) auto
  qed
qed

lemma reachable_set_correct:
  assumes "targets_ok bs" "bs \<noteq> []"
  shows "\<exists>V. reachable_set bs = Inr V \<and> distinct V \<and> (\<forall>i. i \<in> set V \<longleftrightarrow> (cfg_edge bs)\<^sup>*\<^sup>* 0 i) \<and>
    set V \<subseteq> {..<length bs}"
proof -
  have "\<exists>V. reachable_from bs [0] [] = Inr V \<and> distinct V \<and> set V \<subseteq> {..<length bs} \<and> 0 \<in> set V \<and>
      (\<forall>i \<in> set V. \<forall>j. cfg_edge bs i j \<longrightarrow> j \<in> set V) \<and> (\<forall>j \<in> set V. (cfg_edge bs)\<^sup>*\<^sup>* 0 j)"
    using reachable_from_correct [OF assms(1), of "[0]" "[]"] assms(2) by (simp del: reachable_from.simps)
  then obtain V where V: "reachable_from bs [0] [] = Inr V"
    "distinct V" "set V \<subseteq> {..<length bs}" "0 \<in> set V"
    "\<forall>i \<in> set V. \<forall>j. cfg_edge bs i j \<longrightarrow> j \<in> set V" "\<forall>j \<in> set V. (cfg_edge bs)\<^sup>*\<^sup>* 0 j"
    by blast
  have "i \<in> set V" if "(cfg_edge bs)\<^sup>*\<^sup>* 0 i" for i
    using that
  proof (induction rule: rtranclp_induct)
    case base
    show ?case by (rule V(4))
  next
    case (step j k)
    with V(5) show ?case by blast
  qed
  with V(6) have "\<forall>i. i \<in> set V \<longleftrightarrow> (cfg_edge bs)\<^sup>*\<^sup>* 0 i" by blast
  with V(1-3) show ?thesis unfolding reachable_set_def by blast
qed

text \<open>The new index of a kept block, and that every new index is one.\<close>

definition new_index :: "bool list \<Rightarrow> nat \<Rightarrow> nat" where
  "new_index keep i = length (filter id (take i keep))"

lemma new_index_0 [simp]: "new_index keep 0 = 0"
  by (simp add: new_index_def)

lemma new_index_Suc [simp]: "new_index (b # keep) (Suc i) = (if b then 1 else 0) + new_index keep i"
  by (simp add: new_index_def)

lemma new_index_surj: "k < length (filter id keep) \<Longrightarrow> \<exists>i < length keep. keep ! i \<and> new_index keep i = k"
proof (induction keep arbitrary: k)
  case Nil
  then show ?case by simp
next
  case (Cons b keep)
  show ?case
  proof (cases b)
    case False
    with Cons obtain i where "i < length keep" "keep ! i" "new_index keep i = k" by auto
    with False show ?thesis by (intro exI [of _ "Suc i"]) simp
  next
    case True
    show ?thesis
    proof (cases k)
      case 0
      with True show ?thesis by (intro exI [of _ 0]) simp
    next
      case (Suc j)
      with Cons True obtain i where "i < length keep" "keep ! i" "new_index keep i = j" by auto
      with True Suc show ?thesis by (intro exI [of _ "Suc i"]) simp
    qed
  qed
qed

lemma compact_successors:
  "block_successors (remap_terminator r bb) = map (remap_idx r) (block_successors bb)"
  by (cases "te_kind (bb_terminator bb)")
    (auto simp: block_successors_def remap_terminator_def SwitchTargets_new_def opt_list_def split: option.split)

lemma remap_new_index:
  assumes "kept_closed keep bs" "length bs \<le> 2 ^ 32" "unat s < length bs" "keep ! unat s"
  shows "unat (remap_idx (remap_table keep 0) s) = new_index keep (unat s)"
proof -
  have len: "length keep = length bs" using assms(1) by (simp add: kept_closed_def)
  have "new_index keep (unat s) < length (kept keep bs)" "length (kept keep bs) \<le> length bs"
    using kept_nth [of keep bs "unat s"] assms len length_filter_le [of id keep]
    by (auto simp: new_index_def length_kept)
  with assms(2) have "new_index keep (unat s) < 2 ^ 32" by linarith
  with assms len show ?thesis by (simp add: remap_idx_def remap_table_nth unat_of_nat new_index_def)
qed

lemma compact_at:
  assumes "length keep = length bs" "i < length bs" "keep ! i"
  shows "new_index keep i < length (compact keep bs) \<and>
    compact keep bs ! new_index keep i = remap_terminator (remap_table keep 0) (bs ! i)"
  using kept_nth [of keep bs i] assms by (auto simp: compact_def new_index_def)

lemma compact_edge:
  assumes "kept_closed keep bs" "length bs \<le> 2 ^ 32" "cfg_edge bs i j" "keep ! i"
  shows "cfg_edge (compact keep bs) (new_index keep i) (new_index keep j)"
proof -
  obtain s where s: "s \<in> set (block_successors (bs ! i))" "unat s = j" and i: "i < length bs"
    using assms(3) by (auto simp: cfg_edge_def)
  then have "unat s < length bs" "keep ! unat s" "length keep = length bs"
    using assms(1,4) by (auto simp: kept_closed_def)
  with s i assms remap_new_index [of keep bs s] compact_at [of keep bs i] show ?thesis
    by (auto simp: cfg_edge_def compact_successors)
qed

lemma compact_targets_ok:
  assumes "kept_closed keep bs" "length bs \<le> 2 ^ 32"
  shows "targets_ok (compact keep bs)"
  unfolding targets_ok_def
proof (intro ballI)
  have len: "length keep = length bs" using assms(1) by (simp add: kept_closed_def)
  fix bb s assume bb: "bb \<in> set (compact keep bs)" and s: "s \<in> set (block_successors bb)"
  then obtain i where i: "i < length bs" "keep ! i" "bb = remap_terminator (remap_table keep 0) (bs ! i)"
    using len by (auto simp: compact_def in_kept)
  with s obtain t where t: "t \<in> set (block_successors (bs ! i))" "s = remap_idx (remap_table keep 0) t"
    by (auto simp: compact_successors)
  with i assms have "unat t < length bs" "keep ! unat t" by (auto simp: kept_closed_def)
  then show "unat s < length (compact keep bs)"
    using compact_at [OF len, of "unat t"] remap_new_index [OF assms, of t] t(2) by simp
qed

lemma compact_reachable:
  assumes closed: "kept_closed keep bs" "length bs \<le> 2 ^ 32"
    and keep: "\<And>i. i < length bs \<Longrightarrow> keep ! i \<Longrightarrow> (cfg_edge bs)\<^sup>*\<^sup>* 0 i" "keep ! 0" "k < length (compact keep bs)"
  shows "(cfg_edge (compact keep bs))\<^sup>*\<^sup>* 0 k"
proof -
  have len: "length keep = length bs" using closed by (simp add: kept_closed_def)
  have step: "(cfg_edge (compact keep bs))\<^sup>*\<^sup>* 0 (new_index keep i) \<and> keep ! i" if "(cfg_edge bs)\<^sup>*\<^sup>* 0 i" for i
    using that
  proof (induction rule: rtranclp_induct)
    case base
    with keep(2) show ?case by simp
  next
    case (step i j)
    then have "keep ! j" using closed by (auto simp: cfg_edge_def kept_closed_def)
    with step compact_edge [OF closed, of i j] show ?case by (auto intro: rtranclp.rtrancl_into_rtrancl)
  qed
  obtain i where "i < length keep" "keep ! i" "new_index keep i = k"
    using new_index_surj [of k keep] keep(3) len by (auto simp: compact_def length_kept)
  with step keep(1) len show ?thesis by auto
qed

text \<open>What is left is everything, or the blocks the entry reaches, renumbered.\<close>

lemma unreachable_elim_cases:
  assumes "b_blocks body \<noteq> []" and "targets_ok (b_blocks body)"
  obtains (all) "unreachable_elim body = Inr body" "\<forall>i < length (b_blocks body). (cfg_edge (b_blocks body))\<^sup>*\<^sup>* 0 i"
  | (some) keep where "unreachable_elim body = Inr (with_blocks body (compact keep (b_blocks body)))"
      "kept_closed keep (b_blocks body)" "keep ! 0"
      "\<forall>i < length (b_blocks body). keep ! i \<longleftrightarrow> (cfg_edge (b_blocks body))\<^sup>*\<^sup>* 0 i"
proof -
  let ?bs = "b_blocks body"
  obtain V where V: "reachable_set ?bs = Inr V" "distinct V" "\<forall>i. i \<in> set V \<longleftrightarrow> (cfg_edge ?bs)\<^sup>*\<^sup>* 0 i"
    "set V \<subseteq> {..<length ?bs}"
    using reachable_set_correct [OF assms(2,1)] by blast
  show thesis
  proof (cases "length V = length ?bs")
    case True
    with V(2,4) have "set V = {..<length ?bs}"
      by (intro card_subset_eq) (simp_all add: distinct_card)
    with V True show ?thesis by (intro all) (auto simp: unreachable_elim_def)
  next
    case False
    let ?keep = "map (\<lambda>i. i \<in> set V) [0..<length ?bs]"
    have "kept_closed ?keep ?bs"
      unfolding kept_closed_def
    proof (intro conjI allI impI ballI)
      fix i s assume i: "i < length ?bs" "?keep ! i" and s: "s \<in> set (block_successors (?bs ! i))"
      with assms(2) show k: "unat s < length ?bs" by (auto simp: targets_ok_def)
      have "cfg_edge ?bs i (unat s)" using i s by (auto simp: cfg_edge_def)
      moreover have "i \<in> set V" using i by simp
      ultimately have "unat s \<in> set V" using V(3) by (metis rtranclp.rtrancl_into_rtrancl)
      with k show "?keep ! unat s" by simp
    qed simp
    moreover have "?keep ! 0" using assms(1) V(3) by auto
    moreover have "unreachable_elim body = Inr (with_blocks body (compact ?keep ?bs))"
      using V(1) False by (simp add: unreachable_elim_def Let_def)
    moreover have "\<forall>i < length ?bs. ?keep ! i \<longleftrightarrow> (cfg_edge ?bs)\<^sup>*\<^sup>* 0 i" using V(3) by simp
    ultimately show thesis using some by blast
  qed
qed

lemma unreachable_elim_runs:
  assumes "b_blocks body \<noteq> []" and "targets_ok (b_blocks body)" and "length (b_blocks body) \<le> 2 ^ 32"
  shows "\<exists>body'. unreachable_elim body = Inr body' \<and>
    (\<forall>n ls. mir_run body' n 0 ls = mir_run body n 0 ls) \<and>
    (\<forall>i < length (b_blocks body'). (cfg_edge (b_blocks body'))\<^sup>*\<^sup>* 0 i)"
using assms(1,2)
proof (cases rule: unreachable_elim_cases)
  case all
  then show ?thesis by auto
next
  case (some keep)
  let ?bs = "b_blocks body"
  have zero: "0 < length ?bs" "0 < length keep" using assms(1) some(2) by (auto simp: kept_closed_def)
  have r0: "remap_idx (remap_table keep 0) 0 = 0" using zero(2) some(3) by (intro remap_zero) simp_all
  have "mir_run (with_blocks body (compact keep ?bs)) n 0 ls = mir_run body n 0 ls" for n ls
    using compact_run [OF some(2) assms(3), of 0 body n ls] zero some(3) r0 by simp
  moreover have "(cfg_edge (compact keep ?bs))\<^sup>*\<^sup>* 0 i" if "i < length (compact keep ?bs)" for i
    using some(4) by (intro compact_reachable [OF some(2) assms(3) _ some(3) that]) simp
  ultimately show ?thesis using some(1) by simp
qed


text \<open>The witness: a body whose block 1 nothing jumps to.\<close>

definition dead_block_body :: Body where
  "dead_block_body = demo_body
     [demo_block [demo_stmt 0 (Use (demo_const 5))] (Goto 2), demo_block [] TerminatorKind.Unreachable,
      demo_block [] TerminatorKind.Return] [Ty_I64]"


section \<open>Merging blocks\<close>

lemma mir_stmts_append: "mir_stmts (xs @ ys) ls = Option.bind (mir_stmts xs ls) (mir_stmts ys)"
  by (induction xs arbitrary: ls) (auto split: Option.bind_splits)

text \<open>Block \<open>p\<close> followed by block \<open>i\<close>.\<close>

definition joined :: "BasicBlockData \<Rightarrow> BasicBlockData \<Rightarrow> BasicBlockData" where
  "joined a b = a\<lparr>bb_statements := bb_statements a @ bb_statements b, bb_terminator := bb_terminator b\<rparr>"

lemma merge_block_eq:
  assumes "p \<noteq> i" "p < length bs" "i < length bs"
  shows "merge_block p i bs = bs[i := (bs ! i)\<lparr>bb_statements := [], bb_terminator := return_terminator\<rparr>,
    p := joined (bs ! p) (bs ! i)]"
  using assms
  by (auto simp: merge_block_def Let_def joined_def nth_list_update list_update_swap [of p i])

lemma merge_block_other: "q \<noteq> p \<Longrightarrow> q \<noteq> i \<Longrightarrow> merge_block p i bs ! q = bs ! q"
  by (simp add: merge_block_def Let_def)

lemma run_block_goes_to:
  "goes_to a i \<Longrightarrow> run_block lts a ls =
     (case mir_stmts (bb_statements a) ls of
        None \<Rightarrow> Inl (Inl AbnormalTermination)
      | Some ls' \<Rightarrow> Inr (of_nat i, ls'))"
  by (auto simp: run_block_def goes_to_def split: TerminatorKind.splits option.split)

lemma run_block_joined:
  assumes "goes_to a i"
  shows "run_block lts (joined a b) ls =
    (case run_block lts a ls of Inl r \<Rightarrow> Inl r | Inr (_, ls') \<Rightarrow> run_block lts b ls')"
  unfolding run_block_goes_to [OF assms]
  by (simp add: run_block_def joined_def mir_stmts_append split: option.split)

text \<open>The blocks not deleted are closed under successors; what a merge of \<open>i\<close> into \<open>p\<close> needs.\<close>

definition alive_closed :: "BasicBlockData list \<Rightarrow> bool list \<Rightarrow> bool" where
  "alive_closed bs del \<longleftrightarrow> length del = length bs \<and>
     (\<forall>q < length bs. \<not> del ! q \<longrightarrow>
        (\<forall>s \<in> set (block_successors (bs ! q)). unat s < length bs \<and> \<not> del ! unat s))"

lemma alive_kept: "alive_closed bs del \<Longrightarrow> kept_closed (map HOL.Not del) bs"
  by (simp add: alive_closed_def kept_closed_def)

definition mergeable :: "BasicBlockData list \<Rightarrow> bool list \<Rightarrow> nat \<Rightarrow> nat \<Rightarrow> bool" where
  "mergeable bs del p i \<longleftrightarrow> alive_closed bs del \<and> p < length bs \<and> \<not> del ! p \<and> i < length bs \<and> \<not> del ! i \<and>
     goes_to (bs ! p) i \<and>
     (\<forall>q < length bs. \<forall>s \<in> set (block_successors (bs ! q)). \<not> del ! q \<and> unat s = i \<longrightarrow> q = p)"

lemma mergeable_next:
  assumes "mergeable bs del p i" "q < length bs" "\<not> del ! q" "q \<noteq> p" "s \<in> set (block_successors (bs ! q))"
  shows "unat s < length bs" "\<not> del ! unat s" "unat s \<noteq> i"
  using assms by (auto simp: mergeable_def alive_closed_def)

definition same_runs :: "Body \<Rightarrow> BasicBlockData list \<Rightarrow> BasicBlockData list \<Rightarrow> nat \<Rightarrow> bool" where
  "same_runs body bs bs' q \<longleftrightarrow> (\<forall>bb ls r. unat bb = q \<longrightarrow>
     (\<exists>n. mir_run (with_blocks body bs) n bb ls = Some r) \<longleftrightarrow> (\<exists>n. mir_run (with_blocks body bs') n bb ls = Some r))"

lemma same_runs_refl: "same_runs body bs bs q"
  by (simp add: same_runs_def)

lemma same_runs_trans: "same_runs body a b q \<Longrightarrow> same_runs body b c q \<Longrightarrow> same_runs body a c q"
  by (simp add: same_runs_def)

lemma mir_run_SucI:
  "(case run_block (b_locals body) (b_blocks body ! unat bb) ls of
      Inl r' \<Rightarrow> r = r' | Inr (t, ls') \<Rightarrow> \<exists>n. mir_run body n t ls' = Some r) \<Longrightarrow>
   \<exists>n. mir_run body n bb ls = Some r"
  by (auto split: sum.splits intro: exI [of _ "Suc _"] simp: mir_run_Suc)

lemma goes_to_less: "goes_to a i \<Longrightarrow> i < 2 ^ 32"
  using idx_index_less by (auto simp: goes_to_def idx_index_def split: TerminatorKind.splits)

lemma merge_runs_forward:
  assumes m: "mergeable bs del p i" and pi: "p \<noteq> i"
    and run: "mir_run (with_blocks body bs) n bb ls = Some r"
    and bb: "unat bb < length bs" "\<not> del ! unat bb" "unat bb \<noteq> i"
  shows "\<exists>n. mir_run (with_blocks body (merge_block p i bs)) n bb ls = Some r"
  using run bb
proof (induction n arbitrary: bb ls rule: less_induct)
  case (less n)
  then obtain k where n: "n = Suc k" by (cases n) auto
  let ?lts = "b_locals body"
  have b: "p < length bs" "i < length bs" "goes_to (bs ! p) i" using m by (simp_all add: mergeable_def)
  note eq = merge_block_eq [OF pi b(1,2)]
  show ?case
  proof (cases "unat bb = p")
    case False
    with less.prems(4) have same: "merge_block p i bs ! unat bb = bs ! unat bb" by (intro merge_block_other)
    show ?thesis
    proof (rule mir_run_SucI, cases "run_block ?lts (bs ! unat bb) ls")
      case (Inl r')
      with less.prems(1) n same show "case run_block (b_locals (with_blocks body (merge_block p i bs)))
          (b_blocks (with_blocks body (merge_block p i bs)) ! unat bb) ls of
        Inl r' \<Rightarrow> r = r' | Inr (t, ls') \<Rightarrow> \<exists>n. mir_run (with_blocks body (merge_block p i bs)) n t ls' = Some r"
        by (simp add: mir_run_Suc)
    next
      case (Inr c)
      obtain t ls' where c: "c = (t, ls')" by fastforce
      with Inr have t: "t \<in> set (block_successors (bs ! unat bb))" by (auto dest: run_block_successor)
      have "mir_run (with_blocks body bs) k t ls' = Some r" using less.prems(1) n Inr c by (simp add: mir_run_Suc)
      from less.IH [OF _ this mergeable_next [OF m less.prems(2,3) False t]] n Inr c same
      show "case run_block (b_locals (with_blocks body (merge_block p i bs)))
          (b_blocks (with_blocks body (merge_block p i bs)) ! unat bb) ls of
        Inl r' \<Rightarrow> r = r' | Inr (t, ls') \<Rightarrow> \<exists>n. mir_run (with_blocks body (merge_block p i bs)) n t ls' = Some r"
        by simp
    qed
  next
    case True
    have i: "unat (of_nat i :: u32) = i" using goes_to_less [OF b(3)] by (simp add: unat_of_nat)
    have new: "merge_block p i bs ! unat bb = joined (bs ! p) (bs ! i)" using eq b True by simp
    show ?thesis
    proof (rule mir_run_SucI, cases "run_block ?lts (bs ! p) ls")
      case (Inl r')
      with less.prems(1) n new True show "case run_block (b_locals (with_blocks body (merge_block p i bs)))
          (b_blocks (with_blocks body (merge_block p i bs)) ! unat bb) ls of
        Inl r' \<Rightarrow> r = r' | Inr (t, ls') \<Rightarrow> \<exists>n. mir_run (with_blocks body (merge_block p i bs)) n t ls' = Some r"
        by (simp add: mir_run_Suc run_block_joined [OF b(3)])
    next
      case (Inr c)
      obtain t1 ls1 where c: "c = (t1, ls1)" by fastforce
      with Inr b(3) have "t1 = of_nat i" by (auto simp: run_block_goes_to split: option.splits)
      with Inr c less.prems(1) n True have "mir_run (with_blocks body bs) k (of_nat i) ls1 = Some r"
        by (simp add: mir_run_Suc)
      then obtain j where k: "k = Suc j" and run2: "mir_run (with_blocks body bs) (Suc j) (of_nat i) ls1 = Some r"
        by (cases k) auto
      have ip: "i < length bs" "\<not> del ! i" "i \<noteq> p" using m pi by (auto simp: mergeable_def)
      show "case run_block (b_locals (with_blocks body (merge_block p i bs)))
          (b_blocks (with_blocks body (merge_block p i bs)) ! unat bb) ls of
        Inl r' \<Rightarrow> r = r' | Inr (t, ls') \<Rightarrow> \<exists>n. mir_run (with_blocks body (merge_block p i bs)) n t ls' = Some r"
      proof (cases "run_block ?lts (bs ! i) ls1")
        case (Inl r')
        with run2 i Inr c new True \<open>run_block ?lts (bs ! p) ls = Inr c\<close> show ?thesis
          by (simp add: mir_run_Suc run_block_joined [OF b(3)])
      next
        case (Inr d)
        obtain t ls' where d: "d = (t, ls')" by fastforce
        with Inr have t: "t \<in> set (block_successors (bs ! i))" by (auto dest: run_block_successor)
        have "mir_run (with_blocks body bs) j t ls' = Some r" using run2 i Inr d by (simp add: mir_run_Suc)
        from less.IH [OF _ this mergeable_next [OF m ip t]] n k Inr d c new True \<open>run_block ?lts (bs ! p) ls = Inr c\<close>
        show ?thesis by (simp add: run_block_joined [OF b(3)])
      qed
    qed
  qed
qed

lemma merge_runs_backward:
  assumes m: "mergeable bs del p i" and pi: "p \<noteq> i"
    and run: "mir_run (with_blocks body (merge_block p i bs)) n bb ls = Some r"
    and bb: "unat bb < length bs" "\<not> del ! unat bb" "unat bb \<noteq> i"
  shows "\<exists>n. mir_run (with_blocks body bs) n bb ls = Some r"
  using run bb
proof (induction n arbitrary: bb ls)
  case 0
  then show ?case by simp
next
  case (Suc n)
  let ?lts = "b_locals body"
  have b: "p < length bs" "i < length bs" "goes_to (bs ! p) i" using m by (simp_all add: mergeable_def)
  note eq = merge_block_eq [OF pi b(1,2)]
  show ?case
  proof (cases "unat bb = p")
    case False
    with Suc.prems(4) have same: "merge_block p i bs ! unat bb = bs ! unat bb" by (intro merge_block_other)
    show ?thesis
    proof (rule mir_run_SucI, cases "run_block ?lts (bs ! unat bb) ls")
      case (Inl r')
      with Suc.prems(1) same show "case run_block (b_locals (with_blocks body bs))
          (b_blocks (with_blocks body bs) ! unat bb) ls of
        Inl r' \<Rightarrow> r = r' | Inr (t, ls') \<Rightarrow> \<exists>n. mir_run (with_blocks body bs) n t ls' = Some r"
        by (simp add: mir_run_Suc)
    next
      case (Inr c)
      obtain t ls' where c: "c = (t, ls')" by fastforce
      with Inr have t: "t \<in> set (block_successors (bs ! unat bb))" by (auto dest: run_block_successor)
      have "mir_run (with_blocks body (merge_block p i bs)) n t ls' = Some r"
        using Suc.prems(1) Inr c same by (simp add: mir_run_Suc)
      from Suc.IH [OF this mergeable_next [OF m Suc.prems(2,3) False t]] Inr c
      show "case run_block (b_locals (with_blocks body bs)) (b_blocks (with_blocks body bs) ! unat bb) ls of
        Inl r' \<Rightarrow> r = r' | Inr (t, ls') \<Rightarrow> \<exists>n. mir_run (with_blocks body bs) n t ls' = Some r"
        by simp
    qed
  next
    case True
    have i: "unat (of_nat i :: u32) = i" using goes_to_less [OF b(3)] by (simp add: unat_of_nat)
    have new: "merge_block p i bs ! unat bb = joined (bs ! p) (bs ! i)" using eq b True by simp
    have ip: "i < length bs" "\<not> del ! i" "i \<noteq> p" using m pi by (auto simp: mergeable_def)
    show ?thesis
    proof (cases "run_block ?lts (bs ! p) ls")
      case (Inl r')
      with Suc.prems(1) new have "r = r'" by (simp add: mir_run_Suc run_block_joined [OF b(3)])
      with Inl True show ?thesis by (intro mir_run_SucI) simp
    next
      case (Inr c)
      obtain t1 ls1 where c: "c = (t1, ls1)" by fastforce
      with Inr b(3) have t1: "t1 = of_nat i" by (auto simp: run_block_goes_to split: option.splits)
      have "\<exists>n. mir_run (with_blocks body bs) n (of_nat i) ls1 = Some r"
      proof (cases "run_block ?lts (bs ! i) ls1")
        case (Inl r')
        with Suc.prems(1) Inr c new i show ?thesis
          by (intro mir_run_SucI) (simp add: mir_run_Suc run_block_joined [OF b(3)])
      next
        case (Inr d)
        obtain t ls' where d: "d = (t, ls')" by fastforce
        with Inr have t: "t \<in> set (block_successors (bs ! i))" by (auto dest: run_block_successor)
        have "mir_run (with_blocks body (merge_block p i bs)) n t ls' = Some r"
          using Suc.prems(1) \<open>run_block ?lts (bs ! p) ls = Inr c\<close> c new Inr d
          by (simp add: mir_run_Suc run_block_joined [OF b(3)])
        from Suc.IH [OF this mergeable_next [OF m ip t]] Inr d i show ?thesis by (intro mir_run_SucI) simp
      qed
      with Inr c t1 True show ?thesis by (intro mir_run_SucI) simp
    qed
  qed
qed

text \<open>Two lists of blocks that agree on a set closed under successors run alike from it.\<close>

lemma same_blocks_run:
  assumes "\<And>q s. A q \<Longrightarrow> s \<in> set (block_successors (bs ! q)) \<Longrightarrow> A (unat s)"
    and "\<And>q. A q \<Longrightarrow> bs' ! q = bs ! q" and "A (unat bb)"
  shows "mir_run (with_blocks body bs') n bb ls = mir_run (with_blocks body bs) n bb ls"
  using assms(3)
proof (induction n arbitrary: bb ls)
  case 0
  then show ?case by simp
next
  case (Suc n)
  show ?case
  proof (cases "run_block (b_locals body) (bs ! unat bb) ls")
    case (Inl r)
    with assms(2) [OF Suc.prems] show ?thesis by (simp add: mir_run_Suc)
  next
    case (Inr c)
    obtain t ls' where c: "c = (t, ls')" by fastforce
    with Inr have "A (unat t)" using assms(1) [OF Suc.prems] by (auto dest: run_block_successor)
    with Suc.IH Inr c assms(2) [OF Suc.prems] show ?thesis by (simp add: mir_run_Suc)
  qed
qed

lemma merge_same_runs:
  assumes m: "mergeable bs del p i" and q: "q < length bs" "\<not> del ! q" "q \<noteq> i"
  shows "same_runs body bs (merge_block p i bs) q"
proof (cases "p = i")
  case False
  with merge_runs_forward [OF m False] merge_runs_backward [OF m False] q show ?thesis
    by (auto simp: same_runs_def)
next
  case True
  have "mir_run (with_blocks body (merge_block p i bs)) n bb ls = mir_run (with_blocks body bs) n bb ls"
    if "unat bb = q" for n bb ls
  proof (rule same_blocks_run [where A = "\<lambda>q. q < length bs \<and> \<not> del ! q \<and> q \<noteq> i"])
    fix k s assume "k < length bs \<and> \<not> del ! k \<and> k \<noteq> i" "s \<in> set (block_successors (bs ! k))"
    with True mergeable_next [OF m, of k s] show "unat s < length bs \<and> \<not> del ! unat s \<and> unat s \<noteq> i" by simp
  next
    fix k assume "k < length bs \<and> \<not> del ! k \<and> k \<noteq> i"
    with True merge_block_other show "merge_block p i bs ! k = bs ! k" by simp
  qed (use q that in simp)
  then show ?thesis by (simp add: same_runs_def)
qed

lemma block_successors_joined [simp]: "block_successors (joined a b) = block_successors b"
  by (simp add: block_successors_def joined_def)

lemma goes_to_successors: "goes_to a i \<Longrightarrow> \<exists>s. block_successors a = [s] \<and> unat s = i"
  by (auto simp: goes_to_def block_successors_def split: TerminatorKind.splits)

lemma merge_closed:
  assumes m: "mergeable bs del p i"
  shows "alive_closed (merge_block p i bs) (del[i := True])"
  unfolding alive_closed_def
proof (intro conjI allI impI ballI)
  show "length (del[i := True]) = length (merge_block p i bs)" using m by (simp add: mergeable_def alive_closed_def)
  fix q s
  assume q: "q < length (merge_block p i bs)" "\<not> del[i := True] ! q"
    and s: "s \<in> set (block_successors (merge_block p i bs ! q))"
  have l: "length del = length bs" and il: "i < length bs" and di: "\<not> del ! i"
    using m by (simp_all add: mergeable_def alive_closed_def)
  have q': "q < length bs" "\<not> del ! q" "q \<noteq> i"
    using q l il by (auto simp: nth_list_update split: if_splits)
  have "unat s < length bs \<and> \<not> del ! unat s \<and> unat s \<noteq> i"
  proof (cases "q = p")
    case True
    then have pi: "p \<noteq> i" using q'(3) by simp
    have b: "p < length bs" "i < length bs" using m by (simp_all add: mergeable_def)
    have "s \<in> set (block_successors (bs ! i))" using s True merge_block_eq [OF pi b] b by simp
    with mergeable_next [OF m il di pi [symmetric]] show ?thesis by blast
  next
    case False
    with q' s merge_block_other have "s \<in> set (block_successors (bs ! q))" by simp
    with mergeable_next [OF m q'(1,2) False] show ?thesis by blast
  qed
  then show "unat s < length (merge_block p i bs)" "\<not> del[i := True] ! unat s"
    using l by (auto simp: nth_list_update)
qed

section \<open>One round of merges\<close>

text \<open>The predecessor table is computed once per round; every terminator found on a block that is
  still alive comes from that block or from a deleted one.\<close>

definition round_inv ::
    "Body \<Rightarrow> BasicBlockData list \<Rightarrow> BasicBlockData list \<times> bool list \<Rightarrow> bool" where
  "round_inv body bs0 = (\<lambda>(bs, del). length bs = length bs0 \<and> alive_closed bs del \<and> \<not> del ! 0 \<and>
     (\<forall>q < length bs. \<not> del ! q \<longrightarrow>
        same_runs body bs0 bs q \<and>
        (\<exists>r < length bs. (r = q \<or> del ! r) \<and> block_successors (bs ! q) = block_successors (bs0 ! r))))"

lemma preds_of_mem: "p \<in> set (preds_of bs j) \<longleftrightarrow> cfg_edge bs p j"
  by (auto simp: preds_of_def cfg_edge_def)

lemma merge_step_inv:
  assumes inv: "round_inv body bs0 (bs, del)" and i: "0 < i" "i < length bs0"
  shows "round_inv body bs0 (merge_step (preds_of bs0) i (bs, del))"
proof (cases "\<exists>p. \<not> del ! i \<and> preds_of bs0 i = [p] \<and> \<not> del ! p \<and> goes_to (bs ! p) i")
  case False
  then have "merge_step (preds_of bs0) i (bs, del) = (bs, del)"
    by (auto simp: merge_step_def split: list.split)
  with inv show ?thesis by simp
next
  case True
  then obtain p where p: "\<not> del ! i" "preds_of bs0 i = [p]" "\<not> del ! p" "goes_to (bs ! p) i" by blast
  have l0: "length bs = length bs0" and cl: "alive_closed bs del" and z: "\<not> del ! 0"
    using inv by (simp_all add: round_inv_def)
  have l: "length bs = length bs0" "length del = length bs" using l0 cl by (simp_all add: alive_closed_def)
  have "cfg_edge bs0 p i" using p(2) preds_of_mem [of p bs0 i] by simp
  then have pl: "p < length bs" using l by (simp add: cfg_edge_def)
  have only: "q = p" if "q < length bs" "s \<in> set (block_successors (bs ! q))" "\<not> del ! q" "unat s = i" for q s
  proof -
    note q = that
    obtain r where r: "r < length bs" "r = q \<or> del ! r" "block_successors (bs ! q) = block_successors (bs0 ! r)"
      using inv q(1,3) by (auto simp: round_inv_def)
    with q l have "cfg_edge bs0 r i" by (auto simp: cfg_edge_def)
    with p(2) preds_of_mem [of r bs0 i] have "r = p" by simp
    with r(2) p(3) show ?thesis by simp
  qed
  have m: "mergeable bs del p i"
    using cl p pl i l only by (auto simp: mergeable_def)
  have st: "merge_step (preds_of bs0) i (bs, del) = (merge_block p i bs, del[i := True])"
    using p by (simp add: merge_step_def)
  show ?thesis
    unfolding st round_inv_def prod.case
  proof (intro conjI allI impI)
    show "length (merge_block p i bs) = length bs0" using l by simp
    show "alive_closed (merge_block p i bs) (del[i := True])" using m by (rule merge_closed)
    show "\<not> del[i := True] ! 0" using z i by simp
  next
    fix q assume q: "q < length (merge_block p i bs)" "\<not> del[i := True] ! q"
    then have q': "q < length bs" "\<not> del ! q" "q \<noteq> i" using l i by (auto simp: nth_list_update split: if_splits)
    with inv have "same_runs body bs0 bs q" by (simp add: round_inv_def)
    with merge_same_runs [OF m q'] show "same_runs body bs0 (merge_block p i bs) q" by (blast intro: same_runs_trans)
    have old: "\<exists>r < length bs. (r = k \<or> del ! r) \<and> block_successors (bs ! k) = block_successors (bs0 ! r)"
      if "k < length bs" "\<not> del ! k" for k
      using inv that unfolding round_inv_def prod.case by blast
    show "\<exists>r < length (merge_block p i bs). (r = q \<or> del[i := True] ! r) \<and>
        block_successors (merge_block p i bs ! q) = block_successors (bs0 ! r)"
    proof (cases "q = p")
      case False
      with q' merge_block_other have "merge_block p i bs ! q = bs ! q" by simp
      from old [OF q'(1,2)] obtain r where r: "r < length bs" "r = q \<or> del ! r"
        "block_successors (bs ! q) = block_successors (bs0 ! r)" by blast
      with \<open>merge_block p i bs ! q = bs ! q\<close> l i show ?thesis
        by (intro exI [of _ r]) (auto simp: nth_list_update)
    next
      case True
      with q' have pi: "p \<noteq> i" by simp
      have il: "i < length bs" using i l by simp
      from old [OF il p(1)] obtain r where "r < length bs" "r = i \<or> del ! r"
        "block_successors (bs ! i) = block_successors (bs0 ! r)" by blast
      with True merge_block_eq [OF pi pl il] pl il l show ?thesis
        by (intro exI [of _ r]) (auto simp: nth_list_update)
    qed
  qed
qed

lemma merge_fold_inv:
  "round_inv body bs0 st \<Longrightarrow> (\<forall>i \<in> set is. 0 < i \<and> i < length bs0) \<Longrightarrow>
   round_inv body bs0 (fold (merge_step (preds_of bs0)) is st)"
proof (induction "is" arbitrary: st)
  case Nil
  then show ?case by simp
next
  case (Cons i "is")
  obtain bs del where st: "st = (bs, del)" by fastforce
  have "round_inv body bs0 (merge_step (preds_of bs0) i st)"
    unfolding st by (rule merge_step_inv) (use Cons.prems st in simp_all)
  with Cons show ?case by simp
qed

lemma merge_pass_inv:
  assumes "targets_ok bs" "bs \<noteq> []"
  shows "round_inv body bs (merge_pass bs)"
proof -
  have "alive_closed bs (replicate (length bs) False)"
    unfolding alive_closed_def
  proof (intro conjI allI impI ballI)
    fix q s assume "q < length bs" "s \<in> set (block_successors (bs ! q))"
    with assms(1) show "unat s < length bs" by (auto simp: targets_ok_def)
    then show "\<not> replicate (length bs) False ! unat s" by simp
  qed simp
  then have "round_inv body bs (bs, replicate (length bs) False)"
    using assms(2) by (auto simp: round_inv_def same_runs_refl)
  then show ?thesis unfolding merge_pass_def by (rule merge_fold_inv) auto
qed

text \<open>A round that deletes nothing changes nothing.\<close>

lemma merge_step_cases:
  "merge_step preds i (bs, del) = (bs, del) \<or> (\<exists>bs'. merge_step preds i (bs, del) = (bs', del[i := True]))"
  by (auto simp: merge_step_def split: list.split)

lemma merge_fold_keeps_deletes:
  "True \<in> set del \<Longrightarrow> True \<in> set (snd (fold (merge_step preds) is (bs, del)))"
proof (induction "is" arbitrary: bs del)
  case Nil
  then show ?case by simp
next
  case (Cons i "is")
  obtain k where k: "k < length del" "del ! k" using Cons.prems by (auto simp: in_set_conv_nth)
  then have "del[i := True] ! k" by (cases "k = i") simp_all
  with k(1) have "True \<in> set (del[i := True])" by (auto simp: in_set_conv_nth intro!: exI [of _ k])
  with Cons merge_step_cases [of preds i bs del] show ?case by auto
qed

lemma merge_fold_unchanged:
  "\<forall>i \<in> set is. i < length del \<Longrightarrow> fold (merge_step preds) is (bs, del) = (bs', del') \<Longrightarrow> True \<notin> set del' \<Longrightarrow>
   bs' = bs"
proof (induction "is" arbitrary: bs del)
  case Nil
  then show ?case by simp
next
  case (Cons i "is")
  show ?case
  proof (cases "merge_step preds i (bs, del) = (bs, del)")
    case True
    with Cons show ?thesis by auto
  next
    case False
    then obtain bs1 where s: "merge_step preds i (bs, del) = (bs1, del[i := True])"
      using merge_step_cases by blast
    have "True \<in> set (del[i := True])" using Cons.prems(1) by (simp add: set_update_memI)
    from merge_fold_keeps_deletes [OF this, of preds "is" bs1] Cons.prems(2,3) s show ?thesis by simp
  qed
qed

lemma merge_pass_unchanged: "merge_pass bs = (bs', del') \<Longrightarrow> True \<notin> set del' \<Longrightarrow> bs' = bs"
  unfolding merge_pass_def by (rule merge_fold_unchanged) auto

section \<open>The whole pass\<close>

declare cfg_loop.simps [simp del]

lemma cfg_loop_correct:
  assumes "targets_ok bs" "bs \<noteq> []" "length bs \<le> 2 ^ 32"
  shows "same_runs body bs (cfg_loop bs) 0 \<and> targets_ok (cfg_loop bs) \<and> cfg_loop bs \<noteq> [] \<and>
    length (cfg_loop bs) \<le> length bs \<and> True \<notin> set (snd (merge_pass (cfg_loop bs)))"
  using assms
proof (induction bs rule: cfg_loop.induct)
  case (1 bs)
  obtain bs1 del where mp: "merge_pass bs = (bs1, del)" by fastforce
  note inv = merge_pass_inv [OF "1.prems"(1,2), of body, unfolded mp round_inv_def prod.case]
  have l: "length bs1 = length bs" "length del = length bs" using merge_pass_lengths [OF mp] by simp_all
  have ne: "0 < length bs" using "1.prems"(2) by simp
  then have "0 < length bs1" using l by simp
  with inv have runs: "same_runs body bs bs1 0" by blast
  show ?case
  proof (cases "True \<in> set del")
    case False
    with merge_pass_unchanged [OF mp] have "bs1 = bs" by simp
    with False mp "1.prems" show ?thesis by (simp add: cfg_loop.simps [of bs] same_runs_refl)
  next
    case True
    let ?c = "compact (map HOL.Not del) bs1"
    have cl: "kept_closed (map HOL.Not del) bs1" using inv alive_kept by blast
    have z: "0 < length del" "map HOL.Not del ! 0" using inv ne l by simp_all
    have sz: "length bs1 \<le> 2 ^ 32" using "1.prems"(3) l by simp
    have r0: "remap_idx (remap_table (map HOL.Not del) 0) 0 = 0" using z by (intro remap_zero) simp_all
    have "mir_run (with_blocks body ?c) n 0 ls = mir_run (with_blocks body bs1) n 0 ls" for n ls
      using compact_run [OF cl sz, of 0 body n ls] z l r0 by simp
    then have "same_runs body bs1 ?c 0" by (auto simp: same_runs_def word_unat_eq_iff [symmetric] unat_eq_zero)
    with runs have runs': "same_runs body bs ?c 0" by (rule same_runs_trans)
    have "0 < length ?c" using compact_at [of "map HOL.Not del" bs1 0] z l by simp
    moreover have "length ?c \<le> length bs"
      using l length_filter_le [of id "map HOL.Not del"] by (simp add: compact_def length_kept del: filter_map)
    ultimately have c: "targets_ok ?c" "?c \<noteq> []" "length ?c \<le> length bs"
      using compact_targets_ok [OF cl sz] by auto
    with "1.prems"(3) "1.IH" [OF mp [symmetric] True] have
      "same_runs body ?c (cfg_loop ?c) 0 \<and> targets_ok (cfg_loop ?c) \<and> cfg_loop ?c \<noteq> [] \<and>
       length (cfg_loop ?c) \<le> length ?c \<and> True \<notin> set (snd (merge_pass (cfg_loop ?c)))" by simp
    with runs' c(3) True mp show ?thesis
      by (auto simp: cfg_loop.simps [of bs] intro: same_runs_trans)
  qed
qed



end
