(* ===== verification/Opt_Validate.thy ===== *)
theory Opt_Validate
  imports Opt_Cfg_Props
begin

text \<open>
  \<open>crates/glyim-opt/src/validate.rs\<close>: the well-formedness check that opens \<open>optimize\<close>.
  \<open>needs_drop\<close> (\<open>TyCtx::needs_drop\<close>) is an argument.  \<open>Inl None\<close> is a panic of
  \<open>Place::ty\<close>, \<open>Inl (Some e)\<close> the \<open>Err(e)\<close> of the first violation.
\<close>

datatype MirValidationErrorKind = UnknownTarget BasicBlockIdx
  | UnnecessaryDrop (ud_place: Place) (ud_ty: Ty)
  | NonTerminalSliceProjection | SubsliceAfterDesugar

record MirValidationError =
  mve_kind :: MirValidationErrorKind
  mve_span :: Span

type_synonym validation = "MirValidationError option + unit"

definition invalid :: "MirValidationErrorKind \<Rightarrow> Span \<Rightarrow> validation" where
  "invalid k sp = Inl (Some \<lparr>mve_kind = k, mve_span = sp\<rparr>)"

definition and_then :: "validation \<Rightarrow> validation \<Rightarrow> validation" where
  "and_then a b = (case a of Inl e \<Rightarrow> Inl e | Inr _ \<Rightarrow> b)"

fun check_each :: "('a \<Rightarrow> validation) \<Rightarrow> 'a list \<Rightarrow> validation" where
  "check_each f [] = Inr ()"
| "check_each f (x # xs) = and_then (f x) (check_each f xs)"

definition is_slice_elem :: "ProjectionElem \<Rightarrow> bool" where
  "is_slice_elem p = (case p of ConstantIndex _ _ _ \<Rightarrow> True | Subslice _ _ _ \<Rightarrow> True | _ \<Rightarrow> False)"

fun visit_projection :: "ProjectionElem list \<Rightarrow> validation" where
  "visit_projection [] = Inr ()"
| "visit_projection (p # ps) =
     (if is_slice_elem p \<and> ps \<noteq> [] then invalid NonTerminalSliceProjection Span_DUMMY
      else visit_projection ps)"

definition visit_operand :: "Operand \<Rightarrow> validation" where
  "visit_operand o' = (case o' of
     Copy p \<Rightarrow> visit_projection (pl_projection p)
   | Move p \<Rightarrow> visit_projection (pl_projection p)
   | Constant _ \<Rightarrow> Inr ())"

fun check_rvalue_places :: "Rvalue \<Rightarrow> validation" where
  "check_rvalue_places (Use o') = visit_operand o'"
| "check_rvalue_places (UnaryOp _ o') = visit_operand o'"
| "check_rvalue_places (Rvalue.Ref p _) = visit_projection (pl_projection p)"
| "check_rvalue_places (BinaryOp _ l r) = and_then (visit_operand l) (visit_operand r)"
| "check_rvalue_places (Rvalue.Aggregate _ os) = check_each visit_operand os"
| "check_rvalue_places (Rvalue.Discriminant p) = visit_projection (pl_projection p)"
| "check_rvalue_places (Rvalue.Len p) = visit_projection (pl_projection p)"
| "check_rvalue_places (Rvalue.Cast _ o' _) = visit_operand o'"
| "check_rvalue_places (Rvalue.Repeat o' _) = visit_operand o'"

definition check_stmt :: "Statement \<Rightarrow> validation" where
  "check_stmt s = (case st_kind s of Assign _ rv \<Rightarrow> check_rvalue_places rv | _ \<Rightarrow> Inr ())"

definition check_target :: "nat \<Rightarrow> Span \<Rightarrow> BasicBlockIdx \<Rightarrow> validation" where
  "check_target n_blocks sp t = (if unat t < n_blocks then Inr () else invalid (UnknownTarget t) sp)"

definition check_drop :: "TypeLookup \<Rightarrow> (Ty \<Rightarrow> bool) \<Rightarrow> LocalDecl IndexVec \<Rightarrow> Span \<Rightarrow> Place \<Rightarrow> validation" where
  "check_drop ctx needs_drop locals sp p =
     (case place_ty ctx p locals of
        Inl _ \<Rightarrow> Inl None
      | Inr ty \<Rightarrow> if needs_drop ty then Inr () else invalid (UnnecessaryDrop p ty) sp)"

fun check_terminator ::
    "TypeLookup \<Rightarrow> (Ty \<Rightarrow> bool) \<Rightarrow> LocalDecl IndexVec \<Rightarrow> nat \<Rightarrow> Span \<Rightarrow> TerminatorKind \<Rightarrow> validation" where
  "check_terminator ctx nd ls n sp (Goto t) = check_target n sp t"
| "check_terminator ctx nd ls n sp (TerminatorKind.Drop p t cleanup) =
     and_then (check_target n sp t)
       (and_then (check_each (check_target n sp) (opt_list cleanup)) (check_drop ctx nd ls sp p))"
| "check_terminator ctx nd ls n sp (TerminatorKind.Assert _ _ t cleanup _) =
     and_then (check_target n sp t) (check_each (check_target n sp) (opt_list cleanup))"
| "check_terminator ctx nd ls n sp (SwitchInt _ _ targets) =
     and_then (check_target n sp (sw_otherwise targets))
       (check_each (check_target n sp) (map snd (sw_branches targets)))"
| "check_terminator ctx nd ls n sp (TerminatorKind.Call _ _ _ t cleanup) =
     and_then (check_each (check_target n sp) (opt_list t)) (check_each (check_target n sp) (opt_list cleanup))"
| "check_terminator ctx nd ls n sp _ = Inr ()"

definition check_block ::
    "TypeLookup \<Rightarrow> (Ty \<Rightarrow> bool) \<Rightarrow> LocalDecl IndexVec \<Rightarrow> nat \<Rightarrow> BasicBlockData \<Rightarrow> validation" where
  "check_block ctx nd ls n bb =
     and_then (check_each check_stmt (bb_statements bb))
       (check_terminator ctx nd ls n (si_span (te_source_info (bb_terminator bb))) (te_kind (bb_terminator bb)))"

definition validate_body :: "TypeLookup \<Rightarrow> (Ty \<Rightarrow> bool) \<Rightarrow> Body \<Rightarrow> validation" where
  "validate_body ctx needs_drop body =
     check_each (check_block ctx needs_drop (b_locals body) (length (b_blocks body))) (b_blocks body)"

section \<open>No slices after desugaring\<close>

definition has_subslice :: "Place \<Rightarrow> bool" where
  "has_subslice p \<longleftrightarrow> (\<exists>e \<in> set (pl_projection p). case e of Subslice _ _ _ \<Rightarrow> True | _ \<Rightarrow> False)"

fun rvalue_place :: "Rvalue \<Rightarrow> Place option" where
  "rvalue_place (Rvalue.Ref p _) = Some p"
| "rvalue_place (Rvalue.Discriminant p) = Some p"
| "rvalue_place (Rvalue.Len p) = Some p"
| "rvalue_place (Use (Copy p)) = Some p"
| "rvalue_place (Use (Move p)) = Some p"
| "rvalue_place _ = None"

definition first_stmt_span :: "BasicBlockData \<Rightarrow> Span" where
  "first_stmt_span bb = (case bb_statements bb of [] \<Rightarrow> Span_DUMMY | s # _ \<Rightarrow> si_span (st_source_info s))"

definition stmt_subslice :: "Statement \<Rightarrow> bool" where
  "stmt_subslice s = (case st_kind s of
     Assign _ rv \<Rightarrow> (case rvalue_place rv of Some p \<Rightarrow> has_subslice p | None \<Rightarrow> False) | _ \<Rightarrow> False)"

definition check_no_subslice :: "BasicBlockData \<Rightarrow> validation" where
  "check_no_subslice bb =
     and_then
       (check_each (\<lambda>s. if stmt_subslice s then invalid SubsliceAfterDesugar (first_stmt_span bb) else Inr ())
         (bb_statements bb))
       (case te_kind (bb_terminator bb) of
          TerminatorKind.Drop p _ _ \<Rightarrow>
            (if has_subslice p
             then invalid SubsliceAfterDesugar (si_span (te_source_info (bb_terminator bb))) else Inr ())
        | _ \<Rightarrow> Inr ())"

definition validate_no_subslice :: "Body \<Rightarrow> validation" where
  "validate_no_subslice body = check_each check_no_subslice (b_blocks body)"

section \<open>What a valid body satisfies\<close>

lemma and_then_ok [simp]: "and_then a b = Inr () \<longleftrightarrow> a = Inr () \<and> b = Inr ()"
  by (auto simp: and_then_def split: sum.split)

lemma check_each_ok [simp]: "check_each f xs = Inr () \<longleftrightarrow> (\<forall>x \<in> set xs. f x = Inr ())"
  by (induction xs) auto

lemma invalid_not_ok [simp]: "invalid k sp \<noteq> Inr ()"
  by (simp add: invalid_def)

lemma check_target_ok [simp]: "check_target n sp t = Inr () \<longleftrightarrow> unat t < n"
  by (simp add: check_target_def)

definition slices_last :: "ProjectionElem list \<Rightarrow> bool" where
  "slices_last ps \<longleftrightarrow> (\<forall>p \<in> set (butlast ps). \<not> is_slice_elem p)"

lemma visit_projection_ok [simp]: "visit_projection ps = Inr () \<longleftrightarrow> slices_last ps"
  by (induction ps) (auto simp: slices_last_def)

definition operand_slices_last :: "Operand \<Rightarrow> bool" where
  "operand_slices_last o' = (case o' of Copy p \<Rightarrow> slices_last (pl_projection p)
     | Move p \<Rightarrow> slices_last (pl_projection p) | Constant _ \<Rightarrow> True)"

lemma visit_operand_ok [simp]: "visit_operand o' = Inr () \<longleftrightarrow> operand_slices_last o'"
  by (simp add: visit_operand_def operand_slices_last_def split: Operand.split)

fun rvalue_slices_last :: "Rvalue \<Rightarrow> bool" where
  "rvalue_slices_last (Use o') \<longleftrightarrow> operand_slices_last o'"
| "rvalue_slices_last (UnaryOp _ o') \<longleftrightarrow> operand_slices_last o'"
| "rvalue_slices_last (Rvalue.Ref p _) \<longleftrightarrow> slices_last (pl_projection p)"
| "rvalue_slices_last (BinaryOp _ l r) \<longleftrightarrow> operand_slices_last l \<and> operand_slices_last r"
| "rvalue_slices_last (Rvalue.Aggregate _ os) \<longleftrightarrow> (\<forall>o' \<in> set os. operand_slices_last o')"
| "rvalue_slices_last (Rvalue.Discriminant p) \<longleftrightarrow> slices_last (pl_projection p)"
| "rvalue_slices_last (Rvalue.Len p) \<longleftrightarrow> slices_last (pl_projection p)"
| "rvalue_slices_last (Rvalue.Cast _ o' _) \<longleftrightarrow> operand_slices_last o'"
| "rvalue_slices_last (Rvalue.Repeat o' _) \<longleftrightarrow> operand_slices_last o'"

lemma check_rvalue_places_ok [simp]: "check_rvalue_places rv = Inr () \<longleftrightarrow> rvalue_slices_last rv"
  by (cases rv) simp_all

definition drop_ok :: "TypeLookup \<Rightarrow> (Ty \<Rightarrow> bool) \<Rightarrow> LocalDecl IndexVec \<Rightarrow> TerminatorKind \<Rightarrow> bool" where
  "drop_ok ctx nd ls t = (case t of
     TerminatorKind.Drop p _ _ \<Rightarrow> (case place_ty ctx p ls of Inl _ \<Rightarrow> False | Inr ty \<Rightarrow> nd ty)
   | _ \<Rightarrow> True)"

lemma check_terminator_ok:
  "check_terminator ctx nd ls n sp t = Inr () \<longleftrightarrow>
     (\<forall>s \<in> set (terminator_successors t). unat s < n) \<and> drop_ok ctx nd ls t"
  by (cases t) (auto simp: drop_ok_def check_drop_def split: sum.split)

text \<open>
  C20. The validator accepts exactly the bodies in which every successor of every block exists
  (cleanup edges included), every \<open>ConstantIndex\<close> or \<open>Subslice\<close> projection an assigned rvalue
  reads is the last of its place, and every dropped place has a type that needs dropping.
\<close>

theorem validate_body_exact:
  "validate_body ctx needs_drop body = Inr () \<longleftrightarrow>
     targets_ok (b_blocks body) \<and>
     (\<forall>bb \<in> set (b_blocks body). \<forall>s \<in> set (bb_statements bb). \<forall>p rv.
        st_kind s = Assign p rv \<longrightarrow> rvalue_slices_last rv) \<and>
     (\<forall>bb \<in> set (b_blocks body). drop_ok ctx needs_drop (b_locals body) (te_kind (bb_terminator bb)))"
proof -
  have "check_stmt s = Inr () \<longleftrightarrow> (\<forall>p rv. st_kind s = Assign p rv \<longrightarrow> rvalue_slices_last rv)" for s
    by (cases "st_kind s") (simp_all add: check_stmt_def)
  then show ?thesis
    by (auto simp: validate_body_def check_block_def check_terminator_ok targets_ok_def block_successors_def)
qed

lemma validate_body_exact_witness:
  "\<forall>ctx needs_drop. validate_body ctx needs_drop product_body = Inr () \<and>
     validate_body ctx needs_drop (demo_body [demo_block [] (Goto 1)] []) \<noteq> Inr ()"
proof (intro allI)
  fix ctx needs_drop
  show "validate_body ctx needs_drop product_body = Inr () \<and>
     validate_body ctx needs_drop (demo_body [demo_block [] (Goto 1)] []) \<noteq> Inr ()"
    using validate_body_exact [of ctx needs_drop product_body]
      validate_body_exact [of ctx needs_drop "demo_body [demo_block [] (Goto 1)] []"]
    by (simp add: product_body_def demo_simps targets_ok_def block_successors_def drop_ok_def
        operand_slices_last_def slices_last_def)
qed

end
