(* ===== verification/Bitset.thy ===== *)
theory Bitset
  imports Opt_Cfg
begin

text \<open>
  What the borrow checker's analyses share: sequencing of steps that may panic, the bit sets of
  the crate \<open>fixedbitset\<close> and the worklist loop.

  \<open>fixedbitset\<close> is not part of the repository.  Its sets are an arbitrary type \<open>'b\<close> with the
  operations of the record \<open>BitSetOps\<close>; \<open>bitset_laws\<close> states their documented behaviour.  The
  bounds assertion of \<open>insert\<close> and \<open>remove\<close> is written out in \<open>bit_insert\<close> and \<open>bit_remove\<close>.
\<close>

section \<open>Steps that may panic\<close>

definition pbind :: "'e + 'a \<Rightarrow> ('a \<Rightarrow> 'e + 'b) \<Rightarrow> 'e + 'b" where
  "pbind m f = (case m of Inl e \<Rightarrow> Inl e | Inr x \<Rightarrow> f x)"

lemma pbind_simps [simp]: "pbind (Inl e) f = Inl e" "pbind (Inr x) f = f x"
  by (simp_all add: pbind_def)

lemma pbind_Inr_iff: "pbind m f = Inr y \<longleftrightarrow> (\<exists>x. m = Inr x \<and> f x = Inr y)"
  by (cases m) simp_all

lemma pbind_assoc: "pbind (pbind m f) g = pbind m (\<lambda>x. pbind (f x) g)"
  by (cases m) simp_all

fun pfold :: "('a \<Rightarrow> 's \<Rightarrow> 'e + 's) \<Rightarrow> 'a list \<Rightarrow> 's \<Rightarrow> 'e + 's" where
  "pfold f [] s = Inr s"
| "pfold f (x # xs) s = pbind (f x s) (pfold f xs)"

lemma pfold_append: "pfold f (xs @ ys) s = pbind (pfold f xs s) (pfold f ys)"
proof (induction xs arbitrary: s)
  case (Cons x xs)
  then show ?case by (cases "f x s") simp_all
qed simp

text \<open>A fold all of whose steps succeed and keep an invariant.\<close>

lemma pfold_invariant:
  assumes "P s" and "\<And>x s. x \<in> set xs \<Longrightarrow> P s \<Longrightarrow> \<exists>s'. f x s = Inr s' \<and> P s'"
  shows "\<exists>s'. pfold f xs s = Inr s' \<and> P s'"
  using assms
proof (induction xs arbitrary: s)
  case (Cons x xs)
  from Cons.prems obtain s1 where "f x s = Inr s1" "P s1" by force
  with Cons.IH [of s1] Cons.prems(2) show ?case by auto
qed simp

fun pmap :: "('a \<Rightarrow> 'e + 'b) \<Rightarrow> 'a list \<Rightarrow> 'e + 'b list" where
  "pmap f [] = Inr []"
| "pmap f (x # xs) = pbind (f x) (\<lambda>y. pbind (pmap f xs) (\<lambda>ys. Inr (y # ys)))"

lemma pmap_Inr_iff: "pmap f xs = Inr ys \<longleftrightarrow> list_all2 (\<lambda>x y. f x = Inr y) xs ys"
  by (induction xs arbitrary: ys) (auto simp: pbind_Inr_iff list_all2_Cons1)

lemma pmap_total:
  assumes "\<And>x. x \<in> set xs \<Longrightarrow> \<exists>y. f x = Inr y"
  shows "\<exists>ys. pmap f xs = Inr ys"
  using assms
proof (induction xs)
  case (Cons x xs)
  then obtain y ys where "f x = Inr y" "pmap f xs = Inr ys" by fastforce
  then show ?case by simp
qed simp

definition vec_index :: "'a list \<Rightarrow> nat \<Rightarrow> panicked + 'a" where
  "vec_index xs i = (if i < length xs then Inr (xs ! i) else Inl Panicked)"

definition vec_set :: "nat \<Rightarrow> 'a \<Rightarrow> 'a list \<Rightarrow> panicked + 'a list" where
  "vec_set i x xs = (if i < length xs then Inr (xs[i := x]) else Inl Panicked)"

lemma vec_index_Inr [simp]: "i < length xs \<Longrightarrow> vec_index xs i = Inr (xs ! i)"
  by (simp add: vec_index_def)

lemma vec_set_Inr [simp]: "i < length xs \<Longrightarrow> vec_set i x xs = Inr (xs[i := x])"
  by (simp add: vec_set_def)

section \<open>Bit sets\<close>

record 'b BitSetOps =
  bs_with_capacity :: "nat \<Rightarrow> 'b"
  bs_len :: "'b \<Rightarrow> nat"
  bs_contains :: "'b \<Rightarrow> nat \<Rightarrow> bool"
  bs_insert :: "nat \<Rightarrow> 'b \<Rightarrow> 'b"
  bs_remove :: "nat \<Rightarrow> 'b \<Rightarrow> 'b"
  bs_union_with :: "'b \<Rightarrow> 'b \<Rightarrow> 'b"
  bs_difference_with :: "'b \<Rightarrow> 'b \<Rightarrow> 'b"
  bs_eq :: "'b \<Rightarrow> 'b \<Rightarrow> bool"
  bs_ones :: "'b \<Rightarrow> nat list"

definition bit_insert :: "'b BitSetOps \<Rightarrow> nat \<Rightarrow> 'b \<Rightarrow> panicked + 'b" where
  "bit_insert ops i b = (if i < bs_len ops b then Inr (bs_insert ops i b) else Inl Panicked)"

definition bit_remove :: "'b BitSetOps \<Rightarrow> nat \<Rightarrow> 'b \<Rightarrow> panicked + 'b" where
  "bit_remove ops i b = (if i < bs_len ops b then Inr (bs_remove ops i b) else Inl Panicked)"

definition bits :: "'b BitSetOps \<Rightarrow> 'b \<Rightarrow> nat set" where
  "bits ops b = {i. bs_contains ops b i}"

definition bitset_laws :: "'b BitSetOps \<Rightarrow> bool" where
  "bitset_laws ops \<longleftrightarrow>
     (\<forall>b i. bs_contains ops b i \<longrightarrow> i < bs_len ops b) \<and>
     (\<forall>n. bs_len ops (bs_with_capacity ops n) = n \<and> bits ops (bs_with_capacity ops n) = {}) \<and>
     (\<forall>b i. i < bs_len ops b \<longrightarrow>
        bs_len ops (bs_insert ops i b) = bs_len ops b \<and>
        bits ops (bs_insert ops i b) = insert i (bits ops b)) \<and>
     (\<forall>b i. i < bs_len ops b \<longrightarrow>
        bs_len ops (bs_remove ops i b) = bs_len ops b \<and>
        bits ops (bs_remove ops i b) = bits ops b - {i}) \<and>
     (\<forall>a b. bs_len ops (bs_union_with ops a b) = max (bs_len ops a) (bs_len ops b) \<and>
        bits ops (bs_union_with ops a b) = bits ops a \<union> bits ops b) \<and>
     (\<forall>a b. bs_len ops (bs_difference_with ops a b) = bs_len ops a \<and>
        bits ops (bs_difference_with ops a b) = bits ops a - bits ops b) \<and>
     (\<forall>a b. bs_len ops a = bs_len ops b \<longrightarrow> bs_eq ops a b = (bits ops a = bits ops b)) \<and>
     (\<forall>b. set (bs_ones ops b) = bits ops b \<and> sorted (bs_ones ops b) \<and> distinct (bs_ones ops b))"

lemma bs_contains_bits: "bs_contains ops b i \<longleftrightarrow> i \<in> bits ops b"
  by (simp add: bits_def)

lemma bits_less: "bitset_laws ops \<Longrightarrow> i \<in> bits ops b \<Longrightarrow> i < bs_len ops b"
  by (auto simp: bitset_laws_def bits_def)

lemma bits_subset: "bitset_laws ops \<Longrightarrow> bits ops b \<subseteq> {..<bs_len ops b}"
  by (auto dest: bits_less)

lemma finite_bits: "bitset_laws ops \<Longrightarrow> finite (bits ops b)"
  by (rule finite_subset [OF bits_subset]) simp_all

lemma bits_simps:
  assumes "bitset_laws ops"
  shows "bits ops (bs_with_capacity ops n) = {}" "bs_len ops (bs_with_capacity ops n) = n"
    "bits ops (bs_union_with ops a b) = bits ops a \<union> bits ops b"
    "bs_len ops (bs_union_with ops a b) = max (bs_len ops a) (bs_len ops b)"
    "bits ops (bs_difference_with ops a b) = bits ops a - bits ops b"
    "bs_len ops (bs_difference_with ops a b) = bs_len ops a"
    "set (bs_ones ops b) = bits ops b"
  using assms by (simp_all add: bitset_laws_def)

lemma bs_eq_bits: "bitset_laws ops \<Longrightarrow> bs_len ops a = bs_len ops b \<Longrightarrow> bs_eq ops a b = (bits ops a = bits ops b)"
  by (simp add: bitset_laws_def)

text \<open>Inserting into and removing from a set keeps its length.\<close>

lemma bit_insertE:
  assumes "bitset_laws ops" and "i < bs_len ops b"
  obtains b' where "bit_insert ops i b = Inr b'" "bs_len ops b' = bs_len ops b"
    "bits ops b' = insert i (bits ops b)"
  using assms by (simp add: bitset_laws_def bit_insert_def)

lemma bit_removeE:
  assumes "bitset_laws ops" and "i < bs_len ops b"
  obtains b' where "bit_remove ops i b = Inr b'" "bs_len ops b' = bs_len ops b"
    "bits ops b' = bits ops b - {i}"
  using assms by (simp add: bitset_laws_def bit_remove_def)

lemma bit_insert_Inr:
  assumes "bitset_laws ops" and "bit_insert ops i b = Inr b'"
  shows "bs_len ops b' = bs_len ops b" and "bits ops b' = insert i (bits ops b)" and "i < bs_len ops b"
  using assms by (auto simp: bitset_laws_def bit_insert_def split: if_splits)

lemma bit_remove_Inr:
  assumes "bitset_laws ops" and "bit_remove ops i b = Inr b'"
  shows "bs_len ops b' = bs_len ops b" and "bits ops b' = bits ops b - {i}"
  using assms by (auto simp: bitset_laws_def bit_remove_def split: if_splits)

subsection \<open>Bit vectors, a model of the laws\<close>

definition bv_get :: "bool list \<Rightarrow> nat \<Rightarrow> bool" where
  "bv_get b i \<longleftrightarrow> i < length b \<and> b ! i"

definition bv_ops :: "bool list BitSetOps" where
  "bv_ops = \<lparr>bs_with_capacity = \<lambda>n. replicate n False, bs_len = length, bs_contains = bv_get,
     bs_insert = \<lambda>i b. b[i := True], bs_remove = \<lambda>i b. b[i := False],
     bs_union_with = \<lambda>a b. map (\<lambda>i. bv_get a i \<or> bv_get b i) [0..<max (length a) (length b)],
     bs_difference_with = \<lambda>a b. map (\<lambda>i. bv_get a i \<and> \<not> bv_get b i) [0..<length a],
     bs_eq = \<lambda>a b. a = b, bs_ones = \<lambda>b. filter (bv_get b) [0..<length b]\<rparr>"

lemma bv_bits: "bits bv_ops b = {i. i < length b \<and> b ! i}"
  by (simp add: bits_def bv_ops_def bv_get_def)

lemma bv_eq_iff: "length a = length b \<Longrightarrow> a = b \<longleftrightarrow> {i. i < length a \<and> a ! i} = {i. i < length b \<and> b ! i}"
  by (auto simp: list_eq_iff_nth_eq set_eq_iff)

lemma bitset_laws_bv: "bitset_laws bv_ops"
  unfolding bitset_laws_def
proof (intro conjI allI impI, goal_cases)
  case (1 b i) then show ?case by (simp add: bv_ops_def bv_get_def)
next
  case (2 n) show ?case by (simp add: bv_ops_def)
next
  case (3 n) show ?case by (auto simp: bv_bits) (simp add: bv_ops_def)
next
  case (4 b i) then show ?case by (simp add: bv_ops_def)
next
  case (5 b i) then show ?case by (auto simp: bv_bits) (auto simp: bv_ops_def nth_list_update split: if_splits)
next
  case (6 b i) then show ?case by (simp add: bv_ops_def)
next
  case (7 b i) then show ?case by (auto simp: bv_bits) (auto simp: bv_ops_def nth_list_update split: if_splits)
next
  case (8 a b) show ?case by (simp add: bv_ops_def)
next
  case (9 a b) show ?case by (auto simp: bv_bits) (auto simp: bv_ops_def bv_get_def)
next
  case (10 a b) show ?case by (simp add: bv_ops_def)
next
  case (11 a b) show ?case by (auto simp: bv_bits) (auto simp: bv_ops_def bv_get_def)
next
  case (12 a b) then show ?case by (simp add: bv_bits bv_eq_iff) (simp add: bv_ops_def bv_eq_iff)
next
  case (13 b) show ?case by (auto simp: bv_bits) (auto simp: bv_ops_def bv_get_def)
next
  case (14 b) show ?case by (simp add: bv_ops_def sorted_filter [where f = id, simplified])
next
  case (15 b) show ?case by (simp add: bv_ops_def)
qed

section \<open>The worklist loop\<close>

text \<open>
  \<open>while let Some(bi) = worklist.pop() { ... }\<close>: the worklist is a stack (the last element is
  popped first) with a bit set of its members; \<open>fl_data\<close> holds one entry per block.  A loop that
  does not end is \<open>None\<close>.
\<close>

record ('b, 'd) FlowState =
  fl_worklist :: "nat list"
  fl_in_worklist :: 'b
  fl_data :: "'d list"

definition enqueue :: "'b BitSetOps \<Rightarrow> nat \<Rightarrow> ('b, 'd) FlowState \<Rightarrow> panicked + ('b, 'd) FlowState" where
  "enqueue ops i fl =
     (if bs_contains ops (fl_in_worklist fl) i then Inr fl
      else pbind (bit_insert ops i (fl_in_worklist fl))
        (\<lambda>w. Inr (fl\<lparr>fl_in_worklist := w, fl_worklist := fl_worklist fl @ [i]\<rparr>)))"

text \<open>
  The body of the loop: recompute the entry of the popped block; when it differs from the stored
  one, store it and enqueue the blocks that read it.
\<close>

definition worklist_step ::
    "'b BitSetOps \<Rightarrow> (nat \<Rightarrow> 'd list \<Rightarrow> panicked + 'd) \<Rightarrow> ('d \<Rightarrow> 'd \<Rightarrow> bool) \<Rightarrow>
     (nat \<Rightarrow> panicked + nat list) \<Rightarrow> nat \<Rightarrow> ('b, 'd) FlowState \<Rightarrow> panicked + ('b, 'd) FlowState" where
  "worklist_step ops recompute differs readers bi fl =
     pbind (bit_remove ops bi (fl_in_worklist fl)) (\<lambda>w.
     pbind (recompute bi (fl_data fl)) (\<lambda>d.
     pbind (vec_index (fl_data fl) bi) (\<lambda>old.
       let fl' = fl\<lparr>fl_in_worklist := w\<rparr> in
       if differs d old then
         pbind (vec_set bi d (fl_data fl)) (\<lambda>ds.
         pbind (readers bi) (\<lambda>rs. pfold (enqueue ops) rs (fl'\<lparr>fl_data := ds\<rparr>)))
       else Inr fl')))"

partial_function (option) pop_loop ::
    "(nat \<Rightarrow> ('b, 'd) FlowState \<Rightarrow> panicked + ('b, 'd) FlowState) \<Rightarrow> ('b, 'd) FlowState \<Rightarrow>
     (panicked + ('b, 'd) FlowState) option" where
  "pop_loop step fl =
     (if fl_worklist fl = [] then Some (Inr fl)
      else (case step (last (fl_worklist fl)) (fl\<lparr>fl_worklist := butlast (fl_worklist fl)\<rparr>) of
              Inl e \<Rightarrow> Some (Inl e)
            | Inr fl' \<Rightarrow> pop_loop step fl'))"

text \<open>The loop starts with every block on the worklist.\<close>

definition flow_start :: "'b BitSetOps \<Rightarrow> nat \<Rightarrow> 'd \<Rightarrow> panicked + ('b, 'd) FlowState" where
  "flow_start ops n d =
     pbind (pfold (bit_insert ops) [0..<n] (bs_with_capacity ops n))
       (\<lambda>w. Inr \<lparr>fl_worklist = [0..<n], fl_in_worklist = w, fl_data = replicate n d\<rparr>)"

text \<open>Inserting indices that are in bounds.\<close>

lemma insert_all_Inr:
  assumes "bitset_laws ops" and "\<And>i. i \<in> set is \<Longrightarrow> i < bs_len ops b"
  shows "\<exists>b'. pfold (bit_insert ops) is b = Inr b' \<and> bs_len ops b' = bs_len ops b \<and>
    bits ops b' = bits ops b \<union> set is"
  using assms(2)
proof (induction "is" arbitrary: b)
  case (Cons i "is")
  from Cons.prems have "i < bs_len ops b" by simp
  with assms(1) obtain b1 where "bit_insert ops i b = Inr b1" "bs_len ops b1 = bs_len ops b"
    "bits ops b1 = insert i (bits ops b)" by (rule bit_insertE)
  with Cons.IH [of b1] Cons.prems show ?case by auto
qed simp

text \<open>Enqueueing blocks that are in range.\<close>

lemma enqueue_all_Inr:
  assumes "bitset_laws ops" and "set rs \<subseteq> {..<bs_len ops (fl_in_worklist fl)}"
    and "bits ops (fl_in_worklist fl) = set (fl_worklist fl)" and "distinct (fl_worklist fl)"
  shows "\<exists>fl'. pfold (enqueue ops) rs fl = Inr fl' \<and> fl_data fl' = fl_data fl \<and>
    bs_len ops (fl_in_worklist fl') = bs_len ops (fl_in_worklist fl) \<and>
    bits ops (fl_in_worklist fl') = set (fl_worklist fl') \<and> distinct (fl_worklist fl') \<and>
    set (fl_worklist fl') = set (fl_worklist fl) \<union> set rs"
  using assms(2-)
proof (induction rs arbitrary: fl)
  case (Cons i rs)
  show ?case
  proof (cases "i \<in> set (fl_worklist fl)")
    case True
    then have "enqueue ops i fl = Inr fl" using Cons.prems(2) by (simp add: enqueue_def bs_contains_bits)
    moreover note Cons.IH [of fl]
    ultimately show ?thesis using Cons.prems True by (simp add: insert_absorb)
  next
    case False
    from Cons.prems have "i < bs_len ops (fl_in_worklist fl)" by simp
    with assms(1) obtain w where w: "bit_insert ops i (fl_in_worklist fl) = Inr w"
      "bs_len ops w = bs_len ops (fl_in_worklist fl)"
      "bits ops w = insert i (bits ops (fl_in_worklist fl))" by (rule bit_insertE)
    let ?fl = "fl\<lparr>fl_in_worklist := w, fl_worklist := fl_worklist fl @ [i]\<rparr>"
    have "\<exists>fl'. pfold (enqueue ops) rs ?fl = Inr fl' \<and> fl_data fl' = fl_data ?fl \<and>
      bs_len ops (fl_in_worklist fl') = bs_len ops (fl_in_worklist ?fl) \<and>
      bits ops (fl_in_worklist fl') = set (fl_worklist fl') \<and> distinct (fl_worklist fl') \<and>
      set (fl_worklist fl') = set (fl_worklist ?fl) \<union> set rs"
      using Cons.prems False w by (intro Cons.IH) auto
    moreover have "enqueue ops i fl = Inr ?fl"
      using w(1) False Cons.prems(2) by (simp add: enqueue_def bs_contains_bits)
    ultimately show ?thesis using w(2) by simp
  qed
qed auto

end
