(* ===== verification/Diagnostics.thy ===== *)
theory Diagnostics
  imports Mir_Types
begin

text \<open>
  Diagnostics (\<open>crates/glyim-diag/src/lib.rs\<close>) as far as the borrow checker and the inference
  table build them: suggestions, source text and structured data stay empty.
\<close>

datatype DiagSeverity = SevError | SevWarning | SevNote | SevHelp

datatype ErrorCategory = CatLex | CatParse | CatNameResolution | CatType | CatLifetime | CatBorrow
  | CatComptime | CatIo | CatInternal

record ErrorCode =
  ec_category :: ErrorCategory
  ec_number :: u16

record SubDiagnostic =
  sd_severity :: DiagSeverity
  sd_message :: string
  sd_span :: "MultiSpan option"

record GlyimDiagnostic =
  gd_code :: ErrorCode
  gd_severity :: DiagSeverity
  gd_message :: string
  gd_span :: MultiSpan
  gd_sub_diagnostics :: "SubDiagnostic list"

definition diag_new :: "ErrorCode \<Rightarrow> DiagSeverity \<Rightarrow> string \<Rightarrow> MultiSpan \<Rightarrow> GlyimDiagnostic" where
  "diag_new code severity message span =
     \<lparr>gd_code = code, gd_severity = severity, gd_message = message, gd_span = span,
      gd_sub_diagnostics = []\<rparr>"

definition with_sub :: "SubDiagnostic \<Rightarrow> GlyimDiagnostic \<Rightarrow> GlyimDiagnostic" where
  "with_sub sub d = d\<lparr>gd_sub_diagnostics := gd_sub_diagnostics d @ [sub]\<rparr>"

definition borrow_error :: "Span \<Rightarrow> string \<Rightarrow> GlyimDiagnostic" where
  "borrow_error span message =
     diag_new \<lparr>ec_category = CatBorrow, ec_number = 1\<rparr> SevError message (multi_from_span span)"

definition type_error :: "Span \<Rightarrow> string \<Rightarrow> GlyimDiagnostic" where
  "type_error span message =
     diag_new \<lparr>ec_category = CatType, ec_number = 1\<rparr> SevError message (multi_from_span span)"

end
