(* ===== verification/Borrowck_Visitor.thy ===== *)
theory Borrowck_Visitor
  imports Bitset Diagnostics
begin

text \<open>
  \<open>crates/glyim-borrowck/src/visitor.rs\<close>: the traversal of the places that MIR constructs read,
  the successors of a terminator, the conflict test on places, and the visitors.

  A \<open>ReadVisitor\<close> is its \<open>visit_read\<close>, a step on the visitor's state; the walks fold it over the
  places they pass.
\<close>

section \<open>Walking the reads\<close>

type_synonym 'v visit = "Place \<Rightarrow> 'v \<Rightarrow> panicked + 'v"

fun walk_operand_reads :: "Operand \<Rightarrow> 'v visit \<Rightarrow> 'v \<Rightarrow> panicked + 'v" where
  "walk_operand_reads (Operand.Copy place) visit v = visit place v"
| "walk_operand_reads (Operand.Move place) visit v = visit place v"
| "walk_operand_reads (Operand.Constant _) visit v = Inr v"

definition walk_operands :: "Operand list \<Rightarrow> 'v visit \<Rightarrow> 'v \<Rightarrow> panicked + 'v" where
  "walk_operands ops visit v = pfold (\<lambda>op. walk_operand_reads op visit) ops v"

fun walk_rvalue_reads :: "Rvalue \<Rightarrow> 'v visit \<Rightarrow> 'v \<Rightarrow> panicked + 'v" where
  "walk_rvalue_reads (Use op) visit v = walk_operand_reads op visit v"
| "walk_rvalue_reads (Rvalue.Ref place _) visit v = visit place v"
| "walk_rvalue_reads (BinaryOp _ l r) visit v =
     pbind (walk_operand_reads l visit v) (walk_operand_reads r visit)"
| "walk_rvalue_reads (UnaryOp _ op) visit v = walk_operand_reads op visit v"
| "walk_rvalue_reads (Rvalue.Aggregate _ ops) visit v = walk_operands ops visit v"
| "walk_rvalue_reads (Discriminant place) visit v = visit place v"
| "walk_rvalue_reads (Len place) visit v = visit place v"
| "walk_rvalue_reads (Rvalue.Cast _ op _) visit v = walk_operand_reads op visit v"
| "walk_rvalue_reads (Repeat op _) visit v = walk_operand_reads op visit v"

fun walk_terminator_reads :: "TerminatorKind \<Rightarrow> 'v visit \<Rightarrow> 'v \<Rightarrow> panicked + 'v" where
  "walk_terminator_reads (SwitchInt discr _ _) visit v = walk_operand_reads discr visit v"
| "walk_terminator_reads (TerminatorKind.Call func args _ _ _) visit v =
     pbind (walk_operand_reads func visit v) (walk_operands args visit)"
| "walk_terminator_reads (TerminatorKind.Assert cond _ _ _ _) visit v = walk_operand_reads cond visit v"
| "walk_terminator_reads (TerminatorKind.Drop _ _ _) visit v = Inr v"
| "walk_terminator_reads (Goto _) visit v = Inr v"
| "walk_terminator_reads TerminatorKind.Return visit v = Inr v"
| "walk_terminator_reads TerminatorKind.Unreachable visit v = Inr v"

fun successor_blocks :: "TerminatorKind \<Rightarrow> BasicBlockIdx list" where
  "successor_blocks (Goto target) = [target]"
| "successor_blocks (SwitchInt _ _ targets) = map snd (sw_branches targets) @ [sw_otherwise targets]"
| "successor_blocks TerminatorKind.Return = []"
| "successor_blocks TerminatorKind.Unreachable = []"
| "successor_blocks (TerminatorKind.Call _ _ _ target cleanup) = opt_list target @ opt_list cleanup"
| "successor_blocks (TerminatorKind.Assert _ _ target cleanup _) = [target] @ opt_list cleanup"
| "successor_blocks (TerminatorKind.Drop _ target cleanup) = [target] @ opt_list cleanup"

subsection \<open>The places a construct reads\<close>

fun operand_places :: "Operand \<Rightarrow> Place list" where
  "operand_places (Operand.Copy p) = [p]"
| "operand_places (Operand.Move p) = [p]"
| "operand_places (Operand.Constant _) = []"

fun rvalue_places :: "Rvalue \<Rightarrow> Place list" where
  "rvalue_places (Use op) = operand_places op"
| "rvalue_places (Rvalue.Ref p _) = [p]"
| "rvalue_places (BinaryOp _ l r) = operand_places l @ operand_places r"
| "rvalue_places (UnaryOp _ op) = operand_places op"
| "rvalue_places (Rvalue.Aggregate _ ops) = concat (map operand_places ops)"
| "rvalue_places (Discriminant p) = [p]"
| "rvalue_places (Len p) = [p]"
| "rvalue_places (Rvalue.Cast _ op _) = operand_places op"
| "rvalue_places (Repeat op _) = operand_places op"

fun terminator_places :: "TerminatorKind \<Rightarrow> Place list" where
  "terminator_places (SwitchInt discr _ _) = operand_places discr"
| "terminator_places (TerminatorKind.Call func args _ _ _) =
     operand_places func @ concat (map operand_places args)"
| "terminator_places (TerminatorKind.Assert cond _ _ _ _) = operand_places cond"
| "terminator_places _ = []"

named_theorems walk_folds

lemma pfold_single [simp]: "pfold f [x] s = f x s"
  by (cases "f x s") simp_all

lemma walk_operand_fold [walk_folds]: "walk_operand_reads op visit v = pfold visit (operand_places op) v"
  by (cases op) (simp_all del: pfold.simps add: pfold.simps(1))

lemma walk_operands_fold [walk_folds]: "walk_operands ops visit v = pfold visit (concat (map operand_places ops)) v"
  unfolding walk_operands_def
proof (induction ops arbitrary: v)
  case (Cons op ops)
  then show ?case
    by (cases "walk_operand_reads op visit v") (simp_all add: pfold_append flip: walk_operand_fold)
qed simp

lemma walk_rvalue_fold [walk_folds]: "walk_rvalue_reads rv visit v = pfold visit (rvalue_places rv) v"
  by (cases rv) (simp_all add: walk_folds pfold_append pbind_def split: sum.split)

lemma walk_terminator_fold [walk_folds]: "walk_terminator_reads k visit v = pfold visit (terminator_places k) v"
  by (cases k) (simp_all add: walk_folds pfold_append pbind_def split: sum.split)

lemma successor_blocks_terminator: "successor_blocks k = terminator_successors k"
  by (cases k) simp_all

section \<open>Conflicts of places\<close>

text \<open>
  What the comparison of two projection elements at the same depth decides: go on with the next
  pair, or a verdict.
\<close>

datatype elem_verdict = GoOn | Verdict bool

fun elem_conflict :: "ProjectionElem \<Rightarrow> ProjectionElem \<Rightarrow> elem_verdict" where
  "elem_conflict ProjectionElem.Deref ProjectionElem.Deref = GoOn"
| "elem_conflict (Field f1) (Field f2) = (if f1 = f2 then GoOn else Verdict False)"
| "elem_conflict (Downcast v1) (Downcast v2) = (if v1 = v2 then GoOn else Verdict False)"
| "elem_conflict (Index _) (Index _) = GoOn"
| "elem_conflict (ConstantIndex o1 _ e1) (ConstantIndex o2 _ e2) =
     (if \<not> e1 \<and> \<not> e2 then (if o1 \<noteq> o2 then Verdict False else GoOn) else Verdict True)"
| "elem_conflict (Field _) (Index _) = Verdict False"
| "elem_conflict (Index _) (Field _) = Verdict False"
| "elem_conflict (Subslice f1 t1 e1) (Subslice f2 t2 e2) =
     (if \<not> e1 \<and> \<not> e2 then (if f1 < t2 \<and> f2 < t1 then GoOn else Verdict False) else Verdict True)"
| "elem_conflict (Subslice from to e1) (ConstantIndex ofs _ e2) =
     (if \<not> e1 \<and> \<not> e2 then (if from \<le> ofs \<and> ofs < to then GoOn else Verdict False) else Verdict True)"
| "elem_conflict (ConstantIndex ofs _ e2) (Subslice from to e1) =
     (if \<not> e1 \<and> \<not> e2 then (if from \<le> ofs \<and> ofs < to then GoOn else Verdict False) else Verdict True)"
| "elem_conflict _ _ = Verdict True"

text \<open>The loop up to the shorter projection; running out of elements is a conflict.\<close>

fun projs_conflict :: "ProjectionElem list \<Rightarrow> ProjectionElem list \<Rightarrow> bool" where
  "projs_conflict (a # as) (b # bs) =
     (case elem_conflict a b of GoOn \<Rightarrow> projs_conflict as bs | Verdict v \<Rightarrow> v)"
| "projs_conflict _ _ = True"

definition places_conflict :: "Place \<Rightarrow> Place \<Rightarrow> bool" where
  "places_conflict a b \<longleftrightarrow>
     pl_local a = pl_local b \<and> projs_conflict (pl_projection a) (pl_projection b)"

lemma elem_conflict_sym: "elem_conflict a b = elem_conflict b a"
  by (cases a; cases b) auto

lemma projs_conflict_sym: "projs_conflict as bs = projs_conflict bs as"
proof (induction as bs rule: projs_conflict.induct)
  case (1 a as b bs)
  then show ?case using elem_conflict_sym [of a b] by (auto split: elem_verdict.split)
qed simp_all

lemma places_conflict_sym: "places_conflict a b = places_conflict b a"
  by (auto simp: places_conflict_def projs_conflict_sym)

lemma projs_conflict_prefix:
  assumes "\<And>e. e \<in> set as \<Longrightarrow> elem_conflict e e \<noteq> Verdict False"
  shows "projs_conflict as (as @ bs)"
  using assms
proof (induction as)
  case (Cons a as)
  then have "projs_conflict as (as @ bs)" "elem_conflict a a \<noteq> Verdict False" by simp_all
  then show ?case by (cases "elem_conflict a a") auto
qed simp

section \<open>Visitors\<close>

definition local_index :: "Place \<Rightarrow> nat" where
  "local_index p = unat (pl_local p)"

definition read_checker :: "LocalIdx \<Rightarrow> bool visit" where
  "read_checker target place found = Inr (if pl_local place = target then True else found)"

definition use_collector :: "'b BitSetOps \<Rightarrow> 'b \<Rightarrow> 'b visit" where
  "use_collector ops defs place uses =
     (if bs_contains ops defs (local_index place) then Inr uses
      else bit_insert ops (local_index place) uses)"

definition liveness_gen :: "'b BitSetOps \<Rightarrow> 'b visit" where
  "liveness_gen ops place live = bit_insert ops (local_index place) live"

definition place_collector :: "Place list visit" where
  "place_collector place places = Inr (places @ [place])"

fun borrow_kind_label :: "BorrowKind \<Rightarrow> string" where
  "borrow_kind_label BorrowKind.Shared = ''shared''"
| "borrow_kind_label (MutBorrow _) = ''mutable''"
| "borrow_kind_label BorrowKind.Unique = ''unique''"

lemma read_checker_walk: "pfold (read_checker t) ps found = Inr (found \<or> (\<exists>p\<in>set ps. pl_local p = t))"
  by (induction ps arbitrary: found) (auto simp: read_checker_def)

lemma place_collector_walk: "pfold place_collector ps acc = Inr (acc @ ps)"
  by (induction ps arbitrary: acc) (auto simp: place_collector_def)

lemma use_collector_walk:
  assumes "bitset_laws ops" and "\<And>p. p \<in> set ps \<Longrightarrow> local_index p < bs_len ops uses"
  obtains uses' where "pfold (use_collector ops defs) ps uses = Inr uses'"
    "bs_len ops uses' = bs_len ops uses"
    "bits ops uses' = bits ops uses \<union> (local_index ` set ps - bits ops defs)"
proof -
  have "\<exists>uses'. pfold (use_collector ops defs) ps uses = Inr uses' \<and> bs_len ops uses' = bs_len ops uses \<and>
    bits ops uses' = bits ops uses \<union> (local_index ` set ps - bits ops defs)"
    using assms(2)
  proof (induction ps arbitrary: uses)
    case (Cons p ps)
    show ?case
    proof (cases "local_index p \<in> bits ops defs")
      case True
      with Cons.IH [of uses] Cons.prems show ?thesis by (auto simp: use_collector_def bs_contains_bits)
    next
      case False
      from Cons.prems have "local_index p < bs_len ops uses" by simp
      with assms(1) obtain u where u: "bit_insert ops (local_index p) uses = Inr u"
        "bs_len ops u = bs_len ops uses" "bits ops u = insert (local_index p) (bits ops uses)"
        by (rule bit_insertE)
      with Cons.IH [of u] Cons.prems False show ?thesis by (auto simp: use_collector_def bs_contains_bits)
    qed
  qed simp
  then show thesis using that by blast
qed

lemma liveness_gen_walk:
  assumes "bitset_laws ops" and "\<And>p. p \<in> set ps \<Longrightarrow> local_index p < bs_len ops live"
  obtains live' where "pfold (liveness_gen ops) ps live = Inr live'"
    "bs_len ops live' = bs_len ops live"
    "bits ops live' = bits ops live \<union> local_index ` set ps"
proof -
  have "\<exists>live'. pfold (liveness_gen ops) ps live = Inr live' \<and> bs_len ops live' = bs_len ops live \<and>
    bits ops live' = bits ops live \<union> local_index ` set ps"
    using assms(2)
  proof (induction ps arbitrary: live)
    case (Cons p ps)
    from Cons.prems have "local_index p < bs_len ops live" by simp
    with assms(1) obtain u where u: "bit_insert ops (local_index p) live = Inr u"
      "bs_len ops u = bs_len ops live" "bits ops u = insert (local_index p) (bits ops live)"
      by (rule bit_insertE)
    with Cons.IH [of u] Cons.prems show ?case by (auto simp: liveness_gen_def)
  qed simp
  then show thesis using that by blast
qed

end
