(* ===== verification/Worklist.thy ===== *)
theory Worklist
  imports Bitset
begin

text \<open>
  The contract of a monotone dataflow analysis and what the worklist loop of
  \<open>Bitset\<close> makes of it: it ends, never panics, and leaves the least solution of the equations.
  The analyses of the borrow checker are interpretations of \<open>worklist\<close>.
\<close>

text \<open>
  \<open>ok p\<close>: the parameters \<open>p\<close> (a body, its bit-set operations) are such that the analysis does not
  panic.  \<open>facts\<close> is what an entry says, \<open>F p i X\<close> what the equation of block \<open>i\<close> makes of the
  facts \<open>X\<close> of all blocks.
\<close>

locale worklist =
  fixes ok :: "'p \<Rightarrow> bool"
    and ops :: "'p \<Rightarrow> 'b BitSetOps"
    and blocks :: "'p \<Rightarrow> nat"
    and recompute :: "'p \<Rightarrow> nat \<Rightarrow> 'd list \<Rightarrow> panicked + 'd"
    and differs :: "'p \<Rightarrow> 'd \<Rightarrow> 'd \<Rightarrow> bool"
    and readers :: "'p \<Rightarrow> nat \<Rightarrow> panicked + nat list"
    and initial :: "'p \<Rightarrow> 'd"
    and wf :: "'p \<Rightarrow> 'd \<Rightarrow> bool"
    and facts :: "'p \<Rightarrow> 'd \<Rightarrow> 'a set"
    and universe :: "'p \<Rightarrow> 'a set"
    and F :: "'p \<Rightarrow> nat \<Rightarrow> (nat \<Rightarrow> 'a set) \<Rightarrow> 'a set"
  assumes laws: "ok p \<Longrightarrow> bitset_laws (ops p)"
    and initial_wf: "ok p \<Longrightarrow> wf p (initial p)"
    and initial_facts: "ok p \<Longrightarrow> facts p (initial p) = {}"
    and recompute_Inr: "ok p \<Longrightarrow> i < blocks p \<Longrightarrow> length ds = blocks p \<Longrightarrow> \<forall>d\<in>set ds. wf p d \<Longrightarrow>
      \<exists>d. recompute p i ds = Inr d \<and> wf p d \<and>
        facts p d = F p i (\<lambda>j. if j < blocks p then facts p (ds ! j) else {})"
    and differs_iff: "ok p \<Longrightarrow> wf p d \<Longrightarrow> wf p d' \<Longrightarrow> differs p d d' \<longleftrightarrow> facts p d \<noteq> facts p d'"
    and finite_universe: "ok p \<Longrightarrow> finite (universe p)"
    and facts_bounded: "ok p \<Longrightarrow> wf p d \<Longrightarrow> facts p d \<subseteq> universe p"
    and mono_F: "(\<And>j. X j \<subseteq> Y j) \<Longrightarrow> F p i X \<subseteq> F p i Y"
    and readers_Inr: "ok p \<Longrightarrow> i < blocks p \<Longrightarrow>
      \<exists>rs. readers p i = Inr rs \<and> set rs \<subseteq> {..<blocks p} \<and>
        (\<forall>j X Y. j < blocks p \<longrightarrow> j \<notin> set rs \<longrightarrow> (\<forall>k. k \<noteq> i \<longrightarrow> X k = Y k) \<longrightarrow> F p j X = F p j Y)"
begin

definition entry :: "'p \<Rightarrow> 'd list \<Rightarrow> nat \<Rightarrow> 'a set" where
  "entry p ds = (\<lambda>j. if j < blocks p then facts p (ds ! j) else {})"

definition solves :: "'p \<Rightarrow> (nat \<Rightarrow> 'a set) \<Rightarrow> bool" where
  "solves p X \<longleftrightarrow> (\<forall>j<blocks p. F p j X \<subseteq> X j)"

definition flow_ok :: "'p \<Rightarrow> ('b, 'd) FlowState \<Rightarrow> bool" where
  "flow_ok p fl \<longleftrightarrow>
     length (fl_data fl) = blocks p \<and> (\<forall>d\<in>set (fl_data fl). wf p d) \<and>
     bs_len (ops p) (fl_in_worklist fl) = blocks p \<and>
     bits (ops p) (fl_in_worklist fl) = set (fl_worklist fl) \<and> distinct (fl_worklist fl) \<and>
     (\<forall>X. solves p X \<longrightarrow> (\<forall>j. entry p (fl_data fl) j \<subseteq> X j)) \<and>
     (\<forall>j<blocks p. entry p (fl_data fl) j \<subseteq> F p j (entry p (fl_data fl))) \<and>
     (\<forall>j<blocks p. j \<notin> set (fl_worklist fl) \<longrightarrow>
        F p j (entry p (fl_data fl)) \<subseteq> entry p (fl_data fl) j)"

abbreviation step :: "'p \<Rightarrow> nat \<Rightarrow> ('b, 'd) FlowState \<Rightarrow> panicked + ('b, 'd) FlowState" where
  "step p \<equiv> worklist_step (ops p) (recompute p) (differs p) (readers p)"

definition room :: "'p \<Rightarrow> ('b, 'd) FlowState \<Rightarrow> nat" where
  "room p fl = (\<Sum>j<blocks p. card (universe p - entry p (fl_data fl) j))"

lemma entry_bounded: "ok p \<Longrightarrow> flow_ok p fl \<Longrightarrow> entry p (fl_data fl) j \<subseteq> universe p"
  using facts_bounded [of p "fl_data fl ! j"] by (simp add: entry_def flow_ok_def)

lemma entry_update:
  assumes "length ds = blocks p" and "i < blocks p"
  shows "entry p (ds[i := d]) = (entry p ds)(i := facts p d)"
  using assms by (auto simp: entry_def nth_list_update fun_eq_iff)

lemma room_update:
  assumes p: "ok p" and fl: "flow_ok p fl" and i: "i < blocks p" and wf: "wf p d"
    and grows: "entry p (fl_data fl) i \<subset> facts p d"
  shows "room p (fl'\<lparr>fl_data := (fl_data fl)[i := d]\<rparr>) < room p fl"
proof -
  let ?E = "entry p (fl_data fl)"
  let ?E' = "?E(i := facts p d)"
  have len: "length (fl_data fl) = blocks p" using fl by (simp add: flow_ok_def)
  have fin: "finite (universe p - X)" for X using finite_universe [OF p] by simp
  have strict: "card (universe p - ?E' i) < card (universe p - ?E i)"
    using grows facts_bounded [OF p wf] by (intro psubset_card_mono fin) auto
  have "(\<Sum>j<blocks p. card (universe p - ?E' j)) < (\<Sum>j<blocks p. card (universe p - ?E j))"
    by (rule sum_strict_mono_ex1) (use strict i in auto)
  then show ?thesis
    by (simp add: room_def entry_update [OF len i])
qed

text \<open>One iteration keeps the invariant and gets closer to the end.\<close>

lemma step_ok:
  assumes p: "ok p" and fl: "flow_ok p fl" and ne: "fl_worklist fl \<noteq> []"
  obtains fl' where "step p (last (fl_worklist fl)) (fl\<lparr>fl_worklist := butlast (fl_worklist fl)\<rparr>) = Inr fl'"
    "flow_ok p fl'"
    "room p fl' < room p fl \<or> room p fl' = room p fl \<and> length (fl_worklist fl') < length (fl_worklist fl)"
proof -
  let ?i = "last (fl_worklist fl)"
  let ?fl = "fl\<lparr>fl_worklist := butlast (fl_worklist fl)\<rparr>"
  let ?E = "entry p (fl_data fl)"
  note L = laws [OF p]
  have len: "length (fl_data fl) = blocks p" and wfs: "\<forall>d\<in>set (fl_data fl). wf p d"
    and wlen: "bs_len (ops p) (fl_in_worklist fl) = blocks p"
    and wbits: "bits (ops p) (fl_in_worklist fl) = set (fl_worklist fl)"
    and dist: "distinct (fl_worklist fl)"
    using fl by (simp_all add: flow_ok_def)
  have split: "fl_worklist fl = butlast (fl_worklist fl) @ [?i]" using ne by simp
  have member: "j \<in> set (fl_worklist fl) \<longleftrightarrow> j = ?i \<or> j \<in> set (butlast (fl_worklist fl))" for j
    by (subst split) auto
  have fresh: "?i \<notin> set (butlast (fl_worklist fl))" using dist by (subst (asm) split) simp
  have i: "?i < blocks p"
    using bits_less [OF L, of ?i "fl_in_worklist fl"] ne wbits wlen by simp
  obtain w where w: "bit_remove (ops p) ?i (fl_in_worklist fl) = Inr w"
    "bs_len (ops p) w = blocks p" "bits (ops p) w = set (butlast (fl_worklist fl))"
  proof (rule bit_removeE [OF L, of ?i "fl_in_worklist fl"])
    show "?i < bs_len (ops p) (fl_in_worklist fl)" using i wlen by simp
    fix w assume "bit_remove (ops p) ?i (fl_in_worklist fl) = Inr w"
      "bs_len (ops p) w = bs_len (ops p) (fl_in_worklist fl)"
      "bits (ops p) w = bits (ops p) (fl_in_worklist fl) - {?i}"
    moreover have "set (fl_worklist fl) - {?i} = set (butlast (fl_worklist fl))"
      using member fresh by auto
    ultimately show thesis using that wlen wbits by simp
  qed
  from recompute_Inr [OF p i len wfs] obtain d where d: "recompute p ?i (fl_data fl) = Inr d" "wf p d"
    and fd: "facts p d = F p ?i ?E"
    by (auto simp: entry_def)
  let ?old = "fl_data fl ! ?i"
  have old: "vec_index (fl_data fl) ?i = Inr ?old" "wf p ?old" and E_i: "?E ?i = facts p ?old"
    using i len wfs by (simp_all add: entry_def)
  show thesis
  proof (cases "differs p d ?old")
    case False
    let ?fl' = "?fl\<lparr>fl_in_worklist := w\<rparr>"
    have "facts p d = facts p ?old" using False differs_iff [OF p d(2) old(2)] by simp
    then have eq: "F p ?i ?E = ?E ?i" using fd E_i by simp
    have "F p j ?E \<subseteq> ?E j" if j: "j < blocks p" "j \<notin> set (butlast (fl_worklist fl))" for j
    proof (cases "j = ?i")
      case True then show ?thesis using eq by simp
    next
      case False
      with j(2) member have "j \<notin> set (fl_worklist fl)" by simp
      then show ?thesis using fl j(1) by (simp add: flow_ok_def)
    qed
    then have "flow_ok p ?fl'"
      using fl w dist by (simp add: flow_ok_def distinct_butlast)
    moreover have "step p ?i ?fl = Inr ?fl'"
      using w d old False by (simp add: worklist_step_def Let_def)
    moreover have "room p ?fl' = room p fl" by (simp add: room_def)
    ultimately show thesis using that ne by auto
  next
    case True
    let ?ds = "(fl_data fl)[?i := d]"
    let ?fl1 = "?fl\<lparr>fl_in_worklist := w, fl_data := ?ds\<rparr>"
    from readers_Inr [OF p i] obtain rs where rs: "readers p ?i = Inr rs" "set rs \<subseteq> {..<blocks p}"
      and loc: "\<And>j X Y. j < blocks p \<Longrightarrow> j \<notin> set rs \<Longrightarrow> (\<forall>k. k \<noteq> ?i \<longrightarrow> X k = Y k) \<Longrightarrow> F p j X = F p j Y"
      by blast
    have "\<exists>fl'. pfold (enqueue (ops p)) rs ?fl1 = Inr fl' \<and> fl_data fl' = fl_data ?fl1 \<and>
      bs_len (ops p) (fl_in_worklist fl') = bs_len (ops p) (fl_in_worklist ?fl1) \<and>
      bits (ops p) (fl_in_worklist fl') = set (fl_worklist fl') \<and> distinct (fl_worklist fl') \<and>
      set (fl_worklist fl') = set (fl_worklist ?fl1) \<union> set rs"
      using rs(2) w dist by (intro enqueue_all_Inr [OF L]) (simp_all add: distinct_butlast)
    then obtain fl' where fl': "pfold (enqueue (ops p)) rs ?fl1 = Inr fl'" "fl_data fl' = ?ds"
      "bs_len (ops p) (fl_in_worklist fl') = blocks p"
      "bits (ops p) (fl_in_worklist fl') = set (fl_worklist fl')" "distinct (fl_worklist fl')"
      "set (fl_worklist fl') = set (butlast (fl_worklist fl)) \<union> set rs"
      using w by auto
    let ?E' = "entry p ?ds"
    have E': "?E' = ?E(?i := F p ?i ?E)" by (simp add: entry_update [OF len i] fd)
    have up: "?E ?i \<subseteq> F p ?i ?E" using fl i by (simp add: flow_ok_def)
    have le: "?E j \<subseteq> ?E' j" for j using up by (simp add: E')
    have wfs': "\<forall>d\<in>set ?ds. wf p d" using wfs d(2) by (auto dest: set_update_subset_insert [THEN subsetD])
    have below: "?E' j \<subseteq> X j" if X: "solves p X" for X j
    proof -
      have EX: "?E k \<subseteq> X k" for k using fl X by (simp add: flow_ok_def)
      have "F p ?i ?E \<subseteq> F p ?i X" using EX by (rule mono_F)
      also have "\<dots> \<subseteq> X ?i" using X i by (simp add: solves_def)
      finally show ?thesis using EX by (simp add: E')
    qed
    have asc: "?E' j \<subseteq> F p j ?E'" if "j < blocks p" for j
    proof -
      have "?E' j \<subseteq> F p j ?E" using fl that by (auto simp: E' flow_ok_def)
      also have "\<dots> \<subseteq> F p j ?E'" using le by (rule mono_F)
      finally show ?thesis .
    qed
    have settled: "F p j ?E' \<subseteq> ?E' j" if j: "j < blocks p" "j \<notin> set (fl_worklist fl')" for j
    proof -
      have nrs: "j \<notin> set rs" and nb: "j \<notin> set (butlast (fl_worklist fl))" using j(2) fl'(6) by auto
      have "F p j ?E' = F p j ?E" by (rule loc [OF j(1) nrs]) (simp add: E')
      also have "\<dots> \<subseteq> ?E' j"
      proof (cases "j = ?i")
        case True then show ?thesis by (simp add: E')
      next
        case False
        then have "j \<notin> set (fl_worklist fl)" using nb member by simp
        then show ?thesis using fl j(1) False by (simp add: flow_ok_def E')
      qed
      finally show ?thesis .
    qed
    have "flow_ok p fl'"
      using fl' len wfs' below asc settled by (simp add: flow_ok_def)
    moreover have "step p ?i ?fl = Inr fl'"
      using w d old True rs(1) fl'(1) i len by (simp add: worklist_step_def Let_def)
    moreover have "room p fl' < room p fl"
    proof -
      have "?E ?i \<subset> facts p d"
        using up fd True differs_iff [OF p d(2) old(2)] E_i by auto
      then have "room p (fl'\<lparr>fl_data := ?ds\<rparr>) < room p fl" by (rule room_update [OF p fl i d(2)])
      then show ?thesis using fl'(2) by (simp add: room_def)
    qed
    ultimately show thesis using that by blast
  qed
qed

lemma pop_loop_ends:
  assumes "ok p" and "flow_ok p fl"
  shows "\<exists>fl'. pop_loop (step p) fl = Some (Inr fl') \<and> flow_ok p fl' \<and> fl_worklist fl' = []"
  using assms(2)
proof (induction fl rule: wf_induct [OF wf_measures, of "[room p, \<lambda>fl. length (fl_worklist fl)]"])
  case (1 fl)
  show ?case
  proof (cases "fl_worklist fl = []")
    case True
    then show ?thesis using 1(2) by (simp add: pop_loop.simps)
  next
    case False
    from step_ok [OF assms(1) 1(2) False] obtain fl' where
      st: "step p (last (fl_worklist fl)) (fl\<lparr>fl_worklist := butlast (fl_worklist fl)\<rparr>) = Inr fl'"
      and ok': "flow_ok p fl'"
      and less: "room p fl' < room p fl \<or> room p fl' = room p fl \<and> length (fl_worklist fl') < length (fl_worklist fl)" .
    have "(fl', fl) \<in> measures [room p, \<lambda>fl. length (fl_worklist fl)]" using less by auto
    with 1(1) ok' obtain fl'' where "pop_loop (step p) fl' = Some (Inr fl'')" "flow_ok p fl''" "fl_worklist fl'' = []"
      by blast
    then show ?thesis using False st by (subst pop_loop.simps) simp
  qed
qed

lemma flow_start_ok:
  assumes "ok p"
  obtains fl where "flow_start (ops p) (blocks p) (initial p) = Inr fl" "flow_ok p fl"
proof -
  note L = laws [OF assms]
  have "\<exists>w. pfold (bit_insert (ops p)) [0..<blocks p] (bs_with_capacity (ops p) (blocks p)) = Inr w \<and>
    bs_len (ops p) w = bs_len (ops p) (bs_with_capacity (ops p) (blocks p)) \<and>
    bits (ops p) w = bits (ops p) (bs_with_capacity (ops p) (blocks p)) \<union> set [0..<blocks p]"
    by (rule insert_all_Inr [OF L]) (simp add: bits_simps [OF L])
  then obtain w where w: "pfold (bit_insert (ops p)) [0..<blocks p] (bs_with_capacity (ops p) (blocks p)) = Inr w"
    "bs_len (ops p) w = blocks p" "bits (ops p) w = {0..<blocks p}"
    by (auto simp: bits_simps [OF L])
  have "entry p (replicate (blocks p) (initial p)) = (\<lambda>_. {})"
    using initial_facts [OF assms] by (auto simp: entry_def fun_eq_iff)
  then have "flow_ok p \<lparr>fl_worklist = [0..<blocks p], fl_in_worklist = w, fl_data = replicate (blocks p) (initial p)\<rparr>"
    using w initial_wf [OF assms] by (simp add: flow_ok_def)
  then show thesis using that w(1) by (simp add: flow_start_def)
qed

text \<open>The loop, started on all blocks, ends with the least solution.\<close>

lemma analysis:
  assumes "ok p"
  obtains fl0 fl where "flow_start (ops p) (blocks p) (initial p) = Inr fl0"
    "pop_loop (step p) fl0 = Some (Inr fl)" "length (fl_data fl) = blocks p"
    "\<forall>d\<in>set (fl_data fl). wf p d"
    "\<forall>j<blocks p. entry p (fl_data fl) j = F p j (entry p (fl_data fl))"
    "\<forall>X. solves p X \<longrightarrow> (\<forall>j<blocks p. entry p (fl_data fl) j \<subseteq> X j)"
proof -
  from flow_start_ok [OF assms] obtain fl0 where fl0: "flow_start (ops p) (blocks p) (initial p) = Inr fl0" "flow_ok p fl0" .
  from pop_loop_ends [OF assms fl0(2)] obtain fl where
    fl: "pop_loop (step p) fl0 = Some (Inr fl)" "flow_ok p fl" "fl_worklist fl = []" by blast
  then have "length (fl_data fl) = blocks p" "\<forall>d\<in>set (fl_data fl). wf p d"
    "\<forall>j<blocks p. entry p (fl_data fl) j = F p j (entry p (fl_data fl))"
    "\<forall>X. solves p X \<longrightarrow> (\<forall>j<blocks p. entry p (fl_data fl) j \<subseteq> X j)"
    by (auto simp: flow_ok_def)
  with fl0(1) fl(1) show thesis by (rule that)
qed

end

end
