(* ===== verification/Borrowck_Liveness.thy ===== *)
theory Borrowck_Liveness
  imports Borrowck_Visitor Worklist
begin

text \<open>
  \<open>crates/glyim-borrowck/src/liveness.rs\<close>: the backward liveness analysis of MIR locals, and what
  it computes: \<open>live_out\<close> of a block is exactly the set of locals that some path from the end of
  the block reads before assigning them (\<open>used_later\<close>).

  Blocks are numbered by naturals (a body has fewer than \<open>2 ^ 32\<close>).  The vectors \<open>live_in\<close> and
  \<open>live_out\<close> are one vector of pairs.
\<close>

section \<open>Summaries of blocks\<close>

fun stmt_capacity :: "StatementKind \<Rightarrow> nat \<Rightarrow> nat" where
  "stmt_capacity (Assign place _) m = max m (local_index place + 1)"
| "stmt_capacity _ m = m"

fun terminator_capacity :: "TerminatorKind \<Rightarrow> nat \<Rightarrow> nat" where
  "terminator_capacity (TerminatorKind.Call _ _ destination _ _) m = max m (local_index destination + 1)"
| "terminator_capacity _ m = m"

definition block_capacity :: "BasicBlockData \<Rightarrow> nat \<Rightarrow> nat" where
  "block_capacity bb m =
     terminator_capacity (te_kind (bb_terminator bb))
       (fold (\<lambda>st. stmt_capacity (st_kind st)) (bb_statements bb) m)"

definition local_capacity :: "Body \<Rightarrow> nat" where
  "local_capacity body = fold block_capacity (b_blocks body) (length (b_locals body))"

fun summarize_stmt :: "'b BitSetOps \<Rightarrow> StatementKind \<Rightarrow> 'b \<times> 'b \<Rightarrow> panicked + 'b \<times> 'b" where
  "summarize_stmt ops (Assign place rvalue) (bu, bd) =
     pbind (walk_rvalue_reads rvalue (use_collector ops bd) bu) (\<lambda>bu'.
     pbind (bit_insert ops (local_index place) bd) (\<lambda>bd'. Inr (bu', bd')))"
| "summarize_stmt ops _ ud = Inr ud"

fun terminator_def :: "'b BitSetOps \<Rightarrow> TerminatorKind \<Rightarrow> 'b \<Rightarrow> panicked + 'b" where
  "terminator_def ops (TerminatorKind.Call _ _ destination _ _) bd =
     bit_insert ops (local_index destination) bd"
| "terminator_def ops _ bd = Inr bd"

definition block_summary :: "'b BitSetOps \<Rightarrow> nat \<Rightarrow> BasicBlockData \<Rightarrow> panicked + 'b \<times> 'b" where
  "block_summary ops capacity bb =
     pbind (pfold (\<lambda>st. summarize_stmt ops (st_kind st)) (bb_statements bb)
       (bs_with_capacity ops capacity, bs_with_capacity ops capacity)) (\<lambda>(bu, bd).
     pbind (walk_terminator_reads (te_kind (bb_terminator bb)) (use_collector ops bd) bu) (\<lambda>bu'.
     pbind (terminator_def ops (te_kind (bb_terminator bb)) bd) (\<lambda>bd'. Inr (bu', bd'))))"

definition compute_block_summaries :: "'b BitSetOps \<Rightarrow> Body \<Rightarrow> panicked + ('b \<times> 'b) list" where
  "compute_block_summaries ops body =
     pmap (block_summary ops (local_capacity body)) (b_blocks body)"

section \<open>The fixed point\<close>

definition successors_of :: "BasicBlockData \<Rightarrow> nat list" where
  "successors_of bb = map unat (successor_blocks (te_kind (bb_terminator bb)))"

definition push_pred :: "nat \<Rightarrow> nat \<Rightarrow> nat list list \<Rightarrow> panicked + nat list list" where
  "push_pred i succ preds =
     pbind (vec_index preds succ) (\<lambda>ps. vec_set succ (ps @ [i]) preds)"

definition compute_predecessors :: "Body \<Rightarrow> panicked + nat list list" where
  "compute_predecessors body =
     pfold (\<lambda>(i, bb). pfold (push_pred i) (successors_of bb)) (enumerate 0 (b_blocks body))
       (replicate (length (b_blocks body)) [])"

definition union_live_in ::
    "'b BitSetOps \<Rightarrow> ('b \<times> 'b) list \<Rightarrow> nat \<Rightarrow> 'b \<Rightarrow> panicked + 'b" where
  "union_live_in ops live succ acc =
     pbind (vec_index live succ) (\<lambda>io. Inr (bs_union_with ops acc (fst io)))"

definition liveness_recompute ::
    "'b BitSetOps \<Rightarrow> Body \<Rightarrow> ('b \<times> 'b) list \<Rightarrow> nat \<Rightarrow> ('b \<times> 'b) list \<Rightarrow> panicked + 'b \<times> 'b" where
  "liveness_recompute ops body summaries bi live =
     pbind (vec_index (b_blocks body) bi) (\<lambda>bb.
     pbind (pfold (union_live_in ops live) (successors_of bb)
       (bs_with_capacity ops (local_capacity body))) (\<lambda>new_live_out.
     pbind (vec_index summaries bi) (\<lambda>ud.
       Inr (bs_union_with ops (fst ud) (bs_difference_with ops new_live_out (snd ud)), new_live_out))))"

definition liveness_differs :: "'b BitSetOps \<Rightarrow> 'b \<times> 'b \<Rightarrow> 'b \<times> 'b \<Rightarrow> bool" where
  "liveness_differs ops new old \<longleftrightarrow>
     \<not> bs_eq ops (fst new) (fst old) \<or> \<not> bs_eq ops (snd new) (snd old)"

definition compute_liveness :: "'b BitSetOps \<Rightarrow> Body \<Rightarrow> (panicked + 'b list) option" where
  "compute_liveness ops body =
     (let none = bs_with_capacity ops (local_capacity body) in
      case pbind (compute_block_summaries ops body) (\<lambda>summaries.
           pbind (compute_predecessors body) (\<lambda>preds.
           pbind (flow_start ops (length (b_blocks body)) (none, none)) (\<lambda>fl.
             Inr (summaries, preds, fl)))) of
        Inl e \<Rightarrow> Some (Inl e)
      | Inr (summaries, preds, fl) \<Rightarrow>
          map_option (\<lambda>r. pbind r (\<lambda>fl'. Inr (map snd (fl_data fl'))))
            (pop_loop (worklist_step ops (liveness_recompute ops body summaries)
               (liveness_differs ops) (vec_index preds)) fl))"

section \<open>Within a block\<close>

fun stmt_live_before :: "'b BitSetOps \<Rightarrow> StatementKind \<Rightarrow> 'b \<Rightarrow> panicked + 'b" where
  "stmt_live_before ops (Assign place rvalue) live =
     pbind (bit_remove ops (local_index place) live) (walk_rvalue_reads rvalue (liveness_gen ops))"
| "stmt_live_before ops (StorageDead l) live = bit_remove ops (unat l) live"
| "stmt_live_before ops (StorageLive _) live = Inr live"
| "stmt_live_before ops StatementKind.Nop live = Inr live"

fun scan_back :: "'b BitSetOps \<Rightarrow> Statement list \<Rightarrow> 'b \<Rightarrow> panicked + 'b list" where
  "scan_back ops [] live_out = Inr [live_out]"
| "scan_back ops (st # sts) live_out =
     pbind (scan_back ops sts live_out) (\<lambda>liveness.
     pbind (stmt_live_before ops (st_kind st) (hd liveness)) (\<lambda>l. Inr (l # liveness)))"

definition compute_stmt_liveness :: "'b BitSetOps \<Rightarrow> Body \<Rightarrow> nat \<Rightarrow> 'b \<Rightarrow> panicked + 'b list" where
  "compute_stmt_liveness ops body block live_out =
     pbind (vec_index (b_blocks body) block) (\<lambda>bb. scan_back ops (bb_statements bb) live_out)"

section \<open>Paths\<close>

fun stmt_reads :: "StatementKind \<Rightarrow> nat set" where
  "stmt_reads (Assign _ rvalue) = local_index ` set (rvalue_places rvalue)"
| "stmt_reads _ = {}"

fun stmt_defs :: "StatementKind \<Rightarrow> nat set" where
  "stmt_defs (Assign place _) = {local_index place}"
| "stmt_defs _ = {}"

definition terminator_reads :: "TerminatorKind \<Rightarrow> nat set" where
  "terminator_reads k = local_index ` set (terminator_places k)"

fun terminator_defs :: "TerminatorKind \<Rightarrow> nat set" where
  "terminator_defs (TerminatorKind.Call _ _ destination _ _) = {local_index destination}"
| "terminator_defs _ = {}"

text \<open>
  \<open>used_later body b i l\<close>: from before statement \<open>i\<close> of block \<open>b\<close> (\<open>i\<close> the number of statements:
  from before the terminator) some path reads the local \<open>l\<close> before it assigns it.
\<close>

inductive used_later :: "Body \<Rightarrow> nat \<Rightarrow> nat \<Rightarrow> nat \<Rightarrow> bool" for body where
  read: "b < length (b_blocks body) \<Longrightarrow> i < length (bb_statements (b_blocks body ! b)) \<Longrightarrow>
    l \<in> stmt_reads (st_kind (bb_statements (b_blocks body ! b) ! i)) \<Longrightarrow> used_later body b i l"
| step: "b < length (b_blocks body) \<Longrightarrow> i < length (bb_statements (b_blocks body ! b)) \<Longrightarrow>
    l \<notin> stmt_defs (st_kind (bb_statements (b_blocks body ! b) ! i)) \<Longrightarrow>
    used_later body b (Suc i) l \<Longrightarrow> used_later body b i l"
| term_read: "b < length (b_blocks body) \<Longrightarrow> i = length (bb_statements (b_blocks body ! b)) \<Longrightarrow>
    l \<in> terminator_reads (te_kind (bb_terminator (b_blocks body ! b))) \<Longrightarrow> used_later body b i l"
| jump: "b < length (b_blocks body) \<Longrightarrow> i = length (bb_statements (b_blocks body ! b)) \<Longrightarrow>
    l \<notin> terminator_defs (te_kind (bb_terminator (b_blocks body ! b))) \<Longrightarrow>
    s \<in> set (successors_of (b_blocks body ! b)) \<Longrightarrow> used_later body s 0 l \<Longrightarrow> used_later body b i l"

text \<open>What a block makes of the locals live at its end, statement by statement.\<close>

fun gen :: "Statement list \<Rightarrow> TerminatorKind \<Rightarrow> nat set \<Rightarrow> nat set" where
  "gen [] k out = terminator_reads k \<union> (out - terminator_defs k)"
| "gen (st # sts) k out = stmt_reads (st_kind st) \<union> (gen sts k out - stmt_defs (st_kind st))"

text \<open>A body the analysis does not panic on: jumps stay inside, and reads name tracked locals.\<close>

definition liveness_ok :: "'b BitSetOps \<times> Body \<Rightarrow> bool" where
  "liveness_ok p \<longleftrightarrow> bitset_laws (fst p) \<and>
     (\<forall>bb\<in>set (b_blocks (snd p)).
        set (successors_of bb) \<subseteq> {..<length (b_blocks (snd p))} \<and>
        (\<forall>st\<in>set (bb_statements bb). stmt_reads (st_kind st) \<subseteq> {..<local_capacity (snd p)}) \<and>
        terminator_reads (te_kind (bb_terminator bb)) \<subseteq> {..<local_capacity (snd p)})"

end
