(* ===== verification/Mir_Samples.thy ===== *)
theory Mir_Samples
  imports Borrowck_Liveness
begin

text \<open>
  Constructors of small MIR bodies, for the properties that are about one concrete body.
\<close>

definition plain_terminator :: "TerminatorKind \<Rightarrow> Terminator" where
  "plain_terminator k = \<lparr>te_kind = k, te_source_info = SourceInfo_new Span_DUMMY\<rparr>"

definition plain_block :: "StatementKind list \<Rightarrow> TerminatorKind \<Rightarrow> BasicBlockData" where
  "plain_block ks k =
     \<lparr>bb_statements = map (\<lambda>k. \<lparr>st_kind = k, st_source_info = SourceInfo_new Span_DUMMY\<rparr>) ks,
      bb_terminator = plain_terminator k, bb_is_cleanup = False\<rparr>"

definition plain_body :: "nat \<Rightarrow> BasicBlockData list \<Rightarrow> Body" where
  "plain_body n bbs =
     (Body_dummy \<lparr>def_krate = 0, def_local_id = 0\<rparr>)
       \<lparr>b_blocks := bbs,
        b_locals := replicate n \<lparr>ld_ty = Ty_UNIT, ld_mutability = Mutability.Not,
          ld_source_info = SourceInfo_new Span_DUMMY\<rparr>\<rparr>"

definition branch :: "LocalIdx \<Rightarrow> BasicBlockIdx \<Rightarrow> BasicBlockIdx \<Rightarrow> TerminatorKind" where
  "branch l t e = SwitchInt (Operand.Copy (Place_new l)) Ty_BOOL (if_switch t e)"

definition read_local :: "LocalIdx \<Rightarrow> LocalIdx \<Rightarrow> StatementKind" where
  "read_local d l = Assign (Place_new d) (Use (Operand.Copy (Place_new l)))"

definition borrow_mut :: "LocalIdx \<Rightarrow> LocalIdx \<Rightarrow> StatementKind" where
  "borrow_mut r x = Assign (Place_new r) (Rvalue.Ref (Place_new x) (MutBorrow True))"

lemma plain_simps [simp]:
  "b_blocks (plain_body n bbs) = bbs" "length (b_locals (plain_body n bbs)) = n"
  "bb_statements (plain_block ks k) = map (\<lambda>k. \<lparr>st_kind = k, st_source_info = SourceInfo_new Span_DUMMY\<rparr>) ks"
  "te_kind (bb_terminator (plain_block ks k)) = k"
  by (simp_all add: plain_body_def plain_block_def plain_terminator_def)

lemma successors_plain [simp]:
  "successors_of (plain_block ks (Goto t)) = [unat t]"
  "successors_of (plain_block ks (branch l t e)) = [unat t, unat e]"
  "successors_of (plain_block ks TerminatorKind.Return) = []"
  by (simp_all add: successors_of_def branch_def if_switch_def)

lemma list_update_numeral [simp]: "(x # xs)[numeral k := y] = x # xs[pred_numeral k := y]"
  by (simp add: numeral_eq_Suc)

definition take_ref :: "LocalIdx \<Rightarrow> LocalIdx \<Rightarrow> BorrowKind \<Rightarrow> StatementKind" where
  "take_ref r x kind = Assign (Place_new r) (Rvalue.Ref (Place_new x) kind)"

definition unit_const :: Operand where
  "unit_const = Operand.Constant (MirConst MirConstKind.Unit Ty_UNIT Span_DUMMY)"

definition store_unit :: "Place \<Rightarrow> StatementKind" where
  "store_unit p = Assign p (Use unit_const)"

definition pointee :: "LocalIdx \<Rightarrow> Place" where
  "pointee r = \<lparr>pl_local = r, pl_projection = [ProjectionElem.Deref]\<rparr>"

text \<open>\<open>r = &x; x = (); goto next; next: _ = r\<close>\<close>

definition shared_loan :: Body where
  "shared_loan = plain_body 3
     [plain_block [take_ref 2 1 BorrowKind.Shared, store_unit (Place_new 1)] (Goto 1),
      plain_block [read_local 0 2] TerminatorKind.Return]"

lemmas sample_statements = take_ref_def store_unit_def unit_const_def read_local_def pointee_def Place_new_def
  local_index_def

end
