(* ===== verification/Opt_Slice.thy ===== *)
theory Opt_Slice
  imports Opt_Validate Borrowck_Visitor Mir_Samples
begin

text \<open>
  \<open>crates/glyim-opt/src/slice_desugar.rs\<close>: places in which a \<open>ConstantIndex\<close> or \<open>Subslice\<close> is not
  the last projection are split there, the value so far going through a temporary.

  What the pass threads through a statement is the body's list of locals, which grows by the
  temporaries, and the statements to be put in front (\<open>prelude\<close>); \<open>'a slicing\<close> is a computation on
  the two that may panic (\<open>Place::ty\<close> of an undeclared local does).
\<close>

section \<open>The pass\<close>

type_synonym SliceState = "LocalDecl IndexVec \<times> Statement list"
type_synonym 'a slicing = "SliceState \<Rightarrow> panicked + 'a \<times> SliceState"

definition slice_return :: "'a \<Rightarrow> 'a slicing" where
  "slice_return x st = Inr (x, st)"

definition slice_bind :: "'a slicing \<Rightarrow> ('a \<Rightarrow> 'b slicing) \<Rightarrow> 'b slicing" where
  "slice_bind m f st = pbind (m st) (\<lambda>(x, st'). f x st')"

fun slice_map :: "('a \<Rightarrow> 'b slicing) \<Rightarrow> 'a list \<Rightarrow> 'b list slicing" where
  "slice_map f [] = slice_return []"
| "slice_map f (x # xs) =
     slice_bind (f x) (\<lambda>y. slice_bind (slice_map f xs) (\<lambda>ys. slice_return (y # ys)))"

text \<open>The first element that is neither last nor allowed elsewhere.\<close>

definition split_point :: "ProjectionElem list \<Rightarrow> nat option" where
  "split_point proj =
     List.find (\<lambda>i. is_slice_elem (proj ! i) \<and> i + 1 < length proj) [0..<length proj]"

lemma split_point_Some:
  "split_point proj = Some i \<Longrightarrow> is_slice_elem (proj ! i) \<and> i + 1 < length proj \<and> (\<forall>j<i. \<not> is_slice_elem (proj ! j))"
  by (auto simp: split_point_def find_Some_iff)

lemma split_point_None: "split_point proj = None \<longleftrightarrow> slices_last proj"
proof -
  have "slices_last proj \<longleftrightarrow> (\<forall>i < length (butlast proj). \<not> is_slice_elem (butlast proj ! i))"
    by (auto simp: slices_last_def all_set_conv_all_nth)
  also have "\<dots> \<longleftrightarrow> (\<forall>i. i + 1 < length proj \<longrightarrow> \<not> is_slice_elem (proj ! i))"
    by (simp add: nth_butlast less_diff_conv)
  also have "\<dots> \<longleftrightarrow> split_point proj = None"
    by (auto simp: split_point_def find_None_iff)
  finally show ?thesis by simp
qed

definition materialize :: "LocalIdx \<Rightarrow> Place \<Rightarrow> Span \<Rightarrow> Statement list" where
  "materialize tmp prefix span =
     [\<lparr>st_kind = StorageLive tmp, st_source_info = SourceInfo_new span\<rparr>,
      \<lparr>st_kind = Assign (Place_new tmp) (Use (Operand.Copy prefix)), st_source_info = SourceInfo_new span\<rparr>]"

function desugar_place :: "TypeLookup \<Rightarrow> Span \<Rightarrow> Place \<Rightarrow> Place slicing" where
  "desugar_place ctx span place st =
     (case split_point (pl_projection place) of
        None \<Rightarrow> Inr (place, st)
      | Some i \<Rightarrow>
          (let prefix = \<lparr>pl_local = pl_local place, pl_projection = take (i + 1) (pl_projection place)\<rparr> in
           pbind (place_ty ctx prefix (fst st)) (\<lambda>ty.
             let (tmp, locals) = iv_push \<lparr>ld_ty = ty, ld_mutability = Mutability.Not,
                   ld_source_info = SourceInfo_new span\<rparr> (fst st) in
             desugar_place ctx span
               \<lparr>pl_local = tmp, pl_projection = drop (i + 1) (pl_projection place)\<rparr>
               (locals, snd st @ materialize tmp prefix span))))"
  by pat_completeness auto
termination
  by (relation "measure (\<lambda>(ctx, span, place, st). length (pl_projection place))")
    (auto dest: split_point_Some)

declare desugar_place.simps [simp del]

fun desugar_operand :: "TypeLookup \<Rightarrow> Span \<Rightarrow> Operand \<Rightarrow> Operand slicing" where
  "desugar_operand ctx span (Operand.Copy p) =
     slice_bind (desugar_place ctx span p) (\<lambda>p'. slice_return (Operand.Copy p'))"
| "desugar_operand ctx span (Operand.Move p) =
     slice_bind (desugar_place ctx span p) (\<lambda>p'. slice_return (Operand.Move p'))"
| "desugar_operand ctx span (Operand.Constant c) = slice_return (Operand.Constant c)"

fun desugar_rvalue :: "TypeLookup \<Rightarrow> Span \<Rightarrow> Rvalue \<Rightarrow> Rvalue slicing" where
  "desugar_rvalue ctx span (Use op) =
     slice_bind (desugar_operand ctx span op) (\<lambda>op'. slice_return (Use op'))"
| "desugar_rvalue ctx span (BinaryOp b l r) =
     slice_bind (desugar_operand ctx span l) (\<lambda>l'.
     slice_bind (desugar_operand ctx span r) (\<lambda>r'. slice_return (BinaryOp b l' r')))"
| "desugar_rvalue ctx span (UnaryOp u op) =
     slice_bind (desugar_operand ctx span op) (\<lambda>op'. slice_return (UnaryOp u op'))"
| "desugar_rvalue ctx span (Rvalue.Ref p k) =
     slice_bind (desugar_place ctx span p) (\<lambda>p'. slice_return (Rvalue.Ref p' k))"
| "desugar_rvalue ctx span (Rvalue.Aggregate k ops) =
     slice_bind (slice_map (desugar_operand ctx span) ops) (\<lambda>ops'. slice_return (Rvalue.Aggregate k ops'))"
| "desugar_rvalue ctx span (Rvalue.Discriminant p) =
     slice_bind (desugar_place ctx span p) (\<lambda>p'. slice_return (Rvalue.Discriminant p'))"
| "desugar_rvalue ctx span (Rvalue.Len p) =
     slice_bind (desugar_place ctx span p) (\<lambda>p'. slice_return (Rvalue.Len p'))"
| "desugar_rvalue ctx span (Rvalue.Cast k op ty) =
     slice_bind (desugar_operand ctx span op) (\<lambda>op'. slice_return (Rvalue.Cast k op' ty))"
| "desugar_rvalue ctx span (Rvalue.Repeat op n) =
     slice_bind (desugar_operand ctx span op) (\<lambda>op'. slice_return (Rvalue.Repeat op' n))"

definition desugar_statement :: "TypeLookup \<Rightarrow> Statement \<Rightarrow> Statement slicing" where
  "desugar_statement ctx stmt =
     (let span = si_span (st_source_info stmt) in
      case st_kind stmt of
        Assign place rv \<Rightarrow>
          slice_bind (desugar_rvalue ctx span rv) (\<lambda>rv'.
          slice_bind (desugar_place ctx span place) (\<lambda>place'.
            slice_return (stmt\<lparr>st_kind := Assign place' rv'\<rparr>)))
      | _ \<Rightarrow> slice_return stmt)"

fun desugar_terminator_kind :: "TypeLookup \<Rightarrow> Span \<Rightarrow> TerminatorKind \<Rightarrow> TerminatorKind slicing" where
  "desugar_terminator_kind ctx span (SwitchInt discr ty targets) =
     slice_bind (desugar_operand ctx span discr) (\<lambda>d. slice_return (SwitchInt d ty targets))"
| "desugar_terminator_kind ctx span (TerminatorKind.Call func args destination target cleanup) =
     slice_bind (desugar_operand ctx span func) (\<lambda>func'.
     slice_bind (slice_map (desugar_operand ctx span) args) (\<lambda>args'.
     slice_bind (desugar_place ctx span destination) (\<lambda>destination'.
       slice_return (TerminatorKind.Call func' args' destination' target cleanup))))"
| "desugar_terminator_kind ctx span (TerminatorKind.Assert cond e target cleanup msg) =
     slice_bind (desugar_operand ctx span cond) (\<lambda>cond'.
       slice_return (TerminatorKind.Assert cond' e target cleanup msg))"
| "desugar_terminator_kind ctx span (TerminatorKind.Drop place target cleanup) =
     slice_bind (desugar_place ctx span place) (\<lambda>place'. slice_return (TerminatorKind.Drop place' target cleanup))"
| "desugar_terminator_kind ctx span k = slice_return k"

definition desugar_terminator :: "TypeLookup \<Rightarrow> Terminator \<Rightarrow> Terminator slicing" where
  "desugar_terminator ctx term =
     slice_bind (desugar_terminator_kind ctx (si_span (te_source_info term)) (te_kind term))
       (\<lambda>k. slice_return (term\<lparr>te_kind := k\<rparr>))"

fun desugar_statements :: "TypeLookup \<Rightarrow> Statement list \<Rightarrow> LocalDecl IndexVec \<Rightarrow>
    panicked + Statement list \<times> LocalDecl IndexVec" where
  "desugar_statements ctx [] locals = Inr ([], locals)"
| "desugar_statements ctx (stmt # stmts) locals =
     pbind (desugar_statement ctx stmt (locals, [])) (\<lambda>(stmt', locals', prelude).
     pbind (desugar_statements ctx stmts locals') (\<lambda>(rest, locals'').
       Inr (prelude @ [stmt'] @ rest, locals'')))"

definition desugar_block :: "TypeLookup \<Rightarrow> BasicBlockData \<Rightarrow> LocalDecl IndexVec \<Rightarrow>
    panicked + BasicBlockData \<times> LocalDecl IndexVec" where
  "desugar_block ctx bb locals =
     pbind (desugar_statements ctx (bb_statements bb) locals) (\<lambda>(stmts, locals').
     pbind (desugar_terminator ctx (bb_terminator bb) (locals', [])) (\<lambda>(term, locals'', prelude).
       Inr (bb\<lparr>bb_statements := stmts @ prelude, bb_terminator := term\<rparr>, locals'')))"

fun desugar_blocks :: "TypeLookup \<Rightarrow> BasicBlockData list \<Rightarrow> LocalDecl IndexVec \<Rightarrow>
    panicked + BasicBlockData list \<times> LocalDecl IndexVec" where
  "desugar_blocks ctx [] locals = Inr ([], locals)"
| "desugar_blocks ctx (bb # bbs) locals =
     pbind (desugar_block ctx bb locals) (\<lambda>(bb', locals').
     pbind (desugar_blocks ctx bbs locals') (\<lambda>(bbs', locals''). Inr (bb' # bbs', locals'')))"

definition slice_desugar :: "TypeLookup \<Rightarrow> Body \<Rightarrow> panicked + Body" where
  "slice_desugar ctx body =
     pbind (desugar_blocks ctx (b_blocks body) (b_locals body))
       (\<lambda>(bbs, locals). Inr (body\<lparr>b_blocks := bbs, b_locals := locals\<rparr>))"


section \<open>What the pass achieves\<close>

text \<open>The places of a statement and of a terminator, the written ones too.\<close>

definition stmt_places :: "StatementKind \<Rightarrow> Place list" where
  "stmt_places k = (case k of Assign p rv \<Rightarrow> rvalue_places rv @ [p] | _ \<Rightarrow> [])"

fun written_places :: "TerminatorKind \<Rightarrow> Place list" where
  "written_places (TerminatorKind.Call _ _ dest _ _) = [dest]"
| "written_places (TerminatorKind.Drop p _ _) = [p]"
| "written_places _ = []"

definition block_places :: "BasicBlockData \<Rightarrow> Place list" where
  "block_places bb =
     concat (map (\<lambda>s. stmt_places (st_kind s)) (bb_statements bb)) @
     terminator_places (te_kind (bb_terminator bb)) @ written_places (te_kind (bb_terminator bb))"

definition declared :: "'a list \<Rightarrow> Place \<Rightarrow> bool" where
  "declared locals p \<longleftrightarrow> idx_index (pl_local p) < length locals"

definition settled_place :: "'a list \<Rightarrow> Place \<Rightarrow> bool" where
  "settled_place locals p \<longleftrightarrow> declared locals p \<and> slices_last (pl_projection p)"

lemma declared_mono [intro]: "declared locals p \<Longrightarrow> declared (locals @ ext) p"
  by (simp add: declared_def)

lemma settled_place_mono [intro]: "settled_place locals p \<Longrightarrow> settled_place (locals @ ext) p"
  by (auto simp: settled_place_def)

definition settled_stmts :: "'a list \<Rightarrow> Statement list \<Rightarrow> bool" where
  "settled_stmts locals ss \<longleftrightarrow> (\<forall>s\<in>set ss. \<forall>p\<in>set (stmt_places (st_kind s)). settled_place locals p)"

lemma settled_stmts_simps [simp]:
  "settled_stmts locals []"
  "settled_stmts locals (ss @ ts) \<longleftrightarrow> settled_stmts locals ss \<and> settled_stmts locals ts"
  by (auto simp: settled_stmts_def)

lemma settled_stmts_mono [intro]: "settled_stmts locals ss \<Longrightarrow> settled_stmts (locals @ ext) ss"
  by (auto simp: settled_stmts_def)

text \<open>
  \<open>tidies K P m x out\<close>: where the places \<open>P\<close> are declared and the places \<open>K\<close> settled, \<open>m\<close> does not
  panic, only adds locals and settled statements, and the places \<open>out\<close> of what it returns are
  settled; where no place of \<open>P\<close> needs splitting, it returns \<open>x\<close> and changes nothing.
\<close>

definition tidies :: "Place set \<Rightarrow> Place set \<Rightarrow> 'a slicing \<Rightarrow> 'a \<Rightarrow> ('a \<Rightarrow> Place set) \<Rightarrow> bool" where
  "tidies K P m x out \<longleftrightarrow>
     (\<forall>locals pre. (\<forall>p\<in>K. settled_place locals p) \<longrightarrow> (\<forall>p\<in>P. declared locals p) \<longrightarrow>
        (\<exists>y ext ss. m (locals, pre) = Inr (y, locals @ ext, pre @ ss) \<and>
           settled_stmts (locals @ ext) ss \<and> (\<forall>p\<in>out y. settled_place (locals @ ext) p))) \<and>
     (\<forall>st. (\<forall>p\<in>P. slices_last (pl_projection p)) \<longrightarrow> m st = Inr (x, st))"

lemma tidiesE:
  assumes "tidies K P m x out" and "\<forall>p\<in>K. settled_place locals p" and "\<forall>p\<in>P. declared locals p"
  obtains y ext ss where "m (locals, pre) = Inr (y, locals @ ext, pre @ ss)" "settled_stmts (locals @ ext) ss"
    "\<forall>p\<in>out y. settled_place (locals @ ext) p"
  using assms unfolding tidies_def by meson

lemma tidies_same: "tidies K P m x out \<Longrightarrow> \<forall>p\<in>P. slices_last (pl_projection p) \<Longrightarrow> m st = Inr (x, st)"
  unfolding tidies_def by blast

lemma tidies_return: "out x \<subseteq> K \<Longrightarrow> tidies K {} (slice_return x) x out"
  unfolding tidies_def
proof (intro conjI allI impI)
  fix locals :: "LocalDecl IndexVec" and pre :: "Statement list"
  assume "out x \<subseteq> K" "\<forall>p\<in>K. settled_place locals p"
  then show "\<exists>y ext ss. slice_return x (locals, pre) = Inr (y, locals @ ext, pre @ ss) \<and>
    settled_stmts (locals @ ext) ss \<and> (\<forall>p\<in>out y. settled_place (locals @ ext) p)"
    by (intro exI [of _ x] exI [of _ "[]"]) (auto simp: slice_return_def)
qed (simp add: slice_return_def)

lemma tidies_bind:
  assumes m: "tidies K P m x out" and f: "\<And>y. tidies (K \<union> out y) Q (f y) (g y) out'"
  shows "tidies K (P \<union> Q) (slice_bind m f) (g x) out'"
  unfolding tidies_def
proof (intro conjI allI impI)
  fix locals :: "LocalDecl IndexVec" and pre
  assume K: "\<forall>p\<in>K. settled_place locals p" and PQ: "\<forall>p\<in>P \<union> Q. declared locals p"
  then have P: "\<forall>p\<in>P. declared locals p" by blast
  obtain y ext ss where y: "m (locals, pre) = Inr (y, locals @ ext, pre @ ss)" "settled_stmts (locals @ ext) ss"
    "\<forall>p\<in>out y. settled_place (locals @ ext) p" by (rule tidiesE [OF m K P])
  have "\<forall>p\<in>K \<union> out y. settled_place (locals @ ext) p" "\<forall>p\<in>Q. declared (locals @ ext) p"
    using K PQ y(3) by auto
  from tidiesE [OF f this] obtain z ext' ss' where
    z: "f y (locals @ ext, pre @ ss) = Inr (z, (locals @ ext) @ ext', (pre @ ss) @ ss')"
    "settled_stmts ((locals @ ext) @ ext') ss'" "\<forall>p\<in>out' z. settled_place ((locals @ ext) @ ext') p" .
  have "settled_stmts ((locals @ ext) @ ext') ss" using y(2) by blast
  with y(1) z show "\<exists>z ext ss. slice_bind m f (locals, pre) = Inr (z, locals @ ext, pre @ ss) \<and>
    settled_stmts (locals @ ext) ss \<and> (\<forall>p\<in>out' z. settled_place (locals @ ext) p)"
    by (intro exI [of _ z] exI [of _ "ext @ ext'"] exI [of _ "ss @ ss'"]) (simp add: slice_bind_def)
next
  fix st assume "\<forall>p\<in>P \<union> Q. slices_last (pl_projection p)"
  then show "slice_bind m f st = Inr (g x, st)"
    using tidies_same [OF m, of st] tidies_same [OF f, of x st] by (simp add: slice_bind_def)
qed

lemma tidies_map:
  assumes "\<And>x K. x \<in> set xs \<Longrightarrow> tidies K (P x) (f x) x P"
  shows "tidies K (\<Union>x\<in>set xs. P x) (slice_map f xs) xs (\<lambda>ys. \<Union>y\<in>set ys. P y)"
  using assms
proof (induction xs arbitrary: K)
  case Nil
  show ?case by (simp add: tidies_return)
next
  case (Cons x xs)
  have "tidies K (P x \<union> ((\<Union>x\<in>set xs. P x) \<union> {})) (slice_map f (x # xs)) (x # xs) (\<lambda>ys. \<Union>y\<in>set ys. P y)"
    unfolding slice_map.simps
  proof (rule tidies_bind [where g = "\<lambda>y. y # xs"])
    show "tidies K (P x) (f x) x P" using Cons.prems by simp
    fix y
    show "tidies (K \<union> P y) ((\<Union>x\<in>set xs. P x) \<union> {})
        (slice_bind (slice_map f xs) (\<lambda>ys. slice_return (y # ys))) (y # xs) (\<lambda>ys. \<Union>y\<in>set ys. P y)"
    proof (rule tidies_bind [where g = "\<lambda>ys. y # ys"])
      show "tidies (K \<union> P y) (\<Union>x\<in>set xs. P x) (slice_map f xs) xs (\<lambda>ys. \<Union>y\<in>set ys. P y)"
        using Cons.IH Cons.prems by simp
    qed (rule tidies_return, auto)
  qed
  then show ?case by simp
qed

lemma desugar_place_tidies: "tidies K {p} (desugar_place ctx span p) p (\<lambda>q. {q})"
  unfolding tidies_def
proof (intro conjI allI impI)
  fix locals :: "LocalDecl IndexVec" and pre assume "\<forall>q\<in>{p}. declared locals q"
  then show "\<exists>y ext ss. desugar_place ctx span p (locals, pre) = Inr (y, locals @ ext, pre @ ss) \<and>
    settled_stmts (locals @ ext) ss \<and> (\<forall>q\<in>{y}. settled_place (locals @ ext) q)"
  proof (induction "length (pl_projection p)" arbitrary: p locals pre rule: less_induct)
    case less
    show ?case
    proof (cases "split_point (pl_projection p)")
      case None
      have "desugar_place ctx span p (locals, pre) = Inr (p, locals @ [], pre @ [])"
        by (subst desugar_place.simps) (simp add: None)
      moreover have "settled_place locals p"
        using less.prems None by (simp add: settled_place_def split_point_None)
      ultimately show ?thesis by (metis append_Nil2 settled_stmts_simps(1) singletonD)
    next
      case (Some i)
      note sp = split_point_Some [OF Some]
      let ?prefix = "\<lparr>pl_local = pl_local p, pl_projection = take (i + 1) (pl_projection p)\<rparr>"
      obtain ty where ty: "place_ty ctx ?prefix locals = Inr ty"
        using less.prems place_ty_panics_iff [of ctx ?prefix locals]
        by (cases "place_ty ctx ?prefix locals") (auto simp: declared_def split: panicked.split intro: panicked.exhaust)
      let ?decl = "\<lparr>ld_ty = ty, ld_mutability = Mutability.Not, ld_source_info = SourceInfo_new span\<rparr>"
      let ?tmp = "idx_from_usize (length locals)"
      let ?rest = "\<lparr>pl_local = ?tmp, pl_projection = drop (i + 1) (pl_projection p)\<rparr>"
      let ?new = "materialize ?tmp ?prefix span"
      have tmp: "idx_index ?tmp < length (locals @ [?decl])"
        by (simp add: idx_index_def idx_from_usize_def unat_of_nat le_imp_less_Suc)
      have eq: "desugar_place ctx span p (locals, pre) = desugar_place ctx span ?rest (locals @ [?decl], pre @ ?new)"
        using ty by (subst desugar_place.simps) (simp add: Some iv_push_def Let_def)
      have "length (pl_projection ?rest) < length (pl_projection p)" using sp by auto
      moreover have "\<forall>q\<in>{?rest}. declared (locals @ [?decl]) q" using tmp by (simp add: declared_def)
      ultimately obtain y ext ss where
        y: "desugar_place ctx span ?rest (locals @ [?decl], pre @ ?new)
          = Inr (y, (locals @ [?decl]) @ ext, (pre @ ?new) @ ss)"
        "settled_stmts ((locals @ [?decl]) @ ext) ss" "\<forall>q\<in>{y}. settled_place ((locals @ [?decl]) @ ext) q"
        using less.hyps by blast
      have "slices_last (take (i + 1) (pl_projection p))"
        using sp by (auto simp: slices_last_def butlast_take in_set_conv_nth)
      then have "settled_stmts ((locals @ [?decl]) @ ext) ?new"
        using less.prems tmp
        by (auto simp: materialize_def settled_stmts_def stmt_places_def settled_place_def declared_def Place_new_def
            slices_last_def)
      with y show ?thesis unfolding eq
        by (intro exI [of _ y] exI [of _ "?decl # ext"] exI [of _ "?new @ ss"]) simp
    qed
  qed
next
  fix st assume "\<forall>q\<in>{p}. slices_last (pl_projection q)"
  then have "split_point (pl_projection p) = None" by (simp add: split_point_None)
  then show "desugar_place ctx span p st = Inr (p, st)" by (subst desugar_place.simps) simp
qed

text \<open>Operands, rvalues and terminators, by the places they have.\<close>

lemma desugar_operand_tidies:
  "tidies K (set (operand_places op)) (desugar_operand ctx span op) op (\<lambda>op. set (operand_places op))"
proof (cases op)
  case (Copy p)
  have "tidies K ({p} \<union> {}) (desugar_operand ctx span (Operand.Copy p)) (Operand.Copy p)
      (\<lambda>op. set (operand_places op))"
    unfolding desugar_operand.simps
    by (rule tidies_bind [OF desugar_place_tidies]) (rule tidies_return, simp)
  with Copy show ?thesis by simp
next
  case (Move p)
  have "tidies K ({p} \<union> {}) (desugar_operand ctx span (Operand.Move p)) (Operand.Move p)
      (\<lambda>op. set (operand_places op))"
    unfolding desugar_operand.simps
    by (rule tidies_bind [OF desugar_place_tidies]) (rule tidies_return, simp)
  with Move show ?thesis by simp
qed (simp add: tidies_return)

lemma desugar_operands_tidies:
  "tidies K (\<Union>op\<in>set ops. set (operand_places op)) (slice_map (desugar_operand ctx span) ops) ops
     (\<lambda>ops. \<Union>op\<in>set ops. set (operand_places op))"
  by (rule tidies_map) (rule desugar_operand_tidies)

text \<open>A construct with one part that is rewritten.\<close>

lemma tidies_part:
  assumes "\<And>K. tidies K P m x out" and "\<And>y. out' (con y) \<subseteq> out y" and "P = Q"
  shows "tidies K Q (slice_bind m (\<lambda>y. slice_return (con y))) (con x) out'"
  using tidies_bind [OF assms(1) tidies_return, of out' con K] assms(2,3) by force

lemma desugar_rvalue_tidies:
  "tidies K (set (rvalue_places rv)) (desugar_rvalue ctx span rv) rv (\<lambda>rv. set (rvalue_places rv))"
proof (cases rv)
  case (BinaryOp b l r)
  have "tidies K (set (operand_places l) \<union> (set (operand_places r) \<union> {}))
      (desugar_rvalue ctx span (BinaryOp b l r)) (BinaryOp b l r) (\<lambda>rv. set (rvalue_places rv))"
    unfolding desugar_rvalue.simps
    by (rule tidies_bind [OF desugar_operand_tidies, where g = "\<lambda>l. BinaryOp b l r"],
        rule tidies_bind [OF desugar_operand_tidies], rule tidies_return) auto
  with BinaryOp show ?thesis by simp
qed (auto intro!: tidies_part desugar_operand_tidies desugar_place_tidies desugar_operands_tidies)

lemma desugar_terminator_kind_tidies:
  "tidies K (set (terminator_places k @ written_places k)) (desugar_terminator_kind ctx span k) k
     (\<lambda>k. set (terminator_places k @ written_places k))"
proof (cases k)
  case (Call func args dest target cleanup)
  have "tidies K (set (operand_places func) \<union> ((\<Union>op\<in>set args. set (operand_places op)) \<union> ({dest} \<union> {})))
      (desugar_terminator_kind ctx span (TerminatorKind.Call func args dest target cleanup))
      (TerminatorKind.Call func args dest target cleanup) (\<lambda>k. set (terminator_places k @ written_places k))"
    unfolding desugar_terminator_kind.simps
    by (rule tidies_bind [OF desugar_operand_tidies, where g = "\<lambda>f. TerminatorKind.Call f args dest target cleanup"],
        rule tidies_bind [OF desugar_operands_tidies, where g = "\<lambda>a. TerminatorKind.Call _ a dest target cleanup"],
        rule tidies_bind [OF desugar_place_tidies], rule tidies_return) auto
  with Call show ?thesis by (simp add: Un_assoc)
qed (auto intro!: tidies_part desugar_operand_tidies desugar_place_tidies tidies_return)

lemma desugar_statement_tidies:
  "tidies K (set (stmt_places (st_kind s))) (desugar_statement ctx s) s (\<lambda>s. set (stmt_places (st_kind s)))"
proof (cases "st_kind s")
  case (Assign p rv)
  let ?span = "si_span (st_source_info s)"
  have same: "s\<lparr>st_kind := Assign p rv\<rparr> = s" using Assign by simp
  have "tidies K (set (rvalue_places rv) \<union> ({p} \<union> {})) (desugar_statement ctx s)
      (s\<lparr>st_kind := Assign p rv\<rparr>) (\<lambda>s. set (stmt_places (st_kind s)))"
    unfolding desugar_statement_def Let_def Assign StatementKind.case
    by (rule tidies_bind [OF desugar_rvalue_tidies, where g = "\<lambda>rv. s\<lparr>st_kind := Assign p rv\<rparr>"],
        rule tidies_bind [OF desugar_place_tidies], rule tidies_return) (auto simp: stmt_places_def)
  note main = this [unfolded same]
  have places: "set (stmt_places (st_kind s)) = set (rvalue_places rv) \<union> ({p} \<union> {})"
    by (auto simp: stmt_places_def Assign)
  show ?thesis unfolding places by (rule main)
qed (auto simp: desugar_statement_def stmt_places_def intro: tidies_return)

lemma desugar_terminator_tidies:
  "tidies K (set (terminator_places (te_kind t) @ written_places (te_kind t))) (desugar_terminator ctx t) t
     (\<lambda>t. set (terminator_places (te_kind t) @ written_places (te_kind t)))"
proof -
  have "tidies K (set (terminator_places (te_kind t) @ written_places (te_kind t))) (desugar_terminator ctx t)
      (t\<lparr>te_kind := te_kind t\<rparr>) (\<lambda>t. set (terminator_places (te_kind t) @ written_places (te_kind t)))"
    unfolding desugar_terminator_def
    by (rule tidies_part [where con = "\<lambda>k. t\<lparr>te_kind := k\<rparr>"], rule desugar_terminator_kind_tidies) simp_all
  then show ?thesis by simp
qed

section \<open>Whole bodies\<close>

definition slices_tidy :: "Body \<Rightarrow> bool" where
  "slices_tidy body \<longleftrightarrow>
     (\<forall>bb\<in>set (b_blocks body). \<forall>p\<in>set (block_places bb). slices_last (pl_projection p))"

definition places_declared :: "Body \<Rightarrow> bool" where
  "places_declared body \<longleftrightarrow>
     (\<forall>bb\<in>set (b_blocks body). \<forall>p\<in>set (block_places bb). declared (b_locals body) p)"

lemma desugar_statements_ok:
  assumes "\<forall>s\<in>set ss. \<forall>p\<in>set (stmt_places (st_kind s)). declared locals p"
  shows "\<exists>ss' ext. desugar_statements ctx ss locals = Inr (ss', locals @ ext) \<and> settled_stmts (locals @ ext) ss'"
  using assms
proof (induction ss arbitrary: locals)
  case Nil
  show ?case by (intro exI [of _ "[]"]) simp
next
  case (Cons s ss)
  from Cons.prems have "\<forall>p\<in>set (stmt_places (st_kind s)). declared locals p" by simp
  from tidiesE [OF desugar_statement_tidies [of "{}" s ctx] _ this, of "[]"] obtain s' ext pre where
    s': "desugar_statement ctx s (locals, []) = Inr (s', locals @ ext, pre)" "settled_stmts (locals @ ext) pre"
    "\<forall>p\<in>set (stmt_places (st_kind s')). settled_place (locals @ ext) p" by auto
  have "\<forall>s\<in>set ss. \<forall>p\<in>set (stmt_places (st_kind s)). declared (locals @ ext) p" using Cons.prems by auto
  from Cons.IH [OF this] obtain ss' ext' where
    "desugar_statements ctx ss (locals @ ext) = Inr (ss', (locals @ ext) @ ext')"
    "settled_stmts ((locals @ ext) @ ext') ss'" by blast
  moreover have "settled_stmts ((locals @ ext) @ ext') pre" using s'(2) by blast
  moreover have "\<forall>p\<in>set (stmt_places (st_kind s')). settled_place ((locals @ ext) @ ext') p" using s'(3) by blast
  then have "settled_stmts ((locals @ ext) @ ext') [s']" by (simp add: settled_stmts_def)
  ultimately show ?case using s'(1) settled_stmts_simps(2) [of _ "[s']" ss'] by auto
qed

lemma desugar_block_ok:
  assumes "\<forall>p\<in>set (block_places bb). declared locals p"
  obtains bb' ext where "desugar_block ctx bb locals = Inr (bb', locals @ ext)"
    "\<forall>p\<in>set (block_places bb'). settled_place (locals @ ext) p"
    "block_successors bb' = block_successors bb" "bb_is_cleanup bb' = bb_is_cleanup bb"
proof -
  let ?t = "bb_terminator bb"
  obtain ss ext where ss: "desugar_statements ctx (bb_statements bb) locals = Inr (ss, locals @ ext)"
    "settled_stmts (locals @ ext) ss"
    using desugar_statements_ok [of "bb_statements bb" locals ctx] assms by (auto simp: block_places_def)
  have "\<forall>p\<in>set (terminator_places (te_kind ?t) @ written_places (te_kind ?t)). declared (locals @ ext) p"
    using assms by (auto simp: block_places_def)
  from tidiesE [OF desugar_terminator_tidies [of "{}" ?t ctx] _ this, of "[]"] obtain t ext' pre where
    t: "desugar_terminator ctx ?t (locals @ ext, []) = Inr (t, (locals @ ext) @ ext', pre)"
    "settled_stmts ((locals @ ext) @ ext') pre"
    "\<forall>p\<in>set (terminator_places (te_kind t) @ written_places (te_kind t)). settled_place ((locals @ ext) @ ext') p"
    by auto
  have kind: "desugar_terminator_kind ctx sp k st = Inr (k', st') \<Longrightarrow> terminator_successors k' = terminator_successors k"
    for sp k k' st st'
    by (cases k) (auto simp: slice_bind_def slice_return_def pbind_Inr_iff)
  have "terminator_successors (te_kind t) = terminator_successors (te_kind ?t)"
    using t(1) by (auto simp: desugar_terminator_def slice_bind_def slice_return_def pbind_Inr_iff dest!: kind)
  moreover have "settled_stmts ((locals @ ext) @ ext') ss" using ss(2) by blast
  moreover let ?bb = "bb\<lparr>bb_statements := ss @ pre, bb_terminator := t\<rparr>"
  have "desugar_block ctx bb locals = Inr (?bb, locals @ ext @ ext')"
    using ss(1) t(1) by (simp add: desugar_block_def)
  ultimately show thesis
    using t(2,3) by (intro that [of ?bb "ext @ ext'"])
      (auto simp: block_places_def block_successors_def settled_stmts_def)
qed

lemma desugar_blocks_ok:
  assumes "\<forall>bb\<in>set bbs. \<forall>p\<in>set (block_places bb). declared locals p"
  shows "\<exists>bbs' ext. desugar_blocks ctx bbs locals = Inr (bbs', locals @ ext) \<and>
    (\<forall>bb\<in>set bbs'. \<forall>p\<in>set (block_places bb). settled_place (locals @ ext) p) \<and>
    map block_successors bbs' = map block_successors bbs"
  using assms
proof (induction bbs arbitrary: locals)
  case Nil
  show ?case by (intro exI [of _ "[]"]) simp
next
  case (Cons bb bbs)
  from Cons.prems have "\<forall>p\<in>set (block_places bb). declared locals p" by simp
  then obtain bb' ext where bb': "desugar_block ctx bb locals = Inr (bb', locals @ ext)"
    "\<forall>p\<in>set (block_places bb'). settled_place (locals @ ext) p" "block_successors bb' = block_successors bb"
    by (rule desugar_block_ok)
  have "\<forall>bb\<in>set bbs. \<forall>p\<in>set (block_places bb). declared (locals @ ext) p" using Cons.prems by auto
  from Cons.IH [OF this] obtain bbs' ext' where
    "desugar_blocks ctx bbs (locals @ ext) = Inr (bbs', (locals @ ext) @ ext')"
    "\<forall>bb\<in>set bbs'. \<forall>p\<in>set (block_places bb). settled_place ((locals @ ext) @ ext') p"
    "map block_successors bbs' = map block_successors bbs" by blast
  moreover have "\<forall>p\<in>set (block_places bb'). settled_place ((locals @ ext) @ ext') p" using bb'(2) by blast
  ultimately show ?case using bb'(1,3) by auto
qed

lemma desugar_statements_same:
  "\<forall>s\<in>set ss. \<forall>p\<in>set (stmt_places (st_kind s)). slices_last (pl_projection p) \<Longrightarrow>
    desugar_statements ctx ss locals = Inr (ss, locals)"
  by (induction ss) (auto simp: tidies_same [OF desugar_statement_tidies [of "{}"]])

lemma desugar_block_same:
  "\<forall>p\<in>set (block_places bb). slices_last (pl_projection p) \<Longrightarrow> desugar_block ctx bb locals = Inr (bb, locals)"
  by (simp add: desugar_block_def block_places_def desugar_statements_same
      tidies_same [OF desugar_terminator_tidies [of "{}"]] ball_Un)

lemma desugar_blocks_same:
  "\<forall>bb\<in>set bbs. \<forall>p\<in>set (block_places bb). slices_last (pl_projection p) \<Longrightarrow>
    desugar_blocks ctx bbs locals = Inr (bbs, locals)"
  by (induction bbs) (simp_all add: desugar_block_same)

lemma slice_desugar_same: "slices_tidy body \<Longrightarrow> slice_desugar ctx body = Inr body"
  by (simp add: slice_desugar_def slices_tidy_def desugar_blocks_same)

text \<open>
  C24. Slice desugaring establishes what the back ends assume.  On a body whose places have declared
  locals it does not panic; every \<open>ConstantIndex\<close> or \<open>Subslice\<close> of the result, in reads, assigned
  places, call destinations and dropped places, is the last of its place, whose local is declared;
  locals are only added, blocks and their successors stay, and a second run changes nothing.
\<close>

theorem slice_desugar_tidies:
  assumes "places_declared body"
  shows "\<exists>body' ext. slice_desugar ctx body = Inr body' \<and> slices_tidy body' \<and> places_declared body' \<and>
    b_locals body' = b_locals body @ ext \<and>
    map block_successors (b_blocks body') = map block_successors (b_blocks body) \<and>
    slice_desugar ctx body' = Inr body'"
proof -
  from assms obtain bbs ext where bbs: "desugar_blocks ctx (b_blocks body) (b_locals body) = Inr (bbs, b_locals body @ ext)"
    "\<forall>bb\<in>set bbs. \<forall>p\<in>set (block_places bb). settled_place (b_locals body @ ext) p"
    "map block_successors bbs = map block_successors (b_blocks body)"
    using desugar_blocks_ok [of "b_blocks body" "b_locals body" ctx] by (auto simp: places_declared_def)
  let ?body' = "body\<lparr>b_blocks := bbs, b_locals := b_locals body @ ext\<rparr>"
  have "slices_tidy ?body'" "places_declared ?body'"
    using bbs(2) by (auto simp: slices_tidy_def places_declared_def settled_place_def)
  with bbs(1,3) slice_desugar_same [of ?body'] show ?thesis by (auto simp: slice_desugar_def)
qed

section \<open>Writes go to the copy\<close>

text \<open>Where a place is split, the new place and every assignment in front are in the temporaries.\<close>

definition assigns_fresh :: "'a list \<Rightarrow> Statement list \<Rightarrow> bool" where
  "assigns_fresh locals ss \<longleftrightarrow>
     (\<forall>s\<in>set ss. \<forall>q rv. st_kind s = Assign q rv \<longrightarrow>
        length locals \<le> idx_index (pl_local q) \<and> ProjectionElem.Deref \<notin> set (pl_projection q))"

lemma operand_slices_last_places:
  "operand_slices_last op \<longleftrightarrow> (\<forall>q\<in>set (operand_places op). slices_last (pl_projection q))"
  by (cases op) (simp_all add: operand_slices_last_def)

lemma rvalue_slices_last_places:
  "rvalue_slices_last rv \<longleftrightarrow> (\<forall>q\<in>set (rvalue_places rv). slices_last (pl_projection q))"
  by (cases rv) (auto simp: operand_slices_last_places)

lemma desugar_place_fresh:
  assumes "split_point (pl_projection p) = Some i" and "declared locals p"
    and "length locals + length (pl_projection p) \<le> 2 ^ 32"
    and "ProjectionElem.Deref \<notin> set (drop (i + 1) (pl_projection p))"
  shows "\<exists>y ext ss. desugar_place ctx span p (locals, pre) = Inr (y, locals @ ext, pre @ ss) \<and>
    length locals \<le> idx_index (pl_local y) \<and> ProjectionElem.Deref \<notin> set (pl_projection y) \<and> assigns_fresh locals ss"
  using assms
proof (induction "length (pl_projection p)" arbitrary: p i locals pre rule: less_induct)
  case less
  note sp = split_point_Some [OF less.prems(1)]
  let ?prefix = "\<lparr>pl_local = pl_local p, pl_projection = take (i + 1) (pl_projection p)\<rparr>"
  obtain ty where ty: "place_ty ctx ?prefix locals = Inr ty"
    using less.prems(2) place_ty_panics_iff [of ctx ?prefix locals]
    by (cases "place_ty ctx ?prefix locals") (auto simp: declared_def intro: panicked.exhaust)
  let ?decl = "\<lparr>ld_ty = ty, ld_mutability = Mutability.Not, ld_source_info = SourceInfo_new span\<rparr>"
  let ?tmp = "idx_from_usize (length locals)"
  let ?rest = "\<lparr>pl_local = ?tmp, pl_projection = drop (i + 1) (pl_projection p)\<rparr>"
  let ?new = "materialize ?tmp ?prefix span"
  have len: "length locals < 2 ^ 32" using less.prems(3) sp by (cases "pl_projection p") auto
  have tmp: "idx_index ?tmp = length locals" using idx_index_from_usize [OF len] .
  have eq: "desugar_place ctx span p (locals, pre) = desugar_place ctx span ?rest (locals @ [?decl], pre @ ?new)"
    using ty by (subst desugar_place.simps) (simp add: less.prems(1) iv_push_def Let_def)
  have new: "assigns_fresh locals ?new" using tmp by (auto simp: assigns_fresh_def materialize_def Place_new_def)
  show ?case
  proof (cases "split_point (pl_projection ?rest)")
    case None
    then have "desugar_place ctx span ?rest (locals @ [?decl], pre @ ?new) = Inr (?rest, locals @ [?decl], pre @ ?new)"
      by (subst desugar_place.simps) simp
    with eq tmp new less.prems(4) show ?thesis
      by (intro exI [of _ ?rest] exI [of _ "[?decl]"] exI [of _ ?new]) simp
  next
    case (Some j)
    have "length (pl_projection ?rest) < length (pl_projection p)" using sp by auto
    moreover have "declared (locals @ [?decl]) ?rest" using tmp by (simp add: declared_def)
    moreover have "length (locals @ [?decl]) + length (pl_projection ?rest) \<le> 2 ^ 32" using less.prems(3) sp by auto
    moreover have "ProjectionElem.Deref \<notin> set (drop (j + 1) (pl_projection ?rest))"
      using less.prems(4) set_drop_subset [of "j + 1" "pl_projection ?rest"] by auto
    ultimately obtain y ext ss where y:
      "desugar_place ctx span ?rest (locals @ [?decl], pre @ ?new) = Inr (y, (locals @ [?decl]) @ ext, (pre @ ?new) @ ss)"
      "length (locals @ [?decl]) \<le> idx_index (pl_local y)" "ProjectionElem.Deref \<notin> set (pl_projection y)"
      "assigns_fresh (locals @ [?decl]) ss"
      using less.hyps [OF _ Some] by blast
    with new have "assigns_fresh locals (?new @ ss)" by (fastforce simp: assigns_fresh_def)
    with y show ?thesis unfolding eq
      by (intro exI [of _ y] exI [of _ "?decl # ext"] exI [of _ "?new @ ss"]) simp
  qed
qed

text \<open>
  C25. An assignment through a slice element that is not the last projection (such as
  \<open>a[0 of 1].0 = x\<close>) is lost: of the statements that replace it, each one that assigns writes the
  storage of a fresh temporary, none writes a local of the body or goes through a pointer.
\<close>

theorem slice_desugar_loses_writes:
  assumes "st_kind s = Assign p rv" and "split_point (pl_projection p) = Some i"
    and "ProjectionElem.Deref \<notin> set (drop (i + 1) (pl_projection p))" and "rvalue_slices_last rv"
    and "idx_index (pl_local p) < length locals" and "length locals + length (pl_projection p) \<le> 2 ^ 32"
  shows "\<exists>s' ext pre. desugar_statement ctx s (locals, []) = Inr (s', locals @ ext, pre) \<and>
    (\<forall>t\<in>set (pre @ [s']). \<forall>q r. st_kind t = Assign q r \<longrightarrow>
       length locals \<le> idx_index (pl_local q) \<and> ProjectionElem.Deref \<notin> set (pl_projection q))"
proof -
  let ?span = "si_span (st_source_info s)"
  have "declared locals p" using assms(5) by (simp add: declared_def)
  from desugar_place_fresh [OF assms(2) this assms(6,3), of ctx ?span "[]"] obtain y ext ss where
    y: "desugar_place ctx ?span p (locals, []) = Inr (y, locals @ ext, ss)"
    "length locals \<le> idx_index (pl_local y)" "ProjectionElem.Deref \<notin> set (pl_projection y)" "assigns_fresh locals ss"
    by auto
  have "\<forall>q\<in>set (rvalue_places rv). slices_last (pl_projection q)"
    using assms(4) by (simp add: rvalue_slices_last_places)
  from tidies_same [OF desugar_rvalue_tidies [of "{}"] this]
  have "desugar_rvalue ctx ?span rv (locals, []) = Inr (rv, locals, [])" .
  with y assms(1) have "desugar_statement ctx s (locals, []) = Inr (s\<lparr>st_kind := Assign y rv\<rparr>, locals @ ext, ss)"
    by (simp add: desugar_statement_def Let_def slice_bind_def slice_return_def)
  with y(2-4) show ?thesis unfolding assigns_fresh_def by fastforce
qed

text \<open>\<open>_1[0 of 1].0 = ()\<close>\<close>

definition lost_write :: Body where
  "lost_write = plain_body 2
     [plain_block [store_unit \<lparr>pl_local = 1, pl_projection = [ConstantIndex 0 1 False, Field 0]\<rparr>] TerminatorKind.Return]"

lemma slice_desugar_loses_writes_witness:
  "\<forall>ctx. \<exists>s' ext pre. desugar_statement ctx (bb_statements (b_blocks lost_write ! 0) ! 0) (b_locals lost_write, [])
      = Inr (s', b_locals lost_write @ ext, pre) \<and>
    (\<forall>t\<in>set (pre @ [s']). \<forall>q r. st_kind t = Assign q r \<longrightarrow> 2 \<le> idx_index (pl_local q))"
proof
  fix ctx
  let ?s = "bb_statements (b_blocks lost_write ! 0) ! 0"
  let ?p = "\<lparr>pl_local = 1, pl_projection = [ConstantIndex 0 1 False, Field 0]\<rparr>"
  have "st_kind ?s = Assign ?p (Use unit_const)" "length (b_locals lost_write) = 2"
    by (simp_all add: lost_write_def store_unit_def)
  moreover have "split_point (pl_projection ?p) = Some 0"
    by (simp add: split_point_def is_slice_elem_def numeral_2_eq_2)
  ultimately show "\<exists>s' ext pre. desugar_statement ctx ?s (b_locals lost_write, []) = Inr (s', b_locals lost_write @ ext, pre) \<and>
    (\<forall>t\<in>set (pre @ [s']). \<forall>q r. st_kind t = Assign q r \<longrightarrow> 2 \<le> idx_index (pl_local q))"
    using slice_desugar_loses_writes [of ?s ?p "Use unit_const" 0 "b_locals lost_write" ctx]
    by (simp add: unit_const_def operand_slices_last_def idx_index_def) blast
qed

lemma slice_desugar_tidies_witness:
  "\<forall>ctx. \<exists>body'. slice_desugar ctx lost_write = Inr body' \<and> slices_tidy body'"
proof
  fix ctx
  have "places_declared lost_write"
    by (simp add: places_declared_def lost_write_def block_places_def stmt_places_def store_unit_def unit_const_def
        declared_def idx_index_def)
  from slice_desugar_tidies [OF this, of ctx] show "\<exists>body'. slice_desugar ctx lost_write = Inr body' \<and> slices_tidy body'"
    by blast
qed

end
