(* ===== verification/Opt_Dce.thy ===== *)
theory Opt_Dce
  imports Emit_Correct
begin

text \<open>
  \<open>crates/glyim-opt/src/dce.rs\<close>: assignments to locals that nothing in the body reads are
  removed.  A \<open>&mut HashSet<LocalIdx>\<close> is a set the collecting functions return extended.
\<close>

section \<open>The pass\<close>

definition collect_projection_locals :: "ProjectionElem list \<Rightarrow> LocalIdx set \<Rightarrow> LocalIdx set" where
  "collect_projection_locals proj used =
     fold (\<lambda>p u. case p of Index l \<Rightarrow> insert l u | _ \<Rightarrow> u) proj used"

definition collect_place_uses :: "Place \<Rightarrow> LocalIdx set \<Rightarrow> LocalIdx set" where
  "collect_place_uses p used = collect_projection_locals (pl_projection p) (insert (pl_local p) used)"

fun collect_operand_uses :: "Operand \<Rightarrow> LocalIdx set \<Rightarrow> LocalIdx set" where
  "collect_operand_uses (Copy p) used = collect_place_uses p used"
| "collect_operand_uses (Move p) used = collect_place_uses p used"
| "collect_operand_uses (Constant _) used = used"

fun collect_uses_in_rvalue :: "Rvalue \<Rightarrow> LocalIdx set \<Rightarrow> LocalIdx set" where
  "collect_uses_in_rvalue (Use op) used = collect_operand_uses op used"
| "collect_uses_in_rvalue (BinaryOp _ l r) used = collect_operand_uses r (collect_operand_uses l used)"
| "collect_uses_in_rvalue (Rvalue.Ref p _) used = collect_place_uses p used"
| "collect_uses_in_rvalue (Rvalue.Aggregate _ os) used = fold collect_operand_uses os used"
| "collect_uses_in_rvalue (Rvalue.Discriminant p) used = collect_place_uses p used"
| "collect_uses_in_rvalue (Rvalue.Len p) used = collect_place_uses p used"
| "collect_uses_in_rvalue (Rvalue.Cast _ op _) used = collect_operand_uses op used"
| "collect_uses_in_rvalue (Rvalue.Repeat op _) used = collect_operand_uses op used"
| "collect_uses_in_rvalue (UnaryOp _ op) used = collect_operand_uses op used"

fun collect_uses_in_terminator :: "TerminatorKind \<Rightarrow> LocalIdx set \<Rightarrow> LocalIdx set" where
  "collect_uses_in_terminator (TerminatorKind.Call func args destination _ _) used =
     insert (pl_local destination) (fold collect_operand_uses args (collect_operand_uses func used))"
| "collect_uses_in_terminator (SwitchInt discr _ _) used = collect_operand_uses discr used"
| "collect_uses_in_terminator (TerminatorKind.Assert cond _ _ _ _) used = collect_operand_uses cond used"
| "collect_uses_in_terminator (TerminatorKind.Drop p _ _) used =
     insert (pl_local p) (collect_projection_locals (pl_projection p) used)"
| "collect_uses_in_terminator _ used = used"

fun collect_uses_in_stmt :: "StatementKind \<Rightarrow> LocalIdx set \<Rightarrow> LocalIdx set" where
  "collect_uses_in_stmt (Assign p rv) used =
     (let u = collect_uses_in_rvalue rv used
      in if pl_projection p \<noteq> [] then collect_projection_locals (pl_projection p) (insert (pl_local p) u)
         else u)"
| "collect_uses_in_stmt _ used = used"

text \<open>\<open>u32::try_from(i + 1).unwrap_or(u32::MAX)\<close>.\<close>

definition arg_local :: "nat \<Rightarrow> LocalIdx" where
  "arg_local i = (if i + 1 < 2 ^ 32 then of_nat (i + 1) else u32_max)"

definition collect_block_uses :: "BasicBlockData \<Rightarrow> LocalIdx set \<Rightarrow> LocalIdx set" where
  "collect_block_uses bb used =
     collect_uses_in_terminator (te_kind (bb_terminator bb))
       (fold (\<lambda>s. collect_uses_in_stmt (st_kind s)) (bb_statements bb) used)"

definition collect_used_locals :: "Body \<Rightarrow> LocalIdx set" where
  "collect_used_locals body =
     fold collect_block_uses (b_blocks body)
       (fold (\<lambda>i. insert (arg_local i)) [0..<b_arg_count body] {0})"

definition dce_retains :: "LocalIdx set \<Rightarrow> Statement \<Rightarrow> bool" where
  "dce_retains used stmt =
     (case st_kind stmt of
        Assign p _ \<Rightarrow> (if pl_projection p = [] then pl_local p \<in> used else True)
      | _ \<Rightarrow> True)"

definition dce :: "Body \<Rightarrow> Body" where
  "dce body =
     (let used = collect_used_locals body
      in body\<lparr>b_blocks := map (\<lambda>bb. bb\<lparr>bb_statements := filter (dce_retains used) (bb_statements bb)\<rparr>)
                            (b_blocks body)\<rparr>)"

section \<open>What is used\<close>

text \<open>Collecting only adds, and adds no less to a larger set.\<close>

definition adds :: "(LocalIdx set \<Rightarrow> LocalIdx set) \<Rightarrow> bool" where
  "adds f \<longleftrightarrow> (\<forall>u. u \<subseteq> f u) \<and> mono f"

lemma adds_mono: "adds f \<Longrightarrow> u \<subseteq> f u"
  by (simp add: adds_def)

lemma adds_empty: "adds f \<Longrightarrow> f {} \<subseteq> f u"
  unfolding adds_def by (meson empty_subsetI monoD)

lemma addsI: "(\<And>u. u \<subseteq> f u) \<Longrightarrow> (\<And>u v. u \<subseteq> v \<Longrightarrow> f u \<subseteq> f v) \<Longrightarrow> adds f"
  by (simp add: adds_def mono_def)

lemma adds_id: "adds (\<lambda>u. u)"
  by (simp add: adds_def mono_def)

lemma adds_ins: "adds (insert x)"
  by (rule addsI) auto

lemma addsD_mono: "adds f \<Longrightarrow> u \<subseteq> v \<Longrightarrow> f u \<subseteq> f v"
  by (simp add: adds_def mono_def)

lemma adds_comp:
  assumes "adds f" "adds g"
  shows "adds (\<lambda>u. f (g u))"
proof (rule addsI)
  show "u \<subseteq> f (g u)" for u using adds_mono [OF assms(2)] adds_mono [OF assms(1)] by (rule subset_trans)
  show "f (g u) \<subseteq> f (g v)" if "u \<subseteq> v" for u v
    using addsD_mono [OF assms(1) addsD_mono [OF assms(2) that]] .
qed

lemma adds_eq:
  assumes "adds f" "\<And>u. g u = f u"
  shows "adds g"
proof -
  have "g = f" by (rule ext) (rule assms(2))
  with assms(1) show ?thesis by simp
qed

lemma adds_fold: "(\<And>x. adds (f x)) \<Longrightarrow> adds (fold f xs)"
proof (induction xs)
  case Nil
  show ?case by (rule adds_eq [OF adds_id]) simp
next
  case (Cons x xs)
  show ?case by (rule adds_eq [OF adds_comp [OF Cons.IH [OF Cons.prems] Cons.prems [of x]]]) simp_all
qed

lemma adds_projection: "adds (collect_projection_locals proj)"
proof (rule adds_eq [OF adds_fold])
  fix p :: ProjectionElem
  show "adds (\<lambda>u. case p of Index l \<Rightarrow> insert l u | _ \<Rightarrow> u)"
    by (cases p) (simp_all add: adds_ins adds_id)
qed (simp add: collect_projection_locals_def)

lemma adds_place: "adds (collect_place_uses p)"
  by (rule adds_eq [OF adds_comp [OF adds_projection adds_ins]]) (simp add: collect_place_uses_def)

lemma adds_operand: "adds (collect_operand_uses op)"
  by (cases op) (auto intro: adds_eq [OF adds_place] adds_eq [OF adds_id])

lemma adds_operands: "adds (fold collect_operand_uses os)"
  by (rule adds_fold) (rule adds_operand)

lemma adds_rvalue: "adds (collect_uses_in_rvalue rv)"
  by (cases rv)
    (auto intro: adds_eq [OF adds_place] adds_eq [OF adds_operand] adds_eq [OF adds_operands]
      adds_eq [OF adds_comp [OF adds_operand adds_operand]])

lemma adds_stmt: "adds (collect_uses_in_stmt k)"
proof (cases k)
  case (Assign p rv)
  show ?thesis
  proof (cases "pl_projection p = []")
    case True
    show ?thesis by (rule adds_eq [OF adds_rvalue [of rv]]) (simp add: Assign True Let_def)
  next
    case False
    show ?thesis
      by (rule adds_eq [OF adds_comp [OF adds_projection adds_comp [OF adds_ins adds_rvalue [of rv]]]])
        (simp add: Assign False Let_def)
  qed
qed (auto intro: adds_eq [OF adds_id])

lemma adds_terminator: "adds (collect_uses_in_terminator t)"
  by (cases t)
    (auto intro: adds_eq [OF adds_id] adds_eq [OF adds_operand]
      adds_eq [OF adds_comp [OF adds_ins adds_projection]]
      adds_eq [OF adds_comp [OF adds_ins adds_comp [OF adds_operands adds_operand]]])

lemma adds_block: "adds (collect_block_uses bb)"
proof (rule adds_eq [OF adds_comp [OF adds_terminator adds_fold]])
  show "adds (collect_uses_in_stmt (st_kind s))" for s by (rule adds_stmt)
qed (simp add: collect_block_uses_def)

lemma adds_member:
  assumes "\<And>x. adds (f x)" "x \<in> set xs"
  shows "f x {} \<subseteq> fold f xs u"
  using assms(2)
proof (induction xs arbitrary: u)
  case Nil
  then show ?case by simp
next
  case (Cons y xs)
  show ?case
  proof (cases "x = y")
    case True
    have "f x {} \<subseteq> f x u" using adds_empty [OF assms(1)] .
    also have "\<dots> \<subseteq> fold f xs (f x u)" using adds_mono [OF adds_fold [OF assms(1)]] .
    finally show ?thesis using True by simp
  next
    case False
    with Cons show ?thesis by simp
  qed
qed

lemma used_stmt:
  assumes "bb \<in> set (b_blocks body)" "s \<in> set (bb_statements bb)"
  shows "collect_uses_in_stmt (st_kind s) {} \<subseteq> collect_used_locals body"
proof -
  have "collect_uses_in_stmt (st_kind s) {} \<subseteq> fold (\<lambda>s. collect_uses_in_stmt (st_kind s)) (bb_statements bb) {}"
    using adds_member [of "\<lambda>s. collect_uses_in_stmt (st_kind s)" s] adds_stmt assms(2) by blast
  also have "\<dots> \<subseteq> collect_block_uses bb {}"
    unfolding collect_block_uses_def by (rule adds_mono [OF adds_terminator])
  also have "\<dots> \<subseteq> collect_used_locals body"
    unfolding collect_used_locals_def by (rule adds_member [OF adds_block assms(1)])
  finally show ?thesis .
qed

lemma used_terminator:
  assumes "bb \<in> set (b_blocks body)"
  shows "collect_uses_in_terminator (te_kind (bb_terminator bb)) {} \<subseteq> collect_used_locals body"
proof -
  have "collect_uses_in_terminator (te_kind (bb_terminator bb)) {} \<subseteq> collect_block_uses bb {}"
    unfolding collect_block_uses_def by (rule adds_empty [OF adds_terminator])
  also have "\<dots> \<subseteq> collect_used_locals body"
    unfolding collect_used_locals_def by (rule adds_member [OF adds_block assms(1)])
  finally show ?thesis .
qed

lemma used_return: "0 \<in> collect_used_locals body"
proof -
  have "0 \<in> fold (\<lambda>i. insert (arg_local i)) is u" if "0 \<in> u" for "is" u
    using that by (induction "is" arbitrary: u) auto
  then have "0 \<in> fold (\<lambda>i. insert (arg_local i)) [0..<b_arg_count body] {0}" by simp
  then show ?thesis unfolding collect_used_locals_def
    by (rule subsetD [OF adds_mono [OF adds_fold [OF adds_block]]])
qed

section \<open>The pass preserves results\<close>

definition agree :: "LocalIdx set \<Rightarrow> Value list \<Rightarrow> Value list \<Rightarrow> bool" where
  "agree used ls ls' \<longleftrightarrow> length ls = length ls' \<and> (\<forall>l \<in> used. ls ! unat l = ls' ! unat l)"

lemma agree_operand:
  "agree used ls ls' \<Longrightarrow> collect_operand_uses op {} \<subseteq> used \<Longrightarrow> operand_value ls op = operand_value ls' op"
proof (cases op)
  case (Copy p)
  moreover assume "collect_operand_uses op {} \<subseteq> used"
  ultimately have "pl_local p \<in> used"
    using adds_mono [OF adds_projection, of "{pl_local p}" "pl_projection p"] by (auto simp: collect_place_uses_def)
  moreover assume "agree used ls ls'"
  ultimately show ?thesis using Copy by (simp add: agree_def)
next
  case (Move p)
  moreover assume "collect_operand_uses op {} \<subseteq> used"
  ultimately have "pl_local p \<in> used"
    using adds_mono [OF adds_projection, of "{pl_local p}" "pl_projection p"] by (auto simp: collect_place_uses_def)
  moreover assume "agree used ls ls'"
  ultimately show ?thesis using Move by (simp add: agree_def)
qed simp

lemma agree_rvalue:
  assumes "agree used ls ls'" "collect_uses_in_rvalue rv {} \<subseteq> used"
  shows "mir_rvalue ls rv = mir_rvalue ls' rv"
proof (cases rv)
  case (BinaryOp op l r)
  have "collect_operand_uses l {} \<subseteq> used" "collect_operand_uses r {} \<subseteq> used"
    using assms(2) BinaryOp adds_mono [OF adds_operand [of r], of "collect_operand_uses l {}"]
      adds_empty [OF adds_operand [of r], of "collect_operand_uses l {}"]
    by auto
  with BinaryOp agree_operand [OF assms(1), of l] agree_operand [OF assms(1), of r] show ?thesis by simp
next
  case (UnaryOp op o')
  with assms agree_operand [OF assms(1), of o'] show ?thesis by (cases op) simp_all
qed (use assms agree_operand in auto)

lemma agree_update:
  "agree used ls ls' \<Longrightarrow> agree used (ls[i := v]) (ls'[i := v])"
  unfolding agree_def by (metis length_list_update list_update_beyond not_le nth_list_update)

lemma agree_dead: "agree used ls ls' \<Longrightarrow> l \<notin> used \<Longrightarrow> agree used (ls[unat l := v]) ls'"
  unfolding agree_def by (metis length_list_update nth_list_update_neq word_unat_eq_iff)

lemma dce_stmts:
  assumes "\<forall>s \<in> set ss. collect_uses_in_stmt (st_kind s) {} \<subseteq> used" "agree used ls ls'"
    and "\<forall>s \<in> set ss. scalar_stmt n (st_kind s)" "mir_stmts ss ls = Some ls1"
  shows "\<exists>ls1'. mir_stmts (filter (dce_retains used) ss) ls' = Some ls1' \<and> agree used ls1 ls1'"
  using assms
proof (induction ss arbitrary: ls ls')
  case Nil
  then show ?case by simp
next
  case (Cons s ss)
  show ?case
  proof (cases "st_kind s")
    case (Assign p rv)
    from Cons.prems(4) Assign obtain v where v: "mir_rvalue ls rv = Some v"
      and rest: "mir_stmts ss (ls[unat (pl_local p) := v]) = Some ls1"
      by (auto split: Option.bind_splits)
    have pr: "pl_projection p = []" using Cons.prems(3) Assign by simp
    show ?thesis
    proof (cases "pl_local p \<in> used")
      case True
      have "collect_uses_in_rvalue rv {} \<subseteq> used" using Cons.prems(1) Assign pr by (simp add: Let_def)
      with v agree_rvalue [OF Cons.prems(2)] have "mir_rvalue ls' rv = Some v" by simp
      with Cons.IH [OF _ agree_update [OF Cons.prems(2)] _ rest] Cons.prems(1,3) True Assign pr
      show ?thesis by (simp add: dce_retains_def)
    next
      case False
      with Cons.IH [OF _ agree_dead [OF Cons.prems(2) False] _ rest] Cons.prems(1,3) Assign pr
      show ?thesis by (simp add: dce_retains_def)
    qed
  qed (use Cons in \<open>auto simp: dce_retains_def\<close>)
qed

lemma leads_terminator_target:
  assumes "scalar_term n k lts t" "mir_terminator lts t ls = ToBlock b"
  shows "unat b < k"
  using assms switch_target_in by (cases t) (auto simp: Let_def split: if_splits)

lemma dce_terminator:
  assumes "agree used ls ls'" "collect_uses_in_terminator t {} \<subseteq> used" "0 \<in> used"
  shows "mir_terminator lts t ls = mir_terminator lts t ls'"
proof (cases t)
  case Return
  have "ls ! unat (0 :: u32) = ls' ! unat (0 :: u32)" using assms(1,3) unfolding agree_def by blast
  with Return show ?thesis by simp
qed (use assms agree_operand in \<open>auto simp: Let_def\<close>)

lemma dce_runs:
  assumes "scalar_body body" and "mir_run body n 0 ls = Some r" and "r \<noteq> Inl AbnormalTermination"
  shows "mir_run (dce body) n 0 ls = Some r"
proof -
  let ?used = "collect_used_locals body"
  have "mir_run (dce body) n bb ls' = Some r"
    if "mir_run body n bb ls = Some r" "unat bb < length (b_blocks body)" "agree ?used ls ls'" for n bb ls ls'
    using that
  proof (induction n arbitrary: bb ls ls')
    case 0
    then show ?case by simp
  next
    case (Suc n)
    let ?b = "b_blocks body ! unat bb"
    let ?t = "te_kind (bb_terminator ?b)"
    have mem: "?b \<in> set (b_blocks body)" using Suc.prems(2) by simp
    have sc: "scalar_block (length (b_locals body)) (length (b_blocks body)) (b_locals body) ?b"
      using assms(1) mem by (simp add: scalar_body_def)
    have new: "b_blocks (dce body) ! unat bb = ?b\<lparr>bb_statements := filter (dce_retains ?used) (bb_statements ?b)\<rparr>"
      "b_locals (dce body) = b_locals body"
      using Suc.prems(2) by (simp_all add: dce_def Let_def)
    obtain ls1 where ls1: "mir_stmts (bb_statements ?b) ls = Some ls1"
      using Suc.prems(1) assms(3) by (cases "mir_stmts (bb_statements ?b) ls") (auto simp: Let_def)
    have "\<forall>s \<in> set (bb_statements ?b). collect_uses_in_stmt (st_kind s) {} \<subseteq> ?used"
      using used_stmt [OF mem] by blast
    moreover have "\<forall>s \<in> set (bb_statements ?b). scalar_stmt (length (b_locals body)) (st_kind s)"
      using sc by (simp add: scalar_block_def)
    ultimately obtain ls1' where ls1': "agree ?used ls1 ls1'"
      "mir_stmts (filter (dce_retains ?used) (bb_statements ?b)) ls' = Some ls1'"
      using dce_stmts [OF _ Suc.prems(3) _ ls1] by blast
    have t: "mir_terminator (b_locals body) ?t ls1 = mir_terminator (b_locals body) ?t ls1'"
      by (rule dce_terminator [OF ls1'(1) used_terminator [OF mem] used_return])
    show ?case
    proof (cases "mir_terminator (b_locals body) ?t ls1'")
      case (ToBlock b)
      then have "unat b < length (b_blocks body)"
        using leads_terminator_target sc by (auto simp: scalar_block_def)
      moreover have "mir_run body n b ls1 = Some r" using Suc.prems(1) ls1 t ToBlock by (simp add: Let_def)
      ultimately have "mir_run (dce body) n b ls1' = Some r" using ls1'(1) by (intro Suc.IH)
      then show ?thesis using ls1'(2) ToBlock new by (simp add: Let_def)
    qed (use Suc.prems(1) ls1 ls1'(2) t new in \<open>auto simp: Let_def\<close>)
  qed
  then show ?thesis using assms(1,2) by (simp add: agree_def scalar_body_def)
qed

text \<open>
  C6. Dead-code elimination preserves results: whenever a scalar body returns a value, or fails an
  assertion, from some locals, the body with the dead assignments removed does the same with
  the same fuel.  (An \<open>AbnormalTermination\<close> is excluded: a removed assignment may be the
  division that trapped.)
\<close>

theorem dce_preserves_results:
  assumes "scalar_body body" and "mir_run body n 0 ls = Some r" and "r \<noteq> Inl AbnormalTermination"
  shows "mir_run (dce body) n 0 ls = Some r"
  using assms by (rule dce_runs)

text \<open>The witness: \<open>_1 = 9; _0 = 5; return\<close>, where nothing reads \<open>_1\<close>.\<close>

definition dead_store_body :: Body where
  "dead_store_body = demo_body
     [demo_block [demo_stmt 1 (Use (demo_const 9)), demo_stmt 0 (Use (demo_const 5))] TerminatorKind.Return]
     [Ty_I64, Ty_I64]"

lemma dce_preserves_results_witness:
  "mir_run (dce dead_store_body) 1 0 [Value.Int 0, Value.Int 0] = Some (Inr (Value.Int 5)) \<and>
   length (bb_statements (b_blocks (dce dead_store_body) ! 0)) = 1"
proof
  have "scalar_body dead_store_body"
    by (simp add: dead_store_body_def demo_simps scalar_body_def scalar_block_def)
  moreover have "mir_run dead_store_body 1 0 [Value.Int 0, Value.Int 0] = Some (Inr (Value.Int 5))"
    by (simp add: dead_store_body_def demo_simps Let_def local0_ty_def Ty_I64_def Ty_UNIT_def)
  ultimately show "mir_run (dce dead_store_body) 1 0 [Value.Int 0, Value.Int 0] = Some (Inr (Value.Int 5))"
    by (rule dce_preserves_results) simp
  show "length (bb_statements (b_blocks (dce dead_store_body) ! 0)) = 1"
    by (simp add: dce_def dead_store_body_def demo_simps dce_retains_def collect_used_locals_def
        collect_block_uses_def)
qed

end
