(* ===== verification/Opt_ConstProp.thy ===== *)
theory Opt_ConstProp
  imports Opt_Cfg "HOL-Library.AList"
begin

text \<open>
  \<open>crates/glyim-opt/src/constant_prop.rs\<close>: constant propagation over the control-flow graph.

  A \<open>BlockMap\<close> (a hash map) is an association list: a local bound to \<open>Some c\<close> holds \<open>c\<close>, one bound
  to \<open>None\<close> is assigned but not constant, an absent one is not assigned.  The \<open>f64\<close> operations,
  on bit patterns, are the record \<open>FloatOps\<close>, an argument.  Integer constants are 128 bits wide
  and their arithmetic panics on overflow (overflow checks are on in every profile of the
  workspace), as an index out of \<open>body.locals\<close> does.
\<close>

type_synonym BlockMap = "(LocalIdx \<times> MirConst option) list"

record FloatOps =
  f_add :: "u64 \<Rightarrow> u64 \<Rightarrow> u64"
  f_sub :: "u64 \<Rightarrow> u64 \<Rightarrow> u64"
  f_mul :: "u64 \<Rightarrow> u64 \<Rightarrow> u64"
  f_div :: "u64 \<Rightarrow> u64 \<Rightarrow> u64"
  f_neg :: "u64 \<Rightarrow> u64"
  f_eq :: "u64 \<Rightarrow> u64 \<Rightarrow> bool"
  f_lt :: "u64 \<Rightarrow> u64 \<Rightarrow> bool"
  f_le :: "u64 \<Rightarrow> u64 \<Rightarrow> bool"

section \<open>Comparing and merging maps\<close>

fun const_eq :: "MirConst \<Rightarrow> MirConst \<Rightarrow> bool" and const_eqs :: "MirConst list \<Rightarrow> MirConst list \<Rightarrow> bool" where
  "const_eq (MirConst k t _) (MirConst k' t' _) \<longleftrightarrow>
     t = t' \<and>
     (case (k, k') of
        (MirConstKind.Int a, MirConstKind.Int b) \<Rightarrow> a = b
      | (MirConstKind.Uint a, MirConstKind.Uint b) \<Rightarrow> a = b
      | (MirConstKind.Bool a, MirConstKind.Bool b) \<Rightarrow> a = b
      | (MirConstKind.Char a, MirConstKind.Char b) \<Rightarrow> a = b
      | (MirConstKind.FloatBits a, MirConstKind.FloatBits b) \<Rightarrow> a = b
      | (MirConstKind.Unit, MirConstKind.Unit) \<Rightarrow> True
      | (MirConstKind.Aggregate a, MirConstKind.Aggregate b) \<Rightarrow> const_eqs a b
      | _ \<Rightarrow> False)"
| "const_eqs [] [] \<longleftrightarrow> True"
| "const_eqs (a # as) (b # bs) \<longleftrightarrow> const_eq a b \<and> const_eqs as bs"
| "const_eqs _ _ \<longleftrightarrow> False"

definition entry_eq :: "MirConst option \<Rightarrow> MirConst option \<Rightarrow> bool" where
  "entry_eq v w = (case (v, w) of
     (None, None) \<Rightarrow> True | (Some c, Some d) \<Rightarrow> const_eq c d | _ \<Rightarrow> False)"

definition maps_equal :: "BlockMap \<Rightarrow> BlockMap \<Rightarrow> bool" where
  "maps_equal a b \<longleftrightarrow>
     length a = length b \<and>
     list_all (\<lambda>(k, v). case map_of b k of None \<Rightarrow> False | Some w \<Rightarrow> entry_eq v w) a \<and>
     list_all (\<lambda>(k, _). map_of a k \<noteq> None) b"

definition merge_entry :: "LocalIdx \<times> MirConst option \<Rightarrow> BlockMap \<Rightarrow> BlockMap" where
  "merge_entry kv into = (case kv of (l, v) \<Rightarrow>
     (case map_of into l of
        None \<Rightarrow> AList.update l v into
      | Some existing \<Rightarrow> (if entry_eq existing v then into else AList.update l None into)))"

definition merge_maps :: "BlockMap \<Rightarrow> BlockMap \<Rightarrow> BlockMap" where
  "merge_maps into other = fold merge_entry other into"

section \<open>Evaluating an rvalue\<close>

definition place_const :: "Place \<Rightarrow> BlockMap \<Rightarrow> MirConst option" where
  "place_const p m =
     (if pl_projection p = [] then (case map_of m (pl_local p) of Some v \<Rightarrow> v | None \<Rightarrow> None) else None)"

fun operand_to_const :: "Operand \<Rightarrow> BlockMap \<Rightarrow> MirConst option" where
  "operand_to_const (Constant c) m = Some c"
| "operand_to_const (Copy p) m = place_const p m"
| "operand_to_const (Move p) m = place_const p m"

definition int_result :: "int \<Rightarrow> panicked + MirConstKind option" where
  "int_result n =
     (if - (2 ^ 127) \<le> n \<and> n < 2 ^ 127 then Inr (Some (MirConstKind.Int (word_of_int n))) else Inl Panicked)"

definition uint_result :: "int \<Rightarrow> panicked + MirConstKind option" where
  "uint_result n =
     (if 0 \<le> n \<and> n < 2 ^ 128 then Inr (Some (MirConstKind.Uint (word_of_int n))) else Inl Panicked)"

fun fold_int :: "BinOp \<Rightarrow> i128 \<Rightarrow> i128 \<Rightarrow> panicked + MirConstKind option" where
  "fold_int BinOp.Add l r = int_result (sint l + sint r)"
| "fold_int BinOp.Sub l r = int_result (sint l - sint r)"
| "fold_int BinOp.Mul l r = int_result (sint l * sint r)"
| "fold_int BinOp.Div l r =
     Inr (Some (MirConstKind.Int (case checked_sdiv l r of Some q \<Rightarrow> q | None \<Rightarrow> 0)))"
| "fold_int BinOp.Rem l r =
     Inr (Some (MirConstKind.Int (case checked_srem l r of Some q \<Rightarrow> q | None \<Rightarrow> 0)))"
| "fold_int _ _ _ = Inr None"

fun fold_uint :: "BinOp \<Rightarrow> u128 \<Rightarrow> u128 \<Rightarrow> panicked + MirConstKind option" where
  "fold_uint BinOp.Add l r = uint_result (uint l + uint r)"
| "fold_uint BinOp.Sub l r = uint_result (uint l - uint r)"
| "fold_uint BinOp.Mul l r = uint_result (uint l * uint r)"
| "fold_uint BinOp.Div l r = Inr (Some (MirConstKind.Uint (if r = 0 then 0 else l div r)))"
| "fold_uint BinOp.Rem l r = Inr (Some (MirConstKind.Uint (if r = 0 then 0 else l mod r)))"
| "fold_uint _ _ _ = Inr None"

fun fold_bool :: "BinOp \<Rightarrow> bool \<Rightarrow> bool \<Rightarrow> MirConstKind option" where
  "fold_bool BinOp.And l r = Some (MirConstKind.Bool (l \<and> r))"
| "fold_bool BinOp.Or l r = Some (MirConstKind.Bool (l \<or> r))"
| "fold_bool BinOp.Eq l r = Some (MirConstKind.Bool (l = r))"
| "fold_bool BinOp.Ne l r = Some (MirConstKind.Bool (l \<noteq> r))"
| "fold_bool _ _ _ = None"

text \<open>The bit patterns of \<open>0.0\<close> and \<open>1.0\<close>.\<close>

definition float_of_bool :: "bool \<Rightarrow> u64" where
  "float_of_bool b = (if b then 0x3FF0000000000000 else 0)"

fun fold_float :: "FloatOps \<Rightarrow> BinOp \<Rightarrow> u64 \<Rightarrow> u64 \<Rightarrow> MirConstKind option" where
  "fold_float fl BinOp.Add l r = Some (MirConstKind.FloatBits (f_add fl l r))"
| "fold_float fl BinOp.Sub l r = Some (MirConstKind.FloatBits (f_sub fl l r))"
| "fold_float fl BinOp.Mul l r = Some (MirConstKind.FloatBits (f_mul fl l r))"
| "fold_float fl BinOp.Div l r = Some (MirConstKind.FloatBits (if f_eq fl r 0 then 0 else f_div fl l r))"
| "fold_float fl BinOp.Eq l r = Some (MirConstKind.FloatBits (float_of_bool (f_eq fl l r)))"
| "fold_float fl BinOp.Ne l r = Some (MirConstKind.FloatBits (float_of_bool (\<not> f_eq fl l r)))"
| "fold_float fl BinOp.Lt l r = Some (MirConstKind.FloatBits (float_of_bool (f_lt fl l r)))"
| "fold_float fl BinOp.Gt l r = Some (MirConstKind.FloatBits (float_of_bool (f_lt fl r l)))"
| "fold_float fl BinOp.LtEq l r = Some (MirConstKind.FloatBits (float_of_bool (f_le fl l r)))"
| "fold_float fl BinOp.GtEq l r = Some (MirConstKind.FloatBits (float_of_bool (f_le fl r l)))"
| "fold_float fl _ _ _ = None"

fun fold_binary :: "FloatOps \<Rightarrow> BinOp \<Rightarrow> MirConstKind \<Rightarrow> MirConstKind \<Rightarrow> panicked + MirConstKind option" where
  "fold_binary fl op (MirConstKind.Int l) (MirConstKind.Int r) = fold_int op l r"
| "fold_binary fl op (MirConstKind.Uint l) (MirConstKind.Uint r) = fold_uint op l r"
| "fold_binary fl op (MirConstKind.Bool l) (MirConstKind.Bool r) = Inr (fold_bool op l r)"
| "fold_binary fl op (MirConstKind.FloatBits l) (MirConstKind.FloatBits r) = Inr (fold_float fl op l r)"
| "fold_binary fl op _ _ = Inr None"

fun fold_unary :: "FloatOps \<Rightarrow> UnOp \<Rightarrow> MirConstKind \<Rightarrow> panicked + MirConstKind option" where
  "fold_unary fl UnOp.Neg (MirConstKind.Int v) = int_result (- sint v)"
| "fold_unary fl UnOp.Not (MirConstKind.Int v) = Inr (Some (MirConstKind.Int (NOT v)))"
| "fold_unary fl UnOp.Not (MirConstKind.Uint v) = Inr (Some (MirConstKind.Uint (NOT v)))"
| "fold_unary fl UnOp.Not (MirConstKind.Bool v) = Inr (Some (MirConstKind.Bool (\<not> v)))"
| "fold_unary fl UnOp.Neg (MirConstKind.FloatBits v) = Inr (Some (MirConstKind.FloatBits (f_neg fl v)))"
| "fold_unary fl _ _ = Inr None"

text \<open>The folded kind under the type and span of the (left) operand.\<close>

definition retype :: "MirConst \<Rightarrow> panicked + MirConstKind option \<Rightarrow> panicked + MirConst option" where
  "retype c r = map_sum id (map_option (\<lambda>k. MirConst k (mc_ty c) (mc_span c))) r"

fun operands_to_consts :: "Operand list \<Rightarrow> BlockMap \<Rightarrow> MirConst list option" where
  "operands_to_consts [] m = Some []"
| "operands_to_consts (o' # os) m =
     (case operand_to_const o' m of
        None \<Rightarrow> None | Some c \<Rightarrow> map_option ((#) c) (operands_to_consts os m))"

definition aggregate_const :: "AggregateKind \<Rightarrow> Ty \<Rightarrow> MirConst list \<Rightarrow> MirConst option" where
  "aggregate_const kind ty cs =
     (case kind of
        AggregateKind.Adt _ _ _ \<Rightarrow> None
      | AggregateKind.Closure _ _ \<Rightarrow> None
      | _ \<Rightarrow> Some (if cs = [] then MirConst MirConstKind.Unit Ty_UNIT Span_DUMMY
                  else MirConst (MirConstKind.Aggregate cs) ty Span_DUMMY))"

fun evaluate_rvalue_to_const :: "FloatOps \<Rightarrow> Rvalue \<Rightarrow> BlockMap \<Rightarrow> Ty \<Rightarrow> panicked + MirConst option" where
  "evaluate_rvalue_to_const fl (Use o') m ty = Inr (operand_to_const o' m)"
| "evaluate_rvalue_to_const fl (BinaryOp op l r) m ty =
     (case operand_to_const l m of
        None \<Rightarrow> Inr None
      | Some left \<Rightarrow>
          (case operand_to_const r m of
             None \<Rightarrow> Inr None
           | Some right \<Rightarrow> retype left (fold_binary fl op (mc_kind left) (mc_kind right))))"
| "evaluate_rvalue_to_const fl (UnaryOp op o') m ty =
     (case operand_to_const o' m of
        None \<Rightarrow> Inr None | Some c \<Rightarrow> retype c (fold_unary fl op (mc_kind c)))"
| "evaluate_rvalue_to_const fl (Rvalue.Aggregate kind os) m ty =
     Inr (Option.bind (operands_to_consts os m) (aggregate_const kind ty))"
| "evaluate_rvalue_to_const fl (Rvalue.Repeat o' _) m ty = Inr (operand_to_const o' m)"
| "evaluate_rvalue_to_const fl _ m ty = Inr None"

section \<open>Rewriting operands\<close>

fun replace_operand :: "Operand \<Rightarrow> BlockMap \<Rightarrow> Operand" where
  "replace_operand (Copy p) m = (case place_const p m of Some c \<Rightarrow> Constant c | None \<Rightarrow> Copy p)"
| "replace_operand (Move p) m = (case place_const p m of Some c \<Rightarrow> Constant c | None \<Rightarrow> Move p)"
| "replace_operand (Constant c) m = Constant c"

fun replace_in_rvalue :: "Rvalue \<Rightarrow> BlockMap \<Rightarrow> Rvalue" where
  "replace_in_rvalue (Use o') m = Use (replace_operand o' m)"
| "replace_in_rvalue (BinaryOp op l r) m = BinaryOp op (replace_operand l m) (replace_operand r m)"
| "replace_in_rvalue (UnaryOp op o') m = UnaryOp op (replace_operand o' m)"
| "replace_in_rvalue (Rvalue.Aggregate kind os) m = Rvalue.Aggregate kind (map (\<lambda>o'. replace_operand o' m) os)"
| "replace_in_rvalue (Rvalue.Cast k o' ty) m = Rvalue.Cast k (replace_operand o' m) ty"
| "replace_in_rvalue (Rvalue.Repeat o' n) m = Rvalue.Repeat (replace_operand o' m) n"
| "replace_in_rvalue rv m = rv"

section \<open>The analysis\<close>

definition has_deref :: "Place \<Rightarrow> bool" where
  "has_deref p \<longleftrightarrow> list_ex (\<lambda>e. e = ProjectionElem.Deref) (pl_projection p)"

text \<open>One assignment, on the map and the locals the block defines.\<close>

definition transfer_assign ::
    "FloatOps \<Rightarrow> LocalDecl IndexVec \<Rightarrow> Place \<Rightarrow> Rvalue \<Rightarrow> BlockMap \<times> LocalIdx list
      \<Rightarrow> panicked + BlockMap \<times> LocalIdx list" where
  "transfer_assign fl locals p rv st =
     (let out = AList.delete (pl_local p) (fst st); defined = List.insert (pl_local p) (snd st)
      in if has_deref p then Inr ([], [])
         else if pl_projection p = [] then
           (case iv_index locals (pl_local p) of
              Inl e \<Rightarrow> Inl e
            | Inr ld \<Rightarrow>
                (case evaluate_rvalue_to_const fl rv out (ld_ty ld) of
                   Inl e \<Rightarrow> Inl e
                 | Inr None \<Rightarrow> Inr (out, defined)
                 | Inr (Some c) \<Rightarrow> Inr (AList.update (pl_local p) (Some c) out, defined)))
         else Inr (out, defined))"

fun transfer_stmts ::
    "FloatOps \<Rightarrow> LocalDecl IndexVec \<Rightarrow> Statement list \<Rightarrow> BlockMap \<times> LocalIdx list
      \<Rightarrow> panicked + BlockMap \<times> LocalIdx list" where
  "transfer_stmts fl locals [] st = Inr st"
| "transfer_stmts fl locals (s # ss) st =
     (case st_kind s of
        Assign p rv \<Rightarrow>
          (case transfer_assign fl locals p rv st of
             Inl e \<Rightarrow> Inl e | Inr st' \<Rightarrow> transfer_stmts fl locals ss st')
      | _ \<Rightarrow> transfer_stmts fl locals ss st)"

definition is_call :: "BasicBlockData \<Rightarrow> bool" where
  "is_call bb = (case te_kind (bb_terminator bb) of TerminatorKind.Call _ _ _ _ _ \<Rightarrow> True | _ \<Rightarrow> False)"

definition pin_defined :: "LocalIdx list \<Rightarrow> BlockMap \<Rightarrow> BlockMap" where
  "pin_defined ds out = fold (\<lambda>d m. if map_of m d = None then AList.update d None m else m) ds out"

definition transfer_block ::
    "FloatOps \<Rightarrow> LocalDecl IndexVec \<Rightarrow> BasicBlockData \<Rightarrow> BlockMap \<Rightarrow> panicked + BlockMap" where
  "transfer_block fl locals bb incoming =
     (case transfer_stmts fl locals (bb_statements bb) (incoming, []) of
        Inl e \<Rightarrow> Inl e
      | Inr (out, defined) \<Rightarrow> Inr (if is_call bb then [] else pin_defined defined out))"

record Flow =
  fw_in_maps :: "BlockMap option list"
  fw_entry_maps :: "BlockMap option list"
  fw_changed :: bool

definition incoming_map :: "nat list \<Rightarrow> BlockMap option list \<Rightarrow> BlockMap" where
  "incoming_map preds in_maps =
     fold (\<lambda>p m. case in_maps ! p of Some pred_out \<Rightarrow> merge_maps m pred_out | None \<Rightarrow> m) preds []"

definition flow_step :: "FloatOps \<Rightarrow> Body \<Rightarrow> nat \<Rightarrow> Flow \<Rightarrow> panicked + Flow" where
  "flow_step fl body i fw =
     (let preds = preds_of (b_blocks body) i; incoming = incoming_map preds (fw_in_maps fw)
      in if preds = [] \<and> i \<noteq> 0 then Inr fw
         else (case transfer_block fl (b_locals body) (b_blocks body ! i) incoming of
                 Inl e \<Rightarrow> Inl e
               | Inr out \<Rightarrow>
                   (let fw' = fw\<lparr>fw_entry_maps := (fw_entry_maps fw)[i := Some incoming]\<rparr>
                    in if (case fw_in_maps fw ! i of None \<Rightarrow> True | Some old \<Rightarrow> \<not> maps_equal old out)
                       then Inr (fw'\<lparr>fw_in_maps := (fw_in_maps fw)[i := Some out], fw_changed := True\<rparr>)
                       else Inr fw')))"

fun flow_sweep :: "FloatOps \<Rightarrow> Body \<Rightarrow> nat list \<Rightarrow> Flow \<Rightarrow> panicked + Flow" where
  "flow_sweep fl body [] fw = Inr fw"
| "flow_sweep fl body (i # is) fw =
     (case flow_step fl body i fw of Inl e \<Rightarrow> Inl e | Inr fw' \<Rightarrow> flow_sweep fl body is fw')"

text \<open>\<open>while changed && iteration < MAX_ITERATIONS\<close>, on the iterations that are left.\<close>

fun flow_loop :: "nat \<Rightarrow> FloatOps \<Rightarrow> Body \<Rightarrow> Flow \<Rightarrow> panicked + Flow" where
  "flow_loop 0 fl body fw = Inr fw"
| "flow_loop (Suc n) fl body fw =
     (if fw_changed fw
      then (case flow_sweep fl body [0..<length (b_blocks body)] (fw\<lparr>fw_changed := False\<rparr>) of
              Inl e \<Rightarrow> Inl e | Inr fw' \<Rightarrow> flow_loop n fl body fw')
      else Inr fw)"

definition MAX_ITERATIONS :: nat where
  "MAX_ITERATIONS = 1000"

definition flow_analysis :: "FloatOps \<Rightarrow> Body \<Rightarrow> panicked + Flow" where
  "flow_analysis fl body =
     (let none = replicate (length (b_blocks body)) None
      in flow_loop MAX_ITERATIONS fl body
           \<lparr>fw_in_maps = none, fw_entry_maps = none, fw_changed = True\<rparr>)"

section \<open>The rewrite\<close>

definition rewrite_map ::
    "FloatOps \<Rightarrow> LocalDecl IndexVec \<Rightarrow> Place \<Rightarrow> Rvalue \<Rightarrow> BlockMap \<Rightarrow> panicked + BlockMap" where
  "rewrite_map fl locals p rv m =
     (if has_deref p then Inr []
      else if pl_projection p = [] then
        (case iv_index locals (pl_local p) of
           Inl e \<Rightarrow> Inl e
         | Inr ld \<Rightarrow> (case evaluate_rvalue_to_const fl rv m (ld_ty ld) of
                        Inl e \<Rightarrow> Inl e | Inr v \<Rightarrow> Inr (AList.update (pl_local p) v m)))
      else Inr (AList.update (pl_local p) None m))"

fun rewrite_stmts ::
    "FloatOps \<Rightarrow> LocalDecl IndexVec \<Rightarrow> Statement list \<Rightarrow> BlockMap \<Rightarrow> panicked + Statement list" where
  "rewrite_stmts fl locals [] m = Inr []"
| "rewrite_stmts fl locals (s # ss) m =
     (case st_kind s of
        Assign p rv \<Rightarrow>
          (let rv' = replace_in_rvalue rv m
           in case rewrite_map fl locals p rv' m of
                Inl e \<Rightarrow> Inl e
              | Inr m' \<Rightarrow> map_sum id ((#) (s\<lparr>st_kind := Assign p rv'\<rparr>)) (rewrite_stmts fl locals ss m'))
      | _ \<Rightarrow> map_sum id ((#) s) (rewrite_stmts fl locals ss m))"

fun rewrite_blocks ::
    "FloatOps \<Rightarrow> LocalDecl IndexVec \<Rightarrow> BasicBlockData list \<Rightarrow> BlockMap option list
      \<Rightarrow> panicked + BasicBlockData list" where
  "rewrite_blocks fl locals (bb # bbs) (entry # entries) =
     (case (case entry of
              None \<Rightarrow> Inr bb
            | Some m \<Rightarrow> map_sum id (\<lambda>ss. bb\<lparr>bb_statements := ss\<rparr>) (rewrite_stmts fl locals (bb_statements bb) m)) of
        Inl e \<Rightarrow> Inl e
      | Inr bb' \<Rightarrow> map_sum id ((#) bb') (rewrite_blocks fl locals bbs entries))"
| "rewrite_blocks fl locals bbs entries = Inr bbs"

definition constant_prop :: "FloatOps \<Rightarrow> Body \<Rightarrow> panicked + Body" where
  "constant_prop fl body =
     (if b_blocks body = [] then Inr body
      else (case flow_analysis fl body of
              Inl e \<Rightarrow> Inl e
            | Inr fw \<Rightarrow>
                map_sum id (\<lambda>bbs. body\<lparr>b_blocks := bbs\<rparr>)
                  (rewrite_blocks fl (b_locals body) (b_blocks body) (fw_entry_maps fw))))"

end
