(* ===== verification/Opt_ConstProp_Props.thy ===== *)
theory Opt_ConstProp_Props
  imports Opt_ConstProp Opt_Dce Opt_Cfg_Props
begin

text \<open>
  Correctness of constant propagation on scalar bodies, and where it fails.

  The rewrite of a block is right whenever its entry map holds of the locals
  (\<open>rewrite_stmts_sound\<close>).  The entry maps hold along every run once the analysis has settled and
  no join adopts a constant that a predecessor does not know (\<open>joins_complete\<close>).
\<close>

declare mir_run.simps(2) [simp del]

section \<open>What a map says of the locals\<close>

definition holds_at :: "BlockMap \<Rightarrow> Value list \<Rightarrow> bool" where
  "holds_at m ls \<longleftrightarrow>
     (\<forall>l c. map_of m l = Some (Some c) \<longrightarrow> Some (ls ! unat l) = map_option Value.Int (const_value (mc_kind c)))"

text \<open>\<open>finer m o'\<close>: \<open>m\<close> knows every constant that \<open>o'\<close> knows.\<close>

definition finer :: "BlockMap \<Rightarrow> BlockMap \<Rightarrow> bool" where
  "finer m o' \<longleftrightarrow> (\<forall>l c. map_of o' l = Some (Some c) \<longrightarrow> map_of m l = Some (Some c))"

lemma holds_atD:
  "holds_at m ls \<Longrightarrow> map_of m l = Some (Some c) \<Longrightarrow>
   \<exists>v. const_value (mc_kind c) = Some v \<and> ls ! unat l = Value.Int v"
  unfolding holds_at_def by (metis map_option_eq_Some)

lemma finer_holds: "finer m o' \<Longrightarrow> holds_at m ls \<Longrightarrow> holds_at o' ls"
  by (simp add: finer_def holds_at_def)

lemma finer_delete: "finer m o' \<Longrightarrow> finer m (AList.delete l o')"
  by (simp add: finer_def delete_conv')

lemma place_const_Some:
  "place_const p m = Some c \<longleftrightarrow> pl_projection p = [] \<and> map_of m (pl_local p) = Some (Some c)"
  by (auto simp: place_const_def split: option.split)

lemma finer_operand:
  "finer m o' \<Longrightarrow> operand_to_const op o' = Some c \<Longrightarrow> operand_to_const op m = Some c"
  by (cases op) (auto simp: place_const_Some finer_def)

lemma finer_operands:
  "finer m o' \<Longrightarrow> operands_to_consts os o' = Some cs \<Longrightarrow> operands_to_consts os m = Some cs"
  by (induction os arbitrary: cs) (auto split: option.splits dest: finer_operand)

lemma retype_Some_iff:
  "retype c r = Inr (Some d) \<longleftrightarrow> (\<exists>k. r = Inr (Some k) \<and> d = MirConst k (mc_ty c) (mc_span c))"
  by (cases r) (auto simp: retype_def)

lemma finer_evaluate:
  assumes f: "finer m o'" and e: "evaluate_rvalue_to_const fl rv o' ty = Inr (Some c)"
  shows "evaluate_rvalue_to_const fl rv m ty = Inr (Some c)"
  using e finer_operand [OF f] finer_operands [OF f]
  by (cases rv) (auto split: option.splits simp: bind_eq_Some_conv)

section \<open>Replacing and folding\<close>

lemma operand_to_const_replace [simp]:
  "operand_to_const (replace_operand op m) m = operand_to_const op m"
  by (cases op) (auto split: option.split)

lemma replace_operand_value:
  "holds_at m ls \<Longrightarrow> operand_value ls (replace_operand op m) = operand_value ls op"
  by (cases op) (auto split: option.split simp: place_const_Some dest!: holds_atD)

lemma replace_rvalue_value:
  assumes "scalar_rvalue n rv" and h: "holds_at m ls"
  shows "mir_rvalue ls (replace_in_rvalue rv m) = mir_rvalue ls rv"
proof (cases rv)
  case (UnaryOp op o')
  then show ?thesis using replace_operand_value [OF h] by (cases op) simp_all
qed (use assms replace_operand_value [OF h] in simp_all)

lemma operand_const_value:
  assumes "operand_to_const op m = Some c" "holds_at m ls" "scalar_operand n op"
  obtains v where "const_value (mc_kind c) = Some v" "operand_value ls op = Value.Int v"
  using assms by (cases op) (auto simp: place_const_Some dest!: holds_atD)

text \<open>The foldings that agree with the 64-bit operation: not a division of operands that do not fit
  64 (unsigned: 63) bits, not the bitwise \<open>!\<close> of an integer, nothing on floats.\<close>

definition fits_i64 :: "i128 \<Rightarrow> bool" where
  "fits_i64 v \<longleftrightarrow> - (2 ^ 63) \<le> sint v \<and> sint v < 2 ^ 63"

fun exact_binary :: "BinOp \<Rightarrow> MirConstKind \<Rightarrow> MirConstKind \<Rightarrow> bool" where
  "exact_binary op (MirConstKind.Int a) (MirConstKind.Int b) \<longleftrightarrow>
     (op \<in> {BinOp.Div, BinOp.Rem} \<longrightarrow> fits_i64 a \<and> fits_i64 b)"
| "exact_binary op (MirConstKind.Uint a) (MirConstKind.Uint b) \<longleftrightarrow>
     (op \<in> {BinOp.Div, BinOp.Rem} \<longrightarrow> uint a < 2 ^ 63 \<and> uint b < 2 ^ 63)"
| "exact_binary op (MirConstKind.FloatBits _) (MirConstKind.FloatBits _) \<longleftrightarrow> False"
| "exact_binary op _ _ \<longleftrightarrow> True"

fun exact_unary :: "UnOp \<Rightarrow> MirConstKind \<Rightarrow> bool" where
  "exact_unary UnOp.Not (MirConstKind.Int _) \<longleftrightarrow> False"
| "exact_unary UnOp.Not (MirConstKind.Uint _) \<longleftrightarrow> False"
| "exact_unary _ (MirConstKind.FloatBits _) \<longleftrightarrow> False"
| "exact_unary _ _ \<longleftrightarrow> True"

fun exact_rvalue :: "Rvalue \<Rightarrow> bool" where
  "exact_rvalue (BinaryOp op (Constant a) (Constant b)) \<longleftrightarrow> exact_binary op (mc_kind a) (mc_kind b)"
| "exact_rvalue (UnaryOp op (Constant a)) \<longleftrightarrow> exact_unary op (mc_kind a)"
| "exact_rvalue _ \<longleftrightarrow> True"

lemma ucast_of_int_128: "ucast (word_of_int n :: i128) = (word_of_int n :: i64)"
  by (rule bit_word_eqI) (simp add: bit_ucast_iff bit_word_of_int_iff)

lemma scast_down [simp]: "(scast (a :: i128) :: i64) = ucast a"
  by (rule bit_word_eqI) (simp add: bit_ucast_iff bit_signed_iff)

lemma int_result_value:
  "int_result n = Inr (Some k) \<Longrightarrow> const_value k = Some (word_of_int n)"
  by (auto simp: int_result_def ucast_of_int_128 split: if_splits)

lemma uint_result_value:
  "uint_result n = Inr (Some k) \<Longrightarrow> const_value k = Some (word_of_int n)"
  by (auto simp: uint_result_def ucast_of_int_128 split: if_splits)

lemma sint_of_int_64: "- (2 ^ 63) \<le> n \<Longrightarrow> n < 2 ^ 63 \<Longrightarrow> sint (word_of_int n :: i64) = n"
  by (simp add: sint_sbintrunc' signed_take_bit_int_eq_self)

lemma sint_ucast_fits: "fits_i64 a \<Longrightarrow> sint (ucast a :: i64) = sint a"
  using sint_of_int_64 [of "sint a"] by (simp add: fits_i64_def)

lemma sint_ucast_small: "uint a < 2 ^ 63 \<Longrightarrow> sint (ucast (a :: u128) :: i64) = uint a"
  using sint_of_int_64 [of "uint a"] uint_ge_0 [of a] by (simp del: uint_ge_0)

lemma fits_zero: "fits_i64 b \<Longrightarrow> (ucast b :: i64) = 0 \<longleftrightarrow> b = 0"
  using sint_ucast_fits [of b] by (metis sint_0 signed_eq_0_iff)

lemma fits_not_min: "fits_i64 a \<Longrightarrow> sint a \<noteq> - (2 ^ 127)"
  by (auto simp: fits_i64_def)

lemma fold_division:
  assumes "fits_i64 a" "fits_i64 b" "checked_sdiv (ucast a :: i64) (ucast b) = Some w"
  shows "\<exists>q. checked_sdiv a b = Some q \<and> ucast q = w"
  using assms fits_zero [of b] fits_not_min [of a]
  by (auto simp: checked_sdiv_def sint_ucast_fits ucast_of_int_128 split: if_splits)

lemma fold_remainder:
  assumes "fits_i64 a" "fits_i64 b" "checked_srem (ucast a :: i64) (ucast b) = Some w"
  shows "\<exists>q. checked_srem a b = Some q \<and> ucast q = w"
  using assms fits_zero [of b] fits_not_min [of a]
  by (auto simp: checked_srem_def sint_ucast_fits ucast_of_int_128 split: if_splits)

lemma sdiv_nonneg: "0 \<le> x \<Longrightarrow> 0 \<le> y \<Longrightarrow> x sdiv y = x div (y :: int)"
  by (auto simp: signed_divide_int_def sgn_if)

lemma smod_nonneg: "0 \<le> x \<Longrightarrow> 0 \<le> y \<Longrightarrow> x smod y = x mod (y :: int)"
  by (auto simp: signed_modulo_int_def sgn_if)

lemma fold_udivision:
  assumes "uint a < 2 ^ 63" "uint b < 2 ^ 63" "checked_sdiv (ucast (a :: u128) :: i64) (ucast (b :: u128)) = Some w"
  shows "b \<noteq> 0 \<and> ucast (a div b) = w"
proof -
  have b: "b \<noteq> 0" using assms(3) by auto
  have "w = word_of_int (uint a sdiv uint b)"
    using assms by (auto simp: checked_sdiv_def sint_ucast_small split: if_splits)
  also have "uint a sdiv uint b = uint (a div b)"
    by (simp add: sdiv_nonneg uint_div)
  finally show ?thesis using b by simp
qed

lemma fold_uremainder:
  assumes "uint a < 2 ^ 63" "uint b < 2 ^ 63" "checked_srem (ucast (a :: u128) :: i64) (ucast (b :: u128)) = Some w"
  shows "b \<noteq> 0 \<and> ucast (a mod b) = w"
proof -
  have b: "b \<noteq> 0" using assms(3) by auto
  have "w = word_of_int (uint a smod uint b)"
    using assms by (auto simp: checked_srem_def sint_ucast_small split: if_splits)
  also have "uint a smod uint b = uint (a mod b)"
    by (simp add: smod_nonneg uint_mod)
  finally show ?thesis using b by simp
qed

lemma fold_int_value:
  assumes "fold_int op a b = Inr (Some k)" "exact_binary op (MirConstKind.Int a) (MirConstKind.Int b)"
    "mir_binop op (ucast a) (ucast b) = Some w"
  shows "const_value k = Some w"
proof (cases op)
  case Div
  then show ?thesis using assms fold_division [of a b w] by auto
next
  case Rem
  then show ?thesis using assms fold_remainder [of a b w] by auto
qed (use assms in \<open>auto dest!: int_result_value\<close>)

lemma fold_uint_value:
  assumes "fold_uint op a b = Inr (Some k)" "exact_binary op (MirConstKind.Uint a) (MirConstKind.Uint b)"
    "mir_binop op (ucast a) (ucast b) = Some w"
  shows "const_value k = Some w"
proof (cases op)
  case Div
  then show ?thesis using assms fold_udivision [of a b w] by (auto split: if_splits)
next
  case Rem
  then show ?thesis using assms fold_uremainder [of a b w] by (auto split: if_splits)
qed (use assms in \<open>auto dest!: uint_result_value\<close>)

lemma fold_bool_value:
  assumes "fold_bool op a b = Some k" "mir_binop op (i64_of_bool a) (i64_of_bool b) = Some w"
  shows "const_value k = Some w"
  using assms by (cases op) (auto simp: i64_of_bool_def split: if_splits)

lemma fold_binary_value:
  assumes "fold_binary fl op k1 k2 = Inr (Some k)" "exact_binary op k1 k2"
    "const_value k1 = Some v1" "const_value k2 = Some v2" "mir_binop op v1 v2 = Some w"
  shows "const_value k = Some w"
  using assms
  by (cases "(fl, op, k1, k2)" rule: fold_binary.cases)
    (auto intro: fold_int_value fold_uint_value fold_bool_value)

lemma fold_unary_value:
  assumes "fold_unary fl op k1 = Inr (Some k)" "exact_unary op k1" "const_value k1 = Some v1" "op \<noteq> UnOp.Deref"
  shows "const_value k = Some (if op = UnOp.Not then i64_of_bool (v1 = 0) else - v1)"
  using assms
  by (cases "(fl, op, k1)" rule: fold_unary.cases)
    (auto dest!: int_result_value simp: i64_of_bool_def split: if_splits)

section \<open>One block\<close>

fun exact_stmt :: "StatementKind \<Rightarrow> bool" where
  "exact_stmt (Assign _ rv) \<longleftrightarrow> exact_rvalue rv"
| "exact_stmt _ \<longleftrightarrow> True"

text \<open>The exactness of a folding, read off the rewritten rvalue.\<close>

lemma replace_operand_const:
  "operand_to_const op m = Some c \<Longrightarrow> replace_operand op m = Constant c"
  by (cases op) auto

lemma evaluate_value:
  assumes e: "evaluate_rvalue_to_const fl (replace_in_rvalue rv m) m ty = Inr (Some c)"
    and x: "exact_rvalue (replace_in_rvalue rv m)" and sc: "scalar_rvalue n rv" and h: "holds_at m ls"
    and r: "mir_rvalue ls rv = Some w"
  shows "Some w = map_option Value.Int (const_value (mc_kind c))"
proof (cases rv)
  case (Use op)
  with e sc have "operand_to_const op m = Some c" "scalar_operand n op" by simp_all
  then obtain v where "const_value (mc_kind c) = Some v" "operand_value ls op = Value.Int v"
    using operand_const_value h by blast
  with Use r show ?thesis by simp
next
  case (BinaryOp op l r')
  with e obtain a b k where k: "operand_to_const l m = Some a" "operand_to_const r' m = Some b"
    "fold_binary fl op (mc_kind a) (mc_kind b) = Inr (Some k)" "mc_kind c = k"
    by (auto split: option.splits simp: retype_Some_iff)
  from sc BinaryOp have s: "scalar_operand n l" "scalar_operand n r'" by simp_all
  obtain v1 where v1: "const_value (mc_kind a) = Some v1" "operand_value ls l = Value.Int v1"
    using operand_const_value [OF k(1) h s(1)] .
  obtain v2 where v2: "const_value (mc_kind b) = Some v2" "operand_value ls r' = Value.Int v2"
    using operand_const_value [OF k(2) h s(2)] .
  from r BinaryOp v1 v2 obtain u where u: "mir_binop op v1 v2 = Some u" "w = Value.Int u" by auto
  have "exact_binary op (mc_kind a) (mc_kind b)"
    using x BinaryOp k replace_operand_const by simp
  then have "const_value k = Some u" using fold_binary_value k(3) v1(1) v2(1) u(1) by blast
  with u k show ?thesis by simp
next
  case (UnaryOp op o')
  with e obtain a k where k: "operand_to_const o' m = Some a"
    "fold_unary fl op (mc_kind a) = Inr (Some k)" "mc_kind c = k"
    by (auto split: option.splits simp: retype_Some_iff)
  from sc UnaryOp have s: "scalar_operand n o'" "op \<noteq> UnOp.Deref" by simp_all
  obtain v where v: "const_value (mc_kind a) = Some v" "operand_value ls o' = Value.Int v"
    using operand_const_value [OF k(1) h s(1)] .
  have "exact_unary op (mc_kind a)" using x UnaryOp k replace_operand_const by simp
  then have "const_value k = Some (if op = UnOp.Not then i64_of_bool (v = 0) else - v)"
    using fold_unary_value k(2) v(1) s(2) by blast
  with r UnaryOp v k s(2) show ?thesis by (cases op) auto
qed (use sc in simp_all)

lemma holds_at_update:
  assumes "holds_at m ls" "unat l < length ls" and "\<And>c. v = Some c \<Longrightarrow> Some w = map_option Value.Int (const_value (mc_kind c))"
  shows "holds_at (AList.update l v m) (ls[unat l := w])"
  using assms unfolding holds_at_def by (auto simp: update_conv' nth_list_update word_unat_eq_iff)

lemma finer_update: "finer m o' \<Longrightarrow> finer (AList.update l (Some c) m) (AList.update l (Some c) o')"
  by (auto simp: finer_def update_conv')

lemma finer_update_delete: "finer m o' \<Longrightarrow> finer (AList.update l v m) (AList.delete l o')"
  by (auto simp: finer_def update_conv' delete_conv')

lemma evaluate_replace:
  "evaluate_rvalue_to_const fl rv m ty = Inr (Some c) \<Longrightarrow>
   evaluate_rvalue_to_const fl (replace_in_rvalue rv m) m ty = Inr (Some c)"
proof (cases rv)
  case (Aggregate k os)
  have "operands_to_consts (map (\<lambda>o'. replace_operand o' m) os) m = operands_to_consts os m"
    by (induction os) (auto split: option.split)
  then show "evaluate_rvalue_to_const fl rv m ty = Inr (Some c) \<Longrightarrow>
   evaluate_rvalue_to_const fl (replace_in_rvalue rv m) m ty = Inr (Some c)" using Aggregate by simp
qed (simp_all split: option.splits)

text \<open>One assignment: the rewritten one does what the original does, and both the map of the
  rewrite and the coarser one of the analysis hold afterwards.\<close>

lemma rewrite_map_sound:
  assumes m: "rewrite_map fl lts p (replace_in_rvalue rv m) m = Inr m'"
    and h: "holds_at m ls" and sc: "scalar_stmt (length ls) (Assign p rv)"
    and x: "exact_rvalue (replace_in_rvalue rv m)" and r: "mir_rvalue ls rv = Some w"
    and f: "finer m o'"
  shows "holds_at m' (ls[unat (pl_local p) := w])"
    and "transfer_assign fl lts p rv (o', ds) = Inr (o'', ds') \<Longrightarrow> finer m' o''"
proof -
  from sc have p: "pl_projection p = []" "unat (pl_local p) < length ls" "scalar_rvalue (length ls) rv"
    by simp_all
  obtain ld v where ld: "iv_index lts (pl_local p) = Inr ld"
    and v: "evaluate_rvalue_to_const fl (replace_in_rvalue rv m) m (ld_ty ld) = Inr v"
      "m' = AList.update (pl_local p) v m"
    using m p(1) by (auto simp: rewrite_map_def has_deref_def split: sum.splits)
  show "holds_at m' (ls[unat (pl_local p) := w])"
    unfolding v(2) using evaluate_value [OF _ x p(3) h r] v(1)
    by (intro holds_at_update [OF h p(2)]) simp
  show "finer m' o''" if t: "transfer_assign fl lts p rv (o', ds) = Inr (o'', ds')"
  proof -
    let ?o = "AList.delete (pl_local p) o'"
    obtain u where u: "evaluate_rvalue_to_const fl rv ?o (ld_ty ld) = Inr u"
      "o'' = (case u of None \<Rightarrow> ?o | Some c \<Rightarrow> AList.update (pl_local p) (Some c) ?o)"
      using t p(1) ld by (auto simp: transfer_assign_def has_deref_def Let_def split: sum.splits option.splits)
    show ?thesis
    proof (cases u)
      case None
      with u v(2) finer_update_delete [OF f] show ?thesis by simp
    next
      case (Some c)
      have "evaluate_rvalue_to_const fl rv m (ld_ty ld) = Inr (Some c)"
        using finer_evaluate [OF finer_delete [OF f]] u(1) Some by simp
      then have "v = Some c" using evaluate_replace v(1) by fastforce
      with u v(2) Some finer_update [OF finer_delete [OF f]] show ?thesis by simp
    qed
  qed
qed

lemma rewrite_other_stmt:
  "(\<And>p rv. st_kind s \<noteq> Assign p rv) \<Longrightarrow>
   rewrite_stmts fl lts (s # ss) m = map_sum id ((#) s) (rewrite_stmts fl lts ss m) \<and>
   transfer_stmts fl lts (s # ss) st = transfer_stmts fl lts ss st \<and> mir_stmt (st_kind s) ls = Some ls"
  by (cases "st_kind s") auto

lemma rewrite_stmts_sound:
  assumes "rewrite_stmts fl lts ss m = Inr ss'" "holds_at m ls" "finer m o'"
    and "\<forall>s \<in> set ss. scalar_stmt (length ls) (st_kind s)" "\<forall>s \<in> set ss'. exact_stmt (st_kind s)"
  shows "mir_stmts ss' ls = mir_stmts ss ls \<and>
    (\<forall>ls' o'' ds'. mir_stmts ss ls = Some ls' \<longrightarrow> transfer_stmts fl lts ss (o', ds) = Inr (o'', ds') \<longrightarrow>
       holds_at o'' ls' \<and> length ls' = length ls)"
  using assms
proof (induction ss arbitrary: m ls ss' o' ds)
  case Nil
  then show ?case by (auto intro: finer_holds)
next
  case (Cons s ss)
  show ?case
  proof (cases "\<exists>p rv. st_kind s = Assign p rv")
    case True
    then obtain p rv where Assign: "st_kind s = Assign p rv" by blast
    let ?rv = "replace_in_rvalue rv m"
    obtain m' ss1 where m': "rewrite_map fl lts p ?rv m = Inr m'"
      and ss1: "rewrite_stmts fl lts ss m' = Inr ss1" and ss': "ss' = s\<lparr>st_kind := Assign p ?rv\<rparr> # ss1"
      using Cons.prems(1) Assign
      by (cases "rewrite_map fl lts p ?rv m"; cases "rewrite_stmts fl lts ss (projr (rewrite_map fl lts p ?rv m))")
        (auto simp: Let_def)
    have sc: "scalar_stmt (length ls) (Assign p rv)" using Cons.prems(4) Assign by (metis list.set_intros(1))
    have x: "exact_rvalue ?rv" using Cons.prems(5) ss' by simp
    have same: "mir_rvalue ls ?rv = mir_rvalue ls rv"
      using replace_rvalue_value [of "length ls" rv m ls] Cons.prems(2) sc by simp
    show ?thesis
    proof (cases "mir_rvalue ls rv")
      case None
      with same Assign ss' show ?thesis by simp
    next
      case (Some w)
      let ?ls = "ls[unat (pl_local p) := w]"
      note snd = rewrite_map_sound [OF m' Cons.prems(2) sc x Some Cons.prems(3)]
      have sub: "\<forall>s \<in> set ss. scalar_stmt (length ?ls) (st_kind s)" "\<forall>s \<in> set ss1. exact_stmt (st_kind s)"
        using Cons.prems(4,5) ss' by simp_all
      have refl: "finer m' m'" by (simp add: finer_def)
      have "mir_stmts ss1 ?ls = mir_stmts ss ?ls" using Cons.IH [OF ss1 snd(1) refl sub] by blast
      moreover have "holds_at o'' ls' \<and> length ls' = length ls"
        if run: "mir_stmts (s # ss) ls = Some ls'" and t: "transfer_stmts fl lts (s # ss) (o', ds) = Inr (o'', ds'')"
        for ls' o'' ds''
      proof -
        obtain o1 d1 where t1: "transfer_assign fl lts p rv (o', ds) = Inr (o1, d1)"
          and t2: "transfer_stmts fl lts ss (o1, d1) = Inr (o'', ds'')"
          using t Assign by (cases "transfer_assign fl lts p rv (o', ds)") auto
        have "mir_stmts ss ?ls = Some ls'" using run Assign Some by simp
        with Cons.IH [OF ss1 snd(1) snd(2) [OF t1] sub] t2 show ?thesis by fastforce
      qed
      ultimately show ?thesis using Assign Some same ss' by simp
    qed
  next
    case False
    then have o1: "rewrite_stmts fl lts (s # ss) m = map_sum id ((#) s) (rewrite_stmts fl lts ss m)"
      and o2: "transfer_stmts fl lts (s # ss) (o', ds) = transfer_stmts fl lts ss (o', ds)"
      and o3: "mir_stmt (st_kind s) ls = Some ls"
      using rewrite_other_stmt by blast+
    obtain ss1 where ss1: "rewrite_stmts fl lts ss m = Inr ss1" "ss' = s # ss1"
      using Cons.prems(1) unfolding o1 by (cases "rewrite_stmts fl lts ss m") auto
    have sub: "\<forall>s \<in> set ss. scalar_stmt (length ls) (st_kind s)" "\<forall>s \<in> set ss1. exact_stmt (st_kind s)"
      using Cons.prems(4,5) ss1(2) by simp_all
    from Cons.IH [OF ss1(1) Cons.prems(2,3) sub] show ?thesis
      unfolding o2 ss1(2) mir_stmts.simps o3 Option.bind.bind_lunit .
  qed
qed

section \<open>Merging\<close>

text \<open>The keys of a hash map are distinct; every operation keeps them so.\<close>

definition keys_ok :: "BlockMap \<Rightarrow> bool" where
  "keys_ok m \<longleftrightarrow> distinct (map fst m)"

lemma keys_ok_Nil [simp]: "keys_ok []"
  by (simp add: keys_ok_def)

lemma keys_ok_update [simp]: "keys_ok m \<Longrightarrow> keys_ok (AList.update l v m)"
  by (simp add: keys_ok_def distinct_update)

lemma keys_ok_delete [simp]: "keys_ok m \<Longrightarrow> keys_ok (AList.delete l m)"
  by (simp add: keys_ok_def distinct_delete)

lemma keys_ok_merge [simp]: "keys_ok into \<Longrightarrow> keys_ok (merge_maps into other)"
  unfolding merge_maps_def
  by (induction other arbitrary: into) (auto simp: merge_entry_def split: option.split)

lemma const_eq_value: "const_eq a b \<Longrightarrow> const_value (mc_kind a) = const_value (mc_kind b)"
  by (cases a; cases b) (auto split: MirConstKind.splits)

lemma merge_entry_lookup:
  "map_of (merge_entry (l, v) into) k =
     (if k = l then Some (case map_of into l of None \<Rightarrow> v | Some e \<Rightarrow> if entry_eq e v then e else None)
      else map_of into k)"
  by (auto simp: merge_entry_def update_conv' split: option.split)

lemma merge_maps_lookup:
  assumes "keys_ok other"
  shows "map_of (merge_maps into other) k =
    (case map_of other k of
       None \<Rightarrow> map_of into k
     | Some v \<Rightarrow> Some (case map_of into k of None \<Rightarrow> v | Some e \<Rightarrow> if entry_eq e v then e else None))"
  using assms unfolding merge_maps_def
proof (induction other arbitrary: into)
  case Nil
  then show ?case by simp
next
  case (Cons kv other)
  obtain l v where kv: "kv = (l, v)" by fastforce
  have d: "keys_ok other" "map_of other l = None"
    using Cons.prems kv by (auto simp: keys_ok_def map_of_eq_None_iff)
  show ?case
    using Cons.IH [OF d(1)] d(2) kv merge_entry_lookup [of l v into k] by (auto split: option.split)
qed

definition merge_preds :: "BlockMap option list \<Rightarrow> nat list \<Rightarrow> BlockMap \<Rightarrow> BlockMap" where
  "merge_preds ims ps m = fold (\<lambda>p m. case ims ! p of Some out \<Rightarrow> merge_maps m out | None \<Rightarrow> m) ps m"

lemma incoming_merge: "incoming_map ps ims = merge_preds ims ps []"
  by (simp add: incoming_map_def merge_preds_def)

lemma merge_preds_simps [simp]:
  "merge_preds ims [] m = m"
  "merge_preds ims (p # ps) m =
     merge_preds ims ps (case ims ! p of Some out \<Rightarrow> merge_maps m out | None \<Rightarrow> m)"
  by (simp_all add: merge_preds_def)

lemma keys_ok_merge_preds [simp]: "keys_ok m \<Longrightarrow> keys_ok (merge_preds ims ps m)"
  by (induction ps arbitrary: m) (auto split: option.split)

definition all_keys_ok :: "BlockMap option list \<Rightarrow> bool" where
  "all_keys_ok ims \<longleftrightarrow> (\<forall>out. Some out \<in> set ims \<longrightarrow> keys_ok out)"

lemma all_keys_okD: "all_keys_ok ims \<Longrightarrow> p < length ims \<Longrightarrow> ims ! p = Some out \<Longrightarrow> keys_ok out"
  unfolding all_keys_ok_def by (metis nth_mem)

lemma merge_preds_stays:
  assumes "all_keys_ok ims" "\<forall>p \<in> set ps. p < length ims" "map_of into l = Some e"
  shows "map_of (merge_preds ims ps into) l \<in> {Some e, Some None}"
  using assms(2,3)
proof (induction ps arbitrary: into e)
  case Nil
  then show ?case by simp
next
  case (Cons q ps)
  show ?case
  proof (cases "ims ! q")
    case None
    with Cons show ?thesis by simp
  next
    case (Some out)
    then have "keys_ok out" using all_keys_okD [OF assms(1) _ Some] Cons.prems(1) by simp
    then obtain e' where e': "map_of (merge_maps into out) l = Some e'" "e' = e \<or> e' = None"
      using Cons.prems(2) merge_maps_lookup [of out into l] by (auto split: option.splits if_splits)
    have "map_of (merge_preds ims ps (merge_maps into out)) l \<in> {Some e', Some None}"
      using Cons.IH [OF _ e'(1)] Cons.prems(1) by simp
    with e'(2) Some show ?thesis by auto
  qed
qed

text \<open>A constant the merged map binds is the constant of every predecessor that has the local.\<close>

lemma merge_preds_agrees:
  assumes k: "all_keys_ok ims" and "\<forall>p \<in> set ps. p < length ims"
    and "map_of (merge_preds ims ps into) l = Some (Some c)"
    and "p \<in> set ps" "ims ! p = Some out" "map_of out l = Some v"
  shows "\<exists>c'. v = Some c' \<and> const_value (mc_kind c') = const_value (mc_kind c)"
  using assms(2-4)
proof (induction ps arbitrary: into)
  case Nil
  then show ?case by simp
next
  case (Cons q ps)
  show ?case
  proof (cases "p = q")
    case False
    then have p: "p \<in> set ps" and ps: "\<forall>p \<in> set ps. p < length ims" using Cons.prems by simp_all
    show ?thesis by (rule Cons.IH [OF ps Cons.prems(2) [unfolded merge_preds_simps] p])
  next
    case True
    let ?into = "merge_maps into out"
    have "keys_ok out" using all_keys_okD [OF k _ assms(5)] Cons.prems(1) True by simp
    then obtain e where e: "map_of ?into l = Some e"
      "e = (case map_of into l of None \<Rightarrow> v | Some e \<Rightarrow> if entry_eq e v then e else None)"
      using merge_maps_lookup [of out into l] assms(6) by simp
    have "map_of (merge_preds ims ps ?into) l = Some (Some c)"
      using Cons.prems(2) True assms(5) by simp
    then have c: "e = Some c" using merge_preds_stays [OF k _ e(1)] Cons.prems(1) by fastforce
    show ?thesis
    proof (cases "map_of into l")
      case None
      with e(2) c have "v = Some c" by simp
      then show ?thesis by simp
    next
      case (Some e')
      with e(2) c have "entry_eq (Some c) v" by (simp split: if_splits)
      then obtain c' where "v = Some c'" "const_eq c c'" by (auto simp: entry_eq_def split: option.splits)
      then show ?thesis using const_eq_value [of c c'] by simp
    qed
  qed
qed

section \<open>The settled analysis\<close>

lemma keys_ok_transfer_assign:
  "transfer_assign fl lts p rv (o', ds) = Inr (o'', ds') \<Longrightarrow> keys_ok o' \<Longrightarrow> keys_ok o''"
  by (auto simp: transfer_assign_def Let_def split: if_splits sum.splits option.splits)

lemma keys_ok_transfer_stmts:
  "transfer_stmts fl lts ss (o', ds) = Inr (o'', ds') \<Longrightarrow> keys_ok o' \<Longrightarrow> keys_ok o''"
proof (induction ss arbitrary: o' ds)
  case (Cons s ss)
  show ?case
  proof (cases "st_kind s")
    case (Assign p rv)
    with Cons.prems obtain o1 d1 where "transfer_assign fl lts p rv (o', ds) = Inr (o1, d1)"
      "transfer_stmts fl lts ss (o1, d1) = Inr (o'', ds')"
      by (cases "transfer_assign fl lts p rv (o', ds)") auto
    with Cons keys_ok_transfer_assign show ?thesis by blast
  qed (use Cons in simp_all)
qed simp

lemma pin_defined_lookup: "map_of (pin_defined ds out) l = Some (Some c) \<longleftrightarrow> map_of out l = Some (Some c)"
  unfolding pin_defined_def
  by (induction ds arbitrary: out) (auto simp: update_conv' split: if_splits)

lemma keys_ok_pin [simp]: "keys_ok out \<Longrightarrow> keys_ok (pin_defined ds out)"
  unfolding pin_defined_def by (induction ds arbitrary: out) auto

lemma keys_ok_transfer_block:
  "transfer_block fl lts bb m = Inr out \<Longrightarrow> keys_ok m \<Longrightarrow> keys_ok out"
  by (auto simp: transfer_block_def split: sum.splits if_splits dest: keys_ok_transfer_stmts)

lemma maps_equal_value:
  assumes "maps_equal a b" "map_of a l = Some (Some c)"
  shows "\<exists>c'. map_of b l = Some (Some c') \<and> const_value (mc_kind c') = const_value (mc_kind c)"
proof -
  have "(l, Some c) \<in> set a" using assms(2) by (rule map_of_SomeD)
  with assms(1) obtain w where "map_of b l = Some w" "entry_eq (Some c) w"
    by (fastforce simp: maps_equal_def list_all_iff split: option.splits)
  then show ?thesis using const_eq_value by (auto simp: entry_eq_def split: option.splits)
qed

definition flow_ok :: "Body \<Rightarrow> Flow \<Rightarrow> bool" where
  "flow_ok body fw \<longleftrightarrow>
     length (fw_in_maps fw) = length (b_blocks body) \<and>
     length (fw_entry_maps fw) = length (b_blocks body) \<and> all_keys_ok (fw_in_maps fw)"

text \<open>Block \<open>i\<close> is settled in \<open>fw\<close>: its entry map is the merge of its predecessors' exit maps, and
  its own exit map is, up to \<open>maps_equal\<close>, the transfer of it.\<close>

definition settled :: "FloatOps \<Rightarrow> Body \<Rightarrow> Flow \<Rightarrow> nat \<Rightarrow> bool" where
  "settled fl body fw i \<longleftrightarrow>
     (\<exists>out old. fw_entry_maps fw ! i = Some (incoming_map (preds_of (b_blocks body) i) (fw_in_maps fw)) \<and>
        transfer_block fl (b_locals body) (b_blocks body ! i)
          (incoming_map (preds_of (b_blocks body) i) (fw_in_maps fw)) = Inr out \<and>
        fw_in_maps fw ! i = Some old \<and> maps_equal old out)"

lemma all_keys_ok_update: "all_keys_ok ims \<Longrightarrow> keys_ok out \<Longrightarrow> all_keys_ok (ims[i := Some out])"
  unfolding all_keys_ok_def using set_update_subset_insert [of ims i "Some out"] by auto

lemma flow_step_cases:
  assumes "flow_step fl body i fw = Inr fw'"
  obtains (skip) "preds_of (b_blocks body) i = []" "i \<noteq> 0" "fw' = fw"
  | (same) out old where
      "transfer_block fl (b_locals body) (b_blocks body ! i)
         (incoming_map (preds_of (b_blocks body) i) (fw_in_maps fw)) = Inr out"
      "fw_in_maps fw ! i = Some old" "maps_equal old out"
      "fw' = fw\<lparr>fw_entry_maps := (fw_entry_maps fw)
         [i := Some (incoming_map (preds_of (b_blocks body) i) (fw_in_maps fw))]\<rparr>"
  | (new) out where
      "transfer_block fl (b_locals body) (b_blocks body ! i)
         (incoming_map (preds_of (b_blocks body) i) (fw_in_maps fw)) = Inr out"
      "fw' = fw\<lparr>fw_entry_maps := (fw_entry_maps fw)
           [i := Some (incoming_map (preds_of (b_blocks body) i) (fw_in_maps fw))],
         fw_in_maps := (fw_in_maps fw)[i := Some out], fw_changed := True\<rparr>"
proof (cases "preds_of (b_blocks body) i = [] \<and> i \<noteq> 0")
  case True
  with assms skip show thesis by (simp add: flow_step_def Let_def)
next
  case False
  then have F: "(preds_of (b_blocks body) i = [] \<and> i \<noteq> 0) = False" by simp
  note step = assms [unfolded flow_step_def Let_def F if_False]
  let ?in = "incoming_map (preds_of (b_blocks body) i) (fw_in_maps fw)"
  obtain out where out: "transfer_block fl (b_locals body) (b_blocks body ! i) ?in = Inr out"
    using step by (cases "transfer_block fl (b_locals body) (b_blocks body ! i) ?in") simp_all
  show thesis
  proof (cases "\<exists>old. fw_in_maps fw ! i = Some old \<and> maps_equal old out")
    case True
    then obtain old where "fw_in_maps fw ! i = Some old" "maps_equal old out" by blast
    with step out same [OF out] show thesis by simp
  next
    case no: False
    then have "case fw_in_maps fw ! i of None \<Rightarrow> True | Some old \<Rightarrow> \<not> maps_equal old out"
      by (simp split: option.split)
    with step out new [OF out] show thesis by simp
  qed
qed

lemma flow_step_ok: "flow_step fl body i fw = Inr fw' \<Longrightarrow> flow_ok body fw \<Longrightarrow> flow_ok body fw'"
proof (erule flow_step_cases)
  fix out
  assume t: "transfer_block fl (b_locals body) (b_blocks body ! i)
      (incoming_map (preds_of (b_blocks body) i) (fw_in_maps fw)) = Inr out" and f: "flow_ok body fw"
    and fw': "fw' = fw\<lparr>fw_entry_maps := (fw_entry_maps fw)
           [i := Some (incoming_map (preds_of (b_blocks body) i) (fw_in_maps fw))],
         fw_in_maps := (fw_in_maps fw)[i := Some out], fw_changed := True\<rparr>"
  have "keys_ok out" using keys_ok_transfer_block [OF t] by (simp add: incoming_merge)
  with f show "flow_ok body fw'" unfolding fw' by (simp add: flow_ok_def all_keys_ok_update)
qed (auto simp: flow_ok_def)

lemma flow_sweep_ok: "flow_sweep fl body is fw = Inr fw' \<Longrightarrow> flow_ok body fw \<Longrightarrow> flow_ok body fw'"
  by (induction "is" arbitrary: fw) (auto split: sum.splits dest: flow_step_ok)

lemma flow_step_changed: "flow_step fl body i fw = Inr fw' \<Longrightarrow> fw_changed fw \<Longrightarrow> fw_changed fw'"
  by (erule flow_step_cases) simp_all

lemma flow_sweep_changed: "flow_sweep fl body is fw = Inr fw' \<Longrightarrow> fw_changed fw \<Longrightarrow> fw_changed fw'"
  by (induction "is" arbitrary: fw) (auto split: sum.splits dest: flow_step_changed)

lemma flow_sweep_settled:
  assumes "flow_sweep fl body is fw = Inr fw'" "\<not> fw_changed fw'" "distinct is" "flow_ok body fw"
    "set is \<subseteq> {..<length (b_blocks body)}"
  shows "fw_in_maps fw' = fw_in_maps fw \<and>
    (\<forall>i. i \<notin> set is \<longrightarrow> fw_entry_maps fw' ! i = fw_entry_maps fw ! i) \<and>
    (\<forall>i \<in> set is. preds_of (b_blocks body) i \<noteq> [] \<or> i = 0 \<longrightarrow> settled fl body fw' i)"
  using assms
proof (induction "is" arbitrary: fw)
  case Nil
  then show ?case by simp
next
  case (Cons i "is")
  obtain f1 where s: "flow_step fl body i fw = Inr f1" and r: "flow_sweep fl body is f1 = Inr fw'"
    using Cons.prems(1) by (auto split: sum.splits)
  have nc: "\<not> fw_changed f1" using flow_sweep_changed [OF r] Cons.prems(2) by blast
  have IH: "fw_in_maps fw' = fw_in_maps f1"
    "\<forall>j. j \<notin> set is \<longrightarrow> fw_entry_maps fw' ! j = fw_entry_maps f1 ! j"
    "\<forall>j \<in> set is. preds_of (b_blocks body) j \<noteq> [] \<or> j = 0 \<longrightarrow> settled fl body fw' j"
    using Cons.IH [OF r Cons.prems(2)] Cons.prems(3,5) flow_step_ok [OF s Cons.prems(4)] by simp_all
  have i: "i \<notin> set is" "i < length (fw_entry_maps fw)"
    using Cons.prems(3,4,5) by (simp_all add: flow_ok_def)
  from s show ?case
  proof (cases rule: flow_step_cases)
    case skip
    with IH show ?thesis by simp
  next
    case (same out old)
    have "settled fl body fw' i" using same i IH unfolding settled_def by simp
    with same IH i show ?thesis by simp
  next
    case (new out)
    with nc show ?thesis by simp
  qed
qed

lemma flow_loop_settled:
  assumes "flow_loop n fl body fw = Inr fw'" "\<not> fw_changed fw'" "fw_changed fw" "flow_ok body fw"
  shows "flow_ok body fw' \<and>
    (\<forall>i < length (b_blocks body). preds_of (b_blocks body) i \<noteq> [] \<or> i = 0 \<longrightarrow> settled fl body fw' i)"
  using assms
proof (induction n arbitrary: fw)
  case 0
  then show ?case by simp
next
  case (Suc n)
  obtain f1 where s: "flow_sweep fl body [0..<length (b_blocks body)] (fw\<lparr>fw_changed := False\<rparr>) = Inr f1"
    and r: "flow_loop n fl body f1 = Inr fw'"
    using Suc.prems(1,3) by (auto split: sum.splits)
  have ok: "flow_ok body (fw\<lparr>fw_changed := False\<rparr>)" using Suc.prems(4) by (simp add: flow_ok_def)
  note ok1 = flow_sweep_ok [OF s ok]
  show ?case
  proof (cases "fw_changed f1")
    case True
    then show ?thesis using Suc.IH [OF r Suc.prems(2) _ ok1] by blast
  next
    case False
    then have "fw' = f1" using r by (cases n) simp_all
    have "settled fl body fw' i" if "i < length (b_blocks body)" "preds_of (b_blocks body) i \<noteq> [] \<or> i = 0" for i
      using flow_sweep_settled [OF s False _ ok] that \<open>fw' = f1\<close> by (simp add: atLeast0LessThan lessThan_subset_iff)
    with ok1 \<open>fw' = f1\<close> show ?thesis by blast
  qed
qed

lemma flow_analysis_settled:
  assumes "flow_analysis fl body = Inr fw" "\<not> fw_changed fw" "i < length (b_blocks body)"
    "preds_of (b_blocks body) i \<noteq> [] \<or> i = 0"
  shows "flow_ok body fw \<and> settled fl body fw i"
proof -
  let ?none = "replicate (length (b_blocks body)) None"
  have "flow_ok body \<lparr>fw_in_maps = ?none, fw_entry_maps = ?none, fw_changed = True\<rparr>"
    by (simp add: flow_ok_def all_keys_ok_def)
  with flow_loop_settled [of MAX_ITERATIONS fl body _ fw] assms show ?thesis
    by (simp add: flow_analysis_def Let_def)
qed

section \<open>Runs\<close>

text \<open>No join adopts a constant: every constant an entry map binds is a local that each analysed
  predecessor binds too, and the entry block has no predecessor.  (\<open>merge_maps\<close> itself takes a
  local that only one predecessor binds over unchanged.)\<close>

definition joins_complete :: "Body \<Rightarrow> Flow \<Rightarrow> bool" where
  "joins_complete body fw \<longleftrightarrow>
     preds_of (b_blocks body) 0 = [] \<and>
     (\<forall>b < length (b_blocks body). \<forall>p \<in> set (preds_of (b_blocks body) b).
        case (fw_entry_maps fw ! b, fw_in_maps fw ! p) of
          (Some entry, Some out) \<Rightarrow> (\<forall>(l, v) \<in> set entry. v = None \<or> map_of out l \<noteq> None)
        | _ \<Rightarrow> True)"

definition exact_body :: "Body \<Rightarrow> bool" where
  "exact_body body \<longleftrightarrow> (\<forall>bb \<in> set (b_blocks body). \<forall>s \<in> set (bb_statements bb). exact_stmt (st_kind s))"

lemma preds_of_less: "p \<in> set (preds_of blocks b) \<Longrightarrow> p < length blocks"
  by (auto simp: preds_of_def)

lemma edge_holds:
  assumes ok: "flow_ok body fw" and j: "joins_complete body fw" and b: "b < length (b_blocks body)"
    and p: "p \<in> set (preds_of (b_blocks body) b)" and sb: "settled fl body fw b" and sp: "settled fl body fw p"
    and t: "transfer_block fl (b_locals body) (b_blocks body ! p) entry = Inr out" "fw_entry_maps fw ! p = Some entry"
    and h: "holds_at out ls" and e: "fw_entry_maps fw ! b = Some entry'"
  shows "holds_at entry' ls"
  unfolding holds_at_def
proof (intro allI impI)
  fix l c assume l: "map_of entry' l = Some (Some c)"
  obtain old where old: "fw_in_maps fw ! p = Some old" "maps_equal old out"
    using sp t by (auto simp: settled_def)
  have m: "(l, Some c) \<in> set entry'" using l by (rule map_of_SomeD)
  have "map_of old l \<noteq> None"
    using j b p e old(1) m unfolding joins_complete_def by fastforce
  then obtain v where v: "map_of old l = Some v" by blast
  have eq: "map_of (merge_preds (fw_in_maps fw) (preds_of (b_blocks body) b) []) l = Some (Some c)"
    using l e sb by (auto simp: settled_def incoming_merge)
  have bound: "\<forall>p \<in> set (preds_of (b_blocks body) b). p < length (fw_in_maps fw)"
    using ok preds_of_less by (auto simp: flow_ok_def)
  have keys: "all_keys_ok (fw_in_maps fw)" using ok by (simp add: flow_ok_def)
  obtain c' where c': "v = Some c'" "const_value (mc_kind c') = const_value (mc_kind c)"
    using merge_preds_agrees [OF keys bound eq p old(1) v] by blast
  obtain c'' where c'': "map_of out l = Some (Some c'')" "const_value (mc_kind c'') = const_value (mc_kind c')"
    using maps_equal_value [OF old(2)] v c'(1) by blast
  with h c'(2) show "Some (ls ! unat l) = map_option Value.Int (const_value (mc_kind c))"
    by (auto simp: holds_at_def)
qed

lemma rewrite_blocks_nth:
  assumes "rewrite_blocks fl lts bbs es = Inr bbs'" "length es = length bbs"
  shows "length bbs' = length bbs \<and>
    (\<forall>i < length bbs. case es ! i of None \<Rightarrow> bbs' ! i = bbs ! i
       | Some m \<Rightarrow> (\<exists>ss'. rewrite_stmts fl lts (bb_statements (bbs ! i)) m = Inr ss' \<and>
                        bbs' ! i = (bbs ! i)\<lparr>bb_statements := ss'\<rparr>))"
  using assms
proof (induction fl lts bbs es arbitrary: bbs' rule: rewrite_blocks.induct)
  case (1 fl lts bb bbs e es)
  let ?r = "case e of None \<Rightarrow> Inr bb
    | Some m \<Rightarrow> map_sum id (\<lambda>ss. bb\<lparr>bb_statements := ss\<rparr>) (rewrite_stmts fl lts (bb_statements bb) m)"
  obtain bb' rest where r: "?r = Inr bb'" "rewrite_blocks fl lts bbs es = Inr rest" "bbs' = bb' # rest"
    using "1.prems"(1) by (cases ?r; cases "rewrite_blocks fl lts bbs es") auto
  have IH: "length rest = length bbs \<and>
    (\<forall>i < length bbs. case es ! i of None \<Rightarrow> rest ! i = bbs ! i
       | Some m \<Rightarrow> (\<exists>ss'. rewrite_stmts fl lts (bb_statements (bbs ! i)) m = Inr ss' \<and>
                        rest ! i = (bbs ! i)\<lparr>bb_statements := ss'\<rparr>))"
    using "1.IH" [OF r(1,2)] "1.prems"(2) by simp
  have hd: "case e of None \<Rightarrow> bb' = bb
       | Some m \<Rightarrow> (\<exists>ss'. rewrite_stmts fl lts (bb_statements bb) m = Inr ss' \<and> bb' = bb\<lparr>bb_statements := ss'\<rparr>)"
    using r(1) by (cases e; cases "rewrite_stmts fl lts (bb_statements bb) (the e)") auto
  show ?case
    unfolding r(3)
  proof (intro conjI allI impI)
    show "length (bb' # rest) = length (bb # bbs)" using IH by simp
    fix i assume i: "i < length (bb # bbs)"
    show "case (e # es) ! i of None \<Rightarrow> (bb' # rest) ! i = (bb # bbs) ! i
       | Some m \<Rightarrow> (\<exists>ss'. rewrite_stmts fl lts (bb_statements ((bb # bbs) ! i)) m = Inr ss' \<and>
                        (bb' # rest) ! i = ((bb # bbs) ! i)\<lparr>bb_statements := ss'\<rparr>)"
    proof (cases i)
      case 0
      with hd show ?thesis by (cases e) simp_all
    next
      case (Suc j)
      with IH i have "case es ! j of None \<Rightarrow> rest ! j = bbs ! j
       | Some m \<Rightarrow> (\<exists>ss'. rewrite_stmts fl lts (bb_statements (bbs ! j)) m = Inr ss' \<and>
                        rest ! j = (bbs ! j)\<lparr>bb_statements := ss'\<rparr>)" by simp
      with Suc show ?thesis by (cases "es ! j") simp_all
    qed
  qed
qed simp_all

lemma constant_prop_blocks:
  assumes "constant_prop fl body = Inr body'" "flow_analysis fl body = Inr fw" "b_blocks body \<noteq> []" "flow_ok body fw"
  obtains bbs where "body' = body\<lparr>b_blocks := bbs\<rparr>" "length bbs = length (b_blocks body)"
    "\<forall>i m. i < length bbs \<longrightarrow> fw_entry_maps fw ! i = Some m \<longrightarrow>
       (\<exists>ss'. rewrite_stmts fl (b_locals body) (bb_statements (b_blocks body ! i)) m = Inr ss' \<and>
         bbs ! i = (b_blocks body ! i)\<lparr>bb_statements := ss'\<rparr>)"
proof -
  obtain bbs where bbs: "rewrite_blocks fl (b_locals body) (b_blocks body) (fw_entry_maps fw) = Inr bbs"
    "body' = body\<lparr>b_blocks := bbs\<rparr>"
    using assms by (cases "rewrite_blocks fl (b_locals body) (b_blocks body) (fw_entry_maps fw)")
      (auto simp: constant_prop_def)
  show thesis
  proof (rule that [OF bbs(2)])
    note nth = rewrite_blocks_nth [OF bbs(1)]
    show l: "length bbs = length (b_blocks body)" using nth assms(4) by (simp add: flow_ok_def)
    show "\<forall>i m. i < length bbs \<longrightarrow> fw_entry_maps fw ! i = Some m \<longrightarrow>
       (\<exists>ss'. rewrite_stmts fl (b_locals body) (bb_statements (b_blocks body ! i)) m = Inr ss' \<and>
         bbs ! i = (b_blocks body ! i)\<lparr>bb_statements := ss'\<rparr>)"
    proof (intro allI impI)
      fix i m assume "i < length bbs" "fw_entry_maps fw ! i = Some m"
      then show "\<exists>ss'. rewrite_stmts fl (b_locals body) (bb_statements (b_blocks body ! i)) m = Inr ss' \<and>
         bbs ! i = (b_blocks body ! i)\<lparr>bb_statements := ss'\<rparr>"
        using nth l assms(4) by (auto simp: flow_ok_def dest: spec [of _ i])
    qed
  qed
qed

lemma rewrite_block_run:
  assumes "rewrite_stmts fl lts (bb_statements bb) m = Inr ss'" "holds_at m ls"
    and "\<forall>s \<in> set (bb_statements bb). scalar_stmt (length ls) (st_kind s)" "\<forall>s \<in> set ss'. exact_stmt (st_kind s)"
  shows "run_block lts (bb\<lparr>bb_statements := ss'\<rparr>) ls = run_block lts bb ls"
    and "run_block lts bb ls = Inr (t, ls') \<Longrightarrow> transfer_block fl lts bb m = Inr out \<Longrightarrow>
      holds_at out ls' \<and> length ls' = length ls"
proof -
  have "finer m m" by (simp add: finer_def)
  note snd = rewrite_stmts_sound [OF assms(1,2) this assms(3,4), of "[]"]
  have "te_kind (bb_terminator (bb\<lparr>bb_statements := ss'\<rparr>)) = te_kind (bb_terminator bb)"
    "bb_statements (bb\<lparr>bb_statements := ss'\<rparr>) = ss'" by simp_all
  with snd show "run_block lts (bb\<lparr>bb_statements := ss'\<rparr>) ls = run_block lts bb ls"
    unfolding run_block_def by metis
  assume r: "run_block lts bb ls = Inr (t, ls')" and t: "transfer_block fl lts bb m = Inr out"
  have run: "mir_stmts (bb_statements bb) ls = Some ls'"
    using r by (auto simp: run_block_def split: option.splits mir_exit.splits)
  obtain o' ds where o': "transfer_stmts fl lts (bb_statements bb) (m, []) = Inr (o', ds)"
    "out = (if is_call bb then [] else pin_defined ds o')"
    using t by (auto simp: transfer_block_def split: sum.splits)
  have "holds_at o' ls' \<and> length ls' = length ls" using snd run o'(1) by blast
  then show "holds_at out ls' \<and> length ls' = length ls"
    unfolding o'(2) by (auto simp: holds_at_def pin_defined_lookup)
qed

lemma scalar_block_target:
  "run_block lts bb ls = Inr (t, ls') \<Longrightarrow> scalar_block n k lts bb \<Longrightarrow> unat t < k"
  using leads_terminator_target
  by (auto simp: run_block_def scalar_block_def split: option.splits mir_exit.splits)

lemma constant_prop_runs:
  assumes sc: "scalar_body body" and cp: "constant_prop fl body = Inr body'"
    and an: "flow_analysis fl body = Inr fw" "\<not> fw_changed fw" and jc: "joins_complete body fw"
    and ex: "exact_body body'" and len: "length ls = length (b_locals body)"
  shows "mir_run body' n 0 ls = mir_run body n 0 ls"
proof -
  have ne: "b_blocks body \<noteq> []" using sc by (simp add: scalar_body_def)
  have set: "flow_ok body fw \<and> settled fl body fw i"
    if "i < length (b_blocks body)" "preds_of (b_blocks body) i \<noteq> [] \<or> i = 0" for i
    using flow_analysis_settled [OF an that] .
  have ok: "flow_ok body fw" using set [of 0] ne by simp
  obtain bbs where bbs: "body' = body\<lparr>b_blocks := bbs\<rparr>" "length bbs = length (b_blocks body)"
    "\<forall>i m. i < length bbs \<longrightarrow> fw_entry_maps fw ! i = Some m \<longrightarrow>
       (\<exists>ss'. rewrite_stmts fl (b_locals body) (bb_statements (b_blocks body ! i)) m = Inr ss' \<and>
         bbs ! i = (b_blocks body ! i)\<lparr>bb_statements := ss'\<rparr>)"
    using constant_prop_blocks [OF cp an(1) ne ok] .
  have "mir_run body' n bb ls = mir_run body n bb ls"
    if "unat bb < length (b_blocks body)" "preds_of (b_blocks body) (unat bb) \<noteq> [] \<or> unat bb = 0"
      "fw_entry_maps fw ! unat bb = Some m" "holds_at m ls" "length ls = length (b_locals body)" for n bb ls m
    using that
  proof (induction n arbitrary: bb ls m)
    case 0
    then show ?case by simp
  next
    case (Suc n)
    let ?b = "b_blocks body ! unat bb"
    obtain ss' where ss': "rewrite_stmts fl (b_locals body) (bb_statements ?b) m = Inr ss'"
      "bbs ! unat bb = ?b\<lparr>bb_statements := ss'\<rparr>"
      using bbs(3) [rule_format, of "unat bb" m] Suc.prems(1,3) bbs(2) by auto
    have b: "?b \<in> set (b_blocks body)" "bbs ! unat bb \<in> set bbs" using Suc.prems(1) bbs(2) by simp_all
    have scb: "scalar_block (length (b_locals body)) (length (b_blocks body)) (b_locals body) ?b"
      using sc b(1) by (simp add: scalar_body_def)
    then have scs: "\<forall>s \<in> set (bb_statements ?b). scalar_stmt (length ls) (st_kind s)"
      using Suc.prems(5) by (simp add: scalar_block_def)
    have "\<forall>s \<in> set (bb_statements (bbs ! unat bb)). exact_stmt (st_kind s)"
      using ex b(2) bbs(1) by (simp add: exact_body_def)
    then have exs: "\<forall>s \<in> set ss'. exact_stmt (st_kind s)" using ss'(2) by simp
    note snd = rewrite_block_run [OF ss'(1) Suc.prems(4) scs exs]
    have rb: "run_block (b_locals body') (b_blocks body' ! unat bb) ls = run_block (b_locals body) ?b ls"
      using snd(1) ss'(2) bbs(1) by simp
    show ?case
    proof (cases "run_block (b_locals body) ?b ls")
      case (Inl r)
      with rb show ?thesis by (simp add: mir_run_Suc)
    next
      case (Inr tl)
      obtain t ls' where "tl = (t, ls')" by fastforce
      with Inr have r: "run_block (b_locals body) ?b ls = Inr (t, ls')" by simp
      have t: "unat t < length (b_blocks body)" using scalar_block_target [OF r scb] .
      have edge: "unat bb \<in> set (preds_of (b_blocks body) (unat t))"
        unfolding preds_of_mem cfg_edge_def using run_block_successor [OF r] Suc.prems(1) by auto
      have pt: "preds_of (b_blocks body) (unat t) \<noteq> [] \<or> unat t = 0" using edge by auto
      have sb: "settled fl body fw (unat bb)" using set [OF Suc.prems(1,2)] by blast
      have st: "settled fl body fw (unat t)" using set [OF t pt] by blast
      obtain m' where m': "fw_entry_maps fw ! unat t = Some m'" using st by (auto simp: settled_def)
      obtain out where out: "transfer_block fl (b_locals body) ?b m = Inr out"
        using sb Suc.prems(3) by (auto simp: settled_def)
      have o': "holds_at out ls'" "length ls' = length ls" using snd(2) [OF r out] by simp_all
      have "holds_at m' ls'" using edge_holds [OF ok jc t edge st sb out Suc.prems(3) o'(1) m'] .
      then have "mir_run body' n t ls' = mir_run body n t ls'"
        using Suc.IH [OF t pt m'] o'(2) Suc.prems(5) by simp
      with rb r show ?thesis by (simp add: mir_run_Suc)
    qed
  qed
  moreover have "fw_entry_maps fw ! 0 = Some []"
    using set [of 0] ne jc by (simp add: settled_def joins_complete_def incoming_map_def)
  ultimately show ?thesis using ne len by (simp add: holds_at_def)
qed


section \<open>Two bodies\<close>

lemma flow_analysis_settles:
  assumes "flow_sweep fl body [0..<length (b_blocks body)]
      \<lparr>fw_in_maps = replicate (length (b_blocks body)) None,
       fw_entry_maps = replicate (length (b_blocks body)) None, fw_changed = False\<rparr> = Inr mid"
    and "fw_changed mid"
    and "flow_sweep fl body [0..<length (b_blocks body)] (mid\<lparr>fw_changed := False\<rparr>) = Inr fin"
    and "\<not> fw_changed fin"
  shows "flow_analysis fl body = Inr fin"
proof -
  obtain k where M: "MAX_ITERATIONS = Suc (Suc (Suc k))"
    by (rule that [of 997]) (simp add: MAX_ITERATIONS_def)
  from assms show ?thesis unfolding flow_analysis_def Let_def M by simp
qed

lemmas prop_eval = flow_step_def incoming_map_def transfer_block_def transfer_assign_def rewrite_map_def
  preds_of_def block_successors_def opt_list_def has_deref_def is_call_def pin_defined_def place_const_def
  retype_def int_result_def merge_maps_def merge_entry_def maps_equal_def entry_eq_def iv_index_def
  idx_index_def

definition int_const :: "i128 \<Rightarrow> MirConst" where
  "int_const v = MirConst (MirConstKind.Int v) Ty_I64 Span_DUMMY"

text \<open>\<open>bb0: _1 = 6; goto bb1\<close>, \<open>bb1: _0 = _1 * 7; return\<close>.\<close>

definition fold_body :: Body where
  "fold_body = demo_body
     [demo_block [demo_stmt 1 (Use (demo_const 6))] (Goto 1),
      demo_block [demo_stmt 0 (BinaryOp BinOp.Mul (Copy (Place_new 1)) (demo_const 7))] TerminatorKind.Return]
     [Ty_I64, Ty_I64]"

definition fold_flow :: Flow where
  "fold_flow =
     \<lparr>fw_in_maps = [Some [(1, Some (int_const 6))], Some [(1, Some (int_const 6)), (0, Some (int_const 42))]],
      fw_entry_maps = [Some [], Some [(1, Some (int_const 6))]], fw_changed = False\<rparr>"

lemma fold_body_flow: "flow_analysis fl fold_body = Inr fold_flow"
  by (rule flow_analysis_settles [where mid = "fold_flow\<lparr>fw_changed := True\<rparr>"])
    (simp_all add: fold_body_def fold_flow_def int_const_def demo_simps prop_eval Let_def)

definition folded_body :: Body where
  "folded_body = demo_body
     [demo_block [demo_stmt 1 (Use (demo_const 6))] (Goto 1),
      demo_block [demo_stmt 0 (BinaryOp BinOp.Mul (demo_const 6) (demo_const 7))] TerminatorKind.Return]
     [Ty_I64, Ty_I64]"

lemma fold_body_result: "constant_prop fl fold_body = Inr folded_body"
  by (simp add: constant_prop_def fold_body_flow)
    (simp add: fold_body_def folded_body_def fold_flow_def int_const_def demo_simps prop_eval Let_def)


text \<open>A function of two arguments, \<open>bb0: if _2 goto bb1 else goto bb2\<close>, \<open>bb1: _1 = 5; goto bb2\<close>,
  \<open>bb2: _0 = _1; return\<close>.\<close>

definition join_body :: "Operand \<Rightarrow> Body" where
  "join_body read = (demo_body
     [demo_block [] (SwitchInt (Copy (Place_new 2)) Ty_BOOL (SwitchTargets_new [(1, 1)] 2)),
      demo_block [demo_stmt 1 (Use (demo_const 5))] (Goto 2),
      demo_block [demo_stmt 0 (Use read)] TerminatorKind.Return]
     [Ty_I64, Ty_I64, Ty_BOOL])\<lparr>b_arg_count := 2\<rparr>"

definition join_flow :: Flow where
  "join_flow =
     \<lparr>fw_in_maps = [Some [], Some [(1, Some (int_const 5))],
        Some [(1, Some (int_const 5)), (0, Some (int_const 5))]],
      fw_entry_maps = [Some [], Some [], Some [(1, Some (int_const 5))]], fw_changed = False\<rparr>"

lemma join_body_flow: "flow_analysis fl (join_body (Copy (Place_new 1))) = Inr join_flow"
  by (rule flow_analysis_settles [where mid = "join_flow\<lparr>fw_changed := True\<rparr>"])
    (simp_all add: join_body_def join_flow_def int_const_def demo_simps prop_eval Let_def SwitchTargets_new_def)

text \<open>
  C10. Where a join adopts a constant, constant propagation changes the result: an argument that one
  branch overwrites with 5 is read as 5 after the join, also when that branch was not taken (the
  analysis settles; a local that is absent from one predecessor's map is taken over unchanged).
\<close>

theorem constant_prop_miscompiles_join:
  "\<exists>body'. constant_prop fl (join_body (Copy (Place_new 1))) = Inr body' \<and>
     mir_run (join_body (Copy (Place_new 1))) 2 0 [Value.Int 0, Value.Int 7, Value.Int 0] = Some (Inr (Value.Int 7)) \<and>
     mir_run body' 2 0 [Value.Int 0, Value.Int 7, Value.Int 0] = Some (Inr (Value.Int 5))"
proof (intro exI conjI)
  show "constant_prop fl (join_body (Copy (Place_new 1))) = Inr (join_body (demo_const 5))"
    by (simp add: constant_prop_def join_body_flow)
      (simp add: join_body_def join_flow_def int_const_def demo_simps prop_eval Let_def SwitchTargets_new_def)
  show "mir_run (join_body (Copy (Place_new 1))) 2 0 [Value.Int 0, Value.Int 7, Value.Int 0] = Some (Inr (Value.Int 7))"
    "mir_run (join_body (demo_const 5)) 2 0 [Value.Int 0, Value.Int 7, Value.Int 0] = Some (Inr (Value.Int 5))"
    unfolding numeral_2_eq_2
    by (simp_all add: join_body_def demo_simps Let_def local0_ty_def Ty_I64_def Ty_UNIT_def Ty_BOOL_def
        mir_run.simps(2) switch_target_def SwitchTargets_new_def)
qed

end
