(* ===== verification/Opt_Pipeline.thy ===== *)
theory Opt_Pipeline
  imports Opt_Slice Opt_Dce Opt_ConstProp_Props
begin

text \<open>
  \<open>optimize\<close> of \<open>crates/glyim-opt/src/lib.rs\<close>: the passes in the order the compiler runs them, and
  what they do together.  \<open>needs_drop\<close> and the \<open>f64\<close> operations are arguments, as in the passes.
\<close>

declare cfg_loop.simps [simp del] mir_run.simps(2) [simp del]

section \<open>The driver\<close>

record Optimized =
  opt_body :: Body

text \<open>\<open>if let Err(e) = ... { panic!(...) }\<close>\<close>

definition expect_valid :: "validation \<Rightarrow> panicked + unit" where
  "expect_valid v = (case v of Inl _ \<Rightarrow> Inl Panicked | Inr _ \<Rightarrow> Inr ())"

definition optimize :: "TypeLookup \<Rightarrow> (Ty \<Rightarrow> bool) \<Rightarrow> FloatOps \<Rightarrow> Body \<Rightarrow> panicked + Optimized" where
  "optimize ctx needs_drop fl body =
     pbind (expect_valid (validate_body ctx needs_drop body)) (\<lambda>_.
     pbind (slice_desugar ctx body) (\<lambda>body.
     pbind (expect_valid (validate_no_subslice body)) (\<lambda>_.
     pbind (constant_prop fl body) (\<lambda>body.
     pbind (unreachable_elim (cfg_simplify (dce body))) (\<lambda>body.
       Inr \<lparr>opt_body = body\<rparr>)))))"

lemma expect_valid_Inr: "expect_valid v = Inr u \<longleftrightarrow> v = Inr ()"
  by (cases v) (simp_all add: expect_valid_def)

lemma optimizeE:
  assumes "optimize ctx nd fl body = Inr ob"
  obtains b1 b2 b3 where "validate_body ctx nd body = Inr ()" "slice_desugar ctx body = Inr b1"
    "validate_no_subslice b1 = Inr ()" "constant_prop fl b1 = Inr b2"
    "unreachable_elim (cfg_simplify (dce b2)) = Inr b3" "opt_body ob = b3"
  using assms by (auto simp: optimize_def pbind_Inr_iff expect_valid_Inr)

section \<open>Subslices\<close>

text \<open>What an assignment computes stays as it is when its places need no splitting.\<close>

lemma desugar_statements_keeps:
  assumes "desugar_statements ctx ss locals = Inr (ss', locals')" and "s \<in> set ss"
    and "st_kind s = Assign p rv" and "rvalue_slices_last rv"
  shows "\<exists>s'\<in>set ss'. \<exists>p'. st_kind s' = Assign p' rv"
  using assms(1,2)
proof (induction ss arbitrary: ss' locals)
  case Nil
  then show ?case by simp
next
  case (Cons t ss)
  obtain t' locals1 pre where t': "desugar_statement ctx t (locals, []) = Inr (t', locals1, pre)"
    using Cons.prems(1) by (auto simp: pbind_Inr_iff)
  with Cons.prems(1) obtain rest where rest: "desugar_statements ctx ss locals1 = Inr (rest, locals')"
    "ss' = pre @ [t'] @ rest" by (auto simp: pbind_Inr_iff)
  show ?case
  proof (cases "s = t")
    case True
    have "\<forall>q\<in>set (rvalue_places rv). slices_last (pl_projection q)"
      using assms(4) by (simp add: rvalue_slices_last_places)
    note same = tidies_same [OF desugar_rvalue_tidies [of "{}"] this]
    from t' True assms(3) have "\<exists>p'. st_kind t' = Assign p' rv"
      by (auto simp: desugar_statement_def Let_def slice_bind_def slice_return_def same pbind_Inr_iff)
    with rest(2) show ?thesis by auto
  next
    case False
    with Cons.IH [OF rest(1)] Cons.prems(2) rest(2) show ?thesis by auto
  qed
qed

lemma desugar_blocks_keeps:
  assumes "desugar_blocks ctx bbs locals = Inr (bbs', locals')" and "bb \<in> set bbs" and "s \<in> set (bb_statements bb)"
    and "st_kind s = Assign p rv" and "rvalue_slices_last rv"
  shows "\<exists>bb'\<in>set bbs'. \<exists>s'\<in>set (bb_statements bb'). \<exists>p'. st_kind s' = Assign p' rv"
  using assms(1,2)
proof (induction bbs arbitrary: bbs' locals)
  case Nil
  then show ?case by simp
next
  case (Cons b bbs)
  obtain b' locals1 where b': "desugar_block ctx b locals = Inr (b', locals1)"
    using Cons.prems(1) by (auto simp: pbind_Inr_iff)
  with Cons.prems(1) obtain rest where rest: "desugar_blocks ctx bbs locals1 = Inr (rest, locals')" "bbs' = b' # rest"
    by (auto simp: pbind_Inr_iff)
  show ?case
  proof (cases "bb = b")
    case True
    from b' obtain ss locals2 pre where ss: "desugar_statements ctx (bb_statements b) locals = Inr (ss, locals2)"
      "bb_statements b' = ss @ pre" by (auto simp: desugar_block_def pbind_Inr_iff)
    with desugar_statements_keeps [OF ss(1) _ assms(4,5)] assms(3) True rest(2) show ?thesis by auto
  next
    case False
    with Cons.IH [OF rest(1)] Cons.prems(2) rest(2) show ?thesis by auto
  qed
qed


text \<open>\<open>_0 = &_1[1..]\<close>\<close>

definition tail_of_slice :: Body where
  "tail_of_slice = plain_body 2
     [plain_block [Assign (Place_new 0) (Rvalue.Ref \<lparr>pl_local = 1, pl_projection = [Subslice 1 0 True]\<rparr> BorrowKind.Shared)]
        TerminatorKind.Return]"


end
