(* ===== verification/Opt_Scalar.thy ===== *)
theory Opt_Scalar
  imports Opt_Pipeline
begin

text \<open>
  The optimizer keeps bodies scalar: what the passes make of a body the reference interpreter and
  the bytecode emitter understand is such a body again.
\<close>

section \<open>Without the jump targets\<close>

fun scalar_shape :: "nat \<Rightarrow> TerminatorKind \<Rightarrow> bool" where
  "scalar_shape n (Goto t) \<longleftrightarrow> True"
| "scalar_shape n (SwitchInt d ty targets) \<longleftrightarrow> scalar_operand n d \<and>
     distinct (map (\<lambda>(v, _). ucast v :: i64) (sw_branches targets)) \<and>
     length (sw_branches targets) < 2 ^ 32 \<and>
     (\<forall>(v, t) \<in> set (sw_branches targets). v < 2 ^ 64 \<and> (ty = Ty_BOOL \<longrightarrow> v \<noteq> 0))"
| "scalar_shape n TerminatorKind.Return \<longleftrightarrow> True"
| "scalar_shape n TerminatorKind.Unreachable \<longleftrightarrow> True"
| "scalar_shape n (TerminatorKind.Assert c _ t _ _) \<longleftrightarrow> scalar_operand n c"
| "scalar_shape n _ \<longleftrightarrow> False"

definition shape_block :: "nat \<Rightarrow> BasicBlockData \<Rightarrow> bool" where
  "shape_block n bb \<longleftrightarrow> (\<forall>s \<in> set (bb_statements bb). scalar_stmt n (st_kind s)) \<and>
     scalar_shape n (te_kind (bb_terminator bb))"

lemma scalar_term_shape: "scalar_term n k lts t \<Longrightarrow> scalar_shape n t"
  by (cases t) (auto simp: scalar_switch_def)

lemma shape_scalar_term:
  "scalar_shape n t \<Longrightarrow> \<forall>s \<in> set (terminator_successors t). unat s < k \<Longrightarrow> scalar_term n k lts t"
  by (cases t) (auto simp: scalar_switch_def)

lemma scalar_body_shape: "scalar_body body \<Longrightarrow> bb \<in> set (b_blocks body) \<Longrightarrow> shape_block (length (b_locals body)) bb"
  by (auto simp: scalar_body_def scalar_block_def shape_block_def dest: scalar_term_shape)

lemma shape_scalar_body:
  assumes "b_blocks body \<noteq> []" "targets_ok (b_blocks body)"
    "\<forall>bb \<in> set (b_blocks body). shape_block (length (b_locals body)) bb"
  shows "scalar_body body"
  using assms by (auto simp: scalar_body_def scalar_block_def shape_block_def targets_ok_def block_successors_def
      intro!: shape_scalar_term)

lemma shape_remap: "shape_block n bb \<Longrightarrow> shape_block n (remap_terminator r bb)"
  by (cases "te_kind (bb_terminator bb)")
    (auto simp: shape_block_def remap_terminator_def SwitchTargets_new_def comp_def case_prod_unfold)

lemma shape_joined: "shape_block n a \<Longrightarrow> shape_block n b \<Longrightarrow> shape_block n (joined a b)"
  by (auto simp: shape_block_def joined_def)

lemma set_kept: "set (kept ks bs) \<subseteq> set bs"
  by (induction ks bs rule: kept.induct) auto

lemma shape_compact: "\<forall>bb \<in> set bs. shape_block n bb \<Longrightarrow> \<forall>bb \<in> set (compact keep bs). shape_block n bb"
  using set_kept [of keep bs] by (auto simp: compact_def intro: shape_remap)

section \<open>Merging blocks\<close>

lemma shape_update:
  assumes "\<forall>bb \<in> set bs. shape_block n bb" and "shape_block n x"
  shows "\<forall>bb \<in> set (bs[i := x]). shape_block n bb"
  using assms set_update_subset_insert [of bs i x] by blast

lemma shape_merge_block:
  assumes "\<forall>bb \<in> set bs. shape_block n bb" and "p < length bs" "i < length bs"
  shows "\<forall>bb \<in> set (merge_block p i bs). shape_block n bb"
proof (cases "p = i")
  case True
  have "merge_block i i bs = bs"
    using assms(3) by (cases "bs ! i") (simp add: merge_block_def Let_def list_update_same_conv)
  with True assms(1) show ?thesis by simp
next
  case False
  have "shape_block n ((bs ! i)\<lparr>bb_statements := [], bb_terminator := return_terminator\<rparr>)"
    by (simp add: shape_block_def return_terminator_def)
  moreover have "shape_block n (joined (bs ! p) (bs ! i))" using assms shape_joined by simp
  ultimately show ?thesis
    unfolding merge_block_eq [OF False assms(2,3)] by (intro shape_update assms(1))
qed

lemma shape_merge_fold:
  assumes "\<forall>bb \<in> set bs. shape_block n bb" and "\<forall>i \<in> set is. i < length bs"
    and "\<And>i p. p \<in> set (preds i) \<Longrightarrow> p < length bs"
  shows "\<forall>bb \<in> set (fst (fold (merge_step preds) is (bs, del))). shape_block n bb"
  using assms
proof (induction "is" arbitrary: bs del)
  case Nil
  then show ?case by simp
next
  case (Cons i "is")
  obtain b d where s: "merge_step preds i (bs, del) = (b, d)" by fastforce
  have m: "\<forall>bb \<in> set (merge_block p i bs). shape_block n bb" if "preds i = [p]" for p
    using Cons.prems(3) [of p i] that Cons.prems(2) by (intro shape_merge_block [OF Cons.prems(1)]) simp_all
  from s have "b = bs \<or> (\<exists>p. preds i = [p] \<and> b = merge_block p i bs)"
    by (auto simp: merge_step_def split: if_splits list.splits)
  with m Cons.prems(1) have "\<forall>bb \<in> set b. shape_block n bb" by blast
  with s Cons merge_step_lengths [OF s] show ?case by simp
qed

lemma shape_merge_pass:
  assumes "\<forall>bb \<in> set bs. shape_block n bb"
  shows "\<forall>bb \<in> set (fst (merge_pass bs)). shape_block n bb"
  unfolding merge_pass_def by (rule shape_merge_fold [OF assms]) (auto dest: preds_of_less)

lemma shape_cfg_loop:
  "\<forall>bb \<in> set bs. shape_block n bb \<Longrightarrow> \<forall>bb \<in> set (cfg_loop bs). shape_block n bb"
proof (induction bs rule: cfg_loop.induct)
  case (1 bs)
  obtain bs' del where mp: "merge_pass bs = (bs', del)" by fastforce
  have "\<forall>bb \<in> set bs'. shape_block n bb" using shape_merge_pass [OF "1.prems"] mp by simp
  then have bs': "\<forall>bb \<in> set bs'. shape_block n bb" .
  show ?case
  proof (cases "True \<in> set del")
    case True
    have "cfg_loop bs = cfg_loop (compact (map HOL.Not del) bs')"
      using True mp by (subst cfg_loop.simps) simp
    with "1.IH" [OF mp [symmetric] True shape_compact [OF bs']] show ?thesis by (simp only:)
  next
    case False
    have "cfg_loop bs = bs'" using False mp by (subst cfg_loop.simps) simp
    with bs' show ?thesis by (simp only:)
  qed
qed

section \<open>Constants\<close>

text \<open>Constants that have a value on 64 bits, and maps that hold only such constants.\<close>

definition valued :: "MirConst \<Rightarrow> bool" where
  "valued c \<longleftrightarrow> const_value (mc_kind c) \<noteq> None"

definition valued_map :: "BlockMap \<Rightarrow> bool" where
  "valued_map m \<longleftrightarrow> (\<forall>(l, v) \<in> set m. \<forall>c. v = Some c \<longrightarrow> valued c)"

definition valued_maps :: "BlockMap option list \<Rightarrow> bool" where
  "valued_maps ms \<longleftrightarrow> (\<forall>m. Some m \<in> set ms \<longrightarrow> valued_map m)"

lemma valued_map_Nil [simp]: "valued_map []"
  by (simp add: valued_map_def)

lemma set_AList_update: "set (AList.update k v m) \<subseteq> insert (k, v) (set m)"
  by (induction m) auto

lemma valued_map_update: "valued_map m \<Longrightarrow> (\<And>c. v = Some c \<Longrightarrow> valued c) \<Longrightarrow> valued_map (AList.update k v m)"
  using set_AList_update [of k v m] unfolding valued_map_def by (auto simp: case_prod_unfold)

lemma valued_map_delete: "valued_map m \<Longrightarrow> valued_map (AList.delete k m)"
  unfolding valued_map_def by (induction m) auto

lemma valued_map_lookup: "valued_map m \<Longrightarrow> map_of m k = Some (Some c) \<Longrightarrow> valued c"
  by (fastforce simp: valued_map_def dest: map_of_SomeD)

lemma valued_merge_entry: "valued_map m \<Longrightarrow> (\<And>c. snd kv = Some c \<Longrightarrow> valued c) \<Longrightarrow> valued_map (merge_entry kv m)"
  by (auto simp: merge_entry_def intro: valued_map_update split: prod.split option.split)

lemma valued_merge: "valued_map m \<Longrightarrow> valued_map o' \<Longrightarrow> valued_map (merge_maps m o')"
  unfolding merge_maps_def
proof (induction o' arbitrary: m)
  case Nil
  then show ?case by simp
next
  case (Cons kv o')
  from Cons.prems(2) have "valued_map o'" "\<And>c. snd kv = Some c \<Longrightarrow> valued c"
    by (auto simp: valued_map_def case_prod_unfold)
  with Cons valued_merge_entry [of m kv] show ?case by simp
qed

lemma valued_place_const: "valued_map m \<Longrightarrow> place_const p m = Some c \<Longrightarrow> valued c"
  by (auto simp: place_const_def intro: valued_map_lookup split: if_splits option.splits)

lemma valued_operand: "valued_map m \<Longrightarrow> scalar_operand n op \<Longrightarrow> operand_to_const op m = Some c \<Longrightarrow> valued c"
  by (cases op) (auto simp: valued_def dest: valued_place_const)

lemma valued_fold_binary: "fold_binary fl op a b = Inr (Some k) \<Longrightarrow> const_value k \<noteq> None"
  by (cases "(fl, op, a, b)" rule: fold_binary.cases; cases op)
    (auto simp: int_result_def uint_result_def split: if_splits)

lemma valued_fold_unary: "fold_unary fl op a = Inr (Some k) \<Longrightarrow> const_value k \<noteq> None"
  by (cases "(fl, op, a)" rule: fold_unary.cases) (auto simp: int_result_def split: if_splits)

lemma retype_Some: "retype c r = Inr (Some d) \<Longrightarrow> \<exists>k. r = Inr (Some k) \<and> mc_kind d = k"
  by (cases r) (auto simp: retype_def)

lemma valued_evaluate:
  assumes "valued_map m" and "scalar_rvalue n rv" and "evaluate_rvalue_to_const fl rv m ty = Inr (Some c)"
  shows "valued c"
proof (cases rv)
  case (Use op)
  with assms valued_operand show ?thesis by auto
next
  case (BinaryOp b l r)
  with assms(3) show ?thesis
    by (auto simp: valued_def dest!: retype_Some valued_fold_binary split: option.splits)
next
  case (UnaryOp u op)
  with assms(3) show ?thesis
    by (auto simp: valued_def dest!: retype_Some valued_fold_unary split: option.splits)
qed (use assms(2) in auto)

lemma scalar_replace_operand: "valued_map m \<Longrightarrow> scalar_operand n op \<Longrightarrow> scalar_operand n (replace_operand op m)"
  by (cases op) (auto simp: valued_def dest: valued_place_const split: option.split)

lemma scalar_replace: "valued_map m \<Longrightarrow> scalar_rvalue n rv \<Longrightarrow> scalar_rvalue n (replace_in_rvalue rv m)"
  by (cases rv) (auto intro: scalar_replace_operand)

lemma valued_transfer_assign:
  assumes "transfer_assign fl lts p rv st = Inr st'" and "valued_map (fst st)" and "scalar_rvalue n rv"
  shows "valued_map (fst st')"
proof -
  have d: "valued_map (AList.delete (pl_local p) (fst st))" using assms(2) by (rule valued_map_delete)
  then show ?thesis
    using assms(1) valued_evaluate [OF d assms(3)]
    by (auto simp: transfer_assign_def Let_def split: if_splits sum.splits option.splits intro!: valued_map_update)
qed

lemma valued_transfer_stmts:
  assumes "transfer_stmts fl lts ss st = Inr st'" and "valued_map (fst st)" and "\<forall>s \<in> set ss. scalar_stmt n (st_kind s)"
  shows "valued_map (fst st')"
  using assms
proof (induction ss arbitrary: st)
  case Nil
  then show ?case by simp
next
  case (Cons s ss)
  show ?case
  proof (cases "st_kind s")
    case (Assign p rv)
    with Cons.prems(1) obtain st1 where st1: "transfer_assign fl lts p rv st = Inr st1"
      "transfer_stmts fl lts ss st1 = Inr st'" by (auto split: sum.splits)
    have "scalar_rvalue n rv" using Cons.prems(3) Assign by simp
    with st1(1) Cons.prems(2) have "valued_map (fst st1)" by (rule valued_transfer_assign)
    with Cons st1(2) show ?thesis by simp
  qed (use Cons in auto)
qed

lemma valued_pin: "valued_map m \<Longrightarrow> valued_map (pin_defined ds m)"
  unfolding pin_defined_def by (induction ds arbitrary: m) (auto intro: valued_map_update)

lemma valued_transfer_block:
  assumes "transfer_block fl lts bb m = Inr out" and "valued_map m" and "shape_block n bb"
  shows "valued_map out"
proof -
  obtain o' ds where o': "transfer_stmts fl lts (bb_statements bb) (m, []) = Inr (o', ds)"
    "out = (if is_call bb then [] else pin_defined ds o')"
    using assms(1) by (auto simp: transfer_block_def split: sum.splits)
  from valued_transfer_stmts [OF o'(1)] assms(2,3) have "valued_map o'" by (auto simp: shape_block_def)
  with o'(2) valued_pin show ?thesis by simp
qed

lemma valued_incoming: "valued_maps ms \<Longrightarrow> \<forall>p \<in> set ps. p < length ms \<Longrightarrow> valued_map (incoming_map ps ms)"
proof -
  have "valued_map (fold (\<lambda>p m. case ms ! p of Some out \<Rightarrow> merge_maps m out | None \<Rightarrow> m) ps m)"
    if "valued_maps ms" "\<forall>p \<in> set ps. p < length ms" "valued_map m" for m
    using that
  proof (induction ps arbitrary: m)
    case (Cons p ps)
    have "valued_map out" if "ms ! p = Some out" for out
      using Cons.prems(1,2) that by (auto simp: valued_maps_def) (metis nth_mem)
    with Cons show ?case by (cases "ms ! p") (auto intro: valued_merge)
  qed simp
  then show "valued_maps ms \<Longrightarrow> \<forall>p \<in> set ps. p < length ms \<Longrightarrow> valued_map (incoming_map ps ms)"
    by (simp add: incoming_map_def)
qed

section \<open>Constant propagation\<close>

definition valued_flow :: "Body \<Rightarrow> Flow \<Rightarrow> bool" where
  "valued_flow body fw \<longleftrightarrow> length (fw_in_maps fw) = length (b_blocks body) \<and>
     valued_maps (fw_in_maps fw) \<and> valued_maps (fw_entry_maps fw)"

lemma valued_maps_update: "valued_maps ms \<Longrightarrow> valued_map m \<Longrightarrow> valued_maps (ms[i := Some m])"
  unfolding valued_maps_def using set_update_subset_insert [of ms i "Some m"] by blast

lemma flow_step_valued:
  assumes step: "flow_step fl body i fw = Inr fw'" and fw: "valued_flow body fw" and i: "i < length (b_blocks body)"
    and sh: "\<forall>bb \<in> set (b_blocks body). shape_block n bb"
  shows "valued_flow body fw'"
proof -
  let ?in = "incoming_map (preds_of (b_blocks body) i) (fw_in_maps fw)"
  have vin: "valued_map ?in"
    using fw by (intro valued_incoming) (auto simp: valued_flow_def dest: preds_of_less)
  have "shape_block n (b_blocks body ! i)" using sh i by simp
  note vout = valued_transfer_block [OF _ vin this]
  from step show ?thesis
  proof (cases rule: flow_step_cases)
    case skip
    with fw show ?thesis by simp
  next
    case (same out old)
    with fw vin show ?thesis by (simp add: valued_flow_def valued_maps_update)
  next
    case (new out)
    with fw vin vout [OF new(1)] show ?thesis by (simp add: valued_flow_def valued_maps_update)
  qed
qed

lemma flow_sweep_valued:
  "flow_sweep fl body is fw = Inr fw' \<Longrightarrow> valued_flow body fw \<Longrightarrow> \<forall>i \<in> set is. i < length (b_blocks body) \<Longrightarrow>
   \<forall>bb \<in> set (b_blocks body). shape_block n bb \<Longrightarrow> valued_flow body fw'"
  by (induction "is" arbitrary: fw) (auto split: sum.splits dest: flow_step_valued)

lemma flow_loop_valued:
  "flow_loop k fl body fw = Inr fw' \<Longrightarrow> valued_flow body fw \<Longrightarrow>
   \<forall>bb \<in> set (b_blocks body). shape_block n bb \<Longrightarrow> valued_flow body fw'"
proof (induction k arbitrary: fw)
  case (Suc k)
  show ?case
  proof (cases "fw_changed fw")
    case True
    with Suc.prems(1) obtain fw1 where fw1: "flow_loop k fl body fw1 = Inr fw'"
      "flow_sweep fl body [0..<length (b_blocks body)] (fw\<lparr>fw_changed := False\<rparr>) = Inr fw1"
      by (auto split: sum.splits)
    have "valued_flow body (fw\<lparr>fw_changed := False\<rparr>)" using Suc.prems(2) by (simp add: valued_flow_def)
    with fw1(2) have "valued_flow body fw1" by (rule flow_sweep_valued) (use Suc.prems(3) in auto)
    with Suc.IH fw1(1) Suc.prems(3) show ?thesis by blast
  next
    case False
    with Suc.prems show ?thesis by simp
  qed
qed simp

lemma flow_analysis_valued:
  assumes "flow_analysis fl body = Inr fw" and "\<forall>bb \<in> set (b_blocks body). shape_block n bb"
  shows "valued_maps (fw_entry_maps fw)"
proof -
  let ?none = "replicate (length (b_blocks body)) None"
  have "valued_flow body \<lparr>fw_in_maps = ?none, fw_entry_maps = ?none, fw_changed = True\<rparr>"
    by (simp add: valued_flow_def valued_maps_def)
  with assms flow_loop_valued show ?thesis by (auto simp: flow_analysis_def Let_def valued_flow_def)
qed

lemma rewrite_map_valued:
  assumes "rewrite_map fl lts p rv m = Inr m'" and "valued_map m" and "scalar_rvalue n rv"
  shows "valued_map m'"
  using assms(1,2) valued_evaluate [OF assms(2,3)]
  by (auto simp: rewrite_map_def split: if_splits sum.splits intro!: valued_map_update)

lemma rewrite_stmts_scalar:
  "rewrite_stmts fl lts ss m = Inr ss' \<Longrightarrow> valued_map m \<Longrightarrow> \<forall>s \<in> set ss. scalar_stmt n (st_kind s) \<Longrightarrow>
   \<forall>s \<in> set ss'. scalar_stmt n (st_kind s)"
proof (induction ss arbitrary: m ss')
  case (Cons s ss)
  show ?case
  proof (cases "st_kind s")
    case (Assign p rv)
    let ?rv = "replace_in_rvalue rv m"
    obtain m' where m': "rewrite_map fl lts p ?rv m = Inr m'"
      using Cons.prems(1) Assign by (cases "rewrite_map fl lts p ?rv m") (simp_all add: Let_def)
    obtain rest where rest: "rewrite_stmts fl lts ss m' = Inr rest" "ss' = s\<lparr>st_kind := Assign p ?rv\<rparr> # rest"
      using Cons.prems(1) Assign m' by (cases "rewrite_stmts fl lts ss m'") (simp_all add: Let_def)
    have sc: "scalar_rvalue n ?rv" using Cons.prems(2,3) Assign by (intro scalar_replace) simp_all
    have "valued_map m'" using rewrite_map_valued [OF m' Cons.prems(2) sc] .
    with Cons.IH [OF rest(1)] Cons.prems(3) sc Assign rest(2) show ?thesis by simp
  next
    case (StorageLive l)
    then obtain rest where "rewrite_stmts fl lts ss m = Inr rest" "ss' = s # rest"
      using Cons.prems(1) by (cases "rewrite_stmts fl lts ss m") auto
    with Cons.IH [of m rest] Cons.prems(2,3) show ?thesis by simp
  next
    case (StorageDead l)
    then obtain rest where "rewrite_stmts fl lts ss m = Inr rest" "ss' = s # rest"
      using Cons.prems(1) by (cases "rewrite_stmts fl lts ss m") auto
    with Cons.IH [of m rest] Cons.prems(2,3) show ?thesis by simp
  next
    case Nop
    then obtain rest where "rewrite_stmts fl lts ss m = Inr rest" "ss' = s # rest"
      using Cons.prems(1) by (cases "rewrite_stmts fl lts ss m") auto
    with Cons.IH [of m rest] Cons.prems(2,3) show ?thesis by simp
  qed
qed simp

lemma rewrite_blocks_scalar:
  "rewrite_blocks fl lts bbs es = Inr bbs' \<Longrightarrow> valued_maps es \<Longrightarrow> \<forall>bb \<in> set bbs. shape_block n bb \<Longrightarrow>
   (\<forall>bb \<in> set bbs'. shape_block n bb) \<and> map block_successors bbs' = map block_successors bbs"
proof (induction fl lts bbs es arbitrary: bbs' rule: rewrite_blocks.induct)
  case (1 fl lts bb bbs e es)
  let ?r = "case e of None \<Rightarrow> Inr bb
    | Some m \<Rightarrow> map_sum id (\<lambda>ss. bb\<lparr>bb_statements := ss\<rparr>) (rewrite_stmts fl lts (bb_statements bb) m)"
  obtain bb' rest where r: "?r = Inr bb'" "rewrite_blocks fl lts bbs es = Inr rest" "bbs' = bb' # rest"
    using "1.prems"(1) by (cases ?r; cases "rewrite_blocks fl lts bbs es") auto
  have es: "valued_maps es" using "1.prems"(2) by (simp add: valued_maps_def)
  have "shape_block n bb' \<and> block_successors bb' = block_successors bb"
  proof (cases e)
    case None
    with r(1) "1.prems"(3) show ?thesis by simp
  next
    case (Some m)
    with r(1) obtain ss' where ss': "rewrite_stmts fl lts (bb_statements bb) m = Inr ss'" "bb' = bb\<lparr>bb_statements := ss'\<rparr>"
      by (cases "rewrite_stmts fl lts (bb_statements bb) m") auto
    have "valued_map m" using "1.prems"(2) Some by (simp add: valued_maps_def)
    with rewrite_stmts_scalar [OF ss'(1)] "1.prems"(3) ss'(2) show ?thesis
      by (simp add: shape_block_def block_successors_def)
  qed
  with "1.IH" [OF r(1,2) es] "1.prems"(3) r(3) show ?case by simp
qed auto

lemma constant_prop_scalar:
  assumes "constant_prop fl body = Inr body'" and "scalar_body body" and "targets_ok (b_blocks body)"
  shows "scalar_body body' \<and> targets_ok (b_blocks body') \<and> b_locals body' = b_locals body \<and>
    length (b_blocks body') = length (b_blocks body)"
proof -
  let ?n = "length (b_locals body)"
  have ne: "b_blocks body \<noteq> []" using assms(2) by (simp add: scalar_body_def)
  have sh: "\<forall>bb \<in> set (b_blocks body). shape_block ?n bb" using assms(2) scalar_body_shape by blast
  obtain fw where fw: "flow_analysis fl body = Inr fw"
    using assms(1) ne by (cases "flow_analysis fl body") (simp_all add: constant_prop_def)
  obtain bbs where bbs: "rewrite_blocks fl (b_locals body) (b_blocks body) (fw_entry_maps fw) = Inr bbs"
    "body' = body\<lparr>b_blocks := bbs\<rparr>"
    using assms(1) ne fw
    by (cases "rewrite_blocks fl (b_locals body) (b_blocks body) (fw_entry_maps fw)") (simp_all add: constant_prop_def)
  have "(\<forall>bb \<in> set bbs. shape_block ?n bb) \<and> map block_successors bbs = map block_successors (b_blocks body)"
    using rewrite_blocks_scalar [OF bbs(1) flow_analysis_valued [OF fw sh] sh] .
  moreover from this have len: "length bbs = length (b_blocks body)" by (metis length_map)
  moreover have "targets_ok bbs"
  proof -
    have "\<forall>S \<in> set (map block_successors bbs). \<forall>s \<in> set S. unat s < length bbs"
      using calculation assms(3) by (auto simp: targets_ok_def)
    then show ?thesis by (simp add: targets_ok_def)
  qed
  moreover have "bbs \<noteq> []" using len ne by auto
  ultimately show ?thesis using bbs(2) by (auto intro: shape_scalar_body)
qed

section \<open>The other passes\<close>

lemma dce_scalar:
  assumes "scalar_body body" and "targets_ok (b_blocks body)"
  shows "scalar_body (dce body) \<and> targets_ok (b_blocks (dce body)) \<and>
    length (b_blocks (dce body)) = length (b_blocks body) \<and> b_locals (dce body) = b_locals body"
  using assms
  by (auto simp: dce_def Let_def scalar_body_def scalar_block_def targets_ok_def block_successors_def)

lemma cfg_simplify_scalar:
  assumes "scalar_body body" and "targets_ok (b_blocks body)" and "length (b_blocks body) \<le> 2 ^ 32"
  shows "scalar_body (cfg_simplify body) \<and> targets_ok (b_blocks (cfg_simplify body)) \<and>
    length (b_blocks (cfg_simplify body)) \<le> length (b_blocks body) \<and> b_locals (cfg_simplify body) = b_locals body"
proof -
  have ne: "b_blocks body \<noteq> []" using assms(1) by (simp add: scalar_body_def)
  have "\<forall>bb \<in> set (cfg_loop (b_blocks body)). shape_block (length (b_locals body)) bb"
    using assms(1) scalar_body_shape by (intro shape_cfg_loop) blast
  with cfg_loop_correct [OF assms(2) ne assms(3)] show ?thesis
    by (auto simp: cfg_simplify_def intro!: shape_scalar_body)
qed

lemma unreachable_elim_scalar:
  assumes "scalar_body body" and "targets_ok (b_blocks body)" and "length (b_blocks body) \<le> 2 ^ 32"
    and "unreachable_elim body = Inr body'"
  shows "scalar_body body' \<and> b_locals body' = b_locals body"
proof -
  have ne: "b_blocks body \<noteq> []" using assms(1) by (simp add: scalar_body_def)
  from ne assms(2) show ?thesis
  proof (cases rule: unreachable_elim_cases)
    case all
    with assms show ?thesis by simp
  next
    case (some keep)
    let ?c = "compact keep (b_blocks body)"
    have "\<forall>bb \<in> set ?c. shape_block (length (b_locals body)) bb"
      using assms(1) scalar_body_shape by (intro shape_compact) blast
    moreover have "targets_ok ?c" using some(2) assms(3) by (rule compact_targets_ok)
    moreover have "?c \<noteq> []"
      using compact_at [of keep "b_blocks body" 0] some(2,3) ne by (auto simp: kept_closed_def)
    ultimately show ?thesis using some(1) assms(4) by (auto intro!: shape_scalar_body)
  qed
qed

end
