(* ===== verification/Opt_Theorems.thy ===== *)
theory Opt_Theorems
  imports Opt_Scalar
begin

text \<open>
  The optimizer as a whole, and in front of the bytecode emitter and the machine.
\<close>

lemma scalar_operand_places: "scalar_operand n op \<Longrightarrow> p \<in> set (operand_places op) \<Longrightarrow> pl_projection p = []"
  by (cases op) auto

lemma scalar_slices_tidy: "scalar_body body \<Longrightarrow> slices_tidy body"
proof -
  have "pl_projection p = []" if "scalar_stmt n k" "p \<in> set (stmt_places k)" for n k p
  proof (cases k)
    case (Assign q rv)
    with that scalar_operand_places show ?thesis by (cases rv) (auto simp: stmt_places_def)
  qed (use that in \<open>simp_all add: stmt_places_def\<close>)
  moreover have "pl_projection p = []" if "scalar_term n k lts t" "p \<in> set (terminator_places t @ written_places t)"
    for n k lts t p
    using that scalar_operand_places by (cases t) auto
  ultimately show "scalar_body body \<Longrightarrow> slices_tidy body"
    by (fastforce simp: scalar_body_def scalar_block_def slices_tidy_def block_places_def slices_last_def)
qed

lemma same_runs_start:
  assumes "same_runs body (b_blocks body) bs 0" and "mir_run body n 0 ls = Some r"
  shows "\<exists>m. mir_run (with_blocks body bs) m 0 ls = Some r"
proof -
  have "(\<exists>n. mir_run body n 0 ls = Some r) \<longleftrightarrow> (\<exists>n. mir_run (with_blocks body bs) n 0 ls = Some r)"
    using assms(1) [unfolded same_runs_def, rule_format, of 0 ls r] by simp
  with assms(2) show ?thesis by blast
qed

lemma optimize_runs:
  assumes sc: "scalar_body body" and sz: "length (b_blocks body) \<le> 2 ^ 32"
    and opt: "optimize ctx needs_drop fl body = Inr ob"
    and an: "flow_analysis fl body = Inr fw" "\<not> fw_changed fw" and jc: "joins_complete body fw"
    and cp: "constant_prop fl body = Inr folded" and ex: "exact_body folded"
    and run: "length ls = length (b_locals body)" "mir_run body n 0 ls = Some r" "r \<noteq> Inl AbnormalTermination"
  shows "(\<exists>m. mir_run (opt_body ob) m 0 ls = Some r) \<and> scalar_body (opt_body ob) \<and>
    b_locals (opt_body ob) = b_locals body \<and>
    (\<forall>i < length (b_blocks (opt_body ob)). (cfg_edge (b_blocks (opt_body ob)))\<^sup>*\<^sup>* 0 i)"
proof -
  have "slice_desugar ctx body = Inr body" using sc by (intro slice_desugar_same scalar_slices_tidy)
  with opt cp obtain b3 where v: "validate_body ctx needs_drop body = Inr ()"
    and b3: "unreachable_elim (cfg_simplify (dce folded)) = Inr b3" "opt_body ob = b3"
    by (auto elim!: optimizeE)
  have tg: "targets_ok (b_blocks body)"
    using v by (auto simp: validate_body_def check_block_def check_terminator_ok targets_ok_def block_successors_def)
  note p = constant_prop_scalar [OF cp sc tg]
  note d = dce_scalar [of folded]
  note c = cfg_simplify_scalar [of "dce folded"]
  let ?c = "cfg_simplify (dce folded)"
  have c': "scalar_body ?c" "targets_ok (b_blocks ?c)" "length (b_blocks ?c) \<le> 2 ^ 32" "b_locals ?c = b_locals body"
    using p d c sz by auto
  have f: "mir_run folded n 0 ls = Some r"
    using constant_prop_runs [OF sc cp an jc ex run(1), of n] run(2) by simp
  have dr: "mir_run (dce folded) n 0 ls = Some r" using f p run(3) by (intro dce_runs) auto
  have "same_runs (dce folded) (b_blocks (dce folded)) (cfg_loop (b_blocks (dce folded))) 0"
    using p d sz by (intro cfg_loop_correct [THEN conjunct1]) (auto simp: scalar_body_def)
  then have "\<exists>m. mir_run ?c m 0 ls = Some r"
    unfolding cfg_simplify_def using dr by (rule same_runs_start)
  then obtain m where "mir_run ?c m 0 ls = Some r" by blast
  moreover obtain b3' where "unreachable_elim ?c = Inr b3'" "\<forall>n ls. mir_run b3' n 0 ls = mir_run ?c n 0 ls"
    "\<forall>i < length (b_blocks b3'). (cfg_edge (b_blocks b3'))\<^sup>*\<^sup>* 0 i"
    using unreachable_elim_runs [of ?c] c' by (auto simp: scalar_body_def)
  ultimately show ?thesis using unreachable_elim_scalar [OF c'(1-3) b3(1)] b3 c'(4) by auto
qed


text \<open>The witness: \<open>_1 = 6; goto bb1; bb1: _0 = _1 * 7; return\<close>.\<close>

lemma fold_body_scalar: "scalar_body fold_body"
  by (simp add: fold_body_def demo_simps scalar_body_def scalar_block_def)

lemma fold_body_targets: "targets_ok (b_blocks fold_body)"
  by (simp add: fold_body_def demo_simps targets_ok_def block_successors_def)

lemma folded_body_exact: "exact_body folded_body"
  by (simp add: exact_body_def folded_body_def demo_simps)

lemma fold_body_joins: "\<not> fw_changed fold_flow" "joins_complete fold_body fold_flow"
  by (simp_all add: joins_complete_def fold_body_def fold_flow_def demo_simps preds_of_def
      block_successors_def less_Suc_eq numeral_2_eq_2)

lemma fold_body_run: "mir_run fold_body 2 0 [Value.Int 0, Value.Int 0] = Some (Inr (Value.Int 42))"
  unfolding numeral_2_eq_2 fold_body_def
  by (simp add: demo_simps Let_def local0_ty_def Ty_I64_def Ty_UNIT_def mir_run.simps(2))

lemma fold_body_optimizes: "\<exists>ob. optimize ctx nd fl fold_body = Inr ob"
proof -
  have v: "validate_body ctx nd fold_body = Inr ()" "validate_no_subslice fold_body = Inr ()"
    by (simp_all add: validate_body_def check_block_def check_stmt_def validate_no_subslice_def check_no_subslice_def
        stmt_subslice_def has_subslice_def fold_body_def demo_simps operand_slices_last_def slices_last_def)
  have "scalar_body folded_body" "targets_ok (b_blocks folded_body)" "length (b_blocks folded_body) \<le> 2 ^ 32"
    by (simp_all add: folded_body_def demo_simps scalar_body_def scalar_block_def targets_ok_def block_successors_def)
  with dce_scalar [of folded_body] cfg_simplify_scalar [of "dce folded_body"]
  obtain b where "unreachable_elim (cfg_simplify (dce folded_body)) = Inr b"
    using unreachable_elim_runs [of "cfg_simplify (dce folded_body)"] by (auto simp: scalar_body_def)
  with v show ?thesis
    by (simp add: optimize_def expect_valid_def slice_desugar_same scalar_slices_tidy fold_body_scalar fold_body_result)
qed




end
