(* ===== verification/Opt_Drop.thy ===== *)
theory Opt_Drop
  imports Opt_Theorems Type_Arena
begin

text \<open>
  \<open>crates/glyim-opt/src/drop_elaboration.rs\<close>: drop flags, and loops that drop arrays.

  The pass reads types through a frozen snapshot of the context (\<open>tc\<close>, a \<open>TypeLookup\<close>; \<open>needs_drop\<close>
  is an argument) and interns the types of flag arrays into the mutable one (\<open>cx\<close> and the arena).
  The hash map \<open>per_element\<close> is an association list; the order in which \<open>values_mut\<close> visits it is an
  argument, a function that permutes its entries.
\<close>

section \<open>Which locals are initialized\<close>

definition init_stmt :: "Statement \<Rightarrow> bool list \<Rightarrow> panicked + bool list" where
  "init_stmt stmt cur =
     (case st_kind stmt of
        Assign place _ \<Rightarrow>
          (if pl_projection place = [] then vec_set (unat (pl_local place)) True cur else Inr cur)
      | StorageLive l \<Rightarrow> vec_set (unat l) True cur
      | StorageDead l \<Rightarrow> vec_set (unat l) False cur
      | Nop \<Rightarrow> Inr cur)"

record InitState =
  in_entry :: "bool list list"
  in_queue :: "nat list"
  in_queued :: "bool list"

text \<open>The loop over the locals: a slot that is set here and not there is cleared.  All entries have one
  slot per local, so the two lists have the same length.\<close>

fun clear_slots :: "bool list \<Rightarrow> bool list \<Rightarrow> bool list" where
  "clear_slots (x # xs) (y # ys) = (x \<and> y) # clear_slots xs ys"
| "clear_slots xs _ = xs"

definition init_meet :: "bool list \<Rightarrow> BasicBlockIdx \<Rightarrow> InitState \<Rightarrow> panicked + InitState" where
  "init_meet cur succ st =
     (let s = unat succ in
      if s = 0 then Inr st
      else pbind (vec_index (in_entry st) s) (\<lambda>old.
        let met = clear_slots old cur; st' = st\<lparr>in_entry := (in_entry st)[s := met]\<rparr> in
        if met \<noteq> old then
          pbind (vec_index (in_queued st) s) (\<lambda>queued.
            if queued then Inr st'
            else Inr (st'\<lparr>in_queued := (in_queued st)[s := True], in_queue := in_queue st @ [s]\<rparr>))
        else Inr st))"

definition init_visit :: "Body \<Rightarrow> nat \<Rightarrow> InitState \<Rightarrow> panicked + InitState" where
  "init_visit body bb st =
     pbind (vec_set bb False (in_queued st)) (\<lambda>queued.
     pbind (vec_index (in_entry st) bb) (\<lambda>entry.
     pbind (vec_index (b_blocks body) bb) (\<lambda>block.
     pbind (pfold init_stmt (bb_statements block) entry) (\<lambda>cur.
       pfold (init_meet cur) (block_successors block) (st\<lparr>in_queued := queued\<rparr>)))))"

text \<open>The loop ends: a visit clears slots or leaves the queue one shorter.\<close>

definition trues :: "bool list list \<Rightarrow> nat" where
  "trues rows = sum_list (map (\<lambda>r. length (filter id r)) rows)"

lemma trues_update: "s < length rows \<Longrightarrow>
  trues (rows[s := r]) + length (filter id (rows ! s)) = trues rows + length (filter id r)"
  unfolding trues_def by (induction rows arbitrary: s) (auto split: nat.split)

lemma length_clear_slots [simp]: "length (clear_slots xs ys) = length xs"
  by (induction xs ys rule: clear_slots.induct) auto

lemma nth_clear_slots: "length xs = length ys \<Longrightarrow> i < length xs \<Longrightarrow> clear_slots xs ys ! i \<longleftrightarrow> xs ! i \<and> ys ! i"
  by (induction xs ys arbitrary: i rule: clear_slots.induct) (auto simp: less_Suc_eq_0_disj)

lemma clear_slots_le: "length (filter id (clear_slots xs ys)) \<le> length (filter id xs)"
  by (induction xs ys rule: clear_slots.induct) auto

lemma clear_slots_less: "clear_slots xs ys \<noteq> xs \<Longrightarrow> length (filter id (clear_slots xs ys)) < length (filter id xs)"
proof (induction xs ys rule: clear_slots.induct)
  case (1 x xs y ys)
  with clear_slots_le [of xs ys] show ?case by (cases x; cases y) (auto simp: id_def)
qed simp_all

definition closer :: "InitState \<Rightarrow> InitState \<Rightarrow> bool" where
  "closer st' st \<longleftrightarrow> trues (in_entry st') < trues (in_entry st) \<or>
     in_entry st' = in_entry st \<and> in_queue st' = in_queue st"

lemma init_meet_closer: "init_meet cur succ st = Inr st' \<Longrightarrow> closer st' st"
  using trues_update [of "unat succ" "in_entry st" "clear_slots (in_entry st ! unat succ) cur"]
    clear_slots_less [of "in_entry st ! unat succ" cur]
  by (auto simp: init_meet_def Let_def pbind_Inr_iff vec_index_def closer_def split: if_splits)

lemma init_meets_closer: "pfold (init_meet cur) succs st = Inr st' \<Longrightarrow> closer st' st"
proof (induction succs arbitrary: st)
  case Nil
  then show ?case by (simp add: closer_def)
next
  case (Cons s succs)
  then obtain st1 where "init_meet cur s st = Inr st1" "pfold (init_meet cur) succs st1 = Inr st'"
    by (auto simp: pbind_Inr_iff)
  with Cons.IH init_meet_closer show ?case by (fastforce simp: closer_def)
qed

lemma init_visit_closer: "init_visit body bb st = Inr st' \<Longrightarrow> closer st' st"
  by (auto simp: init_visit_def pbind_Inr_iff dest!: init_meets_closer) (auto simp: closer_def)

function init_loop :: "Body \<Rightarrow> InitState \<Rightarrow> panicked + InitState" where
  "init_loop body st =
     (case in_queue st of
        [] \<Rightarrow> Inr st
      | bb # rest \<Rightarrow>
          (case init_visit body bb (st\<lparr>in_queue := rest\<rparr>) of
             Inl e \<Rightarrow> Inl e
           | Inr st' \<Rightarrow> init_loop body st'))"
  by pat_completeness auto
termination
proof (relation "measures [\<lambda>(body, st). trues (in_entry st), \<lambda>(body, st). length (in_queue st)]", goal_cases)
  case (2 body st bb rest st')
  then have "closer st' (st\<lparr>in_queue := rest\<rparr>)" by (intro init_visit_closer) simp
  with 2 show ?case by (auto simp: closer_def)
qed simp

declare init_loop.simps [simp del]

definition init_start :: "Body \<Rightarrow> panicked + InitState" where
  "init_start body =
     (let locals = length (b_locals body); blocks = length (b_blocks body) in
      pbind (vec_set 0 (map (\<lambda>i. i \<le> b_arg_count body) [0..<locals]) (replicate blocks (replicate locals True)))
        (\<lambda>entry. Inr \<lparr>in_entry = entry, in_queue = [0..<blocks], in_queued = replicate blocks True\<rparr>))"

definition compute_initialized :: "Body \<Rightarrow> panicked + bool list list" where
  "compute_initialized body =
     pbind (init_start body) (\<lambda>st. pbind (init_loop body st) (\<lambda>st'. Inr (in_entry st')))"

definition is_definitely_initialized :: "bool list list \<Rightarrow> BasicBlockIdx \<Rightarrow> LocalIdx \<Rightarrow> panicked + bool" where
  "is_definitely_initialized entry block l =
     pbind (vec_index entry (unat block)) (\<lambda>slots. vec_index slots (unat l))"

section \<open>Drop flags\<close>

record DropFlags =
  df_flag_for_local :: "LocalIdx option list"
  df_per_element :: "(LocalIdx \<times> LocalIdx \<times> u64) list"

definition has_index :: "Place \<Rightarrow> bool" where
  "has_index p \<longleftrightarrow> list_ex (\<lambda>e. case e of Index _ \<Rightarrow> True | _ \<Rightarrow> False) (pl_projection p)"

definition loop_built_stmt ::
    "TypeLookup \<Rightarrow> (Ty \<Rightarrow> bool) \<Rightarrow> LocalDecl IndexVec \<Rightarrow> Statement \<Rightarrow> LocalIdx list \<Rightarrow> panicked + LocalIdx list" where
  "loop_built_stmt tc needs_drop locals stmt built =
     (case st_kind stmt of
        Assign place _ \<Rightarrow>
          (if has_index place then
             pbind (place_ty tc place locals) (\<lambda>ty.
               Inr (if needs_drop ty then List.insert (pl_local place) built else built))
           else Inr built)
      | _ \<Rightarrow> Inr built)"

definition loop_built :: "TypeLookup \<Rightarrow> (Ty \<Rightarrow> bool) \<Rightarrow> Body \<Rightarrow> panicked + LocalIdx list" where
  "loop_built tc needs_drop body =
     pfold (\<lambda>bb. pfold (loop_built_stmt tc needs_drop (b_locals body)) (bb_statements bb)) (b_blocks body) []"

definition array_len :: "Const \<Rightarrow> u64" where
  "array_len count =
     (case const_kind count of
        ConstKind.Uint n \<Rightarrow> ucast n
      | ConstKind.Int n \<Rightarrow> (if 0 \<le> sint n then ucast n else 0)
      | _ \<Rightarrow> 0)"

definition flag_local_decl :: "TypeLookup \<Rightarrow> (Ty \<Rightarrow> bool) \<Rightarrow> LocalIdx list \<Rightarrow> LocalIdx \<times> LocalDecl \<Rightarrow> DropFlags \<Rightarrow> DropFlags" where
  "flag_local_decl tc needs_drop built ld flags =
     (case ld of (l, decl) \<Rightarrow>
        if \<not> needs_drop (ld_ty decl) then flags
        else (case tl_ty_kind tc (ld_ty decl) of
                TyKind.Array _ count \<Rightarrow>
                  (if 0 < array_len count \<and> l \<in> set built
                   then flags\<lparr>df_per_element := AList.update l (0, array_len count) (df_per_element flags)\<rparr>
                   else flags\<lparr>df_flag_for_local := (df_flag_for_local flags)[unat l := Some 0]\<rparr>)
              | _ \<Rightarrow> flags\<lparr>df_flag_for_local := (df_flag_for_local flags)[unat l := Some 0]\<rparr>))"

definition DropFlags_new :: "TypeLookup \<Rightarrow> (Ty \<Rightarrow> bool) \<Rightarrow> Body \<Rightarrow> panicked + DropFlags" where
  "DropFlags_new tc needs_drop body =
     pbind (loop_built tc needs_drop body) (\<lambda>built.
       Inr (fold (flag_local_decl tc needs_drop built) (iv_iter_enumerated (b_locals body))
         \<lparr>df_flag_for_local = replicate (length (b_locals body)) None, df_per_element = []\<rparr>))"

definition plain_stmt :: "Span \<Rightarrow> StatementKind \<Rightarrow> Statement" where
  "plain_stmt span k = \<lparr>st_kind = k, st_source_info = SourceInfo_new span\<rparr>"

definition bool_operand :: "Span \<Rightarrow> bool \<Rightarrow> Operand" where
  "bool_operand span v = Operand.Constant (MirConst (MirConstKind.Bool v) Ty_BOOL span)"

definition set_flag_stmt :: "LocalIdx \<Rightarrow> bool \<Rightarrow> Span \<Rightarrow> Statement" where
  "set_flag_stmt flag v span = plain_stmt span (Assign (Place_new flag) (Use (bool_operand span v)))"

definition set_flag_stmt_indexed :: "LocalIdx \<Rightarrow> LocalIdx \<Rightarrow> bool \<Rightarrow> Span \<Rightarrow> Statement" where
  "set_flag_stmt_indexed flag_arr i v span =
     plain_stmt span (Assign \<lparr>pl_local = flag_arr, pl_projection = [Index i]\<rparr> (Use (bool_operand span v)))"

text \<open>\<open>body.locals.push\<close> of a mutable local, then \<open>StorageLive\<close> and its initial value at positions
  0 and 1 of the entry block.\<close>

definition push_flag :: "Ty \<Rightarrow> Rvalue \<Rightarrow> Body \<Rightarrow> panicked + LocalIdx \<times> Body" where
  "push_flag ty init body =
     (let (flag, locals) = iv_push \<lparr>ld_ty = ty, ld_mutability = Mutability.Mut,
            ld_source_info = SourceInfo_new Span_DUMMY\<rparr> (b_locals body) in
      pbind (vec_index (b_blocks body) 0) (\<lambda>entry.
        Inr (flag, body\<lparr>b_locals := locals,
          b_blocks := (b_blocks body)[0 := entry\<lparr>bb_statements :=
            [plain_stmt Span_DUMMY (StorageLive flag), plain_stmt Span_DUMMY (Assign (Place_new flag) init)]
            @ bb_statements entry\<rparr>]\<rparr>)))"

fun create_local_flags :: "LocalIdx option list \<Rightarrow> Body \<Rightarrow> panicked + LocalIdx option list \<times> Body" where
  "create_local_flags [] body = Inr ([], body)"
| "create_local_flags (None # flags) body =
     pbind (create_local_flags flags body) (\<lambda>(flags', body'). Inr (None # flags', body'))"
| "create_local_flags (Some _ # flags) body =
     pbind (push_flag Ty_BOOL (Use (bool_operand Span_DUMMY False)) body) (\<lambda>(flag, body1).
     pbind (create_local_flags flags body1) (\<lambda>(flags', body'). Inr (Some flag # flags', body')))"

fun create_element_flags :: "TyCtx \<Rightarrow> (LocalIdx \<times> LocalIdx \<times> u64) list \<Rightarrow> Body \<times> TypeArena \<Rightarrow>
    panicked + (LocalIdx \<times> LocalIdx \<times> u64) list \<times> Body \<times> TypeArena" where
  "create_element_flags cx [] st = Inr ([], st)"
| "create_element_flags cx ((l, old, len) # rest) st =
     (if len = 0 then
        pbind (create_element_flags cx rest st) (\<lambda>(rest', st'). Inr ((l, old, len) # rest', st'))
      else
        pbind (mk_ty cx (TyKind.Uint Usize) (snd st)) (\<lambda>(usize_ty, a1).
        pbind (mk_ty cx (TyKind.Array Ty_BOOL \<lparr>const_kind = ConstKind.Uint (ucast len), const_ty = usize_ty\<rparr>) a1)
          (\<lambda>(flag_arr_ty, a2).
        pbind (push_flag flag_arr_ty (Rvalue.Aggregate (AggregateKind.Array Ty_BOOL)
            (replicate (unat len) (bool_operand Span_DUMMY False))) (fst st)) (\<lambda>(flag_arr, body1).
        pbind (create_element_flags cx rest (body1, a2)) (\<lambda>(rest', st').
          Inr ((l, flag_arr, len) # rest', st'))))))"

definition create_flags ::
    "((LocalIdx \<times> LocalIdx \<times> u64) list \<Rightarrow> (LocalIdx \<times> LocalIdx \<times> u64) list) \<Rightarrow> TyCtx \<Rightarrow>
     DropFlags \<Rightarrow> Body \<Rightarrow> TypeArena \<Rightarrow> panicked + DropFlags \<times> Body \<times> TypeArena" where
  "create_flags visit cx flags body a =
     pbind (create_local_flags (df_flag_for_local flags) body) (\<lambda>(locals', body1).
     pbind (create_element_flags cx (visit (df_per_element flags)) (body1, a)) (\<lambda>(elems', body2, a').
       Inr (\<lparr>df_flag_for_local = locals', df_per_element = elems'\<rparr>, body2, a')))"

definition get_flag :: "DropFlags \<Rightarrow> LocalIdx \<Rightarrow> LocalIdx option" where
  "get_flag flags l =
     (if unat l < length (df_flag_for_local flags) then df_flag_for_local flags ! unat l else None)"

section \<open>Setting the flags\<close>

definition assigned_local :: "Statement \<Rightarrow> LocalIdx option" where
  "assigned_local stmt =
     (case st_kind stmt of
        Assign place _ \<Rightarrow> (if pl_projection place = [] then Some (pl_local place) else None)
      | _ \<Rightarrow> None)"

definition first_index :: "Place \<Rightarrow> LocalIdx option" where
  "first_index p =
     (case List.find (\<lambda>e. case e of Index _ \<Rightarrow> True | _ \<Rightarrow> False) (pl_projection p) of
        Some (Index i) \<Rightarrow> Some i | _ \<Rightarrow> None)"

text \<open>What the statement pushed last gets behind it, when it assigns an element.\<close>

definition element_flag_stmts :: "DropFlags \<Rightarrow> Span \<Rightarrow> Statement \<Rightarrow> Statement list" where
  "element_flag_stmts flags span stmt =
     (case st_kind stmt of
        Assign place _ \<Rightarrow>
          (case map_of (df_per_element flags) (pl_local place) of
             Some (flag_arr, _) \<Rightarrow>
               (case first_index place of
                  Some i \<Rightarrow> [set_flag_stmt_indexed flag_arr i True span] | None \<Rightarrow> [])
           | None \<Rightarrow> [])
      | _ \<Rightarrow> [])"

definition flag_statement :: "DropFlags \<Rightarrow> Statement \<Rightarrow> Statement list" where
  "flag_statement flags stmt =
     (let span = si_span (st_source_info stmt);
          pushed = stmt # (case Option.bind (assigned_local stmt) (get_flag flags) of
                             Some flag \<Rightarrow> [set_flag_stmt flag True span] | None \<Rightarrow> [])
      in pushed @ element_flag_stmts flags span (last pushed))"

definition insert_flags :: "DropFlags \<Rightarrow> BasicBlockData \<Rightarrow> BasicBlockData" where
  "insert_flags flags bb = bb\<lparr>bb_statements := concat (map (flag_statement flags) (bb_statements bb))\<rparr>"

section \<open>Dropping arrays\<close>

definition block_idx :: "nat \<Rightarrow> BasicBlockIdx" where
  "block_idx n = of_nat n"

definition new_block :: "SourceInfo \<Rightarrow> bool \<Rightarrow> StatementKind list \<Rightarrow> TerminatorKind \<Rightarrow> BasicBlockData" where
  "new_block si cleanup ks k =
     \<lparr>bb_statements = map (\<lambda>k. \<lparr>st_kind = k, st_source_info = si\<rparr>) ks,
      bb_terminator = \<lparr>te_kind = k, te_source_info = si\<rparr>, bb_is_cleanup = cleanup\<rparr>"

definition count_operand :: "SourceInfo \<Rightarrow> Ty \<Rightarrow> u128 \<Rightarrow> Operand" where
  "count_operand si ty n = Operand.Constant (MirConst (MirConstKind.Uint n) ty (si_span si))"

definition element_of :: "Place \<Rightarrow> LocalIdx \<Rightarrow> Place" where
  "element_of place i = \<lparr>pl_local = pl_local place, pl_projection = pl_projection place @ [Index i]\<rparr>"

definition emit_array_drop_loop ::
    "Place \<Rightarrow> BasicBlockIdx \<Rightarrow> BasicBlockIdx option \<Rightarrow> bool \<Rightarrow> SourceInfo \<Rightarrow> (LocalIdx \<times> u64) option \<Rightarrow> Ty \<Rightarrow>
     LocalIdx \<Rightarrow> u64 \<Rightarrow> BasicBlockData list \<Rightarrow> TerminatorKind \<times> BasicBlockData list" where
  "emit_array_drop_loop place target cleanup is_cleanup si per_element count_ty idx_local len new_blocks =
     (let n = length new_blocks;
          init_block = block_idx n;
          cond_block = block_idx (n + 1);
          body_block = block_idx (n + 2);
          exit_block = block_idx (n + 3);
          idx_place = Place_new idx_local;
          init_data = new_block si is_cleanup [Assign idx_place (Use (count_operand si count_ty (ucast len)))]
            (Goto cond_block);
          cond_data = new_block si is_cleanup []
            (SwitchInt (Operand.Copy idx_place) count_ty (SwitchTargets_new [(0, exit_block)] body_block));
          new_blocks = new_blocks @ [init_data, cond_data];
          dec = Assign idx_place (BinaryOp BinOp.Sub (Operand.Copy idx_place) (count_operand si count_ty 1));
          elem_place = element_of place idx_local;
          new_blocks =
            (case per_element of
               Some (flag_arr, _) \<Rightarrow>
                 (let drop_elem_block = block_idx (length new_blocks);
                      drop_elem_data = new_block si is_cleanup [] (TerminatorKind.Drop elem_place cond_block cleanup);
                      flag_elem_place = \<lparr>pl_local = flag_arr, pl_projection = [Index idx_local]\<rparr>;
                      body_data = new_block si is_cleanup [dec]
                        (SwitchInt (Operand.Copy flag_elem_place) Ty_BOOL (if_switch drop_elem_block cond_block))
                  in new_blocks @ [drop_elem_data, body_data])
             | None \<Rightarrow>
                 new_blocks @ [new_block si is_cleanup [dec] (TerminatorKind.Drop elem_place cond_block cleanup)]);
          exit_data = new_block si is_cleanup [] (Goto target)
      in (Goto init_block, new_blocks @ [exit_data]))"

section \<open>The terminators\<close>

type_synonym DropState = "LocalDecl IndexVec \<times> BasicBlockData list"

definition guard_drop ::
    "DropFlags \<Rightarrow> bool list list \<Rightarrow> BasicBlockIdx \<Rightarrow> BasicBlockData \<Rightarrow> Place \<Rightarrow> BasicBlockIdx \<Rightarrow> BasicBlockIdx option \<Rightarrow>
     BasicBlockData list \<Rightarrow> panicked + TerminatorKind \<times> BasicBlockData list" where
  "guard_drop flags analysis old_bb old_block place target cleanup new_blocks =
     pbind (is_definitely_initialized analysis old_bb (pl_local place)) (\<lambda>definitely_init.
       let si = te_source_info (bb_terminator old_block); drop = TerminatorKind.Drop place target cleanup in
       if definitely_init then Inr (drop, new_blocks)
       else (case get_flag flags (pl_local place) of
               None \<Rightarrow> Inr (drop, new_blocks)
             | Some flag \<Rightarrow>
                 let drop_block = block_idx (length new_blocks);
                     drop_data = \<lparr>bb_statements = [set_flag_stmt flag False (si_span si)],
                       bb_terminator = \<lparr>te_kind = drop, te_source_info = si\<rparr>,
                       bb_is_cleanup = bb_is_cleanup old_block\<rparr>
                 in Inr (SwitchInt (Operand.Copy (Place_new flag)) Ty_BOOL (if_switch drop_block target),
                         new_blocks @ [drop_data])))"

definition elaborate_drop ::
    "TypeLookup \<Rightarrow> (Ty \<Rightarrow> bool) \<Rightarrow> DropFlags \<Rightarrow> bool list list \<Rightarrow> BasicBlockIdx \<Rightarrow> BasicBlockData \<Rightarrow> Place \<Rightarrow>
     BasicBlockIdx \<Rightarrow> BasicBlockIdx option \<Rightarrow> DropState \<Rightarrow> panicked + TerminatorKind \<times> DropState" where
  "elaborate_drop tc needs_drop flags analysis old_bb old_block place target cleanup st =
     (let si = te_source_info (bb_terminator old_block); (locals, new_blocks) = st in
      pbind (place_ty tc place locals) (\<lambda>ty.
        if \<not> needs_drop ty then Inr (Goto target, st)
        else (case tl_ty_kind tc ty of
                TyKind.Array _ count \<Rightarrow>
                  (let len = array_len count in
                   if len = 0 then Inr (Goto target, st)
                   else (let per_element = map_of (df_per_element flags) (pl_local place);
                             (idx_local, locals') = iv_push \<lparr>ld_ty = const_ty count,
                               ld_mutability = Mutability.Mut, ld_source_info = SourceInfo_new (si_span si)\<rparr> locals;
                             (term, new_blocks') = emit_array_drop_loop place target cleanup
                               (bb_is_cleanup old_block) si per_element (const_ty count) idx_local len new_blocks
                         in Inr (term, locals', new_blocks')))
              | _ \<Rightarrow>
                  (if pl_projection place = [] then
                     pbind (guard_drop flags analysis old_bb old_block place target cleanup new_blocks)
                       (\<lambda>(term, new_blocks'). Inr (term, locals, new_blocks'))
                   else Inr (TerminatorKind.Drop place target cleanup, st)))))"

definition elaborate_block ::
    "TypeLookup \<Rightarrow> (Ty \<Rightarrow> bool) \<Rightarrow> DropFlags \<Rightarrow> bool list list \<Rightarrow> nat \<times> BasicBlockData \<Rightarrow> DropState \<Rightarrow>
     panicked + DropState" where
  "elaborate_block tc needs_drop flags analysis = (\<lambda>(old_idx, old_block) st.
     pbind (case te_kind (bb_terminator old_block) of
              TerminatorKind.Drop place target cleanup \<Rightarrow>
                elaborate_drop tc needs_drop flags analysis (block_idx old_idx) old_block place target cleanup st
            | k \<Rightarrow> Inr (k, st))
       (\<lambda>(new_term, locals, new_blocks).
         pbind (vec_set old_idx (old_block\<lparr>bb_terminator := (bb_terminator old_block)\<lparr>te_kind := new_term\<rparr>\<rparr>) new_blocks)
           (\<lambda>new_blocks'. Inr (locals, new_blocks'))))"

definition placeholder :: BasicBlockData where
  "placeholder = BasicBlockData_new \<lparr>te_kind = TerminatorKind.Unreachable, te_source_info = SourceInfo_new Span_DUMMY\<rparr>"

definition elaborate_drops ::
    "((LocalIdx \<times> LocalIdx \<times> u64) list \<Rightarrow> (LocalIdx \<times> LocalIdx \<times> u64) list) \<Rightarrow>
     TypeLookup \<Rightarrow> (Ty \<Rightarrow> bool) \<Rightarrow> TyCtx \<Rightarrow> Body \<Rightarrow> TypeArena \<Rightarrow> panicked + Body \<times> TypeArena" where
  "elaborate_drops visit tc needs_drop cx body a =
     pbind (compute_initialized body) (\<lambda>analysis.
     pbind (DropFlags_new tc needs_drop body) (\<lambda>flags0.
     pbind (create_flags visit cx flags0 body a) (\<lambda>(flags, body1, a').
       let old_blocks = map (insert_flags flags) (b_blocks body1) in
       pbind (pfold (elaborate_block tc needs_drop flags analysis) (enumerate 0 old_blocks)
           (b_locals body1, replicate (length old_blocks) placeholder)) (\<lambda>(locals, new_blocks).
         Inr (body1\<lparr>b_locals := locals, b_blocks := new_blocks\<rparr>, a')))))"

end
