(* ===== verification/Opt_Drop_Shape.thy ===== *)
theory Opt_Drop_Shape
  imports Opt_Drop
begin

text \<open>
  The shape of an elaborated body: the old blocks keep their places and their statements with the
  flags between them, each new block keeps the place it is appended at, and locals are only added.
\<close>

section \<open>Which locals get flags\<close>

lemma loop_built_stmt_sub:
  "loop_built_stmt tc nd locals s built = Inr built' \<Longrightarrow>
     set built' \<subseteq> set built \<union> {pl_local p | p rv. st_kind s = Assign p rv \<and> has_index p}"
  by (auto simp: loop_built_stmt_def pbind_Inr_iff split: StatementKind.splits if_splits)

lemma loop_built_stmt_mono: "loop_built_stmt tc nd locals s built = Inr built' \<Longrightarrow> set built \<subseteq> set built'"
  by (auto simp: loop_built_stmt_def pbind_Inr_iff split: StatementKind.splits if_splits)

lemma pfold_mono:
  assumes "\<And>x s s'. x \<in> set xs \<Longrightarrow> f x s = Inr s' \<Longrightarrow> set s \<subseteq> set s'" and "pfold f xs s = Inr s'"
  shows "set s \<subseteq> set s'"
  using assms
proof (induction xs arbitrary: s)
  case (Cons x xs)
  then obtain s1 where s1: "f x s = Inr s1" "pfold f xs s1 = Inr s'" by (auto simp: pbind_Inr_iff)
  from Cons.prems(1) [OF _ s1(1)] Cons.IH [OF Cons.prems(1) s1(2)] show ?case by fastforce
qed simp

lemma pfold_sub:
  assumes "\<And>x s s'. x \<in> set xs \<Longrightarrow> f x s = Inr s' \<Longrightarrow> set s' \<subseteq> set s \<union> R" and "pfold f xs s = Inr s'"
  shows "set s' \<subseteq> set s \<union> R"
  using assms
proof (induction xs arbitrary: s)
  case (Cons x xs)
  then obtain s1 where s1: "f x s = Inr s1" "pfold f xs s1 = Inr s'" by (auto simp: pbind_Inr_iff)
  from Cons.prems(1) [OF _ s1(1)] Cons.IH [OF Cons.prems(1) s1(2)] show ?case by fastforce
qed simp

text \<open>The statements that assign an element of something that needs dropping.\<close>

definition element_assigned :: "Body \<Rightarrow> LocalIdx \<Rightarrow> bool" where
  "element_assigned body l \<longleftrightarrow> (\<exists>bb \<in> set (b_blocks body). \<exists>s \<in> set (bb_statements bb). \<exists>p rv.
     st_kind s = Assign p rv \<and> pl_local p = l \<and> has_index p)"

lemma loop_built_sub:
  assumes "loop_built tc nd body = Inr built" and "l \<in> set built"
  shows "element_assigned body l"
proof -
  let ?R = "{l. element_assigned body l}"
  have "set built \<subseteq> set [] \<union> ?R"
  proof (rule pfold_sub [where R = ?R])
    show "pfold (\<lambda>bb. pfold (loop_built_stmt tc nd (b_locals body)) (bb_statements bb)) (b_blocks body) [] = Inr built"
      using assms(1) by (simp add: loop_built_def)
  next
    fix bb s s' assume bb: "bb \<in> set (b_blocks body)"
      and f: "pfold (loop_built_stmt tc nd (b_locals body)) (bb_statements bb) s = Inr s'"
    show "set s' \<subseteq> set s \<union> ?R"
    proof (rule pfold_sub [OF _ f])
      fix x t t' assume "x \<in> set (bb_statements bb)" "loop_built_stmt tc nd (b_locals body) x t = Inr t'"
      with bb loop_built_stmt_sub [OF this(2)] show "set t' \<subseteq> set t \<union> ?R"
        unfolding element_assigned_def by blast
    qed
  qed
  with assms(2) show ?thesis by auto
qed

lemma loop_built_has:
  assumes "loop_built tc nd body = Inr built" and "bb \<in> set (b_blocks body)" and "s \<in> set (bb_statements bb)"
    and "st_kind s = Assign p rv" and "has_index p" and "place_ty tc p (b_locals body) = Inr ty" and "nd ty"
  shows "pl_local p \<in> set built"
proof -
  let ?f = "loop_built_stmt tc nd (b_locals body)"
  let ?g = "\<lambda>bb. pfold ?f (bb_statements bb)"
  have mono: "set t \<subseteq> set t'" if "pfold ?f ss t = Inr t'" for ss t t'
    by (rule pfold_mono [OF _ that]) (rule loop_built_stmt_mono)
  obtain bs1 bs2 where bs: "b_blocks body = bs1 @ bb # bs2" using assms(2) by (meson split_list)
  obtain ss1 ss2 where ss: "bb_statements bb = ss1 @ s # ss2" using assms(3) by (meson split_list)
  from assms(1) bs ss obtain t0 t1 t2 t3 where
    "pfold ?f ss1 t0 = Inr t1" "?f s t1 = Inr t2" "pfold ?f ss2 t2 = Inr t3" "pfold ?g bs2 t3 = Inr built"
    by (auto simp: loop_built_def pfold_append pbind_Inr_iff)
  moreover from this(2) have "pl_local p \<in> set t2" using assms(4-7) by (auto simp: loop_built_stmt_def)
  moreover from calculation(4) have "set t3 \<subseteq> set built" by (rule pfold_mono [rotated]) (rule mono)
  ultimately show ?thesis using mono by blast
qed

definition element_keys :: "DropFlags \<Rightarrow> LocalIdx set" where
  "element_keys flags = fst ` set (df_per_element flags)"

lemma flag_local_decl_keys:
  "element_keys (flag_local_decl tc nd built (l, decl) flags) =
     (case tl_ty_kind tc (ld_ty decl) of
        TyKind.Array _ count \<Rightarrow>
          (if nd (ld_ty decl) \<and> 0 < array_len count \<and> l \<in> set built then insert l (element_keys flags)
           else element_keys flags)
      | _ \<Rightarrow> element_keys flags)"
  by (simp add: flag_local_decl_def element_keys_def AList.dom_update split: TyKind.split)

lemma element_keys_sub: "element_keys (fold (flag_local_decl tc nd built) lds flags) \<subseteq> element_keys flags \<union> set built"
proof (induction lds arbitrary: flags)
  case (Cons ld lds)
  obtain l decl where ld: "ld = (l, decl)" by fastforce
  have "element_keys (flag_local_decl tc nd built ld flags) \<subseteq> element_keys flags \<union> set built"
    unfolding ld flag_local_decl_keys by (auto split: TyKind.split)
  with Cons.IH [of "flag_local_decl tc nd built ld flags"] show ?case by auto
qed simp

lemma element_keys_mono: "element_keys flags \<subseteq> element_keys (fold (flag_local_decl tc nd built) lds flags)"
proof (induction lds arbitrary: flags)
  case (Cons ld lds)
  obtain l decl where ld: "ld = (l, decl)" by fastforce
  have "element_keys flags \<subseteq> element_keys (flag_local_decl tc nd built ld flags)"
    unfolding ld flag_local_decl_keys by (auto split: TyKind.split)
  with Cons.IH [of "flag_local_decl tc nd built ld flags"] show ?case by auto
qed simp

lemma element_keys_has:
  assumes "(l, decl) \<in> set lds" and "nd (ld_ty decl)" and "tl_ty_kind tc (ld_ty decl) = TyKind.Array e count"
    and "0 < array_len count" and "l \<in> set built"
  shows "l \<in> element_keys (fold (flag_local_decl tc nd built) lds flags)"
proof -
  obtain l1 l2 where "lds = l1 @ (l, decl) # l2" using assms(1) by (meson split_list)
  then show ?thesis
    using element_keys_mono [of "flag_local_decl tc nd built (l, decl) (fold (flag_local_decl tc nd built) l1 flags)"] assms(2-)
    by (auto simp: flag_local_decl_keys)
qed

text \<open>A local that needs dropping and is not an array has a flag.\<close>

definition has_flag :: "LocalIdx \<Rightarrow> DropFlags \<Rightarrow> bool" where
  "has_flag l flags \<longleftrightarrow> unat l < length (df_flag_for_local flags) \<and> df_flag_for_local flags ! unat l \<noteq> None"

lemma has_flag_update [simp]:
  "has_flag l flags \<Longrightarrow> has_flag l (flags\<lparr>df_flag_for_local := (df_flag_for_local flags)[j := Some x]\<rparr>)"
  "has_flag l (flags\<lparr>df_per_element := e\<rparr>) = has_flag l flags"
  by (cases "unat l = j") (simp_all add: has_flag_def)

lemma flag_local_decl_flags:
  "length (df_flag_for_local (flag_local_decl tc nd built ld flags)) = length (df_flag_for_local flags)"
  "has_flag l flags \<Longrightarrow> has_flag l (flag_local_decl tc nd built ld flags)"
  by (simp_all add: flag_local_decl_def split: prod.split TyKind.split)

lemma flag_local_decls_flags:
  "length (df_flag_for_local (fold (flag_local_decl tc nd built) lds flags)) = length (df_flag_for_local flags)"
  "has_flag l flags \<Longrightarrow> has_flag l (fold (flag_local_decl tc nd built) lds flags)"
  by (induction lds arbitrary: flags) (simp_all add: flag_local_decl_flags)

lemma has_flag_set:
  assumes "(l, decl) \<in> set lds" and "nd (ld_ty decl)" and "\<forall>e c. tl_ty_kind tc (ld_ty decl) \<noteq> TyKind.Array e c"
    and "unat l < length (df_flag_for_local flags)"
  shows "has_flag l (fold (flag_local_decl tc nd built) lds flags)"
proof -
  obtain l1 l2 where lds: "lds = l1 @ (l, decl) # l2" using assms(1) by (meson split_list)
  let ?f = "fold (flag_local_decl tc nd built) l1 flags"
  have "has_flag l (flag_local_decl tc nd built (l, decl) ?f)"
    using assms(2-4) by (auto simp: flag_local_decl_def has_flag_def flag_local_decls_flags split: TyKind.split)
  then show ?thesis unfolding lds by (simp add: flag_local_decls_flags)
qed

lemma in_iter_enumerated:
  assumes "unat l < length locals"
  shows "(l, locals ! unat l) \<in> set (iv_iter_enumerated locals)"
proof -
  have "(unat l, locals ! unat l) \<in> set (enumerate 0 locals)" using assms by (force simp: in_set_enumerate_eq)
  moreover have "l = idx_from_usize (unat l)" by (simp add: idx_from_usize_def)
  ultimately show ?thesis unfolding iv_iter_enumerated_def by force
qed

section \<open>What the flags add to a body\<close>

definition grown :: "Body \<Rightarrow> Body \<Rightarrow> bool" where
  "grown body body' \<longleftrightarrow> (\<exists>ext. b_locals body' = b_locals body @ ext) \<and>
     map bb_terminator (b_blocks body') = map bb_terminator (b_blocks body) \<and>
     map bb_is_cleanup (b_blocks body') = map bb_is_cleanup (b_blocks body)"

lemma grown_refl: "grown body body"
  by (simp add: grown_def)

lemma grown_trans: "grown a b \<Longrightarrow> grown b c \<Longrightarrow> grown a c"
  by (auto simp: grown_def)

lemma grown_length: "grown a b \<Longrightarrow> length (b_blocks b) = length (b_blocks a)"
  by (metis grown_def length_map)

lemma grown_block: "grown a b \<Longrightarrow> i < length (b_blocks a) \<Longrightarrow>
    bb_terminator (b_blocks b ! i) = bb_terminator (b_blocks a ! i) \<and> bb_is_cleanup (b_blocks b ! i) = bb_is_cleanup (b_blocks a ! i)"
  unfolding grown_def by (metis length_map nth_map)

lemma push_flag_grown:
  assumes "push_flag ty init body = Inr (flag, body')"
  shows "grown body body' \<and> flag = idx_from_usize (length (b_locals body))"
  using assms
  by (auto simp: push_flag_def iv_push_def pbind_Inr_iff vec_index_def grown_def map_update list_update_same_conv
      split: if_splits)

lemma create_local_flags_grown:
  "create_local_flags flags body = Inr (flags', body') \<Longrightarrow>
     grown body body' \<and> length flags' = length flags \<and>
     (\<forall>i < length flags. flags ! i \<noteq> None \<longrightarrow>
        (\<exists>n. length (b_locals body) \<le> n \<and> n < length (b_locals body') \<and> flags' ! i = Some (idx_from_usize n)))"
proof (induction flags body arbitrary: flags' body' rule: create_local_flags.induct)
  case (1 body)
  then show ?case by (simp add: grown_refl)
next
  case (2 flags body)
  then obtain fs where "create_local_flags flags body = Inr (fs, body')" "flags' = None # fs" by (auto simp: pbind_Inr_iff)
  with "2.IH" show ?case by (auto simp: nth_Cons split: nat.split)
next
  case (3 v flags body)
  then obtain flag body1 fs where c: "push_flag Ty_BOOL (Use (bool_operand Span_DUMMY False)) body = Inr (flag, body1)"
    "create_local_flags flags body1 = Inr (fs, body')" "flags' = Some flag # fs" by (auto simp: pbind_Inr_iff)
  have ih: "grown body1 body'" "length fs = length flags"
    "\<And>i. i < length flags \<Longrightarrow> flags ! i \<noteq> None \<Longrightarrow>
      \<exists>n. length (b_locals body1) \<le> n \<and> n < length (b_locals body') \<and> fs ! i = Some (idx_from_usize n)"
    using "3.IH" [OF c(2)] by auto
  have p: "grown body body1" "flag = idx_from_usize (length (b_locals body))"
    using push_flag_grown [OF c(1)] by auto
  have len: "length (b_locals body1) = Suc (length (b_locals body))"
    using c(1) by (auto simp: push_flag_def iv_push_def pbind_Inr_iff)
  moreover have "length (b_locals body1) \<le> length (b_locals body')" using ih(1) by (auto simp: grown_def)
  ultimately have first: "\<exists>n. length (b_locals body) \<le> n \<and> n < length (b_locals body') \<and> flags' ! 0 = Some (idx_from_usize n)"
    using p(2) c(3) by auto
  have "\<exists>n. length (b_locals body) \<le> n \<and> n < length (b_locals body') \<and> flags' ! i = Some (idx_from_usize n)"
    if i: "i < length (Some v # flags)" "(Some v # flags) ! i \<noteq> None" for i
  proof (cases i)
    case (Suc j)
    with i ih(3) [of j] obtain n where "length (b_locals body1) \<le> n" "n < length (b_locals body')" "fs ! j = Some (idx_from_usize n)"
      by auto
    with len Suc c(3) show ?thesis by (intro exI [of _ n]) simp
  qed (simp add: first)
  with ih(2) c(3) grown_trans [OF p(1) ih(1)] show ?case by simp
qed

lemma create_element_flags_grown:
  "create_element_flags cx elems (body, a) = Inr (elems', body', a') \<Longrightarrow>
     grown body body' \<and> map fst elems' = map fst elems"
proof (induction elems arbitrary: body a elems' body' a')
  case Nil
  then show ?case by (simp add: grown_refl)
next
  case (Cons e elems)
  obtain l old len where e: "e = (l, old, len)" by (metis prod_cases3)
  show ?case
  proof (cases "len = 0")
    case True
    with Cons.prems e obtain rest where "create_element_flags cx elems (body, a) = Inr (rest, body', a')" "elems' = e # rest"
      by (auto simp: pbind_Inr_iff)
    with Cons.IH show ?thesis by fastforce
  next
    case False
    with Cons.prems e obtain ty init flag body1 a2 rest where c: "push_flag ty init body = Inr (flag, body1)"
      "create_element_flags cx elems (body1, a2) = Inr (rest, body', a')" "elems' = (l, flag, len) # rest"
      by (fastforce simp: pbind_Inr_iff)
    with Cons.IH [OF c(2)] push_flag_grown [OF c(1)] e show ?thesis by (auto intro: grown_trans)
  qed
qed

lemma create_flags_grown:
  assumes "create_flags visit cx flags body a = Inr (flags', body', a')"
  shows "grown body body'"
    and "set (visit (df_per_element flags)) = set (df_per_element flags) \<Longrightarrow> element_keys flags' = element_keys flags"
    and "has_flag l flags \<Longrightarrow>
      \<exists>n. length (b_locals body) \<le> n \<and> n < length (b_locals body') \<and> get_flag flags' l = Some (idx_from_usize n)"
proof -
  from assms obtain ls body1 es where c: "create_local_flags (df_flag_for_local flags) body = Inr (ls, body1)"
    "create_element_flags cx (visit (df_per_element flags)) (body1, a) = Inr (es, body', a')"
    "flags' = \<lparr>df_flag_for_local = ls, df_per_element = es\<rparr>" by (auto simp: create_flags_def pbind_Inr_iff)
  note l = create_local_flags_grown [OF c(1)] and e = create_element_flags_grown [OF c(2)]
  show "grown body body'" using l e by (blast intro: grown_trans)
  have "set (map fst es) = set (map fst (visit (df_per_element flags)))" using e by simp
  then show "element_keys flags' = element_keys flags"
    if "set (visit (df_per_element flags)) = set (df_per_element flags)"
    using that c(3) by (simp add: element_keys_def)
  have "length (b_locals body1) \<le> length (b_locals body')" using e by (auto simp: grown_def)
  then show "\<exists>n. length (b_locals body) \<le> n \<and> n < length (b_locals body') \<and> get_flag flags' l = Some (idx_from_usize n)"
    if "has_flag l flags" using that l c(3) unfolding has_flag_def get_flag_def by fastforce
qed

section \<open>The blocks of an elaborated body\<close>

text \<open>What \<open>elaborate_block\<close> makes of the terminator of block \<open>i\<close>.\<close>

definition elaborate_terminator ::
    "TypeLookup \<Rightarrow> (Ty \<Rightarrow> bool) \<Rightarrow> DropFlags \<Rightarrow> bool list list \<Rightarrow> nat \<Rightarrow> BasicBlockData \<Rightarrow> DropState \<Rightarrow>
     panicked + TerminatorKind \<times> DropState" where
  "elaborate_terminator tc needs_drop flags analysis i bb st =
     (case te_kind (bb_terminator bb) of
        TerminatorKind.Drop place target cleanup \<Rightarrow>
          elaborate_drop tc needs_drop flags analysis (block_idx i) bb place target cleanup st
      | k \<Rightarrow> Inr (k, st))"

lemma emit_array_drop_loop_appends:
  "emit_array_drop_loop place target cleanup ic si per cty i len bs = (k, bs') \<Longrightarrow> \<exists>ext. bs' = bs @ ext"
  by (auto simp: emit_array_drop_loop_def Let_def split: option.splits)

lemma guard_drop_appends:
  "guard_drop flags an b bb place target cleanup bs = Inr (k, bs') \<Longrightarrow> \<exists>ext. bs' = bs @ ext"
  by (auto simp: guard_drop_def Let_def pbind_Inr_iff split: if_splits option.splits)

lemma elaborate_drop_appends:
  assumes "elaborate_drop tc nd flags an b bb place target cleanup (ls, bs) = Inr (k, ls', bs')"
  shows "(\<exists>ext. ls' = ls @ ext) \<and> (\<exists>ext. bs' = bs @ ext)"
proof -
  from assms obtain ty where ty: "place_ty tc place ls = Inr ty" by (auto simp: elaborate_drop_def Let_def pbind_Inr_iff)
  show ?thesis
  proof (cases "nd ty")
    case False
    with assms ty show ?thesis by (auto simp: elaborate_drop_def)
  next
    case nd: True
    show ?thesis
    proof (cases "\<exists>e c. tl_ty_kind tc ty = TyKind.Array e c")
      case True
      with assms ty nd show ?thesis
        by (auto simp: elaborate_drop_def Let_def iv_push_def split: if_splits prod.splits
            dest: emit_array_drop_loop_appends)
    next
      case False
      with assms ty nd have "(if pl_projection place = [] then
          pbind (guard_drop flags an b bb place target cleanup bs) (\<lambda>(term, bs'). Inr (term, ls, bs'))
        else Inr (TerminatorKind.Drop place target cleanup, ls, bs)) = Inr (k, ls', bs')"
        by (auto simp: elaborate_drop_def Let_def split: TyKind.splits)
      then show ?thesis by (auto simp: pbind_Inr_iff split: if_splits dest: guard_drop_appends)
    qed
  qed
qed

lemma elaborate_terminator_appends:
  "elaborate_terminator tc nd flags an i bb (ls, bs) = Inr (k, ls', bs') \<Longrightarrow>
     (\<exists>ext. ls' = ls @ ext) \<and> (\<exists>ext. bs' = bs @ ext)"
  by (cases "te_kind (bb_terminator bb)") (simp_all add: elaborate_terminator_def elaborate_drop_appends)

lemma elaborate_block_term:
  "elaborate_block tc nd flags an (i, bb) st =
     pbind (elaborate_terminator tc nd flags an i bb st) (\<lambda>(k, ls, bs).
       pbind (vec_set i (bb\<lparr>bb_terminator := (bb_terminator bb)\<lparr>te_kind := k\<rparr>\<rparr>) bs) (\<lambda>bs'. Inr (ls, bs')))"
  by (simp add: elaborate_block_def elaborate_terminator_def)

text \<open>Block \<open>i\<close> of the result (\<open>ls'\<close>, \<open>bs'\<close>) stems from the old block \<open>bb\<close>: its terminator was elaborated
  in some state in between, whose locals begin with \<open>ls\<close> and whose blocks behind the \<open>n\<close> old ones are
  still there at the end.\<close>

definition elaborated ::
    "TypeLookup \<Rightarrow> (Ty \<Rightarrow> bool) \<Rightarrow> DropFlags \<Rightarrow> bool list list \<Rightarrow> nat \<Rightarrow> LocalDecl IndexVec \<Rightarrow> DropState \<Rightarrow>
     nat \<Rightarrow> BasicBlockData \<Rightarrow> bool" where
  "elaborated tc nd flags an n ls fin i bb \<longleftrightarrow>
     (\<exists>ext bs k ls1 bs1. elaborate_terminator tc nd flags an i bb (ls @ ext, bs) = Inr (k, ls1, bs1) \<and> n \<le> length bs \<and>
        snd fin ! i = bb\<lparr>bb_terminator := (bb_terminator bb)\<lparr>te_kind := k\<rparr>\<rparr> \<and>
        (\<forall>j. n \<le> j \<and> j < length bs1 \<longrightarrow> snd fin ! j = bs1 ! j) \<and>
        length bs1 \<le> length (snd fin) \<and> length ls1 \<le> length (fst fin))"

lemma elaborated_more:
  "elaborated tc nd flags an n (ls @ ext) fin i bb \<Longrightarrow> elaborated tc nd flags an n ls fin i bb"
  unfolding elaborated_def append_assoc by blast

lemma elaborate_blocks:
  assumes "pfold (elaborate_block tc nd flags an) (enumerate i bbs) (ls, bs) = Inr fin"
    and "i + length bbs = n" and "n \<le> length bs"
  shows "(\<exists>ext. fst fin = ls @ ext) \<and> length bs \<le> length (snd fin) \<and>
    (\<forall>j < length bs. j < i \<or> n \<le> j \<longrightarrow> snd fin ! j = bs ! j) \<and>
    (\<forall>m < length bbs. elaborated tc nd flags an n ls fin (i + m) (bbs ! m))"
  using assms
proof (induction bbs arbitrary: i ls bs)
  case Nil
  then show ?case by (auto simp: fst_def)
next
  case (Cons bb bbs)
  from Cons.prems(1) obtain k ls1 bs1 bs2 where
    t: "elaborate_terminator tc nd flags an i bb (ls, bs) = Inr (k, ls1, bs1)"
    and s: "vec_set i (bb\<lparr>bb_terminator := (bb_terminator bb)\<lparr>te_kind := k\<rparr>\<rparr>) bs1 = Inr bs2"
    and r: "pfold (elaborate_block tc nd flags an) (enumerate (Suc i) bbs) (ls1, bs2) = Inr fin"
    by (auto simp: elaborate_block_term pbind_Inr_iff)
  from elaborate_terminator_appends [OF t] obtain e1 e2 where e: "ls1 = ls @ e1" "bs1 = bs @ e2" by blast
  have i: "i < length bs" using Cons.prems(2,3) by simp
  with s e have bs2: "bs2 = bs1[i := bb\<lparr>bb_terminator := (bb_terminator bb)\<lparr>te_kind := k\<rparr>\<rparr>]" by simp
  have "\<exists>ext. fst fin = ls1 @ ext" and len: "length bs2 \<le> length (snd fin)"
    and keep: "\<And>j. j < length bs2 \<Longrightarrow> j < Suc i \<or> n \<le> j \<Longrightarrow> snd fin ! j = bs2 ! j"
    and rest: "\<And>m. m < length bbs \<Longrightarrow> elaborated tc nd flags an n ls1 fin (Suc i + m) (bbs ! m)"
    using Cons.IH [OF r] Cons.prems(2,3) bs2 e by auto
  then obtain ext where ext: "fst fin = ls1 @ ext" by blast
  have "elaborate_terminator tc nd flags an i bb (ls @ [], bs) = Inr (k, ls1, bs1)" using t by simp
  moreover have "snd fin ! i = bb\<lparr>bb_terminator := (bb_terminator bb)\<lparr>te_kind := k\<rparr>\<rparr>"
    using keep [of i] i e bs2 by simp
  moreover have "\<forall>j. n \<le> j \<and> j < length bs1 \<longrightarrow> snd fin ! j = bs1 ! j"
    using keep bs2 Cons.prems(2) by simp
  moreover have "length bs1 \<le> length (snd fin)" "length ls1 \<le> length (fst fin)" using len bs2 ext by simp_all
  ultimately have first: "elaborated tc nd flags an n ls fin i bb"
    unfolding elaborated_def using Cons.prems(3) by blast
  have "elaborated tc nd flags an n ls fin (i + m) ((bb # bbs) ! m)" if "m < length (bb # bbs)" for m
  proof (cases m)
    case (Suc m')
    with that rest [of m'] e(1) elaborated_more show ?thesis by simp
  qed (simp add: first)
  moreover have "snd fin ! j = bs ! j" if "j < length bs" "j < i \<or> n \<le> j" for j
    using keep [of j] that e(2) bs2 Cons.prems(2) by (auto simp: nth_append)
  ultimately show ?case using ext e len bs2 by auto
qed

text \<open>The pass as a whole.\<close>

lemma elaborate_drops_blocks:
  assumes "elaborate_drops visit tc nd cx body a = Inr (body', a')"
  obtains analysis flags0 flags body1 where "compute_initialized body = Inr analysis"
    and "DropFlags_new tc nd body = Inr flags0" and "create_flags visit cx flags0 body a = Inr (flags, body1, a')"
    and "\<And>i. i < length (b_blocks body) \<Longrightarrow>
      elaborated tc nd flags analysis (length (b_blocks body)) (b_locals body1) (b_locals body', b_blocks body') i
        (insert_flags flags (b_blocks body1 ! i))"
    and "length (b_blocks body) \<le> length (b_blocks body')" and "\<exists>ext. b_locals body' = b_locals body1 @ ext"
proof -
  from assms obtain an flags0 flags body1 locals blocks where r: "compute_initialized body = Inr an"
    "DropFlags_new tc nd body = Inr flags0" "create_flags visit cx flags0 body a = Inr (flags, body1, a')"
    and f: "pfold (elaborate_block tc nd flags an) (enumerate 0 (map (insert_flags flags) (b_blocks body1)))
      (b_locals body1, replicate (length (b_blocks body1)) placeholder) = Inr (locals, blocks)"
    and b: "body' = body1\<lparr>b_locals := locals, b_blocks := blocks\<rparr>"
    by (auto simp: elaborate_drops_def pbind_Inr_iff Let_def)
  have n: "length (b_blocks body1) = length (b_blocks body)"
    by (rule grown_length) (rule create_flags_grown(1) [OF r(3)])
  from elaborate_blocks [OF f refl] n b show ?thesis by (intro that [OF r]) auto
qed

end
