(* ===== verification/Opt_Drop_Init.thy ===== *)
theory Opt_Drop_Init
  imports Opt_Drop
begin

text \<open>
  The initialization analysis of drop elaboration is exact for what it tracks: a local is
  definitely initialized at the start of a block unless a path brings a local that is not an
  argument, or one whose storage a block ends with dead, there without an assignment or a
  \<open>StorageLive\<close> in between.
\<close>

section \<open>The specification\<close>

fun init_after :: "nat \<Rightarrow> StatementKind \<Rightarrow> bool \<Rightarrow> bool" where
  "init_after l (Assign p _) b = (if pl_projection p = [] \<and> unat (pl_local p) = l then True else b)"
| "init_after l (StorageLive x) b = (if unat x = l then True else b)"
| "init_after l (StorageDead x) b = (if unat x = l then False else b)"
| "init_after l Nop b = b"

definition block_init :: "BasicBlockData \<Rightarrow> nat \<Rightarrow> bool \<Rightarrow> bool" where
  "block_init bb l b = fold (\<lambda>s. init_after l (st_kind s)) (bb_statements bb) b"

lemma block_init_mono: "block_init bb l False \<Longrightarrow> block_init bb l True"
proof -
  have step: "init_after l k a \<longrightarrow> init_after l k b" if "a \<longrightarrow> b" for k a b using that by (cases k) auto
  have "fold (\<lambda>s. init_after l (st_kind s)) ss a \<longrightarrow> fold (\<lambda>s. init_after l (st_kind s)) ss b"
    if "a \<longrightarrow> b" for ss a b
    using that
  proof (induction ss arbitrary: a b)
    case (Cons s ss)
    from Cons.IH [OF step [OF Cons.prems]] show ?case by simp
  qed simp
  then show "block_init bb l False \<Longrightarrow> block_init bb l True" unfolding block_init_def by blast
qed

inductive maybe_uninit :: "Body \<Rightarrow> nat \<Rightarrow> nat \<Rightarrow> bool" for body where
  entry: "b_arg_count body < l \<Longrightarrow> l < length (b_locals body) \<Longrightarrow> maybe_uninit body 0 l"
| passes: "maybe_uninit body b l \<Longrightarrow> b < length (b_blocks body) \<Longrightarrow> s \<in> set (block_successors (b_blocks body ! b)) \<Longrightarrow>
    unat s \<noteq> 0 \<Longrightarrow> \<not> block_init (b_blocks body ! b) l False \<Longrightarrow> maybe_uninit body (unat s) l"
| dies: "b < length (b_blocks body) \<Longrightarrow> l < length (b_locals body) \<Longrightarrow> s \<in> set (block_successors (b_blocks body ! b)) \<Longrightarrow>
    unat s \<noteq> 0 \<Longrightarrow> \<not> block_init (b_blocks body ! b) l True \<Longrightarrow> maybe_uninit body (unat s) l"

text \<open>The locals statements name are declared.\<close>

fun stmt_declared :: "nat \<Rightarrow> StatementKind \<Rightarrow> bool" where
  "stmt_declared n (Assign p _) \<longleftrightarrow> unat (pl_local p) < n"
| "stmt_declared n (StorageLive l) \<longleftrightarrow> unat l < n"
| "stmt_declared n (StorageDead l) \<longleftrightarrow> unat l < n"
| "stmt_declared n Nop \<longleftrightarrow> True"

definition drop_body_ok :: "Body \<Rightarrow> bool" where
  "drop_body_ok body \<longleftrightarrow> b_blocks body \<noteq> [] \<and> targets_ok (b_blocks body) \<and>
     (\<forall>bb \<in> set (b_blocks body). \<forall>s \<in> set (bb_statements bb). stmt_declared (length (b_locals body)) (st_kind s))"

section \<open>One block\<close>

lemma init_stmts:
  assumes "\<forall>s \<in> set ss. stmt_declared (length cur) (st_kind s)"
  shows "\<exists>cur'. pfold init_stmt ss cur = Inr cur' \<and> length cur' = length cur \<and>
    (\<forall>l < length cur. cur' ! l = fold (\<lambda>s. init_after l (st_kind s)) ss (cur ! l))"
  using assms
proof (induction ss arbitrary: cur)
  case (Cons s ss)
  have "\<exists>c. init_stmt s cur = Inr c \<and> length c = length cur \<and>
      (\<forall>l < length cur. c ! l = init_after l (st_kind s) (cur ! l))"
    using Cons.prems by (cases "st_kind s") (auto simp: init_stmt_def nth_list_update)
  then obtain c where c: "init_stmt s cur = Inr c" "length c = length cur"
    "\<forall>l < length cur. c ! l = init_after l (st_kind s) (cur ! l)" by blast
  with Cons.IH [of c] Cons.prems show ?case by simp
qed simp

definition shaped :: "Body \<Rightarrow> InitState \<Rightarrow> bool" where
  "shaped body st \<longleftrightarrow>
     length (in_entry st) = length (b_blocks body) \<and> (\<forall>r \<in> set (in_entry st). length r = length (b_locals body)) \<and>
     length (in_queued st) = length (b_blocks body) \<and> distinct (in_queue st) \<and>
     (\<forall>i. i \<in> set (in_queue st) \<longleftrightarrow> i < length (b_blocks body) \<and> in_queued st ! i)"

text \<open>\<open>met D cur st st'\<close>: what meeting \<open>cur\<close> into the blocks \<open>D\<close> makes of \<open>st\<close>.\<close>

definition met :: "Body \<Rightarrow> nat set \<Rightarrow> bool list \<Rightarrow> InitState \<Rightarrow> InitState \<Rightarrow> bool" where
  "met body D cur st st' \<longleftrightarrow> shaped body st' \<and> set (in_queue st) \<subseteq> set (in_queue st') \<and>
     (\<forall>b < length (b_blocks body). in_entry st' ! b \<noteq> in_entry st ! b \<longrightarrow> b \<in> set (in_queue st')) \<and>
     (\<forall>b < length (b_blocks body). \<forall>l < length (b_locals body).
        in_entry st' ! b ! l \<longleftrightarrow> in_entry st ! b ! l \<and> (b \<in> D \<and> b \<noteq> 0 \<longrightarrow> cur ! l))"

lemma met_step:
  assumes sh: "shaped body st" and s: "unat s < length (b_blocks body)" and cur: "length cur = length (b_locals body)"
  shows "\<exists>st'. init_meet cur s st = Inr st' \<and> met body {unat s} cur st st'"
proof (cases "unat s = 0")
  case True
  with sh show ?thesis by (auto simp: init_meet_def met_def)
next
  case False
  let ?old = "in_entry st ! unat s"
  let ?new = "clear_slots ?old cur"
  have len: "length ?old = length (b_locals body)" "unat s < length (in_entry st)" "unat s < length (in_queued st)"
    using sh s by (auto simp: shaped_def)
  note nth = nth_clear_slots [of ?old cur, unfolded len(1) cur, OF refl]
  let ?st = "st\<lparr>in_entry := (in_entry st)[unat s := ?new]\<rparr>"
  have rows: "\<forall>r \<in> set (in_entry ?st). length r = length (b_locals body)"
    using sh len(1) set_update_subset_insert [of "in_entry st" "unat s" ?new] by (auto simp: shaped_def)
  have entries: "in_entry ?st ! b ! l \<longleftrightarrow> in_entry st ! b ! l \<and> (b = unat s \<longrightarrow> cur ! l)"
    if "b < length (b_blocks body)" "l < length (b_locals body)" for b l
    using that nth len sh by (auto simp: nth_list_update shaped_def)
  show ?thesis
  proof (cases "?new = ?old")
    case True
    then have "init_meet cur s st = Inr st" using False len by (simp add: init_meet_def Let_def)
    moreover have "?st = st" using True by simp
    ultimately show ?thesis using sh entries False by (intro exI [of _ st]) (auto simp: met_def)
  next
    case changed: False
    show ?thesis
    proof (cases "in_queued st ! unat s")
      case True
      then have "init_meet cur s st = Inr ?st" using False changed len by (simp add: init_meet_def Let_def)
      moreover have "met body {unat s} cur st ?st"
        using sh rows entries False True s unfolding met_def shaped_def by (auto simp: nth_list_update split: if_splits)
      ultimately show ?thesis by blast
    next
      case queued: False
      let ?st' = "?st\<lparr>in_queued := (in_queued st)[unat s := True], in_queue := in_queue st @ [unat s]\<rparr>"
      have "init_meet cur s st = Inr ?st'" using False changed queued len by (simp add: init_meet_def Let_def)
      moreover have "met body {unat s} cur st ?st'"
        using sh rows entries False queued s unfolding met_def shaped_def by (auto simp: nth_list_update split: if_splits)
      ultimately show ?thesis by blast
    qed
  qed
qed

lemma met_steps:
  assumes "shaped body st" and "\<forall>s \<in> set ss. unat s < length (b_blocks body)" and "length cur = length (b_locals body)"
  shows "\<exists>st'. pfold (init_meet cur) ss st = Inr st' \<and> met body (unat ` set ss) cur st st'"
  using assms(1,2)
proof (induction ss arbitrary: st)
  case Nil
  then show ?case by (simp add: met_def)
next
  case (Cons s ss)
  from Cons.prems(2) have "unat s < length (b_blocks body)" by simp
  from met_step [OF Cons.prems(1) this assms(3)] obtain st1 where
    st1: "init_meet cur s st = Inr st1" "met body {unat s} cur st st1" by blast
  then have "shaped body st1" by (simp add: met_def)
  with Cons.IH Cons.prems(2) obtain st' where
    st': "pfold (init_meet cur) ss st1 = Inr st'" "met body (unat ` set ss) cur st1 st'" by force
  have "met body (unat ` set (s # ss)) cur st st'"
    unfolding met_def
  proof (intro conjI allI impI)
    show "shaped body st'" "set (in_queue st) \<subseteq> set (in_queue st')" using st1(2) st'(2) by (auto simp: met_def)
  next
    fix b assume "b < length (b_blocks body)" "in_entry st' ! b \<noteq> in_entry st ! b"
    with st1(2) st'(2) show "b \<in> set (in_queue st')" unfolding met_def by (cases "in_entry st1 ! b = in_entry st ! b") auto
  next
    fix b l assume "b < length (b_blocks body)" "l < length (b_locals body)"
    with st1(2) st'(2) show "in_entry st' ! b ! l \<longleftrightarrow>
      in_entry st ! b ! l \<and> (b \<in> unat ` set (s # ss) \<and> b \<noteq> 0 \<longrightarrow> cur ! l)" by (auto simp: met_def)
  qed
  with st1(1) st'(1) show ?case by auto
qed

section \<open>The loop\<close>

definition init_inv :: "Body \<Rightarrow> InitState \<Rightarrow> bool" where
  "init_inv body st \<longleftrightarrow> shaped body st \<and>
     (\<forall>l < length (b_locals body). in_entry st ! 0 ! l \<longleftrightarrow> l \<le> b_arg_count body) \<and>
     (\<forall>b < length (b_blocks body). \<forall>l < length (b_locals body). \<not> in_entry st ! b ! l \<longrightarrow> maybe_uninit body b l) \<and>
     (\<forall>b < length (b_blocks body). b \<notin> set (in_queue st) \<longrightarrow>
        (\<forall>s \<in> set (block_successors (b_blocks body ! b)). unat s \<noteq> 0 \<longrightarrow>
           (\<forall>l < length (b_locals body). \<not> block_init (b_blocks body ! b) l (in_entry st ! b ! l) \<longrightarrow>
              \<not> in_entry st ! unat s ! l)))"

lemma init_visit_ok:
  assumes ok: "drop_body_ok body" and inv: "init_inv body st" and q: "in_queue st = bb # rest"
  shows "\<exists>st'. init_visit body bb (st\<lparr>in_queue := rest\<rparr>) = Inr st' \<and> init_inv body st'"
proof -
  let ?n = "length (b_blocks body)" and ?m = "length (b_locals body)"
  let ?block = "b_blocks body ! bb"
  have sh: "shaped body st" using inv by (simp add: init_inv_def)
  have bb: "bb < ?n" "bb \<notin> set rest" using sh q by (auto simp: shaped_def)
  let ?row = "in_entry st ! bb"
  have row: "length ?row = ?m" using sh bb(1) by (auto simp: shaped_def)
  have mem: "?block \<in> set (b_blocks body)" using bb(1) by simp
  then have "\<forall>s \<in> set (bb_statements ?block). stmt_declared (length ?row) (st_kind s)"
    using ok row by (auto simp: drop_body_ok_def)
  from init_stmts [OF this] obtain cur where cur: "pfold init_stmt (bb_statements ?block) ?row = Inr cur"
    "length cur = ?m" "\<forall>l < ?m. cur ! l = block_init ?block l (?row ! l)"
    unfolding row block_init_def by blast
  let ?st = "st\<lparr>in_queue := rest, in_queued := (in_queued st)[bb := False]\<rparr>"
  have sh1: "shaped body ?st" using sh q bb by (auto simp: shaped_def nth_list_update)
  have succ: "\<forall>s \<in> set (block_successors ?block). unat s < ?n" using ok mem by (auto simp: drop_body_ok_def targets_ok_def)
  from met_steps [OF sh1 succ cur(2)] obtain st' where
    st': "pfold (init_meet cur) (block_successors ?block) ?st = Inr st'"
    "met body (unat ` set (block_successors ?block)) cur ?st st'" by blast
  have visit: "init_visit body bb (st\<lparr>in_queue := rest\<rparr>) = Inr st'"
    using sh bb cur(1) st'(1) by (simp add: init_visit_def shaped_def)
  have entries: "in_entry st' ! b ! l \<longleftrightarrow>
      in_entry st ! b ! l \<and> (b \<in> unat ` set (block_successors ?block) \<and> b \<noteq> 0 \<longrightarrow> cur ! l)"
    if "b < ?n" "l < ?m" for b l using st'(2) that by (simp add: met_def)
  have queue: "set rest \<subseteq> set (in_queue st')" using st'(2) by (simp add: met_def)
  have changed: "b \<in> set (in_queue st')" if "b < ?n" "in_entry st' ! b \<noteq> in_entry st ! b" for b
    using st'(2) that by (simp add: met_def)
  have "init_inv body st'"
    unfolding init_inv_def
  proof (intro conjI allI impI ballI)
    show "shaped body st'" using st'(2) by (simp add: met_def)
  next
    fix l assume l: "l < ?m"
    have "0 < ?n" using bb(1) by linarith
    from entries [OF this l] have "in_entry st' ! 0 ! l \<longleftrightarrow> in_entry st ! 0 ! l" by simp
    with inv l show "in_entry st' ! 0 ! l \<longleftrightarrow> l \<le> b_arg_count body" by (simp add: init_inv_def)
  next
    fix b l assume b: "b < ?n" "l < ?m" and no: "\<not> in_entry st' ! b ! l"
    show "maybe_uninit body b l"
    proof (cases "in_entry st ! b ! l")
      case False
      with inv b show ?thesis by (auto simp: init_inv_def)
    next
      case True
      with entries [OF b] no obtain s where s: "s \<in> set (block_successors ?block)" "b = unat s" "b \<noteq> 0" "\<not> cur ! l"
        by auto
      with cur(3) b have out: "\<not> block_init ?block l (?row ! l)" by simp
      show ?thesis
      proof (cases "?row ! l")
        case True
        with out s bb(1) b show ?thesis by (auto intro: dies)
      next
        case False
        with inv bb(1) b have "maybe_uninit body bb l" by (auto simp: init_inv_def)
        with False out s bb(1) show ?thesis by (auto intro: passes)
      qed
    qed
  next
    fix b s l assume b: "b < ?n" "b \<notin> set (in_queue st')" and s: "s \<in> set (block_successors (b_blocks body ! b))"
      "unat s \<noteq> 0" and l: "l < ?m" and out: "\<not> block_init (b_blocks body ! b) l (in_entry st' ! b ! l)"
    have same: "in_entry st' ! b = in_entry st ! b" using changed b by blast
    have sn: "unat s < ?n" using ok b s(1) by (auto simp: drop_body_ok_def targets_ok_def)
    show "\<not> in_entry st' ! unat s ! l"
    proof (cases "b = bb")
      case True
      with out same cur(3) l have "\<not> cur ! l" by simp
      with entries [OF sn l] s True show ?thesis by auto
    next
      case False
      then have "b \<notin> set (in_queue st)" using b(2) queue q by auto
      with inv b(1) s l out same have "\<not> in_entry st ! unat s ! l" by (auto simp: init_inv_def)
      with entries [OF sn l] show ?thesis by simp
    qed
  qed
  with visit show ?thesis by blast
qed

lemma init_loop_ok:
  "drop_body_ok body \<Longrightarrow> init_inv body st \<Longrightarrow> \<exists>st'. init_loop body st = Inr st' \<and> init_inv body st' \<and> in_queue st' = []"
proof (induction body st rule: init_loop.induct)
  case (1 body st)
  show ?case
  proof (cases "in_queue st")
    case Nil
    with "1.prems"(2) show ?thesis by (auto simp: init_loop.simps [of body st])
  next
    case (Cons bb rest)
    from init_visit_ok [OF "1.prems" Cons] obtain st1 where
      st1: "init_visit body bb (st\<lparr>in_queue := rest\<rparr>) = Inr st1" "init_inv body st1" by blast
    have "init_loop body st = init_loop body st1" using Cons st1(1) by (subst init_loop.simps) simp
    with "1.IH" [OF Cons st1(1) "1.prems"(1) st1(2)] show ?thesis by simp
  qed
qed

lemma init_start_ok:
  assumes "drop_body_ok body"
  shows "\<exists>st. init_start body = Inr st \<and> init_inv body st"
proof -
  let ?n = "length (b_blocks body)" and ?m = "length (b_locals body)"
  let ?row = "map (\<lambda>i. i \<le> b_arg_count body) [0..<?m]"
  let ?st = "\<lparr>in_entry = (replicate ?n (replicate ?m True))[0 := ?row], in_queue = [0..<?n], in_queued = replicate ?n True\<rparr>"
  have n: "0 < ?n" using assms by (simp add: drop_body_ok_def)
  then have "init_start body = Inr ?st" by (simp add: init_start_def Let_def)
  moreover have "init_inv body ?st"
    unfolding init_inv_def
  proof (intro conjI allI impI ballI)
    show "shaped body ?st" using n set_update_subset_insert [of "replicate ?n (replicate ?m True)" 0 ?row]
      by (auto simp: shaped_def)
  next
    fix b l assume "b < ?n" "l < ?m" "\<not> in_entry ?st ! b ! l"
    then show "maybe_uninit body b l" using n by (auto simp: nth_list_update intro: entry split: if_splits)
  qed (use n in auto)
  ultimately show ?thesis by blast
qed

lemma initialization_runs:
  assumes "drop_body_ok body"
  shows "\<exists>entry. compute_initialized body = Inr entry \<and>
    (\<forall>b l. unat b < length (b_blocks body) \<and> unat l < length (b_locals body) \<longrightarrow>
       is_definitely_initialized entry b l = Inr (\<not> maybe_uninit body (unat b) (unat l)))"
proof -
  from init_start_ok [OF assms] obtain st0 where st0: "init_start body = Inr st0" "init_inv body st0" by blast
  from init_loop_ok [OF assms st0(2)] obtain st where
    st: "init_loop body st0 = Inr st" "init_inv body st" "in_queue st = []" by blast
  have sh: "shaped body st" using st(2) by (simp add: init_inv_def)
  have lower: "l < length (b_locals body) \<and> b < length (b_blocks body) \<and> \<not> in_entry st ! b ! l" if "maybe_uninit body b l" for b l
    using that
  proof induction
    case (entry l)
    with st(2) assms show ?case by (auto simp: init_inv_def drop_body_ok_def)
  next
    case (passes b l s)
    then have "unat s < length (b_blocks body)" using assms by (auto simp: drop_body_ok_def targets_ok_def)
    with passes st(2,3) show ?case by (auto simp: init_inv_def)
  next
    case (dies b l s)
    then have "unat s < length (b_blocks body)" using assms by (auto simp: drop_body_ok_def targets_ok_def)
    moreover have "\<not> block_init (b_blocks body ! b) l (in_entry st ! b ! l)"
      using dies block_init_mono [of "b_blocks body ! b" l] by (cases "in_entry st ! b ! l") auto
    ultimately show ?case using dies st(2,3) by (auto simp: init_inv_def)
  qed
  have upper: "maybe_uninit body b l"
    if "b < length (b_blocks body)" "l < length (b_locals body)" "\<not> in_entry st ! b ! l" for b l
    using st(2) that by (simp add: init_inv_def)
  have rows: "length (in_entry st ! b) = length (b_locals body)" if "b < length (b_blocks body)" for b
    using sh that by (simp add: shaped_def)
  have "is_definitely_initialized (in_entry st) b l = Inr (\<not> maybe_uninit body (unat b) (unat l))"
    if b: "unat b < length (b_blocks body)" and l: "unat l < length (b_locals body)" for b l
  proof -
    have "length (in_entry st) = length (b_blocks body)" using sh by (simp add: shaped_def)
    with b l rows [OF b] have "is_definitely_initialized (in_entry st) b l = Inr (in_entry st ! unat b ! unat l)"
      by (simp add: is_definitely_initialized_def)
    with lower [of "unat b" "unat l"] upper [OF b l] show ?thesis by auto
  qed
  moreover have "compute_initialized body = Inr (in_entry st)" using st0(1) st(1) by (simp add: compute_initialized_def)
  ultimately show ?thesis by blast
qed

lemma initialization_exact_here:
  "drop_body_ok body \<Longrightarrow> compute_initialized body = Inr entry \<Longrightarrow> unat b < length (b_blocks body) \<Longrightarrow>
     unat l < length (b_locals body) \<Longrightarrow> is_definitely_initialized entry b l = Inr (\<not> maybe_uninit body (unat b) (unat l))"
  using initialization_runs [of body] by auto


text \<open>\<open>if _1 { _2 = () }; drop _2\<close>: on the other path \<open>_2\<close> is not initialized.\<close>

definition half_assigned :: Body where
  "half_assigned = plain_body 3
     [plain_block [] (branch 1 1 2),
      plain_block [store_unit (Place_new 2)] (Goto 3),
      plain_block [] (Goto 3),
      plain_block [] (TerminatorKind.Drop (Place_new 2) 4 None),
      plain_block [] TerminatorKind.Return]"

lemma half_assigned_ok: "drop_body_ok half_assigned"
  by (simp add: drop_body_ok_def targets_ok_def half_assigned_def sample_statements block_successors_def branch_def
      if_switch_def plain_block_def plain_terminator_def)


end
