(* ===== verification/Opt_Drop_Runs.thy ===== *)
theory Opt_Drop_Runs
  imports Opt_Drop
begin

text \<open>
  What elaborated drops do when they run.  \<open>drop_run\<close> follows the blocks from one to another and
  records the places that are dropped, on a store that knows numbers and arrays of flags; every
  other value is \<open>Opaque\<close>.
\<close>

section \<open>A machine for drops\<close>

datatype dval = Num u128 | Flags "bool list" | Opaque

type_synonym dstore = "LocalIdx \<Rightarrow> dval"

definition num_of_bool :: "bool \<Rightarrow> dval" where
  "num_of_bool b = Num (if b then 1 else 0)"

definition const_dval :: "MirConstKind \<Rightarrow> dval" where
  "const_dval k = (case k of MirConstKind.Uint n \<Rightarrow> Num n | MirConstKind.Bool b \<Rightarrow> num_of_bool b | _ \<Rightarrow> Opaque)"

definition place_dval :: "dstore \<Rightarrow> Place \<Rightarrow> dval" where
  "place_dval st p =
     (case pl_projection p of
        [] \<Rightarrow> st (pl_local p)
      | [Index i] \<Rightarrow>
          (case (st (pl_local p), st i) of
             (Flags bs, Num k) \<Rightarrow> (if unat k < length bs then num_of_bool (bs ! unat k) else Opaque)
           | _ \<Rightarrow> Opaque)
      | _ \<Rightarrow> Opaque)"

fun operand_dval :: "dstore \<Rightarrow> Operand \<Rightarrow> dval" where
  "operand_dval st (Operand.Copy p) = place_dval st p"
| "operand_dval st (Operand.Move p) = place_dval st p"
| "operand_dval st (Operand.Constant c) = const_dval (mc_kind c)"

fun rvalue_dval :: "dstore \<Rightarrow> Rvalue \<Rightarrow> dval" where
  "rvalue_dval st (Use op) = operand_dval st op"
| "rvalue_dval st (BinaryOp BinOp.Sub l r) =
     (case (operand_dval st l, operand_dval st r) of (Num a, Num b) \<Rightarrow> Num (a - b) | _ \<Rightarrow> Opaque)"
| "rvalue_dval st (Rvalue.Aggregate (AggregateKind.Array _) ops) =
     Flags (map (\<lambda>op. operand_dval st op = Num 1) ops)"
| "rvalue_dval st _ = Opaque"

definition drop_assign :: "Place \<Rightarrow> dval \<Rightarrow> dstore \<Rightarrow> dstore" where
  "drop_assign p v st =
     (case pl_projection p of
        [] \<Rightarrow> st(pl_local p := v)
      | [Index i] \<Rightarrow>
          (case (st (pl_local p), st i) of
             (Flags bs, Num k) \<Rightarrow> st(pl_local p := Flags (bs[unat k := (v = Num 1)]))
           | _ \<Rightarrow> st)
      | _ \<Rightarrow> st)"

fun drop_stmt :: "StatementKind \<Rightarrow> dstore \<Rightarrow> dstore" where
  "drop_stmt (Assign p rv) st = drop_assign p (rvalue_dval st rv) st"
| "drop_stmt _ st = st"

text \<open>What is dropped: the place, with the values of its index locals.\<close>

type_synonym drop_event = "Place \<times> dval list"

definition index_dvals :: "dstore \<Rightarrow> ProjectionElem list \<Rightarrow> dval list" where
  "index_dvals st proj = concat (map (\<lambda>e. case e of Index i \<Rightarrow> [st i] | _ \<Rightarrow> []) proj)"

definition drop_event :: "dstore \<Rightarrow> Place \<Rightarrow> drop_event" where
  "drop_event st p = (p, index_dvals st (pl_projection p))"

text \<open>Where a terminator goes, and what it drops; \<open>None\<close> where the machine stops.\<close>

definition drop_target :: "dstore \<Rightarrow> TerminatorKind \<Rightarrow> (BasicBlockIdx \<times> drop_event list) option" where
  "drop_target st k =
     (case k of
        Goto t \<Rightarrow> Some (t, [])
      | SwitchInt d _ targets \<Rightarrow>
          (case operand_dval st d of
             Num v \<Rightarrow> Some (case List.find (\<lambda>(x, _). x = v) (sw_branches targets) of
                        Some (_, t) \<Rightarrow> t | None \<Rightarrow> sw_otherwise targets, [])
           | _ \<Rightarrow> None)
      | TerminatorKind.Drop p t _ \<Rightarrow> Some (t, [drop_event st p])
      | _ \<Rightarrow> None)"

text \<open>From a block until \<open>stop\<close> is reached: the drops, and the store there (\<open>None\<close>: not reached with
  this fuel).\<close>

fun drop_run :: "BasicBlockData list \<Rightarrow> BasicBlockIdx \<Rightarrow> nat \<Rightarrow> BasicBlockIdx \<Rightarrow> dstore \<Rightarrow>
    drop_event list \<times> dstore option" where
  "drop_run bs stop 0 bb st = ([], if bb = stop then Some st else None)"
| "drop_run bs stop (Suc n) bb st =
     (if bb = stop then ([], Some st)
      else
        (let block = bs ! unat bb; st' = fold (\<lambda>s. drop_stmt (st_kind s)) (bb_statements block) st in
         case drop_target st' (te_kind (bb_terminator block)) of
           None \<Rightarrow> ([], None)
         | Some (t, events) \<Rightarrow> map_prod ((@) events) id (drop_run bs stop n t st')))"

section \<open>The loop over an array\<close>

lemma block_idx_unat: "n < 2 ^ 32 \<Longrightarrow> unat (block_idx n) = n"
  by (simp add: block_idx_def unat_of_nat)

lemma index_dvals_append [simp]: "index_dvals st (a @ b) = index_dvals st a @ index_dvals st b"
  by (simp add: index_dvals_def)

lemma index_dvals_Index [simp]: "index_dvals st [Index i] = [st i]"
  by (simp add: index_dvals_def)

lemma index_dvals_upd: "Index i \<notin> set proj \<Longrightarrow> index_dvals (st(i := v)) proj = index_dvals st proj"
  unfolding index_dvals_def by (rule arg_cong [of _ _ concat], rule map_cong) (auto split: ProjectionElem.split)

lemma new_block_simps [simp]:
  "fold (\<lambda>s. drop_stmt (st_kind s)) (bb_statements (new_block si c ks k)) st = fold drop_stmt ks st"
  "te_kind (bb_terminator (new_block si c ks k)) = k"
proof -
  show "fold (\<lambda>s. drop_stmt (st_kind s)) (bb_statements (new_block si c ks k)) st = fold drop_stmt ks st"
    unfolding new_block_def by (simp add: fold_map comp_def)
qed (simp add: new_block_def)

text \<open>Four consecutive blocks that are the loop of the fast path.\<close>

definition fast_loop ::
    "BasicBlockData list \<Rightarrow> nat \<Rightarrow> Place \<Rightarrow> BasicBlockIdx \<Rightarrow> BasicBlockIdx option \<Rightarrow> bool \<Rightarrow> SourceInfo \<Rightarrow> Ty \<Rightarrow> LocalIdx \<Rightarrow> u64 \<Rightarrow> bool" where
  "fast_loop bs n place target cleanup ic si cty i len \<longleftrightarrow>
     n + 3 < 2 ^ 32 \<and>
     bs ! n = new_block si ic [Assign (Place_new i) (Use (count_operand si cty (ucast len)))] (Goto (block_idx (n + 1))) \<and>
     bs ! (n + 1) = new_block si ic [] (SwitchInt (Operand.Copy (Place_new i)) cty
        (SwitchTargets_new [(0, block_idx (n + 3))] (block_idx (n + 2)))) \<and>
     bs ! (n + 2) = new_block si ic [Assign (Place_new i) (BinaryOp BinOp.Sub (Operand.Copy (Place_new i)) (count_operand si cty 1))]
        (TerminatorKind.Drop (element_of place i) (block_idx (n + 1)) cleanup) \<and>
     bs ! (n + 3) = new_block si ic [] (Goto target)"

lemmas drop_steps = drop_target_def drop_assign_def place_dval_def const_dval_def count_operand_def Place_new_def
  SwitchTargets_new_def

definition element_drops :: "dstore \<Rightarrow> Place \<Rightarrow> LocalIdx \<Rightarrow> nat \<Rightarrow> drop_event list" where
  "element_drops st place i n =
     map (\<lambda>k. (element_of place i, index_dvals st (pl_projection place) @ [Num (of_nat k)])) (rev [0..<n])"

lemma fast_loop_cond:
  assumes lp: "fast_loop bs n place target cleanup ic si cty i len" and i: "Index i \<notin> set (pl_projection place)"
    and out: "unat target < n" and st: "st i = Num (of_nat k)" and k: "k < 2 ^ 64"
  shows "\<exists>m. drop_run bs target m (block_idx (n + 1)) st = (element_drops st place i k, Some (st(i := Num 0)))"
  using st k
proof (induction k arbitrary: st)
  case 0
  have n: "n + 3 < 2 ^ 32" using lp by (simp add: fast_loop_def)
  have ne: "block_idx (n + 1) \<noteq> target" "block_idx (n + 3) \<noteq> target"
    using block_idx_unat [of "n + 1"] block_idx_unat [of "n + 3"] n out by auto
  have "st(i := Num 0) = st" using 0(1) by auto
  then have "drop_run bs target (Suc (Suc 0)) (block_idx (n + 1)) st = ([], Some (st(i := Num 0)))"
    using lp 0(1) ne n by (simp add: block_idx_unat Let_def fast_loop_def drop_steps)
  moreover have "element_drops st place i 0 = []" by (simp add: element_drops_def)
  ultimately show ?case by metis
next
  case (Suc k)
  have n: "n + 3 < 2 ^ 32" using lp by (simp add: fast_loop_def)
  have ne: "block_idx (n + 1) \<noteq> target" "block_idx (n + 2) \<noteq> target"
    using block_idx_unat [of "n + 1"] block_idx_unat [of "n + 2"] n out by auto
  let ?st = "st(i := Num (of_nat k))"
  have "unat (of_nat (Suc k) :: u128) = Suc k" using Suc.prems(2) by (simp add: unat_of_nat del: of_nat_Suc)
  then have nz: "(of_nat (Suc k) :: u128) \<noteq> 0" by (metis unat_0 nat.distinct(1))
  have sub: "of_nat (Suc k) - 1 = (of_nat k :: u128)" by simp
  have sti: "?st i = Num (of_nat k)" and k: "k < 2 ^ 64" using Suc.prems(2) by simp_all
  from Suc.IH [of ?st, OF sti k] obtain m where
    m: "drop_run bs target m (block_idx (n + 1)) ?st = (element_drops ?st place i k, Some (?st(i := Num 0)))" by blast
  have ev: "drop_event ?st (element_of place i) = (element_of place i, index_dvals st (pl_projection place) @ [Num (of_nat k)])"
    using i by (simp add: drop_event_def element_of_def index_dvals_upd)
  have el: "element_drops ?st place i k = element_drops st place i k"
    using i by (simp add: element_drops_def index_dvals_upd)
  have "drop_run bs target (Suc (Suc m)) (block_idx (n + 1)) st
      = (drop_event ?st (element_of place i) # element_drops st place i k, Some (st(i := Num 0)))"
    using lp Suc.prems(1) ne n nz sub m el by (simp add: block_idx_unat Let_def fast_loop_def drop_steps del: of_nat_Suc)
  moreover have "element_drops st place i (Suc k) = drop_event ?st (element_of place i) # element_drops st place i k"
    unfolding ev by (simp add: element_drops_def)
  ultimately show ?case by metis
qed

lemma ucast_len: "(ucast (len :: u64) :: u128) = of_nat (unat len)"
  by simp

lemma unat_u64: "unat (len :: u64) < 2 ^ 64"
  using unsigned_less [of len, where ?'a = nat] by simp

lemma ucast_len_nz: "0 < (len :: u64) \<Longrightarrow> (ucast len :: u128) \<noteq> 0"
proof -
  assume "0 < len"
  then have "unat len \<noteq> 0" by (simp add: word_gt_0 unat_eq_zero)
  moreover have "unat (of_nat (unat len) :: u128) = unat len"
    using unat_u64 [of len] by (simp add: unat_of_nat del: of_nat_unat)
  ultimately show ?thesis unfolding ucast_len by (metis unat_0)
qed

lemma fast_loop_run:
  assumes lp: "fast_loop bs n place target cleanup ic si cty i len" and i: "Index i \<notin> set (pl_projection place)"
    and out: "unat target < n"
  shows "\<exists>m st'. drop_run bs target m (block_idx n) st = (element_drops st place i (unat len), Some st')"
proof -
  have n: "n + 3 < 2 ^ 32" using lp by (simp add: fast_loop_def)
  have ne: "block_idx n \<noteq> target" using block_idx_unat [of n] n out by auto
  let ?st = "st(i := Num (ucast len))"
  have sti: "?st i = Num (of_nat (unat len))" by simp
  from fast_loop_cond [OF lp i out, of ?st, OF sti unat_u64] obtain m where
    "drop_run bs target m (block_idx (n + 1)) ?st
      = (element_drops ?st place i (unat len), Some (?st(i := Num 0)))" by blast
  then have "drop_run bs target (Suc m) (block_idx n) st = (element_drops ?st place i (unat len), Some (?st(i := Num 0)))"
    using lp ne n by (simp add: block_idx_unat Let_def fast_loop_def drop_steps)
  moreover have "element_drops ?st place i (unat len) = element_drops st place i (unat len)"
    using i by (simp add: element_drops_def index_dvals_upd)
  ultimately show ?thesis by metis
qed

text \<open>The blocks the fast path appends are such a loop.\<close>

lemma emit_fast_loop:
  assumes "emit_array_drop_loop place target cleanup ic si None cty i len bs = (t, bs')"
    and "length bs + 4 \<le> 2 ^ 32"
  shows "t = Goto (block_idx (length bs)) \<and> length bs' = length bs + 4 \<and> take (length bs) bs' = bs \<and>
    fast_loop (bs' @ rest) (length bs) place target cleanup ic si cty i len"
  using assms by (auto simp: emit_array_drop_loop_def Let_def fast_loop_def nth_append)

section \<open>The loop with element flags\<close>

text \<open>With element flags the block that drops is the one the condition calls the body, and the one that
  counts down and tests the flag is the one it calls the exit.\<close>

definition flag_loop ::
    "BasicBlockData list \<Rightarrow> nat \<Rightarrow> Place \<Rightarrow> BasicBlockIdx option \<Rightarrow> bool \<Rightarrow> SourceInfo \<Rightarrow> Ty \<Rightarrow> LocalIdx \<Rightarrow> u64 \<Rightarrow> bool" where
  "flag_loop bs n place cleanup ic si cty i len \<longleftrightarrow>
     n + 4 < 2 ^ 32 \<and>
     bs ! n = new_block si ic [Assign (Place_new i) (Use (count_operand si cty (ucast len)))] (Goto (block_idx (n + 1))) \<and>
     bs ! (n + 1) = new_block si ic [] (SwitchInt (Operand.Copy (Place_new i)) cty
        (SwitchTargets_new [(0, block_idx (n + 3))] (block_idx (n + 2)))) \<and>
     bs ! (n + 2) = new_block si ic [] (TerminatorKind.Drop (element_of place i) (block_idx (n + 1)) cleanup)"

lemma emit_flag_loop:
  assumes "emit_array_drop_loop place target cleanup ic si (Some fl) cty i len bs = (t, bs')"
    and "length bs + 5 \<le> 2 ^ 32"
  shows "t = Goto (block_idx (length bs)) \<and> length bs' = length bs + 5 \<and> take (length bs) bs' = bs \<and>
    flag_loop (bs' @ rest) (length bs) place cleanup ic si cty i len"
  using assms by (cases fl) (auto simp: emit_array_drop_loop_def Let_def flag_loop_def nth_append)

lemma flag_loop_spins:
  assumes lp: "flag_loop bs n place cleanup ic si cty i len" and out: "unat target < n"
    and st: "st i = Num v" and v: "v \<noteq> 0"
  shows "drop_run bs target (2 * m) (block_idx (n + 1)) st = (replicate m (drop_event st (element_of place i)), None)"
proof (induction m)
  case 0
  have "block_idx (n + 1) \<noteq> target" using block_idx_unat [of "n + 1"] lp out by (auto simp: flag_loop_def)
  then show ?case by simp
next
  case (Suc m)
  have n: "n + 4 < 2 ^ 32" using lp by (simp add: flag_loop_def)
  have ne: "block_idx (n + 1) \<noteq> target" "block_idx (n + 2) \<noteq> target"
    using block_idx_unat [of "n + 1"] block_idx_unat [of "n + 2"] n out by auto
  have "drop_run bs target (Suc (Suc (2 * m))) (block_idx (n + 1)) st
      = (drop_event st (element_of place i) # replicate m (drop_event st (element_of place i)), None)"
    using lp st v ne n Suc.IH by (simp add: block_idx_unat Let_def flag_loop_def drop_steps)
  then show ?case by simp
qed

lemma flag_loop_run:
  assumes lp: "flag_loop bs n place cleanup ic si cty i len" and out: "unat target < n" and len: "0 < len"
    and i: "Index i \<notin> set (pl_projection place)"
  shows "drop_run bs target (Suc (2 * m)) (block_idx n) st
    = (replicate m (element_of place i, index_dvals st (pl_projection place) @ [Num (ucast len)]), None)"
proof -
  have n: "n + 4 < 2 ^ 32" using lp by (simp add: flag_loop_def)
  have ne: "block_idx n \<noteq> target" using block_idx_unat [of n] n out by auto
  let ?st = "st(i := Num (ucast len))"
  have nz: "(ucast len :: u128) \<noteq> 0" using len by (rule ucast_len_nz)
  have "drop_run bs target (2 * m) (block_idx (n + 1)) ?st = (replicate m (drop_event ?st (element_of place i)), None)"
    by (rule flag_loop_spins [OF lp out _ nz]) simp
  moreover have "drop_event ?st (element_of place i)
      = (element_of place i, index_dvals st (pl_projection place) @ [Num (ucast len)])"
    using i by (simp add: drop_event_def element_of_def index_dvals_upd)
  ultimately show ?thesis
    using lp ne n by (simp add: block_idx_unat Let_def flag_loop_def drop_steps)
qed

end
