(* ===== verification/Opt_Drop_Theorems.thy ===== *)
theory Opt_Drop_Theorems
  imports Opt_Drop_Shape Opt_Drop_Init Opt_Drop_Runs
begin

text \<open>
  What drop elaboration makes of a body: which drops it guards with a flag, and what its array loops
  drop when they run.  \<open>visit\<close> is any order in which the entries of the hash map are visited.
\<close>

section \<open>Element flags\<close>

lemma DropFlags_new_keys:
  assumes "DropFlags_new tc nd body = Inr flags0"
  shows "l \<in> element_keys flags0 \<Longrightarrow> element_assigned body l"
    and "bb \<in> set (b_blocks body) \<Longrightarrow> s \<in> set (bb_statements bb) \<Longrightarrow> st_kind s = Assign p rv \<Longrightarrow> has_index p \<Longrightarrow>
      place_ty tc p (b_locals body) = Inr pty \<Longrightarrow> nd pty \<Longrightarrow> unat (pl_local p) < length (b_locals body) \<Longrightarrow>
      nd (ld_ty (b_locals body ! unat (pl_local p))) \<Longrightarrow>
      tl_ty_kind tc (ld_ty (b_locals body ! unat (pl_local p))) = TyKind.Array e count \<Longrightarrow> 0 < array_len count \<Longrightarrow>
      pl_local p \<in> element_keys flags0"
    and "unat l < length (b_locals body) \<Longrightarrow> nd (ld_ty (b_locals body ! unat l)) \<Longrightarrow>
      \<forall>e c. tl_ty_kind tc (ld_ty (b_locals body ! unat l)) \<noteq> TyKind.Array e c \<Longrightarrow> has_flag l flags0"
proof -
  let ?lds = "iv_iter_enumerated (b_locals body)"
  let ?start = "\<lparr>df_flag_for_local = replicate (length (b_locals body)) None, df_per_element = []\<rparr>"
  from assms obtain built where built: "loop_built tc nd body = Inr built"
    "flags0 = fold (flag_local_decl tc nd built) ?lds ?start" by (auto simp: DropFlags_new_def pbind_Inr_iff)
  have "element_keys flags0 \<subseteq> element_keys ?start \<union> set built" unfolding built(2) by (rule element_keys_sub)
  then show "element_assigned body l" if "l \<in> element_keys flags0"
    using that loop_built_sub [OF built(1), of l] by (auto simp: element_keys_def)
  show "pl_local p \<in> element_keys flags0"
    if "bb \<in> set (b_blocks body)" "s \<in> set (bb_statements bb)" "st_kind s = Assign p rv" "has_index p"
      "place_ty tc p (b_locals body) = Inr pty" "nd pty" "unat (pl_local p) < length (b_locals body)"
      "nd (ld_ty (b_locals body ! unat (pl_local p)))"
      "tl_ty_kind tc (ld_ty (b_locals body ! unat (pl_local p))) = TyKind.Array e count" "0 < array_len count"
  proof -
    note here = in_iter_enumerated [OF that(7)] and mem = loop_built_has [OF built(1) that(1-6)]
    show ?thesis unfolding built(2) by (rule element_keys_has [where nd = nd, OF here that(8-10) mem])
  qed
  show "has_flag l flags0" if "unat l < length (b_locals body)" "nd (ld_ty (b_locals body ! unat l))"
    "\<forall>e c. tl_ty_kind tc (ld_ty (b_locals body ! unat l)) \<noteq> TyKind.Array e c"
  proof -
    note here = in_iter_enumerated [OF that(1)]
    show ?thesis unfolding built(2) by (rule has_flag_set [where nd = nd, OF here that(2,3)]) (simp add: that(1))
  qed
qed

lemma per_element_None: "map_of (df_per_element flags) l = None \<longleftrightarrow> l \<notin> element_keys flags"
  by (simp add: element_keys_def map_of_eq_None_iff)

section \<open>Arrays\<close>

lemma place_ty_append: "place_ty tc p xs = Inr ty \<Longrightarrow> place_ty tc p (xs @ ys) = Inr ty"
  by (auto simp: place_ty_def iv_index_def nth_append split: if_splits)

lemma elaborate_array_drop:
  assumes "te_kind (bb_terminator bb) = TerminatorKind.Drop place target cleanup"
    and "place_ty tc place ls = Inr ty" and "nd ty" and "tl_ty_kind tc ty = TyKind.Array e count" and "0 < array_len count"
    and "elaborate_terminator tc nd flags an i bb (ls, bs) = Inr (k, ls', bs')"
  shows "length ls' = Suc (length ls) \<and>
    emit_array_drop_loop place target cleanup (bb_is_cleanup bb) (te_source_info (bb_terminator bb))
      (map_of (df_per_element flags) (pl_local place)) (const_ty count) (idx_from_usize (length ls)) (array_len count) bs
    = (k, bs')"
  using assms
  by (auto simp: elaborate_terminator_def elaborate_drop_def Let_def iv_push_def word_gt_0 split: prod.splits)

text \<open>An array drop of the body, with the state in which it was elaborated.\<close>

lemma elaborated_array_drop:
  assumes run: "elaborate_drops visit tc nd cx body a = Inr (body', a')"
    and visit: "\<And>xs. set (visit xs) = set xs"
    and b: "b < length (b_blocks body)" "te_kind (bb_terminator (b_blocks body ! b)) = TerminatorKind.Drop place target cleanup"
    and ty: "place_ty tc place (b_locals body) = Inr ty" "nd ty" "tl_ty_kind tc ty = TyKind.Array e count" "0 < array_len count"
  obtains flags0 flags bs n ic si k bs1 where "DropFlags_new tc nd body = Inr flags0"
    and "element_keys flags = element_keys flags0"
    and "emit_array_drop_loop place target cleanup ic si (map_of (df_per_element flags) (pl_local place)) (const_ty count)
      (idx_from_usize n) (array_len count) bs = (k, bs1)"
    and "length (b_locals body) \<le> n" and "n < length (b_locals body')" and "length (b_blocks body) \<le> length bs"
    and "te_kind (bb_terminator (b_blocks body' ! b)) = k" and "length bs1 \<le> length (b_blocks body')"
    and "\<And>j. length (b_blocks body) \<le> j \<Longrightarrow> j < length bs1 \<Longrightarrow> b_blocks body' ! j = bs1 ! j"
proof -
  from elaborate_drops_blocks [OF run] obtain an flags0 flags body1 where
    new: "DropFlags_new tc nd body = Inr flags0" and cr: "create_flags visit cx flags0 body a = Inr (flags, body1, a')"
    and el: "elaborated tc nd flags an (length (b_blocks body)) (b_locals body1) (b_locals body', b_blocks body') b
      (insert_flags flags (b_blocks body1 ! b))"
    using b(1) by metis
  let ?bb = "insert_flags flags (b_blocks body1 ! b)"
  have g: "grown body body1" by (rule create_flags_grown(1) [OF cr])
  have bb: "te_kind (bb_terminator ?bb) = TerminatorKind.Drop place target cleanup"
    using grown_block [OF g b(1)] b(2) by (simp add: insert_flags_def)
  from g obtain ext1 where ext1: "b_locals body1 = b_locals body @ ext1" by (auto simp: grown_def)
  from el obtain ext bs k ls1 bs1 where
    t: "elaborate_terminator tc nd flags an b ?bb (b_locals body @ ext1 @ ext, bs) = Inr (k, ls1, bs1)"
    and rest: "length (b_blocks body) \<le> length bs" "te_kind (bb_terminator (b_blocks body' ! b)) = k"
      "\<And>j. length (b_blocks body) \<le> j \<Longrightarrow> j < length bs1 \<Longrightarrow> b_blocks body' ! j = bs1 ! j"
      "length bs1 \<le> length (b_blocks body')" "length ls1 \<le> length (b_locals body')"
    unfolding elaborated_def ext1 by fastforce
  note d = elaborate_array_drop [OF bb place_ty_append [OF ty(1)] ty(2-4) t]
  show ?thesis
    by (rule that [OF new create_flags_grown(2) [OF cr visit] conjunct2 [OF d]]) (use d rest in auto)
qed

lemma fast_loop_cong:
  "fast_loop bs n place target cleanup ic si cty i len \<Longrightarrow> (\<And>j. n \<le> j \<Longrightarrow> j \<le> n + 3 \<Longrightarrow> bs' ! j = bs ! j) \<Longrightarrow>
     fast_loop bs' n place target cleanup ic si cty i len"
  by (simp add: fast_loop_def)

lemma flag_loop_cong:
  "flag_loop bs n place cleanup ic si cty i len \<Longrightarrow> (\<And>j. n \<le> j \<Longrightarrow> j \<le> n + 2 \<Longrightarrow> bs' ! j = bs ! j) \<Longrightarrow>
     flag_loop bs' n place cleanup ic si cty i len"
  by (simp add: flag_loop_def)

text \<open>The bounds of a body that 32-bit indices can name.\<close>

definition indexable :: "Body \<Rightarrow> bool" where
  "indexable body \<longleftrightarrow> length (b_blocks body) \<le> 2 ^ 32 \<and> length (b_locals body) \<le> 2 ^ 32"

definition indices_declared :: "Body \<Rightarrow> Place \<Rightarrow> bool" where
  "indices_declared body p \<longleftrightarrow> (\<forall>i. Index i \<in> set (pl_projection p) \<longrightarrow> unat i < length (b_locals body))"

lemma fresh_index:
  assumes "indices_declared body p" and "length (b_locals body) \<le> n" and "n < length (b_locals body')" and "indexable body'"
  shows "unat (idx_from_usize n) = n" and "Index (idx_from_usize n) \<notin> set (pl_projection p)"
proof -
  show "unat (idx_from_usize n) = n"
    using assms(3,4) idx_index_from_usize [of n] by (simp add: indexable_def idx_index_def)
  with assms(1,2) show "Index (idx_from_usize n) \<notin> set (pl_projection p)" by (fastforce simp: indices_declared_def)
qed

text \<open>
  C22. The drop of an array no element of which the body assigns: from any store, the elaborated block
  drops every element exactly once, from the last to the first, and goes on at the target of the drop.
\<close>

theorem array_drop_runs:
  assumes "elaborate_drops visit tc needs_drop cx body a = Inr (body', a')" and "\<And>xs. set (visit xs) = set xs"
    and "b < length (b_blocks body)"
    and "te_kind (bb_terminator (b_blocks body ! b)) = TerminatorKind.Drop place target cleanup"
    and "unat target < length (b_blocks body)"
    and "place_ty tc place (b_locals body) = Inr ty" and "needs_drop ty"
    and "tl_ty_kind tc ty = TyKind.Array elem count" and "0 < array_len count"
    and "\<not> element_assigned body (pl_local place)" and "indices_declared body place" and "indexable body'"
  shows "\<exists>start i m st'. te_kind (bb_terminator (b_blocks body' ! b)) = Goto start \<and> length (b_locals body) \<le> unat i \<and>
    drop_run (b_blocks body') target m start st =
      (map (\<lambda>k. (element_of place i, index_dvals st (pl_projection place) @ [Num (of_nat k)])) (rev [0..<unat (array_len count)]),
       Some st')"
proof -
  from elaborated_array_drop [OF assms(1-4,6-9)] obtain flags0 flags bs n ic si k bs1 where
    new: "DropFlags_new tc needs_drop body = Inr flags0" "element_keys flags = element_keys flags0"
    and em: "emit_array_drop_loop place target cleanup ic si (map_of (df_per_element flags) (pl_local place)) (const_ty count)
      (idx_from_usize n) (array_len count) bs = (k, bs1)"
    and n: "length (b_locals body) \<le> n" "n < length (b_locals body')" "length (b_blocks body) \<le> length bs"
    and k: "te_kind (bb_terminator (b_blocks body' ! b)) = k" and len: "length bs1 \<le> length (b_blocks body')"
    and keep: "\<And>j. length (b_blocks body) \<le> j \<Longrightarrow> j < length bs1 \<Longrightarrow> b_blocks body' ! j = bs1 ! j" by metis
  have none: "map_of (df_per_element flags) (pl_local place) = None"
    unfolding per_element_None new(2) using DropFlags_new_keys(1) [OF new(1)] assms(10) by blast
  note fresh = fresh_index [OF assms(11) n(1,2) assms(12)]
  have "length bs1 = length bs + 4" using em unfolding none by (auto simp: emit_array_drop_loop_def Let_def)
  with len assms(12) have room: "length bs + 4 \<le> 2 ^ 32" by (simp add: indexable_def)
  from emit_fast_loop [OF em [unfolded none] room, of "[]"]
  have loop: "k = Goto (block_idx (length bs))" "length bs1 = length bs + 4"
    "fast_loop bs1 (length bs) place target cleanup ic si (const_ty count) (idx_from_usize n) (array_len count)" by auto
  have "fast_loop (b_blocks body') (length bs) place target cleanup ic si (const_ty count) (idx_from_usize n) (array_len count)"
    by (rule fast_loop_cong [OF loop(3)]) (use n(3) loop(2) keep in auto)
  from fast_loop_run [OF this fresh(2), of st] assms(5) n(3) obtain m st' where
    "drop_run (b_blocks body') target m (block_idx (length bs)) st
      = (element_drops st place (idx_from_usize n) (unat (array_len count)), Some st')" by auto
  with n(1) k loop(1) fresh(1) show ?thesis unfolding element_drops_def
    by (intro exI [of _ "block_idx (length bs)"] exI [of _ "idx_from_usize n"]) auto
qed

text \<open>
  C27. The drop of an array whose elements the body assigns one by one, the case element flags are for:
  the elaborated block never comes to the target.  However long it runs, all it does is to drop the
  element behind the last one, again and again, without looking at a flag.
\<close>

theorem element_flag_loop_never_ends:
  assumes "elaborate_drops visit tc needs_drop cx body a = Inr (body', a')" and "\<And>xs. set (visit xs) = set xs"
    and "b < length (b_blocks body)"
    and "te_kind (bb_terminator (b_blocks body ! b)) = TerminatorKind.Drop (Place_new l) target cleanup"
    and "unat target < length (b_blocks body)"
    and "unat l < length (b_locals body)" and "needs_drop (ld_ty (b_locals body ! unat l))"
    and "tl_ty_kind tc (ld_ty (b_locals body ! unat l)) = TyKind.Array elem count" and "0 < array_len count"
    and "bb \<in> set (b_blocks body)" and "s \<in> set (bb_statements bb)" and "st_kind s = Assign p rv"
    and "pl_local p = l" and "has_index p" and "place_ty tc p (b_locals body) = Inr pty" and "needs_drop pty"
    and "indexable body'"
  shows "\<exists>start i. te_kind (bb_terminator (b_blocks body' ! b)) = Goto start \<and> length (b_locals body) \<le> unat i \<and>
    (\<forall>rounds st. drop_run (b_blocks body') target (Suc (2 * rounds)) start st =
       (replicate rounds (element_of (Place_new l) i, [Num (ucast (array_len count))]), None))"
proof -
  have ty: "place_ty tc (Place_new l) (b_locals body) = Inr (ld_ty (b_locals body ! unat l))"
    using assms(6) by (simp add: place_ty_new idx_index_def)
  from elaborated_array_drop [OF assms(1-4) ty assms(7-9)] obtain flags0 flags bs n ic si k bs1 where
    new: "DropFlags_new tc needs_drop body = Inr flags0" "element_keys flags = element_keys flags0"
    and em: "emit_array_drop_loop (Place_new l) target cleanup ic si (map_of (df_per_element flags) (pl_local (Place_new l)))
      (const_ty count) (idx_from_usize n) (array_len count) bs = (k, bs1)"
    and n: "length (b_locals body) \<le> n" "n < length (b_locals body')" "length (b_blocks body) \<le> length bs"
    and k: "te_kind (bb_terminator (b_blocks body' ! b)) = k" and len: "length bs1 \<le> length (b_blocks body')"
    and keep: "\<And>j. length (b_blocks body) \<le> j \<Longrightarrow> j < length bs1 \<Longrightarrow> b_blocks body' ! j = bs1 ! j" by metis
  have "l \<in> element_keys flags"
    unfolding new(2) using DropFlags_new_keys(2) [OF new(1) assms(10,11,12,14,15,16)] assms(6-9,13) by simp
  then obtain fl where fl: "map_of (df_per_element flags) (pl_local (Place_new l)) = Some fl"
    using per_element_None [of flags l] by (auto simp: Place_new_def)
  have proj: "pl_projection (Place_new l) = []" by (simp add: Place_new_def)
  then have decl: "indices_declared body (Place_new l)" by (simp add: indices_declared_def)
  note fresh = fresh_index [OF decl n(1,2) assms(17)]
  have "length bs1 = length bs + 5" using em unfolding fl by (cases fl) (auto simp: emit_array_drop_loop_def Let_def)
  with len assms(17) have room: "length bs + 5 \<le> 2 ^ 32" by (simp add: indexable_def)
  from emit_flag_loop [OF em [unfolded fl] room, of "[]"]
  have loop: "k = Goto (block_idx (length bs))" "length bs1 = length bs + 5"
    "flag_loop bs1 (length bs) (Place_new l) cleanup ic si (const_ty count) (idx_from_usize n) (array_len count)" by auto
  have "flag_loop (b_blocks body') (length bs) (Place_new l) cleanup ic si (const_ty count) (idx_from_usize n) (array_len count)"
    by (rule flag_loop_cong [OF loop(3)]) (use n(3) loop(2) keep in auto)
  note run = flag_loop_run [OF this _ assms(9) fresh(2), of target]
  have "drop_run (b_blocks body') target (Suc (2 * rounds)) (block_idx (length bs)) st
      = (replicate rounds (element_of (Place_new l) (idx_from_usize n), [Num (ucast (array_len count))]), None)" for rounds st
    using run [of rounds st] assms(5) n(3) by (simp add: proj index_dvals_def del: drop_run.simps)
  with n(1) k loop(1) fresh(1) show ?thesis
    by (intro exI [of _ "block_idx (length bs)"] exI [of _ "idx_from_usize n"]) (simp del: drop_run.simps)
qed

section \<open>Guards\<close>

lemma elaborate_guard:
  assumes "te_kind (bb_terminator bb) = TerminatorKind.Drop (Place_new l) target cleanup"
    and "unat l < length ls" and "nd (ld_ty (ls ! unat l))" and "\<forall>e c. tl_ty_kind tc (ld_ty (ls ! unat l)) \<noteq> TyKind.Array e c"
    and "elaborate_terminator tc nd flags an i bb (ls, bs) = Inr (k, ls', bs')"
  shows "guard_drop flags an (block_idx i) bb (Place_new l) target cleanup bs = Inr (k, bs')"
proof -
  have "place_ty tc (Place_new l) ls = Inr (ld_ty (ls ! unat l))"
    using assms(2) by (simp add: place_ty_new idx_index_def)
  with assms show ?thesis
    by (cases "guard_drop flags an (block_idx i) bb (Place_new l) target cleanup bs")
      (auto simp: elaborate_terminator_def elaborate_drop_def Let_def Place_new_def split: TyKind.splits)
qed

lemma guard_drop_cases:
  assumes "guard_drop flags an b bb (Place_new l) target cleanup bs = Inr (k, bs')"
    and "is_definitely_initialized an b l = Inr sure" and "get_flag flags l = Some flag"
  shows "if sure then k = TerminatorKind.Drop (Place_new l) target cleanup \<and> bs' = bs
    else k = SwitchInt (Operand.Copy (Place_new flag)) Ty_BOOL (if_switch (block_idx (length bs)) target) \<and>
      (\<exists>db. bs' = bs @ [db] \<and> te_kind (bb_terminator db) = TerminatorKind.Drop (Place_new l) target cleanup \<and>
        (\<exists>span. bb_statements db = [set_flag_stmt flag False span]))"
  using assms by (cases sure) (auto simp: guard_drop_def Let_def Place_new_def)

text \<open>One guarded drop, in terms of the flags of the pass.\<close>

lemma guarded_drop_block:
  assumes an: "compute_initialized body = Inr an" and new: "DropFlags_new tc needs_drop body = Inr flags0"
    and cr: "create_flags visit cx flags0 body a = Inr (flags, body1, a')"
    and el: "elaborated tc needs_drop flags an (length (b_blocks body)) (b_locals body1) (b_locals body', b_blocks body') b
      (insert_flags flags (b_blocks body1 ! b))"
    and more: "length (b_blocks body) \<le> length (b_blocks body')"
    and ok: "drop_body_ok body" "indexable body'" and b: "b < length (b_blocks body)"
    and drop: "te_kind (bb_terminator (b_blocks body ! b)) = TerminatorKind.Drop (Place_new l) target cleanup"
    and l: "unat l < length (b_locals body)" "needs_drop (ld_ty (b_locals body ! unat l))"
      "\<forall>e c. tl_ty_kind tc (ld_ty (b_locals body ! unat l)) \<noteq> TyKind.Array e c"
    and flag: "get_flag flags l = Some flag"
  shows "if maybe_uninit body b (unat l)
    then (\<exists>d span. te_kind (bb_terminator (b_blocks body' ! b))
             = SwitchInt (Operand.Copy (Place_new flag)) Ty_BOOL (if_switch d target) \<and>
           length (b_blocks body) \<le> unat d \<and> unat d < length (b_blocks body') \<and>
           bb_statements (b_blocks body' ! unat d) = [set_flag_stmt flag False span] \<and>
           te_kind (bb_terminator (b_blocks body' ! unat d)) = TerminatorKind.Drop (Place_new l) target cleanup)
    else te_kind (bb_terminator (b_blocks body' ! b)) = TerminatorKind.Drop (Place_new l) target cleanup"
proof -
  let ?bb = "insert_flags flags (b_blocks body1 ! b)"
  have g: "grown body body1" by (rule create_flags_grown(1) [OF cr])
  have bb: "te_kind (bb_terminator ?bb) = TerminatorKind.Drop (Place_new l) target cleanup"
    using grown_block [OF g b] drop by (simp add: insert_flags_def)
  from g obtain ext1 where ext1: "b_locals body1 = b_locals body @ ext1" by (auto simp: grown_def)
  from el obtain ext2 bs k ls1 bs1 where
    t: "elaborate_terminator tc needs_drop flags an b ?bb (b_locals body @ ext1 @ ext2, bs) = Inr (k, ls1, bs1)"
    and rest: "length (b_blocks body) \<le> length bs" "te_kind (bb_terminator (b_blocks body' ! b)) = k"
      "\<And>j. length (b_blocks body) \<le> j \<Longrightarrow> j < length bs1 \<Longrightarrow> b_blocks body' ! j = bs1 ! j"
      "length bs1 \<le> length (b_blocks body')"
    unfolding elaborated_def ext1 by fastforce
  have same: "(b_locals body @ ext1 @ ext2) ! unat l = b_locals body ! unat l" using l(1) by (simp add: nth_append)
  have gd: "guard_drop flags an (block_idx b) ?bb (Place_new l) target cleanup bs = Inr (k, bs1)"
    by (rule elaborate_guard [OF bb _ _ _ t]) (use l same in simp_all)
  have ub: "unat (block_idx b) = b" using b ok(2) more by (intro block_idx_unat) (simp add: indexable_def)
  have sure: "is_definitely_initialized an (block_idx b) l = Inr (\<not> maybe_uninit body b (unat l))"
    using initialization_exact_here [OF ok(1) an, where b = "block_idx b" and l = l] b l(1) ub by simp
  note c = guard_drop_cases [OF gd sure flag]
  show ?thesis
  proof (cases "maybe_uninit body b (unat l)")
    case False
    with c rest(2) show ?thesis by simp
  next
    case True
    with c obtain db span where db: "k = SwitchInt (Operand.Copy (Place_new flag)) Ty_BOOL (if_switch (block_idx (length bs)) target)"
      "bs1 = bs @ [db]" "te_kind (bb_terminator db) = TerminatorKind.Drop (Place_new l) target cleanup"
      "bb_statements db = [set_flag_stmt flag False span]" by auto
    have ud: "unat (block_idx (length bs)) = length bs"
      using rest(4) db(2) ok(2) by (intro block_idx_unat) (simp add: indexable_def)
    have "b_blocks body' ! length bs = db" using rest(1) rest(3) [of "length bs"] db(2) by simp
    with db ud rest show ?thesis unfolding if_P [OF True]
      by - (rule exI [of _ "block_idx (length bs)"], rule exI [of _ span], simp)
  qed
qed

lemma guarded_drops:
  assumes "elaborate_drops visit tc needs_drop cx body a = Inr (body', a')" and "drop_body_ok body"
    and "b < length (b_blocks body)"
    and "te_kind (bb_terminator (b_blocks body ! b)) = TerminatorKind.Drop (Place_new l) target cleanup"
    and "unat l < length (b_locals body)" and "needs_drop (ld_ty (b_locals body ! unat l))"
    and "\<forall>e c. tl_ty_kind tc (ld_ty (b_locals body ! unat l)) \<noteq> TyKind.Array e c" and "indexable body'"
  shows "let k = te_kind (bb_terminator (b_blocks body' ! b)) in
    if maybe_uninit body b (unat l)
    then (\<exists>flag d span. k = SwitchInt (Operand.Copy (Place_new flag)) Ty_BOOL (if_switch d target) \<and>
           length (b_locals body) \<le> unat flag \<and> unat flag < length (b_locals body') \<and>
           length (b_blocks body) \<le> unat d \<and> unat d < length (b_blocks body') \<and>
           bb_statements (b_blocks body' ! unat d) = [set_flag_stmt flag False span] \<and>
           te_kind (bb_terminator (b_blocks body' ! unat d)) = TerminatorKind.Drop (Place_new l) target cleanup)
    else k = TerminatorKind.Drop (Place_new l) target cleanup"
proof -
  from elaborate_drops_blocks [OF assms(1)] obtain an flags0 flags body1 where
    an: "compute_initialized body = Inr an" and new: "DropFlags_new tc needs_drop body = Inr flags0"
    and cr: "create_flags visit cx flags0 body a = Inr (flags, body1, a')"
    and el: "elaborated tc needs_drop flags an (length (b_blocks body)) (b_locals body1) (b_locals body', b_blocks body') b
      (insert_flags flags (b_blocks body1 ! b))" and ext: "\<exists>ext. b_locals body' = b_locals body1 @ ext"
    and more: "length (b_blocks body) \<le> length (b_blocks body')"
    using assms(3) by metis
  have hf: "has_flag l flags0" by (rule DropFlags_new_keys(3) [OF new assms(5-7)])
  obtain n where n: "length (b_locals body) \<le> n" "n < length (b_locals body1)" "get_flag flags l = Some (idx_from_usize n)"
    using create_flags_grown(3) [OF cr hf] by blast
  have "length (b_locals body1) \<le> length (b_locals body')" using ext by auto
  with n(2) assms(8) have un: "unat (idx_from_usize n) = n" "n < length (b_locals body')"
    by (simp_all add: indexable_def idx_from_usize_def unat_of_nat)
  from guarded_drop_block [OF an new cr el more assms(2,8,3-7) n(3)] n(1) un show ?thesis
    unfolding Let_def by (cases "maybe_uninit body b (unat l)") (simp_all, metis)
qed

text \<open>
  Drops of whole locals that are not arrays are guarded exactly where the local may be uninitialized.
  There the block branches on a new flag of the local: if it is set, to a new block that clears it and
  drops the local, and to the target of the drop otherwise.  Everywhere else the drop is left as it is.
\<close>

theorem drops_guarded_exactly:
  assumes "elaborate_drops visit tc needs_drop cx body a = Inr (body', a')" and "drop_body_ok body"
    and "b < length (b_blocks body)"
    and "te_kind (bb_terminator (b_blocks body ! b)) = TerminatorKind.Drop (Place_new l) target cleanup"
    and "unat l < length (b_locals body)" and "needs_drop (ld_ty (b_locals body ! unat l))"
    and "\<forall>e c. tl_ty_kind tc (ld_ty (b_locals body ! unat l)) \<noteq> TyKind.Array e c" and "indexable body'"
  shows "let k = te_kind (bb_terminator (b_blocks body' ! b)) in
    if maybe_uninit body b (unat l)
    then (\<exists>flag d span. k = SwitchInt (Operand.Copy (Place_new flag)) Ty_BOOL (if_switch d target) \<and>
           length (b_locals body) \<le> unat flag \<and> unat flag < length (b_locals body') \<and>
           length (b_blocks body) \<le> unat d \<and> unat d < length (b_blocks body') \<and>
           bb_statements (b_blocks body' ! unat d) = [set_flag_stmt flag False span] \<and>
           te_kind (bb_terminator (b_blocks body' ! unat d)) = TerminatorKind.Drop (Place_new l) target cleanup)
    else k = TerminatorKind.Drop (Place_new l) target cleanup"
  by (rule guarded_drops [OF assms])

section \<open>Storage that is live counts as initialized\<close>

lemma storage_live_init:
  assumes "\<forall>s \<in> set ss. st_kind s \<noteq> StorageDead l"
  shows "b \<Longrightarrow> fold (\<lambda>s. init_after (unat l) (st_kind s)) ss b"
    and "s \<in> set ss \<Longrightarrow> st_kind s = StorageLive l \<Longrightarrow> fold (\<lambda>s. init_after (unat l) (st_kind s)) ss b"
proof -
  have keep: "b \<Longrightarrow> fold (\<lambda>s. init_after (unat l) (st_kind s)) ss b" if "\<forall>s \<in> set ss. st_kind s \<noteq> StorageDead l" for ss b
    using that
  proof (induction ss arbitrary: b)
    case (Cons s ss)
    then have "init_after (unat l) (st_kind s) b" by (cases "st_kind s") (auto simp: word_unat_eq_iff)
    with Cons show ?case by simp
  qed simp
  show "b \<Longrightarrow> fold (\<lambda>s. init_after (unat l) (st_kind s)) ss b" by (rule keep [OF assms])
  assume "s \<in> set ss" and live: "st_kind s = StorageLive l"
  then obtain s1 s2 where "ss = s1 @ s # s2" by (meson split_list)
  with assms live keep [of s2 True] show "fold (\<lambda>s. init_after (unat l) (st_kind s)) ss b" by simp
qed

lemma storage_live_uninit:
  assumes "drop_body_ok body" and "\<forall>bb \<in> set (b_blocks body). \<forall>s \<in> set (bb_statements bb). st_kind s \<noteq> StorageDead l"
    and "s \<in> set (bb_statements (b_blocks body ! 0))" and "st_kind s = StorageLive l" and "maybe_uninit body b (unat l)"
  shows "b = 0"
proof -
  have "b = 0" if "maybe_uninit body b i" "i = unat l" for b i
    using that
  proof (induction rule: maybe_uninit.induct)
    case (passes b i t)
    have "b_blocks body ! 0 \<in> set (b_blocks body)" using assms(1) by (simp add: drop_body_ok_def)
    with assms(2) have "block_init (b_blocks body ! 0) (unat l) False"
      unfolding block_init_def by (intro storage_live_init(2) [OF _ assms(3,4)]) blast
    with passes show ?case by simp
  next
    case (dies b i t)
    then have "b_blocks body ! b \<in> set (b_blocks body)" by simp
    with assms(2) have "block_init (b_blocks body ! b) (unat l) True"
      unfolding block_init_def by (intro storage_live_init(1)) auto
    with dies show ?case by simp
  qed simp
  with assms(5) show ?thesis by blast
qed


section \<open>Examples\<close>

text \<open>Type 40 is a string, which owns memory, and type 41 an array of two of them.\<close>

definition drop_types :: TypeLookup where
  "drop_types =
     \<lparr>tl_ty_kind = (\<lambda>ty. if ty = 41 then TyKind.Array 40 \<lparr>const_kind = ConstKind.Uint 2, const_ty = Ty_USIZE\<rparr>
        else if ty = 40 then TyKind.String else TyKind.Unit),
      tl_substitution_args = (\<lambda>_. []), tl_error_ty = Ty_ERROR, tl_adt_def = (\<lambda>_. None),
      tl_intern_ty = (\<lambda>_. Ty_ERROR), tl_subst_ty_in = (\<lambda>ty _. ty)\<rparr>"

definition owning :: "Ty \<Rightarrow> bool" where
  "owning ty \<longleftrightarrow> ty = 40 \<or> ty = 41"

definition drop_sample :: "Ty list \<Rightarrow> BasicBlockData list \<Rightarrow> Body" where
  "drop_sample tys bbs = (plain_body 0 bbs)\<lparr>b_locals := map (\<lambda>ty. \<lparr>ld_ty = ty, ld_mutability = Mutability.Mut,
     ld_source_info = SourceInfo_new Span_DUMMY\<rparr>) tys\<rparr>"

lemma drop_sample_simps [simp]:
  "b_blocks (drop_sample tys bbs) = bbs" "length (b_locals (drop_sample tys bbs)) = length tys"
  "i < length tys \<Longrightarrow> ld_ty (b_locals (drop_sample tys bbs) ! i) = tys ! i"
  by (simp_all add: drop_sample_def)

lemmas drop_sample_eval = drop_types_def owning_def DropFlags_new_def loop_built_def loop_built_stmt_def has_index_def
  iv_iter_enumerated_def flag_local_decl_def array_len_def create_flags_def push_flag_def iv_push_def plain_stmt_def
  insert_flags_def flag_statement_def assigned_local_def get_flag_def element_flag_stmts_def elaborate_block_def
  elaborate_drop_def guard_drop_def place_ty_def iv_index_def idx_index_def idx_from_usize_def block_idx_def
  drop_sample_def plain_body_def plain_block_def plain_terminator_def placeholder_def BasicBlockData_new_def
  Place_new_def store_unit_def

text \<open>\<open>if _1 { _2 = () }; drop _2\<close>\<close>

definition maybe_dropped :: Body where
  "maybe_dropped = drop_sample [2, 3, 40]
     [plain_block [] (branch 1 1 2),
      plain_block [store_unit (Place_new 2)] (Goto 3),
      plain_block [] (Goto 3),
      plain_block [] (TerminatorKind.Drop (Place_new 2) 4 None),
      plain_block [] TerminatorKind.Return]"

lemma maybe_dropped_ok: "drop_body_ok maybe_dropped"
  by (simp add: drop_body_ok_def targets_ok_def maybe_dropped_def sample_statements block_successors_def branch_def
      if_switch_def plain_block_def plain_terminator_def)

lemma maybe_dropped_uninit: "maybe_uninit maybe_dropped 3 2"
proof -
  note samples = maybe_dropped_def block_successors_def branch_def if_switch_def plain_block_def plain_terminator_def
  have "maybe_uninit maybe_dropped 0 2"
    by (rule maybe_uninit.entry) (simp_all add: maybe_dropped_def drop_sample_def plain_body_def Body_dummy_def)
  then have "maybe_uninit maybe_dropped (unat (2 :: BasicBlockIdx)) 2"
    by (rule maybe_uninit.passes [where s = 2]) (simp_all add: samples block_init_def)
  then have "maybe_uninit maybe_dropped (unat (3 :: BasicBlockIdx)) 2"
    by (rule maybe_uninit.passes [where s = 3]) (simp_all add: samples block_init_def)
  then show ?thesis by simp
qed

lemma maybe_dropped_runs:
  "\<exists>body'. elaborate_drops id drop_types owning cx maybe_dropped a = Inr (body', a) \<and> indexable body'"
proof -
  from initialization_runs [OF maybe_dropped_ok] obtain entry where entry: "compute_initialized maybe_dropped = Inr entry" by blast
  have "is_definitely_initialized entry 3 2 = Inr False"
    using initialization_exact_here [OF maybe_dropped_ok entry, of 3 2] maybe_dropped_uninit by (simp add: maybe_dropped_def)
  with entry show ?thesis unfolding elaborate_drops_def
    by (simp add: maybe_dropped_def drop_sample_eval branch_def indexable_def Let_def)
qed


lemma drops_guarded_exactly_witness:
  "\<forall>cx a. \<exists>body' flag d. elaborate_drops id drop_types owning cx maybe_dropped a = Inr (body', a) \<and>
     te_kind (bb_terminator (b_blocks body' ! 3)) = SwitchInt (Operand.Copy (Place_new flag)) Ty_BOOL (if_switch d 4) \<and>
     te_kind (bb_terminator (b_blocks body' ! unat d)) = TerminatorKind.Drop (Place_new 2) 4 None"
proof (intro allI)
  fix cx a
  obtain body' where b: "elaborate_drops id drop_types owning cx maybe_dropped a = Inr (body', a)" "indexable body'"
    using maybe_dropped_runs by blast
  have "3 < length (b_blocks maybe_dropped)" "unat (2 :: LocalIdx) < length (b_locals maybe_dropped)"
    "te_kind (bb_terminator (b_blocks maybe_dropped ! 3)) = TerminatorKind.Drop (Place_new 2) 4 None"
    "ld_ty (b_locals maybe_dropped ! unat (2 :: LocalIdx)) = 40"
    by (simp_all add: maybe_dropped_def)
  with drops_guarded_exactly [OF b(1) maybe_dropped_ok, of 3 2 4 None] b maybe_dropped_uninit
  show "\<exists>body' flag d. elaborate_drops id drop_types owning cx maybe_dropped a = Inr (body', a) \<and>
     te_kind (bb_terminator (b_blocks body' ! 3)) = SwitchInt (Operand.Copy (Place_new flag)) Ty_BOOL (if_switch d 4) \<and>
     te_kind (bb_terminator (b_blocks body' ! unat d)) = TerminatorKind.Drop (Place_new 2) 4 None"
    by (simp add: owning_def drop_types_def Let_def) blast
qed

text \<open>The same with the storage of \<open>_2\<close> made live at the entry.\<close>

definition live_dropped :: Body where
  "live_dropped = drop_sample [2, 3, 40]
     [plain_block [StorageLive 2] (branch 1 1 2),
      plain_block [store_unit (Place_new 2)] (Goto 3),
      plain_block [] (Goto 3),
      plain_block [] (TerminatorKind.Drop (Place_new 2) 4 None),
      plain_block [] TerminatorKind.Return]"

lemma live_dropped_ok: "drop_body_ok live_dropped"
  by (simp add: drop_body_ok_def targets_ok_def live_dropped_def sample_statements block_successors_def branch_def
      if_switch_def plain_block_def plain_terminator_def)

lemma live_dropped_runs:
  "\<exists>body'. elaborate_drops id drop_types owning cx live_dropped a = Inr (body', a) \<and> indexable body'"
proof -
  from initialization_runs [OF live_dropped_ok] obtain entry where entry: "compute_initialized live_dropped = Inr entry" by blast
  have "\<not> maybe_uninit live_dropped 3 (unat (2 :: LocalIdx))"
    using storage_live_uninit [OF live_dropped_ok, of 2 _ 3] by (auto simp: live_dropped_def store_unit_def)
  then have "is_definitely_initialized entry 3 2 = Inr True"
    using initialization_exact_here [OF live_dropped_ok entry, of 3 2] by (simp add: live_dropped_def)
  with entry show ?thesis unfolding elaborate_drops_def
    by (simp add: live_dropped_def drop_sample_eval branch_def indexable_def Let_def)
qed


text \<open>An array that nothing assigns, and one whose elements are assigned one by one.\<close>

definition array_dropped :: Body where
  "array_dropped = drop_sample [2, 41]
     [plain_block [] (TerminatorKind.Drop (Place_new 1) 1 None), plain_block [] TerminatorKind.Return]"

definition elements_dropped :: Body where
  "elements_dropped = drop_sample [2, 41, 8]
     [plain_block [store_unit \<lparr>pl_local = 1, pl_projection = [Index 2]\<rparr>] (TerminatorKind.Drop (Place_new 1) 1 None),
      plain_block [] TerminatorKind.Return]"

lemma arrays_dropped_ok: "drop_body_ok array_dropped" "drop_body_ok elements_dropped"
  by (simp_all add: drop_body_ok_def targets_ok_def array_dropped_def elements_dropped_def store_unit_def block_successors_def
      plain_block_def plain_terminator_def)

lemma array_dropped_runs:
  "\<exists>body'. elaborate_drops id drop_types owning cx array_dropped a = Inr (body', a) \<and> indexable body'"
proof -
  from initialization_runs [OF arrays_dropped_ok(1)] obtain entry where "compute_initialized array_dropped = Inr entry" by blast
  then show ?thesis unfolding elaborate_drops_def
    by (simp add: array_dropped_def drop_sample_eval emit_array_drop_loop_def indexable_def Let_def)
qed

lemma array_drop_runs_witness:
  "\<forall>cx a st. \<exists>body' start i m st'. elaborate_drops id drop_types owning cx array_dropped a = Inr (body', a) \<and>
     te_kind (bb_terminator (b_blocks body' ! 0)) = Goto start \<and>
     drop_run (b_blocks body') 1 m start st =
       ([(element_of (Place_new 1) i, [Num 1]), (element_of (Place_new 1) i, [Num 0])], Some st')"
proof (intro allI)
  fix cx a st
  obtain body' where b: "elaborate_drops id drop_types owning cx array_dropped a = Inr (body', a)" "indexable body'"
    using array_dropped_runs by blast
  let ?count = "\<lparr>const_kind = ConstKind.Uint 2, const_ty = Ty_USIZE\<rparr>"
  have "0 < length (b_blocks array_dropped)"
    "te_kind (bb_terminator (b_blocks array_dropped ! 0)) = TerminatorKind.Drop (Place_new 1) 1 None"
    "unat (1 :: BasicBlockIdx) < length (b_blocks array_dropped)"
    "place_ty drop_types (Place_new 1) (b_locals array_dropped) = Inr 41" "owning 41"
    "tl_ty_kind drop_types 41 = TyKind.Array 40 ?count" "0 < array_len ?count"
    "\<not> element_assigned array_dropped (pl_local (Place_new 1))" "indices_declared array_dropped (Place_new 1)"
    by (simp_all add: array_dropped_def place_ty_def iv_index_def idx_index_def Place_new_def drop_types_def owning_def
        array_len_def element_assigned_def indices_declared_def)
  from array_drop_runs [OF b(1) _ this b(2), of st] b(1)
  show "\<exists>body' start i m st'. elaborate_drops id drop_types owning cx array_dropped a = Inr (body', a) \<and>
     te_kind (bb_terminator (b_blocks body' ! 0)) = Goto start \<and>
     drop_run (b_blocks body') 1 m start st =
       ([(element_of (Place_new 1) i, [Num 1]), (element_of (Place_new 1) i, [Num 0])], Some st')"
    by (simp add: array_len_def index_dvals_def upt_rec [of 0] upt_rec [of "Suc 0"] Place_new_def del: drop_run.simps) blast
qed


text \<open>The types of flag arrays are interned into an arena that has the fixed types up to \<open>bool\<close>.\<close>

definition bool_arena :: TypeArena where
  "bool_arena = \<lparr>ta_types = [TyKind.Error, TyKind.Never, TyKind.Unit, TyKind.Bool], ta_type_flags = [HAS_ERROR, 0, 0, 0],
     ta_substitution_data = [],
     ta_type_index = [TyKind.Error \<mapsto> Ty_ERROR, TyKind.Never \<mapsto> Ty_NEVER, TyKind.Unit \<mapsto> Ty_UNIT, TyKind.Bool \<mapsto> Ty_BOOL],
     ta_subst_index = Map.empty\<rparr>"

lemma elements_dropped_runs:
  "\<exists>body' a'. elaborate_drops id drop_types owning cx elements_dropped bool_arena = Inr (body', a') \<and> indexable body'"
proof -
  from initialization_runs [OF arrays_dropped_ok(2)] obtain entry where "compute_initialized elements_dropped = Inr entry" by blast
  then show ?thesis unfolding elaborate_drops_def
    by (simp add: elements_dropped_def drop_sample_eval emit_array_drop_loop_def indexable_def Let_def project_index_ty_def
        mk_ty_def compute_flags_def or_ty_flags_def ty_flags_def alloc_ty_def bool_arena_def Ty_BOOL_def first_index_def
        set_flag_stmt_indexed_def)
qed

lemma element_flag_loop_never_ends_witness:
  "\<forall>cx. \<exists>body' a' start i. elaborate_drops id drop_types owning cx elements_dropped bool_arena = Inr (body', a') \<and>
     te_kind (bb_terminator (b_blocks body' ! 0)) = Goto start \<and>
     (\<forall>rounds st. drop_run (b_blocks body') 1 (Suc (2 * rounds)) start st =
       (replicate rounds (element_of (Place_new 1) i, [Num 2]), None))"
proof
  fix cx
  obtain body' a' where b: "elaborate_drops id drop_types owning cx elements_dropped bool_arena = Inr (body', a')"
    "indexable body'" using elements_dropped_runs by blast
  let ?count = "\<lparr>const_kind = ConstKind.Uint 2, const_ty = Ty_USIZE\<rparr>"
  let ?p = "\<lparr>pl_local = 1, pl_projection = [Index 2]\<rparr>"
  let ?s = "\<lparr>st_kind = store_unit ?p, st_source_info = SourceInfo_new Span_DUMMY\<rparr>"
  have "0 < length (b_blocks elements_dropped)"
    "te_kind (bb_terminator (b_blocks elements_dropped ! 0)) = TerminatorKind.Drop (Place_new 1) 1 None"
    "unat (1 :: BasicBlockIdx) < length (b_blocks elements_dropped)"
    "unat (1 :: LocalIdx) < length (b_locals elements_dropped)"
    "owning (ld_ty (b_locals elements_dropped ! unat (1 :: LocalIdx)))"
    "tl_ty_kind drop_types (ld_ty (b_locals elements_dropped ! unat (1 :: LocalIdx))) = TyKind.Array 40 ?count"
    "0 < array_len ?count" "b_blocks elements_dropped ! 0 \<in> set (b_blocks elements_dropped)"
    "?s \<in> set (bb_statements (b_blocks elements_dropped ! 0))" "st_kind ?s = Assign ?p (Use unit_const)"
    "pl_local ?p = 1" "has_index ?p" "place_ty drop_types ?p (b_locals elements_dropped) = Inr 40" "owning 40"
    by (simp_all add: elements_dropped_def place_ty_def iv_index_def idx_index_def drop_types_def owning_def store_unit_def
        array_len_def has_index_def project_index_ty_def)
  from element_flag_loop_never_ends [OF b(1) _ this b(2)] b(1)
  show "\<exists>body' a' start i. elaborate_drops id drop_types owning cx elements_dropped bool_arena = Inr (body', a') \<and>
     te_kind (bb_terminator (b_blocks body' ! 0)) = Goto start \<and>
     (\<forall>rounds st. drop_run (b_blocks body') 1 (Suc (2 * rounds)) start st =
       (replicate rounds (element_of (Place_new 1) i, [Num 2]), None))"
    by (simp add: array_len_def del: drop_run.simps) blast
qed

end
