(* ===== verification/Opt_Drop_Flags.thy ===== *)
theory Opt_Drop_Flags
  imports Opt_Drop_Theorems
begin

text \<open>
  What the drop flag of a local knows when the elaborated body runs on the machine for drops: it is
  clear when the body starts, set by every assignment of the local, and cleared by its guarded drops.
\<close>

section \<open>Statements that leave a local alone\<close>

definition run_stmts :: "Statement list \<Rightarrow> dstore \<Rightarrow> dstore" where
  "run_stmts ss st = fold (\<lambda>s. drop_stmt (st_kind s)) ss st"

lemma run_stmts_simps [simp]:
  "run_stmts [] st = st" "run_stmts (s # ss) st = run_stmts ss (drop_stmt (st_kind s) st)"
  "run_stmts (ss @ ts) st = run_stmts ts (run_stmts ss st)"
  by (simp_all add: run_stmts_def)

definition spares :: "LocalIdx \<Rightarrow> Statement \<Rightarrow> bool" where
  "spares f s \<longleftrightarrow> (\<forall>p rv. st_kind s = Assign p rv \<longrightarrow> pl_local p \<noteq> f)"

lemma drop_assign_other: "pl_local p \<noteq> f \<Longrightarrow> drop_assign p v st f = st f"
  by (auto simp: drop_assign_def split: list.splits ProjectionElem.splits dval.splits prod.splits)

lemma drop_stmt_spares: "spares f s \<Longrightarrow> drop_stmt (st_kind s) st f = st f"
  by (cases "st_kind s") (simp_all add: spares_def drop_assign_other)

lemma run_stmts_spares: "\<forall>s \<in> set ss. spares f s \<Longrightarrow> run_stmts ss st f = st f"
  by (induction ss arbitrary: st) (simp_all add: drop_stmt_spares)

lemma run_set_flag: "drop_stmt (st_kind (set_flag_stmt g v span)) st = st(g := num_of_bool v)"
  by (simp add: set_flag_stmt_def plain_stmt_def bool_operand_def drop_assign_def Place_new_def const_dval_def)

section \<open>What is put in front of the entry block\<close>

definition prefix_entry :: "Statement list \<Rightarrow> BasicBlockData list \<Rightarrow> BasicBlockData list" where
  "prefix_entry ss bs = bs[0 := (bs ! 0)\<lparr>bb_statements := ss @ bb_statements (bs ! 0)\<rparr>]"

lemma prefix_entry_simps [simp]:
  "prefix_entry ss bs = [] \<longleftrightarrow> bs = []" "length (prefix_entry ss bs) = length bs"
  "bs \<noteq> [] \<Longrightarrow> prefix_entry ss (prefix_entry ts bs) = prefix_entry (ss @ ts) bs"
  "bs \<noteq> [] \<Longrightarrow> prefix_entry [] bs = bs"
  by (cases bs; simp add: prefix_entry_def)+

lemma prefix_entry_nth:
  "i < length bs \<Longrightarrow> bb_statements (prefix_entry ss bs ! i) = (if i = 0 then ss else []) @ bb_statements (bs ! i)"
  by (cases bs) (auto simp: prefix_entry_def nth_Cons split: nat.split)

text \<open>The index of a local between two counts, and statements that make such locals live or assign them.\<close>

definition between :: "nat \<Rightarrow> nat \<Rightarrow> LocalIdx \<Rightarrow> bool" where
  "between lo hi f \<longleftrightarrow> (\<exists>n. lo \<le> n \<and> n < hi \<and> f = idx_from_usize n)"

definition flag_prefix :: "nat \<Rightarrow> nat \<Rightarrow> Statement list \<Rightarrow> bool" where
  "flag_prefix lo hi ss \<longleftrightarrow> (\<forall>s \<in> set ss. (\<exists>f. st_kind s = StorageLive f) \<or>
     (\<exists>f rv. st_kind s = Assign (Place_new f) rv \<and> between lo hi f))"

lemma between_mono:
  assumes "between lo hi f" and "lo' \<le> lo" and "hi \<le> hi'"
  shows "between lo' hi' f"
proof -
  from assms(1) obtain n where "lo \<le> n" "n < hi" "f = idx_from_usize n" by (auto simp: between_def)
  with assms(2,3) show ?thesis unfolding between_def by (intro exI [of _ n]) simp
qed

lemma between_unat: "between lo hi f \<Longrightarrow> hi \<le> 2 ^ 32 \<Longrightarrow> lo \<le> unat f \<and> unat f < hi"
  by (auto simp: between_def idx_from_usize_def unat_of_nat)

lemma flag_prefix_mono: "flag_prefix lo hi ss \<Longrightarrow> lo' \<le> lo \<Longrightarrow> hi \<le> hi' \<Longrightarrow> flag_prefix lo' hi' ss"
  unfolding flag_prefix_def by (meson between_mono)

lemma flag_prefix_append [simp]: "flag_prefix lo hi (ss @ ts) \<longleftrightarrow> flag_prefix lo hi ss \<and> flag_prefix lo hi ts"
  by (auto simp: flag_prefix_def)

lemma flag_prefix_spares:
  assumes "flag_prefix lo hi ss" and "hi \<le> 2 ^ 32" and "unat f < lo" and "s \<in> set ss"
  shows "spares f s"
  using assms between_unat [of lo hi] by (fastforce simp: flag_prefix_def spares_def Place_new_def)

lemma push_flag_exact:
  assumes "push_flag ty init body = Inr (flag, body')"
  shows "flag = idx_from_usize (length (b_locals body)) \<and> length (b_locals body') = Suc (length (b_locals body)) \<and>
    b_blocks body \<noteq> [] \<and>
    b_blocks body' = prefix_entry [plain_stmt Span_DUMMY (StorageLive flag), plain_stmt Span_DUMMY (Assign (Place_new flag) init)]
      (b_blocks body)"
  using assms by (auto simp: push_flag_def iv_push_def pbind_Inr_iff vec_index_def prefix_entry_def split: if_splits)

lemma push_flag_prefix:
  "flag = idx_from_usize n \<Longrightarrow> n < hi \<Longrightarrow>
     flag_prefix n hi [plain_stmt sp (StorageLive flag), plain_stmt sp (Assign (Place_new flag) init)]"
  by (auto simp: flag_prefix_def plain_stmt_def between_def)

text \<open>The flags of locals are different locals, and false when the prefix has run.\<close>

lemma create_local_flags_prefix:
  "create_local_flags flags body = Inr (flags', body') \<Longrightarrow> b_blocks body \<noteq> [] \<Longrightarrow> length (b_locals body') \<le> 2 ^ 32 \<Longrightarrow>
    length (b_locals body) \<le> length (b_locals body') \<and> length flags' = length flags \<and>
    (\<forall>f. Some f \<in> set flags' \<longrightarrow> between (length (b_locals body)) (length (b_locals body')) f) \<and>
    (\<forall>i j. i < length flags' \<and> j < length flags' \<and> i \<noteq> j \<and> flags' ! i = flags' ! j \<longrightarrow> flags' ! i = None) \<and>
    (\<exists>ss. b_blocks body' = prefix_entry ss (b_blocks body) \<and>
       flag_prefix (length (b_locals body)) (length (b_locals body')) ss \<and>
       (\<forall>f st. Some f \<in> set flags' \<longrightarrow> run_stmts ss st f = Num 0))"
proof (induction flags body arbitrary: flags' body' rule: create_local_flags.induct)
  case (1 body)
  then show ?case by (auto intro!: exI [of _ "[]"] simp: flag_prefix_def)
next
  case (2 flags body)
  then obtain fs where c: "create_local_flags flags body = Inr (fs, body')" "flags' = None # fs" by (auto simp: pbind_Inr_iff)
  from "2.IH" [OF c(1) "2.prems"(2,3)] c(2) show ?case by (auto simp: nth_Cons split: nat.splits)
next
  case (3 v flags body)
  let ?n = "length (b_locals body)" and ?n' = "length (b_locals body')"
  from "3.prems"(1) obtain flag body1 fs where c: "push_flag Ty_BOOL (Use (bool_operand Span_DUMMY False)) body = Inr (flag, body1)"
    "create_local_flags flags body1 = Inr (fs, body')" "flags' = Some flag # fs" by (auto simp: pbind_Inr_iff)
  let ?new = "[plain_stmt Span_DUMMY (StorageLive flag), plain_stmt Span_DUMMY (Assign (Place_new flag) (Use (bool_operand Span_DUMMY False)))]"
  have p: "flag = idx_from_usize ?n" "length (b_locals body1) = Suc ?n" "b_blocks body1 = prefix_entry ?new (b_blocks body)"
    using push_flag_exact [OF c(1)] by auto
  have "b_blocks body1 \<noteq> []" using p(3) "3.prems"(2) by simp
  from "3.IH" [OF c(2) this "3.prems"(3)] p(2) obtain ss where
    le: "Suc ?n \<le> ?n'" and len: "length fs = length flags"
    and bt: "\<And>f. Some f \<in> set fs \<Longrightarrow> between (Suc ?n) ?n' f"
    and ds: "\<And>i j. i < length fs \<Longrightarrow> j < length fs \<Longrightarrow> i \<noteq> j \<Longrightarrow> fs ! i = fs ! j \<Longrightarrow> fs ! i = None"
    and ss: "b_blocks body' = prefix_entry ss (b_blocks body1)" "flag_prefix (Suc ?n) ?n' ss"
    and zero: "\<And>f st. Some f \<in> set fs \<Longrightarrow> run_stmts ss st f = Num 0"
    by auto
  have flag: "between ?n ?n' flag" using p(1) le by (auto simp: between_def)
  have un: "unat flag = ?n" using p(1) le "3.prems"(3) by (simp add: idx_from_usize_def unat_of_nat)
  have new: "Some flag \<notin> set fs"
  proof
    assume "Some flag \<in> set fs"
    from between_unat [OF bt [OF this] "3.prems"(3)] un show False by simp
  qed
  have run_new: "run_stmts ?new st = st(flag := Num 0)" for st
    using run_set_flag [of flag False Span_DUMMY st] by (simp add: set_flag_stmt_def plain_stmt_def num_of_bool_def)
  have pre: "b_blocks body' = prefix_entry (ss @ ?new) (b_blocks body)" using ss(1) p(3) "3.prems"(2) by simp
  have fp: "flag_prefix ?n ?n' (ss @ ?new)"
    using flag_prefix_mono [OF ss(2), of ?n ?n'] push_flag_prefix [OF p(1)] le by simp
  have z: "run_stmts (ss @ ?new) st f = Num 0" if "Some f \<in> set flags'" for f st
    unfolding run_stmts_simps(3) run_new using that zero [of f st] c(3) by auto
  have d: "flags' ! i = None" if "i < length flags'" "j < length flags'" "i \<noteq> j" "flags' ! i = flags' ! j" for i j
    using that new ds [of "i - 1" "j - 1"] unfolding c(3) by (cases i; cases j) (auto simp: in_set_conv_nth)
  have b: "between ?n ?n' f" if "Some f \<in> set flags'" for f
    using that flag bt [of f] between_mono [of "Suc ?n" ?n' f ?n ?n'] c(3) by auto
  show ?case using le len c(3) b d pre fp z by (auto simp del: run_stmts_simps)
qed

lemma create_element_flags_prefix:
  "create_element_flags cx elems (body, a) = Inr (elems', body', a') \<Longrightarrow> b_blocks body \<noteq> [] \<Longrightarrow>
    length (b_locals body) \<le> length (b_locals body') \<and>
    (\<forall>e \<in> set elems'. e \<in> set elems \<or> between (length (b_locals body)) (length (b_locals body')) (fst (snd e))) \<and>
    (\<exists>ss. b_blocks body' = prefix_entry ss (b_blocks body) \<and> flag_prefix (length (b_locals body)) (length (b_locals body')) ss)"
proof (induction elems arbitrary: body a elems' body' a')
  case Nil
  then show ?case by (auto intro!: exI [of _ "[]"] simp: flag_prefix_def)
next
  case (Cons e elems)
  obtain l old len where e: "e = (l, old, len)" by (metis prod_cases3)
  let ?n = "length (b_locals body)" and ?n' = "length (b_locals body')"
  show ?case
  proof (cases "len = 0")
    case True
    with Cons.prems(1) e obtain rest where "create_element_flags cx elems (body, a) = Inr (rest, body', a')" "elems' = e # rest"
      by (auto simp: pbind_Inr_iff)
    with Cons.IH [OF this(1) Cons.prems(2)] show ?thesis by auto
  next
    case False
    with Cons.prems(1) e obtain ty init flag body1 a2 rest where c: "push_flag ty init body = Inr (flag, body1)"
      "create_element_flags cx elems (body1, a2) = Inr (rest, body', a')" "elems' = (l, flag, len) # rest"
      by (fastforce simp: pbind_Inr_iff)
    let ?new = "[plain_stmt Span_DUMMY (StorageLive flag), plain_stmt Span_DUMMY (Assign (Place_new flag) init)]"
    have p: "flag = idx_from_usize ?n" "length (b_locals body1) = Suc ?n" "b_blocks body1 = prefix_entry ?new (b_blocks body)"
      using push_flag_exact [OF c(1)] by auto
    have "b_blocks body1 \<noteq> []" using p(3) Cons.prems(2) by simp
    from Cons.IH [OF c(2) this] p(2) obtain ss where le: "Suc ?n \<le> ?n'"
      and bt: "\<forall>e \<in> set rest. e \<in> set elems \<or> between (Suc ?n) ?n' (fst (snd e))"
      and ss: "b_blocks body' = prefix_entry ss (b_blocks body1)" "flag_prefix (Suc ?n) ?n' ss" by auto
    have "b_blocks body' = prefix_entry (ss @ ?new) (b_blocks body)" using ss(1) p(3) Cons.prems(2) by simp
    moreover have "flag_prefix ?n ?n' (ss @ ?new)"
      using flag_prefix_mono [OF ss(2), of ?n ?n'] push_flag_prefix [OF p(1)] le by simp
    moreover have "between ?n ?n' flag" using p(1) le by (auto simp: between_def)
    moreover have "\<forall>e \<in> set rest. e \<in> set elems \<or> between ?n ?n' (fst (snd e))" using bt by (auto intro: between_mono)
    ultimately show ?thesis using le c(3) by auto
  qed
qed

section \<open>The flags of a pass\<close>

lemma set_update_sub: "set (AList.update k v al) \<subseteq> insert (k, v) (set al)"
  by (induction al) auto

lemma flag_local_decl_elements:
  "e \<in> set (df_per_element (flag_local_decl tc nd built ld flags)) \<Longrightarrow> e \<in> set (df_per_element flags) \<or> fst (snd e) = 0"
  by (cases ld) (auto simp: flag_local_decl_def dest!: subsetD [OF set_update_sub] split: TyKind.splits if_splits)

lemma DropFlags_new_elements:
  assumes "DropFlags_new tc nd body = Inr flags0" and "e \<in> set (df_per_element flags0)"
  shows "fst (snd e) = 0" and "element_assigned body (fst e)"
proof -
  have step: "fst (snd e) = 0" if "e \<in> set (df_per_element (fold (flag_local_decl tc nd built) lds flags))"
    "\<forall>e \<in> set (df_per_element flags). fst (snd e) = 0" for e built lds flags
    using that
  proof (induction lds arbitrary: flags)
    case (Cons ld lds)
    have "\<forall>e \<in> set (df_per_element (flag_local_decl tc nd built ld flags)). fst (snd e) = 0"
      using Cons.prems(2) flag_local_decl_elements by blast
    with Cons show ?case by simp
  qed simp
  show "fst (snd e) = 0" using assms step by (fastforce simp: DropFlags_new_def pbind_Inr_iff)
  show "element_assigned body (fst e)"
    using DropFlags_new_keys(1) [OF assms(1)] assms(2) by (simp add: element_keys_def)
qed

text \<open>What \<open>create_flags\<close> guarantees of the flag \<open>f\<close> of the local \<open>l\<close>.\<close>

definition own_flag :: "DropFlags \<Rightarrow> LocalIdx \<Rightarrow> LocalIdx \<Rightarrow> bool" where
  "own_flag flags l f \<longleftrightarrow> get_flag flags l = Some f \<and> (\<forall>x. get_flag flags x = Some f \<longrightarrow> x = l) \<and>
     (\<forall>e \<in> set (df_per_element flags). fst (snd e) \<noteq> f)"

lemma create_flags_own:
  assumes new: "DropFlags_new tc nd body = Inr flags0" and cr: "create_flags visit cx flags0 body a = Inr (flags, body1, a')"
    and visit: "\<And>xs. set (visit xs) = set xs" and blocks: "b_blocks body \<noteq> []" and small: "length (b_locals body1) \<le> 2 ^ 32"
    and l: "unat l < length (b_locals body)" and f: "get_flag flags l = Some f"
  shows "own_flag flags l f \<and> between (length (b_locals body)) (length (b_locals body1)) f \<and>
    length (df_flag_for_local flags) = length (df_flag_for_local flags0) \<and>
    (\<exists>ss. b_blocks body1 = prefix_entry ss (b_blocks body) \<and>
       flag_prefix (length (b_locals body)) (length (b_locals body1)) ss \<and> (\<forall>st. run_stmts ss st f = Num 0))"
proof -
  let ?n = "length (b_locals body)" and ?n1 = "length (b_locals body1)"
  from cr obtain ls body2 es where c: "create_local_flags (df_flag_for_local flags0) body = Inr (ls, body2)"
    "create_element_flags cx (visit (df_per_element flags0)) (body2, a) = Inr (es, body1, a')"
    "flags = \<lparr>df_flag_for_local = ls, df_per_element = es\<rparr>" by (auto simp: create_flags_def pbind_Inr_iff)
  let ?n2 = "length (b_locals body2)"
  have "grown body body2" using create_local_flags_grown [OF c(1)] by simp
  then have b2: "b_blocks body2 \<noteq> []" using grown_length blocks by force
  from create_element_flags_prefix [OF c(2) b2] obtain ss2 where le2: "?n2 \<le> ?n1"
    and es: "\<forall>e \<in> set es. e \<in> set (df_per_element flags0) \<or> between ?n2 ?n1 (fst (snd e))"
    and ss2: "b_blocks body1 = prefix_entry ss2 (b_blocks body2)" "flag_prefix ?n2 ?n1 ss2"
    unfolding visit by blast
  from le2 small have small2: "?n2 \<le> 2 ^ 32" by simp
  from create_local_flags_prefix [OF c(1) blocks small2] obtain ss1 where le1: "?n \<le> ?n2"
    and len: "length ls = length (df_flag_for_local flags0)" and bt: "\<And>f. Some f \<in> set ls \<Longrightarrow> between ?n ?n2 f"
    and ds: "\<And>i j. i < length ls \<Longrightarrow> j < length ls \<Longrightarrow> i \<noteq> j \<Longrightarrow> ls ! i = ls ! j \<Longrightarrow> ls ! i = None"
    and ss1: "b_blocks body2 = prefix_entry ss1 (b_blocks body)" "flag_prefix ?n ?n2 ss1"
    and zero: "\<And>f st. Some f \<in> set ls \<Longrightarrow> run_stmts ss1 st f = Num 0" by blast
  have fl: "unat l < length ls" "ls ! unat l = Some f" using f c(3) by (auto simp: get_flag_def split: if_splits)
  then have mem: "Some f \<in> set ls" by (metis nth_mem)
  have uf: "?n \<le> unat f" "unat f < ?n2" using between_unat [OF bt [OF mem] small2] by auto
  have uniq: "x = l" if "get_flag flags x = Some f" for x
  proof -
    have "unat x < length ls" "ls ! unat x = Some f" using that c(3) by (auto simp: get_flag_def split: if_splits)
    with ds [of "unat x" "unat l"] fl have "unat x = unat l" by fastforce
    then show ?thesis by (simp add: word_unat_eq_iff)
  qed
  have "fst (snd e) \<noteq> f" if "e \<in> set es" for e
  proof
    assume eq: "fst (snd e) = f"
    show False
    proof (cases "e \<in> set (df_per_element flags0)")
      case True
      with DropFlags_new_elements(1) [OF new] eq uf(1) l show False by fastforce
    next
      case False
      with es that eq have "between ?n2 ?n1 f" by blast
      from between_unat [OF this small] uf(2) show False by simp
    qed
  qed
  moreover have "df_per_element flags = es" using c(3) by simp
  ultimately have own: "own_flag flags l f" unfolding own_flag_def using f uniq by blast
  have sp: "run_stmts ss2 st f = st f" for st
    by (rule run_stmts_spares) (use flag_prefix_spares [OF ss2(2) small uf(2)] in blast)
  have bb: "b_blocks body1 = prefix_entry (ss2 @ ss1) (b_blocks body)" using ss1(1) ss2(1) blocks by simp
  have fp: "flag_prefix ?n ?n1 (ss2 @ ss1)"
    using flag_prefix_mono [OF ss2(2) le1 order_refl] flag_prefix_mono [OF ss1(2) order_refl le2] by simp
  have "run_stmts (ss2 @ ss1) st f = Num 0" for st by (simp add: zero [OF mem])
  moreover have "length (df_flag_for_local flags) = length (df_flag_for_local flags0)" using c(3) len by simp
  moreover have "between ?n ?n1 f" by (rule between_mono [OF bt [OF mem] order_refl le2])
  ultimately show ?thesis using own bb fp by blast
qed

section \<open>Running an elaborated block\<close>

lemma element_flag_stmts_cases:
  "element_flag_stmts flags span s = [] \<or>
   (\<exists>e i. e \<in> set (df_per_element flags) \<and> element_flag_stmts flags span s = [set_flag_stmt_indexed (fst (snd e)) i True span])"
proof (cases "st_kind s")
  case (Assign p rv)
  show ?thesis
  proof (cases "map_of (df_per_element flags) (pl_local p)")
    case None
    with Assign show ?thesis by (simp add: element_flag_stmts_def)
  next
    case (Some g)
    then have "(pl_local p, g) \<in> set (df_per_element flags)" by (rule map_of_SomeD)
    with Assign Some show ?thesis
      by (cases "first_index p"; cases g) (force simp: element_flag_stmts_def)+
  qed
qed (simp_all add: element_flag_stmts_def)

lemma element_flag_stmts_spare:
  assumes "\<forall>e \<in> set (df_per_element flags). fst (snd e) \<noteq> f"
  shows "\<forall>t \<in> set (element_flag_stmts flags span s). spares f t"
proof (cases "element_flag_stmts flags span s = []")
  case False
  then obtain e i where e: "e \<in> set (df_per_element flags)"
    "element_flag_stmts flags span s = [set_flag_stmt_indexed (fst (snd e)) i True span]"
    using element_flag_stmts_cases [of flags span s] by blast
  from assms e(1) have "fst (snd e) \<noteq> f" by blast
  with e(2) show ?thesis by (simp add: spares_def set_flag_stmt_indexed_def plain_stmt_def)
qed simp

text \<open>A statement with what is inserted behind it: the flag is set if the local is assigned.\<close>

lemma flag_statement_run:
  assumes "own_flag flags l f" and "spares f s"
  shows "run_stmts (flag_statement flags s) st f = (if assigned_local s = Some l then Num 1 else st f)"
proof -
  let ?span = "si_span (st_source_info s)"
  let ?st = "drop_stmt (st_kind s) st"
  have own: "get_flag flags l = Some f" "\<And>x. get_flag flags x = Some f \<Longrightarrow> x = l"
    "\<forall>e \<in> set (df_per_element flags). fst (snd e) \<noteq> f" using assms(1) by (auto simp: own_flag_def)
  note e = element_flag_stmts_spare [OF own(3)]
  note run_e = run_stmts_spares [OF e]
  have st: "?st f = st f" using assms(2) by (rule drop_stmt_spares)
  show ?thesis
  proof (cases "Option.bind (assigned_local s) (get_flag flags)")
    case None
    then have "flag_statement flags s = s # element_flag_stmts flags ?span s" by (simp add: flag_statement_def Let_def)
    moreover from None own(1) have "assigned_local s \<noteq> Some l" by auto
    ultimately show ?thesis by (simp add: run_e st)
  next
    case (Some g)
    then obtain x where x: "assigned_local s = Some x" "get_flag flags x = Some g" by (auto simp: bind_eq_Some_conv)
    have fs: "flag_statement flags s = s # set_flag_stmt g True ?span # element_flag_stmts flags ?span (set_flag_stmt g True ?span)"
      using Some by (simp add: flag_statement_def Let_def)
    have "run_stmts (flag_statement flags s) st f = (?st(g := Num 1)) f"
      unfolding fs run_stmts_simps run_set_flag run_e by (simp add: num_of_bool_def)
    moreover have "g = f \<longleftrightarrow> x = l" using x(2) own(1,2) by (metis option.inject)
    ultimately show ?thesis using x(1) st by (cases "x = l") auto
  qed
qed

definition assigns :: "Statement list \<Rightarrow> LocalIdx \<Rightarrow> bool" where
  "assigns ss l \<longleftrightarrow> list_ex (\<lambda>s. assigned_local s = Some l) ss"

lemma assigns_simps [simp]:
  "assigns [] l = False" "assigns (s # ss) l \<longleftrightarrow> assigned_local s = Some l \<or> assigns ss l"
  by (simp_all add: assigns_def)

lemma flag_statements_run:
  "own_flag flags l f \<Longrightarrow> \<forall>s \<in> set ss. spares f s \<Longrightarrow>
     run_stmts (concat (map (flag_statement flags) ss)) st f = (if assigns ss l then Num 1 else st f)"
  by (induction ss arbitrary: st) (simp_all add: flag_statement_run)

text \<open>Nothing is inserted into the prefix of the entry block.\<close>

lemma flag_prefix_same:
  assumes "flag_prefix lo hi ss" and "hi \<le> 2 ^ 32" and "length (df_flag_for_local flags) \<le> lo"
    and "\<forall>e \<in> set (df_per_element flags). unat (fst e) < lo"
  shows "concat (map (flag_statement flags) ss) = ss"
  using assms(1)
proof (induction ss)
  case (Cons s ss)
  have "flag_statement flags s = [s]"
  proof (cases "\<exists>f. st_kind s = StorageLive f")
    case True
    then show ?thesis by (auto simp: flag_statement_def assigned_local_def element_flag_stmts_def)
  next
    case False
    with Cons.prems obtain f rv where s: "st_kind s = Assign (Place_new f) rv" "between lo hi f"
      by (auto simp: flag_prefix_def)
    have "lo \<le> unat f" using between_unat [OF s(2) assms(2)] by simp
    with assms(3,4) have "get_flag flags f = None" "map_of (df_per_element flags) f = None"
      by (auto simp: get_flag_def map_of_eq_None_iff)
    with s(1) show ?thesis
      by (simp add: flag_statement_def assigned_local_def element_flag_stmts_def Place_new_def)
  qed
  with Cons show ?case by (simp add: flag_prefix_def)
qed simp

section \<open>The whole pass\<close>

lemma declared_spares: "stmt_declared n (st_kind s) \<Longrightarrow> n \<le> unat f \<Longrightarrow> spares f s"
  by (auto simp: spares_def)

lemma element_assigned_declared:
  "drop_body_ok body \<Longrightarrow> element_assigned body l \<Longrightarrow> unat l < length (b_locals body)"
  unfolding drop_body_ok_def element_assigned_def by fastforce

lemma DropFlags_new_length:
  "DropFlags_new tc nd body = Inr flags0 \<Longrightarrow> length (df_flag_for_local flags0) = length (b_locals body)"
  by (auto simp: DropFlags_new_def pbind_Inr_iff flag_local_decls_flags)

text \<open>The blocks behind a guard.\<close>

lemma guard_runs:
  assumes "bb_statements (bs ! unat d) = [set_flag_stmt flag False span]"
    and "te_kind (bb_terminator (bs ! unat d)) = TerminatorKind.Drop (Place_new l) target cleanup" and "d \<noteq> target"
  shows "drop_target st (SwitchInt (Operand.Copy (Place_new flag)) Ty_BOOL (if_switch d target)) =
      (case st flag of Num v \<Rightarrow> Some (if v = 1 then d else target, []) | _ \<Rightarrow> None)"
    and "drop_run bs target 1 d st = ([(Place_new l, [])], Some (st(flag := Num 0)))"
proof -
  show "drop_target st (SwitchInt (Operand.Copy (Place_new flag)) Ty_BOOL (if_switch d target)) =
      (case st flag of Num v \<Rightarrow> Some (if v = 1 then d else target, []) | _ \<Rightarrow> None)"
    by (simp add: drop_target_def place_dval_def Place_new_def if_switch_def split: dval.split)
  have "drop_target (st(flag := Num 0)) (TerminatorKind.Drop (Place_new l) target cleanup) = Some (target, [(Place_new l, [])])"
    by (simp add: drop_target_def drop_event_def index_dvals_def Place_new_def)
  with assms run_set_flag [of flag False span st] show "drop_run bs target 1 d st = ([(Place_new l, [])], Some (st(flag := Num 0)))"
    by (simp add: Let_def num_of_bool_def)
qed

lemma flags_track:
  assumes run: "elaborate_drops visit tc needs_drop cx body a = Inr (body', a')" and visit: "\<And>xs. set (visit xs) = set xs"
    and ok: "drop_body_ok body" "indexable body'"
    and l: "unat l < length (b_locals body)" "needs_drop (ld_ty (b_locals body ! unat l))"
      "\<forall>e c. tl_ty_kind tc (ld_ty (b_locals body ! unat l)) \<noteq> TyKind.Array e c"
  shows "\<exists>flag. length (b_locals body) \<le> unat flag \<and> unat flag < length (b_locals body') \<and>
    (\<forall>i < length (b_blocks body). \<forall>st. run_stmts (bb_statements (b_blocks body' ! i)) st flag =
       (if assigns (bb_statements (b_blocks body ! i)) l then Num 1 else if i = 0 then Num 0 else st flag)) \<and>
    (\<forall>b target cleanup. b < length (b_blocks body) \<and> maybe_uninit body b (unat l) \<and>
       te_kind (bb_terminator (b_blocks body ! b)) = TerminatorKind.Drop (Place_new l) target cleanup \<longrightarrow>
       (\<exists>d. \<forall>st. drop_target st (te_kind (bb_terminator (b_blocks body' ! b))) =
              (case st flag of Num v \<Rightarrow> Some (if v = 1 then d else target, []) | _ \<Rightarrow> None) \<and>
            drop_run (b_blocks body') target 1 d st = ([(Place_new l, [])], Some (st(flag := Num 0)))))"
proof -
  let ?n = "length (b_locals body)" and ?m = "length (b_blocks body)"
  from elaborate_drops_blocks [OF run] obtain an flags0 flags body1 where
    an: "compute_initialized body = Inr an" and new: "DropFlags_new tc needs_drop body = Inr flags0"
    and cr: "create_flags visit cx flags0 body a = Inr (flags, body1, a')"
    and el: "\<And>i. i < ?m \<Longrightarrow> elaborated tc needs_drop flags an ?m (b_locals body1) (b_locals body', b_blocks body') i
      (insert_flags flags (b_blocks body1 ! i))"
    and more: "?m \<le> length (b_blocks body')" and ext: "\<exists>ext. b_locals body' = b_locals body1 @ ext" by metis
  let ?n1 = "length (b_locals body1)"
  have n1: "?n1 \<le> length (b_locals body')" using ext by auto
  with ok(2) have small: "?n1 \<le> 2 ^ 32" by (simp add: indexable_def)
  have blocks: "b_blocks body \<noteq> []" using ok(1) by (simp add: drop_body_ok_def)
  have hf: "has_flag l flags0" by (rule DropFlags_new_keys(3) [OF new l])
  then obtain f where f: "get_flag flags l = Some f" using create_flags_grown(3) [OF cr hf] by blast
  from create_flags_own [OF new cr visit blocks small l(1) f] obtain ss where own: "own_flag flags l f"
    and bt: "between ?n ?n1 f" and len: "length (df_flag_for_local flags) = length (df_flag_for_local flags0)"
    and ss: "b_blocks body1 = prefix_entry ss (b_blocks body)" "flag_prefix ?n ?n1 ss" "\<And>st. run_stmts ss st f = Num 0" by blast
  have uf: "?n \<le> unat f" "unat f < ?n1" using between_unat [OF bt small] by auto
  have "unat (fst e) < ?n" if "e \<in> set (df_per_element flags)" for e
    using that create_flags_grown(2) [OF cr visit] DropFlags_new_keys(1) [OF new] element_assigned_declared [OF ok(1)]
    by (metis element_keys_def image_eqI)
  then have pre: "concat (map (flag_statement flags) ss) = ss"
    using flag_prefix_same [OF ss(2) small] len DropFlags_new_length [OF new] by simp
  have stmts: "run_stmts (bb_statements (b_blocks body' ! i)) st f =
      (if assigns (bb_statements (b_blocks body ! i)) l then Num 1 else if i = 0 then Num 0 else st f)"
    if i: "i < ?m" for i st
  proof -
    have sp: "\<forall>s \<in> set (bb_statements (b_blocks body ! i)). spares f s"
      using ok(1) i uf(1) declared_spares unfolding drop_body_ok_def by (meson nth_mem)
    have "bb_statements (b_blocks body' ! i) = concat (map (flag_statement flags) (bb_statements (b_blocks body1 ! i)))"
      using el [OF i] by (auto simp: elaborated_def insert_flags_def)
    also have "\<dots> = (if i = 0 then ss else []) @ concat (map (flag_statement flags) (bb_statements (b_blocks body ! i)))"
      using i pre by (simp add: ss(1) prefix_entry_nth)
    finally show ?thesis using flag_statements_run [OF own sp] ss(3) by simp
  qed
  have guard: "\<exists>d. \<forall>st. drop_target st (te_kind (bb_terminator (b_blocks body' ! b))) =
        (case st f of Num v \<Rightarrow> Some (if v = 1 then d else target, []) | _ \<Rightarrow> None) \<and>
      drop_run (b_blocks body') target 1 d st = ([(Place_new l, [])], Some (st(f := Num 0)))"
    if b: "b < ?m" "maybe_uninit body b (unat l)"
      "te_kind (bb_terminator (b_blocks body ! b)) = TerminatorKind.Drop (Place_new l) target cleanup" for b target cleanup
  proof -
    from guarded_drop_block [OF an new cr el [OF b(1)] more ok b(1,3) l f] b(2) obtain d span where
      k: "te_kind (bb_terminator (b_blocks body' ! b)) = SwitchInt (Operand.Copy (Place_new f)) Ty_BOOL (if_switch d target)"
      and d: "?m \<le> unat d" "bb_statements (b_blocks body' ! unat d) = [set_flag_stmt f False span]"
        "te_kind (bb_terminator (b_blocks body' ! unat d)) = TerminatorKind.Drop (Place_new l) target cleanup" by auto
    have "target \<in> set (block_successors (b_blocks body ! b))" using b(3) by (simp add: block_successors_def)
    then have "unat target < ?m" using ok(1) b(1) by (auto simp: drop_body_ok_def targets_ok_def)
    with d(1) have "d \<noteq> target" by auto
    from guard_runs [OF d(2,3) this] k show ?thesis by (intro exI [of _ d] allI) simp
  qed
  from uf n1 stmts guard show ?thesis by (intro exI [of _ f]) auto
qed



end
