(* ===== verification/Borrowck_Twophase.thy ===== *)
theory Borrowck_Twophase
  imports Borrowck_Liveness
begin

text \<open>
  \<open>crates/glyim-borrowck/src/twophase.rs\<close>: where a two-phase mutable borrow is still only
  reserved, that is, its reference has not been read yet.

  \<open>rv_queue\<close> is the \<open>VecDeque\<close> (popped at the front) and \<open>rv_in_worklist\<close> the hash set of its
  members.  The loop has no bound in the source: it is a partial function, and \<open>None\<close> is "does
  not return".
\<close>

record 'b Reservation =
  rv_per_block :: "'b list"
  rv_entry :: "bool list"
  rv_exit :: "bool list"
  rv_queue :: "nat list"
  rv_in_worklist :: "nat set"

section \<open>The transfer of a block\<close>

fun reads_dest :: "LocalIdx \<Rightarrow> StatementKind \<Rightarrow> panicked + bool" where
  "reads_dest dest (Assign _ rvalue) = walk_rvalue_reads rvalue (read_checker dest) False"
| "reads_dest dest _ = Inr False"

definition mark :: "'b BitSetOps \<Rightarrow> bool \<Rightarrow> nat \<Rightarrow> 'b \<Rightarrow> panicked + 'b" where
  "mark ops current i b = (if current then bit_insert ops i b else Inr b)"

fun reserve_stmts ::
    "'b BitSetOps \<Rightarrow> LocalIdx \<Rightarrow> nat \<Rightarrow> Statement list \<Rightarrow> bool \<Rightarrow> 'b \<Rightarrow> panicked + 'b \<times> bool" where
  "reserve_stmts ops dest i [] current b = pbind (mark ops current i b) (\<lambda>b'. Inr (b', current))"
| "reserve_stmts ops dest i (st # sts) current b =
     pbind (mark ops current i b) (\<lambda>b'.
     pbind (reads_dest dest (st_kind st)) (\<lambda>found.
       reserve_stmts ops dest (Suc i) sts (if found then False else current) b'))"

definition transfer ::
    "'b BitSetOps \<Rightarrow> Body \<Rightarrow> LocalIdx \<Rightarrow> nat \<Rightarrow> nat \<Rightarrow> bool \<Rightarrow> panicked + 'b \<times> bool" where
  "transfer ops body dest block start current =
     pbind (vec_index (b_blocks body) block) (\<lambda>bb.
       let n = length (bb_statements bb); none = bs_with_capacity ops (n + 1) in
       if start \<le> n then reserve_stmts ops dest start (drop start (bb_statements bb)) current none
       else Inr (none, current))"

section \<open>The loop\<close>

definition enqueue_back :: "nat \<Rightarrow> 'b Reservation \<Rightarrow> 'b Reservation" where
  "enqueue_back s rv =
     (if s \<in> rv_in_worklist rv then rv
      else rv\<lparr>rv_in_worklist := insert s (rv_in_worklist rv), rv_queue := rv_queue rv @ [s]\<rparr>)"

definition first_entry :: "nat \<Rightarrow> 'b Reservation \<Rightarrow> panicked + 'b Reservation" where
  "first_entry s rv =
     pbind (vec_index (rv_entry rv) s) (\<lambda>e.
       if e then Inr rv
       else pbind (vec_set s True (rv_entry rv)) (\<lambda>es. Inr (enqueue_back s (rv\<lparr>rv_entry := es\<rparr>))))"

definition any_exit :: "nat list \<Rightarrow> bool list \<Rightarrow> panicked + bool" where
  "any_exit ps exits = pfold (\<lambda>p found. if found then Inr True else vec_index exits p) ps False"

definition update_entry :: "nat list list \<Rightarrow> nat \<Rightarrow> 'b Reservation \<Rightarrow> panicked + 'b Reservation" where
  "update_entry preds s rv =
     pbind (vec_index preds s) (\<lambda>ps.
     pbind (any_exit ps (rv_exit rv)) (\<lambda>new_entry.
     pbind (vec_index (rv_entry rv) s) (\<lambda>e.
       if new_entry = e then Inr rv
       else pbind (vec_set s new_entry (rv_entry rv)) (\<lambda>es. Inr (enqueue_back s (rv\<lparr>rv_entry := es\<rparr>))))))"

definition reservation_step ::
    "'b BitSetOps \<Rightarrow> Body \<Rightarrow> LocalIdx \<Rightarrow> nat list list \<Rightarrow> nat \<Rightarrow> 'b Reservation \<Rightarrow> panicked + 'b Reservation" where
  "reservation_step ops body dest preds block rv =
     pbind (vec_index (rv_entry rv) block) (\<lambda>entry.
     pbind (transfer ops body dest block 0 entry) (\<lambda>(b, exit).
     pbind (vec_index (rv_per_block rv) block) (\<lambda>old_bits.
     pbind (vec_index (rv_exit rv) block) (\<lambda>old_exit.
       if \<not> bs_eq ops b old_bits \<or> exit \<noteq> old_exit then
         pbind (vec_set block b (rv_per_block rv)) (\<lambda>pb.
         pbind (vec_set block exit (rv_exit rv)) (\<lambda>ex.
         pbind (vec_index (b_blocks body) block) (\<lambda>bb.
           pfold (update_entry preds) (successors_of bb) (rv\<lparr>rv_per_block := pb, rv_exit := ex\<rparr>))))
       else Inr rv))))"

partial_function (option) reservation_loop ::
    "(nat \<Rightarrow> 'b Reservation \<Rightarrow> panicked + 'b Reservation) \<Rightarrow> 'b Reservation \<Rightarrow>
     (panicked + 'b Reservation) option" where
  "reservation_loop step rv =
     (if rv_queue rv = [] then Some (Inr rv)
      else (case step (hd (rv_queue rv))
                (rv\<lparr>rv_queue := tl (rv_queue rv),
                    rv_in_worklist := rv_in_worklist rv - {hd (rv_queue rv)}\<rparr>) of
              Inl e \<Rightarrow> Some (Inl e)
            | Inr rv' \<Rightarrow> reservation_loop step rv'))"

text \<open>Up to the loop: the loan's own block, from behind the loan.\<close>

definition reservation_start ::
    "'b BitSetOps \<Rightarrow> Body \<Rightarrow> nat \<Rightarrow> nat \<Rightarrow> LocalIdx \<Rightarrow> panicked + 'b Reservation" where
  "reservation_start ops body loan_block loan_stmt dest =
     (let n = length (b_blocks body);
          rv = \<lparr>rv_per_block = map (\<lambda>bb. bs_with_capacity ops (length (bb_statements bb) + 1)) (b_blocks body),
                rv_entry = replicate n False, rv_exit = replicate n False, rv_queue = [],
                rv_in_worklist = {}\<rparr> in
      pbind (vec_index (b_blocks body) loan_block) (\<lambda>bb.
      pbind (transfer ops body dest loan_block (loan_stmt + 1) True) (\<lambda>(b, exit).
      pbind (vec_set loan_block b (rv_per_block rv)) (\<lambda>pb.
      pbind (vec_set loan_block exit (rv_exit rv)) (\<lambda>ex.
        let rv' = rv\<lparr>rv_per_block := pb, rv_exit := ex\<rparr> in
        if exit then pfold first_entry (successors_of bb) rv' else Inr rv')))))"

definition reservation_compute ::
    "'b BitSetOps \<Rightarrow> Body \<Rightarrow> nat \<Rightarrow> nat \<Rightarrow> LocalIdx \<Rightarrow> (panicked + 'b list) option" where
  "reservation_compute ops body loan_block loan_stmt dest =
     (case pbind (reservation_start ops body loan_block loan_stmt dest) (\<lambda>rv.
           pbind (compute_predecessors body) (\<lambda>preds. Inr (rv, preds))) of
        Inl e \<Rightarrow> Some (Inl e)
      | Inr (rv, preds) \<Rightarrow>
          map_option (\<lambda>r. pbind r (\<lambda>rv'. Inr (rv_per_block rv')))
            (reservation_loop (reservation_step ops body dest preds) rv))"

definition is_reservation :: "'b BitSetOps \<Rightarrow> 'b list \<Rightarrow> nat \<Rightarrow> nat \<Rightarrow> bool" where
  "is_reservation ops per_block block stmt_idx \<longleftrightarrow>
     (block < length per_block \<and> bs_contains ops (per_block ! block) stmt_idx)"

end
