(* ===== verification/Borrowck_Twophase_Props.thy ===== *)
theory Borrowck_Twophase_Props
  imports Borrowck_Twophase Mir_Samples
begin

text \<open>
  The two-phase analysis: a body on which its loop never ends.
\<close>

section \<open>A loop that does not end\<close>

text \<open>
  \<open>cycle\<close>: a set of states none of which is final and each of which steps into the set.
\<close>

lemma reservation_loop_cycles:
  assumes cyc: "\<And>rv. rv \<in> cyc \<Longrightarrow> rv_queue rv \<noteq> [] \<and>
      (\<exists>rv'\<in>cyc. step (hd (rv_queue rv)) (rv\<lparr>rv_queue := tl (rv_queue rv),
        rv_in_worklist := rv_in_worklist rv - {hd (rv_queue rv)}\<rparr>) = Inr rv')"
    and "rv \<in> cyc"
  shows "reservation_loop step rv = None"
proof (rule ccontr)
  assume "reservation_loop step rv \<noteq> None"
  then obtain r where r: "reservation_loop step rv = Some r" by blast
  have "\<not> (step = step \<and> rv \<in> cyc)"
  proof (rule reservation_loop.raw_induct [where P = "\<lambda>s rv r. \<not> (s = step \<and> rv \<in> cyc)", OF _ r])
    fix loop s rv y
    assume IH: "\<And>s rv y. loop s rv = Some y \<Longrightarrow> \<not> (s = step \<and> rv \<in> cyc)"
      and e: "(if rv_queue rv = [] then Some (Inr rv)
        else case s (hd (rv_queue rv)) (rv\<lparr>rv_queue := tl (rv_queue rv), rv_in_worklist := rv_in_worklist rv - {hd (rv_queue rv)}\<rparr>) of
          Inl e \<Rightarrow> Some (Inl e) | Inr rv' \<Rightarrow> loop s rv') = Some y"
    show "\<not> (s = step \<and> rv \<in> cyc)"
    proof
      assume "s = step \<and> rv \<in> cyc"
      with cyc [of rv] e obtain rv' where "rv' \<in> cyc" "loop step rv' = Some y" by auto
      with IH show False by blast
    qed
  qed
  with assms(2) show False by simp
qed

text \<open>
  The body: \<open>loop { read(r); r = &mut x; if c { while d { .. } return } }\<close>, the inner loop of
  three blocks without statements.  \<open>x\<close> is local 1, \<open>r\<close> local 2, the flag local 3.
\<close>

definition nested_loops :: Body where
  "nested_loops = plain_body 4
     [plain_block [] (Goto 1),
      plain_block [read_local 0 2, borrow_mut 2 1] (branch 3 2 1),
      plain_block [] (Goto 3),
      plain_block [] (Goto 4),
      plain_block [] (branch 3 2 5),
      plain_block [] TerminatorKind.Return]"

lemma nested_preds: "compute_predecessors nested_loops = Inr [[], [0, 1], [1, 4], [2], [3], [4]]"
  by (simp add: nested_loops_def compute_predecessors_def push_pred_def vec_index_def vec_set_def)

text \<open>The bit sets that occur: of one point, empty or full; of three points.\<close>

definition none1 :: "'b BitSetOps \<Rightarrow> 'b" where "none1 ops = bs_with_capacity ops 1"
definition all1 :: "'b BitSetOps \<Rightarrow> 'b" where "all1 ops = bs_insert ops 0 (bs_with_capacity ops 1)"
definition none3 :: "'b BitSetOps \<Rightarrow> 'b" where "none3 ops = bs_with_capacity ops 3"
definition only3 :: "'b BitSetOps \<Rightarrow> nat \<Rightarrow> 'b" where "only3 ops i = bs_insert ops i (bs_with_capacity ops 3)"

lemma sample_bits:
  assumes "bitset_laws ops"
  shows "bits ops (none1 ops) = {}" "bits ops (all1 ops) = {0}" "bits ops (none3 ops) = {}"
    "i < 3 \<Longrightarrow> bits ops (only3 ops i) = {i}"
    "bs_len ops (none1 ops) = 1" "bs_len ops (all1 ops) = 1" "bs_len ops (none3 ops) = 3"
    "i < 3 \<Longrightarrow> bs_len ops (only3 ops i) = 3"
  using assms by (auto simp: bitset_laws_def none1_def all1_def none3_def only3_def)

lemma transfer_nested:
  assumes "bitset_laws ops"
  shows "b \<in> {0, 2, 3, 4, 5} \<Longrightarrow> transfer ops nested_loops 2 b 0 e = Inr (if e then all1 ops else none1 ops, e)"
    and "transfer ops nested_loops 2 1 0 e = Inr (if e then only3 ops 0 else none3 ops, False)"
    and "transfer ops nested_loops 2 1 2 True = Inr (only3 ops 2, True)"
  using bits_simps(2) [OF assms]
  by (auto simp: transfer_def nested_loops_def Let_def mark_def bit_insert_def all1_def none1_def none3_def only3_def
      read_local_def borrow_mut_def read_checker_def Place_new_def vec_index_def numeral_3_eq_3)


text \<open>The states of the loop; the sets of blocks without statements say what their exit says.\<close>

definition pick :: "'b BitSetOps \<Rightarrow> bool \<Rightarrow> 'b" where
  "pick ops e = (if e then all1 ops else none1 ops)"

definition nest_state :: "'b BitSetOps \<Rightarrow> 'b \<Rightarrow> bool list \<Rightarrow> bool list \<Rightarrow> nat list \<Rightarrow> 'b Reservation" where
  "nest_state ops p1 en ex q =
     \<lparr>rv_per_block = [pick ops (ex ! 0), p1, pick ops (ex ! 2), pick ops (ex ! 3), pick ops (ex ! 4), pick ops (ex ! 5)],
      rv_entry = en, rv_exit = ex, rv_queue = q, rv_in_worklist = set q\<rparr>"

definition nest_step :: "'b BitSetOps \<Rightarrow> nat \<Rightarrow> 'b Reservation \<Rightarrow> panicked + 'b Reservation" where
  "nest_step ops = reservation_step ops nested_loops 2 [[], [0, 1], [1, 4], [2], [3], [4]]"

definition nest_next :: "'b BitSetOps \<Rightarrow> 'b Reservation \<Rightarrow> panicked + 'b Reservation" where
  "nest_next ops rv = nest_step ops (hd (rv_queue rv))
     (rv\<lparr>rv_queue := tl (rv_queue rv), rv_in_worklist := rv_in_worklist rv - {hd (rv_queue rv)}\<rparr>)"

lemma pick_eq: "bitset_laws ops \<Longrightarrow> bs_eq ops (pick ops a) (pick ops b) = (a = b)"
  by (simp add: bs_eq_bits pick_def sample_bits)

lemma sample_eq:
  assumes "bitset_laws ops"
  shows "bs_eq ops (only3 ops 0) (only3 ops 2) = False" "bs_eq ops (none3 ops) (only3 ops 0) = False"
  using assms by (simp_all add: bs_eq_bits sample_bits)

lemma nested_blocks:
  "b_blocks nested_loops ! 0 = plain_block [] (Goto 1)"
  "b_blocks nested_loops ! Suc 0 = plain_block [read_local 0 2, borrow_mut 2 1] (branch 3 2 1)"
  "b_blocks nested_loops ! 2 = plain_block [] (Goto 3)"
  "b_blocks nested_loops ! 3 = plain_block [] (Goto 4)"
  "b_blocks nested_loops ! 4 = plain_block [] (branch 3 2 5)"
  "b_blocks nested_loops ! 5 = plain_block [] TerminatorKind.Return"
  "length (b_blocks nested_loops) = 6"
  by (simp_all add: nested_loops_def)

lemma nest_run:
  assumes "bitset_laws ops"
  shows
    "nest_next ops (nest_state ops (only3 ops 2) [False, True, True, False, False, False] [False, True, False, False, False, False] [2, 1]) =
       Inr (nest_state ops (only3 ops 2) [False, True, True, True, False, False] [False, True, True, False, False, False] [1, 3])"
    "nest_next ops (nest_state ops (only3 ops 2) [False, True, True, True, False, False] [False, True, True, False, False, False] [1, 3]) =
       Inr (nest_state ops (only3 ops 0) [False, False, False, True, False, False] [False, False, True, False, False, False] [3, 2, 1])"
    "nest_next ops (nest_state ops (only3 ops 0) [False, False, False, True, False, False] [False, False, True, False, False, False] [3, 2, 1]) =
       Inr (nest_state ops (only3 ops 0) [False, False, False, True, True, False] [False, False, True, True, False, False] [2, 1, 4])"
    "nest_next ops (nest_state ops (only3 ops 0) [False, False, False, True, True, False] [False, False, True, True, False, False] [2, 1, 4]) =
       Inr (nest_state ops (only3 ops 0) [False, False, False, False, True, False] [False, False, False, True, False, False] [1, 4, 3])"
    "nest_next ops (nest_state ops (only3 ops 0) [False, False, False, False, True, False] [False, False, False, True, False, False] [1, 4, 3]) =
       Inr (nest_state ops (none3 ops) [False, False, False, False, True, False] [False, False, False, True, False, False] [4, 3])"
    "nest_next ops (nest_state ops (none3 ops) [False, False, False, False, True, False] [False, False, False, True, False, False] [4, 3]) =
       Inr (nest_state ops (none3 ops) [False, False, True, False, True, True] [False, False, False, True, True, False] [3, 2, 5])"
    "nest_next ops (nest_state ops (none3 ops) [False, False, True, False, True, True] [False, False, False, True, True, False] [3, 2, 5]) =
       Inr (nest_state ops (none3 ops) [False, False, True, False, False, True] [False, False, False, False, True, False] [2, 5, 4])"
    "nest_next ops (nest_state ops (none3 ops) [False, False, True, False, False, True] [False, False, False, False, True, False] [2, 5, 4]) =
       Inr (nest_state ops (none3 ops) [False, False, True, True, False, True] [False, False, True, False, True, False] [5, 4, 3])"
    "nest_next ops (nest_state ops (none3 ops) [False, False, True, True, False, True] [False, False, True, False, True, False] [5, 4, 3]) =
       Inr (nest_state ops (none3 ops) [False, False, True, True, False, True] [False, False, True, False, True, True] [4, 3])"
    "nest_next ops (nest_state ops (none3 ops) [False, False, True, True, False, True] [False, False, True, False, True, True] [4, 3]) =
       Inr (nest_state ops (none3 ops) [False, False, False, True, False, False] [False, False, True, False, False, True] [3, 2, 5])"
    "nest_next ops (nest_state ops (none3 ops) [False, False, False, True, False, False] [False, False, True, False, False, True] [3, 2, 5]) =
       Inr (nest_state ops (none3 ops) [False, False, False, True, True, False] [False, False, True, True, False, True] [2, 5, 4])"
    "nest_next ops (nest_state ops (none3 ops) [False, False, False, True, True, False] [False, False, True, True, False, True] [2, 5, 4]) =
       Inr (nest_state ops (none3 ops) [False, False, False, False, True, False] [False, False, False, True, False, True] [5, 4, 3])"
    "nest_next ops (nest_state ops (none3 ops) [False, False, False, False, True, False] [False, False, False, True, False, True] [5, 4, 3]) =
       Inr (nest_state ops (none3 ops) [False, False, False, False, True, False] [False, False, False, True, False, False] [4, 3])"
  using transfer_nested [OF assms]
  by (auto simp: nest_next_def nest_step_def nest_state_def reservation_step_def nested_blocks update_entry_def
      any_exit_def enqueue_back_def pick_eq [OF assms] sample_eq [OF assms] pick_def [symmetric] vec_index_def vec_set_def)

definition nest_cycle :: "'b BitSetOps \<Rightarrow> 'b Reservation set" where
  "nest_cycle ops =
     {nest_state ops (none3 ops) [False, False, False, False, True, False] [False, False, False, True, False, False] [4, 3],
      nest_state ops (none3 ops) [False, False, True, False, True, True] [False, False, False, True, True, False] [3, 2, 5],
      nest_state ops (none3 ops) [False, False, True, False, False, True] [False, False, False, False, True, False] [2, 5, 4],
      nest_state ops (none3 ops) [False, False, True, True, False, True] [False, False, True, False, True, False] [5, 4, 3],
      nest_state ops (none3 ops) [False, False, True, True, False, True] [False, False, True, False, True, True] [4, 3],
      nest_state ops (none3 ops) [False, False, False, True, False, False] [False, False, True, False, False, True] [3, 2, 5],
      nest_state ops (none3 ops) [False, False, False, True, True, False] [False, False, True, True, False, True] [2, 5, 4],
      nest_state ops (none3 ops) [False, False, False, False, True, False] [False, False, False, True, False, True] [5, 4, 3]}"


lemma nest_queue [simp]: "rv_queue (nest_state ops p1 en ex q) = q"
  by (simp add: nest_state_def)

lemma nest_cycle_steps:
  assumes "bitset_laws ops" and "rv \<in> nest_cycle ops"
  shows "rv_queue rv \<noteq> [] \<and> (\<exists>rv'\<in>nest_cycle ops. nest_next ops rv = Inr rv')"
proof -
  have "nest_next ops rv \<in> Inr ` nest_cycle ops"
    using assms(2) unfolding nest_cycle_def
    by (elim insertE emptyE) (simp_all only: nest_run [OF assms(1)] image_insert image_empty insert_iff simp_thms)
  moreover have "rv_queue rv \<noteq> []"
    using assms(2) by (auto simp: nest_cycle_def nest_state_def)
  ultimately show ?thesis by auto
qed

lemma nest_loop_next:
  assumes "nest_next ops rv = Inr rv'" and "rv_queue rv \<noteq> []"
  shows "reservation_loop (nest_step ops) rv = reservation_loop (nest_step ops) rv'"
  using assms by (subst reservation_loop.simps) (simp add: nest_next_def)

lemma nest_start:
  assumes "bitset_laws ops"
  shows "reservation_start ops nested_loops 1 1 2 = Inr (nest_state ops (only3 ops 2) [False, True, True, False, False, False] [False, True, False, False, False, False] [2, 1])"
proof -
  have t: "transfer ops nested_loops 2 (Suc 0) (Suc (Suc 0)) True = Inr (only3 ops 2, True)"
    using transfer_nested(3) [OF assms] by (simp add: numeral_2_eq_2)
  have r: "replicate 6 False = [False, False, False, False, False, False]"
    by (simp add: eval_nat_numeral)
  have m: "map (\<lambda>bb. bs_with_capacity ops (length (bb_statements bb) + 1)) (b_blocks nested_loops) =
    [none1 ops, none3 ops, none1 ops, none1 ops, none1 ops, none1 ops]"
    by (simp add: nested_loops_def none1_def none3_def numeral_3_eq_3)
  show ?thesis
    by (auto simp: reservation_start_def Let_def m [simplified] r t nested_blocks nest_state_def first_entry_def
        enqueue_back_def vec_index_def vec_set_def pick_def)
qed

text \<open>
  C29. On the nested loops the analysis of the borrow \<open>r = &mut x\<close> never returns, so the borrow
  checker hangs.
\<close>

theorem two_phase_analysis_hangs:
  assumes "bitset_laws ops"
  shows "reservation_compute ops nested_loops 1 1 2 = None"
proof -
  note run = nest_run [OF assms]
  have "reservation_loop (nest_step ops) (nest_state ops (none3 ops) [False, False, False, False, True, False] [False, False, False, True, False, False] [4, 3]) = None"
    by (rule reservation_loop_cycles [of "nest_cycle ops"])
      (use nest_cycle_steps [OF assms] in \<open>auto simp: nest_next_def nest_cycle_def\<close>)
  then have "reservation_loop (nest_step ops) (nest_state ops (only3 ops 2) [False, True, True, False, False, False] [False, True, False, False, False, False] [2, 1]) = None"
    using nest_loop_next [OF run(1)] nest_loop_next [OF run(2)] nest_loop_next [OF run(3)]
      nest_loop_next [OF run(4)] nest_loop_next [OF run(5)] by simp
  then show ?thesis
    by (simp add: reservation_compute_def nest_start [OF assms, simplified] nested_preds nest_step_def)
qed

lemma two_phase_analysis_hangs_witness: "reservation_compute bv_ops nested_loops 1 1 2 = None"
  by (rule two_phase_analysis_hangs [OF bitset_laws_bv])

end
