(* ===== verification/Borrowck_Places.thy ===== *)
theory Borrowck_Places
  imports Borrowck_Visitor "HOL-Library.Sublist"
begin

text \<open>
  What \<open>places_conflict\<close> (\<open>visitor.rs\<close>) promises: two places that can overlap in memory conflict.

  The memory of a local is a tree; a place covers the subtrees its projection leads to, given the
  values \<open>ev\<close> of the index locals and the lengths \<open>len\<close> of the arrays.  A subslice keeps the array
  and narrows the window of its elements.  The variants of an enum are separate subtrees, as the
  comment of \<open>places_conflict\<close> has it.
\<close>

datatype cell_step = CDeref | CField FieldIdx | CVariant VariantIdx | CElem nat

type_synonym location = "cell_step list \<times> (nat \<times> nat) option"

definition window :: "(cell_step list \<Rightarrow> nat) \<Rightarrow> location \<Rightarrow> nat \<times> nat" where
  "window len loc = (case snd loc of None \<Rightarrow> (0, len (fst loc)) | Some w \<Rightarrow> w)"

fun locate_step ::
    "(LocalIdx \<Rightarrow> nat) \<Rightarrow> (cell_step list \<Rightarrow> nat) \<Rightarrow> ProjectionElem \<Rightarrow> location \<Rightarrow> location" where
  "locate_step ev len ProjectionElem.Deref loc = (fst loc @ [CDeref], None)"
| "locate_step ev len (Field f) loc = (fst loc @ [CField f], None)"
| "locate_step ev len (Downcast v) loc = (fst loc @ [CVariant v], None)"
| "locate_step ev len (Index l) loc = (fst loc @ [CElem (fst (window len loc) + ev l)], None)"
| "locate_step ev len (ConstantIndex ofs _ from_end) loc =
     (fst loc @ [CElem (if from_end then snd (window len loc) - unat ofs
                        else fst (window len loc) + unat ofs)], None)"
| "locate_step ev len (Subslice from to from_end) loc =
     (fst loc, Some (fst (window len loc) + unat from,
        if from_end then snd (window len loc) - unat to else fst (window len loc) + unat to))"

definition locate ::
    "(LocalIdx \<Rightarrow> nat) \<Rightarrow> (cell_step list \<Rightarrow> nat) \<Rightarrow> ProjectionElem list \<Rightarrow> location \<Rightarrow> location" where
  "locate ev len ps loc = fold (locate_step ev len) ps loc"

definition covers :: "location \<Rightarrow> cell_step list set" where
  "covers loc =
     (case snd loc of
        None \<Rightarrow> {q. prefix (fst loc) q}
      | Some (lo, hi) \<Rightarrow> {q. \<exists>k. lo \<le> k \<and> k < hi \<and> prefix (fst loc @ [CElem k]) q})"

definition place_cells ::
    "(LocalIdx \<Rightarrow> nat) \<Rightarrow> (cell_step list \<Rightarrow> nat) \<Rightarrow> Place \<Rightarrow> (LocalIdx \<times> cell_step list) set" where
  "place_cells ev len p = {pl_local p} \<times> covers (locate ev len (pl_projection p) ([], None))"

fun is_subslice :: "ProjectionElem \<Rightarrow> bool" where
  "is_subslice (Subslice _ _ _) = True"
| "is_subslice _ = False"

definition subslice_last :: "ProjectionElem list \<Rightarrow> bool" where
  "subslice_last ps \<longleftrightarrow> (\<forall>e\<in>set (butlast ps). \<not> is_subslice e)"

lemma locate_simps [simp]:
  "locate ev len [] loc = loc"
  "locate ev len (e # ps) loc = locate ev len ps (locate_step ev len e loc)"
  by (simp_all add: locate_def)

lemma window_whole [simp]: "window len (p, None) = (0, len p)"
  by (simp add: window_def)

lemma covers_whole [simp]: "covers (p, None) = {q. prefix p q}"
  by (simp add: covers_def)

lemma covers_extends: "q \<in> covers loc \<Longrightarrow> prefix (fst loc) q"
  by (auto simp: covers_def split: option.splits dest: append_prefixD)

lemma locate_extends: "prefix (fst loc) (fst (locate ev len ps loc))"
proof (induction ps arbitrary: loc)
  case (Cons e ps)
  have "prefix (fst loc) (fst (locate_step ev len e loc))" by (cases e) simp_all
  with Cons.IH [of "locate_step ev len e loc"] show ?case by (auto intro: prefix_order.trans)
qed simp

lemma covers_locate_extends: "q \<in> covers (locate ev len ps loc) \<Longrightarrow> prefix (fst loc) q"
  using covers_extends locate_extends prefix_order.trans by blast

text \<open>Subtrees below two different cells of the same node are disjoint.\<close>

lemma prefix_cell_unique: "prefix (p @ [a]) q \<Longrightarrow> prefix (p @ [b]) q \<Longrightarrow> a = b"
  by (auto simp: prefix_def)

text \<open>The cells below a node that an element can step to.\<close>

fun heads :: "(LocalIdx \<Rightarrow> nat) \<Rightarrow> nat \<Rightarrow> ProjectionElem \<Rightarrow> cell_step set" where
  "heads ev n ProjectionElem.Deref = {CDeref}"
| "heads ev n (Field f) = {CField f}"
| "heads ev n (Downcast v) = {CVariant v}"
| "heads ev n (Index l) = {CElem (ev l)}"
| "heads ev n (ConstantIndex ofs _ from_end) = {CElem (if from_end then n - unat ofs else unat ofs)}"
| "heads ev n (Subslice from to from_end) =
     {CElem k |k. unat from \<le> k \<and> k < (if from_end then n - unat to else unat to)}"

lemma locate_step_head:
  assumes "\<not> is_subslice e"
  obtains c where "heads ev (len p) e = {c}" "locate_step ev len e (p, None) = (p @ [c], None)"
  using assms by (cases e) simp_all

lemma covers_head:
  assumes "q \<in> covers (locate ev len (e # es) (p, None))" and "is_subslice e \<longrightarrow> es = []"
  shows "\<exists>c\<in>heads ev (len p) e. prefix (p @ [c]) q"
proof (cases "is_subslice e")
  case True
  with assms show ?thesis by (cases e) (auto simp: covers_def, blast+)
next
  case False
  then obtain c where "heads ev (len p) e = {c}" "locate_step ev len e (p, None) = (p @ [c], None)"
    by (rule locate_step_head)
  with assms(1) covers_locate_extends [of q ev len es "(p @ [c], None)"] show ?thesis by simp
qed

lemma disjoint_heads: "elem_conflict a b = Verdict False \<Longrightarrow> heads ev n a \<inter> heads ev n b = {}"
  by (cases a; cases b) (auto simp: word_le_nat_alt word_less_nat_alt word_unat_eq_iff split: if_splits)

lemma subslice_lastD:
  assumes "subslice_last (e # ps)"
  shows "ps = [] \<or> \<not> is_subslice e" and "subslice_last ps"
  using assms by (auto simp: subslice_last_def split: if_splits)

text \<open>A verdict of "disjoint" on the elements of two places that share the path so far.\<close>

lemma disjoint_verdict:
  assumes "elem_conflict a b = Verdict False" and "is_subslice a \<longrightarrow> as = []"
    and "is_subslice b \<longrightarrow> bs = []"
    and "q \<in> covers (locate ev len (a # as) (p, None))"
    and "q \<in> covers (locate ev len (b # bs) (p, None))"
  shows False
proof -
  from covers_head [OF assms(4,2)] covers_head [OF assms(5,3)] obtain c d where
    "c \<in> heads ev (len p) a" "d \<in> heads ev (len p) b" "prefix (p @ [c]) q" "prefix (p @ [d]) q" by blast
  with disjoint_heads [OF assms(1), of ev "len p"] show False
    by (auto dest: prefix_cell_unique)
qed

lemma projs_conflict_sound:
  assumes "subslice_last as" and "subslice_last bs"
    and "q \<in> covers (locate ev len as (p, None))" and "q \<in> covers (locate ev len bs (p, None))"
  shows "projs_conflict as bs"
  using assms
proof (induction as bs arbitrary: p rule: projs_conflict.induct)
  case (1 a as b bs)
  note last = subslice_lastD [OF "1.prems"(1)] subslice_lastD [OF "1.prems"(2)]
  show ?case
  proof (cases "elem_conflict a b")
    case (Verdict v)
    moreover have v
    proof (rule ccontr)
      assume "\<not> v"
      with Verdict have "elem_conflict a b = elem_verdict.Verdict False" by simp
      from disjoint_verdict [OF this _ _ "1.prems"(3,4)] last show False by blast
    qed
    ultimately show ?thesis by simp
  next
    case GoOn
    show ?thesis
    proof (cases "as = [] \<or> bs = []")
      case True
      with GoOn show ?thesis by (cases as; cases bs) simp_all
    next
      case False
      with last have ns: "\<not> is_subslice a" "\<not> is_subslice b" by auto
      from ns(1) obtain c where c: "heads ev (len p) a = {c}" "locate_step ev len a (p, None) = (p @ [c], None)"
        by (rule locate_step_head)
      from ns(2) obtain d where d: "heads ev (len p) b = {d}" "locate_step ev len b (p, None) = (p @ [d], None)"
        by (rule locate_step_head)
      have "prefix (p @ [c]) q" "prefix (p @ [d]) q"
        using covers_head [OF "1.prems"(3)] covers_head [OF "1.prems"(4)] ns c(1) d(1) by auto
      then have "c = d" by (rule prefix_cell_unique)
      then have "projs_conflict as bs"
        using "1.prems"(3,4) last GoOn c(2) d(2) by (intro "1.IH") simp_all
      with GoOn show ?thesis by simp
    qed
  qed
qed simp_all

section \<open>The properties\<close>

text \<open>
  C16. Places that overlap in memory conflict, whatever the index locals hold, as long as a subslice is
  the last element of each projection.
\<close>

theorem places_conflict_sound:
  assumes "subslice_last (pl_projection a)" and "subslice_last (pl_projection b)"
    and "place_cells ev len a \<inter> place_cells ev len b \<noteq> {}"
  shows "places_conflict a b"
  using assms projs_conflict_sound
  by (fastforce simp: place_cells_def places_conflict_def)

theorem places_conflict_sound_witness:
  "places_conflict \<lparr>pl_local = 1, pl_projection = [Field 2, Index 3]\<rparr>
     \<lparr>pl_local = 1, pl_projection = [Field 2, Index 4, ProjectionElem.Deref]\<rparr>"
proof (rule places_conflict_sound)
  let ?q = "(1, [CField 2, CElem 7, CDeref])"
  show "place_cells (\<lambda>_. 7) (\<lambda>_. 9) \<lparr>pl_local = 1, pl_projection = [Field 2, Index 3]\<rparr> \<inter>
    place_cells (\<lambda>_. 7) (\<lambda>_. 9) \<lparr>pl_local = 1, pl_projection = [Field 2, Index 4, ProjectionElem.Deref]\<rparr> \<noteq> {}"
    by (rule ex_in_conv [THEN iffD1], rule exI [of _ ?q]) (simp add: place_cells_def)
qed (simp_all add: subslice_last_def)

text \<open>
  With an element after a subslice the test is wrong: \<open>a[1..4][1]\<close> and \<open>a[2..5][0]\<close> are both
  \<open>a[2]\<close>, and they do not conflict.
\<close>

theorem places_conflict_misses_nested_subslice:
  "\<not> places_conflict
      \<lparr>pl_local = l, pl_projection = [Subslice 1 4 False, ConstantIndex 1 0 False]\<rparr>
      \<lparr>pl_local = l, pl_projection = [Subslice 2 5 False, ConstantIndex 0 0 False]\<rparr> \<and>
   place_cells ev len \<lparr>pl_local = l, pl_projection = [Subslice 1 4 False, ConstantIndex 1 0 False]\<rparr> =
   place_cells ev len \<lparr>pl_local = l, pl_projection = [Subslice 2 5 False, ConstantIndex 0 0 False]\<rparr>"
  by (simp add: places_conflict_def place_cells_def window_def)

end
