(* ===== verification/Borrowck_Check.thy ===== *)
theory Borrowck_Check
  imports Borrowck_Twophase
begin

text \<open>
  \<open>crates/glyim-borrowck/src/lib.rs\<close>: loans, the conflicts of a statement or a terminator with
  the active loans, and the walk over the body.

  \<open>BorrowckCtx\<close> is the trait as a record of its methods; of \<open>ty_ctx\<close> it has the type lookup and
  the table \<open>adt_repr\<close> (the field types).  A function that pushes errors returns what it pushes.
  An analysis that does not return is \<open>None\<close>.
\<close>

record BorrowckCtx =
  bc_ty_ctx :: TypeLookup
  bc_adt_repr :: "AdtId \<rightharpoonup> Ty list"
  bc_is_copy :: "Ty \<Rightarrow> bool"
  bc_local_name :: "LocalIdx \<Rightarrow> string"

definition obind :: "('e + 'a) option \<Rightarrow> ('a \<Rightarrow> ('e + 'b) option) \<Rightarrow> ('e + 'b) option" where
  "obind m f = (case m of None \<Rightarrow> None | Some (Inl e) \<Rightarrow> Some (Inl e) | Some (Inr x) \<Rightarrow> f x)"

lemma obind_simps [simp]:
  "obind None f = None" "obind (Some (Inl e)) f = Some (Inl e)" "obind (Some (Inr x)) f = f x"
  by (simp_all add: obind_def)

section \<open>Loans\<close>

record Loan =
  ln_index :: nat
  ln_dest_local :: LocalIdx
  ln_borrowed_place :: Place
  ln_kind :: BorrowKind
  ln_span :: Span
  ln_creation_point :: "nat \<times> nat"

fun collect_loan :: "nat \<Rightarrow> nat \<times> Statement \<Rightarrow> Loan list \<Rightarrow> Loan list" where
  "collect_loan b (i, st) loans =
     (case st_kind st of
        Assign dest (Rvalue.Ref borrowed kind) \<Rightarrow>
          loans @ [\<lparr>ln_index = length loans, ln_dest_local = pl_local dest,
                    ln_borrowed_place = borrowed, ln_kind = kind,
                    ln_span = si_span (st_source_info st), ln_creation_point = (b, i)\<rparr>]
      | _ \<Rightarrow> loans)"

definition collect_loans :: "Body \<Rightarrow> Loan list" where
  "collect_loans body =
     fold (\<lambda>(b, bb). fold (collect_loan b) (enumerate 0 (bb_statements bb)))
       (enumerate 0 (b_blocks body)) []"

fun is_two_phase :: "BorrowKind \<Rightarrow> bool" where
  "is_two_phase (MutBorrow allow) = allow"
| "is_two_phase _ = False"

type_synonym 'b cache = "nat \<rightharpoonup> 'b list"

definition loan_is_in_reservation :: "'b BitSetOps \<Rightarrow> Loan \<Rightarrow> nat \<Rightarrow> nat \<Rightarrow> 'b list \<Rightarrow> bool" where
  "loan_is_in_reservation ops loan block stmt_idx activation =
     (if \<not> is_two_phase (ln_kind loan) then False else is_reservation ops activation block stmt_idx)"

definition in_reservation :: "'b BitSetOps \<Rightarrow> 'b cache \<Rightarrow> Loan \<Rightarrow> nat \<Rightarrow> nat \<Rightarrow> bool" where
  "in_reservation ops cache loan block stmt_idx =
     (case cache (ln_index loan) of
        Some act \<Rightarrow> loan_is_in_reservation ops loan block stmt_idx act
      | None \<Rightarrow> False)"

fun conflicts_with_active :: "BorrowKind \<Rightarrow> BorrowKind \<Rightarrow> bool \<Rightarrow> bool" where
  "conflicts_with_active BorrowKind.Shared BorrowKind.Shared _ = False"
| "conflicts_with_active (MutBorrow _) BorrowKind.Shared in_res = (\<not> in_res)"
| "conflicts_with_active _ _ _ = True"

fun is_exclusive :: "BorrowKind \<Rightarrow> bool" where
  "is_exclusive BorrowKind.Shared = False"
| "is_exclusive (MutBorrow _) = True"
| "is_exclusive BorrowKind.Unique = True"

section \<open>Conflicts\<close>

definition loan_diag :: "Span \<Rightarrow> string \<Rightarrow> string \<Rightarrow> Loan \<Rightarrow> GlyimDiagnostic" where
  "loan_diag span message prefix loan =
     with_sub \<lparr>sd_severity = SevNote,
       sd_message = prefix @ borrow_kind_label (ln_kind loan) @ '' borrow occurs here'',
       sd_span = Some (multi_from_span (ln_span loan))\<rparr> (borrow_error span message)"

definition use_diag :: "BorrowckCtx \<Rightarrow> Span \<Rightarrow> Place \<Rightarrow> Loan \<Rightarrow> GlyimDiagnostic" where
  "use_diag ctx span place loan =
     loan_diag span
       (''cannot use `'' @ bc_local_name ctx (pl_local place) @ ''` because it is '' @
        borrow_kind_label (ln_kind loan) @ '' borrowed'') [] loan"

definition write_diag :: "BorrowckCtx \<Rightarrow> Span \<Rightarrow> Place \<Rightarrow> Loan \<Rightarrow> GlyimDiagnostic" where
  "write_diag ctx span place loan =
     loan_diag span
       (''cannot write to `'' @ bc_local_name ctx (pl_local place) @ ''` because it is '' @
        borrow_kind_label (ln_kind loan) @ '' borrowed'') [] loan"

definition assign_diag :: "BorrowckCtx \<Rightarrow> Span \<Rightarrow> Place \<Rightarrow> Loan \<Rightarrow> GlyimDiagnostic" where
  "assign_diag ctx span place loan =
     loan_diag span
       (''cannot assign to `'' @ bc_local_name ctx (pl_local place) @ ''` because it is borrowed'') [] loan"

definition reborrow_diag :: "BorrowckCtx \<Rightarrow> Span \<Rightarrow> Place \<Rightarrow> BorrowKind \<Rightarrow> Loan \<Rightarrow> GlyimDiagnostic" where
  "reborrow_diag ctx span place kind loan =
     loan_diag span
       (''cannot borrow `'' @ bc_local_name ctx (pl_local place) @ ''` as '' @ borrow_kind_label kind @
        '' because it is also borrowed as '' @ borrow_kind_label (ln_kind loan)) ''previous '' loan"

text \<open>\<open>for place in places { for loan in active_loans { if c { errors.push(..) } } }\<close>\<close>

definition for_conflicts ::
    "(Place \<Rightarrow> Loan \<Rightarrow> bool) \<Rightarrow> (Place \<Rightarrow> Loan \<Rightarrow> GlyimDiagnostic) \<Rightarrow> Place list \<Rightarrow> Loan list \<Rightarrow>
     GlyimDiagnostic list" where
  "for_conflicts c diag places active =
     concat (map (\<lambda>place. map (diag place)
       (filter (\<lambda>loan. places_conflict place (ln_borrowed_place loan) \<and> c place loan) active)) places)"

definition read_conflicts ::
    "'b BitSetOps \<Rightarrow> 'b cache \<Rightarrow> BorrowckCtx \<Rightarrow> Span \<Rightarrow> Loan list \<Rightarrow> nat \<Rightarrow> nat \<Rightarrow> Place list \<Rightarrow>
     GlyimDiagnostic list" where
  "read_conflicts ops cache ctx span active block stmt_idx places =
     for_conflicts (\<lambda>_ loan. is_exclusive (ln_kind loan) \<and> \<not> in_reservation ops cache loan block stmt_idx)
       (use_diag ctx span) places active"

fun write_places :: "TerminatorKind \<Rightarrow> Place list" where
  "write_places (TerminatorKind.Call _ _ destination _ _) = [destination]"
| "write_places (TerminatorKind.Drop place _ _) = [place]"
| "write_places _ = []"

definition check_terminator_conflicts ::
    "'b BitSetOps \<Rightarrow> 'b cache \<Rightarrow> BorrowckCtx \<Rightarrow> Terminator \<Rightarrow> Loan list \<Rightarrow> nat \<Rightarrow> nat \<Rightarrow>
     panicked + GlyimDiagnostic list" where
  "check_terminator_conflicts ops cache ctx t active block stmt_idx =
     (let span = si_span (te_source_info t) in
      pbind (walk_terminator_reads (te_kind t) place_collector []) (\<lambda>reads.
        Inr (read_conflicts ops cache ctx span active block stmt_idx reads @
             for_conflicts (\<lambda>_ _. True) (write_diag ctx span) (write_places (te_kind t)) active)))"

definition check_stmt_conflicts ::
    "'b BitSetOps \<Rightarrow> 'b cache \<Rightarrow> BorrowckCtx \<Rightarrow> Statement \<Rightarrow> Loan list \<Rightarrow> nat \<Rightarrow> nat \<Rightarrow>
     panicked + GlyimDiagnostic list" where
  "check_stmt_conflicts ops cache ctx st active block stmt_idx =
     (let span = si_span (st_source_info st) in
      case st_kind st of
        Assign dest rvalue \<Rightarrow>
          (case rvalue of
             Rvalue.Ref borrowed kind \<Rightarrow>
               Inr (for_conflicts
                 (\<lambda>_ loan. conflicts_with_active (ln_kind loan) kind (in_reservation ops cache loan block stmt_idx))
                 (\<lambda>place. reborrow_diag ctx span place kind) [borrowed] active)
           | _ \<Rightarrow>
               pbind (walk_rvalue_reads rvalue place_collector []) (\<lambda>reads.
                 Inr (read_conflicts ops cache ctx span active block stmt_idx reads @
                      for_conflicts (\<lambda>_ _. True) (assign_diag ctx span) [dest] active)))
      | _ \<Rightarrow> Inr [])"

section \<open>The walk over the body\<close>

fun activations ::
    "'b BitSetOps \<Rightarrow> Body \<Rightarrow> (nat \<times> Loan) list \<Rightarrow> 'b cache \<Rightarrow> (panicked + 'b cache) option" where
  "activations ops body [] cache = Some (Inr cache)"
| "activations ops body ((i, loan) # rest) cache =
     (if is_two_phase (ln_kind loan) then
        obind (reservation_compute ops body (fst (ln_creation_point loan)) (snd (ln_creation_point loan))
            (ln_dest_local loan))
          (\<lambda>act. activations ops body rest (cache(i \<mapsto> act)))
      else activations ops body rest cache)"

definition index_loan :: "nat \<times> Loan \<Rightarrow> nat list list \<Rightarrow> panicked + nat list list" where
  "index_loan il v =
     (let d = unat (ln_dest_local (snd il)) in
      pbind (vec_index v d) (\<lambda>xs. vec_set d (xs @ [fst il]) v))"

definition loans_by_dest :: "Body \<Rightarrow> Loan list \<Rightarrow> panicked + nat list list" where
  "loans_by_dest body loans = pfold index_loan (enumerate 0 loans) (replicate (length (b_locals body)) [])"

definition push_loan :: "Loan list \<Rightarrow> nat \<Rightarrow> Loan list \<Rightarrow> panicked + Loan list" where
  "push_loan loans i active = pbind (vec_index loans i) (\<lambda>loan. Inr (active @ [loan]))"

definition active_loans :: "'b BitSetOps \<Rightarrow> nat list list \<Rightarrow> Loan list \<Rightarrow> 'b \<Rightarrow> panicked + Loan list" where
  "active_loans ops by_dest loans live =
     pfold (\<lambda>l active. pbind (vec_index by_dest l) (\<lambda>is. pfold (push_loan loans) is active))
       (bs_ones ops live) []"

definition check_block_borrows ::
    "'b BitSetOps \<Rightarrow> 'b cache \<Rightarrow> BorrowckCtx \<Rightarrow> Body \<Rightarrow> Loan list \<Rightarrow> nat list list \<Rightarrow> 'b list \<Rightarrow>
     nat \<times> BasicBlockData \<Rightarrow> GlyimDiagnostic list \<Rightarrow> panicked + GlyimDiagnostic list" where
  "check_block_borrows ops cache ctx body loans by_dest outs bbb errors =
     (let b = fst bbb; bb = snd bbb; n = length (bb_statements bb) in
      pbind (vec_index outs b) (\<lambda>live_out.
      pbind (compute_stmt_liveness ops body b live_out) (\<lambda>stmt_liveness.
      pbind (pfold (\<lambda>(i, st) errors.
          pbind (vec_index stmt_liveness i) (\<lambda>live.
          pbind (active_loans ops by_dest loans live) (\<lambda>active.
          pbind (check_stmt_conflicts ops cache ctx st active b i) (\<lambda>es. Inr (errors @ es)))))
        (enumerate 0 (bb_statements bb)) errors) (\<lambda>errors'.
      pbind (vec_index stmt_liveness n) (\<lambda>live.
      pbind (active_loans ops by_dest loans live) (\<lambda>active.
      pbind (check_terminator_conflicts ops cache ctx (bb_terminator bb) active b n) (\<lambda>es.
        Inr (errors' @ es))))))))"

text \<open>\<open>check_borrows\<close> up to the move errors, which it appends.\<close>

definition borrow_conflicts ::
    "'b BitSetOps \<Rightarrow> BorrowckCtx \<Rightarrow> Body \<Rightarrow> (panicked + GlyimDiagnostic list) option" where
  "borrow_conflicts ops ctx body =
     (let loans = collect_loans body in
      obind (compute_liveness ops body) (\<lambda>outs.
      obind (activations ops body (enumerate 0 loans) Map.empty) (\<lambda>cache.
        Some (pbind (loans_by_dest body loans) (\<lambda>by_dest.
          pfold (check_block_borrows ops cache ctx body loans by_dest outs)
            (enumerate 0 (b_blocks body)) [])))))"

end
