(* ===== verification/Borrowck_Moves.thy ===== *)
theory Borrowck_Moves
  imports Borrowck_Check
begin

text \<open>
  \<open>crates/glyim-borrowck/src/move_analysis.rs\<close>: the arena of move paths, the forward analysis of
  what may be moved or dead, and the check of the uses.

  A \<open>MovePathIdx\<close> is a natural (an arena has fewer than \<open>2 ^ 32\<close> paths).  The arena grows while
  it is searched, so every function that searches returns it.
\<close>

section \<open>Move paths\<close>

record MovePath =
  mp_place :: Place
  mp_parent :: "nat option"
  mp_children :: "nat list"

record MovePathArena =
  ma_paths :: "MovePath list"
  ma_root_index :: "nat option list"

definition arena_new :: "nat \<Rightarrow> MovePathArena" where
  "arena_new num_locals = \<lparr>ma_paths = [], ma_root_index = replicate num_locals None\<rparr>"

definition arena_push :: "MovePath \<Rightarrow> MovePathArena \<Rightarrow> nat \<times> MovePathArena" where
  "arena_push path a = (length (ma_paths a), a\<lparr>ma_paths := ma_paths a @ [path]\<rparr>)"

definition arena_get :: "MovePathArena \<Rightarrow> nat \<Rightarrow> panicked + MovePath" where
  "arena_get a i = vec_index (ma_paths a) i"

definition arena_len :: "MovePathArena \<Rightarrow> nat" where
  "arena_len a = length (ma_paths a)"

text \<open>\<open>self.get_mut(parent).children.push(child)\<close>\<close>

definition add_child :: "nat \<Rightarrow> nat \<Rightarrow> MovePathArena \<Rightarrow> panicked + MovePathArena" where
  "add_child parent child a =
     pbind (arena_get a parent) (\<lambda>mp.
     pbind (vec_set parent (mp\<lparr>mp_children := mp_children mp @ [child]\<rparr>) (ma_paths a)) (\<lambda>ps.
       Inr (a\<lparr>ma_paths := ps\<rparr>)))"

definition new_child :: "nat \<Rightarrow> Place \<Rightarrow> MovePathArena \<Rightarrow> panicked + nat \<times> MovePathArena" where
  "new_child parent place a =
     (let (i, a') = arena_push \<lparr>mp_place = place, mp_parent = Some parent, mp_children = []\<rparr> a in
      pbind (add_child parent i a') (\<lambda>a''. Inr (i, a'')))"

fun child_where :: "MovePathArena \<Rightarrow> (ProjectionElem \<Rightarrow> bool) \<Rightarrow> nat list \<Rightarrow> panicked + nat option" where
  "child_where a P [] = Inr None"
| "child_where a P (c # cs) =
     pbind (arena_get a c) (\<lambda>child.
       let proj = pl_projection (mp_place child) in
       if proj \<noteq> [] \<and> P (last proj) then Inr (Some c) else child_where a P cs)"

definition child_or_new ::
    "LocalIdx \<Rightarrow> (ProjectionElem \<Rightarrow> bool) \<Rightarrow> ProjectionElem \<Rightarrow> nat \<Rightarrow> MovePathArena \<Rightarrow>
     panicked + nat \<times> MovePathArena" where
  "child_or_new l P elem cur a =
     pbind (arena_get a cur) (\<lambda>current.
     pbind (child_where a P (mp_children current)) (\<lambda>found.
       case found of
         Some i \<Rightarrow> Inr (i, a)
       | None \<Rightarrow> new_child cur
           \<lparr>pl_local = l, pl_projection = pl_projection (mp_place current) @ [elem]\<rparr> a))"

text \<open>One projection element: the flag says whether the loop goes on.\<close>

fun find_step :: "LocalIdx \<Rightarrow> ProjectionElem \<Rightarrow> nat \<Rightarrow> MovePathArena \<Rightarrow> panicked + bool \<times> nat \<times> MovePathArena" where
  "find_step l (Index _) cur a = Inr (True, cur, a)"
| "find_step l (Downcast v) cur a =
     pbind (child_or_new l (\<lambda>e. e = Downcast v) (Downcast v) cur a) (\<lambda>ia. Inr (True, ia))"
| "find_step l (Field f) cur a =
     pbind (arena_get a cur) (\<lambda>current.
     pbind (child_where a (\<lambda>e. e = Field f) (mp_children current)) (\<lambda>found.
       case found of Some i \<Rightarrow> Inr (True, i, a) | None \<Rightarrow> Inr (False, cur, a)))"
| "find_step l (ConstantIndex ofs m from_end) cur a =
     (if from_end then Inr (False, cur, a)
      else pbind (child_or_new l
             (\<lambda>e. case e of ConstantIndex o' _ fe \<Rightarrow> \<not> fe \<and> o' = ofs | _ \<Rightarrow> False)
             (ConstantIndex ofs 0 False) cur a) (\<lambda>ia. Inr (True, ia)))"
| "find_step l (Subslice _ _ _) cur a = Inr (False, cur, a)"
| "find_step l ProjectionElem.Deref cur a = Inr (False, cur, a)"

fun find_from :: "LocalIdx \<Rightarrow> ProjectionElem list \<Rightarrow> nat \<Rightarrow> MovePathArena \<Rightarrow> panicked + nat \<times> MovePathArena" where
  "find_from l [] cur a = Inr (cur, a)"
| "find_from l (e # es) cur a =
     pbind (find_step l e cur a) (\<lambda>(go, cur', a').
       if go then find_from l es cur' a' else Inr (cur', a'))"

definition find_path :: "Place \<Rightarrow> MovePathArena \<Rightarrow> panicked + nat option \<times> MovePathArena" where
  "find_path place a =
     (case slice_get (ma_root_index a) (local_index place) of
        None \<Rightarrow> Inr (None, a)
      | Some root \<Rightarrow>
          if pl_projection place = [] then Inr (root, a)
          else (case root of
                  None \<Rightarrow> Inr (None, a)
                | Some cur \<Rightarrow> pbind (find_from (pl_local place) (pl_projection place) cur a)
                    (\<lambda>(i, a'). Inr (Some i, a'))))"

definition find_root :: "LocalIdx \<Rightarrow> MovePathArena \<Rightarrow> nat option" where
  "find_root l a = (case slice_get (ma_root_index a) (unat l) of Some r \<Rightarrow> r | None \<Rightarrow> None)"

subsection \<open>Building\<close>

definition count_fields :: "BorrowckCtx \<Rightarrow> Ty \<Rightarrow> nat option" where
  "count_fields ctx ty =
     (case tl_ty_kind (bc_ty_ctx ctx) ty of
        TyKind.Tuple substs \<Rightarrow> Some (unat (sub_len substs))
      | TyKind.Adt adt _ \<Rightarrow>
          (case bc_adt_repr ctx adt of
             Some tys \<Rightarrow> Some (unat (of_nat (length tys) :: u32))
           | None \<Rightarrow>
               (case tl_adt_def (bc_ty_ctx ctx) adt of
                  None \<Rightarrow> None
                | Some def \<Rightarrow>
                    if ad_kind def = AdtKind.Enum then None
                    else Some (unat (of_nat (length (ad_fields def)) :: u32))))
      | TyKind.Array _ len \<Rightarrow>
          (case const_kind len of
             ConstKind.Uint n \<Rightarrow> Some (unat (ucast n :: u32))
           | ConstKind.Int n \<Rightarrow> if 0 \<le> sint n then Some (unat (ucast n :: u32)) else None
           | _ \<Rightarrow> None)
      | _ \<Rightarrow> None)"

definition add_field :: "LocalIdx \<Rightarrow> nat \<Rightarrow> nat \<Rightarrow> MovePathArena \<Rightarrow> panicked + MovePathArena" where
  "add_field l root f a =
     pbind (new_child root \<lparr>pl_local = l, pl_projection = [Field (of_nat f)]\<rparr> a) (\<lambda>(_, a'). Inr a')"

definition add_local :: "BorrowckCtx \<Rightarrow> nat \<times> LocalDecl \<Rightarrow> MovePathArena \<Rightarrow> panicked + MovePathArena" where
  "add_local ctx ld a =
     (let l = of_nat (fst ld);
          (root, a1) = arena_push \<lparr>mp_place = Place_new l, mp_parent = None, mp_children = []\<rparr> a in
      pbind (vec_set (fst ld) (Some root) (ma_root_index a1)) (\<lambda>roots.
        let a2 = a1\<lparr>ma_root_index := roots\<rparr> in
        case count_fields ctx (ld_ty (snd ld)) of
          Some n \<Rightarrow> pfold (add_field l root) [0..<n] a2
        | None \<Rightarrow> Inr a2))"

definition build_move_paths :: "BorrowckCtx \<Rightarrow> Body \<Rightarrow> panicked + MovePathArena" where
  "build_move_paths ctx body =
     pfold (add_local ctx) (enumerate 0 (b_locals body)) (arena_new (length (b_locals body)))"

section \<open>The effects of a statement\<close>

definition record_move :: "'b BitSetOps \<Rightarrow> MovePathArena \<Rightarrow> nat \<Rightarrow> 'b \<Rightarrow> panicked + 'b" where
  "record_move ops a i moved =
     pbind (bit_insert ops i moved) (\<lambda>m.
     pbind (arena_get a i) (\<lambda>mp. pfold (bit_insert ops) (mp_children mp) m))"

definition record_init :: "'b BitSetOps \<Rightarrow> MovePathArena \<Rightarrow> nat \<Rightarrow> 'b \<Rightarrow> panicked + 'b" where
  "record_init ops a i inits =
     pbind (bit_insert ops i inits) (\<lambda>m.
     pbind (arena_get a i) (\<lambda>mp. pfold (bit_insert ops) (mp_children mp) m))"

fun collect_operand_move ::
    "'b BitSetOps \<Rightarrow> BorrowckCtx \<Rightarrow> LocalDecl IndexVec \<Rightarrow> Operand \<Rightarrow> MovePathArena \<times> 'b \<Rightarrow>
     panicked + MovePathArena \<times> 'b" where
  "collect_operand_move ops ctx locals (Operand.Move place) (a, moves) =
     pbind (place_ty (bc_ty_ctx ctx) place locals) (\<lambda>ty.
       if bc_is_copy ctx ty then Inr (a, moves)
       else pbind (find_path place a) (\<lambda>(found, a').
         case found of
           None \<Rightarrow> Inr (a', moves)
         | Some i \<Rightarrow> pbind (record_move ops a' i moves) (\<lambda>m. Inr (a', m))))"
| "collect_operand_move ops ctx locals _ am = Inr am"

fun rvalue_operands :: "Rvalue \<Rightarrow> Operand list" where
  "rvalue_operands (Use op) = [op]"
| "rvalue_operands (Rvalue.Ref _ _) = []"
| "rvalue_operands (BinaryOp _ l r) = [l, r]"
| "rvalue_operands (UnaryOp _ op) = [op]"
| "rvalue_operands (Rvalue.Aggregate _ ops) = ops"
| "rvalue_operands (Discriminant _) = []"
| "rvalue_operands (Len _) = []"
| "rvalue_operands (Rvalue.Cast _ op _) = [op]"
| "rvalue_operands (Repeat op _) = [op]"

definition collect_rvalue_move_operands ::
    "'b BitSetOps \<Rightarrow> BorrowckCtx \<Rightarrow> LocalDecl IndexVec \<Rightarrow> Rvalue \<Rightarrow> MovePathArena \<times> 'b \<Rightarrow>
     panicked + MovePathArena \<times> 'b" where
  "collect_rvalue_move_operands ops ctx locals rv =
     pfold (collect_operand_move ops ctx locals) (rvalue_operands rv)"

record 'b BlockEffects =
  be_moves :: 'b
  be_inits :: 'b
  be_deads :: 'b
  be_dead_inits :: 'b

definition record_inits :: "'b BitSetOps \<Rightarrow> MovePathArena \<Rightarrow> nat option \<Rightarrow> 'b BlockEffects \<Rightarrow> panicked + 'b BlockEffects" where
  "record_inits ops a found be =
     (case found of
        None \<Rightarrow> Inr be
      | Some i \<Rightarrow>
          pbind (record_init ops a i (be_inits be)) (\<lambda>ins.
          pbind (record_init ops a i (be_dead_inits be)) (\<lambda>dis.
            Inr (be\<lparr>be_inits := ins, be_dead_inits := dis\<rparr>))))"

fun collect_stmt_move_effects ::
    "'b BitSetOps \<Rightarrow> BorrowckCtx \<Rightarrow> LocalDecl IndexVec \<Rightarrow> StatementKind \<Rightarrow> MovePathArena \<times> 'b BlockEffects \<Rightarrow>
     panicked + MovePathArena \<times> 'b BlockEffects" where
  "collect_stmt_move_effects ops ctx locals (Assign dest rv) (a, be) =
     pbind (find_path dest a) (\<lambda>(found, a').
     pbind (record_inits ops a' found be) (\<lambda>be'.
     pbind (collect_rvalue_move_operands ops ctx locals rv (a', be_moves be')) (\<lambda>(a'', ms).
       Inr (a'', be'\<lparr>be_moves := ms\<rparr>))))"
| "collect_stmt_move_effects ops ctx locals (StorageLive l) (a, be) =
     pbind (record_inits ops a (find_root l a) be) (\<lambda>be'. Inr (a, be'))"
| "collect_stmt_move_effects ops ctx locals (StorageDead l) (a, be) =
     (case find_root l a of
        None \<Rightarrow> Inr (a, be)
      | Some i \<Rightarrow>
          pbind (record_move ops a i (be_moves be)) (\<lambda>ms.
          pbind (record_move ops a i (be_deads be)) (\<lambda>ds.
            Inr (a, be\<lparr>be_moves := ms, be_deads := ds\<rparr>))))"
| "collect_stmt_move_effects ops ctx locals StatementKind.Nop abe = Inr abe"

fun collect_terminator_effects ::
    "'b BitSetOps \<Rightarrow> TerminatorKind \<Rightarrow> MovePathArena \<times> 'b BlockEffects \<Rightarrow>
     panicked + MovePathArena \<times> 'b BlockEffects" where
  "collect_terminator_effects ops (TerminatorKind.Call _ _ destination _ _) (a, be) =
     pbind (find_path destination a) (\<lambda>(found, a').
     pbind (record_inits ops a' found be) (\<lambda>be'. Inr (a', be')))"
| "collect_terminator_effects ops _ abe = Inr abe"

definition no_effects :: "'b BitSetOps \<Rightarrow> nat \<Rightarrow> 'b BlockEffects" where
  "no_effects ops n =
     \<lparr>be_moves = bs_with_capacity ops n, be_inits = bs_with_capacity ops n,
      be_deads = bs_with_capacity ops n, be_dead_inits = bs_with_capacity ops n\<rparr>"

definition collect_block_effects ::
    "'b BitSetOps \<Rightarrow> BorrowckCtx \<Rightarrow> LocalDecl IndexVec \<Rightarrow> nat \<Rightarrow> BasicBlockData \<Rightarrow>
     MovePathArena \<times> 'b BlockEffects list \<Rightarrow> panicked + MovePathArena \<times> 'b BlockEffects list" where
  "collect_block_effects ops ctx locals num_paths bb aes =
     pbind (pfold (\<lambda>st. collect_stmt_move_effects ops ctx locals (st_kind st)) (bb_statements bb)
       (fst aes, no_effects ops num_paths)) (\<lambda>abe.
     pbind (collect_terminator_effects ops (te_kind (bb_terminator bb)) abe) (\<lambda>(a, be).
       Inr (a, snd aes @ [be])))"

definition collect_effects ::
    "'b BitSetOps \<Rightarrow> BorrowckCtx \<Rightarrow> Body \<Rightarrow> MovePathArena \<Rightarrow> panicked + MovePathArena \<times> 'b BlockEffects list" where
  "collect_effects ops ctx body a =
     pfold (collect_block_effects ops ctx (b_locals body) (arena_len a)) (b_blocks body) (a, [])"

section \<open>The dataflow\<close>

record 'b MoveState =
  ms_moved_in :: 'b
  ms_moved_out :: 'b
  ms_dead_in :: 'b
  ms_dead_out :: 'b

definition no_moves :: "'b BitSetOps \<Rightarrow> nat \<Rightarrow> 'b MoveState" where
  "no_moves ops n =
     \<lparr>ms_moved_in = bs_with_capacity ops n, ms_moved_out = bs_with_capacity ops n,
      ms_dead_in = bs_with_capacity ops n, ms_dead_out = bs_with_capacity ops n\<rparr>"

definition union_preds ::
    "'b BitSetOps \<Rightarrow> ('b MoveState \<Rightarrow> 'b) \<Rightarrow> 'b MoveState list \<Rightarrow> nat list \<Rightarrow> 'b \<Rightarrow> panicked + 'b" where
  "union_preds ops out ds =
     pfold (\<lambda>pred acc. pbind (vec_index ds pred) (\<lambda>d. Inr (bs_union_with ops acc (out d))))"

definition move_recompute ::
    "'b BitSetOps \<Rightarrow> nat \<Rightarrow> 'b BlockEffects list \<Rightarrow> nat list list \<Rightarrow> nat \<Rightarrow> 'b MoveState list \<Rightarrow>
     panicked + 'b MoveState" where
  "move_recompute ops num_paths effects preds bi ds =
     pbind (vec_index preds bi) (\<lambda>ps.
     pbind (vec_index effects bi) (\<lambda>be.
     pbind (union_preds ops ms_moved_out ds ps (bs_with_capacity ops num_paths)) (\<lambda>min.
     pbind (if bi \<noteq> 0 then union_preds ops ms_dead_out ds ps (bs_with_capacity ops num_paths)
            else Inr (bs_with_capacity ops num_paths)) (\<lambda>din.
       Inr \<lparr>ms_moved_in = min,
            ms_moved_out = bs_difference_with ops (bs_union_with ops min (be_moves be)) (be_inits be),
            ms_dead_in = din,
            ms_dead_out = bs_difference_with ops (bs_union_with ops din (be_deads be)) (be_dead_inits be)\<rparr>))))"

definition moves_differ :: "'b BitSetOps \<Rightarrow> 'b MoveState \<Rightarrow> 'b MoveState \<Rightarrow> bool" where
  "moves_differ ops new old \<longleftrightarrow>
     \<not> bs_eq ops (ms_moved_in new) (ms_moved_in old) \<or> \<not> bs_eq ops (ms_moved_out new) (ms_moved_out old) \<or>
     \<not> bs_eq ops (ms_dead_in new) (ms_dead_in old) \<or> \<not> bs_eq ops (ms_dead_out new) (ms_dead_out old)"

definition readers_of :: "Body \<Rightarrow> nat \<Rightarrow> panicked + nat list" where
  "readers_of body bi = pbind (vec_index (b_blocks body) bi) (\<lambda>bb. Inr (successors_of bb))"

definition compute_move_dataflow ::
    "'b BitSetOps \<Rightarrow> BorrowckCtx \<Rightarrow> Body \<Rightarrow> MovePathArena \<Rightarrow>
     (panicked + 'b MoveState list \<times> MovePathArena) option" where
  "compute_move_dataflow ops ctx body a =
     (let n = length (b_blocks body); num_paths = arena_len a in
      case pbind (collect_effects ops ctx body a) (\<lambda>(a', effects).
           pbind (compute_predecessors body) (\<lambda>preds.
           pbind (flow_start ops n (no_moves ops num_paths)) (\<lambda>fl. Inr (a', effects, preds, fl)))) of
        Inl e \<Rightarrow> Some (Inl e)
      | Inr (a', effects, preds, fl) \<Rightarrow>
          map_option (\<lambda>r. pbind r (\<lambda>fl'. Inr (fl_data fl', a')))
            (pop_loop (worklist_step ops (move_recompute ops num_paths effects preds) (moves_differ ops)
               (readers_of body)) fl))"

section \<open>Within a block\<close>

definition clear_path ::
    "'b BitSetOps \<Rightarrow> MovePathArena \<Rightarrow> nat option \<Rightarrow> 'b \<times> 'b \<Rightarrow> panicked + 'b \<times> 'b" where
  "clear_path ops a found md =
     (case found of
        None \<Rightarrow> Inr md
      | Some i \<Rightarrow>
          pbind (arena_get a i) (\<lambda>mp.
            pfold (\<lambda>j (m, d). pbind (bit_remove ops j m) (\<lambda>m'. pbind (bit_remove ops j d) (\<lambda>d'. Inr (m', d'))))
              (i # mp_children mp) md))"

fun apply_stmt_move_effects ::
    "'b BitSetOps \<Rightarrow> BorrowckCtx \<Rightarrow> LocalDecl IndexVec \<Rightarrow> StatementKind \<Rightarrow> MovePathArena \<times> 'b \<times> 'b \<Rightarrow>
     panicked + MovePathArena \<times> 'b \<times> 'b" where
  "apply_stmt_move_effects ops ctx locals (Assign dest rv) (a, md) =
     pbind (find_path dest a) (\<lambda>(found, a').
     pbind (clear_path ops a' found md) (\<lambda>(m, d).
     pbind (collect_rvalue_move_operands ops ctx locals rv (a', m)) (\<lambda>(a'', m').
       Inr (a'', m', d))))"
| "apply_stmt_move_effects ops ctx locals (StorageLive l) (a, md) =
     pbind (clear_path ops a (find_root l a) md) (\<lambda>md'. Inr (a, md'))"
| "apply_stmt_move_effects ops ctx locals (StorageDead l) (a, m, d) =
     (case find_root l a of
        None \<Rightarrow> Inr (a, m, d)
      | Some i \<Rightarrow>
          pbind (record_move ops a i m) (\<lambda>m'.
          pbind (record_move ops a i d) (\<lambda>d'. Inr (a, m', d'))))"
| "apply_stmt_move_effects ops ctx locals StatementKind.Nop amd = Inr amd"

text \<open>The moved and dead sets in front of every statement, and behind the last.\<close>

fun scan_moves ::
    "'b BitSetOps \<Rightarrow> BorrowckCtx \<Rightarrow> LocalDecl IndexVec \<Rightarrow> Statement list \<Rightarrow> MovePathArena \<times> 'b \<times> 'b \<Rightarrow>
     panicked + ('b \<times> 'b) list \<times> MovePathArena" where
  "scan_moves ops ctx locals [] (a, md) = Inr ([md], a)"
| "scan_moves ops ctx locals (st # sts) (a, md) =
     pbind (apply_stmt_move_effects ops ctx locals (st_kind st) (a, md)) (\<lambda>amd.
     pbind (scan_moves ops ctx locals sts amd) (\<lambda>(mds, a'). Inr (md # mds, a')))"

definition compute_stmt_moved ::
    "'b BitSetOps \<Rightarrow> BorrowckCtx \<Rightarrow> Body \<Rightarrow> nat \<Rightarrow> 'b \<Rightarrow> 'b \<Rightarrow> MovePathArena \<Rightarrow>
     panicked + ('b \<times> 'b) list \<times> MovePathArena" where
  "compute_stmt_moved ops ctx body block moved_in dead_in a =
     pbind (vec_index (b_blocks body) block) (\<lambda>bb.
       scan_moves ops ctx (b_locals body) (bb_statements bb) (a, moved_in, dead_in))"

section \<open>The check of the uses\<close>

datatype UsedPlace = UsedOperand (used_place: Place) | UsedBorrow (used_place: Place)
  | UsedInspect (used_place: Place)

fun operand_used :: "Operand \<Rightarrow> UsedPlace list" where
  "operand_used (Operand.Copy p) = [UsedOperand p]"
| "operand_used (Operand.Move p) = [UsedOperand p]"
| "operand_used (Operand.Constant _) = []"

fun collect_rvalue_used_places :: "Rvalue \<Rightarrow> UsedPlace list" where
  "collect_rvalue_used_places (Use op) = operand_used op"
| "collect_rvalue_used_places (Rvalue.Ref p _) = [UsedBorrow p]"
| "collect_rvalue_used_places (BinaryOp _ l r) = operand_used l @ operand_used r"
| "collect_rvalue_used_places (UnaryOp _ op) = operand_used op"
| "collect_rvalue_used_places (Rvalue.Aggregate _ ops) = concat (map operand_used ops)"
| "collect_rvalue_used_places (Discriminant p) = [UsedInspect p]"
| "collect_rvalue_used_places (Len p) = [UsedInspect p]"
| "collect_rvalue_used_places (Rvalue.Cast _ op _) = operand_used op"
| "collect_rvalue_used_places (Repeat op _) = operand_used op"

fun collect_used_places :: "StatementKind \<Rightarrow> UsedPlace list" where
  "collect_used_places (Assign _ rv) = collect_rvalue_used_places rv"
| "collect_used_places _ = []"

definition move_msg :: "BorrowckCtx \<Rightarrow> string \<Rightarrow> Place \<Rightarrow> string \<Rightarrow> string" where
  "move_msg ctx prefix place suffix = prefix @ bc_local_name ctx (pl_local place) @ suffix"

definition child_in :: "'b BitSetOps \<Rightarrow> 'b \<Rightarrow> Place \<Rightarrow> MovePathArena \<Rightarrow> panicked + bool" where
  "child_in ops b place a =
     (if pl_projection place \<noteq> [] then Inr False
      else (case find_root (pl_local place) a of
              None \<Rightarrow> Inr False
            | Some r \<Rightarrow> pbind (arena_get a r) (\<lambda>mp. Inr (\<exists>c\<in>set (mp_children mp). bs_contains ops b c))))"

definition path_in :: "'b BitSetOps \<Rightarrow> 'b \<Rightarrow> nat option \<Rightarrow> bool" where
  "path_in ops b found = (case found of Some i \<Rightarrow> bs_contains ops b i | None \<Rightarrow> False)"

definition check_moved ::
    "'b BitSetOps \<Rightarrow> BorrowckCtx \<Rightarrow> Span \<Rightarrow> 'b \<Rightarrow> Place \<Rightarrow> MovePathArena \<Rightarrow>
     panicked + GlyimDiagnostic list \<times> MovePathArena" where
  "check_moved ops ctx span moved place a =
     pbind (find_path place a) (\<lambda>(found, a').
       if path_in ops moved found then
         Inr ([borrow_error span
           (if pl_projection place = [] then move_msg ctx ''use of moved value: `'' place ''`''
            else move_msg ctx ''use of partially moved value: `'' place ''.*`'')], a')
       else
         pbind (child_in ops moved place a') (\<lambda>child.
           Inr (if child then [borrow_error span (move_msg ctx ''use of partially moved value: `'' place ''`'')]
                else [], a')))"

text \<open>\<open>check_place_use_after_move\<close>: dead storage first; then, unless an operand is \<open>Copy\<close>, moves.\<close>

definition check_place_use ::
    "'b BitSetOps \<Rightarrow> BorrowckCtx \<Rightarrow> LocalDecl IndexVec \<Rightarrow> Span \<Rightarrow> 'b \<times> 'b \<Rightarrow> UsedPlace \<Rightarrow> MovePathArena \<Rightarrow>
     panicked + GlyimDiagnostic list \<times> MovePathArena" where
  "check_place_use ops ctx locals span md used a =
     (let place = used_place used in
      pbind (find_path place a) (\<lambda>(found, a').
        if path_in ops (snd md) found then
          Inr ([borrow_error span
            (if pl_projection place = [] then move_msg ctx ''use of dead local `'' place ''`''
             else move_msg ctx ''use of dead local `'' place ''.*`'')], a')
        else
          pbind (child_in ops (snd md) place a') (\<lambda>child.
            if child then Inr ([borrow_error span (move_msg ctx ''use of partially dead local `'' place ''`'')], a')
            else (case used of
                    UsedOperand p \<Rightarrow>
                      pbind (place_ty (bc_ty_ctx ctx) p locals) (\<lambda>ty.
                        if bc_is_copy ctx ty then Inr ([], a')
                        else check_moved ops ctx span (fst md) place a')
                  | _ \<Rightarrow> check_moved ops ctx span (fst md) place a'))))"

definition check_stmt_use_after_move ::
    "'b BitSetOps \<Rightarrow> BorrowckCtx \<Rightarrow> LocalDecl IndexVec \<Rightarrow> Statement \<Rightarrow> 'b \<times> 'b \<Rightarrow>
     GlyimDiagnostic list \<times> MovePathArena \<Rightarrow> panicked + GlyimDiagnostic list \<times> MovePathArena" where
  "check_stmt_use_after_move ops ctx locals st md =
     pfold (\<lambda>used (errors, a).
       pbind (check_place_use ops ctx locals (si_span (st_source_info st)) md used a) (\<lambda>(es, a').
         Inr (errors @ es, a'))) (collect_used_places (st_kind st))"

definition check_block_moves ::
    "'b BitSetOps \<Rightarrow> BorrowckCtx \<Rightarrow> Body \<Rightarrow> 'b MoveState list \<Rightarrow> nat \<times> BasicBlockData \<Rightarrow>
     GlyimDiagnostic list \<times> MovePathArena \<Rightarrow> panicked + GlyimDiagnostic list \<times> MovePathArena" where
  "check_block_moves ops ctx body states bbb ea =
     pbind (vec_index states (fst bbb)) (\<lambda>ms.
     pbind (compute_stmt_moved ops ctx body (fst bbb) (ms_moved_in ms) (ms_dead_in ms) (snd ea)) (\<lambda>(mds, a).
       pfold (\<lambda>(i, st) ea'.
           pbind (vec_index mds i) (\<lambda>md. check_stmt_use_after_move ops ctx (b_locals body) st md ea'))
         (enumerate 0 (bb_statements (snd bbb))) (fst ea, a)))"

definition check_moves ::
    "'b BitSetOps \<Rightarrow> BorrowckCtx \<Rightarrow> Body \<Rightarrow> (panicked + GlyimDiagnostic list) option" where
  "check_moves ops ctx body =
     obind (Some (build_move_paths ctx body)) (\<lambda>a.
       if arena_len a = 0 then Some (Inr [])
       else obind (compute_move_dataflow ops ctx body a) (\<lambda>(states, a').
         Some (pbind (pfold (check_block_moves ops ctx body states) (enumerate 0 (b_blocks body)) ([], a'))
           (\<lambda>(errors, _). Inr errors))))"

text \<open>The whole checker: the borrow conflicts, then the move errors.\<close>

definition check_borrows ::
    "'b BitSetOps \<Rightarrow> BorrowckCtx \<Rightarrow> Body \<Rightarrow> (panicked + GlyimDiagnostic list) option" where
  "check_borrows ops ctx body =
     obind (borrow_conflicts ops ctx body) (\<lambda>errors.
     obind (check_moves ops ctx body) (\<lambda>move_errors. Some (Inr (errors @ move_errors))))"

end
