(* ===== verification/Borrowck_Liveness_Props.thy ===== *)
theory Borrowck_Liveness_Props
  imports Mir_Samples
begin

text \<open>
  Correctness of the liveness analysis: it ends without a panic (\<open>liveness\<close> is an interpretation
  of the worklist contract), \<open>live_out\<close> is exact, and the scan of a block is exact up to the
  terminator, whose reads it leaves out.
\<close>

section \<open>Capacity\<close>

lemma stmt_capacity_ge: "m \<le> stmt_capacity st m"
  by (cases st) simp_all

lemma stmts_capacity_ge: "m \<le> fold (\<lambda>st. stmt_capacity (st_kind st)) sts m"
proof (induction sts arbitrary: m)
  case (Cons st sts)
  have "m \<le> stmt_capacity (st_kind st) m" by (rule stmt_capacity_ge)
  also have "\<dots> \<le> fold (\<lambda>st. stmt_capacity (st_kind st)) sts (stmt_capacity (st_kind st) m)" by (rule Cons.IH)
  finally show ?case by simp
qed simp

lemma stmts_capacity_defs:
  "st \<in> set sts \<Longrightarrow> stmt_defs (st_kind st) \<subseteq> {..<fold (\<lambda>st. stmt_capacity (st_kind st)) sts m}"
proof (induction sts arbitrary: m)
  case (Cons s sts)
  have "stmt_defs (st_kind s) \<subseteq> {..<stmt_capacity (st_kind s) m}"
    by (cases "st_kind s") simp_all
  then have "stmt_defs (st_kind s) \<subseteq> {..<fold (\<lambda>st. stmt_capacity (st_kind st)) sts (stmt_capacity (st_kind s) m)}"
    using stmts_capacity_ge [of "stmt_capacity (st_kind s) m" sts] by auto
  with Cons show ?case by auto
qed simp

lemma block_capacity_ge: "m \<le> block_capacity bb m"
  using stmts_capacity_ge [of m "bb_statements bb"]
  by (cases "te_kind (bb_terminator bb)") (simp_all add: block_capacity_def)

lemma block_capacity_defs:
  "st \<in> set (bb_statements bb) \<Longrightarrow> stmt_defs (st_kind st) \<subseteq> {..<block_capacity bb m}"
  "terminator_defs (te_kind (bb_terminator bb)) \<subseteq> {..<block_capacity bb m}"
  using stmts_capacity_defs [of st "bb_statements bb" m]
  by (cases "te_kind (bb_terminator bb)"; auto simp: block_capacity_def)+

lemma blocks_capacity_ge: "m \<le> fold block_capacity bbs m"
proof (induction bbs arbitrary: m)
  case (Cons bb bbs)
  then show ?case using block_capacity_ge [of m bb] order.trans by fastforce
qed simp

lemma blocks_capacity_block:
  "bb \<in> set bbs \<Longrightarrow> \<exists>m'. block_capacity bb m' \<le> fold block_capacity bbs m"
proof (induction bbs arbitrary: m)
  case (Cons b bbs)
  then show ?case using blocks_capacity_ge [of "block_capacity b m" bbs] by auto
qed simp

lemma local_capacity_defs:
  assumes "bb \<in> set (b_blocks body)"
  shows "st \<in> set (bb_statements bb) \<Longrightarrow> stmt_defs (st_kind st) \<subseteq> {..<local_capacity body}"
    and "terminator_defs (te_kind (bb_terminator bb)) \<subseteq> {..<local_capacity body}"
proof -
  from blocks_capacity_block [OF assms] obtain m where
    le: "block_capacity bb m \<le> local_capacity body" unfolding local_capacity_def by blast
  show "stmt_defs (st_kind st) \<subseteq> {..<local_capacity body}" if "st \<in> set (bb_statements bb)"
    using block_capacity_defs(1) [OF that, of m] le by auto
  show "terminator_defs (te_kind (bb_terminator bb)) \<subseteq> {..<local_capacity body}"
    using block_capacity_defs(2) [of bb m] le by auto
qed

section \<open>Summaries\<close>

lemma summarize_stmt_Inr:
  assumes L: "bitset_laws ops" and len: "bs_len ops bu = c" "bs_len ops bd = c"
    and range: "stmt_reads k \<subseteq> {..<c}" "stmt_defs k \<subseteq> {..<c}"
  shows "\<exists>bu' bd'. summarize_stmt ops k (bu, bd) = Inr (bu', bd') \<and> bs_len ops bu' = c \<and> bs_len ops bd' = c \<and>
    bits ops bu' = bits ops bu \<union> (stmt_reads k - bits ops bd) \<and> bits ops bd' = bits ops bd \<union> stmt_defs k"
proof (cases k)
  case (Assign place rvalue)
  obtain u where u: "pfold (use_collector ops bd) (rvalue_places rvalue) bu = Inr u" "bs_len ops u = c"
    "bits ops u = bits ops bu \<union> (stmt_reads k - bits ops bd)"
  proof (rule use_collector_walk [OF L, of "rvalue_places rvalue" bu bd])
    show "local_index p < bs_len ops bu" if "p \<in> set (rvalue_places rvalue)" for p
      using that range(1) len(1) Assign by auto
  qed (use Assign len in simp)
  have "local_index place < bs_len ops bd" using range(2) Assign len by simp
  with L obtain d where "bit_insert ops (local_index place) bd = Inr d" "bs_len ops d = bs_len ops bd"
    "bits ops d = insert (local_index place) (bits ops bd)" by (rule bit_insertE)
  with u Assign len show ?thesis by (simp add: walk_folds)
qed (simp_all add: len)

lemma summarize_stmts_Inr:
  assumes L: "bitset_laws ops" and "bs_len ops bu = c" "bs_len ops bd = c"
    and "\<And>st. st \<in> set sts \<Longrightarrow> stmt_reads (st_kind st) \<subseteq> {..<c} \<and> stmt_defs (st_kind st) \<subseteq> {..<c}"
  shows "\<exists>bu' bd'. pfold (\<lambda>st. summarize_stmt ops (st_kind st)) sts (bu, bd) = Inr (bu', bd') \<and>
    bs_len ops bu' = c \<and> bs_len ops bd' = c \<and>
    (\<forall>k out. bits ops bu \<union> (gen sts k out - bits ops bd) = bits ops bu' \<union> (gen [] k out - bits ops bd'))"
  using assms(2-)
proof (induction sts arbitrary: bu bd)
  case (Cons st sts)
  have r: "stmt_reads (st_kind st) \<subseteq> {..<c}" "stmt_defs (st_kind st) \<subseteq> {..<c}" using Cons.prems(3) by simp_all
  from summarize_stmt_Inr [OF L Cons.prems(1,2) r] obtain u d where
    s: "summarize_stmt ops (st_kind st) (bu, bd) = Inr (u, d)" "bs_len ops u = c" "bs_len ops d = c"
      "bits ops u = bits ops bu \<union> (stmt_reads (st_kind st) - bits ops bd)"
      "bits ops d = bits ops bd \<union> stmt_defs (st_kind st)" by blast
  from Cons.IH [OF s(2,3)] Cons.prems(3) obtain u' d' where
    ih: "pfold (\<lambda>st. summarize_stmt ops (st_kind st)) sts (u, d) = Inr (u', d')"
      "bs_len ops u' = c" "bs_len ops d' = c"
      "\<forall>k out. bits ops u \<union> (gen sts k out - bits ops d) = bits ops u' \<union> (gen [] k out - bits ops d')"
    by auto
  have "bits ops bu \<union> (gen (st # sts) k out - bits ops bd) = bits ops u' \<union> (gen [] k out - bits ops d')" for k out
    using ih(4) [rule_format, of k out] s(4,5) by auto
  with s(1) ih(1-3) show ?case by auto
qed simp

lemma terminator_def_Inr:
  assumes "bitset_laws ops" and "bs_len ops bd = c" and "terminator_defs k \<subseteq> {..<c}"
  shows "\<exists>bd'. terminator_def ops k bd = Inr bd' \<and> bs_len ops bd' = c \<and>
    bits ops bd' = bits ops bd \<union> terminator_defs k"
proof (cases k)
  case (Call func args destination target cleanup)
  then have "local_index destination < bs_len ops bd" using assms(2,3) by simp
  with assms(1) obtain d where "bit_insert ops (local_index destination) bd = Inr d"
    "bs_len ops d = bs_len ops bd" "bits ops d = insert (local_index destination) (bits ops bd)"
    by (rule bit_insertE)
  then show ?thesis using Call assms(2) by simp
qed (simp_all add: assms(2))

text \<open>A summary acts on the locals live at the end like the statements of the block do.\<close>

definition summary_ok :: "'b BitSetOps \<Rightarrow> nat \<Rightarrow> BasicBlockData \<Rightarrow> 'b \<times> 'b \<Rightarrow> bool" where
  "summary_ok ops c bb ud \<longleftrightarrow> bs_len ops (fst ud) = c \<and> bs_len ops (snd ud) = c \<and>
     (\<forall>out. gen (bb_statements bb) (te_kind (bb_terminator bb)) out = bits ops (fst ud) \<union> (out - bits ops (snd ud)))"

lemma block_summary_Inr:
  assumes p: "liveness_ok (ops, body)" and bb: "bb \<in> set (b_blocks body)"
  shows "\<exists>ud. block_summary ops (local_capacity body) bb = Inr ud \<and> summary_ok ops (local_capacity body) bb ud"
proof -
  let ?c = "local_capacity body" and ?k = "te_kind (bb_terminator bb)" and ?e = "bs_with_capacity ops (local_capacity body)"
  have L: "bitset_laws ops" using p by (simp add: liveness_ok_def)
  have sts: "stmt_reads (st_kind st) \<subseteq> {..<?c} \<and> stmt_defs (st_kind st) \<subseteq> {..<?c}"
    if "st \<in> set (bb_statements bb)" for st
    using p bb that local_capacity_defs(1) [OF bb that] by (auto simp: liveness_ok_def)
  have tr: "terminator_reads ?k \<subseteq> {..<?c}" using p bb by (simp add: liveness_ok_def)
  note e = bits_simps(1,2) [OF L, of ?c]
  from summarize_stmts_Inr [OF L e(2) e(2) sts] obtain u d where
    s: "pfold (\<lambda>st. summarize_stmt ops (st_kind st)) (bb_statements bb) (?e, ?e) = Inr (u, d)"
      "bs_len ops u = ?c" "bs_len ops d = ?c" and
    g: "\<forall>k out. bits ops ?e \<union> (gen (bb_statements bb) k out - bits ops ?e) =
      bits ops u \<union> (gen [] k out - bits ops d)"
    by blast
  from g have g: "gen (bb_statements bb) k out = bits ops u \<union> (gen [] k out - bits ops d)" for k out
    by (simp add: e)
  obtain u' where u': "pfold (use_collector ops d) (terminator_places ?k) u = Inr u'" "bs_len ops u' = ?c"
    "bits ops u' = bits ops u \<union> (terminator_reads ?k - bits ops d)"
  proof (rule use_collector_walk [OF L, of "terminator_places ?k" u d])
    show "local_index p < bs_len ops u" if "p \<in> set (terminator_places ?k)" for p
      using tr that s(2) by (auto simp: terminator_reads_def)
  qed (use s(2) in \<open>simp add: terminator_reads_def\<close>)
  from terminator_def_Inr [OF L s(3) local_capacity_defs(2) [OF bb]] obtain d' where
    d': "terminator_def ops ?k d = Inr d'" "bs_len ops d' = ?c" "bits ops d' = bits ops d \<union> terminator_defs ?k"
    by blast
  have "summary_ok ops ?c bb (u', d')"
    using u'(2,3) d'(2,3) g by (auto simp: summary_ok_def)
  moreover have "block_summary ops ?c bb = Inr (u', d')"
    using s(1) u'(1) d'(1) by (simp add: block_summary_def walk_folds)
  ultimately show ?thesis by blast
qed

lemma compute_block_summaries_Inr:
  assumes "liveness_ok (ops, body)"
  obtains sums where "compute_block_summaries ops body = Inr sums"
    "list_all2 (\<lambda>bb. summary_ok ops (local_capacity body) bb) (b_blocks body) sums"
proof -
  have "\<exists>ys. pmap (block_summary ops (local_capacity body)) (b_blocks body) = Inr ys"
    by (rule pmap_total) (use block_summary_Inr [OF assms] in blast)
  then obtain sums where s: "pmap (block_summary ops (local_capacity body)) (b_blocks body) = Inr sums" by blast
  then have "list_all2 (\<lambda>bb ud. block_summary ops (local_capacity body) bb = Inr ud) (b_blocks body) sums"
    by (simp add: pmap_Inr_iff)
  then have "list_all2 (\<lambda>bb. summary_ok ops (local_capacity body) bb) (b_blocks body) sums"
  proof (rule list.rel_mono_strong)
    fix bb ud assume "bb \<in> set (b_blocks body)" "block_summary ops (local_capacity body) bb = Inr ud"
    then show "summary_ok ops (local_capacity body) bb ud"
      using block_summary_Inr [OF assms] by fastforce
  qed
  with s show thesis using that by (simp add: compute_block_summaries_def)
qed

section \<open>Predecessors\<close>

lemma push_preds_Inr:
  assumes "set succs \<subseteq> {..<length preds}"
  shows "\<exists>preds'. pfold (push_pred i) succs preds = Inr preds' \<and> length preds' = length preds \<and>
    (\<forall>b<length preds. set (preds' ! b) = set (preds ! b) \<union> {j. j = i \<and> b \<in> set succs})"
  using assms
proof (induction succs arbitrary: preds)
  case (Cons s succs)
  let ?p = "preds[s := preds ! s @ [i]]"
  have s: "s < length preds" using Cons.prems by simp
  have "\<exists>preds'. pfold (push_pred i) succs ?p = Inr preds' \<and> length preds' = length ?p \<and>
    (\<forall>b<length ?p. set (preds' ! b) = set (?p ! b) \<union> {j. j = i \<and> b \<in> set succs})"
    using Cons.prems by (intro Cons.IH) simp
  moreover have "push_pred i s preds = Inr ?p" using s by (simp add: push_pred_def)
  moreover have "set (?p ! b) = set (preds ! b) \<union> {j. j = i \<and> b = s}" if "b < length preds" for b
    using s by (auto simp: nth_list_update)
  ultimately show ?case by auto
qed auto

lemma all_preds_Inr:
  assumes "\<And>bb. bb \<in> set bbs \<Longrightarrow> set (successors_of bb) \<subseteq> {..<length preds}"
  shows "\<exists>preds'. pfold (\<lambda>(i, bb). pfold (push_pred i) (successors_of bb)) (enumerate k bbs) preds = Inr preds' \<and>
    length preds' = length preds \<and>
    (\<forall>b<length preds. set (preds' ! b) =
       set (preds ! b) \<union> {k + j |j. j < length bbs \<and> b \<in> set (successors_of (bbs ! j))})"
  using assms
proof (induction bbs arbitrary: k preds)
  case (Cons bb bbs)
  from push_preds_Inr [of "successors_of bb" preds k] Cons.prems obtain p1 where
    p1: "pfold (push_pred k) (successors_of bb) preds = Inr p1" "length p1 = length preds"
      "\<And>b. b < length preds \<Longrightarrow> set (p1 ! b) = set (preds ! b) \<union> {j. j = k \<and> b \<in> set (successors_of bb)}"
    by fastforce
  from Cons.IH [of p1 "Suc k"] Cons.prems p1(2) obtain p2 where
    p2: "pfold (\<lambda>(i, bb). pfold (push_pred i) (successors_of bb)) (enumerate (Suc k) bbs) p1 = Inr p2"
      "length p2 = length preds"
      "\<And>b. b < length preds \<Longrightarrow> set (p2 ! b) =
         set (p1 ! b) \<union> {Suc k + j |j. j < length bbs \<and> b \<in> set (successors_of (bbs ! j))}"
    by auto
  have "{k + j |j. j < length (bb # bbs) \<and> b \<in> set (successors_of ((bb # bbs) ! j))} =
      {j. j = k \<and> b \<in> set (successors_of bb)} \<union>
      {Suc k + j |j. j < length bbs \<and> b \<in> set (successors_of (bbs ! j))}" for b
    by (auto simp: less_Suc_eq_0_disj nth_Cons' gr0_conv_Suc)
  with p1 p2 show ?case by (simp add: Un_assoc)
qed simp

lemma compute_predecessors_Inr:
  assumes "liveness_ok (ops, body)"
  obtains preds where "compute_predecessors body = Inr preds" "length preds = length (b_blocks body)"
    "\<And>b. b < length (b_blocks body) \<Longrightarrow>
       set (preds ! b) = {i. i < length (b_blocks body) \<and> b \<in> set (successors_of (b_blocks body ! i))}"
proof -
  let ?e = "replicate (length (b_blocks body)) ([] :: nat list)"
  have "\<exists>preds'. pfold (\<lambda>(i, bb). pfold (push_pred i) (successors_of bb)) (enumerate 0 (b_blocks body)) ?e = Inr preds' \<and>
    length preds' = length ?e \<and>
    (\<forall>b<length ?e. set (preds' ! b) =
       set (?e ! b) \<union> {0 + j |j. j < length (b_blocks body) \<and> b \<in> set (successors_of (b_blocks body ! j))})"
    using assms by (intro all_preds_Inr) (simp add: liveness_ok_def)
  then show thesis using that by (auto simp: compute_predecessors_def)
qed

section \<open>An instance of the worklist contract\<close>

definition lv_recompute :: "'b BitSetOps \<times> Body \<Rightarrow> nat \<Rightarrow> ('b \<times> 'b) list \<Rightarrow> panicked + 'b \<times> 'b" where
  "lv_recompute p bi live =
     pbind (compute_block_summaries (fst p) (snd p)) (\<lambda>sums. liveness_recompute (fst p) (snd p) sums bi live)"

definition lv_readers :: "'b BitSetOps \<times> Body \<Rightarrow> nat \<Rightarrow> panicked + nat list" where
  "lv_readers p bi = pbind (compute_predecessors (snd p)) (\<lambda>preds. vec_index preds bi)"

definition lv_none :: "'b BitSetOps \<times> Body \<Rightarrow> 'b \<times> 'b" where
  "lv_none p = (let none = bs_with_capacity (fst p) (local_capacity (snd p)) in (none, none))"

definition lv_wf :: "'b BitSetOps \<times> Body \<Rightarrow> 'b \<times> 'b \<Rightarrow> bool" where
  "lv_wf p io \<longleftrightarrow> bs_len (fst p) (fst io) = local_capacity (snd p) \<and> bs_len (fst p) (snd io) = local_capacity (snd p)"

definition lv_facts :: "'b BitSetOps \<times> Body \<Rightarrow> 'b \<times> 'b \<Rightarrow> (nat + nat) set" where
  "lv_facts p io = Inl ` bits (fst p) (fst io) \<union> Inr ` bits (fst p) (snd io)"

definition lv_out :: "Body \<Rightarrow> nat \<Rightarrow> (nat \<Rightarrow> (nat + nat) set) \<Rightarrow> nat set" where
  "lv_out body b X = (\<Union>s\<in>set (successors_of (b_blocks body ! b)). Inl -` X s)"

definition block_gen :: "Body \<Rightarrow> nat \<Rightarrow> nat set \<Rightarrow> nat set" where
  "block_gen body b out =
     gen (bb_statements (b_blocks body ! b)) (te_kind (bb_terminator (b_blocks body ! b))) out"

definition lv_equation :: "'b BitSetOps \<times> Body \<Rightarrow> nat \<Rightarrow> (nat \<Rightarrow> (nat + nat) set) \<Rightarrow> (nat + nat) set" where
  "lv_equation p b X =
     Inl ` block_gen (snd p) b (lv_out (snd p) b X) \<union> Inr ` lv_out (snd p) b X"

lemma gen_mono: "out \<subseteq> out' \<Longrightarrow> gen sts k out \<subseteq> gen sts k out'"
  by (induction sts) auto

lemma lv_facts_eq: "lv_facts p io = lv_facts p io' \<longleftrightarrow>
    bits (fst p) (fst io) = bits (fst p) (fst io') \<and> bits (fst p) (snd io) = bits (fst p) (snd io')"
  by (auto simp: lv_facts_def set_eq_iff)

lemma lv_facts_vimage: "Inl -` lv_facts p io = bits (fst p) (fst io)" "Inr -` lv_facts p io = bits (fst p) (snd io)"
  by (auto simp: lv_facts_def)

lemma union_live_in_Inr:
  assumes L: "bitset_laws ops" and "\<And>s. s \<in> set succs \<Longrightarrow> s < length live"
    and "\<And>io. io \<in> set live \<Longrightarrow> bs_len ops (fst io) = c" and "bs_len ops acc = c"
  shows "\<exists>out. pfold (union_live_in ops live) succs acc = Inr out \<and> bs_len ops out = c \<and>
    bits ops out = bits ops acc \<union> (\<Union>s\<in>set succs. bits ops (fst (live ! s)))"
  using assms(2,4)
proof (induction succs arbitrary: acc)
  case (Cons s succs)
  then have s: "s < length live" by simp
  have len: "bs_len ops (bs_union_with ops acc (fst (live ! s))) = c"
    using s Cons.prems(2) assms(3) nth_mem [OF s] by (simp add: bits_simps [OF L])
  have "union_live_in ops live s acc = Inr (bs_union_with ops acc (fst (live ! s)))"
    using s by (simp add: union_live_in_def)
  with Cons.IH [OF _ len] Cons.prems(1) show ?case by (auto simp: bits_simps [OF L])
qed simp

lemma lv_recompute_Inr:
  assumes p: "liveness_ok p" and b: "b < length (b_blocks (snd p))"
    and live: "length live = length (b_blocks (snd p))" "\<forall>io\<in>set live. lv_wf p io"
  shows "\<exists>io. lv_recompute p b live = Inr io \<and> lv_wf p io \<and>
    lv_facts p io = lv_equation p b (\<lambda>j. if j < length (b_blocks (snd p)) then lv_facts p (live ! j) else {})"
proof -
  obtain ops body where po: "p = (ops, body)" by (cases p)
  let ?bb = "b_blocks body ! b"
  have L: "bitset_laws ops" using p po by (simp add: liveness_ok_def)
  have bb: "?bb \<in> set (b_blocks body)" using b po by simp
  from compute_block_summaries_Inr [OF p [unfolded po]] obtain sums where
    sums: "compute_block_summaries ops body = Inr sums"
      "list_all2 (\<lambda>bb. summary_ok ops (local_capacity body) bb) (b_blocks body) sums" .
  have so: "summary_ok ops (local_capacity body) ?bb (sums ! b)" "b < length sums"
    using sums(2) b po by (auto simp: list_all2_conv_all_nth)
  have succs: "s \<in> set (successors_of ?bb) \<Longrightarrow> s < length live" for s
    using p bb live(1) po by (auto simp: liveness_ok_def)
  obtain out where out: "pfold (union_live_in ops live) (successors_of ?bb) (bs_with_capacity ops (local_capacity body)) = Inr out"
    "bs_len ops out = local_capacity body"
    "bits ops out = (\<Union>s\<in>set (successors_of ?bb). bits ops (fst (live ! s)))"
    using union_live_in_Inr [OF L succs, of "successors_of ?bb" "local_capacity body" "bs_with_capacity ops (local_capacity body)"]
      live(2) po by (auto simp: bits_simps [OF L] lv_wf_def)
  let ?io = "(bs_union_with ops (fst (sums ! b)) (bs_difference_with ops out (snd (sums ! b))), out)"
  have "lv_out body b (\<lambda>j. if j < length (b_blocks body) then lv_facts p (live ! j) else {}) = bits ops out"
    unfolding lv_out_def out(3)
    by (rule SUP_cong) (use succs live(1) po in \<open>auto simp: lv_facts_vimage\<close>)
  moreover have "block_gen body b (bits ops out) = bits ops (fst ?io)"
    using so(1) by (simp add: block_gen_def summary_ok_def bits_simps [OF L])
  ultimately have "lv_facts p ?io = lv_equation p b (\<lambda>j. if j < length (b_blocks (snd p)) then lv_facts p (live ! j) else {})"
    using po by (simp add: lv_equation_def lv_facts_def)
  moreover have "lv_recompute p b live = Inr ?io"
    using b po sums(1) out(1) so(2) by (simp add: lv_recompute_def liveness_recompute_def)
  moreover have "lv_wf p ?io"
    using so(1) out(2) po by (simp add: lv_wf_def summary_ok_def bits_simps [OF L])
  ultimately show ?thesis by blast
qed

lemma lv_readers_Inr:
  assumes p: "liveness_ok p" and b: "b < length (b_blocks (snd p))"
  shows "\<exists>rs. lv_readers p b = Inr rs \<and> set rs \<subseteq> {..<length (b_blocks (snd p))} \<and>
    (\<forall>j X Y. j < length (b_blocks (snd p)) \<longrightarrow> j \<notin> set rs \<longrightarrow> (\<forall>k. k \<noteq> b \<longrightarrow> X k = Y k) \<longrightarrow>
      lv_equation p j X = lv_equation p j Y)"
proof -
  obtain ops body where po: "p = (ops, body)" by (cases p)
  from compute_predecessors_Inr [OF p [unfolded po]] obtain preds where
    preds: "compute_predecessors body = Inr preds" "length preds = length (b_blocks body)" and
    mem: "\<And>b. b < length (b_blocks body) \<Longrightarrow>
       set (preds ! b) = {i. i < length (b_blocks body) \<and> b \<in> set (successors_of (b_blocks body ! i))}"
    by blast
  note preds = preds mem [OF b [unfolded po snd_conv]]
  have "lv_equation p j X = lv_equation p j Y"
    if "j < length (b_blocks body)" "j \<notin> set (preds ! b)" "\<forall>k. k \<noteq> b \<longrightarrow> X k = Y k" for j X Y
  proof -
    have "b \<notin> set (successors_of (b_blocks body ! j))" using that preds(3) by simp
    then have "lv_out body j X = lv_out body j Y"
      unfolding lv_out_def by (intro SUP_cong refl) (use that(3) in metis)
    then show ?thesis using po by (simp add: lv_equation_def)
  qed
  with preds b po show ?thesis by (auto simp: lv_readers_def)
qed

interpretation liveness: worklist liveness_ok fst "\<lambda>p. length (b_blocks (snd p))" lv_recompute
    "\<lambda>p. liveness_differs (fst p)" lv_readers lv_none lv_wf lv_facts
    "\<lambda>p. Inl ` {..<local_capacity (snd p)} \<union> Inr ` {..<local_capacity (snd p)}" lv_equation
proof (unfold_locales, goal_cases)
  case (1 p) then show ?case by (simp add: liveness_ok_def)
next
  case (2 p) then show ?case by (simp add: lv_wf_def lv_none_def Let_def liveness_ok_def bits_simps)
next
  case (3 p) then show ?case by (simp add: lv_facts_def lv_none_def Let_def liveness_ok_def bits_simps)
next
  case (4 p i ds) then show ?case by (rule lv_recompute_Inr)
next
  case (5 p d d')
  then have "bitset_laws (fst p)" by (simp add: liveness_ok_def)
  with 5 show ?case by (simp add: liveness_differs_def lv_facts_eq lv_wf_def bs_eq_bits)
next
  case (6 p) show ?case by simp
next
  case (7 p d)
  then have "bitset_laws (fst p)" by (simp add: liveness_ok_def)
  with 7 show ?case by (auto simp: lv_facts_def lv_wf_def dest: bits_less)
next
  case (8 X Y p i)
  then have "lv_out (snd p) i X \<subseteq> lv_out (snd p) i Y" by (fastforce simp: lv_out_def)
  then show ?case
    unfolding lv_equation_def block_gen_def by (intro Un_mono image_mono gen_mono)
next
  case (9 p i) then show ?case by (rule lv_readers_Inr)
qed

section \<open>Equations and paths\<close>

lemma used_later_gen:
  assumes "used_later body b i l"
    and sol: "\<And>b. b < length (b_blocks body) \<Longrightarrow> lv_equation (ops, body) b X \<subseteq> X b"
  shows "b < length (b_blocks body) \<and> i \<le> length (bb_statements (b_blocks body ! b)) \<and>
    l \<in> gen (drop i (bb_statements (b_blocks body ! b))) (te_kind (bb_terminator (b_blocks body ! b))) (lv_out body b X)"
  using assms(1)
proof (induction rule: used_later.induct)
  case (read b i l)
  then show ?case by (simp flip: Cons_nth_drop_Suc)
next
  case (step b i l)
  then show ?case by (auto simp flip: Cons_nth_drop_Suc [of i])
next
  case (term_read b i l)
  then show ?case by simp
next
  case (jump b i l s)
  then have "l \<in> block_gen body s (lv_out body s X)" by (simp add: block_gen_def)
  then have "Inl l \<in> lv_equation (ops, body) s X" by (auto simp: lv_equation_def)
  then have "Inl l \<in> X s" using sol jump.IH by blast
  then show ?case using jump by (auto simp: lv_out_def)
qed

lemma gen_used_later:
  assumes "b < length (b_blocks body)" and "i \<le> length (bb_statements (b_blocks body ! b))"
    and "l \<in> gen (drop i (bb_statements (b_blocks body ! b))) (te_kind (bb_terminator (b_blocks body ! b)))
      {l. \<exists>s\<in>set (successors_of (b_blocks body ! b)). used_later body s 0 l}"
  shows "used_later body b i l"
  using assms(2,3)
proof (induction i rule: inc_induct)
  case base
  then show ?case using assms(1) by (auto intro: used_later.term_read used_later.jump)
next
  case (step i)
  then show ?case using assms(1)
    by (auto simp flip: Cons_nth_drop_Suc [of i] intro: used_later.read used_later.step)
qed

text \<open>The locals live in front of a block and behind it, as sets of facts.\<close>

definition live_facts :: "Body \<Rightarrow> nat \<Rightarrow> (nat + nat) set" where
  "live_facts body b = Inl ` {l. used_later body b 0 l} \<union>
     Inr ` {l. \<exists>s\<in>set (successors_of (b_blocks body ! b)). used_later body s 0 l}"

lemma live_facts_solve: "liveness.solves (ops, body) (live_facts body)"
  unfolding liveness.solves_def
proof (intro allI impI)
  fix b assume "b < length (b_blocks (snd (ops, body)))"
  then have b: "b < length (b_blocks body)" by simp
  have out: "lv_out body b (live_facts body) = {l. \<exists>s\<in>set (successors_of (b_blocks body ! b)). used_later body s 0 l}"
    by (auto simp: lv_out_def live_facts_def)
  have "block_gen body b (lv_out body b (live_facts body)) \<subseteq> {l. used_later body b 0 l}"
    using gen_used_later [OF b, of 0] by (auto simp: block_gen_def out)
  then show "lv_equation (ops, body) b (live_facts body) \<subseteq> live_facts body b"
    by (auto simp: lv_equation_def out) (auto simp: live_facts_def)
qed

lemma live_facts_least:
  assumes sol: "\<And>b. b < length (b_blocks body) \<Longrightarrow> lv_equation (ops, body) b X \<subseteq> X b"
    and b: "b < length (b_blocks body)"
  shows "live_facts body b \<subseteq> X b"
proof -
  have in_X: "Inl l \<in> X s" if "used_later body s 0 l" for s l
    using used_later_gen [OF that sol] sol [of s] by (auto simp: lv_equation_def block_gen_def)
  have "Inr l \<in> X b" if "s \<in> set (successors_of (b_blocks body ! b))" "used_later body s 0 l" for s l
  proof -
    have "l \<in> lv_out body b X" using that in_X by (auto simp: lv_out_def)
    then have "Inr l \<in> lv_equation (ops, body) b X" by (simp add: lv_equation_def)
    with sol [OF b] show ?thesis by blast
  qed
  then show ?thesis using in_X by (auto simp: live_facts_def)
qed

lemma compute_liveness_Inr:
  assumes p: "liveness_ok (ops, body)"
  obtains outs where "compute_liveness ops body = Some (Inr outs)"
    "length outs = length (b_blocks body)"
    "\<And>b. b < length outs \<Longrightarrow> bs_len ops (outs ! b) = local_capacity body"
    "\<And>b. b < length outs \<Longrightarrow> bits ops (outs ! b) =
       {l. \<exists>s\<in>set (successors_of (b_blocks body ! b)). used_later body s 0 l}"
proof -
  let ?p = "(ops, body)" and ?n = "length (b_blocks body)"
  from liveness.analysis [OF p, unfolded fst_conv snd_conv] obtain fl0 fl where
    fl: "flow_start ops ?n (lv_none ?p) = Inr fl0" "pop_loop (worklist_step ops (lv_recompute ?p) (liveness_differs ops) (lv_readers ?p)) fl0 = Some (Inr fl)"
      "length (fl_data fl) = ?n" "\<forall>d\<in>set (fl_data fl). lv_wf ?p d"
      "\<forall>j<?n. liveness.entry ?p (fl_data fl) j = lv_equation ?p j (liveness.entry ?p (fl_data fl))"
      "\<forall>X. liveness.solves ?p X \<longrightarrow> (\<forall>j<?n. liveness.entry ?p (fl_data fl) j \<subseteq> X j)" .
  have facts: "lv_facts ?p (fl_data fl ! b) = live_facts body b" if b: "b < ?n" for b
  proof -
    have e: "liveness.entry ?p (fl_data fl) b = lv_facts ?p (fl_data fl ! b)"
      unfolding liveness.entry_def using b by simp
    have "liveness.entry ?p (fl_data fl) b \<subseteq> live_facts body b" using fl(6) live_facts_solve b by blast
    moreover have "live_facts body b \<subseteq> liveness.entry ?p (fl_data fl) b"
      by (rule live_facts_least [of body ops, OF _ b]) (use fl(5) in blast)
    ultimately show ?thesis using e by simp
  qed
  obtain sums where sums: "compute_block_summaries ops body = Inr sums"
    by (rule compute_block_summaries_Inr [OF p])
  obtain preds where preds: "compute_predecessors body = Inr preds"
    by (rule compute_predecessors_Inr [OF p])
  have "lv_recompute ?p = liveness_recompute ops body sums" "lv_readers ?p = vec_index preds"
    by (simp_all add: fun_eq_iff lv_recompute_def lv_readers_def sums preds)
  with fl(2) have "pop_loop (worklist_step ops (liveness_recompute ops body sums) (liveness_differs ops)
      (vec_index preds)) fl0 = Some (Inr fl)" by simp
  moreover have "flow_start ops ?n (bs_with_capacity ops (local_capacity body), bs_with_capacity ops (local_capacity body)) = Inr fl0"
    using fl(1) by (simp add: lv_none_def Let_def)
  ultimately have "compute_liveness ops body = Some (Inr (map snd (fl_data fl)))"
    using sums preds by (simp add: compute_liveness_def Let_def)
  then show thesis
  proof (rule that)
    fix b assume "b < length (map snd (fl_data fl))"
    then have b: "b < ?n" using fl(3) by simp
    show "bs_len ops (map snd (fl_data fl) ! b) = local_capacity body"
      using b fl(3,4) by (simp add: lv_wf_def)
    have "bits ops (map snd (fl_data fl) ! b) = Inr -` live_facts body b"
      using facts [OF b] lv_facts_vimage(2) [of ?p "fl_data fl ! b"] b fl(3) by simp
    also have "\<dots> = {l. \<exists>s\<in>set (successors_of (b_blocks body ! b)). used_later body s 0 l}"
      by (auto simp: live_facts_def image_iff)
    finally show "bits ops (map snd (fl_data fl) ! b) =
        {l. \<exists>s\<in>set (successors_of (b_blocks body ! b)). used_later body s 0 l}" .
  qed (simp add: fl(3))
qed

section \<open>The scan of a block\<close>

fun scan_stmt :: "StatementKind \<Rightarrow> nat set \<Rightarrow> nat set" where
  "scan_stmt (Assign place rvalue) live = local_index ` set (rvalue_places rvalue) \<union> (live - {local_index place})"
| "scan_stmt (StorageDead l) live = live - {unat l}"
| "scan_stmt _ live = live"

definition scan_set :: "Statement list \<Rightarrow> nat set \<Rightarrow> nat set" where
  "scan_set sts live = foldr (\<lambda>st. scan_stmt (st_kind st)) sts live"

text \<open>The locals a statement names are below \<open>c\<close>.\<close>

fun stmt_in_range :: "nat \<Rightarrow> StatementKind \<Rightarrow> bool" where
  "stmt_in_range c (Assign place rvalue) \<longleftrightarrow> local_index place < c \<and> (\<forall>p\<in>set (rvalue_places rvalue). local_index p < c)"
| "stmt_in_range c (StorageDead l) \<longleftrightarrow> unat l < c"
| "stmt_in_range c _ \<longleftrightarrow> True"

lemma stmt_live_before_Inr:
  assumes L: "bitset_laws ops" and len: "bs_len ops live = c" and r: "stmt_in_range c k"
  shows "\<exists>live'. stmt_live_before ops k live = Inr live' \<and> bs_len ops live' = c \<and>
    bits ops live' = scan_stmt k (bits ops live)"
proof (cases k)
  case (Assign place rvalue)
  then have "local_index place < bs_len ops live" using r len by simp
  with L obtain l1 where l1: "bit_remove ops (local_index place) live = Inr l1" "bs_len ops l1 = bs_len ops live"
    "bits ops l1 = bits ops live - {local_index place}" by (rule bit_removeE)
  obtain l2 where "pfold (liveness_gen ops) (rvalue_places rvalue) l1 = Inr l2" "bs_len ops l2 = bs_len ops l1"
    "bits ops l2 = bits ops l1 \<union> local_index ` set (rvalue_places rvalue)"
    by (rule liveness_gen_walk [OF L, of "rvalue_places rvalue" l1]) (use Assign r l1 len in auto)
  with l1 Assign len show ?thesis by (auto simp: walk_folds)
next
  case (StorageDead l)
  then have "unat l < bs_len ops live" using r len by simp
  with L obtain l1 where "bit_remove ops (unat l) live = Inr l1" "bs_len ops l1 = bs_len ops live"
    "bits ops l1 = bits ops live - {unat l}" by (rule bit_removeE)
  with StorageDead len show ?thesis by simp
qed (simp_all add: len)

lemma scan_back_Inr:
  assumes L: "bitset_laws ops" and "bs_len ops out = c" and "\<forall>st\<in>set sts. stmt_in_range c (st_kind st)"
  shows "\<exists>ls. scan_back ops sts out = Inr ls \<and> length ls = Suc (length sts) \<and>
    (\<forall>i\<le>length sts. bs_len ops (ls ! i) = c \<and> bits ops (ls ! i) = scan_set (drop i sts) (bits ops out))"
  using assms(3)
proof (induction sts)
  case Nil
  then show ?case by (simp add: assms(2) scan_set_def)
next
  case (Cons st sts)
  then obtain ls where ls: "scan_back ops sts out = Inr ls" "length ls = Suc (length sts)"
    "\<forall>i\<le>length sts. bs_len ops (ls ! i) = c \<and> bits ops (ls ! i) = scan_set (drop i sts) (bits ops out)" by auto
  then have hd: "hd ls = ls ! 0" by (cases ls) simp_all
  have "bs_len ops (hd ls) = c" "bits ops (hd ls) = scan_set sts (bits ops out)" using ls(3) hd by auto
  with stmt_live_before_Inr [OF L, of "hd ls" c "st_kind st"] Cons.prems obtain l where
    "stmt_live_before ops (st_kind st) (hd ls) = Inr l" "bs_len ops l = c"
    "bits ops l = scan_set (st # sts) (bits ops out)" by (auto simp: scan_set_def)
  with ls show ?case by (auto simp: nth_Cons' drop_Cons' less_Suc_eq_le)
qed

text \<open>
  Without \<open>StorageDead\<close> the scan agrees with the paths, except that it starts behind the
  terminator: what the terminator reads is missing.
\<close>

lemma scan_set_gen:
  assumes "\<forall>st\<in>set sts. \<forall>l. st_kind st \<noteq> StorageDead l"
    and "terminator_reads k = {}" and "terminator_defs k = {}"
  shows "scan_set sts out = gen sts k out"
  using assms(1)
proof (induction sts)
  case (Cons st sts)
  then show ?case by (cases "st_kind st") (auto simp: scan_set_def)
qed (simp add: scan_set_def assms(2,3))

lemma used_later_iff_gen:
  assumes "b < length (b_blocks body)" and "i \<le> length (bb_statements (b_blocks body ! b))"
  shows "{l. used_later body b i l} = gen (drop i (bb_statements (b_blocks body ! b)))
    (te_kind (bb_terminator (b_blocks body ! b))) {l. \<exists>s\<in>set (successors_of (b_blocks body ! b)). used_later body s 0 l}"
proof -
  have "lv_out body b (live_facts body) = {l. \<exists>s\<in>set (successors_of (b_blocks body ! b)). used_later body s 0 l}"
    by (auto simp: lv_out_def live_facts_def image_iff)
  moreover have "l \<in> gen (drop i (bb_statements (b_blocks body ! b))) (te_kind (bb_terminator (b_blocks body ! b)))
      (lv_out body b (live_facts body))" if "used_later body b i l" for l
    using used_later_gen [OF that, of "undefined :: unit BitSetOps" "live_facts body"]
      live_facts_solve [of "undefined :: unit BitSetOps"] by (simp add: liveness.solves_def)
  ultimately show ?thesis using gen_used_later [OF assms] by auto
qed

section \<open>The properties\<close>

text \<open>
  C15. The analysis ends, does not panic, and finds for every block exactly the locals that some path
  from its end reads before assigning them.
\<close>

theorem liveness_exact:
  assumes "liveness_ok (ops, body)"
  shows "\<exists>outs. compute_liveness ops body = Some (Inr outs) \<and> length outs = length (b_blocks body) \<and>
    (\<forall>b<length (b_blocks body). bits ops (outs ! b) =
       {l. \<exists>s\<in>set (successors_of (b_blocks body ! b)). used_later body s 0 l})"
  using compute_liveness_Inr [OF assms] by metis

text \<open>
  Inside a block whose terminator neither reads nor assigns a local, and without \<open>StorageDead\<close>,
  the scan finds at every statement exactly the locals used later.
\<close>

theorem stmt_liveness_exact:
  assumes "bitset_laws ops" and "b < length (b_blocks body)" and "bs_len ops out = c"
    and "bits ops out = {l. \<exists>s\<in>set (successors_of (b_blocks body ! b)). used_later body s 0 l}"
    and "\<forall>st\<in>set (bb_statements (b_blocks body ! b)). stmt_in_range c (st_kind st) \<and> (\<forall>l. st_kind st \<noteq> StorageDead l)"
    and "terminator_reads (te_kind (bb_terminator (b_blocks body ! b))) = {}"
    and "terminator_defs (te_kind (bb_terminator (b_blocks body ! b))) = {}"
  shows "\<exists>ls. compute_stmt_liveness ops body b out = Inr ls \<and>
    (\<forall>i\<le>length (bb_statements (b_blocks body ! b)). bits ops (ls ! i) = {l. used_later body b i l})"
proof -
  let ?sts = "bb_statements (b_blocks body ! b)"
  from scan_back_Inr [OF assms(1,3), of ?sts] assms(5) obtain ls where
    ls: "scan_back ops ?sts out = Inr ls"
      "\<And>i. i \<le> length ?sts \<Longrightarrow> bits ops (ls ! i) = scan_set (drop i ?sts) (bits ops out)" by auto
  have "bits ops (ls ! i) = {l. used_later body b i l}" if "i \<le> length ?sts" for i
    using ls(2) [OF that] assms(4-7) that
    by (simp add: used_later_iff_gen [OF assms(2) that] scan_set_gen [OF _ assms(6,7)] in_set_dropD)
  with ls(1) assms(2) show ?thesis by (auto simp: compute_stmt_liveness_def)
qed

lemma shared_loan_liveness_ok: "liveness_ok (bv_ops, shared_loan)"
  by (simp add: liveness_ok_def bitset_laws_bv shared_loan_def sample_statements
      local_capacity_def block_capacity_def terminator_reads_def)

lemma liveness_exact_witness:
  "\<exists>outs. compute_liveness bv_ops shared_loan = Some (Inr outs) \<and> length outs = length (b_blocks shared_loan) \<and>
    (\<forall>b<length (b_blocks shared_loan). bits bv_ops (outs ! b) =
       {l. \<exists>s\<in>set (successors_of (b_blocks shared_loan ! b)). used_later shared_loan s 0 l})"
  by (rule liveness_exact [OF shared_loan_liveness_ok])

lemma stmt_liveness_exact_witness:
  "\<exists>ls. compute_stmt_liveness bv_ops shared_loan 1 (bs_with_capacity bv_ops 3) = Inr ls \<and>
    (\<forall>i\<le>length (bb_statements (b_blocks shared_loan ! 1)). bits bv_ops (ls ! i) = {l. used_later shared_loan 1 i l})"
  by (rule stmt_liveness_exact [OF bitset_laws_bv, where c = 3])
    (auto simp: shared_loan_def sample_statements terminator_reads_def bits_simps [OF bitset_laws_bv])

end
