(* ===== verification/Borrowck_Check_Props.thy ===== *)
theory Borrowck_Check_Props
  imports Borrowck_Check Borrowck_Liveness_Props
begin

text \<open>
  What the borrow checker reports: exactly the conflicts with the loans whose reference the scan
  of the block finds live (\<open>borrow_conflicts_exact\<close>); so an assignment to a borrowed place is
  rejected when the reference is used later, unless only the block's own terminator uses it.
\<close>

section \<open>Loans\<close>

lemma enumerate_nth: "nx \<in> set (enumerate 0 xs) \<Longrightarrow> fst nx < length xs \<and> nx = (fst nx, xs ! fst nx)"
  by (simp add: in_set_enumerate_eq prod_eq_iff)

lemma enumerate_UN: "(\<Union>x\<in>set (enumerate 0 xs). f (fst x)) = (\<Union>i\<in>{..<length xs}. f i)"
proof -
  have "fst ` set (enumerate 0 xs) = {..<length xs}"
    by (simp add: atLeast0LessThan flip: set_map)
  then show ?thesis by (metis image_image)
qed

lemma in_enumerate: "nx \<in> set (enumerate 0 xs) \<Longrightarrow> snd nx \<in> set xs"
  by (cases nx) (auto simp: in_set_enumerate_eq)

text \<open>The loans of a body: its \<open>Rvalue::Ref\<close> assignments, in order.\<close>

fun loan_key :: "Loan \<Rightarrow> LocalIdx \<times> Place \<times> BorrowKind \<times> Span \<times> nat \<times> nat" where
  "loan_key loan = (ln_dest_local loan, ln_borrowed_place loan, ln_kind loan, ln_span loan, ln_creation_point loan)"

fun ref_key :: "nat \<Rightarrow> nat \<times> Statement \<Rightarrow> (LocalIdx \<times> Place \<times> BorrowKind \<times> Span \<times> nat \<times> nat) list" where
  "ref_key b (i, st) =
     (case st_kind st of
        Assign dest (Rvalue.Ref borrowed kind) \<Rightarrow>
          [(pl_local dest, borrowed, kind, si_span (st_source_info st), b, i)]
      | _ \<Rightarrow> [])"

lemma collect_loan_keys:
  "map loan_key (collect_loan b ist loans) = map loan_key loans @ ref_key b ist"
  by (cases ist) (auto split: StatementKind.split Rvalue.split)

lemma collect_loan_indices:
  assumes "map ln_index loans = [0..<length loans]"
  shows "map ln_index (collect_loan b ist loans) = [0..<length (collect_loan b ist loans)]"
  using assms by (cases ist) (auto split: StatementKind.split Rvalue.split)

lemma collect_block_keys:
  "map loan_key (fold (collect_loan b) ists loans) = map loan_key loans @ concat (map (ref_key b) ists)"
  by (induction ists arbitrary: loans) (simp_all add: collect_loan_keys)

lemma collect_keys:
  "map loan_key (fold (\<lambda>(b, bb). fold (collect_loan b) (enumerate 0 (bb_statements bb))) bbs loans) =
     map loan_key loans @ concat (map (\<lambda>(b, bb). concat (map (ref_key b) (enumerate 0 (bb_statements bb)))) bbs)"
  by (induction bbs arbitrary: loans) (auto simp: collect_block_keys)

lemma collect_block_indices:
  "map ln_index loans = [0..<length loans] \<Longrightarrow>
   map ln_index (fold (collect_loan b) ists loans) = [0..<length (fold (collect_loan b) ists loans)]"
proof (induction ists arbitrary: loans)
  case (Cons ist ists)
  then show ?case using collect_loan_indices [OF Cons.prems, of b ist] by simp
qed simp

lemma collect_loans_indices: "n < length (collect_loans body) \<Longrightarrow> ln_index (collect_loans body ! n) = n"
proof -
  have "map ln_index (fold (\<lambda>(b, bb). fold (collect_loan b) (enumerate 0 (bb_statements bb))) bbs loans) =
      [0..<length (fold (\<lambda>(b, bb). fold (collect_loan b) (enumerate 0 (bb_statements bb))) bbs loans)]"
    if "map ln_index loans = [0..<length loans]" for bbs loans
    using that
  proof (induction bbs arbitrary: loans)
    case (Cons bbb bbs)
    obtain b bb where bbb: "bbb = (b, bb)" by (cases bbb)
    show ?case unfolding bbb fold_simps prod.case
      by (rule Cons.IH) (rule collect_block_indices [OF Cons.prems])
  qed simp
  from this [of "[]"] have "map ln_index (collect_loans body) = [0..<length (collect_loans body)]"
    by (simp add: collect_loans_def)
  then show "n < length (collect_loans body) \<Longrightarrow> ln_index (collect_loans body ! n) = n"
    by (metis add_0 length_map nth_map nth_upt)
qed

lemma loan_of_ref:
  assumes "b < length (b_blocks body)" and "i < length (bb_statements (b_blocks body ! b))"
    and "st_kind (bb_statements (b_blocks body ! b) ! i) = Assign d (Rvalue.Ref p kind)"
  obtains loan where "loan \<in> set (collect_loans body)" "ln_dest_local loan = pl_local d"
    "ln_borrowed_place loan = p" "ln_kind loan = kind" "ln_creation_point loan = (b, i)"
    "ln_span loan = si_span (st_source_info (bb_statements (b_blocks body ! b) ! i))"
proof -
  let ?bb = "b_blocks body ! b" and ?k = "(pl_local d, p, kind, si_span (st_source_info (bb_statements (b_blocks body ! b) ! i)), b, i)"
  have "?k \<in> set (ref_key b (i, bb_statements ?bb ! i))" using assms(3) by simp
  moreover have "(i, bb_statements ?bb ! i) \<in> set (enumerate 0 (bb_statements ?bb))"
    using assms(2) by (simp add: in_set_enumerate_eq)
  moreover have "(b, ?bb) \<in> set (enumerate 0 (b_blocks body))"
    using assms(1) by (simp add: in_set_enumerate_eq)
  ultimately have "?k \<in> set (concat (map (\<lambda>(b, bb). concat (map (ref_key b) (enumerate 0 (bb_statements bb))))
      (enumerate 0 (b_blocks body))))"
    by (auto simp del: ref_key.simps intro!: bexI [of _ "(b, ?bb)"] bexI [of _ "(i, bb_statements ?bb ! i)"])
  then have "?k \<in> set (map loan_key (collect_loans body))"
    unfolding collect_loans_def collect_keys by simp
  then show thesis using that by auto
qed

lemma ref_keyE:
  assumes "loan_key loan \<in> set (ref_key b (i, st))"
  obtains d where "st_kind st = Assign d (Rvalue.Ref (ln_borrowed_place loan) (ln_kind loan))"
    "ln_dest_local loan = pl_local d" "ln_creation_point loan = (b, i)"
proof (cases "st_kind st")
  case (Assign d rv)
  with assms that show thesis by (cases rv) simp_all
qed (use assms in simp_all)

lemma loan_is_ref:
  assumes "loan \<in> set (collect_loans body)"
  obtains b i d where "b < length (b_blocks body)" "i < length (bb_statements (b_blocks body ! b))"
    "st_kind (bb_statements (b_blocks body ! b) ! i) = Assign d (Rvalue.Ref (ln_borrowed_place loan) (ln_kind loan))"
    "ln_dest_local loan = pl_local d" "ln_creation_point loan = (b, i)"
proof -
  have "loan_key loan \<in> set (map loan_key (collect_loans body))" using assms by simp
  then obtain b bb i st where "(b, bb) \<in> set (enumerate 0 (b_blocks body))"
    "(i, st) \<in> set (enumerate 0 (bb_statements bb))" "loan_key loan \<in> set (ref_key b (i, st))"
    unfolding collect_loans_def collect_keys by auto
  then have r: "b < length (b_blocks body)" "bb = b_blocks body ! b" "i < length (bb_statements bb)"
    "st = bb_statements bb ! i" "loan_key loan \<in> set (ref_key b (i, st))"
    by (simp_all add: in_set_enumerate_eq)
  from r(5) obtain d where "st_kind st = Assign d (Rvalue.Ref (ln_borrowed_place loan) (ln_kind loan))"
    "ln_dest_local loan = pl_local d" "ln_creation_point loan = (b, i)"
    by (rule ref_keyE)
  with r(1-4) show thesis using that [of b i d] by simp
qed

text \<open>The table of loans by reference.\<close>

lemma index_loans_Inr:
  assumes "\<And>il. il \<in> set ils \<Longrightarrow> unat (ln_dest_local (snd il)) < length v"
  shows "\<exists>v'. pfold index_loan ils v = Inr v' \<and> length v' = length v \<and>
    (\<forall>l<length v. set (v' ! l) = set (v ! l) \<union> {n. \<exists>loan. (n, loan) \<in> set ils \<and> unat (ln_dest_local loan) = l})"
  using assms
proof (induction ils arbitrary: v)
  case (Cons il ils)
  let ?d = "unat (ln_dest_local (snd il))"
  let ?v = "v[?d := v ! ?d @ [fst il]]"
  have d: "?d < length v" using Cons.prems by simp
  have "\<exists>v'. pfold index_loan ils ?v = Inr v' \<and> length v' = length ?v \<and>
    (\<forall>l<length ?v. set (v' ! l) = set (?v ! l) \<union> {n. \<exists>loan. (n, loan) \<in> set ils \<and> unat (ln_dest_local loan) = l})"
    using Cons.prems by (intro Cons.IH) simp
  then obtain v' where v': "pfold index_loan ils ?v = Inr v'" "length v' = length v"
    "\<And>l. l < length v \<Longrightarrow> set (v' ! l) = set (?v ! l) \<union> {n. \<exists>loan. (n, loan) \<in> set ils \<and> unat (ln_dest_local loan) = l}"
    by auto
  have "index_loan il v = Inr ?v" using d by (simp add: index_loan_def Let_def)
  moreover have "set (v' ! l) = set (v ! l) \<union> {n. \<exists>loan. (n, loan) \<in> set (il # ils) \<and> unat (ln_dest_local loan) = l}"
    if "l < length v" for l
    using v'(3) [OF that] that d by (cases il) (auto simp: nth_list_update)
  ultimately show ?case using v'(1,2) by auto
qed simp

lemma push_loans_Inr:
  assumes "set is \<subseteq> {..<length loans}"
  shows "pfold (push_loan loans) is active = Inr (active @ map ((!) loans) is)"
  using assms by (induction "is" arbitrary: active) (auto simp: push_loan_def)

lemma active_loans_Inr:
  assumes L: "bitset_laws ops" and tab: "loans_by_dest body loans = Inr by_dest"
    and range: "\<And>loan. loan \<in> set loans \<Longrightarrow> unat (ln_dest_local loan) < length (b_locals body)"
    and live: "bits ops live \<subseteq> {..<length (b_locals body)}"
  shows "\<exists>active. active_loans ops by_dest loans live = Inr active \<and>
    set active = {loan \<in> set loans. unat (ln_dest_local loan) \<in> bits ops live}"
proof -
  let ?n = "length (b_locals body)"
  have r: "unat (ln_dest_local (snd il)) < length (replicate ?n ([] :: nat list))" if "il \<in> set (enumerate 0 loans)" for il
    using in_enumerate [OF that] range by simp
  from index_loans_Inr [OF r, of "enumerate 0 loans"] tab have
    v: "length by_dest = ?n" "\<And>l. l < ?n \<Longrightarrow> set (by_dest ! l) =
      {n. n < length loans \<and> unat (ln_dest_local (loans ! n)) = l}"
    by (auto simp: loans_by_dest_def in_set_enumerate_eq)
  have "pfold (\<lambda>l active. pbind (vec_index by_dest l) (\<lambda>is. pfold (push_loan loans) is active)) ls acc =
      Inr (acc @ concat (map (\<lambda>l. map ((!) loans) (by_dest ! l)) ls))" if "set ls \<subseteq> {..<?n}" for ls acc
    using that
  proof (induction ls arbitrary: acc)
    case (Cons l ls)
    then have "l < ?n" by simp
    then have "set (by_dest ! l) \<subseteq> {..<length loans}" using v(2) by auto
    with Cons \<open>l < ?n\<close> show ?case by (simp add: v(1) push_loans_Inr)
  qed simp
  from this [of "bs_ones ops live" "[]"] live
  have "active_loans ops by_dest loans live = Inr (concat (map (\<lambda>l. map ((!) loans) (by_dest ! l)) (bs_ones ops live)))"
    by (simp add: active_loans_def bits_simps [OF L])
  moreover have "set (concat (map (\<lambda>l. map ((!) loans) (by_dest ! l)) (bs_ones ops live))) =
      {loan \<in> set loans. unat (ln_dest_local loan) \<in> bits ops live}" (is "?A = ?B")
  proof (intro set_eqI iffI)
    fix loan assume "loan \<in> ?A"
    then obtain l n where l: "l \<in> bits ops live" "n \<in> set (by_dest ! l)" "loan = loans ! n"
      by (auto simp: bits_simps [OF L])
    then show "loan \<in> ?B" using v(2) [of l] live by auto
  next
    fix loan assume "loan \<in> ?B"
    then obtain n where "n < length loans" "loan = loans ! n" "unat (ln_dest_local loan) \<in> bits ops live"
      by (auto simp: in_set_conv_nth)
    then show "loan \<in> ?A" using v(2) [of "unat (ln_dest_local loan)"] live
      by (auto simp: bits_simps [OF L])
  qed
  ultimately show ?thesis by blast
qed

section \<open>What is reported\<close>

text \<open>
  The locals the checker finds live in front of statement \<open>i\<close> of block \<open>b\<close>, and the loans it
  takes for active there.
\<close>

definition found_live :: "Body \<Rightarrow> nat \<Rightarrow> nat \<Rightarrow> nat set" where
  "found_live body b i = scan_set (drop i (bb_statements (b_blocks body ! b)))
     {l. \<exists>s\<in>set (successors_of (b_blocks body ! b)). used_later body s 0 l}"

definition active_at :: "Body \<Rightarrow> nat \<Rightarrow> nat \<Rightarrow> Loan set" where
  "active_at body b i =
     {loan \<in> set (collect_loans body). unat (ln_dest_local loan) \<in> found_live body b i}"

text \<open>The reports at a point, given the active loans there.\<close>

definition clashes :: "Loan set \<Rightarrow> Place \<Rightarrow> Loan set" where
  "clashes act p = {loan \<in> act. places_conflict p (ln_borrowed_place loan)}"

definition use_reports ::
    "'b BitSetOps \<Rightarrow> 'b cache \<Rightarrow> BorrowckCtx \<Rightarrow> Loan set \<Rightarrow> nat \<Rightarrow> nat \<Rightarrow> Span \<Rightarrow> Place list \<Rightarrow> GlyimDiagnostic set" where
  "use_reports ops cache ctx act b i span ps =
     (\<Union>p\<in>set ps. use_diag ctx span p ` {loan \<in> clashes act p.
        is_exclusive (ln_kind loan) \<and> \<not> in_reservation ops cache loan b i})"

definition stmt_reports ::
    "'b BitSetOps \<Rightarrow> 'b cache \<Rightarrow> BorrowckCtx \<Rightarrow> Loan set \<Rightarrow> nat \<Rightarrow> nat \<Rightarrow> Statement \<Rightarrow> GlyimDiagnostic set" where
  "stmt_reports ops cache ctx act b i st =
     (let span = si_span (st_source_info st) in
      case st_kind st of
        Assign d (Rvalue.Ref p kind) \<Rightarrow> reborrow_diag ctx span p kind ` {loan \<in> clashes act p.
          conflicts_with_active (ln_kind loan) kind (in_reservation ops cache loan b i)}
      | Assign d rv \<Rightarrow> use_reports ops cache ctx act b i span (rvalue_places rv) \<union>
          assign_diag ctx span d ` clashes act d
      | _ \<Rightarrow> {})"

definition terminator_reports ::
    "'b BitSetOps \<Rightarrow> 'b cache \<Rightarrow> BorrowckCtx \<Rightarrow> Loan set \<Rightarrow> nat \<Rightarrow> nat \<Rightarrow> Terminator \<Rightarrow> GlyimDiagnostic set" where
  "terminator_reports ops cache ctx act b i t =
     (let span = si_span (te_source_info t) in
      use_reports ops cache ctx act b i span (terminator_places (te_kind t)) \<union>
      (\<Union>p\<in>set (write_places (te_kind t)). write_diag ctx span p ` clashes act p))"

lemma for_conflicts_set:
  "set (for_conflicts c diag ps active) =
     (\<Union>p\<in>set ps. diag p ` {loan \<in> clashes (set active) p. c p loan})"
  by (auto simp: for_conflicts_def clashes_def)

lemma check_stmt_conflicts_set:
  "\<exists>es. check_stmt_conflicts ops cache ctx st active b i = Inr es \<and>
     set es = stmt_reports ops cache ctx (set active) b i st"
proof (cases "st_kind st")
  case (Assign d rv)
  show ?thesis
  proof (cases "\<exists>p k. rv = Rvalue.Ref p k")
    case True
    then show ?thesis using Assign
      by (auto simp: check_stmt_conflicts_def stmt_reports_def for_conflicts_set Let_def)
  next
    case False
    then show ?thesis using Assign
      by (cases rv) (simp_all add: check_stmt_conflicts_def stmt_reports_def walk_rvalue_fold
        place_collector_walk place_collector_def read_conflicts_def use_reports_def for_conflicts_set Let_def
        del: walk_rvalue_reads.simps)
  qed
qed (simp_all add: check_stmt_conflicts_def stmt_reports_def Let_def)

lemma check_terminator_conflicts_set:
  "\<exists>es. check_terminator_conflicts ops cache ctx t active b i = Inr es \<and>
     set es = terminator_reports ops cache ctx (set active) b i t"
  by (simp add: check_terminator_conflicts_def terminator_reports_def walk_terminator_fold
    place_collector_walk read_conflicts_def use_reports_def for_conflicts_set Let_def)

text \<open>
  A body the checker does not panic on: the liveness analysis does not, and every local it
  assigns or names is declared.
\<close>

definition borrowck_ok :: "'b BitSetOps \<Rightarrow> Body \<Rightarrow> bool" where
  "borrowck_ok ops body \<longleftrightarrow> liveness_ok (ops, body) \<and> local_capacity body = length (b_locals body) \<and>
     (\<forall>bb\<in>set (b_blocks body). \<forall>st\<in>set (bb_statements bb). stmt_in_range (length (b_locals body)) (st_kind st))"

lemma borrowck_ok_stmt:
  assumes "borrowck_ok ops body" and "b < length (b_blocks body)"
    and "st \<in> set (bb_statements (b_blocks body ! b))"
  shows "stmt_in_range (length (b_locals body)) (st_kind st)"
  using assms nth_mem [OF assms(2)] unfolding borrowck_ok_def by blast

lemma loans_in_range:
  assumes "borrowck_ok ops body" and "loan \<in> set (collect_loans body)"
  shows "unat (ln_dest_local loan) < length (b_locals body)"
proof -
  from loan_is_ref [OF assms(2)] obtain b i d where r: "b < length (b_blocks body)"
    "i < length (bb_statements (b_blocks body ! b))"
    "st_kind (bb_statements (b_blocks body ! b) ! i) = Assign d (Rvalue.Ref (ln_borrowed_place loan) (ln_kind loan))"
    "ln_dest_local loan = pl_local d" by metis
  have "stmt_in_range (length (b_locals body)) (st_kind (bb_statements (b_blocks body ! b) ! i))"
    by (rule borrowck_ok_stmt [OF assms(1) r(1) nth_mem [OF r(2)]])
  with r show ?thesis by (simp add: local_index_def)
qed

lemma loans_by_dest_Inr:
  assumes "borrowck_ok ops body"
  shows "\<exists>by_dest. loans_by_dest body (collect_loans body) = Inr by_dest"
proof -
  have "unat (ln_dest_local (snd il)) < length (replicate (length (b_locals body)) ([] :: nat list))"
    if "il \<in> set (enumerate 0 (collect_loans body))" for il
    using in_enumerate [OF that] loans_in_range [OF assms] by simp
  from index_loans_Inr [OF this, of "enumerate 0 (collect_loans body)"] show ?thesis
    by (auto simp: loans_by_dest_def)
qed

definition point_reports ::
    "'b BitSetOps \<Rightarrow> 'b cache \<Rightarrow> BorrowckCtx \<Rightarrow> Body \<Rightarrow> nat \<Rightarrow> nat \<Rightarrow> GlyimDiagnostic set" where
  "point_reports ops cache ctx body b i =
     (let bb = b_blocks body ! b; act = active_at body b i in
      if i < length (bb_statements bb) then stmt_reports ops cache ctx act b i (bb_statements bb ! i)
      else terminator_reports ops cache ctx act b i (bb_terminator bb))"

text \<open>A fold that appends what every element reports.\<close>

lemma pfold_reports:
  assumes "\<And>x errors. x \<in> set xs \<Longrightarrow> \<exists>es. f x errors = Inr (errors @ es) \<and> set es = R x"
  shows "\<exists>es. pfold f xs errors = Inr (errors @ es) \<and> set es = (\<Union>x\<in>set xs. R x)"
  using assms
proof (induction xs arbitrary: errors)
  case (Cons x xs)
  from Cons.prems obtain es where "f x errors = Inr (errors @ es)" "set es = R x" by force
  with Cons.IH [of "errors @ es"] Cons.prems show ?case by auto
qed simp

lemma check_block_borrows_Inr:
  assumes ok: "borrowck_ok ops body" and b: "b < length (b_blocks body)"
    and tab: "loans_by_dest body (collect_loans body) = Inr by_dest"
    and outs: "length outs = length (b_blocks body)" "bs_len ops (outs ! b) = length (b_locals body)"
      "bits ops (outs ! b) = {l. \<exists>s\<in>set (successors_of (b_blocks body ! b)). used_later body s 0 l}"
  shows "\<exists>es. check_block_borrows ops cache ctx body (collect_loans body) by_dest outs (b, b_blocks body ! b) errors =
      Inr (errors @ es) \<and>
    set es = (\<Union>i\<in>{..length (bb_statements (b_blocks body ! b))}. point_reports ops cache ctx body b i)"
proof -
  let ?bb = "b_blocks body ! b" and ?loans = "collect_loans body"
  let ?sts = "bb_statements ?bb" and ?c = "length (b_locals body)"
  have L: "bitset_laws ops" using ok by (simp add: borrowck_ok_def liveness_ok_def)
  have "\<forall>st\<in>set ?sts. stmt_in_range ?c (st_kind st)" using borrowck_ok_stmt [OF ok b] by blast
  from scan_back_Inr [OF L outs(2) this] obtain ls where
    ls: "scan_back ops ?sts (outs ! b) = Inr ls" "length ls = Suc (length ?sts)"
    "\<And>i. i \<le> length ?sts \<Longrightarrow> bs_len ops (ls ! i) = ?c \<and> bits ops (ls ! i) = found_live body b i"
    by (auto simp: found_live_def outs(3))
  have act: "\<exists>active. active_loans ops by_dest ?loans (ls ! i) = Inr active \<and> set active = active_at body b i"
    if i: "i \<le> length ?sts" for i
  proof -
    have "bits ops (ls ! i) \<subseteq> {..<?c}" using bits_subset [OF L, of "ls ! i"] ls(3) [OF i] by simp
    from active_loans_Inr [OF L tab loans_in_range [OF ok] this] ls(3) [OF i] show ?thesis
      by (simp add: active_at_def)
  qed
  let ?f = "\<lambda>(i, st) errors.
      pbind (vec_index ls i) (\<lambda>live.
      pbind (active_loans ops by_dest ?loans live) (\<lambda>active.
      pbind (check_stmt_conflicts ops cache ctx st active b i) (\<lambda>es. Inr (errors @ es))))"
  have step: "\<exists>es. ?f ist errors = Inr (errors @ es) \<and> set es = point_reports ops cache ctx body b (fst ist)"
    if m: "ist \<in> set (enumerate 0 ?sts)" for ist errors
  proof -
    obtain i where i: "i < length ?sts" "ist = (i, ?sts ! i)"
      using enumerate_nth [OF m] by metis
    obtain active where a: "active_loans ops by_dest ?loans (ls ! i) = Inr active" "set active = active_at body b i"
      using act [of i] i(1) by auto
    from check_stmt_conflicts_set [of ops cache ctx "?sts ! i" active b i] show ?thesis
      using i a ls(2) by (auto simp: point_reports_def Let_def)
  qed
  from pfold_reports [of "enumerate 0 ?sts" ?f, OF step] obtain es1 where
    es1: "pfold ?f (enumerate 0 ?sts) errors = Inr (errors @ es1)"
    "set es1 = (\<Union>ist\<in>set (enumerate 0 ?sts). point_reports ops cache ctx body b (fst ist))" by blast
  obtain active where a: "active_loans ops by_dest ?loans (ls ! length ?sts) = Inr active"
    "set active = active_at body b (length ?sts)" using act [of "length ?sts"] by auto
  obtain es2 where es2: "check_terminator_conflicts ops cache ctx (bb_terminator ?bb) active b (length ?sts) = Inr es2"
    "set es2 = point_reports ops cache ctx body b (length ?sts)"
    using check_terminator_conflicts_set [of ops cache ctx "bb_terminator ?bb" active b "length ?sts"] a(2)
    by (auto simp: point_reports_def Let_def)
  have "fst ` set (enumerate 0 ?sts) = {..<length ?sts}"
    by (simp add: atLeast0LessThan flip: set_map)
  then have "set (es1 @ es2) = (\<Union>i\<in>{..length ?sts}. point_reports ops cache ctx body b i)"
    using es1(2) es2(2) by (simp add: lessThan_Suc_atMost [symmetric] lessThan_Suc Un_commute flip: image_image [of _ fst])
  moreover have "check_block_borrows ops cache ctx body ?loans by_dest outs (b, ?bb) errors = Inr (errors @ es1 @ es2)"
    using b outs(1) ls(1,2) es1(1) a(1) es2(1)
    by (simp add: check_block_borrows_def compute_stmt_liveness_def Let_def)
  ultimately show ?thesis by blast
qed

lemma borrow_conflicts_reports:
  assumes ok: "borrowck_ok ops body"
    and cache: "activations ops body (enumerate 0 (collect_loans body)) Map.empty = Some (Inr cache)"
  obtains errors where "borrow_conflicts ops ctx body = Some (Inr errors)"
    "set errors = (\<Union>b\<in>{..<length (b_blocks body)}.
       \<Union>i\<in>{..length (bb_statements (b_blocks body ! b))}. point_reports ops cache ctx body b i)"
proof -
  let ?loans = "collect_loans body" and ?n = "length (b_blocks body)"
  have lv: "liveness_ok (ops, body)" and cap: "local_capacity body = length (b_locals body)"
    using ok by (simp_all add: borrowck_ok_def)
  from compute_liveness_Inr [OF lv] obtain outs where outs: "compute_liveness ops body = Some (Inr outs)"
    "length outs = ?n" "\<And>b. b < length outs \<Longrightarrow> bs_len ops (outs ! b) = local_capacity body"
    "\<And>b. b < length outs \<Longrightarrow> bits ops (outs ! b) =
       {l. \<exists>s\<in>set (successors_of (b_blocks body ! b)). used_later body s 0 l}" by blast
  from loans_by_dest_Inr [OF ok] obtain by_dest where tab: "loans_by_dest body ?loans = Inr by_dest" by blast
  let ?f = "check_block_borrows ops cache ctx body ?loans by_dest outs"
  let ?R = "\<lambda>bbb. \<Union>i\<in>{..length (bb_statements (b_blocks body ! fst bbb))}. point_reports ops cache ctx body (fst bbb) i"
  have "\<exists>es. ?f bbb errors = Inr (errors @ es) \<and> set es = ?R bbb" if "bbb \<in> set (enumerate 0 (b_blocks body))" for bbb errors
  proof -
    have b: "fst bbb < ?n" "bbb = (fst bbb, b_blocks body ! fst bbb)" using enumerate_nth [OF that] by simp_all
    have "bs_len ops (outs ! fst bbb) = length (b_locals body)"
      "bits ops (outs ! fst bbb) = {l. \<exists>s\<in>set (successors_of (b_blocks body ! fst bbb)). used_later body s 0 l}"
      using outs(3,4) [of "fst bbb"] outs(2) b(1) by (simp_all add: cap)
    from check_block_borrows_Inr [OF ok b(1) tab outs(2) this, of cache ctx errors] b(2) show ?thesis by simp
  qed
  from pfold_reports [of "enumerate 0 (b_blocks body)" ?f, OF this] obtain es where
    es: "pfold ?f (enumerate 0 (b_blocks body)) [] = Inr es" "set es = (\<Union>bbb\<in>set (enumerate 0 (b_blocks body)). ?R bbb)"
    by force
  have "set es = (\<Union>b\<in>{..<?n}. \<Union>i\<in>{..length (bb_statements (b_blocks body ! b))}. point_reports ops cache ctx body b i)"
    unfolding es(2) by (rule enumerate_UN)
  moreover have "borrow_conflicts ops ctx body = Some (Inr es)"
    using outs(1) cache tab es(1) by (simp add: borrow_conflicts_def Let_def)
  ultimately show thesis using that by blast
qed

text \<open>Where no loan is active nothing is reported.\<close>

lemma no_loan_no_report: "active_at body b i = {} \<Longrightarrow> point_reports ops cache ctx body b i = {}"
  by (auto simp: point_reports_def stmt_reports_def terminator_reports_def use_reports_def clashes_def Let_def
      split: StatementKind.split Rvalue.split)

lemma no_two_phase_activations:
  "(\<And>il. il \<in> set ils \<Longrightarrow> \<not> is_two_phase (ln_kind (snd il))) \<Longrightarrow> activations ops body ils cache = Some (Inr cache)"
proof (induction ils)
  case (Cons il ils)
  then show ?case by (cases il) force
qed simp

text \<open>A local used later is found live, unless only the terminator of the block uses it.\<close>

lemma used_later_found:
  assumes "b < length (b_blocks body)" and "i \<le> length (bb_statements (b_blocks body ! b))"
    and "used_later body b i l"
    and "l \<notin> terminator_reads (te_kind (bb_terminator (b_blocks body ! b)))"
    and "\<forall>st\<in>set (drop i (bb_statements (b_blocks body ! b))). \<forall>x. st_kind st = StorageDead x \<longrightarrow> unat x \<noteq> l"
  shows "l \<in> found_live body b i"
proof -
  have "l \<in> scan_set sts out" if "l \<in> gen sts k out" "l \<notin> terminator_reads k"
    "\<forall>st\<in>set sts. \<forall>x. st_kind st = StorageDead x \<longrightarrow> unat x \<noteq> l" for sts k out
    using that
  proof (induction sts)
    case (Cons st sts)
    then show ?case by (cases "st_kind st") (auto simp: scan_set_def)
  qed (simp add: scan_set_def)
  moreover have "l \<in> gen (drop i (bb_statements (b_blocks body ! b))) (te_kind (bb_terminator (b_blocks body ! b)))
      {l. \<exists>s\<in>set (successors_of (b_blocks body ! b)). used_later body s 0 l}"
    using assms(3) used_later_iff_gen [OF assms(1,2)] by blast
  ultimately show ?thesis using assms(4,5) by (simp add: found_live_def)
qed

section \<open>The properties\<close>

text \<open>
  C11. On a body with declared locals and jumps that stay inside, when the two-phase analyses return,
  the borrow checker returns and reports exactly the conflicts of every statement and terminator
  with the loans whose reference it finds live there.
\<close>

theorem borrow_conflicts_exact:
  assumes "borrowck_ok ops body"
    and "activations ops body (enumerate 0 (collect_loans body)) Map.empty = Some (Inr cache)"
  shows "\<exists>errors. borrow_conflicts ops ctx body = Some (Inr errors) \<and>
    set errors = (\<Union>b\<in>{..<length (b_blocks body)}.
      \<Union>i\<in>{..length (bb_statements (b_blocks body ! b))}. point_reports ops cache ctx body b i)"
  by (rule borrow_conflicts_reports [OF assms]) blast


definition sample_types :: TypeLookup where
  "sample_types = \<lparr>tl_ty_kind = \<lambda>_. TyKind.String, tl_substitution_args = \<lambda>_. [],
     tl_error_ty = Ty_ERROR, tl_adt_def = \<lambda>_. None, tl_intern_ty = \<lambda>_. Ty_ERROR,
     tl_subst_ty_in = \<lambda>t _. t\<rparr>"

definition sample_ctx :: BorrowckCtx where
  "sample_ctx = \<lparr>bc_ty_ctx = sample_types, bc_adt_repr = \<lambda>_. None, bc_is_copy = \<lambda>_. False,
     bc_local_name = \<lambda>_. ''x''\<rparr>"

lemma shared_loan_ok: "borrowck_ok bv_ops shared_loan"
  by (simp add: borrowck_ok_def liveness_ok_def bitset_laws_bv shared_loan_def sample_statements
      local_capacity_def block_capacity_def terminator_reads_def)

lemma shared_loan_activations:
  "activations ops shared_loan (enumerate 0 (collect_loans shared_loan)) Map.empty = Some (Inr Map.empty)"
  by (simp add: shared_loan_def collect_loans_def sample_statements)

lemma borrow_conflicts_exact_witness:
  "\<exists>errors. borrow_conflicts bv_ops sample_ctx shared_loan = Some (Inr errors) \<and>
    set errors = (\<Union>b\<in>{..<length (b_blocks shared_loan)}.
      \<Union>i\<in>{..length (bb_statements (b_blocks shared_loan ! b))}.
        point_reports bv_ops Map.empty sample_ctx shared_loan b i)"
  by (rule borrow_conflicts_exact [OF shared_loan_ok shared_loan_activations])

lemma shared_loan_used: "used_later shared_loan 0 1 2"
proof -
  have "used_later shared_loan 1 0 2"
    by (rule used_later.read) (simp_all add: shared_loan_def sample_statements)
  then have "used_later shared_loan 0 2 2"
    by (rule used_later.jump [where s = 1, rotated -1]) (simp_all add: shared_loan_def)
  then have "used_later shared_loan 0 (Suc 1) 2" by (simp add: numeral_2_eq_2)
  then show ?thesis
    by (rule used_later.step [rotated -1]) (simp_all add: shared_loan_def sample_statements)
qed


section \<open>Uses the checker does not see\<close>

text \<open>
  \<open>r = &mut x; x = (); call f(r)\<close>: the scan starts behind the terminator.
  \<open>r = &mut x; x = (); *r = ()\<close>: the last statement counts as an assignment to \<open>r\<close>.
\<close>

definition call_with_loan :: Body where
  "call_with_loan = plain_body 3
     [plain_block [take_ref 2 1 (MutBorrow False), store_unit (Place_new 1)]
        (TerminatorKind.Call unit_const [Operand.Move (Place_new 2)] (Place_new 0) (Some 1) None),
      plain_block [] TerminatorKind.Return]"

definition write_through_loan :: Body where
  "write_through_loan = plain_body 3
     [plain_block [take_ref 2 1 (MutBorrow False), store_unit (Place_new 1), store_unit (pointee 2)]
        TerminatorKind.Return]"

lemma not_used_in_empty_return:
  assumes "b < length (b_blocks body)" and "b_blocks body ! b = plain_block [] TerminatorKind.Return"
  shows "\<not> used_later body b 0 l"
proof
  assume "used_later body b 0 l"
  then show False using assms by cases (simp_all add: successors_of_def terminator_reads_def)
qed

lemma no_active_loan:
  assumes "borrowck_ok ops body" and "\<And>il. il \<in> set (enumerate 0 (collect_loans body)) \<Longrightarrow> \<not> is_two_phase (ln_kind (snd il))"
    and "\<And>b i. b < length (b_blocks body) \<Longrightarrow> i \<le> length (bb_statements (b_blocks body ! b)) \<Longrightarrow> active_at body b i = {}"
  shows "borrow_conflicts ops ctx body = Some (Inr [])"
proof -
  obtain errors where e: "borrow_conflicts ops ctx body = Some (Inr errors)"
    "set errors = (\<Union>b\<in>{..<length (b_blocks body)}.
       \<Union>i\<in>{..length (bb_statements (b_blocks body ! b))}. point_reports ops Map.empty ctx body b i)"
    by (rule borrow_conflicts_reports [OF assms(1) no_two_phase_activations [OF assms(2)]])
  have "set errors = {}" using assms(3) by (simp add: e(2) no_loan_no_report)
  with e(1) show ?thesis by simp
qed

lemma le_cases: "i \<le> (2 :: nat) \<Longrightarrow> i = 0 \<or> i = 1 \<or> i = 2" "i \<le> (3 :: nat) \<Longrightarrow> i = 0 \<or> i = 1 \<or> i = 2 \<or> i = 3"
  by auto

text \<open>
  C30. Two bodies that assign to a local while a later use of a mutable reference to it is still to come
  are accepted: the use is an argument of the call that ends the block, or a write through the reference.
\<close>

theorem borrowck_misses_uses_of_loan:
  assumes "bitset_laws ops"
  shows "borrow_conflicts ops ctx call_with_loan = Some (Inr []) \<and>
    borrow_conflicts ops ctx write_through_loan = Some (Inr [])"
proof
  note ok = borrowck_ok_def liveness_ok_def assms sample_statements local_capacity_def block_capacity_def
    terminator_reads_def successors_of_def
  show "borrow_conflicts ops ctx call_with_loan = Some (Inr [])"
  proof (rule no_active_loan)
    show "borrowck_ok ops call_with_loan" by (simp add: ok call_with_loan_def)
  next
    fix il assume "il \<in> set (enumerate 0 (collect_loans call_with_loan))"
    then show "\<not> is_two_phase (ln_kind (snd il))"
      by (auto simp: call_with_loan_def collect_loans_def sample_statements)
  next
    fix b i assume b: "b < length (b_blocks call_with_loan)" "i \<le> length (bb_statements (b_blocks call_with_loan ! b))"
    have "\<not> used_later call_with_loan 1 0 l" for l
      by (rule not_used_in_empty_return) (simp_all add: call_with_loan_def)
    then have "2 \<notin> found_live call_with_loan b i"
      using b by (auto simp: found_live_def call_with_loan_def sample_statements scan_set_def successors_of_def
        less_Suc_eq le_Suc_eq)
    then show "active_at call_with_loan b i = {}"
      by (auto simp: active_at_def call_with_loan_def collect_loans_def sample_statements)
  qed
  show "borrow_conflicts ops ctx write_through_loan = Some (Inr [])"
  proof (rule no_active_loan)
    show "borrowck_ok ops write_through_loan" by (simp add: ok write_through_loan_def)
  next
    fix il assume "il \<in> set (enumerate 0 (collect_loans write_through_loan))"
    then show "\<not> is_two_phase (ln_kind (snd il))"
      by (auto simp: write_through_loan_def collect_loans_def sample_statements)
  next
    fix b i assume b: "b < length (b_blocks write_through_loan)" "i \<le> length (bb_statements (b_blocks write_through_loan ! b))"
    then have "2 \<notin> found_live write_through_loan b i"
      by (auto simp: found_live_def write_through_loan_def sample_statements scan_set_def successors_of_def
        less_Suc_eq le_Suc_eq)
    then show "active_at write_through_loan b i = {}"
      by (auto simp: active_at_def write_through_loan_def collect_loans_def sample_statements)
  qed
qed

lemma borrowck_misses_uses_of_loan_witness:
  "borrow_conflicts bv_ops sample_ctx call_with_loan = Some (Inr []) \<and>
   borrow_conflicts bv_ops sample_ctx write_through_loan = Some (Inr [])"
  by (rule borrowck_misses_uses_of_loan [OF bitset_laws_bv])

end
