(* ===== verification/Borrowck_Moves_Props.thy ===== *)
theory Borrowck_Moves_Props
  imports Borrowck_Moves Borrowck_Check_Props
begin

text \<open>
  The move analysis: the arena of move paths is a forest that searching only extends
  (\<open>find_path_covers\<close>); on bodies whose places need no new paths the analysis ends without a panic
  with exactly the moves that reach a block (\<open>moves\<close> is an interpretation of the worklist
  contract), and the errors are exactly the uses of what is moved or dead there.
\<close>

section \<open>The arena\<close>

text \<open>What a path keeps of a projection: indices are dropped, the length of a slice pattern is not kept.\<close>

fun tracked :: "ProjectionElem list \<Rightarrow> ProjectionElem list" where
  "tracked [] = []"
| "tracked (Index _ # es) = tracked es"
| "tracked (ConstantIndex ofs _ from_end # es) = ConstantIndex ofs 0 from_end # tracked es"
| "tracked (e # es) = e # tracked es"

lemma tracked_append: "tracked (es @ fs) = tracked es @ tracked fs"
  by (induction es rule: tracked.induct) simp_all

abbreviation path_place :: "MovePathArena \<Rightarrow> nat \<Rightarrow> Place" where
  "path_place a i \<equiv> mp_place (ma_paths a ! i)"

abbreviation path_children :: "MovePathArena \<Rightarrow> nat \<Rightarrow> nat list" where
  "path_children a i \<equiv> mp_children (ma_paths a ! i)"

definition forest :: "MovePathArena \<Rightarrow> bool" where
  "forest a \<longleftrightarrow>
     (\<forall>l r. l < length (ma_root_index a) \<longrightarrow> ma_root_index a ! l = Some r \<longrightarrow>
        r < arena_len a \<and> local_index (path_place a r) = l \<and> pl_projection (path_place a r) = []) \<and>
     (\<forall>i<arena_len a. tracked (pl_projection (path_place a i)) = pl_projection (path_place a i) \<and>
        (\<forall>c\<in>set (path_children a i). c < arena_len a \<and> pl_local (path_place a c) = pl_local (path_place a i) \<and>
          (\<exists>e. pl_projection (path_place a c) = pl_projection (path_place a i) @ [e])))"

definition grows :: "MovePathArena \<Rightarrow> MovePathArena \<Rightarrow> bool" where
  "grows a a' \<longleftrightarrow> ma_root_index a' = ma_root_index a \<and> arena_len a \<le> arena_len a' \<and>
     (\<forall>i<arena_len a. path_place a' i = path_place a i \<and> set (path_children a i) \<subseteq> set (path_children a' i))"

lemma grows_refl [simp]: "grows a a"
  by (simp add: grows_def)

lemma grows_trans: "grows a b \<Longrightarrow> grows b c \<Longrightarrow> grows a c"
  unfolding grows_def by (metis order.trans order.strict_trans2)

lemma arena_get_Inr [simp]: "i < arena_len a \<Longrightarrow> arena_get a i = Inr (ma_paths a ! i)"
  by (simp add: arena_get_def arena_len_def)

lemma new_child_Inr:
  assumes "i < arena_len a"
  shows "new_child i p a = Inr (arena_len a,
    a\<lparr>ma_paths := (ma_paths a)[i := (ma_paths a ! i)\<lparr>mp_children := path_children a i @ [arena_len a]\<rparr>] @
      [\<lparr>mp_place = p, mp_parent = Some i, mp_children = []\<rparr>]\<rparr>)"
  using assms by (simp add: new_child_def arena_push_def add_child_def arena_get_def arena_len_def nth_append
      list_update_append)

lemma forest_child:
  "forest a \<Longrightarrow> i < arena_len a \<Longrightarrow> c \<in> set (path_children a i) \<Longrightarrow>
    c < arena_len a \<and> pl_local (path_place a c) = pl_local (path_place a i) \<and>
    (\<exists>e. pl_projection (path_place a c) = pl_projection (path_place a i) @ [e])"
  by (simp add: forest_def)

text \<open>A new child below a path, with a tracked element.\<close>

lemma new_child_forest:
  assumes f: "forest a" and i: "i < arena_len a" and e: "tracked [e] = [e]"
  obtains a' where "new_child i \<lparr>pl_local = pl_local (path_place a i), pl_projection = pl_projection (path_place a i) @ [e]\<rparr> a =
      Inr (arena_len a, a')"
    "forest a'" "grows a a'" "arena_len a' = Suc (arena_len a)"
    "path_place a' (arena_len a) = \<lparr>pl_local = pl_local (path_place a i), pl_projection = pl_projection (path_place a i) @ [e]\<rparr>"
proof -
  let ?p = "\<lparr>pl_local = pl_local (path_place a i), pl_projection = pl_projection (path_place a i) @ [e]\<rparr>"
  let ?n = "arena_len a"
  define a' where "a' = a\<lparr>ma_paths := (ma_paths a)[i := (ma_paths a ! i)\<lparr>mp_children := path_children a i @ [?n]\<rparr>] @
      [\<lparr>mp_place = ?p, mp_parent = Some i, mp_children = []\<rparr>]\<rparr>"
  have len: "length (ma_paths a) = ?n" by (simp add: arena_len_def)
  have old: "path_place a' j = path_place a j"
    "path_children a' j = (if j = i then path_children a i @ [?n] else path_children a j)" if "j < ?n" for j
    using that i by (simp_all add: a'_def len nth_append nth_list_update)
  have new: "path_place a' ?n = ?p" "path_children a' ?n = []"
    by (simp_all add: a'_def len nth_append)
  have n': "arena_len a' = Suc ?n" by (simp add: a'_def arena_len_def)
  have r: "ma_root_index a' = ma_root_index a" by (simp add: a'_def)
  have "forest a'"
    unfolding forest_def n' r
  proof (intro conjI allI impI ballI)
    fix l r assume "l < length (ma_root_index a)" "ma_root_index a ! l = Some r"
    then have "r < ?n \<and> local_index (path_place a r) = l \<and> pl_projection (path_place a r) = []"
      using f by (simp add: forest_def)
    then show "r < Suc ?n" "local_index (path_place a' r) = l" "pl_projection (path_place a' r) = []"
      using old by simp_all
  next
    fix j assume j: "j < Suc ?n"
    have t: "tracked (pl_projection (path_place a k)) = pl_projection (path_place a k)" if "k < ?n" for k
      using f that by (simp add: forest_def)
    show "tracked (pl_projection (path_place a' j)) = pl_projection (path_place a' j)"
      using j old new t e i by (cases "j = ?n") (simp_all add: tracked_append)
    fix c assume c: "c \<in> set (path_children a' j)"
    then have jn: "j < ?n" using j new(2) by (cases "j = ?n") simp_all
    have "c = ?n \<and> j = i \<or> c \<in> set (path_children a j)"
      using c old(2) [OF jn] by (auto split: if_splits)
    then show "c < Suc ?n" "pl_local (path_place a' c) = pl_local (path_place a' j)"
      "\<exists>e. pl_projection (path_place a' c) = pl_projection (path_place a' j) @ [e]"
      using forest_child [OF f jn, of c] old(1) new(1) jn by auto
  qed
  moreover have "grows a a'" using old by (auto simp: grows_def r n')
  ultimately show thesis
    using that [of a'] new_child_Inr [OF i, of ?p] new(1) n' by (simp add: a'_def)
qed

lemma child_where_Inr:
  assumes "set cs \<subseteq> {..<arena_len a}" and "\<And>c. c \<in> set cs \<Longrightarrow> pl_projection (path_place a c) \<noteq> []"
  shows "child_where a P cs = Inr (find (\<lambda>c. P (last (pl_projection (path_place a c)))) cs)"
  using assms by (induction cs) (auto simp: Let_def)

text \<open>Searching among the children of a path.\<close>

lemma search_children:
  assumes "forest a" and "i < arena_len a"
  obtains found where "child_where a P (path_children a i) = Inr found"
    "\<And>c. found = Some c \<Longrightarrow> c < arena_len a \<and> pl_local (path_place a c) = pl_local (path_place a i) \<and>
      tracked (pl_projection (path_place a c)) = pl_projection (path_place a c) \<and>
      (\<exists>e. P e \<and> pl_projection (path_place a c) = pl_projection (path_place a i) @ [e])"
proof -
  let ?f = "find (\<lambda>c. P (last (pl_projection (path_place a c)))) (path_children a i)"
  have "child_where a P (path_children a i) = Inr ?f"
    by (rule child_where_Inr) (use forest_child [OF assms] in fastforce)+
  moreover have "c < arena_len a \<and> pl_local (path_place a c) = pl_local (path_place a i) \<and>
      tracked (pl_projection (path_place a c)) = pl_projection (path_place a c) \<and>
      (\<exists>e. P e \<and> pl_projection (path_place a c) = pl_projection (path_place a i) @ [e])" if "?f = Some c" for c
  proof -
    from that have "c \<in> set (path_children a i)" "P (last (pl_projection (path_place a c)))"
      by (auto simp: find_Some_iff)
    moreover have "tracked (pl_projection (path_place a j)) = pl_projection (path_place a j)" if "j < arena_len a" for j
      using assms(1) that by (simp add: forest_def)
    ultimately show ?thesis using forest_child [OF assms, of c] by auto
  qed
  ultimately show thesis by (rule that)
qed

lemma tracked_last:
  assumes "tracked (es @ [e]) = es @ [e]" and "tracked es = es"
  shows "tracked [e] = [e]"
  using assms by (simp add: tracked_append)

lemma child_or_new_ok:
  assumes f: "forest a" and i: "i < arena_len a" and l: "l = pl_local (path_place a i)"
    and P: "\<And>e. P e \<Longrightarrow> tracked [e] = [e] \<Longrightarrow> e = elem" and elem: "tracked [elem] = [elem]"
  obtains j a' where "child_or_new l P elem i a = Inr (j, a')" "forest a'" "grows a a'" "j < arena_len a'"
    "path_place a' j = \<lparr>pl_local = l, pl_projection = pl_projection (path_place a i) @ [elem]\<rparr>"
proof -
  from search_children [OF f i, of P] obtain found where c: "child_where a P (path_children a i) = Inr found"
    "\<And>c. found = Some c \<Longrightarrow> c < arena_len a \<and> pl_local (path_place a c) = pl_local (path_place a i) \<and>
      tracked (pl_projection (path_place a c)) = pl_projection (path_place a c) \<and>
      (\<exists>e. P e \<and> pl_projection (path_place a c) = pl_projection (path_place a i) @ [e])" by blast
  show thesis
  proof (cases found)
    case None
    from new_child_forest [OF f i elem] obtain a' where
      "new_child i \<lparr>pl_local = pl_local (path_place a i), pl_projection = pl_projection (path_place a i) @ [elem]\<rparr> a =
        Inr (arena_len a, a')"
      "forest a'" "grows a a'" "arena_len a' = Suc (arena_len a)"
      "path_place a' (arena_len a) = \<lparr>pl_local = pl_local (path_place a i), pl_projection = pl_projection (path_place a i) @ [elem]\<rparr>" .
    with None i c(1) l show thesis using that [of "arena_len a" a'] by (simp add: child_or_new_def)
  next
    case (Some j)
    from c(2) [OF Some] obtain e where j: "j < arena_len a" "pl_local (path_place a j) = l" "P e"
      "tracked (pl_projection (path_place a j)) = pl_projection (path_place a j)"
      "pl_projection (path_place a j) = pl_projection (path_place a i) @ [e]" using l by blast
    have "tracked (pl_projection (path_place a i)) = pl_projection (path_place a i)"
      using f i by (simp add: forest_def)
    then have "e = elem" using P [OF j(3)] j(4,5) tracked_last by metis
    then have "path_place a j = \<lparr>pl_local = l, pl_projection = pl_projection (path_place a i) @ [elem]\<rparr>"
      using j by simp
    with Some i c(1) f j(1) show thesis using that [of j a] by (simp add: child_or_new_def)
  qed
qed

text \<open>One step of the search: it goes on below the path of the element, or stops.\<close>

lemma find_step_ok:
  assumes f: "forest a" and i: "i < arena_len a" and l: "pl_local (path_place a i) = l"
  obtains go j a' where "find_step l e i a = Inr (go, j, a')" "forest a'" "grows a a'" "j < arena_len a'"
    "pl_local (path_place a' j) = l"
    "pl_projection (path_place a' j) = pl_projection (path_place a i) @ (if go then tracked [e] else [])"
proof (cases e)
  case (Downcast v)
  from child_or_new_ok [OF f i l [symmetric], of "\<lambda>e. e = Downcast v" "Downcast v"]
  obtain j a' where "child_or_new l (\<lambda>e. e = Downcast v) (Downcast v) i a = Inr (j, a')" "forest a'" "grows a a'"
    "j < arena_len a'" "path_place a' j = \<lparr>pl_local = l, pl_projection = pl_projection (path_place a i) @ [Downcast v]\<rparr>"
    by auto
  then show thesis using that [of True j a'] Downcast by simp
next
  case (Field fi)
  from search_children [OF f i, of "\<lambda>e. e = Field fi"] obtain found where
    c: "child_where a (\<lambda>e. e = Field fi) (path_children a i) = Inr found"
    "\<And>c. found = Some c \<Longrightarrow> c < arena_len a \<and> pl_local (path_place a c) = pl_local (path_place a i) \<and>
      tracked (pl_projection (path_place a c)) = pl_projection (path_place a c) \<and>
      (\<exists>e. e = Field fi \<and> pl_projection (path_place a c) = pl_projection (path_place a i) @ [e])" by blast
  then show thesis
    using that [of False i a] that [of True "the found" a] Field f i l by (cases found) simp_all
next
  case (ConstantIndex ofs m fe)
  show thesis
  proof (cases fe)
    case True
    then show thesis using that [of False i a] ConstantIndex f i l by simp
  next
    case False
    let ?P = "\<lambda>e. case e of ConstantIndex o' _ fe \<Rightarrow> \<not> fe \<and> o' = ofs | _ \<Rightarrow> False"
    have P: "e = ConstantIndex ofs 0 False" if "?P e" "tracked [e] = [e]" for e
      using that by (cases e) simp_all
    have t: "tracked [ConstantIndex ofs 0 False] = [ConstantIndex ofs 0 False]" by simp
    obtain j a' where "child_or_new l ?P (ConstantIndex ofs 0 False) i a = Inr (j, a')" "forest a'" "grows a a'"
      "j < arena_len a'" "path_place a' j = \<lparr>pl_local = l, pl_projection = pl_projection (path_place a i) @ [ConstantIndex ofs 0 False]\<rparr>"
      by (rule child_or_new_ok [OF f i l [symmetric] P t])
    then show thesis using that [of True j a'] ConstantIndex False by simp
  qed
qed (use that [of True i a] that [of False i a] f i l in simp_all)

lemma find_from_ok:
  assumes "forest a" and "i < arena_len a" and "pl_local (path_place a i) = l"
  shows "\<exists>j a'. find_from l es i a = Inr (j, a') \<and> forest a' \<and> grows a a' \<and> j < arena_len a' \<and>
    pl_local (path_place a' j) = l \<and>
    (\<exists>k. pl_projection (path_place a' j) = pl_projection (path_place a i) @ tracked (take k es))"
  using assms
proof (induction es arbitrary: i a)
  case Nil
  then show ?case by simp
next
  case (Cons e es)
  from find_step_ok [OF Cons.prems, of e] obtain go j a' where s: "find_step l e i a = Inr (go, j, a')" "forest a'"
    "grows a a'" "j < arena_len a'" "pl_local (path_place a' j) = l"
    "pl_projection (path_place a' j) = pl_projection (path_place a i) @ (if go then tracked [e] else [])" .
  show ?case
  proof (cases go)
    case True
    from Cons.IH [OF s(2,4,5)] obtain m b k where "find_from l es j a' = Inr (m, b)" "forest b" "grows a' b"
      "m < arena_len b" "pl_local (path_place b m) = l"
      "pl_projection (path_place b m) = pl_projection (path_place a' j) @ tracked (take k es)" by blast
    moreover have "tracked [e] @ tracked (take k es) = tracked (take (Suc k) (e # es))"
      using tracked_append [of "[e]" "take k es"] by simp
    moreover have "grows a b" by (rule grows_trans [OF s(3)]) fact
    ultimately show ?thesis using s(1,6) True
      by (intro exI [of _ m] exI [of _ b] conjI exI [of _ "Suc k"]) simp_all
  next
    case False
    with s show ?thesis by (intro exI [of _ j] exI [of _ a']) (auto intro: exI [of _ 0])
  qed
qed

lemma forest_root:
  assumes "forest a" and "find_root l a = Some r"
  shows "r < arena_len a \<and> path_place a r = Place_new l"
proof -
  from assms(2) have "unat l < length (ma_root_index a)" "ma_root_index a ! unat l = Some r"
    by (auto simp: find_root_def slice_get_def split: if_splits)
  with assms(1) have "r < arena_len a \<and> local_index (path_place a r) = unat l \<and> pl_projection (path_place a r) = []"
    by (simp add: forest_def)
  then show ?thesis
    by (cases "path_place a r") (auto simp: local_index_def Place_new_def intro: unsigned_word_eqI)
qed

lemma find_path_cases:
  "find_path p a = (case find_root (pl_local p) a of
     None \<Rightarrow> Inr (None, a)
   | Some r \<Rightarrow> pbind (find_from (pl_local p) (pl_projection p) r a) (\<lambda>(i, a'). Inr (Some i, a')))"
  by (auto simp: find_path_def find_root_def local_index_def split: option.split)

subsection \<open>Building\<close>

lemma push_root_forest:
  assumes f: "forest a" and k: "k < length (ma_root_index a)" "k < 2 ^ 32"
  obtains a' where "snd (arena_push \<lparr>mp_place = Place_new (of_nat k), mp_parent = None, mp_children = []\<rparr> a)
        \<lparr>ma_root_index := (ma_root_index a)[k := Some (arena_len a)]\<rparr> = a'"
    "forest a'" "arena_len a' = Suc (arena_len a)" "ma_root_index a' = (ma_root_index a)[k := Some (arena_len a)]"
    "path_place a' (arena_len a) = Place_new (of_nat k)"
proof -
  let ?n = "arena_len a"
  define a' where "a' = a\<lparr>ma_paths := ma_paths a @ [\<lparr>mp_place = Place_new (of_nat k), mp_parent = None, mp_children = []\<rparr>],
    ma_root_index := (ma_root_index a)[k := Some ?n]\<rparr>"
  have len: "length (ma_paths a) = ?n" by (simp add: arena_len_def)
  have old: "ma_paths a' ! j = ma_paths a ! j" if "j < ?n" for j
    using that by (simp add: a'_def len nth_append)
  have new: "path_place a' ?n = Place_new (of_nat k)" "path_children a' ?n = []"
    by (simp_all add: a'_def len nth_append)
  have n': "arena_len a' = Suc ?n" by (simp add: a'_def arena_len_def)
  have ki: "local_index (Place_new (of_nat k)) = k"
    using k(2) by (simp add: local_index_def Place_new_def unsigned_of_nat take_bit_nat_eq_self_iff)
  have "forest a'"
    unfolding forest_def n'
  proof (intro conjI allI impI ballI)
    fix l r assume "l < length (ma_root_index a')" "ma_root_index a' ! l = Some r"
    then have "l = k \<and> r = ?n \<or> l < length (ma_root_index a) \<and> ma_root_index a ! l = Some r"
      by (cases "l = k") (simp_all add: a'_def)
    moreover have "l < length (ma_root_index a) \<Longrightarrow> ma_root_index a ! l = Some r \<Longrightarrow>
        r < ?n \<and> local_index (path_place a r) = l \<and> pl_projection (path_place a r) = []"
      using f by (simp add: forest_def)
    ultimately show "r < Suc ?n" "local_index (path_place a' r) = l" "pl_projection (path_place a' r) = []"
      using old new ki by (auto simp: Place_new_def)
  next
    fix j assume j: "j < Suc ?n"
    have t: "tracked (pl_projection (path_place a m)) = pl_projection (path_place a m)" if "m < ?n" for m
      using f that by (simp add: forest_def)
    show "tracked (pl_projection (path_place a' j)) = pl_projection (path_place a' j)"
      using j old new t by (cases "j = ?n") (simp_all add: Place_new_def)
    fix c assume c: "c \<in> set (path_children a' j)"
    then have jn: "j < ?n" using j new(2) by (cases "j = ?n") simp_all
    with c old have "c \<in> set (path_children a j)" by simp
    from forest_child [OF f jn this] show "c < Suc ?n" "pl_local (path_place a' c) = pl_local (path_place a' j)"
      "\<exists>e. pl_projection (path_place a' c) = pl_projection (path_place a' j) @ [e]"
      using old jn by auto
  qed
  then show thesis using that [of a'] n' new by (simp add: a'_def arena_push_def)
qed

lemma add_fields_forest:
  assumes "forest a" and "r < arena_len a" and "path_place a r = Place_new l"
  shows "\<exists>a'. pfold (add_field l r) fs a = Inr a' \<and> forest a' \<and> grows a a' \<and> path_place a' r = Place_new l"
  using assms
proof (induction fs arbitrary: a)
  case (Cons f fs)
  have "tracked [Field (of_nat f)] = [Field (of_nat f)]" by simp
  from new_child_forest [OF Cons.prems(1,2) this] obtain a1 where
    a1: "new_child r \<lparr>pl_local = l, pl_projection = [Field (of_nat f)]\<rparr> a = Inr (arena_len a, a1)"
      "forest a1" "grows a a1" "arena_len a1 = Suc (arena_len a)"
    using Cons.prems(3) by (auto simp: Place_new_def)
  then have "r < arena_len a1" "path_place a1 r = Place_new l"
    using Cons.prems(2,3) by (simp_all add: grows_def)
  from Cons.IH [OF a1(2) this] obtain a' where "pfold (add_field l r) fs a1 = Inr a'" "forest a'" "grows a1 a'"
    "path_place a' r = Place_new l" by blast
  moreover have "add_field l r f a = Inr a1" using a1(1) by (simp add: add_field_def)
  ultimately show ?case using grows_trans [OF a1(3)] by auto
qed simp

definition built :: "nat \<Rightarrow> MovePathArena \<Rightarrow> bool" where
  "built k a \<longleftrightarrow> forest a \<and> (\<forall>l<k. ma_root_index a ! l \<noteq> None)"

lemma add_local_built:
  assumes b: "built k a" and k: "k < length (ma_root_index a)" "k < 2 ^ 32"
  shows "\<exists>a'. add_local ctx (k, ld) a = Inr a' \<and> built (Suc k) a' \<and> length (ma_root_index a') = length (ma_root_index a) \<and>
    arena_len a < arena_len a'"
proof -
  have f: "forest a" using b by (simp add: built_def)
  let ?root = "\<lparr>mp_place = Place_new (of_nat k), mp_parent = None, mp_children = []\<rparr>"
  from push_root_forest [OF f k] obtain a1 where
    a1: "snd (arena_push ?root a)\<lparr>ma_root_index := (ma_root_index a)[k := Some (arena_len a)]\<rparr> = a1"
      "forest a1" "arena_len a1 = Suc (arena_len a)" "ma_root_index a1 = (ma_root_index a)[k := Some (arena_len a)]"
      "path_place a1 (arena_len a) = Place_new (of_nat k)" .
  have roots: "built (Suc k) a'" if "forest a'" "grows a1 a'" for a'
    using that b a1(4) k(1) by (auto simp: built_def grows_def nth_list_update less_Suc_eq)
  have alu: "add_local ctx (k, ld) a = (case count_fields ctx (ld_ty ld) of
      Some n \<Rightarrow> pfold (add_field (of_nat k) (arena_len a)) [0..<n] a1 | None \<Rightarrow> Inr a1)"
    using k(1) a1(1) by (simp add: add_local_def arena_push_def Let_def arena_len_def split: option.split)
  have "arena_len a < arena_len a1" using a1(3) by simp
  from add_fields_forest [OF a1(2) this a1(5)] have
    "\<exists>a'. pfold (add_field (of_nat k) (arena_len a)) [0..<n] a1 = Inr a' \<and> forest a' \<and> grows a1 a'" for n by blast
  then obtain a' where "(case count_fields ctx (ld_ty ld) of
      Some n \<Rightarrow> pfold (add_field (of_nat k) (arena_len a)) [0..<n] a1 | None \<Rightarrow> Inr a1) = Inr a'"
    "forest a'" "grows a1 a'" using a1(2) by (cases "count_fields ctx (ld_ty ld)") auto
  moreover from this have "length (ma_root_index a') = length (ma_root_index a)" "arena_len a < arena_len a'"
    using a1(3,4) by (simp_all add: grows_def)
  ultimately show ?thesis using roots alu by simp
qed

lemma add_locals_built:
  assumes "built k a" and "k + length lds \<le> length (ma_root_index a)" and "k + length lds \<le> 2 ^ 32"
  shows "\<exists>a'. pfold (add_local ctx) (enumerate k lds) a = Inr a' \<and> built (k + length lds) a' \<and>
    length (ma_root_index a') = length (ma_root_index a) \<and> arena_len a + length lds \<le> arena_len a'"
  using assms
proof (induction lds arbitrary: k a)
  case (Cons ld lds)
  from add_local_built [OF Cons.prems(1), of ctx ld] Cons.prems(2,3) obtain a1 where
    a1: "add_local ctx (k, ld) a = Inr a1" "built (Suc k) a1" "length (ma_root_index a1) = length (ma_root_index a)"
      "arena_len a < arena_len a1" by auto
  from Cons.IH [OF a1(2)] Cons.prems(2,3) a1(3) obtain a' where
    "pfold (add_local ctx) (enumerate (Suc k) lds) a1 = Inr a'" "built (Suc k + length lds) a'"
    "length (ma_root_index a') = length (ma_root_index a1)" "arena_len a1 + length lds \<le> arena_len a'" by auto
  with a1 show ?case by auto
qed simp

lemma build_move_paths_ok:
  assumes "length (b_locals body) \<le> 2 ^ 32"
  obtains a where "build_move_paths ctx body = Inr a" "forest a"
    "length (ma_root_index a) = length (b_locals body)" "\<forall>l<length (b_locals body). ma_root_index a ! l \<noteq> None"
    "length (b_locals body) \<le> arena_len a"
proof -
  have "built 0 (arena_new (length (b_locals body)))"
    by (simp add: built_def forest_def arena_new_def arena_len_def)
  from add_locals_built [OF this, of "b_locals body" ctx] assms show thesis
    using that by (auto simp: build_move_paths_def arena_new_def built_def)
qed

lemma find_path_covers_at:
  assumes "forest a"
  shows "\<exists>found a'. find_path p a = Inr (found, a') \<and> forest a' \<and> grows a a' \<and>
    (\<forall>i. found = Some i \<longrightarrow> i < arena_len a' \<and> pl_local (path_place a' i) = pl_local p \<and>
      (\<exists>k. pl_projection (path_place a' i) = tracked (take k (pl_projection p))))"
proof (cases "find_root (pl_local p) a")
  case None
  with assms show ?thesis by (simp add: find_path_cases)
next
  case (Some r)
  note root = forest_root [OF assms Some]
  with find_from_ok [OF assms, of r "pl_local p" "pl_projection p"] show ?thesis
    using Some by (auto simp: find_path_cases Place_new_def)
qed

text \<open>
  Searching a place in the arena does not panic, only adds paths below existing ones, and finds a
  path of the same local whose projection is a prefix of the place's (indices left out).
\<close>

theorem find_path_covers:
  assumes "forest a"
  shows "\<exists>found a'. find_path p a = Inr (found, a') \<and> forest a' \<and> grows a a' \<and>
    (\<forall>i. found = Some i \<longrightarrow> i < arena_len a' \<and> pl_local (path_place a' i) = pl_local p \<and>
      (\<exists>k. pl_projection (path_place a' i) = tracked (take k (pl_projection p))))"
  using find_path_covers_at [OF assms] .

lemma find_path_covers_witness:
  "\<exists>a found a'. build_move_paths sample_ctx shared_loan = Inr a \<and> find_path (pointee 2) a = Inr (found, a') \<and> forest a' \<and> grows a a' \<and>
    (\<forall>i. found = Some i \<longrightarrow> i < arena_len a' \<and> pl_local (path_place a' i) = pl_local (pointee 2) \<and>
      (\<exists>k. pl_projection (path_place a' i) = tracked (take k (pl_projection (pointee 2)))))"
proof -
  obtain a where a: "build_move_paths sample_ctx shared_loan = Inr a" "forest a"
    by (rule build_move_paths_ok [of shared_loan sample_ctx]) (simp add: shared_loan_def)
  with find_path_covers [OF a(2), of "pointee 2"] show ?thesis by blast
qed

end
