(* ===== verification/Borrowck_Moves_Flow.thy ===== *)
theory Borrowck_Moves_Flow
  imports Borrowck_Moves_Props
begin

text \<open>
  The move analysis as sets: what a statement moves, clears and kills, the equations of the
  dataflow with their exact solution, and the errors.  Bodies are those whose places name only paths
  that \<open>build_move_paths\<close> makes, so that the arena does not change.
\<close>

section \<open>Places that need no new path\<close>

fun static_elem :: "ProjectionElem \<Rightarrow> bool" where
  "static_elem (Downcast _) \<longleftrightarrow> False"
| "static_elem (ConstantIndex _ _ from_end) \<longleftrightarrow> from_end"
| "static_elem _ \<longleftrightarrow> True"

definition static_place :: "Place \<Rightarrow> bool" where
  "static_place p \<longleftrightarrow> (\<forall>e\<in>set (pl_projection p). static_elem e)"

definition path_of :: "MovePathArena \<Rightarrow> Place \<Rightarrow> nat option" where
  "path_of a p = (case find_path p a of Inr (r, _) \<Rightarrow> r | Inl _ \<Rightarrow> None)"

lemma find_step_static: "static_elem e \<Longrightarrow> find_step l e i a = Inr (go, j, a') \<Longrightarrow> a' = a"
  by (cases e) (auto simp: pbind_Inr_iff split: option.splits)

lemma find_from_static:
  "\<forall>e\<in>set es. static_elem e \<Longrightarrow> find_from l es i a = Inr (j, a') \<Longrightarrow> a' = a"
proof (induction es arbitrary: i)
  case (Cons e es)
  then obtain go k b where s: "find_step l e i a = Inr (go, k, b)"
    "(if go then find_from l es k b else Inr (k, b)) = Inr (j, a')"
    by (auto simp: pbind_Inr_iff)
  with find_step_static Cons.prems(1) have "b = a" by fastforce
  with s(2) Cons show ?case by (auto split: if_splits)
qed simp

lemma find_static:
  assumes f: "forest a" and p: "static_place p"
  shows "find_path p a = Inr (path_of a p, a)"
    and "path_of a p = Some i \<Longrightarrow> i < arena_len a \<and> pl_local (path_place a i) = pl_local p"
proof -
  from find_path_covers_at [OF f, of p] obtain found a' where
    fp: "find_path p a = Inr (found, a')" "found = Some i \<Longrightarrow> i < arena_len a' \<and> pl_local (path_place a' i) = pl_local p" for i
    by blast
  have "a' = a"
    using fp(1) p find_from_static
    by (auto simp: find_path_cases static_place_def pbind_Inr_iff split: option.splits)
  with fp show "find_path p a = Inr (path_of a p, a)"
    and "path_of a p = Some i \<Longrightarrow> i < arena_len a \<and> pl_local (path_place a i) = pl_local p"
    by (simp_all add: path_of_def)
qed

lemma path_of_bare: "pl_projection p = [] \<Longrightarrow> path_of a p = find_root (pl_local p) a"
  by (auto simp: path_of_def find_path_cases split: option.split)

section \<open>The effects as sets\<close>

definition below :: "MovePathArena \<Rightarrow> nat \<Rightarrow> nat set" where
  "below a i = insert i (set (path_children a i))"

definition below_opt :: "MovePathArena \<Rightarrow> nat option \<Rightarrow> nat set" where
  "below_opt a found = (case found of None \<Rightarrow> {} | Some i \<Rightarrow> below a i)"

fun operand_moved :: "BorrowckCtx \<Rightarrow> LocalDecl IndexVec \<Rightarrow> MovePathArena \<Rightarrow> Operand \<Rightarrow> nat set" where
  "operand_moved ctx locals a (Operand.Move p) =
     (case place_ty (bc_ty_ctx ctx) p locals of
        Inr ty \<Rightarrow> if bc_is_copy ctx ty then {} else below_opt a (path_of a p)
      | Inl _ \<Rightarrow> {})"
| "operand_moved ctx locals a _ = {}"

fun stmt_moved :: "BorrowckCtx \<Rightarrow> LocalDecl IndexVec \<Rightarrow> MovePathArena \<Rightarrow> StatementKind \<Rightarrow> nat set" where
  "stmt_moved ctx locals a (Assign d rv) = (\<Union>op\<in>set (rvalue_operands rv). operand_moved ctx locals a op)"
| "stmt_moved ctx locals a (StorageDead l) = below_opt a (find_root l a)"
| "stmt_moved ctx locals a _ = {}"

fun stmt_cleared :: "MovePathArena \<Rightarrow> StatementKind \<Rightarrow> nat set" where
  "stmt_cleared a (Assign d rv) = below_opt a (path_of a d)"
| "stmt_cleared a (StorageLive l) = below_opt a (find_root l a)"
| "stmt_cleared a _ = {}"

fun stmt_killed :: "MovePathArena \<Rightarrow> StatementKind \<Rightarrow> nat set" where
  "stmt_killed a (StorageDead l) = below_opt a (find_root l a)"
| "stmt_killed a _ = {}"

fun terminator_cleared :: "MovePathArena \<Rightarrow> TerminatorKind \<Rightarrow> nat set" where
  "terminator_cleared a (TerminatorKind.Call _ _ destination _ _) = below_opt a (path_of a destination)"
| "terminator_cleared a _ = {}"

text \<open>The places of a statement are static and name declared locals.\<close>

fun static_stmt :: "nat \<Rightarrow> StatementKind \<Rightarrow> bool" where
  "static_stmt n (Assign d rv) \<longleftrightarrow> static_place d \<and>
     (\<forall>p\<in>set (rvalue_places rv). static_place p \<and> local_index p < n)"
| "static_stmt n _ \<longleftrightarrow> True"

fun static_terminator :: "TerminatorKind \<Rightarrow> bool" where
  "static_terminator (TerminatorKind.Call _ _ destination _ _) \<longleftrightarrow> static_place destination"
| "static_terminator _ \<longleftrightarrow> True"

lemma place_ty_Inr: "local_index p < length locals \<Longrightarrow> \<exists>ty. place_ty ctx p locals = Inr ty"
  by (simp add: place_ty_def iv_index_def local_index_def idx_index_def)

lemma rvalue_operand_places: "op \<in> set (rvalue_operands rv) \<Longrightarrow> set (operand_places op) \<subseteq> set (rvalue_places rv)"
  by (cases rv) auto

lemma below_less:
  assumes "forest a" and "i < arena_len a"
  shows "below a i \<subseteq> {..<arena_len a}"
  using forest_child [OF assms] assms(2) by (auto simp: below_def)

lemma insert_below_Inr:
  assumes L: "bitset_laws ops" and f: "forest a" and i: "i < arena_len a" and b: "bs_len ops b = arena_len a"
  shows "\<exists>b'. record_move ops a i b = Inr b' \<and> bs_len ops b' = arena_len a \<and> bits ops b' = bits ops b \<union> below a i"
    and "record_init ops a i b = record_move ops a i b"
proof -
  from L i b obtain b1 where b1: "bit_insert ops i b = Inr b1" "bs_len ops b1 = arena_len a"
    "bits ops b1 = insert i (bits ops b)" by (auto elim: bit_insertE [of ops i b])
  have "j < bs_len ops b1" if "j \<in> set (path_children a i)" for j
    using forest_child [OF f i that] b1(2) by simp
  from insert_all_Inr [OF L this, of "path_children a i"] obtain b2 where
    "pfold (bit_insert ops) (path_children a i) b1 = Inr b2" "bs_len ops b2 = arena_len a"
    "bits ops b2 = bits ops b1 \<union> set (path_children a i)" using b1(2) by auto
  with b1 i show "\<exists>b'. record_move ops a i b = Inr b' \<and> bs_len ops b' = arena_len a \<and> bits ops b' = bits ops b \<union> below a i"
    by (auto simp: record_move_def below_def)
qed (simp add: record_init_def record_move_def)

lemma collect_operand_Inr:
  assumes L: "bitset_laws ops" and f: "forest a" and b: "bs_len ops b = arena_len a"
    and op: "\<forall>p\<in>set (operand_places op). static_place p \<and> local_index p < length locals"
  shows "\<exists>b'. collect_operand_move ops ctx locals op (a, b) = Inr (a, b') \<and> bs_len ops b' = arena_len a \<and>
    bits ops b' = bits ops b \<union> operand_moved ctx locals a op"
proof (cases op)
  case (Move p)
  then have p: "static_place p" "local_index p < length locals" using op by simp_all
  from place_ty_Inr [OF p(2)] obtain ty where ty: "place_ty (bc_ty_ctx ctx) p locals = Inr ty" by blast
  show ?thesis
  proof (cases "path_of a p")
    case None
    with Move ty find_static(1) [OF f p(1)] b show ?thesis by (simp add: below_opt_def)
  next
    case (Some i)
    with find_static(2) [OF f p(1)] have "i < arena_len a" by simp
    from insert_below_Inr(1) [OF L f this b] Move ty find_static(1) [OF f p(1)] b Some show ?thesis
      by (auto simp: below_opt_def)
  qed
qed (use b in simp_all)

lemma collect_rvalue_Inr:
  assumes L: "bitset_laws ops" and f: "forest a" and b: "bs_len ops b = arena_len a"
    and rv: "\<forall>p\<in>set (rvalue_places rv). static_place p \<and> local_index p < length locals"
  shows "\<exists>b'. collect_rvalue_move_operands ops ctx locals rv (a, b) = Inr (a, b') \<and> bs_len ops b' = arena_len a \<and>
    bits ops b' = bits ops b \<union> (\<Union>op\<in>set (rvalue_operands rv). operand_moved ctx locals a op)"
proof -
  have "\<exists>b'. pfold (collect_operand_move ops ctx locals) os (a, b) = Inr (a, b') \<and> bs_len ops b' = arena_len a \<and>
      bits ops b' = bits ops b \<union> (\<Union>op\<in>set os. operand_moved ctx locals a op)"
    if "set os \<subseteq> set (rvalue_operands rv)" "bs_len ops b = arena_len a" for os b
    using that
  proof (induction os arbitrary: b)
    case (Cons op os)
    then have "\<forall>p\<in>set (operand_places op). static_place p \<and> local_index p < length locals"
      using rv rvalue_operand_places [of op rv] by auto
    from collect_operand_Inr [OF L f Cons.prems(2) this] obtain b1 where
      b1: "collect_operand_move ops ctx locals op (a, b) = Inr (a, b1)" "bs_len ops b1 = arena_len a"
        "bits ops b1 = bits ops b \<union> operand_moved ctx locals a op" by blast
    from Cons.IH [OF _ b1(2)] Cons.prems(1) b1 show ?case by (auto simp: Un_assoc)
  qed simp
  from this [OF subset_refl b] show ?thesis by (simp add: collect_rvalue_move_operands_def)
qed

text \<open>What a block's effects say.\<close>

definition effects_say :: "'b BitSetOps \<Rightarrow> nat \<Rightarrow> 'b BlockEffects \<Rightarrow> nat set \<Rightarrow> nat set \<Rightarrow> nat set \<Rightarrow> bool" where
  "effects_say ops n be M I D \<longleftrightarrow>
     bits ops (be_moves be) = M \<and> bits ops (be_inits be) = I \<and> bits ops (be_deads be) = D \<and> bits ops (be_dead_inits be) = I \<and>
     bs_len ops (be_moves be) = n \<and> bs_len ops (be_inits be) = n \<and> bs_len ops (be_deads be) = n \<and> bs_len ops (be_dead_inits be) = n"

lemma record_inits_Inr:
  assumes L: "bitset_laws ops" and f: "forest a" and be: "effects_say ops (arena_len a) be M I D"
    and "\<And>i. found = Some i \<Longrightarrow> i < arena_len a"
  shows "\<exists>be'. record_inits ops a found be = Inr be' \<and> effects_say ops (arena_len a) be' M (I \<union> below_opt a found) D"
proof (cases found)
  case None
  with be show ?thesis by (simp add: record_inits_def below_opt_def)
next
  case (Some i)
  then have i: "i < arena_len a" by (rule assms(4))
  have l: "bs_len ops (be_inits be) = arena_len a" "bs_len ops (be_dead_inits be) = arena_len a"
    using be by (simp_all add: effects_say_def)
  from insert_below_Inr [OF L f i l(1)] insert_below_Inr [OF L f i l(2)] Some be show ?thesis
    by (auto simp: record_inits_def below_opt_def effects_say_def)
qed

lemma root_less: "forest a \<Longrightarrow> find_root l a = Some i \<Longrightarrow> i < arena_len a"
  using forest_root by blast

lemma collect_stmt_Inr:
  assumes L: "bitset_laws ops" and f: "forest a" and be: "effects_say ops (arena_len a) be M I D"
    and st: "static_stmt (length locals) k"
  shows "\<exists>be'. collect_stmt_move_effects ops ctx locals k (a, be) = Inr (a, be') \<and>
    effects_say ops (arena_len a) be' (M \<union> stmt_moved ctx locals a k) (I \<union> stmt_cleared a k) (D \<union> stmt_killed a k)"
proof (cases k)
  case (Assign d rv)
  then have d: "static_place d" and rv: "\<forall>p\<in>set (rvalue_places rv). static_place p \<and> local_index p < length locals"
    using st by simp_all
  have "i < arena_len a" if "path_of a d = Some i" for i using find_static(2) [OF f d that] by simp
  from record_inits_Inr [OF L f be this] obtain be1 where be1: "record_inits ops a (path_of a d) be = Inr be1"
    "effects_say ops (arena_len a) be1 M (I \<union> below_opt a (path_of a d)) D" by blast
  then have "bs_len ops (be_moves be1) = arena_len a" by (simp add: effects_say_def)
  from collect_rvalue_Inr [OF L f this rv, of ctx] obtain ms where
    "collect_rvalue_move_operands ops ctx locals rv (a, be_moves be1) = Inr (a, ms)" "bs_len ops ms = arena_len a"
    "bits ops ms = bits ops (be_moves be1) \<union> (\<Union>op\<in>set (rvalue_operands rv). operand_moved ctx locals a op)" by blast
  with be1 Assign find_static(1) [OF f d] show ?thesis by (auto simp: effects_say_def)
next
  case (StorageLive l)
  have "i < arena_len a" if "find_root l a = Some i" for i using root_less [OF f that] .
  from record_inits_Inr [OF L f be, of "find_root l a", OF this] StorageLive show ?thesis by auto
next
  case (StorageDead l)
  show ?thesis
  proof (cases "find_root l a")
    case None
    with StorageDead be show ?thesis by (simp add: below_opt_def)
  next
    case (Some i)
    have l: "bs_len ops (be_moves be) = arena_len a" "bs_len ops (be_deads be) = arena_len a"
      using be by (simp_all add: effects_say_def)
    from insert_below_Inr(1) [OF L f root_less [OF f Some] l(1)] insert_below_Inr(1) [OF L f root_less [OF f Some] l(2)]
      StorageDead Some be show ?thesis by (auto simp: below_opt_def effects_say_def)
  qed
next
  case Nop
  with be show ?thesis by simp
qed

definition block_moved :: "BorrowckCtx \<Rightarrow> LocalDecl IndexVec \<Rightarrow> MovePathArena \<Rightarrow> BasicBlockData \<Rightarrow> nat set" where
  "block_moved ctx locals a bb = (\<Union>st\<in>set (bb_statements bb). stmt_moved ctx locals a (st_kind st))"

definition block_cleared :: "MovePathArena \<Rightarrow> BasicBlockData \<Rightarrow> nat set" where
  "block_cleared a bb = (\<Union>st\<in>set (bb_statements bb). stmt_cleared a (st_kind st)) \<union>
     terminator_cleared a (te_kind (bb_terminator bb))"

definition block_killed :: "MovePathArena \<Rightarrow> BasicBlockData \<Rightarrow> nat set" where
  "block_killed a bb = (\<Union>st\<in>set (bb_statements bb). stmt_killed a (st_kind st))"

definition static_block :: "nat \<Rightarrow> BasicBlockData \<Rightarrow> bool" where
  "static_block n bb \<longleftrightarrow> (\<forall>st\<in>set (bb_statements bb). static_stmt n (st_kind st)) \<and>
     static_terminator (te_kind (bb_terminator bb))"

lemma collect_block_Inr:
  assumes L: "bitset_laws ops" and f: "forest a" and bb: "static_block (length locals) bb"
  shows "\<exists>be. collect_block_effects ops ctx locals (arena_len a) bb (a, bes) = Inr (a, bes @ [be]) \<and>
    effects_say ops (arena_len a) be (block_moved ctx locals a bb) (block_cleared a bb) (block_killed a bb)"
proof -
  have "\<exists>be'. pfold (\<lambda>st. collect_stmt_move_effects ops ctx locals (st_kind st)) sts (a, be) = Inr (a, be') \<and>
      effects_say ops (arena_len a) be' (M \<union> (\<Union>st\<in>set sts. stmt_moved ctx locals a (st_kind st)))
        (I \<union> (\<Union>st\<in>set sts. stmt_cleared a (st_kind st))) (D \<union> (\<Union>st\<in>set sts. stmt_killed a (st_kind st)))"
    if "\<forall>st\<in>set sts. static_stmt (length locals) (st_kind st)" "effects_say ops (arena_len a) be M I D" for sts be M I D
    using that
  proof (induction sts arbitrary: be M I D)
    case (Cons st sts)
    from collect_stmt_Inr [OF L f Cons.prems(2), of locals "st_kind st" ctx] Cons.prems(1) obtain be1 where
      be1: "collect_stmt_move_effects ops ctx locals (st_kind st) (a, be) = Inr (a, be1)"
      "effects_say ops (arena_len a) be1 (M \<union> stmt_moved ctx locals a (st_kind st)) (I \<union> stmt_cleared a (st_kind st))
        (D \<union> stmt_killed a (st_kind st))" by auto
    from Cons.IH [OF _ be1(2)] Cons.prems(1) be1(1) show ?case by (auto simp: Un_assoc)
  qed simp
  moreover have "effects_say ops (arena_len a) (no_effects ops (arena_len a)) {} {} {}"
    by (simp add: effects_say_def no_effects_def bits_simps [OF L])
  moreover have "\<forall>st\<in>set (bb_statements bb). static_stmt (length locals) (st_kind st)"
    using bb by (simp add: static_block_def)
  ultimately obtain be where be: "pfold (\<lambda>st. collect_stmt_move_effects ops ctx locals (st_kind st)) (bb_statements bb)
      (a, no_effects ops (arena_len a)) = Inr (a, be)"
    "effects_say ops (arena_len a) be (block_moved ctx locals a bb) (\<Union>st\<in>set (bb_statements bb). stmt_cleared a (st_kind st))
      (block_killed a bb)"
    unfolding block_moved_def block_killed_def by fastforce
  show ?thesis
  proof (cases "te_kind (bb_terminator bb)")
    case (Call func args d t c)
    then have d: "static_place d" using bb by (simp add: static_block_def)
    have "i < arena_len a" if "path_of a d = Some i" for i using find_static(2) [OF f d that] by simp
    from record_inits_Inr [OF L f be(2), of "path_of a d", OF this] be(1) Call find_static(1) [OF f d] show ?thesis
      by (auto simp: collect_block_effects_def block_cleared_def)
  qed (use be in \<open>simp_all add: collect_block_effects_def block_cleared_def\<close>)
qed

lemma collect_effects_Inr:
  assumes L: "bitset_laws ops" and f: "forest a" and bbs: "\<forall>bb\<in>set (b_blocks body). static_block (length (b_locals body)) bb"
  obtains bes where "collect_effects ops ctx body a = Inr (a, bes)"
    "list_all2 (\<lambda>bb be. effects_say ops (arena_len a) be (block_moved ctx (b_locals body) a bb) (block_cleared a bb)
      (block_killed a bb)) (b_blocks body) bes"
proof -
  let ?locals = "b_locals body"
  have "\<exists>bes'. pfold (collect_block_effects ops ctx ?locals (arena_len a)) bbs (a, bes) = Inr (a, bes @ bes') \<and>
      list_all2 (\<lambda>bb be. effects_say ops (arena_len a) be (block_moved ctx ?locals a bb) (block_cleared a bb)
        (block_killed a bb)) bbs bes'"
    if "\<forall>bb\<in>set bbs. static_block (length ?locals) bb" for bbs bes
    using that
  proof (induction bbs arbitrary: bes)
    case (Cons bb bbs)
    from collect_block_Inr [OF L f, of ?locals bb ctx bes] Cons.prems obtain be where
      "collect_block_effects ops ctx ?locals (arena_len a) bb (a, bes) = Inr (a, bes @ [be])"
      "effects_say ops (arena_len a) be (block_moved ctx ?locals a bb) (block_cleared a bb) (block_killed a bb)" by auto
    with Cons.IH [of "bes @ [be]"] Cons.prems show ?case by auto
  qed simp
  from this [OF bbs, of "[]"] show thesis using that by (auto simp: collect_effects_def)
qed

section \<open>The equations of the dataflow\<close>

text \<open>The parameters: bit sets, body, number of paths and effects of the blocks.\<close>

type_synonym 'b flow_params = "'b BitSetOps \<times> Body \<times> nat \<times> 'b BlockEffects list"

definition jumps_inside :: "Body \<Rightarrow> bool" where
  "jumps_inside body \<longleftrightarrow> (\<forall>bb\<in>set (b_blocks body). set (successors_of bb) \<subseteq> {..<length (b_blocks body)})"

definition mv_ok :: "'b flow_params \<Rightarrow> bool" where
  "mv_ok p = (case p of (ops, body, n, effects) \<Rightarrow>
     bitset_laws ops \<and> jumps_inside body \<and> length effects = length (b_blocks body) \<and>
     (\<forall>be\<in>set effects. \<exists>M I D. effects_say ops n be M I D))"

definition mv_recompute :: "'b flow_params \<Rightarrow> nat \<Rightarrow> 'b MoveState list \<Rightarrow> panicked + 'b MoveState" where
  "mv_recompute p bi ds = (case p of (ops, body, n, effects) \<Rightarrow>
     pbind (compute_predecessors body) (\<lambda>preds. move_recompute ops n effects preds bi ds))"

definition mv_readers :: "'b flow_params \<Rightarrow> nat \<Rightarrow> panicked + nat list" where
  "mv_readers p = readers_of (fst (snd p))"

definition mv_none :: "'b flow_params \<Rightarrow> 'b MoveState" where
  "mv_none p = no_moves (fst p) (fst (snd (snd p)))"

definition mv_wf :: "'b flow_params \<Rightarrow> 'b MoveState \<Rightarrow> bool" where
  "mv_wf p d = (case p of (ops, body, n, effects) \<Rightarrow>
     bs_len ops (ms_moved_in d) = n \<and> bs_len ops (ms_moved_out d) = n \<and>
     bs_len ops (ms_dead_in d) = n \<and> bs_len ops (ms_dead_out d) = n)"

datatype fact = MovedIn nat | MovedOut nat | DeadIn nat | DeadOut nat

definition mv_facts :: "'b flow_params \<Rightarrow> 'b MoveState \<Rightarrow> fact set" where
  "mv_facts p d = MovedIn ` bits (fst p) (ms_moved_in d) \<union> MovedOut ` bits (fst p) (ms_moved_out d) \<union>
     DeadIn ` bits (fst p) (ms_dead_in d) \<union> DeadOut ` bits (fst p) (ms_dead_out d)"

definition preds_into :: "Body \<Rightarrow> nat \<Rightarrow> nat set" where
  "preds_into body b = {a. a < length (b_blocks body) \<and> b \<in> set (successors_of (b_blocks body ! a))}"

definition in_moved :: "Body \<Rightarrow> nat \<Rightarrow> (nat \<Rightarrow> fact set) \<Rightarrow> nat set" where
  "in_moved body b X = {m. \<exists>a\<in>preds_into body b. MovedOut m \<in> X a}"

definition in_dead :: "Body \<Rightarrow> nat \<Rightarrow> (nat \<Rightarrow> fact set) \<Rightarrow> nat set" where
  "in_dead body b X = (if b \<noteq> 0 then {m. \<exists>a\<in>preds_into body b. DeadOut m \<in> X a} else {})"

definition mv_equation :: "'b flow_params \<Rightarrow> nat \<Rightarrow> (nat \<Rightarrow> fact set) \<Rightarrow> fact set" where
  "mv_equation p b X = (case p of (ops, body, n, effects) \<Rightarrow>
     MovedIn ` in_moved body b X \<union>
     MovedOut ` ((in_moved body b X \<union> bits ops (be_moves (effects ! b))) - bits ops (be_inits (effects ! b))) \<union>
     DeadIn ` in_dead body b X \<union>
     DeadOut ` ((in_dead body b X \<union> bits ops (be_deads (effects ! b))) - bits ops (be_dead_inits (effects ! b))))"

lemma mv_facts_mem [simp]:
  "MovedIn m \<in> mv_facts p d \<longleftrightarrow> m \<in> bits (fst p) (ms_moved_in d)"
  "MovedOut m \<in> mv_facts p d \<longleftrightarrow> m \<in> bits (fst p) (ms_moved_out d)"
  "DeadIn m \<in> mv_facts p d \<longleftrightarrow> m \<in> bits (fst p) (ms_dead_in d)"
  "DeadOut m \<in> mv_facts p d \<longleftrightarrow> m \<in> bits (fst p) (ms_dead_out d)"
  by (auto simp: mv_facts_def)

lemma set_eq_fact: "A = B \<longleftrightarrow> (\<forall>m. (MovedIn m \<in> A \<longleftrightarrow> MovedIn m \<in> B) \<and> (MovedOut m \<in> A \<longleftrightarrow> MovedOut m \<in> B) \<and>
    (DeadIn m \<in> A \<longleftrightarrow> DeadIn m \<in> B) \<and> (DeadOut m \<in> A \<longleftrightarrow> DeadOut m \<in> B))"
  by (metis fact.exhaust set_eqI)

lemma mv_facts_eq: "mv_facts p d = mv_facts p d' \<longleftrightarrow>
    bits (fst p) (ms_moved_in d) = bits (fst p) (ms_moved_in d') \<and>
    bits (fst p) (ms_moved_out d) = bits (fst p) (ms_moved_out d') \<and>
    bits (fst p) (ms_dead_in d) = bits (fst p) (ms_dead_in d') \<and>
    bits (fst p) (ms_dead_out d) = bits (fst p) (ms_dead_out d')"
  by (auto simp: set_eq_fact [of "mv_facts p d"])

lemma predecessors_Inr:
  assumes "jumps_inside body"
  obtains preds where "compute_predecessors body = Inr preds" "length preds = length (b_blocks body)"
    "\<And>b. b < length (b_blocks body) \<Longrightarrow> set (preds ! b) = preds_into body b"
proof -
  let ?e = "replicate (length (b_blocks body)) ([] :: nat list)"
  have "\<exists>preds'. pfold (\<lambda>(i, bb). pfold (push_pred i) (successors_of bb)) (enumerate 0 (b_blocks body)) ?e = Inr preds' \<and>
    length preds' = length ?e \<and>
    (\<forall>b<length ?e. set (preds' ! b) =
       set (?e ! b) \<union> {0 + j |j. j < length (b_blocks body) \<and> b \<in> set (successors_of (b_blocks body ! j))})"
    using assms by (intro all_preds_Inr) (simp add: jumps_inside_def)
  then show thesis using that by (auto simp: compute_predecessors_def preds_into_def)
qed

lemma union_preds_Inr:
  assumes L: "bitset_laws ops" and "set ps \<subseteq> {..<length ds}"
    and "\<And>d. d \<in> set ds \<Longrightarrow> bs_len ops (out d) = n" and "bs_len ops acc = n"
  shows "\<exists>b. union_preds ops out ds ps acc = Inr b \<and> bs_len ops b = n \<and>
    bits ops b = bits ops acc \<union> {m. \<exists>a\<in>set ps. m \<in> bits ops (out (ds ! a))}"
  unfolding union_preds_def using assms(2,4)
proof (induction ps arbitrary: acc)
  case (Cons a ps)
  then have a: "a < length ds" by simp
  have "bs_len ops (bs_union_with ops acc (out (ds ! a))) = n"
    using a Cons.prems(2) assms(3) [OF nth_mem [OF a]] by (simp add: bits_simps [OF L])
  from Cons.IH [OF _ this] Cons.prems(1) a show ?case by (auto simp: bits_simps [OF L])
qed simp

lemma mv_recompute_Inr:
  assumes p: "mv_ok p" and b: "b < length (b_blocks (fst (snd p)))"
    and ds: "length ds = length (b_blocks (fst (snd p)))" "\<forall>d\<in>set ds. mv_wf p d"
  shows "\<exists>d. mv_recompute p b ds = Inr d \<and> mv_wf p d \<and>
    mv_facts p d = mv_equation p b (\<lambda>j. if j < length (b_blocks (fst (snd p))) then mv_facts p (ds ! j) else {})"
proof -
  obtain ops body n effects where po: "p = (ops, body, n, effects)" by (cases p)
  have L: "bitset_laws ops" and J: "jumps_inside body" and le: "length effects = length (b_blocks body)"
    and es: "\<forall>be\<in>set effects. \<exists>M I D. effects_say ops n be M I D" using p po by (simp_all add: mv_ok_def)
  let ?be = "effects ! b" and ?none = "bs_with_capacity ops n"
  have bN: "b < length (b_blocks body)" using b po by simp
  then have "?be \<in> set effects" using le by simp
  with es obtain M I D where be: "effects_say ops n ?be M I D" by blast
  from predecessors_Inr [OF J] obtain preds where pr: "compute_predecessors body = Inr preds"
    "length preds = length (b_blocks body)" "set (preds ! b) = preds_into body b" using bN by metis
  have ps: "set (preds ! b) \<subseteq> {..<length ds}" using pr(3) ds(1) po by (auto simp: preds_into_def)
  have wf: "bs_len ops (ms_moved_out d) = n" "bs_len ops (ms_dead_out d) = n" if "d \<in> set ds" for d
    using ds(2) that po by (simp_all add: mv_wf_def)
  have none: "bs_len ops ?none = n" "bits ops ?none = {}" by (simp_all add: bits_simps [OF L])
  let ?X = "\<lambda>j. if j < length (b_blocks body) then mv_facts p (ds ! j) else {}"
  have min: "{m. \<exists>a\<in>set (preds ! b). m \<in> bits ops (ms_moved_out (ds ! a))} = in_moved body b ?X"
    using pr(3) po by (auto simp: in_moved_def preds_into_def)
  have din: "b \<noteq> 0 \<Longrightarrow> {m. \<exists>a\<in>set (preds ! b). m \<in> bits ops (ms_dead_out (ds ! a))} = in_dead body b ?X"
    using pr(3) po by (auto simp: in_dead_def preds_into_def)
  from union_preds_Inr [where out = ms_moved_out, OF L ps wf(1) none(1)] min none(2) obtain mi where
    mi: "union_preds ops ms_moved_out ds (preds ! b) ?none = Inr mi" "bs_len ops mi = n" "bits ops mi = in_moved body b ?X"
    by auto
  have "\<exists>di. (if b \<noteq> 0 then union_preds ops ms_dead_out ds (preds ! b) ?none else Inr ?none) = Inr di \<and>
      bs_len ops di = n \<and> bits ops di = in_dead body b ?X"
  proof (cases "b = 0")
    case True
    then show ?thesis using none by (simp add: in_dead_def)
  next
    case False
    with union_preds_Inr [where out = ms_dead_out, OF L ps wf(2) none(1)] din none(2) show ?thesis by auto
  qed
  then obtain di where di: "(if b \<noteq> 0 then union_preds ops ms_dead_out ds (preds ! b) ?none else Inr ?none) = Inr di"
    "bs_len ops di = n" "bits ops di = in_dead body b ?X" by blast
  let ?d = "\<lparr>ms_moved_in = mi, ms_moved_out = bs_difference_with ops (bs_union_with ops mi (be_moves ?be)) (be_inits ?be),
    ms_dead_in = di, ms_dead_out = bs_difference_with ops (bs_union_with ops di (be_deads ?be)) (be_dead_inits ?be)\<rparr>"
  have "mv_recompute p b ds = Inr ?d"
    using pr(1,2) bN le mi(1) di(1) po by (simp add: mv_recompute_def move_recompute_def)
  moreover have "mv_wf p ?d"
    using mi(2) di(2) be po by (simp add: mv_wf_def bits_simps [OF L] effects_say_def)
  moreover have "mv_facts p ?d = mv_equation p b ?X"
    using mi(3) di(3) po by (simp add: mv_facts_def mv_equation_def bits_simps [OF L])
  ultimately show ?thesis using po by auto
qed

lemma mv_readers_Inr:
  assumes p: "mv_ok p" and b: "b < length (b_blocks (fst (snd p)))"
  shows "\<exists>rs. mv_readers p b = Inr rs \<and> set rs \<subseteq> {..<length (b_blocks (fst (snd p)))} \<and>
    (\<forall>j X Y. j < length (b_blocks (fst (snd p))) \<longrightarrow> j \<notin> set rs \<longrightarrow> (\<forall>k. k \<noteq> b \<longrightarrow> X k = Y k) \<longrightarrow>
      mv_equation p j X = mv_equation p j Y)"
proof -
  obtain ops body n effects where po: "p = (ops, body, n, effects)" by (cases p)
  let ?rs = "successors_of (b_blocks body ! b)"
  have bb: "b_blocks body ! b \<in> set (b_blocks body)" using b po by simp
  have J: "jumps_inside body" using p po by (simp add: mv_ok_def)
  have "mv_equation p j X = mv_equation p j Y" if "j \<notin> set ?rs" "\<forall>k. k \<noteq> b \<longrightarrow> X k = Y k" for j X Y
  proof -
    have "b \<notin> preds_into body j" using that(1) by (simp add: preds_into_def)
    then have "X a = Y a" if "a \<in> preds_into body j" for a
      using that \<open>\<forall>k. k \<noteq> b \<longrightarrow> X k = Y k\<close> by metis
    then have "in_moved body j X = in_moved body j Y" "in_dead body j X = in_dead body j Y"
      by (simp_all add: in_moved_def in_dead_def)
    then show ?thesis using po by (simp add: mv_equation_def)
  qed
  moreover have "set ?rs \<subseteq> {..<length (b_blocks body)}" using J bb by (auto simp: jumps_inside_def)
  ultimately show ?thesis using b po by (simp add: mv_readers_def readers_of_def)
qed

definition mv_universe :: "'b flow_params \<Rightarrow> fact set" where
  "mv_universe p = (let n = fst (snd (snd p)) in
     MovedIn ` {..<n} \<union> MovedOut ` {..<n} \<union> DeadIn ` {..<n} \<union> DeadOut ` {..<n})"

interpretation moves: worklist mv_ok fst "\<lambda>p. length (b_blocks (fst (snd p)))" mv_recompute
    "\<lambda>p. moves_differ (fst p)" mv_readers mv_none mv_wf mv_facts mv_universe mv_equation
proof (unfold_locales, goal_cases)
  case (1 p) then show ?case by (auto simp: mv_ok_def)
next
  case (2 p) then show ?case by (auto simp: mv_ok_def mv_wf_def mv_none_def no_moves_def bits_simps)
next
  case (3 p) then show ?case by (auto simp: mv_ok_def mv_facts_def mv_none_def no_moves_def bits_simps)
next
  case (4 p i ds) then show ?case by (rule mv_recompute_Inr)
next
  case (5 p d d')
  then have "bitset_laws (fst p)" by (auto simp: mv_ok_def)
  with 5 show ?case by (auto simp: moves_differ_def mv_facts_eq mv_wf_def bs_eq_bits)
next
  case (6 p) show ?case by (simp add: mv_universe_def Let_def)
next
  case (7 p d)
  then have "bitset_laws (fst p)" by (auto simp: mv_ok_def)
  then have "x < bs_len (fst p) b" if "x \<in> bits (fst p) b" for x b using that by (rule bits_less)
  with 7(2) show ?case by (cases p) (fastforce simp: mv_facts_def mv_wf_def mv_universe_def Let_def)
next
  case (8 X Y p i)
  then have m: "in_moved (fst (snd p)) i X \<subseteq> in_moved (fst (snd p)) i Y" "in_dead (fst (snd p)) i X \<subseteq> in_dead (fst (snd p)) i Y"
    by (auto simp: in_moved_def in_dead_def)
  obtain ops body n effects where po: "p = (ops, body, n, effects)" by (cases p)
  show ?case unfolding mv_equation_def po prod.case
    using m [unfolded po fst_conv snd_conv] by (intro Un_mono image_mono Diff_mono subset_refl)
next
  case (9 p i) then show ?case by (rule mv_readers_Inr)
qed

section \<open>The exact solution\<close>

text \<open>\<open>flows P G K b m\<close>: \<open>m\<close> is generated in some block and reaches the end of \<open>b\<close> without being killed.\<close>

inductive flows :: "(nat \<Rightarrow> nat set) \<Rightarrow> (nat \<Rightarrow> nat set) \<Rightarrow> (nat \<Rightarrow> nat set) \<Rightarrow> nat \<Rightarrow> nat \<Rightarrow> bool" for P G K where
  here: "m \<in> G b \<Longrightarrow> m \<notin> K b \<Longrightarrow> flows P G K b m"
| pass: "flows P G K a m \<Longrightarrow> a \<in> P b \<Longrightarrow> m \<notin> K b \<Longrightarrow> flows P G K b m"

definition flows_in :: "(nat \<Rightarrow> nat set) \<Rightarrow> (nat \<Rightarrow> nat set) \<Rightarrow> (nat \<Rightarrow> nat set) \<Rightarrow> nat \<Rightarrow> nat set" where
  "flows_in P G K b = {m. \<exists>a\<in>P b. flows P G K a m}"

definition dead_preds :: "Body \<Rightarrow> nat \<Rightarrow> nat set" where
  "dead_preds body b = (if b \<noteq> 0 then preds_into body b else {})"

lemma in_dead_preds: "in_dead body b X = {m. \<exists>a\<in>dead_preds body b. DeadOut m \<in> X a}"
  by (simp add: in_dead_def dead_preds_def)

definition mv_solution ::
    "Body \<Rightarrow> (nat \<Rightarrow> nat set) \<Rightarrow> (nat \<Rightarrow> nat set) \<Rightarrow> (nat \<Rightarrow> nat set) \<Rightarrow> nat \<Rightarrow> fact set" where
  "mv_solution body M I D b =
     MovedIn ` flows_in (preds_into body) M I b \<union> MovedOut ` {m. flows (preds_into body) M I b m} \<union>
     DeadIn ` flows_in (dead_preds body) D I b \<union> DeadOut ` {m. flows (dead_preds body) D I b m}"

lemma mv_solution_mem [simp]:
  "MovedIn m \<in> mv_solution body M I D b \<longleftrightarrow> m \<in> flows_in (preds_into body) M I b"
  "MovedOut m \<in> mv_solution body M I D b \<longleftrightarrow> flows (preds_into body) M I b m"
  "DeadIn m \<in> mv_solution body M I D b \<longleftrightarrow> m \<in> flows_in (dead_preds body) D I b"
  "DeadOut m \<in> mv_solution body M I D b \<longleftrightarrow> flows (dead_preds body) D I b m"
  by (auto simp: mv_solution_def)

definition effects_are ::
    "'b flow_params \<Rightarrow> (nat \<Rightarrow> nat set) \<Rightarrow> (nat \<Rightarrow> nat set) \<Rightarrow> (nat \<Rightarrow> nat set) \<Rightarrow> bool" where
  "effects_are p M I D \<longleftrightarrow> (case p of (ops, body, n, effects) \<Rightarrow>
     \<forall>b<length (b_blocks body). effects_say ops n (effects ! b) (M b) (I b) (D b))"

lemma mv_equation_effects:
  assumes "effects_are (ops, body, n, effects) M I D" and "b < length (b_blocks body)"
  shows "mv_equation (ops, body, n, effects) b X =
     MovedIn ` in_moved body b X \<union> MovedOut ` ((in_moved body b X \<union> M b) - I b) \<union>
     DeadIn ` in_dead body b X \<union> DeadOut ` ((in_dead body b X \<union> D b) - I b)"
  using assms by (simp add: mv_equation_def effects_are_def effects_say_def)

lemma mv_solution_solves:
  assumes "effects_are (ops, body, n, effects) M I D"
  shows "moves.solves (ops, body, n, effects) (mv_solution body M I D)"
  unfolding moves.solves_def fst_conv snd_conv
proof (intro allI impI)
  fix b assume b: "b < length (b_blocks body)"
  have "in_moved body b (mv_solution body M I D) = flows_in (preds_into body) M I b"
    by (simp add: in_moved_def flows_in_def)
  moreover have "in_dead body b (mv_solution body M I D) = flows_in (dead_preds body) D I b"
    by (simp add: in_dead_preds flows_in_def)
  moreover have "flows_in P G K b \<union> G b - K b \<subseteq> {m. flows P G K b m}" for P G K
    by (auto simp: flows_in_def intro: flows.intros)
  ultimately show "mv_equation (ops, body, n, effects) b (mv_solution body M I D) \<subseteq> mv_solution body M I D b"
    unfolding mv_equation_effects [OF assms b] mv_solution_def
    by (intro Un_mono image_mono) simp_all
qed

lemma mv_solution_least:
  assumes e: "effects_are (ops, body, n, effects) M I D"
    and sol: "\<And>b. b < length (b_blocks body) \<Longrightarrow> mv_equation (ops, body, n, effects) b X \<subseteq> X b"
    and b: "b < length (b_blocks body)"
  shows "mv_solution body M I D b \<subseteq> X b"
proof -
  have P: "a < length (b_blocks body)" if "a \<in> preds_into body b \<or> a \<in> dead_preds body b" for a b
    using that by (auto simp: preds_into_def dead_preds_def split: if_splits)
  have m: "MovedOut m \<in> X b" if "flows (preds_into body) M I b m" "b < length (b_blocks body)" for b m
    using that
  proof (induction rule: flows.induct)
    case (here m b)
    then show ?case using sol [of b] by (auto simp: mv_equation_effects [OF e])
  next
    case (pass a m b)
    then have "m \<in> in_moved body b X" using P by (auto simp: in_moved_def)
    with pass show ?case using sol [of b] by (auto simp: mv_equation_effects [OF e])
  qed
  have d: "DeadOut m \<in> X b" if "flows (dead_preds body) D I b m" "b < length (b_blocks body)" for b m
    using that
  proof (induction rule: flows.induct)
    case (here m b)
    then show ?case using sol [of b] by (auto simp: mv_equation_effects [OF e])
  next
    case (pass a m b)
    then have "m \<in> in_dead body b X" using P by (auto simp: in_dead_preds)
    with pass show ?case using sol [of b] by (auto simp: mv_equation_effects [OF e])
  qed
  have "flows_in (preds_into body) M I b \<subseteq> in_moved body b X"
    unfolding flows_in_def in_moved_def using m P by blast
  moreover have "flows_in (dead_preds body) D I b \<subseteq> in_dead body b X"
    unfolding flows_in_def in_dead_preds using d P by blast
  moreover have "MovedIn ` in_moved body b X \<subseteq> X b" "DeadIn ` in_dead body b X \<subseteq> X b"
    using sol [OF b] by (simp_all add: mv_equation_effects [OF e b])
  ultimately have "MovedIn ` flows_in (preds_into body) M I b \<subseteq> X b" "DeadIn ` flows_in (dead_preds body) D I b \<subseteq> X b"
    by blast+
  then show ?thesis using m d b by (auto simp: mv_solution_def)
qed

text \<open>The blocks of a body, their effects on the paths of the arena as functions of the block.\<close>

definition moved_by :: "BorrowckCtx \<Rightarrow> Body \<Rightarrow> MovePathArena \<Rightarrow> nat \<Rightarrow> nat set" where
  "moved_by ctx body a b = block_moved ctx (b_locals body) a (b_blocks body ! b)"

definition cleared_by :: "Body \<Rightarrow> MovePathArena \<Rightarrow> nat \<Rightarrow> nat set" where
  "cleared_by body a b = block_cleared a (b_blocks body ! b)"

definition killed_by :: "Body \<Rightarrow> MovePathArena \<Rightarrow> nat \<Rightarrow> nat set" where
  "killed_by body a b = block_killed a (b_blocks body ! b)"

definition static_body :: "Body \<Rightarrow> bool" where
  "static_body body \<longleftrightarrow> jumps_inside body \<and> length (b_locals body) \<le> 2 ^ 32 \<and>
     (\<forall>bb\<in>set (b_blocks body). static_block (length (b_locals body)) bb)"

definition moved_into :: "BorrowckCtx \<Rightarrow> Body \<Rightarrow> MovePathArena \<Rightarrow> nat \<Rightarrow> nat set" where
  "moved_into ctx body a = flows_in (preds_into body) (moved_by ctx body a) (cleared_by body a)"

definition dead_into :: "Body \<Rightarrow> MovePathArena \<Rightarrow> nat \<Rightarrow> nat set" where
  "dead_into body a = flows_in (dead_preds body) (killed_by body a) (cleared_by body a)"

lemma compute_move_dataflow_Inr:
  assumes L: "bitset_laws ops" and f: "forest a" and body: "static_body body"
  obtains ds where "compute_move_dataflow ops ctx body a = Some (Inr (ds, a))" "length ds = length (b_blocks body)"
    "\<And>b. b < length (b_blocks body) \<Longrightarrow>
      bs_len ops (ms_moved_in (ds ! b)) = arena_len a \<and> bs_len ops (ms_dead_in (ds ! b)) = arena_len a \<and>
      bits ops (ms_moved_in (ds ! b)) = moved_into ctx body a b \<and> bits ops (ms_dead_in (ds ! b)) = dead_into body a b"
proof -
  let ?n = "length (b_blocks body)" and ?np = "arena_len a"
  let ?M = "moved_by ctx body a" and ?I = "cleared_by body a" and ?D = "killed_by body a"
  have J: "jumps_inside body" and sb: "\<forall>bb\<in>set (b_blocks body). static_block (length (b_locals body)) bb"
    using body by (simp_all add: static_body_def)
  from collect_effects_Inr [OF L f sb, of ctx] obtain bes where
    bes: "collect_effects ops ctx body a = Inr (a, bes)"
      "list_all2 (\<lambda>bb be. effects_say ops ?np be (block_moved ctx (b_locals body) a bb) (block_cleared a bb)
        (block_killed a bb)) (b_blocks body) bes" .
  let ?p = "(ops, body, ?np, bes)"
  have e: "effects_are ?p ?M ?I ?D"
    using bes(2) by (simp add: effects_are_def list_all2_conv_all_nth moved_by_def cleared_by_def killed_by_def)
  have p: "mv_ok ?p"
    using L J bes(2) by (fastforce simp: mv_ok_def list_all2_conv_all_nth in_set_conv_nth)
  from moves.analysis [OF p, unfolded fst_conv snd_conv] obtain fl0 fl where
    fl: "flow_start ops ?n (mv_none ?p) = Inr fl0"
      "pop_loop (worklist_step ops (mv_recompute ?p) (moves_differ ops) (mv_readers ?p)) fl0 = Some (Inr fl)"
      "length (fl_data fl) = ?n" "\<forall>d\<in>set (fl_data fl). mv_wf ?p d"
      "\<forall>j<?n. moves.entry ?p (fl_data fl) j = mv_equation ?p j (moves.entry ?p (fl_data fl))"
      "\<forall>X. moves.solves ?p X \<longrightarrow> (\<forall>j<?n. moves.entry ?p (fl_data fl) j \<subseteq> X j)" .
  have facts: "mv_facts ?p (fl_data fl ! b) = mv_solution body ?M ?I ?D b" if b: "b < ?n" for b
  proof -
    have "moves.entry ?p (fl_data fl) b = mv_facts ?p (fl_data fl ! b)"
      unfolding moves.entry_def using b by simp
    moreover have "moves.entry ?p (fl_data fl) b \<subseteq> mv_solution body ?M ?I ?D b"
      using fl(6) mv_solution_solves [OF e] b by blast
    moreover have "mv_solution body ?M ?I ?D b \<subseteq> moves.entry ?p (fl_data fl) b"
      by (rule mv_solution_least [OF e _ b]) (use fl(5) in blast)
    ultimately show ?thesis by simp
  qed
  obtain preds where pr: "compute_predecessors body = Inr preds" by (rule predecessors_Inr [OF J])
  have "mv_recompute ?p = move_recompute ops ?np bes preds" "mv_readers ?p = readers_of body"
    by (simp_all add: fun_eq_iff mv_recompute_def mv_readers_def pr)
  with fl(2) have "pop_loop (worklist_step ops (move_recompute ops ?np bes preds) (moves_differ ops)
      (readers_of body)) fl0 = Some (Inr fl)" by simp
  moreover have "flow_start ops ?n (no_moves ops ?np) = Inr fl0" using fl(1) by (simp add: mv_none_def)
  ultimately have "compute_move_dataflow ops ctx body a = Some (Inr (fl_data fl, a))"
    using bes(1) pr by (simp add: compute_move_dataflow_def Let_def)
  then show thesis
  proof (rule that [OF _ fl(3)])
    fix b assume b: "b < ?n"
    then have "mv_wf ?p (fl_data fl ! b)" using fl(3,4) by simp
    moreover have "MovedIn m \<in> mv_facts ?p (fl_data fl ! b) \<longleftrightarrow> m \<in> moved_into ctx body a b"
      "DeadIn m \<in> mv_facts ?p (fl_data fl ! b) \<longleftrightarrow> m \<in> dead_into body a b" for m
      by (simp_all only: facts [OF b] mv_solution_mem moved_into_def dead_into_def)
    ultimately show "bs_len ops (ms_moved_in (fl_data fl ! b)) = arena_len a \<and> bs_len ops (ms_dead_in (fl_data fl ! b)) = arena_len a \<and>
      bits ops (ms_moved_in (fl_data fl ! b)) = moved_into ctx body a b \<and> bits ops (ms_dead_in (fl_data fl ! b)) = dead_into body a b"
      by (auto simp: mv_wf_def)
  qed
qed

end
