(* ===== verification/Borrowck_Moves_Theorems.thy ===== *)
theory Borrowck_Moves_Theorems
  imports Borrowck_Moves_Flow
begin

text \<open>
  The move errors: on bodies that need no new paths they are exactly the uses of places moved or
  dead in front of their statement (\<open>move_errors_exact\<close>).  Within a block a second use is always
  rejected; across blocks a move behind an assignment of the same local is forgotten.
\<close>

section \<open>The scan of a block\<close>

fun stmt_after :: "BorrowckCtx \<Rightarrow> LocalDecl IndexVec \<Rightarrow> MovePathArena \<Rightarrow> StatementKind \<Rightarrow> nat set \<times> nat set \<Rightarrow>
    nat set \<times> nat set" where
  "stmt_after ctx locals a k (M, D) =
     ((M - stmt_cleared a k) \<union> stmt_moved ctx locals a k, (D - stmt_cleared a k) \<union> stmt_killed a k)"

definition state_at :: "BorrowckCtx \<Rightarrow> Body \<Rightarrow> MovePathArena \<Rightarrow> nat \<Rightarrow> nat \<Rightarrow> nat set \<times> nat set" where
  "state_at ctx body a b i =
     fold (\<lambda>st. stmt_after ctx (b_locals body) a (st_kind st)) (take i (bb_statements (b_blocks body ! b)))
       (moved_into ctx body a b, dead_into body a b)"

definition pair_says :: "'b BitSetOps \<Rightarrow> nat \<Rightarrow> 'b \<times> 'b \<Rightarrow> nat set \<times> nat set \<Rightarrow> bool" where
  "pair_says ops n md MD \<longleftrightarrow> bs_len ops (fst md) = n \<and> bs_len ops (snd md) = n \<and>
     bits ops (fst md) = fst MD \<and> bits ops (snd md) = snd MD"

lemma clear_path_Inr:
  assumes L: "bitset_laws ops" and f: "forest a" and md: "pair_says ops (arena_len a) md (M, D)"
    and i: "\<And>i. found = Some i \<Longrightarrow> i < arena_len a"
  shows "\<exists>md'. clear_path ops a found md = Inr md' \<and>
    pair_says ops (arena_len a) md' (M - below_opt a found, D - below_opt a found)"
proof (cases found)
  case None
  with md show ?thesis by (simp add: clear_path_def below_opt_def)
next
  case (Some r)
  let ?f = "\<lambda>j (m, d). pbind (bit_remove ops j m) (\<lambda>m'. pbind (bit_remove ops j d) (\<lambda>d'. Inr (m', d')))"
  have "\<exists>md'. pfold ?f js md = Inr md' \<and> pair_says ops (arena_len a) md' (M - set js, D - set js)"
    if "set js \<subseteq> {..<arena_len a}" "pair_says ops (arena_len a) md (M, D)" for js md M D
    using that
  proof (induction js arbitrary: md M D)
    case (Cons j js)
    obtain m d where md: "md = (m, d)" by (cases md)
    have j: "j < bs_len ops m" "j < bs_len ops d" using Cons.prems md by (auto simp: pair_says_def)
    from L j(1) obtain m' where m': "bit_remove ops j m = Inr m'" "bs_len ops m' = bs_len ops m" "bits ops m' = bits ops m - {j}"
      by (rule bit_removeE)
    from L j(2) obtain d' where d': "bit_remove ops j d = Inr d'" "bs_len ops d' = bs_len ops d" "bits ops d' = bits ops d - {j}"
      by (rule bit_removeE)
    have "pair_says ops (arena_len a) (m', d') (M - {j}, D - {j})"
      using m' d' Cons.prems(2) md by (simp add: pair_says_def)
    from Cons.IH [OF _ this] Cons.prems(1) m'(1) d'(1) md show ?case by (auto simp: Diff_insert2 [symmetric])
  qed simp
  from this [OF _ md, of "r # path_children a r"] below_less [OF f i [OF Some]] i [OF Some] Some show ?thesis
    by (auto simp: clear_path_def below_opt_def below_def)
qed

lemma apply_stmt_Inr:
  assumes L: "bitset_laws ops" and f: "forest a" and md: "pair_says ops (arena_len a) md MD"
    and st: "static_stmt (length locals) k"
  shows "\<exists>md'. apply_stmt_move_effects ops ctx locals k (a, md) = Inr (a, md') \<and>
    pair_says ops (arena_len a) md' (stmt_after ctx locals a k MD)"
proof -
  obtain M D where MD: "MD = (M, D)" by (cases MD)
  note md = md [unfolded MD]
  show ?thesis
  proof (cases k)
    case (Assign d rv)
    then have d: "static_place d" and rv: "\<forall>p\<in>set (rvalue_places rv). static_place p \<and> local_index p < length locals"
      using st by simp_all
    have "i < arena_len a" if "path_of a d = Some i" for i using find_static(2) [OF f d that] by simp
    from clear_path_Inr [OF L f md, of "path_of a d", OF this] obtain m1 d1 where
      c: "clear_path ops a (path_of a d) md = Inr (m1, d1)"
        "pair_says ops (arena_len a) (m1, d1) (M - below_opt a (path_of a d), D - below_opt a (path_of a d))" by auto
    then have "bs_len ops m1 = arena_len a" by (simp add: pair_says_def)
    from collect_rvalue_Inr [OF L f this rv, of ctx] obtain ms where
      "collect_rvalue_move_operands ops ctx locals rv (a, m1) = Inr (a, ms)" "bs_len ops ms = arena_len a"
      "bits ops ms = bits ops m1 \<union> (\<Union>op\<in>set (rvalue_operands rv). operand_moved ctx locals a op)" by blast
    with c Assign find_static(1) [OF f d] show ?thesis by (auto simp: pair_says_def MD)
  next
    case (StorageLive l)
    have "i < arena_len a" if "find_root l a = Some i" for i using root_less [OF f that] .
    from clear_path_Inr [OF L f md, of "find_root l a", OF this] StorageLive show ?thesis by (auto simp: MD)
  next
    case (StorageDead l)
    obtain m d where mdp: "md = (m, d)" by (cases md)
    have l: "bs_len ops m = arena_len a" "bs_len ops d = arena_len a" using md mdp by (simp_all add: pair_says_def)
    show ?thesis
    proof (cases "find_root l a")
      case None
      with StorageDead md mdp show ?thesis by (simp add: below_opt_def MD)
    next
      case (Some i)
      from insert_below_Inr(1) [OF L f root_less [OF f Some] l(1)] insert_below_Inr(1) [OF L f root_less [OF f Some] l(2)]
        StorageDead Some md mdp show ?thesis by (auto simp: below_opt_def pair_says_def MD)
    qed
  next
    case Nop
    with md show ?thesis by (cases md) (simp add: MD)
  qed
qed

lemma scan_moves_Inr:
  assumes L: "bitset_laws ops" and f: "forest a" and "pair_says ops (arena_len a) md MD"
    and "\<forall>st\<in>set sts. static_stmt (length locals) (st_kind st)"
  shows "\<exists>mds. scan_moves ops ctx locals sts (a, md) = Inr (mds, a) \<and> length mds = Suc (length sts) \<and>
    (\<forall>i\<le>length sts. pair_says ops (arena_len a) (mds ! i)
       (fold (\<lambda>st. stmt_after ctx locals a (st_kind st)) (take i sts) MD))"
  using assms(3,4)
proof (induction sts arbitrary: md MD)
  case (Cons st sts)
  from apply_stmt_Inr [OF L f Cons.prems(1), of locals "st_kind st" ctx] Cons.prems(2) obtain md' where
    md': "apply_stmt_move_effects ops ctx locals (st_kind st) (a, md) = Inr (a, md')"
      "pair_says ops (arena_len a) md' (stmt_after ctx locals a (st_kind st) MD)" by auto
  from Cons.IH [OF md'(2)] Cons.prems(2) obtain mds where
    mds: "scan_moves ops ctx locals sts (a, md') = Inr (mds, a)" "length mds = Suc (length sts)"
      "\<forall>i\<le>length sts. pair_says ops (arena_len a) (mds ! i)
        (fold (\<lambda>st. stmt_after ctx locals a (st_kind st)) (take i sts) (stmt_after ctx locals a (st_kind st) MD))" by auto
  have "pair_says ops (arena_len a) ((md # mds) ! i)
      (fold (\<lambda>st. stmt_after ctx locals a (st_kind st)) (take i (st # sts)) MD)" if "i \<le> length (st # sts)" for i
    using that mds(3) Cons.prems(1) by (cases i) simp_all
  with md'(1) mds(1,2) show ?case by auto
qed simp

section \<open>The uses\<close>

text \<open>\<open>hits a S p\<close>: using \<open>p\<close> uses a path of \<open>S\<close> (for a bare local, one of its fields suffices).\<close>

definition hits :: "MovePathArena \<Rightarrow> nat set \<Rightarrow> Place \<Rightarrow> bool" where
  "hits a S p \<longleftrightarrow>
     (if pl_projection p = [] then below_opt a (find_root (pl_local p) a) \<inter> S \<noteq> {}
      else (\<exists>i. path_of a p = Some i \<and> i \<in> S))"

fun copied :: "BorrowckCtx \<Rightarrow> LocalDecl IndexVec \<Rightarrow> UsedPlace \<Rightarrow> bool" where
  "copied ctx locals (UsedOperand p) \<longleftrightarrow>
     (case place_ty (bc_ty_ctx ctx) p locals of Inr ty \<Rightarrow> bc_is_copy ctx ty | Inl _ \<Rightarrow> False)"
| "copied ctx locals _ \<longleftrightarrow> False"

text \<open>A use of what is dead, or, unless it copies, of what is moved.\<close>

definition bad_use :: "BorrowckCtx \<Rightarrow> LocalDecl IndexVec \<Rightarrow> MovePathArena \<Rightarrow> nat set \<times> nat set \<Rightarrow> UsedPlace \<Rightarrow> bool" where
  "bad_use ctx locals a MD u \<longleftrightarrow>
     hits a (snd MD) (used_place u) \<or> \<not> copied ctx locals u \<and> hits a (fst MD) (used_place u)"

lemma path_or_child:
  assumes "forest a"
  shows "child_in ops b p a = Inr (pl_projection p = [] \<and>
      (\<exists>r. find_root (pl_local p) a = Some r \<and> set (path_children a r) \<inter> bits ops b \<noteq> {}))"
    and "hits a (bits ops b) p \<longleftrightarrow> path_in ops b (path_of a p) \<or> pl_projection p = [] \<and>
      (\<exists>r. find_root (pl_local p) a = Some r \<and> set (path_children a r) \<inter> bits ops b \<noteq> {})"
proof -
  show "child_in ops b p a = Inr (pl_projection p = [] \<and>
      (\<exists>r. find_root (pl_local p) a = Some r \<and> set (path_children a r) \<inter> bits ops b \<noteq> {}))"
    using root_less [OF assms] by (auto simp: child_in_def bs_contains_bits split: option.split)
  show "hits a (bits ops b) p \<longleftrightarrow> path_in ops b (path_of a p) \<or> pl_projection p = [] \<and>
      (\<exists>r. find_root (pl_local p) a = Some r \<and> set (path_children a r) \<inter> bits ops b \<noteq> {})"
    by (auto simp: hits_def path_in_def path_of_bare below_opt_def below_def bs_contains_bits split: option.splits)
qed

lemma gd_span_borrow_error [simp]: "gd_span (borrow_error sp msg) = multi_from_span sp"
  by (simp add: borrow_error_def diag_new_def)

definition reports :: "MovePathArena \<Rightarrow> Span \<Rightarrow> bool \<Rightarrow> panicked + GlyimDiagnostic list \<times> MovePathArena \<Rightarrow> bool" where
  "reports a span bad r \<longleftrightarrow> (\<exists>es. r = Inr (es, a) \<and> (es \<noteq> [] \<longleftrightarrow> bad) \<and> (\<forall>e\<in>set es. gd_span e = multi_from_span span))"

lemma check_moved_reports:
  assumes "forest a" and "static_place p"
  shows "reports a span (hits a (bits ops moved) p) (check_moved ops ctx span moved p a)"
  using find_static(1) [OF assms] path_or_child [OF assms(1), of ops moved p]
  by (auto simp: reports_def check_moved_def)

lemma check_place_use_reports:
  assumes "forest a" and "static_place (used_place u)" and "local_index (used_place u) < length locals"
    and "pair_says ops (arena_len a) md MD"
  shows "reports a span (bad_use ctx locals a MD u) (check_place_use ops ctx locals span md u a)"
proof -
  have MD: "fst MD = bits ops (fst md)" "snd MD = bits ops (snd md)" using assms(4) by (simp_all add: pair_says_def)
  note find = find_static(1) [OF assms(1,2)]
  note dead = path_or_child [OF assms(1), of ops "snd md" "used_place u"]
  have moved: "reports a span (hits a (bits ops (fst md)) (used_place u)) (check_moved ops ctx span (fst md) (used_place u) a)"
    by (rule check_moved_reports [OF assms(1,2)])
  show ?thesis
  proof (cases "hits a (bits ops (snd md)) (used_place u)")
    case True
    then show ?thesis using find dead
      by (auto simp: reports_def check_place_use_def bad_use_def MD Let_def)
  next
    case False
    then have no: "\<not> path_in ops (snd md) (path_of a (used_place u))" "child_in ops (snd md) (used_place u) a = Inr False"
      using dead by auto
    show ?thesis
    proof (cases u)
      case (UsedOperand p)
      from assms(3) UsedOperand place_ty_Inr obtain ty where "place_ty (bc_ty_ctx ctx) p locals = Inr ty" by fastforce
      with UsedOperand False find no moved show ?thesis
        by (auto simp: check_place_use_def bad_use_def MD reports_def Let_def)
    next
      case (UsedBorrow p)
      with False find no moved show ?thesis by (auto simp: check_place_use_def bad_use_def MD Let_def)
    next
      case (UsedInspect p)
      with False find no moved show ?thesis by (auto simp: check_place_use_def bad_use_def MD Let_def)
    qed
  qed
qed

lemma used_places_static:
  assumes "static_stmt n k" and "u \<in> set (collect_used_places k)"
  shows "static_place (used_place u) \<and> local_index (used_place u) < n"
proof -
  obtain d rv where k: "k = Assign d rv" using assms(2) by (cases k) simp_all
  have op: "used_place u \<in> set (operand_places op)" if "u \<in> set (operand_used op)" for op
    using that by (cases op) auto
  have "used_place u \<in> set (rvalue_places rv)"
    using assms(2) k op by (cases rv) auto
  with assms(1) k show ?thesis by simp
qed

lemma check_stmt_uses:
  assumes f: "forest a" and st: "static_stmt (length locals) (st_kind st)" and md: "pair_says ops (arena_len a) md MD"
  shows "\<exists>es. check_stmt_use_after_move ops ctx locals st md (errors, a) = Inr (errors @ es, a) \<and>
    (es \<noteq> [] \<longleftrightarrow> (\<exists>u\<in>set (collect_used_places (st_kind st)). bad_use ctx locals a MD u)) \<and>
    (\<forall>e\<in>set es. gd_span e = multi_from_span (si_span (st_source_info st)))"
proof -
  let ?sp = "si_span (st_source_info st)"
  let ?f = "\<lambda>used (errors, a). pbind (check_place_use ops ctx locals ?sp md used a) (\<lambda>(es, a'). Inr (errors @ es, a'))"
  have "\<exists>es. pfold ?f us (errors, a) = Inr (errors @ es, a) \<and> (es \<noteq> [] \<longleftrightarrow> (\<exists>u\<in>set us. bad_use ctx locals a MD u)) \<and>
      (\<forall>e\<in>set es. gd_span e = multi_from_span ?sp)"
    if "\<forall>u\<in>set us. static_place (used_place u) \<and> local_index (used_place u) < length locals" for us errors
    using that
  proof (induction us arbitrary: errors)
    case (Cons u us)
    then have "reports a ?sp (bad_use ctx locals a MD u) (check_place_use ops ctx locals ?sp md u a)"
      by (intro check_place_use_reports [OF f _ _ md]) simp_all
    then obtain es where "check_place_use ops ctx locals ?sp md u a = Inr (es, a)"
      "es \<noteq> [] \<longleftrightarrow> bad_use ctx locals a MD u" "\<forall>e\<in>set es. gd_span e = multi_from_span ?sp"
      by (auto simp: reports_def)
    moreover from Cons.IH [of "errors @ es"] Cons.prems obtain es' where
      "pfold ?f us (errors @ es, a) = Inr ((errors @ es) @ es', a)" "es' \<noteq> [] \<longleftrightarrow> (\<exists>u\<in>set us. bad_use ctx locals a MD u)"
      "\<forall>e\<in>set es'. gd_span e = multi_from_span ?sp" by auto
    ultimately show ?case by (intro exI [of _ "es @ es'"]) auto
  qed simp
  from this [of "collect_used_places (st_kind st)" errors] used_places_static [OF st] show ?thesis
    by (simp add: check_stmt_use_after_move_def)
qed

definition bad_stmt :: "BorrowckCtx \<Rightarrow> Body \<Rightarrow> MovePathArena \<Rightarrow> nat \<Rightarrow> nat \<Rightarrow> bool" where
  "bad_stmt ctx body a b i \<longleftrightarrow>
     (\<exists>u\<in>set (collect_used_places (st_kind (bb_statements (b_blocks body ! b) ! i))).
        bad_use ctx (b_locals body) a (state_at ctx body a b i) u)"

definition stmt_span :: "Body \<Rightarrow> nat \<Rightarrow> nat \<Rightarrow> MultiSpan" where
  "stmt_span body b i = multi_from_span (si_span (st_source_info (bb_statements (b_blocks body ! b) ! i)))"

text \<open>A fold that appends errors at the spans of a set per element.\<close>

lemma pfold_spans:
  assumes "\<And>x errors. x \<in> set xs \<Longrightarrow> \<exists>es. f x (errors, a) = Inr (errors @ es, a) \<and> gd_span ` set es = R x"
  shows "\<exists>es. pfold f xs (errors, a) = Inr (errors @ es, a) \<and> gd_span ` set es = (\<Union>x\<in>set xs. R x)"
  using assms
proof (induction xs arbitrary: errors)
  case (Cons x xs)
  from Cons.prems obtain es where "f x (errors, a) = Inr (errors @ es, a)" "gd_span ` set es = R x" by force
  with Cons.IH [of "errors @ es"] Cons.prems show ?case by (auto simp: image_Un)
qed simp

lemma check_block_moves_Inr:
  assumes L: "bitset_laws ops" and f: "forest a" and body: "static_body body" and b: "b < length (b_blocks body)"
    and ds: "b < length ds" "bs_len ops (ms_moved_in (ds ! b)) = arena_len a \<and> bs_len ops (ms_dead_in (ds ! b)) = arena_len a \<and>
      bits ops (ms_moved_in (ds ! b)) = moved_into ctx body a b \<and> bits ops (ms_dead_in (ds ! b)) = dead_into body a b"
  shows "\<exists>es. check_block_moves ops ctx body ds (b, b_blocks body ! b) (errors, a) = Inr (errors @ es, a) \<and>
    gd_span ` set es = (\<Union>i\<in>{i. i < length (bb_statements (b_blocks body ! b)) \<and> bad_stmt ctx body a b i}. {stmt_span body b i})"
proof -
  let ?sts = "bb_statements (b_blocks body ! b)" and ?locals = "b_locals body"
  have "static_block (length ?locals) (b_blocks body ! b)" using body b by (simp add: static_body_def)
  then have static: "\<forall>st\<in>set ?sts. static_stmt (length ?locals) (st_kind st)" by (simp add: static_block_def)
  have "pair_says ops (arena_len a) (ms_moved_in (ds ! b), ms_dead_in (ds ! b)) (moved_into ctx body a b, dead_into body a b)"
    using ds(2) by (simp add: pair_says_def)
  from scan_moves_Inr [OF L f this static, of ctx] obtain mds where
    mds: "scan_moves ops ctx ?locals ?sts (a, ms_moved_in (ds ! b), ms_dead_in (ds ! b)) = Inr (mds, a)" "length mds = Suc (length ?sts)"
      "\<And>i. i \<le> length ?sts \<Longrightarrow> pair_says ops (arena_len a) (mds ! i) (state_at ctx body a b i)"
    by (auto simp: state_at_def)
  let ?f = "\<lambda>(i, st) ea'. pbind (vec_index mds i) (\<lambda>md. check_stmt_use_after_move ops ctx ?locals st md ea')"
  let ?R = "\<lambda>ist. if bad_stmt ctx body a b (fst ist) then {stmt_span body b (fst ist)} else {}"
  have "\<exists>es. ?f ist (errors, a) = Inr (errors @ es, a) \<and> gd_span ` set es = ?R ist"
    if m: "ist \<in> set (enumerate 0 ?sts)" for ist errors
  proof -
    obtain i where i: "i < length ?sts" "ist = (i, ?sts ! i)" using enumerate_nth [OF m] by metis
    then have "static_stmt (length ?locals) (st_kind (?sts ! i))" using static by simp
    from check_stmt_uses [OF f this mds(3) [OF less_imp_le [OF i(1)]], where errors = errors and ctx = ctx] i obtain es where
      es: "check_stmt_use_after_move ops ctx ?locals (?sts ! i) (mds ! i) (errors, a) = Inr (errors @ es, a)"
        "es \<noteq> [] \<longleftrightarrow> bad_stmt ctx body a b i" "\<forall>e\<in>set es. gd_span e = stmt_span body b i"
      by (auto simp: bad_stmt_def stmt_span_def)
    then have "gd_span ` set es = ?R ist" using i by (cases es) (auto simp: image_iff)
    with es(1) i mds(2) show ?thesis by auto
  qed
  from pfold_spans [of "enumerate 0 ?sts" ?f, OF this] obtain es where
    es: "pfold ?f (enumerate 0 ?sts) (errors, a) = Inr (errors @ es, a)"
      "gd_span ` set es = (\<Union>ist\<in>set (enumerate 0 ?sts). ?R ist)" by blast
  have "gd_span ` set es = (\<Union>i\<in>{..<length ?sts}. if bad_stmt ctx body a b i then {stmt_span body b i} else {})"
    using es(2) enumerate_UN [of "\<lambda>i. if bad_stmt ctx body a b i then {stmt_span body b i} else {}" ?sts] by simp
  also have "\<dots> = (\<Union>i\<in>{i. i < length ?sts \<and> bad_stmt ctx body a b i}. {stmt_span body b i})" by auto
  finally have sp: "gd_span ` set es = (\<Union>i\<in>{i. i < length ?sts \<and> bad_stmt ctx body a b i}. {stmt_span body b i})" .
  have "check_block_moves ops ctx body ds (b, b_blocks body ! b) (errors, a) = Inr (errors @ es, a)"
    using b ds(1) mds(1) es(1) by (simp add: check_block_moves_def compute_stmt_moved_def)
  with sp show ?thesis by blast
qed

lemma static_body_stmt:
  assumes "static_body body" and "b < length (b_blocks body)" and "i < length (bb_statements (b_blocks body ! b))"
  shows "static_stmt (length (b_locals body)) (st_kind (bb_statements (b_blocks body ! b) ! i))"
  using assms(1) nth_mem [OF assms(2)] nth_mem [OF assms(3)] unfolding static_body_def static_block_def by blast

definition error_spans :: "BorrowckCtx \<Rightarrow> Body \<Rightarrow> MovePathArena \<Rightarrow> MultiSpan set" where
  "error_spans ctx body a = (\<Union>b\<in>{..<length (b_blocks body)}.
     \<Union>i\<in>{i. i < length (bb_statements (b_blocks body ! b)) \<and> bad_stmt ctx body a b i}. {stmt_span body b i})"

lemma move_errors:
  assumes L: "bitset_laws ops" and body: "static_body body"
  obtains a errors where "build_move_paths ctx body = Inr a" "forest a"
    "\<forall>l<length (b_locals body). ma_root_index a ! l \<noteq> None" "length (ma_root_index a) = length (b_locals body)"
    "check_moves ops ctx body = Some (Inr errors)" "gd_span ` set errors = error_spans ctx body a"
proof -
  let ?n = "length (b_blocks body)"
  have le: "length (b_locals body) \<le> 2 ^ 32" using body by (simp add: static_body_def)
  obtain a where a: "build_move_paths ctx body = Inr a" "forest a" "length (ma_root_index a) = length (b_locals body)"
    "\<forall>l<length (b_locals body). ma_root_index a ! l \<noteq> None" "length (b_locals body) \<le> arena_len a"
    by (rule build_move_paths_ok [OF le, where ctx = ctx])
  have "\<exists>errors. check_moves ops ctx body = Some (Inr errors) \<and> gd_span ` set errors = error_spans ctx body a"
  proof (cases "arena_len a = 0")
    case True
    then have none: "length (b_locals body) = 0" using a(5) by simp
    have "\<not> bad_stmt ctx body a b i" if "b < ?n" "i < length (bb_statements (b_blocks body ! b))" for b i
    proof -
      have "static_stmt 0 (st_kind (bb_statements (b_blocks body ! b) ! i))"
        using static_body_stmt [OF body that] none by simp
      then show ?thesis using used_places_static by (fastforce simp: bad_stmt_def)
    qed
    then have "error_spans ctx body a = {}" by (auto simp: error_spans_def)
    then show ?thesis using True a(1) by (simp add: check_moves_def)
  next
    case False
    from compute_move_dataflow_Inr [OF L a(2) body, of ctx] obtain ds where
      ds: "compute_move_dataflow ops ctx body a = Some (Inr (ds, a))" "length ds = ?n"
        "\<And>b. b < ?n \<Longrightarrow> bs_len ops (ms_moved_in (ds ! b)) = arena_len a \<and> bs_len ops (ms_dead_in (ds ! b)) = arena_len a \<and>
          bits ops (ms_moved_in (ds ! b)) = moved_into ctx body a b \<and> bits ops (ms_dead_in (ds ! b)) = dead_into body a b"
      by blast
    let ?f = "check_block_moves ops ctx body ds"
    let ?R = "\<lambda>b. \<Union>i\<in>{i. i < length (bb_statements (b_blocks body ! b)) \<and> bad_stmt ctx body a b i}. {stmt_span body b i}"
    have "\<exists>es. ?f bbb (errors, a) = Inr (errors @ es, a) \<and> gd_span ` set es = ?R (fst bbb)"
      if "bbb \<in> set (enumerate 0 (b_blocks body))" for bbb errors
    proof -
      have b: "fst bbb < ?n" "bbb = (fst bbb, b_blocks body ! fst bbb)" using enumerate_nth [OF that] by simp_all
      have "fst bbb < length ds" using b(1) ds(2) by simp
      from check_block_moves_Inr [OF L a(2) body b(1) this ds(3) [OF b(1)], of errors] b(2) show ?thesis by simp
    qed
    from pfold_spans [of "enumerate 0 (b_blocks body)" ?f, OF this, of "[]"] obtain es where
      es: "pfold ?f (enumerate 0 (b_blocks body)) ([], a) = Inr (es, a)"
        "gd_span ` set es = (\<Union>bbb\<in>set (enumerate 0 (b_blocks body)). ?R (fst bbb))" by auto
    have "gd_span ` set es = error_spans ctx body a"
      unfolding es(2) error_spans_def by (rule enumerate_UN)
    with es(1) ds(1) a(1) False show ?thesis by (simp add: check_moves_def)
  qed
  then obtain errors where "check_moves ops ctx body = Some (Inr errors)" "gd_span ` set errors = error_spans ctx body a"
    by blast
  then show thesis by (rule that [OF a(1,2,4,3)])
qed

section \<open>The properties\<close>

text \<open>
  C12. On a body with declared locals whose places need no new move paths, the move check returns and
  reports exactly the statements that use a place which is dead or, unless the use copies, moved in
  front of them, by the moves that flow into the block and the statements before.
\<close>

theorem move_errors_exact:
  assumes "bitset_laws ops" and "static_body body"
  shows "\<exists>a errors. build_move_paths ctx body = Inr a \<and> check_moves ops ctx body = Some (Inr errors) \<and>
    gd_span ` set errors = {stmt_span body b i |b i. b < length (b_blocks body) \<and>
      i < length (bb_statements (b_blocks body ! b)) \<and> bad_stmt ctx body a b i}"
proof -
  obtain a errors where "build_move_paths ctx body = Inr a" "forest a"
    "\<forall>l<length (b_locals body). ma_root_index a ! l \<noteq> None" "length (ma_root_index a) = length (b_locals body)"
    "check_moves ops ctx body = Some (Inr errors)" "gd_span ` set errors = error_spans ctx body a"
    by (rule move_errors [OF assms, where ctx = ctx])
  moreover have "error_spans ctx body a = {stmt_span body b i |b i. b < length (b_blocks body) \<and>
      i < length (bb_statements (b_blocks body ! b)) \<and> bad_stmt ctx body a b i}"
    by (auto simp: error_spans_def)
  ultimately show ?thesis by auto
qed

lemma shared_loan_static: "static_body shared_loan"
  by (simp add: static_body_def jumps_inside_def static_block_def static_place_def shared_loan_def sample_statements)

lemma move_errors_exact_witness:
  "\<exists>a errors. build_move_paths sample_ctx shared_loan = Inr a \<and> check_moves bv_ops sample_ctx shared_loan = Some (Inr errors) \<and>
    gd_span ` set errors = {stmt_span shared_loan b i |b i. b < length (b_blocks shared_loan) \<and>
      i < length (bb_statements (b_blocks shared_loan ! b)) \<and> bad_stmt sample_ctx shared_loan a b i}"
  by (rule move_errors_exact [OF bitset_laws_bv shared_loan_static])

section \<open>A use behind a move in the same block\<close>

fun reinitialises :: "LocalIdx \<Rightarrow> StatementKind \<Rightarrow> bool" where
  "reinitialises x (Assign d _) \<longleftrightarrow> pl_local d = x"
| "reinitialises x (StorageLive l) \<longleftrightarrow> l = x"
| "reinitialises x _ \<longleftrightarrow> False"

lemma state_at_Suc:
  assumes "i < length (bb_statements (b_blocks body ! b))"
  shows "state_at ctx body a b (Suc i) =
    stmt_after ctx (b_locals body) a (st_kind (bb_statements (b_blocks body ! b) ! i)) (state_at ctx body a b i)"
  using assms by (simp add: state_at_def take_Suc_conv_app_nth)

lemma cleared_other_local:
  assumes f: "forest a" and r: "find_root x a = Some r" and st: "static_stmt n k" and k: "\<not> reinitialises x k"
  shows "r \<notin> stmt_cleared a k"
proof -
  have other: "r \<notin> below_opt a found" if "\<And>i. found = Some i \<Longrightarrow> i < arena_len a \<and> pl_local (path_place a i) \<noteq> x" for found
  proof
    assume "r \<in> below_opt a found"
    then obtain i where i: "found = Some i" "r = i \<or> r \<in> set (path_children a i)"
      by (auto simp: below_opt_def below_def split: option.splits)
    with that have il: "i < arena_len a" "pl_local (path_place a i) \<noteq> x" by simp_all
    with i(2) forest_child [OF f il(1)] have "pl_local (path_place a r) \<noteq> x" by auto
    then show False using forest_root [OF f r] by (simp add: Place_new_def)
  qed
  show ?thesis
  proof (cases k)
    case (Assign d rv)
    with st k have "static_place d" "pl_local d \<noteq> x" by simp_all
    with find_static(2) [OF f] Assign show ?thesis by (auto intro!: other)
  next
    case (StorageLive l)
    with k have "l \<noteq> x" by simp
    with forest_root [OF f] StorageLive show ?thesis by (auto simp: Place_new_def intro!: other)
  qed simp_all
qed


definition move_local :: "LocalIdx \<Rightarrow> LocalIdx \<Rightarrow> StatementKind" where
  "move_local d x = Assign (Place_new d) (Use (Operand.Move (Place_new x)))"

definition moved_twice :: Body where
  "moved_twice = plain_body 4 [plain_block [move_local 2 1, move_local 3 1] TerminatorKind.Return]"

lemma moved_twice_static: "static_body moved_twice"
  by (simp add: static_body_def jumps_inside_def static_block_def static_place_def moved_twice_def move_local_def
      sample_statements)


section \<open>Moves the check does not see\<close>

text \<open>
  \<open>x = (); y = move x; goto next; next: z = move x\<close>: the assignment clears the later move.
  \<open>y = move x; call f(move x)\<close>: the operands of a call are not looked at.
\<close>

definition forgotten_move :: Body where
  "forgotten_move = plain_body 4
     [plain_block [store_unit (Place_new 1), move_local 2 1] (Goto 1),
      plain_block [move_local 3 1] TerminatorKind.Return]"

definition moved_into_call :: Body where
  "moved_into_call = plain_body 3
     [plain_block [move_local 2 1] (TerminatorKind.Call unit_const [Operand.Move (Place_new 1)] (Place_new 0) (Some 1) None),
      plain_block [] TerminatorKind.Return]"

lemma nothing_flows: "(\<And>a. a \<in> P b \<Longrightarrow> G a \<subseteq> K a \<and> P a = {}) \<Longrightarrow> flows_in P G K b = {}"
  unfolding flows_in_def by (blast elim: flows.cases)

lemma no_bad_stmt:
  assumes L: "bitset_laws ops" and body: "static_body body"
    and "\<And>a b i. b < length (b_blocks body) \<Longrightarrow> i < length (bb_statements (b_blocks body ! b)) \<Longrightarrow>
      forest a \<Longrightarrow> collect_used_places (st_kind (bb_statements (b_blocks body ! b) ! i)) \<noteq> [] \<Longrightarrow>
      state_at ctx body a b i = ({}, {})"
  shows "check_moves ops ctx body = Some (Inr [])"
proof -
  obtain a errors where a: "build_move_paths ctx body = Inr a" "forest a"
    "\<forall>l<length (b_locals body). ma_root_index a ! l \<noteq> None" "length (ma_root_index a) = length (b_locals body)"
    "check_moves ops ctx body = Some (Inr errors)" "gd_span ` set errors = error_spans ctx body a"
    by (rule move_errors [OF L body, where ctx = ctx])
  have "\<not> bad_stmt ctx body a b i" if "b < length (b_blocks body)" "i < length (bb_statements (b_blocks body ! b))" for b i
    using assms(3) [OF that a(2)]
    by (cases "collect_used_places (st_kind (bb_statements (b_blocks body ! b) ! i)) = []")
      (simp_all add: bad_stmt_def bad_use_def hits_def)
  then have "error_spans ctx body a = {}" by (auto simp: error_spans_def)
  with a(5,6) show ?thesis by simp
qed

text \<open>
  The move check accepts two bodies that use a moved value: one that assigns and moves \<open>x\<close> in the
  same block and moves it again in the next, and one that passes a moved \<open>x\<close> to a call.
\<close>

theorem move_check_misses_uses:
  assumes "bitset_laws ops"
  shows "check_moves ops ctx forgotten_move = Some (Inr []) \<and> check_moves ops ctx moved_into_call = Some (Inr [])"
proof
  note static = static_body_def jumps_inside_def static_block_def static_place_def move_local_def sample_statements
    successors_of_def
  show "check_moves ops ctx forgotten_move = Some (Inr [])"
  proof (rule no_bad_stmt [OF assms])
    show "static_body forgotten_move" by (simp add: static forgotten_move_def)
  next
    fix a b i
    assume b: "b < length (b_blocks forgotten_move)" "i < length (bb_statements (b_blocks forgotten_move ! b))"
      and use: "collect_used_places (st_kind (bb_statements (b_blocks forgotten_move ! b) ! i)) \<noteq> []"
    have P: "c = 0 \<and> d = 1" if "c \<in> preds_into forgotten_move d" for c d
      using that by (auto simp: preds_into_def forgotten_move_def less_2_cases_iff less_Suc_eq)
    have P0: "preds_into forgotten_move 0 = {}" using P by fastforce
    have G: "moved_by ctx forgotten_move a 0 \<subseteq> cleared_by forgotten_move a 0"
      using path_of_bare [of "Place_new 1" a]
      by (auto simp: moved_by_def cleared_by_def block_moved_def block_cleared_def forgotten_move_def move_local_def
          store_unit_def unit_const_def split: sum.splits)
    have "moved_into ctx forgotten_move a b = {}"
      unfolding moved_into_def by (rule nothing_flows) (use P P0 G in blast)
    moreover have "dead_into forgotten_move a b = {}"
      unfolding dead_into_def
    proof (rule nothing_flows)
      fix c
      assume "c \<in> dead_preds forgotten_move b"
      then have "c = 0" using P by (auto simp: dead_preds_def split: if_splits)
      then show "killed_by forgotten_move a c \<subseteq> cleared_by forgotten_move a c \<and> dead_preds forgotten_move c = {}"
        by (simp add: dead_preds_def killed_by_def block_killed_def forgotten_move_def move_local_def store_unit_def)
    qed
    ultimately show "state_at ctx forgotten_move a b i = ({}, {})"
      using b use by (auto simp: state_at_def forgotten_move_def less_Suc_eq store_unit_def unit_const_def)
  qed
  show "check_moves ops ctx moved_into_call = Some (Inr [])"
  proof (rule no_bad_stmt [OF assms])
    show "static_body moved_into_call" by (simp add: static moved_into_call_def)
  next
    fix a b i
    assume b: "b < length (b_blocks moved_into_call)" "i < length (bb_statements (b_blocks moved_into_call ! b))"
    then have z: "b = 0" "i = 0" by (auto simp: moved_into_call_def less_Suc_eq)
    have "c \<notin> preds_into moved_into_call 0" for c
    proof
      assume "c \<in> preds_into moved_into_call 0"
      then have "c = 0 \<or> c = 1" and "0 \<in> set (successors_of (b_blocks moved_into_call ! c))"
        by (auto simp: preds_into_def moved_into_call_def)
      then show False by (auto simp: moved_into_call_def successors_of_def)
    qed
    then have P: "preds_into moved_into_call 0 = {}" by blast
    then show "state_at ctx moved_into_call a b i = ({}, {})"
      by (simp add: z state_at_def moved_into_def dead_into_def flows_in_def dead_preds_def)
  qed
qed

lemma move_check_misses_uses_witness:
  "check_moves bv_ops sample_ctx forgotten_move = Some (Inr []) \<and> check_moves bv_ops sample_ctx moved_into_call = Some (Inr [])"
  by (rule move_check_misses_uses [OF bitset_laws_bv])

definition moved_element :: Body where
  "moved_element = plain_body 3
     [plain_block [Assign (Place_new 2)
        (Use (Operand.Move \<lparr>pl_local = 1, pl_projection = [ConstantIndex 0 1 False]\<rparr>))] TerminatorKind.Return]"

definition three_roots :: MovePathArena where
  "three_roots = \<lparr>ma_paths = map (\<lambda>l. \<lparr>mp_place = Place_new l, mp_parent = None, mp_children = []\<rparr>) [0, 1, 2],
     ma_root_index = [Some 0, Some 1, Some 2]\<rparr>"

lemma moved_element_paths: "build_move_paths sample_ctx moved_element = Inr three_roots"
  by (simp add: build_move_paths_def moved_element_def plain_body_def add_local_def count_fields_def sample_ctx_def
      sample_types_def arena_new_def arena_push_def Let_def vec_set_def numeral_3_eq_3 three_roots_def)

lemma element_path:
  "find_path \<lparr>pl_local = 1, pl_projection = [ConstantIndex 0 1 False]\<rparr> three_roots =
     Inr (Some 3, \<lparr>ma_paths =
        [\<lparr>mp_place = Place_new 0, mp_parent = None, mp_children = []\<rparr>,
         \<lparr>mp_place = Place_new 1, mp_parent = None, mp_children = [3]\<rparr>,
         \<lparr>mp_place = Place_new 2, mp_parent = None, mp_children = []\<rparr>,
         \<lparr>mp_place = \<lparr>pl_local = 1, pl_projection = [ConstantIndex 0 0 False]\<rparr>, mp_parent = Some 1, mp_children = []\<rparr>],
        ma_root_index = [Some 0, Some 1, Some 2]\<rparr>)"
  by (simp add: find_path_def three_roots_def slice_get_def local_index_def child_or_new_def arena_get_def vec_index_def
      new_child_def arena_push_def add_child_def vec_set_def Let_def Place_new_def numeral_3_eq_3)

lemma moved_element_effects:
  assumes L: "bitset_laws ops"
  shows "collect_effects ops sample_ctx moved_element three_roots = Inl Panicked"
proof -
  let ?be = "no_effects ops 3"
  have dest: "find_path (Place_new 2) three_roots = Inr (Some 2, three_roots)" "arena_get three_roots 2 =
      Inr \<lparr>mp_place = Place_new 2, mp_parent = None, mp_children = []\<rparr>" "arena_len three_roots = 3"
    by (simp_all add: find_path_def three_roots_def slice_get_def local_index_def Place_new_def arena_get_def arena_len_def)
  obtain ins where ins: "bit_insert ops 2 (bs_with_capacity ops 3) = Inr ins"
    by (rule bit_insertE [OF L, of 2 "bs_with_capacity ops 3"]) (simp_all add: bits_simps [OF L])
  have "record_inits ops three_roots (Some 2) ?be = Inr (?be\<lparr>be_inits := ins, be_dead_inits := ins\<rparr>)"
    by (simp add: record_inits_def record_init_def no_effects_def ins dest(2))
  moreover obtain ty where "place_ty (bc_ty_ctx sample_ctx) \<lparr>pl_local = 1, pl_projection = [ConstantIndex 0 1 False]\<rparr>
      (b_locals moved_element) = Inr ty"
    by (simp add: place_ty_def iv_index_def moved_element_def idx_index_def)
  moreover have "bit_insert ops 3 (bs_with_capacity ops 3) = Inl Panicked"
    by (simp add: bit_insert_def bits_simps [OF L])
  ultimately show ?thesis
    by (simp_all add: collect_effects_def collect_block_effects_def moved_element_def dest(1,3) collect_rvalue_move_operands_def
        element_path record_move_def no_effects_def sample_ctx_def)
qed

text \<open>
  A move out of an element of a slice (\<open>y = move x[0]\<close>) adds a path behind the capacity of the
  bit sets: the borrow checker panics.
\<close>

theorem element_move_panics:
  assumes "bitset_laws ops"
  shows "check_moves ops sample_ctx moved_element = Some (Inl Panicked)"
  using moved_element_effects [OF assms]
  by (simp add: check_moves_def moved_element_paths compute_move_dataflow_def arena_len_def three_roots_def)

lemma element_move_panics_witness: "check_moves bv_ops sample_ctx moved_element = Some (Inl Panicked)"
  by (rule element_move_panics [OF bitset_laws_bv])

end
