(* ===== verification/Type_Ctx.thy ===== *)
theory Type_Ctx
  imports Type_Arena_Props "HOL-Library.AList"
begin

text \<open>
  The mutable type context as the inference table uses it
  (\<open>crates/glyim-type/src/ty_ctx_mut.rs\<close>, \<open>deref_ty\<close> of \<open>ty_ctx.rs\<close>, \<open>deref.rs\<close>):
  substitution of parameters with normalization of projections, dereferencing; and the printing of
  types (\<open>display.rs\<close>).

  Operations that intern types are \<open>sx\<close> computations over the arena; a foreign handle panics.  A
  hash map that is iterated over is the list of its entries in that order; a parameter substitution is
  an association list.  \<open>{:?}\<close> output comes from derived instances, which are fields here.
\<close>

section \<open>The context\<close>

type_synonym ParamSubst = "(u32 \<times> GenericArg) list"

record DebugFormats =
  df_region :: "Region \<Rightarrow> string"
  df_trait_id :: "TraitDefId \<Rightarrow> string"
  df_const :: "Const \<Rightarrow> string"
  df_predicate :: "Predicate \<Rightarrow> string"

record TyCtxMut =
  tm_ctx :: TyCtx
  tm_fn_sigs :: "FnDefId \<rightharpoonup> FnSig"
  tm_closure_sigs :: "ClosureId \<rightharpoonup> FnSig"
  tm_deref_targets :: "Ty \<rightharpoonup> Ty"
  tm_deref_templates :: "AdtId \<rightharpoonup> GenericArg list \<times> Ty"
  tm_impl_assoc_types :: "((Ty \<times> TraitDefId) \<times> (Name \<times> Ty) list) list"
  tm_name_str :: "Name \<Rightarrow> string"
  tm_debug :: DebugFormats

type_synonym 'a tcx = "(TypeArena, panicked, 'a) sx"

definition read_kind :: "Ty \<Rightarrow> TyKind tcx" where
  "read_kind t = (\<lambda>a. (ty_kind a t, a))"

definition read_args :: "Substitution \<Rightarrow> GenericArg list tcx" where
  "read_args s = (\<lambda>a. (substitution_args a s, a))"

definition tm_mk_ty :: "TyCtxMut \<Rightarrow> TyKind \<Rightarrow> Ty tcx" where
  "tm_mk_ty tm k = (\<lambda>a. case mk_ty (tm_ctx tm) k a of Inl e \<Rightarrow> (Inl e, a) | Inr (t, a') \<Rightarrow> (Inr t, a'))"

definition tm_intern :: "GenericArg list \<Rightarrow> Substitution tcx" where
  "tm_intern args = (\<lambda>a. case intern_substitution args a of (s, a') \<Rightarrow> (Inr s, a'))"

fun tcx_map :: "('a \<Rightarrow> 'b tcx) \<Rightarrow> 'a list \<Rightarrow> 'b list tcx" where
  "tcx_map f [] = sx_return []"
| "tcx_map f (x # xs) = sx_bind (f x) (\<lambda>y. sx_bind (tcx_map f xs) (\<lambda>ys. sx_return (y # ys)))"

section \<open>Projections\<close>

definition entry_named :: "Name \<Rightarrow> (Name \<times> Ty) list \<Rightarrow> Ty option" where
  "entry_named n entries = map_option snd (find (\<lambda>e. fst e = n) entries)"

text \<open>\<open>resolve_associated_type\<close>: the exact self type, else an entry of the same ADT.\<close>

fun assoc_by_adt :: "AdtId \<Rightarrow> TraitDefId \<Rightarrow> Name \<Rightarrow> ((Ty \<times> TraitDefId) \<times> (Name \<times> Ty) list) list \<Rightarrow> Ty option tcx" where
  "assoc_by_adt adt tid n [] = sx_return None"
| "assoc_by_adt adt tid n (((sty, tid'), entries) # rest) =
     (if tid' \<noteq> tid then assoc_by_adt adt tid n rest
      else sx_bind (read_kind sty) (\<lambda>k.
        if (case k of TyKind.Adt b _ \<Rightarrow> b = adt | _ \<Rightarrow> False) \<and> entry_named n entries \<noteq> None
        then sx_return (entry_named n entries)
        else assoc_by_adt adt tid n rest))"

definition resolve_associated_type :: "TyCtxMut \<Rightarrow> Ty \<Rightarrow> TraitDefId \<Rightarrow> Name \<Rightarrow> Ty option tcx" where
  "resolve_associated_type tm self_ty tid n =
     (case Option.bind (map_of (tm_impl_assoc_types tm) (self_ty, tid)) (entry_named n) of
        Some t \<Rightarrow> sx_return (Some t)
      | None \<Rightarrow> sx_bind (read_kind self_ty) (\<lambda>k.
          case k of
            TyKind.Adt adt _ \<Rightarrow> assoc_by_adt adt tid n (tm_impl_assoc_types tm)
          | _ \<Rightarrow> sx_return None))"

text \<open>
  Aligning the arguments of an impl's self type with the concrete ones: the map is shared between
  the impls that are tried, so bindings of a failed attempt stay.
\<close>

fun align_args :: "GenericArg list \<Rightarrow> GenericArg list \<Rightarrow> ParamSubst \<Rightarrow> (bool \<times> ParamSubst) tcx" where
  "align_args (ia # ias) (ca # cas) m =
     sx_bind (case ia of GenericArg.Ty it \<Rightarrow> sx_bind (read_kind it) (\<lambda>k. sx_return (Some k)) | _ \<Rightarrow> sx_return None) (\<lambda>k.
       case k of
         Some (TyKind.Param p) \<Rightarrow> align_args ias cas (AList.update (pt_index p) ca m)
       | _ \<Rightarrow> if ia \<noteq> ca then sx_return (False, m) else align_args ias cas m)"
| "align_args _ _ m = sx_return (True, m)"

definition adt_or_tuple_args :: "Ty \<Rightarrow> GenericArg list option tcx" where
  "adt_or_tuple_args t =
     sx_bind (read_kind t) (\<lambda>k.
       case k of
         TyKind.Adt _ s \<Rightarrow> sx_bind (read_args s) (\<lambda>xs. sx_return (Some xs))
       | TyKind.Tuple s \<Rightarrow> sx_bind (read_args s) (\<lambda>xs. sx_return (Some xs))
       | _ \<Rightarrow> sx_return None)"

fun align_impls :: "GenericArg list \<Rightarrow> TraitDefId \<Rightarrow> (Ty \<times> TraitDefId) list \<Rightarrow> ParamSubst \<Rightarrow> ParamSubst tcx" where
  "align_impls cargs tid [] m = sx_return m"
| "align_impls cargs tid ((impl_self, tid') # rest) m =
     (if tid' \<noteq> tid then align_impls cargs tid rest m
      else sx_bind (adt_or_tuple_args impl_self) (\<lambda>iargs.
        case iargs of
          None \<Rightarrow> align_impls cargs tid rest m
        | Some ias \<Rightarrow>
            if length ias \<noteq> length cargs then align_impls cargs tid rest m
            else sx_bind (align_args ias cargs m) (\<lambda>(matched, m').
              if matched then sx_return m' else align_impls cargs tid rest m')))"

definition impl_param_subst :: "TyCtxMut \<Rightarrow> Ty \<Rightarrow> TraitDefId \<Rightarrow> ParamSubst tcx" where
  "impl_param_subst tm concrete_self tid =
     sx_bind (adt_or_tuple_args concrete_self) (\<lambda>cargs.
       case cargs of
         None \<Rightarrow> sx_return []
       | Some cas \<Rightarrow> align_impls cas tid (map fst (tm_impl_assoc_types tm)) [])"

section \<open>Substitution\<close>

definition subst_generic :: "(Ty \<Rightarrow> Ty tcx) \<Rightarrow> GenericArg \<Rightarrow> GenericArg tcx" where
  "subst_generic rec g =
     (case g of GenericArg.Ty t \<Rightarrow> sx_bind (rec t) (\<lambda>t'. sx_return (GenericArg.Ty t')) | _ \<Rightarrow> sx_return g)"

definition subst_substs :: "(Ty \<Rightarrow> Ty tcx) \<Rightarrow> Substitution \<Rightarrow> Substitution tcx" where
  "subst_substs rec s =
     sx_bind (read_args s) (\<lambda>args. sx_bind (tcx_map (subst_generic rec) args) tm_intern)"

definition subst_len :: "ParamSubst \<Rightarrow> Const \<Rightarrow> Const" where
  "subst_len subst len =
     (case const_kind len of
        ConstKind.Param pc \<Rightarrow> (case map_of subst (pc_index pc) of Some (GenericArg.Const c) \<Rightarrow> c | _ \<Rightarrow> len)
      | _ \<Rightarrow> len)"

definition subst_projection ::
    "TyCtxMut \<Rightarrow> (ParamSubst \<Rightarrow> Ty \<Rightarrow> Ty tcx) \<Rightarrow> ParamSubst \<Rightarrow> Ty \<Rightarrow> ProjectionTy \<Rightarrow> Ty tcx" where
  "subst_projection tm rec subst ty proj =
     (let tr = pj_trait_ref proj in
      sx_bind (read_args (tr_substs tr)) (\<lambda>args.
        case args of
          GenericArg.Ty orig # _ \<Rightarrow>
            sx_bind (rec subst orig) (\<lambda>new_self.
              if new_self = orig then sx_return ty
              else
                sx_bind (tm_intern [GenericArg.Ty new_self]) (\<lambda>new_substs.
                sx_bind (resolve_associated_type tm new_self (tr_def_id tr) (pj_item_name proj)) (\<lambda>r.
                  case r of
                    Some resolved \<Rightarrow>
                      sx_bind (impl_param_subst tm new_self (tr_def_id tr)) (\<lambda>impl_subst.
                        if impl_subst \<noteq> [] then rec impl_subst resolved else sx_return resolved)
                  | None \<Rightarrow> tm_mk_ty tm (TyKind.Projection
                      \<lparr>pj_trait_ref = \<lparr>tr_def_id = tr_def_id tr, tr_substs = new_substs\<rparr>,
                       pj_item_name = pj_item_name proj\<rparr>))))
        | _ \<Rightarrow> sx_return ty))"

definition subst_ty_kind ::
    "TyCtxMut \<Rightarrow> (ParamSubst \<Rightarrow> Ty \<Rightarrow> Ty tcx) \<Rightarrow> ParamSubst \<Rightarrow> Ty \<Rightarrow> TyKind \<Rightarrow> Ty tcx" where
  "subst_ty_kind tm rec subst ty k =
     (case k of
        TyKind.Param pt \<Rightarrow>
          sx_return (case map_of subst (pt_index pt) of Some (GenericArg.Ty t) \<Rightarrow> t | _ \<Rightarrow> ty)
      | TyKind.Ref region inner m \<Rightarrow> sx_bind (rec subst inner) (\<lambda>t. tm_mk_ty tm (TyKind.Ref region t m))
      | TyKind.RawPtr inner m \<Rightarrow> sx_bind (rec subst inner) (\<lambda>t. tm_mk_ty tm (TyKind.RawPtr t m))
      | TyKind.Adt adt s \<Rightarrow> sx_bind (subst_substs (rec subst) s) (\<lambda>s'. tm_mk_ty tm (TyKind.Adt adt s'))
      | TyKind.Tuple s \<Rightarrow> sx_bind (subst_substs (rec subst) s) (\<lambda>s'. tm_mk_ty tm (TyKind.Tuple s'))
      | TyKind.FnDef f s \<Rightarrow> sx_bind (subst_substs (rec subst) s) (\<lambda>s'. tm_mk_ty tm (TyKind.FnDef f s'))
      | TyKind.FnPtr sig \<Rightarrow>
          sx_bind (subst_substs (rec subst) (fs_inputs sig)) (\<lambda>ins.
          sx_bind (rec subst (fs_output sig)) (\<lambda>out.
            tm_mk_ty tm (TyKind.FnPtr (sig\<lparr>fs_inputs := ins, fs_output := out\<rparr>))))
      | TyKind.Projection proj \<Rightarrow> subst_projection tm rec subst ty proj
      | TyKind.Array inner len \<Rightarrow>
          sx_bind (rec subst inner) (\<lambda>t. tm_mk_ty tm (TyKind.Array t (subst_len subst len)))
      | TyKind.Slice inner \<Rightarrow> sx_bind (rec subst inner) (\<lambda>t. tm_mk_ty tm (TyKind.Slice t))
      | _ \<Rightarrow> sx_return ty)"

text \<open>\<open>subst_ty_depth\<close> with the levels left until \<open>depth >= 64\<close>.\<close>

primrec subst_ty_depth :: "nat \<Rightarrow> TyCtxMut \<Rightarrow> ParamSubst \<Rightarrow> Ty \<Rightarrow> Ty tcx" where
  "subst_ty_depth 0 tm subst ty = sx_return ty"
| "subst_ty_depth (Suc n) tm subst ty =
     (if subst = [] then sx_return ty
      else sx_bind (read_kind ty) (subst_ty_kind tm (subst_ty_depth n tm) subst ty))"

definition subst_ty :: "TyCtxMut \<Rightarrow> ParamSubst \<Rightarrow> Ty \<Rightarrow> Ty tcx" where
  "subst_ty tm subst ty = subst_ty_depth 64 tm subst ty"

section \<open>Dereferencing\<close>

definition param_arg :: "Substitution \<Rightarrow> ParamTy \<Rightarrow> Ty option tcx" where
  "param_arg sub p =
     sx_bind (read_args sub) (\<lambda>args.
       sx_return (case slice_get args (unat (pt_index p)) of Some (GenericArg.Ty t) \<Rightarrow> Some t | _ \<Rightarrow> None))"

text \<open>A template's target is a parameter, or a slice of a parameter.\<close>

definition deref_template :: "TyCtxMut \<Rightarrow> Substitution \<Rightarrow> Ty \<Rightarrow> Ty option tcx" where
  "deref_template tm sub target =
     sx_bind (read_kind target) (\<lambda>tk.
       case tk of
         TyKind.Param p \<Rightarrow> param_arg sub p
       | TyKind.Slice inner \<Rightarrow>
           sx_bind (read_kind inner) (\<lambda>ik.
             case ik of
               TyKind.Param p \<Rightarrow>
                 sx_bind (param_arg sub p) (\<lambda>t.
                   case t of
                     Some u \<Rightarrow> sx_bind (tm_mk_ty tm (TyKind.Slice u)) (\<lambda>v. sx_return (Some v))
                   | None \<Rightarrow> sx_return None)
             | _ \<Rightarrow> sx_return None)
       | _ \<Rightarrow> sx_return None)"

definition deref_ty_of :: "TyCtxMut \<Rightarrow> Ty \<Rightarrow> Ty option tcx" where
  "deref_ty_of tm ty =
     sx_bind (read_kind ty) (\<lambda>k.
       case k of
         TyKind.Ref _ inner _ \<Rightarrow> sx_return (Some inner)
       | TyKind.RawPtr inner _ \<Rightarrow> sx_return (Some inner)
       | TyKind.Adt adt sub \<Rightarrow>
           (case tm_deref_targets tm ty of
              Some target \<Rightarrow> sx_return (Some target)
            | None \<Rightarrow>
                (case tm_deref_templates tm adt of
                   Some (_, target) \<Rightarrow> deref_template tm sub target
                 | None \<Rightarrow> sx_return None))
       | _ \<Rightarrow> sx_return None)"

section \<open>Printing\<close>

fun decimal :: "nat \<Rightarrow> string" where
  "decimal n = (if n < 10 then [char_of (48 + n)] else decimal (n div 10) @ [char_of (48 + n mod 10)])"

declare decimal.simps [simp del]

definition show_u32 :: "u32 \<Rightarrow> string" where
  "show_u32 w = decimal (unat w)"

fun join_with :: "string \<Rightarrow> string list \<Rightarrow> string" where
  "join_with sep [] = []"
| "join_with sep [x] = x"
| "join_with sep (x # y # ys) = x @ sep @ join_with sep (y # ys)"

definition print_arg :: "(Ty \<Rightarrow> panicked + string) \<Rightarrow> string \<Rightarrow> string \<Rightarrow> GenericArg \<Rightarrow> panicked + string" where
  "print_arg rec lt ct g =
     (case g of GenericArg.Ty t \<Rightarrow> rec t | Lifetime _ \<Rightarrow> Inr lt | GenericArg.Const _ \<Rightarrow> Inr ct)"

fun print_all :: "('a \<Rightarrow> panicked + string) \<Rightarrow> 'a list \<Rightarrow> panicked + string list" where
  "print_all f [] = Inr []"
| "print_all f (x # xs) =
     (case f x of Inl e \<Rightarrow> Inl e | Inr s \<Rightarrow> (case print_all f xs of Inl e \<Rightarrow> Inl e | Inr ss \<Rightarrow> Inr (s # ss)))"

definition wrap :: "string \<Rightarrow> panicked + string \<Rightarrow> string \<Rightarrow> panicked + string" where
  "wrap pre r post = (case r of Inl e \<Rightarrow> Inl e | Inr s \<Rightarrow> Inr (pre @ s @ post))"

definition print_args :: "(GenericArg \<Rightarrow> panicked + string) \<Rightarrow> TypeArena \<Rightarrow> Substitution \<Rightarrow> panicked + string list" where
  "print_args f a s = (case substitution_args a s of Inl e \<Rightarrow> Inl e | Inr args \<Rightarrow> print_all f args)"

definition print_joined :: "panicked + string list \<Rightarrow> panicked + string" where
  "print_joined r = (case r of Inl e \<Rightarrow> Inl e | Inr ss \<Rightarrow> Inr (join_with '', '' ss))"

definition angle_dots :: "Substitution \<Rightarrow> string" where
  "angle_dots s = (if sub_is_empty s then [] else ''<...>'')"

definition print_fn_ptr :: "(Ty \<Rightarrow> panicked + string) \<Rightarrow> TypeArena \<Rightarrow> FnSig \<Rightarrow> panicked + string" where
  "print_fn_ptr rec a sig =
     (case print_args (print_arg rec ''_'' ''_'') a (fs_inputs sig) of
        Inl e \<Rightarrow> Inl e
      | Inr ss \<Rightarrow>
          wrap ((if fs_unsafety sig = Safety.Unsafe then ''unsafe '' else []) @
                (if fs_abi sig \<noteq> Abi.Glyim then ''extern '' @ [CHR 0x22] @ abi_name (fs_abi sig) @ [CHR 0x22] @ '' '' else []) @
                ''fn('' @ join_with '', '' ss @
                (if fs_c_variadic sig then (if ss = [] then [] else '', '') @ ''...'' else []) @ '') -> '')
            (rec (fs_output sig)) [])"

definition print_dyn :: "Predicate list \<Rightarrow> Region \<Rightarrow> string" where
  "print_dyn preds region =
     ''dyn '' @
     join_with '' + '' (map (\<lambda>p. case p of TraitPred tr _ \<Rightarrow> ''Trait'' @ show_u32 (tr_def_id tr) | _ \<Rightarrow> ''?'') preds) @
     (case region of
        Region.Static \<Rightarrow> '' + '' @ [CHR 0x27] @ ''static''
      | Region.Placeholder p \<Rightarrow> '' + '' @ [CHR 0x27] @ ''!'' @ show_u32 (pr_index p)
      | _ \<Rightarrow> [])"

definition print_projection :: "TyCtxMut \<Rightarrow> (Ty \<Rightarrow> panicked + string) \<Rightarrow> TypeArena \<Rightarrow> ProjectionTy \<Rightarrow> panicked + string" where
  "print_projection tm rec a proj =
     wrap ''<''
       (case substitution_args a (tr_substs (pj_trait_ref proj)) of
          Inl e \<Rightarrow> Inl e
        | Inr [GenericArg.Ty t] \<Rightarrow> rec t
        | Inr _ \<Rightarrow> Inr ''?'')
       ('' as Trait'' @ show_u32 (tr_def_id (pj_trait_ref proj)) @ ''>::'' @ tm_name_str tm (pj_item_name proj))"

definition print_kind :: "TyCtxMut \<Rightarrow> (Ty \<Rightarrow> panicked + string) \<Rightarrow> TypeArena \<Rightarrow> TyKind \<Rightarrow> panicked + string" where
  "print_kind tm rec a k =
     (case k of
        TyKind.Bool \<Rightarrow> Inr ''bool''
      | TyKind.Never \<Rightarrow> Inr ''!''
      | TyKind.Unit \<Rightarrow> Inr ''()''
      | TyKind.Int i \<Rightarrow> Inr (int_name i)
      | TyKind.Uint u \<Rightarrow> Inr (uint_name u)
      | TyKind.Float f \<Rightarrow> Inr (float_name f)
      | TyKind.Char \<Rightarrow> Inr ''char''
      | TyKind.String \<Rightarrow> Inr ''str''
      | TyKind.Error \<Rightarrow> Inr ''<error>''
      | TyKind.Infer (InferTy v) \<Rightarrow> Inr (''?ty'' @ show_u32 v)
      | TyKind.Infer (InferInt v) \<Rightarrow> Inr (''?int'' @ show_u32 v)
      | TyKind.Infer (InferFloat v) \<Rightarrow> Inr (''?float'' @ show_u32 v)
      | TyKind.Ref _ t m \<Rightarrow> wrap (if m = Mutability.Mut then ''&mut '' else ''&'') (rec t) []
      | TyKind.RawPtr t m \<Rightarrow> wrap (if m = Mutability.Mut then ''*mut '' else ''*const '') (rec t) []
      | TyKind.Slice t \<Rightarrow> wrap ''['' (rec t) '']''
      | TyKind.Array t _ \<Rightarrow> wrap ''['' (rec t) ''; _]''
      | TyKind.Tuple s \<Rightarrow>
          wrap ''('' (print_joined (print_args (print_arg rec ([CHR 0x27] @ ''_'') ''{const}'') a s)) '')''
      | TyKind.FnPtr sig \<Rightarrow> print_fn_ptr rec a sig
      | TyKind.Adt adt s \<Rightarrow>
          (if sub_is_empty s then Inr (''Adt'' @ show_u32 adt)
           else wrap (''Adt'' @ show_u32 adt @ ''<'')
             (print_joined (print_args (print_arg rec ([CHR 0x27] @ ''_'') ''{const}'') a s)) ''>'')
      | TyKind.FnDef f s \<Rightarrow> Inr (''FnDef'' @ show_u32 f @ angle_dots s)
      | TyKind.Closure c s \<Rightarrow> Inr (''Closure'' @ show_u32 c @ angle_dots s)
      | TyKind.Dynamic preds region \<Rightarrow> Inr (print_dyn (binder_value preds) region)
      | TyKind.Opaque oid s \<Rightarrow> Inr (''Opaque'' @ show_u32 oid @ angle_dots s)
      | TyKind.Projection proj \<Rightarrow> print_projection tm rec a proj
      | TyKind.Param p \<Rightarrow> Inr (tm_name_str tm (pt_name p))
      | TyKind.Bound var b \<Rightarrow>
          Inr (case bt_kind b of ParamBound n \<Rightarrow> tm_name_str tm n | BoundTyKind.Anon \<Rightarrow> ''?'' @ show_u32 var))"

text \<open>\<open>PrintTy\<close> with the levels left until \<open>depth > MAX_DISPLAY_DEPTH\<close>; the ellipsis is in UTF-8.\<close>

primrec print_at :: "nat \<Rightarrow> TyCtxMut \<Rightarrow> TypeArena \<Rightarrow> Ty \<Rightarrow> panicked + string" where
  "print_at 0 tm a t = Inr [CHR 0xE2, CHR 0x80, CHR 0xA6]"
| "print_at (Suc n) tm a t =
     (case ty_kind a t of Inl e \<Rightarrow> Inl e | Inr k \<Rightarrow> print_kind tm (print_at n tm a) a k)"

definition print_ty :: "TyCtxMut \<Rightarrow> TypeArena \<Rightarrow> Ty \<Rightarrow> panicked + string" where
  "print_ty tm a t = print_at 11 tm a t"

end
