(* ===== verification/Infer_Table.thy ===== *)
theory Infer_Table
  imports Type_Ctx Diagnostics
begin

text \<open>
  The inference table (\<open>crates/glyim-solve/src/infer.rs\<close>): inference variables, snapshots,
  resolution, the occurs check and unification.

  A computation runs on the table and the type arena.  An \<open>Err\<close> is the exception \<open>Mismatch\<close>: \<open>?\<close>
  passes it on, and what was bound before it stays bound.  The recursions through types and bindings
  take a bound on the nesting of calls (the host's stack); \<open>InferTooDeep\<close> is running out of it.
\<close>

section \<open>The table\<close>

datatype VariableKind = GeneralVar | IntegerVar | FloatVar

record TypeVariable =
  tv_universe :: u32
  tv_value :: "Ty option"
  tv_kind :: VariableKind

record RegionVariable =
  rv_universe :: u32
  rv_value :: "Region option"

record InferenceTable =
  it_ty_vars :: "TypeVariable IndexVec"
  it_int_vars :: "TypeVariable IndexVec"
  it_float_vars :: "TypeVariable IndexVec"
  it_region_vars :: "RegionVariable IndexVec"
  it_universe :: u32
  it_diagnostics :: "GlyimDiagnostic list"

record InferenceSnapshot =
  sn_ty_vars :: "TypeVariable IndexVec"
  sn_int_vars :: "TypeVariable IndexVec"
  sn_float_vars :: "TypeVariable IndexVec"
  sn_region_vars :: "RegionVariable IndexVec"
  sn_universe :: u32

datatype Constraint = TypeEq Ty Ty | RegionEq Region Region | RegionOutlivesC Region Region
  | TypeOutlivesC Ty Region

definition table_new :: InferenceTable where
  "table_new = \<lparr>it_ty_vars = iv_new, it_int_vars = iv_new, it_float_vars = iv_new, it_region_vars = iv_new,
     it_universe = 0, it_diagnostics = []\<rparr>"

definition take_diagnostics :: "InferenceTable \<Rightarrow> GlyimDiagnostic list \<times> InferenceTable" where
  "take_diagnostics t = (it_diagnostics t, t\<lparr>it_diagnostics := []\<rparr>)"

definition snapshot_of :: "InferenceTable \<Rightarrow> InferenceSnapshot" where
  "snapshot_of t = \<lparr>sn_ty_vars = it_ty_vars t, sn_int_vars = it_int_vars t, sn_float_vars = it_float_vars t,
     sn_region_vars = it_region_vars t, sn_universe = it_universe t\<rparr>"

text \<open>\<open>for (dst, src) in dsts.iter_mut().zip(srcs) { *dst = src.clone() }\<close>\<close>

fun copy_front :: "'a list \<Rightarrow> 'a list \<Rightarrow> 'a list" where
  "copy_front (d # ds) (s # ss) = s # copy_front ds ss"
| "copy_front ds _ = ds"

definition rollback_to :: "InferenceSnapshot \<Rightarrow> InferenceTable \<Rightarrow> InferenceTable" where
  "rollback_to sn t =
     t\<lparr>it_ty_vars := copy_front (it_ty_vars t) (sn_ty_vars sn),
       it_int_vars := copy_front (it_int_vars t) (sn_int_vars sn),
       it_float_vars := copy_front (it_float_vars t) (sn_float_vars sn),
       it_region_vars := copy_front (it_region_vars t) (sn_region_vars sn),
       it_universe := sn_universe sn\<rparr>"

definition commit :: "InferenceSnapshot \<Rightarrow> InferenceTable \<Rightarrow> InferenceTable" where
  "commit sn t = t"

definition new_ty_var :: "InferenceTable \<Rightarrow> u32 \<times> InferenceTable" where
  "new_ty_var t =
     (let (i, vs) = iv_push \<lparr>tv_universe = it_universe t, tv_value = None, tv_kind = GeneralVar\<rparr> (it_ty_vars t)
      in (i, t\<lparr>it_ty_vars := vs\<rparr>))"

definition new_int_var :: "InferenceTable \<Rightarrow> u32 \<times> InferenceTable" where
  "new_int_var t =
     (let (i, vs) = iv_push \<lparr>tv_universe = it_universe t, tv_value = None, tv_kind = IntegerVar\<rparr> (it_int_vars t)
      in (i, t\<lparr>it_int_vars := vs\<rparr>))"

definition new_float_var :: "InferenceTable \<Rightarrow> u32 \<times> InferenceTable" where
  "new_float_var t =
     (let (i, vs) = iv_push \<lparr>tv_universe = it_universe t, tv_value = None, tv_kind = FloatVar\<rparr> (it_float_vars t)
      in (i, t\<lparr>it_float_vars := vs\<rparr>))"

definition new_region_var :: "InferenceTable \<Rightarrow> u32 \<times> InferenceTable" where
  "new_region_var t =
     (let (i, vs) = iv_push \<lparr>rv_universe = it_universe t, rv_value = None\<rparr> (it_region_vars t)
      in (i, t\<lparr>it_region_vars := vs\<rparr>))"

definition create_universe :: "InferenceTable \<Rightarrow> panicked + u32 \<times> InferenceTable" where
  "create_universe t =
     (case checked_inc (it_universe t) of Inl e \<Rightarrow> Inl e | Inr u \<Rightarrow> Inr (u, t\<lparr>it_universe := u\<rparr>))"

definition value_of :: "TypeVariable IndexVec \<Rightarrow> u32 \<Rightarrow> Ty option" where
  "value_of vars v = Option.bind (iv_get vars v) tv_value"

definition probe_ty_var :: "InferenceTable \<Rightarrow> u32 \<Rightarrow> Ty option" where
  "probe_ty_var t v = value_of (it_ty_vars t) v"

definition probe_int_var :: "InferenceTable \<Rightarrow> u32 \<Rightarrow> Ty option" where
  "probe_int_var t v = value_of (it_int_vars t) v"

definition probe_float_var :: "InferenceTable \<Rightarrow> u32 \<Rightarrow> Ty option" where
  "probe_float_var t v = value_of (it_float_vars t) v"

section \<open>Computations\<close>

record InferState =
  in_table :: InferenceTable
  in_arena :: TypeArena

datatype infer_exn = InferPanic | InferTooDeep | Mismatch "GlyimDiagnostic list"

type_synonym 'a inf = "(InferState, infer_exn, 'a) sx"

definition on_arena :: "'a tcx \<Rightarrow> 'a inf" where
  "on_arena m = (\<lambda>s. case m (in_arena s) of
     (Inl _, a) \<Rightarrow> (Inl InferPanic, s\<lparr>in_arena := a\<rparr>)
   | (Inr x, a) \<Rightarrow> (Inr x, s\<lparr>in_arena := a\<rparr>))"

definition kind_of_ty :: "Ty \<Rightarrow> TyKind inf" where
  "kind_of_ty t = on_arena (read_kind t)"

definition args_of_subst :: "Substitution \<Rightarrow> GenericArg list inf" where
  "args_of_subst s = on_arena (read_args s)"

definition inf_err :: "Span \<Rightarrow> string \<Rightarrow> 'a inf" where
  "inf_err span msg = sx_fail (Mismatch [type_error span msg])"

text \<open>\<open>.is_ok()\<close>: an \<open>Err\<close> is caught, a panic is not.\<close>

definition is_ok :: "'a inf \<Rightarrow> bool inf" where
  "is_ok m = (\<lambda>s. case m s of
     (Inl (Mismatch _), s') \<Rightarrow> (Inr False, s')
   | (Inl e, s') \<Rightarrow> (Inl e, s')
   | (Inr _, s') \<Rightarrow> (Inr True, s'))"

definition set_value :: "TypeVariable IndexVec \<Rightarrow> u32 \<Rightarrow> Ty \<Rightarrow> panicked + TypeVariable IndexVec" where
  "set_value vars v t =
     (case iv_index vars v of Inl e \<Rightarrow> Inl e | Inr tv \<Rightarrow> iv_set vars v (tv\<lparr>tv_value := Some t\<rparr>))"

definition bind_ty_var :: "u32 \<Rightarrow> Ty \<Rightarrow> unit inf" where
  "bind_ty_var v t = (\<lambda>s. case set_value (it_ty_vars (in_table s)) v t of
     Inl _ \<Rightarrow> (Inl InferPanic, s)
   | Inr vs \<Rightarrow> (Inr (), s\<lparr>in_table := (in_table s)\<lparr>it_ty_vars := vs\<rparr>\<rparr>))"

definition bind_int_var :: "u32 \<Rightarrow> Ty \<Rightarrow> unit inf" where
  "bind_int_var v t = (\<lambda>s. case set_value (it_int_vars (in_table s)) v t of
     Inl _ \<Rightarrow> (Inl InferPanic, s)
   | Inr vs \<Rightarrow> (Inr (), s\<lparr>in_table := (in_table s)\<lparr>it_int_vars := vs\<rparr>\<rparr>))"

definition bind_float_var :: "u32 \<Rightarrow> Ty \<Rightarrow> unit inf" where
  "bind_float_var v t = (\<lambda>s. case set_value (it_float_vars (in_table s)) v t of
     Inl _ \<Rightarrow> (Inl InferPanic, s)
   | Inr vs \<Rightarrow> (Inr (), s\<lparr>in_table := (in_table s)\<lparr>it_float_vars := vs\<rparr>\<rparr>))"

definition ty_var_at :: "u32 \<Rightarrow> TypeVariable inf" where
  "ty_var_at v = (\<lambda>s. case iv_index (it_ty_vars (in_table s)) v of
     Inl _ \<Rightarrow> (Inl InferPanic, s) | Inr tv \<Rightarrow> (Inr tv, s))"

section \<open>Resolution\<close>

text \<open>The value of the inference variable a kind stands for.\<close>

fun infer_value :: "InferenceTable \<Rightarrow> InferVar \<Rightarrow> Ty option" where
  "infer_value t (InferTy v) = probe_ty_var t v"
| "infer_value t (InferInt v) = probe_int_var t v"
| "infer_value t (InferFloat v) = probe_float_var t v"

text \<open>
  \<open>resolve_preserve_int_inner\<close>, with the levels left until \<open>depth > MAX_RESOLVE_DEPTH\<close>; the three
  arms for variables are one.
\<close>

primrec resolve_preserve_int_inner :: "nat \<Rightarrow> Ty list \<Rightarrow> Ty \<Rightarrow> Ty inf" where
  "resolve_preserve_int_inner 0 seen ty = sx_return Ty_ERROR"
| "resolve_preserve_int_inner (Suc n) seen ty =
     (if ty \<in> set seen then sx_return Ty_ERROR
      else sx_bind (kind_of_ty ty) (\<lambda>k.
        case k of
          TyKind.Infer var \<Rightarrow>
            sx_bind (sx_get in_table) (\<lambda>t.
              case infer_value t var of
                Some value \<Rightarrow> resolve_preserve_int_inner n (ty # seen) value
              | None \<Rightarrow> sx_return ty)
        | _ \<Rightarrow> sx_return ty))"

definition MAX_RESOLVE_DEPTH :: nat where
  "MAX_RESOLVE_DEPTH = 256"

definition resolve_preserve_int :: "Ty \<Rightarrow> Ty inf" where
  "resolve_preserve_int ty = resolve_preserve_int_inner (MAX_RESOLVE_DEPTH + 1) [] ty"

definition resolve_error :: "string \<Rightarrow> Ty inf" where
  "resolve_error msg =
     sx_bind (sx_modify (\<lambda>s. s\<lparr>in_table := (in_table s)
        \<lparr>it_diagnostics := it_diagnostics (in_table s) @ [type_error Span_DUMMY msg]\<rparr>\<rparr>))
       (\<lambda>_. sx_return Ty_ERROR)"

definition Ty_F64 :: Ty where
  "Ty_F64 = 15"

primrec resolve_ty_shallow_depth :: "nat \<Rightarrow> u32 list \<Rightarrow> Ty \<Rightarrow> Ty inf" where
  "resolve_ty_shallow_depth 0 visited ty = resolve_error ''resolution depth limit exceeded''"
| "resolve_ty_shallow_depth (Suc n) visited ty =
     sx_bind (kind_of_ty ty) (\<lambda>k.
     sx_bind (sx_get in_table) (\<lambda>t.
       case k of
         TyKind.Infer (InferTy var) \<Rightarrow>
           (if var \<in> set visited
            then resolve_error ''infinite type cycle detected while resolving inference variables''
            else (case probe_ty_var t var of
                    Some value \<Rightarrow> resolve_ty_shallow_depth n (var # visited) value
                  | None \<Rightarrow> sx_return ty))
       | TyKind.Infer (InferInt var) \<Rightarrow>
           (case probe_int_var t var of
              Some value \<Rightarrow> resolve_ty_shallow_depth n visited value
            | None \<Rightarrow> sx_return Ty_I32)
       | TyKind.Infer (InferFloat var) \<Rightarrow>
           (case probe_float_var t var of
              Some value \<Rightarrow> resolve_ty_shallow_depth n visited value
            | None \<Rightarrow> sx_return Ty_F64)
       | _ \<Rightarrow> sx_return ty))"

definition resolve_ty_shallow :: "Ty \<Rightarrow> Ty inf" where
  "resolve_ty_shallow ty = resolve_ty_shallow_depth (MAX_RESOLVE_DEPTH + 1) [] ty"

section \<open>The occurs check\<close>

fun any_of :: "('a \<Rightarrow> bool inf) \<Rightarrow> 'a list \<Rightarrow> bool inf" where
  "any_of f [] = sx_return False"
| "any_of f (x # xs) = sx_bind (f x) (\<lambda>b. if b then sx_return True else any_of f xs)"

definition any_arg :: "(Ty \<Rightarrow> bool inf) \<Rightarrow> Substitution \<Rightarrow> bool inf" where
  "any_arg rec s = sx_bind (args_of_subst s) (\<lambda>args. any_of rec (arg_tys args))"

definition any_pred :: "(Ty \<Rightarrow> bool inf) \<Rightarrow> Predicate \<Rightarrow> bool inf" where
  "any_pred rec p = (case p of TraitPred tr _ \<Rightarrow> any_arg rec (tr_substs tr) | _ \<Rightarrow> sx_return False)"

definition occurs_kind :: "(Ty \<Rightarrow> bool inf) \<Rightarrow> u32 \<Rightarrow> TyKind \<Rightarrow> bool inf" where
  "occurs_kind rec var k =
     (case k of
        TyKind.Infer (InferTy v) \<Rightarrow> sx_return (v = var)
      | TyKind.Ref _ inner _ \<Rightarrow> rec inner
      | TyKind.RawPtr inner _ \<Rightarrow> rec inner
      | TyKind.Slice inner \<Rightarrow> rec inner
      | TyKind.Array inner _ \<Rightarrow> rec inner
      | TyKind.Adt _ s \<Rightarrow> any_arg rec s
      | TyKind.FnDef _ s \<Rightarrow> any_arg rec s
      | TyKind.Closure _ s \<Rightarrow> any_arg rec s
      | TyKind.Tuple s \<Rightarrow> any_arg rec s
      | TyKind.Opaque _ s \<Rightarrow> any_arg rec s
      | TyKind.FnPtr sig \<Rightarrow>
          sx_bind (any_arg rec (fs_inputs sig)) (\<lambda>b. if b then sx_return True else rec (fs_output sig))
      | TyKind.Projection proj \<Rightarrow> any_arg rec (tr_substs (pj_trait_ref proj))
      | TyKind.Dynamic preds _ \<Rightarrow> any_of (any_pred rec) (binder_value preds)
      | _ \<Rightarrow> sx_return False)"

primrec occurs :: "nat \<Rightarrow> u32 \<Rightarrow> Ty \<Rightarrow> bool inf" where
  "occurs 0 var ty = sx_fail InferTooDeep"
| "occurs (Suc n) var ty =
     sx_bind (resolve_ty_shallow ty) (\<lambda>t. sx_bind (kind_of_ty t) (occurs_kind (occurs n var) var))"

end
