(* ===== verification/Infer_Unify.thy ===== *)
theory Infer_Unify
  imports Infer_Table
begin

text \<open>
  Unification and full resolution (\<open>InferenceTable::unify_tys\<close>, \<open>fully_resolve\<close> of
  \<open>crates/glyim-solve/src/infer.rs\<close>), one definition per arm of the match.  The arms that pair a
  parameter with an inference variable are behind the arms for inference variables and never reached.
\<close>

type_synonym unifier = "Ty \<Rightarrow> Ty \<Rightarrow> Constraint list inf"

section \<open>Pieces of the arms\<close>

definition print_for :: "TyCtxMut \<Rightarrow> Ty \<Rightarrow> string inf" where
  "print_for tm t = (\<lambda>s. case print_ty tm (in_arena s) t of Inl _ \<Rightarrow> (Inl InferPanic, s) | Inr x \<Rightarrow> (Inr x, s))"

definition err_vs :: "TyCtxMut \<Rightarrow> Span \<Rightarrow> string \<Rightarrow> string \<Rightarrow> Ty \<Rightarrow> Ty \<Rightarrow> 'a inf" where
  "err_vs tm span pre mid a b =
     sx_bind (print_for tm a) (\<lambda>pa. sx_bind (print_for tm b) (\<lambda>pb. inf_err span (pre @ pa @ mid @ pb)))"

definition err_mismatch :: "TyCtxMut \<Rightarrow> Span \<Rightarrow> Ty \<Rightarrow> Ty \<Rightarrow> 'a inf" where
  "err_mismatch tm span a b = err_vs tm span ''mismatched types: '' '' vs '' a b"

definition err_expected :: "TyCtxMut \<Rightarrow> Span \<Rightarrow> string \<Rightarrow> Ty \<Rightarrow> 'a inf" where
  "err_expected tm span what b =
     sx_bind (print_for tm b) (\<lambda>pb.
       inf_err span (''mismatched types: expected '' @ what @ '' type, found '' @ pb))"

fun unify_pairs :: "unifier \<Rightarrow> (Ty \<times> Ty) list \<Rightarrow> Constraint list inf" where
  "unify_pairs rec [] = sx_return []"
| "unify_pairs rec ((ta, tb) # ps) =
     sx_bind (rec ta tb) (\<lambda>c. sx_bind (unify_pairs rec ps) (\<lambda>cs. sx_return (c @ cs)))"

text \<open>The pairs of arguments that are both types.\<close>

fun ty_pairs :: "GenericArg list \<Rightarrow> GenericArg list \<Rightarrow> (Ty \<times> Ty) list" where
  "ty_pairs (GenericArg.Ty ta # gas) (GenericArg.Ty tb # gbs) = (ta, tb) # ty_pairs gas gbs"
| "ty_pairs (_ # gas) (_ # gbs) = ty_pairs gas gbs"
| "ty_pairs _ _ = []"

definition unify_args ::
    "unifier \<Rightarrow> Constraint list inf \<Rightarrow> Constraint list inf \<Rightarrow> Substitution \<Rightarrow> Substitution \<Rightarrow> Constraint list inf" where
  "unify_args rec bad_len bad_kinds sa sb =
     sx_bind (args_of_subst sa) (\<lambda>args_a. sx_bind (args_of_subst sb) (\<lambda>args_b.
       if length args_a \<noteq> length args_b then bad_len
       else let pairs = ty_pairs args_a args_b in
         if length pairs \<noteq> length args_a then bad_kinds else unify_pairs rec pairs))"

definition unify_same_id ::
    "TyCtxMut \<Rightarrow> unifier \<Rightarrow> Span \<Rightarrow> string \<Rightarrow> Ty \<Rightarrow> Ty \<Rightarrow> u32 \<times> Substitution \<Rightarrow> u32 \<times> Substitution \<Rightarrow> Constraint list inf" where
  "unify_same_id tm rec span what a b ia ib =
     (if fst ia \<noteq> fst ib then err_mismatch tm span a b
      else unify_args rec (inf_err span ''mismatched type argument counts'')
        (inf_err span (''mismatched generic argument kinds in '' @ what)) (snd ia) (snd ib))"

section \<open>Inference variables\<close>

definition unify_int :: "TyCtxMut \<Rightarrow> Span \<Rightarrow> Ty \<Rightarrow> Ty \<Rightarrow> u32 \<Rightarrow> bool \<Rightarrow> Constraint list inf" where
  "unify_int tm span a b var a_is_int =
     sx_bind (resolve_preserve_int (if a_is_int then b else a)) (\<lambda>other_ty.
       let int_var_ty = (if a_is_int then a else b) in
       if other_ty = int_var_ty then sx_return []
       else sx_bind (kind_of_ty other_ty) (\<lambda>other.
         case other of
           TyKind.Int _ \<Rightarrow> sx_bind (bind_int_var var other_ty) (\<lambda>_. sx_return [])
         | TyKind.Uint _ \<Rightarrow> sx_bind (bind_int_var var other_ty) (\<lambda>_. sx_return [])
         | TyKind.Infer (InferInt _) \<Rightarrow> sx_bind (bind_int_var var other_ty) (\<lambda>_. sx_return [])
         | TyKind.Error \<Rightarrow> sx_bind (bind_int_var var other_ty) (\<lambda>_. sx_return [])
         | TyKind.Infer (InferTy general) \<Rightarrow> sx_bind (bind_ty_var general int_var_ty) (\<lambda>_. sx_return [])
         | _ \<Rightarrow> err_expected tm span ''integer'' b))"

definition unify_float :: "TyCtxMut \<Rightarrow> Span \<Rightarrow> Ty \<Rightarrow> Ty \<Rightarrow> u32 \<Rightarrow> bool \<Rightarrow> Constraint list inf" where
  "unify_float tm span a b var a_is_float =
     sx_bind (resolve_preserve_int (if a_is_float then b else a)) (\<lambda>other_ty.
       let float_var_ty = (if a_is_float then a else b) in
       if other_ty = float_var_ty then sx_return []
       else sx_bind (kind_of_ty other_ty) (\<lambda>other.
         case other of
           TyKind.Float _ \<Rightarrow> sx_bind (bind_float_var var other_ty) (\<lambda>_. sx_return [])
         | TyKind.Infer (InferFloat _) \<Rightarrow> sx_bind (bind_float_var var other_ty) (\<lambda>_. sx_return [])
         | TyKind.Error \<Rightarrow> sx_bind (bind_float_var var other_ty) (\<lambda>_. sx_return [])
         | TyKind.Infer (InferTy general) \<Rightarrow> sx_bind (bind_ty_var general float_var_ty) (\<lambda>_. sx_return [])
         | _ \<Rightarrow> err_expected tm span ''float'' b))"

definition bind_checked :: "TyCtxMut \<Rightarrow> nat \<Rightarrow> Span \<Rightarrow> Ty \<Rightarrow> Ty \<Rightarrow> u32 \<Rightarrow> Ty \<Rightarrow> Constraint list inf" where
  "bind_checked tm n span a b var other_ty =
     sx_bind (occurs n var other_ty) (\<lambda>occ.
       if occ then err_vs tm span ''cannot construct infinite type: '' '' = '' a b
       else sx_bind (bind_ty_var var other_ty) (\<lambda>_. sx_return []))"

fun fits_var :: "VariableKind \<Rightarrow> TyKind \<Rightarrow> bool" where
  "fits_var GeneralVar _ = True"
| "fits_var IntegerVar (TyKind.Int _) = True"
| "fits_var IntegerVar TyKind.Error = True"
| "fits_var IntegerVar (TyKind.Infer (InferInt _)) = True"
| "fits_var IntegerVar (TyKind.Infer (InferTy _)) = True"
| "fits_var FloatVar (TyKind.Float _) = True"
| "fits_var FloatVar TyKind.Error = True"
| "fits_var FloatVar (TyKind.Infer (InferFloat _)) = True"
| "fits_var FloatVar (TyKind.Infer (InferTy _)) = True"
| "fits_var _ _ = False"

text \<open>A variable that is bound already: the result of unifying its value is thrown away.\<close>

definition unify_var :: "TyCtxMut \<Rightarrow> nat \<Rightarrow> unifier \<Rightarrow> Span \<Rightarrow> Ty \<Rightarrow> Ty \<Rightarrow> u32 \<Rightarrow> TyKind \<Rightarrow> Ty \<Rightarrow> Constraint list inf" where
  "unify_var tm n rec span a b var other other_ty =
     sx_bind (ty_var_at var) (\<lambda>tv.
       case tv_value tv of
         Some bound \<Rightarrow>
           sx_bind (resolve_preserve_int other_ty) (\<lambda>other_resolved.
           sx_bind (is_ok (rec bound other_resolved)) (\<lambda>_. sx_return []))
       | None \<Rightarrow>
           if fits_var (tv_kind tv) other then bind_checked tm n span a b var other_ty
           else err_expected tm span (if tv_kind tv = IntegerVar then ''integer'' else ''float'') b)"

section \<open>References\<close>

fun head_of :: "TyKind \<Rightarrow> nat" where
  "head_of TyKind.Never = 0"
| "head_of TyKind.Unit = 1"
| "head_of TyKind.Bool = 2"
| "head_of (TyKind.Int _) = 3"
| "head_of (TyKind.Uint _) = 4"
| "head_of (TyKind.Float _) = 5"
| "head_of TyKind.Char = 6"
| "head_of TyKind.String = 7"
| "head_of (TyKind.Infer _) = 8"
| "head_of (TyKind.Adt _ _) = 9"
| "head_of (TyKind.FnDef _ _) = 10"
| "head_of (TyKind.Closure _ _) = 11"
| "head_of (TyKind.FnPtr _) = 12"
| "head_of (TyKind.Ref _ _ _) = 13"
| "head_of (TyKind.RawPtr _ _) = 14"
| "head_of (TyKind.Slice _) = 15"
| "head_of (TyKind.Array _ _) = 16"
| "head_of (TyKind.Tuple _) = 17"
| "head_of (TyKind.Dynamic _ _) = 18"
| "head_of (TyKind.Opaque _ _) = 19"
| "head_of (TyKind.Projection _) = 20"
| "head_of (TyKind.Param _) = 21"
| "head_of (TyKind.Bound _ _) = 22"
| "head_of TyKind.Error = 23"

text \<open>\<open>Vec<T>\<close> against \<open>[U]\<close>: the pair \<open>(T, U)\<close>.\<close>

definition vec_to_slice :: "Ty \<Rightarrow> Ty \<Rightarrow> (Ty \<times> Ty) option inf" where
  "vec_to_slice tv ts =
     sx_bind (kind_of_ty tv) (\<lambda>kv. sx_bind (kind_of_ty ts) (\<lambda>ks.
       case (kv, ks) of
         (TyKind.Adt vid vsubsts, TyKind.Slice u) \<Rightarrow>
           if vid = 1020 then
             sx_bind (args_of_subst vsubsts) (\<lambda>args.
               sx_return (case args of GenericArg.Ty t # _ \<Rightarrow> Some (t, u) | _ \<Rightarrow> None))
           else sx_return None
       | _ \<Rightarrow> sx_return None))"

definition rollback :: "InferenceSnapshot \<Rightarrow> unit inf" where
  "rollback sn = sx_modify (\<lambda>s. s\<lparr>in_table := rollback_to sn (in_table s)\<rparr>)"

text \<open>One probe: snapshot, unify, roll back on failure.\<close>

definition probe :: "unifier \<Rightarrow> (Ty \<times> Ty) option inf \<Rightarrow> bool inf" where
  "probe rec candidate =
     sx_bind candidate (\<lambda>c.
       case c of
         None \<Rightarrow> sx_return False
       | Some (t, u) \<Rightarrow>
           sx_bind (sx_get (\<lambda>s. snapshot_of (in_table s))) (\<lambda>snap.
           sx_bind (is_ok (rec t u)) (\<lambda>ok.
             if ok then sx_return True
             else sx_bind (rollback snap) (\<lambda>_. sx_return False))))"

fun probe_each :: "unifier \<Rightarrow> (Ty \<times> Ty) option inf list \<Rightarrow> bool inf" where
  "probe_each rec [] = sx_return False"
| "probe_each rec (c # cs) = sx_bind (probe rec c) (\<lambda>ok. if ok then sx_return True else probe_each rec cs)"

definition deref_left :: "TyCtxMut \<Rightarrow> Ty \<Rightarrow> Ty \<Rightarrow> (Ty \<times> Ty) option inf" where
  "deref_left tm ta tb = sx_bind (on_arena (deref_ty_of tm ta)) (\<lambda>d. sx_return (map_option (\<lambda>da. (da, tb)) d))"

definition deref_right :: "TyCtxMut \<Rightarrow> Ty \<Rightarrow> Ty \<Rightarrow> (Ty \<times> Ty) option inf" where
  "deref_right tm ta tb = sx_bind (on_arena (deref_ty_of tm tb)) (\<lambda>d. sx_return (map_option (\<lambda>db. (ta, db)) d))"

definition unify_refs ::
    "TyCtxMut \<Rightarrow> unifier \<Rightarrow> Region \<Rightarrow> Ty \<Rightarrow> Region \<Rightarrow> Ty \<Rightarrow> Constraint list inf" where
  "unify_refs tm rec ra ta rb tb =
     (let constraints = [RegionEq ra rb] in
      sx_bind (kind_of_ty ta) (\<lambda>ka. sx_bind (kind_of_ty tb) (\<lambda>kb.
      sx_bind (if head_of ka = head_of kb then sx_return False
               else probe_each rec [vec_to_slice ta tb, vec_to_slice tb ta, deref_left tm ta tb, deref_right tm ta tb])
        (\<lambda>coerced.
          if coerced then sx_return constraints
          else sx_bind (rec ta tb) (\<lambda>cs. sx_return (constraints @ cs))))))"

section \<open>Structured types\<close>

definition same_len :: "Const \<Rightarrow> Const \<Rightarrow> bool" where
  "same_len ca cb =
     (case (const_kind ca, const_kind cb) of
        (ConstKind.Int x, ConstKind.Int y) \<Rightarrow> x = y
      | (ConstKind.Uint x, ConstKind.Uint y) \<Rightarrow> x = y
      | (ConstKind.Int x, ConstKind.Uint y) \<Rightarrow> 0 \<le> sint x \<and> ucast x = y
      | (ConstKind.Uint y, ConstKind.Int x) \<Rightarrow> 0 \<le> sint x \<and> ucast x = y
      | (ConstKind.Infer _, _) \<Rightarrow> True
      | (_, ConstKind.Infer _) \<Rightarrow> True
      | (ConstKind.Param _, _) \<Rightarrow> True
      | (_, ConstKind.Param _) \<Rightarrow> True
      | (ConstKind.Error, _) \<Rightarrow> True
      | (_, ConstKind.Error) \<Rightarrow> True
      | (ka, kb) \<Rightarrow> ka = kb \<and> const_ty ca = const_ty cb)"

definition sig_flags_differ :: "FnSig \<Rightarrow> FnSig \<Rightarrow> bool" where
  "sig_flags_differ x y \<longleftrightarrow>
     fs_unsafety x \<noteq> fs_unsafety y \<or> fs_abi x \<noteq> fs_abi y \<or> fs_c_variadic x \<noteq> fs_c_variadic y"

definition unify_fn_ptrs :: "unifier \<Rightarrow> Span \<Rightarrow> FnSig \<Rightarrow> FnSig \<Rightarrow> Constraint list inf" where
  "unify_fn_ptrs rec span sa sb =
     (if sig_flags_differ sa sb then inf_err span ''mismatched function signatures''
      else sx_bind (unify_args rec (inf_err span ''mismatched function argument counts'')
          (inf_err span ''mismatched function argument kinds'') (fs_inputs sa) (fs_inputs sb)) (\<lambda>cs.
        sx_bind (rec (fs_output sa) (fs_output sb)) (\<lambda>c. sx_return (cs @ c))))"

definition unit_like :: "TyCtxMut \<Rightarrow> AdtId \<Rightarrow> bool" where
  "unit_like tm adt =
     (case tc_adt_defs (tm_ctx tm) adt of
        Some d \<Rightarrow> iv_is_empty (ad_fields d) \<and> (\<forall>v\<in>set (ad_variants d). iv_is_empty (vd_fields v))
      | None \<Rightarrow> False)"

definition unify_adts ::
    "TyCtxMut \<Rightarrow> unifier \<Rightarrow> Span \<Rightarrow> Ty \<Rightarrow> Ty \<Rightarrow> u32 \<times> Substitution \<Rightarrow> u32 \<times> Substitution \<Rightarrow> Constraint list inf" where
  "unify_adts tm rec span a b ia ib =
     (if fst ia \<noteq> fst ib \<and> unit_like tm (fst ia) \<and> unit_like tm (fst ib) then sx_return []
      else unify_same_id tm rec span ''Adt'' a b ia ib)"

text \<open>\<open>&T\<close> against a raw pointer.\<close>

definition unify_ref_ptr ::
    "TyCtxMut \<Rightarrow> unifier \<Rightarrow> Span \<Rightarrow> Ty \<Rightarrow> Ty \<Rightarrow> Ty \<times> Mutability \<Rightarrow> Ty \<times> Mutability \<Rightarrow> Constraint list inf" where
  "unify_ref_ptr tm rec span a b r p =
     (if snd r = snd p \<or> snd r = Mutability.Mut \<and> snd p = Mutability.Not then rec (fst r) (fst p)
      else err_mismatch tm span a b)"

fun enumerate_u32 :: "u32 \<Rightarrow> 'a list \<Rightarrow> (u32 \<times> 'a) list" where
  "enumerate_u32 i [] = []"
| "enumerate_u32 i (x # xs) = (i, x) # enumerate_u32 (i + 1) xs"

fun inf_map :: "('a \<Rightarrow> 'b inf) \<Rightarrow> 'a list \<Rightarrow> 'b list inf" where
  "inf_map f [] = sx_return []"
| "inf_map f (x # xs) = sx_bind (f x) (\<lambda>y. sx_bind (inf_map f xs) (\<lambda>ys. sx_return (y # ys)))"

definition unify_outputs :: "unifier \<Rightarrow> Ty \<Rightarrow> Ty \<Rightarrow> Constraint list \<Rightarrow> Constraint list inf" where
  "unify_outputs rec ta tb cs =
     (if ta \<noteq> Ty_ERROR \<and> tb \<noteq> Ty_ERROR then sx_bind (rec ta tb) (\<lambda>c. sx_return (cs @ c)) else sx_return cs)"

definition unify_fn_item ::
    "TyCtxMut \<Rightarrow> unifier \<Rightarrow> Span \<Rightarrow> Ty \<Rightarrow> Ty \<Rightarrow> FnDefId \<times> Substitution \<Rightarrow> FnSig \<Rightarrow> Constraint list inf" where
  "unify_fn_item tm rec span a b item sig =
     (case tm_fn_sigs tm (fst item) of
        None \<Rightarrow> sx_return []
      | Some item_sig \<Rightarrow>
          if sig_flags_differ item_sig sig then err_mismatch tm span a b
          else
            sx_bind (args_of_subst (snd item)) (\<lambda>item_args.
            let subst = enumerate_u32 0 item_args in
            sx_bind (args_of_subst (fs_inputs item_sig)) (\<lambda>raw_inputs.
            sx_bind (inf_map (\<lambda>t. on_arena (subst_ty tm subst t)) (arg_tys raw_inputs)) (\<lambda>item_inputs.
            sx_bind (args_of_subst (fs_inputs sig)) (\<lambda>fn_args.
            let fn_inputs = arg_tys fn_args in
            if length item_inputs \<noteq> length fn_inputs then inf_err span ''mismatched function argument counts''
            else
              sx_bind (unify_pairs rec (zip item_inputs fn_inputs)) (\<lambda>cs.
              sx_bind (if fs_output item_sig \<noteq> Ty_ERROR then on_arena (subst_ty tm subst (fs_output item_sig))
                       else sx_return (fs_output item_sig)) (\<lambda>item_output.
                unify_outputs rec item_output (fs_output sig) cs)))))))"

definition unify_closure_ptr :: "TyCtxMut \<Rightarrow> unifier \<Rightarrow> ClosureId \<Rightarrow> FnSig \<Rightarrow> Constraint list inf" where
  "unify_closure_ptr tm rec cid sig =
     (case tm_closure_sigs tm cid of
        None \<Rightarrow> sx_return []
      | Some csig \<Rightarrow>
          sx_bind (args_of_subst (fs_inputs csig)) (\<lambda>cargs.
          sx_bind (args_of_subst (fs_inputs sig)) (\<lambda>fargs.
            let closure_inputs = arg_tys cargs; fn_inputs = arg_tys fargs;
                offset = length closure_inputs - length fn_inputs in
            sx_bind (unify_pairs rec (zip (drop offset closure_inputs) fn_inputs)) (\<lambda>cs.
              unify_outputs rec (fs_output csig) (fs_output sig) cs))))"

section \<open>Trait objects\<close>

fun unify_dyn_args :: "TyCtxMut \<Rightarrow> unifier \<Rightarrow> Span \<Rightarrow> GenericArg list \<Rightarrow> GenericArg list \<Rightarrow> Constraint list inf" where
  "unify_dyn_args tm rec span (ga # gas) (gb # gbs) =
     sx_bind
       (case (ga, gb) of
          (GenericArg.Ty ta, GenericArg.Ty tb) \<Rightarrow> rec ta tb
        | (Lifetime la, Lifetime lb) \<Rightarrow> sx_return (if la \<noteq> lb then [RegionEq la lb] else [])
        | (GenericArg.Const ca, GenericArg.Const cb) \<Rightarrow>
            if ca \<noteq> cb then inf_err span (''const mismatch: '' @ df_const (tm_debug tm) ca @ '' vs '' @ df_const (tm_debug tm) cb)
            else sx_return []
        | _ \<Rightarrow> inf_err span ''mismatched generic argument kinds in dynamic trait'')
       (\<lambda>c. sx_bind (unify_dyn_args tm rec span gas gbs) (\<lambda>cs. sx_return (c @ cs)))"
| "unify_dyn_args tm rec span _ _ = sx_return []"

definition unify_trait_preds :: "TyCtxMut \<Rightarrow> unifier \<Rightarrow> Span \<Rightarrow> TraitRef \<Rightarrow> TraitRef \<Rightarrow> Constraint list inf" where
  "unify_trait_preds tm rec span ta tb =
     (if tr_def_id ta \<noteq> tr_def_id tb
      then inf_err span (''trait mismatch: '' @ df_trait_id (tm_debug tm) (tr_def_id ta) @ '' vs '' @
        df_trait_id (tm_debug tm) (tr_def_id tb))
      else sx_bind (args_of_subst (tr_substs ta)) (\<lambda>args_a. sx_bind (args_of_subst (tr_substs tb)) (\<lambda>args_b.
        if length args_a \<noteq> length args_b then inf_err span ''trait substitution count mismatch''
        else unify_dyn_args tm rec span args_a args_b)))"

definition unify_preds :: "TyCtxMut \<Rightarrow> unifier \<Rightarrow> Span \<Rightarrow> Predicate \<Rightarrow> Predicate \<Rightarrow> Constraint list inf" where
  "unify_preds tm rec span pa pb =
     (case (pa, pb) of
        (TraitPred ta _, TraitPred tb _) \<Rightarrow> unify_trait_preds tm rec span ta tb
      | (RegionOutlives a1 b1, RegionOutlives a2 b2) \<Rightarrow>
          sx_return (if a1 \<noteq> a2 \<or> b1 \<noteq> b2 then [RegionEq a1 a2, RegionEq b1 b2] else [])
      | (TypeOutlives t1 r1, TypeOutlives t2 r2) \<Rightarrow>
          sx_return (if t1 \<noteq> t2 \<or> r1 \<noteq> r2 then [TypeEq t1 t2, RegionEq r1 r2] else [])
      | (WellFormed t1, WellFormed t2) \<Rightarrow> if t1 \<noteq> t2 then rec t1 t2 else sx_return []
      | (Coerce a b, Coerce c d) \<Rightarrow>
          sx_bind (rec a c) (\<lambda>c1. sx_bind (rec b d) (\<lambda>c2. sx_return (c1 @ c2)))
      | _ \<Rightarrow> inf_err span (''predicate kind mismatch: '' @ df_predicate (tm_debug tm) pa @ '' vs '' @
          df_predicate (tm_debug tm) pb))"

fun unify_pred_lists :: "TyCtxMut \<Rightarrow> unifier \<Rightarrow> Span \<Rightarrow> Predicate list \<Rightarrow> Predicate list \<Rightarrow> Constraint list inf" where
  "unify_pred_lists tm rec span (pa # pas) (pb # pbs) =
     sx_bind (unify_preds tm rec span pa pb) (\<lambda>c.
     sx_bind (unify_pred_lists tm rec span pas pbs) (\<lambda>cs. sx_return (c @ cs)))"
| "unify_pred_lists tm rec span _ _ = sx_return []"

definition unify_dyns ::
    "TyCtxMut \<Rightarrow> unifier \<Rightarrow> Span \<Rightarrow> Predicate list \<times> Region \<Rightarrow> Predicate list \<times> Region \<Rightarrow> Constraint list inf" where
  "unify_dyns tm rec span da db =
     (if snd da \<noteq> snd db
      then inf_err span (''region mismatch: '' @ df_region (tm_debug tm) (snd da) @ '' vs '' @ df_region (tm_debug tm) (snd db))
      else if length (fst da) \<noteq> length (fst db)
      then inf_err span (''dynamic type predicate count mismatch: '' @ decimal (length (fst da)) @ '' vs '' @
        decimal (length (fst db)))
      else unify_pred_lists tm rec span (fst da) (fst db))"

definition unify_projections ::
    "TyCtxMut \<Rightarrow> unifier \<Rightarrow> Span \<Rightarrow> Ty \<Rightarrow> Ty \<Rightarrow> ProjectionTy \<Rightarrow> ProjectionTy \<Rightarrow> Constraint list inf" where
  "unify_projections tm rec span a b pa pb =
     (if tr_def_id (pj_trait_ref pa) \<noteq> tr_def_id (pj_trait_ref pb) \<or> pj_item_name pa \<noteq> pj_item_name pb
      then err_mismatch tm span a b
      else unify_args rec (inf_err span ''mismatched type argument counts in projection'')
        (inf_err span ''mismatched generic argument kinds in projection'')
        (tr_substs (pj_trait_ref pa)) (tr_substs (pj_trait_ref pb)))"

section \<open>The match\<close>

text \<open>The arms behind those for \<open>Error\<close>, \<open>Never\<close> and the inference variables.\<close>

definition unify_kinds ::
    "TyCtxMut \<Rightarrow> unifier \<Rightarrow> Span \<Rightarrow> Ty \<Rightarrow> Ty \<Rightarrow> TyKind \<Rightarrow> TyKind \<Rightarrow> Constraint list inf" where
  "unify_kinds tm rec span a b ka kb =
     (case ka of
        TyKind.Param p \<Rightarrow>
          (case kb of
             TyKind.Param q \<Rightarrow>
               if pt_index p = pt_index q then sx_return []
               else inf_err span (''parameter index mismatch: '' @ show_u32 (pt_index p) @ '' vs '' @ show_u32 (pt_index q))
           | _ \<Rightarrow> err_mismatch tm span a b)
      | TyKind.Ref ra ta ma \<Rightarrow>
          (case kb of
             TyKind.Ref rb tb _ \<Rightarrow> unify_refs tm rec ra ta rb tb
           | TyKind.String \<Rightarrow>
               sx_bind (kind_of_ty ta) (\<lambda>k. if k = TyKind.String then sx_return [] else err_mismatch tm span a b)
           | TyKind.RawPtr tb mb \<Rightarrow> unify_ref_ptr tm rec span a b (ta, ma) (tb, mb)
           | _ \<Rightarrow> err_mismatch tm span a b)
      | TyKind.String \<Rightarrow>
          (case kb of
             TyKind.String \<Rightarrow> sx_return []
           | TyKind.Ref _ tb _ \<Rightarrow>
               sx_bind (kind_of_ty tb) (\<lambda>k. if k = TyKind.String then sx_return [] else err_mismatch tm span a b)
           | TyKind.Adt i _ \<Rightarrow> if i = 1050 then sx_return [] else err_mismatch tm span a b
           | _ \<Rightarrow> err_mismatch tm span a b)
      | TyKind.Tuple sa \<Rightarrow>
          (case kb of
             TyKind.Tuple sb \<Rightarrow>
               unify_args rec (err_mismatch tm span a b) (inf_err span ''mismatched generic arguments in tuple'') sa sb
           | _ \<Rightarrow> err_mismatch tm span a b)
      | TyKind.Array ea ca \<Rightarrow>
          (case kb of
             TyKind.Array eb cb \<Rightarrow>
               if same_len ca cb then rec ea eb else inf_err span ''mismatched array lengths''
           | TyKind.Slice eb \<Rightarrow> rec ea eb
           | _ \<Rightarrow> err_mismatch tm span a b)
      | TyKind.Slice ea \<Rightarrow>
          (case kb of
             TyKind.Slice eb \<Rightarrow> rec ea eb
           | TyKind.Array eb _ \<Rightarrow> rec ea eb
           | _ \<Rightarrow> err_mismatch tm span a b)
      | TyKind.RawPtr ta ma \<Rightarrow>
          (case kb of
             TyKind.RawPtr tb _ \<Rightarrow> rec ta tb
           | TyKind.Ref _ tb mb \<Rightarrow> unify_ref_ptr tm rec span a b (tb, mb) (ta, ma)
           | _ \<Rightarrow> err_mismatch tm span a b)
      | TyKind.FnPtr sa \<Rightarrow>
          (case kb of
             TyKind.FnPtr sb \<Rightarrow> unify_fn_ptrs rec span sa sb
           | TyKind.FnDef f s \<Rightarrow> unify_fn_item tm rec span a b (f, s) sa
           | TyKind.Closure c _ \<Rightarrow> unify_closure_ptr tm rec c sa
           | _ \<Rightarrow> err_mismatch tm span a b)
      | TyKind.Adt ia sa \<Rightarrow>
          (case kb of
             TyKind.Adt ib sb \<Rightarrow> unify_adts tm rec span a b (ia, sa) (ib, sb)
           | TyKind.String \<Rightarrow> if ia = 1050 then sx_return [] else err_mismatch tm span a b
           | _ \<Rightarrow> err_mismatch tm span a b)
      | TyKind.FnDef ia sa \<Rightarrow>
          (case kb of
             TyKind.FnDef ib sb \<Rightarrow> unify_same_id tm rec span ''FnDef'' a b (ia, sa) (ib, sb)
           | TyKind.FnPtr sb \<Rightarrow> unify_fn_item tm rec span a b (ia, sa) sb
           | _ \<Rightarrow> err_mismatch tm span a b)
      | TyKind.Closure ia sa \<Rightarrow>
          (case kb of
             TyKind.Closure ib sb \<Rightarrow> unify_same_id tm rec span ''Closure'' a b (ia, sa) (ib, sb)
           | TyKind.FnPtr sb \<Rightarrow> unify_closure_ptr tm rec ia sb
           | _ \<Rightarrow> err_mismatch tm span a b)
      | TyKind.Dynamic pa ra \<Rightarrow>
          (case kb of
             TyKind.Dynamic pb rb \<Rightarrow> unify_dyns tm rec span (binder_value pa, ra) (binder_value pb, rb)
           | _ \<Rightarrow> err_mismatch tm span a b)
      | TyKind.Opaque ia sa \<Rightarrow>
          (case kb of
             TyKind.Opaque ib sb \<Rightarrow> unify_same_id tm rec span ''Opaque'' a b (ia, sa) (ib, sb)
           | _ \<Rightarrow> err_mismatch tm span a b)
      | TyKind.Projection pa \<Rightarrow>
          (case kb of
             TyKind.Projection pb \<Rightarrow> unify_projections tm rec span a b pa pb
           | _ \<Rightarrow> err_mismatch tm span a b)
      | TyKind.Int x \<Rightarrow> if kb = TyKind.Int x then sx_return [] else err_mismatch tm span a b
      | TyKind.Uint x \<Rightarrow> if kb = TyKind.Uint x then sx_return [] else err_mismatch tm span a b
      | TyKind.Float x \<Rightarrow> if kb = TyKind.Float x then sx_return [] else err_mismatch tm span a b
      | TyKind.Bool \<Rightarrow> if kb = TyKind.Bool then sx_return [] else err_mismatch tm span a b
      | TyKind.Char \<Rightarrow> if kb = TyKind.Char then sx_return [] else err_mismatch tm span a b
      | TyKind.Unit \<Rightarrow> if kb = TyKind.Unit then sx_return [] else err_mismatch tm span a b
      | _ \<Rightarrow> err_mismatch tm span a b)"

definition unify_match ::
    "TyCtxMut \<Rightarrow> nat \<Rightarrow> unifier \<Rightarrow> Span \<Rightarrow> Ty \<Rightarrow> Ty \<Rightarrow> TyKind \<Rightarrow> TyKind \<Rightarrow> Constraint list inf" where
  "unify_match tm n rec span a b ka kb =
     (if ka = TyKind.Error \<or> kb = TyKind.Error \<or> ka = TyKind.Never \<or> kb = TyKind.Never then sx_return []
      else case (ka, kb) of
        (TyKind.Infer (InferInt var), _) \<Rightarrow> unify_int tm span a b var True
      | (_, TyKind.Infer (InferInt var)) \<Rightarrow> unify_int tm span a b var False
      | (TyKind.Infer (InferFloat var), _) \<Rightarrow> unify_float tm span a b var True
      | (_, TyKind.Infer (InferFloat var)) \<Rightarrow> unify_float tm span a b var False
      | (TyKind.Infer (InferTy var), other) \<Rightarrow> unify_var tm n rec span a b var other b
      | (other, TyKind.Infer (InferTy var)) \<Rightarrow> unify_var tm n rec span a b var other a
      | _ \<Rightarrow> unify_kinds tm rec span a b ka kb)"

primrec unify_tys :: "nat \<Rightarrow> TyCtxMut \<Rightarrow> Span \<Rightarrow> Ty \<Rightarrow> Ty \<Rightarrow> Constraint list inf" where
  "unify_tys 0 tm span a b = sx_fail InferTooDeep"
| "unify_tys (Suc n) tm span a b =
     (if a = b then sx_return []
      else sx_bind (kind_of_ty a) (\<lambda>ka. sx_bind (kind_of_ty b) (\<lambda>kb.
        unify_match tm n (unify_tys n tm span) span a b ka kb)))"

definition unify :: "nat \<Rightarrow> TyCtxMut \<Rightarrow> Span \<Rightarrow> Ty \<Rightarrow> Ty \<Rightarrow> Constraint list inf" where
  "unify n tm span a b =
     sx_bind (resolve_preserve_int a) (\<lambda>a'. sx_bind (resolve_preserve_int b) (\<lambda>b'. unify_tys n tm span a' b'))"

section \<open>Full resolution\<close>

definition open_int :: "InferVar \<Rightarrow> InferenceTable \<Rightarrow> bool" where
  "open_int v t = (case v of InferTy _ \<Rightarrow> False | _ \<Rightarrow> infer_value t v = None)"

definition non_ty_kind :: "(Ty \<Rightarrow> bool inf) \<Rightarrow> TyKind \<Rightarrow> bool inf" where
  "non_ty_kind rec k =
     (case k of
        TyKind.Infer v \<Rightarrow> sx_get (\<lambda>s. open_int v (in_table s))
      | TyKind.Ref _ inner _ \<Rightarrow> rec inner
      | TyKind.RawPtr inner _ \<Rightarrow> rec inner
      | TyKind.Slice inner \<Rightarrow> rec inner
      | TyKind.Array inner _ \<Rightarrow> rec inner
      | TyKind.Adt _ s \<Rightarrow> any_arg rec s
      | TyKind.FnDef _ s \<Rightarrow> any_arg rec s
      | TyKind.Closure _ s \<Rightarrow> any_arg rec s
      | TyKind.Opaque _ s \<Rightarrow> any_arg rec s
      | TyKind.Tuple s \<Rightarrow> any_arg rec s
      | TyKind.FnPtr sig \<Rightarrow>
          sx_bind (any_arg rec (fs_inputs sig)) (\<lambda>b. if b then sx_return True else rec (fs_output sig))
      | _ \<Rightarrow> sx_return False)"

primrec has_unresolved_non_ty_infer :: "nat \<Rightarrow> Ty \<Rightarrow> bool inf" where
  "has_unresolved_non_ty_infer 0 ty = sx_fail InferTooDeep"
| "has_unresolved_non_ty_infer (Suc n) ty =
     sx_bind (kind_of_ty ty) (non_ty_kind (has_unresolved_non_ty_infer n))"

fun collect_each :: "(Ty \<Rightarrow> u32 list inf) \<Rightarrow> Ty list \<Rightarrow> u32 list inf" where
  "collect_each rec [] = sx_return []"
| "collect_each rec (t # ts) = sx_bind (rec t) (\<lambda>vs. sx_bind (collect_each rec ts) (\<lambda>ws. sx_return (vs @ ws)))"

definition collect_args :: "(Ty \<Rightarrow> u32 list inf) \<Rightarrow> Substitution \<Rightarrow> u32 list inf" where
  "collect_args rec s = sx_bind (args_of_subst s) (\<lambda>args. collect_each rec (arg_tys args))"

definition collect_kind :: "(Ty \<Rightarrow> u32 list inf) \<Rightarrow> TyKind \<Rightarrow> u32 list inf" where
  "collect_kind rec k =
     (case k of
        TyKind.Infer (InferTy var) \<Rightarrow>
          sx_bind (sx_get (\<lambda>s. iv_get (it_ty_vars (in_table s)) var)) (\<lambda>tv.
            case tv of
              None \<Rightarrow> sx_return []
            | Some tv \<Rightarrow> (case tv_value tv of None \<Rightarrow> sx_return [var] | Some resolved \<Rightarrow> rec resolved))
      | TyKind.Ref _ inner _ \<Rightarrow> rec inner
      | TyKind.RawPtr inner _ \<Rightarrow> rec inner
      | TyKind.Slice inner \<Rightarrow> rec inner
      | TyKind.Array inner _ \<Rightarrow> rec inner
      | TyKind.Adt _ s \<Rightarrow> collect_args rec s
      | TyKind.FnDef _ s \<Rightarrow> collect_args rec s
      | TyKind.Closure _ s \<Rightarrow> collect_args rec s
      | TyKind.Opaque _ s \<Rightarrow> collect_args rec s
      | TyKind.Tuple s \<Rightarrow> collect_args rec s
      | TyKind.FnPtr sig \<Rightarrow>
          sx_bind (collect_args rec (fs_inputs sig)) (\<lambda>vs. sx_bind (rec (fs_output sig)) (\<lambda>ws. sx_return (vs @ ws)))
      | _ \<Rightarrow> sx_return [])"

primrec collect_unresolved_vars :: "nat \<Rightarrow> Ty \<Rightarrow> u32 list inf" where
  "collect_unresolved_vars 0 ty = sx_fail InferTooDeep"
| "collect_unresolved_vars (Suc n) ty = sx_bind (kind_of_ty ty) (collect_kind (collect_unresolved_vars n))"

definition flags_of_ty :: "Ty \<Rightarrow> u32 inf" where
  "flags_of_ty t = (\<lambda>s. case ty_flags (in_arena s) t of Inl _ \<Rightarrow> (Inl InferPanic, s) | Inr f \<Rightarrow> (Inr f, s))"

text \<open>\<open>Err(vars)\<close> is \<open>Inl vars\<close>.\<close>

definition fully_resolve :: "nat \<Rightarrow> Ty \<Rightarrow> (u32 list + Ty) inf" where
  "fully_resolve n ty =
     sx_bind (resolve_ty_shallow ty) (\<lambda>resolved.
     sx_bind (has_unresolved_non_ty_infer n resolved) (\<lambda>open_var.
       if open_var then sx_return (Inl [])
       else sx_bind (flags_of_ty resolved) (\<lambda>f.
         if f AND HAS_TY_INFER = HAS_TY_INFER then
           sx_bind (collect_unresolved_vars n resolved) (\<lambda>unresolved.
             sx_return (if unresolved = [] then Inr resolved else Inl unresolved))
         else sx_return (Inr resolved))))"

end
