(* ===== verification/Infer_Props.thy ===== *)
theory Infer_Props
  imports Infer_Unify
begin

text \<open>
  What unification keeps of the inference table: the bindings stay acyclic, so no variable is bound
  to a type that contains it.  \<open>table_ok\<close> is the invariant, \<open>inf_keeps\<close> says that a computation
  keeps it, with a rule per combinator (\<open>keeps\<close>).
\<close>

named_theorems keeps \<open>computations that keep the invariant of the inference table\<close>

section \<open>Growing arenas\<close>

definition arena_good :: "TyCtx \<Rightarrow> TypeArena \<Rightarrow> bool" where
  "arena_good ctx a \<longleftrightarrow> arena_ok a \<and> flags_ok ctx a"

definition arena_room :: "TypeArena \<Rightarrow> bool" where
  "arena_room a \<longleftrightarrow> length (ta_types a) < 2 ^ 32 \<and> length (ta_substitution_data a) < 2 ^ 32"

lemma arena_room_le: "arena_le a b \<Longrightarrow> arena_room b \<Longrightarrow> arena_room a"
  by (auto simp: arena_le_def arena_room_def)

text \<open>The computation only adds to the arena, and keeps it good as long as the handles last.\<close>

definition extends :: "TyCtxMut \<Rightarrow> 'a tcx \<Rightarrow> bool" where
  "extends tm m \<longleftrightarrow> (\<forall>a. arena_le a (snd (m a)) \<and>
     (arena_good (tm_ctx tm) a \<longrightarrow> arena_room (snd (m a)) \<longrightarrow> arena_good (tm_ctx tm) (snd (m a))))"

lemma extends_same: "(\<And>a. snd (m a) = a) \<Longrightarrow> extends tm m"
  by (simp add: extends_def)

lemma extends_read [keeps]: "extends tm (read_kind t)" "extends tm (read_args s)" "extends tm (sx_return x)"
  by (auto intro!: extends_same simp: read_kind_def read_args_def sx_apply)

lemma extends_bind [keeps]:
  assumes "extends tm m" and "\<And>x. extends tm (f x)"
  shows "extends tm (sx_bind m f)"
  unfolding extends_def
proof
  fix a
  let ?Q = "\<lambda>a b. arena_le a b \<and> (arena_good (tm_ctx tm) a \<longrightarrow> arena_room b \<longrightarrow> arena_good (tm_ctx tm) b)"
  obtain r b where m: "m a = (r, b)" by force
  then have ab: "?Q a b" using assms(1) by (metis extends_def snd_conv)
  show "?Q a (snd (sx_bind m f a))"
  proof (cases r)
    case (Inl e)
    with m ab show ?thesis by (simp add: sx_bind_def)
  next
    case (Inr x)
    have "?Q b (snd (f x b))" using assms(2) by (simp add: extends_def)
    moreover have "sx_bind m f a = f x b" using m Inr by simp
    ultimately show ?thesis using ab by (metis arena_le_trans arena_room_le)
  qed
qed

lemma extends_mk_ty [keeps]: "extends tm (tm_mk_ty tm k)"
  unfolding extends_def
proof
  fix a
  show "arena_le a (snd (tm_mk_ty tm k a)) \<and> (arena_good (tm_ctx tm) a \<longrightarrow> arena_room (snd (tm_mk_ty tm k a)) \<longrightarrow>
      arena_good (tm_ctx tm) (snd (tm_mk_ty tm k a)))"
  proof (cases "mk_ty (tm_ctx tm) k a")
    case (Inl e)
    then show ?thesis by (simp add: tm_mk_ty_def)
  next
    case (Inr tb)
    obtain t b where tb: "tb = (t, b)" by force
    with Inr have mk: "mk_ty (tm_ctx tm) k a = Inr (t, b)" by simp
    then obtain f where f: "alloc_ty k f a = (t, b)" by (auto simp: mk_ty_def split: sum.splits)
    have le: "arena_le a b" using f by (rule alloc_ty_le)
    have "arena_good (tm_ctx tm) b" if "arena_good (tm_ctx tm) a" "arena_room b"
      using that mk alloc_ty_ok [OF _ f] flags_ok_mk_ty [OF _ _ mk] arena_room_le [OF le]
      by (simp add: arena_good_def arena_room_def)
    with le mk show ?thesis by (simp add: tm_mk_ty_def)
  qed
qed

lemma extends_intern [keeps]: "extends tm (tm_intern xs)"
  unfolding extends_def
proof
  fix a
  obtain s b where f: "intern_substitution xs a = (s, b)" by force
  have le: "arena_le a b" using f by (rule intern_substitution_le)
  have "arena_good (tm_ctx tm) b" if "arena_good (tm_ctx tm) a" "arena_room b"
    using that intern_substitution_ok [OF _ f] flags_ok_intern [OF _ f] arena_room_le [OF le]
    by (simp add: arena_good_def arena_room_def)
  with le f show "arena_le a (snd (tm_intern xs a)) \<and> (arena_good (tm_ctx tm) a \<longrightarrow>
      arena_room (snd (tm_intern xs a)) \<longrightarrow> arena_good (tm_ctx tm) (snd (tm_intern xs a)))"
    by (simp add: tm_intern_def)
qed

lemma extends_map [keeps]: "(\<And>x. extends tm (f x)) \<Longrightarrow> extends tm (tcx_map f xs)"
  by (induction xs) (auto intro!: keeps)

lemma extends_assoc_by_adt [keeps]: "extends tm (assoc_by_adt adt tid n es)"
  by (induction adt tid n es rule: assoc_by_adt.induct) (auto intro!: keeps)

lemma extends_resolve_assoc [keeps]: "extends tm (resolve_associated_type tm t tid n)"
  by (auto simp: resolve_associated_type_def intro!: keeps split: option.split TyKind.split)

lemma extends_align_args [keeps]: "extends tm (align_args ias cas m)"
  by (induction ias cas m rule: align_args.induct)
    (auto intro!: keeps split: GenericArg.split option.split TyKind.split)

lemma extends_adt_or_tuple_args [keeps]: "extends tm (adt_or_tuple_args t)"
  by (auto simp: adt_or_tuple_args_def intro!: keeps split: TyKind.split)

lemma extends_align_impls [keeps]: "extends tm (align_impls cas tid es m)"
  by (induction cas tid es m rule: align_impls.induct) (auto intro!: keeps split: option.split)

lemma extends_impl_param_subst [keeps]: "extends tm (impl_param_subst tm t tid)"
  by (auto simp: impl_param_subst_def intro!: keeps split: option.split)

lemma extends_subst_generic [keeps]: "(\<And>t. extends tm (rec t)) \<Longrightarrow> extends tm (subst_generic rec g)"
  by (auto simp: subst_generic_def intro!: keeps split: GenericArg.split)

lemma extends_subst_substs [keeps]: "(\<And>t. extends tm (rec t)) \<Longrightarrow> extends tm (subst_substs rec s)"
  by (auto simp: subst_substs_def intro!: keeps)

lemma extends_subst_projection [keeps]:
  "(\<And>m t. extends tm (rec m t)) \<Longrightarrow> extends tm (subst_projection tm rec subst ty proj)"
  by (auto simp: subst_projection_def Let_def intro!: keeps split: list.split GenericArg.split option.split)

lemma extends_subst_ty_kind [keeps]:
  "(\<And>m t. extends tm (rec m t)) \<Longrightarrow> extends tm (subst_ty_kind tm rec subst ty k)"
  by (auto simp: subst_ty_kind_def intro!: keeps split: TyKind.split)

lemma extends_subst_ty_depth [keeps]: "extends tm (subst_ty_depth n tm subst ty)"
  by (induction n arbitrary: subst ty) (auto intro!: keeps)

lemma extends_subst_ty [keeps]: "extends tm (subst_ty tm subst ty)"
  by (auto simp: subst_ty_def intro!: keeps)

lemma extends_deref [keeps]: "extends tm (deref_ty_of tm ty)"
  by (auto simp: deref_ty_of_def deref_template_def param_arg_def intro!: keeps split: TyKind.split option.split)

section \<open>The invariant\<close>

text \<open>The general variables in a type, and the graph of the bindings.\<close>

definition tvars :: "TypeArena \<Rightarrow> Ty \<Rightarrow> u32 set" where
  "tvars a t = {v. \<exists>u. part_of a t u \<and> ty_kind a u = Inr (TyKind.Infer (InferTy v))}"

definition bindings :: "TypeArena \<Rightarrow> (u32 \<Rightarrow> Ty option) \<Rightarrow> (u32 \<times> u32) set" where
  "bindings a val = {(v, w). \<exists>t. val v = Some t \<and> w \<in> tvars a t}"

definition valid_ty :: "TypeArena \<Rightarrow> Ty \<Rightarrow> bool" where
  "valid_ty a t \<longleftrightarrow> unat t < length (ta_types a)"

fun int_side :: "TyKind \<Rightarrow> bool" where
  "int_side (TyKind.Int _) = True"
| "int_side (TyKind.Uint _) = True"
| "int_side (TyKind.Infer (InferInt _)) = True"
| "int_side TyKind.Error = True"
| "int_side _ = False"

fun float_side :: "TyKind \<Rightarrow> bool" where
  "float_side (TyKind.Float _) = True"
| "float_side (TyKind.Infer (InferFloat _)) = True"
| "float_side TyKind.Error = True"
| "float_side _ = False"

definition table_ok :: "TyCtxMut \<Rightarrow> InferState \<Rightarrow> bool" where
  "table_ok tm s \<longleftrightarrow>
     arena_good (tm_ctx tm) (in_arena s) \<and>
     (\<forall>v t. probe_ty_var (in_table s) v = Some t \<longrightarrow> valid_ty (in_arena s) t) \<and>
     (\<forall>v t. probe_int_var (in_table s) v = Some t \<longrightarrow> (\<exists>k. ty_kind (in_arena s) t = Inr k \<and> int_side k)) \<and>
     (\<forall>v t. probe_float_var (in_table s) v = Some t \<longrightarrow> (\<exists>k. ty_kind (in_arena s) t = Inr k \<and> float_side k)) \<and>
     acyclic (bindings (in_arena s) (probe_ty_var (in_table s)))"

subsection \<open>Parts of types\<close>

lemma valid_ty_kind: "valid_ty a t \<Longrightarrow> \<exists>k. ty_kind a t = Inr k"
  by (simp add: valid_ty_def ty_kind_def)

lemma kind_valid: "ty_kind a t = Inr k \<Longrightarrow> valid_ty a t"
  by (simp add: valid_ty_def ty_kind_def split: if_splits)

lemma valid_ty_le: "arena_le a b \<Longrightarrow> valid_ty a t \<Longrightarrow> valid_ty b t"
  by (auto simp: arena_le_def valid_ty_def)

lemma good_components:
  assumes "arena_good ctx a" and "ty_kind a t = Inr k" and "c \<in> set (components a k)"
  shows "unat c < unat t" and "valid_ty a c"
proof -
  have t: "unat t < length (ta_types a)" "k = ta_types a ! unat t"
    using assms(2) by (auto simp: ty_kind_def split: if_splits)
  with assms(1,3) show "unat c < unat t" by (auto simp: arena_good_def flags_ok_def)
  with t(1) show "valid_ty a c" by (simp add: valid_ty_def)
qed

lemma good_components_le:
  assumes "arena_good ctx a" and "arena_le a b" and "ty_kind a t = Inr k"
  shows "components b k = components a k"
proof -
  have t: "unat t < length (ta_types a)" "k = ta_types a ! unat t"
    using assms(3) by (auto simp: ty_kind_def split: if_splits)
  then obtain f where "compute_flags ctx a k 0 = Inr f"
    using assms(1) by (auto simp: arena_good_def flags_ok_def)
  from components_le [OF assms(2) this] show ?thesis .
qed

lemma tvars_unfold:
  assumes "ty_kind a t = Inr k"
  shows "tvars a t = (case k of TyKind.Infer (InferTy v) \<Rightarrow> {v} | _ \<Rightarrow> {}) \<union> (\<Union>c\<in>set (components a k). tvars a c)"
proof -
  have "part_of a t u \<longleftrightarrow> u = t \<or> (\<exists>c\<in>set (components a k). part_of a c u)" for u
    using assms by (auto intro: part_of.intros elim: part_of.cases)
  then show ?thesis
    using assms by (auto simp: tvars_def split: TyKind.splits InferVar.splits)
qed

lemma tvars_infer [simp]: "ty_kind a t = Inr (TyKind.Infer (InferTy v)) \<Longrightarrow> tvars a t = {v}"
  by (simp add: tvars_unfold)

lemma tvars_sides: "ty_kind a t = Inr k \<Longrightarrow> int_side k \<or> float_side k \<Longrightarrow> tvars a t = {}"
  by (cases k rule: int_side.cases) (auto simp: tvars_unfold)

lemma tvars_le:
  assumes good: "arena_good ctx a" and le: "arena_le a b"
  shows "valid_ty a t \<Longrightarrow> tvars b t = tvars a t"
proof (induction "unat t" arbitrary: t rule: less_induct)
  case less
  obtain k where k: "ty_kind a t = Inr k" using valid_ty_kind [OF less.prems] by blast
  have "tvars b c = tvars a c" if "c \<in> set (components a k)" for c
    using less.hyps good_components [OF good k that] by blast
  then show ?case
    using tvars_unfold [OF k] tvars_unfold [OF arena_le_ty_kind [OF le k]] good_components_le [OF good le k] by simp
qed

lemma bindings_le:
  assumes "arena_good ctx a" and "arena_le a b" and "\<And>v t. val v = Some t \<Longrightarrow> valid_ty a t"
  shows "bindings b val = bindings a val"
  using tvars_le [OF assms(1,2)] assms(3) by (auto simp: bindings_def)

subsection \<open>What depends on the invariant\<close>

text \<open>Two tables that differ in diagnostics and universe only.\<close>

definition same_values :: "InferenceTable \<Rightarrow> InferenceTable \<Rightarrow> bool" where
  "same_values t t' \<longleftrightarrow> it_ty_vars t' = it_ty_vars t \<and> it_int_vars t' = it_int_vars t \<and> it_float_vars t' = it_float_vars t"

lemma same_values_refl [simp]: "same_values t t"
  by (simp add: same_values_def)

lemma same_values_trans: "same_values t u \<Longrightarrow> same_values u w \<Longrightarrow> same_values t w"
  by (simp add: same_values_def)

lemma same_values_probe:
  "same_values t t' \<Longrightarrow> probe_ty_var t' = probe_ty_var t \<and> probe_int_var t' = probe_int_var t \<and>
     probe_float_var t' = probe_float_var t"
  by (simp add: same_values_def probe_ty_var_def probe_int_var_def probe_float_var_def fun_eq_iff)

lemma table_ok_same:
  assumes ok: "table_ok tm s" and sv: "same_values (in_table s) (in_table s')"
    and le: "arena_le (in_arena s) (in_arena s')" and good: "arena_good (tm_ctx tm) (in_arena s')"
  shows "table_ok tm s'"
proof -
  have g: "arena_good (tm_ctx tm) (in_arena s)" using ok by (simp add: table_ok_def)
  have "bindings (in_arena s') (probe_ty_var (in_table s)) = bindings (in_arena s) (probe_ty_var (in_table s))"
    by (rule bindings_le [OF g le]) (use ok in \<open>simp add: table_ok_def\<close>)
  with ok good valid_ty_le [OF le] arena_le_ty_kind [OF le] same_values_probe [OF sv] show ?thesis
    unfolding table_ok_def by metis
qed

definition inf_inv :: "TyCtxMut \<Rightarrow> InferState \<Rightarrow> bool" where
  "inf_inv tm s \<longleftrightarrow> length (it_ty_vars (in_table s)) \<le> MAX_RESOLVE_DEPTH \<and> (arena_room (in_arena s) \<longrightarrow> table_ok tm s)"

definition same_size :: "InferenceTable \<Rightarrow> InferenceTable \<Rightarrow> bool" where
  "same_size t t' \<longleftrightarrow> length (it_ty_vars t') = length (it_ty_vars t) \<and>
     length (it_int_vars t') = length (it_int_vars t) \<and> length (it_float_vars t') = length (it_float_vars t)"

definition inf_step :: "TyCtxMut \<Rightarrow> InferState \<Rightarrow> InferState \<Rightarrow> bool" where
  "inf_step tm s s' \<longleftrightarrow> arena_le (in_arena s) (in_arena s') \<and> same_size (in_table s) (in_table s') \<and>
     (inf_inv tm s \<longrightarrow> inf_inv tm s')"

definition inf_keeps :: "TyCtxMut \<Rightarrow> 'a inf \<Rightarrow> bool" where
  "inf_keeps tm m \<longleftrightarrow> (\<forall>s. inf_step tm s (snd (m s)))"

lemma inf_step_refl [simp]: "inf_step tm s s"
  by (simp add: inf_step_def same_size_def)

lemma inf_step_trans: "inf_step tm s t \<Longrightarrow> inf_step tm t u \<Longrightarrow> inf_step tm s u"
  unfolding inf_step_def same_size_def by (metis arena_le_trans)

lemma inf_step_same:
  assumes "same_values (in_table s) (in_table s')" and "arena_le (in_arena s) (in_arena s')"
    and "arena_good (tm_ctx tm) (in_arena s) \<Longrightarrow> arena_room (in_arena s') \<Longrightarrow> arena_good (tm_ctx tm) (in_arena s')"
  shows "inf_step tm s s'"
proof -
  have "table_ok tm s'" if "table_ok tm s" "arena_room (in_arena s')"
    by (rule table_ok_same [OF that(1) assms(1,2)]) (use assms(3) that in \<open>simp add: table_ok_def\<close>)
  with assms(1,2) arena_room_le [OF assms(2)] show ?thesis
    by (auto simp: inf_step_def inf_inv_def same_size_def same_values_def)
qed

lemma keeps_bind [keeps]:
  assumes "inf_keeps tm m" and "\<And>x. inf_keeps tm (f x)"
  shows "inf_keeps tm (sx_bind m f)"
  unfolding inf_keeps_def
proof
  fix s
  obtain r t where m: "m s = (r, t)" by force
  then have st: "inf_step tm s t" using assms(1) by (metis inf_keeps_def snd_conv)
  show "inf_step tm s (snd (sx_bind m f s))"
  proof (cases r)
    case (Inl e)
    with m st show ?thesis by (simp add: sx_bind_def)
  next
    case (Inr x)
    with m have "sx_bind m f s = f x t" by simp
    with st assms(2) show ?thesis by (metis inf_keeps_def inf_step_trans)
  qed
qed

lemma keeps_same: "(\<And>s. snd (m s) = s) \<Longrightarrow> inf_keeps tm m"
  by (simp add: inf_keeps_def)

lemma keeps_simple [keeps]:
  "inf_keeps tm (sx_return x)" "inf_keeps tm (sx_fail e)" "inf_keeps tm (sx_get f)" "inf_keeps tm (inf_err span msg)"
  "inf_keeps tm (ty_var_at v)" "inf_keeps tm (print_for tm t)"
  by (auto intro!: keeps_same simp: sx_apply inf_err_def ty_var_at_def print_for_def split: sum.split)

lemma on_arena_state: "snd (on_arena m s) = s\<lparr>in_arena := snd (m (in_arena s))\<rparr>"
  by (simp add: on_arena_def split: prod.split sum.split)

lemma keeps_on_arena [keeps]: "extends tm m \<Longrightarrow> inf_keeps tm (on_arena m)"
  unfolding inf_keeps_def on_arena_state by (auto simp: extends_def intro!: inf_step_same)

lemma is_ok_state: "snd (is_ok m s) = snd (m s)"
  by (simp add: is_ok_def split: prod.split sum.split infer_exn.split)

lemma keeps_is_ok [keeps]: "inf_keeps tm m \<Longrightarrow> inf_keeps tm (is_ok m)"
  by (simp add: inf_keeps_def is_ok_state)

lemma keeps_reads [keeps]: "inf_keeps tm (kind_of_ty t)" "inf_keeps tm (args_of_subst s)"
  by (auto simp: kind_of_ty_def args_of_subst_def intro!: keeps)

end
