(* ===== verification/Infer_Occurs.thy ===== *)
theory Infer_Occurs
  imports Infer_Props
begin

text \<open>
  Resolution and the occurs check: both only read the table (apart from diagnostics), and a type that
  passes the check does not lead back to the variable, whatever the variables in it are bound to.
\<close>

section \<open>Computations that only read\<close>

definition same_state :: "InferState \<Rightarrow> InferState \<Rightarrow> bool" where
  "same_state s s' \<longleftrightarrow> in_arena s' = in_arena s \<and> same_values (in_table s) (in_table s')"

definition inf_reads :: "'a inf \<Rightarrow> bool" where
  "inf_reads m \<longleftrightarrow> (\<forall>s. same_state s (snd (m s)))"

named_theorems reads \<open>computations that only read the inference table\<close>

lemma same_state_refl [simp]: "same_state s s"
  by (simp add: same_state_def)

lemma same_state_trans: "same_state s t \<Longrightarrow> same_state t u \<Longrightarrow> same_state s u"
  by (auto simp: same_state_def intro: same_values_trans)

lemma inf_readsD: "inf_reads m \<Longrightarrow> m s = (r, s') \<Longrightarrow> same_state s s'"
  by (metis inf_reads_def snd_conv)

lemma keeps_of_reads: "inf_reads m \<Longrightarrow> inf_keeps tm m"
  by (auto simp: inf_keeps_def inf_reads_def same_state_def intro!: inf_step_same)

lemma same_state_probe: "same_state s s' \<Longrightarrow> probe_ty_var (in_table s') = probe_ty_var (in_table s)"
  using same_values_probe by (auto simp: same_state_def)

lemma inf_inv_same: "same_state s s' \<Longrightarrow> inf_inv tm s \<Longrightarrow> inf_inv tm s'"
  using inf_step_same [of s s' tm] by (auto simp: same_state_def inf_step_def)

lemma inf_reads_bind [reads]:
  assumes "inf_reads m" and "\<And>x. inf_reads (f x)"
  shows "inf_reads (sx_bind m f)"
  unfolding inf_reads_def
proof
  fix s
  obtain r t where m: "m s = (r, t)" by force
  with assms(1) have st: "same_state s t" by (rule inf_readsD)
  have "same_state t (snd (f x t))" for x using assms(2) by (simp add: inf_reads_def)
  with m st show "same_state s (snd (sx_bind m f s))"
    by (cases r) (auto simp: sx_bind_def intro: same_state_trans)
qed

lemma kind_of_ty_apply: "kind_of_ty t s = (case ty_kind (in_arena s) t of Inl _ \<Rightarrow> (Inl InferPanic, s) | Inr k \<Rightarrow> (Inr k, s))"
  by (simp add: kind_of_ty_def on_arena_def read_kind_def split: sum.split)

lemma args_of_subst_apply:
  "args_of_subst u s = (case substitution_args (in_arena s) u of Inl _ \<Rightarrow> (Inl InferPanic, s) | Inr xs \<Rightarrow> (Inr xs, s))"
  by (simp add: args_of_subst_def on_arena_def read_args_def split: sum.split)

lemma reads_simple [reads]:
  "inf_reads (sx_return x)" "inf_reads (sx_fail e)" "inf_reads (sx_get f)" "inf_reads (kind_of_ty t)"
  "inf_reads (args_of_subst u)" "inf_reads (inf_err span msg)"
  by (auto simp: inf_reads_def inf_err_def sx_apply kind_of_ty_apply args_of_subst_apply split: sum.split)

lemma reads_error [reads]: "inf_reads (resolve_error msg)"
  by (simp add: inf_reads_def resolve_error_def sx_bind_def sx_apply same_state_def same_values_def)

lemma reads_inner [reads]: "inf_reads (resolve_preserve_int_inner n seen ty)"
  by (induction n arbitrary: seen ty) (auto intro!: reads split: TyKind.split option.split)

lemma reads_preserve_int [reads]: "inf_reads (resolve_preserve_int ty)"
  unfolding resolve_preserve_int_def by (rule reads_inner)

lemma reads_shallow_depth [reads]: "inf_reads (resolve_ty_shallow_depth n vis ty)"
  by (induction n arbitrary: vis ty) (auto intro!: reads split: TyKind.split InferVar.split option.split)

lemma reads_shallow [reads]: "inf_reads (resolve_ty_shallow ty)"
  unfolding resolve_ty_shallow_def by (rule reads_shallow_depth)

lemma reads_any_of [reads]: "(\<And>x. inf_reads (f x)) \<Longrightarrow> inf_reads (any_of f xs)"
  by (induction xs) (auto intro!: reads)

lemma reads_any_arg [reads]: "(\<And>t. inf_reads (rec t)) \<Longrightarrow> inf_reads (any_arg rec u)"
  by (auto simp: any_arg_def intro!: reads)

lemma reads_any_pred [reads]: "(\<And>t. inf_reads (rec t)) \<Longrightarrow> inf_reads (any_pred rec p)"
  by (auto simp: any_pred_def intro!: reads split: Predicate.split)

lemma reads_occurs_kind [reads]: "(\<And>t. inf_reads (rec t)) \<Longrightarrow> inf_reads (occurs_kind rec var k)"
  by (auto simp: occurs_kind_def intro!: reads split: TyKind.split InferVar.split)

lemma reads_occurs [reads]: "inf_reads (occurs n var ty)"
  by (induction n arbitrary: ty) (auto intro!: reads)

lemmas keeps_reading [keeps] =
  keeps_of_reads [OF reads_preserve_int] keeps_of_reads [OF reads_shallow] keeps_of_reads [OF reads_occurs]

section \<open>Resolution follows the bindings\<close>

definition leads_to :: "InferState \<Rightarrow> u32 \<Rightarrow> Ty \<Rightarrow> bool" where
  "leads_to s v t \<longleftrightarrow>
     (\<exists>w\<in>tvars (in_arena s) t. (w, v) \<in> (bindings (in_arena s) (probe_ty_var (in_table s)))\<^sup>*)"

lemma leads_to_same: "same_state s s' \<Longrightarrow> leads_to s' v t = leads_to s v t"
  using same_state_probe [of s s'] by (simp add: leads_to_def same_state_def)

lemma leads_to_components:
  assumes "ty_kind (in_arena s) t = Inr k" and "\<And>v. k \<noteq> TyKind.Infer (InferTy v)"
  shows "leads_to s v t \<longleftrightarrow> (\<exists>c\<in>set (components (in_arena s) k). leads_to s v c)"
  using assms by (auto simp: leads_to_def tvars_unfold split: TyKind.split InferVar.split)

lemma leads_to_bound:
  assumes "ty_kind (in_arena s) t = Inr (TyKind.Infer (InferTy x))"
    and "probe_ty_var (in_table s) x = Some u" and "probe_ty_var (in_table s) v = None"
  shows "leads_to s v t \<longleftrightarrow> leads_to s v u"
proof -
  let ?B = "bindings (in_arena s) (probe_ty_var (in_table s))"
  have "(x, v) \<in> ?B\<^sup>* \<longleftrightarrow> (\<exists>w. (x, w) \<in> ?B \<and> (w, v) \<in> ?B\<^sup>*)"
  proof
    assume "(x, v) \<in> ?B\<^sup>*"
    moreover have "x \<noteq> v" using assms(2,3) by auto
    ultimately show "\<exists>w. (x, w) \<in> ?B \<and> (w, v) \<in> ?B\<^sup>*" by (auto elim: converse_rtranclE)
  qed (auto intro: converse_rtrancl_into_rtrancl)
  also have "\<dots> \<longleftrightarrow> leads_to s v u" using assms(2) by (auto simp: bindings_def leads_to_def)
  finally show ?thesis using assms(1) by (simp add: leads_to_def)
qed

lemma probe_index: "probe_ty_var t v = Some u \<Longrightarrow> unat v < length (it_ty_vars t)"
  by (auto simp: probe_ty_var_def value_of_def iv_get_def idx_index_def split: if_splits bind_splits)

lemma distinct_vars: "distinct vs \<Longrightarrow> \<forall>v\<in>set vs. unat (v :: u32) < n \<Longrightarrow> length vs \<le> n"
proof -
  assume d: "distinct vs" and b: "\<forall>v\<in>set vs. unat v < n"
  have "card (unat ` set vs) \<le> card {..<n}" by (rule card_mono) (use b in auto)
  moreover have "card (unat ` set vs) = length vs"
    by (subst card_image) (simp_all add: inj_on_def word_unat_eq_iff distinct_card [OF d])
  ultimately show ?thesis by simp
qed

lemma resolve_leads_to:
  assumes "resolve_ty_shallow_depth k vis ty s = (Inr t, s')"
    and "table_ok tm s" and "length (it_ty_vars (in_table s)) \<le> 256"
    and "probe_ty_var (in_table s) v = None"
    and "distinct vis" and "k + length vis = 257"
    and "\<forall>x\<in>set vis. probe_ty_var (in_table s) x \<noteq> None \<and>
          (\<forall>y\<in>tvars (in_arena s) ty. (x, y) \<in> (bindings (in_arena s) (probe_ty_var (in_table s)))\<^sup>+)"
  shows "leads_to s v ty \<longrightarrow> leads_to s v t \<and>
    (\<forall>x. ty_kind (in_arena s) t = Inr (TyKind.Infer (InferTy x)) \<longrightarrow> probe_ty_var (in_table s) x = None)"
  using assms
proof (induction k arbitrary: vis ty)
  case 0
  have "length vis \<le> 256"
    using distinct_vars [of vis "length (it_ty_vars (in_table s))"] 0 probe_index by force
  with 0 show ?case by simp
next
  case (Suc k)
  let ?a = "in_arena s" and ?p = "probe_ty_var (in_table s)"
  let ?B = "bindings ?a ?p"
  obtain kd where kd: "ty_kind ?a ty = Inr kd"
    using Suc.prems(1) by (auto simp: sx_bind_def kind_of_ty_apply split: sum.splits)
  note run = Suc.prems(1) [simplified, unfolded sx_bind_def kind_of_ty_apply kd sx_apply, simplified]
  have stop: "leads_to s v ty \<longrightarrow> leads_to s v t \<and>
      (\<forall>x. ty_kind ?a t = Inr (TyKind.Infer (InferTy x)) \<longrightarrow> ?p x = None)"
    if "t = ty" "\<And>x. kd = TyKind.Infer (InferTy x) \<Longrightarrow> ?p x = None"
    using that kd by simp
  show ?case
  proof (cases "\<exists>iv. kd = TyKind.Infer iv")
    case False
    with run show ?thesis by (intro stop) (auto simp: sx_apply split: TyKind.splits)
  next
    case True
    then obtain iv where iv: "kd = TyKind.Infer iv" by blast
    show ?thesis
    proof (cases iv)
      case (InferTy x)
      with kd iv have tv: "tvars ?a ty = {x}" by simp
      have cyc: "x \<notin> set vis"
        using Suc.prems(2,7) tv by (auto simp: table_ok_def acyclic_def)
      show ?thesis
      proof (cases "?p x")
        case None
        with run iv InferTy cyc show ?thesis by (intro stop) (auto simp: sx_apply)
      next
        case (Some u)
        with run iv InferTy cyc have r: "resolve_ty_shallow_depth k (x # vis) u s = (Inr t, s')" by simp
        have succ: "(x, y) \<in> ?B" if "y \<in> tvars ?a u" for y using that Some by (auto simp: bindings_def)
        have "\<forall>w\<in>set (x # vis). ?p w \<noteq> None \<and> (\<forall>y\<in>tvars ?a u. (w, y) \<in> ?B\<^sup>+)"
          using Suc.prems(7) tv Some succ by (auto intro: trancl_into_trancl)
        moreover have "distinct (x # vis)" "k + length (x # vis) = 257"
          using Suc.prems(5,6) cyc by simp_all
        ultimately have "leads_to s v u \<longrightarrow> leads_to s v t \<and>
            (\<forall>x. ty_kind ?a t = Inr (TyKind.Infer (InferTy x)) \<longrightarrow> ?p x = None)"
          using Suc.IH [OF r Suc.prems(2-4)] by blast
        then show ?thesis using leads_to_bound [OF _ Some Suc.prems(4)] kd iv InferTy by simp
      qed
    next
      case (InferInt x)
      with kd iv have "tvars ?a ty = {}" by (simp add: tvars_unfold)
      then show ?thesis by (simp add: leads_to_def)
    next
      case (InferFloat x)
      with kd iv have "tvars ?a ty = {}" by (simp add: tvars_unfold)
      then show ?thesis by (simp add: leads_to_def)
    qed
  qed
qed

lemma shallow_leads_to:
  assumes "resolve_ty_shallow ty s = (Inr t, s')" and "inf_inv tm s" and "arena_room (in_arena s)"
    and "probe_ty_var (in_table s) v = None" and "leads_to s v ty"
  shows "leads_to s v t \<and>
    (\<forall>x. ty_kind (in_arena s) t = Inr (TyKind.Infer (InferTy x)) \<longrightarrow> probe_ty_var (in_table s) x = None)"
  using resolve_leads_to [of 257 "[]" ty s t s' tm v] assms
  by (simp add: inf_inv_def resolve_ty_shallow_def MAX_RESOLVE_DEPTH_def)

section \<open>The occurs check\<close>

lemma any_of_False:
  assumes "any_of f xs s = (Inr False, s')" and "\<And>x. inf_reads (f x)" and "x \<in> set xs"
  shows "\<exists>t t'. same_state s t \<and> f x t = (Inr False, t')"
  using assms(1,3)
proof (induction xs arbitrary: s)
  case (Cons y ys)
  from Cons.prems(1) obtain t where y: "f y s = (Inr False, t)" and ys: "any_of f ys t = (Inr False, s')"
    by (auto simp: sx_bind_def sx_apply split: prod.splits sum.splits if_splits)
  have st: "same_state s t" using assms(2) y by (rule inf_readsD)
  show ?case
  proof (cases "x = y")
    case True
    with y show ?thesis by (blast intro: same_state_refl)
  next
    case False
    with Cons.IH [OF ys] Cons.prems(2) st show ?thesis by (auto intro: same_state_trans)
  qed
qed simp

lemma any_arg_False:
  assumes "any_arg f u s = (Inr False, s')" and "\<And>x. inf_reads (f x)" and "x \<in> set (subst_tys (in_arena s) u)"
  shows "\<exists>t t'. same_state s t \<and> f x t = (Inr False, t')"
  using any_of_False [OF _ assms(2)] assms
  by (auto simp: any_arg_def sx_bind_def args_of_subst_apply subst_tys_def split: sum.splits)

lemma pred_tys_iff: "x \<in> set (pred_tys a ps) \<longleftrightarrow> (\<exists>tr c. TraitPred tr c \<in> set ps \<and> x \<in> set (subst_tys a (tr_substs tr)))"
  by (induction a ps rule: pred_tys.induct) auto

lemma occurs_kind_False:
  assumes "occurs_kind f v k s = (Inr False, s')" and f: "\<And>x. inf_reads (f x)"
    and c: "c \<in> set (components (in_arena s) k)"
  shows "\<exists>t t'. same_state s t \<and> f c t = (Inr False, t')"
proof (cases k)
  case (FnPtr sig)
  with assms(1) obtain t where i: "any_arg f (fs_inputs sig) s = (Inr False, t)" and o: "f (fs_output sig) t = (Inr False, s')"
    by (auto simp: occurs_kind_def sx_bind_def sx_apply split: prod.splits sum.splits if_splits)
  have "same_state s t" using reads_any_arg [OF f] i by (rule inf_readsD)
  with any_arg_False [OF i f, of c] o c FnPtr show ?thesis by auto
next
  case (Dynamic ps r)
  with c obtain tr i where p: "TraitPred tr i \<in> set (binder_value ps)"
    and x: "c \<in> set (subst_tys (in_arena s) (tr_substs tr))" by (auto simp: pred_tys_iff)
  from assms(1) Dynamic have "any_of (any_pred f) (binder_value ps) s = (Inr False, s')" by (simp add: occurs_kind_def)
  from any_of_False [OF this reads_any_pred [OF f] p] obtain t t' where t: "same_state s t"
    and a: "any_arg f (tr_substs tr) t = (Inr False, t')" by (auto simp: any_pred_def)
  have "c \<in> set (subst_tys (in_arena t) (tr_substs tr))" using x t by (simp add: same_state_def)
  from any_arg_False [OF a f this] t show ?thesis by (blast intro: same_state_trans)
qed (use assms any_arg_False [OF _ f] in \<open>auto simp: occurs_kind_def intro: same_state_refl\<close>)

theorem occurs_sound:
  assumes "occurs n v ty s = (Inr False, s')" and "inf_inv tm s" and "arena_room (in_arena s)"
    and "probe_ty_var (in_table s) v = None"
  shows "\<not> leads_to s v ty"
  using assms
proof (induction n arbitrary: ty s s')
  case 0
  then show ?case by (simp add: sx_apply)
next
  case (Suc n)
  from Suc.prems(1) obtain t s1 k where r: "resolve_ty_shallow ty s = (Inr t, s1)" and k: "ty_kind (in_arena s1) t = Inr k"
    and o: "occurs_kind (occurs n v) v k s1 = (Inr False, s')"
    by (auto simp: sx_bind_def kind_of_ty_apply split: prod.splits sum.splits)
  have s1: "same_state s s1" using reads_shallow r by (rule inf_readsD)
  show ?case
  proof
    assume l: "leads_to s v ty"
    note * = shallow_leads_to [OF r Suc.prems(2-4) l]
    then have l1: "leads_to s1 v t" using leads_to_same [OF s1] by simp
    show False
    proof (cases "\<exists>x. k = TyKind.Infer (InferTy x)")
      case True
      then obtain x where x: "k = TyKind.Infer (InferTy x)" by blast
      with o have "x \<noteq> v" by (auto simp: occurs_kind_def sx_apply)
      moreover have "probe_ty_var (in_table s1) x = None" using * k x s1 same_state_probe [OF s1] by (simp add: same_state_def)
      ultimately show False
        using l1 k x by (auto simp: leads_to_def bindings_def elim: converse_rtranclE)
    next
      case False
      with l1 leads_to_components [OF k] obtain c where c: "c \<in> set (components (in_arena s1) k)" and lc: "leads_to s1 v c"
        by blast
      from occurs_kind_False [OF o reads_occurs c] obtain s2 s3 where s2: "same_state s1 s2"
        and oc: "occurs n v c s2 = (Inr False, s3)" by blast
      have ss: "same_state s s2" using s1 s2 by (rule same_state_trans)
      have "\<not> leads_to s2 v c"
        using Suc.IH [OF oc inf_inv_same [OF ss Suc.prems(2)]] ss Suc.prems(3,4) same_state_probe [OF ss]
        by (simp add: same_state_def)
      with lc leads_to_same [OF s2] show False by simp
    qed
  qed
qed

end
