(* ===== verification/Infer_Acyclic.thy ===== *)
theory Infer_Acyclic
  imports Infer_Occurs
begin

text \<open>
  Every arm of unification keeps the inference table acyclic: a general variable is bound after the
  occurs check, an integer or float variable only to types without general variables, and a failed
  probe is undone by its snapshot.
\<close>

section \<open>Binding a variable\<close>

lemma acyclic_edges:
  assumes "acyclic B" and "\<And>w. w \<in> T \<Longrightarrow> (w, v) \<notin> B\<^sup>*"
  shows "acyclic (B \<union> {v} \<times> T)"
proof -
  have "(x, y) \<in> B\<^sup>+ \<or> (x, v) \<in> B\<^sup>* \<and> (\<exists>w\<in>T. (w, y) \<in> B\<^sup>*)" if "(x, y) \<in> (B \<union> {v} \<times> T)\<^sup>+" for x y
    using that
  proof (induction rule: trancl_induct)
    case (base y)
    then show ?case by auto
  next
    case (step y z)
    then consider "(y, z) \<in> B" | "y = v" "z \<in> T" by blast
    then show ?case
    proof cases
      case 1
      with step.IH show ?thesis by (meson rtrancl_into_rtrancl trancl_into_trancl)
    next
      case 2
      with step.IH assms(2) show ?thesis by (auto intro: trancl_into_rtrancl)
    qed
  qed
  with assms show ?thesis unfolding acyclic_def by (meson rtrancl_trans)
qed

lemma set_value_upd: "set_value vs v t = Inr vs' \<Longrightarrow> length vs' = length vs \<and> value_of vs' = (value_of vs)(v \<mapsto> t)"
  by (auto simp: set_value_def value_of_def fun_eq_iff iv_get_set iv_set_def split: sum.splits if_splits)

lemma bind_ty_var_apply:
  "bind_ty_var v t s = (Inr (), s') \<Longrightarrow>
   in_arena s' = in_arena s \<and> same_size (in_table s) (in_table s') \<and>
   probe_ty_var (in_table s') = (probe_ty_var (in_table s))(v \<mapsto> t) \<and>
   probe_int_var (in_table s') = probe_int_var (in_table s) \<and> probe_float_var (in_table s') = probe_float_var (in_table s)"
  by (auto simp: bind_ty_var_def same_size_def probe_ty_var_def probe_int_var_def probe_float_var_def fun_eq_iff
      split: sum.splits dest: set_value_upd)

lemma bind_int_var_apply:
  "bind_int_var v t s = (Inr (), s') \<Longrightarrow>
   in_arena s' = in_arena s \<and> same_size (in_table s) (in_table s') \<and>
   probe_int_var (in_table s') = (probe_int_var (in_table s))(v \<mapsto> t) \<and>
   probe_ty_var (in_table s') = probe_ty_var (in_table s) \<and> probe_float_var (in_table s') = probe_float_var (in_table s)"
  by (auto simp: bind_int_var_def same_size_def probe_ty_var_def probe_int_var_def probe_float_var_def fun_eq_iff
      split: sum.splits dest: set_value_upd)

lemma bind_float_var_apply:
  "bind_float_var v t s = (Inr (), s') \<Longrightarrow>
   in_arena s' = in_arena s \<and> same_size (in_table s) (in_table s') \<and>
   probe_float_var (in_table s') = (probe_float_var (in_table s))(v \<mapsto> t) \<and>
   probe_ty_var (in_table s') = probe_ty_var (in_table s) \<and> probe_int_var (in_table s') = probe_int_var (in_table s)"
  by (auto simp: bind_float_var_def same_size_def probe_ty_var_def probe_int_var_def probe_float_var_def fun_eq_iff
      split: sum.splits dest: set_value_upd)

lemma inf_stepI:
  assumes "in_arena s' = in_arena s" and "same_size (in_table s) (in_table s')"
    and "length (it_ty_vars (in_table s)) \<le> MAX_RESOLVE_DEPTH \<Longrightarrow> arena_room (in_arena s) \<Longrightarrow> table_ok tm s \<Longrightarrow> table_ok tm s'"
  shows "inf_step tm s s'"
  using assms by (auto simp: inf_step_def inf_inv_def same_size_def)

lemma step_fail: "bind_ty_var v t s = (Inl e, s') \<Longrightarrow> inf_step tm s s'" "bind_int_var v t s = (Inl e, s') \<Longrightarrow> inf_step tm s s'"
  "bind_float_var v t s = (Inl e, s') \<Longrightarrow> inf_step tm s s'"
  by (auto simp: bind_ty_var_def bind_int_var_def bind_float_var_def split: sum.splits)

lemma bindings_upd: "bindings a (p(v \<mapsto> t)) \<subseteq> bindings a p \<union> {v} \<times> tvars a t"
  by (auto simp: bindings_def split: if_splits)

lemma bind_ty_step:
  assumes "valid_ty (in_arena s) t"
    and "length (it_ty_vars (in_table s)) \<le> MAX_RESOLVE_DEPTH \<Longrightarrow> arena_room (in_arena s) \<Longrightarrow> table_ok tm s \<Longrightarrow> \<not> leads_to s v t"
  shows "inf_step tm s (snd (bind_ty_var v t s))"
proof (cases "fst (bind_ty_var v t s)")
  case (Inl e)
  then show ?thesis by (intro step_fail(1) [of v t s e]) (simp add: prod_eq_iff)
next
  case (Inr x)
  define s' where "s' = snd (bind_ty_var v t s)"
  with Inr have b: "bind_ty_var v t s = (Inr (), s')" by (simp add: prod_eq_iff)
  note s' = bind_ty_var_apply [OF b]
  have "table_ok tm s'" if "table_ok tm s" and no: "\<not> leads_to s v t"
  proof -
    let ?B = "bindings (in_arena s) (probe_ty_var (in_table s))"
    have "acyclic (?B \<union> {v} \<times> tvars (in_arena s) t)"
      by (rule acyclic_edges) (use that in \<open>auto simp: table_ok_def leads_to_def\<close>)
    then have "acyclic (bindings (in_arena s') (probe_ty_var (in_table s')))"
      using s' bindings_upd by (metis acyclic_subset)
    with that(1) s' assms(1) show ?thesis by (auto simp: table_ok_def split: if_splits)
  qed
  with assms(2) s' show ?thesis unfolding s'_def [symmetric] by (intro inf_stepI) blast+
qed

lemma bind_int_step:
  assumes "ty_kind (in_arena s) t = Inr k" and "int_side k"
  shows "inf_step tm s (snd (bind_int_var v t s))"
proof (cases "fst (bind_int_var v t s)")
  case (Inl e)
  then show ?thesis by (intro step_fail(2) [of v t s e]) (simp add: prod_eq_iff)
next
  case (Inr x)
  define s' where "s' = snd (bind_int_var v t s)"
  with Inr have b: "bind_int_var v t s = (Inr (), s')" by (simp add: prod_eq_iff)
  from bind_int_var_apply [OF b] assms show ?thesis
    unfolding s'_def [symmetric] by (intro inf_stepI) (auto simp: table_ok_def split: if_splits)
qed

lemma bind_float_step:
  assumes "ty_kind (in_arena s) t = Inr k" and "float_side k"
  shows "inf_step tm s (snd (bind_float_var v t s))"
proof (cases "fst (bind_float_var v t s)")
  case (Inl e)
  then show ?thesis by (intro step_fail(3) [of v t s e]) (simp add: prod_eq_iff)
next
  case (Inr x)
  define s' where "s' = snd (bind_float_var v t s)"
  with Inr have b: "bind_float_var v t s = (Inr (), s')" by (simp add: prod_eq_iff)
  from bind_float_var_apply [OF b] assms show ?thesis
    unfolding s'_def [symmetric] by (intro inf_stepI) (auto simp: table_ok_def split: if_splits)
qed

text \<open>A variable-free type of the integer or float side can be bound to any general variable.\<close>

lemma bind_ty_side_step:
  assumes "ty_kind (in_arena s) t = Inr k" and "int_side k \<or> float_side k"
  shows "inf_step tm s (snd (bind_ty_var v t s))"
  by (rule bind_ty_step) (use assms kind_valid tvars_sides in \<open>auto simp: leads_to_def\<close>)

section \<open>The arms that bind\<close>

lemma inf_step_bind:
  assumes "inf_step tm s (snd (m s))" and "\<And>x t. m s = (Inr x, t) \<Longrightarrow> inf_step tm t (snd (f x t))"
  shows "inf_step tm s (snd (sx_bind m f s))"
  using assms by (auto simp: sx_bind_def split: prod.splits sum.splits intro: inf_step_trans)

lemma keepsD: "inf_keeps tm m \<Longrightarrow> inf_step tm s (snd (m s))"
  by (simp add: inf_keeps_def)

lemma keeps_err [keeps]: "inf_keeps tm (err_vs tm span pre mid a b)" "inf_keeps tm (err_mismatch tm span a b)"
  "inf_keeps tm (err_expected tm span what b)"
  by (auto simp: err_vs_def err_mismatch_def err_expected_def intro!: keeps)

lemma kind_stays: "same_state s t \<Longrightarrow> ty_kind (in_arena s) ty = Inr k \<Longrightarrow> ty_kind (in_arena t) ty = Inr k"
  by (simp add: same_state_def)

lemma kind_case_step:
  assumes "\<And>k. ty_kind (in_arena s) ty = Inr k \<Longrightarrow> inf_step tm s (snd (f k s))"
  shows "inf_step tm s (snd ((if c then sx_return [] else sx_bind (kind_of_ty ty) f) s))"
  using assms by (simp add: sx_apply sx_bind_def kind_of_ty_apply split: sum.split)

lemma unify_int_step:
  assumes "ty_kind (in_arena s) (if a_is_int then a else b) = Inr (TyKind.Infer (InferInt x))"
  shows "inf_step tm s (snd (unify_int tm span a b var a_is_int s))"
  unfolding unify_int_def Let_def
proof (rule inf_step_bind)
  show "inf_step tm s (snd (resolve_preserve_int (if a_is_int then b else a) s))" by (rule keepsD) (rule keeps)
next
  fix other t
  assume "resolve_preserve_int (if a_is_int then b else a) s = (Inr other, t)"
  with reads_preserve_int have "same_state s t" by (rule inf_readsD)
  note iv = kind_stays [OF this assms]
  let ?arm = "\<lambda>k. case k of
       TyKind.Int _ \<Rightarrow> sx_bind (bind_int_var var other) (\<lambda>_. sx_return [])
     | TyKind.Uint _ \<Rightarrow> sx_bind (bind_int_var var other) (\<lambda>_. sx_return [])
     | TyKind.Infer (InferInt _) \<Rightarrow> sx_bind (bind_int_var var other) (\<lambda>_. sx_return [])
     | TyKind.Error \<Rightarrow> sx_bind (bind_int_var var other) (\<lambda>_. sx_return [])
     | TyKind.Infer (InferTy general) \<Rightarrow> sx_bind (bind_ty_var general (if a_is_int then a else b)) (\<lambda>_. sx_return [])
     | _ \<Rightarrow> err_expected tm span ''integer'' b"
  have "inf_step tm t (snd (?arm k t))" if k: "ty_kind (in_arena t) other = Inr k" for k
  proof -
    have "inf_step tm t (snd (sx_bind (bind_int_var var other) (\<lambda>_. sx_return []) t))" if "int_side k"
      by (rule inf_step_bind) (use k that bind_int_step in \<open>auto simp: sx_apply\<close>)
    moreover have "inf_step tm t (snd (sx_bind (bind_ty_var v (if a_is_int then a else b)) (\<lambda>_. sx_return []) t))" for v
      by (rule inf_step_bind) (use iv in \<open>auto intro: bind_ty_side_step simp: sx_apply\<close>)
    moreover have "inf_step tm t (snd (err_expected tm span ''integer'' b t))" by (rule keepsD) (rule keeps)
    ultimately show ?thesis by (auto split: TyKind.split InferVar.split)
  qed
  then show "inf_step tm t (snd ((if other = (if a_is_int then a else b) then sx_return []
      else sx_bind (kind_of_ty other) ?arm) t))"
    by (rule kind_case_step)
qed

lemma unify_float_step:
  assumes "ty_kind (in_arena s) (if a_is_float then a else b) = Inr (TyKind.Infer (InferFloat x))"
  shows "inf_step tm s (snd (unify_float tm span a b var a_is_float s))"
  unfolding unify_float_def Let_def
proof (rule inf_step_bind)
  show "inf_step tm s (snd (resolve_preserve_int (if a_is_float then b else a) s))" by (rule keepsD) (rule keeps)
next
  fix other t
  assume "resolve_preserve_int (if a_is_float then b else a) s = (Inr other, t)"
  with reads_preserve_int have "same_state s t" by (rule inf_readsD)
  note fv = kind_stays [OF this assms]
  let ?arm = "\<lambda>k. case k of
       TyKind.Float _ \<Rightarrow> sx_bind (bind_float_var var other) (\<lambda>_. sx_return [])
     | TyKind.Infer (InferFloat _) \<Rightarrow> sx_bind (bind_float_var var other) (\<lambda>_. sx_return [])
     | TyKind.Error \<Rightarrow> sx_bind (bind_float_var var other) (\<lambda>_. sx_return [])
     | TyKind.Infer (InferTy general) \<Rightarrow> sx_bind (bind_ty_var general (if a_is_float then a else b)) (\<lambda>_. sx_return [])
     | _ \<Rightarrow> err_expected tm span ''float'' b"
  have "inf_step tm t (snd (?arm k t))" if k: "ty_kind (in_arena t) other = Inr k" for k
  proof -
    have "inf_step tm t (snd (sx_bind (bind_float_var var other) (\<lambda>_. sx_return []) t))" if "float_side k"
      by (rule inf_step_bind) (use k that bind_float_step in \<open>auto simp: sx_apply\<close>)
    moreover have "inf_step tm t (snd (sx_bind (bind_ty_var v (if a_is_float then a else b)) (\<lambda>_. sx_return []) t))" for v
      by (rule inf_step_bind) (use fv in \<open>auto intro: bind_ty_side_step simp: sx_apply\<close>)
    moreover have "inf_step tm t (snd (err_expected tm span ''float'' b t))" by (rule keepsD) (rule keeps)
    ultimately show ?thesis by (auto split: TyKind.split InferVar.split)
  qed
  then show "inf_step tm t (snd ((if other = (if a_is_float then a else b) then sx_return []
      else sx_bind (kind_of_ty other) ?arm) t))"
    by (rule kind_case_step)
qed

lemma shallow_valid: "resolve_ty_shallow ty s = (Inr t, s') \<Longrightarrow> valid_ty (in_arena s) ty"
  by (auto simp: resolve_ty_shallow_def sx_bind_def kind_of_ty_apply dest: kind_valid split: sum.splits)

lemma bind_checked_step:
  assumes "probe_ty_var (in_table s) var = None"
  shows "inf_step tm s (snd (bind_checked tm n span a b var other s))"
  unfolding bind_checked_def
proof (rule inf_step_bind)
  show "inf_step tm s (snd (occurs n var other s))" by (rule keepsD) (rule keeps)
next
  fix occ t
  assume o: "occurs n var other s = (Inr occ, t)"
  with reads_occurs have st: "same_state s t" by (rule inf_readsD)
  have "inf_step tm t (snd (bind_ty_var var other t))" if "\<not> occ"
  proof (rule bind_ty_step)
    have "valid_ty (in_arena s) other"
      using o by (cases n) (auto simp: sx_apply sx_bind_def dest: shallow_valid split: prod.splits sum.splits)
    with st show "valid_ty (in_arena t) other" by (simp add: same_state_def)
  next
    assume t: "length (it_ty_vars (in_table t)) \<le> MAX_RESOLVE_DEPTH" "arena_room (in_arena t)" "table_ok tm t"
    have ts: "same_state t s" using st by (simp add: same_state_def same_values_def)
    then have "inf_inv tm s" "arena_room (in_arena s)"
      using t inf_inv_same [of t s tm] by (simp_all add: inf_inv_def same_state_def)
    with o that assms have "\<not> leads_to s var other" by (intro occurs_sound) auto
    with leads_to_same [OF st] show "\<not> leads_to t var other" by simp
  qed
  then have "inf_step tm t (snd (sx_bind (bind_ty_var var other) (\<lambda>_. sx_return []) t))" if "\<not> occ"
    using that by (intro inf_step_bind) (auto simp: sx_apply)
  moreover have "inf_step tm t (snd (err_vs tm span pre mid a b t))" for pre mid by (rule keepsD) (rule keeps)
  ultimately show "inf_step tm t (snd ((if occ then err_vs tm span ''cannot construct infinite type: '' '' = '' a b
      else sx_bind (bind_ty_var var other) (\<lambda>_. sx_return [])) t))" by (cases occ) simp_all
qed

lemma keeps_unify_var [keeps]:
  assumes "\<And>x y. inf_keeps tm (rec x y)"
  shows "inf_keeps tm (unify_var tm n rec span a b var other other_ty)"
  unfolding inf_keeps_def
proof
  fix s
  show "inf_step tm s (snd (unify_var tm n rec span a b var other other_ty s))"
    unfolding unify_var_def
  proof (rule inf_step_bind)
    show "inf_step tm s (snd (ty_var_at var s))" by (rule keepsD) (rule keeps)
  next
    fix tv t
    assume "ty_var_at var s = (Inr tv, t)"
    then have t: "t = s" and v: "probe_ty_var (in_table s) var = tv_value tv"
      by (auto simp: ty_var_at_def probe_ty_var_def value_of_def iv_index_get split: sum.splits option.splits)
    have "inf_step tm s (snd (err_expected tm span what b s))" for what by (rule keepsD) (rule keeps)
    moreover have "inf_step tm s (snd (sx_bind (resolve_preserve_int other_ty) (\<lambda>r. sx_bind (is_ok (rec u r)) (\<lambda>_. sx_return [])) s))" for u
      by (rule keepsD) (intro keeps assms)
    ultimately show "inf_step tm t (snd ((case tv_value tv of
        Some bound \<Rightarrow>
           sx_bind (resolve_preserve_int other_ty) (\<lambda>other_resolved.
           sx_bind (is_ok (rec bound other_resolved)) (\<lambda>_. sx_return []))
       | None \<Rightarrow>
           if fits_var (tv_kind tv) other then bind_checked tm n span a b var other_ty
           else err_expected tm span (if tv_kind tv = IntegerVar then ''integer'' else ''float'') b) t))"
      using t v bind_checked_step by (auto split: option.split)
  qed
qed

section \<open>Probes\<close>

lemma copy_front_same [simp]: "length ds = length ss \<Longrightarrow> copy_front ds ss = ss"
  by (induction ds ss rule: list_induct2) simp_all

lemma rollback_step:
  assumes "inf_step tm s s'"
  shows "inf_step tm s (s'\<lparr>in_table := rollback_to (snapshot_of (in_table s)) (in_table s')\<rparr>)" (is "inf_step tm s ?r")
proof -
  have le: "arena_le (in_arena s) (in_arena s')" and sz: "same_size (in_table s) (in_table s')"
    and inv: "inf_inv tm s \<Longrightarrow> inf_inv tm s'" using assms by (auto simp: inf_step_def)
  have sv: "same_values (in_table s) (in_table ?r)"
    using sz by (simp add: same_values_def rollback_to_def snapshot_of_def same_size_def)
  have "table_ok tm ?r" if "inf_inv tm s" "arena_room (in_arena ?r)"
  proof (rule table_ok_same [OF _ sv])
    show "table_ok tm s" using that arena_room_le [OF le] by (simp add: inf_inv_def)
    show "arena_good (tm_ctx tm) (in_arena ?r)" using inv that by (simp add: inf_inv_def table_ok_def)
  qed (use le in simp)
  with le sv show ?thesis by (auto simp: inf_step_def inf_inv_def same_size_def same_values_def)
qed

lemma keeps_probe [keeps]:
  assumes "\<And>x y. inf_keeps tm (rec x y)" and "inf_keeps tm c"
  shows "inf_keeps tm (probe rec c)"
  unfolding probe_def
proof (rule keeps_bind [OF assms(2)])
  fix o1 :: "(Ty \<times> Ty) option"
  show "inf_keeps tm (case o1 of None \<Rightarrow> sx_return False
       | Some (t, u) \<Rightarrow>
           sx_bind (sx_get (\<lambda>s. snapshot_of (in_table s))) (\<lambda>snap.
           sx_bind (is_ok (rec t u)) (\<lambda>ok.
             if ok then sx_return True
             else sx_bind (rollback snap) (\<lambda>_. sx_return False))))"
  proof (cases o1)
    case None
    then show ?thesis by (simp add: keeps)
  next
    case (Some tu)
    obtain t u where tu: "tu = (t, u)" by force
    have "inf_step tm s (snd (sx_bind (is_ok (rec t u)) (\<lambda>ok. if ok then sx_return True
             else sx_bind (rollback (snapshot_of (in_table s))) (\<lambda>_. sx_return False)) s))" for s
    proof -
      obtain r s' where r: "is_ok (rec t u) s = (r, s')" by force
      then have st: "inf_step tm s s'" using keeps_is_ok [OF assms(1)] keepsD by (metis snd_conv)
      with r rollback_step [OF st] show ?thesis
        by (cases r) (auto simp: sx_bind_def rollback_def sx_apply)
    qed
    with Some tu show ?thesis by (simp add: inf_keeps_def sx_bind_def sx_apply)
  qed
qed

lemma keeps_probe_each [keeps]:
  "(\<And>x y. inf_keeps tm (rec x y)) \<Longrightarrow> (\<And>c. c \<in> set cs \<Longrightarrow> inf_keeps tm c) \<Longrightarrow> inf_keeps tm (probe_each rec cs)"
  by (induction cs) (auto intro!: keeps)

lemma keeps_candidates [keeps]:
  "inf_keeps tm (vec_to_slice ta tb)" "inf_keeps tm (deref_left tm ta tb)" "inf_keeps tm (deref_right tm ta tb)"
  by (auto simp: vec_to_slice_def deref_left_def deref_right_def intro!: keeps
      split: TyKind.split list.split GenericArg.split)

section \<open>The other arms\<close>

lemma keeps_unify_pairs [keeps]: "(\<And>x y. inf_keeps tm (rec x y)) \<Longrightarrow> inf_keeps tm (unify_pairs rec ps)"
  by (induction rec ps rule: unify_pairs.induct) (auto intro!: keeps)

lemma keeps_unify_args [keeps]:
  "(\<And>x y. inf_keeps tm (rec x y)) \<Longrightarrow> inf_keeps tm bad \<Longrightarrow> inf_keeps tm bad' \<Longrightarrow> inf_keeps tm (unify_args rec bad bad' sa sb)"
  by (auto simp: unify_args_def Let_def intro!: keeps)

lemma keeps_unify_same_id [keeps]:
  "(\<And>x y. inf_keeps tm (rec x y)) \<Longrightarrow> inf_keeps tm (unify_same_id tm rec span what a b ia ib)"
  by (auto simp: unify_same_id_def intro!: keeps)

lemma keeps_unify_refs [keeps]:
  "(\<And>x y. inf_keeps tm (rec x y)) \<Longrightarrow> inf_keeps tm (unify_refs tm rec ra ta rb tb)"
  by (auto simp: unify_refs_def Let_def simp del: probe_each.simps intro!: keeps)

lemma keeps_unify_fn_ptrs [keeps]:
  "(\<And>x y. inf_keeps tm (rec x y)) \<Longrightarrow> inf_keeps tm (unify_fn_ptrs rec span sa sb)"
  by (auto simp: unify_fn_ptrs_def intro!: keeps)

lemma keeps_unify_adts [keeps]:
  "(\<And>x y. inf_keeps tm (rec x y)) \<Longrightarrow> inf_keeps tm (unify_adts tm rec span a b ia ib)"
  by (auto simp: unify_adts_def intro!: keeps)

lemma keeps_unify_ref_ptr [keeps]:
  "(\<And>x y. inf_keeps tm (rec x y)) \<Longrightarrow> inf_keeps tm (unify_ref_ptr tm rec span a b r p)"
  by (auto simp: unify_ref_ptr_def intro!: keeps)

lemma keeps_inf_map [keeps]: "(\<And>x. inf_keeps tm (f x)) \<Longrightarrow> inf_keeps tm (inf_map f xs)"
  by (induction xs) (auto intro!: keeps)

lemma keeps_unify_outputs [keeps]:
  "(\<And>x y. inf_keeps tm (rec x y)) \<Longrightarrow> inf_keeps tm (unify_outputs rec ta tb cs)"
  by (auto simp: unify_outputs_def intro!: keeps)

lemma keeps_unify_fn_item [keeps]:
  "(\<And>x y. inf_keeps tm (rec x y)) \<Longrightarrow> inf_keeps tm (unify_fn_item tm rec span a b item sig)"
  by (auto simp: unify_fn_item_def Let_def intro!: keeps split: option.split)

lemma keeps_unify_closure_ptr [keeps]:
  "(\<And>x y. inf_keeps tm (rec x y)) \<Longrightarrow> inf_keeps tm (unify_closure_ptr tm rec cid sig)"
  by (auto simp: unify_closure_ptr_def Let_def intro!: keeps split: option.split)

lemma keeps_unify_dyn_args [keeps]:
  "(\<And>x y. inf_keeps tm (rec x y)) \<Longrightarrow> inf_keeps tm (unify_dyn_args tm rec span gas gbs)"
  by (induction tm rec span gas gbs rule: unify_dyn_args.induct) (auto intro!: keeps split: GenericArg.split)

lemma keeps_unify_trait_preds [keeps]:
  "(\<And>x y. inf_keeps tm (rec x y)) \<Longrightarrow> inf_keeps tm (unify_trait_preds tm rec span ta tb)"
  by (auto simp: unify_trait_preds_def intro!: keeps)

lemma keeps_unify_preds [keeps]:
  "(\<And>x y. inf_keeps tm (rec x y)) \<Longrightarrow> inf_keeps tm (unify_preds tm rec span pa pb)"
  by (cases pa; cases pb) (auto simp: unify_preds_def intro!: keeps)

lemma keeps_unify_pred_lists [keeps]:
  "(\<And>x y. inf_keeps tm (rec x y)) \<Longrightarrow> inf_keeps tm (unify_pred_lists tm rec span pas pbs)"
  by (induction tm rec span pas pbs rule: unify_pred_lists.induct) (auto intro!: keeps)

lemma keeps_unify_dyns [keeps]:
  "(\<And>x y. inf_keeps tm (rec x y)) \<Longrightarrow> inf_keeps tm (unify_dyns tm rec span da db)"
  by (auto simp: unify_dyns_def intro!: keeps)

lemma keeps_unify_projections [keeps]:
  "(\<And>x y. inf_keeps tm (rec x y)) \<Longrightarrow> inf_keeps tm (unify_projections tm rec span a b pa pb)"
  by (auto simp: unify_projections_def intro!: keeps)

lemma keeps_unify_kinds [keeps]:
  "(\<And>x y. inf_keeps tm (rec x y)) \<Longrightarrow> inf_keeps tm (unify_kinds tm rec span a b ka kb)"
  by (cases ka; cases kb) (auto simp: unify_kinds_def intro!: keeps)

lemma unify_match_step:
  assumes rec: "\<And>x y. inf_keeps tm (rec x y)"
    and a: "ty_kind (in_arena s) a = Inr ka" and b: "ty_kind (in_arena s) b = Inr kb"
  shows "inf_step tm s (snd (unify_match tm n rec span a b ka kb s))"
proof -
  have int: "inf_step tm s (snd (unify_int tm span a b var left s))"
    if "(if left then ka else kb) = TyKind.Infer (InferInt var)" for left var
    by (rule unify_int_step [of s left a b var]) (use that a b in \<open>auto split: if_splits\<close>)
  have float: "inf_step tm s (snd (unify_float tm span a b var left s))"
    if "(if left then ka else kb) = TyKind.Infer (InferFloat var)" for left var
    by (rule unify_float_step [of s left a b var]) (use that a b in \<open>auto split: if_splits\<close>)
  have var: "inf_step tm s (snd (unify_var tm n rec span a b var other other_ty s))" for var other other_ty
    by (rule keepsD) (intro keeps rec)
  have kinds: "inf_step tm s (snd (unify_kinds tm rec span a b ka kb s))" by (rule keepsD) (intro keeps rec)
  show ?thesis
    unfolding unify_match_def using int [of True] int [of False] float [of True] float [of False] var kinds
    by (auto simp: sx_apply split: TyKind.split InferVar.split)
qed

lemma keeps_unify_tys [keeps]: "inf_keeps tm (unify_tys n tm span a b)"
proof (induction n arbitrary: a b)
  case 0
  then show ?case by (simp add: keeps)
next
  case (Suc n)
  show ?case
    unfolding inf_keeps_def
  proof
    fix s
    show "inf_step tm s (snd (unify_tys (Suc n) tm span a b s))"
      by (auto simp: sx_apply sx_bind_def kind_of_ty_apply intro!: unify_match_step Suc split: sum.split)
  qed
qed

lemma keeps_unify [keeps]: "inf_keeps tm (unify n tm span a b)"
  by (auto simp: unify_def intro!: keeps)

end
