(* ===== verification/Infer_Exact.thy ===== *)
theory Infer_Exact
  imports Infer_Occurs
begin

text \<open>
  The occurs check is exact and ends: on an acyclic table, with enough levels, it returns whether the
  type leads to the variable.
\<close>

section \<open>Resolution ends\<close>

text \<open>The defaults resolution falls back to are where \<open>TyCtxMut::new\<close> puts them.\<close>

definition seeded :: "TypeArena \<Rightarrow> bool" where
  "seeded a \<longleftrightarrow> ty_kind a Ty_ERROR = Inr TyKind.Error \<and> ty_kind a Ty_I32 = Inr (TyKind.Int I32) \<and>
     ty_kind a Ty_F64 = Inr (TyKind.Float F64)"

fun plain :: "TyKind \<Rightarrow> bool" where
  "plain (TyKind.Int _) = True"
| "plain (TyKind.Uint _) = True"
| "plain (TyKind.Float _) = True"
| "plain TyKind.Error = True"
| "plain _ = False"

lemma plain_components [simp]: "plain k \<Longrightarrow> components a k = []"
  by (cases k rule: plain.cases) auto

lemma leads_to_plain: "ty_kind (in_arena s) t = Inr k \<Longrightarrow> plain k \<Longrightarrow> \<not> leads_to s v t"
  by (cases k rule: plain.cases) (auto simp: leads_to_def tvars_unfold)

lemma resolve_error_apply: "\<exists>s'. resolve_error msg s = (Inr Ty_ERROR, s') \<and> same_state s s'"
  by (simp add: resolve_error_def sx_bind_def sx_apply same_state_def same_values_def)

lemma table_ok_sides:
  assumes "table_ok tm s"
  shows "probe_int_var (in_table s) x = Some u \<Longrightarrow> \<exists>k. ty_kind (in_arena s) u = Inr k \<and> int_side k"
    and "probe_float_var (in_table s) x = Some u \<Longrightarrow> \<exists>k. ty_kind (in_arena s) u = Inr k \<and> float_side k"
  using assms unfolding table_ok_def by blast+

lemma resolve_int_side:
  assumes "table_ok tm s" and "seeded (in_arena s)" and "ty_kind (in_arena s) ty = Inr k" and "int_side k"
  shows "\<exists>t s' kd. resolve_ty_shallow_depth n vis ty s = (Inr t, s') \<and> ty_kind (in_arena s) t = Inr kd \<and> plain kd"
  using assms(3,4)
proof (induction n arbitrary: ty k)
  case 0
  with assms(2) resolve_error_apply show ?case by (fastforce simp: seeded_def)
next
  case (Suc n)
  show ?case
  proof (cases "\<exists>x. k = TyKind.Infer (InferInt x)")
    case True
    then obtain x where x: "k = TyKind.Infer (InferInt x)" by blast
    show ?thesis
    proof (cases "probe_int_var (in_table s) x")
      case None
      with x Suc.prems assms(2) show ?thesis by (auto simp: sx_bind_def kind_of_ty_apply sx_apply seeded_def)
    next
      case (Some u)
      with assms(1) obtain k' where "ty_kind (in_arena s) u = Inr k'" "int_side k'" using table_ok_sides(1) by blast
      from Suc.IH [OF this] x Some Suc.prems show ?thesis by (simp add: sx_bind_def kind_of_ty_apply sx_apply)
    qed
  next
    case False
    with Suc.prems show ?thesis
      by (cases k rule: int_side.cases) (auto simp: sx_bind_def kind_of_ty_apply sx_apply)
  qed
qed

lemma resolve_float_side:
  assumes "table_ok tm s" and "seeded (in_arena s)" and "ty_kind (in_arena s) ty = Inr k" and "float_side k"
  shows "\<exists>t s' kd. resolve_ty_shallow_depth n vis ty s = (Inr t, s') \<and> ty_kind (in_arena s) t = Inr kd \<and> plain kd"
  using assms(3,4)
proof (induction n arbitrary: ty k)
  case 0
  with assms(2) resolve_error_apply show ?case by (fastforce simp: seeded_def)
next
  case (Suc n)
  show ?case
  proof (cases "\<exists>x. k = TyKind.Infer (InferFloat x)")
    case True
    then obtain x where x: "k = TyKind.Infer (InferFloat x)" by blast
    show ?thesis
    proof (cases "probe_float_var (in_table s) x")
      case None
      with x Suc.prems assms(2) show ?thesis by (auto simp: sx_bind_def kind_of_ty_apply sx_apply seeded_def)
    next
      case (Some u)
      with assms(1) obtain k' where "ty_kind (in_arena s) u = Inr k'" "float_side k'" using table_ok_sides(2) by blast
      from Suc.IH [OF this] x Some Suc.prems show ?thesis by (simp add: sx_bind_def kind_of_ty_apply sx_apply)
    qed
  next
    case False
    with Suc.prems show ?thesis
      by (cases k rule: float_side.cases) (auto simp: sx_bind_def kind_of_ty_apply sx_apply)
  qed
qed

text \<open>The variables a type leads to; a step of resolution loses one.\<close>

definition led_to :: "InferState \<Rightarrow> Ty \<Rightarrow> u32 set" where
  "led_to s t = (bindings (in_arena s) (probe_ty_var (in_table s)))\<^sup>* `` tvars (in_arena s) t"

lemma leads_to_led: "leads_to s v t \<longleftrightarrow> v \<in> led_to s t"
  by (auto simp: leads_to_def led_to_def)

lemma led_to_bound:
  assumes "table_ok tm s" and "ty_kind (in_arena s) t = Inr (TyKind.Infer (InferTy x))"
    and "probe_ty_var (in_table s) x = Some u"
  shows "led_to s u \<subset> led_to s t"
proof -
  let ?B = "bindings (in_arena s) (probe_ty_var (in_table s))"
  have u: "(x, w) \<in> ?B \<longleftrightarrow> w \<in> tvars (in_arena s) u" for w using assms(3) by (auto simp: bindings_def)
  then have step: "y \<in> led_to s u \<longleftrightarrow> (x, y) \<in> ?B\<^sup>+" for y
    by (auto simp: led_to_def trancl_unfold_left relcomp_unfold)
  have "led_to s t = ?B\<^sup>* `` {x}" using assms(2) by (simp add: led_to_def)
  moreover have "(x, x) \<notin> ?B\<^sup>+" using assms(1) by (auto simp: table_ok_def acyclic_def)
  ultimately show ?thesis using step by (auto dest: trancl_into_rtrancl)
qed

lemma resolve_total:
  assumes "table_ok tm s" and "seeded (in_arena s)" and "length (it_ty_vars (in_table s)) \<le> 256"
    and "probe_ty_var (in_table s) v = None" and "valid_ty (in_arena s) ty"
    and "distinct vis" and "k + length vis = 257"
    and "\<forall>x\<in>set vis. probe_ty_var (in_table s) x \<noteq> None \<and>
          (\<forall>y\<in>tvars (in_arena s) ty. (x, y) \<in> (bindings (in_arena s) (probe_ty_var (in_table s)))\<^sup>+)"
  shows "\<exists>t s' kd. resolve_ty_shallow_depth k vis ty s = (Inr t, s') \<and> ty_kind (in_arena s) t = Inr kd \<and>
    (leads_to s v t \<longleftrightarrow> leads_to s v ty) \<and> (plain kd \<or> t = ty \<or> led_to s t \<subset> led_to s ty) \<and>
    (\<forall>x. kd = TyKind.Infer (InferTy x) \<longrightarrow> probe_ty_var (in_table s) x = None)"
  using assms
proof (induction k arbitrary: vis ty)
  case 0
  have "length vis \<le> 256"
    using distinct_vars [of vis "length (it_ty_vars (in_table s))"] 0 probe_index by force
  with 0 show ?case by simp
next
  case (Suc k)
  let ?a = "in_arena s" and ?p = "probe_ty_var (in_table s)"
  let ?B = "bindings ?a ?p"
  obtain kd where kd: "ty_kind ?a ty = Inr kd" using valid_ty_kind [OF Suc.prems(5)] by blast
  consider (general) x where "kd = TyKind.Infer (InferTy x)" | (int) "\<exists>x. kd = TyKind.Infer (InferInt x)"
    | (float) "\<exists>x. kd = TyKind.Infer (InferFloat x)" | (other) "\<And>iv. kd \<noteq> TyKind.Infer iv"
    by (metis InferVar.exhaust)
  then show ?case
  proof cases
    case (general x)
    with kd have tv: "tvars ?a ty = {x}" by simp
    have cyc: "x \<notin> set vis" using Suc.prems(1,8) tv by (auto simp: table_ok_def acyclic_def)
    show ?thesis
    proof (cases "?p x")
      case None
      with kd general cyc show ?thesis by (simp add: sx_bind_def kind_of_ty_apply sx_apply)
    next
      case (Some u)
      have succ: "(x, y) \<in> ?B" if "y \<in> tvars ?a u" for y using that Some by (auto simp: bindings_def)
      have "\<forall>w\<in>set (x # vis). ?p w \<noteq> None \<and> (\<forall>y\<in>tvars ?a u. (w, y) \<in> ?B\<^sup>+)"
        using Suc.prems(8) tv Some succ by (auto intro: trancl_into_trancl)
      moreover have "distinct (x # vis)" "k + length (x # vis) = 257" using Suc.prems(6,7) cyc by simp_all
      moreover have "valid_ty ?a u" using Suc.prems(1) Some by (simp add: table_ok_def)
      ultimately obtain t s' kt where t: "resolve_ty_shallow_depth k (x # vis) u s = (Inr t, s')"
        "ty_kind ?a t = Inr kt" "leads_to s v t \<longleftrightarrow> leads_to s v u" "plain kt \<or> t = u \<or> led_to s t \<subset> led_to s u"
        "\<forall>x. kt = TyKind.Infer (InferTy x) \<longrightarrow> ?p x = None"
        using Suc.IH [OF Suc.prems(1-4)] by blast
      have sub: "led_to s u \<subset> led_to s ty" using led_to_bound [OF Suc.prems(1) _ Some] kd general by simp
      have "resolve_ty_shallow_depth (Suc k) vis ty s = (Inr t, s')"
        using t(1) kd general Some cyc by (simp add: sx_bind_def kind_of_ty_apply sx_apply)
      moreover have "leads_to s v t \<longleftrightarrow> leads_to s v ty"
        using leads_to_bound [OF _ Some Suc.prems(4)] kd general t(3) by simp
      ultimately show ?thesis using t(2,4,5) sub by blast
    qed
  next
    case int
    then have "int_side kd" by auto
    from resolve_int_side [OF Suc.prems(1,2) kd this] obtain t s' kt where
      t: "resolve_ty_shallow_depth (Suc k) vis ty s = (Inr t, s')" "ty_kind ?a t = Inr kt" "plain kt" by metis
    have "\<not> leads_to s v ty" using kd int by (auto simp: leads_to_def tvars_unfold)
    moreover have "kt \<noteq> TyKind.Infer iv" for iv using t(3) by auto
    ultimately show ?thesis using t leads_to_plain [OF t(2,3)] by blast
  next
    case float
    then have "float_side kd" by auto
    from resolve_float_side [OF Suc.prems(1,2) kd this] obtain t s' kt where
      t: "resolve_ty_shallow_depth (Suc k) vis ty s = (Inr t, s')" "ty_kind ?a t = Inr kt" "plain kt" by metis
    have "\<not> leads_to s v ty" using kd float by (auto simp: leads_to_def tvars_unfold)
    moreover have "kt \<noteq> TyKind.Infer iv" for iv using t(3) by auto
    ultimately show ?thesis using t leads_to_plain [OF t(2,3)] by blast
  next
    case other
    with kd have "resolve_ty_shallow_depth (Suc k) vis ty s = (Inr ty, s)"
      by (auto simp: sx_bind_def kind_of_ty_apply sx_apply split: TyKind.split)
    with kd other show ?thesis by blast
  qed
qed

section \<open>The check is exact\<close>

lemma any_of_exact:
  assumes "\<And>x t. x \<in> set xs \<Longrightarrow> same_state s t \<Longrightarrow> \<exists>t'. f x t = (Inr (P x), t')"
    and f: "\<And>x. inf_reads (f x)"
  shows "\<exists>s'. any_of f xs s = (Inr (\<exists>x\<in>set xs. P x), s')"
  using assms(1)
proof (induction xs arbitrary: s)
  case (Cons x xs)
  obtain t where t: "f x s = (Inr (P x), t)" using Cons.prems [of x s] by auto
  have st: "same_state s t" using f t by (rule inf_readsD)
  have "\<exists>s'. any_of f xs t = (Inr (\<exists>x\<in>set xs. P x), s')"
    by (rule Cons.IH) (use Cons.prems st in \<open>auto intro: same_state_trans\<close>)
  with t show ?case by (auto simp: sx_apply)
qed (simp add: sx_apply)

definition exact_on :: "InferState \<Rightarrow> (Ty \<Rightarrow> bool inf) \<Rightarrow> (Ty \<Rightarrow> bool) \<Rightarrow> Ty list \<Rightarrow> bool" where
  "exact_on s f P cs \<longleftrightarrow> (\<forall>c\<in>set cs. \<forall>t. same_state s t \<longrightarrow> (\<exists>t'. f c t = (Inr (P c), t')))"

lemma exact_on_same: "exact_on s f P cs \<Longrightarrow> same_state s t \<Longrightarrow> exact_on t f P cs"
  by (auto simp: exact_on_def intro: same_state_trans)

lemma any_arg_exact:
  assumes "substitution_args (in_arena s) u = Inr xs" and "exact_on s f P (subst_tys (in_arena s) u)"
    and f: "\<And>x. inf_reads (f x)"
  shows "\<exists>s'. any_arg f u s = (Inr (\<exists>c\<in>set (subst_tys (in_arena s) u). P c), s')"
proof -
  have "\<exists>s'. any_of f (arg_tys xs) s = (Inr (\<exists>c\<in>set (arg_tys xs). P c), s')"
    by (rule any_of_exact [OF _ f]) (use assms(1,2) in \<open>simp add: exact_on_def subst_tys_def\<close>)
  with assms(1) show ?thesis by (simp add: any_arg_def sx_bind_def args_of_subst_apply subst_tys_def)
qed

text \<open>Every argument list in a type of a good arena can be read.\<close>

lemma or_subst_flags_args: "or_subst_flags a u f = Inr g \<Longrightarrow> \<exists>xs. substitution_args a u = Inr xs"
  by (auto simp: or_subst_flags_def split: sum.splits)

lemma or_preds_flags_args:
  "or_preds_flags a ps f = Inr g \<Longrightarrow> TraitPred tr i \<in> set ps \<Longrightarrow> \<exists>xs. substitution_args a (tr_substs tr) = Inr xs"
  by (induction a ps f rule: or_preds_flags.induct) (auto dest: or_subst_flags_args split: sum.splits)

lemma good_flags:
  assumes "arena_good ctx a" and "ty_kind a t = Inr k"
  obtains f where "compute_flags ctx a k 0 = Inr f"
  using assms by (auto simp: arena_good_def flags_ok_def ty_kind_def split: if_splits)

lemma any_pred_exact:
  assumes flags: "or_preds_flags (in_arena s) ps 0 = Inr g" and "exact_on s f P (pred_tys (in_arena s) ps)"
    and f: "\<And>x. inf_reads (f x)"
  shows "\<exists>s'. any_of (any_pred f) ps s = (Inr (\<exists>c\<in>set (pred_tys (in_arena s) ps). P c), s')"
proof -
  let ?in = "\<lambda>p c. \<exists>tr i. p = TraitPred tr i \<and> c \<in> set (subst_tys (in_arena s) (tr_substs tr))"
  have key: "\<exists>t'. any_pred f p t = (Inr (\<exists>c. ?in p c \<and> P c), t')" if p: "p \<in> set ps" and t: "same_state s t" for p t
  proof (cases "\<exists>tr i. p = TraitPred tr i")
    case True
    then obtain tr i where tr: "p = TraitPred tr i" by blast
    obtain xs where xs: "substitution_args (in_arena s) (tr_substs tr) = Inr xs"
      using or_preds_flags_args [OF flags] p tr by blast
    have "set (subst_tys (in_arena s) (tr_substs tr)) \<subseteq> set (pred_tys (in_arena s) ps)"
      using p tr pred_tys_iff by blast
    then have "exact_on t f P (subst_tys (in_arena t) (tr_substs tr))"
      using exact_on_same [OF assms(2) t] t by (auto simp: exact_on_def same_state_def)
    from any_arg_exact [OF _ this f] xs t tr show ?thesis by (auto simp: any_pred_def same_state_def)
  next
    case False
    then show ?thesis by (cases p) (auto simp: any_pred_def sx_apply)
  qed
  obtain s' where "any_of (any_pred f) ps s = (Inr (\<exists>p\<in>set ps. \<exists>c. ?in p c \<and> P c), s')"
    using any_of_exact [of ps s "any_pred f" "\<lambda>p. \<exists>c. ?in p c \<and> P c", OF key reads_any_pred [OF f]] by blast
  moreover have "(\<exists>p\<in>set ps. \<exists>c. ?in p c \<and> P c) \<longleftrightarrow> (\<exists>c\<in>set (pred_tys (in_arena s) ps). P c)"
    unfolding Bex_def pred_tys_iff by blast
  ultimately show ?thesis by simp
qed

lemma occurs_kind_exact:
  assumes flags: "compute_flags ctx (in_arena s) k 0 = Inr g" and "exact_on s f P (components (in_arena s) k)"
    and f: "\<And>x. inf_reads (f x)"
  shows "\<exists>s'. occurs_kind f v k s =
    (Inr (k = TyKind.Infer (InferTy v) \<or> (\<exists>c\<in>set (components (in_arena s) k). P c)), s')"
proof (cases k)
  case (FnPtr sig)
  with flags obtain xs where xs: "substitution_args (in_arena s) (fs_inputs sig) = Inr xs"
    by (auto simp: compute_flags_def dest: or_subst_flags_args split: sum.splits)
  have "exact_on s f P (subst_tys (in_arena s) (fs_inputs sig))" and o: "exact_on s f P [fs_output sig]"
    using assms(2) FnPtr by (auto simp: exact_on_def)
  from any_arg_exact [OF xs this(1) f] obtain t
    where t: "any_arg f (fs_inputs sig) s = (Inr (\<exists>c\<in>set (subst_tys (in_arena s) (fs_inputs sig)). P c), t)" by blast
  have "same_state s t" using reads_any_arg [OF f] t by (rule inf_readsD)
  then obtain t' where "f (fs_output sig) t = (Inr (P (fs_output sig)), t')" using o by (auto simp: exact_on_def)
  with FnPtr t show ?thesis by (auto simp: occurs_kind_def sx_apply)
next
  case (Dynamic ps r)
  with flags obtain h where "or_preds_flags (in_arena s) (binder_value ps) 0 = Inr h"
    by (auto simp: compute_flags_def split: sum.splits)
  from any_pred_exact [OF this _ f] assms(2) Dynamic show ?thesis by (simp add: occurs_kind_def)
next
  case (Infer iv)
  then show ?thesis by (cases iv) (auto simp: occurs_kind_def sx_apply)
qed (use flags assms(2) any_arg_exact [OF _ _ f] in
    \<open>fastforce simp: occurs_kind_def sx_apply compute_flags_def exact_on_def
      dest!: or_subst_flags_args split: sum.splits\<close>)+

text \<open>The levels a check needs.\<close>

definition check_rank :: "InferState \<Rightarrow> Ty \<Rightarrow> nat" where
  "check_rank s t = card (led_to s t) * 2 ^ 32 + unat t"

lemma check_rank_less:
  assumes "led_to s u \<subset> led_to s t"
  shows "check_rank s u < check_rank s t"
proof -
  have "card (led_to s u) < card (led_to s t)" using assms by (simp add: psubset_card_mono)
  then have "Suc (card (led_to s u)) * 2 ^ 32 \<le> card (led_to s t) * 2 ^ 32" by (intro mult_le_mono1) simp
  moreover have "unat u < 2 ^ 32" using unsigned_less [of u] by simp
  ultimately show ?thesis unfolding check_rank_def by simp
qed

lemma check_rank_component:
  assumes "table_ok tm s" and k: "ty_kind (in_arena s) t = Inr k" and c: "c \<in> set (components (in_arena s) k)"
  shows "check_rank s c < check_rank s t"
proof -
  have "led_to s c \<subseteq> led_to s t" using tvars_unfold [OF k] c by (auto simp: led_to_def)
  then have "card (led_to s c) \<le> card (led_to s t)" by (simp add: card_mono)
  moreover have "unat c < unat t"
    by (rule good_components(1) [where ctx = "tm_ctx tm", OF _ k c]) (use assms(1) in \<open>simp add: table_ok_def\<close>)
  ultimately show ?thesis by (simp add: check_rank_def add_le_less_mono)
qed

lemma table_ok_same_state: "table_ok tm s \<Longrightarrow> same_state s t \<Longrightarrow> table_ok tm t"
  by (rule table_ok_same [of tm s t]) (simp_all add: same_state_def table_ok_def)

lemma check_rank_same: "same_state s t \<Longrightarrow> check_rank t ty = check_rank s ty"
  using same_state_probe [of s t] by (simp add: check_rank_def led_to_def same_state_def)

lemma occurs_exact:
  assumes "table_ok tm s" and "seeded (in_arena s)" and "length (it_ty_vars (in_table s)) \<le> 256"
    and "probe_ty_var (in_table s) v = None" and "valid_ty (in_arena s) ty" and "check_rank s ty < n"
  shows "\<exists>s'. occurs n v ty s = (Inr (leads_to s v ty), s')"
  using assms
proof (induction n arbitrary: ty s)
  case (Suc n)
  let ?a = "in_arena s"
  obtain r s1 k where r: "resolve_ty_shallow ty s = (Inr r, s1)" and k: "ty_kind ?a r = Inr k"
    and lt: "leads_to s v r \<longleftrightarrow> leads_to s v ty" and sz: "plain k \<or> r = ty \<or> led_to s r \<subset> led_to s ty"
    and open_var: "\<And>x. k = TyKind.Infer (InferTy x) \<Longrightarrow> probe_ty_var (in_table s) x = None"
    using resolve_total [of tm s v ty "[]" 257] Suc.prems by (auto simp: resolve_ty_shallow_def MAX_RESOLVE_DEPTH_def)
  have s1: "same_state s s1" using reads_shallow r by (rule inf_readsD)
  then have a1: "in_arena s1 = ?a" by (simp add: same_state_def)
  have "arena_good (tm_ctx tm) ?a" using Suc.prems(1) by (simp add: table_ok_def)
  from good_flags [OF this k] obtain g where g: "compute_flags (tm_ctx tm) ?a k 0 = Inr g" .
  have ex: "exact_on s1 (occurs n v) (leads_to s v) (components ?a k)"
    unfolding exact_on_def
  proof (intro ballI allI impI)
    fix c t
    assume c: "c \<in> set (components ?a k)" and "same_state s1 t"
    with s1 have t: "same_state s t" by (blast intro: same_state_trans)
    have "check_rank s c < check_rank s r" using check_rank_component [OF Suc.prems(1) k c] .
    also have "\<dots> \<le> check_rank s ty"
    proof -
      have "\<not> plain k" using c by auto
      with sz show ?thesis using less_imp_le [OF check_rank_less] by blast
    qed
    finally have "check_rank t c < n" using Suc.prems(6) check_rank_same [OF t] by simp
    moreover have "valid_ty ?a c"
      by (rule good_components(2) [where ctx = "tm_ctx tm", OF _ k c]) (use Suc.prems(1) in \<open>simp add: table_ok_def\<close>)
    then have "valid_ty (in_arena t) c" using t by (simp add: same_state_def)
    ultimately have "\<exists>t'. occurs n v c t = (Inr (leads_to t v c), t')"
      using Suc.IH [of t c] Suc.prems(2-4) t same_state_probe [OF t] table_ok_same_state [OF Suc.prems(1) t]
      by (simp add: same_state_def same_values_def)
    then show "\<exists>t'. occurs n v c t = (Inr (leads_to s v c), t')" by (simp add: leads_to_same [OF t])
  qed
  have "leads_to s v r \<longleftrightarrow> k = TyKind.Infer (InferTy v) \<or> (\<exists>c\<in>set (components ?a k). leads_to s v c)"
  proof (cases "\<exists>x. k = TyKind.Infer (InferTy x)")
    case True
    then obtain x where x: "k = TyKind.Infer (InferTy x)" by blast
    with k have "leads_to s v r \<longleftrightarrow> (x, v) \<in> (bindings ?a (probe_ty_var (in_table s)))\<^sup>*" by (simp add: leads_to_def)
    also have "\<dots> \<longleftrightarrow> x = v"
      using open_var [OF x] by (auto simp: bindings_def elim: converse_rtranclE)
    finally show ?thesis using x by simp
  next
    case False
    with leads_to_components [OF k] show ?thesis by auto
  qed
  moreover have "\<exists>s'. occurs_kind (occurs n v) v k s1 =
      (Inr (k = TyKind.Infer (InferTy v) \<or> (\<exists>c\<in>set (components (in_arena s1) k). leads_to s v c)), s')"
    by (rule occurs_kind_exact [where ctx = "tm_ctx tm" and g = g]) (use g ex a1 reads_occurs in simp_all)
  ultimately obtain s' where "occurs_kind (occurs n v) v k s1 = (Inr (leads_to s v ty), s')" using lt a1 by auto
  with r k a1 show ?case by (simp add: sx_bind_def kind_of_ty_apply)
qed simp

end
