(* ===== verification/Infer_Session.thy ===== *)
theory Infer_Session
  imports Infer_Acyclic Infer_Exact
begin

text \<open>
  The states an inference table goes through: \<open>session\<close> starts from a new context and table and closes
  under allocating types and variables, unification, and undoing a unification by its snapshot.
\<close>

section \<open>A new context\<close>

text \<open>\<open>TyCtxMut::new\<close>: the types with fixed handles, in order, each checked by an assertion.\<close>

definition sentinels :: "(TyKind \<times> Ty) list" where
  "sentinels =
     [(TyKind.Error, Ty_ERROR), (TyKind.Never, Ty_NEVER), (TyKind.Unit, Ty_UNIT), (TyKind.Bool, Ty_BOOL),
      (TyKind.Uint U8, Ty_U8), (TyKind.Uint U16, 5), (TyKind.Uint U32, 6), (TyKind.Uint U64, Ty_U64),
      (TyKind.Uint Usize, Ty_USIZE), (TyKind.Int I8, 9), (TyKind.Int I16, 10), (TyKind.Int I32, Ty_I32),
      (TyKind.Int I64, Ty_I64), (TyKind.Int Isize, 13), (TyKind.Float F32, 14), (TyKind.Float F64, Ty_F64)]"

fun seed :: "TyCtxMut \<Rightarrow> (TyKind \<times> Ty) list \<Rightarrow> unit tcx" where
  "seed tm [] = sx_return ()"
| "seed tm ((k, raw) # ks) = sx_bind (tm_mk_ty tm k) (\<lambda>t. if t = raw then seed tm ks else sx_fail Panicked)"

definition new_arena :: "TyCtxMut \<Rightarrow> TypeArena" where
  "new_arena tm = snd (seed tm sentinels ta_new)"

lemma sentinels_hold: "fst (seed tm sentinels ta_new) = Inr ()"
  by (simp add: sentinels_def sx_bind_def sx_apply tm_mk_ty_def mk_ty_def compute_flags_def alloc_ty_def ta_new_def
     Ty_ERROR_def Ty_NEVER_def Ty_UNIT_def Ty_BOOL_def Ty_U8_def Ty_U64_def Ty_USIZE_def Ty_I32_def Ty_I64_def Ty_F64_def)

lemma new_arena_types: "ta_types (new_arena tm) = map fst sentinels \<and> ta_substitution_data (new_arena tm) = []
   \<and> ta_subst_index (new_arena tm) = Map.empty"
  by (simp add: new_arena_def sentinels_def sx_bind_def sx_apply tm_mk_ty_def mk_ty_def compute_flags_def alloc_ty_def ta_new_def
     Ty_ERROR_def Ty_NEVER_def Ty_UNIT_def Ty_BOOL_def Ty_U8_def Ty_U64_def Ty_USIZE_def Ty_I32_def Ty_I64_def Ty_F64_def)


lemma extends_fail [keeps]: "extends tm (sx_fail e)"
  by (rule extends_same) (simp add: sx_apply)

lemma extends_seed [keeps]: "extends tm (seed tm ks)"
  by (induction tm ks rule: seed.induct) (auto intro!: keeps)

lemma new_arena_good: "arena_good (tm_ctx tm) (new_arena tm)"
proof -
  have "arena_room (new_arena tm)" by (simp add: arena_room_def new_arena_types sentinels_def)
  moreover have "arena_good (tm_ctx tm) ta_new"
    by (simp add: arena_good_def arena_ok_new flags_ok_def) (simp add: ta_new_def)
  ultimately show ?thesis using extends_seed [of tm sentinels] by (auto simp: extends_def new_arena_def)
qed

lemma new_arena_seeded: "seeded (new_arena tm)"
  by (simp add: seeded_def ty_kind_def new_arena_types sentinels_def Ty_ERROR_def Ty_I32_def Ty_F64_def)

section \<open>Sessions\<close>

definition start :: "TyCtxMut \<Rightarrow> InferState" where
  "start tm = \<lparr>in_table = table_new, in_arena = new_arena tm\<rparr>"

definition undo :: "InferState \<Rightarrow> InferState \<Rightarrow> InferState" where
  "undo s s' = s'\<lparr>in_table := rollback_to (snapshot_of (in_table s)) (in_table s')\<rparr>"

inductive session :: "TyCtxMut \<Rightarrow> InferState \<Rightarrow> bool" for tm where
  session_start: "session tm (start tm)"
| session_mk_ty: "session tm s \<Longrightarrow> session tm (snd (on_arena (tm_mk_ty tm k) s))"
| session_intern: "session tm s \<Longrightarrow> session tm (snd (on_arena (tm_intern xs) s))"
| session_ty_var: "session tm s \<Longrightarrow> length (it_ty_vars (in_table s)) < MAX_RESOLVE_DEPTH \<Longrightarrow>
     session tm (s\<lparr>in_table := snd (new_ty_var (in_table s))\<rparr>)"
| session_int_var: "session tm s \<Longrightarrow> session tm (s\<lparr>in_table := snd (new_int_var (in_table s))\<rparr>)"
| session_float_var: "session tm s \<Longrightarrow> session tm (s\<lparr>in_table := snd (new_float_var (in_table s))\<rparr>)"
| session_region_var: "session tm s \<Longrightarrow> session tm (s\<lparr>in_table := snd (new_region_var (in_table s))\<rparr>)"
| session_unify: "session tm s \<Longrightarrow> session tm (snd (unify n tm span a b s))"
| session_undo: "session tm s \<Longrightarrow> session tm (undo s (snd (unify n tm span a b s)))"
| session_resolve: "session tm s \<Longrightarrow> session tm (snd (resolve_ty_shallow t s))"
| session_diagnostics: "session tm s \<Longrightarrow> session tm (s\<lparr>in_table := snd (take_diagnostics (in_table s))\<rparr>)"

lemma value_of_push: "tv_value x = None \<Longrightarrow> value_of (vs @ [x]) = value_of vs"
  by (auto simp: value_of_def iv_get_def fun_eq_iff nth_append less_Suc_eq)

lemma new_var_probes:
  "probe_ty_var (snd (new_ty_var t)) = probe_ty_var t" "probe_int_var (snd (new_ty_var t)) = probe_int_var t"
  "probe_float_var (snd (new_ty_var t)) = probe_float_var t" "probe_ty_var (snd (new_int_var t)) = probe_ty_var t"
  "probe_int_var (snd (new_int_var t)) = probe_int_var t" "probe_float_var (snd (new_int_var t)) = probe_float_var t"
  "probe_ty_var (snd (new_float_var t)) = probe_ty_var t" "probe_int_var (snd (new_float_var t)) = probe_int_var t"
  "probe_float_var (snd (new_float_var t)) = probe_float_var t"
  by (simp_all add: new_ty_var_def new_int_var_def new_float_var_def iv_push_def probe_ty_var_def probe_int_var_def
      probe_float_var_def fun_eq_iff value_of_push)

lemma new_var_lengths:
  "length (it_ty_vars (snd (new_ty_var t))) = Suc (length (it_ty_vars t))"
  "it_ty_vars (snd (new_int_var t)) = it_ty_vars t" "it_ty_vars (snd (new_float_var t)) = it_ty_vars t"
  by (simp_all add: new_ty_var_def new_int_var_def new_float_var_def iv_push_def)

lemma inf_inv_new:
  assumes "inf_inv tm s" and "probe_ty_var t = probe_ty_var (in_table s)" and "probe_int_var t = probe_int_var (in_table s)"
    and "probe_float_var t = probe_float_var (in_table s)" and "length (it_ty_vars t) \<le> MAX_RESOLVE_DEPTH"
  shows "inf_inv tm (s\<lparr>in_table := t\<rparr>)"
  using assms by (simp add: inf_inv_def table_ok_def)

lemma inf_inv_start: "inf_inv tm (start tm)"
  using new_arena_good
  by (simp add: inf_inv_def start_def table_ok_def table_new_def iv_new_def probe_ty_var_def probe_int_var_def
      probe_float_var_def value_of_def iv_get_def bindings_def acyclic_def)

lemma session_step: "inf_step tm s s' \<Longrightarrow> arena_le a (in_arena s) \<and> inf_inv tm s \<Longrightarrow> arena_le a (in_arena s') \<and> inf_inv tm s'"
  using arena_le_trans by (auto simp: inf_step_def)

lemma session_inv: "session tm s \<Longrightarrow> arena_le (new_arena tm) (in_arena s) \<and> inf_inv tm s"
proof (induction rule: session.induct)
  case session_start
  show ?case by (simp add: inf_inv_start) (simp add: start_def)
next
  case (session_mk_ty s k)
  show ?case by (rule session_step [OF _ session_mk_ty.IH]) (rule keepsD, intro keeps)
next
  case (session_intern s xs)
  show ?case by (rule session_step [OF _ session_intern.IH]) (rule keepsD, intro keeps)
next
  case (session_unify s n span a b)
  show ?case by (rule session_step [OF _ session_unify.IH]) (rule keepsD, intro keeps)
next
  case (session_undo s n span a b)
  show ?case unfolding undo_def
    by (rule session_step [OF rollback_step session_undo.IH]) (rule keepsD, intro keeps)
next
  case (session_resolve s t)
  show ?case by (rule session_step [OF _ session_resolve.IH]) (rule keepsD, intro keeps)
next
  case (session_region_var s)
  show ?case
    by (rule session_step [OF inf_step_same session_region_var.IH])
      (simp_all add: same_values_def new_region_var_def iv_push_def)
next
  case (session_diagnostics s)
  show ?case
    by (rule session_step [OF inf_step_same session_diagnostics.IH]) (simp_all add: same_values_def take_diagnostics_def)
qed (auto intro!: inf_inv_new simp: new_var_probes new_var_lengths, auto simp: inf_inv_def)

lemma session_table_ok: "session tm s \<Longrightarrow> arena_room (in_arena s) \<Longrightarrow> table_ok tm s"
  using session_inv by (simp add: inf_inv_def)

lemma session_seeded: "session tm s \<Longrightarrow> seeded (in_arena s)"
  using session_inv [of tm s] new_arena_seeded [of tm] arena_le_ty_kind by (auto simp: seeded_def)

lemma session_vars: "session tm s \<Longrightarrow> length (it_ty_vars (in_table s)) \<le> MAX_RESOLVE_DEPTH"
  using session_inv by (simp add: inf_inv_def)

end
