(* ===== verification/Infer_Resolve.thy ===== *)
theory Infer_Resolve
  imports Infer_Occurs
begin

text \<open>
  Full resolution: the variables \<open>collect_unresolved_vars\<close> finds are exactly the unbound ones the type
  still leads to, outside projections and trait objects, which the traversal does not enter.
\<close>

text \<open>The components the traversal visits.\<close>

definition visited :: "TypeArena \<Rightarrow> TyKind \<Rightarrow> Ty list" where
  "visited a k = (case k of TyKind.Projection _ \<Rightarrow> [] | TyKind.Dynamic _ _ \<Rightarrow> [] | _ \<Rightarrow> components a k)"

inductive unbound_in :: "InferState \<Rightarrow> Ty \<Rightarrow> u32 \<Rightarrow> bool" for s where
  unbound_var: "ty_kind (in_arena s) t = Inr (TyKind.Infer (InferTy v)) \<Longrightarrow>
     unat v < length (it_ty_vars (in_table s)) \<Longrightarrow> probe_ty_var (in_table s) v = None \<Longrightarrow> unbound_in s t v"
| unbound_value: "ty_kind (in_arena s) t = Inr (TyKind.Infer (InferTy x)) \<Longrightarrow>
     probe_ty_var (in_table s) x = Some u \<Longrightarrow> unbound_in s u v \<Longrightarrow> unbound_in s t v"
| unbound_part: "ty_kind (in_arena s) t = Inr k \<Longrightarrow> c \<in> set (visited (in_arena s) k) \<Longrightarrow> unbound_in s c v \<Longrightarrow> unbound_in s t v"

lemma unbound_in_cases:
  assumes "ty_kind (in_arena s) t = Inr k"
  shows "unbound_in s t v \<longleftrightarrow>
    (case k of TyKind.Infer (InferTy x) \<Rightarrow>
       (case probe_ty_var (in_table s) x of
          None \<Rightarrow> v = x \<and> unat x < length (it_ty_vars (in_table s)) | Some u \<Rightarrow> unbound_in s u v)
     | _ \<Rightarrow> \<exists>c\<in>set (visited (in_arena s) k). unbound_in s c v)"
proof -
  have step: "unbound_in s t v \<longleftrightarrow>
      (k = TyKind.Infer (InferTy v) \<and> unat v < length (it_ty_vars (in_table s)) \<and> probe_ty_var (in_table s) v = None) \<or>
      (\<exists>x u. k = TyKind.Infer (InferTy x) \<and> probe_ty_var (in_table s) x = Some u \<and> unbound_in s u v) \<or>
      (\<exists>c\<in>set (visited (in_arena s) k). unbound_in s c v)"
    by (subst unbound_in.simps) (use assms in auto)
  show ?thesis
  proof (cases "\<exists>x. k = TyKind.Infer (InferTy x)")
    case True
    then obtain x where "k = TyKind.Infer (InferTy x)" by blast
    then show ?thesis unfolding step by (auto simp: visited_def split: option.split)
  next
    case False
    then show ?thesis unfolding step by (cases k) (auto split: InferVar.split)
  qed
qed

lemma collect_each_exact:
  assumes "collect_each f ts s = (Inr vs, s')"
    and "\<And>t ws s'. t \<in> set ts \<Longrightarrow> f t s = (Inr ws, s') \<Longrightarrow> s' = s \<and> set ws = V t"
  shows "s' = s \<and> set vs = (\<Union>t\<in>set ts. V t)"
  using assms
proof (induction ts arbitrary: vs)
  case Nil
  then show ?case by (simp add: sx_apply)
next
  case (Cons t ts)
  from Cons.prems(1) obtain ws t' us where t: "f t s = (Inr ws, t')" and u: "collect_each f ts t' = (Inr us, s')"
    and vs: "vs = ws @ us" by (auto simp: sx_bind_def sx_apply split: prod.splits sum.splits)
  from Cons.prems(2) [OF _ t] have "t' = s" "set ws = V t" by simp_all
  with Cons.IH [of us] Cons.prems(2) u vs show ?case by auto
qed

lemma collect_args_exact:
  assumes "collect_args f u s = (Inr vs, s')"
    and "\<And>t ws s'. t \<in> set (subst_tys (in_arena s) u) \<Longrightarrow> f t s = (Inr ws, s') \<Longrightarrow> s' = s \<and> set ws = V t"
  shows "s' = s \<and> set vs = (\<Union>t\<in>set (subst_tys (in_arena s) u). V t)"
proof -
  from assms(1) obtain xs where xs: "substitution_args (in_arena s) u = Inr xs" "collect_each f (arg_tys xs) s = (Inr vs, s')"
    by (auto simp: collect_args_def sx_bind_def args_of_subst_apply split: sum.splits)
  then show ?thesis using collect_each_exact [OF xs(2), of V] assms(2) by (simp add: subst_tys_def)
qed

lemma collect_exact:
  assumes "collect_unresolved_vars n t s = (Inr vs, s')"
  shows "s' = s \<and> set vs = {v. unbound_in s t v}"
  using assms
proof (induction n arbitrary: t vs s')
  case 0
  then show ?case by (simp add: sx_apply)
next
  case (Suc n)
  let ?f = "collect_unresolved_vars n"
  from Suc.prems obtain k where k: "ty_kind (in_arena s) t = Inr k" and c: "collect_kind ?f k s = (Inr vs, s')"
    by (auto simp: sx_bind_def kind_of_ty_apply split: sum.splits)
  note IH = Suc.IH
  have args: "collect_args ?f u s = (Inr ws, s'') \<Longrightarrow>
      s'' = s \<and> set ws = (\<Union>t\<in>set (subst_tys (in_arena s) u). {v. unbound_in s t v})" for u ws s''
    by (rule collect_args_exact) (use IH in auto)
  have "s' = s \<and> set vs = {v. case k of TyKind.Infer (InferTy x) \<Rightarrow>
       (case probe_ty_var (in_table s) x of
          None \<Rightarrow> v = x \<and> unat x < length (it_ty_vars (in_table s)) | Some u \<Rightarrow> unbound_in s u v)
     | _ \<Rightarrow> \<exists>c\<in>set (visited (in_arena s) k). unbound_in s c v}"
  proof (cases k)
    case (Infer iv)
    with c show ?thesis
      by (cases iv) (auto simp: collect_kind_def sx_bind_def sx_apply visited_def probe_ty_var_def value_of_def iv_get_def
          idx_index_def dest: IH split: if_splits option.splits)
  next
    case (FnPtr sig)
    with c obtain ws t' us where i: "collect_args ?f (fs_inputs sig) s = (Inr ws, t')"
      and o: "?f (fs_output sig) t' = (Inr us, s')" and vs: "vs = ws @ us"
      by (auto simp: collect_kind_def sx_bind_def sx_apply split: prod.splits sum.splits)
    from args [OF i] IH o vs FnPtr show ?thesis by (auto simp: visited_def)
  qed (use c in \<open>auto simp: collect_kind_def visited_def sx_apply dest: IH args\<close>)
  then show ?case using unbound_in_cases [OF k] by auto
qed

text \<open>A type that passes the flag test has no variable at all.\<close>

lemma unbound_in_flag:
  assumes good: "arena_good ctx (in_arena s)" and "ty_flags (in_arena s) t = Inr f"
    and "f AND HAS_TY_INFER \<noteq> HAS_TY_INFER"
  shows "\<not> unbound_in s t v"
proof -
  have no: "ty_kind (in_arena s) u \<noteq> Inr (TyKind.Infer iv)" if "part_of (in_arena s) t u" for u iv
  proof
    assume "ty_kind (in_arena s) u = Inr (TyKind.Infer iv)"
    moreover have "bit f n \<longleftrightarrow> (\<exists>u k. part_of (in_arena s) t u \<and> ty_kind (in_arena s) u = Inr k \<and> bit (own_flags ctx k) n)" for n
      by (rule part_of_flags) (use good assms(2) in \<open>simp_all add: arena_good_def\<close>)
    ultimately have "\<forall>n. bit HAS_TY_INFER n \<longrightarrow> bit f n" using that by (metis own_flags.simps(1))
    then have "f AND HAS_TY_INFER = HAS_TY_INFER" by (auto simp: bit_eq_iff bit_and_iff)
    with assms(3) show False by simp
  qed
  have "unbound_in s u v \<Longrightarrow> (\<forall>x. part_of (in_arena s) u x \<longrightarrow> part_of (in_arena s) t x) \<Longrightarrow> False" for u
  proof (induction rule: unbound_in.induct)
    case (unbound_part u k c v)
    then have "c \<in> set (components (in_arena s) k)" by (cases k) (auto simp: visited_def)
    with unbound_part show ?case by (blast intro: part_step)
  qed (use no part_refl in blast)+
  then show ?thesis by blast
qed

lemma reads_non_ty_kind [reads]: "(\<And>t. inf_reads (f t)) \<Longrightarrow> inf_reads (non_ty_kind f k)"
  by (auto simp: non_ty_kind_def intro!: reads split: TyKind.split)

lemma reads_has_unresolved [reads]: "inf_reads (has_unresolved_non_ty_infer n t)"
  by (induction n arbitrary: t) (auto intro!: reads)

lemma unbound_in_mono: "unbound_in s t v \<Longrightarrow> same_state s s' \<Longrightarrow> unbound_in s' t v"
proof (induction rule: unbound_in.induct)
  case (unbound_var t v)
  then show ?case
    using same_state_probe [of s s'] by (intro unbound_in.unbound_var) (simp_all add: same_state_def same_values_def)
next
  case (unbound_value t x u v)
  then show ?case
    using same_state_probe [of s s'] by (intro unbound_in.unbound_value [of s' t x u]) (simp_all add: same_state_def)
next
  case (unbound_part t k c v)
  then show ?case by (intro unbound_in.unbound_part [of s' t k c]) (simp_all add: same_state_def)
qed

lemma same_state_sym: "same_state s t \<Longrightarrow> same_state t s"
  by (simp add: same_state_def same_values_def)

lemma unbound_in_same: "same_state s s' \<Longrightarrow> unbound_in s' t v \<longleftrightarrow> unbound_in s t v"
  using unbound_in_mono same_state_sym by blast

lemma fully_resolve_unbound:
  assumes "fully_resolve n ty s = (Inr r, s')" and good: "arena_good ctx (in_arena s)"
  shows "\<exists>t s1. resolve_ty_shallow ty s = (Inr t, s1) \<and>
    (case r of Inr t' \<Rightarrow> t' = t \<and> (\<forall>v. \<not> unbound_in s t v)
     | Inl vs \<Rightarrow> vs = [] \<or> set vs = {v. unbound_in s t v})"
proof -
  from assms(1) obtain t s1 b s2 where t: "resolve_ty_shallow ty s = (Inr t, s1)"
    and b: "has_unresolved_non_ty_infer n t s1 = (Inr b, s2)"
    and rest: "(if b then (Inr (Inl []), s2) else sx_bind (flags_of_ty t) (\<lambda>f.
         if f AND HAS_TY_INFER = HAS_TY_INFER then
           sx_bind (collect_unresolved_vars n t) (\<lambda>unresolved.
             sx_return (if unresolved = [] then Inr t else Inl unresolved))
         else sx_return (Inr t)) s2) = (Inr r, s')"
    by (auto simp: fully_resolve_def sx_bind_def sx_apply split: prod.splits sum.splits if_splits)
  have s2: "same_state s s2"
    using inf_readsD [OF reads_shallow t] inf_readsD [OF reads_has_unresolved b] by (rule same_state_trans)
  have "case r of Inr t' \<Rightarrow> t' = t \<and> (\<forall>v. \<not> unbound_in s t v)
     | Inl vs \<Rightarrow> vs = [] \<or> set vs = {v. unbound_in s t v}"
  proof (cases b)
    case True
    with rest show ?thesis by auto
  next
    case False
    with rest obtain f where f: "ty_flags (in_arena s2) t = Inr f"
      by (auto simp: sx_bind_def flags_of_ty_def split: sum.splits)
    show ?thesis
    proof (cases "f AND HAS_TY_INFER = HAS_TY_INFER")
      case True
      with rest False f obtain vs s3 where c: "collect_unresolved_vars n t s2 = (Inr vs, s3)"
        and "r = (if vs = [] then Inr t else Inl vs)"
        by (auto simp: sx_bind_def sx_apply flags_of_ty_def split: prod.splits sum.splits)
      with collect_exact [OF c] unbound_in_same [OF s2] show ?thesis by auto
    next
      case no: False
      with rest False f have "r = Inr t" by (simp add: sx_bind_def sx_apply flags_of_ty_def)
      moreover have "\<not> unbound_in s2 t v" for v
        by (rule unbound_in_flag [where ctx = ctx, OF _ f no]) (use good s2 in \<open>simp add: same_state_def\<close>)
      ultimately show ?thesis using unbound_in_same [OF s2] by simp
    qed
  qed
  with t show ?thesis by blast
qed

end
