(* ===== verification/Infer_Theorems.thy ===== *)
theory Infer_Theorems
  imports Infer_Session Infer_Resolve
begin

text \<open>
  The properties of the inference table, and what unification gets wrong.
\<close>

section \<open>Samples\<close>

definition fresh_var :: "TyCtxMut \<Rightarrow> Ty inf" where
  "fresh_var tm = (\<lambda>s. case new_ty_var (in_table s) of
     (v, t) \<Rightarrow> on_arena (tm_mk_ty tm (TyKind.Infer (InferTy v))) (s\<lparr>in_table := t\<rparr>))"

definition pair_ty :: "TyCtxMut \<Rightarrow> Ty \<Rightarrow> Ty \<Rightarrow> Ty inf" where
  "pair_ty tm a b = on_arena (sx_bind (tm_intern [GenericArg.Ty a, GenericArg.Ty b]) (\<lambda>s. tm_mk_ty tm (TyKind.Tuple s)))"

definition fresh_int :: "TyCtxMut \<Rightarrow> Ty inf" where
  "fresh_int tm = (\<lambda>s. case new_int_var (in_table s) of
     (v, t) \<Rightarrow> on_arena (tm_mk_ty tm (TyKind.Infer (InferInt v))) (s\<lparr>in_table := t\<rparr>))"

text \<open>Unify the pairs \<open>(a, b)\<close> and \<open>(c, d)\<close>.\<close>

definition unify_two :: "nat \<Rightarrow> TyCtxMut \<Rightarrow> Ty \<times> Ty \<Rightarrow> Ty \<times> Ty \<Rightarrow> Constraint list inf" where
  "unify_two n tm p q =
     sx_bind (pair_ty tm (fst p) (snd p)) (\<lambda>x. sx_bind (pair_ty tm (fst q) (snd q)) (\<lambda>y. unify n tm Span_DUMMY x y))"

definition bare_tm :: TyCtxMut where
  "bare_tm = \<lparr>tm_ctx = \<lparr>tc_adt_defs = Map.empty, tc_adt_reprs = Map.empty, tc_trait_defs = Map.empty, tc_interior_mutable = {}\<rparr>,
     tm_fn_sigs = Map.empty, tm_closure_sigs = Map.empty, tm_deref_targets = Map.empty, tm_deref_templates = Map.empty,
     tm_impl_assoc_types = [], tm_name_str = (\<lambda>_. []), tm_debug = \<lparr>df_region = (\<lambda>_. []), df_trait_id = (\<lambda>_. []),
       df_const = (\<lambda>_. []), df_predicate = (\<lambda>_. [])\<rparr>\<rparr>"

definition var_clash :: "nat \<Rightarrow> Ty option inf" where
  "var_clash n = sx_bind (fresh_var bare_tm) (\<lambda>v. sx_bind (unify_two n bare_tm (v, v) (Ty_I32, Ty_BOOL)) (\<lambda>_.
     sx_get (\<lambda>s. probe_ty_var (in_table s) 0)))"

definition int_clash :: "nat \<Rightarrow> Ty option inf" where
  "int_clash n = sx_bind (fresh_int bare_tm) (\<lambda>v. sx_bind (unify_two n bare_tm (v, v) (Ty_U8, Ty_I64)) (\<lambda>_.
     sx_get (\<lambda>s. probe_int_var (in_table s) 0)))"

definition swapped :: "nat \<Rightarrow> Constraint list inf" where
  "swapped n = sx_bind (fresh_var bare_tm) (\<lambda>v. sx_bind (fresh_var bare_tm) (\<lambda>w. unify_two n bare_tm (v, w) (w, v)))"


definition one_var :: InferState where
  "one_var = snd (fresh_var bare_tm (start bare_tm))"

definition bound_var :: InferState where
  "bound_var = snd (unify 8 bare_tm Span_DUMMY 16 Ty_I32 one_var)"

lemma one_var_session: "session bare_tm one_var"
proof -
  have "one_var = snd (on_arena (tm_mk_ty bare_tm (TyKind.Infer (InferTy 0)))
      ((start bare_tm)\<lparr>in_table := snd (new_ty_var (in_table (start bare_tm)))\<rparr>))"
    by (simp add: one_var_def fresh_var_def new_ty_var_def iv_push_def start_def table_new_def iv_new_def idx_from_usize_def)
  moreover have "length (it_ty_vars (in_table (start bare_tm))) < MAX_RESOLVE_DEPTH"
    by (simp add: start_def table_new_def iv_new_def MAX_RESOLVE_DEPTH_def)
  ultimately show ?thesis by (metis session_mk_ty session_ty_var session_start)
qed

lemma bound_var_session: "session bare_tm bound_var"
  unfolding bound_var_def by (intro session.intros one_var_session)

lemma sample_sizes:
  "length (ta_types (in_arena one_var)) = 17" "length (ta_substitution_data (in_arena one_var)) = 0"
  "length (ta_types (in_arena bound_var)) = 17" "length (ta_substitution_data (in_arena bound_var)) = 0"
  by code_simp+

lemma sample_probes: "probe_ty_var (in_table bound_var) 0 = Some Ty_I32" "probe_ty_var (in_table one_var) 0 = None"
  by code_simp+

lemma sample_room: "arena_room (in_arena bound_var)" "arena_room (in_arena one_var)" "valid_ty (in_arena one_var) 16"
  by (simp_all add: arena_room_def valid_ty_def sample_sizes)

section \<open>Properties\<close>





text \<open>
  C32. A rollback undoes a unification: whatever it bound and however it ended, restoring the snapshot
  taken before gives every type variable its value back.
\<close>

theorem rollback_undoes_unification:
  "same_values (in_table s) (in_table (undo s (snd (unify n tm span a b s))))"
proof -
  have "inf_step tm s (snd (unify n tm span a b s))" by (rule keepsD) (rule keeps)
  then show ?thesis by (simp add: inf_step_def same_size_def same_values_def undo_def rollback_to_def snapshot_of_def)
qed




text \<open>
  Unification rejects two types that are equal under a binding: the pairs of two variables in either
  order.  The second components are one variable by then, and the occurs check, which resolves the other
  side only, takes it for an infinite type.
\<close>

theorem unify_rejects_swapped_vars:
  "fst (swapped 8 (start bare_tm)) =
     Inl (Mismatch [type_error Span_DUMMY ''cannot construct infinite type: ?ty1 = ?ty0''])"
  by code_simp

section \<open>What resolution and rollback miss\<close>

text \<open>A projection on an unbound variable is fully resolved.\<close>

definition open_projection :: "TyCtxMut \<Rightarrow> Ty inf" where
  "open_projection tm = sx_bind (fresh_var tm) (\<lambda>v. on_arena (sx_bind (tm_intern [GenericArg.Ty v]) (\<lambda>u.
     tm_mk_ty tm (TyKind.Projection \<lparr>pj_trait_ref = \<lparr>tr_def_id = 1, tr_substs = u\<rparr>, pj_item_name = 2\<rparr>))))"

lemma fully_resolve_misses_projections:
  "fst (sx_bind (open_projection bare_tm) (fully_resolve 8) (start bare_tm)) = Inr (Inr 17)"
  by code_simp

text \<open>A variable made after the snapshot keeps its binding in a rollback.\<close>

lemma copy_front_eq: "copy_front ds ss = take (length ds) ss @ drop (length ss) ds"
  by (induction ds ss rule: copy_front.induct) simp_all

lemma rollback_keeps_new_bindings:
  assumes "length (it_ty_vars t0) \<le> unat v"
  shows "probe_ty_var (rollback_to (snapshot_of t0) t) v = probe_ty_var t v"
  using assms
  by (simp add: probe_ty_var_def value_of_def rollback_to_def snapshot_of_def iv_get_def idx_index_def copy_front_eq nth_append min_def)

end
