(* ===== verification/Spec2Isabelle.thy ===== *)
theory Spec2Isabelle
  imports Span_Props Lexer_Operators Type_Arena_Props Layout_Theorems Bytecode_VM_Theorems Bytecode_Codec_Theorems Emit_Props
    Opt_Theorems Opt_Drop_Flags Borrowck_Twophase_Props Borrowck_Places Borrowck_Moves_Theorems Infer_Theorems
begin

text \<open>
  Glyim: the middle end and the bytecode backend of a compiler for a Rust-like language.

  \<^bold>\<open>The program.\<close>  Source text is parsed (\<open>glyim-frontend\<close>), lowered to HIR
  (\<open>glyim-hir\<close>), type-checked (\<open>glyim-typeck\<close>, \<open>glyim-solve\<close>) and lowered to MIR,
  a control-flow graph (\<open>glyim-mir\<close>, \<open>glyim-lower\<close>).  \<open>glyim-borrowck\<close> rejects bodies
  that use a value they have moved or access what a live reference borrows; \<open>glyim-opt\<close> validates and
  optimizes MIR; \<open>glyim-codegen\<close> turns it into bytecode, which
  \<open>glyim-bytecode-vm\<close> executes (\<open>glyim-codegen-llvm\<close> is the native backend).  Spans and
  macro hygiene (\<open>glyim-span\<close>) and the primitive vocabulary (\<open>glyim-core\<close>) are shared
  by all phases.

  \<^bold>\<open>The theories.\<close>
  \<^item> \<open>Prelude\<close>: machine integers, little-endian bytes, computations with state and failure
    (\<open>sx\<close>) with their Hoare triples, code found at an offset.
  \<^item> \<open>Core_Primitives\<close>, \<open>Core_Arena\<close> (\<open>crates/glyim-core/src\<close>): targets,
    primitive types, lints, alignment, paths; typed indices and \<open>IndexVec\<close>.  The locale
    \<open>id_table\<close> is the contract of an append-only table, interpreted on \<open>IndexVec\<close> and on both
    tables of the hygiene context.
  \<^item> \<open>Span_Hygiene\<close>, \<open>Span_Props\<close> (\<open>crates/glyim-span/src\<close>): spans, marks, expansions.
  \<^item> \<open>Lexer\<close>, \<open>Lexer_Scan\<close>, \<open>Lexer_Rules\<close>, \<open>Lexer_Theorems\<close>, \<open>Lexer_Operators\<close>
    (\<open>crates/glyim-frontend/src/lexer.rs\<close>): the lexer over byte positions of UTF-8 text, with slices
    off a character boundary as panics.  \<open>scans\<close> and \<open>consumes\<close> say what a method reads, with
    structural rules; the locale \<open>scanner\<close> is what the main loop relies on, interpreted on every arm;
    \<open>lexes\<close> relates a text to its tokens.  The main loop is a partial function, and
    \<open>lex_lossless\<close> shows that it returns.
  \<^item> \<open>Mir_Types\<close> (\<open>crates/glyim-type/src\<close>, \<open>crates/glyim-mir/src/lib.rs\<close>): type
    kinds, the \<open>TypeLookup\<close> interface as a record of its methods, MIR and \<open>Place::ty\<close>.
  \<^item> \<open>Type_Arena\<close>, \<open>Type_Arena_Props\<close> (\<open>crates/glyim-type/src/type_arena.rs\<close>,
    \<open>flags.rs\<close>): the canonical interner of types and substitutions with the cached type flags.  The
    locale \<open>intern_table\<close> is the contract of a canonical interner, interpreted on both tables.
  \<^item> \<open>Layout\<close>, \<open>Layout_Inv\<close>, \<open>Layout_Theorems\<close> (\<open>crates/glyim-layout/src\<close>): sizes,
    alignments, field offsets, enum tags and niches, calling conventions, vtables.  A method of the
    layout computer is an \<open>sx\<close> computation over the type arena and the set of types in progress;
    \<open>lay_post\<close> is its Hoare triple.  \<open>layout_of\<close> and \<open>subst_params\<close> take a bound on the depth of
    nested calls (the host's stack): \<open>layout_of_depth\<close> shows that the bound only matters when it runs
    out, \<open>subst_params_terminates\<close> that the handle of a type bounds the depth of substituting in it.
  \<^item> \<open>Bytecode_VM\<close>, \<open>Bytecode_VM_Props\<close>, \<open>Bytecode_VM_Theorems\<close>
    (\<open>crates/glyim-bytecode-vm/src/lib.rs\<close>): the virtual machine, one \<open>vm_step\<close> per iteration
    of \<open>Vm::drive\<close>; \<open>drive\<close> is a partial function, so that a program that runs forever is \<open>None\<close>.
  \<^item> \<open>Bytecode_Codec\<close>, \<open>Bytecode_Codec_Theorems\<close>, \<open>Bytecode_Emit\<close>,
    \<open>Emit_Correct\<close>, \<open>Emit_Props\<close> (\<open>crates/glyim-codegen/src/lib.rs\<close>): opcodes,
    decoder, encoder, peephole pass, and the emission of functions with the backend's tables as
    state.  The locale \<open>interner\<close> is the contract of the string and function tables.
  \<^item> \<open>Mir_Semantics\<close>: a reference interpreter of MIR, the specification the backend and the
    optimizer are proved against.  It covers scalar bodies: assignments between unprojected locals
    of constants, copies, unary and binary operations; every terminator but \<open>Call\<close> and \<open>Drop\<close>.
  \<^item> \<open>Opt_Validate\<close>, \<open>Opt_ConstProp\<close>, \<open>Opt_ConstProp_Props\<close>, \<open>Opt_Dce\<close>,
    \<open>Opt_Cfg\<close>, \<open>Opt_Cfg_Props\<close>, \<open>Opt_Slice\<close> (\<open>crates/glyim-opt/src\<close>): validation and the passes of
    \<open>optimize\<close>.  \<open>Opt_Slice\<close> threads the locals a pass adds and the statements it puts in front through a
    statement (\<open>slicing\<close>; \<open>tidies\<close> is the contract of such a computation).
  \<^item> \<open>Opt_Pipeline\<close>, \<open>Opt_Scalar\<close>, \<open>Opt_Theorems\<close> (\<open>lib.rs\<close> of the same crate): the passes in the order
    \<open>optimize\<close> runs them, with the panics of its checks; each pass keeps bodies scalar, so that the passes
    compose with each other and with the emission of bytecode.
  \<^item> \<open>Opt_Drop\<close>, \<open>Opt_Drop_Init\<close>, \<open>Opt_Drop_Runs\<close>, \<open>Opt_Drop_Shape\<close>, \<open>Opt_Drop_Theorems\<close>,
    \<open>Opt_Drop_Flags\<close> (\<open>drop_elaboration.rs\<close>): drop flags, element flags, guards and array loops.  The
    initialization analysis, whose loop is shown to end by the slots it clears, against the inductive
    \<open>maybe_uninit\<close>; the shape of an elaborated body (\<open>elaborated\<close>); a small machine that runs drops
    (\<open>drop_run\<close>, with the drops as its trace), on which array loops and flags are judged.
  \<^item> \<open>Bitset\<close>, \<open>Worklist\<close>: steps that may panic, the bit sets of the crate \<open>fixedbitset\<close> as
    a parameter (\<open>bitset_laws\<close> is what the analyses rely on; bit vectors satisfy it) and the worklist
    loop of the dataflow analyses.  The locale \<open>worklist\<close> is the contract of a monotone analysis: its
    loop ends, never panics, and leaves the least solution.
  \<^item> \<open>Borrowck_Visitor\<close>, \<open>Borrowck_Places\<close>, \<open>Borrowck_Liveness\<close>, \<open>Borrowck_Liveness_Props\<close>,
    \<open>Borrowck_Twophase\<close>, \<open>Borrowck_Twophase_Props\<close>, \<open>Borrowck_Check\<close>, \<open>Borrowck_Check_Props\<close>
    (\<open>visitor.rs\<close>, \<open>liveness.rs\<close>, \<open>twophase.rs\<close>, \<open>lib.rs\<close> of \<open>crates/glyim-borrowck/src\<close>):
    places and the memory cells they cover, liveness (an interpretation of \<open>worklist\<close>, exact against
    the inductive \<open>used_later\<close>), reservations of two-phase borrows, loans and conflicts.
  \<^item> \<open>Borrowck_Moves\<close>, \<open>Borrowck_Moves_Props\<close>, \<open>Borrowck_Moves_Flow\<close>,
    \<open>Borrowck_Moves_Theorems\<close> (\<open>move_analysis.rs\<close>): the arena of move paths, which the search grows,
    the dataflow of moves and dead storage (the other interpretation of \<open>worklist\<close>), and the check of
    uses.  \<open>Mir_Samples\<close> holds the bodies the properties are tried on.
  \<^item> \<open>Diagnostics\<close> (\<open>crates/glyim-diag/src/lib.rs\<close>): the diagnostics the checks report.
  \<^item> \<open>Type_Ctx\<close> (\<open>ty_ctx_mut.rs\<close>, \<open>ty_ctx.rs\<close>, \<open>display.rs\<close> of
    \<open>crates/glyim-type/src\<close>): substitution of parameters with normalization of projections,
    dereferencing and printing, as computations over the type arena.
  \<^item> \<open>Infer_Table\<close>, \<open>Infer_Unify\<close> (\<open>crates/glyim-solve/src/infer.rs\<close>): inference variables,
    snapshots, resolution, the occurs check, and unification with one definition per arm.  An \<open>Err\<close> is the
    exception \<open>Mismatch\<close>, after which the bindings made so far stay.
  \<^item> \<open>Infer_Props\<close>, \<open>Infer_Occurs\<close>, \<open>Infer_Acyclic\<close>, \<open>Infer_Exact\<close>, \<open>Infer_Resolve\<close>,
    \<open>Infer_Session\<close>, \<open>Infer_Theorems\<close>: the invariant \<open>table_ok\<close> (valid handles, acyclic
    bindings) with a rule per combinator and arm (\<open>keeps\<close>), the occurs check and full resolution against the
    graph of bindings, and the states \<open>session\<close> reaches from a new context (its fixed types are
    \<open>sentinels\<close>).

  \<^bold>\<open>What is shown.\<close>  Lexing loses nothing, is stable under cutting at token boundaries and reads the
  longest operator.  The emitted bytecode of a scalar body runs as the body does and diverges
  when it does (simulation); CFG simplification, unreachable-block elimination, dead-code
  elimination and (where no join adopts a constant) constant propagation preserve runs,
  so \<open>optimize\<close> does, and the bytecode of the optimized body runs as the body before it; slice
  desugaring leaves no slice element inside a place; drop
  elaboration guards drops exactly where its (exact) initialization analysis says, its flags know on every
  path whether the local was assigned, and its array loops drop every element once; the machine keeps its invariant; decoding inverts encoding on instructions of fixed width; the
  validator is exact; tables give distinct identifiers; interned types are canonical and their flags
  exact; the borrow checker's liveness is exact, its errors are
  those of the active loans that conflict and, for bodies without element or variant projections, those
  of the uses its move analysis reaches; every computed layout is well formed, packs its fields and keeps an enum's tag and data apart; no sequence
  of unifications and rollbacks makes a cyclic binding, the occurs check ends and is exact, and full
  resolution reports exactly the unbound variables it can reach.  Several theorems state a defect: what the
  code does there differs from what a comment or the design says.

  \<^bold>\<open>Conventions.\<close>  A record or datatype has the source's fields or constructors; a panic
  is \<open>Inl Panicked\<close> (or \<open>Panic\<close>, \<open>EmitPanic\<close>); a Rust integer is a word, and its unchecked
  arithmetic panics on overflow, since every build profile keeps overflow checks on.  A hash map is
  a map or an association list with distinct keys.  Fuel appears in \<open>mir_run\<close>, where the
  properties speak of some or of the same fuel, in \<open>flow_loop\<close>, where it is the source's own
  \<open>MAX_ITERATIONS\<close>, and in the recursions of the inference table, where running out is the exception
  \<open>InferTooDeep\<close>: \<open>check_rank\<close> bounds what the occurs check needs; a session has at most 256 general
  variables, since longer chains run into the source's own \<open>MAX_RESOLVE_DEPTH\<close>.

  \<^bold>\<open>Not modelled.\<close>  Parsing, HIR, type checking, trait selection, name resolution, MIR
  lowering, constant evaluation, the MIR
  interpreter, the package manager and the macro language are not modelled yet; the LLVM backend, the
  language server, the drivers and the runtime shims are glue over third-party code and the operating
  system.
\<close>

end
